(* ===== verification/Prelude.thy ===== *)
theory Prelude
  imports Main "HOL-Library.Word"
begin

text \<open>
  What every component of the development shares: the result type of C code whose
  undefined behaviour, assertion failures and \<^verbatim>\<open>BUG()\<close> calls are values, bounded array
  access, the signed 32-bit range of \<^verbatim>\<open>int\<close>, counting the entries of a finite map, and
  reachable states with the interface that turns a one-step invariant into an invariant
  of every reachable state.
\<close>

named_theorems res_simps
  \<open>unfolding of the result monad\<close>
named_theorems upd_simps
  \<open>equations for array and map updates\<close>

section \<open>Results of C code\<close>

text \<open>
  \<^item> \<open>Uninit\<close>: an uninitialised variable is read;
  \<^item> \<open>OutOfBounds\<close>: an array or buffer is accessed outside its bounds;
  \<^item> \<open>NullDeref\<close>: a null pointer is dereferenced;
  \<^item> \<open>UseAfterFree\<close>: freed memory is accessed;
  \<^item> \<open>AssertFail\<close>: an \<^verbatim>\<open>assert\<close>, \<^verbatim>\<open>ASSERT\<close> or \<^verbatim>\<open>ASSERTZ\<close> fails;
  \<^item> \<open>Bug\<close>: \<^verbatim>\<open>BUG()\<close>, \<^verbatim>\<open>BUG_ON\<close> or an unreachable branch is executed;
  \<^item> \<open>Die\<close>: the process exits through \<^verbatim>\<open>die\<close> or \<^verbatim>\<open>exit\<close>;
  \<^item> \<open>Diverges\<close>: a loop over a linked structure does not end within its bound.
\<close>

datatype c_error =
  Uninit | OutOfBounds | NullDeref | UseAfterFree | AssertFail | Bug | Die | Diverges

type_synonym 'a res = "c_error + 'a"

definition rbind :: "'a res \<Rightarrow> ('a \<Rightarrow> 'b res) \<Rightarrow> 'b res" where
  "rbind r f = (case r of Inl e \<Rightarrow> Inl e | Inr x \<Rightarrow> f x)"

lemma rbind_simps [simp, res_simps]:
  "rbind (Inl e) f = Inl e"
  "rbind (Inr x) f = f x"
  by (simp_all add: rbind_def)

lemma rbind_eq_Inr: "rbind r f = Inr y \<longleftrightarrow> (\<exists>x. r = Inr x \<and> f x = Inr y)"
  by (cases r) auto

lemma rbind_eq_Inl:
  "rbind r f = Inl e \<longleftrightarrow> r = Inl e \<or> (\<exists>x. r = Inr x \<and> f x = Inl e)"
  by (cases r) auto

text \<open>A local variable that may not have been assigned.\<close>

definition init_var :: "'a option \<Rightarrow> 'a res" where
  "init_var v = (case v of None \<Rightarrow> Inl Uninit | Some x \<Rightarrow> Inr x)"

lemma init_var_simps [simp]: "init_var (Some x) = Inr x" "init_var None = Inl Uninit"
  by (simp_all add: init_var_def)

text \<open>A loop over the elements of a list that may fail.\<close>

fun rfold :: "('a \<Rightarrow> 's \<Rightarrow> 's res) \<Rightarrow> 'a list \<Rightarrow> 's \<Rightarrow> 's res" where
  "rfold f [] s = Inr s"
| "rfold f (x # xs) s = rbind (f x s) (rfold f xs)"

lemma rfold_Inr: "(\<And>x s. x \<in> set xs \<Longrightarrow> f x s = Inr (g x s)) \<Longrightarrow> rfold f xs s = Inr (fold g xs s)"
  by (induction xs arbitrary: s) simp_all

lemma rfold_append: "rfold f (xs @ ys) s = rbind (rfold f xs s) (rfold f ys)"
  by (induction xs arbitrary: s) (simp_all add: rbind_def split: sum.split)

text \<open>An array of \<open>n\<close> elements is a function, and an access is guarded by its bounds.\<close>

type_synonym 'a arr = "nat \<Rightarrow> 'a"

definition in_bounds :: "nat \<Rightarrow> int \<Rightarrow> bool" where
  "in_bounds n i \<longleftrightarrow> 0 \<le> i \<and> i < int n"

definition aget :: "nat \<Rightarrow> 'a arr \<Rightarrow> int \<Rightarrow> 'a res" where
  "aget n a i = (if in_bounds n i then Inr (a (nat i)) else Inl OutOfBounds)"

definition aset :: "nat \<Rightarrow> 'a arr \<Rightarrow> int \<Rightarrow> 'a \<Rightarrow> 'a arr res" where
  "aset n a i v = (if in_bounds n i then Inr (a(nat i := v)) else Inl OutOfBounds)"

lemma aget_Inr [upd_simps]: "aget n a i = Inr v \<longleftrightarrow> in_bounds n i \<and> v = a (nat i)"
  by (auto simp: aget_def)

lemma aset_Inr [upd_simps]: "aset n a i v = Inr b \<longleftrightarrow> in_bounds n i \<and> b = a(nat i := v)"
  by (auto simp: aset_def)

lemma in_bounds_of_nat [simp]: "in_bounds n (int k) \<longleftrightarrow> k < n"
  by (simp add: in_bounds_def)

lemma int_length_remove1: "e \<in> set q \<Longrightarrow> int (length (remove1 e q)) = int (length q) - 1"
  using length_pos_if_in_set [of e q] by (auto simp: length_remove1 of_nat_diff Suc_le_eq)

section \<open>Objects that are released\<close>

text \<open>
  An object behind a pointer, as an allocation or an object of the kernel, is absent, alive or released. A
  pointer that holds an error counts as absent.
\<close>

datatype rsrc = NoRes | Live | Freed

definition use_res :: "rsrc \<Rightarrow> unit res" where
  "use_res r = (case r of NoRes \<Rightarrow> Inl NullDeref | Live \<Rightarrow> Inr () | Freed \<Rightarrow> Inl UseAfterFree)"

definition put_res :: "rsrc \<Rightarrow> rsrc res" where
  "put_res r = (case r of NoRes \<Rightarrow> Inl NullDeref | Live \<Rightarrow> Inr Freed | Freed \<Rightarrow> Inl UseAfterFree)"

section \<open>Signed 32-bit integers\<close>

definition is_int32 :: "int \<Rightarrow> bool" where
  "is_int32 n \<longleftrightarrow> - (2 ^ 31) \<le> n \<and> n < 2 ^ 31"

text \<open>Conversion of a wider value to \<^verbatim>\<open>int\<close>: the low 32 bits, read as two's complement.\<close>

definition to_int32 :: "int \<Rightarrow> int" where
  "to_int32 n = (n + 2 ^ 31) mod 2 ^ 32 - 2 ^ 31"

lemma to_int32_id: "is_int32 n \<Longrightarrow> to_int32 n = n"
  by (simp add: is_int32_def to_int32_def)

lemma is_int32_to_int32: "is_int32 (to_int32 n)"
proof -
  have "0 \<le> (n + 2 ^ 31) mod 2 ^ 32" "(n + 2 ^ 31) mod 2 ^ 32 < (2 ^ 32 :: int)"
    by simp_all
  then show ?thesis by (simp add: is_int32_def to_int32_def)
qed

section \<open>Counting the entries of a finite map\<close>

definition mcount :: "('v \<Rightarrow> bool) \<Rightarrow> ('k \<rightharpoonup> 'v) \<Rightarrow> nat" where
  "mcount P m = card {k. \<exists>v. m k = Some v \<and> P v}"

lemma mcount_finite: "finite (dom m) \<Longrightarrow> finite {k. \<exists>v. m k = Some v \<and> P v}"
  by (rule finite_subset [of _ "dom m"]) auto

lemma mcount_empty [simp]: "mcount P Map.empty = 0"
  by (simp add: mcount_def)

lemma mcount_new:
  assumes "finite (dom m)" and "m k = None"
  shows "mcount P (m(k \<mapsto> v)) = mcount P m + (if P v then 1 else 0)"
proof -
  have "{j. \<exists>w. (m(k \<mapsto> v)) j = Some w \<and> P w} =
      {j. \<exists>w. m j = Some w \<and> P w} \<union> (if P v then {k} else {})"
    using assms(2) by auto
  with assms mcount_finite [OF assms(1), of P] show ?thesis
    by (simp add: mcount_def)
qed

lemma mcount_del:
  assumes "finite (dom m)" and "m k = Some v"
  shows "mcount P m = mcount P (m(k := None)) + (if P v then 1 else 0)"
proof -
  have "finite (dom (m(k := None)))" using assms(1) by simp
  moreover have "m = (m(k := None))(k \<mapsto> v)" using assms(2) by auto
  ultimately show ?thesis
    using mcount_new [of "m(k := None)" k P v] by simp
qed

lemma mcount_upd:
  assumes "finite (dom m)" and "m k = Some v"
  shows "int (mcount P (m(k \<mapsto> w))) =
    int (mcount P m) - (if P v then 1 else 0) + (if P w then 1 else 0)"
proof -
  have "finite (dom (m(k := None)))" using assms(1) by simp
  then have "mcount P ((m(k := None))(k \<mapsto> w)) =
      mcount P (m(k := None)) + (if P w then 1 else 0)"
    by (rule mcount_new) simp
  moreover have "(m(k := None))(k \<mapsto> w) = m(k \<mapsto> w)" by simp
  ultimately show ?thesis using mcount_del [OF assms, of P] by simp
qed

lemma mcount_int_new:
  "finite (dom m) \<Longrightarrow> m k = None \<Longrightarrow>
    int (mcount P (m(k \<mapsto> v))) = int (mcount P m) + (if P v then 1 else 0)"
  by (simp add: mcount_new)

lemma mcount_int_del:
  "finite (dom m) \<Longrightarrow> m k = Some v \<Longrightarrow>
    int (mcount P (m(k := None))) = int (mcount P m) - (if P v then 1 else 0)"
  using mcount_del [of m k v P] by simp

lemma mcount_or:
  assumes "finite (dom m)" and "\<And>x. \<not> (P x \<and> Q x)"
  shows "mcount (\<lambda>x. P x \<or> Q x) m = mcount P m + mcount Q m"
proof -
  let ?S = "\<lambda>P. {k. \<exists>v. m k = Some v \<and> P v}"
  have "?S (\<lambda>x. P x \<or> Q x) = ?S P \<union> ?S Q" by auto
  moreover have "?S P \<inter> ?S Q = {}" using assms(2) by auto
  ultimately show ?thesis
    unfolding mcount_def
    by (simp add: card_Un_disjoint mcount_finite [OF assms(1)])
qed

lemma mcount_cong:
  "(\<And>k v. m k = Some v \<Longrightarrow> P v \<longleftrightarrow> Q v) \<Longrightarrow> mcount P m = mcount Q m"
  unfolding mcount_def by (rule arg_cong [where f = card]) auto

lemma mcount_dom: "mcount (\<lambda>_. True) m = card (dom m)"
  by (simp add: mcount_def dom_def)

section \<open>Reachable states and invariants\<close>

inductive reach :: "('s \<Rightarrow> bool) \<Rightarrow> ('s \<Rightarrow> 's \<Rightarrow> bool) \<Rightarrow> 's \<Rightarrow> bool" for I R where
  reach_init: "I s \<Longrightarrow> reach I R s"
| reach_step: "reach I R s \<Longrightarrow> R s t \<Longrightarrow> reach I R t"

text \<open>
  The contract between a step relation and a state predicate that it keeps. The components
  whose behaviour is a step relation interpret it with their initial states, their steps
  and their invariant.
\<close>

locale kept_invariant =
  fixes init :: "'s \<Rightarrow> bool" and step :: "'s \<Rightarrow> 's \<Rightarrow> bool" and inv :: "'s \<Rightarrow> bool"
  assumes inv_init: "init s \<Longrightarrow> inv s"
    and inv_step: "inv s \<Longrightarrow> step s t \<Longrightarrow> inv t"
begin

lemma reach_inv: "reach init step s \<Longrightarrow> inv s"
  by (induction rule: reach.induct) (auto intro: inv_init inv_step)

lemma steps_inv: "step\<^sup>*\<^sup>* s t \<Longrightarrow> inv s \<Longrightarrow> inv t"
  by (induction rule: rtranclp_induct) (auto intro: inv_step)

lemma reach_steps: "reach init step s \<Longrightarrow> step\<^sup>*\<^sup>* s t \<Longrightarrow> reach init step t"
  by (rotate_tac, induction rule: rtranclp_induct) (auto intro: reach_step)

end

section \<open>Executions and simulations\<close>

inductive exec :: "('s \<Rightarrow> 'e \<Rightarrow> 's \<Rightarrow> bool) \<Rightarrow> 's \<Rightarrow> 'e list \<Rightarrow> 's \<Rightarrow> bool" for R where
  exec_nil: "exec R s [] s"
| exec_cons: "R s ev s' \<Longrightarrow> exec R s' evs s'' \<Longrightarrow> exec R s (ev # evs) s''"

inductive_cases exec_ConsE: "exec R s (ev # evs) s'"
inductive_cases exec_NilE: "exec R s [] s'"

lemma exec_append: "exec R s evs s' \<Longrightarrow> exec R s' fvs s'' \<Longrightarrow> exec R s (evs @ fvs) s''"
  by (induction rule: exec.induct) (auto intro: exec_cons)

text \<open>
  A labelled step relation implements a deterministic specification: every event of the
  implementation is one the specification allows (\<open>ok\<close>) in the abstract state, and the
  abstract state after it (\<open>next\<close>) is again related.
\<close>

fun all_ok :: "('e \<Rightarrow> 'v \<Rightarrow> bool) \<Rightarrow> ('e \<Rightarrow> 'v \<Rightarrow> 'v) \<Rightarrow> 'e list \<Rightarrow> 'v \<Rightarrow> bool" where
  "all_ok ok nxt [] v = True"
| "all_ok ok nxt (ev # evs) v \<longleftrightarrow> ok ev v \<and> all_ok ok nxt evs (nxt ev v)"

locale simulation =
  fixes step :: "'s \<Rightarrow> 'e \<Rightarrow> 's \<Rightarrow> bool"
    and ok :: "'e \<Rightarrow> 'v \<Rightarrow> bool"
    and nxt :: "'e \<Rightarrow> 'v \<Rightarrow> 'v"
    and rel :: "'v \<Rightarrow> 's \<Rightarrow> bool"
  assumes simulates: "rel v s \<Longrightarrow> step s ev s' \<Longrightarrow> ok ev v \<and> rel (nxt ev v) s'"
begin

lemma exec_simulates:
  "exec step s evs s' \<Longrightarrow> rel v s \<Longrightarrow> all_ok ok nxt evs v \<and> rel (fold nxt evs v) s'"
  by (induction arbitrary: v rule: exec.induct) (auto dest: simulates)

end

end
