(* ===== verification/Prefetch_Ring.thy ===== *)
theory Prefetch_Ring
  imports Prelude
begin

text \<open>
  The ring of recently swapped-out slots of \<^verbatim>\<open>src/harvester/tswap/main.c\<close>
  (\<^verbatim>\<open>tswap_prefetch_buffer\<close> with its head and tail). \<^verbatim>\<open>tswap_frontswap_store\<close> pushes
  the slot of every store and drops the oldest one when the ring is full;
  \<^verbatim>\<open>tswap_prefetch_store\<close> pops the newest slots. The interface \<open>drop_oldest_stack\<close> states
  what its clients rely on, and the ring is its interpretation.
\<close>

section \<open>Definitions\<close>

record tswap_prefetch_info =
  pf_type :: nat
  pf_offset :: nat

text \<open>\<^verbatim>\<open>PREFETCH_BUFFER_SIZE\<close> is \<^verbatim>\<open>1 << (34 - PAGE_SHIFT)\<close>, and pages have 4 KiB.\<close>

definition PAGE_SHIFT :: nat where
  "PAGE_SHIFT = 12"

definition PREFETCH_BUFFER_SIZE :: nat where
  "PREFETCH_BUFFER_SIZE = 2 ^ (34 - PAGE_SHIFT)"

record prefetch_ring =
  pr_buf :: "tswap_prefetch_info arr"
  pr_head :: nat
  pr_tail :: nat

definition ring_init :: "tswap_prefetch_info arr \<Rightarrow> prefetch_ring" where
  "ring_init garbage = \<lparr>pr_buf = garbage, pr_head = 0, pr_tail = 0\<rparr>"

definition ring_push :: "tswap_prefetch_info \<Rightarrow> prefetch_ring \<Rightarrow> prefetch_ring" where
  "ring_push i r =
     (let head = (if (pr_tail r + 1) mod PREFETCH_BUFFER_SIZE = pr_head r
                  then (pr_head r + 1) mod PREFETCH_BUFFER_SIZE else pr_head r)
      in \<lparr>pr_buf = (pr_buf r)(pr_tail r := i), pr_head = head,
          pr_tail = (pr_tail r + 1) mod PREFETCH_BUFFER_SIZE\<rparr>)"

definition ring_pop :: "prefetch_ring \<Rightarrow> (tswap_prefetch_info \<times> prefetch_ring) option" where
  "ring_pop r =
     (if pr_tail r = pr_head r then None
      else let tail = (pr_tail r + PREFETCH_BUFFER_SIZE - 1) mod PREFETCH_BUFFER_SIZE
           in Some (pr_buf r tail, r\<lparr>pr_tail := tail\<rparr>))"

section \<open>The interface: a bounded stack that forgets its oldest element\<close>

text \<open>Popping up to \<open>n\<close> elements, as the loop of \<^verbatim>\<open>tswap_prefetch_store\<close> does.\<close>

fun drain :: "('r \<Rightarrow> ('a \<times> 'r) option) \<Rightarrow> nat \<Rightarrow> 'r \<Rightarrow> 'a list \<times> 'r" where
  "drain pop 0 r = ([], r)"
| "drain pop (Suc n) r =
     (case pop r of None \<Rightarrow> ([], r)
      | Some (x, r') \<Rightarrow> (let (xs, r'') = drain pop n r' in (x # xs, r'')))"

locale drop_oldest_stack =
  fixes cap :: nat
    and push :: "'a \<Rightarrow> 'r \<Rightarrow> 'r"
    and pop :: "'r \<Rightarrow> ('a \<times> 'r) option"
    and contents :: "'r \<Rightarrow> 'a list"
    and invar :: "'r \<Rightarrow> bool"
  assumes push_contents: "invar r \<Longrightarrow> contents (push x r) =
      (if length (contents r) = cap then tl (contents r) else contents r) @ [x]"
    and pop_None: "invar r \<Longrightarrow> pop r = None \<longleftrightarrow> contents r = []"
    and pop_Some: "invar r \<Longrightarrow> pop r = Some (x, r') \<Longrightarrow> contents r = contents r' @ [x]"
    and invar_push: "invar r \<Longrightarrow> invar (push x r)"
    and invar_pop: "invar r \<Longrightarrow> pop r = Some (x, r') \<Longrightarrow> invar r'"
    and length_cap: "invar r \<Longrightarrow> length (contents r) \<le> cap"
    and cap_pos: "0 < cap"
begin

lemma pop_push:
  assumes "invar r"
  shows "\<exists>r'. pop (push x r) = Some (x, r') \<and> invar r' \<and>
    contents r' = (if length (contents r) = cap then tl (contents r) else contents r)"
proof -
  have ne: "contents (push x r) \<noteq> []" using assms by (simp add: push_contents)
  have inv: "invar (push x r)" using assms by (rule invar_push)
  with ne obtain y r' where pop: "pop (push x r) = Some (y, r')"
    using pop_None by fastforce
  from pop_Some [OF inv pop] push_contents [OF assms, of x] have "y = x"
    "contents r' = (if length (contents r) = cap then tl (contents r) else contents r)"
    by auto
  with pop inv show ?thesis using invar_pop by blast
qed

lemma drain_contents:
  "invar r \<Longrightarrow> drain pop n r = (xs, r') \<Longrightarrow>
    invar r' \<and> xs = take n (rev (contents r)) \<and> contents r = contents r' @ rev xs"
proof (induction n arbitrary: r xs r')
  case 0
  then show ?case by simp
next
  case (Suc n)
  show ?case
  proof (cases "pop r")
    case None
    with Suc.prems pop_None show ?thesis by auto
  next
    case (Some p)
    obtain x q where p: "p = (x, q)" by force
    obtain ys t where d: "drain pop n q = (ys, t)" by force
    from Suc.prems Some p d have eq: "xs = x # ys" "r' = t" by auto
    have c: "contents r = contents q @ [x]" and q: "invar q"
      using Suc.prems(1) Some p pop_Some invar_pop by blast+
    from Suc.IH [OF q d] have ih: "invar t" "ys = take n (rev (contents q))"
      "contents q = contents t @ rev ys" by blast+
    have "xs = take (Suc n) (rev (contents r))" unfolding eq c by (subst ih(2)) simp
    moreover have "contents r = contents r' @ rev xs" unfolding eq c by (subst ih(3)) simp
    ultimately show ?thesis using ih(1) eq by blast
  qed
qed

text \<open>The most recent pushes come back first: a full drain after pushing \<open>xs\<close> to a stack
  with room for them returns them newest first.\<close>

lemma fold_push_contents:
  "invar r \<Longrightarrow> invar (fold push xs r) \<and>
    contents (fold push xs r) =
      drop (length (contents r) + length xs - cap) (contents r @ xs)"
proof (induction xs arbitrary: r)
  case Nil
  then show ?case using length_cap by simp
next
  case (Cons x xs)
  let ?r = "push x r"
  have inv: "invar ?r" using Cons.prems by (rule invar_push)
  have len: "length (contents r) \<le> cap" using Cons.prems by (rule length_cap)
  note IH = Cons.IH [OF inv]
  show ?case
  proof (cases "length (contents r) = cap")
    case True
    then obtain y ys where c: "contents r = y # ys" using cap_pos by (cases "contents r") auto
    with True Cons.prems have "contents ?r = ys @ [x]" by (simp add: push_contents)
    with IH True c show ?thesis by auto
  next
    case False
    with Cons.prems have "contents ?r = contents r @ [x]" by (simp add: push_contents)
    with IH False len show ?thesis by auto
  qed
qed

end

section \<open>The ring provides it\<close>

definition ring_inv :: "prefetch_ring \<Rightarrow> bool" where
  "ring_inv r \<longleftrightarrow> pr_head r < PREFETCH_BUFFER_SIZE \<and> pr_tail r < PREFETCH_BUFFER_SIZE"

definition ring_len :: "prefetch_ring \<Rightarrow> nat" where
  "ring_len r = (pr_tail r + PREFETCH_BUFFER_SIZE - pr_head r) mod PREFETCH_BUFFER_SIZE"

definition ring_list :: "prefetch_ring \<Rightarrow> tswap_prefetch_info list" where
  "ring_list r =
     map (\<lambda>k. pr_buf r ((pr_head r + k) mod PREFETCH_BUFFER_SIZE)) [0..<ring_len r]"

lemma ring_size_pos [simp]: "0 < PREFETCH_BUFFER_SIZE"
  by (simp add: PREFETCH_BUFFER_SIZE_def)

lemma ring_size_gt1: "1 < PREFETCH_BUFFER_SIZE"
  by (simp add: PREFETCH_BUFFER_SIZE_def PAGE_SHIFT_def)

lemma ring_len_cases:
  assumes "ring_inv r"
  shows "ring_len r = (if pr_head r \<le> pr_tail r then pr_tail r - pr_head r
                       else pr_tail r + PREFETCH_BUFFER_SIZE - pr_head r)"
proof (cases "pr_head r \<le> pr_tail r")
  case True
  then have "pr_tail r + PREFETCH_BUFFER_SIZE - pr_head r =
      (pr_tail r - pr_head r) + PREFETCH_BUFFER_SIZE" by simp
  then have "ring_len r = (pr_tail r - pr_head r) mod PREFETCH_BUFFER_SIZE"
    by (simp only: ring_len_def mod_add_self2)
  moreover have "pr_tail r - pr_head r < PREFETCH_BUFFER_SIZE"
    using assms by (auto simp: ring_inv_def)
  ultimately show ?thesis using True by simp
next
  case False
  then have "pr_tail r + PREFETCH_BUFFER_SIZE - pr_head r < PREFETCH_BUFFER_SIZE"
    using assms by (auto simp: ring_inv_def)
  with False show ?thesis by (simp add: ring_len_def)
qed

lemma ring_len_less: "ring_len r < PREFETCH_BUFFER_SIZE"
  by (simp add: ring_len_def)

lemma length_ring_list [simp]: "length (ring_list r) = ring_len r"
  by (simp add: ring_list_def)

lemma ring_tail:
  assumes "ring_inv r"
  shows "(pr_head r + ring_len r) mod PREFETCH_BUFFER_SIZE = pr_tail r"
  using assms by (auto simp: ring_len_cases ring_inv_def)

lemma ring_index_neq_tail:
  assumes "ring_inv r" "k < ring_len r"
  shows "(pr_head r + k) mod PREFETCH_BUFFER_SIZE \<noteq> pr_tail r"
proof
  assume eq: "(pr_head r + k) mod PREFETCH_BUFFER_SIZE = pr_tail r"
  have k: "k < PREFETCH_BUFFER_SIZE" using assms ring_len_less [of r] by simp
  show False
  proof (cases "pr_head r + k < PREFETCH_BUFFER_SIZE")
    case True
    with eq assms show False by (auto simp: ring_len_cases split: if_splits)
  next
    case False
    moreover have "pr_head r + k - PREFETCH_BUFFER_SIZE < PREFETCH_BUFFER_SIZE"
      using assms(1) k by (auto simp: ring_inv_def)
    ultimately have "(pr_head r + k) mod PREFETCH_BUFFER_SIZE = pr_head r + k - PREFETCH_BUFFER_SIZE"
      by (simp add: mod_if [of "pr_head r + k"])
    with eq assms False show False by (auto simp: ring_len_cases ring_inv_def split: if_splits)
  qed
qed

text \<open>The ring is full when one slot is left, since an equal head and tail mean empty.\<close>

lemma ring_full:
  assumes "ring_inv r"
  shows "(pr_tail r + 1) mod PREFETCH_BUFFER_SIZE = pr_head r \<longleftrightarrow>
    ring_len r = PREFETCH_BUFFER_SIZE - 1"
proof (cases "pr_tail r + 1 = PREFETCH_BUFFER_SIZE")
  case True
  with assms show ?thesis by (auto simp: ring_len_cases ring_inv_def)
next
  case False
  with assms have "pr_tail r + 1 < PREFETCH_BUFFER_SIZE" by (simp add: ring_inv_def)
  with assms show ?thesis by (auto simp: ring_len_cases ring_inv_def)
qed

lemma ring_inv_push: "ring_inv r \<Longrightarrow> ring_inv (ring_push i r)"
  by (simp add: ring_inv_def ring_push_def)

lemma ring_inv_pop: "ring_inv r \<Longrightarrow> ring_pop r = Some (x, r') \<Longrightarrow> ring_inv r'"
  by (auto simp: ring_inv_def ring_pop_def Let_def split: if_splits)

lemma ring_len_push:
  assumes "ring_inv r"
  shows "ring_len (ring_push i r) =
    (if ring_len r = PREFETCH_BUFFER_SIZE - 1 then PREFETCH_BUFFER_SIZE - 1 else ring_len r + 1)"
proof (cases "pr_tail r + 1 = PREFETCH_BUFFER_SIZE")
  case True
  with assms ring_inv_push [OF assms, of i] ring_size_gt1 show ?thesis
    by (auto simp: ring_len_cases ring_inv_def ring_push_def mod_if)
next
  case False
  with assms have "pr_tail r + 1 < PREFETCH_BUFFER_SIZE" by (simp add: ring_inv_def)
  with assms ring_inv_push [OF assms, of i] ring_size_gt1 show ?thesis
    by (auto simp: ring_len_cases ring_inv_def ring_push_def mod_if)
qed

lemma ring_nth:
  "k < ring_len r \<Longrightarrow>
    ring_list r ! k = pr_buf r ((pr_head r + k) mod PREFETCH_BUFFER_SIZE)"
  by (simp add: ring_list_def)

lemma ring_list_push_room:
  assumes inv: "ring_inv r" and room: "ring_len r \<noteq> PREFETCH_BUFFER_SIZE - 1"
  shows "ring_list (ring_push i r) = ring_list r @ [i]"
proof (rule nth_equalityI)
  have head: "pr_head (ring_push i r) = pr_head r"
    using room ring_full [OF inv] by (simp add: ring_push_def)
  have buf: "pr_buf (ring_push i r) = (pr_buf r)(pr_tail r := i)"
    by (simp add: ring_push_def)
  have len: "ring_len (ring_push i r) = ring_len r + 1"
    using room by (simp add: ring_len_push [OF inv])
  then show "length (ring_list (ring_push i r)) = length (ring_list r @ [i])" by simp
  fix k assume "k < length (ring_list (ring_push i r))"
  then have k: "k \<le> ring_len r" using len by simp
  show "ring_list (ring_push i r) ! k = (ring_list r @ [i]) ! k"
  proof (cases "k = ring_len r")
    case True
    with len head buf ring_tail [OF inv] show ?thesis by (simp add: ring_nth nth_append)
  next
    case False
    with k have "k < ring_len r" by simp
    with len head buf ring_index_neq_tail [OF inv] show ?thesis
      by (simp add: ring_nth nth_append)
  qed
qed

lemma ring_list_push_full:
  assumes inv: "ring_inv r" and full: "ring_len r = PREFETCH_BUFFER_SIZE - 1"
  shows "ring_list (ring_push i r) = tl (ring_list r) @ [i]"
proof (rule nth_equalityI)
  have head: "pr_head (ring_push i r) = (pr_head r + 1) mod PREFETCH_BUFFER_SIZE"
    using full ring_full [OF inv] by (simp add: ring_push_def)
  have buf: "pr_buf (ring_push i r) = (pr_buf r)(pr_tail r := i)"
    by (simp add: ring_push_def)
  have len: "ring_len (ring_push i r) = ring_len r"
    using full by (simp add: ring_len_push [OF inv])
  show eq: "length (ring_list (ring_push i r)) = length (tl (ring_list r) @ [i])"
    using len full ring_size_gt1 by simp
  fix k assume "k < length (ring_list (ring_push i r))"
  then have k: "k < ring_len r" using len by simp
  have idx: "((pr_head r + 1) mod PREFETCH_BUFFER_SIZE + k) mod PREFETCH_BUFFER_SIZE =
      (pr_head r + (k + 1)) mod PREFETCH_BUFFER_SIZE"
    by (simp add: mod_add_left_eq)
  show "ring_list (ring_push i r) ! k = (tl (ring_list r) @ [i]) ! k"
  proof (cases "k + 1 = ring_len r")
    case True
    with k len have "ring_list (ring_push i r) ! k = i"
      using idx ring_tail [OF inv] by (simp add: ring_nth head buf)
    moreover have "(tl (ring_list r) @ [i]) ! k = i"
      using True by (simp add: nth_append)
    ultimately show ?thesis by simp
  next
    case False
    with k have k1: "k + 1 < ring_len r" by simp
    with k len have "ring_list (ring_push i r) ! k = ring_list r ! (k + 1)"
      using idx ring_index_neq_tail [OF inv k1] by (simp add: ring_nth head buf)
    moreover have "(tl (ring_list r) @ [i]) ! k = ring_list r ! (k + 1)"
      using k1 by (simp add: nth_append nth_tl)
    ultimately show ?thesis by simp
  qed
qed

lemma ring_list_pop:
  assumes inv: "ring_inv r" and pop: "ring_pop r = Some (x, r')"
  shows "ring_list r = ring_list r' @ [x]"
proof -
  let ?t = "(pr_tail r + PREFETCH_BUFFER_SIZE - 1) mod PREFETCH_BUFFER_SIZE"
  from pop have ne: "pr_tail r \<noteq> pr_head r" and x: "x = pr_buf r ?t"
    and r': "r' = r\<lparr>pr_tail := ?t\<rparr>"
    by (auto simp: ring_pop_def Let_def split: if_splits)
  have inv': "ring_inv r'" using inv pop by (rule ring_inv_pop)
  have t: "?t = (if pr_tail r = 0 then PREFETCH_BUFFER_SIZE - 1 else pr_tail r - 1)"
  proof (cases "pr_tail r = 0")
    case False
    then have "pr_tail r + PREFETCH_BUFFER_SIZE - 1 = (pr_tail r - 1) + PREFETCH_BUFFER_SIZE"
      by simp
    then have "?t = (pr_tail r - 1) mod PREFETCH_BUFFER_SIZE" by (simp only: mod_add_self2)
    moreover have "pr_tail r - 1 < PREFETCH_BUFFER_SIZE"
      using inv by (auto simp: ring_inv_def)
    ultimately show ?thesis using False by simp
  qed simp
  have len: "ring_len r = Suc (ring_len r')"
    using inv inv' ne t by (auto simp: ring_len_cases r' ring_inv_def)
  have "(pr_head r + ring_len r') mod PREFETCH_BUFFER_SIZE = ?t"
    using ring_tail [OF inv'] by (simp add: r')
  then show ?thesis by (simp add: ring_list_def len x) (simp add: r')
qed

interpretation pring: drop_oldest_stack "PREFETCH_BUFFER_SIZE - 1" ring_push ring_pop
  ring_list ring_inv
proof unfold_locales
  show "ring_list (ring_push x r) =
      (if length (ring_list r) = PREFETCH_BUFFER_SIZE - 1 then tl (ring_list r) else ring_list r)
      @ [x]" if "ring_inv r" for r x
    using that by (simp add: ring_list_push_room ring_list_push_full)
  show "ring_pop r = None \<longleftrightarrow> ring_list r = []" if "ring_inv r" for r
    using that by (auto simp: ring_pop_def Let_def ring_list_def ring_len_cases ring_inv_def)
  show "length (ring_list r) \<le> PREFETCH_BUFFER_SIZE - 1" if "ring_inv r" for r
    using ring_len_less [of r] by simp
  show "0 < PREFETCH_BUFFER_SIZE - 1" using ring_size_gt1 by simp
qed (auto intro: ring_list_pop ring_inv_push ring_inv_pop)

lemma ring_init_inv: "ring_inv (ring_init g)" "ring_list (ring_init g) = []"
  by (simp_all add: ring_init_def ring_inv_def ring_list_def ring_len_def)

end
