(* ===== verification/Tswap_Entry.thy ===== *)
theory Tswap_Entry
  imports Prefetch_Ring
begin

text \<open>
  The data and the helper functions of \<^verbatim>\<open>src/harvester/tswap/main.c\<close>: the frontswap
  backend that keeps swapped-out pages in memory for a quarantine time before it writes
  them to the swap device. The state holds the module's globals (\<^verbatim>\<open>tswap_tree_roots\<close>,
  \<^verbatim>\<open>quarantine_list\<close>, \<^verbatim>\<open>tswap_stat\<close>, the prefetch ring, \<^verbatim>\<open>quarantine_time\<close>), the
  heap of entries and of radix tree roots with their addresses, the block requests that
  were handed to the block layer and not yet completed, the number of live page buffers,
  and the contents of the swap device. Freed memory is absent from the heap, so that a
  use after free and a double free are values of the result type.

  Every critical section of the source (a span under an entry's spinlock) is one
  operation; an operation that drops the lock in between (\<^verbatim>\<open>tswap_discharge_threadfn\<close>,
  \<^verbatim>\<open>tswap_prefetch_store\<close>, \<^verbatim>\<open>tswap_frontswap_invalidate_area\<close>) is split there.
\<close>

section \<open>Data\<close>

type_synonym page = "8 word list"
type_synonym jiffies = "64 word"

datatype tswap_entry_state =
  INVALID | ZOMBIE | IN_MEMORY | IN_MEMORY_FOLLOWED_BY_ZOMBIE | IN_FLIGHT

text \<open>
  \<open>te_root\<close> is \<^verbatim>\<open>tswap_tree_root\<close> (\<open>None\<close> for \<^verbatim>\<open>NULL\<close>) and \<open>te_data\<close> is the page buffer
  (\<open>None\<close> before it is allocated and after it is freed). Whether \<^verbatim>\<open>entry->list\<close> is empty
  is whether the entry is in the quarantine list.
\<close>

record tswap_entry =
  te_state :: tswap_entry_state
  te_type :: nat
  te_offset :: nat
  te_root :: "nat option"
  te_time :: jiffies
  te_data :: "page option"

record tswap_stat =
  nr_zombie_page :: int
  nr_in_memory_page :: int
  nr_in_memory_zombie_page :: int
  nr_in_flight_page :: int
  len_quarantine_list :: int
  nr_async_io :: int
  nr_async_end_io :: int
  nr_async_io_fail :: int
  nr_async_end_io_fail :: int
  nr_thp :: int
  nr_malloc_fail :: int
  nr_kmap_fail :: int
  nr_radix_tree_insert_fail :: int
  nr_radix_tree_delete_fail :: int
  nr_store :: int
  nr_load :: int
  nr_invalid_load :: int
  nr_overwrite_store :: int
  nr_invalidate_page :: int
  nr_invalid_invalidate_page :: int
  nr_invalidate_area :: int
  nr_init :: int
  nr_quarantine_delete_stale :: int
  nr_quarantine_skip_mem_zombie :: int
  nr_promoted_page :: int
  nr_disk_promoted_page :: int

text \<open>
  \<open>ts_submitting\<close> is the entry that the discharge thread has put in flight and has not yet
  handed to the block layer; \<open>ts_bios\<close> are the entries of the write requests in the block
  layer, \<open>ts_pf_bios\<close> those of the prefetch reads; \<open>ts_areas\<close> are the roots that
  \<^verbatim>\<open>tswap_frontswap_invalidate_area\<close> is reclaiming; \<open>ts_pages\<close> counts the page buffers
  allocated and not freed.
\<close>

record tswap =
  ts_heap :: "nat \<rightharpoonup> tswap_entry"
  ts_next :: nat
  ts_roots :: "nat \<rightharpoonup> nat"
  ts_trees :: "nat \<rightharpoonup> (nat \<rightharpoonup> nat)"
  ts_quarantine :: "nat list"
  ts_quarantine_time :: int
  ts_stat :: tswap_stat
  ts_ring :: prefetch_ring
  ts_submitting :: "nat option"
  ts_bios :: "nat list"
  ts_pf_bios :: "nat list"
  ts_areas :: "nat list"
  ts_pages :: int
  ts_disk :: "nat \<Rightarrow> nat \<Rightarrow> page"

definition EINVAL :: int where "EINVAL = 22"
definition ENOMEM :: int where "ENOMEM = 12"
definition EEXIST :: int where "EEXIST = 17"
definition EFAULT :: int where "EFAULT = 14"

lemmas errno_defs = EINVAL_def ENOMEM_def EEXIST_def EFAULT_def

text \<open>\<^verbatim>\<open>atomic_long_inc\<close> and \<^verbatim>\<open>atomic_long_dec\<close> on a counter, named by its update.\<close>

definition stat_inc :: "((int \<Rightarrow> int) \<Rightarrow> tswap_stat \<Rightarrow> tswap_stat) \<Rightarrow> tswap \<Rightarrow> tswap" where
  [simp]: "stat_inc upd s = s\<lparr>ts_stat := upd (\<lambda>n. n + 1) (ts_stat s)\<rparr>"

definition stat_dec :: "((int \<Rightarrow> int) \<Rightarrow> tswap_stat \<Rightarrow> tswap_stat) \<Rightarrow> tswap \<Rightarrow> tswap" where
  [simp]: "stat_dec upd s = s\<lparr>ts_stat := upd (\<lambda>n. n - 1) (ts_stat s)\<rparr>"

section \<open>The heap\<close>

definition entry_at :: "tswap \<Rightarrow> nat \<Rightarrow> tswap_entry res" where
  "entry_at s e = (case ts_heap s e of None \<Rightarrow> Inl UseAfterFree | Some x \<Rightarrow> Inr x)"

definition put_entry :: "nat \<Rightarrow> tswap_entry \<Rightarrow> tswap \<Rightarrow> tswap" where
  [simp]: "put_entry e x s = s\<lparr>ts_heap := (ts_heap s)(e \<mapsto> x)\<rparr>"

definition set_state :: "nat \<Rightarrow> tswap_entry_state \<Rightarrow> tswap \<Rightarrow> tswap res" where
  "set_state e st s = rbind (entry_at s e) (\<lambda>x. Inr (put_entry e (x\<lparr>te_state := st\<rparr>) s))"

text \<open>\<^verbatim>\<open>kmalloc(PAGE_SIZE)\<close> into \<^verbatim>\<open>entry->data\<close>, \<^verbatim>\<open>kfree(entry->data)\<close>, \<^verbatim>\<open>kfree(entry)\<close>.\<close>

definition alloc_data :: "nat \<Rightarrow> tswap \<Rightarrow> tswap res" where
  "alloc_data e s = rbind (entry_at s e) (\<lambda>x.
     Inr (put_entry e (x\<lparr>te_data := Some []\<rparr>) (s\<lparr>ts_pages := ts_pages s + 1\<rparr>)))"

definition free_data :: "nat \<Rightarrow> tswap \<Rightarrow> tswap res" where
  "free_data e s = rbind (entry_at s e) (\<lambda>x.
     case te_data x of
       None \<Rightarrow> Inl UseAfterFree
     | Some _ \<Rightarrow> Inr (put_entry e (x\<lparr>te_data := None\<rparr>) (s\<lparr>ts_pages := ts_pages s - 1\<rparr>)))"

definition free_entry :: "nat \<Rightarrow> tswap \<Rightarrow> tswap res" where
  "free_entry e s = rbind (entry_at s e) (\<lambda>_. Inr (s\<lparr>ts_heap := (ts_heap s)(e := None)\<rparr>))"

text \<open>\<^verbatim>\<open>kmalloc(sizeof(struct tswap_entry))\<close>: an address that was never used before.\<close>

definition alloc_entry :: "tswap_entry \<Rightarrow> tswap \<Rightarrow> nat \<times> tswap" where
  "alloc_entry x s = (ts_next s, put_entry (ts_next s) x (s\<lparr>ts_next := ts_next s + 1\<rparr>))"

section \<open>Helper functions of the source\<close>

definition atomic_entry_lookup_lock :: "nat \<Rightarrow> nat \<Rightarrow> tswap \<Rightarrow> nat option res" where
  "atomic_entry_lookup_lock ty off s =
     (case ts_roots s ty of
        None \<Rightarrow> Inr None
      | Some r \<Rightarrow>
          (case ts_trees s r of
             None \<Rightarrow> Inl UseAfterFree
           | Some t \<Rightarrow>
               (case t off of
                  None \<Rightarrow> Inr None
                | Some e \<Rightarrow> rbind (entry_at s e) (\<lambda>x.
                    if te_state x = INVALID then Inr None else Inr (Some e)))))"

definition atomic_entry_delete :: "nat \<Rightarrow> tswap \<Rightarrow> (int \<times> tswap) res" where
  "atomic_entry_delete e s = rbind (entry_at s e) (\<lambda>x.
     case te_root x of
       None \<Rightarrow> Inl NullDeref
     | Some r \<Rightarrow>
         (case ts_trees s r of
            None \<Rightarrow> Inl UseAfterFree
          | Some t \<Rightarrow>
              (case t (te_offset x) of
                 None \<Rightarrow> Inr (- EINVAL, s)
               | Some _ \<Rightarrow>
                   Inr (0, put_entry e (x\<lparr>te_root := None\<rparr>)
                     (s\<lparr>ts_trees := (ts_trees s)(r \<mapsto> t(te_offset x := None))\<rparr>)))))"

text \<open>
  \<open>lock_free\<close> is the outcome of \<^verbatim>\<open>spin_trylock_irqsave\<close> and \<open>nomem\<close> whether
  \<^verbatim>\<open>radix_tree_insert\<close> runs out of memory for a tree node.
\<close>

definition atomic_entry_insert ::
  "nat \<Rightarrow> bool \<Rightarrow> bool \<Rightarrow> bool \<Rightarrow> tswap \<Rightarrow> (int \<times> tswap) res" where
  "atomic_entry_insert e try_lock lock_free nomem s = rbind (entry_at s e) (\<lambda>x.
     case ts_roots s (te_type x) of
       None \<Rightarrow> Inr (- EINVAL, s)
     | Some r \<Rightarrow>
         (if try_lock \<and> \<not> lock_free then Inr (- EINVAL, s)
          else case ts_trees s r of
            None \<Rightarrow> Inl UseAfterFree
          | Some t \<Rightarrow>
              (if t (te_offset x) \<noteq> None
               then Inr (- EEXIST, put_entry e (x\<lparr>te_root := None\<rparr>) s)
               else if nomem then Inr (- ENOMEM, put_entry e (x\<lparr>te_root := None\<rparr>) s)
               else Inr (0, put_entry e (x\<lparr>te_root := Some r\<rparr>)
                 (s\<lparr>ts_trees := (ts_trees s)(r \<mapsto> t(te_offset x \<mapsto> e))\<rparr>)))))"

definition atomic_entry_quarantine :: "nat \<Rightarrow> tswap \<Rightarrow> tswap" where
  "atomic_entry_quarantine e s =
     (if e \<notin> set (ts_quarantine s)
      then stat_inc len_quarantine_list_update
             (s\<lparr>ts_quarantine := ts_quarantine s @ [e]\<rparr>)
      else s\<lparr>ts_quarantine := remove1 e (ts_quarantine s) @ [e]\<rparr>)"

definition atomic_entry_dequarantine :: "nat \<Rightarrow> tswap \<Rightarrow> tswap" where
  "atomic_entry_dequarantine e s =
     (if e \<in> set (ts_quarantine s)
      then stat_dec len_quarantine_list_update
             (s\<lparr>ts_quarantine := remove1 e (ts_quarantine s)\<rparr>)
      else s)"

definition invalidate_entry_struct ::
  "nat \<Rightarrow> bool \<Rightarrow> tswap \<Rightarrow> (tswap_entry_state \<times> tswap) res" where
  "invalidate_entry_struct e free_page s = rbind (entry_at s e) (\<lambda>x.
     let old_state = te_state x in
     case old_state of
       IN_MEMORY \<Rightarrow>
         rbind (if free_page then free_data e (stat_dec nr_in_memory_page_update s)
                else Inr (stat_dec nr_in_memory_page_update s)) (\<lambda>s1.
         rbind (set_state e INVALID s1) (\<lambda>s2. Inr (old_state, s2)))
     | IN_MEMORY_FOLLOWED_BY_ZOMBIE \<Rightarrow>
         rbind (set_state e ZOMBIE
           (stat_inc nr_zombie_page_update (stat_dec nr_in_memory_zombie_page_update s)))
           (\<lambda>s1. Inr (old_state, s1))
     | IN_FLIGHT \<Rightarrow>
         rbind (set_state e ZOMBIE
           (stat_inc nr_zombie_page_update (stat_dec nr_in_flight_page_update s)))
           (\<lambda>s1. Inr (old_state, s1))
     | ZOMBIE \<Rightarrow> Inr (old_state, s)
     | INVALID \<Rightarrow> Inr (old_state, s))"

text \<open>
  The end of several handlers: remove an entry that became invalid from its tree, count a
  failed removal, and free the entry.
\<close>

definition delete_and_free :: "nat \<Rightarrow> tswap \<Rightarrow> tswap res" where
  "delete_and_free e s = rbind (atomic_entry_delete e s) (\<lambda>(err, s1).
     free_entry e (if err < 0 then stat_inc nr_radix_tree_delete_fail_update s1 else s1))"

definition delete_if_invalid :: "nat \<Rightarrow> tswap \<Rightarrow> tswap res" where
  "delete_if_invalid e s = rbind (entry_at s e) (\<lambda>x.
     if te_state x = INVALID then delete_and_free e s else Inr s)"

text \<open>\<^verbatim>\<open>time_after(a, b)\<close> compares across the wrap-around of \<^verbatim>\<open>jiffies\<close>.\<close>

definition time_after :: "jiffies \<Rightarrow> jiffies \<Rightarrow> bool" where
  "time_after a b \<longleftrightarrow> sint (b - a) < 0"

end
