(* ===== verification/Tswap_Ops.thy ===== *)
theory Tswap_Ops
  imports Tswap_Entry
begin

text \<open>
  The operations of \<^verbatim>\<open>src/harvester/tswap/main.c\<close>: the frontswap interface (store, load,
  invalidate a page, invalidate an area, init), the discharge thread with its completion
  handler, and prefetching with its completion handler. What the kernel decides (an
  allocation succeeds, a page can be mapped, a request fails) is an argument of the
  operation.
\<close>

section \<open>Store\<close>

text \<open>
  What the kernel answers during a store: the page is a transparent huge page, the two
  allocations and \<^verbatim>\<open>kmap_atomic\<close> succeed, the radix tree has no memory for a node.
\<close>

record store_env =
  se_thp :: bool
  se_entry_ok :: bool
  se_data_ok :: bool
  se_kmap_ok :: bool
  se_nomem :: bool

text \<open>
  The error exits of \<^verbatim>\<open>tswap_frontswap_store\<close>, in the order the labels fall through:
  \<^verbatim>\<open>invalidate_entry\<close>, \<^verbatim>\<open>free_mem\<close>, \<^verbatim>\<open>free_entry\<close>. \<open>prev\<close> is whether the entry was
  found in the tree.
\<close>

definition store_free_entry :: "bool \<Rightarrow> nat \<Rightarrow> int \<Rightarrow> tswap \<Rightarrow> (int \<times> tswap) res" where
  "store_free_entry prev e ret s =
     (let s1 = atomic_entry_dequarantine e s in
      rbind (entry_at s1 e) (\<lambda>x.
        if te_state x = INVALID
        then rbind (if prev then delete_and_free e s1 else free_entry e s1)
               (\<lambda>s2. Inr (ret, s2))
        else Inr (ret, s1)))"

definition store_free_mem :: "bool \<Rightarrow> nat \<Rightarrow> int \<Rightarrow> tswap \<Rightarrow> (int \<times> tswap) res" where
  "store_free_mem prev e ret s = rbind (entry_at s e) (\<lambda>x.
     rbind (if te_state x = INVALID then free_data e s else Inr s) (\<lambda>s1.
     store_free_entry prev e ret s1))"

definition store_invalidate_entry :: "bool \<Rightarrow> nat \<Rightarrow> int \<Rightarrow> tswap \<Rightarrow> (int \<times> tswap) res" where
  "store_invalidate_entry prev e ret s =
     rbind (invalidate_entry_struct e False s) (\<lambda>(_, s1). store_free_mem prev e ret s1)"

text \<open>Lines 588 to 618: copy the page, enter the new state, insert and quarantine.\<close>

definition store_commit ::
  "store_env \<Rightarrow> jiffies \<Rightarrow> bool \<Rightarrow> nat \<Rightarrow> page \<Rightarrow> tswap \<Rightarrow> (int \<times> tswap) res" where
  "store_commit env now prev e pg s = rbind (entry_at s e) (\<lambda>x.
     if te_data x = None then Inl NullDeref
     else
       let y = x\<lparr>te_data := Some pg, te_time := now\<rparr> in
       rbind (case te_state x of
                INVALID \<Rightarrow> Inr (put_entry e (y\<lparr>te_state := IN_MEMORY\<rparr>)
                  (stat_inc nr_in_memory_page_update s))
              | ZOMBIE \<Rightarrow> Inr (put_entry e (y\<lparr>te_state := IN_MEMORY_FOLLOWED_BY_ZOMBIE\<rparr>)
                  (stat_inc nr_in_memory_zombie_page_update
                    (stat_dec nr_zombie_page_update s)))
              | _ \<Rightarrow> Inl Bug) (\<lambda>s1.
       if \<not> prev then
         rbind (atomic_entry_insert e False True (se_nomem env) s1) (\<lambda>(ret, s2).
           if ret < 0
           then store_invalidate_entry prev e (- EINVAL)
                  (stat_inc nr_radix_tree_insert_fail_update s2)
           else Inr (0, atomic_entry_quarantine e s2))
       else Inr (0, atomic_entry_quarantine e s1)))"

text \<open>Lines 566 to 618, under the entry's lock.\<close>

definition store_locked ::
  "store_env \<Rightarrow> jiffies \<Rightarrow> bool \<Rightarrow> nat \<Rightarrow> page \<Rightarrow> tswap \<Rightarrow> (int \<times> tswap) res" where
  "store_locked env now prev e pg s =
     rbind (invalidate_entry_struct e False s) (\<lambda>(old_state, s1).
       if old_state = INVALID \<and> \<not> se_data_ok env
       then store_free_entry prev e (- ENOMEM) (stat_inc nr_malloc_fail_update s1)
       else
         rbind (if old_state = INVALID then alloc_data e s1 else Inr s1) (\<lambda>s2.
         rbind (entry_at s2 e) (\<lambda>x.
           let s3 = (if old_state \<noteq> te_state x
                     then stat_inc nr_overwrite_store_update s2 else s2) in
           if \<not> se_kmap_ok env
           then store_free_mem prev e (- ENOMEM) (stat_inc nr_kmap_fail_update s3)
           else store_commit env now prev e pg s3)))"

definition new_entry :: "nat \<Rightarrow> nat \<Rightarrow> tswap_entry_state \<Rightarrow> page option \<Rightarrow> tswap_entry" where
  "new_entry ty off st data =
     \<lparr>te_state = st, te_type = ty, te_offset = off, te_root = None, te_time = 0,
      te_data = data\<rparr>"

definition tswap_frontswap_store ::
  "store_env \<Rightarrow> jiffies \<Rightarrow> nat \<Rightarrow> nat \<Rightarrow> page \<Rightarrow> tswap \<Rightarrow> (int \<times> tswap) res" where
  "tswap_frontswap_store env now ty off pg s =
     (let s1 = stat_inc nr_store_update s;
          s2 = s1\<lparr>ts_ring := ring_push \<lparr>pf_type = ty, pf_offset = off\<rparr> (ts_ring s1)\<rparr> in
      if se_thp env then Inr (- EINVAL, stat_inc nr_thp_update s2)
      else
        rbind (atomic_entry_lookup_lock ty off s2) (\<lambda>prev_entry.
          case prev_entry of
            None \<Rightarrow>
              (if \<not> se_entry_ok env
               then Inr (- ENOMEM, stat_inc nr_malloc_fail_update s2)
               else let (e, s3) = alloc_entry (new_entry ty off INVALID None) s2
                    in store_locked env now False e pg s3)
          | Some e \<Rightarrow> store_locked env now True e pg s2))"

section \<open>Load and invalidation\<close>

text \<open>
  What the kernel answers during a load: \<^verbatim>\<open>kmap_atomic\<close> succeeds; \<^verbatim>\<open>bio_alloc\<close> succeeds
  and \<^verbatim>\<open>submit_bio_wait\<close> returns \<open>le_io\<close> (for a page that is only on the device).
\<close>

record load_env =
  le_kmap_ok :: bool
  le_bio_ok :: bool
  le_io :: int

definition sync_io_read ::
  "load_env \<Rightarrow> nat \<Rightarrow> nat \<Rightarrow> tswap \<Rightarrow> int \<times> page option \<times> tswap" where
  "sync_io_read env ty off s =
     (if \<not> le_bio_ok env then (- ENOMEM, None, stat_inc nr_malloc_fail_update s)
      else (le_io env, if le_io env < 0 then None else Some (ts_disk s ty off), s))"

text \<open>Lines 694 to 707 and 725 to 737: invalidate the entry, then delete it if it is free.\<close>

definition invalidate_and_drop :: "nat \<Rightarrow> tswap \<Rightarrow> tswap res" where
  "invalidate_and_drop e s =
     rbind (invalidate_entry_struct e True s) (\<lambda>(_, s1).
     delete_if_invalid e (atomic_entry_dequarantine e s1))"

text \<open>The result is the return value, the contents of the loaded page, and the state.\<close>

definition tswap_frontswap_load ::
  "load_env \<Rightarrow> nat \<Rightarrow> nat \<Rightarrow> tswap \<Rightarrow> (int \<times> page option \<times> tswap) res" where
  "tswap_frontswap_load env ty off s =
     (let s1 = stat_inc nr_promoted_page_update (stat_inc nr_load_update s) in
      rbind (atomic_entry_lookup_lock ty off s1) (\<lambda>entry.
        case entry of
          None \<Rightarrow>
            (let s2 = stat_inc nr_disk_promoted_page_update (stat_inc nr_invalid_load_update s1);
                 (ret, pg, s3) = sync_io_read env ty off s2
             in if ret < 0 then Inr (- EINVAL, None, s3) else Inr (0, pg, s3))
        | Some e \<Rightarrow>
            rbind (entry_at s1 e) (\<lambda>x.
              if \<not> le_kmap_ok env
              then rbind (invalidate_and_drop e (stat_inc nr_kmap_fail_update s1))
                     (\<lambda>s2. Inr (- ENOMEM, None, s2))
              else case te_data x of
                None \<Rightarrow> Inl UseAfterFree
              | Some pg \<Rightarrow> rbind (invalidate_and_drop e s1) (\<lambda>s2. Inr (0, Some pg, s2)))))"

definition tswap_frontswap_invalidate_page :: "nat \<Rightarrow> nat \<Rightarrow> tswap \<Rightarrow> tswap res" where
  "tswap_frontswap_invalidate_page ty off s =
     (let s1 = stat_inc nr_invalidate_page_update s in
      rbind (atomic_entry_lookup_lock ty off s1) (\<lambda>entry.
        case entry of
          None \<Rightarrow> Inr (stat_inc nr_invalid_invalidate_page_update s1)
        | Some e \<Rightarrow> invalidate_and_drop e s1))"

text \<open>
  \<^verbatim>\<open>tswap_frontswap_invalidate_area\<close> up to \<^verbatim>\<open>synchronize_rcu\<close> (lines 741 to 762), one round
  of its loop for the first entry of the tree (lines 769 to 806), and the end when the tree
  is empty (lines 787 and 808). The loop spins on zombies until their requests complete.
\<close>

definition invalidate_area_begin :: "nat \<Rightarrow> tswap \<Rightarrow> tswap res" where
  "invalidate_area_begin ty s =
     (let s1 = stat_inc nr_invalidate_area_update s in
      case ts_roots s1 ty of
        None \<Rightarrow> Inl Bug
      | Some r \<Rightarrow> Inr (s1\<lparr>ts_roots := (ts_roots s1)(ty := None), ts_areas := r # ts_areas s1\<rparr>))"

definition invalidate_area_round :: "nat \<Rightarrow> nat \<Rightarrow> tswap \<Rightarrow> tswap res" where
  "invalidate_area_round r off s =
     (case ts_trees s r of
        None \<Rightarrow> Inl UseAfterFree
      | Some t \<Rightarrow>
          (case t off of
             None \<Rightarrow> Inl NullDeref
           | Some e \<Rightarrow> rbind (entry_at s e) (\<lambda>x.
               if te_state x = INVALID then Inr s else invalidate_and_drop e s)))"

definition invalidate_area_end :: "nat \<Rightarrow> tswap \<Rightarrow> tswap" where
  "invalidate_area_end r s =
     s\<lparr>ts_trees := (ts_trees s)(r := None), ts_areas := remove1 r (ts_areas s)\<rparr>"

text \<open>\<^verbatim>\<open>tswap_frontswap_init\<close>; \<open>root_ok\<close> is whether \<^verbatim>\<open>kmalloc\<close> succeeds.\<close>

definition tswap_frontswap_init :: "bool \<Rightarrow> nat \<Rightarrow> tswap \<Rightarrow> tswap" where
  "tswap_frontswap_init root_ok ty s =
     (let s1 = stat_inc nr_init_update s in
      if \<not> root_ok then s1
      else let r = ts_next s1 in
        s1\<lparr>ts_next := r + 1, ts_trees := (ts_trees s1)(r \<mapsto> Map.empty),
           ts_roots := (ts_roots s1)(ty \<mapsto> r)\<rparr>)"

section \<open>Discharge\<close>

text \<open>
  One iteration of the scan in \<^verbatim>\<open>tswap_discharge_threadfn\<close> (lines 854 to 898 and 943 to
  946) for the first entry of the quarantine list, whose lock was free. \<open>mtj\<close> is
  \<^verbatim>\<open>msecs_to_jiffies\<close>; the product with 1000 is an \<^verbatim>\<open>int\<close> and wraps around. An entry whose quarantine time is over is put in flight and becomes
  \<open>ts_submitting\<close>; the entry's lock is dropped before the request is submitted.
\<close>

definition discharge_pick :: "(int \<Rightarrow> jiffies) \<Rightarrow> jiffies \<Rightarrow> tswap \<Rightarrow> tswap res" where
  "discharge_pick mtj now s =
     (case ts_quarantine s of
        [] \<Rightarrow> Inr s
      | e # q \<Rightarrow>
          rbind (entry_at s e) (\<lambda>x.
            let s1 = stat_dec len_quarantine_list_update (s\<lparr>ts_quarantine := q\<rparr>) in
            case te_state x of
              IN_MEMORY_FOLLOWED_BY_ZOMBIE \<Rightarrow>
                Inr (stat_inc nr_quarantine_skip_mem_zombie_update (atomic_entry_quarantine e s1))
            | IN_MEMORY \<Rightarrow>
                (if time_after now (te_time x + mtj (to_int32 (ts_quarantine_time s * 1000)))
                 then Inr (put_entry e (x\<lparr>te_state := IN_FLIGHT\<rparr>)
                        (stat_inc nr_in_flight_page_update
                          (stat_dec nr_in_memory_page_update (s1\<lparr>ts_submitting := Some e\<rparr>))))
                 else Inr (atomic_entry_quarantine e s1))
            | _ \<Rightarrow> Inl Bug))"

text \<open>
  Lines 902 to 942: \<^verbatim>\<open>discharge_async_io\<close> for the entry in \<open>ts_submitting\<close>. Where no request
  can be allocated, the state the entry has by then is rolled back.
\<close>

definition discharge_rollback :: "nat \<Rightarrow> tswap \<Rightarrow> tswap res" where
  "discharge_rollback e s = rbind (entry_at s e) (\<lambda>x.
     case te_state x of
       IN_MEMORY_FOLLOWED_BY_ZOMBIE \<Rightarrow>
         set_state e IN_MEMORY
           (stat_inc nr_in_memory_page_update (stat_dec nr_in_memory_zombie_page_update s))
     | IN_FLIGHT \<Rightarrow>
         rbind (set_state e IN_MEMORY
           (stat_inc nr_in_memory_page_update (stat_dec nr_in_flight_page_update s)))
           (\<lambda>s1. Inr (atomic_entry_quarantine e s1))
     | ZOMBIE \<Rightarrow>
         rbind (set_state e INVALID (stat_dec nr_zombie_page_update s)) (\<lambda>s1.
         rbind (free_data e s1) (\<lambda>s2. delete_and_free e s2))
     | _ \<Rightarrow> Inl Bug)"

definition discharge_submit :: "bool \<Rightarrow> tswap \<Rightarrow> tswap res" where
  "discharge_submit bio_ok s =
     (case ts_submitting s of
        None \<Rightarrow> Inr s
      | Some e \<Rightarrow>
          (let s1 = (stat_inc nr_async_io_update s)\<lparr>ts_submitting := None\<rparr> in
           if bio_ok then Inr (s1\<lparr>ts_bios := e # ts_bios s1\<rparr>)
           else rbind (discharge_rollback e (stat_inc nr_malloc_fail_update s1)) (\<lambda>s2.
                  Inr (stat_inc nr_async_io_fail_update s2))))"

text \<open>
  \<^verbatim>\<open>discharge_async_io_end\<close> for the request of entry \<open>e\<close>: \<open>err\<close> is the status as an errno
  and \<open>written\<close> what the device holds at the slot when the request ends.
\<close>

definition discharge_async_io_end :: "nat \<Rightarrow> int \<Rightarrow> page \<Rightarrow> tswap \<Rightarrow> tswap res" where
  "discharge_async_io_end e err written s = rbind (entry_at s e) (\<lambda>x.
     let s0 = s\<lparr>ts_bios := remove1 e (ts_bios s),
                ts_disk := (ts_disk s)(te_type x :=
                  (ts_disk s (te_type x))(te_offset x := written))\<rparr>;
         s1 = stat_inc nr_async_end_io_update s0;
         s2 = (if err < 0 then stat_inc nr_async_end_io_fail_update s1 else s1) in
     case te_state x of
       IN_MEMORY_FOLLOWED_BY_ZOMBIE \<Rightarrow>
         set_state e IN_MEMORY
           (stat_inc nr_in_memory_page_update (stat_dec nr_in_memory_zombie_page_update s2))
     | IN_FLIGHT \<Rightarrow>
         (if err < 0
          then rbind (set_state e IN_MEMORY
                 (stat_inc nr_in_memory_page_update (stat_dec nr_in_flight_page_update s2)))
                 (\<lambda>s3. Inr (atomic_entry_quarantine e s3))
          else rbind (set_state e INVALID (stat_dec nr_in_flight_page_update s2)) (\<lambda>s3.
               rbind (free_data e s3) (\<lambda>s4. delete_and_free e s4)))
     | ZOMBIE \<Rightarrow>
         rbind (set_state e INVALID (stat_dec nr_zombie_page_update s2)) (\<lambda>s3.
         rbind (free_data e s3) (\<lambda>s4. delete_and_free e s4))
     | _ \<Rightarrow> Inl Bug)"

text \<open>
  A whole pass of the discharge thread (lines 851 to 947) when nothing else runs in
  between: \<open>nr_scan\<close> iterations, each followed by its submission; \<open>bio_ok\<close> says which
  submissions find a request.
\<close>

fun discharge_scan ::
  "(int \<Rightarrow> jiffies) \<Rightarrow> jiffies \<Rightarrow> (nat \<Rightarrow> bool) \<Rightarrow> nat \<Rightarrow> tswap \<Rightarrow> tswap res" where
  "discharge_scan mtj now bio_ok 0 s = Inr s"
| "discharge_scan mtj now bio_ok (Suc n) s =
     (if ts_quarantine s = [] then Inr s
      else rbind (discharge_pick mtj now s) (\<lambda>s1.
           rbind (discharge_submit (bio_ok n) s1) (\<lambda>s2. discharge_scan mtj now bio_ok n s2)))"

definition discharge_pass ::
  "(int \<Rightarrow> jiffies) \<Rightarrow> jiffies \<Rightarrow> (nat \<Rightarrow> bool) \<Rightarrow> tswap \<Rightarrow> tswap res" where
  "discharge_pass mtj now bio_ok s =
     discharge_scan mtj now bio_ok (nat (len_quarantine_list (ts_stat s))) s"

section \<open>Prefetch\<close>

text \<open>
  One iteration of the loop in \<^verbatim>\<open>tswap_prefetch_store\<close> (lines 1103 to 1151). \<open>fmap\<close> is the
  kernel's \<^verbatim>\<open>frontswap_map\<close> bit of a slot. The boolean result is whether the loop goes on.
\<close>

record prefetch_env =
  pe_entry_ok :: bool
  pe_data_ok :: bool
  pe_bio_ok :: bool

definition prefetch_async_io :: "bool \<Rightarrow> nat \<Rightarrow> tswap \<Rightarrow> int \<times> tswap" where
  "prefetch_async_io bio_ok e s =
     (let s1 = stat_inc nr_async_io_update s in
      if bio_ok then (0, s1\<lparr>ts_pf_bios := e # ts_pf_bios s1\<rparr>)
      else (- ENOMEM, stat_inc nr_malloc_fail_update s1))"

definition prefetch_iter ::
  "(nat \<Rightarrow> nat \<Rightarrow> bool) \<Rightarrow> prefetch_env \<Rightarrow> tswap \<Rightarrow> (bool \<times> tswap) res" where
  "prefetch_iter fmap env s =
     (case ring_pop (ts_ring s) of
        None \<Rightarrow> Inr (False, s)
      | Some (i, ring) \<Rightarrow>
          (let ty = pf_type i; off = pf_offset i; s1 = s\<lparr>ts_ring := ring\<rparr> in
           if \<not> fmap ty off then Inr (True, s1)
           else rbind (atomic_entry_lookup_lock ty off s1) (\<lambda>entry.
             case entry of
               Some _ \<Rightarrow> Inr (True, s1)
             | None \<Rightarrow>
                 (if \<not> pe_entry_ok env then Inr (False, stat_inc nr_malloc_fail_update s1)
                  else if \<not> pe_data_ok env then Inr (False, stat_inc nr_malloc_fail_update s1)
                  else
                    let (e, s2) = alloc_entry (new_entry ty off IN_MEMORY (Some []))
                                    (stat_inc nr_in_memory_page_update
                                      (s1\<lparr>ts_pages := ts_pages s1 + 1\<rparr>));
                        (ret, s3) = prefetch_async_io (pe_bio_ok env) e s2
                    in if ret < 0
                       then rbind (free_data e (stat_dec nr_in_memory_page_update s3)) (\<lambda>s4.
                            rbind (free_entry e s4) (\<lambda>s5. Inr (True, s5)))
                       else Inr (True, s3)))))"

fun tswap_prefetch_loop ::
  "(nat \<Rightarrow> nat \<Rightarrow> bool) \<Rightarrow> (nat \<Rightarrow> prefetch_env) \<Rightarrow> nat \<Rightarrow> tswap \<Rightarrow> tswap res" where
  "tswap_prefetch_loop fmap env 0 s = Inr s"
| "tswap_prefetch_loop fmap env (Suc n) s =
     rbind (prefetch_iter fmap (env n) s) (\<lambda>(go_on, s1).
       if go_on then tswap_prefetch_loop fmap env n s1 else Inr s1)"

text \<open>
  \<^verbatim>\<open>tswap_prefetch_store\<close>: \<open>input\<close> is what \<^verbatim>\<open>sscanf\<close> assigned to \<^verbatim>\<open>nr_pages\<close>, \<open>None\<close> when
  it matched nothing. The sysfs handler returns \<^verbatim>\<open>count\<close>.
\<close>

definition tswap_prefetch_store ::
  "(nat \<Rightarrow> nat \<Rightarrow> bool) \<Rightarrow> (nat \<Rightarrow> prefetch_env) \<Rightarrow> int option \<Rightarrow> nat \<Rightarrow> tswap \<Rightarrow> (nat \<times> tswap) res"
where
  "tswap_prefetch_store fmap env input count s =
     (case input of
        None \<Rightarrow> Inl Uninit
      | Some nr_pages \<Rightarrow>
          rbind (tswap_prefetch_loop fmap env (nat nr_pages) s) (\<lambda>s1. Inr (count, s1)))"

text \<open>
  \<^verbatim>\<open>prefetch_async_io_end\<close>: \<open>data\<close> is what the device delivered into the page, \<open>grace\<close> is
  \<^verbatim>\<open>msecs_to_jiffies(PREFETCH_GRACE_TIME * 1000)\<close>.
\<close>

definition prefetch_invalidate :: "nat \<Rightarrow> tswap \<Rightarrow> tswap res" where
  "prefetch_invalidate e s =
     rbind (set_state e INVALID (stat_dec nr_in_memory_page_update s)) (\<lambda>s1.
     rbind (free_data e s1) (\<lambda>s2. free_entry e s2))"

definition prefetch_async_io_end ::
  "jiffies \<Rightarrow> jiffies \<Rightarrow> bool \<Rightarrow> bool \<Rightarrow> nat \<Rightarrow> int \<Rightarrow> page \<Rightarrow> tswap \<Rightarrow> tswap res" where
  "prefetch_async_io_end grace now lock_free nomem e err data s =
     (let s1 = stat_inc nr_async_end_io_update (s\<lparr>ts_pf_bios := remove1 e (ts_pf_bios s)\<rparr>) in
      rbind (entry_at s1 e) (\<lambda>x.
        if err < 0 then prefetch_invalidate e (stat_inc nr_async_end_io_fail_update s1)
        else
          let s2 = put_entry e (x\<lparr>te_data := map_option (\<lambda>_. data) (te_data x),
                                  te_time := now + grace\<rparr>) s1 in
          rbind (atomic_entry_insert e True lock_free nomem s2) (\<lambda>(ret, s3).
            if ret < 0
            then prefetch_invalidate e (stat_inc nr_radix_tree_insert_fail_update s3)
            else Inr (atomic_entry_quarantine e s3))))"

section \<open>Sysfs attributes\<close>

text \<open>
  \<open>input\<close> is what \<^verbatim>\<open>sscanf(buf, "%ld", &input)\<close> assigned, \<open>None\<close> when the text holds no
  number: \<^verbatim>\<open>input\<close> is then read uninitialised.
\<close>

definition tswap_stat_store :: "int option \<Rightarrow> nat \<Rightarrow> tswap \<Rightarrow> (nat \<times> tswap) res" where
  "tswap_stat_store input count s =
     (case input of
        None \<Rightarrow> Inl Uninit
      | Some n \<Rightarrow>
          Inr (count, if n = 0 then s\<lparr>ts_stat := (ts_stat s)
            \<lparr>nr_async_io := 0, nr_async_end_io := 0, nr_async_io_fail := 0,
             nr_async_end_io_fail := 0, nr_thp := 0, nr_malloc_fail := 0, nr_kmap_fail := 0,
             nr_radix_tree_insert_fail := 0, nr_radix_tree_delete_fail := 0, nr_store := 0,
             nr_load := 0, nr_invalid_load := 0, nr_overwrite_store := 0,
             nr_invalidate_page := 0, nr_invalid_invalidate_page := 0, nr_invalidate_area := 0,
             nr_init := 0, nr_quarantine_delete_stale := 0,
             nr_quarantine_skip_mem_zombie := 0\<rparr>\<rparr> else s))"

text \<open>\<^verbatim>\<open>atomic_set\<close> takes an \<^verbatim>\<open>int\<close>: the \<^verbatim>\<open>long\<close> that was read is truncated.\<close>

definition tswap_quarantine_time_store :: "int option \<Rightarrow> nat \<Rightarrow> tswap \<Rightarrow> (nat \<times> tswap) res" where
  "tswap_quarantine_time_store input count s =
     (case input of
        None \<Rightarrow> Inl Uninit
      | Some n \<Rightarrow> Inr (count, if 0 \<le> n then s\<lparr>ts_quarantine_time := to_int32 n\<rparr> else s))"

text \<open>The two promotion counters are reset by reading them.\<close>

definition tswap_nr_promoted_page_show :: "tswap \<Rightarrow> int \<times> tswap" where
  "tswap_nr_promoted_page_show s =
     (nr_promoted_page (ts_stat s), s\<lparr>ts_stat := (ts_stat s)\<lparr>nr_promoted_page := 0\<rparr>\<rparr>)"

definition tswap_nr_disk_promoted_page_show :: "tswap \<Rightarrow> int \<times> tswap" where
  "tswap_nr_disk_promoted_page_show s =
     (nr_disk_promoted_page (ts_stat s), s\<lparr>ts_stat := (ts_stat s)\<lparr>nr_disk_promoted_page := 0\<rparr>\<rparr>)"

section \<open>Module initialisation\<close>

definition init_stat :: tswap_stat where
  "init_stat =
     \<lparr>nr_zombie_page = 0, nr_in_memory_page = 0, nr_in_memory_zombie_page = 0,
      nr_in_flight_page = 0, len_quarantine_list = 0, nr_async_io = 0, nr_async_end_io = 0,
      nr_async_io_fail = 0, nr_async_end_io_fail = 0, nr_thp = 0, nr_malloc_fail = 0,
      nr_kmap_fail = 0, nr_radix_tree_insert_fail = 0, nr_radix_tree_delete_fail = 0,
      nr_store = 0, nr_load = 0, nr_invalid_load = 0, nr_overwrite_store = 0,
      nr_invalidate_page = 0, nr_invalid_invalidate_page = 0, nr_invalidate_area = 0,
      nr_init = 0, nr_quarantine_delete_stale = 0, nr_quarantine_skip_mem_zombie = 0,
      nr_promoted_page = 0, nr_disk_promoted_page = 0\<rparr>"

definition DEFAULT_QUARANTINE_TIME :: int where
  "DEFAULT_QUARANTINE_TIME = 300"

text \<open>
  A kernel symbol as \<^verbatim>\<open>kallsyms_on_each_symbol\<close> presents it: its name, whether it belongs to
  a module, and its address. The walk stops at the first nonzero answer of the callback.
\<close>

record ksym =
  ks_name :: string
  ks_mod :: bool
  ks_addr :: nat

definition symbol_walk_callback :: "ksym \<Rightarrow> nat option \<Rightarrow> int \<times> nat option" where
  "symbol_walk_callback y swap_info =
     (if ks_mod y then (0, swap_info)
      else if ks_name y = ''swap_info''
      then (if swap_info \<noteq> None then (- EFAULT, swap_info) else (0, Some (ks_addr y)))
      else (0, swap_info))"

fun kallsyms_walk :: "ksym list \<Rightarrow> nat option \<Rightarrow> nat option" where
  "kallsyms_walk [] si = si"
| "kallsyms_walk (y # ys) si =
     (let (ret, si') = symbol_walk_callback y si
      in if ret \<noteq> 0 then si' else kallsyms_walk ys si')"

text \<open>What the kernel answers during initialisation; the sysfs files are five.\<close>

record init_env =
  ie_symbols :: "ksym list"
  ie_kobject_ok :: bool
  ie_files_ok :: "bool list"
  ie_thread_ok :: bool

definition tswap_init_state :: "tswap_prefetch_info arr \<Rightarrow> (nat \<Rightarrow> nat \<Rightarrow> page) \<Rightarrow> tswap" where
  "tswap_init_state garbage disk =
     \<lparr>ts_heap = Map.empty, ts_next = 0, ts_roots = Map.empty, ts_trees = Map.empty,
      ts_quarantine = [], ts_quarantine_time = DEFAULT_QUARANTINE_TIME, ts_stat = init_stat,
      ts_ring = ring_init garbage, ts_submitting = None, ts_bios = [], ts_pf_bios = [],
      ts_areas = [], ts_pages = 0, ts_disk = disk\<rparr>"

text \<open>The result is the return value, whether the kobject stays, and the registered module.\<close>

definition tswap_init ::
  "init_env \<Rightarrow> tswap_prefetch_info arr \<Rightarrow> (nat \<Rightarrow> nat \<Rightarrow> page) \<Rightarrow> int \<times> bool \<times> tswap option" where
  "tswap_init env garbage disk =
     (if kallsyms_walk (ie_symbols env) None = None then (- EINVAL, False, None)
      else if \<not> ie_kobject_ok env then (- ENOMEM, False, None)
      else if \<not> list_all id (ie_files_ok env) then (- ENOMEM, False, None)
      else if \<not> ie_thread_ok env then (- EINVAL, False, None)
      else (0, True, Some (tswap_init_state garbage disk)))"

end
