(* ===== verification/Tswap_Inv.thy ===== *)
theory Tswap_Inv
  imports Tswap_Ops
begin

text \<open>
  The invariant of the tswap module and that every operation keeps it without undefined
  behaviour: the radix trees and the heap of entries agree, the quarantine list holds
  exactly the entries whose page may be discharged, a write request is outstanding exactly
  for the entries in flight and the zombies, and the counters of \<^verbatim>\<open>tswap_stat\<close> count what
  they name. The lemmas on \<open>inv_core\<close> say how one entry may change state; each operation
  is shown to be one of these changes.
\<close>

section \<open>The invariant\<close>

text \<open>States in which the entry is in the quarantine list, and states with a write request.\<close>

definition queued :: "tswap_entry_state \<Rightarrow> bool" where
  "queued st \<longleftrightarrow> st = IN_MEMORY \<or> st = IN_MEMORY_FOLLOWED_BY_ZOMBIE"

definition in_io :: "tswap_entry_state \<Rightarrow> bool" where
  "in_io st \<longleftrightarrow> st = IN_FLIGHT \<or> st = ZOMBIE \<or> st = IN_MEMORY_FOLLOWED_BY_ZOMBIE"

lemma queued_simps [simp]:
  "queued IN_MEMORY" "queued IN_MEMORY_FOLLOWED_BY_ZOMBIE"
  "\<not> queued INVALID" "\<not> queued ZOMBIE" "\<not> queued IN_FLIGHT"
  by (simp_all add: queued_def)

lemma in_io_simps [simp]:
  "in_io IN_FLIGHT" "in_io ZOMBIE" "in_io IN_MEMORY_FOLLOWED_BY_ZOMBIE"
  "\<not> in_io INVALID" "\<not> in_io IN_MEMORY"
  by (simp_all add: in_io_def)

text \<open>The requests of the discharge thread: the one being submitted and those submitted.\<close>

definition disch :: "tswap \<Rightarrow> nat list" where
  "disch s = (case ts_submitting s of None \<Rightarrow> ts_bios s | Some e \<Rightarrow> e # ts_bios s)"

lemma disch_simps [simp]:
  "disch (s\<lparr>ts_heap := h\<rparr>) = disch s" "disch (s\<lparr>ts_trees := t\<rparr>) = disch s"
  "disch (s\<lparr>ts_roots := r\<rparr>) = disch s" "disch (s\<lparr>ts_next := n\<rparr>) = disch s"
  "disch (s\<lparr>ts_quarantine := q\<rparr>) = disch s" "disch (s\<lparr>ts_stat := st\<rparr>) = disch s"
  "disch (s\<lparr>ts_pages := p\<rparr>) = disch s" "disch (s\<lparr>ts_disk := d\<rparr>) = disch s"
  "disch (s\<lparr>ts_ring := rg\<rparr>) = disch s" "disch (s\<lparr>ts_pf_bios := pf\<rparr>) = disch s"
  "disch (s\<lparr>ts_areas := a\<rparr>) = disch s"
  by (simp_all add: disch_def split: option.splits)

text \<open>Addresses are used once; a published root exists and belongs to one swap type.\<close>

definition inv_heap ::
  "(nat \<rightharpoonup> tswap_entry) \<Rightarrow> nat \<Rightarrow> (nat \<rightharpoonup> nat) \<Rightarrow> (nat \<rightharpoonup> (nat \<rightharpoonup> nat)) \<Rightarrow> bool" where
  "inv_heap H N RT TR \<longleftrightarrow> finite (dom H) \<and> (\<forall>e. N \<le> e \<longrightarrow> H e = None \<and> TR e = None) \<and>
     (\<forall>ty r. RT ty = Some r \<longrightarrow> TR r \<noteq> None) \<and>
     (\<forall>ty ty' r. RT ty = Some r \<longrightarrow> RT ty' = Some r \<longrightarrow> ty = ty')"

text \<open>What a tree points to is a live entry that knows its tree, its offset and its type.\<close>

definition inv_tree ::
  "(nat \<rightharpoonup> tswap_entry) \<Rightarrow> (nat \<rightharpoonup> nat) \<Rightarrow> (nat \<rightharpoonup> (nat \<rightharpoonup> nat)) \<Rightarrow> nat list \<Rightarrow> bool" where
  "inv_tree H RT TR PF \<longleftrightarrow> (\<forall>r t off e. TR r = Some t \<longrightarrow> t off = Some e \<longrightarrow>
     (\<exists>x. H e = Some x \<and> te_root x = Some r \<and> te_offset x = off \<and> e \<notin> set PF \<and>
          (\<forall>ty. RT ty = Some r \<longrightarrow> te_type x = ty)))"

definition in_tree :: "(nat \<rightharpoonup> (nat \<rightharpoonup> nat)) \<Rightarrow> tswap_entry \<Rightarrow> nat \<Rightarrow> bool" where
  "in_tree TR x e \<longleftrightarrow>
     (\<exists>r t. te_root x = Some r \<and> TR r = Some t \<and> t (te_offset x) = Some e)"

text \<open>
  A live entry is valid and owns its page; it is in its tree, or its prefetch read is
  outstanding: nothing is leaked.
\<close>

definition inv_entry ::
  "(nat \<rightharpoonup> tswap_entry) \<Rightarrow> (nat \<rightharpoonup> (nat \<rightharpoonup> nat)) \<Rightarrow> nat list \<Rightarrow> bool" where
  "inv_entry H TR PF \<longleftrightarrow> (\<forall>e x. H e = Some x \<longrightarrow> te_state x \<noteq> INVALID \<and> te_data x \<noteq> None \<and>
     (e \<in> set PF \<longrightarrow> te_state x = IN_MEMORY) \<and>
     (e \<notin> set PF \<longrightarrow> in_tree TR x e))"

definition inv_queue :: "(nat \<rightharpoonup> tswap_entry) \<Rightarrow> nat list \<Rightarrow> nat list \<Rightarrow> bool" where
  "inv_queue H Q PF \<longleftrightarrow> distinct Q \<and>
     (\<forall>e. e \<in> set Q \<longleftrightarrow> (\<exists>x. H e = Some x \<and> e \<notin> set PF \<and> queued (te_state x)))"

definition inv_io :: "(nat \<rightharpoonup> tswap_entry) \<Rightarrow> nat list \<Rightarrow> nat list \<Rightarrow> bool" where
  "inv_io H BI PF \<longleftrightarrow> distinct BI \<and> (\<forall>e. e \<in> set BI \<longleftrightarrow> (\<exists>x. H e = Some x \<and> in_io (te_state x))) \<and>
     distinct PF \<and> (\<forall>e. e \<in> set PF \<longrightarrow> H e \<noteq> None)"

definition inv_core where
  "inv_core H N RT TR Q PF BI \<longleftrightarrow>
     inv_heap H N RT TR \<and> inv_tree H RT TR PF \<and> inv_entry H TR PF \<and> inv_queue H Q PF \<and>
     inv_io H BI PF"

text \<open>The roots that are being reclaimed exist and are no longer published.\<close>

definition inv_areas :: "(nat \<rightharpoonup> nat) \<Rightarrow> (nat \<rightharpoonup> (nat \<rightharpoonup> nat)) \<Rightarrow> nat list \<Rightarrow> bool" where
  "inv_areas RT TR AR \<longleftrightarrow> distinct AR \<and>
     (\<forall>r. r \<in> set AR \<longrightarrow> TR r \<noteq> None \<and> (\<forall>ty. RT ty \<noteq> Some r))"

definition counters :: "(nat \<rightharpoonup> tswap_entry) \<Rightarrow> nat list \<Rightarrow> tswap_stat \<Rightarrow> int \<Rightarrow> bool" where
  "counters H Q st pages \<longleftrightarrow>
     nr_zombie_page st = int (mcount (\<lambda>x. te_state x = ZOMBIE) H) \<and>
     nr_in_memory_page st = int (mcount (\<lambda>x. te_state x = IN_MEMORY) H) \<and>
     nr_in_memory_zombie_page st =
       int (mcount (\<lambda>x. te_state x = IN_MEMORY_FOLLOWED_BY_ZOMBIE) H) \<and>
     nr_in_flight_page st = int (mcount (\<lambda>x. te_state x = IN_FLIGHT) H) \<and>
     len_quarantine_list st = int (length Q) \<and>
     pages = int (mcount (\<lambda>_. True) H)"

definition tswap_inv :: "tswap \<Rightarrow> bool" where
  "tswap_inv s \<longleftrightarrow>
     inv_core (ts_heap s) (ts_next s) (ts_roots s) (ts_trees s) (ts_quarantine s)
       (ts_pf_bios s) (disch s) \<and>
     inv_areas (ts_roots s) (ts_trees s) (ts_areas s) \<and>
     counters (ts_heap s) (ts_quarantine s) (ts_stat s) (ts_pages s) \<and>
     ring_inv (ts_ring s)"

lemmas inv_parts = inv_heap_def inv_tree_def inv_entry_def inv_queue_def inv_io_def

section \<open>How one entry may change\<close>

lemma inv_treeI:
  assumes "\<And>r t off e. TR r = Some t \<Longrightarrow> t off = Some e \<Longrightarrow>
     \<exists>x. H e = Some x \<and> te_root x = Some r \<and> te_offset x = off \<and> e \<notin> set PF \<and>
          (\<forall>ty. RT ty = Some r \<longrightarrow> te_type x = ty)"
  shows "inv_tree H RT TR PF"
  using assms unfolding inv_tree_def by blast

lemma inv_treeE:
  assumes "inv_tree H RT TR PF" "TR r = Some t" "t off = Some e"
  obtains x where "H e = Some x" "te_root x = Some r" "te_offset x = off" "e \<notin> set PF"
    "\<forall>ty. RT ty = Some r \<longrightarrow> te_type x = ty"
  using assms unfolding inv_tree_def by blast

lemma inv_coreD:
  assumes "inv_core H N RT TR Q PF BI"
  shows "inv_heap H N RT TR" "inv_tree H RT TR PF" "inv_entry H TR PF" "inv_queue H Q PF"
    "inv_io H BI PF"
  using assms by (simp_all add: inv_core_def)

lemma in_tree_case: "in_tree TR x e \<longleftrightarrow>
    (case te_root x of None \<Rightarrow> False
     | Some r \<Rightarrow> (case TR r of None \<Rightarrow> False | Some t \<Rightarrow> t (te_offset x) = Some e))"
  by (simp add: in_tree_def split: option.splits)

lemma in_tree_cong:
  "te_root y = te_root x \<Longrightarrow> te_offset y = te_offset x \<Longrightarrow> in_tree TR y e = in_tree TR x e"
  by (simp add: in_tree_def)

lemma in_tree_upd_other:
  assumes "in_tree TR y e'" "TR r = Some t" "t off \<noteq> Some e'"
  shows "in_tree (TR(r \<mapsto> t(off := v))) y e'"
  using assms by (auto simp: in_tree_def)

text \<open>The entry changes its state or its contents and stays in its tree.\<close>

lemma core_move:
  assumes inv: "inv_core H N RT TR Q PF BI"
    and e: "H e = Some x" "e \<notin> set PF"
    and y: "te_root y = te_root x" "te_offset y = te_offset x" "te_type y = te_type x"
      "te_state y \<noteq> INVALID" "te_data y \<noteq> None"
    and Q: "distinct Q'" "set Q' = (if queued (te_state y) then insert e (set Q) else set Q - {e})"
    and BI: "distinct BI'" "set BI' = (if in_io (te_state y) then insert e (set BI) else set BI - {e})"
  shows "inv_core (H(e \<mapsto> y)) N RT TR Q' PF BI'"
  unfolding inv_core_def
proof (intro conjI)
  note d = inv_coreD [OF inv]
  show "inv_heap (H(e \<mapsto> y)) N RT TR" using d(1) e by (auto simp: inv_heap_def)
  show "inv_tree (H(e \<mapsto> y)) RT TR PF" using d(2) e y by (fastforce simp: inv_tree_def)
  show "inv_entry (H(e \<mapsto> y)) TR PF" using d(3) e y by (auto simp: inv_entry_def in_tree_cong [OF y(1,2)])
  show "inv_queue (H(e \<mapsto> y)) Q' PF" using d(4) e Q by (auto simp: inv_queue_def)
  show "inv_io (H(e \<mapsto> y)) BI' PF" using d(5) e BI by (auto simp: inv_io_def)
qed

text \<open>The entry leaves its tree and is freed.\<close>

lemma core_delete:
  assumes inv: "inv_core H N RT TR Q PF BI"
    and e: "H e = Some x" "e \<notin> set PF" "te_root x = Some r" "TR r = Some t"
    and Q: "distinct Q'" "set Q' = set Q - {e}" and BI: "distinct BI'" "set BI' = set BI - {e}"
  shows "inv_core (H(e := None)) N RT (TR(r \<mapsto> t(te_offset x := None))) Q' PF BI'"
  unfolding inv_core_def
proof (intro conjI)
  note d = inv_coreD [OF inv]
  show "inv_heap (H(e := None)) N RT (TR(r \<mapsto> t(te_offset x := None)))"
    using d(1) e by (auto simp: inv_heap_def)
  show "inv_tree (H(e := None)) RT (TR(r \<mapsto> t(te_offset x := None))) PF"
  proof (rule inv_treeI)
    fix r' t' off e'
    assume t': "(TR(r \<mapsto> t(te_offset x := None))) r' = Some t'" "t' off = Some e'"
    then obtain t0 where t0: "TR r' = Some t0" "t0 off = Some e'"
      and ne: "r' \<noteq> r \<or> off \<noteq> te_offset x"
      using e(4) by (auto split: if_splits)
    from d(2) t0 obtain y where "H e' = Some y" "te_root y = Some r'" "te_offset y = off"
      "e' \<notin> set PF" "\<forall>ty. RT ty = Some r' \<longrightarrow> te_type y = ty" by (rule inv_treeE)
    moreover have "e' \<noteq> e" using calculation ne e(1,3) by auto
    ultimately show "\<exists>x. (H(e := None)) e' = Some x \<and> te_root x = Some r' \<and>
        te_offset x = off \<and> e' \<notin> set PF \<and> (\<forall>ty. RT ty = Some r' \<longrightarrow> te_type x = ty)"
      by simp
  qed
  show "inv_entry (H(e := None)) (TR(r \<mapsto> t(te_offset x := None))) PF"
  proof -
    have "in_tree TR x e" using d(3) e by (simp add: inv_entry_def)
    then have "t (te_offset x) = Some e" using e by (simp add: in_tree_def)
    then show ?thesis using d(3) e(4)
      by (auto simp: inv_entry_def intro!: in_tree_upd_other split: if_splits)
  qed
  show "inv_queue (H(e := None)) Q' PF" using d(4) e Q by (auto simp: inv_queue_def)
  show "inv_io (H(e := None)) BI' PF" using d(5) e BI by (auto simp: inv_io_def)
qed

text \<open>A new entry enters a tree and the quarantine list.\<close>

lemma core_insert:
  assumes inv: "inv_core H N RT TR Q PF BI"
    and e: "H e = None" "e \<notin> set PF" "e < N'" "N \<le> N'"
    and x: "te_state x = IN_MEMORY" "te_data x \<noteq> None" "te_root x = Some r"
    and r: "RT (te_type x) = Some r" "TR r = Some t" "t (te_offset x) = None"
  shows "inv_core (H(e \<mapsto> x)) N' RT (TR(r \<mapsto> t(te_offset x \<mapsto> e))) (Q @ [e]) PF BI"
  unfolding inv_core_def
proof (intro conjI)
  note d = inv_coreD [OF inv]
  show "inv_heap (H(e \<mapsto> x)) N' RT (TR(r \<mapsto> t(te_offset x \<mapsto> e)))"
    using d(1) e r by (auto simp: inv_heap_def)
  have "ty = te_type x" if "RT ty = Some r" for ty
    using d(1) r(1) that by (auto simp: inv_heap_def)
  note ty = this
  show "inv_tree (H(e \<mapsto> x)) RT (TR(r \<mapsto> t(te_offset x \<mapsto> e))) PF"
  proof (rule inv_treeI)
    fix r' t' off e'
    assume t': "(TR(r \<mapsto> t(te_offset x \<mapsto> e))) r' = Some t'" "t' off = Some e'"
    show "\<exists>y. (H(e \<mapsto> x)) e' = Some y \<and> te_root y = Some r' \<and>
        te_offset y = off \<and> e' \<notin> set PF \<and> (\<forall>ty. RT ty = Some r' \<longrightarrow> te_type y = ty)"
    proof (cases "r' = r \<and> off = te_offset x")
      case True
      with t' have "e' = e" by auto
      with True e x ty show ?thesis by auto
    next
      case False
      with t' obtain t0 where t0: "TR r' = Some t0" "t0 off = Some e'"
        using r(2) by (auto split: if_splits)
      from d(2) t0 obtain y where "H e' = Some y" "te_root y = Some r'" "te_offset y = off"
        "e' \<notin> set PF" "\<forall>ty. RT ty = Some r' \<longrightarrow> te_type y = ty" by (rule inv_treeE)
      moreover have "e' \<noteq> e" using calculation e(1) by auto
      ultimately show ?thesis by simp
    qed
  qed
  show "inv_entry (H(e \<mapsto> x)) (TR(r \<mapsto> t(te_offset x \<mapsto> e))) PF"
  proof -
    have "in_tree (TR(r \<mapsto> t(te_offset x \<mapsto> e))) x e" using x by (simp add: in_tree_def)
    then show ?thesis using d(3) e(2) x(1,2) r(2,3)
      by (auto simp: inv_entry_def intro: in_tree_upd_other)
  qed
  show "inv_queue (H(e \<mapsto> x)) (Q @ [e]) PF" using d(4) e x by (auto simp: inv_queue_def)
  show "inv_io (H(e \<mapsto> x)) BI PF" using d(5) e x by (auto simp: inv_io_def)
qed

lemma core_fresh: "inv_core H N RT TR Q PF BI \<Longrightarrow> N \<le> N' \<Longrightarrow> inv_core H N' RT TR Q PF BI"
  by (auto simp: inv_core_def inv_heap_def)

text \<open>A prefetch read starts, its entry enters a tree, or the entry is dropped.\<close>

lemma core_pf_new:
  assumes inv: "inv_core H N RT TR Q PF BI"
    and e: "H e = None" "e < N'" "N \<le> N'"
    and x: "te_state x = IN_MEMORY" "te_data x \<noteq> None"
  shows "inv_core (H(e \<mapsto> x)) N' RT TR Q (e # PF) BI"
  unfolding inv_core_def
proof (intro conjI)
  note d = inv_coreD [OF inv]
  have PF: "e \<notin> set PF" using d(5) e by (auto simp: inv_io_def)
  show "inv_heap (H(e \<mapsto> x)) N' RT TR" using d(1) e by (auto simp: inv_heap_def)
  show "inv_tree (H(e \<mapsto> x)) RT TR (e # PF)" using d(2) e by (fastforce simp: inv_tree_def)
  show "inv_entry (H(e \<mapsto> x)) TR (e # PF)" using d(3) e x by (auto simp: inv_entry_def)
  show "inv_queue (H(e \<mapsto> x)) Q (e # PF)" using d(4) e x by (auto simp: inv_queue_def)
  show "inv_io (H(e \<mapsto> x)) BI (e # PF)" using d(5) e x PF by (auto simp: inv_io_def)
qed

lemma core_pf_drop:
  assumes inv: "inv_core H N RT TR Q PF BI" and e: "e \<in> set PF"
  shows "inv_core (H(e := None)) N RT TR Q (remove1 e PF) BI"
proof -
  note d = inv_coreD [OF inv]
  have PF: "distinct PF" "set (remove1 e PF) = set PF - {e}"
    using d(5) by (auto simp: inv_io_def)
  obtain x where x: "H e = Some x" "te_state x = IN_MEMORY"
    using d(3,5) e by (fastforce simp: inv_entry_def inv_io_def)
  show ?thesis unfolding inv_core_def
  proof (intro conjI)
    show "inv_heap (H(e := None)) N RT TR" using d(1) by (auto simp: inv_heap_def)
    show "inv_tree (H(e := None)) RT TR (remove1 e PF)"
      using d(2) e PF by (fastforce simp: inv_tree_def)
    show "inv_entry (H(e := None)) TR (remove1 e PF)" using d(3) PF by (auto simp: inv_entry_def)
    show "inv_queue (H(e := None)) Q (remove1 e PF)" using d(4) e PF by (auto simp: inv_queue_def)
    show "inv_io (H(e := None)) BI (remove1 e PF)"
      using d(5) e x PF by (auto simp: inv_io_def)
  qed
qed

lemma core_pf_insert:
  assumes inv: "inv_core H N RT TR Q PF BI" and e: "e \<in> set PF"
    and x: "te_state x = IN_MEMORY" "te_data x \<noteq> None" "te_root x = Some r"
    and r: "RT (te_type x) = Some r" "TR r = Some t" "t (te_offset x) = None"
  shows "inv_core (H(e \<mapsto> x)) N RT (TR(r \<mapsto> t(te_offset x \<mapsto> e))) (Q @ [e]) (remove1 e PF) BI"
proof -
  have drop: "inv_core (H(e := None)) N RT TR Q (remove1 e PF) BI"
    using inv e by (rule core_pf_drop)
  have "distinct PF" "H e \<noteq> None" using inv_coreD(5) [OF inv] e by (auto simp: inv_io_def)
  then have "e \<notin> set (remove1 e PF)" "e < N"
    using inv_coreD(1) [OF inv] by (auto simp: inv_heap_def not_le [symmetric])
  from core_insert [OF drop _ this(1) this(2) order_refl x r] show ?thesis by simp
qed

section \<open>Looking an entry up\<close>

definition slot :: "tswap \<Rightarrow> nat \<Rightarrow> nat \<Rightarrow> nat option" where
  "slot s ty off =
     (case ts_roots s ty of None \<Rightarrow> None
      | Some r \<Rightarrow> (case ts_trees s r of None \<Rightarrow> None | Some t \<Rightarrow> t off))"

lemma live_entryE:
  assumes "tswap_inv s" "ts_heap s e = Some x" "e \<notin> set (ts_pf_bios s)"
  obtains r t d where "te_root x = Some r" "ts_trees s r = Some t" "t (te_offset x) = Some e"
    "te_data x = Some d" "te_state x \<noteq> INVALID"
  using assms by (fastforce simp: tswap_inv_def inv_core_def inv_entry_def in_tree_def)

lemma slot_entryE:
  assumes "tswap_inv s" "slot s ty off = Some e"
  obtains x where "ts_heap s e = Some x" "e \<notin> set (ts_pf_bios s)" "te_offset x = off"
    "te_type x = ty" "te_root x = ts_roots s ty"
proof -
  from assms(2) obtain r t where rt: "ts_roots s ty = Some r" "ts_trees s r = Some t"
    "t off = Some e" by (auto simp: slot_def split: option.splits)
  have "inv_tree (ts_heap s) (ts_roots s) (ts_trees s) (ts_pf_bios s)"
    using assms(1) by (simp add: tswap_inv_def inv_core_def)
  from inv_treeE [OF this rt(2,3)] rt(1) show ?thesis using that by metis
qed

lemma entry_at_Some [simp]: "ts_heap s e = Some x \<Longrightarrow> entry_at s e = Inr x"
  by (simp add: entry_at_def)

lemma lookup_slot:
  assumes "tswap_inv s"
  shows "atomic_entry_lookup_lock ty off s = Inr (slot s ty off)"
proof (cases "ts_roots s ty")
  case None
  then show ?thesis by (simp add: atomic_entry_lookup_lock_def slot_def)
next
  case (Some r)
  then obtain t where t: "ts_trees s r = Some t"
    using assms by (fastforce simp: tswap_inv_def inv_core_def inv_heap_def)
  show ?thesis
  proof (cases "t off")
    case None
    with Some t show ?thesis by (simp add: atomic_entry_lookup_lock_def slot_def)
  next
    case (Some e)
    with \<open>ts_roots s ty = Some r\<close> t have sl: "slot s ty off = Some e" by (simp add: slot_def)
    with assms obtain x where x: "ts_heap s e = Some x" "e \<notin> set (ts_pf_bios s)"
      by (rule slot_entryE)
    with assms have "te_state x \<noteq> INVALID" by (rule live_entryE)
    with Some \<open>ts_roots s ty = Some r\<close> t x sl show ?thesis
      by (simp add: atomic_entry_lookup_lock_def)
  qed
qed

lemma inv_finite: "tswap_inv s \<Longrightarrow> finite (dom (ts_heap s))"
  by (simp add: tswap_inv_def inv_core_def inv_heap_def)

lemma inv_distinct: "tswap_inv s \<Longrightarrow> distinct (ts_quarantine s)" "tswap_inv s \<Longrightarrow> distinct (disch s)"
  by (simp_all add: tswap_inv_def inv_core_def inv_queue_def inv_io_def)

lemma inv_in_queue:
  assumes "tswap_inv s" "ts_heap s e = Some x" "e \<notin> set (ts_pf_bios s)"
  shows "e \<in> set (ts_quarantine s) \<longleftrightarrow> queued (te_state x)"
  using assms by (simp add: tswap_inv_def inv_core_def inv_queue_def)

lemma inv_in_disch:
  assumes "tswap_inv s" "ts_heap s e = Some x"
  shows "e \<in> set (disch s) \<longleftrightarrow> in_io (te_state x)"
  using assms by (simp add: tswap_inv_def inv_core_def inv_io_def)

section \<open>Every operation keeps the invariant\<close>

text \<open>The facts about one live entry, for the lemmas on its state changes.\<close>

lemmas counter_simps = counters_def mcount_upd mcount_int_new mcount_int_del

lemmas heap_op_defs =
  set_state_def free_data_def alloc_data_def free_entry_def delete_and_free_def
  delete_if_invalid_def atomic_entry_delete_def errno_defs

text \<open>What no operation on one entry touches.\<close>

definition frame :: "tswap \<Rightarrow> tswap \<Rightarrow> bool" where
  "frame s s' \<longleftrightarrow> ts_next s' = ts_next s \<and> ts_roots s' = ts_roots s \<and>
     ts_pf_bios s' = ts_pf_bios s \<and> ts_areas s' = ts_areas s \<and> ts_ring s' = ts_ring s"

definition moves :: "nat \<Rightarrow> tswap_entry \<Rightarrow> tswap \<Rightarrow> tswap \<Rightarrow> bool" where
  "moves e y s s' \<longleftrightarrow> ts_heap s' = (ts_heap s)(e \<mapsto> y) \<and> ts_trees s' = ts_trees s \<and> frame s s' \<and>
     counters (ts_heap s') (ts_quarantine s') (ts_stat s') (ts_pages s')"

definition drops :: "nat \<Rightarrow> nat \<Rightarrow> (nat \<rightharpoonup> nat) \<Rightarrow> nat \<Rightarrow> tswap \<Rightarrow> tswap \<Rightarrow> bool" where
  "drops e r t off s s' \<longleftrightarrow> ts_heap s' = (ts_heap s)(e := None) \<and>
     ts_trees s' = (ts_trees s)(r \<mapsto> t(off := None)) \<and> frame s s' \<and>
     counters (ts_heap s') (ts_quarantine s') (ts_stat s') (ts_pages s')"

lemma tswap_inv_move:
  assumes inv: "tswap_inv s" and e: "ts_heap s e = Some x" "e \<notin> set (ts_pf_bios s)"
    and mv: "moves e y s s'"
    and y: "te_root y = te_root x" "te_offset y = te_offset x" "te_type y = te_type x"
      "te_state y \<noteq> INVALID" "te_data y \<noteq> None"
    and Q: "distinct (ts_quarantine s')" "set (ts_quarantine s') =
      (if queued (te_state y) then insert e (set (ts_quarantine s))
       else set (ts_quarantine s) - {e})"
    and BI: "distinct (disch s')" "set (disch s') =
      (if in_io (te_state y) then insert e (set (disch s)) else set (disch s) - {e})"
  shows "tswap_inv s'"
proof -
  have "inv_core (ts_heap s) (ts_next s) (ts_roots s) (ts_trees s) (ts_quarantine s)
      (ts_pf_bios s) (disch s)" using inv by (simp add: tswap_inv_def)
  from core_move [OF this e y Q BI] show ?thesis
    using inv mv unfolding tswap_inv_def moves_def frame_def by auto
qed

lemma tswap_inv_drop:
  assumes inv: "tswap_inv s" and e: "ts_heap s e = Some x" "e \<notin> set (ts_pf_bios s)"
    and r: "te_root x = Some r" "ts_trees s r = Some t"
    and dr: "drops e r t (te_offset x) s s'"
    and Q: "distinct (ts_quarantine s')" "set (ts_quarantine s') = set (ts_quarantine s) - {e}"
    and BI: "distinct (disch s')" "set (disch s') = set (disch s) - {e}"
  shows "tswap_inv s'"
proof -
  have "inv_core (ts_heap s) (ts_next s) (ts_roots s) (ts_trees s) (ts_quarantine s)
      (ts_pf_bios s) (disch s)" using inv by (simp add: tswap_inv_def)
  from core_delete [OF this e r Q BI] show ?thesis
    using inv dr r unfolding tswap_inv_def drops_def frame_def by (auto simp: inv_areas_def)
qed

lemmas move_simps = moves_def drops_def frame_def heap_op_defs counter_simps
  atomic_entry_quarantine_def atomic_entry_dequarantine_def invalidate_entry_struct_def

lemma invalidate_and_drop_zombie:
  "ts_heap s e = Some x \<Longrightarrow> te_state x = ZOMBIE \<Longrightarrow> e \<notin> set (ts_quarantine s) \<Longrightarrow>
    invalidate_and_drop e s = Inr s"
  by (simp add: invalidate_and_drop_def move_simps)

lemma invalidate_and_drop_in_memory:
  assumes "tswap_inv s" "ts_heap s e = Some x" "e \<notin> set (ts_pf_bios s)" "te_state x = IN_MEMORY"
    and "te_root x = Some r" "ts_trees s r = Some t"
  shows "\<exists>s'. invalidate_and_drop e s = Inr s' \<and> drops e r t (te_offset x) s s' \<and>
    ts_quarantine s' = remove1 e (ts_quarantine s) \<and>
    disch s' = disch s \<and> ts_disk s' = ts_disk s"
proof -
  from assms(1-3) obtain d where "te_data x = Some d" "t (te_offset x) = Some e"
    using assms(5,6) by (auto elim: live_entryE)
  moreover have "e \<in> set (ts_quarantine s)"
    using inv_in_queue [OF assms(1-3)] assms(4) by simp
  moreover have "counters (ts_heap s) (ts_quarantine s) (ts_stat s) (ts_pages s)"
    using assms(1) by (simp add: tswap_inv_def)
  ultimately show ?thesis using assms(2-6) inv_finite [OF assms(1)]
    by (simp add: invalidate_and_drop_def move_simps int_length_remove1)
qed

lemma invalidate_and_drop_in_io:
  assumes "tswap_inv s" "ts_heap s e = Some x" "e \<notin> set (ts_pf_bios s)"
    and "te_state x = IN_MEMORY_FOLLOWED_BY_ZOMBIE \<or> te_state x = IN_FLIGHT"
  shows "\<exists>s'. invalidate_and_drop e s = Inr s' \<and> moves e (x\<lparr>te_state := ZOMBIE\<rparr>) s s' \<and>
    ts_quarantine s' = remove1 e (ts_quarantine s) \<and>
    disch s' = disch s \<and> ts_disk s' = ts_disk s"
proof -
  have "e \<in> set (ts_quarantine s) \<longleftrightarrow> te_state x = IN_MEMORY_FOLLOWED_BY_ZOMBIE"
    using inv_in_queue [OF assms(1-3)] assms(4) by (auto simp: queued_def)
  moreover have "counters (ts_heap s) (ts_quarantine s) (ts_stat s) (ts_pages s)"
    using assms(1) by (simp add: tswap_inv_def)
  ultimately show ?thesis using assms(2-4) inv_finite [OF assms(1)]
    by (elim disjE) (simp_all add: invalidate_and_drop_def move_simps int_length_remove1 remove1_idem)
qed

lemma invalidate_and_drop_inv:
  assumes inv: "tswap_inv s" and e: "ts_heap s e = Some x" "e \<notin> set (ts_pf_bios s)"
  shows "\<exists>s'. invalidate_and_drop e s = Inr s' \<and> tswap_inv s'"
proof -
  from inv e obtain r t d where l: "te_root x = Some r" "ts_trees s r = Some t"
    "t (te_offset x) = Some e" "te_data x = Some d" "te_state x \<noteq> INVALID" by (rule live_entryE)
  note q = inv_in_queue [OF inv e] inv_in_disch [OF inv e(1)] inv_distinct [OF inv]
  consider "te_state x = ZOMBIE" | "te_state x = IN_MEMORY"
    | "te_state x = IN_MEMORY_FOLLOWED_BY_ZOMBIE \<or> te_state x = IN_FLIGHT"
    using l(5) by (cases "te_state x") auto
  then show ?thesis
  proof cases
    case 1
    with e q inv show ?thesis by (simp add: invalidate_and_drop_zombie)
  next
    case 2
    from invalidate_and_drop_in_memory [OF inv e 2 l(1,2)] q 2 show ?thesis
      by (auto intro!: tswap_inv_drop [OF inv e l(1,2)])
  next
    case 3
    from invalidate_and_drop_in_io [OF inv e 3] q 3 l show ?thesis
      by (auto intro!: tswap_inv_move [OF inv e])
  qed
qed

text \<open>Counters that name no state, and the ring, do not matter to the invariant.\<close>

lemma tswap_inv_stat [simp]:
  assumes "nr_zombie_page st = nr_zombie_page (ts_stat s)"
    "nr_in_memory_page st = nr_in_memory_page (ts_stat s)"
    "nr_in_memory_zombie_page st = nr_in_memory_zombie_page (ts_stat s)"
    "nr_in_flight_page st = nr_in_flight_page (ts_stat s)"
    "len_quarantine_list st = len_quarantine_list (ts_stat s)"
  shows "tswap_inv (s\<lparr>ts_stat := st\<rparr>) = tswap_inv s"
  using assms by (simp add: tswap_inv_def counters_def)

lemma tswap_inv_ring: "tswap_inv s \<Longrightarrow> ring_inv r \<Longrightarrow> tswap_inv (s\<lparr>ts_ring := r\<rparr>)"
  by (simp add: tswap_inv_def)

lemma inv_counters:
  "tswap_inv s \<Longrightarrow> counters (ts_heap s) (ts_quarantine s) (ts_stat s) (ts_pages s)"
  by (simp add: tswap_inv_def)

lemma te_state_same [simp]: "te_state x = st \<Longrightarrow> x\<lparr>te_state := st\<rparr> = x"
  by (cases x) simp

subsection \<open>Store\<close>

lemmas store_defs = store_locked_def store_commit_def store_invalidate_entry_def
  store_free_mem_def store_free_entry_def

definition stored_state :: "tswap_entry_state \<Rightarrow> tswap_entry_state" where
  "stored_state st = (if st = IN_MEMORY then IN_MEMORY else IN_MEMORY_FOLLOWED_BY_ZOMBIE)"

lemma store_locked_prev_ok:
  assumes inv: "tswap_inv s" and e: "ts_heap s e = Some x" "e \<notin> set (ts_pf_bios s)"
    and ok: "se_kmap_ok env"
  shows "\<exists>s'. store_locked env now True e pg s = Inr (0, s') \<and>
    moves e (x\<lparr>te_data := Some pg, te_time := now, te_state := stored_state (te_state x)\<rparr>) s s' \<and>
    ts_quarantine s' = remove1 e (ts_quarantine s) @ [e] \<and> disch s' = disch s \<and>
    ts_disk s' = ts_disk s"
proof -
  from inv e obtain d where d: "te_data x = Some d" "te_state x \<noteq> INVALID" by (rule live_entryE)
  note q = inv_in_queue [OF inv e]
  show ?thesis
    using d e ok q inv_finite [OF inv] inv_counters [OF inv]
    by (cases "te_state x")
      (simp_all add: store_defs move_simps stored_state_def int_length_remove1 remove1_idem)
qed

lemma store_locked_prev_fail:
  assumes inv: "tswap_inv s" and e: "ts_heap s e = Some x" "e \<notin> set (ts_pf_bios s)"
    and l: "te_root x = Some r" "ts_trees s r = Some t"
    and ok: "\<not> se_kmap_ok env"
  shows "\<exists>s'. store_locked env now True e pg s = Inr (- ENOMEM, s') \<and>
    (if te_state x = IN_MEMORY then drops e r t (te_offset x) s s'
     else moves e (x\<lparr>te_state := ZOMBIE\<rparr>) s s') \<and>
    ts_quarantine s' = remove1 e (ts_quarantine s) \<and> disch s' = disch s \<and>
    ts_disk s' = ts_disk s"
proof -
  from inv e obtain d where d: "te_data x = Some d" "te_state x \<noteq> INVALID"
    "t (te_offset x) = Some e" using l by (auto elim: live_entryE)
  note q = inv_in_queue [OF inv e]
  show ?thesis
    using d e ok l q inv_finite [OF inv] inv_counters [OF inv]
    by (cases "te_state x")
      (simp_all add: store_defs move_simps int_length_remove1 remove1_idem map_upd_triv)
qed

lemma store_locked_prev_inv:
  assumes inv: "tswap_inv s" and e: "ts_heap s e = Some x" "e \<notin> set (ts_pf_bios s)"
  shows "\<exists>ret s'. store_locked env now True e pg s = Inr (ret, s') \<and> tswap_inv s'"
proof -
  from inv e obtain r t d where l: "te_root x = Some r" "ts_trees s r = Some t"
    "t (te_offset x) = Some e" "te_data x = Some d" "te_state x \<noteq> INVALID" by (rule live_entryE)
  note q = inv_in_queue [OF inv e] inv_in_disch [OF inv e(1)] inv_distinct [OF inv]
  show ?thesis
  proof (cases "se_kmap_ok env")
    case True
    from store_locked_prev_ok [OF inv e True, of now pg] obtain s' where
      s': "store_locked env now True e pg s = Inr (0, s')" and
      mv: "moves e (x\<lparr>te_data := Some pg, te_time := now, te_state := stored_state (te_state x)\<rparr>) s s'"
      "ts_quarantine s' = remove1 e (ts_quarantine s) @ [e]" "disch s' = disch s"
      by blast
    have "tswap_inv s'"
      by (rule tswap_inv_move [OF inv e mv(1)])
        (use mv q l(5) in \<open>cases "te_state x"; auto simp: stored_state_def\<close>)+
    with s' show ?thesis by blast
  next
    case False
    from store_locked_prev_fail [OF inv e l(1,2) False, of now pg] obtain s' where
      s': "store_locked env now True e pg s = Inr (- ENOMEM, s')" and
      mv: "if te_state x = IN_MEMORY then drops e r t (te_offset x) s s'
           else moves e (x\<lparr>te_state := ZOMBIE\<rparr>) s s'"
      "ts_quarantine s' = remove1 e (ts_quarantine s)" "disch s' = disch s"
      by blast
    have "tswap_inv s'"
    proof (cases "te_state x = IN_MEMORY")
      case True
      with mv q show ?thesis by (auto intro!: tswap_inv_drop [OF inv e l(1,2)])
    next
      case False
      with mv q l show ?thesis
        by (cases "te_state x") (auto intro!: tswap_inv_move [OF inv e])
    qed
    with s' show ?thesis by blast
  qed
qed

text \<open>A store to an empty slot: the new entry is inserted, or nothing is left of it.\<close>

definition adds :: "nat \<Rightarrow> tswap_entry \<Rightarrow> nat \<Rightarrow> (nat \<rightharpoonup> nat) \<Rightarrow> tswap \<Rightarrow> tswap \<Rightarrow> bool" where
  "adds e y r t s s' \<longleftrightarrow> ts_heap s' = (ts_heap s)(e \<mapsto> y) \<and>
     ts_trees s' = (ts_trees s)(r \<mapsto> t(te_offset y \<mapsto> e)) \<and>
     ts_quarantine s' = ts_quarantine s @ [e]"

lemma store_locked_new:
  assumes inv: "tswap_inv s"
    and s1: "s1 = s\<lparr>ts_next := ts_next s + 1, ts_heap := (ts_heap s)(ts_next s \<mapsto>
      new_entry ty off INVALID None)\<rparr>"
    and none: "slot s ty off = None"
  shows "\<exists>ret s'. store_locked env now False (ts_next s) pg s1 = Inr (ret, s') \<and>
    ts_next s' = ts_next s + 1 \<and> ts_roots s' = ts_roots s \<and> ts_pf_bios s' = ts_pf_bios s \<and>
    ts_areas s' = ts_areas s \<and> ts_ring s' = ts_ring s \<and> disch s' = disch s \<and>
    ts_disk s' = ts_disk s \<and>
    counters (ts_heap s') (ts_quarantine s') (ts_stat s') (ts_pages s') \<and>
    (if ret = 0
     then \<exists>r t. ts_roots s ty = Some r \<and> ts_trees s r = Some t \<and> t off = None \<and>
       adds (ts_next s) ((new_entry ty off IN_MEMORY (Some pg))\<lparr>te_root := Some r, te_time := now\<rparr>)
         r t s s'
     else ts_heap s' = ts_heap s \<and> ts_trees s' = ts_trees s \<and>
       ts_quarantine s' = ts_quarantine s)"
proof -
  have fresh: "ts_heap s (ts_next s) = None" "ts_next s \<notin> set (ts_quarantine s)"
    using inv by (auto simp: tswap_inv_def inv_core_def inv_heap_def inv_queue_def)
  have c: "counters (ts_heap s) (ts_quarantine s) (ts_stat s) (ts_pages s)"
    and f: "finite (dom (ts_heap s))"
    using inv by (simp_all add: inv_counters inv_finite)
  have idem [simp]: "(ts_heap s)(ts_next s := None) = ts_heap s" using fresh by auto
  show ?thesis
  proof (cases "se_data_ok env \<and> se_kmap_ok env")
    case False
    with fresh c f show ?thesis
      by (auto simp: s1 new_entry_def store_defs move_simps int_length_remove1)
  next
    case True
    show ?thesis
    proof (cases "ts_roots s ty")
      case None
      with True fresh c f show ?thesis
        by (simp add: s1 new_entry_def store_defs move_simps atomic_entry_insert_def)
    next
      case (Some r)
      with inv obtain t where t: "ts_trees s r = Some t"
        by (fastforce simp: tswap_inv_def inv_core_def inv_heap_def)
      with Some none have "t off = None" by (simp add: slot_def)
      with Some t True fresh c f show ?thesis
        by (cases "se_nomem env")
          (simp_all add: s1 new_entry_def store_defs move_simps atomic_entry_insert_def adds_def)
    qed
  qed
qed

lemma inv_core_of: "tswap_inv s \<Longrightarrow>
    inv_core (ts_heap s) (ts_next s) (ts_roots s) (ts_trees s) (ts_quarantine s) (ts_pf_bios s)
      (disch s)"
  by (simp add: tswap_inv_def)

lemma inv_fresh:
  assumes "tswap_inv s"
  shows "ts_heap s (ts_next s) = None" "ts_trees s (ts_next s) = None"
    "ts_next s \<notin> set (ts_pf_bios s)" "ts_next s \<notin> set (ts_quarantine s)"
  using assms by (auto simp: tswap_inv_def inv_core_def inv_heap_def inv_queue_def inv_io_def)

lemma store_locked_new_inv:
  assumes inv: "tswap_inv s"
    and s1: "s1 = s\<lparr>ts_next := ts_next s + 1, ts_heap := (ts_heap s)(ts_next s \<mapsto>
      new_entry ty off INVALID None)\<rparr>"
    and none: "slot s ty off = None"
  shows "\<exists>ret s'. store_locked env now False (ts_next s) pg s1 = Inr (ret, s') \<and> tswap_inv s'"
proof -
  from store_locked_new [OF assms, of env now pg] obtain ret s' where
    s': "store_locked env now False (ts_next s) pg s1 = Inr (ret, s')"
    and same: "ts_next s' = ts_next s + 1" "ts_roots s' = ts_roots s" "ts_pf_bios s' = ts_pf_bios s"
      "ts_areas s' = ts_areas s" "ts_ring s' = ts_ring s" "disch s' = disch s"
      "counters (ts_heap s') (ts_quarantine s') (ts_stat s') (ts_pages s')"
    and r: "if ret = 0
     then \<exists>r t. ts_roots s ty = Some r \<and> ts_trees s r = Some t \<and> t off = None \<and>
       adds (ts_next s) ((new_entry ty off IN_MEMORY (Some pg))\<lparr>te_root := Some r, te_time := now\<rparr>)
         r t s s'
     else ts_heap s' = ts_heap s \<and> ts_trees s' = ts_trees s \<and>
       ts_quarantine s' = ts_quarantine s"
    by blast
  note core = inv_core_of [OF inv] and fresh = inv_fresh [OF inv]
  have "tswap_inv s'"
  proof (cases "ret = 0")
    case True
    with r obtain r t where rt: "ts_roots s ty = Some r" "ts_trees s r = Some t" "t off = None"
      and a: "adds (ts_next s)
        ((new_entry ty off IN_MEMORY (Some pg))\<lparr>te_root := Some r, te_time := now\<rparr>) r t s s'"
      by auto
    let ?x = "(new_entry ty off IN_MEMORY (Some pg))\<lparr>te_root := Some r, te_time := now\<rparr>"
    have "inv_core ((ts_heap s)(ts_next s \<mapsto> ?x)) (ts_next s + 1) (ts_roots s)
        ((ts_trees s)(r \<mapsto> t(te_offset ?x \<mapsto> ts_next s))) (ts_quarantine s @ [ts_next s])
        (ts_pf_bios s) (disch s)"
      by (rule core_insert [OF core fresh(1,3)]) (use rt in \<open>simp_all add: new_entry_def\<close>)
    then show ?thesis
      using inv same a rt unfolding adds_def tswap_inv_def by (auto simp: inv_areas_def)
  next
    case False
    with r inv same core_fresh [OF core] show ?thesis
      unfolding tswap_inv_def by auto
  qed
  with s' show ?thesis by blast
qed

lemma slot_upd [simp]:
  "slot (s\<lparr>ts_stat := st\<rparr>) ty off = slot s ty off"
  "slot (s\<lparr>ts_ring := rg\<rparr>) ty off = slot s ty off"
  by (simp_all add: slot_def split: option.splits)

theorem store_inv:
  assumes "tswap_inv s"
  shows "\<exists>ret s'. tswap_frontswap_store env now ty off pg s = Inr (ret, s') \<and> tswap_inv s'"
proof -
  let ?s = "s\<lparr>ts_stat := nr_store_update (\<lambda>n. n + 1) (ts_stat s),
    ts_ring := ring_push \<lparr>pf_type = ty, pf_offset = off\<rparr> (ts_ring s)\<rparr>"
  have "tswap_inv (s\<lparr>ts_stat := nr_store_update (\<lambda>n. n + 1) (ts_stat s)\<rparr>)" using assms by simp
  then have inv: "tswap_inv ?s"
    by (rule tswap_inv_ring) (use assms in \<open>simp add: tswap_inv_def pring.invar_push\<close>)
  note store_def = tswap_frontswap_store_def Let_def
  show ?thesis
  proof (cases "se_thp env \<or> slot s ty off = None \<and> \<not> se_entry_ok env")
    case True
    have "tswap_inv (s\<lparr>ts_ring := ring_push \<lparr>pf_type = ty, pf_offset = off\<rparr> (ts_ring s)\<rparr>)"
      using inv by (simp add: tswap_inv_def counters_def)
    with True lookup_slot [OF inv, of ty off] show ?thesis by (auto simp: store_def)
  next
    case False
    show ?thesis
    proof (cases "slot s ty off")
      case None
      then have "slot ?s ty off = None" by simp
      from store_locked_new_inv [OF inv refl this, of env now pg] show ?thesis
        using False None lookup_slot [OF inv, of ty off]
        by (simp add: store_def alloc_entry_def)
    next
      case (Some e)
      then have "slot ?s ty off = Some e" by simp
      with inv obtain x where "ts_heap ?s e = Some x" "e \<notin> set (ts_pf_bios ?s)"
        by (rule slot_entryE)
      from store_locked_prev_inv [OF inv this, of env now pg] show ?thesis
        using False Some lookup_slot [OF inv, of ty off] by (simp add: store_def)
    qed
  qed
qed

subsection \<open>Load and invalidation\<close>

theorem load_inv:
  assumes "tswap_inv s"
  shows "\<exists>ret pg s'. tswap_frontswap_load env ty off s = Inr (ret, pg, s') \<and> tswap_inv s'"
proof -
  let ?s = "s\<lparr>ts_stat := nr_promoted_page_update (\<lambda>n. n + 1)
    (nr_load_update (\<lambda>n. n + 1) (ts_stat s))\<rparr>"
  have inv: "tswap_inv ?s" using assms by simp
  note l = lookup_slot [OF inv, of ty off]
  show ?thesis
  proof (cases "slot s ty off")
    case None
    with l assms show ?thesis
      by (simp add: tswap_frontswap_load_def sync_io_read_def Let_def)
  next
    case (Some e)
    then have sl: "slot ?s ty off = Some e" by simp
    with inv obtain x where x: "ts_heap ?s e = Some x" "e \<notin> set (ts_pf_bios ?s)"
      by (rule slot_entryE)
    with inv obtain d where d: "te_data x = Some d" by (rule live_entryE)
    from invalidate_and_drop_inv [OF inv x] obtain s1 where
      s1: "invalidate_and_drop e ?s = Inr s1" "tswap_inv s1" by blast
    have inv': "tswap_inv (stat_inc nr_kmap_fail_update ?s)" using assms by simp
    from invalidate_and_drop_inv [OF inv', of e x] x obtain s2 where
      s2: "invalidate_and_drop e (stat_inc nr_kmap_fail_update ?s) = Inr s2" "tswap_inv s2"
      by auto
    show ?thesis using Some l d x s1 s2 by (simp add: tswap_frontswap_load_def Let_def)
  qed
qed

theorem invalidate_page_inv:
  assumes "tswap_inv s"
  shows "\<exists>s'. tswap_frontswap_invalidate_page ty off s = Inr s' \<and> tswap_inv s'"
proof -
  let ?s = "s\<lparr>ts_stat := nr_invalidate_page_update (\<lambda>n. n + 1) (ts_stat s)\<rparr>"
  have inv: "tswap_inv ?s" using assms by simp
  note l = lookup_slot [OF inv, of ty off]
  show ?thesis
  proof (cases "slot s ty off")
    case None
    with l assms show ?thesis by (simp add: tswap_frontswap_invalidate_page_def)
  next
    case (Some e)
    then have sl: "slot ?s ty off = Some e" by simp
    with inv obtain x where x: "ts_heap ?s e = Some x" "e \<notin> set (ts_pf_bios ?s)"
      by (rule slot_entryE)
    from invalidate_and_drop_inv [OF inv x] show ?thesis
      using Some l by (simp add: tswap_frontswap_invalidate_page_def)
  qed
qed

theorem invalidate_area_begin_inv:
  assumes inv: "tswap_inv s" and r: "ts_roots s ty = Some r"
  shows "\<exists>s'. invalidate_area_begin ty s = Inr s' \<and> tswap_inv s'"
proof -
  note core = inv_core_of [OF inv]
  have heap: "inv_heap (ts_heap s) (ts_next s) ((ts_roots s)(ty := None)) (ts_trees s)"
    using inv_coreD(1) [OF core] by (auto simp: inv_heap_def)
  have tree: "inv_tree (ts_heap s) ((ts_roots s)(ty := None)) (ts_trees s) (ts_pf_bios s)"
  proof (rule inv_treeI)
    fix r t off e assume "ts_trees s r = Some t" "t off = Some e"
    with inv_coreD(2) [OF core] obtain x where "ts_heap s e = Some x" "te_root x = Some r"
      "te_offset x = off" "e \<notin> set (ts_pf_bios s)" "\<forall>ty. ts_roots s ty = Some r \<longrightarrow> te_type x = ty"
      by (rule inv_treeE)
    then show "\<exists>x. ts_heap s e = Some x \<and> te_root x = Some r \<and> te_offset x = off \<and>
      e \<notin> set (ts_pf_bios s) \<and> (\<forall>ty'. ((ts_roots s)(ty := None)) ty' = Some r \<longrightarrow> te_type x = ty')"
      by auto
  qed
  have "ts_trees s r \<noteq> None" and uniq: "\<forall>ty'. ts_roots s ty' = Some r \<longrightarrow> ty' = ty"
    using inv_coreD(1) [OF core] r by (auto simp: inv_heap_def)
  moreover have "((ts_roots s)(ty := None)) ty' \<noteq> Some r" for ty'
    using uniq by (metis fun_upd_apply option.distinct(1))
  moreover have areas: "inv_areas (ts_roots s) (ts_trees s) (ts_areas s)"
    using inv by (simp add: tswap_inv_def)
  moreover have "r \<notin> set (ts_areas s)" using areas r by (auto simp: inv_areas_def)
  ultimately have "inv_areas ((ts_roots s)(ty := None)) (ts_trees s) (r # ts_areas s)"
    unfolding inv_areas_def by simp
  with heap tree inv r show ?thesis
    by (simp add: invalidate_area_begin_def tswap_inv_def inv_core_def counters_def)
qed

theorem invalidate_area_round_inv:
  assumes "tswap_inv s" "ts_trees s r = Some t" "t off = Some e"
  shows "\<exists>s'. invalidate_area_round r off s = Inr s' \<and> tswap_inv s'"
proof -
  from inv_treeE [OF inv_coreD(2) [OF inv_core_of [OF assms(1)]] assms(2,3)]
  obtain x where x: "ts_heap s e = Some x" "e \<notin> set (ts_pf_bios s)" by blast
  with assms(1) have "te_state x \<noteq> INVALID" by (rule live_entryE)
  with x assms invalidate_and_drop_inv [OF assms(1) x] show ?thesis
    by (simp add: invalidate_area_round_def)
qed

theorem invalidate_area_end_inv:
  assumes "tswap_inv s" "r \<in> set (ts_areas s)" "ts_trees s r = Some Map.empty"
  shows "tswap_inv (invalidate_area_end r s)"
proof -
  have "inv_core (ts_heap s) (ts_next s) (ts_roots s) ((ts_trees s)(r := None))
      (ts_quarantine s) (ts_pf_bios s) (disch s)"
    unfolding inv_core_def
  proof (intro conjI)
    note core = inv_core_of [OF assms(1)]
    have "ts_roots s ty \<noteq> Some r" for ty
      using assms(1,2) by (auto simp: tswap_inv_def inv_areas_def)
    then show "inv_heap (ts_heap s) (ts_next s) (ts_roots s) ((ts_trees s)(r := None))"
      using inv_coreD(1) [OF core] by (auto simp: inv_heap_def)
    show "inv_tree (ts_heap s) (ts_roots s) ((ts_trees s)(r := None)) (ts_pf_bios s)"
      using inv_coreD(2) [OF core] by (simp add: inv_tree_def)
    have "in_tree ((ts_trees s)(r := None)) x e" if "in_tree (ts_trees s) x e" for x e
      using that assms(3) by (auto simp: in_tree_case split: option.splits)
    then show "inv_entry (ts_heap s) ((ts_trees s)(r := None)) (ts_pf_bios s)"
      using inv_coreD(3) [OF core] by (simp add: inv_entry_def)
  qed (use inv_coreD(4,5) [OF inv_core_of [OF assms(1)]] in auto)
  with assms show ?thesis
    by (auto simp: tswap_inv_def invalidate_area_end_def inv_areas_def)
qed

theorem frontswap_init_inv:
  assumes "tswap_inv s"
  shows "tswap_inv (tswap_frontswap_init root_ok ty s)"
proof -
  note core = inv_core_of [OF assms] and fresh = inv_fresh [OF assms]
  have "inv_core (ts_heap s) (ts_next s + 1) ((ts_roots s)(ty \<mapsto> ts_next s))
      ((ts_trees s)(ts_next s \<mapsto> Map.empty)) (ts_quarantine s) (ts_pf_bios s) (disch s)"
    unfolding inv_core_def
  proof (intro conjI)
    have r: "ts_roots s ty' \<noteq> Some (ts_next s)" for ty'
      using inv_coreD(1) [OF core] fresh(2) unfolding inv_heap_def by (metis option.distinct(1))
    show "inv_heap (ts_heap s) (ts_next s + 1) ((ts_roots s)(ty \<mapsto> ts_next s))
        ((ts_trees s)(ts_next s \<mapsto> Map.empty))"
      using inv_coreD(1) [OF core] r by (auto simp: inv_heap_def)
    show "inv_tree (ts_heap s) ((ts_roots s)(ty \<mapsto> ts_next s))
        ((ts_trees s)(ts_next s \<mapsto> Map.empty)) (ts_pf_bios s)"
      using inv_coreD(2) [OF core] fresh(2) by (fastforce simp: inv_tree_def split: if_splits)
    show "inv_entry (ts_heap s) ((ts_trees s)(ts_next s \<mapsto> Map.empty)) (ts_pf_bios s)"
    proof -
      have "in_tree ((ts_trees s)(ts_next s \<mapsto> Map.empty)) x e" if "in_tree (ts_trees s) x e" for x e
        using that fresh(2) by (auto simp: in_tree_case split: option.splits)
      then show ?thesis using inv_coreD(3) [OF core] by (simp add: inv_entry_def)
    qed
  qed (use inv_coreD(4,5) [OF core] in auto)
  moreover have "ts_next s \<notin> set (ts_areas s)"
    using assms fresh(2) by (auto simp: tswap_inv_def inv_areas_def)
  ultimately show ?thesis using assms
    by (auto simp: tswap_frontswap_init_def Let_def tswap_inv_def inv_areas_def counters_def)
qed

subsection \<open>Discharge\<close>

lemma discharge_pick_result:
  assumes inv: "tswap_inv s" and free: "ts_submitting s = None"
    and q: "ts_quarantine s = e # q" and e: "ts_heap s e = Some x" "queued (te_state x)"
    and y: "y = (if te_state x = IN_MEMORY \<and>
      time_after now (te_time x + mtj (to_int32 (ts_quarantine_time s * 1000)))
    then x\<lparr>te_state := IN_FLIGHT\<rparr> else x)"
  shows "\<exists>s'. discharge_pick mtj now s = Inr s' \<and> moves e y s s' \<and>
    ts_quarantine s' = q @ (if te_state y = IN_FLIGHT then [] else [e]) \<and>
    disch s' = (if te_state y = IN_FLIGHT then e # disch s else disch s) \<and>
    ts_disk s' = ts_disk s \<and> ts_quarantine_time s' = ts_quarantine_time s \<and>
    ts_submitting s' = (if te_state y = IN_FLIGHT then Some e else None) \<and>
    ts_bios s' = ts_bios s"
proof -
  have "e \<notin> set q" using inv_distinct(1) [OF inv] q by simp
  then show ?thesis
    using e q free y inv_finite [OF inv] inv_counters [OF inv]
    by (cases "te_state x")
      (auto simp: discharge_pick_def move_simps disch_def map_upd_triv)
qed

lemma inv_queue_headE:
  assumes "tswap_inv s" "ts_quarantine s = e # q"
  obtains x where "ts_heap s e = Some x" "e \<notin> set (ts_pf_bios s)" "queued (te_state x)"
  using assms that by (fastforce simp: tswap_inv_def inv_core_def inv_queue_def)

theorem discharge_pick_inv:
  assumes inv: "tswap_inv s" and free: "ts_submitting s = None"
  shows "\<exists>s'. discharge_pick mtj now s = Inr s' \<and> tswap_inv s'"
proof (cases "ts_quarantine s")
  case Nil
  with inv show ?thesis by (simp add: discharge_pick_def)
next
  case (Cons e q)
  with inv obtain x where e: "ts_heap s e = Some x" "e \<notin> set (ts_pf_bios s)" "queued (te_state x)"
    by (rule inv_queue_headE)
  from inv e(1,2) have l: "te_data x \<noteq> None" by (auto elim: live_entryE)
  note facts = inv_in_disch [OF inv e(1)] inv_distinct [OF inv]
  from discharge_pick_result [OF inv free Cons e(1,3) refl, of mtj now] obtain y s' where
    y: "y = (if te_state x = IN_MEMORY \<and>
      time_after now (te_time x + mtj (to_int32 (ts_quarantine_time s * 1000)))
    then x\<lparr>te_state := IN_FLIGHT\<rparr> else x)" and
    s': "discharge_pick mtj now s = Inr s'" "moves e y s s'"
    "ts_quarantine s' = q @ (if te_state y = IN_FLIGHT then [] else [e])"
    "disch s' = (if te_state y = IN_FLIGHT then e # disch s else disch s)" by blast
  have "tswap_inv s'"
    by (rule tswap_inv_move [OF inv e(1,2) s'(2)])
      (use s'(3,4) facts Cons e(3) l in \<open>auto simp: y split: if_splits\<close>)
  with s'(1) show ?thesis by blast
qed

end
