(* ===== verification/Tswap_Steps.thy ===== *)
theory Tswap_Steps
  imports Tswap_Inv
begin

text \<open>
  The rest of the operations of tswap keep the invariant (submission and completion of
  writes, prefetching), and the module as a step relation: any interleaving of the
  frontswap operations, the discharge thread, the completion handlers, the prefetcher and
  the reclaiming of an area. The invariant holds in every reachable state, and no step
  runs into a use after free, a null pointer or a \<^verbatim>\<open>BUG()\<close>.
\<close>

section \<open>Submission and completion of writes\<close>

lemma in_disch_live:
  assumes "tswap_inv s" "e \<in> set (disch s)"
  obtains x where "ts_heap s e = Some x" "in_io (te_state x)" "e \<notin> set (ts_pf_bios s)"
proof -
  from assms obtain x where x: "ts_heap s e = Some x" "in_io (te_state x)"
    by (auto simp: tswap_inv_def inv_core_def inv_io_def)
  moreover have "e \<notin> set (ts_pf_bios s)"
    using x assms(1) by (auto simp: tswap_inv_def inv_core_def inv_entry_def)
  ultimately show ?thesis using that by blast
qed

text \<open>
  What becomes of an entry whose write request ends: \<open>failed\<close> is whether the page was not
  written. The entry keeps its page in memory unless it was in flight and written, or
  nobody wants the page any more.
\<close>

definition after_io :: "bool \<Rightarrow> tswap_entry_state \<Rightarrow> tswap_entry_state" where
  "after_io failed st =
     (case st of IN_MEMORY_FOLLOWED_BY_ZOMBIE \<Rightarrow> IN_MEMORY
      | IN_FLIGHT \<Rightarrow> (if failed then IN_MEMORY else INVALID) | _ \<Rightarrow> INVALID)"

lemma discharge_rollback_result:
  assumes inv: "tswap_inv s" and e: "ts_heap s e = Some x" "e \<notin> set (ts_pf_bios s)" "in_io (te_state x)"
    and l: "te_root x = Some r" "ts_trees s r = Some t"
    and sub: "ts_submitting s = Some e"
  shows "\<exists>s'. discharge_submit False s = Inr s' \<and> ts_disk s' = ts_disk s \<and>
    (if after_io True (te_state x) = INVALID then drops e r t (te_offset x) s s'
     else moves e (x\<lparr>te_state := after_io True (te_state x)\<rparr>) s s') \<and>
    ts_quarantine s' = (if te_state x = IN_FLIGHT then ts_quarantine s @ [e] else ts_quarantine s) \<and>
    disch s' = ts_bios s"
proof -
  from inv e(1,2) obtain d where d: "te_data x = Some d" "t (te_offset x) = Some e"
    using l by (auto elim: live_entryE)
  note q = inv_in_queue [OF inv e(1,2)]
  show ?thesis
    using d e l q sub inv_finite [OF inv] inv_counters [OF inv]
    by (cases "te_state x")
      (simp_all add: discharge_submit_def discharge_rollback_def move_simps after_io_def disch_def)
qed

lemma io_end_result:
  assumes inv: "tswap_inv s" and e: "ts_heap s e = Some x" "e \<notin> set (ts_pf_bios s)" "in_io (te_state x)"
    and l: "te_root x = Some r" "ts_trees s r = Some t"
  shows "\<exists>s'. discharge_async_io_end e err wr s = Inr s' \<and>
    ts_disk s' = (ts_disk s)(te_type x := (ts_disk s (te_type x))(te_offset x := wr)) \<and>
    (if after_io (err < 0) (te_state x) = INVALID then drops e r t (te_offset x) s s'
     else moves e (x\<lparr>te_state := after_io (err < 0) (te_state x)\<rparr>) s s') \<and>
    ts_quarantine s' =
      (if te_state x = IN_FLIGHT \<and> err < 0 then ts_quarantine s @ [e] else ts_quarantine s) \<and>
    ts_submitting s' = ts_submitting s \<and> ts_bios s' = remove1 e (ts_bios s)"
proof -
  from inv e(1,2) obtain d where d: "te_data x = Some d" "t (te_offset x) = Some e"
    using l by (auto elim: live_entryE)
  note q = inv_in_queue [OF inv e(1,2)]
  show ?thesis
    using d e l q inv_finite [OF inv] inv_counters [OF inv]
    by (cases "te_state x"; cases "err < 0")
      (simp_all add: discharge_async_io_end_def move_simps after_io_def Let_def)
qed

lemma after_io_inv:
  assumes inv: "tswap_inv s" and e: "ts_heap s e = Some x" "e \<notin> set (ts_pf_bios s)" "in_io (te_state x)"
    and l: "te_root x = Some r" "ts_trees s r = Some t"
    and s': "if after_io f (te_state x) = INVALID then drops e r t (te_offset x) s s'
     else moves e (x\<lparr>te_state := after_io f (te_state x)\<rparr>) s s'"
    and Q: "ts_quarantine s' =
      (if te_state x = IN_FLIGHT \<and> f then ts_quarantine s @ [e] else ts_quarantine s)"
    and BI: "distinct (disch s')" "set (disch s') = set (disch s) - {e}"
  shows "tswap_inv s'"
proof -
  note q = inv_in_queue [OF inv e(1,2)] inv_distinct [OF inv]
  have live: "te_data x \<noteq> None" using inv e(1,2) by (auto elim: live_entryE)
  consider "te_state x = ZOMBIE \<or> te_state x = IN_FLIGHT \<and> \<not> f"
    | "te_state x = IN_FLIGHT \<and> f" | "te_state x = IN_MEMORY_FOLLOWED_BY_ZOMBIE"
    using e(3) by (auto simp: in_io_def)
  then show ?thesis
  proof cases
    case 1
    then have "after_io f (te_state x) = INVALID" by (auto simp: after_io_def)
    with s' have "drops e r t (te_offset x) s s'" by simp
    moreover have "ts_quarantine s' = ts_quarantine s" "e \<notin> set (ts_quarantine s)"
      using 1 Q q(1) by auto
    ultimately show ?thesis using BI q(2) by (intro tswap_inv_drop [OF inv e(1,2) l]) auto
  next
    case 2
    with s' have "moves e (x\<lparr>te_state := IN_MEMORY\<rparr>) s s'" by (simp add: after_io_def)
    then show ?thesis
      by (rule tswap_inv_move [OF inv e(1,2)]) (use 2 Q BI q live in auto)
  next
    case 3
    with s' have "moves e (x\<lparr>te_state := IN_MEMORY\<rparr>) s s'" by (simp add: after_io_def)
    then show ?thesis
      by (rule tswap_inv_move [OF inv e(1,2)]) (use 3 Q BI q live in auto)
  qed
qed

theorem discharge_submit_inv:
  assumes inv: "tswap_inv s"
  shows "\<exists>s'. discharge_submit bio_ok s = Inr s' \<and> tswap_inv s'"
proof (cases "ts_submitting s")
  case None
  with inv show ?thesis by (simp add: discharge_submit_def)
next
  case (Some e)
  have d: "disch s = e # ts_bios s" using Some by (simp add: disch_def)
  show ?thesis
  proof (cases bio_ok)
    case True
    have "disch (s\<lparr>ts_submitting := None, ts_bios := e # ts_bios s\<rparr>) = disch s"
      using Some by (simp add: disch_def)
    with True Some inv show ?thesis
      by (simp add: discharge_submit_def Let_def tswap_inv_def counters_def)
        (simp add: disch_def)
  next
    case False
    from inv d obtain x where e: "ts_heap s e = Some x" "e \<notin> set (ts_pf_bios s)" "in_io (te_state x)"
      using in_disch_live [of s e] by auto
    from inv e(1,2) obtain r t where l: "te_root x = Some r" "ts_trees s r = Some t"
      by (rule live_entryE)
    from discharge_rollback_result [OF inv e l Some] obtain s' where
      s': "discharge_submit False s = Inr s'"
      "if after_io True (te_state x) = INVALID then drops e r t (te_offset x) s s'
       else moves e (x\<lparr>te_state := after_io True (te_state x)\<rparr>) s s'"
      "ts_quarantine s' = (if te_state x = IN_FLIGHT then ts_quarantine s @ [e] else ts_quarantine s)"
      "disch s' = ts_bios s" by blast
    have "tswap_inv s'"
      by (rule after_io_inv [OF inv e l s'(2)]) (use s'(3,4) d inv_distinct(2) [OF inv] in auto)
    with s'(1) False show ?thesis by auto
  qed
qed

theorem discharge_end_inv:
  assumes inv: "tswap_inv s" and b: "e \<in> set (ts_bios s)"
  shows "\<exists>s'. discharge_async_io_end e err wr s = Inr s' \<and> tswap_inv s'"
proof -
  have "e \<in> set (disch s)" using b by (simp add: disch_def split: option.splits)
  with inv obtain x where e: "ts_heap s e = Some x" "in_io (te_state x)" "e \<notin> set (ts_pf_bios s)"
    by (rule in_disch_live)
  from inv e(1,3) obtain r t where l: "te_root x = Some r" "ts_trees s r = Some t"
    by (rule live_entryE)
  from io_end_result [OF inv e(1,3,2) l, of err wr] obtain s' where
    s': "discharge_async_io_end e err wr s = Inr s'"
    "if after_io (err < 0) (te_state x) = INVALID then drops e r t (te_offset x) s s'
     else moves e (x\<lparr>te_state := after_io (err < 0) (te_state x)\<rparr>) s s'"
    "ts_quarantine s' =
      (if te_state x = IN_FLIGHT \<and> err < 0 then ts_quarantine s @ [e] else ts_quarantine s)"
    "ts_submitting s' = ts_submitting s" "ts_bios s' = remove1 e (ts_bios s)" by blast
  have "distinct (disch s')" "set (disch s') = set (disch s) - {e}"
    using s'(4,5) inv_distinct(2) [OF inv] b by (auto simp: disch_def split: option.splits)
  with s'(2,3) have "tswap_inv s'" by (intro after_io_inv [OF inv e(1,3,2) l])
  with s'(1) show ?thesis by blast
qed

section \<open>Prefetching\<close>

theorem prefetch_iter_inv:
  assumes inv: "tswap_inv s"
  shows "\<exists>go_on s'. prefetch_iter fmap env s = Inr (go_on, s') \<and> tswap_inv s'"
proof (cases "ring_pop (ts_ring s)")
  case None
  with inv show ?thesis by (auto simp: prefetch_iter_def)
next
  case (Some p)
  obtain i ring where p: "p = (i, ring)" by force
  let ?s = "s\<lparr>ts_ring := ring\<rparr>"
  have "ring_inv ring"
    using Some p inv by (auto simp: tswap_inv_def intro: pring.invar_pop)
  then have inv1: "tswap_inv ?s" using inv by (simp add: tswap_inv_ring)
  note lk = lookup_slot [OF inv1, of "pf_type i" "pf_offset i"]
  show ?thesis
  proof (cases "fmap (pf_type i) (pf_offset i) \<and> slot ?s (pf_type i) (pf_offset i) = None \<and>
      pe_entry_ok env \<and> pe_data_ok env")
    case False
    with Some p lk inv1 show ?thesis
      by (auto simp: prefetch_iter_def Let_def split: option.splits)
  next
    case True
    note core = inv_core_of [OF inv1] and fresh = inv_fresh [OF inv1]
    have "inv_core ((ts_heap s)(ts_next s \<mapsto> new_entry (pf_type i) (pf_offset i) IN_MEMORY (Some [])))
        (ts_next s + 1) (ts_roots s) (ts_trees s) (ts_quarantine s) (ts_next s # ts_pf_bios s) (disch s)"
      using core_pf_new [OF core, of "ts_next s" "ts_next s + 1"] fresh
      by (simp add: new_entry_def)
    moreover have "inv_core (ts_heap s) (ts_next s + 1) (ts_roots s) (ts_trees s)
        (ts_quarantine s) (ts_pf_bios s) (disch s)"
      using core_fresh [OF core, of "ts_next s + 1"] by simp
    moreover have [simp]: "(ts_heap s)(ts_next s := None) = ts_heap s" using fresh by auto
    ultimately show ?thesis
      using Some p lk True inv1 fresh inv_finite [OF inv1] inv_counters [OF inv1]
      by (cases "pe_bio_ok env")
        (simp_all add: prefetch_iter_def prefetch_async_io_def alloc_entry_def Let_def
          tswap_inv_def counter_simps heap_op_defs new_entry_def ex_bool_eq)
  qed
qed

theorem prefetch_end_inv:
  assumes inv: "tswap_inv s" and b: "e \<in> set (ts_pf_bios s)"
  shows "\<exists>s'. prefetch_async_io_end grace now lf nomem e err data s = Inr s' \<and> tswap_inv s'"
proof -
  note core = inv_core_of [OF inv]
  from core b obtain x d where x: "ts_heap s e = Some x" "te_state x = IN_MEMORY"
    "te_data x = Some d"
    by (fastforce simp: inv_core_def inv_io_def inv_entry_def)
  have q: "e \<notin> set (ts_quarantine s)"
    using core b by (auto simp: inv_core_def inv_queue_def)
  note facts = inv_finite [OF inv] inv_counters [OF inv] core_pf_drop [OF core b]
  have drop: "\<exists>s'. prefetch_async_io_end grace now lf nomem e err data s = Inr s' \<and> tswap_inv s'"
    if "err < 0 \<or> (\<forall>r. ts_roots s (te_type x) = Some r \<longrightarrow>
      \<not> lf \<or> (\<exists>t. ts_trees s r = Some t \<and> (t (te_offset x) \<noteq> None \<or> nomem)))"
    using that x facts inv
    by (auto simp: prefetch_async_io_end_def prefetch_invalidate_def atomic_entry_insert_def
        heap_op_defs tswap_inv_def counter_simps Let_def split: option.splits)
  show ?thesis
  proof (cases "err < 0 \<or> (\<forall>r. ts_roots s (te_type x) = Some r \<longrightarrow>
      \<not> lf \<or> (\<exists>t. ts_trees s r = Some t \<and> (t (te_offset x) \<noteq> None \<or> nomem)))")
    case True
    then show ?thesis by (rule drop)
  next
    case False
    then obtain r where r: "ts_roots s (te_type x) = Some r" "lf" by auto
    then obtain t where t: "ts_trees s r = Some t"
      using core by (fastforce simp: inv_core_def inv_heap_def)
    with False r have ok: "0 \<le> err" "t (te_offset x) = None" "\<not> nomem" by auto
    let ?x = "x\<lparr>te_data := Some data, te_time := now + grace, te_root := Some r\<rparr>"
    have "inv_core ((ts_heap s)(e \<mapsto> ?x)) (ts_next s) (ts_roots s)
        ((ts_trees s)(r \<mapsto> t(te_offset ?x \<mapsto> e))) (ts_quarantine s @ [e])
        (remove1 e (ts_pf_bios s)) (disch s)"
      by (rule core_pf_insert [OF core b]) (use x r t ok in simp_all)
    then show ?thesis
      using x r t ok q facts(1,2) inv
      by (simp add: prefetch_async_io_end_def atomic_entry_insert_def
          atomic_entry_quarantine_def tswap_inv_def counter_simps inv_areas_def Let_def)
  qed
qed

section \<open>The module as a step relation\<close>

text \<open>
  One step is one critical section of some thread. A completed write has put the page on
  the device when it succeeded and the buffer was not touched since the request was
  submitted, that is, when the entry is still in flight; otherwise the device may hold
  anything at the slot.
\<close>

definition write_lands :: "nat \<Rightarrow> int \<Rightarrow> page \<Rightarrow> tswap \<Rightarrow> bool" where
  "write_lands e err wr s \<longleftrightarrow>
     (case ts_heap s e of None \<Rightarrow> True
      | Some x \<Rightarrow> err < 0 \<or> te_state x \<noteq> IN_FLIGHT \<or> te_data x = Some wr)"

inductive tswap_step :: "tswap \<Rightarrow> tswap \<Rightarrow> bool" where
  ts_store_step: "tswap_frontswap_store env now ty off pg s = Inr (ret, s') \<Longrightarrow> tswap_step s s'"
| ts_load_step: "tswap_frontswap_load lenv ty off s = Inr (ret, res, s') \<Longrightarrow> tswap_step s s'"
| ts_invalidate_step: "tswap_frontswap_invalidate_page ty off s = Inr s' \<Longrightarrow> tswap_step s s'"
| ts_area_begin_step: "ts_roots s ty = Some r \<Longrightarrow> invalidate_area_begin ty s = Inr s' \<Longrightarrow>
    tswap_step s s'"
| ts_area_round_step: "r \<in> set (ts_areas s) \<Longrightarrow> ts_trees s r = Some t \<Longrightarrow> t off = Some e \<Longrightarrow>
    (\<And>k. k < off \<Longrightarrow> t k = None) \<Longrightarrow> invalidate_area_round r off s = Inr s' \<Longrightarrow> tswap_step s s'"
| ts_area_end_step: "r \<in> set (ts_areas s) \<Longrightarrow> ts_trees s r = Some Map.empty \<Longrightarrow>
    tswap_step s (invalidate_area_end r s)"
| ts_init_step: "tswap_step s (tswap_frontswap_init root_ok ty s)"
| ts_pick_step: "ts_submitting s = None \<Longrightarrow> discharge_pick mtj now s = Inr s' \<Longrightarrow> tswap_step s s'"
| ts_submit_step: "discharge_submit bio_ok s = Inr s' \<Longrightarrow> tswap_step s s'"
| ts_end_step: "e \<in> set (ts_bios s) \<Longrightarrow> write_lands e err wr s \<Longrightarrow>
    discharge_async_io_end e err wr s = Inr s' \<Longrightarrow> tswap_step s s'"
| ts_prefetch_step: "prefetch_iter fmap penv s = Inr (go_on, s') \<Longrightarrow> tswap_step s s'"
| ts_prefetch_end_step: "e \<in> set (ts_pf_bios s) \<Longrightarrow>
    prefetch_async_io_end grace now lf nomem e err data s = Inr s' \<Longrightarrow> tswap_step s s'"
| ts_stat_store_step: "tswap_stat_store input count s = Inr (n, s') \<Longrightarrow> tswap_step s s'"
| ts_time_store_step: "tswap_quarantine_time_store input count s = Inr (n, s') \<Longrightarrow> tswap_step s s'"
| ts_promoted_step: "tswap_step s (snd (tswap_nr_promoted_page_show s))"
| ts_disk_promoted_step: "tswap_step s (snd (tswap_nr_disk_promoted_page_show s))"

definition tswap_initial :: "tswap \<Rightarrow> bool" where
  "tswap_initial s \<longleftrightarrow> (\<exists>garbage disk. s = tswap_init_state garbage disk)"

lemma init_state_inv: "tswap_inv (tswap_init_state garbage disk)"
  by (simp add: tswap_init_state_def tswap_inv_def inv_core_def inv_parts inv_areas_def
      counters_def init_stat_def ring_init_inv disch_def)

lemma tswap_inv_qtime [simp]: "tswap_inv (s\<lparr>ts_quarantine_time := n\<rparr>) = tswap_inv s"
  by (simp add: tswap_inv_def disch_def split: option.splits)

lemma tswap_step_inv:
  assumes "tswap_inv s" "tswap_step s s'"
  shows "tswap_inv s'"
  using assms(2,1)
proof (induction rule: tswap_step.induct)
  case (ts_store_step env now ty off pg s ret s')
  with store_inv [of s env now ty off pg] show ?case by auto
next
  case (ts_load_step lenv ty off s ret res s')
  with load_inv [of s lenv ty off] show ?case by auto
next
  case (ts_invalidate_step ty off s s')
  with invalidate_page_inv [of s ty off] show ?case by auto
next
  case (ts_area_begin_step s ty r s')
  with invalidate_area_begin_inv [of s ty r] show ?case by auto
next
  case (ts_area_round_step r s t off e s')
  with invalidate_area_round_inv [of s r t off e] show ?case by auto
next
  case (ts_area_end_step r s)
  then show ?case by (simp add: invalidate_area_end_inv)
next
  case (ts_init_step s root_ok ty)
  then show ?case by (simp add: frontswap_init_inv)
next
  case (ts_pick_step s mtj now s')
  with discharge_pick_inv [of s mtj now] show ?case by auto
next
  case (ts_submit_step bio_ok s s')
  with discharge_submit_inv [of s bio_ok] show ?case by auto
next
  case (ts_end_step e s err wr s')
  with discharge_end_inv [of s e err wr] show ?case by auto
next
  case (ts_prefetch_step fmap penv s go_on s')
  with prefetch_iter_inv [of s fmap penv] show ?case by auto
next
  case (ts_prefetch_end_step e s grace now lf nomem err data s')
  with prefetch_end_inv [of s e grace now lf nomem err data] show ?case by auto
next
  case (ts_stat_store_step input count s n s')
  then show ?case by (auto simp: tswap_stat_store_def split: option.splits if_splits)
next
  case (ts_time_store_step input count s n s')
  then show ?case by (auto simp: tswap_quarantine_time_store_def split: option.splits if_splits)
qed (simp_all add: tswap_nr_promoted_page_show_def tswap_nr_disk_promoted_page_show_def)

interpretation tsw: kept_invariant tswap_initial tswap_step tswap_inv
  by unfold_locales (auto simp: tswap_initial_def init_state_inv intro: tswap_step_inv)

abbreviation tswap_reachable :: "tswap \<Rightarrow> bool" where
  "tswap_reachable \<equiv> reach tswap_initial tswap_step"

end
