(* ===== verification/Tswap_Refine.thy ===== *)
theory Tswap_Refine
  imports Tswap_Steps
begin

text \<open>
  What tswap promises to the kernel: it is a store of pages. The specification is a map
  from the slots of the swap areas to the page that was last stored there and not loaded
  or invalidated since; the module implements it while its discharge thread moves pages
  to the swap device and its prefetcher moves them back.
\<close>

section \<open>The specification\<close>

text \<open>
  The calls of the kernel with their results, and the steps the kernel does not see. A
  load is exclusive (\<^verbatim>\<open>frontswap_tmem_exclusive_gets(true)\<close> in \<^verbatim>\<open>tswap_init\<close>): the kernel
  forgets the slot when it got the page. A load that fails with \<^verbatim>\<open>-EINVAL\<close> (the device)
  leaves the slot, one that fails with \<^verbatim>\<open>-ENOMEM\<close> (no mapping) gives it up.
\<close>

datatype fs_event =
    FsStore nat nat page int
  | FsLoad nat nat int "page option"
  | FsInvalidate nat nat
  | FsArea nat
  | FsInternal

type_synonym fs_view = "nat \<Rightarrow> nat \<Rightarrow> page option"

definition fs_set :: "nat \<Rightarrow> nat \<Rightarrow> page option \<Rightarrow> fs_view \<Rightarrow> fs_view" where
  "fs_set ty off v V = V(ty := (V ty)(off := v))"

fun fs_next :: "fs_event \<Rightarrow> fs_view \<Rightarrow> fs_view" where
  "fs_next (FsStore ty off pg ret) V = fs_set ty off (if ret = 0 then Some pg else None) V"
| "fs_next (FsLoad ty off ret res) V = (if ret = - EINVAL then V else fs_set ty off None V)"
| "fs_next (FsInvalidate ty off) V = fs_set ty off None V"
| "fs_next (FsArea ty) V = V(ty := Map.empty)"
| "fs_next FsInternal V = V"

fun fs_ok :: "fs_event \<Rightarrow> fs_view \<Rightarrow> bool" where
  "fs_ok (FsLoad ty off ret res) V \<longleftrightarrow> (ret = 0 \<longrightarrow> V ty off \<noteq> None \<longrightarrow> res = V ty off)"
| "fs_ok _ V \<longleftrightarrow> True"

text \<open>
  The events of the module, with what the kernel guarantees about its calls: an area is
  initialised when it is not in use and its previous life is reclaimed, and a prefetch read
  delivers what the device holds.
\<close>

inductive tswap_event :: "tswap \<Rightarrow> fs_event \<Rightarrow> tswap \<Rightarrow> bool" where
  ev_store: "tswap_frontswap_store env now ty off pg s = Inr (ret, s') \<Longrightarrow>
    tswap_event s (FsStore ty off pg ret) s'"
| ev_load: "tswap_frontswap_load lenv ty off s = Inr (ret, res, s') \<Longrightarrow>
    tswap_event s (FsLoad ty off ret res) s'"
| ev_invalidate: "tswap_frontswap_invalidate_page ty off s = Inr s' \<Longrightarrow>
    tswap_event s (FsInvalidate ty off) s'"
| ev_area: "ts_roots s ty = Some r \<Longrightarrow> invalidate_area_begin ty s = Inr s' \<Longrightarrow>
    tswap_event s (FsArea ty) s'"
| ev_area_round: "r \<in> set (ts_areas s) \<Longrightarrow> ts_trees s r = Some t \<Longrightarrow> t off = Some e \<Longrightarrow>
    invalidate_area_round r off s = Inr s' \<Longrightarrow> tswap_event s FsInternal s'"
| ev_area_end: "r \<in> set (ts_areas s) \<Longrightarrow> ts_trees s r = Some Map.empty \<Longrightarrow>
    tswap_event s FsInternal (invalidate_area_end r s)"
| ev_init: "ts_roots s ty = None \<Longrightarrow>
    (\<And>e x. ts_heap s e = Some x \<Longrightarrow> e \<notin> set (ts_pf_bios s) \<Longrightarrow> te_type x \<noteq> ty) \<Longrightarrow>
    tswap_event s FsInternal (tswap_frontswap_init root_ok ty s)"
| ev_pick: "ts_submitting s = None \<Longrightarrow> discharge_pick mtj now s = Inr s' \<Longrightarrow>
    tswap_event s FsInternal s'"
| ev_submit: "discharge_submit bio_ok s = Inr s' \<Longrightarrow> tswap_event s FsInternal s'"
| ev_end: "e \<in> set (ts_bios s) \<Longrightarrow> write_lands e err wr s \<Longrightarrow>
    discharge_async_io_end e err wr s = Inr s' \<Longrightarrow> tswap_event s FsInternal s'"
| ev_prefetch: "prefetch_iter fmap penv s = Inr (go_on, s') \<Longrightarrow> tswap_event s FsInternal s'"
| ev_prefetch_end: "e \<in> set (ts_pf_bios s) \<Longrightarrow> ts_heap s e = Some x \<Longrightarrow>
    data = ts_disk s (te_type x) (te_offset x) \<Longrightarrow>
    prefetch_async_io_end grace now lf nomem e err data s = Inr s' \<Longrightarrow> tswap_event s FsInternal s'"
| ev_stat_store: "tswap_stat_store input count s = Inr (n, s') \<Longrightarrow> tswap_event s FsInternal s'"
| ev_time_store: "tswap_quarantine_time_store input count s = Inr (n, s') \<Longrightarrow>
    tswap_event s FsInternal s'"
| ev_promoted: "tswap_event s FsInternal (snd (tswap_nr_promoted_page_show s))"
| ev_disk_promoted: "tswap_event s FsInternal (snd (tswap_nr_disk_promoted_page_show s))"

section \<open>What a slot holds\<close>

definition entry_val :: "tswap_entry \<Rightarrow> page option" where
  "entry_val x = (if te_state x = ZOMBIE then None else te_data x)"

definition content :: "tswap \<Rightarrow> nat \<Rightarrow> nat \<Rightarrow> page option" where
  "content s ty off =
     (case slot s ty off of
        None \<Rightarrow> Some (ts_disk s ty off)
      | Some e \<Rightarrow> (case ts_heap s e of None \<Rightarrow> None | Some x \<Rightarrow> entry_val x))"

text \<open>The slot of an entry whose tree is published.\<close>

lemma slot_iff:
  assumes "tswap_inv s" "ts_heap s e = Some x" "e \<notin> set (ts_pf_bios s)"
  shows "slot s ty off = Some e \<longleftrightarrow> ts_roots s ty = te_root x \<and> off = te_offset x"
proof
  assume "slot s ty off = Some e"
  with assms show "ts_roots s ty = te_root x \<and> off = te_offset x"
    by (auto elim!: slot_entryE)
next
  assume a: "ts_roots s ty = te_root x \<and> off = te_offset x"
  from assms obtain r t where "te_root x = Some r" "ts_trees s r = Some t"
    "t (te_offset x) = Some e" by (rule live_entryE)
  with a show "slot s ty off = Some e" by (simp add: slot_def)
qed

lemma slot_moves: "moves e y s s' \<Longrightarrow> slot s' ty off = slot s ty off"
  by (auto simp: moves_def frame_def slot_def split: option.splits)

lemma slot_drops:
  assumes "tswap_inv s" "ts_heap s e = Some x" "e \<notin> set (ts_pf_bios s)"
    and "te_root x = Some r" "ts_trees s r = Some t" "drops e r t (te_offset x) s s'"
  shows "slot s' ty off = (if slot s ty off = Some e then None else slot s ty off)"
proof (cases "ts_roots s ty = Some r \<and> off = te_offset x")
  case True
  with slot_iff [OF assms(1-3), of ty off] assms(4) have "slot s ty off = Some e" by auto
  moreover have "slot s' ty off = None"
    using True assms(6) by (auto simp: drops_def frame_def slot_def)
  ultimately show ?thesis by simp
next
  case False
  with slot_iff [OF assms(1-3), of ty off] assms(4) have "slot s ty off \<noteq> Some e" by auto
  moreover have "slot s' ty off = slot s ty off"
    using False assms by (auto simp: drops_def frame_def slot_def split: option.splits)
  ultimately show ?thesis by simp
qed

lemma content_moves:
  assumes "moves e y s s'"
  shows "content s' ty off =
    (case slot s ty off of None \<Rightarrow> Some (ts_disk s' ty off)
     | Some e' \<Rightarrow> if e' = e then entry_val y else content s ty off)"
  using assms slot_moves [OF assms]
  by (auto simp: content_def moves_def split: option.splits)

lemma content_drops:
  assumes "tswap_inv s" "ts_heap s e = Some x" "e \<notin> set (ts_pf_bios s)"
    and "te_root x = Some r" "ts_trees s r = Some t" "drops e r t (te_offset x) s s'"
  shows "content s' ty off =
    (case slot s ty off of None \<Rightarrow> Some (ts_disk s' ty off)
     | Some e' \<Rightarrow> if e' = e then Some (ts_disk s' ty off) else content s ty off)"
  using slot_drops [OF assms, of ty off] assms(6)
  by (auto simp: content_def drops_def split: option.splits)

section \<open>The simulation relation\<close>

text \<open>
  Every slot that the specification knows holds the page it names; a live entry belongs to
  the published tree of its swap type, or that type is not in use and none of its slots is
  known.
\<close>

definition tswap_refines :: "fs_view \<Rightarrow> tswap \<Rightarrow> bool" where
  "tswap_refines V s \<longleftrightarrow> tswap_inv s \<and>
     (\<forall>e x. ts_heap s e = Some x \<longrightarrow> e \<notin> set (ts_pf_bios s) \<longrightarrow>
        ts_roots s (te_type x) = te_root x \<or> ts_roots s (te_type x) = None) \<and>
     (\<forall>ty off. V ty off \<noteq> None \<longrightarrow> ts_roots s ty \<noteq> None \<and> content s ty off = V ty off)"

lemma refinesI:
  assumes "tswap_inv s'"
    and "\<And>e x. ts_heap s' e = Some x \<Longrightarrow> e \<notin> set (ts_pf_bios s') \<Longrightarrow>
        ts_roots s' (te_type x) = te_root x \<or> ts_roots s' (te_type x) = None"
    and "\<And>ty off pg. V ty off = Some pg \<Longrightarrow> ts_roots s' ty \<noteq> None \<and> content s' ty off = Some pg"
  shows "tswap_refines V s'"
  using assms unfolding tswap_refines_def by fastforce

lemma refinesD:
  assumes "tswap_refines V s"
  shows "tswap_inv s"
    and "ts_heap s e = Some x \<Longrightarrow> e \<notin> set (ts_pf_bios s) \<Longrightarrow>
      ts_roots s (te_type x) = te_root x \<or> ts_roots s (te_type x) = None"
    and "V ty off = Some pg \<Longrightarrow> ts_roots s ty \<noteq> None"
    and "V ty off = Some pg \<Longrightarrow> content s ty off = Some pg"
  using assms unfolding tswap_refines_def by fastforce+

text \<open>A live entry sits in the slot of its type and offset, unless its type is unused.\<close>

lemma own_slot:
  assumes "tswap_refines V s" "ts_heap s e = Some x" "e \<notin> set (ts_pf_bios s)"
    and "V (te_type x) off \<noteq> None"
  shows "slot s (te_type x) (te_offset x) = Some e"
  using assms refinesD(2) [OF assms(1-3)] refinesD(3) [OF assms(1)]
    slot_iff [OF refinesD(1) [OF assms(1)] assms(2,3)] by fastforce

text \<open>An operation that changes one entry and at most the device at that entry's slot.\<close>

lemma refines_move:
  assumes ref: "tswap_refines V s" and e: "ts_heap s e = Some x" "e \<notin> set (ts_pf_bios s)"
    and mv: "moves e y s s'" and inv: "tswap_inv s'"
    and y: "te_root y = te_root x" "te_type y = te_type x"
    and disk: "\<And>ty off. (ty, off) \<noteq> (te_type x, te_offset x) \<Longrightarrow> ts_disk s' ty off = ts_disk s ty off"
    and V': "\<And>ty off. V' ty off = V ty off \<or> V' ty off = None \<or>
      slot s ty off = Some e \<and> V' ty off = entry_val y"
    and val: "\<And>ty off. slot s ty off = Some e \<Longrightarrow> V' ty off = None \<or> V' ty off = entry_val y"
  shows "tswap_refines V' s'"
proof (rule refinesI)
  have same: "ts_roots s' = ts_roots s" "ts_pf_bios s' = ts_pf_bios s"
    "ts_heap s' = (ts_heap s)(e \<mapsto> y)"
    using mv by (simp_all add: moves_def frame_def)
  show "ts_roots s' (te_type z) = te_root z \<or> ts_roots s' (te_type z) = None"
    if "ts_heap s' d = Some z" "d \<notin> set (ts_pf_bios s')" for d z
    using that same y e refinesD(2) [OF ref] by (auto split: if_splits)
  fix ty off pg assume v: "V' ty off = Some pg"
  show "ts_roots s' ty \<noteq> None \<and> content s' ty off = Some pg"
  proof (cases "slot s ty off = Some e")
    case True
    then have "ts_roots s ty \<noteq> None" by (auto simp: slot_def split: option.splits)
    with True v val [OF True] same content_moves [OF mv, of ty off] show ?thesis by auto
  next
    case False
    with v V' [of ty off] have V: "V ty off = Some pg" by auto
    have "ts_disk s' ty off = ts_disk s ty off"
      using own_slot [OF ref e] V False disk [of ty off] by (cases "ty = te_type x") auto
    with refinesD(3,4) [OF ref V] False same content_moves [OF mv, of ty off] show ?thesis
      by (auto simp: content_def split: option.splits)
  qed
qed (rule inv)

lemma refines_drop:
  assumes ref: "tswap_refines V s" and e: "ts_heap s e = Some x" "e \<notin> set (ts_pf_bios s)"
    and rt: "te_root x = Some r" "ts_trees s r = Some t"
    and dr: "drops e r t (te_offset x) s s'" and inv: "tswap_inv s'"
    and disk: "\<And>ty off. (ty, off) \<noteq> (te_type x, te_offset x) \<Longrightarrow> ts_disk s' ty off = ts_disk s ty off"
    and V': "\<And>ty off. V' ty off = V ty off \<or> V' ty off = None"
    and val: "\<And>ty off pg. slot s ty off = Some e \<Longrightarrow> V' ty off = Some pg \<Longrightarrow>
      ts_disk s' ty off = pg"
  shows "tswap_refines V' s'"
proof (rule refinesI)
  have same: "ts_roots s' = ts_roots s" "ts_pf_bios s' = ts_pf_bios s"
    "ts_heap s' = (ts_heap s)(e := None)"
    using dr by (simp_all add: drops_def frame_def)
  show "ts_roots s' (te_type z) = te_root z \<or> ts_roots s' (te_type z) = None"
    if "ts_heap s' d = Some z" "d \<notin> set (ts_pf_bios s')" for d z
    using that same refinesD(2) [OF ref] by (auto split: if_splits)
  fix ty off pg assume v: "V' ty off = Some pg"
  with V' [of ty off] have V: "V ty off = Some pg" by auto
  note c = content_drops [OF refinesD(1) [OF ref] e rt dr, of ty off] refinesD(3,4) [OF ref V]
  show "ts_roots s' ty \<noteq> None \<and> content s' ty off = Some pg"
  proof (cases "slot s ty off = Some e")
    case True
    with c val [OF True v] same show ?thesis by auto
  next
    case False
    have "ts_disk s' ty off = ts_disk s ty off"
      using own_slot [OF ref e] V False disk [of ty off] by (cases "ty = te_type x") auto
    with c False same show ?thesis by (auto simp: content_def split: option.splits)
  qed
qed (rule inv)

text \<open>An operation that changes nothing the specification sees.\<close>

lemma refines_same:
  assumes ref: "tswap_refines V s" and inv: "tswap_inv s'"
    and same: "ts_heap s' = ts_heap s" "ts_roots s' = ts_roots s" "ts_trees s' = ts_trees s"
      "ts_disk s' = ts_disk s" "set (ts_pf_bios s') = set (ts_pf_bios s)"
    and V': "\<And>ty off. V' ty off = V ty off \<or> V' ty off = None"
  shows "tswap_refines V' s'"
proof (rule refinesI)
  have slot: "slot s' ty off = slot s ty off" for ty off
    using same by (simp add: slot_def split: option.splits)
  show "ts_roots s' (te_type z) = te_root z \<or> ts_roots s' (te_type z) = None"
    if "ts_heap s' d = Some z" "d \<notin> set (ts_pf_bios s')" for d z
    using that same refinesD(2) [OF ref] by simp
  fix ty off pg assume "V' ty off = Some pg"
  with V' [of ty off] have V: "V ty off = Some pg" by auto
  with refinesD(3,4) [OF ref V] same slot show "ts_roots s' ty \<noteq> None \<and> content s' ty off = Some pg"
    by (auto simp: content_def split: option.splits)
qed (rule inv)

text \<open>A new entry enters an empty slot of a published tree.\<close>

lemma refines_add:
  assumes ref: "tswap_refines V s" and inv: "tswap_inv s'"
    and rt: "ts_roots s ty = Some r" "ts_trees s r = Some t" "t off = None"
    and fresh: "e \<in> set (ts_pf_bios s) \<or> ts_heap s e = None"
    and y: "te_root y = Some r" "te_type y = ty" "te_offset y = off" "te_state y \<noteq> ZOMBIE"
    and same: "ts_heap s' = (ts_heap s)(e \<mapsto> y)" "ts_trees s' = (ts_trees s)(r \<mapsto> t(off \<mapsto> e))"
      "ts_roots s' = ts_roots s" "ts_disk s' = ts_disk s"
      "set (ts_pf_bios s') = set (ts_pf_bios s) - {e}"
    and V': "\<And>ty' off'. (ty', off') \<noteq> (ty, off) \<Longrightarrow> V' ty' off' = V ty' off'"
    and val: "V' ty off = None \<or> V' ty off = te_data y"
  shows "tswap_refines V' s'"
proof (rule refinesI)
  note inv0 = refinesD(1) [OF ref]
  have slot_e: "slot s ty' off' \<noteq> Some e" for ty' off'
    using fresh slot_entryE [OF inv0, of ty' off' e] by (metis option.distinct(1))
  have uniq: "ts_roots s ty' = Some r \<longleftrightarrow> ty' = ty" for ty'
    using rt inv_coreD(1) [OF inv_core_of [OF inv0]] unfolding inv_heap_def by blast
  have slot: "slot s' ty' off' = (if (ty', off') = (ty, off) then Some e else slot s ty' off')"
    for ty' off' using rt uniq [of ty'] by (auto simp: slot_def same split: option.splits)
  show "ts_roots s' (te_type z) = te_root z \<or> ts_roots s' (te_type z) = None"
    if "ts_heap s' d = Some z" "d \<notin> set (ts_pf_bios s')" for d z
    using that same y rt refinesD(2) [OF ref] by (auto split: if_splits)
  fix ty' off' pg assume v: "V' ty' off' = Some pg"
  show "ts_roots s' ty' \<noteq> None \<and> content s' ty' off' = Some pg"
  proof (cases "(ty', off') = (ty, off)")
    case True
    with v val rt y show ?thesis by (auto simp: content_def slot same entry_val_def)
  next
    case False
    with V' v have V: "V ty' off' = Some pg" by auto
    have "content s' ty' off' = content s ty' off'"
      using False slot_e [of ty' off'] by (auto simp: content_def slot same split: option.splits)
    with refinesD(3,4) [OF ref V] same show ?thesis by simp
  qed
qed (rule inv)

section \<open>Each operation is simulated\<close>

lemma fs_set_apply:
  "fs_set ty off v V ty' off' = (if ty' = ty \<and> off' = off then v else V ty' off')"
  by (simp add: fs_set_def)

text \<open>The counters and the ring are not part of what the specification sees.\<close>

lemma refines_stat_ring:
  assumes "tswap_refines V s" "tswap_inv (s\<lparr>ts_stat := st, ts_ring := rg\<rparr>)"
  shows "tswap_refines V (s\<lparr>ts_stat := st, ts_ring := rg\<rparr>)"
  by (rule refines_same [OF assms]) simp_all

lemma store_locked_refines:
  assumes ref: "tswap_refines V s" and sl: "slot s ty off = Some e"
    and st: "store_locked env now True e pg s = Inr (ret, s')"
  shows "tswap_refines (fs_next (FsStore ty off pg ret) V) s'"
proof -
  note inv = refinesD(1) [OF ref]
  from inv sl obtain x where e: "ts_heap s e = Some x" "e \<notin> set (ts_pf_bios s)"
    and x: "te_offset x = off" "te_type x = ty" "te_root x = ts_roots s ty" by (rule slot_entryE)
  from inv e obtain r t d where l: "te_root x = Some r" "ts_trees s r = Some t"
    "te_data x = Some d" "te_state x \<noteq> INVALID" by (rule live_entryE)
  have here: "slot s ty' off' = Some e \<longleftrightarrow> ty' = ty \<and> off' = off" for ty' off'
    using sl x slot_entryE [OF inv, of ty' off' e] e(1) by (metis option.inject)
  have inv': "tswap_inv s'" using store_locked_prev_inv [OF inv e, of env now pg] st by auto
  show ?thesis
  proof (cases "se_kmap_ok env")
    case True
    from store_locked_prev_ok [OF inv e True, of now pg] st have r0: "ret = 0"
      and mv: "moves e (x\<lparr>te_data := Some pg, te_time := now, te_state := stored_state (te_state x)\<rparr>) s s'"
      and d: "ts_disk s' = ts_disk s" by auto
    show ?thesis
      by (rule refines_move [OF ref e mv inv'])
        (use r0 d in \<open>auto simp: here fs_set_apply entry_val_def stored_state_def\<close>)
  next
    case False
    from store_locked_prev_fail [OF inv e l(1,2) False, of now pg] st
    have r0: "ret = - ENOMEM" and d: "ts_disk s' = ts_disk s"
      and mv: "if te_state x = IN_MEMORY then drops e r t (te_offset x) s s'
        else moves e (x\<lparr>te_state := ZOMBIE\<rparr>) s s'" by auto
    show ?thesis
    proof (cases "te_state x = IN_MEMORY")
      case True
      with mv have dr: "drops e r t (te_offset x) s s'" by simp
      show ?thesis
        by (rule refines_drop [OF ref e l(1,2) dr inv'])
          (use r0 d in \<open>auto simp: here fs_set_apply errno_defs\<close>)
    next
      case False
      with mv have mv': "moves e (x\<lparr>te_state := ZOMBIE\<rparr>) s s'" by simp
      show ?thesis
        by (rule refines_move [OF ref e mv' inv'])
          (use r0 d in \<open>auto simp: here fs_set_apply errno_defs\<close>)
    qed
  qed
qed

lemma store_new_refines:
  assumes ref: "tswap_refines V s" and none: "slot s ty off = None"
    and s1: "s1 = s\<lparr>ts_next := ts_next s + 1, ts_heap := (ts_heap s)(ts_next s \<mapsto>
      new_entry ty off INVALID None)\<rparr>"
    and st: "store_locked env now False (ts_next s) pg s1 = Inr (ret, s')"
  shows "tswap_refines (fs_next (FsStore ty off pg ret) V) s'"
proof -
  note inv = refinesD(1) [OF ref] and fresh = inv_fresh [OF refinesD(1) [OF ref]]
  have inv': "tswap_inv s'" using store_locked_new_inv [OF inv s1 none, of env now pg] st by auto
  note new = store_locked_new [OF inv s1 none, of env now pg]
  from new st have same: "ts_roots s' = ts_roots s" "ts_pf_bios s' = ts_pf_bios s"
    "ts_disk s' = ts_disk s" by auto
  show ?thesis
  proof (cases "ret = 0")
    case True
    with new st obtain r t where rt: "ts_roots s ty = Some r" "ts_trees s r = Some t" "t off = None"
      and a: "adds (ts_next s)
        ((new_entry ty off IN_MEMORY (Some pg))\<lparr>te_root := Some r, te_time := now\<rparr>) r t s s'"
      by auto
    show ?thesis
      by (rule refines_add [OF ref inv' rt,
            of "ts_next s" "(new_entry ty off IN_MEMORY (Some pg))\<lparr>te_root := Some r, te_time := now\<rparr>"])
        (use a same fresh True in \<open>auto simp: adds_def new_entry_def fs_set_apply\<close>)
  next
    case False
    with new st have "ts_heap s' = ts_heap s" "ts_trees s' = ts_trees s" by auto
    with same False show ?thesis
      by (intro refines_same [OF ref inv']) (auto simp: fs_set_apply)
  qed
qed

lemma store_refines:
  assumes ref: "tswap_refines V s" and st: "tswap_frontswap_store env now ty off pg s = Inr (ret, s')"
  shows "tswap_refines (fs_next (FsStore ty off pg ret) V) s'"
proof -
  let ?s = "s\<lparr>ts_stat := nr_store_update (\<lambda>n. n + 1) (ts_stat s),
    ts_ring := ring_push \<lparr>pf_type = ty, pf_offset = off\<rparr> (ts_ring s)\<rparr>"
  note inv0 = refinesD(1) [OF ref]
  have "tswap_inv ?s" using inv0 by (simp add: tswap_inv_def counters_def pring.invar_push)
  then have ref1: "tswap_refines V ?s" by (rule refines_stat_ring [OF ref])
  note inv = refinesD(1) [OF ref1]
  have inv': "tswap_inv s'" using store_inv [OF inv0, of env now ty off pg] st by auto
  note store_def = tswap_frontswap_store_def Let_def
  show ?thesis
  proof (cases "se_thp env \<or> slot s ty off = None \<and> \<not> se_entry_ok env")
    case True
    with lookup_slot [OF inv, of ty off]
    have "\<exists>ret st. tswap_frontswap_store env now ty off pg s = Inr (ret, ?s\<lparr>ts_stat := st\<rparr>) \<and> ret \<noteq> 0"
      by (auto simp: store_def errno_defs)
    with st have "ret \<noteq> 0" "ts_heap s' = ts_heap s" "ts_roots s' = ts_roots s" "ts_trees s' = ts_trees s"
      "ts_disk s' = ts_disk s" "ts_pf_bios s' = ts_pf_bios s"
      by auto
    then show ?thesis by (intro refines_same [OF ref inv']) (auto simp: fs_set_apply)
  next
    case False
    show ?thesis
    proof (cases "slot s ty off")
      case None
      then have n: "slot ?s ty off = None" by simp
      with False None lookup_slot [OF inv, of ty off] st show ?thesis
        by (intro store_new_refines [OF ref1 n refl, of env now pg])
          (simp add: store_def alloc_entry_def)
    next
      case (Some e)
      then have n: "slot ?s ty off = Some e" by simp
      with False Some lookup_slot [OF inv, of ty off] st show ?thesis
        by (intro store_locked_refines [OF ref1 n, of env now pg]) (simp add: store_def)
    qed
  qed
qed

text \<open>
  Invalidating an entry: the specification may forget slots, and must forget the one of
  the entry. An entry of an area that is reclaimed is in no slot.
\<close>

lemma invalidate_entry_refines:
  assumes ref: "tswap_refines V s" and e: "ts_heap s e = Some x" "e \<notin> set (ts_pf_bios s)"
    and st: "invalidate_and_drop e s = Inr s'"
    and V': "\<And>ty off. V' ty off = V ty off \<or> V' ty off = None"
    and forget: "\<And>ty off. slot s ty off = Some e \<Longrightarrow> V' ty off = None"
  shows "tswap_refines V' s'"
proof -
  note inv = refinesD(1) [OF ref]
  from inv e obtain r t d where l: "te_root x = Some r" "ts_trees s r = Some t"
    "te_data x = Some d" "te_state x \<noteq> INVALID" by (rule live_entryE)
  have inv': "tswap_inv s'" using invalidate_and_drop_inv [OF inv e] st by auto
  consider "te_state x = ZOMBIE" | "te_state x = IN_MEMORY"
    | "te_state x = IN_MEMORY_FOLLOWED_BY_ZOMBIE \<or> te_state x = IN_FLIGHT"
    using l(4) by (cases "te_state x") auto
  then show ?thesis
  proof cases
    case 1
    with e inv_in_queue [OF inv e] st have "s' = s" by (simp add: invalidate_and_drop_zombie)
    with V' show ?thesis by (intro refines_same [OF ref inv']) auto
  next
    case 2
    from invalidate_and_drop_in_memory [OF inv e 2 l(1,2)] st
    have dr: "drops e r t (te_offset x) s s'" and d: "ts_disk s' = ts_disk s" by auto
    show ?thesis
      by (rule refines_drop [OF ref e l(1,2) dr inv' _ V']) (use d forget in auto)
  next
    case 3
    from invalidate_and_drop_in_io [OF inv e 3] st
    have mv: "moves e (x\<lparr>te_state := ZOMBIE\<rparr>) s s'" and d: "ts_disk s' = ts_disk s" by auto
    show ?thesis
      by (rule refines_move [OF ref e mv inv'])
        (use d in \<open>simp_all add: forget\<close>, use V' in blast)
  qed
qed

lemma invalidate_and_drop_refines:
  assumes ref: "tswap_refines V s" and sl: "slot s ty off = Some e"
    and st: "invalidate_and_drop e s = Inr s'"
  shows "tswap_refines (fs_set ty off None V) s'"
proof -
  note inv = refinesD(1) [OF ref]
  from inv sl obtain x where e: "ts_heap s e = Some x" "e \<notin> set (ts_pf_bios s)"
    and x: "te_offset x = off" "te_type x = ty" by (rule slot_entryE)
  have "ty' = ty \<and> off' = off" if "slot s ty' off' = Some e" for ty' off'
    using that x slot_entryE [OF inv, of ty' off' e] e(1) by (metis option.inject)
  then show ?thesis
    by (intro invalidate_entry_refines [OF ref e st]) (auto simp: fs_set_apply)
qed

lemma refines_stat:
  assumes "tswap_refines V s" "tswap_inv (s\<lparr>ts_stat := st\<rparr>)"
  shows "tswap_refines V (s\<lparr>ts_stat := st\<rparr>)"
  by (rule refines_same [OF assms]) simp_all

text \<open>Counters that count no entries may change freely.\<close>

lemma refines_free_stat:
  assumes "tswap_refines V s"
    and "nr_zombie_page st = nr_zombie_page (ts_stat s)"
    "nr_in_memory_page st = nr_in_memory_page (ts_stat s)"
    "nr_in_memory_zombie_page st = nr_in_memory_zombie_page (ts_stat s)"
    "nr_in_flight_page st = nr_in_flight_page (ts_stat s)"
    "len_quarantine_list st = len_quarantine_list (ts_stat s)"
  shows "tswap_refines V (s\<lparr>ts_stat := st\<rparr>)"
  by (rule refines_stat [OF assms(1)]) (simp add: assms refinesD(1) [OF assms(1)])

lemma refines_qtime: "tswap_refines V s \<Longrightarrow> tswap_refines V (s\<lparr>ts_quarantine_time := n\<rparr>)"
  by (rule refines_same, assumption) (auto dest: refinesD(1))

lemma load_refines:
  assumes ref: "tswap_refines V s" and ld: "tswap_frontswap_load env ty off s = Inr (ret, res, s')"
  shows "fs_ok (FsLoad ty off ret res) V \<and> tswap_refines (fs_next (FsLoad ty off ret res) V) s'"
proof -
  let ?s = "s\<lparr>ts_stat := nr_promoted_page_update (\<lambda>n. n + 1)
    (nr_load_update (\<lambda>n. n + 1) (ts_stat s))\<rparr>"
  have ref1: "tswap_refines V ?s"
    by (rule refines_stat [OF ref]) (use refinesD(1) [OF ref] in simp)
  note inv = refinesD(1) [OF ref1]
  note l = lookup_slot [OF inv, of ty off]
  show ?thesis
  proof (cases "slot s ty off")
    case None
    have inv': "tswap_inv s'" using load_inv [OF refinesD(1) [OF ref], of env ty off] ld by auto
    have "content s ty off = Some (ts_disk s ty off)" using None by (simp add: content_def)
    with refinesD(4) [OF ref, of ty off] have v: "V ty off = None \<or> V ty off = Some (ts_disk s ty off)"
      by (cases "V ty off") auto
    from None l have "\<exists>st. tswap_frontswap_load env ty off s = Inr
        (if le_bio_ok env \<and> 0 \<le> le_io env then (0, Some (ts_disk s ty off), s\<lparr>ts_stat := st\<rparr>)
         else (- EINVAL, None, s\<lparr>ts_stat := st\<rparr>))"
      by (auto simp: tswap_frontswap_load_def sync_io_read_def Let_def errno_defs)
    then obtain st where "(ret, res, s') =
        (if le_bio_ok env \<and> 0 \<le> le_io env then (0, Some (ts_disk s ty off), s\<lparr>ts_stat := st\<rparr>)
         else (- EINVAL, None, s\<lparr>ts_stat := st\<rparr>))" using ld by auto
    with v inv' show ?thesis
      by (auto simp: errno_defs fs_set_apply intro!: refines_same [OF ref] split: if_splits)
  next
    case (Some e)
    then have sl: "slot ?s ty off = Some e" by simp
    from inv sl obtain x where x: "ts_heap ?s e = Some x" "e \<notin> set (ts_pf_bios ?s)"
      by (rule slot_entryE)
    with inv obtain d where d: "te_data x = Some d" by (rule live_entryE)
    have "content s ty off = entry_val x" using Some x by (simp add: content_def)
    with refinesD(4) [OF ref, of ty off] d have v: "V ty off = None \<or> V ty off = Some d"
      by (cases "V ty off") (auto simp: entry_val_def split: if_splits)
    show ?thesis
    proof (cases "le_kmap_ok env")
      case True
      with Some l d x ld obtain s1 where s1: "invalidate_and_drop e ?s = Inr s1"
        "ret = 0" "res = Some d" "s' = s1"
        by (auto simp: tswap_frontswap_load_def Let_def rbind_eq_Inr)
      with invalidate_and_drop_refines [OF ref1 sl s1(1)] v show ?thesis by (auto simp: errno_defs)
    next
      case False
      let ?t = "?s\<lparr>ts_stat := nr_kmap_fail_update (\<lambda>n. n + 1) (ts_stat ?s)\<rparr>"
      have ref2: "tswap_refines V ?t" by (rule refines_stat [OF ref1]) (use inv in simp)
      have sl2: "slot ?t ty off = Some e" using Some by simp
      from False Some l d x ld obtain s1 where s1: "invalidate_and_drop e ?t = Inr s1"
        "ret = - ENOMEM" "res = None" "s' = s1"
        by (auto simp: tswap_frontswap_load_def Let_def rbind_eq_Inr)
      with invalidate_and_drop_refines [OF ref2 sl2 s1(1)] show ?thesis by (auto simp: errno_defs)
    qed
  qed
qed

lemma invalidate_page_refines:
  assumes ref: "tswap_refines V s" and st: "tswap_frontswap_invalidate_page ty off s = Inr s'"
  shows "tswap_refines (fs_set ty off None V) s'"
proof -
  let ?s = "s\<lparr>ts_stat := nr_invalidate_page_update (\<lambda>n. n + 1) (ts_stat s)\<rparr>"
  have ref1: "tswap_refines V ?s"
    by (rule refines_stat [OF ref]) (use refinesD(1) [OF ref] in simp)
  note l = lookup_slot [OF refinesD(1) [OF ref1], of ty off]
  have inv': "tswap_inv s'" using invalidate_page_inv [OF refinesD(1) [OF ref], of ty off] st by auto
  show ?thesis
  proof (cases "slot s ty off")
    case None
    with l have "\<exists>st. tswap_frontswap_invalidate_page ty off s = Inr (s\<lparr>ts_stat := st\<rparr>)"
      by (auto simp: tswap_frontswap_invalidate_page_def)
    with st inv' show ?thesis
      by (auto simp: fs_set_apply intro!: refines_same [OF ref] split: if_splits)
  next
    case (Some e)
    then have sl: "slot ?s ty off = Some e" by simp
    with l Some have "tswap_frontswap_invalidate_page ty off s = invalidate_and_drop e ?s"
      by (simp add: tswap_frontswap_invalidate_page_def)
    with st show ?thesis by (intro invalidate_and_drop_refines [OF ref1 sl]) simp
  qed
qed

lemma area_begin_refines:
  assumes ref: "tswap_refines V s" and r: "ts_roots s ty = Some r"
    and st: "invalidate_area_begin ty s = Inr s'"
  shows "tswap_refines (V(ty := Map.empty)) s'"
proof (rule refinesI)
  show "tswap_inv s'" using invalidate_area_begin_inv [OF refinesD(1) [OF ref] r] st by auto
  from st r have s': "ts_roots s' = (ts_roots s)(ty := None)" "ts_heap s' = ts_heap s"
    "ts_trees s' = ts_trees s" "ts_disk s' = ts_disk s" "ts_pf_bios s' = ts_pf_bios s"
    by (auto simp: invalidate_area_begin_def)
  show "ts_roots s' (te_type x) = te_root x \<or> ts_roots s' (te_type x) = None"
    if "ts_heap s' e = Some x" "e \<notin> set (ts_pf_bios s')" for e x
    using that refinesD(2) [OF ref] by (auto simp: s')
  fix ty' off pg assume v: "(V(ty := Map.empty)) ty' off = Some pg"
  then have V: "ty' \<noteq> ty" "V ty' off = Some pg" by (auto split: if_splits)
  then have "content s' ty' off = content s ty' off"
    by (simp add: content_def slot_def s' split: option.splits)
  with V refinesD(3,4) [OF ref V(2)] show "ts_roots s' ty' \<noteq> None \<and> content s' ty' off = Some pg"
    by (simp add: s')
qed

lemma area_round_refines:
  assumes ref: "tswap_refines V s" and r: "r \<in> set (ts_areas s)" "ts_trees s r = Some t" "t off = Some e"
    and st: "invalidate_area_round r off s = Inr s'"
  shows "tswap_refines V s'"
proof -
  note inv = refinesD(1) [OF ref]
  from inv_treeE [OF inv_coreD(2) [OF inv_core_of [OF inv]] r(2,3)]
  obtain x where x: "ts_heap s e = Some x" "e \<notin> set (ts_pf_bios s)" "te_root x = Some r" by blast
  have "ts_roots s ty \<noteq> Some r" for ty
    using inv r(1) by (auto simp: tswap_inv_def inv_areas_def)
  then have "slot s ty off' \<noteq> Some e" for ty off'
    using slot_iff [OF inv x(1,2)] x(3) by auto
  moreover from inv x(1,2) have "te_state x \<noteq> INVALID" by (rule live_entryE)
  then have "invalidate_and_drop e s = Inr s'"
    using st r x by (simp add: invalidate_area_round_def)
  ultimately show ?thesis by (intro invalidate_entry_refines [OF ref x(1,2)]) auto
qed

lemma area_end_refines:
  assumes ref: "tswap_refines V s" and r: "r \<in> set (ts_areas s)" "ts_trees s r = Some Map.empty"
  shows "tswap_refines V (invalidate_area_end r s)"
proof (rule refinesI)
  note inv = refinesD(1) [OF ref]
  show "tswap_inv (invalidate_area_end r s)" by (rule invalidate_area_end_inv [OF inv r])
  have un: "ts_roots s ty \<noteq> Some r" for ty
    using inv r(1) by (auto simp: tswap_inv_def inv_areas_def)
  have c: "content (invalidate_area_end r s) ty off = content s ty off" for ty off
    using un [of ty] by (auto simp: content_def slot_def invalidate_area_end_def split: option.splits)
  show "ts_roots (invalidate_area_end r s) ty \<noteq> None \<and>
      content (invalidate_area_end r s) ty off = Some pg" if "V ty off = Some pg" for ty off pg
    using refinesD(3,4) [OF ref that] c by (simp add: invalidate_area_end_def)
qed (use refinesD(2) [OF ref] in \<open>auto simp: invalidate_area_end_def\<close>)

lemma init_refines:
  assumes ref: "tswap_refines V s" and ty: "ts_roots s ty = None"
    and old: "\<And>e x. ts_heap s e = Some x \<Longrightarrow> e \<notin> set (ts_pf_bios s) \<Longrightarrow> te_type x \<noteq> ty"
  shows "tswap_refines V (tswap_frontswap_init root_ok ty s)"
proof (rule refinesI)
  note inv = refinesD(1) [OF ref]
  let ?s = "tswap_frontswap_init root_ok ty s"
  show "tswap_inv ?s" using inv by (rule frontswap_init_inv)
  show "ts_roots ?s (te_type x) = te_root x \<or> ts_roots ?s (te_type x) = None"
    if "ts_heap ?s e = Some x" "e \<notin> set (ts_pf_bios ?s)" for e x
    using that refinesD(2) [OF ref, of e x] old [of e x]
    by (auto simp: tswap_frontswap_init_def Let_def split: if_splits)
  fix ty' off pg assume V: "V ty' off = Some pg"
  note d = refinesD(3,4) [OF ref V]
  from d(1) ty have ne: "ty' \<noteq> ty" by auto
  have "ts_roots s ty' \<noteq> Some (ts_next s)"
    using inv_coreD(1) [OF inv_core_of [OF inv]] inv_fresh(2) [OF inv]
    unfolding inv_heap_def by metis
  with ne have "content ?s ty' off = content s ty' off"
    by (simp add: content_def slot_def tswap_frontswap_init_def Let_def split: option.splits)
  with d ne show "ts_roots ?s ty' \<noteq> None \<and> content ?s ty' off = Some pg"
    by (simp add: tswap_frontswap_init_def Let_def)
qed

subsection \<open>The discharge thread and the completion handlers\<close>

lemma pick_refines:
  assumes ref: "tswap_refines V s" and free: "ts_submitting s = None"
    and st: "discharge_pick mtj now s = Inr s'"
  shows "tswap_refines V s'"
proof (cases "ts_quarantine s")
  case Nil
  with ref st show ?thesis by (simp add: discharge_pick_def)
next
  case (Cons e q)
  note inv = refinesD(1) [OF ref]
  from inv Cons obtain x where e: "ts_heap s e = Some x" "e \<notin> set (ts_pf_bios s)" "queued (te_state x)"
    by (rule inv_queue_headE)
  have inv': "tswap_inv s'" using discharge_pick_inv [OF inv free, of mtj now] st by auto
  from discharge_pick_result [OF inv free Cons e(1,3) refl, of mtj now] st obtain y where
    y: "y = (if te_state x = IN_MEMORY \<and>
      time_after now (te_time x + mtj (to_int32 (ts_quarantine_time s * 1000)))
    then x\<lparr>te_state := IN_FLIGHT\<rparr> else x)" and mv: "moves e y s s'" and d: "ts_disk s' = ts_disk s"
    by auto
  have "entry_val y = entry_val x" by (auto simp: y entry_val_def)
  moreover have "V ty off = None \<or> V ty off = entry_val x" if "slot s ty off = Some e" for ty off
    using refinesD(4) [OF ref, of ty off] that e(1)
    by (cases "V ty off") (auto simp: content_def)
  ultimately show ?thesis
    by (intro refines_move [OF ref e(1,2) mv inv']) (use d in \<open>auto simp: y\<close>)
qed

text \<open>
  The end of a write request, successful or not, and the rollback of one that was never
  submitted: \<open>f\<close> is whether the page was not written.
\<close>

lemma after_io_refines:
  assumes ref: "tswap_refines V s" and e: "ts_heap s e = Some x" "e \<notin> set (ts_pf_bios s)" "in_io (te_state x)"
    and l: "te_root x = Some r" "ts_trees s r = Some t" and inv': "tswap_inv s'"
    and s': "if after_io f (te_state x) = INVALID then drops e r t (te_offset x) s s'
     else moves e (x\<lparr>te_state := after_io f (te_state x)\<rparr>) s s'"
    and disk: "\<And>ty off. (ty, off) \<noteq> (te_type x, te_offset x) \<Longrightarrow> ts_disk s' ty off = ts_disk s ty off"
    and lands: "\<not> f \<Longrightarrow> te_state x = IN_FLIGHT \<Longrightarrow> te_data x = Some (ts_disk s' (te_type x) (te_offset x))"
  shows "tswap_refines V s'"
proof -
  note inv = refinesD(1) [OF ref]
  have v: "V ty off = None \<or> V ty off = entry_val x" if "slot s ty off = Some e" for ty off
    using refinesD(4) [OF ref, of ty off] that e(1)
    by (cases "V ty off") (auto simp: content_def)
  have here: "ty = te_type x \<and> off = te_offset x" if "slot s ty off = Some e" for ty off
    using slot_entryE [OF inv that] e(1) by (metis option.inject)
  show ?thesis
  proof (cases "after_io f (te_state x) = INVALID")
    case True
    with s' have dr: "drops e r t (te_offset x) s s'" by simp
    have "ts_disk s' ty off = pg" if "slot s ty off = Some e" "V ty off = Some pg" for ty off pg
      using True e(3) v [OF that(1)] that(2) here [OF that(1)] lands
      by (auto simp: after_io_def entry_val_def in_io_def split: if_splits)
    then show ?thesis by (intro refines_drop [OF ref e(1,2) l dr inv' disk]) auto
  next
    case False
    with s' have mv: "moves e (x\<lparr>te_state := after_io f (te_state x)\<rparr>) s s'" by simp
    have "entry_val (x\<lparr>te_state := after_io f (te_state x)\<rparr>) = entry_val x"
      using False e(3) by (auto simp: after_io_def entry_val_def in_io_def split: if_splits)
    with v show ?thesis by (intro refines_move [OF ref e(1,2) mv inv' _ _ disk]) auto
  qed
qed

lemma submit_refines:
  assumes ref: "tswap_refines V s" and st: "discharge_submit bio_ok s = Inr s'"
  shows "tswap_refines V s'"
proof -
  note inv = refinesD(1) [OF ref]
  have inv': "tswap_inv s'" using discharge_submit_inv [OF inv, of bio_ok] st by auto
  show ?thesis
  proof (cases "bio_ok \<or> ts_submitting s = None")
    case True
    with st inv' show ?thesis
      by (intro refines_same [OF ref inv']) (auto simp: discharge_submit_def Let_def split: option.splits)
  next
    case False
    then obtain e where sub: "ts_submitting s = Some e" by auto
    then have "e \<in> set (disch s)" by (simp add: disch_def)
    with inv obtain x where e: "ts_heap s e = Some x" "in_io (te_state x)" "e \<notin> set (ts_pf_bios s)"
      by (rule in_disch_live)
    from inv e(1,3) obtain r t where l: "te_root x = Some r" "ts_trees s r = Some t"
      by (rule live_entryE)
    from discharge_rollback_result [OF inv e(1,3,2) l sub] st False
    have "if after_io True (te_state x) = INVALID then drops e r t (te_offset x) s s'
       else moves e (x\<lparr>te_state := after_io True (te_state x)\<rparr>) s s'" and d: "ts_disk s' = ts_disk s"
      by auto
    then show ?thesis by (intro after_io_refines [OF ref e(1,3,2) l inv']) auto
  qed
qed

lemma io_end_refines:
  assumes ref: "tswap_refines V s" and b: "e \<in> set (ts_bios s)" and wl: "write_lands e err wr s"
    and st: "discharge_async_io_end e err wr s = Inr s'"
  shows "tswap_refines V s'"
proof -
  note inv = refinesD(1) [OF ref]
  have inv': "tswap_inv s'" using discharge_end_inv [OF inv b, of err wr] st by auto
  have "e \<in> set (disch s)" using b by (simp add: disch_def split: option.splits)
  with inv obtain x where e: "ts_heap s e = Some x" "in_io (te_state x)" "e \<notin> set (ts_pf_bios s)"
    by (rule in_disch_live)
  from inv e(1,3) obtain r t where l: "te_root x = Some r" "ts_trees s r = Some t"
    by (rule live_entryE)
  from io_end_result [OF inv e(1,3,2) l, of err wr] st
  have d: "ts_disk s' = (ts_disk s)(te_type x := (ts_disk s (te_type x))(te_offset x := wr))"
    and m: "if after_io (err < 0) (te_state x) = INVALID then drops e r t (te_offset x) s s'
       else moves e (x\<lparr>te_state := after_io (err < 0) (te_state x)\<rparr>) s s'"
    by auto
  show ?thesis
    by (rule after_io_refines [OF ref e(1,3,2) l inv' m])
      (use d wl e(1) in \<open>auto simp: write_lands_def\<close>)
qed

subsection \<open>Prefetching\<close>

text \<open>Entries whose prefetch read is outstanding are in no slot.\<close>

lemma refines_pf:
  assumes ref: "tswap_refines V s" and inv: "tswap_inv s'"
    and same: "ts_roots s' = ts_roots s" "ts_trees s' = ts_trees s" "ts_disk s' = ts_disk s"
    and heap: "\<And>d. d \<noteq> e \<Longrightarrow> ts_heap s' d = ts_heap s d"
    and e: "e \<in> set (ts_pf_bios s) \<or> ts_heap s e = None" "e \<in> set (ts_pf_bios s') \<or> ts_heap s' e = None"
    and pf: "\<And>d. d \<noteq> e \<Longrightarrow> d \<in> set (ts_pf_bios s') \<longleftrightarrow> d \<in> set (ts_pf_bios s)"
  shows "tswap_refines V s'"
proof (rule refinesI)
  note inv0 = refinesD(1) [OF ref]
  have slot: "slot s' ty off = slot s ty off" for ty off
    using same by (simp add: slot_def split: option.splits)
  have slot_e: "slot s ty off \<noteq> Some e" for ty off
    using e(1) slot_entryE [OF inv0, of ty off e] by (metis option.distinct(1))
  show "ts_roots s' (te_type x) = te_root x \<or> ts_roots s' (te_type x) = None"
    if d: "ts_heap s' d = Some x" "d \<notin> set (ts_pf_bios s')" for d x
  proof -
    have "d \<noteq> e" using d e(2) by auto
    with d heap pf have "ts_heap s d = Some x" "d \<notin> set (ts_pf_bios s)" by auto
    with refinesD(2) [OF ref] same show ?thesis by simp
  qed
  fix ty off pg assume V: "V ty off = Some pg"
  have "content s' ty off = content s ty off"
    using slot_e [of ty off] heap by (cases "slot s ty off") (simp_all add: content_def slot same)
  with refinesD(3,4) [OF ref V] same show "ts_roots s' ty \<noteq> None \<and> content s' ty off = Some pg"
    by simp
qed (rule inv)

lemma prefetch_iter_refines:
  assumes ref: "tswap_refines V s" and st: "prefetch_iter fmap env s = Inr (go_on, s')"
  shows "tswap_refines V s'"
proof (cases "ring_pop (ts_ring s)")
  case None
  with st ref show ?thesis by (auto simp: prefetch_iter_def)
next
  case (Some p)
  note inv = refinesD(1) [OF ref] and fresh = inv_fresh [OF refinesD(1) [OF ref]]
  have inv': "tswap_inv s'" using prefetch_iter_inv [OF inv, of fmap env] st by auto
  obtain i ring where p: "p = (i, ring)" by force
  let ?s = "s\<lparr>ts_ring := ring\<rparr>"
  have "ring_inv ring" using Some p inv by (auto simp: tswap_inv_def intro: pring.invar_pop)
  then have "tswap_inv ?s" using inv by (simp add: tswap_inv_ring)
  note lk = lookup_slot [OF this, of "pf_type i" "pf_offset i"]
  have [simp]: "(ts_heap s)(ts_next s := None) = ts_heap s" using fresh by auto
  have "ts_roots s' = ts_roots s \<and> ts_trees s' = ts_trees s \<and> ts_disk s' = ts_disk s \<and>
    (\<forall>d. d \<noteq> ts_next s \<longrightarrow> ts_heap s' d = ts_heap s d \<and>
      (d \<in> set (ts_pf_bios s') \<longleftrightarrow> d \<in> set (ts_pf_bios s))) \<and>
    (ts_next s \<in> set (ts_pf_bios s') \<or> ts_heap s' (ts_next s) = None)"
    using st Some p lk fresh
    by (auto simp: prefetch_iter_def prefetch_async_io_def alloc_entry_def Let_def heap_op_defs
        new_entry_def rbind_eq_Inr split: if_splits option.splits)
  then show ?thesis
    by (intro refines_pf [OF ref inv', of "ts_next s"]) (use fresh in auto)
qed

text \<open>
  A prefetched page enters the tree only where no entry is; the slot is then on the device,
  and the page is what the device holds.
\<close>

lemma prefetch_end_refines:
  assumes ref: "tswap_refines V s" and b: "e \<in> set (ts_pf_bios s)" and x: "ts_heap s e = Some x"
    and data: "data = ts_disk s (te_type x) (te_offset x)"
    and st: "prefetch_async_io_end grace now lf nomem e err data s = Inr s'"
  shows "tswap_refines V s'"
proof -
  note inv = refinesD(1) [OF ref]
  have inv': "tswap_inv s'" using prefetch_end_inv [OF inv b, of grace now lf nomem err data] st by auto
  have pf: "set (ts_pf_bios s) - {e} = set (remove1 e (ts_pf_bios s))"
    using inv by (simp add: tswap_inv_def inv_core_def inv_io_def)
  from inv b x obtain d where d: "te_data x = Some d"
    by (fastforce simp: tswap_inv_def inv_core_def inv_entry_def)
  have stx: "te_state x = IN_MEMORY"
    using inv b x by (auto simp: tswap_inv_def inv_core_def inv_entry_def)
  have q: "e \<notin> set (ts_quarantine s)"
    using inv b by (auto simp: tswap_inv_def inv_core_def inv_queue_def)
  have root: "ts_trees s r \<noteq> None" if "ts_roots s ty = Some r" for ty r
    using that inv_coreD(1) [OF inv_core_of [OF inv]] unfolding inv_heap_def by blast
  show ?thesis
  proof (cases "0 \<le> err \<and> lf \<and> \<not> nomem \<and>
      (\<exists>r t. ts_roots s (te_type x) = Some r \<and> ts_trees s r = Some t \<and> t (te_offset x) = None)")
    case False
    have "ts_heap s' = (ts_heap s)(e := None) \<and> ts_trees s' = ts_trees s \<and> ts_roots s' = ts_roots s \<and>
        ts_disk s' = ts_disk s \<and> ts_pf_bios s' = remove1 e (ts_pf_bios s)"
    proof (cases "ts_roots s (te_type x)")
      case None
      with st x d show ?thesis
        by (auto simp: prefetch_async_io_end_def prefetch_invalidate_def atomic_entry_insert_def
          heap_op_defs Let_def split: if_splits)
    next
      case (Some r)
      with root obtain t where "ts_trees s r = Some t" by blast
      with Some st x d False show ?thesis
        by (auto simp: prefetch_async_io_end_def prefetch_invalidate_def atomic_entry_insert_def
          heap_op_defs Let_def split: if_splits)
    qed
    with pf b show ?thesis by (intro refines_pf [OF ref inv', of e]) auto
  next
    case True
    then obtain r t where rt: "ts_roots s (te_type x) = Some r" "ts_trees s r = Some t"
      "t (te_offset x) = None" by blast
    let ?x = "x\<lparr>te_data := Some data, te_time := now + grace, te_root := Some r\<rparr>"
    from True st x d rt q have "ts_heap s' = (ts_heap s)(e \<mapsto> ?x)"
      "ts_trees s' = (ts_trees s)(r \<mapsto> t(te_offset x \<mapsto> e))" "ts_roots s' = ts_roots s"
      "ts_disk s' = ts_disk s" "ts_pf_bios s' = remove1 e (ts_pf_bios s)"
      by (auto simp: prefetch_async_io_end_def atomic_entry_insert_def atomic_entry_quarantine_def
          errno_defs Let_def)
    moreover have "V (te_type x) (te_offset x) = None \<or> V (te_type x) (te_offset x) = Some data"
      using refinesD(4) [OF ref, of "te_type x" "te_offset x"] rt data
      by (cases "V (te_type x) (te_offset x)") (auto simp: content_def slot_def)
    ultimately show ?thesis
      by (intro refines_add [OF ref inv' rt, of e ?x]) (use b pf stx in auto)
  qed
qed

section \<open>tswap implements the specification\<close>

lemma tswap_simulates:
  assumes "tswap_event s ev s'" "tswap_refines V s"
  shows "fs_ok ev V \<and> tswap_refines (fs_next ev V) s'"
  using assms
proof (induction rule: tswap_event.induct)
  case (ev_stat_store input count s n s')
  then show ?case
    by (auto simp: tswap_stat_store_def refines_free_stat split: option.splits)
next
  case (ev_time_store input count s n s')
  then show ?case
    by (auto simp: tswap_quarantine_time_store_def refines_qtime split: option.splits)
next
  case (ev_promoted s)
  then show ?case by (simp add: tswap_nr_promoted_page_show_def refines_free_stat)
next
  case (ev_disk_promoted s)
  then show ?case by (simp add: tswap_nr_disk_promoted_page_show_def refines_free_stat)
qed (auto simp del: fs_next.simps fs_ok.simps simp: fs_next.simps(3-5) fs_ok.simps(2-5)
    dest: store_refines load_refines
    intro: invalidate_page_refines area_begin_refines area_round_refines area_end_refines init_refines
      pick_refines submit_refines io_end_refines prefetch_iter_refines prefetch_end_refines)

interpretation fs: simulation tswap_event fs_ok fs_next tswap_refines
  by unfold_locales (rule tswap_simulates)

lemma init_state_refines: "tswap_refines (\<lambda>ty off. None) (tswap_init_state garbage disk)"
  by (rule refinesI) (auto simp: init_state_inv, simp add: tswap_init_state_def)

end
