(* ===== verification/Tswap_Props.thy ===== *)
theory Tswap_Props
  imports Tswap_Refine
begin

text \<open>
  The properties of tswap that the kernel and the harvester rely on, over the executions
  and the reachable states of the module: no page is lost or mixed up, no operation has
  undefined behaviour, the counters account for the memory, the discharge thread empties
  the quarantine list of the pages whose time is over, and the prefetch ring hands out the
  most recent slots first.
\<close>

section \<open>Lemmas\<close>





text \<open>The entry's quarantine time is over.\<close>

definition due :: "(int \<Rightarrow> jiffies) \<Rightarrow> jiffies \<Rightarrow> tswap \<Rightarrow> nat \<Rightarrow> bool" where
  "due mtj now s e =
     (case ts_heap s e of
        None \<Rightarrow> False
      | Some x \<Rightarrow> te_state x = IN_MEMORY \<and>
          time_after now (te_time x + mtj (to_int32 (ts_quarantine_time s * 1000))))"

text \<open>One iteration of the scan followed by its submission.\<close>

lemma pick_submit:
  assumes inv: "tswap_inv s" and free: "ts_submitting s = None" and q: "ts_quarantine s = e # q"
  shows "\<exists>s1 s2. discharge_pick mtj now s = Inr s1 \<and> discharge_submit True s1 = Inr s2 \<and>
    tswap_inv s2 \<and> ts_submitting s2 = None \<and> ts_quarantine_time s2 = ts_quarantine_time s \<and>
    ts_quarantine s2 = q @ (if due mtj now s e then [] else [e]) \<and>
    ts_bios s2 = (if due mtj now s e then e # ts_bios s else ts_bios s) \<and>
    (\<forall>d. ts_heap s2 d = (if d = e \<and> due mtj now s e
       then map_option (te_state_update (\<lambda>_. IN_FLIGHT)) (ts_heap s d) else ts_heap s d))"
proof -
  from inv q obtain x where e: "ts_heap s e = Some x" "e \<notin> set (ts_pf_bios s)" "queued (te_state x)"
    by (rule inv_queue_headE)
  define y where "y = (if due mtj now s e then x\<lparr>te_state := IN_FLIGHT\<rparr> else x)"
  have y: "y = (if te_state x = IN_MEMORY \<and>
      time_after now (te_time x + mtj (to_int32 (ts_quarantine_time s * 1000)))
    then x\<lparr>te_state := IN_FLIGHT\<rparr> else x)" using e(1) by (simp add: y_def due_def)
  have fl: "te_state y = IN_FLIGHT \<longleftrightarrow> due mtj now s e" using e(3) by (auto simp: y_def queued_def)
  from discharge_pick_result [where mtj = mtj and now = now, OF inv free q e(1,3) y] obtain s1 where
    s1: "discharge_pick mtj now s = Inr s1" "moves e y s s1"
    "ts_quarantine s1 = q @ (if due mtj now s e then [] else [e])"
    "ts_quarantine_time s1 = ts_quarantine_time s"
    "ts_submitting s1 = (if due mtj now s e then Some e else None)" "ts_bios s1 = ts_bios s"
    using fl by auto
  have "tswap_inv s1" using discharge_pick_inv [OF inv free, of mtj now] s1(1) by auto
  from discharge_submit_inv [OF this, of True] obtain s2 where
    s2: "discharge_submit True s1 = Inr s2" "tswap_inv s2" by blast
  have heap: "ts_heap s1 = (ts_heap s)(e \<mapsto> y)" using s1(2) by (simp add: moves_def)
  have "ts_heap s2 = ts_heap s1 \<and> ts_quarantine s2 = ts_quarantine s1 \<and>
      ts_quarantine_time s2 = ts_quarantine_time s1 \<and> ts_submitting s2 = None \<and>
      ts_bios s2 = (if due mtj now s e then e # ts_bios s else ts_bios s)"
    using s2(1) s1(5,6) by (auto simp: discharge_submit_def Let_def split: if_splits)
  with s1 s2 heap e(1) show ?thesis by (auto simp: y_def)
qed

lemma scan_result:
  "\<lbrakk>tswap_inv s; ts_submitting s = None; ts_quarantine s = xs @ ys; length xs = n\<rbrakk> \<Longrightarrow>
   \<exists>s'. discharge_scan mtj now (\<lambda>_. True) n s = Inr s' \<and> tswap_inv s' \<and>
     ts_quarantine s' = ys @ filter (\<lambda>e. \<not> due mtj now s e) xs \<and>
     ts_bios s' = rev (filter (due mtj now s) xs) @ ts_bios s \<and>
     (\<forall>e. ts_heap s' e = (if e \<in> set xs \<and> due mtj now s e
        then map_option (te_state_update (\<lambda>_. IN_FLIGHT)) (ts_heap s e) else ts_heap s e))"
proof (induction n arbitrary: s xs ys)
  case 0
  then show ?case by simp
next
  case (Suc n)
  then obtain e zs where xs: "xs = e # zs" "length zs = n" by (cases xs) auto
  with Suc.prems have q: "ts_quarantine s = e # (zs @ ys)" by simp
  have ez: "e \<notin> set zs" using inv_distinct(1) [OF Suc.prems(1)] q by auto
  from pick_submit [OF Suc.prems(1,2) q, of mtj now] obtain s1 s2 where
    s: "discharge_pick mtj now s = Inr s1" "discharge_submit True s1 = Inr s2" "tswap_inv s2"
    "ts_submitting s2 = None" "ts_quarantine_time s2 = ts_quarantine_time s"
    "ts_quarantine s2 = (zs @ ys) @ (if due mtj now s e then [] else [e])"
    "ts_bios s2 = (if due mtj now s e then e # ts_bios s else ts_bios s)"
    "\<forall>d. ts_heap s2 d = (if d = e \<and> due mtj now s e
       then map_option (te_state_update (\<lambda>_. IN_FLIGHT)) (ts_heap s d) else ts_heap s d)"
    by blast
  have due: "due mtj now s2 d = due mtj now s d" if "d \<noteq> e" for d
    using that s(5,8) by (simp add: due_def split: option.splits)
  then have f: "filter (due mtj now s2) zs = filter (due mtj now s) zs"
    "filter (\<lambda>d. \<not> due mtj now s2 d) zs = filter (\<lambda>d. \<not> due mtj now s d) zs"
    using ez by (intro filter_cong refl; metis)+
  have "ts_quarantine s2 = zs @ (ys @ (if due mtj now s e then [] else [e]))" using s(6) by simp
  from Suc.IH [OF s(3,4) this xs(2)] obtain s' where
    s': "discharge_scan mtj now (\<lambda>_. True) n s2 = Inr s'" "tswap_inv s'"
    "ts_quarantine s' = (ys @ (if due mtj now s e then [] else [e])) @
       filter (\<lambda>d. \<not> due mtj now s d) zs"
    "ts_bios s' = rev (filter (due mtj now s) zs) @ ts_bios s2"
    and heap: "\<And>d. ts_heap s' d = (if d \<in> set zs \<and> due mtj now s2 d
        then map_option (te_state_update (\<lambda>_. IN_FLIGHT)) (ts_heap s2 d) else ts_heap s2 d)"
    unfolding f by blast
  have "ts_heap s' d = (if d \<in> set xs \<and> due mtj now s d
        then map_option (te_state_update (\<lambda>_. IN_FLIGHT)) (ts_heap s d) else ts_heap s d)" for d
    using heap [of d] s(8) ez due [of d] xs(1) by (cases "d = e") auto
  with s' s(1,2,7) q xs(1) show ?case by auto
qed

section \<open>Properties\<close>


text \<open>
  C3. In every reachable state the radix trees, the heap, the quarantine list, the
  outstanding requests and the counters agree: a live entry is valid and owns its page, it
  is in exactly one place of one tree unless its prefetch read is outstanding, it is in the
  quarantine list exactly when it may be discharged, it has a write request exactly when it
  is in flight or a zombie, and the counters count the entries in each state.
\<close>

theorem reachable_inv: "tswap_reachable s \<Longrightarrow> tswap_inv s"
  by (rule tsw.reach_inv)

text \<open>
  C4. No operation of the module has undefined behaviour in any interleaving: in every
  reachable state each of them returns, without a use after free, a double free, a null
  pointer or a \<^verbatim>\<open>BUG()\<close>.
\<close>

theorem no_undefined_behaviour:
  assumes "tswap_reachable s"
  shows "(\<exists>r. tswap_frontswap_store env now ty off pg s = Inr r) \<and>
    (\<exists>r. tswap_frontswap_load lenv ty off s = Inr r) \<and>
    (\<exists>r. tswap_frontswap_invalidate_page ty off s = Inr r) \<and>
    (ts_roots s ty \<noteq> None \<longrightarrow> (\<exists>r. invalidate_area_begin ty s = Inr r)) \<and>
    (\<forall>r t. ts_trees s r = Some t \<longrightarrow> t off \<noteq> None \<longrightarrow> (\<exists>s'. invalidate_area_round r off s = Inr s')) \<and>
    (ts_submitting s = None \<longrightarrow> (\<exists>r. discharge_pick mtj now s = Inr r)) \<and>
    (\<exists>r. discharge_submit bio_ok s = Inr r) \<and>
    (e \<in> set (ts_bios s) \<longrightarrow> (\<exists>r. discharge_async_io_end e err wr s = Inr r)) \<and>
    (\<exists>r. prefetch_iter fmap penv s = Inr r) \<and>
    (e \<in> set (ts_pf_bios s) \<longrightarrow>
      (\<exists>r. prefetch_async_io_end grace now lf nomem e err wr s = Inr r))"
proof -
  have inv: "tswap_inv s" using assms by (rule tsw.reach_inv)
  show ?thesis
    using store_inv [OF inv] load_inv [OF inv] invalidate_page_inv [OF inv]
      invalidate_area_begin_inv [OF inv] invalidate_area_round_inv [OF inv]
      discharge_pick_inv [OF inv] discharge_submit_inv [OF inv] discharge_end_inv [OF inv]
      prefetch_iter_inv [OF inv] prefetch_end_inv [OF inv]
    by (intro conjI impI allI) (blast | metis option.exhaust)+
qed

lemma counters_pages:
  assumes inv: "tswap_inv s"
  shows "ts_pages s = nr_zombie_page (ts_stat s) + nr_in_memory_page (ts_stat s) +
      nr_in_memory_zombie_page (ts_stat s) + nr_in_flight_page (ts_stat s) \<and>
    ts_pages s = int (card (dom (ts_heap s))) \<and>
    len_quarantine_list (ts_stat s) = int (length (ts_quarantine s))"
proof -
  have valid: "te_state x \<noteq> INVALID" if "ts_heap s e = Some x" for e x
    using inv that by (auto simp: tswap_inv_def inv_core_def inv_entry_def)
  let ?c = "\<lambda>P. mcount P (ts_heap s)"
  have "?c (\<lambda>_. True) = ?c (\<lambda>x. te_state x = ZOMBIE \<or> te_state x = IN_MEMORY \<or>
      te_state x = IN_MEMORY_FOLLOWED_BY_ZOMBIE \<or> te_state x = IN_FLIGHT)"
    by (rule mcount_cong) (use valid tswap_entry_state.exhaust in blast)
  also have "\<dots> = ?c (\<lambda>x. te_state x = ZOMBIE) + (?c (\<lambda>x. te_state x = IN_MEMORY) +
      (?c (\<lambda>x. te_state x = IN_MEMORY_FOLLOWED_BY_ZOMBIE) + ?c (\<lambda>x. te_state x = IN_FLIGHT)))"
    using inv_finite [OF inv] by (simp add: mcount_or)
  finally show ?thesis
    using inv_counters [OF inv] by (simp add: counters_def mcount_dom)
qed

text \<open>
  C14. The four counters that \<^verbatim>\<open>/sys/kernel/tswap/stat\<close> shows for the states of an entry add
  up to the page buffers that are allocated, and to the entries that are alive: the memory
  the harvester reads there is the memory the module holds, and nothing leaks.
\<close>

theorem counters_account_for_memory:
  assumes "tswap_reachable s"
  shows "ts_pages s = nr_zombie_page (ts_stat s) + nr_in_memory_page (ts_stat s) +
      nr_in_memory_zombie_page (ts_stat s) + nr_in_flight_page (ts_stat s) \<and>
    ts_pages s = int (card (dom (ts_heap s))) \<and>
    len_quarantine_list (ts_stat s) = int (length (ts_quarantine s))"
  by (rule counters_pages [OF tsw.reach_inv [OF assms]])

text \<open>
  C15. The discharge thread makes progress: a pass over the quarantine list, when requests
  can be allocated and nothing else runs, hands exactly the pages in memory whose quarantine
  time is over to the block layer, in flight and oldest first, and leaves every other entry
  of the list in place, in order and unchanged.
\<close>

theorem discharge_pass_result:
  assumes "tswap_inv s" "ts_submitting s = None"
  shows "\<exists>s'. discharge_pass mtj now (\<lambda>_. True) s = Inr s' \<and> tswap_inv s' \<and>
    ts_quarantine s' = filter (\<lambda>e. \<not> due mtj now s e) (ts_quarantine s) \<and>
    ts_bios s' = rev (filter (due mtj now s) (ts_quarantine s)) @ ts_bios s \<and>
    (\<forall>e. ts_heap s' e = (if e \<in> set (ts_quarantine s) \<and> due mtj now s e
       then map_option (te_state_update (\<lambda>_. IN_FLIGHT)) (ts_heap s e) else ts_heap s e))"
proof -
  have "nat (len_quarantine_list (ts_stat s)) = length (ts_quarantine s)"
    using inv_counters [OF assms(1)] by (simp add: counters_def)
  with scan_result [OF assms, of "ts_quarantine s" "[]" _ mtj now] show ?thesis
    by (simp add: discharge_pass_def)
qed


text \<open>
  A store to an occupied slot succeeds whenever the page can be mapped: the entry is
  reused, holds the new page and the new time, moves to the end of the quarantine list, and
  is followed by a zombie exactly when a write of its old contents is still outstanding.
  No memory is allocated and the device is not touched.
\<close>

theorem overwrite_store_result:
  assumes "tswap_inv s" "slot s ty off = Some e" "ts_heap s e = Some x"
    and "se_kmap_ok env" "\<not> se_thp env"
  shows "\<exists>s'. tswap_frontswap_store env now ty off pg s = Inr (0, s') \<and>
    ts_heap s' = (ts_heap s)(e \<mapsto> x\<lparr>te_data := Some pg, te_time := now, te_state :=
      (if e \<in> set (disch s) then IN_MEMORY_FOLLOWED_BY_ZOMBIE else IN_MEMORY)\<rparr>) \<and>
    ts_trees s' = ts_trees s \<and> ts_quarantine s' = remove1 e (ts_quarantine s) @ [e] \<and>
    disch s' = disch s \<and> ts_disk s' = ts_disk s \<and> ts_pages s' = ts_pages s"
proof -
  let ?s = "s\<lparr>ts_stat := nr_store_update (\<lambda>n. n + 1) (ts_stat s),
    ts_ring := ring_push \<lparr>pf_type = ty, pf_offset = off\<rparr> (ts_ring s)\<rparr>"
  have inv: "tswap_inv ?s"
    using assms(1) by (simp add: tswap_inv_def counters_def pring.invar_push)
  from assms(1,2) have pf: "e \<notin> set (ts_pf_bios s)" by (rule slot_entryE)
  with assms(1,3) have valid: "te_state x \<noteq> INVALID" by (rule live_entryE)
  have io: "stored_state (te_state x) =
      (if e \<in> set (disch s) then IN_MEMORY_FOLLOWED_BY_ZOMBIE else IN_MEMORY)"
    using inv_in_disch [OF assms(1,3)] valid
    by (cases "te_state x") (simp_all add: stored_state_def)
  have "ts_heap ?s e = Some x" "e \<notin> set (ts_pf_bios ?s)" using assms(3) pf by simp_all
  from store_locked_prev_ok [OF inv this assms(4), of now pg] obtain s' where
    st: "store_locked env now True e pg ?s = Inr (0, s')"
    and mv: "moves e (x\<lparr>te_data := Some pg, te_time := now, te_state := stored_state (te_state x)\<rparr>) ?s s'"
    and rest: "ts_quarantine s' = remove1 e (ts_quarantine s) @ [e]" "disch s' = disch ?s"
      "ts_disk s' = ts_disk s" by auto
  have heap: "ts_heap s' = (ts_heap s)(e \<mapsto>
      x\<lparr>te_data := Some pg, te_time := now, te_state := stored_state (te_state x)\<rparr>)"
    using mv by (simp add: moves_def)
  have "ts_pages s' = ts_pages s"
    using mv assms(3) inv_counters [OF assms(1)] inv_finite [OF assms(1)]
    by (simp add: moves_def counters_def mcount_upd)
  moreover have "tswap_frontswap_store env now ty off pg s = Inr (0, s')"
    using lookup_slot [OF inv, of ty off] assms(2,5) st
    by (simp add: tswap_frontswap_store_def Let_def)
  ultimately show ?thesis using mv rest heap io by (auto simp: moves_def)
qed

text \<open>
  C32. Reclaiming an area makes progress: a round on an entry of the tree either removes it
  and frees its page, or leaves a zombie whose write request is outstanding, so that the
  loop only waits for the block layer.
\<close>

theorem invalidate_area_progress:
  assumes "tswap_inv s" "ts_trees s r = Some t" "t off = Some e"
  shows "\<exists>s'. invalidate_area_round r off s = Inr s' \<and>
    (if e \<in> set (disch s)
     then (\<exists>x. ts_heap s' e = Some x \<and> te_state x = ZOMBIE) \<and> e \<in> set (disch s') \<and>
       ts_trees s' = ts_trees s
     else ts_heap s' = (ts_heap s)(e := None) \<and> ts_trees s' = (ts_trees s)(r \<mapsto> t(off := None)) \<and>
       ts_pages s' = ts_pages s - 1)"
proof -
  from inv_treeE [OF inv_coreD(2) [OF inv_core_of [OF assms(1)]] assms(2,3)]
  obtain x where x: "ts_heap s e = Some x" "e \<notin> set (ts_pf_bios s)" "te_root x = Some r"
    "te_offset x = off" by blast
  from assms(1) x(1,2) have valid: "te_state x \<noteq> INVALID" by (rule live_entryE)
  note io = inv_in_disch [OF assms(1) x(1)] and q = inv_in_queue [OF assms(1) x(1,2)]
  have round: "invalidate_area_round r off s = invalidate_and_drop e s"
    using valid x assms by (simp add: invalidate_area_round_def)
  consider "te_state x = ZOMBIE" | "te_state x = IN_MEMORY"
    | "te_state x = IN_MEMORY_FOLLOWED_BY_ZOMBIE \<or> te_state x = IN_FLIGHT"
    using valid by (cases "te_state x") auto
  then show ?thesis
  proof cases
    case 1
    with round io q x show ?thesis by (simp add: invalidate_and_drop_zombie)
  next
    case 2
    from invalidate_and_drop_in_memory [OF assms(1) x(1,2) 2 x(3) assms(2)] obtain s' where
      s': "invalidate_and_drop e s = Inr s'" "drops e r t (te_offset x) s s'" by blast
    have "ts_pages s' = ts_pages s - 1"
      using s'(2) x(1) inv_counters [OF assms(1)] inv_finite [OF assms(1)]
      by (simp add: drops_def counters_def mcount_int_del)
    with s' round io 2 x(4) show ?thesis by (simp add: drops_def)
  next
    case 3
    from invalidate_and_drop_in_io [OF assms(1) x(1,2) 3] obtain s' where
      "invalidate_and_drop e s = Inr s'" "moves e (x\<lparr>te_state := ZOMBIE\<rparr>) s s'" "disch s' = disch s"
      by blast
    with round io 3 show ?thesis by (auto simp: moves_def)
  qed
qed

text \<open>
  C31. When a prefetch read ends well, its page enters the tree and the quarantine list if the
  slot of a published area is empty at that moment, whatever happened to the slot since the
  read was issued; otherwise (the read failed, the slot is taken, the tree is locked or has
  no memory, the area is gone) its page and its entry are freed and nothing else changes.
\<close>

theorem prefetch_end_result:
  assumes "tswap_inv s" "e \<in> set (ts_pf_bios s)" "ts_heap s e = Some x"
  shows "\<exists>s'. prefetch_async_io_end grace now lf nomem e err data s = Inr s' \<and>
    (if 0 \<le> err \<and> lf \<and> \<not> nomem \<and> ts_roots s (te_type x) \<noteq> None \<and>
        slot s (te_type x) (te_offset x) = None
     then slot s' (te_type x) (te_offset x) = Some e \<and> ts_quarantine s' = ts_quarantine s @ [e] \<and>
       ts_heap s' = (ts_heap s)(e \<mapsto> x\<lparr>te_root := ts_roots s (te_type x), te_time := now + grace,
         te_data := Some data\<rparr>)
     else ts_heap s' = (ts_heap s)(e := None) \<and> ts_trees s' = ts_trees s \<and>
       ts_quarantine s' = ts_quarantine s \<and> ts_pages s' = ts_pages s - 1)"
proof -
  from assms obtain d where d: "te_data x = Some d"
    by (fastforce simp: tswap_inv_def inv_core_def inv_entry_def)
  have q: "e \<notin> set (ts_quarantine s)"
    using assms(1,2) by (auto simp: tswap_inv_def inv_core_def inv_queue_def)
  note defs = prefetch_async_io_end_def prefetch_invalidate_def atomic_entry_insert_def
    atomic_entry_quarantine_def heap_op_defs slot_def Let_def
  show ?thesis
  proof (cases "ts_roots s (te_type x)")
    case None
    with assms d show ?thesis by (auto simp: defs)
  next
    case (Some r)
    then obtain t where "ts_trees s r = Some t"
      using inv_coreD(1) [OF inv_core_of [OF assms(1)]] unfolding inv_heap_def by blast
    with Some assms d q show ?thesis by (auto simp: defs)
  qed
qed

text \<open>
  The prefetch ring remembers the most recent slots: after storing the slots \<open>xs\<close> to a
  fresh ring, taking \<open>n\<close> of them back returns the last ones, newest first, of the at most
  \<^verbatim>\<open>PREFETCH_BUFFER_SIZE - 1\<close> that fit.
\<close>

theorem prefetch_ring_newest_first:
  "fst (drain ring_pop n (fold ring_push xs (ring_init garbage))) =
     take n (rev (drop (length xs - (PREFETCH_BUFFER_SIZE - 1)) xs))"
proof -
  have f: "ring_inv (fold ring_push xs (ring_init garbage)) \<and>
      ring_list (fold ring_push xs (ring_init garbage)) =
        drop (length xs - (PREFETCH_BUFFER_SIZE - 1)) xs"
    using pring.fold_push_contents [OF ring_init_inv(1), of xs garbage]
    unfolding ring_init_inv(2) by simp
  obtain ys r where d: "drain ring_pop n (fold ring_push xs (ring_init garbage)) = (ys, r)"
    by force
  have "ys = take n (rev (ring_list (fold ring_push xs (ring_init garbage))))"
    using pring.drain_contents [OF conjunct1 [OF f] d] by blast
  then show ?thesis unfolding d fst_conv conjunct2 [OF f] .
qed


text \<open>
  Writing a nonnegative number of seconds to \<^verbatim>\<open>/sys/kernel/tswap/quarantine_time\<close> sets the
  quarantine time to it exactly when it fits in an \<^verbatim>\<open>int\<close>; the handler guards against
  negative values, and yet the number \<^verbatim>\<open>2147483648\<close> makes the time negative.
\<close>

theorem quarantine_time_truncated:
  "(\<forall>n \<ge> 0. \<exists>s'. tswap_quarantine_time_store (Some n) count s = Inr (count, s') \<and>
      (ts_quarantine_time s' = n \<longleftrightarrow> n < 2 ^ 31)) \<and>
   tswap_quarantine_time_store (Some (2 ^ 31)) count s =
     Inr (count, s\<lparr>ts_quarantine_time := - (2 ^ 31)\<rparr>)"
proof -
  have "to_int32 n = n \<longleftrightarrow> n < 2 ^ 31" if "0 \<le> n" for n
    using that to_int32_id [of n] is_int32_to_int32 [of n] by (auto simp: is_int32_def)
  then show ?thesis by (simp add: tswap_quarantine_time_store_def to_int32_def)
qed

end
