(* ===== verification/Tswap_Witness.thy ===== *)
theory Tswap_Witness
  imports Tswap_Props
begin

text \<open>
  A concrete execution of tswap, evaluated step by step: an area is initialised, a page is
  stored in slot 5 of area 0, the discharge thread puts it in flight and submits it, the
  write ends, and the page is loaded back from the device. Its states witness that the
  hypotheses of the properties are satisfiable.
\<close>

definition w_env :: store_env where
  "w_env = \<lparr>se_thp = False, se_entry_ok = True, se_data_ok = True, se_kmap_ok = True,
     se_nomem = False\<rparr>"

definition w_lenv :: load_env where
  "w_lenv = \<lparr>le_kmap_ok = True, le_bio_ok = True, le_io = 0\<rparr>"

definition w_penv :: prefetch_env where
  "w_penv = \<lparr>pe_entry_ok = True, pe_data_ok = True, pe_bio_ok = True\<rparr>"

definition w_init :: tswap where
  "w_init = tswap_init_state (\<lambda>_. \<lparr>pf_type = 0, pf_offset = 0\<rparr>) (\<lambda>_ _. [])"

definition w_area :: tswap where "w_area = tswap_frontswap_init True 0 w_init"

definition w_page :: page where "w_page = [7]"

text \<open>The entry of the stored page has address 1, the root of its tree address 0.\<close>

definition w_entry :: "tswap_entry_state \<Rightarrow> tswap_entry" where
  "w_entry st = \<lparr>te_state = st, te_type = 0, te_offset = 5, te_root = Some 0, te_time = 0,
     te_data = Some w_page\<rparr>"

definition w_stored :: tswap where
  "w_stored = snd (projr (tswap_frontswap_store w_env 0 0 5 w_page w_area))"

definition w_picked :: tswap where
  "w_picked = projr (discharge_pick (\<lambda>_. 0) 1 w_stored)"

definition w_flying :: tswap where "w_flying = projr (discharge_submit True w_picked)"

definition w_written :: tswap where
  "w_written = projr (discharge_async_io_end 1 0 w_page w_flying)"


definition w_prefetched :: tswap where
  "w_prefetched = snd (projr (prefetch_iter (\<lambda>_ _. True) w_penv w_written))"



lemmas w_defs = w_env_def w_lenv_def w_penv_def w_init_def w_area_def w_page_def w_entry_def
  tswap_init_state_def tswap_frontswap_init_def init_stat_def new_entry_def

lemma w_area_inv: "tswap_inv w_area"
  by (simp add: w_area_def w_init_def init_state_inv frontswap_init_inv)

lemma w_store_step: "tswap_frontswap_store w_env 0 0 5 w_page w_area = Inr (0, w_stored)"
  by (simp add: w_stored_def w_defs tswap_frontswap_store_def atomic_entry_lookup_lock_def
      alloc_entry_def store_defs heap_op_defs invalidate_entry_struct_def Let_def
      atomic_entry_insert_def)

lemma w_stored_heap:
  "ts_heap w_stored = [1 \<mapsto> w_entry IN_MEMORY]" "ts_quarantine w_stored = [1]"
  "ts_roots w_stored = [0 \<mapsto> 0]" "ts_trees w_stored = [0 \<mapsto> [5 \<mapsto> 1]]"
  "ts_submitting w_stored = None" "ts_bios w_stored = []" "ts_next w_stored = 2"
  "ts_pf_bios w_stored = []"
  by (auto simp: w_stored_def w_defs tswap_frontswap_store_def atomic_entry_lookup_lock_def
      alloc_entry_def store_defs heap_op_defs invalidate_entry_struct_def Let_def
      atomic_entry_insert_def atomic_entry_quarantine_def fun_eq_iff)

lemma w_stored_inv: "tswap_inv w_stored"
  using store_inv [OF w_area_inv, of w_env 0 0 5 w_page] w_store_step by auto

lemma w_pick_step: "discharge_pick (\<lambda>_. 0) 1 w_stored = Inr w_picked"
  using discharge_pick_inv [OF w_stored_inv w_stored_heap(5), of "\<lambda>_. 0" 1]
  by (auto simp: w_picked_def)

lemma w_picked_heap:
  "ts_heap w_picked = [1 \<mapsto> w_entry IN_FLIGHT]" "ts_submitting w_picked = Some 1"
  "ts_bios w_picked = []" "ts_quarantine w_picked = []" "ts_roots w_picked = [0 \<mapsto> 0]"
  "ts_trees w_picked = [0 \<mapsto> [5 \<mapsto> 1]]" "ts_next w_picked = 2" "ts_pf_bios w_picked = []"
  by (simp_all add: w_picked_def discharge_pick_def w_stored_heap w_entry_def time_after_def Let_def)

lemma w_picked_inv: "tswap_inv w_picked"
  using discharge_pick_inv [OF w_stored_inv w_stored_heap(5), of "\<lambda>_. 0" 1] w_pick_step by auto

lemma w_submit_step: "discharge_submit True w_picked = Inr w_flying"
  by (simp add: w_flying_def discharge_submit_def w_picked_heap Let_def)

lemma w_flying_heap:
  "ts_heap w_flying = [1 \<mapsto> w_entry IN_FLIGHT]" "ts_submitting w_flying = None"
  "ts_bios w_flying = [1]" "ts_quarantine w_flying = []" "ts_roots w_flying = [0 \<mapsto> 0]"
  "ts_trees w_flying = [0 \<mapsto> [5 \<mapsto> 1]]" "ts_next w_flying = 2" "ts_pf_bios w_flying = []"
  by (simp_all add: w_flying_def discharge_submit_def w_picked_heap Let_def)

lemma w_flying_inv: "tswap_inv w_flying"
  using discharge_submit_inv [OF w_picked_inv, of True] w_submit_step by auto

lemma w_end_step: "discharge_async_io_end 1 0 w_page w_flying = Inr w_written"
  using discharge_end_inv [OF w_flying_inv, of 1 0 w_page] by (auto simp: w_written_def w_flying_heap)

lemma w_written_heap:
  "ts_heap w_written = Map.empty" "ts_roots w_written = [0 \<mapsto> 0]"
  "ts_trees w_written = [0 \<mapsto> Map.empty]" "ts_disk w_written 0 5 = w_page" "ts_next w_written = 2"
  "ts_pf_bios w_written = []"
  by (simp_all add: w_written_def discharge_async_io_end_def w_flying_heap w_entry_def heap_op_defs
      Let_def)

lemma w_written_inv: "tswap_inv w_written"
  using discharge_end_inv [OF w_flying_inv, of 1 0 w_page] w_end_step by (auto simp: w_flying_heap)



lemma w_reach: "tswap_reachable w_area" "tswap_reachable w_stored" "tswap_reachable w_picked"
  "tswap_reachable w_flying"
proof -
  have "tswap_reachable w_init"
    by (rule reach_init) (auto simp: tswap_initial_def w_init_def)
  then show 1: "tswap_reachable w_area"
    unfolding w_area_def by (rule reach_step) (rule ts_init_step)
  then show 2: "tswap_reachable w_stored"
    by (rule reach_step) (rule ts_store_step [OF w_store_step])
  then show 3: "tswap_reachable w_picked"
    by (rule reach_step) (rule ts_pick_step [OF w_stored_heap(5) w_pick_step])
  then show "tswap_reachable w_flying"
    by (rule reach_step) (rule ts_submit_step [OF w_submit_step])
qed





text \<open>Instead of the load, slot 5 is prefetched.\<close>

lemma w_written_ring: "ts_ring w_written = ring_push \<lparr>pf_type = 0, pf_offset = 5\<rparr>
    (ring_init (\<lambda>_. \<lparr>pf_type = 0, pf_offset = 0\<rparr>))"
proof -
  have "ts_ring w_stored = ring_push \<lparr>pf_type = 0, pf_offset = 5\<rparr>
      (ring_init (\<lambda>_. \<lparr>pf_type = 0, pf_offset = 0\<rparr>))"
    by (simp add: w_stored_def w_defs tswap_frontswap_store_def atomic_entry_lookup_lock_def
      alloc_entry_def store_defs heap_op_defs invalidate_entry_struct_def Let_def
      atomic_entry_insert_def atomic_entry_quarantine_def)
  moreover have "ts_ring w_picked = ts_ring w_stored"
    by (simp add: w_picked_def discharge_pick_def w_stored_heap w_entry_def time_after_def Let_def)
  moreover have "ts_ring w_flying = ts_ring w_picked"
    by (simp add: w_flying_def discharge_submit_def w_picked_heap Let_def)
  moreover have "ts_ring w_written = ts_ring w_flying"
    by (simp add: w_written_def discharge_async_io_end_def w_flying_heap w_entry_def heap_op_defs
      Let_def)
  ultimately show ?thesis by simp
qed

lemma w_prefetched:
  "tswap_inv w_prefetched" "ts_pf_bios w_prefetched = [2]"
  "ts_heap w_prefetched = [2 \<mapsto> new_entry 0 5 IN_MEMORY (Some [])]"
  "ts_roots w_prefetched = [0 \<mapsto> 0]" "ts_trees w_prefetched = [0 \<mapsto> Map.empty]"
proof -
  from pring.pop_push [OF ring_init_inv(1), of "\<lparr>pf_type = 0, pf_offset = 5\<rparr>"
      "\<lambda>_. \<lparr>pf_type = 0, pf_offset = 0\<rparr>"] obtain r where
    r: "ring_pop (ts_ring w_written) = Some (\<lparr>pf_type = 0, pf_offset = 5\<rparr>, r)"
    unfolding w_written_ring by blast
  note eval = w_prefetched_def prefetch_iter_def r w_written_heap atomic_entry_lookup_lock_def
    w_penv_def alloc_entry_def prefetch_async_io_def Let_def
  show "tswap_inv w_prefetched"
    using prefetch_iter_inv [OF w_written_inv, of "\<lambda>_ _. True" w_penv]
    by (auto simp: w_prefetched_def)
  show "ts_pf_bios w_prefetched = [2]"
    "ts_heap w_prefetched = [2 \<mapsto> new_entry 0 5 IN_MEMORY (Some [])]"
    "ts_roots w_prefetched = [0 \<mapsto> 0]" "ts_trees w_prefetched = [0 \<mapsto> Map.empty]"
    by (simp_all add: eval)
qed

section \<open>Witnesses\<close>


theorem reachable_inv_witness: "tswap_reachable w_flying \<and> tswap_inv w_flying"
  using reachable_inv [OF w_reach(4)] w_reach(4) by simp

theorem no_undefined_behaviour_witness:
  "tswap_reachable w_flying \<and> (\<exists>r. discharge_async_io_end 1 0 w_page w_flying = Inr r)"
  using no_undefined_behaviour [OF w_reach(4), where e = 1 and err = 0 and wr = w_page]
    w_reach(4) by (simp add: w_flying_heap)

theorem counters_account_for_memory_witness:
  "tswap_reachable w_flying \<and> ts_pages w_flying = 1"
  using counters_account_for_memory [OF w_reach(4)] w_reach(4) by (simp add: w_flying_heap)

theorem discharge_pass_result_witness:
  "\<exists>s'. discharge_pass (\<lambda>_. 0) 1 (\<lambda>_. True) w_stored = Inr s' \<and> ts_quarantine s' = [] \<and>
     ts_bios s' = [1]"
  using discharge_pass_result [OF w_stored_inv w_stored_heap(5), of "\<lambda>_. 0" 1]
  by (auto simp: w_stored_heap due_def w_entry_def time_after_def)

theorem overwrite_store_result_witness:
  "\<exists>s'. tswap_frontswap_store w_env 3 0 5 [9] w_flying = Inr (0, s') \<and> ts_quarantine s' = [1] \<and>
     ts_heap s' 1 = Some (w_entry IN_MEMORY_FOLLOWED_BY_ZOMBIE\<lparr>te_data := Some [9], te_time := 3\<rparr>)"
proof -
  have "slot w_flying 0 5 = Some 1" "1 \<in> set (disch w_flying)"
    by (simp_all add: slot_def disch_def w_flying_heap)
  with overwrite_store_result [OF w_flying_inv, of 0 5 1 "w_entry IN_FLIGHT" w_env 3 "[9]"]
  show ?thesis by (auto simp: w_flying_heap w_env_def w_entry_def)
qed

theorem invalidate_area_progress_witness:
  "\<exists>s'. invalidate_area_round 0 5 w_flying = Inr s' \<and> 1 \<in> set (disch s')"
  using invalidate_area_progress [OF w_flying_inv, of 0 "[5 \<mapsto> 1]" 5 1]
  by (auto simp: w_flying_heap disch_def)


theorem prefetch_end_result_witness:
  "\<exists>s'. prefetch_async_io_end 0 0 True False 2 0 w_page w_prefetched = Inr s' \<and>
     slot s' 0 5 = Some 2"
  using prefetch_end_result [OF w_prefetched(1), of 2 "new_entry 0 5 IN_MEMORY (Some [])"
      0 0 True False 0 w_page]
  by (auto simp: w_prefetched slot_def new_entry_def)

theorem quarantine_time_truncated_witness:
  "\<exists>s'. tswap_quarantine_time_store (Some 60) 3 w_init = Inr (3, s') \<and> ts_quarantine_time s' = 60"
  using conjunct1 [OF quarantine_time_truncated [of 3 w_init], rule_format, of 60] by auto

end
