(* ===== verification/Slab_Bitmap.thy ===== *)
theory Slab_Bitmap
  imports Prelude
begin

text \<open>
  The slab bitmap of the coordinator (\<^verbatim>\<open>init_bitmap\<close>, \<^verbatim>\<open>set_bit\<close>, \<^verbatim>\<open>clear_bit\<close> and
  \<^verbatim>\<open>get_bit\<close> of \<^verbatim>\<open>src/framework/infiniswap_daemon/coordinator.c\<close>, \<^verbatim>\<open>align_up\<close> of
  \<^verbatim>\<open>utils.h\<close>): an array of 32-bit \<^verbatim>\<open>int\<close>s. An access outside the array is an error.
\<close>

unbundle bit_operations_syntax

section \<open>Definitions\<close>

type_synonym bitmap = "32 word list"

definition BITMAP_SHIFT :: nat where "BITMAP_SHIFT = 5"
definition BITMAP_MASK :: int where "BITMAP_MASK = 31"

text \<open>\<^verbatim>\<open>align_up\<close> on \<^verbatim>\<open>unsigned long\<close>, for an alignment that is a power of two.\<close>

definition align_up :: "64 word \<Rightarrow> 64 word \<Rightarrow> 64 word" where
  "align_up v a = (v + a - 1) AND NOT (a - 1)"

text \<open>
  The number of words, as the \<^verbatim>\<open>int\<close> that \<^verbatim>\<open>size\<close> is assigned. A negative one makes
  \<^verbatim>\<open>malloc\<close> fail and \<^verbatim>\<open>memset\<close> write through a null pointer.
\<close>

definition bitmap_words :: "int \<Rightarrow> int" where
  "bitmap_words nslabs =
     to_int32 (uint (drop_bit BITMAP_SHIFT (align_up (word_of_int nslabs) (2 ^ BITMAP_SHIFT))))"

definition init_bitmap :: "int \<Rightarrow> bitmap res" where
  "init_bitmap nslabs =
     (let n = bitmap_words nslabs in
      if n < 0 then Inl NullDeref else Inr (replicate (nat n) 0))"

text \<open>The word of a bit and the mask of a bit in its word.\<close>

definition word_index :: "int \<Rightarrow> int" where
  "word_index b = drop_bit BITMAP_SHIFT b"

definition bit_index :: "int \<Rightarrow> nat" where
  "bit_index b = nat (b AND BITMAP_MASK)"

definition bitmap_word :: "bitmap \<Rightarrow> int \<Rightarrow> 32 word res" where
  "bitmap_word bm b =
     (if in_bounds (length bm) (word_index b) then Inr (bm ! nat (word_index b))
      else Inl OutOfBounds)"

definition set_bit_c :: "bitmap \<Rightarrow> int \<Rightarrow> bitmap res" where
  "set_bit_c bm b = rbind (bitmap_word bm b) (\<lambda>w.
     Inr (bm[nat (word_index b) := w OR push_bit (bit_index b) 1]))"

definition clear_bit_c :: "bitmap \<Rightarrow> int \<Rightarrow> bitmap res" where
  "clear_bit_c bm b = rbind (bitmap_word bm b) (\<lambda>w.
     Inr (bm[nat (word_index b) := w AND push_bit (bit_index b) (NOT 1)]))"

definition get_bit_c :: "bitmap \<Rightarrow> int \<Rightarrow> bool res" where
  "get_bit_c bm b = rbind (bitmap_word bm b) (\<lambda>w.
     Inr (w AND push_bit (bit_index b) 1 \<noteq> 0))"

section \<open>Lemmas\<close>

lemma word_index_div: "word_index b = b div 32"
  by (simp add: word_index_def BITMAP_SHIFT_def drop_bit_eq_div)

lemma bit_index_mod: "bit_index b = nat (b mod 32)"
proof -
  have "b AND 31 = take_bit 5 b" by (simp add: take_bit_eq_mask mask_numeral)
  then show ?thesis by (simp add: bit_index_def BITMAP_MASK_def take_bit_eq_mod)
qed

lemma bit_index_less: "bit_index b < 32"
  by (simp add: bit_index_mod nat_less_iff)

text \<open>What the bitmap says about a bit: the specification of the four operations.\<close>

definition bm_bit :: "bitmap \<Rightarrow> int \<Rightarrow> bool" where
  "bm_bit bm b \<longleftrightarrow> bit (bm ! nat (b div 32)) (nat (b mod 32))"

definition bm_ok :: "bitmap \<Rightarrow> int \<Rightarrow> bool" where
  "bm_ok bm b \<longleftrightarrow> 0 \<le> b \<and> b < 32 * int (length bm)"

lemma bm_ok_in_bounds: "in_bounds (length bm) (b div 32) \<longleftrightarrow> bm_ok bm b"
  by (auto simp: in_bounds_def bm_ok_def)

lemma bit_push1: "n < 32 \<Longrightarrow> bit (2 ^ n :: 32 word) m \<longleftrightarrow> m = n"
  by (auto simp: bit_exp_iff possible_bit_def)

lemma and_push1: "n < 32 \<Longrightarrow> (w :: 32 word) AND 2 ^ n \<noteq> 0 \<longleftrightarrow> bit w n"
  by (simp add: and_exp_eq_0_iff_not_bit)

lemma get_bit_c_bm: "get_bit_c bm b = (if bm_ok bm b then Inr (bm_bit bm b) else Inl OutOfBounds)"
  using bit_index_less [of b]
  by (simp add: get_bit_c_def bitmap_word_def bm_ok_in_bounds and_push1 bm_bit_def word_index_div
      bit_index_mod)

lemma nat_div_bound: "bm_ok bm b \<Longrightarrow> nat (b div 32) < length bm"
  by (auto simp: bm_ok_def nat_less_iff)

lemma same_bit: "0 \<le> b \<Longrightarrow> 0 \<le> c \<Longrightarrow>
    nat (b div 32) = nat (c div 32) \<and> nat (b mod 32) = nat (c mod 32) \<longleftrightarrow> b = c"
  by (auto simp: nat_eq_iff pos_imp_zdiv_nonneg_iff) (metis div_mult_mod_eq)

lemma bm_bit_upd:
  assumes "bm_ok bm b" "bm_ok bm c"
  shows "bm_bit (bm[nat (b div 32) := w]) c =
    (if b div 32 = c div 32 then bit w (nat (c mod 32)) else bm_bit bm c)"
proof -
  have "nat (b div 32) = nat (c div 32) \<longleftrightarrow> b div 32 = c div 32"
    using assms by (simp add: bm_ok_def nat_eq_iff pos_imp_zdiv_nonneg_iff)
  with nat_div_bound [OF assms(1)] show ?thesis by (auto simp: bm_bit_def nth_list_update)
qed

lemma set_bit_c_bm:
  assumes "bm_ok bm b"
  obtains bm' where "set_bit_c bm b = Inr bm'" "length bm' = length bm"
    "\<And>c. bm_ok bm c \<Longrightarrow> bm_bit bm' c \<longleftrightarrow> c = b \<or> bm_bit bm c"
proof -
  let ?w = "bm ! nat (b div 32) OR push_bit (nat (b mod 32)) 1"
  have "set_bit_c bm b = Inr (bm[nat (b div 32) := ?w])"
    using assms by (simp add: set_bit_c_def bitmap_word_def bm_ok_in_bounds word_index_div bit_index_mod)
  moreover have "bm_bit (bm[nat (b div 32) := ?w]) c \<longleftrightarrow> c = b \<or> bm_bit bm c" if "bm_ok bm c" for c
  proof -
    have "nat (c mod 32) = nat (b mod 32) \<and> b div 32 = c div 32 \<longleftrightarrow> c = b"
      by (auto simp: nat_eq_iff) (metis div_mult_mod_eq)
    moreover have "nat (b mod 32) < 32" by (simp add: nat_less_iff)
    ultimately show ?thesis
      using bm_bit_upd [OF assms that, of ?w] by (auto simp: bit_or_iff bit_push1 bm_bit_def)
  qed
  ultimately show ?thesis using that by simp
qed

text \<open>
  \<^verbatim>\<open>~1 << n\<close> is \<^verbatim>\<open>(~1) << n\<close>: its low \<open>n + 1\<close> bits are zero, so that clearing a bit clears every
  lower bit of the same word too.
\<close>

lemma bit_push_not1:
  assumes "n < 32" "m < 32"
  shows "bit (push_bit n (NOT 1 :: 32 word)) m \<longleftrightarrow> n < m"
  using assms by (auto simp: bit_push_bit_iff bit_not_iff bit_1_iff)

lemma clear_bit_c_bm:
  assumes "bm_ok bm b"
  obtains bm' where "clear_bit_c bm b = Inr bm'" "length bm' = length bm"
    "\<And>c. bm_ok bm c \<Longrightarrow>
      bm_bit bm' c \<longleftrightarrow> bm_bit bm c \<and> \<not> (c div 32 = b div 32 \<and> c \<le> b)"
proof -
  let ?w = "bm ! nat (b div 32) AND push_bit (nat (b mod 32)) (NOT 1)"
  have "clear_bit_c bm b = Inr (bm[nat (b div 32) := ?w])"
    using assms by (simp add: clear_bit_c_def bitmap_word_def bm_ok_in_bounds word_index_div bit_index_mod)
  moreover have "bm_bit (bm[nat (b div 32) := ?w]) c \<longleftrightarrow>
      bm_bit bm c \<and> \<not> (c div 32 = b div 32 \<and> c \<le> b)" if "bm_ok bm c" for c
  proof -
    have r: "nat (b mod 32) < 32" "nat (c mod 32) < 32" by (simp_all add: nat_less_iff)
    have lt: "nat (b mod 32) < nat (c mod 32) \<longleftrightarrow> \<not> c \<le> b" if "c div 32 = b div 32"
    proof -
      have "b = b div 32 * 32 + b mod 32" "c = b div 32 * 32 + c mod 32"
        using that by (metis div_mult_mod_eq)+
      moreover have "nat (b mod 32) < nat (c mod 32) \<longleftrightarrow> b mod 32 < c mod 32"
        by (rule nat_less_eq_zless) simp
      ultimately show ?thesis by linarith
    qed
    show ?thesis
    proof (cases "c div 32 = b div 32")
      case True
      have "bit ?w (nat (c mod 32)) \<longleftrightarrow> bm_bit bm c \<and> \<not> c \<le> b"
        unfolding bit_and_iff bit_push_not1 [OF r] lt [OF True] bm_bit_def True ..
      with True bm_bit_upd [OF assms that, of ?w] show ?thesis by simp
    next
      case False
      with bm_bit_upd [OF assms that, of ?w] show ?thesis by simp
    qed
  qed
  ultimately show ?thesis using that by simp
qed

section \<open>Initialisation\<close>

lemma align_up_32: "align_up v 32 = (v + 31) AND NOT 31"
  by (simp add: align_up_def add.commute)

lemma bitmap_words_val:
  assumes "0 \<le> n" "n < 2 ^ 31"
  shows "bitmap_words n = (n + 31) div 32"
proof -
  have "uint (word_of_int n + 31 :: 64 word) = n + 31"
    using assms by (simp add: uint_word_of_int uint_word_ariths)
  moreover have "drop_bit 5 ((v :: 64 word) AND NOT 31) = drop_bit 5 v" for v
  proof -
    have "drop_bit 5 (v AND NOT (mask 5)) = drop_bit 5 v"
      by (rule bit_word_eqI)
        (auto simp: bit_drop_bit_eq bit_and_iff bit_not_iff bit_mask_iff dest: bit_imp_le_length)
    then show ?thesis by (simp add: mask_numeral)
  qed
  ultimately have "uint (drop_bit 5 (align_up (word_of_int n) 32)) = (n + 31) div 32"
    by (simp add: align_up_32 drop_bit_eq_div uint_div)
  moreover have "is_int32 ((n + 31) div 32)" using assms unfolding is_int32_def by simp presburger
  ultimately show ?thesis
    by (simp add: bitmap_words_def BITMAP_SHIFT_def to_int32_id)
qed

lemma init_bitmap_ok:
  assumes "0 \<le> n" "n < 2 ^ 31"
  obtains bm where "init_bitmap n = Inr bm" "n \<le> 32 * int (length bm)"
    "\<And>b. bm_ok bm b \<Longrightarrow> \<not> bm_bit bm b"
proof -
  have w: "0 \<le> (n + 31) div 32" using assms by simp
  then have "init_bitmap n = Inr (replicate (nat ((n + 31) div 32)) 0)"
    using bitmap_words_val [OF assms] by (simp add: init_bitmap_def Let_def)
  moreover have "n \<le> 32 * int (nat ((n + 31) div 32))" using w assms(1) by simp
  moreover have "\<not> bm_bit (replicate k 0) b" if "bm_ok (replicate k 0) b" for k b
    using nat_div_bound [OF that] by (simp add: bm_bit_def)
  ultimately show ?thesis using that [of "replicate (nat ((n + 31) div 32)) 0"] by simp
qed

end
