(* ===== verification/Node_List.thy ===== *)
theory Node_List
  imports Prelude
begin

text \<open>
  Doubly linked lists with two sentinels, as
  \<^verbatim>\<open>src/framework/infiniswap_daemon/coordinator.c\<close> uses them for its producers and its
  consumers: the nodes are in a heap, the first node follows the head sentinel and the last
  one is followed by the tail sentinel. A loop over a list has a bound on its rounds, and
  running over the bound is an error value.
\<close>

section \<open>Nodes and operations\<close>

record dnode =
  dn_item :: "nat option"
  dn_next :: "nat option"
  dn_prev :: "nat option"

type_synonym nodes = "nat \<rightharpoonup> dnode"

definition node_at :: "nodes \<Rightarrow> nat \<Rightarrow> dnode res" where
  "node_at h p = (case h p of None \<Rightarrow> Inl UseAfterFree | Some n \<Rightarrow> Inr n)"

definition ptr :: "nat option \<Rightarrow> nat res" where
  "ptr p = (case p of None \<Rightarrow> Inl NullDeref | Some a \<Rightarrow> Inr a)"

text \<open>\<^verbatim>\<open>producerlist_init\<close> and \<^verbatim>\<open>consumerlist_init\<close>.\<close>

definition dl_init :: "nat \<Rightarrow> nat \<Rightarrow> nodes \<Rightarrow> nodes" where
  "dl_init head tail h =
     h(head \<mapsto> \<lparr>dn_item = None, dn_next = Some tail, dn_prev = None\<rparr>,
       tail \<mapsto> \<lparr>dn_item = None, dn_next = None, dn_prev = Some head\<rparr>)"

text \<open>A new node \<open>new\<close> for \<open>item\<close> after the head sentinel.\<close>

definition dl_add :: "nat \<Rightarrow> nat \<Rightarrow> nat \<Rightarrow> nodes \<Rightarrow> nodes res" where
  "dl_add head new item h =
     rbind (node_at h head) (\<lambda>hd.
     rbind (ptr (dn_next hd)) (\<lambda>nx.
     rbind (node_at h nx) (\<lambda>n.
       let h1 = h(new \<mapsto> \<lparr>dn_item = Some item, dn_next = Some nx, dn_prev = Some head\<rparr>);
           h2 = h1(nx \<mapsto> n\<lparr>dn_prev := Some new\<rparr>) in
       rbind (node_at h2 head) (\<lambda>hd'. Inr (h2(head \<mapsto> hd'\<lparr>dn_next := Some new\<rparr>))))))"

text \<open>Unlinking a node, which must be neither sentinel, and freeing it.\<close>

definition dl_remove :: "nat \<Rightarrow> nat \<Rightarrow> nat \<Rightarrow> nodes \<Rightarrow> nodes res" where
  "dl_remove head tail p h =
     (if p = head \<or> p = tail then Inl AssertFail
      else
        rbind (node_at h p) (\<lambda>n.
        rbind (ptr (dn_prev n)) (\<lambda>pv.
        rbind (node_at h pv) (\<lambda>np.
          let h1 = h(pv \<mapsto> np\<lparr>dn_next := dn_next n\<rparr>) in
          rbind (ptr (dn_next n)) (\<lambda>nx.
          rbind (node_at h1 nx) (\<lambda>nn.
            let h2 = h1(nx \<mapsto> nn\<lparr>dn_prev := dn_prev n\<rparr>) in
            Inr (h2(p := None))))))))"

text \<open>
  The loops that look for the first node whose item satisfies \<open>P\<close>, from the node \<open>cur\<close> up to
  the tail sentinel; \<open>P\<close> may fail.
\<close>

fun dl_find :: "nat \<Rightarrow> (nat option \<Rightarrow> bool res) \<Rightarrow> nodes \<Rightarrow> nat \<Rightarrow> nat option \<Rightarrow> nat option res" where
  "dl_find 0 P h tail cur = Inl Diverges"
| "dl_find (Suc n) P h tail cur =
     (if cur = Some tail then Inr None
      else rbind (ptr cur) (\<lambda>p. rbind (node_at h p) (\<lambda>nd.
        rbind (P (dn_item nd)) (\<lambda>found.
          if found then Inr (Some p) else dl_find n P h tail (dn_next nd)))))"

section \<open>The list that a heap represents\<close>

fun dl_seg :: "nodes \<Rightarrow> nat \<Rightarrow> nat \<Rightarrow> (nat \<times> nat) list \<Rightarrow> nat \<Rightarrow> bool" where
  "dl_seg h pv p [] tail \<longleftrightarrow> p = tail \<and>
     h tail = Some \<lparr>dn_item = None, dn_next = None, dn_prev = Some pv\<rparr>"
| "dl_seg h pv p ((q, x) # xs) tail \<longleftrightarrow> p = q \<and>
     (\<exists>nx. h p = Some \<lparr>dn_item = Some x, dn_next = Some nx, dn_prev = Some pv\<rparr> \<and>
        dl_seg h p nx xs tail)"

definition dl_repr :: "nodes \<Rightarrow> nat \<Rightarrow> nat \<Rightarrow> (nat \<times> nat) list \<Rightarrow> bool" where
  "dl_repr h head tail xs \<longleftrightarrow> distinct (head # tail # map fst xs) \<and>
     (\<exists>p. h head = Some \<lparr>dn_item = None, dn_next = Some p, dn_prev = None\<rparr> \<and>
        dl_seg h head p xs tail)"

lemma dl_init_repr: "head \<noteq> tail \<Longrightarrow> dl_repr (dl_init head tail h) head tail []"
  by (auto simp: dl_repr_def dl_init_def)

text \<open>Nodes that are not in the list do not matter.\<close>

lemma dl_seg_frame:
  "a \<notin> set (map fst xs) \<Longrightarrow> a \<noteq> tail \<Longrightarrow> dl_seg (h(a := v)) pv p xs tail = dl_seg h pv p xs tail"
  by (induction h pv p xs tail rule: dl_seg.induct) auto

lemma dl_repr_frame:
  "a \<notin> set (head # tail # map fst xs) \<Longrightarrow> dl_repr (h(a := v)) head tail xs = dl_repr h head tail xs"
  by (auto simp: dl_repr_def dl_seg_frame)

lemma dl_seg_cong:
  "\<forall>a \<in> set (tail # map fst xs). h' a = h a \<Longrightarrow>
    dl_seg h' pv p xs tail = dl_seg h pv p xs tail"
proof (induction xs arbitrary: pv p)
  case (Cons y ys)
  have "dl_seg h' q r ys tail = dl_seg h q r ys tail" for q r
    by (rule Cons.IH) (use Cons.prems in auto)
  moreover have "h' (fst y) = h (fst y)" using Cons.prems by simp
  ultimately show ?case by (cases y; cases "p = fst y") simp_all
qed simp

lemma dl_repr_cong:
  assumes "\<forall>a \<in> set (head # tail # map fst xs). h' a = h a"
  shows "dl_repr h' head tail xs = dl_repr h head tail xs"
proof -
  have "dl_seg h' pv p xs tail = dl_seg h pv p xs tail" for pv p
    by (rule dl_seg_cong) (use assms in auto)
  moreover have "h' head = h head" using assms by simp
  ultimately show ?thesis by (simp add: dl_repr_def)
qed

lemma dl_repr_live:
  assumes "dl_repr h head tail xs" "a \<in> set (head # tail # map fst xs)"
  shows "h a \<noteq> None"
proof -
  have "dl_seg h pv p xs tail \<Longrightarrow> a \<in> set (map fst xs) \<or> a = tail \<Longrightarrow> h a \<noteq> None" for pv p
    by (induction h pv p xs tail rule: dl_seg.induct) auto
  with assms show ?thesis by (auto simp: dl_repr_def)
qed

text \<open>The first node and what it does to change the pointer back from it.\<close>

lemma dl_seg_first:
  "dl_seg h pv p xs tail \<Longrightarrow> distinct (tail # map fst xs) \<Longrightarrow>
    \<exists>n. h p = Some n \<and> dn_prev n = Some pv \<and>
      dl_seg (h(p \<mapsto> n\<lparr>dn_prev := Some pv'\<rparr>)) pv' p xs tail \<and> p \<in> set (tail # map fst xs)"
proof (cases xs)
  case Nil
  then show "dl_seg h pv p xs tail \<Longrightarrow> ?thesis" by auto
next
  case (Cons y ys)
  obtain q x where y: "y = (q, x)" by force
  assume "dl_seg h pv p xs tail" "distinct (tail # map fst xs)"
  with Cons y show ?thesis by (auto simp: dl_seg_frame)
qed

lemma dl_add_repr:
  assumes "dl_repr h head tail xs" "h new = None"
  shows "\<exists>h'. dl_add head new item h = Inr h' \<and> dl_repr h' head tail ((new, item) # xs) \<and>
    (\<forall>a. a \<notin> set (new # head # tail # map fst xs) \<longrightarrow> h' a = h a)"
proof -
  from assms obtain p where hd: "h head = Some \<lparr>dn_item = None, dn_next = Some p, dn_prev = None\<rparr>"
    and seg: "dl_seg h head p xs tail" and d: "distinct (head # tail # map fst xs)"
    by (auto simp: dl_repr_def)
  from dl_seg_first [OF seg, of new] d obtain n where
    n: "h p = Some n" "dl_seg (h(p \<mapsto> n\<lparr>dn_prev := Some new\<rparr>)) new p xs tail"
      "p \<in> set (tail # map fst xs)" by auto
  have new: "new \<notin> set (head # tail # map fst xs)" using dl_repr_live [OF assms(1)] assms(2) by blast
  with n d have ne: "p \<noteq> head" "p \<noteq> new" by auto
  let ?h = "h(new \<mapsto> \<lparr>dn_item = Some item, dn_next = Some p, dn_prev = Some head\<rparr>,
    p \<mapsto> n\<lparr>dn_prev := Some new\<rparr>,
    head \<mapsto> \<lparr>dn_item = None, dn_next = Some new, dn_prev = None\<rparr>)"
  have "dl_add head new item h = Inr ?h"
    using hd n ne new by (auto simp: dl_add_def node_at_def ptr_def Let_def)
  moreover have "dl_seg ?h new p xs tail"
  proof -
    have "?h = (h(p \<mapsto> n\<lparr>dn_prev := Some new\<rparr>))
        (new \<mapsto> \<lparr>dn_item = Some item, dn_next = Some p, dn_prev = Some head\<rparr>,
         head \<mapsto> \<lparr>dn_item = None, dn_next = Some new, dn_prev = None\<rparr>)"
      using ne by (simp add: fun_upd_twist)
    with n(2) new d show ?thesis by (simp add: dl_seg_frame)
  qed
  then have "dl_repr ?h head tail ((new, item) # xs)"
    using new d ne by (auto simp: dl_repr_def)
  moreover have "?h a = h a" if "a \<notin> set (new # head # tail # map fst xs)" for a
    using that n(3) by auto
  ultimately show ?thesis by blast
qed

text \<open>The node before the one that is removed.\<close>

definition dl_before :: "nat \<Rightarrow> (nat \<times> nat) list \<Rightarrow> nat" where
  "dl_before pv xs = (if xs = [] then pv else fst (last xs))"

lemma dl_seg_split:
  "dl_seg h pv p0 (xs @ (p, x) # ys) tail \<Longrightarrow>
    \<exists>nx. h p = Some \<lparr>dn_item = Some x, dn_next = Some nx, dn_prev = Some (dl_before pv xs)\<rparr> \<and>
      dl_seg h p nx ys tail"
proof (induction xs arbitrary: pv p0)
  case Nil
  then show ?case by (auto simp: dl_before_def)
next
  case (Cons a xs)
  obtain q y where a: "a = (q, y)" by force
  from Cons.prems a obtain nx where "dl_seg h q nx (xs @ (p, x) # ys) tail" by auto
  from Cons.IH [OF this] a show ?case by (auto simp: dl_before_def)
qed

lemma dl_seg_unlink:
  assumes "dl_seg h pv p0 (xs @ (p, x) # ys) tail"
    and "distinct (pv # tail # map fst (xs @ (p, x) # ys))"
    and "h p = Some \<lparr>dn_item = Some x, dn_next = Some nx, dn_prev = Some (dl_before pv xs)\<rparr>"
    and "h (dl_before pv xs) = Some np" "h nx = Some nn"
  shows "dl_seg (h(dl_before pv xs \<mapsto> np\<lparr>dn_next := Some nx\<rparr>,
      nx \<mapsto> nn\<lparr>dn_prev := Some (dl_before pv xs)\<rparr>, p := None)) pv
    (if xs = [] then nx else p0) (xs @ ys) tail \<and> nx \<in> set (tail # map fst ys)"
  using assms
proof (induction xs arbitrary: pv p0 np)
  case Nil
  then have seg: "dl_seg h p nx ys tail" by auto
  from dl_seg_first [OF seg, of pv] Nil.prems(2,5)
  have s: "dl_seg (h(nx \<mapsto> nn\<lparr>dn_prev := Some pv\<rparr>)) pv nx ys tail" "nx \<in> set (tail # map fst ys)"
    by auto
  have ne: "pv \<noteq> nx" "p \<noteq> nx" using s(2) Nil.prems(2) by auto
  have eq: "h(pv \<mapsto> np\<lparr>dn_next := Some nx\<rparr>, nx \<mapsto> nn\<lparr>dn_prev := Some pv\<rparr>, p := None) =
      (h(nx \<mapsto> nn\<lparr>dn_prev := Some pv\<rparr>))(pv \<mapsto> np\<lparr>dn_next := Some nx\<rparr>, p := None)"
    using ne by (simp add: fun_upd_twist)
  have "dl_seg ((h(nx \<mapsto> nn\<lparr>dn_prev := Some pv\<rparr>))(pv \<mapsto> np\<lparr>dn_next := Some nx\<rparr>, p := None)) pv nx ys tail"
    using s(1) Nil.prems(2) by (subst dl_seg_frame; simp)+
  with s(2) show ?case unfolding eq [symmetric] by (simp add: dl_before_def del: fun_upd_apply)
next
  case (Cons a xs)
  obtain q y where a: "a = (q, y)" by force
  let ?b = "dl_before q xs"
  have b: "dl_before pv (a # xs) = ?b" using a by (simp add: dl_before_def)
  from Cons.prems(1) a obtain nx0 where q: "p0 = q"
    "h q = Some \<lparr>dn_item = Some y, dn_next = Some nx0, dn_prev = Some pv\<rparr>"
    "dl_seg h q nx0 (xs @ (p, x) # ys) tail" by auto
  have d: "distinct (q # tail # map fst (xs @ (p, x) # ys))" using Cons.prems(2) a by auto
  note IH = Cons.IH [OF q(3) d Cons.prems(3) [unfolded b] Cons.prems(4) [unfolded b] Cons.prems(5)]
  let ?h = "h(?b \<mapsto> np\<lparr>dn_next := Some nx\<rparr>, nx \<mapsto> nn\<lparr>dn_prev := Some ?b\<rparr>, p := None)"
  have "?h q = Some \<lparr>dn_item = Some y, dn_next = Some (if xs = [] then nx else nx0), dn_prev = Some pv\<rparr>"
  proof (cases "xs = []")
    case True
    then have "?b = q" by (simp add: dl_before_def)
    moreover have "q \<noteq> nx" "q \<noteq> p" using IH d by auto
    ultimately show ?thesis using True q(2) Cons.prems(4) b by auto
  next
    case False
    then have "?b \<in> set (map fst xs)" by (auto simp: dl_before_def)
    then have "q \<noteq> ?b" using d by force
    moreover have "q \<noteq> nx" "q \<noteq> p" using IH d by auto
    ultimately show ?thesis using False q(2) by simp
  qed
  with IH q(1) a b show ?case by (simp del: fun_upd_apply)
qed

lemma distinct_before:
  "distinct (a # t # as @ p # bs) \<Longrightarrow> b \<in> set (a # as) \<Longrightarrow> b \<notin> set (p # t # bs)"
  by auto

lemma dl_remove_repr:
  assumes repr: "dl_repr h head tail (xs @ (p, x) # ys)"
  shows "\<exists>h'. dl_remove head tail p h = Inr h' \<and> dl_repr h' head tail (xs @ ys) \<and> h' p = None \<and>
    (\<forall>a. a \<notin> set (head # tail # map fst (xs @ (p, x) # ys)) \<longrightarrow> h' a = h a)"
proof -
  from repr obtain p0 where
    hd: "h head = Some \<lparr>dn_item = None, dn_next = Some p0, dn_prev = None\<rparr>"
    and seg: "dl_seg h head p0 (xs @ (p, x) # ys) tail"
    and d: "distinct (head # tail # map fst (xs @ (p, x) # ys))"
    by (auto simp: dl_repr_def)
  from dl_seg_split [OF seg] obtain nx where
    n: "h p = Some \<lparr>dn_item = Some x, dn_next = Some nx, dn_prev = Some (dl_before head xs)\<rparr>"
      "dl_seg h p nx ys tail" by blast
  let ?b = "dl_before head xs"
  have bin: "?b \<in> set (head # map fst xs)" by (auto simp: dl_before_def)
  then have "h ?b \<noteq> None" by (intro dl_repr_live [OF repr]) auto
  then obtain np where np: "h ?b = Some np" by auto
  have "nx \<in> set (tail # map fst ys)" using n(2) by (cases ys) auto
  then have nxin: "nx \<in> set (head # tail # map fst (xs @ (p, x) # ys))" by auto
  then obtain nn where nn: "h nx = Some nn" using dl_repr_live [OF repr] by blast
  let ?h = "h(?b \<mapsto> np\<lparr>dn_next := Some nx\<rparr>, nx \<mapsto> nn\<lparr>dn_prev := Some ?b\<rparr>, p := None)"
  from dl_seg_unlink [OF seg d n(1) np nn]
  have s: "dl_seg ?h head (if xs = [] then nx else p0) (xs @ ys) tail" "nx \<in> set (tail # map fst ys)"
    by auto
  have bne: "?b \<noteq> nx" "?b \<noteq> p" 
  proof -
    have "?b \<notin> set (p # tail # map fst ys)"
      using bin d distinct_before [of head tail "map fst xs" p "map fst ys" ?b] by simp
    then show "?b \<noteq> nx" "?b \<noteq> p" using s(2) by auto
  qed
  have "dl_remove head tail p h = Inr ?h"
    using d n(1) np nn bne by (auto simp: dl_remove_def node_at_def ptr_def Let_def)
  moreover have "?h head = Some \<lparr>dn_item = None, dn_next = Some (if xs = [] then nx else p0), dn_prev = None\<rparr>"
  proof -
    have ne: "head \<noteq> nx" "head \<noteq> p" using s(2) d by auto
    show ?thesis
    proof (cases "xs = []")
      case True
      then have "?b = head" by (simp add: dl_before_def)
      with True np hd ne show ?thesis by auto
    next
      case False
      then have "?b \<in> set (map fst xs)" by (auto simp: dl_before_def)
      then have "?b \<noteq> head" using d by force
      with False hd ne show ?thesis by simp
    qed
  qed
  with s d have "dl_repr ?h head tail (xs @ ys)" by (auto simp: dl_repr_def)
  moreover have "?h a = h a" if "a \<notin> set (head # tail # map fst (xs @ (p, x) # ys))" for a
    using that bin nxin by auto
  ultimately show ?thesis by auto
qed

text \<open>A search ends within as many rounds as the list has nodes and finds the first match.\<close>

lemma dl_find_seg:
  assumes "dl_seg h pv p xs tail" "tail \<notin> set (map fst xs)" "length xs < n"
    and "\<And>x. x \<in> set (map snd xs) \<Longrightarrow> P (Some x) = Inr (Q x)"
  shows "dl_find n P h tail (Some p) = Inr (map_option fst (find (\<lambda>a. Q (snd a)) xs))"
  using assms
proof (induction xs arbitrary: pv p n)
  case Nil
  then show ?case by (cases n) auto
next
  case (Cons a xs)
  obtain q x where a: "a = (q, x)" by force
  obtain m where m: "n = Suc m" using Cons.prems(3) by (cases n) auto
  from Cons.prems(1) a obtain nx where q: "p = q"
    "h q = Some \<lparr>dn_item = Some x, dn_next = Some nx, dn_prev = Some pv\<rparr>"
    "dl_seg h q nx xs tail" by auto
  have "dl_find m P h tail (Some nx) = Inr (map_option fst (find (\<lambda>a. Q (snd a)) xs))"
    by (rule Cons.IH [OF q(3)]) (use Cons.prems m in auto)
  with q a m Cons.prems(2,4) show ?case
    by (simp add: ptr_def node_at_def)
qed

lemma dl_find_repr:
  assumes "dl_repr h head tail xs" "length xs < n"
    and "\<And>x. x \<in> set (map snd xs) \<Longrightarrow> P (Some x) = Inr (Q x)"
  shows "\<exists>hd. h head = Some hd \<and>
    dl_find n P h tail (dn_next hd) = Inr (map_option fst (find (\<lambda>a. Q (snd a)) xs))"
proof -
  from assms(1) obtain p where "h head = Some \<lparr>dn_item = None, dn_next = Some p, dn_prev = None\<rparr>"
    "dl_seg h head p xs tail" "tail \<notin> set (map fst xs)" by (auto simp: dl_repr_def)
  with dl_find_seg [where P = P and Q = Q, OF this(2,3) assms(2,3)] show ?thesis by simp
qed

section \<open>The interface of a linked list\<close>

text \<open>
  What the clients of a list rely on: the heap represents a list of nodes with their items,
  a fresh node is added in front, and a node of the list can be removed. The last law says
  that the list operations touch only the nodes of the list.
\<close>

locale linked_list =
  fixes repr :: "nodes \<Rightarrow> (nat \<times> nat) list \<Rightarrow> bool"
    and add :: "nat \<Rightarrow> nat \<Rightarrow> nodes \<Rightarrow> nodes res"
    and remove :: "nat \<Rightarrow> nodes \<Rightarrow> nodes res"
  assumes add_repr: "repr h xs \<Longrightarrow> h new = None \<Longrightarrow>
      \<exists>h'. add new item h = Inr h' \<and> repr h' ((new, item) # xs)"
    and remove_repr: "repr h (xs @ (p, x) # ys) \<Longrightarrow>
      \<exists>h'. remove p h = Inr h' \<and> repr h' (xs @ ys) \<and> h' p = None"
    and repr_distinct: "repr h xs \<Longrightarrow> distinct (map fst xs)"
begin

text \<open>Removing a node that is in the list leaves the other nodes in their order.\<close>

lemma remove_member:
  assumes "repr h xs" "(p, x) \<in> set xs"
  shows "\<exists>h'. remove p h = Inr h' \<and> repr h' (filter (\<lambda>a. fst a \<noteq> p) xs) \<and> h' p = None"
proof -
  from assms(2) obtain ys zs where xs: "xs = ys @ (p, x) # zs" by (meson split_list)
  with repr_distinct [OF assms(1)] have "p \<notin> set (map fst ys)" "p \<notin> set (map fst zs)" by auto
  then have "filter (\<lambda>a. fst a \<noteq> p) ys = ys" "filter (\<lambda>a. fst a \<noteq> p) zs = zs"
    by (auto intro!: filter_True)
  then have "filter (\<lambda>a. fst a \<noteq> p) xs = ys @ zs" using xs by simp
  with remove_repr [of h ys p x zs] assms(1) xs show ?thesis by simp
qed

text \<open>Adding a node and removing it again gives the list back.\<close>

lemma remove_added:
  assumes "repr h xs" "h new = None"
  shows "\<exists>h1 h2. add new item h = Inr h1 \<and> remove new h1 = Inr h2 \<and> repr h2 xs \<and> h2 new = None"
proof -
  from add_repr [OF assms] obtain h1 where h1: "add new item h = Inr h1" "repr h1 ((new, item) # xs)"
    by blast
  from remove_repr [of h1 "[]" new item xs] h1 show ?thesis by auto
qed

end

interpretation dl: linked_list "\<lambda>h. dl_repr h head tail" "dl_add head" "dl_remove head tail"
  for head tail
proof unfold_locales
  show "\<exists>h'. dl_add head new item h = Inr h' \<and> dl_repr h' head tail ((new, item) # xs)"
    if "dl_repr h head tail xs" "h new = None" for h xs new item
    using dl_add_repr [OF that, of item] by blast
  show "\<exists>h'. dl_remove head tail p h = Inr h' \<and> dl_repr h' head tail (xs @ ys) \<and> h' p = None"
    if "dl_repr h head tail (xs @ (p, x) # ys)" for h xs p x ys
    using dl_remove_repr [OF that] by blast
  show "distinct (map fst xs)" if "dl_repr h head tail xs" for h xs
    using that by (simp add: dl_repr_def)
qed

end
