(* ===== verification/C_Strings.thy ===== *)
theory C_Strings
  imports Prelude
begin

text \<open>
  The parts of the C library's string handling that the programs use: \<^verbatim>\<open>%d\<close> and \<^verbatim>\<open>%ld\<close> of
  \<^verbatim>\<open>printf\<close>, \<^verbatim>\<open>strtol\<close> and \<^verbatim>\<open>atoi\<close> and \<^verbatim>\<open>%d\<close> of \<^verbatim>\<open>sscanf\<close> in base ten, \<^verbatim>\<open>strtok\<close>, and
  character arrays with their terminating zero. A string is the characters before the zero.
\<close>

section \<open>Printing numbers\<close>

definition digit :: "nat \<Rightarrow> char" where
  "digit d = char_of (48 + d)"

definition digit_val :: "char \<Rightarrow> nat option" where
  "digit_val c = (let k = of_char c in if 48 \<le> k \<and> k \<le> 57 then Some (k - 48) else None)"

fun print_nat :: "nat \<Rightarrow> string" where
  "print_nat n = (if n < 10 then [digit n] else print_nat (n div 10) @ [digit (n mod 10)])"

declare print_nat.simps [simp del]

definition print_int :: "int \<Rightarrow> string" where
  "print_int i = (if i < 0 then CHR ''-'' # print_nat (nat (- i)) else print_nat (nat i))"

section \<open>Reading numbers\<close>

fun take_digits :: "string \<Rightarrow> nat \<Rightarrow> nat \<times> string" where
  "take_digits [] acc = (acc, [])"
| "take_digits (c # cs) acc =
     (case digit_val c of None \<Rightarrow> (acc, c # cs) | Some d \<Rightarrow> take_digits cs (10 * acc + d))"

definition starts_with_digit :: "string \<Rightarrow> bool" where
  "starts_with_digit s = (case s of [] \<Rightarrow> False | c # _ \<Rightarrow> digit_val c \<noteq> None)"

definition is_space :: "char \<Rightarrow> bool" where
  "is_space c = (c = CHR '' '' \<or> (9 \<le> (of_char c :: nat) \<and> (of_char c :: nat) \<le> 13))"

text \<open>
  The number at the start of a string, as \<^verbatim>\<open>strtol\<close> and \<^verbatim>\<open>%d\<close> read it: white space, an
  optional sign and digits; \<open>None\<close> where there are no digits. The rest of the string is what
  \<^verbatim>\<open>endptr\<close> points to.
\<close>

definition scan_int :: "string \<Rightarrow> (int \<times> string) option" where
  "scan_int s =
     (case dropWhile is_space s of
        [] \<Rightarrow> None
      | c # cs \<Rightarrow>
          (let neg = (c = CHR ''-''); t = (if neg \<or> c = CHR ''+'' then cs else c # cs) in
           if starts_with_digit t
           then (let (n, rest) = take_digits t 0
                 in Some (if neg then - int n else int n, rest))
           else None))"

text \<open>\<^verbatim>\<open>atoi\<close> is the number truncated to \<^verbatim>\<open>int\<close>, 0 where there is none.\<close>

definition atoi :: "string \<Rightarrow> int" where
  "atoi s = (case scan_int s of None \<Rightarrow> 0 | Some (n, _) \<Rightarrow> to_int32 n)"

section \<open>Splitting at delimiters\<close>

text \<open>
  \<^verbatim>\<open>strtok\<close> on the rest of a string: it skips delimiters and returns the characters up to
  the next one, and the position after it.
\<close>

definition strtok :: "char list \<Rightarrow> string \<Rightarrow> (string \<times> string) option" where
  "strtok ds s =
     (let t = dropWhile (\<lambda>c. c \<in> set ds) s in
      if t = [] then None
      else Some (takeWhile (\<lambda>c. c \<notin> set ds) t, drop 1 (dropWhile (\<lambda>c. c \<notin> set ds) t)))"

section \<open>Character arrays\<close>

text \<open>\<^verbatim>\<open>strcpy\<close> and \<^verbatim>\<open>sprintf\<close> into an array of \<open>n\<close> characters need room for the zero.\<close>

definition copy_str :: "nat \<Rightarrow> string \<Rightarrow> string res" where
  "copy_str n s = (if length s < n then Inr s else Inl OutOfBounds)"

text \<open>
  A string that starts at the beginning of an array whose bytes are known: the bytes before
  the first zero; without one the read runs past the array.
\<close>

definition c_str :: "char list \<Rightarrow> string res" where
  "c_str bytes =
     (if CHR 0x00 \<in> set bytes then Inr (takeWhile (\<lambda>c. c \<noteq> CHR 0x00) bytes)
      else Inl OutOfBounds)"

section \<open>Lemmas\<close>

lemma digit_val_digit [simp]: "d < 10 \<Longrightarrow> digit_val (digit d) = Some d"
  by (simp add: digit_val_def digit_def Let_def)

lemma of_char_digit: "d < 10 \<Longrightarrow> of_char (digit d) = (48 + d :: nat)"
  by (simp add: digit_def)

lemma print_nat_ne: "print_nat n \<noteq> []"
  by (subst print_nat.simps) simp

lemma print_nat_digits: "c \<in> set (print_nat n) \<Longrightarrow> \<exists>d < 10. c = digit d"
proof (induction n rule: print_nat.induct)
  case (1 n)
  show ?case
  proof (cases "n < 10 \<or> c = digit (n mod 10)")
    case True
    then show ?thesis
      using 1(2) by (subst (asm) print_nat.simps)
        (auto split: if_splits intro: exI [of _ n] exI [of _ "n mod 10"])
  next
    case False
    with 1(2) have "c \<in> set (print_nat (n div 10))"
      by (subst (asm) print_nat.simps) simp
    with 1(1) False show ?thesis by simp
  qed
qed

lemma starts_with_digit_append:
  "xs \<noteq> [] \<Longrightarrow> starts_with_digit (xs @ ys) = starts_with_digit xs"
  by (cases xs) (auto simp: starts_with_digit_def)

lemma print_nat_starts: "starts_with_digit (print_nat n)"
proof -
  obtain c cs where c: "print_nat n = c # cs" using print_nat_ne by (cases "print_nat n") auto
  with print_nat_digits [of c n] show ?thesis by (auto simp: starts_with_digit_def)
qed

lemma take_digits_stop: "\<not> starts_with_digit rest \<Longrightarrow> take_digits rest acc = (acc, rest)"
  by (cases rest) (auto simp: starts_with_digit_def)

lemma take_digits_print:
  "take_digits (print_nat n @ rest) acc = take_digits rest (10 ^ length (print_nat n) * acc + n)"
proof (induction n arbitrary: rest acc rule: print_nat.induct)
  case (1 n)
  show ?case
  proof (cases "n < 10")
    case True
    then have "print_nat n = [digit n]" by (subst print_nat.simps) simp
    with True show ?thesis by simp
  next
    case False
    then have p: "print_nat n = print_nat (n div 10) @ [digit (n mod 10)]"
      by (subst print_nat.simps) simp
    have "10 * (10 ^ length (print_nat (n div 10)) * acc + n div 10) + n mod 10 =
        10 ^ length (print_nat n) * acc + n"
      by (simp add: p algebra_simps)
    moreover have "take_digits (print_nat n @ rest) acc =
        take_digits rest (10 * (10 ^ length (print_nat (n div 10)) * acc + n div 10) + n mod 10)"
      unfolding p by (simp add: 1 [OF False])
    ultimately show ?thesis by (simp only:)
  qed
qed

lemma digit_not_space: "d < 10 \<Longrightarrow> \<not> is_space (digit d)"
  by (auto simp: is_space_def of_char_digit dest: arg_cong [where f = "of_char :: _ \<Rightarrow> nat"])

lemma digit_not_sign: "d < 10 \<Longrightarrow> digit d \<noteq> CHR ''-'' \<and> digit d \<noteq> CHR ''+''"
  using of_char_digit [of d] by fastforce

text \<open>Reading back a printed number.\<close>

lemma scan_print_int:
  assumes "\<not> starts_with_digit rest"
  shows "scan_int (print_int i @ rest) = Some (i, rest)"
proof (cases "i < 0")
  case True
  have "\<not> is_space (CHR ''-'')" by (simp add: is_space_def)
  with True assms show ?thesis
    by (simp add: scan_int_def print_int_def take_digits_print take_digits_stop
        starts_with_digit_append print_nat_ne print_nat_starts Let_def)
next
  case False
  obtain c cs where c: "print_nat (nat i) = c # cs"
    using print_nat_ne by (cases "print_nat (nat i)") auto
  then obtain d where d: "d < 10" "c = digit d" using print_nat_digits [of c "nat i"] by auto
  have "starts_with_digit (c # cs @ rest)"
    using starts_with_digit_append [OF print_nat_ne, of "nat i" rest] print_nat_starts [of "nat i"] c
    by simp
  moreover have "take_digits (c # cs @ rest) 0 = (nat i, rest)"
    using take_digits_print [of "nat i" rest 0] take_digits_stop [OF assms] c by simp
  ultimately show ?thesis
    using False c d digit_not_space [OF d(1)] digit_not_sign [OF d(1)]
    by (simp add: scan_int_def print_int_def Let_def)
qed

lemma atoi_print_int: "is_int32 i \<Longrightarrow> atoi (print_int i) = i"
  using scan_print_int [of "[]" i] by (simp add: atoi_def starts_with_digit_def to_int32_id)

lemma length_print_nat: "n < 10 ^ k \<Longrightarrow> 0 < k \<Longrightarrow> length (print_nat n) \<le> k"
proof (induction n arbitrary: k rule: print_nat.induct)
  case (1 n)
  show ?case
  proof (cases "n < 10")
    case True
    with 1(3) show ?thesis by (subst print_nat.simps) simp
  next
    case False
    with 1(2) obtain j where j: "k = Suc j" "0 < j" by (cases k; cases "k - 1") auto
    with 1(2) have "n div 10 < 10 ^ j" by (simp add: less_mult_imp_div_less mult.commute)
    with 1(1) [OF False] j False show ?thesis by (subst print_nat.simps) simp
  qed
qed

lemma length_print_int: "is_int32 i \<Longrightarrow> length (print_int i) \<le> 11"
proof -
  assume "is_int32 i"
  then have "nat i < 10 ^ 10" "nat (- i) < 10 ^ 10" by (auto simp: is_int32_def)
  with length_print_nat [of "nat i" 10] length_print_nat [of "nat (- i)" 10] show ?thesis
    by (simp add: print_int_def)
qed

end
