(* ===== verification/Coordinator.thy ===== *)
theory Coordinator
  imports Slab_Bitmap Node_List C_Strings
begin

text \<open>
  The central coordinator of the remote memory framework,
  \<^verbatim>\<open>src/framework/infiniswap_daemon/coordinator.c\<close> with the messages and connections of
  \<^verbatim>\<open>rcommon.h\<close> and \<^verbatim>\<open>rcommon.c\<close>. Producers register slabs of memory, consumers request
  slabs. The state holds the two linked lists, the heaps of producers, consumers and
  connections, and the map of producer identifiers. What the RDMA library answers is part of
  a connection (whether its queue pair takes work requests) or an argument. Every function
  that may read freed memory, a null pointer or outside an array returns a result.
\<close>

section \<open>Data\<close>

definition MAX_PRODUCER :: int where "MAX_PRODUCER = 128"
definition RDMA_PRODUCER_SLAB_SIZE :: int where "RDMA_PRODUCER_SLAB_SIZE = 131072"

datatype msg_type =
  MSG_PRODUCER_ADD | MSG_PRODUCER_REM | MSG_SLAB_ADD | MSG_SLAB_REM | MSG_DONE
| MSG_SLAB_ADD_PARTIAL | MSG_DONE_SLAB_ADD | NUM_MSG_TYPE

record message =
  msg_type :: msg_type
  msg_addr :: "64 word"
  msg_ip :: string
  msg_port :: int
  msg_id :: int
  msg_rdmakey :: "32 word"
  msg_nslabs :: int

text \<open>
  \<open>cn_peer\<close> is the consumer of the connection, \<open>cn_posted\<close> the number of receives posted,
  \<open>cn_sent\<close> the messages handed to the queue pair, the first one first.
\<close>

record connection =
  cn_peer :: "nat option"
  cn_connected :: bool
  cn_qp_ok :: bool
  cn_recv_msg :: message
  cn_send_msg :: message
  cn_posted :: nat
  cn_sent :: "message list"

record producer_info_t =
  pi_lstptr :: "nat option"
  pi_ip :: string
  pi_port :: int
  pi_rdmakey :: "32 word"
  pi_nslabs :: int
  pi_available_slabs :: int
  pi_memaddr :: "64 word"
  pi_id :: int
  pi_flag :: bitmap

record consumer_info_t =
  ci_lstptr :: "nat option"
  ci_producer :: "nat option"

record coordinator =
  co_nodes :: nodes
  co_producers :: "nat \<rightharpoonup> producer_info_t"
  co_consumers :: "nat \<rightharpoonup> consumer_info_t"
  co_conns :: "nat \<rightharpoonup> connection"
  co_next :: nat
  co_phead :: nat
  co_ptail :: nat
  co_chead :: nat
  co_ctail :: nat
  co_producer_id :: int
  co_producer_map :: "nat \<Rightarrow> string"

definition heap_at :: "('k \<rightharpoonup> 'v) \<Rightarrow> 'k \<Rightarrow> 'v res" where
  "heap_at h p = (case h p of None \<Rightarrow> Inl UseAfterFree | Some v \<Rightarrow> Inr v)"

definition put_producer :: "nat \<Rightarrow> producer_info_t \<Rightarrow> coordinator \<Rightarrow> coordinator" where
  "put_producer p x s = s\<lparr>co_producers := (co_producers s)(p \<mapsto> x)\<rparr>"

definition put_consumer :: "nat \<Rightarrow> consumer_info_t \<Rightarrow> coordinator \<Rightarrow> coordinator" where
  "put_consumer c x s = s\<lparr>co_consumers := (co_consumers s)(c \<mapsto> x)\<rparr>"

definition put_conn :: "nat \<Rightarrow> connection \<Rightarrow> coordinator \<Rightarrow> coordinator" where
  "put_conn c k s = s\<lparr>co_conns := (co_conns s)(c \<mapsto> k)\<rparr>"

section \<open>Connections\<close>

definition post_receives :: "nat \<Rightarrow> coordinator \<Rightarrow> coordinator res" where
  "post_receives c s = rbind (heap_at (co_conns s) c) (\<lambda>k.
     if cn_qp_ok k then Inr (put_conn c (k\<lparr>cn_posted := cn_posted k + 1\<rparr>) s) else Inl AssertFail)"

text \<open>The loop \<^verbatim>\<open>while (!conn->connected);\<close> waits for the connection.\<close>

definition send_message :: "nat \<Rightarrow> coordinator \<Rightarrow> coordinator res" where
  "send_message c s = rbind (heap_at (co_conns s) c) (\<lambda>k.
     if \<not> cn_connected k then Inl Diverges
     else if cn_qp_ok k then Inr (put_conn c (k\<lparr>cn_sent := cn_sent k @ [cn_send_msg k]\<rparr>) s)
     else Inl AssertFail)"

definition set_send_msg :: "nat \<Rightarrow> (message \<Rightarrow> message) \<Rightarrow> coordinator \<Rightarrow> coordinator res" where
  "set_send_msg c f s = rbind (heap_at (co_conns s) c) (\<lambda>k.
     Inr (put_conn c (k\<lparr>cn_send_msg := f (cn_send_msg k)\<rparr>) s))"

definition send_msg_done :: "nat \<Rightarrow> coordinator \<Rightarrow> coordinator res" where
  "send_msg_done c s =
     rbind (set_send_msg c (\<lambda>m. m\<lparr>msg_type := MSG_DONE, msg_addr := 0\<rparr>) s) (send_message c)"

definition destroy_connection :: "nat \<Rightarrow> coordinator \<Rightarrow> coordinator res" where
  "destroy_connection c s = rbind (heap_at (co_conns s) c) (\<lambda>_.
     Inr (s\<lparr>co_conns := (co_conns s)(c := None)\<rparr>))"

section \<open>The producer list\<close>

definition alloc :: "coordinator \<Rightarrow> nat \<times> coordinator" where
  "alloc s = (co_next s, s\<lparr>co_next := co_next s + 1\<rparr>)"

definition producerlist_init :: "coordinator \<Rightarrow> coordinator" where
  "producerlist_init s =
     (let (h, s1) = alloc s; (t, s2) = alloc s1 in
      s2\<lparr>co_phead := h, co_ptail := t, co_nodes := dl_init h t (co_nodes s2)\<rparr>)"

text \<open>The bound of a loop over a list: there are at most as many nodes as addresses in use.\<close>

definition list_bound :: "coordinator \<Rightarrow> nat" where
  "list_bound s = co_next s + 1"

definition head_next :: "coordinator \<Rightarrow> nat \<Rightarrow> nat option res" where
  "head_next s head = rbind (node_at (co_nodes s) head) (\<lambda>n. Inr (dn_next n))"

definition producer_of :: "coordinator \<Rightarrow> nat option \<Rightarrow> producer_info_t res" where
  "producer_of s p = rbind (ptr p) (heap_at (co_producers s))"

definition find_producer_by_id :: "int \<Rightarrow> coordinator \<Rightarrow> nat option res" where
  "find_producer_by_id i s =
     rbind (head_next s (co_phead s)) (\<lambda>cur.
     rbind (dl_find (list_bound s) (\<lambda>p. rbind (producer_of s p) (\<lambda>x. Inr (pi_id x = i)))
              (co_nodes s) (co_ptail s) cur) (\<lambda>found.
       case found of
         None \<Rightarrow> Inr None
       | Some nd \<Rightarrow> rbind (node_at (co_nodes s) nd) (\<lambda>n. Inr (dn_item n))))"

text \<open>
  \<^verbatim>\<open>"%s:%d"\<close> into an array of 210 characters; \<^verbatim>\<open>producer_map\<close> has 130 rows of 210 characters.
\<close>

definition producer_hash :: "string \<Rightarrow> int \<Rightarrow> string" where
  "producer_hash ip port = ip @ '':'' @ print_int port"

definition get_producer_id :: "producer_info_t \<Rightarrow> coordinator \<Rightarrow> (producer_info_t \<times> coordinator) res" where
  "get_producer_id x s =
     rbind (copy_str 210 (producer_hash (pi_ip x) (pi_port x))) (\<lambda>hash.
       case find (\<lambda>i. co_producer_map s i = hash)
              [1 ..< nat (min MAX_PRODUCER (co_producer_id s))] of
         Some i \<Rightarrow> Inr (x\<lparr>pi_id := int i\<rparr>, s)
       | None \<Rightarrow>
           (let i = co_producer_id s;
                s1 = s\<lparr>co_producer_id := to_int32 (i + 1)\<rparr> in
            if in_bounds (nat (MAX_PRODUCER + 2)) i
            then Inr (x\<lparr>pi_id := i\<rparr>,
                   s1\<lparr>co_producer_map := (co_producer_map s1)(nat i := hash)\<rparr>)
            else Inl OutOfBounds))"

text \<open>
  The result is what the C function returns. A duplicate takes the place of the entry it
  duplicates: the node then points to the new producer.
\<close>

definition is_duplicate_producer :: "nat \<Rightarrow> coordinator \<Rightarrow> (int \<times> coordinator) res" where
  "is_duplicate_producer p s =
     rbind (heap_at (co_producers s) p) (\<lambda>x.
       if pi_port x = 0 then Inr (-1, s)
       else
         rbind (head_next s (co_phead s)) (\<lambda>cur.
         rbind (dl_find (list_bound s)
                  (\<lambda>q. rbind (producer_of s q) (\<lambda>y. Inr (pi_ip y = pi_ip x \<and> pi_port y = pi_port x)))
                  (co_nodes s) (co_ptail s) cur) (\<lambda>found.
           case found of
             None \<Rightarrow> Inr (0, s)
           | Some nd \<Rightarrow>
               rbind (node_at (co_nodes s) nd) (\<lambda>n.
               rbind (producer_of s (dn_item n)) (\<lambda>y.
                 let s1 = put_producer p (x\<lparr>pi_lstptr := pi_lstptr y, pi_id := pi_id y\<rparr>) s in
                 Inr (1, s1\<lparr>co_nodes := (co_nodes s1)(nd \<mapsto> n\<lparr>dn_item := Some p\<rparr>)\<rparr>))))))"

definition producerlist_add :: "nat \<Rightarrow> coordinator \<Rightarrow> coordinator res" where
  "producerlist_add p s =
     rbind (is_duplicate_producer p s) (\<lambda>(dup, s1).
       if dup = 0 then
         (let (nd, s2) = alloc s1 in
          rbind (heap_at (co_producers s2) p) (\<lambda>x.
          rbind (dl_add (co_phead s2) nd p (co_nodes s2)) (\<lambda>h.
            Inr ((put_producer p (x\<lparr>pi_lstptr := Some nd\<rparr>) s2)\<lparr>co_nodes := h\<rparr>))))
       else Inr s1)"

text \<open>The producer that is freed is the one the node points to.\<close>

definition producerlist_remove :: "nat \<Rightarrow> coordinator \<Rightarrow> coordinator res" where
  "producerlist_remove p s =
     rbind (heap_at (co_producers s) p) (\<lambda>x.
       if pi_lstptr x = Some (co_phead s) \<or> pi_lstptr x = Some (co_ptail s) then Inl AssertFail
       else
         rbind (ptr (pi_lstptr x)) (\<lambda>nd.
         rbind (node_at (co_nodes s) nd) (\<lambda>n.
         rbind (dl_remove (co_phead s) (co_ptail s) nd (co_nodes s)) (\<lambda>h.
         rbind (ptr (dn_item n)) (\<lambda>q.
         rbind (heap_at (co_producers s) q) (\<lambda>_.
           Inr (s\<lparr>co_nodes := h, co_producers := (co_producers s)(q := None)\<rparr>)))))))"

section \<open>The consumer list\<close>

definition consumerlist_init :: "coordinator \<Rightarrow> coordinator" where
  "consumerlist_init s =
     (let (h, s1) = alloc s; (t, s2) = alloc s1 in
      s2\<lparr>co_chead := h, co_ctail := t, co_nodes := dl_init h t (co_nodes s2)\<rparr>)"

definition consumerlist_add :: "nat \<Rightarrow> coordinator \<Rightarrow> coordinator res" where
  "consumerlist_add c s =
     (let (nd, s1) = alloc s in
      rbind (heap_at (co_consumers s1) c) (\<lambda>x.
      rbind (dl_add (co_chead s1) nd c (co_nodes s1)) (\<lambda>h.
        Inr ((put_consumer c (x\<lparr>ci_lstptr := Some nd\<rparr>) s1)\<lparr>co_nodes := h\<rparr>))))"

definition consumerlist_remove :: "nat \<Rightarrow> coordinator \<Rightarrow> coordinator res" where
  "consumerlist_remove c s =
     rbind (heap_at (co_consumers s) c) (\<lambda>x.
       if ci_lstptr x = Some (co_chead s) \<or> ci_lstptr x = Some (co_ctail s) then Inl AssertFail
       else
         rbind (ptr (ci_lstptr x)) (\<lambda>nd.
         rbind (node_at (co_nodes s) nd) (\<lambda>n.
         rbind (dl_remove (co_chead s) (co_ctail s) nd (co_nodes s)) (\<lambda>h.
         rbind (ptr (dn_item n)) (\<lambda>q.
         rbind (heap_at (co_consumers s) q) (\<lambda>_.
           Inr (s\<lparr>co_nodes := h, co_consumers := (co_consumers s)(q := None)\<rparr>)))))))"

section \<open>Destroying the lists\<close>

fun producerlist_destroy_loop :: "nat \<Rightarrow> nat option \<Rightarrow> coordinator \<Rightarrow> coordinator res" where
  "producerlist_destroy_loop 0 cur s = Inl Diverges"
| "producerlist_destroy_loop (Suc n) cur s =
     (if cur = Some (co_ptail s) then Inr s
      else rbind (ptr cur) (\<lambda>nd. rbind (node_at (co_nodes s) nd) (\<lambda>x.
           rbind (ptr (dn_item x)) (\<lambda>p. rbind (producerlist_remove p s)
             (producerlist_destroy_loop n (dn_next x))))))"

definition producerlist_destroy :: "coordinator \<Rightarrow> coordinator res" where
  "producerlist_destroy s =
     rbind (head_next s (co_phead s)) (\<lambda>cur.
     rbind (producerlist_destroy_loop (list_bound s) cur s) (\<lambda>s1.
       Inr (s1\<lparr>co_nodes := (co_nodes s1)(co_phead s1 := None, co_ptail s1 := None)\<rparr>)))"

fun consumerlist_destroy_loop :: "nat \<Rightarrow> nat option \<Rightarrow> coordinator \<Rightarrow> coordinator res" where
  "consumerlist_destroy_loop 0 cur s = Inl Diverges"
| "consumerlist_destroy_loop (Suc n) cur s =
     (if cur = Some (co_ctail s) then Inr s
      else rbind (ptr cur) (\<lambda>nd. rbind (node_at (co_nodes s) nd) (\<lambda>x.
           rbind (ptr (dn_item x)) (\<lambda>c. rbind (consumerlist_remove c s)
             (consumerlist_destroy_loop n (dn_next x))))))"

definition consumerlist_destroy :: "coordinator \<Rightarrow> coordinator res" where
  "consumerlist_destroy s =
     rbind (head_next s (co_chead s)) (\<lambda>cur.
     rbind (consumerlist_destroy_loop (list_bound s) cur s) (\<lambda>s1.
       Inr (s1\<lparr>co_nodes := (co_nodes s1)(co_chead s1 := None, co_ctail s1 := None)\<rparr>)))"

section \<open>Slabs\<close>

definition is_slab_available :: "producer_info_t \<Rightarrow> int \<Rightarrow> bool res" where
  "is_slab_available x slab =
     (if slab > pi_nslabs x then Inr False
      else rbind (get_bit_c (pi_flag x) slab) (\<lambda>b. Inr (\<not> b)))"

function find_slab_from :: "producer_info_t \<Rightarrow> int \<Rightarrow> int res" where
  "find_slab_from x slab =
     (if slab < pi_nslabs x
      then (case is_slab_available x slab of
              Inl e \<Rightarrow> Inl e
            | Inr True \<Rightarrow> Inr slab
            | Inr False \<Rightarrow> find_slab_from x (slab + 1))
      else Inr slab)"
  by pat_completeness auto
termination by (relation "measure (\<lambda>(x, slab). nat (pi_nslabs x - slab))") auto

declare find_slab_from.simps [simp del]

definition find_available_slabs :: "producer_info_t \<Rightarrow> int res" where
  "find_available_slabs x =
     rbind (find_slab_from x 0) (\<lambda>slab. if slab < pi_nslabs x then Inr slab else Inl AssertFail)"

text \<open>The product of two \<^verbatim>\<open>int\<close>s is an \<^verbatim>\<open>int\<close>; it is then added to the pointer.\<close>

definition slab_bytes :: "int \<Rightarrow> 64 word" where
  "slab_bytes n = word_of_int (to_int32 (n * RDMA_PRODUCER_SLAB_SIZE))"

definition addr_from_slab :: "producer_info_t \<Rightarrow> int \<Rightarrow> 64 word" where
  "addr_from_slab x slab =
     (if slab < 0 \<or> slab \<ge> pi_nslabs x then 0 else pi_memaddr x + slab_bytes slab)"

definition slab_from_addr :: "producer_info_t \<Rightarrow> 64 word \<Rightarrow> int" where
  "slab_from_addr x addr =
     (if addr < pi_memaddr x \<or> addr \<ge> pi_memaddr x + slab_bytes (pi_nslabs x) then -1
      else to_int32 (uint (addr - pi_memaddr x) div RDMA_PRODUCER_SLAB_SIZE))"

fun set_bits :: "bitmap \<Rightarrow> int \<Rightarrow> nat \<Rightarrow> bitmap res" where
  "set_bits bm b 0 = Inr bm"
| "set_bits bm b (Suc n) = rbind (set_bit_c bm b) (\<lambda>bm'. set_bits bm' (b + 1) n)"

text \<open>
  The scan of \<^verbatim>\<open>alloc_next_slabs\<close> from the node \<open>cur\<close>: the loop ends at a null pointer, not at
  the tail sentinel. The result is the number of slabs, and the producer and the address
  that the function stores through its pointers.
\<close>

fun alloc_scan ::
  "nat \<Rightarrow> int \<Rightarrow> nat option \<Rightarrow> coordinator \<Rightarrow> (int \<times> (nat \<times> 64 word) option \<times> coordinator) res" where
  "alloc_scan 0 requested cur s = Inl Diverges"
| "alloc_scan (Suc n) requested cur s =
     (case cur of
        None \<Rightarrow> Inr (0, None, s)
      | Some nd \<Rightarrow>
          rbind (node_at (co_nodes s) nd) (\<lambda>x.
          rbind (ptr (dn_item x)) (\<lambda>p.
          rbind (heap_at (co_producers s) p) (\<lambda>c.
            if pi_available_slabs c > 0 then
              rbind (find_available_slabs c) (\<lambda>next_slab.
                let granted = (if pi_nslabs c - next_slab \<ge> requested then requested
                               else pi_nslabs c - next_slab) in
                rbind (set_bits (pi_flag c) next_slab (nat granted)) (\<lambda>bm.
                  Inr (granted, Some (p, addr_from_slab c next_slab),
                    put_producer p (c\<lparr>pi_flag := bm,
                      pi_available_slabs := pi_available_slabs c - granted\<rparr>) s)))
            else alloc_scan n requested (dn_next x) s))))"

definition alloc_next_slabs ::
  "int \<Rightarrow> coordinator \<Rightarrow> (int \<times> (nat \<times> 64 word) option \<times> coordinator) res" where
  "alloc_next_slabs requested s =
     rbind (head_next s (co_phead s)) (\<lambda>cur. alloc_scan (list_bound s) requested cur s)"

lemma find_slab_from_less: "find_slab_from x slab = Inr k \<Longrightarrow> slab \<le> k"
proof (induction x slab rule: find_slab_from.induct)
  case (1 x slab)
  from 1(2) show ?case
    by (subst (asm) find_slab_from.simps)
      (auto split: if_splits sum.splits bool.splits dest!: 1(1))
qed

lemma alloc_scan_granted:
  "alloc_scan n requested cur s = Inr (g, r, s') \<Longrightarrow> 0 < requested \<Longrightarrow> 0 \<le> g"
  by (induction n requested cur s rule: alloc_scan.induct)
    (auto simp: rbind_eq_Inr find_available_slabs_def Let_def split: option.splits if_splits)

lemma alloc_next_granted:
  "alloc_next_slabs requested s = Inr (g, r, s') \<Longrightarrow> 0 < requested \<Longrightarrow> 0 \<le> g"
  by (auto simp: alloc_next_slabs_def rbind_eq_Inr dest: alloc_scan_granted)

section \<open>Message handlers\<close>

definition peer_of :: "nat \<Rightarrow> coordinator \<Rightarrow> (nat \<times> consumer_info_t) res" where
  "peer_of c s = rbind (heap_at (co_conns s) c) (\<lambda>k. rbind (ptr (cn_peer k)) (\<lambda>i.
     rbind (heap_at (co_consumers s) i) (\<lambda>cli. Inr (i, cli))))"

definition recv_of :: "nat \<Rightarrow> coordinator \<Rightarrow> message res" where
  "recv_of c s = rbind (heap_at (co_conns s) c) (\<lambda>k. Inr (cn_recv_msg k))"

definition on_recv_producer_add :: "nat \<Rightarrow> coordinator \<Rightarrow> coordinator res" where
  "on_recv_producer_add c s =
     rbind (peer_of c s) (\<lambda>(i, cli).
       if ci_producer cli \<noteq> None then Inl AssertFail
       else
         (let (p, s1) = alloc s in
          rbind (recv_of c s1) (\<lambda>m.
          rbind (copy_str 200 (msg_ip m)) (\<lambda>ip.
          rbind (get_producer_id
                   \<lparr>pi_lstptr = None, pi_ip = ip, pi_port = msg_port m, pi_rdmakey = msg_rdmakey m,
                    pi_nslabs = msg_nslabs m, pi_available_slabs = msg_nslabs m,
                    pi_memaddr = msg_addr m, pi_id = 0, pi_flag = []\<rparr> s1) (\<lambda>(x, s2).
          rbind (init_bitmap (pi_available_slabs x)) (\<lambda>bm.
          rbind (producerlist_add p
                   (put_consumer i (cli\<lparr>ci_producer := Some p\<rparr>)
                     (put_producer p (x\<lparr>pi_flag := bm\<rparr>) s2))) (\<lambda>s3.
          rbind (post_receives c s3) (send_msg_done c))))))))"

definition on_recv_producer_rem :: "nat \<Rightarrow> coordinator \<Rightarrow> coordinator res" where
  "on_recv_producer_rem c s =
     rbind (peer_of c s) (\<lambda>(i, cli).
     rbind (ptr (ci_producer cli)) (\<lambda>p.
     rbind (heap_at (co_producers s) p) (\<lambda>x.
     rbind (producerlist_remove p
              (put_consumer i (cli\<lparr>ci_producer := None\<rparr>)
                (put_producer p (x\<lparr>pi_nslabs := 0, pi_available_slabs := 0\<rparr>) s))) (\<lambda>s1.
     rbind (post_receives c s1) (send_msg_done c)))))"

text \<open>The messages that grant slabs, until the request is met or a scan grants nothing.\<close>

definition send_partial :: "nat \<Rightarrow> nat \<Rightarrow> 64 word \<Rightarrow> int \<Rightarrow> coordinator \<Rightarrow> coordinator res" where
  "send_partial c p addr granted s =
     rbind (heap_at (co_producers s) p) (\<lambda>x.
     rbind (copy_str 200 (pi_ip x)) (\<lambda>ip.
     rbind (set_send_msg c (\<lambda>m. m\<lparr>msg_type := MSG_SLAB_ADD_PARTIAL, msg_ip := ip,
              msg_port := pi_port x, msg_id := pi_id x, msg_rdmakey := pi_rdmakey x,
              msg_nslabs := granted, msg_addr := addr\<rparr>) s) (\<lambda>s1.
     rbind (post_receives c s1) (send_message c))))"

function slabs_add_loop :: "nat \<Rightarrow> int \<Rightarrow> coordinator \<Rightarrow> coordinator res" where
  "slabs_add_loop c requested s =
     (if requested > 0
      then (case alloc_next_slabs requested s of
              Inl e \<Rightarrow> Inl e
            | Inr (granted, None, s1) \<Rightarrow> if granted = 0 then Inr s1 else Inl Uninit
            | Inr (granted, Some (p, addr), s1) \<Rightarrow>
                (if granted = 0 then Inr s1
                 else (case send_partial c p addr granted s1 of
                         Inl e \<Rightarrow> Inl e
                       | Inr s2 \<Rightarrow> slabs_add_loop c (requested - granted) s2)))
      else Inr s)"
  by pat_completeness auto
termination
  by (relation "measure (\<lambda>(c, requested, s). nat requested)")
    (auto dest: alloc_next_granted)

declare slabs_add_loop.simps [simp del]

definition on_recv_slabs_add :: "nat \<Rightarrow> coordinator \<Rightarrow> coordinator res" where
  "on_recv_slabs_add c s =
     rbind (recv_of c s) (\<lambda>m.
     rbind (slabs_add_loop c (msg_nslabs m) s) (\<lambda>s1.
     rbind (set_send_msg c (\<lambda>m. m\<lparr>msg_type := MSG_DONE_SLAB_ADD, msg_addr := 0\<rparr>) s1) (\<lambda>s2.
     rbind (post_receives c s2) (send_message c))))"

fun clear_slabs :: "nat \<Rightarrow> int \<Rightarrow> nat \<Rightarrow> coordinator \<Rightarrow> coordinator res" where
  "clear_slabs p slab 0 s = Inr s"
| "clear_slabs p slab (Suc n) s =
     rbind (heap_at (co_producers s) p) (\<lambda>x.
     rbind (clear_bit_c (pi_flag x) slab) (\<lambda>bm.
       clear_slabs p (slab + 1) n
         (put_producer p (x\<lparr>pi_flag := bm, pi_available_slabs := pi_available_slabs x + 1\<rparr>) s)))"

definition on_recv_slabs_rem :: "nat \<Rightarrow> coordinator \<Rightarrow> coordinator res" where
  "on_recv_slabs_rem c s =
     rbind (recv_of c s) (\<lambda>m.
     rbind (find_producer_by_id (msg_id m) s) (\<lambda>found.
     rbind (case found of
              None \<Rightarrow> Inr s
            | Some p \<Rightarrow> rbind (heap_at (co_producers s) p) (\<lambda>x.
                clear_slabs p (slab_from_addr x (msg_addr m)) (nat (msg_nslabs m)) s)) (\<lambda>s1.
     rbind (post_receives c s1) (send_msg_done c))))"

text \<open>
  A completion: \<open>ok\<close> is whether the work request succeeded, \<open>recv\<close> whether it was a receive.
  The case of \<^verbatim>\<open>MSG_SLAB_REM\<close> has no \<^verbatim>\<open>break\<close> and falls through to \<^verbatim>\<open>BUG()\<close>.
\<close>

definition on_completion :: "bool \<Rightarrow> bool \<Rightarrow> nat \<Rightarrow> coordinator \<Rightarrow> coordinator res" where
  "on_completion ok recv c s =
     (if \<not> ok then Inr s
      else if recv then
        rbind (recv_of c s) (\<lambda>m.
          case msg_type m of
            MSG_PRODUCER_ADD \<Rightarrow> on_recv_producer_add c s
          | MSG_PRODUCER_REM \<Rightarrow> on_recv_producer_rem c s
          | MSG_SLAB_ADD \<Rightarrow> on_recv_slabs_add c s
          | MSG_SLAB_REM \<Rightarrow> rbind (on_recv_slabs_rem c s) (\<lambda>_. Inl Bug)
          | _ \<Rightarrow> Inl Bug)
      else rbind (heap_at (co_conns s) c) (\<lambda>_. Inr s))"

section \<open>Connection events\<close>

text \<open>
  \<open>rdma_ok\<close> is whether the calls of the RDMA library succeed; \<open>garbage\<close> is the contents of the
  message buffers that \<^verbatim>\<open>malloc\<close> returns.
\<close>

definition build_connection :: "bool \<Rightarrow> message \<Rightarrow> coordinator \<Rightarrow> (nat \<times> coordinator) res" where
  "build_connection rdma_ok garbage s =
     (if \<not> rdma_ok then Inl AssertFail
      else let (c, s1) = alloc s;
               s2 = put_conn c \<lparr>cn_peer = None, cn_connected = False, cn_qp_ok = True,
                      cn_recv_msg = garbage, cn_send_msg = garbage, cn_posted = 0, cn_sent = []\<rparr> s1
           in rbind (post_receives c s2) (\<lambda>s3. Inr (c, s3)))"

definition on_connect_request :: "bool \<Rightarrow> message \<Rightarrow> coordinator \<Rightarrow> (nat \<times> coordinator) res" where
  "on_connect_request rdma_ok garbage s = build_connection rdma_ok garbage s"

definition on_connection :: "nat \<Rightarrow> coordinator \<Rightarrow> coordinator res" where
  "on_connection c s =
     (let (i, s1) = alloc s;
          s2 = put_consumer i \<lparr>ci_lstptr = None, ci_producer = None\<rparr> s1 in
      rbind (heap_at (co_conns s2) c) (\<lambda>k.
      rbind (consumerlist_add i (put_conn c (k\<lparr>cn_peer := Some i\<rparr>) s2)) (\<lambda>s3.
      rbind (heap_at (co_conns s3) c) (\<lambda>k'.
        Inr (put_conn c (k'\<lparr>cn_connected := True\<rparr>) s3)))))"

definition on_disconnect :: "nat \<Rightarrow> coordinator \<Rightarrow> coordinator res" where
  "on_disconnect c s =
     rbind (peer_of c s) (\<lambda>_.
     rbind (heap_at (co_conns s) c) (\<lambda>k.
       destroy_connection c (put_conn c (k\<lparr>cn_connected := False\<rparr>) s)))"

datatype cm_event =
    RDMA_CM_EVENT_CONNECT_REQUEST
  | RDMA_CM_EVENT_ESTABLISHED nat
  | RDMA_CM_EVENT_DISCONNECTED nat
  | RDMA_CM_EVENT_OTHER

definition process_event :: "bool \<Rightarrow> message \<Rightarrow> cm_event \<Rightarrow> coordinator \<Rightarrow> coordinator res" where
  "process_event rdma_ok garbage ev s =
     (case ev of
        RDMA_CM_EVENT_CONNECT_REQUEST \<Rightarrow>
          rbind (on_connect_request rdma_ok garbage s) (\<lambda>(c, s1). Inr s1)
      | RDMA_CM_EVENT_ESTABLISHED c \<Rightarrow> on_connection c s
      | RDMA_CM_EVENT_DISCONNECTED c \<Rightarrow> on_disconnect c s
      | RDMA_CM_EVENT_OTHER \<Rightarrow> Inl Bug)"

text \<open>\<^verbatim>\<open>coordinator_create\<close> and \<^verbatim>\<open>coordinator_destroy\<close>, as far as they change the lists.\<close>

definition coordinator_start :: coordinator where
  "coordinator_start =
     \<lparr>co_nodes = Map.empty, co_producers = Map.empty, co_consumers = Map.empty,
      co_conns = Map.empty, co_next = 0, co_phead = 0, co_ptail = 0, co_chead = 0, co_ctail = 0,
      co_producer_id = 1, co_producer_map = (\<lambda>_. [])\<rparr>"

definition coordinator_create :: "bool \<Rightarrow> coordinator res" where
  "coordinator_create rdma_ok =
     (let s = consumerlist_init (producerlist_init coordinator_start) in
      if rdma_ok then Inr s else Inl AssertFail)"

definition coordinator_destroy :: "coordinator \<Rightarrow> coordinator res" where
  "coordinator_destroy s = rbind (producerlist_destroy s) consumerlist_destroy"

end
