(* ===== verification/Coordinator_Slabs.thy ===== *)
theory Coordinator_Slabs
  imports Coordinator
begin

text \<open>
  Allocation of slabs. As long as no slab is returned, the slabs of a producer that are in
  use are the first ones, and a request is met from the first producers of the list that
  have slabs left.
\<close>

section \<open>The slabs of one producer\<close>

definition slab_inv :: "producer_info_t \<Rightarrow> bool" where
  "slab_inv x \<longleftrightarrow> 0 \<le> pi_available_slabs x \<and> pi_available_slabs x \<le> pi_nslabs x \<and>
     pi_nslabs x \<le> 32 * int (length (pi_flag x)) \<and> length (pi_ip x) < 200 \<and>
     (\<forall>b. bm_ok (pi_flag x) b \<longrightarrow>
        (bm_bit (pi_flag x) b \<longleftrightarrow> b < pi_nslabs x - pi_available_slabs x))"

text \<open>The first slab that is not in use.\<close>

definition next_free :: "producer_info_t \<Rightarrow> int" where
  "next_free x = pi_nslabs x - pi_available_slabs x"

lemma is_slab_available_inv:
  assumes "slab_inv x" "0 \<le> slab" "slab < pi_nslabs x"
  shows "is_slab_available x slab = Inr (next_free x \<le> slab)"
proof -
  have "bm_ok (pi_flag x) slab" using assms by (simp add: slab_inv_def bm_ok_def)
  with assms show ?thesis
    by (simp add: is_slab_available_def get_bit_c_bm slab_inv_def next_free_def not_less)
qed

lemma find_slab_from_inv:
  "slab_inv x \<Longrightarrow> 0 < pi_available_slabs x \<Longrightarrow> 0 \<le> slab \<Longrightarrow> slab \<le> next_free x \<Longrightarrow>
    find_slab_from x slab = Inr (next_free x)"
proof (induction x slab rule: find_slab_from.induct)
  case (1 x slab)
  then have less: "slab < pi_nslabs x" by (simp add: next_free_def)
  note av = is_slab_available_inv [OF 1(2,4) less]
  show ?case
  proof (cases "next_free x \<le> slab")
    case True
    with 1(5) have "slab = next_free x" by simp
    with less av show ?thesis by (simp add: find_slab_from.simps)
  next
    case False
    with av 1(1) [OF less, of False] 1(2-4) have "find_slab_from x (slab + 1) = Inr (next_free x)"
      by simp
    with less av False show ?thesis by (subst find_slab_from.simps) simp
  qed
qed

lemma find_available_slabs_inv:
  assumes "slab_inv x" "0 < pi_available_slabs x"
  shows "find_available_slabs x = Inr (next_free x)"
proof -
  have "0 \<le> next_free x" "next_free x < pi_nslabs x"
    using assms by (simp_all add: slab_inv_def next_free_def)
  with find_slab_from_inv [OF assms, of 0] show ?thesis by (simp add: find_available_slabs_def)
qed

lemma set_bits_bm:
  "0 \<le> b \<Longrightarrow> b + int n \<le> 32 * int (length bm) \<Longrightarrow>
    \<exists>bm'. set_bits bm b n = Inr bm' \<and> length bm' = length bm \<and>
      (\<forall>c. bm_ok bm c \<longrightarrow> (bm_bit bm' c \<longleftrightarrow> bm_bit bm c \<or> b \<le> c \<and> c < b + int n))"
proof (induction n arbitrary: bm b)
  case 0
  then show ?case by auto
next
  case (Suc n)
  then have "bm_ok bm b" by (simp add: bm_ok_def)
  then obtain b1 where b1: "set_bit_c bm b = Inr b1" "length b1 = length bm"
    "\<And>c. bm_ok bm c \<Longrightarrow> bm_bit b1 c \<longleftrightarrow> c = b \<or> bm_bit bm c" by (rule set_bit_c_bm) blast
  have ok: "bm_ok b1 c \<longleftrightarrow> bm_ok bm c" for c using b1(2) by (simp add: bm_ok_def)
  from Suc.IH [of "b + 1" b1] Suc.prems b1(2) obtain bm' where
    bm': "set_bits b1 (b + 1) n = Inr bm'" "length bm' = length bm"
    "\<And>c. bm_ok bm c \<Longrightarrow> bm_bit bm' c \<longleftrightarrow> bm_bit b1 c \<or> b + 1 \<le> c \<and> c < b + 1 + int n"
    by (auto simp: ok)
  have "bm_bit bm' c \<longleftrightarrow> bm_bit bm c \<or> b \<le> c \<and> c < b + int (Suc n)" if "bm_ok bm c" for c
    using bm'(3) [OF that] b1(3) [OF that] by auto
  with b1(1) bm'(1,2) show ?case by simp
qed

text \<open>Granting \<open>g\<close> slabs of a producer that has them.\<close>

definition grant :: "producer_info_t \<Rightarrow> int \<Rightarrow> producer_info_t \<Rightarrow> bool" where
  "grant x g y \<longleftrightarrow> (\<exists>bm. y = x\<lparr>pi_flag := bm, pi_available_slabs := pi_available_slabs x - g\<rparr>) \<and>
     slab_inv y"

lemma grant_bits:
  assumes "slab_inv x" "0 \<le> g" "g \<le> pi_available_slabs x"
  shows "\<exists>bm. set_bits (pi_flag x) (next_free x) (nat g) = Inr bm \<and>
    grant x g (x\<lparr>pi_flag := bm, pi_available_slabs := pi_available_slabs x - g\<rparr>)"
proof -
  have k: "0 \<le> next_free x" "next_free x + int (nat g) \<le> 32 * int (length (pi_flag x))"
    using assms by (auto simp: slab_inv_def next_free_def)
  from set_bits_bm [OF k] obtain bm where
    bm: "set_bits (pi_flag x) (next_free x) (nat g) = Inr bm" "length bm = length (pi_flag x)"
    "\<And>c. bm_ok (pi_flag x) c \<Longrightarrow>
      bm_bit bm c \<longleftrightarrow> bm_bit (pi_flag x) c \<or> next_free x \<le> c \<and> c < next_free x + int (nat g)"
    by blast
  have "bm_ok bm c = bm_ok (pi_flag x) c" for c using bm(2) by (simp add: bm_ok_def)
  with assms bm(2,3) have "slab_inv (x\<lparr>pi_flag := bm, pi_available_slabs := pi_available_slabs x - g\<rparr>)"
    by (auto simp: slab_inv_def next_free_def)
  with bm(1) show ?thesis by (auto simp: grant_def)
qed

section \<open>The scan over the producers\<close>

definition avail_of :: "coordinator \<Rightarrow> nat \<Rightarrow> int" where
  "avail_of s p = (case co_producers s p of None \<Rightarrow> 0 | Some x \<Rightarrow> pi_available_slabs x)"

definition slabs_ok :: "coordinator \<Rightarrow> (nat \<times> nat) list \<Rightarrow> bool" where
  "slabs_ok s ps \<longleftrightarrow> dl_repr (co_nodes s) (co_phead s) (co_ptail s) ps \<and> length ps \<le> co_next s \<and>
     distinct (map snd ps) \<and> (\<forall>p \<in> set (map snd ps). \<exists>x. co_producers s p = Some x \<and> slab_inv x)"

definition total_avail :: "coordinator \<Rightarrow> (nat \<times> nat) list \<Rightarrow> int" where
  "total_avail s ps = sum_list (map (avail_of s) (map snd ps))"

lemma avail_nonneg: "slabs_ok s ps \<Longrightarrow> p \<in> set (map snd ps) \<Longrightarrow> 0 \<le> avail_of s p"
  by (fastforce simp: slabs_ok_def avail_of_def slab_inv_def)

lemma total_zero_iff:
  assumes "slabs_ok s ps"
  shows "total_avail s ps \<le> 0 \<longleftrightarrow> (\<forall>p \<in> set (map snd ps). avail_of s p = 0)"
proof -
  let ?xs = "map (avail_of s) (map snd ps)"
  have nn: "0 \<le> x" if "x \<in> set ?xs" for x
    using that avail_nonneg [OF assms] by auto
  then have "0 \<le> sum_list ?xs" by (rule sum_list_nonneg)
  with sum_list_nonneg_eq_0_iff [of ?xs] nn show ?thesis
    unfolding total_avail_def by fastforce
qed

text \<open>With nothing left, the scan runs into the tail sentinel and its null producer.\<close>

lemma alloc_scan_empty:
  assumes "dl_seg (co_nodes s) pv cur xs tail" "length xs < n"
    and "\<forall>p \<in> set (map snd xs). \<exists>x. co_producers s p = Some x \<and> pi_available_slabs x = 0"
  shows "alloc_scan n requested (Some cur) s = Inl NullDeref"
  using assms
proof (induction xs arbitrary: pv cur n)
  case Nil
  then show ?case by (cases n) (auto simp: node_at_def ptr_def)
next
  case (Cons a xs)
  obtain q p where a: "a = (q, p)" by force
  obtain m where m: "n = Suc m" using Cons.prems(2) by (cases n) auto
  from Cons.prems(1) a obtain nx where q: "cur = q"
    "co_nodes s q = Some \<lparr>dn_item = Some p, dn_next = Some nx, dn_prev = Some pv\<rparr>"
    "dl_seg (co_nodes s) q nx xs tail" by auto
  have "alloc_scan m requested (Some nx) s = Inl NullDeref"
    by (rule Cons.IH [OF q(3)]) (use Cons.prems m in auto)
  with q m a Cons.prems(3) show ?case
    by (auto simp: node_at_def ptr_def heap_at_def)
qed

lemma alloc_scan_first:
  assumes "dl_seg (co_nodes s) pv cur (xs @ (nd, p) # ys) tail" "length xs < n"
    and "\<forall>q \<in> set (map snd xs). \<exists>x. co_producers s q = Some x \<and> pi_available_slabs x = 0"
    and "co_producers s p = Some x" "slab_inv x" "0 < pi_available_slabs x" "0 < requested"
  shows "\<exists>y. alloc_scan n requested (Some cur) s =
      Inr (min requested (pi_available_slabs x), Some (p, addr_from_slab x (next_free x)),
        put_producer p y s) \<and> grant x (min requested (pi_available_slabs x)) y"
  using assms(1-3)
proof (induction xs arbitrary: pv cur n)
  case Nil
  obtain m where m: "n = Suc m" using Nil.prems(2) by (cases n) auto
  let ?g = "min requested (pi_available_slabs x)"
  have g: "(if pi_nslabs x - next_free x \<ge> requested then requested else pi_nslabs x - next_free x) = ?g"
    by (simp add: next_free_def min_def)
  from grant_bits [OF assms(5), of ?g] assms(6,7) obtain bm where
    "set_bits (pi_flag x) (next_free x) (nat ?g) = Inr bm"
    "grant x ?g (x\<lparr>pi_flag := bm, pi_available_slabs := pi_available_slabs x - ?g\<rparr>)" by auto
  with Nil.prems m g assms(4,6) find_available_slabs_inv [OF assms(5,6)] show ?case
    by (auto simp: node_at_def ptr_def heap_at_def Let_def)
next
  case (Cons a xs)
  obtain q r where a: "a = (q, r)" by force
  obtain m where m: "n = Suc m" using Cons.prems(2) by (cases n) auto
  from Cons.prems(1) a obtain nx where q: "cur = q"
    "co_nodes s q = Some \<lparr>dn_item = Some r, dn_next = Some nx, dn_prev = Some pv\<rparr>"
    "dl_seg (co_nodes s) q nx (xs @ (nd, p) # ys) tail" by auto
  from Cons.IH [OF q(3), of m] Cons.prems(2,3) m have
    "\<exists>y. alloc_scan m requested (Some nx) s =
      Inr (min requested (pi_available_slabs x), Some (p, addr_from_slab x (next_free x)),
        put_producer p y s) \<and> grant x (min requested (pi_available_slabs x)) y" by auto
  with q m a Cons.prems(3) show ?case
    by (auto simp: node_at_def ptr_def heap_at_def)
qed

lemma alloc_next_empty:
  assumes "slabs_ok s ps" "total_avail s ps \<le> 0"
  shows "alloc_next_slabs requested s = Inl NullDeref"
proof -
  from assms(1) obtain p where
    "co_nodes s (co_phead s) = Some \<lparr>dn_item = None, dn_next = Some p, dn_prev = None\<rparr>"
    and seg: "dl_seg (co_nodes s) (co_phead s) p ps (co_ptail s)" and len: "length ps < list_bound s"
    by (auto simp: slabs_ok_def dl_repr_def list_bound_def)
  moreover have "\<forall>q \<in> set (map snd ps). \<exists>x. co_producers s q = Some x \<and> pi_available_slabs x = 0"
    using assms total_zero_iff [OF assms(1)] by (fastforce simp: slabs_ok_def avail_of_def)
  from alloc_scan_empty [OF seg len this] have
    "alloc_scan (list_bound s) requested (Some p) s = Inl NullDeref" .
  ultimately show ?thesis by (simp add: alloc_next_slabs_def head_next_def node_at_def)
qed

lemma alloc_next_first:
  assumes ok: "slabs_ok s ps" and pos: "0 < total_avail s ps" "0 < requested"
  shows "\<exists>p x y. p \<in> set (map snd ps) \<and> co_producers s p = Some x \<and> 0 < pi_available_slabs x \<and>
    alloc_next_slabs requested s =
      Inr (min requested (pi_available_slabs x), Some (p, addr_from_slab x (next_free x)),
        put_producer p y s) \<and> grant x (min requested (pi_available_slabs x)) y"
proof -
  from total_zero_iff [OF ok] pos(1) obtain q where "q \<in> set (map snd ps)" "avail_of s q \<noteq> 0"
    by auto
  then have "\<exists>z \<in> set ps. avail_of s (snd z) \<noteq> 0" by auto
  from split_list_first_prop [OF this] obtain xs b ys where
    ps: "ps = xs @ b # ys" "avail_of s (snd b) \<noteq> 0" "\<forall>z \<in> set xs. avail_of s (snd z) = 0"
    by blast
  obtain nd p where b: "b = (nd, p)" by force
  from ok ps b obtain x where x: "co_producers s p = Some x" "slab_inv x"
    by (auto simp: slabs_ok_def)
  have x0: "0 < pi_available_slabs x"
    using x ps(2) b by (auto simp: avail_of_def slab_inv_def)
  from ok obtain p0 where
    h: "co_nodes s (co_phead s) = Some \<lparr>dn_item = None, dn_next = Some p0, dn_prev = None\<rparr>"
    and seg: "dl_seg (co_nodes s) (co_phead s) p0 (xs @ (nd, p) # ys) (co_ptail s)"
    and len: "length xs < list_bound s"
    using ps b by (auto simp: slabs_ok_def dl_repr_def list_bound_def)
  have "\<forall>q \<in> set (map snd xs). \<exists>x. co_producers s q = Some x \<and> pi_available_slabs x = 0"
  proof
    fix q assume "q \<in> set (map snd xs)"
    then have "q \<in> set (map snd ps)" "avail_of s q = 0" using ps(1,3) by auto
    with ok show "\<exists>x. co_producers s q = Some x \<and> pi_available_slabs x = 0"
      unfolding slabs_ok_def avail_of_def by force
  qed
  from alloc_scan_first [OF seg len this x x0 pos(2)] h x x0 ps b show ?thesis
    by (auto simp: alloc_next_slabs_def head_next_def node_at_def)
qed

section \<open>A request for slabs\<close>

text \<open>A grant names a producer, its first slab and the number of slabs.\<close>

type_synonym slab_grant = "nat \<times> int \<times> int"

definition grant_msg :: "coordinator \<Rightarrow> slab_grant \<Rightarrow> message" where
  "grant_msg s g =
     (case g of (p, first, n) \<Rightarrow>
        let x = the (co_producers s p) in
        \<lparr>msg_type = MSG_SLAB_ADD_PARTIAL, msg_addr = addr_from_slab x first, msg_ip = pi_ip x,
         msg_port = pi_port x, msg_id = pi_id x, msg_rdmakey = pi_rdmakey x, msg_nslabs = n\<rparr>)"

definition grantable :: "coordinator \<Rightarrow> slab_grant \<Rightarrow> bool" where
  "grantable s g \<longleftrightarrow> (case g of (p, first, n) \<Rightarrow>
     \<exists>x. co_producers s p = Some x \<and> first = next_free x \<and> 0 < n \<and> n \<le> pi_available_slabs x)"

definition granted_of :: "slab_grant list \<Rightarrow> nat \<Rightarrow> int" where
  "granted_of gs p = sum_list (map (\<lambda>(q, first, n). if q = p then n else 0) gs)"

lemma grant_trans: "grant x a y \<Longrightarrow> grant y b z \<Longrightarrow> grant x (a + b) z"
  by (auto simp: grant_def algebra_simps)

lemma grant_zero: "slab_inv x \<Longrightarrow> grant x 0 x"
  unfolding grant_def by (intro conjI exI [of _ "pi_flag x"]) simp_all

lemma grant_static:
  "grant x g y \<Longrightarrow> pi_ip y = pi_ip x \<and> pi_port y = pi_port x \<and> pi_id y = pi_id x \<and>
    pi_rdmakey y = pi_rdmakey x \<and> pi_nslabs y = pi_nslabs x \<and> pi_memaddr y = pi_memaddr x \<and>
    pi_lstptr y = pi_lstptr x \<and> pi_available_slabs y = pi_available_slabs x - g \<and> slab_inv y"
  by (auto simp: grant_def)

text \<open>One partial answer is sent over a connection that works.\<close>

definition conn_ok :: "coordinator \<Rightarrow> nat \<Rightarrow> bool" where
  "conn_ok s c \<longleftrightarrow> (\<exists>k. co_conns s c = Some k \<and> cn_connected k \<and> cn_qp_ok k)"

lemma send_partial_result:
  assumes "co_conns s c = Some k" "cn_connected k" "cn_qp_ok k"
    and "co_producers s p = Some x" "length (pi_ip x) < 200"
  shows "\<exists>k'. send_partial c p addr n s = Inr (put_conn c k' s) \<and>
    k' = k\<lparr>cn_posted := cn_posted k + 1, cn_send_msg :=
      \<lparr>msg_type = MSG_SLAB_ADD_PARTIAL, msg_addr = addr, msg_ip = pi_ip x, msg_port = pi_port x,
       msg_id = pi_id x, msg_rdmakey = pi_rdmakey x, msg_nslabs = n\<rparr>,
      cn_sent := cn_sent k @ [\<lparr>msg_type = MSG_SLAB_ADD_PARTIAL, msg_addr = addr, msg_ip = pi_ip x,
       msg_port = pi_port x, msg_id = pi_id x, msg_rdmakey = pi_rdmakey x, msg_nslabs = n\<rparr>]\<rparr>"
  using assms
  by (cases k; cases "cn_send_msg k")
    (simp add: send_partial_def heap_at_def copy_str_def set_send_msg_def post_receives_def
      send_message_def put_conn_def)

lemma slabs_ok_grant:
  assumes "slabs_ok s ps" "co_producers s p = Some x" "grant x g y"
  shows "slabs_ok (put_producer p y s) ps"
  using assms grant_static [OF assms(3)] by (auto simp: slabs_ok_def put_producer_def)

lemma slabs_ok_conn: "slabs_ok (put_conn c k s) ps = slabs_ok s ps"
  by (simp add: slabs_ok_def put_conn_def)

lemma total_avail_conn: "total_avail (put_conn c k s) ps = total_avail s ps"
proof -
  have "avail_of (put_conn c k s) = avail_of s" by (simp add: fun_eq_iff avail_of_def put_conn_def)
  then show ?thesis by (simp add: total_avail_def)
qed

lemma total_avail_grant:
  assumes "slabs_ok s ps" "p \<in> set (map snd ps)" "co_producers s p = Some x" "grant x g y"
  shows "total_avail (put_producer p y s) ps = total_avail s ps - g"
proof -
  have upd: "avail_of (put_producer p y s) q = avail_of s q - (if q = p then g else 0)" for q
    using assms(3) grant_static [OF assms(4)] by (simp add: avail_of_def put_producer_def)
  have "sum_list (map (\<lambda>q. f q - (if q = p then g else 0)) xs) = sum_list (map f xs) - g"
    if "distinct xs" "p \<in> set xs" for f :: "nat \<Rightarrow> int" and xs
    using that
  proof (induction xs)
    case (Cons z xs)
    have "sum_list (map (\<lambda>q. f q - (if q = p then g else 0)) xs) = sum_list (map f xs)"
      if "p \<notin> set xs" using that by (intro arg_cong [where f = sum_list] map_cong) auto
    with Cons show ?case by auto
  qed simp
  from this [of "map snd ps" "avail_of s"] assms(1,2) show ?thesis
    unfolding total_avail_def upd by (simp add: slabs_ok_def)
qed

text \<open>
  What a request for \<open>requested\<close> slabs does: the grants \<open>gs\<close> that were sent, at most one for
  each producer, each starting at the first free slab of its producer.
\<close>

definition serves :: "nat \<Rightarrow> int \<Rightarrow> coordinator \<Rightarrow> coordinator \<Rightarrow> slab_grant list \<Rightarrow> bool" where
  "serves c requested s s' gs \<longleftrightarrow>
     (\<exists>k k'. co_conns s c = Some k \<and> co_conns s' c = Some k' \<and>
        cn_sent k' = cn_sent k @ map (grant_msg s) gs \<and> cn_connected k \<and> cn_connected k' \<and>
        cn_qp_ok k' \<and>
        cn_peer k' = cn_peer k \<and> (\<forall>d. d \<noteq> c \<longrightarrow> co_conns s' d = co_conns s d)) \<and>
     distinct (map fst gs) \<and> list_all (grantable s) gs \<and>
     sum_list (map (\<lambda>(p, first, n). n) gs) = requested \<and>
     (\<forall>p x. co_producers s p = Some x \<longrightarrow> slab_inv x \<longrightarrow>
        (\<exists>y. co_producers s' p = Some y \<and> grant x (granted_of gs p) y)) \<and>
     (\<forall>p. co_producers s p = None \<longrightarrow> co_producers s' p = None) \<and>
     co_nodes s' = co_nodes s \<and> co_consumers s' = co_consumers s \<and> co_next s' = co_next s \<and>
     co_phead s' = co_phead s \<and> co_ptail s' = co_ptail s \<and> co_chead s' = co_chead s \<and>
     co_ctail s' = co_ctail s \<and> co_producer_id s' = co_producer_id s \<and>
     co_producer_map s' = co_producer_map s"

lemma serves_nil:
  assumes "conn_ok s c"
  shows "serves c 0 s s []"
  using assms grant_zero by (fastforce simp: serves_def conn_ok_def granted_of_def)

lemma granted_of_absent: "p \<notin> set (map fst gs) \<Longrightarrow> granted_of gs p = 0"
  by (induction gs) (auto simp: granted_of_def)

lemma granted_of_member:
  "(p, first, n) \<in> set gs \<Longrightarrow> distinct (map fst gs) \<Longrightarrow> granted_of gs p = n"
proof (induction gs)
  case (Cons a gs)
  show ?case
  proof (cases "a = (p, first, n)")
    case True
    then have "p \<notin> set (map fst gs)" using Cons.prems(2) by simp
    with granted_of_absent [of p gs] True show ?thesis by (simp add: granted_of_def)
  next
    case False
    then have m: "(p, first, n) \<in> set gs" using Cons.prems(1) by simp
    then have "p \<in> set (map fst gs)" by force
    with Cons.prems(2) have "fst a \<noteq> p" by auto
    with Cons.IH [OF m] Cons.prems(2) show ?thesis
      by (auto simp: granted_of_def split: prod.splits)
  qed
qed simp

text \<open>The grants of the rest of the request are also grants of the state before it.\<close>

lemma serves_step:
  assumes p: "co_producers s p = Some x" "slab_inv x" "0 < pi_available_slabs x"
    and g: "g = min requested (pi_available_slabs x)" "0 < requested" "grant x g y"
    and k: "co_conns s c = Some k" "cn_connected k" "cn_qp_ok k"
    and s2: "s2 = put_conn c (k\<lparr>cn_posted := n, cn_send_msg := m, cn_sent := cn_sent k @
        [grant_msg s (p, next_free x, g)]\<rparr>) (put_producer p y s)"
    and r: "serves c (requested - g) s2 s' gs" and rest: "requested - g = 0 \<longrightarrow> gs = []"
  shows "serves c requested s s' ((p, next_free x, g) # gs)"
proof -
  note y = grant_static [OF g(3)]
  have sg: "q \<noteq> p" if "(q, f, i) \<in> set gs" for q f i
  proof
    assume "q = p"
    with that r have "grantable s2 (p, f, i)" by (auto simp: serves_def list_all_iff)
    then have "0 < i" "i \<le> pi_available_slabs x - g"
      using s2 y by (auto simp: grantable_def put_conn_def put_producer_def)
    with rest g(1,2) that show False by (auto simp: min_def split: if_splits)
  qed
  have pgs: "p \<notin> set (map fst gs)"
  proof
    assume "p \<in> set (map fst gs)"
    then obtain f i where "(p, f, i) \<in> set gs" by auto
    with sg show False by blast
  qed
  have msg: "grant_msg s2 a = grant_msg s a" for a
    using p(1) s2 y by (auto simp: grant_msg_def put_conn_def put_producer_def Let_def
        addr_from_slab_def split: prod.splits)
  have gr: "list_all (grantable s) gs"
  proof (rule list_all_iff [THEN iffD2], rule ballI)
    fix a assume a: "a \<in> set gs"
    obtain q f i where q: "a = (q, f, i)" by (cases a) auto
    from a r have "grantable s2 a" by (auto simp: serves_def list_all_iff)
    with sg [of q f i] a q s2 show "grantable s a"
      by (auto simp: grantable_def put_conn_def put_producer_def)
  qed
  have gp: "grantable s (p, next_free x, g)"
    using p g by (auto simp: grantable_def)
  have prod: "\<exists>z. co_producers s' q = Some z \<and> grant w (granted_of ((p, next_free x, g) # gs) q) z"
    if w: "co_producers s q = Some w" "slab_inv w" for q w
  proof (cases "q = p")
    case True
    have "co_producers s2 p = Some y" using s2 by (simp add: put_conn_def put_producer_def)
    with r y obtain z where "co_producers s' p = Some z" "grant y (granted_of gs p) z"
      unfolding serves_def by blast
    with grant_trans [OF g(3)] True w p(1) show ?thesis by (auto simp: granted_of_def)
  next
    case False
    then have "co_producers s2 q = Some w" using s2 w by (simp add: put_conn_def put_producer_def)
    with r w(2) obtain z where "co_producers s' q = Some z" "grant w (granted_of gs q) z"
      unfolding serves_def by blast
    with False show ?thesis by (auto simp: granted_of_def)
  qed
  have none: "co_producers s' q = None" if "co_producers s q = None" for q
  proof -
    have "co_producers s2 q = None"
      using that p(1) s2 by (auto simp: put_conn_def put_producer_def)
    with r show ?thesis unfolding serves_def by blast
  qed
  show ?thesis
    using r pgs gr gp prod none k s2 msg
    unfolding serves_def by (auto simp: put_conn_def put_producer_def)
qed

text \<open>One round of the loop grants the free slabs of the first producer that has any.\<close>

lemma slabs_add_step:
  assumes ok: "slabs_ok s ps" and c: "conn_ok s c" and pos: "0 < requested" "0 < total_avail s ps"
  obtains p x y k g m s2 where "co_producers s p = Some x" "slab_inv x" "0 < pi_available_slabs x"
    "g = min requested (pi_available_slabs x)" "grant x g y"
    "co_conns s c = Some k" "cn_connected k" "cn_qp_ok k" "m = grant_msg s (p, next_free x, g)"
    "s2 = put_conn c (k\<lparr>cn_posted := cn_posted k + 1, cn_send_msg := m, cn_sent := cn_sent k @
        [m]\<rparr>) (put_producer p y s)"
    "slabs_add_loop c requested s = slabs_add_loop c (requested - g) s2"
    "slabs_ok s2 ps" "conn_ok s2 c" "total_avail s2 ps = total_avail s ps - g"
proof -
  from alloc_next_first [OF ok pos(2,1)] obtain p x y where
    p: "p \<in> set (map snd ps)" "co_producers s p = Some x" "0 < pi_available_slabs x"
    and al: "alloc_next_slabs requested s = Inr (min requested (pi_available_slabs x),
      Some (p, addr_from_slab x (next_free x)), put_producer p y s)"
    and gy: "grant x (min requested (pi_available_slabs x)) y" by blast
  let ?g = "min requested (pi_available_slabs x)"
  let ?s1 = "put_producer p y s"
  from c obtain k where k: "co_conns s c = Some k" "cn_connected k" "cn_qp_ok k"
    by (auto simp: conn_ok_def)
  have x: "slab_inv x" using ok p by (auto simp: slabs_ok_def)
  note y = grant_static [OF gy]
  have k1: "co_conns ?s1 c = Some k" "co_producers ?s1 p = Some y"
    using k by (simp_all add: put_producer_def)
  have ipy: "length (pi_ip y) < 200" using y unfolding slab_inv_def by blast
  let ?m = "grant_msg s (p, next_free x, ?g)"
  let ?s2 = "put_conn c (k\<lparr>cn_posted := cn_posted k + 1, cn_send_msg := ?m,
    cn_sent := cn_sent k @ [?m]\<rparr>) ?s1"
  have sp: "send_partial c p (addr_from_slab x (next_free x)) ?g ?s1 = Inr ?s2"
    using send_partial_result [OF k1(1) k(2,3) k1(2) ipy, of "addr_from_slab x (next_free x)" ?g]
      y p(2) by (simp add: grant_msg_def Let_def)
  show ?thesis
  proof (rule that [OF p(2) x p(3) refl gy k refl refl])
    show "slabs_add_loop c requested s = slabs_add_loop c (requested - ?g) ?s2"
      using pos al sp p(3) by (subst slabs_add_loop.simps) auto
    show "slabs_ok ?s2 ps"
      using slabs_ok_grant [OF ok p(2) gy] by (simp add: slabs_ok_conn)
    show "conn_ok ?s2 c" using k by (simp add: conn_ok_def put_conn_def)
    show "total_avail ?s2 ps = total_avail s ps - ?g"
      using total_avail_grant [OF ok p(1,2) gy] by (simp add: total_avail_conn)
  qed
qed

lemma slabs_add_loop_serves:
  "slabs_ok s ps \<Longrightarrow> conn_ok s c \<Longrightarrow> 0 \<le> requested \<Longrightarrow> requested \<le> total_avail s ps \<Longrightarrow>
    \<exists>s' gs. slabs_add_loop c requested s = Inr s' \<and> serves c requested s s' gs \<and>
      (requested = 0 \<longrightarrow> gs = [])"
proof (induction "nat requested" arbitrary: requested s rule: less_induct)
  case less
  show ?case
  proof (cases "requested = 0")
    case True
    with serves_nil [OF less.prems(2)] show ?thesis by (subst slabs_add_loop.simps) auto
  next
    case False
    with less.prems(3,4) have pos: "0 < requested" "0 < total_avail s ps" by auto
    from slabs_add_step [OF less.prems(1,2) pos] obtain p x y k g m s2 where
      p: "co_producers s p = Some x" "slab_inv x" "0 < pi_available_slabs x"
      and g: "g = min requested (pi_available_slabs x)" "grant x g y"
      and k: "co_conns s c = Some k" "cn_connected k" "cn_qp_ok k"
      and m: "m = grant_msg s (p, next_free x, g)"
      and s2: "s2 = put_conn c (k\<lparr>cn_posted := cn_posted k + 1, cn_send_msg := m, cn_sent := cn_sent k @
        [m]\<rparr>) (put_producer p y s)"
      and loop: "slabs_add_loop c requested s = slabs_add_loop c (requested - g) s2"
      and ok2: "slabs_ok s2 ps" "conn_ok s2 c" "total_avail s2 ps = total_avail s ps - g" .
    have dec: "nat (requested - g) < nat requested" "0 \<le> requested - g" using pos p(3) g(1) by auto
    from less.hyps [OF dec(1) ok2(1,2) dec(2)] less.prems(4) ok2(3) obtain s' gs where
      r: "slabs_add_loop c (requested - g) s2 = Inr s'" "serves c (requested - g) s2 s' gs"
      "requested - g = 0 \<longrightarrow> gs = []" by auto
    have "serves c requested s s' ((p, next_free x, g) # gs)"
      by (rule serves_step [OF p g(1) pos(1) g(2) k s2 [unfolded m] r(2,3)])
    with loop r(1) False show ?thesis by auto
  qed
qed

text \<open>A request for more than there is ends with the null producer of the tail sentinel.\<close>

lemma slabs_add_loop_crash:
  "slabs_ok s ps \<Longrightarrow> conn_ok s c \<Longrightarrow> 0 < requested \<Longrightarrow> total_avail s ps < requested \<Longrightarrow>
    slabs_add_loop c requested s = Inl NullDeref"
proof (induction "nat requested" arbitrary: requested s rule: less_induct)
  case less
  show ?case
  proof (cases "0 < total_avail s ps")
    case False
    with alloc_next_empty [OF less.prems(1)] less.prems(3) show ?thesis
      by (subst slabs_add_loop.simps) simp
  next
    case True
    from slabs_add_step [OF less.prems(1,2,3) True] obtain p x y k g m s2 where
      p: "co_producers s p = Some x" "slab_inv x" "0 < pi_available_slabs x"
      and g: "g = min requested (pi_available_slabs x)" "grant x g y"
      and loop: "slabs_add_loop c requested s = slabs_add_loop c (requested - g) s2"
      and ok2: "slabs_ok s2 ps" "conn_ok s2 c" "total_avail s2 ps = total_avail s ps - g" .
    have "0 \<le> total_avail s2 ps"
      unfolding total_avail_def by (rule sum_list_nonneg) (use avail_nonneg [OF ok2(1)] in auto)
    with less.prems(4) ok2(3) have "0 < requested - g" "total_avail s2 ps < requested - g" by auto
    with less.hyps [OF _ ok2(1,2)] p(3) g(1) less.prems(3) loop show ?thesis by auto
  qed
qed

end
