(* ===== verification/Coordinator_Inv.thy ===== *)
theory Coordinator_Inv
  imports Coordinator_Slabs
begin

text \<open>
  The invariant of the coordinator and that it is kept, without failures, by every event of
  peers that keep the protocol: a producer registers once, under an address that no
  registered producer has, and removes what it registered; a consumer requests no more
  slabs than there are.
\<close>

section \<open>The invariant\<close>

definition inv_nodes :: "coordinator \<Rightarrow> (nat \<times> nat) list \<Rightarrow> (nat \<times> nat) list \<Rightarrow> bool" where
  "inv_nodes s ps cs \<longleftrightarrow> slabs_ok s ps \<and>
     dl_repr (co_nodes s) (co_chead s) (co_ctail s) cs \<and>
     set (co_phead s # co_ptail s # map fst ps) \<inter> set (co_chead s # co_ctail s # map fst cs) = {} \<and>
     (\<forall>a \<ge> co_next s. co_nodes s a = None \<and> co_producers s a = None \<and> co_consumers s a = None \<and>
        co_conns s a = None)"

definition inv_items :: "coordinator \<Rightarrow> (nat \<times> nat) list \<Rightarrow> (nat \<times> nat) list \<Rightarrow> bool" where
  "inv_items s ps cs \<longleftrightarrow>
     (\<forall>nd p. (nd, p) \<in> set ps \<longrightarrow> (\<exists>x. co_producers s p = Some x \<and> pi_lstptr x = Some nd)) \<and>
     dom (co_producers s) = set (map snd ps) \<and> dom (co_consumers s) = set (map snd cs)"

definition inv_conns :: "(nat \<rightharpoonup> consumer_info_t) \<Rightarrow> (nat \<rightharpoonup> connection) \<Rightarrow> bool" where
  "inv_conns C K \<longleftrightarrow> (\<forall>c k. K c = Some k \<longrightarrow>
     (cn_peer k = None \<longrightarrow> \<not> cn_connected k) \<and> (\<forall>i. cn_peer k = Some i \<longrightarrow> C i \<noteq> None))"

definition inv_owner :: "(nat \<rightharpoonup> consumer_info_t) \<Rightarrow> (nat \<rightharpoonup> producer_info_t) \<Rightarrow> bool" where
  "inv_owner C P \<longleftrightarrow>
     (\<forall>i cli p. C i = Some cli \<longrightarrow> ci_producer cli = Some p \<longrightarrow> P p \<noteq> None) \<and>
     (\<forall>i j cli clj p. C i = Some cli \<longrightarrow> C j = Some clj \<longrightarrow>
        ci_producer cli = Some p \<longrightarrow> ci_producer clj = Some p \<longrightarrow> i = j)"

definition inv_peers :: "coordinator \<Rightarrow> bool" where
  "inv_peers s \<longleftrightarrow> inv_conns (co_consumers s) (co_conns s) \<and>
     inv_owner (co_consumers s) (co_producers s)"

definition co_inv :: "coordinator \<Rightarrow> bool" where
  "co_inv s \<longleftrightarrow> (\<exists>ps cs. inv_nodes s ps cs \<and> inv_items s ps cs) \<and> inv_peers s \<and>
     1 \<le> co_producer_id s \<and> co_producer_id s \<le> MAX_PRODUCER + 2"

lemma inv_conns_upd:
  "inv_conns C K \<Longrightarrow> (cn_peer k = None \<Longrightarrow> \<not> cn_connected k) \<Longrightarrow>
    (\<And>i. cn_peer k = Some i \<Longrightarrow> C i \<noteq> None) \<Longrightarrow> inv_conns C (K(c \<mapsto> k))"
  unfolding inv_conns_def by simp

lemma inv_conns_del: "inv_conns C K \<Longrightarrow> inv_conns C (K(c := None))"
  unfolding inv_conns_def by simp

lemma inv_conns_mono:
  "inv_conns C K \<Longrightarrow> (\<And>i. C i \<noteq> None \<Longrightarrow> C' i \<noteq> None) \<Longrightarrow> inv_conns C' K"
  unfolding inv_conns_def by blast

lemmas co_upds = put_producer_def put_consumer_def put_conn_def

lemma co_invI:
  "inv_nodes s ps cs \<Longrightarrow> inv_items s ps cs \<Longrightarrow> inv_peers s \<Longrightarrow> 1 \<le> co_producer_id s \<Longrightarrow>
    co_producer_id s \<le> MAX_PRODUCER + 2 \<Longrightarrow> co_inv s"
  by (auto simp: co_inv_def)

lemma co_invE:
  assumes "co_inv s"
  obtains ps cs where "inv_nodes s ps cs" "inv_items s ps cs" "inv_peers s" "1 \<le> co_producer_id s"
    "co_producer_id s \<le> MAX_PRODUCER + 2"
  using assms by (auto simp: co_inv_def)

lemma inv_nodesD:
  assumes "inv_nodes s ps cs"
  shows "slabs_ok s ps" "dl_repr (co_nodes s) (co_chead s) (co_ctail s) cs"
    "dl_repr (co_nodes s) (co_phead s) (co_ptail s) ps"
    "\<And>a. a \<in> set (co_phead s # co_ptail s # map fst ps) \<Longrightarrow>
      a \<notin> set (co_chead s # co_ctail s # map fst cs)"
    "\<And>a. co_next s \<le> a \<Longrightarrow> co_nodes s a = None \<and> co_producers s a = None \<and>
      co_consumers s a = None \<and> co_conns s a = None"
  using assms unfolding inv_nodes_def slabs_ok_def by blast+

text \<open>Changes that touch neither the lists nor the producers keep the node part.\<close>

lemma inv_nodes_same:
  assumes "inv_nodes s ps cs" "co_nodes s' = co_nodes s" "co_phead s' = co_phead s"
    "co_ptail s' = co_ptail s" "co_chead s' = co_chead s" "co_ctail s' = co_ctail s"
    "co_next s \<le> co_next s'"
    and "\<And>p x. co_producers s p = Some x \<Longrightarrow> \<exists>y. co_producers s' p = Some y \<and> (slab_inv x \<longrightarrow> slab_inv y)"
    and "\<And>a. co_next s' \<le> a \<Longrightarrow>
      co_producers s' a = None \<and> co_consumers s' a = None \<and> co_conns s' a = None"
  shows "inv_nodes s' ps cs"
proof -
  have "\<exists>y. co_producers s' p = Some y \<and> slab_inv y" if "p \<in> set (map snd ps)" for p
    using that inv_nodesD(1) [OF assms(1)] assms(8) unfolding slabs_ok_def by blast
  moreover have "\<forall>a \<ge> co_next s'. co_nodes s' a = None"
    using inv_nodesD(5) [OF assms(1)] assms(2,7) by simp
  ultimately show ?thesis
    using assms(1-7,9) unfolding inv_nodes_def slabs_ok_def by auto
qed

section \<open>Connections\<close>

lemma connect_inv:
  assumes "co_inv s"
  shows "\<exists>c s'. on_connect_request True garbage s = Inr (c, s') \<and> co_inv s' \<and>
    co_conns s' = (co_conns s)(c \<mapsto> \<lparr>cn_peer = None, cn_connected = False, cn_qp_ok = True,
      cn_recv_msg = garbage, cn_send_msg = garbage, cn_posted = 1, cn_sent = []\<rparr>)"
proof -
  from assms obtain ps cs where inv: "inv_nodes s ps cs" "inv_items s ps cs" "inv_peers s"
    "1 \<le> co_producer_id s" "co_producer_id s \<le> MAX_PRODUCER + 2" by (rule co_invE)
  let ?k = "\<lparr>cn_peer = None, cn_connected = False, cn_qp_ok = True,
      cn_recv_msg = garbage, cn_send_msg = garbage, cn_posted = 1, cn_sent = []\<rparr>"
  let ?s = "s\<lparr>co_next := co_next s + 1, co_conns := (co_conns s)(co_next s \<mapsto> ?k)\<rparr>"
  have "on_connect_request True garbage s = Inr (co_next s, ?s)"
    by (simp add: on_connect_request_def build_connection_def alloc_def post_receives_def
        heap_at_def co_upds)
  moreover have "inv_nodes ?s ps cs"
    by (rule inv_nodes_same [OF inv(1)]) (use inv_nodesD(5) [OF inv(1)] in auto)
  moreover have "inv_items ?s ps cs" using inv(2) by (simp add: inv_items_def)
  moreover have "inv_peers ?s" using inv(3) by (auto simp: inv_peers_def intro: inv_conns_upd)
  ultimately show ?thesis using inv(4,5) co_invI [of ?s ps cs] by auto
qed

lemma disconnect_inv:
  assumes "co_inv s" "co_conns s c = Some k" "cn_peer k \<noteq> None"
  shows "\<exists>s'. on_disconnect c s = Inr s' \<and> co_inv s' \<and> co_conns s' = (co_conns s)(c := None)"
proof -
  from assms(1) obtain ps cs where inv: "inv_nodes s ps cs" "inv_items s ps cs" "inv_peers s"
    "1 \<le> co_producer_id s" "co_producer_id s \<le> MAX_PRODUCER + 2" by (rule co_invE)
  let ?s = "s\<lparr>co_conns := (co_conns s)(c := None)\<rparr>"
  from assms(3) obtain i where i: "cn_peer k = Some i" by auto
  with inv(3) assms(2) have "co_consumers s i \<noteq> None"
    unfolding inv_peers_def inv_conns_def by blast
  with assms(2) i have "on_disconnect c s = Inr ?s"
    by (auto simp: on_disconnect_def peer_of_def heap_at_def ptr_def destroy_connection_def co_upds)
  moreover have "inv_nodes ?s ps cs"
    by (rule inv_nodes_same [OF inv(1)]) (use inv_nodesD(5) [OF inv(1)] in auto)
  moreover have "inv_items ?s ps cs" using inv(2) by (simp add: inv_items_def)
  moreover have "inv_peers ?s" using inv(3) by (auto simp: inv_peers_def intro: inv_conns_del)
  ultimately show ?thesis using inv(4,5) co_invI [of ?s ps cs] by auto
qed

text \<open>Changing a connection's messages and queues.\<close>

lemma put_conn_inv:
  assumes "co_inv s" "co_conns s c = Some k" "cn_peer k' = cn_peer k" "cn_connected k' = cn_connected k"
  shows "co_inv (put_conn c k' s)"
proof -
  from assms(1) obtain ps cs where inv: "inv_nodes s ps cs" "inv_items s ps cs" "inv_peers s"
    "1 \<le> co_producer_id s" "co_producer_id s \<le> MAX_PRODUCER + 2" by (rule co_invE)
  have "c < co_next s" using inv_nodesD(5) [OF inv(1), of c] assms(2) by (metis not_le option.distinct(1))
  then have "inv_nodes (put_conn c k' s) ps cs"
    by (intro inv_nodes_same [OF inv(1)])
      (use inv_nodesD(5) [OF inv(1)] in \<open>auto simp: co_upds\<close>)
  moreover have "inv_items (put_conn c k' s) ps cs" using inv(2) by (simp add: inv_items_def co_upds)
  moreover have "inv_peers (put_conn c k' s)"
  proof -
    have "inv_conns (co_consumers s) ((co_conns s)(c \<mapsto> k'))"
      by (rule inv_conns_upd) (use inv(3) assms(2-4) in \<open>auto simp: inv_peers_def inv_conns_def\<close>)
    with inv(3) show ?thesis by (simp add: inv_peers_def co_upds)
  qed
  ultimately show ?thesis using inv(4,5) co_invI [of "put_conn c k' s" ps cs] by (simp add: co_upds)
qed

text \<open>The end of most handlers: post a receive and answer \<^verbatim>\<open>MSG_DONE\<close>.\<close>

lemma reply_done_inv:
  assumes "co_inv s" "conn_ok s c"
  shows "\<exists>s'. rbind (post_receives c s) (send_msg_done c) = Inr s' \<and> co_inv s' \<and> conn_ok s' c \<and>
    co_producers s' = co_producers s \<and> co_consumers s' = co_consumers s"
proof -
  from assms(2) obtain k where k: "co_conns s c = Some k" "cn_connected k" "cn_qp_ok k"
    by (auto simp: conn_ok_def)
  let ?m = "(cn_send_msg k)\<lparr>msg_type := MSG_DONE, msg_addr := 0\<rparr>"
  let ?k = "k\<lparr>cn_posted := cn_posted k + 1, cn_send_msg := ?m, cn_sent := cn_sent k @ [?m]\<rparr>"
  have "rbind (post_receives c s) (send_msg_done c) = Inr (put_conn c ?k s)"
    using k by (simp add: post_receives_def send_msg_done_def set_send_msg_def send_message_def
        heap_at_def put_conn_def)
  moreover have "co_inv (put_conn c ?k s)" by (rule put_conn_inv [OF assms(1) k(1)]) simp_all
  moreover have "conn_ok (put_conn c ?k s) c" using k by (simp add: conn_ok_def put_conn_def)
  ultimately show ?thesis by (auto simp: put_conn_def)
qed

section \<open>A consumer connects\<close>

lemma established_inv:
  assumes "co_inv s" "co_conns s c = Some k"
  shows "\<exists>s' i. on_connection c s = Inr s' \<and> co_inv s' \<and>
    co_conns s' = (co_conns s)(c \<mapsto> k\<lparr>cn_peer := Some i, cn_connected := True\<rparr>) \<and>
    co_consumers s i = None \<and> (\<exists>cli. co_consumers s' i = Some cli \<and> ci_producer cli = None) \<and>
    co_producers s' = co_producers s"
proof -
  from assms(1) obtain ps cs where inv: "inv_nodes s ps cs" "inv_items s ps cs" "inv_peers s"
    "1 \<le> co_producer_id s" "co_producer_id s \<le> MAX_PRODUCER + 2" by (rule co_invE)
  note d = inv_nodesD [OF inv(1)]
  let ?i = "co_next s" and ?nd = "co_next s + 1"
  have fresh: "co_nodes s ?nd = None" "co_nodes s ?i = None" "co_consumers s ?i = None"
    using d(5) by auto
  from dl_add_repr [OF d(2) fresh(1), of ?i] obtain h where
    h: "dl_add (co_chead s) ?nd ?i (co_nodes s) = Inr h"
      "dl_repr h (co_chead s) (co_ctail s) ((?nd, ?i) # cs)"
      "\<forall>a. a \<notin> set (?nd # co_chead s # co_ctail s # map fst cs) \<longrightarrow> h a = co_nodes s a" by blast
  let ?cli = "\<lparr>ci_lstptr = Some ?nd, ci_producer = None\<rparr>"
  let ?s = "s\<lparr>co_next := co_next s + 2, co_nodes := h,
    co_consumers := (co_consumers s)(?i \<mapsto> ?cli),
    co_conns := (co_conns s)(c \<mapsto> k\<lparr>cn_peer := Some ?i, cn_connected := True\<rparr>)\<rparr>"
  have "on_connection c s = Inr ?s"
    using assms(2) h(1) by (simp add: on_connection_def consumerlist_add_def alloc_def heap_at_def co_upds)
  moreover have "inv_nodes ?s ps ((?nd, ?i) # cs)"
  proof -
    have live: "a \<noteq> ?nd" if "a \<in> set (co_phead s # co_ptail s # map fst ps)" for a
      using dl_repr_live [OF d(3) that] fresh(1) by auto
    have "dl_repr h (co_phead s) (co_ptail s) ps"
      using dl_repr_cong [of "co_phead s" "co_ptail s" ps h "co_nodes s"] h(3) live d(3,4) by auto
    then have "slabs_ok ?s ps" using d(1) by (simp add: slabs_ok_def)
    moreover have "set (co_phead s # co_ptail s # map fst ps) \<inter>
        set (co_chead s # co_ctail s # map fst ((?nd, ?i) # cs)) = {}"
      using d(4) live by auto
    moreover have "co_nodes ?s a = None \<and> co_producers ?s a = None \<and> co_consumers ?s a = None \<and>
        co_conns ?s a = None" if "co_next ?s \<le> a" for a
    proof -
      have "a \<notin> set (co_chead s # co_ctail s # map fst cs)"
        using dl_repr_live [OF d(2), of a] d(5) [of a] that by auto
      moreover have "a \<noteq> c" using d(5) [of a] that assms(2) by auto
      ultimately show ?thesis using h(3) d(5) [of a] that by auto
    qed
    ultimately show ?thesis using h(2) by (simp add: inv_nodes_def)
  qed
  moreover have "inv_items ?s ps ((?nd, ?i) # cs)" using inv(2) by (auto simp: inv_items_def)
  moreover have "inv_peers ?s"
  proof -
    have base: "inv_conns (co_consumers s) (co_conns s)" using inv(3) by (simp add: inv_peers_def)
    have "inv_conns ((co_consumers s)(?i \<mapsto> ?cli)) (co_conns s)"
      by (rule inv_conns_mono [OF base]) simp
    then have "inv_conns (co_consumers ?s) (co_conns ?s)" by (auto intro: inv_conns_upd)
    moreover have "inv_owner (co_consumers ?s) (co_producers ?s)"
      using inv(3) unfolding inv_peers_def inv_owner_def by auto
    ultimately show ?thesis by (simp add: inv_peers_def)
  qed
  ultimately show ?thesis
    using inv(4,5) co_invI [of ?s ps "(?nd, ?i) # cs"] fresh(3) by (auto intro!: exI [of _ ?i])
qed

section \<open>A producer registers\<close>

text \<open>
  What a registration must satisfy: an address that fits with its port into 210 characters, a
  port other than 0 that no registered producer has at this address, a number of slabs that
  is an \<^verbatim>\<open>int\<close>, and an identifier that is free.
\<close>

definition add_ok :: "coordinator \<Rightarrow> message \<Rightarrow> bool" where
  "add_ok s m \<longleftrightarrow> length (msg_ip m) \<le> 197 \<and> is_int32 (msg_port m) \<and> msg_port m \<noteq> 0 \<and>
     0 \<le> msg_nslabs m \<and> msg_nslabs m < 2 ^ 31 \<and> co_producer_id s < MAX_PRODUCER + 2 \<and>
     (\<forall>p x. co_producers s p = Some x \<longrightarrow> pi_ip x = msg_ip m \<longrightarrow> pi_port x \<noteq> msg_port m)"

lemma get_producer_id_ok:
  assumes "length (pi_ip x) \<le> 197" "is_int32 (pi_port x)" "1 \<le> co_producer_id s"
    "co_producer_id s < MAX_PRODUCER + 2"
  shows "\<exists>i n f. get_producer_id x s = Inr (x\<lparr>pi_id := i\<rparr>,
    s\<lparr>co_producer_id := n, co_producer_map := f\<rparr>) \<and> 1 \<le> i \<and> 1 \<le> n \<and> n \<le> MAX_PRODUCER + 2"
proof -
  have len: "length (producer_hash (pi_ip x) (pi_port x)) < 210"
    using assms(1) length_print_int [OF assms(2)] by (simp add: producer_hash_def)
  have n: "to_int32 (co_producer_id s + 1) = co_producer_id s + 1"
    by (rule to_int32_id) (use assms(3,4) in \<open>simp add: is_int32_def MAX_PRODUCER_def\<close>)
  have ib: "in_bounds (nat (MAX_PRODUCER + 2)) (co_producer_id s)"
    using assms(3,4) by (simp add: in_bounds_def MAX_PRODUCER_def)
  show ?thesis
  proof (cases "find (\<lambda>i. co_producer_map s i = producer_hash (pi_ip x) (pi_port x))
      [1 ..< nat (min MAX_PRODUCER (co_producer_id s))]")
    case None
    with len n ib have "get_producer_id x s = Inr (x\<lparr>pi_id := co_producer_id s\<rparr>,
        s\<lparr>co_producer_id := co_producer_id s + 1, co_producer_map := (co_producer_map s)
          (nat (co_producer_id s) := producer_hash (pi_ip x) (pi_port x))\<rparr>)"
      by (simp add: get_producer_id_def copy_str_def Let_def)
    with assms(3,4) show ?thesis by fastforce
  next
    case (Some i)
    then have "i \<in> set [1 ..< nat (min MAX_PRODUCER (co_producer_id s))]"
      by (auto simp: find_Some_iff)
    then have "1 \<le> i" by simp
    moreover have "get_producer_id x s = Inr (x\<lparr>pi_id := int i\<rparr>,
        s\<lparr>co_producer_id := co_producer_id s, co_producer_map := co_producer_map s\<rparr>)"
      using Some len by (simp add: get_producer_id_def copy_str_def)
    ultimately show ?thesis using assms(3,4) by fastforce
  qed
qed

text \<open>A producer whose address and port are new is put in front of the list.\<close>

lemma not_duplicate:
  assumes ok: "slabs_ok s ps" and x: "co_producers s p = Some x" "pi_port x \<noteq> 0"
    and new: "\<And>q y. q \<in> set (map snd ps) \<Longrightarrow> co_producers s q = Some y \<Longrightarrow>
      pi_ip y = pi_ip x \<Longrightarrow> pi_port y \<noteq> pi_port x"
  shows "is_duplicate_producer p s = Inr (0, s)"
proof -
  let ?P = "\<lambda>q. rbind (producer_of s q) (\<lambda>y. Inr (pi_ip y = pi_ip x \<and> pi_port y = pi_port x))"
  have P: "?P (Some q) = Inr False" if q: "q \<in> set (map snd ps)" for q
  proof -
    from ok q obtain y where "co_producers s q = Some y" unfolding slabs_ok_def by blast
    with new [OF q] show ?thesis by (auto simp: producer_of_def ptr_def heap_at_def)
  qed
  have repr: "dl_repr (co_nodes s) (co_phead s) (co_ptail s) ps" "length ps < list_bound s"
    using ok by (auto simp: slabs_ok_def list_bound_def)
  from dl_find_repr [where P = ?P and Q = "\<lambda>_. False", OF repr P] obtain hd where
    "co_nodes s (co_phead s) = Some hd"
    "dl_find (list_bound s) ?P (co_nodes s) (co_ptail s) (dn_next hd) = Inr None"
    by (auto simp: find_None_iff)
  with x show ?thesis
    by (simp add: is_duplicate_producer_def heap_at_def head_next_def node_at_def)
qed

text \<open>The lists after a producer was put in front, with its node at the last address.\<close>

lemma inv_nodes_add:
  assumes inv: "inv_nodes s ps cs" and p: "p \<notin> set (map snd ps)" "p \<le> co_next s"
    and x: "slab_inv x"
    and h: "dl_repr h (co_phead s) (co_ptail s) ((co_next s + 1, p) # ps)"
      "\<forall>a. a \<notin> set ((co_next s + 1) # co_phead s # co_ptail s # map fst ps) \<longrightarrow> h a = co_nodes s a"
    and s': "co_nodes s' = h" "co_producers s' = (co_producers s)(p \<mapsto> x)" "co_next s' = co_next s + 2"
      "co_phead s' = co_phead s" "co_ptail s' = co_ptail s" "co_chead s' = co_chead s"
      "co_ctail s' = co_ctail s" "co_conns s' = co_conns s"
      "\<And>a. co_next s \<le> a \<Longrightarrow> co_consumers s' a = None"
  shows "inv_nodes s' ((co_next s + 1, p) # ps) cs"
proof -
  note d = inv_nodesD [OF inv]
  have live: "a \<noteq> co_next s + 1" if "a \<in> set (co_chead s # co_ctail s # map fst cs)" for a
    using dl_repr_live [OF d(2) that] d(5) [of "co_next s + 1"] by auto
  have nin: "a \<notin> set (co_phead s # co_ptail s # map fst ps)"
    if "a \<in> set (co_chead s # co_ctail s # map fst cs)" for a using d(4) that by blast
  have "dl_repr h (co_chead s) (co_ctail s) cs"
    using dl_repr_cong [of "co_chead s" "co_ctail s" cs h "co_nodes s"] h(2) live nin d(2) by auto
  moreover have "slabs_ok s' ((co_next s + 1, p) # ps)"
  proof -
    have "\<exists>y. co_producers s' q = Some y \<and> slab_inv y" if "q \<in> set (map snd ps)" for q
      using d(1) that p(1) by (auto simp: slabs_ok_def s')
    with d(1) h(1) p(1) x show ?thesis by (simp add: slabs_ok_def s')
  qed
  moreover have "set (co_phead s # co_ptail s # map fst ((co_next s + 1, p) # ps)) \<inter>
      set (co_chead s # co_ctail s # map fst cs) = {}" using nin live by auto
  moreover have "co_nodes s' a = None \<and> co_producers s' a = None \<and> co_consumers s' a = None \<and>
      co_conns s' a = None" if "co_next s' \<le> a" for a
  proof -
    have "a \<notin> set (co_phead s # co_ptail s # map fst ps)"
      using dl_repr_live [OF d(3), of a] d(5) [of a] that s'(3) by auto
    then show ?thesis using h(2) d(5) [of a] that p(2) by (simp add: s')
  qed
  ultimately show ?thesis by (simp add: inv_nodes_def s')
qed

lemma inv_peers_add:
  assumes "inv_peers s" "co_consumers s i = Some cli" "co_producers s p = None"
    and "co_consumers s' = (co_consumers s)(i \<mapsto> cli\<lparr>ci_producer := Some p\<rparr>)"
      "co_producers s' = (co_producers s)(p \<mapsto> x)" "co_conns s' = co_conns s"
  shows "inv_peers s'"
proof -
  have base: "inv_conns (co_consumers s) (co_conns s)" using assms(1) by (simp add: inv_peers_def)
  have "inv_conns ((co_consumers s)(i \<mapsto> cli\<lparr>ci_producer := Some p\<rparr>)) (co_conns s)"
    by (rule inv_conns_mono [OF base]) simp
  moreover have "inv_owner ((co_consumers s)(i \<mapsto> cli\<lparr>ci_producer := Some p\<rparr>))
      ((co_producers s)(p \<mapsto> x))"
  proof -
    have no: "ci_producer clj \<noteq> Some p" if "co_consumers s j = Some clj" for j clj
      using assms(1,3) that unfolding inv_peers_def inv_owner_def by blast
    from assms(1) show ?thesis
      unfolding inv_peers_def inv_owner_def by (auto simp: no)
  qed
  ultimately show ?thesis by (simp add: inv_peers_def assms(4-6))
qed

text \<open>The producer that a registration describes, and its place in the list.\<close>

definition new_producer :: "message \<Rightarrow> int \<Rightarrow> bitmap \<Rightarrow> nat option \<Rightarrow> producer_info_t" where
  "new_producer m i bm nd = \<lparr>pi_lstptr = nd, pi_ip = msg_ip m, pi_port = msg_port m,
     pi_rdmakey = msg_rdmakey m, pi_nslabs = msg_nslabs m, pi_available_slabs = msg_nslabs m,
     pi_memaddr = msg_addr m, pi_id = i, pi_flag = bm\<rparr>"

lemma producerlist_add_new:
  assumes ok: "slabs_ok s ps" and m: "add_ok s m" and p: "co_producers s p = None"
    and nd: "co_nodes s (co_next s1) = None"
    and s1: "s1 = s\<lparr>co_next := k, co_producer_id := n, co_producer_map := f,
      co_producers := (co_producers s)(p \<mapsto> new_producer m i bm None), co_consumers := C\<rparr>"
      "length ps \<le> k"
  shows "\<exists>h. producerlist_add p s1 = Inr (s1\<lparr>co_next := co_next s1 + 1, co_nodes := h,
      co_producers := (co_producers s)(p \<mapsto> new_producer m i bm (Some (co_next s1)))\<rparr>) \<and>
    dl_repr h (co_phead s) (co_ptail s) ((co_next s1, p) # ps) \<and>
    (\<forall>a. a \<notin> set (co_next s1 # co_phead s # co_ptail s # map fst ps) \<longrightarrow> h a = co_nodes s a)"
proof -
  have pn: "q \<noteq> p" if "q \<in> set (map snd ps)" for q
    using ok that p unfolding slabs_ok_def by (metis option.distinct(1))
  have ok1: "slabs_ok s1 ps" using ok pn s1 by (auto simp: slabs_ok_def)
  have "is_duplicate_producer p s1 = Inr (0, s1)"
  proof (rule not_duplicate [OF ok1, of _ "new_producer m i bm None"])
    show "co_producers s1 p = Some (new_producer m i bm None)" by (simp add: s1)
    show "pi_port (new_producer m i bm None) \<noteq> 0" using m by (simp add: new_producer_def add_ok_def)
    fix q y assume "q \<in> set (map snd ps)" "co_producers s1 q = Some y"
      "pi_ip y = pi_ip (new_producer m i bm None)"
    with pn [of q] m show "pi_port y \<noteq> pi_port (new_producer m i bm None)"
      by (auto simp: add_ok_def new_producer_def s1)
  qed
  moreover have "dl_repr (co_nodes s) (co_phead s) (co_ptail s) ps" using ok by (simp add: slabs_ok_def)
  from dl_add_repr [OF this nd, of p] obtain h where
    h: "dl_add (co_phead s) (co_next s1) p (co_nodes s) = Inr h"
    "dl_repr h (co_phead s) (co_ptail s) ((co_next s1, p) # ps) \<and>
    (\<forall>a. a \<notin> set (co_next s1 # co_phead s # co_ptail s # map fst ps) \<longrightarrow> h a = co_nodes s a)" by blast
  ultimately have "producerlist_add p s1 = Inr (s1\<lparr>co_next := co_next s1 + 1, co_nodes := h,
      co_producers := (co_producers s)(p \<mapsto> new_producer m i bm (Some (co_next s1)))\<rparr>)"
    by (simp add: producerlist_add_def alloc_def heap_at_def co_upds s1 new_producer_def)
  with h(2) show ?thesis by blast
qed

lemma producer_add_inv:
  assumes "co_inv s" "conn_ok s c" "recv_of c s = Inr m" "add_ok s m"
    and peer: "peer_of c s = Inr (i, cli)" "ci_producer cli = None"
  shows "\<exists>s' id bm. on_recv_producer_add c s = Inr s' \<and> co_inv s' \<and> conn_ok s' c \<and>
    co_producers s (co_next s) = None \<and>
    co_producers s' = (co_producers s)(co_next s \<mapsto> new_producer m id bm (Some (co_next s + 1)))"
proof -
  from assms(1) obtain ps cs where inv: "inv_nodes s ps cs" "inv_items s ps cs" "inv_peers s"
    "1 \<le> co_producer_id s" "co_producer_id s \<le> MAX_PRODUCER + 2" by (rule co_invE)
  note d = inv_nodesD [OF inv(1)]
  let ?p = "co_next s"
  have fresh: "co_nodes s (co_next s + 1) = None" "co_producers s ?p = None" using d(5) by auto
  have pn: "?p \<notin> set (map snd ps)"
    using d(1) fresh(2) unfolding slabs_ok_def by (metis option.distinct(1))
  have ci: "co_consumers s i = Some cli"
    using peer(1) by (auto simp: peer_of_def rbind_eq_Inr heap_at_def split: option.splits)
  from assms(4) have a: "length (msg_ip m) \<le> 197" "is_int32 (msg_port m)"
    "0 \<le> msg_nslabs m" "msg_nslabs m < 2 ^ 31" "co_producer_id s < MAX_PRODUCER + 2"
    by (simp_all add: add_ok_def)
  let ?s1 = "s\<lparr>co_next := co_next s + 1\<rparr>"
  from get_producer_id_ok [of "new_producer m 0 [] None" ?s1] a inv(4) obtain id n f where
    gid: "get_producer_id (new_producer m 0 [] None) ?s1 = Inr (new_producer m id [] None,
      ?s1\<lparr>co_producer_id := n, co_producer_map := f\<rparr>)" "1 \<le> n" "n \<le> MAX_PRODUCER + 2"
    by (auto simp: new_producer_def)
  from a(3,4) obtain bm where bm: "init_bitmap (msg_nslabs m) = Inr bm"
    "msg_nslabs m \<le> 32 * int (length bm)" "\<And>b. bm_ok bm b \<Longrightarrow> \<not> bm_bit bm b"
    by (rule init_bitmap_ok) blast
  have sl: "slab_inv (new_producer m id bm l)" for l
    using a bm by (auto simp: slab_inv_def new_producer_def bm_ok_def)
  define s2 where "s2 = s\<lparr>co_next := co_next s + 1, co_producer_id := n, co_producer_map := f,
    co_producers := (co_producers s)(?p \<mapsto> new_producer m id bm None),
    co_consumers := (co_consumers s)(i \<mapsto> cli\<lparr>ci_producer := Some ?p\<rparr>)\<rparr>"
  from producerlist_add_new [OF d(1) assms(4) fresh(2) _ s2_def] fresh(1) d(1) obtain h where
    h: "producerlist_add ?p s2 = Inr (s2\<lparr>co_next := co_next s2 + 1, co_nodes := h,
      co_producers := (co_producers s)(?p \<mapsto> new_producer m id bm (Some (co_next s2)))\<rparr>)"
    "dl_repr h (co_phead s) (co_ptail s) ((co_next s2, ?p) # ps)"
    "\<forall>a. a \<notin> set (co_next s2 # co_phead s # co_ptail s # map fst ps) \<longrightarrow> h a = co_nodes s a"
    by (auto simp: s2_def slabs_ok_def)
  let ?s3 = "s2\<lparr>co_next := co_next s2 + 1, co_nodes := h,
      co_producers := (co_producers s)(?p \<mapsto> new_producer m id bm (Some (co_next s2)))\<rparr>"
  have handler: "on_recv_producer_add c s = rbind (post_receives c ?s3) (send_msg_done c)"
  proof -
    have "recv_of c ?s1 = Inr m" using assms(3) by (simp add: recv_of_def)
    moreover have "copy_str 200 (msg_ip m) = Inr (msg_ip m)" using a(1) by (simp add: copy_str_def)
    moreover have "put_consumer i (cli\<lparr>ci_producer := Some ?p\<rparr>) (put_producer ?p
        ((new_producer m id [] None)\<lparr>pi_flag := bm\<rparr>)
        (?s1\<lparr>co_producer_id := n, co_producer_map := f\<rparr>)) = s2"
      by (simp add: co_upds s2_def new_producer_def)
    ultimately show ?thesis
      using peer h(1) gid(1) bm(1)
      by (simp add: on_recv_producer_add_def alloc_def new_producer_def)
  qed
  have "inv_nodes ?s3 ((co_next s + 1, ?p) # ps) cs"
    by (rule inv_nodes_add [OF inv(1) pn, where x = "new_producer m id bm (Some (co_next s + 1))" and h = h])
      (use sl h(2,3) d(5) ci in \<open>auto simp: s2_def\<close>)
  moreover have "(nd, ?p) \<notin> set ps" for nd using pn by force
  then have "inv_items ?s3 ((co_next s + 1, ?p) # ps) cs"
    using inv(2) ci by (auto simp: inv_items_def s2_def new_producer_def)
  moreover have "inv_peers ?s3"
    by (rule inv_peers_add [OF inv(3) ci fresh(2)]) (simp_all add: s2_def)
  ultimately have "co_inv ?s3" using gid(2,3) by (auto intro: co_invI simp: s2_def)
  moreover have "conn_ok ?s3 c" using assms(2) by (simp add: conn_ok_def s2_def)
  ultimately obtain s' where "on_recv_producer_add c s = Inr s'" "co_inv s'" "conn_ok s' c"
    "co_producers s' = co_producers ?s3" unfolding handler using reply_done_inv by blast
  moreover have "co_producers ?s3 =
      (co_producers s)(?p \<mapsto> new_producer m id bm (Some (co_next s + 1)))" by (simp add: s2_def)
  ultimately show ?thesis using fresh(2) by metis
qed

section \<open>A producer leaves\<close>

lemma inv_nodes_remove:
  assumes inv: "inv_nodes s (xs @ (nd, p) # ys) cs"
    and h: "dl_repr h (co_phead s) (co_ptail s) (xs @ ys)"
      "\<forall>a. a \<notin> set (co_phead s # co_ptail s # map fst (xs @ (nd, p) # ys)) \<longrightarrow> h a = co_nodes s a"
    and s': "co_nodes s' = h" "co_producers s' = (co_producers s)(p := None)" "co_next s' = co_next s"
      "co_phead s' = co_phead s" "co_ptail s' = co_ptail s" "co_chead s' = co_chead s"
      "co_ctail s' = co_ctail s" "co_conns s' = co_conns s"
      "\<And>a. co_next s \<le> a \<Longrightarrow> co_consumers s' a = None"
  shows "inv_nodes s' (xs @ ys) cs"
proof -
  note d = inv_nodesD [OF inv]
  have nin: "a \<notin> set (co_phead s # co_ptail s # map fst (xs @ (nd, p) # ys))"
    if "a \<in> set (co_chead s # co_ctail s # map fst cs)" for a using d(4) that by blast
  have "dl_repr h (co_chead s) (co_ctail s) cs"
    using dl_repr_cong [of "co_chead s" "co_ctail s" cs h "co_nodes s"] h(2) nin d(2) by auto
  moreover have "slabs_ok s' (xs @ ys)"
  proof -
    have "distinct (map snd (xs @ (nd, p) # ys))" using d(1) by (simp add: slabs_ok_def)
    then have "q \<noteq> p" if "q \<in> set (map snd (xs @ ys))" for q using that by auto
    moreover have "\<exists>y. co_producers s q = Some y \<and> slab_inv y" if "q \<in> set (map snd (xs @ ys))" for q
      using d(1) that unfolding slabs_ok_def by auto
    ultimately have "\<forall>q \<in> set (map snd (xs @ ys)). \<exists>y. co_producers s' q = Some y \<and> slab_inv y"
      by (metis fun_upd_other s'(2))
    with d(1) h(1) show ?thesis by (simp add: slabs_ok_def s')
  qed
  moreover have "set (co_phead s # co_ptail s # map fst (xs @ ys)) \<inter>
      set (co_chead s # co_ctail s # map fst cs) = {}" using nin by auto
  moreover have "co_nodes s' a = None \<and> co_producers s' a = None \<and> co_consumers s' a = None \<and>
      co_conns s' a = None" if "co_next s' \<le> a" for a
  proof -
    have "a \<notin> set (co_phead s # co_ptail s # map fst (xs @ (nd, p) # ys))"
      using dl_repr_live [OF d(3), of a] d(5) [of a] that s'(3) by auto
    then show ?thesis using h(2) d(5) [of a] that by (simp add: s')
  qed
  ultimately show ?thesis by (simp add: inv_nodes_def s')
qed

lemma inv_owner_del:
  assumes "inv_owner C P" "C i = Some cli" "ci_producer cli = Some p"
  shows "inv_owner (C(i \<mapsto> cli\<lparr>ci_producer := None\<rparr>)) (P(p := None))"
proof -
  have "ci_producer clj \<noteq> Some p" if "C j = Some clj" "j \<noteq> i" for j clj
    using assms that unfolding inv_owner_def by blast
  with assms(1) show ?thesis unfolding inv_owner_def by (simp split: if_splits)
qed

lemma producer_rem_inv:
  assumes "co_inv s" "conn_ok s c" and peer: "peer_of c s = Inr (i, cli)" "ci_producer cli = Some p"
  shows "\<exists>s' x. on_recv_producer_rem c s = Inr s' \<and> co_inv s' \<and> conn_ok s' c \<and>
    co_producers s p = Some x \<and> co_producers s' = (co_producers s)(p := None)"
proof -
  from assms(1) obtain ps cs where inv: "inv_nodes s ps cs" "inv_items s ps cs" "inv_peers s"
    "1 \<le> co_producer_id s" "co_producer_id s \<le> MAX_PRODUCER + 2" by (rule co_invE)
  have ci: "co_consumers s i = Some cli"
    using peer(1) by (auto simp: peer_of_def rbind_eq_Inr heap_at_def split: option.splits)
  have "co_producers s p \<noteq> None"
    using inv(3) ci peer(2) unfolding inv_peers_def inv_owner_def by blast
  then obtain x nd where x: "co_producers s p = Some x" "(nd, p) \<in> set ps"
    using inv(2) unfolding inv_items_def by force
  with inv(2) have lst: "pi_lstptr x = Some nd" unfolding inv_items_def by fastforce
  from x(2) obtain xs ys where ps: "ps = xs @ (nd, p) # ys" by (meson split_list)
  note d = inv_nodesD [OF inv(1) [unfolded ps]]
  from dl_remove_repr [OF d(3)] obtain h where
    h: "dl_remove (co_phead s) (co_ptail s) nd (co_nodes s) = Inr h"
      "dl_repr h (co_phead s) (co_ptail s) (xs @ ys)"
      "\<forall>a. a \<notin> set (co_phead s # co_ptail s # map fst (xs @ (nd, p) # ys)) \<longrightarrow> h a = co_nodes s a"
    by blast
  have nd: "nd \<noteq> co_phead s" "nd \<noteq> co_ptail s" using d(3) by (auto simp: dl_repr_def)
  from d(3) obtain n where n: "co_nodes s nd = Some n" "dn_item n = Some p"
    by (auto simp: dl_repr_def dest!: dl_seg_split)
  let ?s = "s\<lparr>co_consumers := (co_consumers s)(i \<mapsto> cli\<lparr>ci_producer := None\<rparr>), co_nodes := h,
    co_producers := (co_producers s)(p := None)\<rparr>"
  have handler: "on_recv_producer_rem c s = rbind (post_receives c ?s) (send_msg_done c)"
    using peer x(1) lst nd n h(1)
    by (simp add: on_recv_producer_rem_def ptr_def heap_at_def producerlist_remove_def node_at_def
        co_upds)
  have "inv_nodes ?s (xs @ ys) cs"
    by (rule inv_nodes_remove [OF inv(1) [unfolded ps] h(2,3)]) (use d(5) ci in auto)
  moreover have "inv_items ?s (xs @ ys) cs"
  proof -
    have "distinct (map snd (xs @ (nd, p) # ys))" using d(1) by (simp add: slabs_ok_def)
    then have ne: "b \<noteq> p" if "(a, b) \<in> set (xs @ ys)" for a b using that by force
    then have "set (map snd ps) - {p} = set (map snd (xs @ ys))" using ps by force
    moreover have "\<exists>x. co_producers ?s b = Some x \<and> pi_lstptr x = Some a"
      if "(a, b) \<in> set (xs @ ys)" for a b
      using inv(2) that ne [OF that] ps unfolding inv_items_def by auto
    moreover have "dom (co_consumers ?s) = dom (co_consumers s)" using ci by auto
    moreover have "dom (co_producers ?s) = dom (co_producers s) - {p}" by auto
    ultimately show ?thesis using inv(2) unfolding inv_items_def by metis
  qed
  moreover have "inv_peers ?s"
  proof -
    have base: "inv_conns (co_consumers s) (co_conns s)" using inv(3) by (simp add: inv_peers_def)
    have "inv_conns ((co_consumers s)(i \<mapsto> cli\<lparr>ci_producer := None\<rparr>)) (co_conns s)"
      by (rule inv_conns_mono [OF base]) simp
    moreover have "inv_owner ((co_consumers s)(i \<mapsto> cli\<lparr>ci_producer := None\<rparr>))
        ((co_producers s)(p := None))"
      by (rule inv_owner_del [where C = "co_consumers s"])
        (use inv(3) ci peer(2) in \<open>simp_all add: inv_peers_def\<close>)
    ultimately show ?thesis by (simp add: inv_peers_def)
  qed
  ultimately have "co_inv ?s" using inv(4,5) by (auto intro: co_invI)
  moreover have "conn_ok ?s c" using assms(2) by (simp add: conn_ok_def)
  ultimately show ?thesis unfolding handler using reply_done_inv [of ?s c] x(1) by auto
qed

section \<open>A consumer requests slabs\<close>

text \<open>The slabs that all registered producers have left.\<close>

definition rack_avail :: "coordinator \<Rightarrow> int" where
  "rack_avail s = (\<Sum>p \<in> dom (co_producers s). avail_of s p)"

lemma rack_avail_total:
  assumes "inv_nodes s ps cs" "inv_items s ps cs"
  shows "rack_avail s = total_avail s ps"
proof -
  have "distinct (map snd ps)" "dom (co_producers s) = set (map snd ps)"
    using assms by (auto simp: inv_nodes_def slabs_ok_def inv_items_def)
  with sum_list_distinct_conv_sum_set [of "map snd ps" "avail_of s"] show ?thesis
    unfolding rack_avail_def total_avail_def by simp
qed

lemma serves_inv:
  assumes "co_inv s" "serves c n s s' gs"
  shows "co_inv s'"
proof -
  from assms(1) obtain ps cs where inv: "inv_nodes s ps cs" "inv_items s ps cs" "inv_peers s"
    "1 \<le> co_producer_id s" "co_producer_id s \<le> MAX_PRODUCER + 2" by (rule co_invE)
  note d = inv_nodesD [OF inv(1)]
  from assms(2) obtain k k' where k: "co_conns s c = Some k" "co_conns s' c = Some k'"
    "cn_peer k' = cn_peer k" "cn_connected k" "\<forall>d. d \<noteq> c \<longrightarrow> co_conns s' d = co_conns s d"
    unfolding serves_def by blast
  have same: "co_nodes s' = co_nodes s" "co_consumers s' = co_consumers s" "co_next s' = co_next s"
    "co_phead s' = co_phead s" "co_ptail s' = co_ptail s" "co_chead s' = co_chead s"
    "co_ctail s' = co_ctail s" "co_producer_id s' = co_producer_id s"
    using assms(2) by (simp_all add: serves_def)
  have none: "co_producers s' p = None" if "co_producers s p = None" for p
    using assms(2) that unfolding serves_def by blast
  have some: "\<exists>y. co_producers s' p = Some y \<and> slab_inv y \<and> pi_lstptr y = pi_lstptr x"
    if x: "co_producers s p = Some x" for p x
  proof -
    have "p \<in> set (map snd ps)" using x inv(2) unfolding inv_items_def by blast
    with d(1) x have "slab_inv x" unfolding slabs_ok_def by force
    with x assms(2) obtain y where "co_producers s' p = Some y" "grant x (granted_of gs p) y"
      unfolding serves_def by blast
    with grant_static show ?thesis by blast
  qed
  have dom: "dom (co_producers s') = dom (co_producers s)" using none some by fastforce
  have "c < co_next s" using d(5) [of c] k(1) by (metis not_le option.distinct(1))
  then have "inv_nodes s' ps cs"
    by (intro inv_nodes_same [OF inv(1)])
      (use some none d(5) k same in \<open>fastforce\<close>)+
  moreover have "inv_items s' ps cs"
    using inv(2) some dom unfolding inv_items_def same by metis
  moreover have "inv_peers s'"
  proof -
    have "inv_conns (co_consumers s') (co_conns s')"
    proof -
      have "co_conns s' = (co_conns s)(c \<mapsto> k')" using k(2,5) by auto
      moreover have "inv_conns (co_consumers s) ((co_conns s)(c \<mapsto> k'))"
        by (rule inv_conns_upd)
          (use inv(3) k(1,3,4) in \<open>auto simp: inv_peers_def inv_conns_def\<close>)
      ultimately show ?thesis by (simp add: same)
    qed
    moreover have "inv_owner (co_consumers s') (co_producers s')"
      using inv(3) some unfolding inv_peers_def inv_owner_def same by blast
    ultimately show ?thesis by (simp add: inv_peers_def)
  qed
  ultimately show ?thesis using inv(4,5) same by (auto intro: co_invI)
qed

lemma slabs_add_inv:
  assumes "co_inv s" "conn_ok s c" "recv_of c s = Inr m" "0 \<le> msg_nslabs m"
    "msg_nslabs m \<le> rack_avail s"
  shows "\<exists>s1 gs s'. serves c (msg_nslabs m) s s1 gs \<and> on_recv_slabs_add c s = Inr s' \<and>
    co_inv s' \<and> co_producers s' = co_producers s1 \<and>
    (\<exists>k k' m'. co_conns s c = Some k \<and> co_conns s' c = Some k' \<and> msg_type m' = MSG_DONE_SLAB_ADD \<and>
       cn_sent k' = cn_sent k @ map (grant_msg s) gs @ [m'])"
proof -
  from assms(1) obtain ps cs where inv: "inv_nodes s ps cs" "inv_items s ps cs" by (rule co_invE)
  have ok: "slabs_ok s ps" using inv(1) by (rule inv_nodesD)
  have "msg_nslabs m \<le> total_avail s ps" using assms(5) rack_avail_total [OF inv] by simp
  from slabs_add_loop_serves [OF ok assms(2,4) this] obtain s1 gs where
    s1: "slabs_add_loop c (msg_nslabs m) s = Inr s1" "serves c (msg_nslabs m) s s1 gs" by blast
  from s1(2) obtain k k' where k: "co_conns s c = Some k" "co_conns s1 c = Some k'"
    "cn_sent k' = cn_sent k @ map (grant_msg s) gs" "cn_connected k'" "cn_qp_ok k'"
    unfolding serves_def by blast
  let ?m = "(cn_send_msg k')\<lparr>msg_type := MSG_DONE_SLAB_ADD, msg_addr := 0\<rparr>"
  let ?k = "k'\<lparr>cn_send_msg := ?m, cn_posted := cn_posted k' + 1, cn_sent := cn_sent k' @ [?m]\<rparr>"
  have "on_recv_slabs_add c s = Inr (put_conn c ?k s1)"
    using assms(3) s1(1) k by (simp add: on_recv_slabs_add_def set_send_msg_def post_receives_def
        send_message_def heap_at_def put_conn_def)
  moreover have "co_inv (put_conn c ?k s1)"
    by (rule put_conn_inv [OF serves_inv [OF assms(1) s1(2)] k(2)]) simp_all
  moreover have "co_conns (put_conn c ?k s1) c = Some ?k" "co_producers (put_conn c ?k s1) = co_producers s1"
    by (simp_all add: put_conn_def)
  ultimately show ?thesis using s1(2) k(1,3) by fastforce
qed

section \<open>The coordinator as a step relation\<close>

text \<open>
  The events of peers that keep the protocol: a connection request, an established
  connection, a disconnection, the arrival of a message in the receive buffer, and the
  completion of a receive.
\<close>

inductive co_step :: "coordinator \<Rightarrow> coordinator \<Rightarrow> bool" where
  co_connect: "process_event True garbage RDMA_CM_EVENT_CONNECT_REQUEST s = Inr s' \<Longrightarrow> co_step s s'"
| co_established: "co_conns s c = Some k \<Longrightarrow>
    process_event True garbage (RDMA_CM_EVENT_ESTABLISHED c) s = Inr s' \<Longrightarrow> co_step s s'"
| co_disconnect: "co_conns s c = Some k \<Longrightarrow> cn_peer k \<noteq> None \<Longrightarrow>
    process_event True garbage (RDMA_CM_EVENT_DISCONNECTED c) s = Inr s' \<Longrightarrow> co_step s s'"
| co_arrive: "co_conns s c = Some k \<Longrightarrow> co_step s (put_conn c (k\<lparr>cn_recv_msg := m\<rparr>) s)"
| co_add: "conn_ok s c \<Longrightarrow> recv_of c s = Inr m \<Longrightarrow> msg_type m = MSG_PRODUCER_ADD \<Longrightarrow> add_ok s m \<Longrightarrow>
    peer_of c s = Inr (i, cli) \<Longrightarrow> ci_producer cli = None \<Longrightarrow>
    on_completion True True c s = Inr s' \<Longrightarrow> co_step s s'"
| co_rem: "conn_ok s c \<Longrightarrow> recv_of c s = Inr m \<Longrightarrow> msg_type m = MSG_PRODUCER_REM \<Longrightarrow>
    peer_of c s = Inr (i, cli) \<Longrightarrow> ci_producer cli = Some p \<Longrightarrow>
    on_completion True True c s = Inr s' \<Longrightarrow> co_step s s'"
| co_slabs: "conn_ok s c \<Longrightarrow> recv_of c s = Inr m \<Longrightarrow> msg_type m = MSG_SLAB_ADD \<Longrightarrow>
    0 \<le> msg_nslabs m \<Longrightarrow> msg_nslabs m \<le> rack_avail s \<Longrightarrow>
    on_completion True True c s = Inr s' \<Longrightarrow> co_step s s'"

definition co_initial :: "coordinator \<Rightarrow> bool" where
  "co_initial s \<longleftrightarrow> coordinator_create True = Inr s"

lemma create_inv: "coordinator_create True = Inr s \<Longrightarrow> co_inv s"
proof -
  assume "coordinator_create True = Inr s"
  then have s: "s = consumerlist_init (producerlist_init coordinator_start)"
    by (simp add: coordinator_create_def)
  have f: "co_producers s = Map.empty" "co_consumers s = Map.empty" "co_conns s = Map.empty"
    "co_next s = 4" "co_phead s = 0" "co_ptail s = 1" "co_chead s = 2" "co_ctail s = 3"
    "co_producer_id s = 1" "co_nodes s = dl_init 2 3 (dl_init 0 1 Map.empty)"
    by (simp_all add: s consumerlist_init_def producerlist_init_def coordinator_start_def alloc_def
        numeral_2_eq_2 numeral_3_eq_3)
  have "dl_repr (co_nodes s) 0 1 []"
    using dl_init_repr [of 0 1 Map.empty]
    by (subst dl_repr_cong [of _ _ _ _ "dl_init 0 1 Map.empty"]) (auto simp: f dl_init_def)
  moreover have "dl_repr (co_nodes s) 2 3 []" unfolding f by (rule dl_init_repr) simp
  ultimately have "inv_nodes s [] []"
    by (auto simp: inv_nodes_def slabs_ok_def f) (simp add: dl_init_def)
  moreover have "inv_items s [] []" by (simp add: inv_items_def f)
  moreover have "inv_peers s" by (simp add: inv_peers_def inv_conns_def inv_owner_def f)
  ultimately show ?thesis by (rule co_invI) (simp_all add: f MAX_PRODUCER_def)
qed

lemma co_step_inv: "co_step s s' \<Longrightarrow> co_inv s \<Longrightarrow> co_inv s'"
proof (induction rule: co_step.induct)
  case (co_connect garbage s s')
  with connect_inv [of s garbage] show ?case by (auto simp: process_event_def)
next
  case (co_established s c k garbage s')
  with established_inv [of s c k] show ?case by (auto simp: process_event_def)
next
  case (co_disconnect s c k garbage s')
  with disconnect_inv [of s c k] show ?case by (auto simp: process_event_def)
next
  case (co_arrive s c k m)
  then show ?case by (auto intro: put_conn_inv)
next
  case (co_add s c m i cli s')
  with producer_add_inv [of s c m i cli] show ?case by (auto simp: on_completion_def)
next
  case (co_rem s c m i cli p s')
  with producer_rem_inv [of s c i cli p] show ?case by (auto simp: on_completion_def)
next
  case (co_slabs s c m s')
  with slabs_add_inv [of s c m] show ?case by (auto simp: on_completion_def)
qed

interpretation coord: kept_invariant co_initial co_step co_inv
  by unfold_locales (auto simp: co_initial_def dest: create_inv intro: co_step_inv)

abbreviation co_reachable :: "coordinator \<Rightarrow> bool" where
  "co_reachable \<equiv> reach co_initial co_step"

end
