(* ===== verification/Coordinator_Props.thy ===== *)
theory Coordinator_Props
  imports Coordinator_Inv
begin

text \<open>
  The properties of the coordinator: what it does for peers that keep the protocol, and
  where the code does not do what it means to do.
\<close>

section \<open>Lemmas\<close>

lemma slab_bytes_small:
  assumes "0 \<le> n" "n < 16384"
  shows "slab_bytes n = word_of_int (n * RDMA_PRODUCER_SLAB_SIZE)"
  using assms by (simp add: slab_bytes_def RDMA_PRODUCER_SLAB_SIZE_def to_int32_id is_int32_def)

text \<open>How the slabs of the rack change with its producers.\<close>

lemma rack_avail_insert:
  assumes "finite (dom (co_producers s))" "co_producers s p = None"
    and "co_producers s' = (co_producers s)(p \<mapsto> x)"
  shows "rack_avail s' = rack_avail s + pi_available_slabs x"
proof -
  have "sum (avail_of s') (dom (co_producers s)) = sum (avail_of s) (dom (co_producers s))"
    using assms(2,3) by (intro sum.cong) (auto simp: avail_of_def)
  moreover have "dom (co_producers s') = insert p (dom (co_producers s))" "p \<notin> dom (co_producers s)"
    using assms(2,3) by auto
  ultimately show ?thesis
    using assms(1,3) by (simp add: rack_avail_def avail_of_def del: dom_fun_upd)
qed

lemma rack_avail_delete:
  assumes "finite (dom (co_producers s))" "co_producers s p = Some x"
    and "co_producers s' = (co_producers s)(p := None)"
  shows "rack_avail s' = rack_avail s - pi_available_slabs x"
proof -
  have "finite (dom (co_producers s'))" using assms(1) by (simp add: assms(3))
  moreover have "co_producers s' p = None" by (simp add: assms(3))
  moreover have "co_producers s = (co_producers s')(p \<mapsto> x)"
    using assms(2) by (simp add: assms(3) fun_eq_iff)
  ultimately have "rack_avail s = rack_avail s' + pi_available_slabs x"
    by (rule rack_avail_insert)
  then show ?thesis by simp
qed

lemma rack_avail_serves:
  assumes nodes: "inv_nodes s ps cs" "inv_items s ps cs" and sv: "serves c n s s1 gs"
    and eq: "co_producers s' = co_producers s1"
  shows "rack_avail s' = rack_avail s - n"
proof -
  have dom: "dom (co_producers s) = set (map snd ps)" using nodes(2) by (simp add: inv_items_def)
  have some: "avail_of s' p = avail_of s p - granted_of gs p" if p: "p \<in> dom (co_producers s)" for p
  proof -
    from p dom inv_nodesD(1) [OF nodes(1)] obtain x where x: "co_producers s p = Some x" "slab_inv x"
      unfolding slabs_ok_def by blast
    with sv obtain y where "co_producers s1 p = Some y" "grant x (granted_of gs p) y"
      unfolding serves_def by blast
    with x eq grant_static [of x _ y] show ?thesis by (simp add: avail_of_def)
  qed
  have "co_producers s1 p = None \<longleftrightarrow> co_producers s p = None" for p
    using sv dom inv_nodesD(1) [OF nodes(1)] unfolding serves_def slabs_ok_def
    by (metis domI option.distinct(1) option.exhaust)
  then have dom': "dom (co_producers s') = dom (co_producers s)" by (simp add: dom_def eq)
  have mem: "fst g \<in> dom (co_producers s)" if "g \<in> set gs" for g
    using sv that by (fastforce simp: serves_def list_all_iff grantable_def)
  have fin: "finite (dom (co_producers s))" using dom by simp
  have "(\<Sum>p \<in> dom (co_producers s). granted_of hs p) = sum_list (map (\<lambda>(p, first, n). n) hs)"
    if "\<forall>g \<in> set hs. fst g \<in> dom (co_producers s)" for hs
    using that
  proof (induction hs)
    case (Cons g hs)
    obtain q first k where g: "g = (q, first, k)" by (cases g) auto
    have "(\<Sum>p \<in> dom (co_producers s). granted_of (g # hs) p) =
        (\<Sum>p \<in> dom (co_producers s). (if q = p then k else 0) + granted_of hs p)"
      by (simp add: granted_of_def g)
    with Cons g fin show ?case by (simp add: sum.distrib)
  qed (simp add: granted_of_def)
  with mem have "(\<Sum>p \<in> dom (co_producers s). granted_of gs p) = n"
    using sv by (simp add: serves_def)
  with some dom' show ?thesis by (simp add: rack_avail_def sum_subtractf)
qed

text \<open>Removing the producer of the first node.\<close>

lemma producerlist_remove_first:
  assumes "dl_repr (co_nodes s) (co_phead s) (co_ptail s) ((nd, p) # ps)"
    and "co_producers s p = Some x" "pi_lstptr x = Some nd"
  shows "\<exists>h n. producerlist_remove p s =
      Inr (s\<lparr>co_nodes := h, co_producers := (co_producers s)(p := None)\<rparr>) \<and>
    dl_repr h (co_phead s) (co_ptail s) ps \<and> co_nodes s nd = Some n \<and> dn_item n = Some p \<and>
    (\<forall>a. a \<notin> set (co_phead s # co_ptail s # map fst ((nd, p) # ps)) \<longrightarrow> h a = co_nodes s a)"
proof -
  from dl_remove_repr [of "co_nodes s" "co_phead s" "co_ptail s" "[]" nd p ps] assms(1) obtain h where
    h: "dl_remove (co_phead s) (co_ptail s) nd (co_nodes s) = Inr h"
      "dl_repr h (co_phead s) (co_ptail s) ps"
      "\<forall>a. a \<notin> set (co_phead s # co_ptail s # map fst ((nd, p) # ps)) \<longrightarrow> h a = co_nodes s a" by auto
  have nd: "nd \<noteq> co_phead s" "nd \<noteq> co_ptail s" using assms(1) by (auto simp: dl_repr_def)
  from assms(1) obtain n where n: "co_nodes s nd = Some n" "dn_item n = Some p"
    by (auto simp: dl_repr_def)
  with h(1) nd assms(2,3) have "producerlist_remove p s =
      Inr (s\<lparr>co_nodes := h, co_producers := (co_producers s)(p := None)\<rparr>)"
    by (simp add: producerlist_remove_def heap_at_def ptr_def node_at_def)
  with h(2,3) n show ?thesis by blast
qed

lemma dl_repr_next:
  "dl_repr h head tail xs \<Longrightarrow> \<exists>n. h head = Some n \<and>
    dn_next n = Some (case xs of [] \<Rightarrow> tail | (nd, x) # ys \<Rightarrow> nd)"
  by (auto simp: dl_repr_def split: list.splits)

lemma dl_repr_next_of_first:
  "dl_repr h head tail ((nd, x) # ys) \<Longrightarrow> \<exists>n. h nd = Some n \<and> dn_item n = Some x \<and>
    dn_next n = Some (case ys of [] \<Rightarrow> tail | (nd', x') # zs \<Rightarrow> nd')"
  by (auto simp: dl_repr_def split: list.splits)

text \<open>The loop that destroys the producers.\<close>

lemma producers_destroyed:
  assumes "dl_repr (co_nodes s) (co_phead s) (co_ptail s) ps" "length ps < n" "distinct (map snd ps)"
    and "\<forall>nd p. (nd, p) \<in> set ps \<longrightarrow> (\<exists>x. co_producers s p = Some x \<and> pi_lstptr x = Some nd)"
    and "cur = Some (case ps of [] \<Rightarrow> co_ptail s | (nd, p) # _ \<Rightarrow> nd)"
  shows "\<exists>h. producerlist_destroy_loop n cur s =
      Inr (s\<lparr>co_nodes := h, co_producers := (co_producers s) |` (- set (map snd ps))\<rparr>) \<and>
    (\<forall>a. a \<notin> set (co_phead s # co_ptail s # map fst ps) \<longrightarrow> h a = co_nodes s a)"
  using assms
proof (induction ps arbitrary: s n cur)
  case Nil
  then obtain m where "n = Suc m" by (cases n) auto
  with Nil show ?case by (auto intro!: exI [of _ "co_nodes s"])
next
  case (Cons b ps)
  obtain nd p where b: "b = (nd, p)" by force
  obtain m where m: "n = Suc m" using Cons.prems(2) by (cases n) auto
  from Cons.prems(4) b obtain x where x: "co_producers s p = Some x" "pi_lstptr x = Some nd" by auto
  from producerlist_remove_first [OF Cons.prems(1) [unfolded b] x] obtain h where
    h: "producerlist_remove p s =
      Inr (s\<lparr>co_nodes := h, co_producers := (co_producers s)(p := None)\<rparr>)"
    "dl_repr h (co_phead s) (co_ptail s) ps"
    "\<forall>a. a \<notin> set (co_phead s # co_ptail s # map fst ((nd, p) # ps)) \<longrightarrow> h a = co_nodes s a" by blast
  from dl_repr_next_of_first [OF Cons.prems(1) [unfolded b]] obtain z where
    z: "co_nodes s nd = Some z" "dn_item z = Some p"
      "dn_next z = Some (case ps of [] \<Rightarrow> co_ptail s | (nd', x') # zs \<Rightarrow> nd')" by blast
  let ?s = "s\<lparr>co_nodes := h, co_producers := (co_producers s)(p := None)\<rparr>"
  have pne: "q \<noteq> p" if "(a, q) \<in> set ps" for a q using Cons.prems(3) b that by force
  have "\<exists>h'. producerlist_destroy_loop m (dn_next z) ?s =
      Inr (?s\<lparr>co_nodes := h', co_producers := (co_producers ?s) |` (- set (map snd ps))\<rparr>) \<and>
    (\<forall>a. a \<notin> set (co_phead ?s # co_ptail ?s # map fst ps) \<longrightarrow> h' a = co_nodes ?s a)"
  proof (rule Cons.IH)
    show "\<forall>nd q. (nd, q) \<in> set ps \<longrightarrow> (\<exists>x. co_producers ?s q = Some x \<and> pi_lstptr x = Some nd)"
      using Cons.prems(4) pne by auto
    show "dn_next z = Some (case ps of [] \<Rightarrow> co_ptail ?s | (nd, p) # _ \<Rightarrow> nd)"
      using z(3) by (simp split: list.splits)
  qed (use h(2) Cons.prems(2,3) m in auto)
  then obtain h' where
    h': "producerlist_destroy_loop m (dn_next z) ?s =
      Inr (?s\<lparr>co_nodes := h', co_producers := (co_producers ?s) |` (- set (map snd ps))\<rparr>)"
    "\<forall>a. a \<notin> set (co_phead s # co_ptail s # map fst ps) \<longrightarrow> h' a = h a" by auto
  have cur: "cur \<noteq> Some (co_ptail s)" "cur = Some nd"
    using Cons.prems(1,5) b by (auto simp: dl_repr_def)
  have "((co_producers s)(p := None)) |` (- set (map snd ps)) =
      (co_producers s) |` (- set (map snd (b # ps)))"
    using b by (auto simp: restrict_map_def fun_eq_iff)
  with h'(1) h(1) z(1,2) cur m have "producerlist_destroy_loop n cur s =
      Inr (s\<lparr>co_nodes := h', co_producers := (co_producers s) |` (- set (map snd (b # ps)))\<rparr>)"
    by (simp add: ptr_def node_at_def)
  moreover have "\<forall>a. a \<notin> set (co_phead s # co_ptail s # map fst (b # ps)) \<longrightarrow> h' a = co_nodes s a"
    using h'(2) h(3) b by auto
  ultimately show ?case by blast
qed

section \<open>Properties\<close>


text \<open>
  C9. A request for slabs is answered with exactly the number of slabs that was requested:
  the partial answers name different producers, the slabs they grant were free before and are
  taken afterwards, their numbers add up to the request, and the last message ends the
  answer.
\<close>

theorem slab_request_served:
  assumes "co_reachable s" "conn_ok s c" "recv_of c s = Inr m" "msg_type m = MSG_SLAB_ADD"
    and "0 \<le> msg_nslabs m" "msg_nslabs m \<le> rack_avail s"
  shows "\<exists>s' gs k k' m'. on_completion True True c s = Inr s' \<and>
    co_conns s c = Some k \<and> co_conns s' c = Some k' \<and>
    cn_sent k' = cn_sent k @ map (grant_msg s) gs @ [m'] \<and> msg_type m' = MSG_DONE_SLAB_ADD \<and>
    distinct (map fst gs) \<and> sum_list (map (\<lambda>(p, first, n). n) gs) = msg_nslabs m \<and>
    (\<forall>(p, first, n) \<in> set gs. \<exists>x y. co_producers s p = Some x \<and> co_producers s' p = Some y \<and> 0 < n \<and>
       pi_available_slabs y = pi_available_slabs x - n \<and> pi_nslabs y = pi_nslabs x \<and>
       (\<forall>b. first \<le> b \<longrightarrow> b < first + n \<longrightarrow> get_bit_c (pi_flag x) b = Inr False \<and>
          get_bit_c (pi_flag y) b = Inr True))"
proof -
  have inv: "co_inv s" using assms(1) by (rule coord.reach_inv)
  then obtain ps cs where nodes: "inv_nodes s ps cs" "inv_items s ps cs" by (rule co_invE)
  from slabs_add_inv [OF inv assms(2,3,5,6)] obtain s1 gs s' k k' m' where
    sv: "serves c (msg_nslabs m) s s1 gs" and st: "on_recv_slabs_add c s = Inr s'"
      "co_producers s' = co_producers s1"
    and k: "co_conns s c = Some k" "co_conns s' c = Some k'" "msg_type m' = MSG_DONE_SLAB_ADD"
      "cn_sent k' = cn_sent k @ map (grant_msg s) gs @ [m']" by blast
  have "\<exists>x y. co_producers s p = Some x \<and> co_producers s' p = Some y \<and> 0 < n \<and>
       pi_available_slabs y = pi_available_slabs x - n \<and> pi_nslabs y = pi_nslabs x \<and>
       (\<forall>b. first \<le> b \<longrightarrow> b < first + n \<longrightarrow> get_bit_c (pi_flag x) b = Inr False \<and>
          get_bit_c (pi_flag y) b = Inr True)"
    if g: "(p, first, n) \<in> set gs" for p first n
  proof -
    from sv g have "grantable s (p, first, n)" by (auto simp: serves_def list_all_iff)
    then obtain x where x: "co_producers s p = Some x" "first = next_free x" "0 < n"
      "n \<le> pi_available_slabs x" by (auto simp: grantable_def)
    have "p \<in> set (map snd ps)" using x(1) nodes(2) unfolding inv_items_def by blast
    with inv_nodesD(1) [OF nodes(1)] x(1) have xi: "slab_inv x" unfolding slabs_ok_def by force
    have "granted_of gs p = n"
      by (rule granted_of_member [OF g]) (use sv in \<open>simp add: serves_def\<close>)
    with sv x(1) xi obtain y where y: "co_producers s1 p = Some y" "grant x n y"
      unfolding serves_def by metis
    note ys = grant_static [OF y(2)]
    have "get_bit_c (pi_flag x) b = Inr False \<and> get_bit_c (pi_flag y) b = Inr True"
      if "first \<le> b" "b < first + n" for b
    proof -
      have ok: "bm_ok (pi_flag x) b" "bm_ok (pi_flag y) b"
        using that x xi ys by (auto simp: bm_ok_def slab_inv_def next_free_def)
      moreover have "\<not> bm_bit (pi_flag x) b" using ok(1) that(1) x(2) xi
        by (simp add: slab_inv_def next_free_def)
      moreover have "bm_bit (pi_flag y) b" using ok(2) that(2) x(2) ys
        by (simp add: slab_inv_def next_free_def)
      ultimately show ?thesis by (simp add: get_bit_c_bm)
    qed
    with x y(1) ys st(2) show ?thesis by auto
  qed
  moreover have "on_completion True True c s = Inr s'"
    using assms(3,4) st(1) by (simp add: on_completion_def)
  ultimately show ?thesis using sv k unfolding serves_def by blast
qed

text \<open>
  A request for more slabs than the rack has left crashes the coordinator: the scan
  passes the last producer, reads the null producer of the tail sentinel and never gets to
  report that the rack is out of memory.
\<close>

theorem slab_request_crash:
  assumes "co_reachable s" "conn_ok s c" "recv_of c s = Inr m" "msg_type m = MSG_SLAB_ADD"
    and "0 < msg_nslabs m" "rack_avail s < msg_nslabs m"
  shows "on_completion True True c s = Inl NullDeref"
proof -
  have inv: "co_inv s" using assms(1) by (rule coord.reach_inv)
  then obtain ps cs where nodes: "inv_nodes s ps cs" "inv_items s ps cs" by (rule co_invE)
  have "total_avail s ps < msg_nslabs m" using assms(6) rack_avail_total [OF nodes] by simp
  from slabs_add_loop_crash [OF inv_nodesD(1) [OF nodes(1)] assms(2,5) this] assms(3,4)
  show ?thesis by (simp add: on_completion_def on_recv_slabs_add_def)
qed

text \<open>
  Setting a bit of the slab bitmap sets that bit and leaves every other bit as it was,
  for every bit of the bitmap.
\<close>

theorem set_bit_get_bit:
  assumes "bm_ok bm b" "bm_ok bm c"
  shows "\<exists>bm'. set_bit_c bm b = Inr bm' \<and> length bm' = length bm \<and>
    get_bit_c bm' c = (if c = b then Inr True else get_bit_c bm c)"
proof -
  from assms(1) obtain bm' where "set_bit_c bm b = Inr bm'" "length bm' = length bm"
    "\<And>c. bm_ok bm c \<Longrightarrow> bm_bit bm' c \<longleftrightarrow> c = b \<or> bm_bit bm c" by (rule set_bit_c_bm) blast
  with assms show ?thesis by (auto simp: get_bit_c_bm bm_ok_def)
qed

text \<open>
  Clearing a bit of the slab bitmap clears every lower bit of the same word with it,
  since \<^verbatim>\<open>~1 << n\<close> has its low \<open>n + 1\<close> bits zero: the slabs before a slab that is returned
  become available although they are still granted.
\<close>

theorem clear_bit_clears_below:
  assumes "bm_ok bm b" "bm_ok bm c"
  shows "\<exists>bm'. clear_bit_c bm b = Inr bm' \<and>
    get_bit_c bm' c = (if c div 32 = b div 32 \<and> c \<le> b then Inr False else get_bit_c bm c)"
proof -
  from assms(1) obtain bm' where "clear_bit_c bm b = Inr bm'" "length bm' = length bm"
    "\<And>c. bm_ok bm c \<Longrightarrow> bm_bit bm' c \<longleftrightarrow> bm_bit bm c \<and> \<not> (c div 32 = b div 32 \<and> c \<le> b)"
    by (rule clear_bit_c_bm) blast
  with assms show ?thesis by (auto simp: get_bit_c_bm bm_ok_def)
qed

text \<open>
  The address of a slab leads back to the slab as long as the producer has fewer than
  16384 slabs and its memory does not wrap around the address space.
\<close>

theorem slab_addr_roundtrip:
  assumes "0 \<le> slab" "slab < pi_nslabs x" "pi_nslabs x < 16384"
    and "uint (pi_memaddr x) + pi_nslabs x * RDMA_PRODUCER_SLAB_SIZE < 2 ^ 64"
  shows "slab_from_addr x (addr_from_slab x slab) = slab"
proof -
  let ?S = "RDMA_PRODUCER_SLAB_SIZE"
  have S: "?S = 131072" by (simp add: RDMA_PRODUCER_SLAB_SIZE_def)
  have less: "slab * ?S < pi_nslabs x * ?S" using assms(2) by (simp add: S)
  have u: "uint (pi_memaddr x + word_of_int k) = uint (pi_memaddr x) + k"
    if "0 \<le> k" "uint (pi_memaddr x) + k < 2 ^ 64" for k
  proof -
    have "0 \<le> uint (pi_memaddr x)" by simp
    with that(2) have "k < 2 ^ 64" by linarith
    with that(1) have "uint (word_of_int k :: 64 word) = k" by (simp add: uint_word_of_int)
    with that show ?thesis by (simp add: uint_plus_if')
  qed
  have a: "addr_from_slab x slab = pi_memaddr x + word_of_int (slab * ?S)"
    using assms(1-3) by (simp add: addr_from_slab_def slab_bytes_small)
  have end': "slab_bytes (pi_nslabs x) = word_of_int (pi_nslabs x * ?S)"
    using assms(1-3) by (simp add: slab_bytes_small)
  have ua: "uint (addr_from_slab x slab) = uint (pi_memaddr x) + slab * ?S"
    unfolding a by (rule u) (use assms less in \<open>simp_all add: S\<close>)
  have ue: "uint (pi_memaddr x + slab_bytes (pi_nslabs x)) = uint (pi_memaddr x) + pi_nslabs x * ?S"
    unfolding end' by (rule u) (use assms in \<open>simp_all add: S\<close>)
  have "uint (addr_from_slab x slab - pi_memaddr x) = slab * ?S"
  proof -
    have d: "addr_from_slab x slab - pi_memaddr x = word_of_int (slab * ?S)" by (simp add: a)
    have "slab * ?S < 2 ^ 64" "0 \<le> slab * ?S" using assms(1-3) by (simp_all add: S)
    then have "slab * ?S mod 2 ^ 64 = slab * ?S" by (rule mod_pos_pos_trivial [rotated])
    then show ?thesis unfolding d uint_word_of_int by simp
  qed
  moreover have "\<not> addr_from_slab x slab < pi_memaddr x"
    "\<not> pi_memaddr x + slab_bytes (pi_nslabs x) \<le> addr_from_slab x slab"
    unfolding word_less_def word_le_def ua ue using assms(1) less by (simp_all add: S)
  moreover have "to_int32 slab = slab"
    by (rule to_int32_id) (use assms(1-3) in \<open>simp add: is_int32_def\<close>)
  ultimately show ?thesis by (simp add: slab_from_addr_def S)
qed

text \<open>
  With more than 32768 slabs (a producer registers 524288), two slabs share one address:
  the offset is computed as an \<^verbatim>\<open>int\<close> and wraps around, so that slab 32768 is given the memory
  of slab 0.
\<close>

theorem slab_addr_alias:
  assumes "32768 < pi_nslabs x"
  shows "addr_from_slab x 32768 = addr_from_slab x 0"
  using assms by (simp add: addr_from_slab_def slab_bytes_def RDMA_PRODUCER_SLAB_SIZE_def to_int32_def)

text \<open>
  Shutting down destroys the list of producers completely: from every reachable state
  the loop ends, no freed node or producer is touched, and every producer is freed.
\<close>

theorem producerlist_destroyed:
  assumes "co_reachable s"
  shows "\<exists>s'. producerlist_destroy s = Inr s' \<and> co_producers s' = Map.empty \<and>
    co_nodes s' (co_phead s) = None \<and> co_nodes s' (co_ptail s) = None"
proof -
  have "co_inv s" using assms by (rule coord.reach_inv)
  then obtain ps cs where inv: "inv_nodes s ps cs" "inv_items s ps cs" by (rule co_invE)
  note d = inv_nodesD [OF inv(1)]
  from dl_repr_next [OF d(3)] obtain n where
    n: "co_nodes s (co_phead s) = Some n"
      "dn_next n = Some (case ps of [] \<Rightarrow> co_ptail s | (nd, x) # ys \<Rightarrow> nd)" by blast
  have "length ps < list_bound s" "distinct (map snd ps)"
    using d(1) by (auto simp: slabs_ok_def list_bound_def)
  from producers_destroyed [OF d(3) this _ n(2)] inv(2) obtain h where
    "producerlist_destroy_loop (list_bound s) (dn_next n) s =
      Inr (s\<lparr>co_nodes := h, co_producers := (co_producers s) |` (- set (map snd ps))\<rparr>)"
    by (auto simp: inv_items_def)
  moreover have "(co_producers s) |` (- set (map snd ps)) = Map.empty"
    using inv(2) by (auto simp: inv_items_def restrict_map_def fun_eq_iff)
  ultimately show ?thesis using n(1)
    by (simp add: producerlist_destroy_def head_next_def node_at_def)
qed

text \<open>
  C26. The slabs of the rack are accounted for: a registration adds the producer's slabs to
  what the rack has left, a removal takes away what the producer had left, and a request
  takes away exactly what was requested.
\<close>

theorem rack_accounting:
  assumes "co_reachable s" "conn_ok s c" "recv_of c s = Inr m" "peer_of c s = Inr (i, cli)"
  shows "(msg_type m = MSG_PRODUCER_ADD \<longrightarrow> add_ok s m \<longrightarrow> ci_producer cli = None \<longrightarrow>
      (\<exists>s'. on_completion True True c s = Inr s' \<and> rack_avail s' = rack_avail s + msg_nslabs m)) \<and>
    (msg_type m = MSG_PRODUCER_REM \<longrightarrow> (\<forall>p. ci_producer cli = Some p \<longrightarrow>
      (\<exists>s'. on_completion True True c s = Inr s' \<and> rack_avail s' = rack_avail s - avail_of s p))) \<and>
    (msg_type m = MSG_SLAB_ADD \<longrightarrow> 0 \<le> msg_nslabs m \<longrightarrow> msg_nslabs m \<le> rack_avail s \<longrightarrow>
      (\<exists>s'. on_completion True True c s = Inr s' \<and> rack_avail s' = rack_avail s - msg_nslabs m))"
proof (intro conjI impI allI)
  have inv: "co_inv s" using assms(1) by (rule coord.reach_inv)
  then obtain ps cs where nodes: "inv_nodes s ps cs" "inv_items s ps cs" by (rule co_invE)
  have fin: "finite (dom (co_producers s))" using nodes(2) by (simp add: inv_items_def)
  {
    assume "msg_type m = MSG_PRODUCER_ADD" "add_ok s m" "ci_producer cli = None"
    with producer_add_inv [OF inv assms(2,3) _ assms(4)] obtain s' id bm where
      s': "on_recv_producer_add c s = Inr s'" "co_producers s (co_next s) = None"
      "co_producers s' = (co_producers s)(co_next s \<mapsto> new_producer m id bm (Some (co_next s + 1)))"
      by blast
    have "rack_avail s' = rack_avail s + msg_nslabs m"
      using rack_avail_insert [OF fin s'(2,3)] by (simp add: new_producer_def)
    with s'(1) assms(3) \<open>msg_type m = MSG_PRODUCER_ADD\<close>
    show "\<exists>s'. on_completion True True c s = Inr s' \<and> rack_avail s' = rack_avail s + msg_nslabs m"
      by (simp add: on_completion_def)
  next
    fix p assume "msg_type m = MSG_PRODUCER_REM" "ci_producer cli = Some p"
    with producer_rem_inv [OF inv assms(2,4)] obtain s' x where
      s': "on_recv_producer_rem c s = Inr s'" "co_producers s p = Some x"
      "co_producers s' = (co_producers s)(p := None)" by blast
    with rack_avail_delete [OF fin s'(2,3)] assms(3) \<open>msg_type m = MSG_PRODUCER_REM\<close>
    show "\<exists>s'. on_completion True True c s = Inr s' \<and> rack_avail s' = rack_avail s - avail_of s p"
      by (simp add: on_completion_def avail_of_def)
  next
    assume a: "msg_type m = MSG_SLAB_ADD" "0 \<le> msg_nslabs m" "msg_nslabs m \<le> rack_avail s"
    from slabs_add_inv [OF inv assms(2,3) a(2,3)] obtain s1 gs s' where
      s': "serves c (msg_nslabs m) s s1 gs" "on_recv_slabs_add c s = Inr s'"
      "co_producers s' = co_producers s1" by blast
    with rack_avail_serves [OF nodes s'(1,3)] a(1) assms(3)
    show "\<exists>s'. on_completion True True c s = Inr s' \<and> rack_avail s' = rack_avail s - msg_nslabs m"
      by (simp add: on_completion_def)
  }
qed

end
