(* ===== verification/Coordinator_Witness.thy ===== *)
theory Coordinator_Witness
  imports Coordinator_Props
begin

text \<open>
  Concrete executions of the coordinator: a producer with 40 slabs registers and a consumer
  requests slabs; and two connections that register the same producer, after which the
  removal of the one frees what the other still uses.
\<close>

section \<open>Executions\<close>

datatype co_input = InConnect | InEstablished nat | InMessage nat message

fun co_run :: "message \<Rightarrow> co_input list \<Rightarrow> coordinator \<Rightarrow> coordinator res" where
  "co_run garbage [] s = Inr s"
| "co_run garbage (InConnect # xs) s =
     rbind (process_event True garbage RDMA_CM_EVENT_CONNECT_REQUEST s) (co_run garbage xs)"
| "co_run garbage (InEstablished c # xs) s =
     rbind (process_event True garbage (RDMA_CM_EVENT_ESTABLISHED c) s) (co_run garbage xs)"
| "co_run garbage (InMessage c m # xs) s =
     rbind (heap_at (co_conns s) c) (\<lambda>k.
     rbind (on_completion True True c (put_conn c (k\<lparr>cn_recv_msg := m\<rparr>) s)) (co_run garbage xs))"

definition w_msg :: "msg_type \<Rightarrow> int \<Rightarrow> message" where
  "w_msg ty n = \<lparr>msg_type = ty, msg_addr = 4096, msg_ip = ''h'', msg_port = 5, msg_id = 0,
     msg_rdmakey = 7, msg_nslabs = n\<rparr>"

text \<open>Connection 4 is the first one; its peer is consumer 5, and its producer has address 7.\<close>

definition w_start :: coordinator where
  "w_start = projr (coordinator_create True)"

definition w_connected :: coordinator where
  "w_connected = projr (co_run (w_msg MSG_DONE 0) [InConnect, InEstablished 4] w_start)"

definition w_added :: coordinator where
  "w_added = projr (co_run (w_msg MSG_DONE 0) [InMessage 4 (w_msg MSG_PRODUCER_ADD 40)] w_connected)"

definition w_request :: "int \<Rightarrow> coordinator" where
  "w_request n = put_conn 4 ((the (co_conns w_added 4))\<lparr>cn_recv_msg := w_msg MSG_SLAB_ADD n\<rparr>) w_added"

definition w_register :: coordinator where
  "w_register =
     put_conn 4 ((the (co_conns w_connected 4))\<lparr>cn_recv_msg := w_msg MSG_PRODUCER_ADD 40\<rparr>) w_connected"

lemma Inr_projr: "\<not> isl r \<Longrightarrow> r = Inr (projr r)"
  by (cases r) auto

lemma w_start_reach: "co_reachable w_start"
  by (rule reach_init) (simp add: co_initial_def w_start_def coordinator_create_def Let_def)

text \<open>The connection is accepted; its consumer is 5 and has no producer yet.\<close>

lemma w_start_conns: "co_conns w_start = Map.empty" "co_next w_start = 4" "co_producers w_start = Map.empty"
  "co_consumers w_start = Map.empty" "co_producer_id w_start = 1"
  by (simp_all add: w_start_def coordinator_create_def consumerlist_init_def producerlist_init_def
      coordinator_start_def alloc_def Let_def)

definition w_conn :: connection where
  "w_conn = \<lparr>cn_peer = None, cn_connected = False, cn_qp_ok = True, cn_recv_msg = w_msg MSG_DONE 0,
     cn_send_msg = w_msg MSG_DONE 0, cn_posted = 1, cn_sent = []\<rparr>"

definition w_pending :: coordinator where
  "w_pending = w_start\<lparr>co_next := 5, co_conns := [4 \<mapsto> w_conn]\<rparr>"

lemma w_pending_step:
  "process_event True (w_msg MSG_DONE 0) RDMA_CM_EVENT_CONNECT_REQUEST w_start = Inr w_pending"
  by (simp add: process_event_def on_connect_request_def build_connection_def alloc_def
      w_start_conns post_receives_def heap_at_def co_upds w_pending_def w_conn_def)

lemma w_pending_reach: "co_reachable w_pending"
  using w_start_reach co_connect [OF w_pending_step] by (rule reach_step)

lemma w_pending_facts: "co_conns w_pending = [4 \<mapsto> w_conn]" "co_next w_pending = 5"
  "co_producers w_pending = Map.empty" "co_producer_id w_pending = 1"
  by (simp_all add: w_pending_def w_start_conns)

lemma w_connected_facts:
  "co_reachable w_connected" "co_producers w_connected = Map.empty"
  "\<exists>i cli. co_conns w_connected 4 = Some (w_conn\<lparr>cn_peer := Some i, cn_connected := True\<rparr>) \<and>
     co_consumers w_connected i = Some cli \<and> ci_producer cli = None"
proof -
  from established_inv [OF coord.reach_inv [OF w_pending_reach], of 4 w_conn] obtain s' i cli where
    s': "on_connection 4 w_pending = Inr s'" "co_producers s' = Map.empty"
      "co_conns s' 4 = Some (w_conn\<lparr>cn_peer := Some i, cn_connected := True\<rparr>)"
      "co_consumers s' i = Some cli" "ci_producer cli = None"
    by (auto simp: w_pending_facts)
  then have ev: "process_event True (w_msg MSG_DONE 0) (RDMA_CM_EVENT_ESTABLISHED 4) w_pending = Inr s'"
    by (simp add: process_event_def)
  have eq: "w_connected = s'" by (simp add: w_connected_def w_pending_step ev)
  show "co_reachable w_connected" unfolding eq
    by (rule reach_step [OF w_pending_reach]) (rule co_established [OF _ ev], simp add: w_pending_facts)
  show "co_producers w_connected = Map.empty" unfolding eq by (rule s')
  show "\<exists>i cli. co_conns w_connected 4 = Some (w_conn\<lparr>cn_peer := Some i, cn_connected := True\<rparr>) \<and>
     co_consumers w_connected i = Some cli \<and> ci_producer cli = None"
    unfolding eq using s' by blast
qed

lemma on_connection_id: "on_connection c s = Inr s' \<Longrightarrow> co_producer_id s' = co_producer_id s"
  by (auto simp: on_connection_def alloc_def consumerlist_add_def rbind_eq_Inr co_upds Let_def)

lemma w_connected_id: "co_producer_id w_connected = 1"
proof -
  from established_inv [OF coord.reach_inv [OF w_pending_reach], of 4 w_conn] obtain s' where
    s': "on_connection 4 w_pending = Inr s'" by (auto simp: w_pending_facts)
  then have "process_event True (w_msg MSG_DONE 0) (RDMA_CM_EVENT_ESTABLISHED 4) w_pending = Inr s'"
    by (simp add: process_event_def)
  then have "w_connected = s'" by (simp add: w_connected_def w_pending_step)
  with on_connection_id [OF s'] show ?thesis by (simp add: w_pending_facts)
qed

text \<open>The registration of 40 slabs arrives.\<close>

lemma w_register_facts:
  "co_reachable w_register" "conn_ok w_register 4"
  "recv_of 4 w_register = Inr (w_msg MSG_PRODUCER_ADD 40)"
  "\<exists>i cli. peer_of 4 w_register = Inr (i, cli) \<and> ci_producer cli = None"
  "add_ok w_register (w_msg MSG_PRODUCER_ADD 40)" "co_producers w_register = Map.empty"
proof -
  from w_connected_facts(3) obtain i cli where
    k: "co_conns w_connected 4 = Some (w_conn\<lparr>cn_peer := Some i, cn_connected := True\<rparr>)"
    "co_consumers w_connected i = Some cli" "ci_producer cli = None" by blast
  show "co_reachable w_register"
    unfolding w_register_def using k(1)
    by (intro reach_step [OF w_connected_facts(1)]) (auto intro: co_arrive)
  show "conn_ok w_register 4" "recv_of 4 w_register = Inr (w_msg MSG_PRODUCER_ADD 40)"
    by (simp_all add: w_register_def conn_ok_def recv_of_def heap_at_def co_upds k(1) w_conn_def)
  show "\<exists>i cli. peer_of 4 w_register = Inr (i, cli) \<and> ci_producer cli = None"
    by (simp add: w_register_def peer_of_def ptr_def heap_at_def co_upds k)
  show "add_ok w_register (w_msg MSG_PRODUCER_ADD 40)" "co_producers w_register = Map.empty"
    by (simp_all add: w_register_def add_ok_def co_upds w_connected_facts(2) w_connected_id w_msg_def
        is_int32_def MAX_PRODUCER_def)
qed

text \<open>The registration is handled; then a request for slabs arrives.\<close>

lemma w_added_facts:
  "co_reachable w_added" "conn_ok w_added 4" "rack_avail w_added = 40"
proof -
  from w_register_facts(4) obtain i cli where
    cli: "peer_of 4 w_register = Inr (i, cli)" "ci_producer cli = None" by blast
  note r = w_register_facts(2,3,5) cli
  from producer_add_inv [OF coord.reach_inv [OF w_register_facts(1)] r] obtain s' id bm where
    s': "on_recv_producer_add 4 w_register = Inr s'" "conn_ok s' 4"
    "co_producers w_register (co_next w_register) = None"
    "co_producers s' = (co_producers w_register)(co_next w_register \<mapsto>
        new_producer (w_msg MSG_PRODUCER_ADD 40) id bm (Some (co_next w_register + 1)))" by blast
  have step: "on_completion True True 4 w_register = Inr s'"
    using r(2) s'(1) by (simp add: on_completion_def w_msg_def)
  obtain k where k: "co_conns w_connected 4 = Some k" using w_connected_facts(3) by blast
  have eq: "w_added = s'"
    using step by (simp add: w_added_def w_register_def heap_at_def k)
  show "co_reachable w_added" unfolding eq
    by (rule reach_step [OF w_register_facts(1)])
      (rule co_add [OF r(1,2) _ r(3-5) step], simp add: w_msg_def)
  show "conn_ok w_added 4" unfolding eq by (rule s')
  show "rack_avail w_added = 40" unfolding eq rack_avail_def
    by (simp add: s'(4) w_register_facts(6) avail_of_def new_producer_def w_msg_def)
qed

lemma w_request_facts:
  "co_reachable (w_request n)" "conn_ok (w_request n) 4"
  "recv_of 4 (w_request n) = Inr (w_msg MSG_SLAB_ADD n)" "rack_avail (w_request n) = 40"
proof -
  from w_added_facts(2) obtain k where k: "co_conns w_added 4 = Some k" "cn_connected k" "cn_qp_ok k"
    by (auto simp: conn_ok_def)
  show "co_reachable (w_request n)"
    unfolding w_request_def using k(1)
    by (intro reach_step [OF w_added_facts(1)]) (auto intro: co_arrive)
  show "conn_ok (w_request n) 4" "recv_of 4 (w_request n) = Inr (w_msg MSG_SLAB_ADD n)"
    by (simp_all add: w_request_def conn_ok_def recv_of_def heap_at_def co_upds k)
  show "rack_avail (w_request n) = 40"
    using w_added_facts(3) by (simp add: rack_avail_def avail_of_def w_request_def co_upds)
qed

section \<open>Witnesses\<close>


theorem slab_request_served_witness:
  "\<exists>s' gs k k' m'. on_completion True True 4 (w_request 3) = Inr s' \<and>
    co_conns (w_request 3) 4 = Some k \<and> co_conns s' 4 = Some k' \<and>
    cn_sent k' = cn_sent k @ map (grant_msg (w_request 3)) gs @ [m'] \<and> msg_type m' = MSG_DONE_SLAB_ADD \<and>
    sum_list (map (\<lambda>(p, first, n). n) gs) = 3"
proof -
  let ?m = "w_msg MSG_SLAB_ADD 3"
  have m: "msg_type ?m = MSG_SLAB_ADD" "0 \<le> msg_nslabs ?m" "msg_nslabs ?m \<le> rack_avail (w_request 3)"
    "msg_nslabs ?m = 3" by (simp_all add: w_msg_def w_request_facts(4))
  from slab_request_served [OF w_request_facts(1-3) m(1-3)] obtain s' gs k k' m' where
    "on_completion True True 4 (w_request 3) = Inr s'" "co_conns (w_request 3) 4 = Some k"
    "co_conns s' 4 = Some k'" "cn_sent k' = cn_sent k @ map (grant_msg (w_request 3)) gs @ [m']"
    "msg_type m' = MSG_DONE_SLAB_ADD" "sum_list (map (\<lambda>(p, first, n). n) gs) = msg_nslabs ?m"
    by blast
  then show ?thesis unfolding m(4) by blast
qed

theorem slab_request_crash_witness:
  "rack_avail (w_request 41) = 40 \<and> on_completion True True 4 (w_request 41) = Inl NullDeref"
  using slab_request_crash [OF w_request_facts(1-3) [of 41]]
  by (simp add: w_msg_def w_request_facts(4))

theorem set_bit_get_bit_witness:
  "\<exists>bm'. set_bit_c [0, 0] 33 = Inr bm' \<and> length bm' = length [0 :: 32 word, 0] \<and>
    get_bit_c bm' 33 = Inr True"
  using set_bit_get_bit [of "[0, 0]" 33 33] by (simp add: bm_ok_def)

theorem clear_bit_clears_below_witness:
  "\<exists>bm'. clear_bit_c [7, 0] 2 = Inr bm' \<and> get_bit_c bm' 0 = Inr False"
  using clear_bit_clears_below [of "[7, 0]" 2 0] by (simp add: bm_ok_def)

definition w_producer :: "int \<Rightarrow> producer_info_t" where
  "w_producer n = new_producer (w_msg MSG_PRODUCER_ADD n) 1 [0, 0] None"

theorem slab_addr_roundtrip_witness:
  "slab_from_addr (w_producer 40) (addr_from_slab (w_producer 40) 39) = 39"
  by (rule slab_addr_roundtrip)
    (simp_all add: w_producer_def new_producer_def w_msg_def RDMA_PRODUCER_SLAB_SIZE_def)

theorem slab_addr_alias_witness:
  "addr_from_slab (w_producer 524288) 32768 = addr_from_slab (w_producer 524288) 0"
  by (rule slab_addr_alias) (simp add: w_producer_def new_producer_def w_msg_def)

theorem producerlist_destroyed_witness:
  "\<exists>s'. producerlist_destroy w_added = Inr s' \<and> co_producers s' = Map.empty"
  using producerlist_destroyed [OF w_added_facts(1)] by blast

theorem rack_accounting_witness:
  "rack_avail w_register = 0 \<and>
   (\<exists>s'. on_completion True True 4 w_register = Inr s' \<and> rack_avail s' = 40)"
proof -
  from w_register_facts(4) obtain i cli where
    cli: "peer_of 4 w_register = Inr (i, cli)" "ci_producer cli = None" by blast
  have "rack_avail w_register = 0" by (simp add: rack_avail_def w_register_facts(6))
  moreover have "msg_type (w_msg MSG_PRODUCER_ADD 40) = MSG_PRODUCER_ADD"
    "msg_nslabs (w_msg MSG_PRODUCER_ADD 40) = 40" by (simp_all add: w_msg_def)
  ultimately show ?thesis
    using rack_accounting [OF w_register_facts(1-3) cli(1)] w_register_facts(5) cli(2) by simp
qed

end
