(* ===== verification/Wire.thy ===== *)
theory Wire
  imports C_Strings
begin

text \<open>
  What the broker, the producer and the consumer of the harvester share: the types of
  their messages, reading numbers separated by commas with \<^verbatim>\<open>sscanf\<close>, splitting a message
  into tokens with \<^verbatim>\<open>strtok\<close>, strings that are copied into arrays with \<^verbatim>\<open>memcpy\<close> and without
  their terminating zero, and what a \<^verbatim>\<open>recv\<close> leaves in a buffer.
\<close>

section \<open>Messages\<close>

datatype wire_type =
    CONNECTION_ACK | PRODUCER_REG | CONSUMER_REG | REGISTRATION_ACK | PRODUCER_AVAILABILITY
  | SPOT_REQUEST | SPOT_ASSIGNMENT_CONSUMER | SPOT_ASSIGNMENT_PRODUCER | PRODUCER_READY

fun wire_num :: "wire_type \<Rightarrow> int" where
  "wire_num CONNECTION_ACK = 0"
| "wire_num PRODUCER_REG = 1"
| "wire_num CONSUMER_REG = 2"
| "wire_num REGISTRATION_ACK = 3"
| "wire_num PRODUCER_AVAILABILITY = 4"
| "wire_num SPOT_REQUEST = 5"
| "wire_num SPOT_ASSIGNMENT_CONSUMER = 6"
| "wire_num SPOT_ASSIGNMENT_PRODUCER = 7"
| "wire_num PRODUCER_READY = 8"

text \<open>
  The switch on the type of a message is by number; a number that is no type takes the
  \<^verbatim>\<open>default\<close> branch.
\<close>

definition wire_types :: "wire_type list" where
  "wire_types = [CONNECTION_ACK, PRODUCER_REG, CONSUMER_REG, REGISTRATION_ACK,
     PRODUCER_AVAILABILITY, SPOT_REQUEST, SPOT_ASSIGNMENT_CONSUMER, SPOT_ASSIGNMENT_PRODUCER,
     PRODUCER_READY]"

definition wire_of :: "int \<Rightarrow> wire_type option" where
  "wire_of n = find (\<lambda>t. wire_num t = n) wire_types"

text \<open>
  A message is either written with the whole array it is in, so that its terminating zero
  and the rest of the array follow, or with its length only.
\<close>

datatype payload = Whole nat string | Exact string

fun payload_text :: "payload \<Rightarrow> string" where
  "payload_text (Whole n s) = s"
| "payload_text (Exact s) = s"

text \<open>The bytes on the wire; \<open>junk\<close> is what is in the array behind the terminating zero.\<close>

fun payload_bytes :: "char list \<Rightarrow> payload \<Rightarrow> char list" where
  "payload_bytes junk (Whole n s) = take n (s @ CHR 0x00 # junk)"
| "payload_bytes junk (Exact s) = s"

text \<open>\<^verbatim>\<open>sprintf\<close> of numbers and strings separated by a character.\<close>

fun sep_by :: "char \<Rightarrow> string list \<Rightarrow> string" where
  "sep_by c [] = []"
| "sep_by c [s] = s"
| "sep_by c (s # ss) = s @ c # sep_by c ss"

section \<open>Reading messages\<close>

text \<open>
  \<^verbatim>\<open>sscanf(msg, "%d,%d,...")\<close> with at most \<open>n\<close> conversions: the values that are assigned. The
  scan stops where a number or a comma is missing, and the later variables keep what they
  hold.
\<close>

fun sscanf_ints :: "nat \<Rightarrow> string \<Rightarrow> int list" where
  "sscanf_ints 0 s = []"
| "sscanf_ints (Suc n) s =
     (case scan_int s of
        None \<Rightarrow> []
      | Some (i, rest) \<Rightarrow>
          to_int32 i #
          (case rest of
             [] \<Rightarrow> []
           | c # cs \<Rightarrow> if c = CHR '','' then sscanf_ints n cs else []))"

text \<open>A local variable that the scan did not reach is uninitialised.\<close>

definition arg :: "int list \<Rightarrow> nat \<Rightarrow> int res" where
  "arg xs i = (if i < length xs then Inr (xs ! i) else Inl Uninit)"

lemma strtok_shorter: "strtok ds s = Some (t, rest) \<Longrightarrow> length rest < length s"
proof -
  assume a: "strtok ds s = Some (t, rest)"
  let ?t = "dropWhile (\<lambda>c. c \<in> set ds) s"
  have t: "?t \<noteq> []" "rest = drop 1 (dropWhile (\<lambda>c. c \<notin> set ds) ?t)"
    using a by (auto simp: strtok_def Let_def split: if_splits)
  have "length (dropWhile (\<lambda>c. c \<notin> set ds) ?t) < length ?t"
    using t(1) length_dropWhile_le [of "\<lambda>c. c \<notin> set ds" "tl ?t"] hd_dropWhile [OF t(1)]
    by (cases ?t) auto
  moreover have "length ?t \<le> length s" by (rule length_dropWhile_le)
  ultimately show ?thesis using t(2) by simp
qed

function tokens :: "char list \<Rightarrow> string \<Rightarrow> string list" where
  "tokens ds s = (case strtok ds s of None \<Rightarrow> [] | Some (t, rest) \<Rightarrow> t # tokens ds rest)"
  by pat_completeness auto
termination by (relation "measure (\<lambda>(ds, s). length s)") (auto dest: strtok_shorter)

declare tokens.simps [simp del]

section \<open>Copying into arrays\<close>

text \<open>
  \<^verbatim>\<open>memcpy(array, s, strlen(s))\<close>: the characters without the terminating zero; what follows
  them in the array stays.
\<close>

definition memcpy_str :: "string \<Rightarrow> char list \<Rightarrow> char list res" where
  "memcpy_str s bytes =
     (if length s \<le> length bytes then Inr (s @ drop (length s) bytes) else Inl OutOfBounds)"

text \<open>\<^verbatim>\<open>recv\<close> puts the bytes it receives at the start of the buffer.\<close>

definition recv_into :: "char list \<Rightarrow> char list \<Rightarrow> char list" where
  "recv_into buf bytes = take (length buf) bytes @ drop (length bytes) buf"

section \<open>Assignments\<close>

text \<open>
  \<^verbatim>\<open>portal_parser\<close> of the producer and of the consumer: the message is copied without its zero
  into an array of 1024 characters, whose contents \<open>ptr\<close> are what the stack holds, and split
  at commas and colons. From the third token on, four tokens are an entry: an address that
  is copied into the array \<^verbatim>\<open>addr\<close>, a port, a size and an identifier. \<open>entry\<close> stores an entry and
  \<open>count\<close> the second token.
\<close>

record portal_vars =
  pv_addr :: "char list"
  pv_port :: "int option"
  pv_size :: "int option"

fun portal_loop ::
  "(int \<Rightarrow> 's \<Rightarrow> 's) \<Rightarrow> (string \<Rightarrow> int \<Rightarrow> int \<Rightarrow> int \<Rightarrow> 's \<Rightarrow> 's res) \<Rightarrow> nat \<Rightarrow> string list \<Rightarrow>
   portal_vars \<Rightarrow> 's \<Rightarrow> 's res" where
  "portal_loop count entry k [] v s = Inr s"
| "portal_loop count entry k (t # ts) v s =
     (if k = 0 then portal_loop count entry (k + 1) ts v s
      else if k = 1 then portal_loop count entry (k + 1) ts v (count (atoi t) s)
      else if k mod 4 = 2 then
        rbind (memcpy_str t (pv_addr v)) (\<lambda>a. portal_loop count entry (k + 1) ts (v\<lparr>pv_addr := a\<rparr>) s)
      else if k mod 4 = 3 then portal_loop count entry (k + 1) ts (v\<lparr>pv_port := Some (atoi t)\<rparr>) s
      else if k mod 4 = 0 then portal_loop count entry (k + 1) ts (v\<lparr>pv_size := Some (atoi t)\<rparr>) s
      else
        rbind (init_var (pv_port v)) (\<lambda>port. rbind (init_var (pv_size v)) (\<lambda>sz.
        rbind (c_str (pv_addr v)) (\<lambda>addr.
        rbind (entry addr port sz (atoi t) s) (portal_loop count entry (k + 1) ts v)))))"

definition portal ::
  "(int \<Rightarrow> 's \<Rightarrow> 's) \<Rightarrow> (string \<Rightarrow> int \<Rightarrow> int \<Rightarrow> int \<Rightarrow> 's \<Rightarrow> 's res) \<Rightarrow> char list \<Rightarrow> char list \<Rightarrow>
   string \<Rightarrow> 's \<Rightarrow> 's res" where
  "portal count entry ptr addr msg s =
     rbind (memcpy_str msg (take 1024 ptr)) (\<lambda>bytes.
     rbind (c_str bytes) (\<lambda>text.
       portal_loop count entry 0 (tokens '',:'' text)
         \<lparr>pv_addr = take 200 addr, pv_port = None, pv_size = None\<rparr> s))"

section \<open>Lemmas\<close>

lemma wire_of_num [simp]: "wire_of (wire_num t) = Some t"
  by (cases t) (simp_all add: wire_of_def wire_types_def)

lemma wire_num_int32: "is_int32 (wire_num t)"
  by (cases t) (simp_all add: is_int32_def)

lemma arg_nth [simp]: "i < length xs \<Longrightarrow> arg xs i = Inr (xs ! i)"
  by (simp add: arg_def)

text \<open>Reading back numbers that were printed with commas between them.\<close>

lemma starts_with_digit_comma [simp]: "\<not> starts_with_digit (CHR '','' # cs)"
  by (simp add: starts_with_digit_def digit_val_def)

lemma starts_with_digit_Nil [simp]: "\<not> starts_with_digit []"
  by (simp add: starts_with_digit_def)

lemma sscanf_ints_printed:
  assumes "list_all is_int32 is" "length is \<le> n"
  shows "sscanf_ints n (sep_by (CHR '','') (map print_int is)) = is"
  using assms
proof (induction "is" arbitrary: n)
  case Nil
  then show ?case by (cases n) (simp_all add: scan_int_def)
next
  case (Cons i js)
  then obtain m where m: "n = Suc m" "length js \<le> m" by (cases n) auto
  show ?case
  proof (cases js)
    case Nil
    with Cons.prems(1) m scan_print_int [of "[]" i] show ?thesis by (simp add: to_int32_id)
  next
    case (Cons j ks)
    then have "sep_by (CHR '','') (map print_int (i # js)) =
        print_int i @ CHR '','' # sep_by (CHR '','') (map print_int js)" by simp
    with Cons.IH [OF _ m(2)] Cons.prems(1) m scan_print_int [of "CHR '','' # _" i]
    show ?thesis by (simp add: to_int32_id del: sep_by.simps)
  qed
qed

lemma sscanf_ints_type:
  assumes "is_int32 i" "\<not> starts_with_digit rest" "rest = [] \<or> hd rest \<noteq> CHR '','' \<or> n = 0"
  shows "sscanf_ints (Suc n) (print_int i @ rest) = [i]"
  using assms scan_print_int [OF assms(2), of i]
  by (cases rest) (auto simp: to_int32_id)

text \<open>Splitting a text whose fields have no delimiter in them.\<close>

definition field :: "char list \<Rightarrow> string \<Rightarrow> bool" where
  "field ds s \<longleftrightarrow> s \<noteq> [] \<and> set s \<inter> set ds = {}"

lemma strtok_field:
  assumes "field ds t" "rest = [] \<or> hd rest \<in> set ds"
  shows "strtok ds (t @ rest) = Some (t, drop 1 rest)"
proof -
  have nin: "\<forall>c \<in> set t. c \<notin> set ds" using assms(1) by (auto simp: field_def)
  then have "dropWhile (\<lambda>c. c \<in> set ds) (t @ rest) = t @ rest"
    using assms(1) by (cases t) (auto simp: field_def)
  moreover have "takeWhile (\<lambda>c. c \<notin> set ds) (t @ rest) = t"
    "dropWhile (\<lambda>c. c \<notin> set ds) (t @ rest) = rest"
    using nin assms(2) by (cases rest; simp add: takeWhile_append2 dropWhile_append2)+
  ultimately show ?thesis using assms(1) by (simp add: strtok_def field_def)
qed

lemma tokens_Nil [simp]: "tokens ds [] = []"
  by (subst tokens.simps) (simp add: strtok_def)

lemma tokens_field:
  "field ds t \<Longrightarrow> tokens ds t = [t]"
  by (subst tokens.simps) (use strtok_field [of ds t "[]"] in simp)

lemma tokens_Cons:
  "field ds t \<Longrightarrow> d \<in> set ds \<Longrightarrow> tokens ds (t @ d # rest) = t # tokens ds rest"
  by (subst tokens.simps) (simp add: strtok_field)

lemma print_int_field:
  assumes "\<And>c. c \<in> set ds \<Longrightarrow> digit_val c = None \<and> c \<noteq> CHR ''-''"
  shows "field ds (print_int i)"
proof -
  have "digit_val c \<noteq> None" if "c \<in> set (print_nat n)" for c n
    using print_nat_digits [OF that] by auto
  with assms show ?thesis
    by (fastforce simp: field_def print_int_def print_nat_ne)
qed

lemma print_int_field_std [simp]: "field '',:'' (print_int i)"
  by (rule print_int_field) (auto simp: digit_val_def)

lemma c_str_zero:
  "CHR 0x00 \<notin> set s \<Longrightarrow> c_str (s @ CHR 0x00 # rest) = Inr s"
  unfolding c_str_def by (subst takeWhile_append2) auto

lemma memcpy_str_zeros:
  assumes "length s < n" "CHR 0x00 \<notin> set s"
  shows "\<exists>bytes. memcpy_str s (replicate n (CHR 0x00)) = Inr bytes \<and> length bytes = n \<and> c_str bytes = Inr s"
proof -
  obtain k where k: "n - length s = Suc k" using assms(1) by (cases "n - length s") auto
  have "c_str (s @ replicate (Suc k) (CHR 0x00)) = Inr s"
    using c_str_zero [OF assms(2), of "replicate k (CHR 0x00)"] by simp
  with assms(1) k show ?thesis by (simp add: memcpy_str_def)
qed

text \<open>
  A message that is sent with its array is received as it is, whatever the buffer holds.
\<close>

lemma recv_whole:
  assumes "length s < n" "n \<le> length buf" "CHR 0x00 \<notin> set s"
  shows "c_str (recv_into buf (payload_bytes junk (Whole n s))) = Inr s"
proof -
  obtain k where k: "n - length s = Suc k" using assms(1) by (cases "n - length s") auto
  have "payload_bytes junk (Whole n s) = s @ CHR 0x00 # take k junk"
    using assms(1) k by simp
  moreover have "length (s @ CHR 0x00 # take k junk) \<le> length buf" using assms(1,2) k by auto
  ultimately have "recv_into buf (payload_bytes junk (Whole n s)) =
      s @ CHR 0x00 # (take k junk @ drop (length (s @ CHR 0x00 # take k junk)) buf)"
    by (simp add: recv_into_def)
  with c_str_zero [OF assms(3)] show ?thesis by simp
qed

declare wire_num.simps [simp del]

end
