(* ===== verification/Broker.thy ===== *)
theory Broker
  imports Wire
begin

text \<open>
  The broker of the harvester (\<^verbatim>\<open>harvester/server/broker.c\<close>): producers and consumers register
  over a socket, producers report the slabs they can lend, and a consumer's request for
  spot memory is placed on the producers. \<^verbatim>\<open>qsort\<close> is called with a comparison function that
  never returns a negative number, which leaves the order of its result open, so it is a
  parameter: a function of the comparison and the array. What is written to a socket is
  recorded with the socket, in the order of the writes.
\<close>

section \<open>State\<close>

definition MAX_PRODUCERS :: nat where "MAX_PRODUCERS = 128"
definition MAX_CONSUMERS :: nat where "MAX_CONSUMERS = 128"
definition MIN_FREE :: int where "MIN_FREE = 1"
definition BROKER_BUFFER_SIZE :: nat where "BROKER_BUFFER_SIZE = 4096"

datatype role = PRODUCER | CONSUMER

record broker_producer =
  bp_ip :: "char list"
  bp_port :: int
  bp_nslabs :: int
  bp_available_slabs :: int
  bp_id :: int
  bp_sock :: int

record broker_consumer =
  bc_ip :: "char list"
  bc_port :: int
  bc_id :: int
  bc_assigned_slabs :: int
  bc_sock :: int

record broker =
  bk_producers :: "broker_producer arr"
  bk_consumers :: "broker_consumer arr"
  bk_consumer_id :: int
  bk_producer_id :: int
  bk_out :: "(int \<times> payload) list"

definition broker_init :: broker where
  "broker_init =
     \<lparr>bk_producers = (\<lambda>_. \<lparr>bp_ip = replicate 200 (CHR 0x00), bp_port = 0, bp_nslabs = 0,
        bp_available_slabs = 0, bp_id = 0, bp_sock = 0\<rparr>),
      bk_consumers = (\<lambda>_. \<lparr>bc_ip = replicate 200 (CHR 0x00), bc_port = 0, bc_id = 0,
        bc_assigned_slabs = 0, bc_sock = 0\<rparr>),
      bk_consumer_id = 0, bk_producer_id = 0, bk_out = []\<rparr>"

text \<open>The arrays have two elements more than the maxima.\<close>

definition producer_at :: "broker \<Rightarrow> int \<Rightarrow> broker_producer res" where
  "producer_at s i = aget (MAX_PRODUCERS + 2) (bk_producers s) i"

definition consumer_at :: "broker \<Rightarrow> int \<Rightarrow> broker_consumer res" where
  "consumer_at s i = aget (MAX_CONSUMERS + 2) (bk_consumers s) i"

definition put_bk_producer :: "int \<Rightarrow> broker_producer \<Rightarrow> broker \<Rightarrow> broker res" where
  "put_bk_producer i p s =
     rbind (aset (MAX_PRODUCERS + 2) (bk_producers s) i p) (\<lambda>a. Inr (s\<lparr>bk_producers := a\<rparr>))"

definition put_bk_consumer :: "int \<Rightarrow> broker_consumer \<Rightarrow> broker \<Rightarrow> broker res" where
  "put_bk_consumer i p s =
     rbind (aset (MAX_CONSUMERS + 2) (bk_consumers s) i p) (\<lambda>a. Inr (s\<lparr>bk_consumers := a\<rparr>))"

section \<open>Sending\<close>

definition sock_write :: "int \<Rightarrow> payload \<Rightarrow> broker \<Rightarrow> broker" where
  "sock_write sock m s = s\<lparr>bk_out := bk_out s @ [(sock, m)]\<rparr>"

definition send_connection_ack :: "int \<Rightarrow> broker \<Rightarrow> broker res" where
  "send_connection_ack sock s =
     rbind (copy_str 100 (print_int (wire_num CONNECTION_ACK))) (\<lambda>m. Inr (sock_write sock (Whole 100 m) s))"

definition send_register_ack :: "int \<Rightarrow> int \<Rightarrow> broker \<Rightarrow> broker res" where
  "send_register_ack sock i s =
     rbind (copy_str 100 (sep_by (CHR '','') [print_int (wire_num REGISTRATION_ACK), print_int i]))
       (\<lambda>m. Inr (sock_write sock (Whole 100 m) s))"

definition send_assignment_msg :: "int \<Rightarrow> string \<Rightarrow> role \<Rightarrow> broker \<Rightarrow> broker res" where
  "send_assignment_msg i m r s =
     (case r of
        PRODUCER \<Rightarrow> rbind (producer_at s i) (\<lambda>p. Inr (sock_write (bp_sock p) (Exact m) s))
      | CONSUMER \<Rightarrow> rbind (consumer_at s i) (\<lambda>c. Inr (sock_write (bc_sock c) (Exact m) s)))"

definition broker_send_ready :: "int \<Rightarrow> int \<Rightarrow> int \<Rightarrow> broker \<Rightarrow> broker res" where
  "broker_send_ready p c manager_port s =
     rbind (copy_str 200 (sep_by (CHR '','')
        (map print_int [wire_num PRODUCER_READY, p, c, manager_port]))) (\<lambda>m.
     rbind (consumer_at s c) (\<lambda>x. Inr (sock_write (bc_sock x) (Whole 200 m) s)))"

section \<open>Registration\<close>

text \<open>
  The tokens of the message: the second is copied to \<^verbatim>\<open>ip\<close>, an array of 200 characters of the
  caller, the third is the port. A variable for which there is no token stays uninitialised.
\<close>

definition ip_parser :: "string \<Rightarrow> (string option \<times> int option) res" where
  "ip_parser msg =
     (let ts = tokens '',:'' msg in
      rbind (if 1 < length ts then rbind (copy_str 200 (ts ! 1)) (\<lambda>ip. Inr (Some ip)) else Inr None)
        (\<lambda>ip. Inr (ip, if 2 < length ts then Some (atoi (ts ! 2)) else None)))"

definition register_client :: "string \<Rightarrow> int \<Rightarrow> role \<Rightarrow> int \<Rightarrow> broker \<Rightarrow> broker res" where
  "register_client ip port r sock s =
     (case r of
        PRODUCER \<Rightarrow>
          (let i = bk_producer_id s; s1 = s\<lparr>bk_producer_id := to_int32 (i + 1)\<rparr> in
           rbind (producer_at s1 i) (\<lambda>p.
           rbind (memcpy_str ip (bp_ip p)) (\<lambda>bytes.
           rbind (put_bk_producer i \<lparr>bp_ip = bytes, bp_port = port, bp_nslabs = 0,
                    bp_available_slabs = 0, bp_id = i, bp_sock = sock\<rparr> s1)
             (send_register_ack sock i))))
      | CONSUMER \<Rightarrow>
          (let i = bk_consumer_id s; s1 = s\<lparr>bk_consumer_id := to_int32 (i + 1)\<rparr> in
           rbind (consumer_at s1 i) (\<lambda>c.
           rbind (memcpy_str ip (bc_ip c)) (\<lambda>bytes.
           rbind (put_bk_consumer i \<lparr>bc_ip = bytes, bc_port = port, bc_id = i,
                    bc_assigned_slabs = 0, bc_sock = sock\<rparr> s1)
             (send_register_ack sock i)))))"

section \<open>Placement\<close>

definition broker_comparator :: "broker_producer \<Rightarrow> broker_producer \<Rightarrow> int" where
  "broker_comparator p q = (if bp_available_slabs p < bp_available_slabs q then 1 else 0)"

definition candidates :: "broker \<Rightarrow> broker_producer list" where
  "candidates s =
     filter (\<lambda>p. bp_available_slabs p \<noteq> 0) (map (bk_producers s) [0 ..< MAX_PRODUCERS])"

text \<open>\<^verbatim>\<open>"%d,%d,%s:%d:%d:%d\n"\<close> into an array of 1024 characters.\<close>

definition assignment_msg :: "wire_type \<Rightarrow> char list \<Rightarrow> int \<Rightarrow> int \<Rightarrow> int \<Rightarrow> string res" where
  "assignment_msg t ip port n i =
     rbind (c_str ip) (\<lambda>addr.
       copy_str 1024 (print_int (wire_num t) @ '','' @ print_int 1 @ '','' @
         sep_by (CHR '':'') [addr, print_int port, print_int n, print_int i] @ [CHR 0x0A]))"

definition assign :: "int \<Rightarrow> int \<Rightarrow> int \<Rightarrow> int \<Rightarrow> broker \<Rightarrow> broker res" where
  "assign cid pid available p_alloc s =
     rbind (producer_at s pid) (\<lambda>p.
     rbind (put_bk_producer pid (p\<lparr>bp_available_slabs := max 0 (to_int32 (available - p_alloc))\<rparr>) s) (\<lambda>s1.
     rbind (consumer_at s1 cid) (\<lambda>c.
     rbind (assignment_msg SPOT_ASSIGNMENT_PRODUCER (bc_ip c) (bc_port c) p_alloc (bc_id c)) (\<lambda>pm.
     rbind (producer_at s1 pid) (\<lambda>q.
     rbind (assignment_msg SPOT_ASSIGNMENT_CONSUMER (bp_ip q) (bp_port q) p_alloc (bp_id q)) (\<lambda>cm.
     rbind (send_assignment_msg pid pm PRODUCER s1)
       (send_assignment_msg cid cm CONSUMER)))))))"

fun placement_loop :: "int \<Rightarrow> int \<Rightarrow> broker_producer list \<Rightarrow> int \<Rightarrow> broker \<Rightarrow> broker res" where
  "placement_loop cid spot_size [] allocated s = Inr s"
| "placement_loop cid spot_size (t # ts) allocated s =
     (if allocated < spot_size then
        (let rest = to_int32 (spot_size - allocated) in
         if bp_available_slabs t \<ge> rest then
           rbind (assign cid (bp_id t) (bp_available_slabs t) rest s)
             (placement_loop cid spot_size ts (to_int32 (allocated + rest)))
         else
           (let p_alloc = to_int32 (spot_size - (bp_available_slabs t - MIN_FREE)) in
            if p_alloc \<ge> 0 then
              rbind (assign cid (bp_id t) (bp_available_slabs t) p_alloc s)
                (placement_loop cid spot_size ts (to_int32 (allocated + p_alloc)))
            else placement_loop cid spot_size ts allocated s))
      else Inr s)"

type_synonym qsort_fun =
  "(broker_producer \<Rightarrow> broker_producer \<Rightarrow> int) \<Rightarrow> broker_producer list \<Rightarrow> broker_producer list"

definition find_placement :: "qsort_fun \<Rightarrow> int \<Rightarrow> int \<Rightarrow> int \<Rightarrow> broker \<Rightarrow> broker res" where
  "find_placement qsort cid spot_size lease_time s =
     placement_loop cid spot_size (qsort broker_comparator (candidates s)) 0 s"

section \<open>Messages\<close>

definition broker_register :: "string \<Rightarrow> role \<Rightarrow> int \<Rightarrow> broker \<Rightarrow> broker res" where
  "broker_register msg r sock s =
     rbind (ip_parser msg) (\<lambda>(ip, port).
     rbind (init_var ip) (\<lambda>a. rbind (init_var port) (\<lambda>b. register_client a b r sock s)))"

definition broker_availability :: "string \<Rightarrow> broker \<Rightarrow> broker res" where
  "broker_availability msg s =
     (let xs = sscanf_ints 4 msg in
      rbind (arg xs 1) (\<lambda>i. rbind (arg xs 2) (\<lambda>available. rbind (arg xs 3) (\<lambda>nslab.
      rbind (producer_at s i) (\<lambda>p.
        put_bk_producer i (p\<lparr>bp_nslabs := nslab, bp_available_slabs := available\<rparr>) s)))))"

definition broker_spot_request :: "qsort_fun \<Rightarrow> string \<Rightarrow> broker \<Rightarrow> broker res" where
  "broker_spot_request qsort msg s =
     (let xs = sscanf_ints 4 msg in
      rbind (arg xs 1) (\<lambda>cid. rbind (arg xs 2) (\<lambda>spot_size. rbind (arg xs 3) (\<lambda>lease_time.
        find_placement qsort cid spot_size lease_time s))))"

definition broker_ready :: "string \<Rightarrow> broker \<Rightarrow> broker res" where
  "broker_ready msg s =
     (let xs = sscanf_ints 4 msg in
      rbind (arg xs 1) (\<lambda>p. rbind (arg xs 2) (\<lambda>c. rbind (arg xs 3) (\<lambda>port.
        broker_send_ready p c port s))))"

definition broker_handle_message :: "qsort_fun \<Rightarrow> string \<Rightarrow> int \<Rightarrow> broker \<Rightarrow> broker res" where
  "broker_handle_message qsort msg sock s =
     rbind (arg (sscanf_ints 1 msg) 0) (\<lambda>ty.
       case wire_of ty of
         Some PRODUCER_REG \<Rightarrow> broker_register msg PRODUCER sock s
       | Some CONSUMER_REG \<Rightarrow> broker_register msg CONSUMER sock s
       | Some PRODUCER_AVAILABILITY \<Rightarrow> broker_availability msg s
       | Some SPOT_REQUEST \<Rightarrow> broker_spot_request qsort msg s
       | Some PRODUCER_READY \<Rightarrow> broker_ready msg s
       | _ \<Rightarrow> Inr s)"

text \<open>The thread of a connection: \<open>chunks\<close> are the results of its \<^verbatim>\<open>recv\<close> calls.\<close>

fun broker_receive :: "qsort_fun \<Rightarrow> int \<Rightarrow> char list \<Rightarrow> char list list \<Rightarrow> broker \<Rightarrow> broker res" where
  "broker_receive qsort sock buf [] s = Inr s"
| "broker_receive qsort sock buf (bytes # chunks) s =
     (let buf' = recv_into buf bytes in
      rbind (c_str buf') (\<lambda>msg.
      rbind (broker_handle_message qsort msg sock s)
        (broker_receive qsort sock buf' chunks)))"

definition connection_handler :: "qsort_fun \<Rightarrow> int \<Rightarrow> char list \<Rightarrow> char list list \<Rightarrow> broker \<Rightarrow> broker res" where
  "connection_handler qsort sock garbage chunks s =
     rbind (send_connection_ack sock s)
       (broker_receive qsort sock (take BROKER_BUFFER_SIZE garbage) (takeWhile (\<lambda>b. b \<noteq> []) chunks))"

end
