(* ===== verification/Broker_Inv.thy ===== *)
theory Broker_Inv
  imports Broker "HOL-Library.Multiset"
begin

text \<open>
  The invariant of the broker and the effect of each message of a client that keeps the
  protocol. A client's message is a value of \<open>client_msg\<close>; \<open>client_text\<close> is the text it is
  sent as. The placement loop is related to \<open>plan\<close>, the list of producers that a request is
  placed on with the slabs each is asked for.
\<close>

section \<open>Invariant\<close>

definition ip_ok :: "char list \<Rightarrow> bool" where
  "ip_ok ip \<longleftrightarrow> length ip = 200 \<and> CHR 0x00 \<in> set ip"

definition producer_ok :: "int \<Rightarrow> nat \<Rightarrow> broker_producer \<Rightarrow> bool" where
  "producer_ok n i p \<longleftrightarrow> ip_ok (bp_ip p) \<and> is_int32 (bp_port p) \<and>
     0 \<le> bp_available_slabs p \<and> bp_available_slabs p < 2 ^ 31 \<and>
     (if int i < n then bp_id p = int i
      else bp_ip p = replicate 200 (CHR 0x00) \<and> bp_available_slabs p = 0)"

definition consumer_ok :: "int \<Rightarrow> nat \<Rightarrow> broker_consumer \<Rightarrow> bool" where
  "consumer_ok n i c \<longleftrightarrow> ip_ok (bc_ip c) \<and> is_int32 (bc_port c) \<and>
     (if int i < n then bc_id c = int i else bc_ip c = replicate 200 (CHR 0x00))"

definition broker_inv :: "broker \<Rightarrow> bool" where
  "broker_inv s \<longleftrightarrow>
     0 \<le> bk_producer_id s \<and> bk_producer_id s \<le> int MAX_PRODUCERS \<and>
     0 \<le> bk_consumer_id s \<and> bk_consumer_id s \<le> int MAX_CONSUMERS \<and>
     (\<forall>i. producer_ok (bk_producer_id s) i (bk_producers s i)) \<and>
     (\<forall>i. consumer_ok (bk_consumer_id s) i (bk_consumers s i))"

section \<open>Messages of clients\<close>

datatype client_msg =
    RegProducer string int
  | RegConsumer string int
  | Availability int int int
  | SpotRequest int int int
  | Ready int int int

fun client_text :: "client_msg \<Rightarrow> string" where
  "client_text (RegProducer ip port) = sep_by (CHR '','') [print_int (wire_num PRODUCER_REG), ip, print_int port]"
| "client_text (RegConsumer ip port) = sep_by (CHR '','') [print_int (wire_num CONSUMER_REG), ip, print_int port]"
| "client_text (Availability i a n) =
     sep_by (CHR '','') (map print_int [wire_num PRODUCER_AVAILABILITY, i, a, n])"
| "client_text (SpotRequest i n t) =
     sep_by (CHR '','') (map print_int [wire_num SPOT_REQUEST, i, n, t])"
| "client_text (Ready p c port) =
     sep_by (CHR '','') (map print_int [wire_num PRODUCER_READY, p, c, port])"

definition ip_text :: "string \<Rightarrow> bool" where
  "ip_text ip \<longleftrightarrow> field '',:'' ip \<and> CHR 0x00 \<notin> set ip \<and> length ip < 200"

text \<open>The requests of a client that keeps the protocol.\<close>

fun client_ok :: "client_msg \<Rightarrow> broker \<Rightarrow> bool" where
  "client_ok (RegProducer ip port) s \<longleftrightarrow>
     ip_text ip \<and> is_int32 port \<and> bk_producer_id s < int MAX_PRODUCERS"
| "client_ok (RegConsumer ip port) s \<longleftrightarrow>
     ip_text ip \<and> is_int32 port \<and> bk_consumer_id s < int MAX_CONSUMERS"
| "client_ok (Availability i a n) s \<longleftrightarrow>
     0 \<le> i \<and> i < bk_producer_id s \<and> 0 \<le> a \<and> a < 2 ^ 31 \<and> is_int32 n"
| "client_ok (SpotRequest i n t) s \<longleftrightarrow>
     0 \<le> i \<and> i < bk_consumer_id s \<and> 0 \<le> n \<and> n \<le> 2 ^ 30 \<and> is_int32 t"
| "client_ok (Ready p c port) s \<longleftrightarrow>
     is_int32 p \<and> 0 \<le> c \<and> c < bk_consumer_id s \<and> is_int32 port"

section \<open>Parsing\<close>

lemma client_type:
  "\<exists>ty. arg (sscanf_ints 1 (client_text m)) 0 = Inr (wire_num ty) \<and>
     ty = (case m of RegProducer _ _ \<Rightarrow> PRODUCER_REG | RegConsumer _ _ \<Rightarrow> CONSUMER_REG
       | Availability _ _ _ \<Rightarrow> PRODUCER_AVAILABILITY | SpotRequest _ _ _ \<Rightarrow> SPOT_REQUEST
       | Ready _ _ _ \<Rightarrow> PRODUCER_READY)"
proof -
  have "sscanf_ints (Suc 0) (print_int (wire_num ty) @ CHR '','' # rest) = [wire_num ty]" for ty rest
    using sscanf_ints_type [of "wire_num ty" "CHR '','' # rest" 0] by (simp add: wire_num_int32)
  then show ?thesis by (cases m) (simp_all add: arg_def One_nat_def)
qed

lemma ip_parser_text:
  assumes "ip_text ip" "is_int32 port"
  shows "ip_parser (sep_by (CHR '','') [print_int n, ip, print_int port]) = Inr (Some ip, Some port)"
proof -
  have "tokens '',:'' (sep_by (CHR '','') [print_int n, ip, print_int port]) =
      [print_int n, ip, print_int port]"
    using assms(1) by (simp add: tokens_Cons tokens_field ip_text_def)
  with assms show ?thesis
    by (simp add: ip_parser_def copy_str_def ip_text_def atoi_print_int)
qed

lemma four_ints:
  assumes "is_int32 a" "is_int32 b" "is_int32 c"
  shows "sscanf_ints 4 (sep_by (CHR '','') (map print_int [wire_num t, a, b, c])) = [wire_num t, a, b, c]"
  by (rule sscanf_ints_printed) (use assms wire_num_int32 [of t] in simp_all)

lemma small_int32: "0 \<le> n \<Longrightarrow> n < 2 ^ 31 \<Longrightarrow> is_int32 n"
  by (simp add: is_int32_def)

section \<open>Registration\<close>

lemma ack_fits:
  assumes "is_int32 i"
  shows "length (sep_by (CHR '','') [print_int (wire_num t), print_int i]) < 100"
  using length_print_int [OF assms] length_print_int [OF wire_num_int32 [of t]] by simp

lemma memcpy_new_ip:
  assumes "ip_text ip"
  shows "\<exists>bytes. memcpy_str ip (replicate 200 (CHR 0x00)) = Inr bytes \<and> ip_ok bytes \<and> c_str bytes = Inr ip"
proof -
  from assms memcpy_str_zeros [of ip 200] obtain bytes where
    "memcpy_str ip (replicate 200 (CHR 0x00)) = Inr bytes" "length bytes = 200" "c_str bytes = Inr ip"
    unfolding ip_text_def by blast
  moreover have "CHR 0x00 \<in> set bytes"
    using calculation(3) by (auto simp: c_str_def split: if_splits)
  ultimately show ?thesis by (simp add: ip_ok_def)
qed

lemma register_producer:
  assumes inv: "broker_inv s" and ok: "client_ok (RegProducer ip port) s"
  shows "\<exists>bytes. register_client ip port PRODUCER sock s =
      Inr (s\<lparr>bk_producer_id := bk_producer_id s + 1,
        bk_producers := (bk_producers s)(nat (bk_producer_id s) :=
          \<lparr>bp_ip = bytes, bp_port = port, bp_nslabs = 0, bp_available_slabs = 0,
           bp_id = bk_producer_id s, bp_sock = sock\<rparr>),
        bk_out := bk_out s @ [(sock, Whole 100 (sep_by (CHR '','')
          [print_int (wire_num REGISTRATION_ACK), print_int (bk_producer_id s)]))]\<rparr>) \<and>
      ip_ok bytes \<and> c_str bytes = Inr ip"
proof -
  let ?i = "bk_producer_id s"
  have i: "0 \<le> ?i" "?i < 128" "is_int32 ?i" "is_int32 (?i + 1)"
    using inv ok by (auto simp: broker_inv_def MAX_PRODUCERS_def is_int32_def)
  have "bp_ip (bk_producers s (nat ?i)) = replicate 200 (CHR 0x00)"
    using inv i(1) by (auto simp: broker_inv_def producer_ok_def dest!: spec [of _ "nat ?i"])
  with ok memcpy_new_ip [of ip] obtain bytes where
    b: "memcpy_str ip (bp_ip (bk_producers s (nat ?i))) = Inr bytes" "ip_ok bytes" "c_str bytes = Inr ip"
    by auto
  have "in_bounds (MAX_PRODUCERS + 2) ?i" using i by (simp add: in_bounds_def MAX_PRODUCERS_def)
  with i b(1) ack_fits [OF i(3), of REGISTRATION_ACK] have
    "register_client ip port PRODUCER sock s =
      Inr (s\<lparr>bk_producer_id := bk_producer_id s + 1,
        bk_producers := (bk_producers s)(nat (bk_producer_id s) :=
          \<lparr>bp_ip = bytes, bp_port = port, bp_nslabs = 0, bp_available_slabs = 0,
           bp_id = bk_producer_id s, bp_sock = sock\<rparr>),
        bk_out := bk_out s @ [(sock, Whole 100 (sep_by (CHR '','')
          [print_int (wire_num REGISTRATION_ACK), print_int (bk_producer_id s)]))]\<rparr>)"
    by (simp add: register_client_def Let_def producer_at_def put_bk_producer_def aget_def aset_def
        to_int32_id send_register_ack_def copy_str_def sock_write_def)
  with b show ?thesis by blast
qed

lemma register_consumer:
  assumes inv: "broker_inv s" and ok: "client_ok (RegConsumer ip port) s"
  shows "\<exists>bytes. register_client ip port CONSUMER sock s =
      Inr (s\<lparr>bk_consumer_id := bk_consumer_id s + 1,
        bk_consumers := (bk_consumers s)(nat (bk_consumer_id s) :=
          \<lparr>bc_ip = bytes, bc_port = port, bc_id = bk_consumer_id s, bc_assigned_slabs = 0,
           bc_sock = sock\<rparr>),
        bk_out := bk_out s @ [(sock, Whole 100 (sep_by (CHR '','')
          [print_int (wire_num REGISTRATION_ACK), print_int (bk_consumer_id s)]))]\<rparr>) \<and>
      ip_ok bytes \<and> c_str bytes = Inr ip"
proof -
  let ?i = "bk_consumer_id s"
  have i: "0 \<le> ?i" "?i < 128" "is_int32 ?i" "is_int32 (?i + 1)"
    using inv ok by (auto simp: broker_inv_def MAX_CONSUMERS_def is_int32_def)
  have "bc_ip (bk_consumers s (nat ?i)) = replicate 200 (CHR 0x00)"
    using inv i(1) by (auto simp: broker_inv_def consumer_ok_def dest!: spec [of _ "nat ?i"])
  with ok memcpy_new_ip [of ip] obtain bytes where
    b: "memcpy_str ip (bc_ip (bk_consumers s (nat ?i))) = Inr bytes" "ip_ok bytes" "c_str bytes = Inr ip"
    by auto
  have "in_bounds (MAX_CONSUMERS + 2) ?i" using i by (simp add: in_bounds_def MAX_CONSUMERS_def)
  with i b(1) ack_fits [OF i(3), of REGISTRATION_ACK] have
    "register_client ip port CONSUMER sock s =
      Inr (s\<lparr>bk_consumer_id := bk_consumer_id s + 1,
        bk_consumers := (bk_consumers s)(nat (bk_consumer_id s) :=
          \<lparr>bc_ip = bytes, bc_port = port, bc_id = bk_consumer_id s, bc_assigned_slabs = 0,
           bc_sock = sock\<rparr>),
        bk_out := bk_out s @ [(sock, Whole 100 (sep_by (CHR '','')
          [print_int (wire_num REGISTRATION_ACK), print_int (bk_consumer_id s)]))]\<rparr>)"
    by (simp add: register_client_def Let_def consumer_at_def put_bk_consumer_def aget_def aset_def
        to_int32_id send_register_ack_def copy_str_def sock_write_def)
  with b show ?thesis by blast
qed

end
