(* ===== verification/Broker_Place.thy ===== *)
theory Broker_Place
  imports Broker_Inv
begin

text \<open>
  Placement of a request: the loop of \<^verbatim>\<open>find_placement\<close> carries out \<open>plan\<close>, whose grants are
  bounded by the request, and every step keeps the invariant of the broker.
\<close>

section \<open>The plan of a request\<close>

fun plan :: "int \<Rightarrow> broker_producer list \<Rightarrow> int \<Rightarrow> (broker_producer \<times> int) list" where
  "plan spot [] a = []"
| "plan spot (t # ts) a =
     (if a < spot then
        (let n = (if bp_available_slabs t \<ge> spot - a then spot - a
                  else spot - bp_available_slabs t + MIN_FREE)
         in (t, n) # plan spot ts (a + n))
      else [])"

definition assignment_text :: "wire_type \<Rightarrow> string \<Rightarrow> int \<Rightarrow> int \<Rightarrow> int \<Rightarrow> string" where
  "assignment_text t addr port n i =
     print_int (wire_num t) @ '','' @ print_int 1 @ '','' @
       sep_by (CHR '':'') [addr, print_int port, print_int n, print_int i] @ [CHR 0x0A]"

definition addr_of :: "char list \<Rightarrow> string" where
  "addr_of ip = takeWhile (\<lambda>c. c \<noteq> CHR 0x00) ip"

text \<open>The two messages of a grant: to the producer, then to the consumer.\<close>

definition grant_writes :: "broker_consumer \<Rightarrow> broker_producer \<times> int \<Rightarrow> (int \<times> payload) list" where
  "grant_writes c g =
     (let (t, n) = g in
      [(bp_sock t, Exact (assignment_text SPOT_ASSIGNMENT_PRODUCER (addr_of (bc_ip c)) (bc_port c) n (bc_id c))),
       (bc_sock c, Exact (assignment_text SPOT_ASSIGNMENT_CONSUMER (addr_of (bp_ip t)) (bp_port t) n (bp_id t)))])"

definition take_slabs :: "broker_producer \<times> int \<Rightarrow> broker_producer arr \<Rightarrow> broker_producer arr" where
  "take_slabs g a =
     (let (t, n) = g; i = nat (bp_id t) in
      a(i := (a i)\<lparr>bp_available_slabs := max 0 (bp_available_slabs t - n)\<rparr>))"

section \<open>A single grant\<close>

lemma ip_ok_str: "ip_ok ip \<Longrightarrow> c_str ip = Inr (addr_of ip) \<and> length (addr_of ip) < 200"
proof -
  assume ok: "ip_ok ip"
  then have "takeWhile (\<lambda>c. c \<noteq> CHR 0x00) ip \<noteq> ip" by (auto simp: ip_ok_def takeWhile_eq_all_conv)
  then have "length (addr_of ip) < length ip"
    unfolding addr_of_def
    by (metis length_takeWhile_le linorder_neqE_nat not_less takeWhile_eq_take take_all_iff)
  with ok show ?thesis by (simp add: ip_ok_def c_str_def addr_of_def)
qed

lemma assignment_msg_text:
  assumes "ip_ok ip" "is_int32 port" "is_int32 n" "is_int32 i"
  shows "assignment_msg t ip port n i = Inr (assignment_text t (addr_of ip) port n i)"
proof -
  have "is_int32 1" by (simp add: is_int32_def)
  then have "length (print_int (wire_num t)) \<le> 11" "length (print_int 1) \<le> 11" "length (print_int port) \<le> 11"
    "length (print_int n) \<le> 11" "length (print_int i) \<le> 11" "length (addr_of ip) < 200"
    using assms ip_ok_str [OF assms(1)]
    by (auto intro!: length_print_int simp: wire_num_int32)
  then have "length (assignment_text t (addr_of ip) port n i) < 1024" by (simp add: assignment_text_def)
  then show ?thesis
    using ip_ok_str [OF assms(1)] by (simp add: assignment_msg_def assignment_text_def copy_str_def)
qed

text \<open>The candidates are elements of the list, found under their own number.\<close>

definition current :: "broker \<Rightarrow> broker_producer \<Rightarrow> bool" where
  "current s t \<longleftrightarrow> (\<exists>i < MAX_PRODUCERS. t = bk_producers s i \<and> bp_id t = int i \<and> int i < bk_producer_id s)"

lemma current_ok: "broker_inv s \<Longrightarrow> current s t \<Longrightarrow>
    ip_ok (bp_ip t) \<and> is_int32 (bp_port t) \<and> is_int32 (bp_id t) \<and>
    0 \<le> bp_available_slabs t \<and> bp_available_slabs t < 2 ^ 31"
  by (auto simp: broker_inv_def current_def producer_ok_def MAX_PRODUCERS_def is_int32_def)

lemma consumer_fields: "broker_inv s \<Longrightarrow> 0 \<le> c \<Longrightarrow> c < bk_consumer_id s \<Longrightarrow>
    consumer_at s c = Inr (bk_consumers s (nat c)) \<and> ip_ok (bc_ip (bk_consumers s (nat c))) \<and>
    is_int32 (bc_port (bk_consumers s (nat c))) \<and> bc_id (bk_consumers s (nat c)) = c \<and> is_int32 c"
  by (auto simp: broker_inv_def consumer_ok_def consumer_at_def aget_def in_bounds_def MAX_CONSUMERS_def
      is_int32_def dest!: spec [of _ "nat c"])

lemma assign_result:
  assumes inv: "broker_inv s" and t: "current s t" and c: "0 \<le> c" "c < bk_consumer_id s"
    and n: "0 \<le> n" "n < 2 ^ 31"
  shows "assign c (bp_id t) (bp_available_slabs t) n s =
    Inr (s\<lparr>bk_producers := take_slabs (t, n) (bk_producers s),
           bk_out := bk_out s @ grant_writes (bk_consumers s (nat c)) (t, n)\<rparr>)"
proof -
  note ok = current_ok [OF inv t] and cf = consumer_fields [OF inv c]
  from t obtain i where i: "i < MAX_PRODUCERS" "t = bk_producers s i" "bp_id t = int i"
    by (auto simp: current_def)
  have n32: "is_int32 n" "is_int32 (bp_available_slabs t - n)" using n ok by (auto simp: is_int32_def)
  have b: "in_bounds (MAX_PRODUCERS + 2) (bp_id t)" using i by simp
  from cf have pm: "assignment_msg SPOT_ASSIGNMENT_PRODUCER (bc_ip (bk_consumers s (nat c)))
      (bc_port (bk_consumers s (nat c))) n (bc_id (bk_consumers s (nat c))) =
    Inr (assignment_text SPOT_ASSIGNMENT_PRODUCER (addr_of (bc_ip (bk_consumers s (nat c))))
      (bc_port (bk_consumers s (nat c))) n c)"
    using assignment_msg_text n32(1) by simp
  from ok have cm: "assignment_msg SPOT_ASSIGNMENT_CONSUMER (bp_ip t) (bp_port t) n (bp_id t) =
    Inr (assignment_text SPOT_ASSIGNMENT_CONSUMER (addr_of (bp_ip t)) (bp_port t) n (bp_id t))"
    using assignment_msg_text n32(1) by simp
  from cf have ca: "consumer_at (s\<lparr>bk_producers := a, bk_out := out\<rparr>) c = Inr (bk_consumers s (nat c))"
    "consumer_at (s\<lparr>bk_producers := a\<rparr>) c = Inr (bk_consumers s (nat c))" for a out
    by (simp_all add: consumer_at_def)
  show ?thesis
    using i b cf pm cm n32(2)
    by (simp add: assign_def producer_at_def put_bk_producer_def aget_def aset_def to_int32_id ca
        send_assignment_msg_def sock_write_def take_slabs_def grant_writes_def)
qed

lemma take_slabs_apply:
  "take_slabs (t, n) a i =
    (if i = nat (bp_id t) then (a i)\<lparr>bp_available_slabs := max 0 (bp_available_slabs t - n)\<rparr> else a i)"
  by (simp add: take_slabs_def Let_def)

lemma take_slabs_inv:
  assumes inv: "broker_inv s" and t: "current s t" and n: "0 \<le> n"
  shows "broker_inv (s\<lparr>bk_producers := take_slabs (t, n) (bk_producers s), bk_out := out\<rparr>)"
proof -
  from t obtain j where j: "t = bk_producers s j" "bp_id t = int j" "int j < bk_producer_id s"
    by (auto simp: current_def)
  have p: "producer_ok (bk_producer_id s) i (bk_producers s i)" for i
    using inv by (simp add: broker_inv_def)
  from p [of j] j n have "producer_ok (bk_producer_id s) j (take_slabs (t, n) (bk_producers s) j)"
    by (auto simp: take_slabs_apply producer_ok_def)
  with p j(2) have "producer_ok (bk_producer_id s) i (take_slabs (t, n) (bk_producers s) i)" for i
    by (cases "i = j") (simp_all add: take_slabs_apply)
  with inv show ?thesis by (simp add: broker_inv_def)
qed

section \<open>The loop carries out the plan\<close>

lemma plan_bounds:
  assumes "\<forall>t \<in> set ts. 0 < bp_available_slabs t" "0 \<le> a" "(t, n) \<in> set (plan spot ts a)"
  shows "0 < n \<and> n \<le> spot"
  using assms
proof (induction ts arbitrary: a)
  case (Cons u ts)
  let ?n = "if bp_available_slabs u \<ge> spot - a then spot - a else spot - bp_available_slabs u + MIN_FREE"
  from Cons.prems(3) have a: "a < spot" and m: "(t, n) = (u, ?n) \<or> (t, n) \<in> set (plan spot ts (a + ?n))"
    by (auto simp: Let_def split: if_splits)
  have "0 < bp_available_slabs u" using Cons.prems(1) by simp
  with a Cons.prems(2) have b: "0 < ?n" "?n \<le> spot" by (auto simp: MIN_FREE_def)
  from m show ?case
  proof
    assume "(t, n) \<in> set (plan spot ts (a + ?n))"
    with Cons.IH [of "a + ?n"] Cons.prems(1,2) b(1) show ?thesis by auto
  qed (use b in simp)
qed simp

lemma placement_loop_plan:
  assumes "broker_inv s" "\<forall>t \<in> set ts. current s t \<and> 0 < bp_available_slabs t"
    and "distinct (map bp_id ts)" "0 \<le> a" "a \<le> spot + spot" "0 \<le> spot" "spot \<le> 2 ^ 30"
    and "0 \<le> c" "c < bk_consumer_id s"
  shows "placement_loop c spot ts a s =
      Inr (s\<lparr>bk_producers := fold take_slabs (plan spot ts a) (bk_producers s),
             bk_out := bk_out s @ concat (map (grant_writes (bk_consumers s (nat c))) (plan spot ts a))\<rparr>) \<and>
    broker_inv (s\<lparr>bk_producers := fold take_slabs (plan spot ts a) (bk_producers s),
             bk_out := bk_out s @ concat (map (grant_writes (bk_consumers s (nat c))) (plan spot ts a))\<rparr>)"
  using assms
proof (induction ts arbitrary: a s)
  case (Cons t ts)
  show ?case
  proof (cases "a < spot")
    case True
    let ?n = "if bp_available_slabs t \<ge> spot - a then spot - a else spot - bp_available_slabs t + MIN_FREE"
    let ?s = "s\<lparr>bk_producers := take_slabs (t, ?n) (bk_producers s),
        bk_out := bk_out s @ grant_writes (bk_consumers s (nat c)) (t, ?n)\<rparr>"
    have t: "current s t" "0 < bp_available_slabs t" using Cons.prems(2) by auto
    have n: "0 < ?n" "?n \<le> spot" using t(2) True Cons.prems(4) by (auto simp: MIN_FREE_def)
    have av: "bp_available_slabs t < 2 ^ 31" using current_ok [OF Cons.prems(1) t(1)] by simp
    have i32: "to_int32 (spot - a) = spot - a" "to_int32 (a + (spot - a)) = spot"
      "to_int32 (spot - (bp_available_slabs t - MIN_FREE)) = spot - bp_available_slabs t + MIN_FREE"
      "to_int32 (a + ?n) = a + ?n"
      using True Cons.prems(4,7) n av t(2)
      by (simp_all add: to_int32_id is_int32_def MIN_FREE_def del: if_split_asm)
    have inv: "broker_inv ?s" by (rule take_slabs_inv [OF Cons.prems(1) t(1)]) (use n in simp)
    have cur: "\<forall>u \<in> set ts. current ?s u \<and> 0 < bp_available_slabs u"
    proof
      fix u assume u: "u \<in> set ts"
      then obtain i where i: "i < MAX_PRODUCERS" "u = bk_producers s i" "bp_id u = int i"
        "int i < bk_producer_id s" using Cons.prems(2) by (auto simp: current_def)
      moreover have "bp_id t \<noteq> bp_id u" using u Cons.prems(3) by force
      moreover have "0 \<le> bp_id t" using t(1) by (auto simp: current_def)
      ultimately have "take_slabs (t, ?n) (bk_producers s) i = u"
        by (auto simp: take_slabs_apply)
      with i have "current ?s u" unfolding current_def by auto
      with u Cons.prems(2) show "current ?s u \<and> 0 < bp_available_slabs u" by simp
    qed
    note ih = Cons.IH [OF inv cur, of "a + ?n"]
    have step: "placement_loop c spot (t # ts) a s = placement_loop c spot ts (a + ?n) ?s"
      using True n i32 t Cons.prems assign_result [OF Cons.prems(1) t(1), of c ?n]
      by (auto simp: Let_def)
    show ?thesis unfolding step
      using ih True Cons.prems n by (simp add: Let_def)
  qed (use Cons.prems in simp)
qed (simp)

end
