(* ===== verification/C_Float.thy ===== *)
theory C_Float
  imports Prelude Complex_Main
begin

text \<open>
  Arithmetic on \<^verbatim>\<open>float\<close> and \<^verbatim>\<open>double\<close>: a number is a pair of a significand and an exponent to the base two,
  and the result of an operation is rounded to 24 or 53 bits, to the nearest number and to the even
  significand in the middle. Numbers that are too large or too small for the exponent of a
  floating point type do not occur: the programs use it for sizes of memory only.
\<close>

type_synonym c_float = "int \<times> int"

function nbits :: "int \<Rightarrow> nat" where
  "nbits n = (if n \<le> 0 then 0 else nbits (n div 2) + 1)"
  by pat_completeness auto
termination by (relation "measure nat") auto

declare nbits.simps [simp del]

definition round_even :: "nat \<Rightarrow> int \<Rightarrow> int" where
  "round_even k m =
     (let q = \<bar>m\<bar> div 2 ^ k; r = \<bar>m\<bar> mod 2 ^ k in
      sgn m * (if 2 * r > 2 ^ k \<or> (2 * r = 2 ^ k \<and> odd q) then q + 1 else q))"

text \<open>Rounding to \<open>p\<close> bits: 24 for a \<^verbatim>\<open>float\<close>, 53 for a \<^verbatim>\<open>double\<close>.\<close>

definition fp_round :: "nat \<Rightarrow> int \<Rightarrow> int \<Rightarrow> c_float" where
  "fp_round p m e =
     (let k = nbits \<bar>m\<bar> - p in if k = 0 then (m, e) else (round_even k m, e + int k))"

definition fl_round :: "int \<Rightarrow> int \<Rightarrow> c_float" where
  "fl_round m e = fp_round 24 m e"

definition db_mul :: "c_float \<Rightarrow> c_float \<Rightarrow> c_float" where
  "db_mul x y = fp_round 53 (fst x * fst y) (snd x + snd y)"

definition db_add :: "c_float \<Rightarrow> c_float \<Rightarrow> c_float" where
  "db_add x y =
     (let e = min (snd x) (snd y) in
      fp_round 53 (fst x * 2 ^ nat (snd x - e) + fst y * 2 ^ nat (snd y - e)) e)"

definition fl_of_int :: "int \<Rightarrow> c_float" where
  "fl_of_int n = fl_round n 0"

definition fl_mul :: "c_float \<Rightarrow> c_float \<Rightarrow> c_float" where
  "fl_mul x y = fl_round (fst x * fst y) (snd x + snd y)"

definition fl_add :: "c_float \<Rightarrow> c_float \<Rightarrow> c_float" where
  "fl_add x y =
     (let e = min (snd x) (snd y) in
      fl_round (fst x * 2 ^ nat (snd x - e) + fst y * 2 ^ nat (snd y - e)) e)"

definition fl_neg :: "c_float \<Rightarrow> c_float" where
  "fl_neg x = (- fst x, snd x)"

text \<open>Conversion to an integer type cuts off the fraction.\<close>

definition fl_to_int :: "c_float \<Rightarrow> int" where
  "fl_to_int x =
     (if snd x \<ge> 0 then fst x * 2 ^ nat (snd x)
      else sgn (fst x) * (\<bar>fst x\<bar> div 2 ^ nat (- snd x)))"

section \<open>Rounding error\<close>

lemma nbits_bounds:
  "0 < n \<Longrightarrow> 2 ^ (nbits n - 1) \<le> n \<and> n < 2 ^ nbits n \<and> 0 < nbits n"
proof (induction n rule: nbits.induct)
  case (1 n)
  show ?case
  proof (cases "n = 1")
    case True
    then show ?thesis by (simp add: nbits.simps [of 1] nbits.simps [of 0])
  next
    case False
    with 1 have ih: "2 ^ (nbits (n div 2) - 1) \<le> n div 2" "n div 2 < 2 ^ nbits (n div 2)" "0 < nbits (n div 2)"
      by auto
    have e: "nbits n = Suc (nbits (n div 2))" using 1(2) by (simp add: nbits.simps [of n])
    have "2 * 2 ^ (nbits (n div 2) - 1) = (2 :: int) ^ nbits (n div 2)"
      using ih(3) by (cases "nbits (n div 2)") simp_all
    then have "2 ^ nbits (n div 2) \<le> n" using ih(1) by linarith
    moreover have "n < 2 * 2 ^ nbits (n div 2)" using ih(2) by linarith
    ultimately show ?thesis by (simp add: e)
  qed
qed

lemma round_even_error:
  assumes "0 < k"
  shows "2 * \<bar>round_even k m * 2 ^ k - m\<bar> \<le> 2 ^ k"
proof -
  define q r where "q = \<bar>m\<bar> div 2 ^ k" and "r = \<bar>m\<bar> mod 2 ^ k"
  define u where "u = (if 2 * r > 2 ^ k \<or> (2 * r = 2 ^ k \<and> odd q) then q + 1 else q)"
  have m: "\<bar>m\<bar> = q * 2 ^ k + r" unfolding q_def r_def by (rule div_mult_mod_eq [symmetric])
  have r: "0 \<le> r" "r < 2 ^ k" by (simp_all add: r_def)
  have "2 * \<bar>u * 2 ^ k - \<bar>m\<bar>\<bar> \<le> 2 ^ k"
    using r unfolding m u_def by (auto simp: algebra_simps)
  moreover have "round_even k m = sgn m * u"
    by (simp add: round_even_def Let_def u_def q_def r_def)
  moreover have "\<bar>sgn m * u * 2 ^ k - m\<bar> = \<bar>u * 2 ^ k - \<bar>m\<bar>\<bar>" if "m \<noteq> 0"
    using that by (cases "m > 0") (auto simp: sgn_if abs_if algebra_simps)
  moreover have "u = 0" if "m = 0" using that by (simp add: u_def q_def r_def)
  ultimately show ?thesis by (cases "m = 0") auto
qed

section \<open>Values\<close>

definition fval :: "c_float \<Rightarrow> rat" where
  "fval x = of_int (fst x) * 2 powi snd x"

text \<open>\<open>x\<close> is \<open>v\<close> up to \<open>n\<close> roundings.\<close>

definition near :: "nat \<Rightarrow> rat \<Rightarrow> rat \<Rightarrow> bool" where
  "near n v x \<longleftrightarrow> (1 - 1 / 2 ^ 24) ^ n * v \<le> x \<and> x \<le> (1 + 1 / 2 ^ 24) ^ n * v"

lemma near_nonneg: "near n v x \<Longrightarrow> 0 \<le> v \<Longrightarrow> 0 \<le> x"
proof -
  assume "near n v x" "0 \<le> v"
  then have "(1 - 1 / 2 ^ 24) ^ n * v \<le> x" "0 \<le> (1 - 1 / 2 ^ 24) ^ n * v" by (simp_all add: near_def)
  then show ?thesis by (rule order_trans [rotated])
qed

lemma near_trans:
  assumes "near m x y" "near n v x" "0 \<le> v"
  shows "near (m + n) v y"
proof -
  have "(1 - 1 / 2 ^ 24) ^ m * ((1 - 1 / 2 ^ 24) ^ n * v) \<le> (1 - 1 / 2 ^ 24 :: rat) ^ m * x"
    using assms(2) unfolding near_def by (intro mult_left_mono) simp_all
  moreover have "(1 + 1 / 2 ^ 24) ^ m * x \<le> (1 + 1 / 2 ^ 24 :: rat) ^ m * ((1 + 1 / 2 ^ 24) ^ n * v)"
    using assms(2) unfolding near_def by (intro mult_left_mono) simp_all
  ultimately show ?thesis
    using assms(1) unfolding near_def power_add mult.assoc by linarith
qed

lemma near_mult:
  assumes "near m v x" "near n w y" "0 \<le> v" "0 \<le> w"
  shows "near (m + n) (v * w) (x * y)"
proof -
  have y: "0 \<le> y" "0 \<le> x" using near_nonneg [OF assms(2,4)] near_nonneg [OF assms(1,3)] .
  have "(1 - 1 / 2 ^ 24) ^ m * v * ((1 - 1 / 2 ^ 24) ^ n * w) \<le> x * y"
    using assms y unfolding near_def by (intro mult_mono) simp_all
  moreover have "x * y \<le> (1 + 1 / 2 ^ 24) ^ m * v * ((1 + 1 / 2 ^ 24) ^ n * w)"
    using assms y unfolding near_def by (intro mult_mono) simp_all
  ultimately show ?thesis unfolding near_def power_add by (simp add: ac_simps)
qed

lemma near_add: "near n v x \<Longrightarrow> near n w y \<Longrightarrow> near n (v + w) (x + y)"
  unfolding near_def distrib_left by auto

lemma near_refl: "0 \<le> v \<Longrightarrow> near 1 v v"
  by (simp add: near_def)

lemma fl_round_near:
  assumes "0 \<le> m"
  shows "near 1 (of_int m * 2 powi e) (fval (fl_round m e))"
proof (cases "nbits m - 24 = 0")
  case True
  then show ?thesis
    using assms near_refl [of "of_int m * 2 powi e"] by (simp add: fl_round_def fp_round_def fval_def)
next
  case False
  define k where "k = nbits m - 24"
  have k: "0 < k" "nbits m = k + 24" using False by (simp_all add: k_def)
  then have "0 < m" using assms by (cases "m = 0") (simp_all add: nbits.simps [of 0])
  then have "2 ^ (nbits m - 1) \<le> m" using nbits_bounds [of m] by simp
  moreover have "nbits m - 1 = k + 23" using k by simp
  ultimately have m: "2 ^ (k + 23) \<le> m" by simp
  let ?r = "round_even k m"
  have "2 ^ 24 * (2 * \<bar>?r * 2 ^ k - m\<bar>) \<le> 2 ^ 24 * 2 ^ k"
    using round_even_error [OF k(1), of m] by simp
  also have "\<dots> = 2 * 2 ^ (k + 23)" by (simp add: power_add)
  finally have "2 ^ 24 * \<bar>?r * 2 ^ k - m\<bar> \<le> m" using m by linarith
  then have "m * 2 ^ 24 - m \<le> ?r * 2 ^ k * 2 ^ 24" "?r * 2 ^ k * 2 ^ 24 \<le> m * 2 ^ 24 + m"
    by (auto simp: abs_if split: if_splits)
  then have "of_int (m * 2 ^ 24 - m) \<le> (of_int (?r * 2 ^ k * 2 ^ 24) :: rat)"
    "of_int (?r * 2 ^ k * 2 ^ 24) \<le> (of_int (m * 2 ^ 24 + m) :: rat)"
    by (simp_all only: of_int_le_iff)
  then have b: "(1 - 1 / 2 ^ 24) * of_int m \<le> (of_int ?r * 2 ^ k :: rat)"
    "of_int ?r * 2 ^ k \<le> (1 + 1 / 2 ^ 24) * (of_int m :: rat)"
    by (simp_all add: field_simps)
  have pos: "0 \<le> (2 :: rat) powi e" by simp
  have fv: "fval (fl_round m e) = of_int ?r * 2 ^ k * 2 powi e"
    using assms k by (simp add: fl_round_def fp_round_def fval_def power_int_add)
  show ?thesis
    unfolding near_def fv power_one_right mult.assoc [symmetric]
    using mult_right_mono [OF b(1) pos] mult_right_mono [OF b(2) pos] by (simp add: ac_simps)
qed

lemma fl_round_sign: "0 \<le> m \<Longrightarrow> 0 \<le> fst (fl_round m e)"
  by (cases "m = 0") (auto simp: fl_round_def fp_round_def round_even_def Let_def pos_imp_zdiv_nonneg_iff)

lemma fl_of_int_near: "0 \<le> n \<Longrightarrow> near 1 (of_int n) (fval (fl_of_int n))"
  using fl_round_near [of n 0] by (simp add: fl_of_int_def)

lemma fl_mul_near:
  assumes "0 \<le> fst x" "0 \<le> fst y" "near m v (fval x)" "near n w (fval y)" "0 \<le> v" "0 \<le> w"
  shows "near (Suc (m + n)) (v * w) (fval (fl_mul x y))"
proof -
  have "near 1 (fval x * fval y) (fval (fl_mul x y))"
    using fl_round_near [of "fst x * fst y" "snd x + snd y"] assms(1,2)
    by (simp add: fl_mul_def fval_def power_int_add ac_simps)
  from near_trans [OF this near_mult [OF assms(3-6)]] assms(5,6) show ?thesis by simp
qed

lemma fl_add_near:
  assumes "0 \<le> fst x" "0 \<le> fst y" "near n v (fval x)" "near n w (fval y)" "0 \<le> v" "0 \<le> w"
  shows "near (Suc n) (v + w) (fval (fl_add x y))"
proof -
  let ?e = "min (snd x) (snd y)"
  have shift: "2 ^ nat (j - ?e) * 2 powi ?e = (2 powi j :: rat)" if "?e \<le> j" for j
    using that power_int_add [of "2 :: rat" "j - ?e" ?e] by (simp add: power_int_def)
  have "of_int (fst x * 2 ^ nat (snd x - ?e) + fst y * 2 ^ nat (snd y - ?e)) * 2 powi ?e = fval x + fval y"
    using shift [of "snd x"] shift [of "snd y"] by (simp add: fval_def distrib_right mult.assoc)
  then have "near 1 (fval x + fval y) (fval (fl_add x y))"
    using fl_round_near [of "fst x * 2 ^ nat (snd x - ?e) + fst y * 2 ^ nat (snd y - ?e)" ?e] assms(1,2)
    by (simp add: fl_add_def Let_def)
  from near_trans [OF this near_add [OF assms(3,4)]] assms(5,6) show ?thesis by simp
qed

lemma fl_to_int_bounds:
  assumes "0 \<le> fst x"
  shows "of_int (fl_to_int x) \<le> fval x \<and> fval x < of_int (fl_to_int x) + 1"
proof (cases "0 \<le> snd x")
  case True
  then show ?thesis by (simp add: fl_to_int_def fval_def power_int_def)
next
  case False
  define k where "k = nat (- snd x)"
  have f: "fval x = of_int (fst x) / 2 ^ k"
    using False by (simp add: fval_def power_int_def k_def field_simps)
  have t: "fl_to_int x = fst x div 2 ^ k"
    using False assms by (cases "fst x = 0") (simp_all add: fl_to_int_def k_def)
  have "rat_of_int (2 ^ k * (fst x div 2 ^ k) + fst x mod 2 ^ k) =
      2 ^ k * of_int (fst x div 2 ^ k) + of_int (fst x mod 2 ^ k)"
    by (simp only: of_int_add of_int_mult of_int_power of_int_numeral)
  then have r: "(of_int (fst x) :: rat) = 2 ^ k * of_int (fst x div 2 ^ k) + of_int (fst x mod 2 ^ k)"
    unfolding mult_div_mod_eq .
  have "0 \<le> fst x mod 2 ^ k" "fst x mod 2 ^ k < 2 ^ k" by simp_all
  then have "(0 :: rat) \<le> of_int (fst x mod 2 ^ k)" "(of_int (fst x mod 2 ^ k) :: rat) < 2 ^ k"
    by (simp, metis of_int_less_iff of_int_numeral of_int_power)
  with r show ?thesis unfolding f t by (simp add: field_simps)
qed

end
