(* ===== verification/Harvest_Producer.thy ===== *)
theory Harvest_Producer
  imports Wire C_Float
begin

text \<open>
  The producer of the harvester (\<^verbatim>\<open>harvester/server/producer.c\<close> and \<^verbatim>\<open>producer.h\<close>): it registers
  with the broker, reports the memory it can lend, starts a store for each consumer that is
  assigned to it, and adapts the amount it lends to the memory that is available. What it
  writes to the broker's socket and the commands it starts with \<^verbatim>\<open>popen\<close> are recorded in order.
\<close>

section \<open>State\<close>

definition HP_MAX_CONSUMER :: nat where "HP_MAX_CONSUMER = 128"
definition MANAGER_PORT_INIT :: int where "MANAGER_PORT_INIT = 9704"
definition MIN_SPOT_SIZE :: int where "MIN_SPOT_SIZE = 50 * 2 ^ 20"
definition g_alloc_threshold :: int where "g_alloc_threshold = 512 * 2 ^ 20"
definition g_evict_threshold :: int where "g_evict_threshold = 512 * 2 ^ 20"
definition g_node_size :: int where "g_node_size = 64 * 2 ^ 20"

text \<open>The constant 0.2 as a \<^verbatim>\<open>float\<close>.\<close>

definition g_ewma_beta :: c_float where "g_ewma_beta = (13421773, - 26)"

datatype manager_state = STOP | RUNNING
datatype producer_state = INIT | CONNECTED | REGISTERED

record spot_consumer =
  sc_ip :: "char list"
  sc_port :: int
  sc_id :: int
  sc_nslabs :: int
  sc_manager_state :: manager_state
  sc_manager_port :: int

record harvest_producer =
  hp_broker_ip :: string
  hp_broker_port :: int
  hp_ip :: string
  hp_port :: int
  hp_id :: int
  hp_consumer_count :: int
  hp_cgroup_name :: string
  hp_total_memory :: int
  hp_harvested_memory :: int
  hp_est_available_memory :: int
  hp_status :: producer_state
  hp_consumers :: "spot_consumer arr"
  hp_out :: "payload list"
  hp_popen :: "string list"

definition spot_consumer_at :: "harvest_producer \<Rightarrow> int \<Rightarrow> spot_consumer res" where
  "spot_consumer_at s i = aget (HP_MAX_CONSUMER + 2) (hp_consumers s) i"

definition put_spot_consumer :: "int \<Rightarrow> spot_consumer \<Rightarrow> harvest_producer \<Rightarrow> harvest_producer res" where
  "put_spot_consumer i c s =
     rbind (aset (HP_MAX_CONSUMER + 2) (hp_consumers s) i c) (\<lambda>a. Inr (s\<lparr>hp_consumers := a\<rparr>))"

section \<open>Sending\<close>

definition hp_write :: "payload \<Rightarrow> harvest_producer \<Rightarrow> harvest_producer" where
  "hp_write m s = s\<lparr>hp_out := hp_out s @ [m]\<rparr>"

definition hp_send_registration_msg :: "harvest_producer \<Rightarrow> harvest_producer res" where
  "hp_send_registration_msg s =
     rbind (copy_str 300 (sep_by (CHR '','')
       [print_int (wire_num PRODUCER_REG), hp_ip s, print_int (hp_port s)])) (\<lambda>m.
       Inr (hp_write (Whole 300 m) s))"

text \<open>Division of \<^verbatim>\<open>long long\<close> cuts off the fraction; the quotient is converted to \<^verbatim>\<open>int\<close>.\<close>

definition nodes_of :: "int \<Rightarrow> int" where
  "nodes_of bytes = to_int32 (sgn bytes * (\<bar>bytes\<bar> div g_node_size))"

definition send_producer_availability_msg :: "harvest_producer \<Rightarrow> harvest_producer res" where
  "send_producer_availability_msg s =
     rbind (copy_str 200 (sep_by (CHR '','') (map print_int [wire_num PRODUCER_AVAILABILITY,
       hp_id s, nodes_of (hp_harvested_memory s), nodes_of (hp_total_memory s)]))) (\<lambda>m.
       Inr (hp_write (Whole 200 m) s))"

definition hp_send_producer_ready_msg :: "int \<Rightarrow> harvest_producer \<Rightarrow> harvest_producer res" where
  "hp_send_producer_ready_msg c s =
     rbind (spot_consumer_at s c) (\<lambda>x.
     rbind (copy_str 200 (sep_by (CHR '','') (map print_int [wire_num PRODUCER_READY, hp_id s, c,
       sc_manager_port x]))) (\<lambda>m.
       Inr (hp_write (Whole 200 m) s)))"

section \<open>Assignments\<close>

definition hp_count :: "int \<Rightarrow> harvest_producer \<Rightarrow> harvest_producer" where
  "hp_count n s = s\<lparr>hp_consumer_count := to_int32 (hp_consumer_count s + n)\<rparr>"

definition hp_entry :: "string \<Rightarrow> int \<Rightarrow> int \<Rightarrow> int \<Rightarrow> harvest_producer \<Rightarrow> harvest_producer res" where
  "hp_entry addr port sz i s =
     rbind (spot_consumer_at s i) (\<lambda>c.
     rbind (memcpy_str addr (sc_ip c)) (\<lambda>ip.
       put_spot_consumer i (c\<lparr>sc_id := i, sc_port := port,
         sc_nslabs := to_int32 (sc_nslabs c + sz), sc_ip := ip\<rparr>) s))"

definition hp_portal_parser :: "char list \<Rightarrow> char list \<Rightarrow> string \<Rightarrow> harvest_producer \<Rightarrow> harvest_producer res" where
  "hp_portal_parser ptr addr msg s = portal hp_count hp_entry ptr addr msg s"

definition redis_cmd :: "string \<Rightarrow> string \<Rightarrow> int \<Rightarrow> int \<Rightarrow> string" where
  "redis_cmd cgroup ip port maxmemory =
     ''cgexec -g memory:'' @ cgroup @ '' /root/redis/src/redis-server --bind '' @ ip @
     '' --port '' @ print_int port @ '' --save '' @ [CHR 0x22, CHR 0x22] @
     '' --maxmemory '' @ print_int maxmemory @ '' --maxmemory-policy allkeys-lru''"

definition run_spot_manager :: "int \<Rightarrow> harvest_producer \<Rightarrow> harvest_producer res" where
  "run_spot_manager i s =
     rbind (spot_consumer_at s i) (\<lambda>c.
       if sc_manager_state c = RUNNING then hp_send_producer_ready_msg i s
       else
         rbind (copy_str 1024 (redis_cmd (hp_cgroup_name s) (hp_ip s) (sc_manager_port c)
                  (sc_nslabs c * g_node_size))) (\<lambda>cmd.
         rbind (put_spot_consumer i (c\<lparr>sc_manager_state := RUNNING\<rparr>)
                  (s\<lparr>hp_popen := hp_popen s @ [cmd]\<rparr>))
           (hp_send_producer_ready_msg i)))"

text \<open>The loop over the consumers: \<^verbatim>\<open>for(i = 0; i < producer.consumer_count; i++)\<close>.\<close>

fun run_managers :: "nat \<Rightarrow> int \<Rightarrow> harvest_producer \<Rightarrow> harvest_producer res" where
  "run_managers 0 i s = Inr s"
| "run_managers (Suc n) i s =
     rbind (spot_consumer_at s i) (\<lambda>c.
     rbind (if sc_nslabs c \<noteq> 0 then run_spot_manager (sc_id c) s else Inr s)
       (run_managers n (i + 1)))"

section \<open>Messages\<close>

definition hp_handle_message :: "char list \<Rightarrow> char list \<Rightarrow> string \<Rightarrow> harvest_producer \<Rightarrow> harvest_producer res" where
  "hp_handle_message ptr addr msg s =
     rbind (arg (sscanf_ints 1 msg) 0) (\<lambda>ty.
       case wire_of ty of
         Some CONNECTION_ACK \<Rightarrow> hp_send_registration_msg (s\<lparr>hp_status := CONNECTED\<rparr>)
       | Some REGISTRATION_ACK \<Rightarrow>
           (let xs = sscanf_ints 2 msg in
            Inr (s\<lparr>hp_id := if 1 < length xs then xs ! 1 else hp_id s, hp_status := REGISTERED\<rparr>))
       | Some SPOT_ASSIGNMENT_PRODUCER \<Rightarrow>
           rbind (hp_portal_parser ptr addr msg s) (\<lambda>s1.
             run_managers (nat (hp_consumer_count s1)) 0 s1)
       | _ \<Rightarrow> Inr s)"

section \<open>Harvesting\<close>

definition update_est_available_memory :: "int \<Rightarrow> harvest_producer \<Rightarrow> int \<times> harvest_producer" where
  "update_est_available_memory available s =
     (let est = fl_to_int (fl_add (fl_mul g_ewma_beta (fl_of_int available))
                  (fl_mul (fl_add (fl_of_int 1) (fl_neg g_ewma_beta))
                     (fl_of_int (hp_est_available_memory s))))
      in (min est available, s\<lparr>hp_est_available_memory := est\<rparr>))"

function evict_loop :: "int \<Rightarrow> int \<Rightarrow> int \<Rightarrow> int \<times> int" where
  "evict_loop est harvested evict_count =
     (if g_evict_threshold - (est - harvested) > 0 \<and> harvested > MIN_SPOT_SIZE
      then evict_loop est (harvested - g_node_size) (evict_count + 1)
      else (harvested, evict_count))"
  by pat_completeness auto
termination
  by (relation "measure (\<lambda>(est, harvested, c). nat harvested)")
    (auto simp: g_node_size_def MIN_SPOT_SIZE_def)

declare evict_loop.simps [simp del]

definition report :: "harvest_producer \<Rightarrow> harvest_producer res" where
  "report s = (if hp_status s = REGISTERED then send_producer_availability_msg s else Inr s)"

text \<open>One round of the harvest loop.\<close>

definition harvest_decision :: "int \<Rightarrow> harvest_producer \<Rightarrow> harvest_producer res" where
  "harvest_decision available s =
     (let (est, s1) = update_est_available_memory available s; h = hp_harvested_memory s1 in
      if est - h < g_evict_threshold then
        report (s1\<lparr>hp_harvested_memory := max (fst (evict_loop est h 0)) MIN_SPOT_SIZE\<rparr>)
      else if est - h > g_alloc_threshold then
        report (s1\<lparr>hp_harvested_memory := h + g_node_size\<rparr>)
      else report s1)"

section \<open>Start\<close>

definition hp_default :: harvest_producer where
  "hp_default =
     \<lparr>hp_broker_ip = [], hp_broker_port = 0, hp_ip = [], hp_port = 0, hp_id = 0, hp_consumer_count = 0,
      hp_cgroup_name = [], hp_total_memory = 0, hp_harvested_memory = 0, hp_est_available_memory = 0,
      hp_status = INIT,
      hp_consumers = (\<lambda>_. \<lparr>sc_ip = replicate 200 (CHR 0x00), sc_port = 0, sc_id = 0, sc_nslabs = 0,
        sc_manager_state = STOP, sc_manager_port = 0\<rparr>),
      hp_out = [], hp_popen = []\<rparr>"

text \<open>\<open>total_memory\<close> is what \<^verbatim>\<open>get_total_memory_size\<close> returns.\<close>

definition hp_init :: "int \<Rightarrow> harvest_producer" where
  "hp_init total_memory =
     hp_default\<lparr>hp_broker_ip := ''192.168.122.91'', hp_broker_port := 9700,
       hp_ip := ''192.168.122.141'', hp_port := 9702, hp_status := INIT, hp_cgroup_name := ''spot'',
       hp_consumer_count := int HP_MAX_CONSUMER,
       hp_consumers := (\<lambda>i. if i < HP_MAX_CONSUMER
         then (hp_consumers hp_default i)\<lparr>sc_nslabs := 0, sc_manager_state := STOP,
           sc_manager_port := MANAGER_PORT_INIT + int i * 2\<rparr>
         else hp_consumers hp_default i),
       hp_total_memory := total_memory, hp_harvested_memory := 0,
       hp_popen := [''dstat -m 2>&1 | tee /root/dstat.txt'']\<rparr>"

text \<open>The options of the command line, as \<^verbatim>\<open>getopt\<close> returns them; \<^verbatim>\<open>-g\<close> is read and ignored.\<close>

datatype hp_opt = OptB string | OptP string | OptC string | OptQ string | OptG | OptOther

fun hp_option :: "hp_opt \<Rightarrow> harvest_producer \<Rightarrow> harvest_producer res" where
  "hp_option (OptB v) s = rbind (copy_str 200 v) (\<lambda>v'. Inr (s\<lparr>hp_broker_ip := v'\<rparr>))"
| "hp_option (OptP v) s = Inr (s\<lparr>hp_broker_port := atoi v\<rparr>)"
| "hp_option (OptC v) s = rbind (copy_str 200 v) (\<lambda>v'. Inr (s\<lparr>hp_ip := v'\<rparr>))"
| "hp_option (OptQ v) s = Inr (s\<lparr>hp_port := atoi v\<rparr>)"
| "hp_option OptG s = Inr s"
| "hp_option OptOther s = Inr s"

end
