(* ===== verification/Harvest_Consumer.thy ===== *)
theory Harvest_Consumer
  imports Wire
begin

text \<open>
  The consumer of the harvester (\<^verbatim>\<open>harvester/server/consumer.c\<close>): it registers with the broker,
  requests spot memory and starts its application once a producer is ready. The case of
  \<^verbatim>\<open>SPOT_ASSIGNMENT_CONSUMER\<close> has no \<^verbatim>\<open>break\<close> and runs into the one of \<^verbatim>\<open>PRODUCER_READY\<close>.
\<close>

definition HC_MAX_PRODUCER :: nat where "HC_MAX_PRODUCER = 128"

record spot_producer =
  sp_ip :: "char list"
  sp_port :: int
  sp_nslabs :: int
  sp_id :: int
  sp_manager_port :: int
  sp_running :: bool

record harvest_consumer =
  hc_broker_ip :: string
  hc_broker_port :: int
  hc_ip :: string
  hc_port :: int
  hc_id :: int
  hc_spot_size :: int
  hc_lease_time :: int
  hc_remote_ratio :: int
  hc_producers :: "spot_producer arr"
  hc_out :: "payload list"
  hc_popen :: "string list"

definition spot_producer_at :: "harvest_consumer \<Rightarrow> int \<Rightarrow> spot_producer res" where
  "spot_producer_at s i = aget (HC_MAX_PRODUCER + 2) (hc_producers s) i"

definition put_spot_producer :: "int \<Rightarrow> spot_producer \<Rightarrow> harvest_consumer \<Rightarrow> harvest_consumer res" where
  "put_spot_producer i c s =
     rbind (aset (HC_MAX_PRODUCER + 2) (hc_producers s) i c) (\<lambda>a. Inr (s\<lparr>hc_producers := a\<rparr>))"

definition hc_write :: "payload \<Rightarrow> harvest_consumer \<Rightarrow> harvest_consumer" where
  "hc_write m s = s\<lparr>hc_out := hc_out s @ [m]\<rparr>"

definition hc_entry :: "string \<Rightarrow> int \<Rightarrow> int \<Rightarrow> int \<Rightarrow> harvest_consumer \<Rightarrow> harvest_consumer res" where
  "hc_entry addr port sz i s =
     rbind (spot_producer_at s i) (\<lambda>c.
     rbind (memcpy_str addr (sp_ip c)) (\<lambda>ip.
       put_spot_producer i (c\<lparr>sp_id := i, sp_port := port,
         sp_nslabs := to_int32 (sp_nslabs c + sz), sp_ip := ip\<rparr>) s))"

definition hc_portal_parser :: "char list \<Rightarrow> char list \<Rightarrow> string \<Rightarrow> harvest_consumer \<Rightarrow> harvest_consumer res" where
  "hc_portal_parser ptr addr msg s = portal (\<lambda>n s. s) hc_entry ptr addr msg s"

definition hc_send_registration_msg :: "harvest_consumer \<Rightarrow> harvest_consumer res" where
  "hc_send_registration_msg s =
     rbind (copy_str 300 (sep_by (CHR '','')
       [print_int (wire_num CONSUMER_REG), hc_ip s, print_int (hc_port s)])) (\<lambda>m.
       Inr (hc_write (Whole 300 m) s))"

definition send_spot_request :: "harvest_consumer \<Rightarrow> harvest_consumer res" where
  "send_spot_request s =
     rbind (copy_str 200 (sep_by (CHR '','') (map print_int [wire_num SPOT_REQUEST, hc_id s,
       hc_spot_size s, hc_lease_time s]))) (\<lambda>m.
       Inr (hc_write (Whole 200 m) s))"

definition app_cmd :: "string \<Rightarrow> int \<Rightarrow> int \<Rightarrow> string" where
  "app_cmd ip port ratio =
     (let q = [CHR 0x22] in
      ''cd /root/YCSB && ./bin/ycsb load redis -s -P workloads/workloada -p '' @ q @
      ''redis.consumer_host=127.0.0.1'' @ q @ '' -p '' @ q @ ''redis.consumer_port=6379'' @ q @
      ''  -p '' @ q @ ''redis.host='' @ ip @ q @ '' -p '' @ q @ ''redis.port='' @ print_int port @ q @
      '' -p '' @ q @ ''redis.remote_ratio='' @ print_int ratio @ q @ '' 2>&1 | tee /root/ycsb.txt'')"

definition run_consumer_app :: "int \<Rightarrow> harvest_consumer \<Rightarrow> harvest_consumer res" where
  "run_consumer_app i s =
     rbind (spot_producer_at s i) (\<lambda>p.
     rbind (c_str (sp_ip p)) (\<lambda>ip.
     rbind (copy_str 1024 (app_cmd ip (sp_manager_port p) (hc_remote_ratio s))) (\<lambda>cmd.
       Inr (s\<lparr>hc_popen := hc_popen s @ [cmd]\<rparr>))))"

text \<open>The case of \<^verbatim>\<open>PRODUCER_READY\<close>.\<close>

definition hc_ready :: "string \<Rightarrow> harvest_consumer \<Rightarrow> harvest_consumer res" where
  "hc_ready msg s =
     (let xs = sscanf_ints 4 msg in
      rbind (arg xs 1) (\<lambda>i. rbind (arg xs 3) (\<lambda>manager_port.
      rbind (spot_producer_at s i) (\<lambda>p.
      rbind (put_spot_producer i (p\<lparr>sp_manager_port := manager_port, sp_running := True\<rparr>) s)
        (run_consumer_app i)))))"

definition hc_handle_message :: "char list \<Rightarrow> char list \<Rightarrow> string \<Rightarrow> harvest_consumer \<Rightarrow> harvest_consumer res" where
  "hc_handle_message ptr addr msg s =
     rbind (arg (sscanf_ints 1 msg) 0) (\<lambda>ty.
       case wire_of ty of
         Some CONNECTION_ACK \<Rightarrow> hc_send_registration_msg s
       | Some REGISTRATION_ACK \<Rightarrow>
           (let xs = sscanf_ints 2 msg in
            send_spot_request (s\<lparr>hc_id := if 1 < length xs then xs ! 1 else hc_id s\<rparr>))
       | Some SPOT_ASSIGNMENT_CONSUMER \<Rightarrow> rbind (hc_portal_parser ptr addr msg s) (hc_ready msg)
       | Some PRODUCER_READY \<Rightarrow> hc_ready msg s
       | _ \<Rightarrow> Inr s)"

section \<open>Start\<close>

definition hc_default :: harvest_consumer where
  "hc_default =
     \<lparr>hc_broker_ip = [], hc_broker_port = 0, hc_ip = [], hc_port = 0, hc_id = 0, hc_spot_size = 0,
      hc_lease_time = 0, hc_remote_ratio = 0,
      hc_producers = (\<lambda>_. \<lparr>sp_ip = replicate 200 (CHR 0x00), sp_port = 0, sp_nslabs = 0, sp_id = 0,
        sp_manager_port = 0, sp_running = False\<rparr>),
      hc_out = [], hc_popen = []\<rparr>"

definition run_consumer_redis :: "harvest_consumer \<Rightarrow> harvest_consumer" where
  "run_consumer_redis s =
     s\<lparr>hc_popen := hc_popen s @
        [''/root/redis/src/redis-server --bind 127.0.0.1 --port 6379 --save '' @ [CHR 0x22, CHR 0x22]]\<rparr>"

definition hc_init :: harvest_consumer where
  "hc_init =
     run_consumer_redis (hc_default\<lparr>hc_broker_ip := ''192.168.122.91'', hc_broker_port := 9700,
       hc_ip := ''192.168.122.202'', hc_port := 9704, hc_spot_size := 5, hc_lease_time := 1,
       hc_remote_ratio := 0\<rparr>)"

text \<open>
  The options of the command line, as \<^verbatim>\<open>getopt\<close> returns them. The option string has no colon
  behind \<^verbatim>\<open>r\<close>, so \<^verbatim>\<open>optarg\<close> is null for it and \<^verbatim>\<open>atoi\<close> dereferences it.
\<close>

datatype hc_opt = CoB string | CoP string | CoC string | CoQ string | CoS string | CoT string | CoR | CoOther

fun hc_option :: "hc_opt \<Rightarrow> harvest_consumer \<Rightarrow> harvest_consumer res" where
  "hc_option (CoB v) s = rbind (copy_str 200 v) (\<lambda>v'. Inr (s\<lparr>hc_broker_ip := v'\<rparr>))"
| "hc_option (CoP v) s = Inr (s\<lparr>hc_broker_port := atoi v\<rparr>)"
| "hc_option (CoC v) s = rbind (copy_str 200 v) (\<lambda>v'. Inr (s\<lparr>hc_ip := v'\<rparr>))"
| "hc_option (CoQ v) s = Inr (s\<lparr>hc_port := atoi v\<rparr>)"
| "hc_option (CoS v) s = Inr (s\<lparr>hc_spot_size := atoi v\<rparr>)"
| "hc_option (CoT v) s = Inr (s\<lparr>hc_lease_time := atoi v\<rparr>)"
| "hc_option CoR s = Inl NullDeref"
| "hc_option CoOther s = Inr s"

end
