(* ===== verification/Broker_Props.thy ===== *)
theory Broker_Props
  imports Broker_Place Harvest_Producer Harvest_Consumer
begin

text \<open>
  The properties of the broker, and of the broker together with the producers and consumers
  it exchanges messages with.
\<close>

section \<open>Steps\<close>

text \<open>\<^verbatim>\<open>qsort\<close> permutes the array, whatever the comparison function is.\<close>

definition permutes :: "qsort_fun \<Rightarrow> bool" where
  "permutes qsort \<longleftrightarrow> (\<forall>cmp xs. mset (qsort cmp xs) = mset xs)"

inductive broker_step :: "broker \<Rightarrow> broker \<Rightarrow> bool" where
  bk_accept: "send_connection_ack sock s = Inr s' \<Longrightarrow> broker_step s s'"
| bk_message: "permutes qsort \<Longrightarrow> client_ok m s \<Longrightarrow>
    broker_handle_message qsort (client_text m) sock s = Inr s' \<Longrightarrow> broker_step s s'"

abbreviation broker_reachable :: "broker \<Rightarrow> bool" where
  "broker_reachable \<equiv> reach (\<lambda>s. s = broker_init) broker_step"

lemma out_inv [simp]: "broker_inv (s\<lparr>bk_out := out\<rparr>) = broker_inv s"
  by (simp add: broker_inv_def)

lemma broker_init_inv: "broker_inv broker_init"
  by (simp add: broker_inv_def broker_init_def producer_ok_def consumer_ok_def ip_ok_def is_int32_def)

lemma producer_ok_mono: "producer_ok n i p \<Longrightarrow> int i \<noteq> n \<Longrightarrow> producer_ok (n + 1) i p"
  by (auto simp: producer_ok_def)

lemma consumer_ok_mono: "consumer_ok n i p \<Longrightarrow> int i \<noteq> n \<Longrightarrow> consumer_ok (n + 1) i p"
  by (auto simp: consumer_ok_def)

lemma reg_producer_inv:
  assumes "broker_inv s" "client_ok (RegProducer ip port) s" "ip_ok bytes"
  shows "broker_inv (s\<lparr>bk_producer_id := bk_producer_id s + 1,
        bk_producers := (bk_producers s)(nat (bk_producer_id s) :=
          \<lparr>bp_ip = bytes, bp_port = port, bp_nslabs = 0, bp_available_slabs = 0,
           bp_id = bk_producer_id s, bp_sock = sock\<rparr>), bk_out := out\<rparr>)"
proof -
  let ?n = "bk_producer_id s"
  have n: "0 \<le> ?n" using assms(1) by (simp add: broker_inv_def)
  have "producer_ok (?n + 1) i (((bk_producers s)(nat ?n :=
      \<lparr>bp_ip = bytes, bp_port = port, bp_nslabs = 0, bp_available_slabs = 0, bp_id = ?n, bp_sock = sock\<rparr>)) i)" for i
    using assms n producer_ok_mono [of ?n i "bk_producers s i"]
    by (cases "i = nat ?n") (auto simp: producer_ok_def broker_inv_def)
  with assms show ?thesis by (simp add: broker_inv_def)
qed

lemma reg_consumer_inv:
  assumes "broker_inv s" "client_ok (RegConsumer ip port) s" "ip_ok bytes"
  shows "broker_inv (s\<lparr>bk_consumer_id := bk_consumer_id s + 1,
        bk_consumers := (bk_consumers s)(nat (bk_consumer_id s) :=
          \<lparr>bc_ip = bytes, bc_port = port, bc_id = bk_consumer_id s, bc_assigned_slabs = 0,
           bc_sock = sock\<rparr>), bk_out := out\<rparr>)"
proof -
  let ?n = "bk_consumer_id s"
  have n: "0 \<le> ?n" using assms(1) by (simp add: broker_inv_def)
  have "consumer_ok (?n + 1) i (((bk_consumers s)(nat ?n :=
      \<lparr>bc_ip = bytes, bc_port = port, bc_id = ?n, bc_assigned_slabs = 0, bc_sock = sock\<rparr>)) i)" for i
    using assms n consumer_ok_mono [of ?n i "bk_consumers s i"]
    by (cases "i = nat ?n") (auto simp: consumer_ok_def broker_inv_def)
  with assms show ?thesis by (simp add: broker_inv_def)
qed

text \<open>The candidates of a placement.\<close>

lemma candidates_current:
  assumes inv: "broker_inv s" and q: "permutes qsort" and t: "t \<in> set (qsort cmp (candidates s))"
  shows "current s t \<and> 0 < bp_available_slabs t"
proof -
  have "set (qsort cmp (candidates s)) = set (candidates s)"
    using q by (metis permutes_def set_mset_mset)
  with t obtain i where i: "i < MAX_PRODUCERS" "t = bk_producers s i" "bp_available_slabs t \<noteq> 0"
    by (auto simp: candidates_def)
  moreover have "producer_ok (bk_producer_id s) i (bk_producers s i)"
    using inv by (simp add: broker_inv_def)
  ultimately have "int i < bk_producer_id s" "bp_id t = int i" "0 < bp_available_slabs t"
    by (auto simp: producer_ok_def split: if_splits)
  with i show ?thesis by (auto simp: current_def)
qed

lemma candidates_distinct:
  assumes inv: "broker_inv s" and q: "permutes qsort"
  shows "distinct (map bp_id (qsort cmp (candidates s)))"
proof -
  have "bp_id (bk_producers s i) = int i"
    if "i < MAX_PRODUCERS" "bp_available_slabs (bk_producers s i) \<noteq> 0" for i
    using inv that by (auto simp: broker_inv_def producer_ok_def dest!: spec [of _ i] split: if_splits)
  then have "map bp_id (candidates s) =
      map int (filter (\<lambda>i. bp_available_slabs (bk_producers s i) \<noteq> 0) [0 ..< MAX_PRODUCERS])"
    by (auto simp: candidates_def filter_map o_def)
  then have "distinct (map bp_id (candidates s))" by (simp add: distinct_map)
  moreover have "mset (map bp_id (qsort cmp (candidates s))) = mset (map bp_id (candidates s))"
    using q by (simp add: permutes_def)
  ultimately show ?thesis by (metis mset_eq_imp_distinct_iff)
qed

lemma find_placement_plan:
  assumes "broker_inv s" "permutes qsort" "client_ok (SpotRequest c spot lease) s"
  defines "ps \<equiv> plan spot (qsort broker_comparator (candidates s)) 0"
  defines "s' \<equiv> s\<lparr>bk_producers := fold take_slabs ps (bk_producers s),
      bk_out := bk_out s @ concat (map (grant_writes (bk_consumers s (nat c))) ps)\<rparr>"
  shows "find_placement qsort c spot lease s = Inr s' \<and> broker_inv s'"
  unfolding find_placement_def s'_def ps_def
  by (rule placement_loop_plan)
    (use assms(1-3) candidates_current candidates_distinct in auto)

lemma handle_by_type:
  "broker_handle_message qsort (client_text m) sock s =
     (case m of
        RegProducer _ _ \<Rightarrow> broker_register (client_text m) PRODUCER sock s
      | RegConsumer _ _ \<Rightarrow> broker_register (client_text m) CONSUMER sock s
      | Availability _ _ _ \<Rightarrow> broker_availability (client_text m) s
      | SpotRequest _ _ _ \<Rightarrow> broker_spot_request qsort (client_text m) s
      | Ready _ _ _ \<Rightarrow> broker_ready (client_text m) s)"
proof -
  obtain ty where ty: "arg (sscanf_ints 1 (client_text m)) 0 = Inr (wire_num ty)"
    "ty = (case m of RegProducer _ _ \<Rightarrow> PRODUCER_REG | RegConsumer _ _ \<Rightarrow> CONSUMER_REG
       | Availability _ _ _ \<Rightarrow> PRODUCER_AVAILABILITY | SpotRequest _ _ _ \<Rightarrow> SPOT_REQUEST
       | Ready _ _ _ \<Rightarrow> PRODUCER_READY)" using client_type by blast
  have "broker_handle_message qsort (client_text m) sock s =
      (case Some ty of
         Some PRODUCER_REG \<Rightarrow> broker_register (client_text m) PRODUCER sock s
       | Some CONSUMER_REG \<Rightarrow> broker_register (client_text m) CONSUMER sock s
       | Some PRODUCER_AVAILABILITY \<Rightarrow> broker_availability (client_text m) s
       | Some SPOT_REQUEST \<Rightarrow> broker_spot_request qsort (client_text m) s
       | Some PRODUCER_READY \<Rightarrow> broker_ready (client_text m) s
       | _ \<Rightarrow> Inr s)"
    unfolding broker_handle_message_def ty(1) rbind_simps wire_of_num by (rule refl)
  then show ?thesis unfolding ty(2) by (simp split: client_msg.splits)
qed

lemma handle_client:
  assumes inv: "broker_inv s" and q: "permutes qsort" and ok: "client_ok m s"
  shows "\<exists>s'. broker_handle_message qsort (client_text m) sock s = Inr s' \<and> broker_inv s'"
proof (cases m)
  case (RegProducer ip port)
  with ok have p: "ip_parser (client_text m) = Inr (Some ip, Some port)" by (simp add: ip_parser_text del: sep_by.simps)
  from RegProducer register_producer [OF inv, of ip port sock] reg_producer_inv [OF inv, of ip port] ok
  have "\<exists>s'. register_client ip port PRODUCER sock s = Inr s' \<and> broker_inv s'" by blast
  with p RegProducer show ?thesis
    by (auto simp: handle_by_type broker_register_def init_var_def simp del: client_text.simps)
next
  case (RegConsumer ip port)
  with ok have p: "ip_parser (client_text m) = Inr (Some ip, Some port)" by (simp add: ip_parser_text del: sep_by.simps)
  from RegConsumer register_consumer [OF inv, of ip port sock] reg_consumer_inv [OF inv, of ip port] ok
  have "\<exists>s'. register_client ip port CONSUMER sock s = Inr s' \<and> broker_inv s'" by blast
  with p RegConsumer show ?thesis
    by (auto simp: handle_by_type broker_register_def init_var_def simp del: client_text.simps)
next
  case (Availability i a n)
  have pid: "bk_producer_id s \<le> 128" using inv by (simp add: broker_inv_def MAX_PRODUCERS_def)
  with ok Availability have "is_int32 i" "is_int32 a" "is_int32 n" by (auto simp: is_int32_def)
  then have xs: "sscanf_ints 4 (client_text m) = [wire_num PRODUCER_AVAILABILITY, i, a, n]"
    using Availability four_ints [of i a n] by (simp del: sep_by.simps list.map)
  have b: "in_bounds (MAX_PRODUCERS + 2) i"
    using ok Availability pid by (simp add: in_bounds_def MAX_PRODUCERS_def)
  have "producer_ok (bk_producer_id s) j (bk_producers s j)" for j using inv by (simp add: broker_inv_def)
  then have "producer_ok (bk_producer_id s) j (((bk_producers s)(nat i := bk_producers s (nat i)
      \<lparr>bp_nslabs := n, bp_available_slabs := a\<rparr>)) j)" for j
    using ok Availability by (fastforce simp: producer_ok_def split: if_splits)
  with inv have "broker_inv (s\<lparr>bk_producers := (bk_producers s)(nat i := bk_producers s (nat i)
      \<lparr>bp_nslabs := n, bp_available_slabs := a\<rparr>)\<rparr>)" by (simp add: broker_inv_def)
  with xs b Availability show ?thesis
    by (auto simp: handle_by_type broker_availability_def producer_at_def put_bk_producer_def
        aget_def aset_def simp del: client_text.simps)
next
  case (SpotRequest c n t)
  have cid: "bk_consumer_id s \<le> 128" using inv by (simp add: broker_inv_def MAX_CONSUMERS_def)
  with ok SpotRequest have "is_int32 c" "is_int32 n" "is_int32 t" by (auto simp: is_int32_def)
  then have xs: "sscanf_ints 4 (client_text m) = [wire_num SPOT_REQUEST, c, n, t]"
    using SpotRequest four_ints [of c n t] by (simp del: sep_by.simps list.map)
  with SpotRequest find_placement_plan [OF inv q, of c n t] ok show ?thesis
    by (auto simp: handle_by_type broker_spot_request_def simp del: client_text.simps)
next
  case (Ready p c port)
  have cid: "bk_consumer_id s \<le> 128" using inv by (simp add: broker_inv_def MAX_CONSUMERS_def)
  with ok Ready have i: "is_int32 p" "is_int32 c" "is_int32 port" by (auto simp: is_int32_def)
  then have xs: "sscanf_ints 4 (client_text m) = [wire_num PRODUCER_READY, p, c, port]"
    using Ready four_ints [of p c port] by (simp del: sep_by.simps list.map)
  have "length (sep_by (CHR '','') (map print_int [wire_num PRODUCER_READY, p, c, port])) < 200"
    using length_print_int [OF i(1)] length_print_int [OF i(2)] length_print_int [OF i(3)]
      length_print_int [OF wire_num_int32 [of PRODUCER_READY]] by simp
  moreover have "consumer_at s c = Inr (bk_consumers s (nat c))"
    using consumer_fields [OF inv, of c] ok Ready by simp
  ultimately show ?thesis
    using xs Ready inv
    by (auto simp: handle_by_type broker_ready_def broker_send_ready_def copy_str_def
        sock_write_def simp del: client_text.simps sep_by.simps list.map)
qed

interpretation bk: kept_invariant "\<lambda>s. s = broker_init" broker_step broker_inv
proof unfold_locales
  show "broker_inv s" if "s = broker_init" for s using that broker_init_inv by simp
  show "broker_inv t" if "broker_inv s" "broker_step s t" for s t
    using that(2,1)
  proof (induction rule: broker_step.induct)
    case (bk_accept sock s s')
    then show ?case
      by (auto simp: send_connection_ack_def rbind_eq_Inr sock_write_def copy_str_def split: if_splits)
  next
    case (bk_message qsort m s sock s')
    with handle_client [of s qsort m sock] show ?case by auto
  qed
qed

section \<open>Texts without zeros\<close>

lemma digit_not_zero: "d < 10 \<Longrightarrow> digit d \<noteq> CHR 0x00"
  using of_char_digit [of d] by fastforce

lemma print_int_no_zero: "CHR 0x00 \<notin> set (print_int i)"
proof -
  have "CHR 0x00 \<notin> set (print_nat n)" for n
    using print_nat_digits [of "CHR 0x00" n] digit_not_zero by metis
  then show ?thesis by (simp add: print_int_def)
qed

lemma registration_fits:
  assumes "ip_text ip" "is_int32 port"
  shows "length (sep_by (CHR '','') [print_int (wire_num t), ip, print_int port]) < 300"
    and "CHR 0x00 \<notin> set (sep_by (CHR '','') [print_int (wire_num t), ip, print_int port])"
  using assms length_print_int [OF assms(2)] length_print_int [OF wire_num_int32 [of t]]
  by (auto simp: ip_text_def print_int_no_zero)

lemma ack_scan:
  assumes "is_int32 i"
  shows "sscanf_ints 2 (sep_by (CHR '','') [print_int (wire_num t), print_int i]) = [wire_num t, i]"
  using sscanf_ints_printed [of "[wire_num t, i]" 2] assms wire_num_int32 [of t] by simp

lemma type_scan: "arg (sscanf_ints 1 (print_int (wire_num t) @ CHR '','' # rest)) 0 = Inr (wire_num t)"
  using sscanf_ints_type [of "wire_num t" "CHR '','' # rest" 0]
  by (simp add: arg_def wire_num_int32)

lemma type_scan_only: "arg (sscanf_ints 1 (print_int (wire_num t))) 0 = Inr (wire_num t)"
  using sscanf_ints_type [of "wire_num t" "[]" 0] by (simp add: arg_def wire_num_int32)

section \<open>Properties\<close>


text \<open>
  C21. The registration handshake of a producer with the broker: the producer answers the
  acknowledgement of its connection with its registration; the broker, which reads it into a
  buffer that may hold anything, stores the address and the port of the producer with the
  socket, in the next free entry, and the answer leaves the producer registered under the
  number of that entry.
\<close>

theorem producer_registration:
  assumes "broker_reachable s" "bk_producer_id s < int MAX_PRODUCERS"
    and "ip_text (hp_ip p)" "is_int32 (hp_port p)" "300 \<le> length buf" "100 \<le> length pbuf"
  shows "\<exists>p1 m s' a t p2.
    hp_handle_message ptr addr (print_int (wire_num CONNECTION_ACK)) p = Inr p1 \<and>
    hp_out p1 = hp_out p @ [m] \<and>
    broker_receive qsort sock buf [payload_bytes junk m] s = Inr s' \<and>
    c_str (bp_ip (bk_producers s' (nat (bk_producer_id s)))) = Inr (hp_ip p) \<and>
    bp_port (bk_producers s' (nat (bk_producer_id s))) = hp_port p \<and>
    bp_sock (bk_producers s' (nat (bk_producer_id s))) = sock \<and>
    bk_out s' = bk_out s @ [(sock, a)] \<and>
    c_str (recv_into pbuf (payload_bytes junk' a)) = Inr t \<and>
    hp_handle_message ptr addr t p1 = Inr p2 \<and>
    hp_id p2 = bk_producer_id s \<and> hp_status p2 = REGISTERED"
proof -
  have inv: "broker_inv s" using assms(1) by (rule bk.reach_inv)
  let ?ip = "hp_ip p" and ?port = "hp_port p" and ?i = "bk_producer_id s"
  let ?m = "sep_by (CHR '','') [print_int (wire_num PRODUCER_REG), ?ip, print_int ?port]"
  let ?a = "sep_by (CHR '','') [print_int (wire_num REGISTRATION_ACK), print_int ?i]"
  let ?p1 = "p\<lparr>hp_status := CONNECTED, hp_out := hp_out p @ [Whole 300 ?m]\<rparr>"
  have ok: "client_ok (RegProducer ?ip ?port) s" using assms(2-4) by simp
  have i32: "is_int32 ?i" using inv by (auto simp: broker_inv_def MAX_PRODUCERS_def is_int32_def)
  have p1: "hp_handle_message ptr addr (print_int (wire_num CONNECTION_ACK)) p = Inr ?p1"
    using registration_fits(1) [OF assms(3,4), of PRODUCER_REG]
    unfolding hp_handle_message_def type_scan_only rbind_simps wire_of_num
    by (simp add: hp_send_registration_msg_def copy_str_def hp_write_def del: sep_by.simps)
  from register_producer [OF inv ok, of sock] obtain bytes s' where
    s': "register_client ?ip ?port PRODUCER sock s = Inr s'" "c_str bytes = Inr ?ip"
      "bk_producers s' = (bk_producers s)(nat ?i := \<lparr>bp_ip = bytes, bp_port = ?port, bp_nslabs = 0,
          bp_available_slabs = 0, bp_id = ?i, bp_sock = sock\<rparr>)"
      "bk_out s' = bk_out s @ [(sock, Whole 100 ?a)]" by auto
  have "c_str (recv_into buf (payload_bytes junk (Whole 300 ?m))) = Inr ?m"
    by (rule recv_whole) (use registration_fits [OF assms(3,4)] assms(5) in auto)
  moreover have "broker_handle_message qsort ?m sock s = Inr s'"
    using handle_by_type [of qsort "RegProducer ?ip ?port" sock s] s'(1) assms(3,4)
    by (simp add: broker_register_def init_var_def ip_parser_text del: sep_by.simps)
  ultimately have rc: "broker_receive qsort sock buf [payload_bytes junk (Whole 300 ?m)] s = Inr s'"
    by (simp del: payload_bytes.simps sep_by.simps)
  have t: "c_str (recv_into pbuf (payload_bytes junk' (Whole 100 ?a))) = Inr ?a"
    by (rule recv_whole)
      (use ack_fits [OF i32, of REGISTRATION_ACK] assms(6) in \<open>auto simp: print_int_no_zero\<close>)
  have "arg (sscanf_ints 1 ?a) 0 = Inr (wire_num REGISTRATION_ACK)" using type_scan by simp
  then have p2: "hp_handle_message ptr addr ?a ?p1 = Inr (?p1\<lparr>hp_id := ?i, hp_status := REGISTERED\<rparr>)"
    unfolding hp_handle_message_def by (simp add: ack_scan [OF i32] del: sep_by.simps)
  show ?thesis
  proof (intro exI conjI)
    show "hp_handle_message ptr addr (print_int (wire_num CONNECTION_ACK)) p = Inr ?p1" by (rule p1)
    show "hp_out ?p1 = hp_out p @ [Whole 300 ?m]" by simp
    show "broker_receive qsort sock buf [payload_bytes junk (Whole 300 ?m)] s = Inr s'" by (rule rc)
    show "hp_handle_message ptr addr ?a ?p1 = Inr (?p1\<lparr>hp_id := ?i, hp_status := REGISTERED\<rparr>)" by (rule p2)
    show "c_str (recv_into pbuf (payload_bytes junk' (Whole 100 ?a))) = Inr ?a" by (rule t)
  qed (use s' in simp_all)
qed

text \<open>
  A request is placed on a single producer when the first one that \<^verbatim>\<open>qsort\<close> returns has
  enough slabs: exactly the requested number is taken from it, the two parties are told of
  it, and nothing else changes.
\<close>

theorem placement_exact:
  assumes "broker_reachable s" "permutes qsort" "client_ok (SpotRequest c spot lease) s" "0 < spot"
    and "qsort broker_comparator (candidates s) = t # ts" "spot \<le> bp_available_slabs t"
  shows "find_placement qsort c spot lease s =
      Inr (s\<lparr>bk_producers := (bk_producers s)(nat (bp_id t) :=
               t\<lparr>bp_available_slabs := bp_available_slabs t - spot\<rparr>),
             bk_out := bk_out s @ grant_writes (bk_consumers s (nat c)) (t, spot)\<rparr>)"
proof -
  have inv: "broker_inv s" using assms(1) by (rule bk.reach_inv)
  have pl: "plan spot (t # ts) 0 = [(t, spot)]"
    using assms(4,6) by (cases ts) (auto simp: Let_def)
  have "t = bk_producers s (nat (bp_id t))"
    using candidates_current [OF inv assms(2), of t broker_comparator] assms(5) by (auto simp: current_def)
  then have "take_slabs (t, spot) (bk_producers s) =
      (bk_producers s)(nat (bp_id t) := t\<lparr>bp_available_slabs := bp_available_slabs t - spot\<rparr>)"
    using assms(6) by (simp add: take_slabs_def)
  with find_placement_plan [OF inv assms(2,3), unfolded assms(5) pl] show ?thesis by simp
qed

text \<open>
  A request that exceeds what the first producer has is placed wrongly: the producer is
  asked for \<^verbatim>\<open>spot_size - available + 1\<close> slabs, which is more than it has as soon as the request
  is at least twice of that, and it is left with none.
\<close>

theorem placement_overcommit:
  assumes "broker_reachable s" "permutes qsort" "client_ok (SpotRequest c spot lease) s"
    and "qsort broker_comparator (candidates s) = t # ts" "2 * bp_available_slabs t \<le> spot"
  shows "\<exists>s' n rest. find_placement qsort c spot lease s = Inr s' \<and>
    bk_out s' = bk_out s @ grant_writes (bk_consumers s (nat c)) (t, n) @ rest \<and>
    n = spot - bp_available_slabs t + 1 \<and> bp_available_slabs t < n \<and>
    (ts = [] \<longrightarrow> bp_available_slabs (bk_producers s' (nat (bp_id t))) = 0)"
proof -
  have inv: "broker_inv s" using assms(1) by (rule bk.reach_inv)
  have av: "0 < bp_available_slabs t"
    using candidates_current [OF inv assms(2), of t broker_comparator] assms(4) by auto
  let ?n = "spot - bp_available_slabs t + 1"
  have pl: "plan spot (t # ts) 0 = (t, ?n) # plan spot ts ?n"
    using assms(5) av by (simp add: Let_def MIN_FREE_def)
  note fp = find_placement_plan [OF inv assms(2,3), unfolded assms(4) pl]
  show ?thesis
    by (rule exI, rule exI [of _ ?n], rule exI, intro conjI, rule conjunct1 [OF fp])
      (use assms(5) av in \<open>auto simp: take_slabs_apply\<close>)
qed

end
