(* ===== verification/Proc_Files.thy ===== *)
theory Proc_Files
  imports C_Strings
begin

text \<open>
  Reading the files of \<^verbatim>\<open>/proc\<close>, of the memory control group and of the tswap module with
  \<^verbatim>\<open>fscanf\<close> (\<^verbatim>\<open>harvester/server/producer.h\<close>). A file is the string of its contents; a file that
  cannot be opened ends the process.
\<close>

section \<open>Conversions\<close>

text \<open>
  \<^verbatim>\<open>%s\<close> of \<^verbatim>\<open>fscanf\<close>: it skips white space and reads up to the next one; nothing is read at the
  end of the file. \<open>n\<close> is the size of the array.
\<close>

definition scan_word :: "string \<Rightarrow> (string \<times> string) option" where
  "scan_word s =
     (let t = dropWhile is_space s in
      if t = [] then None else Some (takeWhile (\<lambda>c. \<not> is_space c) t, dropWhile (\<lambda>c. \<not> is_space c) t))"

lemma scan_word_shorter: "scan_word s = Some (w, rest) \<Longrightarrow> length rest < length s"
proof -
  assume a: "scan_word s = Some (w, rest)"
  let ?t = "dropWhile is_space s"
  have t: "?t \<noteq> []" "rest = dropWhile (\<lambda>c. \<not> is_space c) ?t"
    using a by (auto simp: scan_word_def Let_def split: if_splits)
  have "length (dropWhile (\<lambda>c. \<not> is_space c) ?t) < length ?t"
    using t(1) length_dropWhile_le [of "\<lambda>c. \<not> is_space c" "tl ?t"] hd_dropWhile [OF t(1)]
    by (cases ?t) auto
  with t(2) length_dropWhile_le [of is_space s] show ?thesis by simp
qed

lemma take_digits_shorter: "length (snd (take_digits s acc)) \<le> length s"
proof (induction s acc rule: take_digits.induct)
  case (2 c cs acc)
  then show ?case by (cases "digit_val c") (auto intro: le_SucI)
qed simp

lemma scan_int_shorter: "scan_int s = Some (i, rest) \<Longrightarrow> length rest \<le> length s"
proof -
  assume a: "scan_int s = Some (i, rest)"
  then obtain c cs where c: "dropWhile is_space s = c # cs"
    by (auto simp: scan_int_def split: list.splits)
  have "length (c # cs) \<le> length s" using length_dropWhile_le [of is_space s] c by simp
  moreover have "length rest \<le> length (c # cs)"
    using a c take_digits_shorter [of cs 0] take_digits_shorter [of "c # cs" 0]
    by (auto simp: scan_int_def Let_def simp del: take_digits.simps split: if_splits prod.splits)
  ultimately show ?thesis by simp
qed

section \<open>Memory information\<close>

definition unit_shift :: "string \<Rightarrow> nat" where
  "unit_shift u =
     (case u of
        [] \<Rightarrow> 1
      | c # _ \<Rightarrow>
          if c = CHR ''k'' \<or> c = CHR ''K'' then 10
          else if c = CHR ''m'' \<or> c = CHR ''M'' then 20
          else if c = CHR ''g'' \<or> c = CHR ''G'' then 30
          else 1)"

text \<open>
  The loop \<^verbatim>\<open>while (fscanf(file, "%s %lld %s", key, &size, unit) != EOF)\<close>. \<open>size\<close> and \<open>unit\<close> are
  what the variables hold; a conversion that fails leaves them and ends the call, and the
  next call starts where it stopped (a sign without digits, which the kernel does not print,
  is left in the input here). The result is the size and the unit of the line with
  the key. At the end of the file the loop ends without a shift.
\<close>

function meminfo_loop :: "string \<Rightarrow> string \<Rightarrow> int option \<Rightarrow> string option \<Rightarrow> (int \<times> nat) option res" where
  "meminfo_loop key inp sz un =
     (case scan_word inp of
        None \<Rightarrow> Inr None
      | Some (w, rest) \<Rightarrow>
          if length w \<ge> 512 then Inl OutOfBounds
          else
            (let (sz', un', rest') =
               (case scan_int rest of
                  None \<Rightarrow> (sz, un, rest)
                | Some (n, rest1) \<Rightarrow>
                    (case scan_word rest1 of
                       None \<Rightarrow> (Some n, un, rest1)
                     | Some (u, rest2) \<Rightarrow> (Some n, Some u, rest2)))
             in if length (case un' of None \<Rightarrow> [] | Some u \<Rightarrow> u) \<ge> 4 then Inl OutOfBounds
                else if w = key then
                  (case (sz', un') of
                     (Some n, Some u) \<Rightarrow> Inr (Some (n, unit_shift u))
                   | _ \<Rightarrow> Inl Uninit)
                else meminfo_loop key rest' sz' un'))"
  by pat_completeness auto
termination
proof (relation "measure (\<lambda>(key, inp, sz, un). length inp)", simp, clarsimp)
  fix inp w rest sz un and sz' :: "int option" and un' :: "string option" and rest'
  assume a: "scan_word inp = Some (w, rest)"
    "(sz', un', rest') =
      (case scan_int rest of None \<Rightarrow> (sz, un, rest)
       | Some (n, rest1) \<Rightarrow> (case scan_word rest1 of None \<Rightarrow> (Some n, un, rest1)
           | Some (u, rest2) \<Rightarrow> (Some n, Some u, rest2)))"
  have "length rest' \<le> length rest"
    using a(2) by (auto split: option.splits prod.splits dest!: scan_int_shorter scan_word_shorter)
  with scan_word_shorter [OF a(1)] show "length rest' < length inp" by simp
qed

declare meminfo_loop.simps [simp del]

text \<open>
  A file without the key leaves the shift uninitialised, and \<^verbatim>\<open>size << shift\<close> reads it.
\<close>

definition meminfo_size :: "string \<Rightarrow> string option \<Rightarrow> int res" where
  "meminfo_size key mem_info =
     (case mem_info of
        None \<Rightarrow> Inl Die
      | Some inp \<Rightarrow>
          rbind (meminfo_loop key inp None None) (\<lambda>r.
            case r of None \<Rightarrow> Inl Uninit | Some (n, shift) \<Rightarrow> Inr (n * 2 ^ shift)))"

definition get_total_memory_size :: "string option \<Rightarrow> int res" where
  "get_total_memory_size mem_info = meminfo_size ''MemTotal:'' mem_info"

definition get_free_memory_size :: "string option \<Rightarrow> int res" where
  "get_free_memory_size mem_info = meminfo_size ''MemFree:'' mem_info"

section \<open>Sums of counters\<close>

text \<open>
  The loop \<^verbatim>\<open>while (fscanf(file, "%s %ld", key, &value) != EOF)\<close> that adds up the values of some
  keys, with an array of 1024 characters for the key.
\<close>

lemma value_shorter:
  assumes "scan_word inp = Some (w, rest)"
    and "(v', rest') = (case scan_int rest of None \<Rightarrow> (v, rest) | Some (n, rest1) \<Rightarrow> (Some n, rest1))"
  shows "length rest' < length inp"
proof -
  have "length rest' \<le> length rest"
    using assms(2) by (auto split: option.splits prod.splits dest!: scan_int_shorter)
  with scan_word_shorter [OF assms(1)] show ?thesis by simp
qed

function stat_sum :: "string list \<Rightarrow> string \<Rightarrow> int option \<Rightarrow> int \<Rightarrow> int res" where
  "stat_sum keys inp v acc =
     (case scan_word inp of
        None \<Rightarrow> Inr acc
      | Some (w, rest) \<Rightarrow>
          if length w \<ge> 1024 then Inl OutOfBounds
          else
            (let (v', rest') = (case scan_int rest of None \<Rightarrow> (v, rest) | Some (n, rest1) \<Rightarrow> (Some n, rest1))
             in if w \<in> set keys then
                  (case v' of None \<Rightarrow> Inl Uninit | Some n \<Rightarrow> stat_sum keys rest' v' (acc + n))
                else stat_sum keys rest' v' acc))"
  by pat_completeness auto
termination
  by (relation "measure (\<lambda>(keys, inp, v, acc). length inp)") (auto dest: value_shorter)

declare stat_sum.simps [simp del]

definition get_cgroup_rss :: "string option \<Rightarrow> int res" where
  "get_cgroup_rss cgroup_stat =
     (case cgroup_stat of
        None \<Rightarrow> Inl Die
      | Some inp \<Rightarrow> stat_sum [''total_rss'', ''total_mapped_file'', ''total_cache''] inp None 0)"

definition get_tswap_memory_size :: "string option \<Rightarrow> int res" where
  "get_tswap_memory_size tswap_stat =
     (case tswap_stat of
        None \<Rightarrow> Inl Die
      | Some inp \<Rightarrow>
          rbind (stat_sum [''nr_zombie_page:'', ''nr_in_memory_page:'', ''nr_in_memory_zombie_page:'',
                   ''nr_in_flight_page:''] inp None 0) (\<lambda>n. Inr (n * 2 ^ 12)))"

definition get_available_memory :: "string option \<Rightarrow> string option \<Rightarrow> int res" where
  "get_available_memory mem_info cgroup_stat =
     rbind (get_free_memory_size mem_info) (\<lambda>a. rbind (get_cgroup_rss cgroup_stat) (\<lambda>b. Inr (a + b)))"

section \<open>Reading what was printed\<close>

definition word_text :: "string \<Rightarrow> bool" where
  "word_text w \<longleftrightarrow> w \<noteq> [] \<and> (\<forall>c \<in> set w. \<not> is_space c)"

definition spaces :: "string \<Rightarrow> bool" where
  "spaces p \<longleftrightarrow> p \<noteq> [] \<and> (\<forall>c \<in> set p. is_space c)"

lemma dropWhile_spaces: "\<forall>c \<in> set p. is_space c \<Longrightarrow> dropWhile is_space (p @ t) = dropWhile is_space t"
  by (induction p) auto

lemma scan_word_text:
  assumes "word_text w" "\<forall>c \<in> set ws. is_space c" "rest = [] \<or> is_space (hd rest)"
  shows "scan_word (ws @ w @ rest) = Some (w, rest)"
proof -
  have "dropWhile is_space (ws @ w @ rest) = w @ rest"
    using assms(1,2) by (cases w) (simp_all add: dropWhile_spaces word_text_def)
  moreover have "takeWhile (\<lambda>c. \<not> is_space c) (w @ rest) = w" "dropWhile (\<lambda>c. \<not> is_space c) (w @ rest) = rest"
    using assms(1,3) by (cases rest; simp add: takeWhile_append2 dropWhile_append2 word_text_def)+
  ultimately show ?thesis using assms(1) by (simp add: scan_word_def word_text_def)
qed

lemma scan_word_end: "\<forall>c \<in> set ws. is_space c \<Longrightarrow> scan_word ws = None"
  by (auto simp: scan_word_def)

lemma scan_int_spaces: "\<forall>c \<in> set p. is_space c \<Longrightarrow> scan_int (p @ t) = scan_int t"
  by (simp add: scan_int_def dropWhile_spaces)

lemma scan_int_printed:
  assumes "\<forall>c \<in> set p. is_space c" "\<not> starts_with_digit rest"
  shows "scan_int (p @ print_int n @ rest) = Some (n, rest)"
  using scan_int_spaces [OF assms(1)] scan_print_int [OF assms(2)] by simp

lemma newline_space [simp]: "is_space (CHR 0x0A)"
  by (simp add: is_space_def)

lemma newline_not_digit [simp]: "\<not> starts_with_digit (CHR 0x0A # cs)"
  by (simp add: starts_with_digit_def digit_val_def)

text \<open>A file of lines with a key and a number.\<close>

definition stat_line :: "string \<times> string \<times> int \<Rightarrow> string" where
  "stat_line l = (let (k, p, n) = l in k @ p @ print_int n @ [CHR 0x0A])"

definition stat_line_ok :: "string \<times> string \<times> int \<Rightarrow> bool" where
  "stat_line_ok l \<longleftrightarrow> (let (k, p, n) = l in word_text k \<and> length k < 1024 \<and> spaces p)"

lemma stat_sum_lines:
  assumes "\<forall>l \<in> set ls. stat_line_ok l" "\<forall>c \<in> set ws. is_space c"
  shows "stat_sum keys (ws @ concat (map stat_line ls)) v acc =
    Inr (acc + sum_list (map (\<lambda>(k, p, n). if k \<in> set keys then n else 0) ls))"
  using assms
proof (induction ls arbitrary: ws v acc)
  case Nil
  then show ?case by (subst stat_sum.simps) (simp add: scan_word_end)
next
  case (Cons l ls)
  obtain k p n where l: "l = (k, p, n)" by (cases l) auto
  have ok: "word_text k" "length k < 1024" "spaces p"
    using Cons.prems(1) l by (auto simp: stat_line_ok_def)
  let ?rest = "[CHR 0x0A] @ concat (map stat_line ls)"
  have "scan_word (ws @ k @ p @ print_int n @ ?rest) = Some (k, p @ print_int n @ ?rest)"
    by (rule scan_word_text) (use ok Cons.prems(2) in \<open>auto simp: spaces_def hd_append\<close>)
  moreover have "scan_int (p @ print_int n @ ?rest) = Some (n, ?rest)"
    by (rule scan_int_printed) (use ok in \<open>auto simp: spaces_def\<close>)
  ultimately have "stat_sum keys (ws @ concat (map stat_line (l # ls))) v acc =
      stat_sum keys ?rest (Some n) (if k \<in> set keys then acc + n else acc)"
    using ok(2) by (subst stat_sum.simps) (simp add: l stat_line_def)
  also have "\<dots> = Inr ((if k \<in> set keys then acc + n else acc) +
      sum_list (map (\<lambda>(k, p, n). if k \<in> set keys then n else 0) ls))"
    by (rule Cons.IH) (use Cons.prems(1) in auto)
  finally show ?case by (simp add: l)
qed

text \<open>A file of lines with a key, a number and a unit.\<close>

definition mem_line :: "string \<times> string \<times> int \<times> string \<times> string \<Rightarrow> string" where
  "mem_line l = (let (k, p, n, q, u) = l in k @ p @ print_int n @ q @ u @ [CHR 0x0A])"

definition mem_line_ok :: "string \<times> string \<times> int \<times> string \<times> string \<Rightarrow> bool" where
  "mem_line_ok l \<longleftrightarrow> (let (k, p, n, q, u) = l in
     word_text k \<and> length k < 512 \<and> spaces p \<and> spaces q \<and> word_text u \<and> length u < 4)"

lemma spaces_no_digit: "spaces p \<Longrightarrow> \<not> starts_with_digit (p @ t)"
proof -
  assume "spaces p"
  then obtain c cs where c: "p = c # cs" "is_space c" by (cases p) (auto simp: spaces_def)
  then have "digit_val c = None" by (auto simp: is_space_def digit_val_def Let_def)
  with c show ?thesis by (simp add: starts_with_digit_def)
qed

lemma meminfo_loop_lines:
  assumes "\<forall>l \<in> set ls. mem_line_ok l" "\<forall>c \<in> set ws. is_space c"
  shows "meminfo_loop key (ws @ concat (map mem_line ls)) sz un =
    Inr (map_option (\<lambda>(k, p, n, q, u). (n, unit_shift u)) (find (\<lambda>l. fst l = key) ls))"
  using assms
proof (induction ls arbitrary: ws sz un)
  case Nil
  then show ?case by (subst meminfo_loop.simps) (simp add: scan_word_end)
next
  case (Cons l ls)
  obtain k p n q u where l: "l = (k, p, n, q, u)" by (cases l) auto
  have ok: "word_text k" "length k < 512" "spaces p" "spaces q" "word_text u" "length u < 4"
    using Cons.prems(1) l by (auto simp: mem_line_ok_def)
  let ?rest = "[CHR 0x0A] @ concat (map mem_line ls)"
  have "scan_word (ws @ k @ p @ print_int n @ q @ u @ ?rest) = Some (k, p @ print_int n @ q @ u @ ?rest)"
    by (rule scan_word_text) (use ok Cons.prems(2) in \<open>auto simp: spaces_def hd_append\<close>)
  moreover have "scan_int (p @ print_int n @ q @ u @ ?rest) = Some (n, q @ u @ ?rest)"
    by (rule scan_int_printed) (use ok spaces_no_digit [of q] in \<open>auto simp: spaces_def\<close>)
  moreover have "scan_word (q @ u @ ?rest) = Some (u, ?rest)"
    by (rule scan_word_text) (use ok in \<open>auto simp: spaces_def\<close>)
  ultimately have step: "meminfo_loop key (ws @ concat (map mem_line (l # ls))) sz un =
      (if k = key then Inr (Some (n, unit_shift u)) else meminfo_loop key ?rest (Some n) (Some u))"
    using ok(2,6) by (subst meminfo_loop.simps) (simp add: l mem_line_def)
  have "meminfo_loop key ?rest (Some n) (Some u) =
      Inr (map_option (\<lambda>(k, p, n, q, u). (n, unit_shift u)) (find (\<lambda>l. fst l = key) ls))"
    by (rule Cons.IH) (use Cons.prems(1) in auto)
  with step show ?case by (simp add: l)
qed

end
