(* ===== verification/Tswap_Sysfs.thy ===== *)
theory Tswap_Sysfs
  imports Tswap_Entry C_Strings
begin

text \<open>
  The text of the files that the module shows under \<^verbatim>\<open>/sys/kernel/tswap\<close>: each counter is a
  line with its name, padded to 32 columns, and its value.
\<close>

definition stat_fields :: "tswap_stat \<Rightarrow> (string \<times> int) list" where
  "stat_fields st =
     [(''nr_zombie_page:'', nr_zombie_page st),
      (''nr_in_memory_page:'', nr_in_memory_page st),
      (''nr_in_memory_zombie_page:'', nr_in_memory_zombie_page st),
      (''nr_in_flight_page:'', nr_in_flight_page st),
      (''len_quarantine_list:'', len_quarantine_list st),
      (''nr_async_io:'', nr_async_io st),
      (''nr_async_end_io:'', nr_async_end_io st),
      (''nr_async_io_fail:'', nr_async_io_fail st),
      (''nr_async_end_io_fail:'', nr_async_end_io_fail st),
      (''nr_thp:'', nr_thp st),
      (''nr_malloc_fail:'', nr_malloc_fail st),
      (''nr_kmap_fail:'', nr_kmap_fail st),
      (''nr_radix_tree_insert_fail:'', nr_radix_tree_insert_fail st),
      (''nr_radix_tree_delete_fail:'', nr_radix_tree_delete_fail st),
      (''nr_store:'', nr_store st),
      (''nr_load:'', nr_load st),
      (''nr_invalid_load:'', nr_invalid_load st),
      (''nr_overwrite_store:'', nr_overwrite_store st),
      (''nr_invalidate_page:'', nr_invalidate_page st),
      (''nr_invalid_invalidate_page:'', nr_invalid_invalidate_page st),
      (''nr_invalidate_area:'', nr_invalidate_area st),
      (''nr_init:'', nr_init st),
      (''nr_quarantine_delete_stale:'', nr_quarantine_delete_stale st),
      (''nr_quarantine_skip_mem_zombie:'', nr_quarantine_skip_mem_zombie st)]"

definition stat_column :: "string \<times> int \<Rightarrow> string" where
  "stat_column f =
     fst f @ replicate (32 - length (fst f)) (CHR '' '') @ print_int (snd f) @ [CHR 0x0A]"

definition tswap_stat_show :: "tswap_stat \<Rightarrow> string" where
  "tswap_stat_show st = concat (map stat_column (stat_fields st))"

definition tswap_quarantine_time_show :: "int \<Rightarrow> string" where
  "tswap_quarantine_time_show quarantine_time = print_int quarantine_time @ [CHR 0x0A]"

end
