(* ===== verification/Harvest_Props.thy ===== *)
theory Harvest_Props
  imports Broker_Props Proc_Files Tswap_Sysfs Tswap_Props
begin

text \<open>
  The properties of the producer and the consumer of the harvester: the assignments they
  receive from the broker, the decisions of the harvest loop, and what they read from the
  files of the kernel and of the tswap module.
\<close>

section \<open>Assignments\<close>







text \<open>What an assignment does to the number of consumers, whatever the arrays hold.\<close>

lemma hp_entry_count: "hp_entry a p z i s = Inr s' \<Longrightarrow> hp_consumer_count s' = hp_consumer_count s"
  by (auto simp: hp_entry_def put_spot_consumer_def rbind_eq_Inr)

lemma portal_loop_count:
  "portal_loop hp_count hp_entry k ts v s = Inr s' \<Longrightarrow> 2 \<le> k \<Longrightarrow>
    hp_consumer_count s' = hp_consumer_count s"
proof (induction ts arbitrary: k v s)
  case (Cons t ts)
  from Cons.prems show ?case
    by (auto simp: rbind_eq_Inr hp_entry_count simp del: One_nat_def split: if_splits dest!: Cons.IH)
qed simp

lemma takeWhile_print:
  "takeWhile (\<lambda>c. c \<noteq> CHR 0x00) (print_int i @ r) = print_int i @ takeWhile (\<lambda>c. c \<noteq> CHR 0x00) r"
  by (rule takeWhile_append2) (use print_int_no_zero [of i] in auto)

lemma assignment_count:
  assumes "hp_portal_parser ptr addr (assignment_text t ip port n i) s = Inr s'"
    and "ip_text ip" "hp_consumer_count s < 2 ^ 31 - 1" "0 \<le> hp_consumer_count s"
  shows "hp_consumer_count s' = hp_consumer_count s + 1"
proof -
  let ?m = "assignment_text t ip port n i"
  from assms(1) obtain bytes tx where
    b: "memcpy_str ?m (take 1024 ptr) = Inr bytes" "c_str bytes = Inr tx" and
    loop: "portal_loop hp_count hp_entry 0 (tokens '',:'' tx)
      \<lparr>pv_addr = take 200 addr, pv_port = None, pv_size = None\<rparr> s = Inr s'"
    by (auto simp: hp_portal_parser_def portal_def rbind_eq_Inr)
  obtain rest where m: "?m = print_int (wire_num t) @ CHR '','' # print_int 1 @ CHR '','' # rest"
    by (simp add: assignment_text_def)
  obtain rest' where tx: "tx = print_int (wire_num t) @ CHR '','' # print_int 1 @ CHR '','' # rest'"
  proof -
    obtain tl where bytes: "bytes = ?m @ tl" using b(1) by (auto simp: memcpy_str_def split: if_splits)
    have "tx = takeWhile (\<lambda>c. c \<noteq> CHR 0x00) bytes" using b(2) by (simp add: c_str_def split: if_splits)
    also have "\<dots> = print_int (wire_num t) @ CHR '','' # print_int 1 @ CHR '','' #
        takeWhile (\<lambda>c. c \<noteq> CHR 0x00) (rest @ tl)"
      by (simp add: bytes m takeWhile_print)
    finally show ?thesis by (rule that)
  qed
  have "tokens '',:'' tx = print_int (wire_num t) # print_int 1 # tokens '',:'' rest'"
    unfolding tx by (simp add: tokens_Cons)
  moreover have "is_int32 1" by (simp add: is_int32_def)
  ultimately have "portal_loop hp_count hp_entry 2 (tokens '',:'' rest')
      \<lparr>pv_addr = take 200 addr, pv_port = None, pv_size = None\<rparr> (hp_count 1 s) = Inr s'"
    using loop by (simp add: atoi_print_int numeral_2_eq_2)
  from portal_loop_count [OF this] have "hp_consumer_count s' = hp_consumer_count (hp_count 1 s)" by simp
  also have "\<dots> = hp_consumer_count s + 1"
    using assms(3,4) by (simp add: hp_count_def to_int32_id is_int32_def)
  finally show ?thesis .
qed

text \<open>The loop over the consumers cannot pass the end of the array.\<close>

lemma run_managers_overrun:
  assumes "0 \<le> i" "i \<le> int (HP_MAX_CONSUMER + 2)" "int (HP_MAX_CONSUMER + 2) < i + int n"
  shows "isl (run_managers n i s)"
  using assms
proof (induction n arbitrary: i s)
  case (Suc n)
  show ?case
  proof (cases "i = int (HP_MAX_CONSUMER + 2)")
    case True
    then show ?thesis by (simp add: spot_consumer_at_def aget_def in_bounds_def)
  next
    case False
    with Suc.prems have ih: "isl (run_managers n (i + 1) t)" for t by (intro Suc.IH) auto
    have "isl (rbind r (run_managers n (i + 1)))" for r by (cases r) (simp_all add: ih)
    then show ?thesis by (cases "spot_consumer_at s i") simp_all
  qed
qed simp

lemma run_managers_count:
  "run_managers n i s = Inr s' \<Longrightarrow> hp_consumer_count s' = hp_consumer_count s"
proof (induction n arbitrary: i s)
  case (Suc n)
  have ready: "hp_send_producer_ready_msg j u = Inr u' \<Longrightarrow> hp_consumer_count u' = hp_consumer_count u" for j u u'
    by (auto simp: hp_send_producer_ready_msg_def rbind_eq_Inr hp_write_def)
  have "hp_consumer_count u' = hp_consumer_count u" if "run_spot_manager j u = Inr u'" for j u u'
    using that by (auto simp: run_spot_manager_def rbind_eq_Inr put_spot_consumer_def
        split: if_splits dest!: ready)
  with Suc.prems show ?case
    by (auto simp: rbind_eq_Inr split: if_splits dest!: Suc.IH)
qed simp

lemma assignment_type:
  "arg (sscanf_ints 1 (assignment_text t ip port n i)) 0 = Inr (wire_num t)"
  using type_scan [of t "print_int 1 @ CHR '','' # _"] by (simp add: assignment_text_def)

lemma handle_assignment:
  "hp_handle_message ptr addr (assignment_text SPOT_ASSIGNMENT_PRODUCER ip port n i) s =
     rbind (hp_portal_parser ptr addr (assignment_text SPOT_ASSIGNMENT_PRODUCER ip port n i) s)
       (\<lambda>s1. run_managers (nat (hp_consumer_count s1)) 0 s1)"
  unfolding hp_handle_message_def assignment_type rbind_simps wire_of_num by simp

section \<open>Numbers at the start of a text\<close>

lemma take_digits_subset: "set (snd (take_digits s acc)) \<subseteq> set s"
proof (induction s acc rule: take_digits.induct)
  case (2 c cs acc)
  then show ?case by (cases "digit_val c") auto
qed simp

lemma scan_int_subset:
  assumes "scan_int s = Some (i, rest)"
  shows "set rest \<subseteq> set s"
proof -
  from assms obtain c cs where c: "dropWhile is_space s = c # cs"
    by (auto simp: scan_int_def split: list.splits)
  have "set (c # cs) \<subseteq> set s" using set_dropWhileD [of _ is_space s] c by (metis subsetI)
  moreover have "set rest \<subseteq> set (c # cs)"
    using assms c take_digits_subset [of cs 0] take_digits_subset [of "c # cs" 0]
    by (auto simp: scan_int_def Let_def simp del: take_digits.simps split: if_splits prod.splits)
  ultimately show ?thesis by blast
qed

lemma sscanf_no_comma:
  assumes "CHR '','' \<notin> set s"
  shows "length (sscanf_ints n s) \<le> 1"
proof (cases n)
  case (Suc m)
  show ?thesis
  proof (cases "scan_int s")
    case (Some a)
    obtain i rest where a: "a = (i, rest)" by force
    with Some scan_int_subset [of s i rest] assms have "CHR '','' \<notin> set rest" by blast
    with Some a Suc show ?thesis by (cases rest) auto
  qed (simp add: Suc)
qed simp

lemma print_int_no_comma: "CHR '','' \<notin> set (print_int i)"
  using print_int_field_std [of i] by (auto simp: field_def)

lemma assignment_scan_short:
  assumes "ip_text ip"
  shows "length (sscanf_ints 4 (assignment_text t ip port n i)) \<le> 3"
proof -
  let ?r = "sep_by (CHR '':'') [ip, print_int port, print_int n, print_int i] @ [CHR 0x0A]"
  have "CHR '','' \<notin> set ?r"
    using assms by (auto simp: ip_text_def field_def print_int_no_comma)
  from sscanf_no_comma [OF this] have r: "length (sscanf_ints 2 ?r) \<le> 1" .
  have "is_int32 1" by (simp add: is_int32_def)
  then have "sscanf_ints 4 (assignment_text t ip port n i) = wire_num t # 1 # sscanf_ints 2 ?r"
    using scan_print_int [of "CHR '','' # print_int 1 @ CHR '','' # ?r" "wire_num t"]
      scan_print_int [of "CHR '','' # ?r" 1] wire_num_int32 [of t]
    by (simp add: assignment_text_def numeral_eq_Suc to_int32_id del: sep_by.simps)
  with r show ?thesis by simp
qed

section \<open>Harvesting\<close>




section \<open>Files\<close>

lemma stat_column_line:
  "stat_column (k, n) = stat_line (k, replicate (32 - length k) (CHR '' ''), n)"
  by (simp add: stat_column_def stat_line_def)

lemma stat_fields_ok:
  "\<forall>f \<in> set (stat_fields st). word_text (fst f) \<and> length (fst f) < 32"
  by (simp add: stat_fields_def word_text_def is_space_def)

lemma stat_show_sum:
  "stat_sum keys (tswap_stat_show st) None 0 =
     Inr (sum_list (map (\<lambda>f. if fst f \<in> set keys then snd f else 0) (stat_fields st)))"
proof -
  let ?ls = "map (\<lambda>(k, n). (k, replicate (32 - length k) (CHR '' ''), n)) (stat_fields st)"
  have "stat_line_ok l" if "l \<in> set ?ls" for l
    using that stat_fields_ok [of st]
    by (auto simp: stat_line_ok_def spaces_def is_space_def dest!: bspec)
  moreover have "tswap_stat_show st = concat (map stat_line ?ls)"
    by (auto simp: tswap_stat_show_def stat_column_line intro!: arg_cong [where f = concat] map_cong)
  ultimately show ?thesis
    using stat_sum_lines [of ?ls "[]" keys None 0] by (simp add: o_def case_prod_beta)
qed

section \<open>Properties\<close>


text \<open>
  A producer cannot handle three assignments: the number of consumers starts at the
  size that is meant for the array and grows with every assignment, so that the loop over
  the consumers leaves the array at the third one, if nothing has failed before, whatever
  the assignments are.
\<close>

theorem third_assignment_overrun:
  assumes "hp_consumer_count p = int HP_MAX_CONSUMER" "ip_text ip1" "ip_text ip2" "ip_text ip3"
  shows "isl (rbind (hp_handle_message b1 a1 (assignment_text SPOT_ASSIGNMENT_PRODUCER ip1 port1 n1 i1) p) (\<lambda>p1.
    rbind (hp_handle_message b2 a2 (assignment_text SPOT_ASSIGNMENT_PRODUCER ip2 port2 n2 i2) p1)
      (hp_handle_message b3 a3 (assignment_text SPOT_ASSIGNMENT_PRODUCER ip3 port3 n3 i3))))"
proof -
  have step: "hp_consumer_count s' = hp_consumer_count s + 1"
    if "hp_handle_message b a (assignment_text SPOT_ASSIGNMENT_PRODUCER ip port n i) s = Inr s'" "ip_text ip"
      "0 \<le> hp_consumer_count s" "hp_consumer_count s < 2 ^ 31 - 1" for b a ip port n i s s'
    using that by (auto simp: handle_assignment rbind_eq_Inr run_managers_count dest: assignment_count)
  have last: "isl (hp_handle_message b a (assignment_text SPOT_ASSIGNMENT_PRODUCER ip port n i) s)"
    if "hp_consumer_count s = 130" "ip_text ip" for b a ip port n i s
  proof (cases "hp_portal_parser b a (assignment_text SPOT_ASSIGNMENT_PRODUCER ip port n i) s")
    case (Inr s1)
    with that assignment_count [OF Inr] have "hp_consumer_count s1 = 131" by simp
    with Inr run_managers_overrun [of 0 131 s1] show ?thesis
      by (simp add: handle_assignment HP_MAX_CONSUMER_def)
  qed (simp add: handle_assignment)
  show ?thesis (is "isl ?r")
  proof (cases ?r)
    case (Inr p3)
    then obtain p1 p2 where
      1: "hp_handle_message b1 a1 (assignment_text SPOT_ASSIGNMENT_PRODUCER ip1 port1 n1 i1) p = Inr p1" and
      2: "hp_handle_message b2 a2 (assignment_text SPOT_ASSIGNMENT_PRODUCER ip2 port2 n2 i2) p1 = Inr p2" and
      3: "hp_handle_message b3 a3 (assignment_text SPOT_ASSIGNMENT_PRODUCER ip3 port3 n3 i3) p2 = Inr p3"
      by (auto simp: rbind_eq_Inr)
    from step [OF 1 assms(2)] assms(1) have c1: "hp_consumer_count p1 = 129" by (simp add: HP_MAX_CONSUMER_def)
    with step [OF 2 assms(3)] have "hp_consumer_count p2 = 130" by simp
    with last [OF _ assms(4), of p2 b3 a3 port3 n3 i3] 3 show ?thesis by simp
  qed simp
qed

text \<open>
  A consumer that receives an assignment of the broker always reads an uninitialised
  variable, or fails before: the case for assignments runs into the one for ready messages,
  which reads a port that the message does not have.
\<close>

theorem consumer_assignment_fails:
  assumes "ip_text ip"
  shows "isl (hc_handle_message ptr addr (assignment_text SPOT_ASSIGNMENT_CONSUMER ip port n i) s)"
proof -
  let ?m = "assignment_text SPOT_ASSIGNMENT_CONSUMER ip port n i"
  have "arg (sscanf_ints 4 ?m) 3 = Inl Uninit"
    using assignment_scan_short [OF assms, of SPOT_ASSIGNMENT_CONSUMER port n i] by (simp add: arg_def)
  then have ready: "isl (hc_ready ?m t)" for t
    by (cases "arg (sscanf_ints 4 ?m) 1") (simp_all add: hc_ready_def)
  have "isl (rbind r (hc_ready ?m))" for r by (cases r) (simp_all add: ready)
  then show ?thesis unfolding hc_handle_message_def assignment_type rbind_simps wire_of_num by simp
qed


text \<open>
  C22. What the producer reads from the statistics file of the tswap module is the memory
  the module holds: in every reachable state of the module the sum is the number of page
  buffers it has allocated, in bytes.
\<close>

theorem tswap_memory_reported:
  assumes "tswap_reachable s"
  shows "get_tswap_memory_size (Some (tswap_stat_show (ts_stat s))) = Inr (4096 * ts_pages s)"
proof -
  have "ts_pages s = nr_zombie_page (ts_stat s) + nr_in_memory_page (ts_stat s) +
      nr_in_memory_zombie_page (ts_stat s) + nr_in_flight_page (ts_stat s)"
    using counters_pages [OF tsw.reach_inv [OF assms]] by simp
  then show ?thesis
    by (simp add: get_tswap_memory_size_def stat_show_sum stat_fields_def)
qed

text \<open>
  The total memory is read from \<^verbatim>\<open>/proc/meminfo\<close> as the number of its first \<^verbatim>\<open>MemTotal\<close> line,
  scaled by the unit of that line, for every file of lines with a key, a number and a unit.
\<close>

theorem total_memory_read:
  assumes "\<forall>l \<in> set ls. mem_line_ok l" "find (\<lambda>l. fst l = ''MemTotal:'') ls = Some (k, p, n, q, u)"
  shows "get_total_memory_size (Some (concat (map mem_line ls))) = Inr (n * 2 ^ unit_shift u)"
  using meminfo_loop_lines [OF assms(1), of "[]" "''MemTotal:''" None None] assms(2)
  by (simp add: get_total_memory_size_def meminfo_size_def)

text \<open>
  C23. The estimate of the available memory is the weighted mean of the memory that is
  available and the last estimate, computed in single precision: it differs from one fifth of
  the one and four fifths of the other by at most one part in \<^verbatim>\<open>2^21\<close> and one byte, and what is
  returned never exceeds the memory that is available.
\<close>

theorem estimate_error:
  assumes "0 \<le> available" "0 \<le> hp_est_available_memory p"
    and "update_est_available_memory available p = (est, p')"
  shows "2 ^ 21 * \<bar>5 * hp_est_available_memory p' - (available + 4 * hp_est_available_memory p)\<bar>
      \<le> available + 4 * hp_est_available_memory p + 5 * 2 ^ 21 \<and> est \<le> available"
proof -
  let ?e = "hp_est_available_memory p" and ?e' = "hp_est_available_memory p'"
  let ?x = "fl_mul g_ewma_beta (fl_of_int available)"
  let ?c = "fl_add (fl_of_int 1) (fl_neg g_ewma_beta)"
  let ?y = "fl_mul ?c (fl_of_int ?e)"
  have c: "?c = (13421773, - 24)" by code_simp
  have e': "?e' = fl_to_int (fl_add ?x ?y)" "est \<le> available"
    using assms(3) by (auto simp: update_est_available_memory_def Let_def)
  have pos: "0 \<le> fst g_ewma_beta" "0 \<le> fst ?c" "0 \<le> fst (fl_of_int available)" "0 \<le> fst (fl_of_int ?e)"
    unfolding c using assms(1,2) by (simp_all add: g_ewma_beta_def fl_of_int_def fl_round_sign)
  have posxy: "0 \<le> fst ?x" "0 \<le> fst ?y" using pos by (simp_all add: fl_mul_def fl_round_sign)
  have "near 1 (1 / 5) (fval g_ewma_beta)" "near 1 (4 / 5) (fval ?c)"
    unfolding c by (simp_all add: near_def fval_def g_ewma_beta_def power_int_def power_one_over)
  then have "near 3 (1 / 5 * of_int available) (fval ?x)" "near 3 (4 / 5 * of_int ?e) (fval ?y)"
    using fl_mul_near [of g_ewma_beta "fl_of_int available" 1 "1 / 5" 1 "of_int available"]
      fl_mul_near [of ?c "fl_of_int ?e" 1 "4 / 5" 1 "of_int ?e"] pos assms(1,2) fl_of_int_near
    by (simp_all add: numeral_3_eq_3)
  then have "near 4 (1 / 5 * of_int available + 4 / 5 * of_int ?e) (fval (fl_add ?x ?y))"
    using fl_add_near [OF posxy, of 3] assms(1,2) by (simp add: numeral_eq_Suc)
  then have n: "(1 - 1 / 2 ^ 24) ^ 4 * (of_int (available + 4 * ?e) / 5) \<le> fval (fl_add ?x ?y)"
    "fval (fl_add ?x ?y) \<le> (1 + 1 / 2 ^ 24) ^ 4 * (of_int (available + 4 * ?e) / 5)"
    by (simp_all add: near_def field_simps)
  have v: "0 \<le> (of_int (available + 4 * ?e) / 5 :: rat)" using assms(1,2) by simp
  have "(1 - 1 / 2 ^ 21) * (of_int (available + 4 * ?e) / 5) \<le> fval (fl_add ?x ?y)"
    by (rule order_trans [OF mult_right_mono [OF _ v] n(1)]) (simp add: power_divide)
  moreover have "fval (fl_add ?x ?y) \<le> (1 + 1 / 2 ^ 21) * (of_int (available + 4 * ?e) / 5)"
    by (rule order_trans [OF n(2) mult_right_mono [OF _ v]]) (simp add: power_divide)
  moreover have "0 \<le> fst (fl_add ?x ?y)" using posxy by (simp add: fl_add_def Let_def fl_round_sign)
  then have "of_int ?e' \<le> fval (fl_add ?x ?y)" "fval (fl_add ?x ?y) < of_int ?e' + 1"
    using fl_to_int_bounds e'(1) by simp_all
  ultimately have "(1 - 1 / 2 ^ 21) * (of_int (available + 4 * ?e) / 5) \<le> (of_int ?e' + 1 :: rat)"
    "(of_int ?e' :: rat) \<le> (1 + 1 / 2 ^ 21) * (of_int (available + 4 * ?e) / 5)" by linarith+
  then have "(of_int ((2 ^ 21 - 1) * (available + 4 * ?e)) :: rat) \<le> of_int (5 * 2 ^ 21 * (?e' + 1))"
    "(of_int (5 * 2 ^ 21 * ?e') :: rat) \<le> of_int ((2 ^ 21 + 1) * (available + 4 * ?e))"
    by (simp_all add: field_simps)
  then have "(2 ^ 21 - 1) * (available + 4 * ?e) \<le> 5 * 2 ^ 21 * (?e' + 1)"
    "5 * 2 ^ 21 * ?e' \<le> (2 ^ 21 + 1) * (available + 4 * ?e)" by (simp_all only: of_int_le_iff)
  then show ?thesis using e'(2) by (auto simp: abs_if)
qed

end
