(* ===== verification/Harvest_Witness.thy ===== *)
theory Harvest_Witness
  imports Harvest_Props Tswap_Witness
begin

text \<open>
  A concrete broker with one producer that offers 8 slabs and one consumer, and the
  properties of the harvester at concrete inputs.
\<close>

section \<open>A sorting routine\<close>

fun w_insert :: "('a \<Rightarrow> 'a \<Rightarrow> int) \<Rightarrow> 'a \<Rightarrow> 'a list \<Rightarrow> 'a list" where
  "w_insert cmp x [] = [x]"
| "w_insert cmp x (y # ys) = (if cmp x y > 0 then y # w_insert cmp x ys else x # y # ys)"

definition w_qsort :: qsort_fun where
  "w_qsort cmp xs = foldr (w_insert cmp) xs []"

lemma w_qsort_permutes: "permutes w_qsort"
proof -
  have ins: "mset (w_insert cmp x ys) = add_mset x (mset ys)" for cmp and x :: broker_producer and ys
    by (induction ys) auto
  have "mset (foldr (w_insert cmp) xs []) = mset xs" for cmp and xs :: "broker_producer list"
    by (induction xs) (simp_all add: ins)
  then show ?thesis by (simp add: permutes_def w_qsort_def)
qed

section \<open>A broker with a producer and a consumer\<close>

definition w_producer_entry :: "int \<Rightarrow> int \<Rightarrow> broker_producer" where
  "w_producer_entry n available =
     \<lparr>bp_ip = CHR ''p'' # replicate 199 (CHR 0x00), bp_port = 9702, bp_nslabs = n,
      bp_available_slabs = available, bp_id = 0, bp_sock = 4\<rparr>"

definition w_consumer_entry :: broker_consumer where
  "w_consumer_entry =
     \<lparr>bc_ip = CHR ''c'' # replicate 199 (CHR 0x00), bc_port = 9704, bc_id = 0, bc_assigned_slabs = 0,
      bc_sock = 5\<rparr>"

definition w_ack :: "int \<Rightarrow> int \<times> payload" where
  "w_ack sock = (sock, Whole 100 (sep_by (CHR '','') [print_int (wire_num REGISTRATION_ACK), print_int 0]))"

definition w_bk1 :: broker where
  "w_bk1 = broker_init\<lparr>bk_producer_id := 1,
     bk_producers := (bk_producers broker_init)(0 := w_producer_entry 0 0), bk_out := [w_ack 4]\<rparr>"

definition w_bk2 :: broker where
  "w_bk2 = w_bk1\<lparr>bk_consumer_id := 1,
     bk_consumers := (bk_consumers broker_init)(0 := w_consumer_entry), bk_out := [w_ack 4, w_ack 5]\<rparr>"

definition w_bk3 :: broker where
  "w_bk3 = w_bk2\<lparr>bk_producers := (bk_producers broker_init)(0 := w_producer_entry 40 8)\<rparr>"

lemmas w_bk = w_bk1_def w_bk2_def w_bk3_def

lemma w_ip: "ip_text [CHR ''p'']" "ip_text [CHR ''c'']"
  by (simp_all add: ip_text_def field_def)

lemma w_port: "is_int32 9702" "is_int32 9704" "is_int32 0" "is_int32 8" "is_int32 40" "is_int32 1" "is_int32 3" "is_int32 20"
  by (simp_all add: is_int32_def)

lemma w_ack_fits:
  "copy_str 100 (sep_by (CHR '','') [print_int (wire_num REGISTRATION_ACK), print_int 0]) =
     Inr (sep_by (CHR '','') [print_int (wire_num REGISTRATION_ACK), print_int 0])"
  using ack_fits [of 0 REGISTRATION_ACK] by (simp add: copy_str_def is_int32_def)

lemma w_step1: "broker_handle_message w_qsort (client_text (RegProducer [CHR ''p''] 9702)) 4 broker_init = Inr w_bk1"
proof -
  have "register_client [CHR ''p''] 9702 PRODUCER 4 broker_init = Inr w_bk1"
    unfolding register_client_def
    by (simp add: Let_def broker_init_def producer_at_def put_bk_producer_def aget_def aset_def
        in_bounds_def MAX_PRODUCERS_def memcpy_str_def to_int32_id w_port send_register_ack_def w_ack_fits
        sock_write_def w_bk w_producer_entry_def w_ack_def del: sep_by.simps)
  then show ?thesis
    using ip_parser_text [OF w_ip(1) w_port(1), of "wire_num PRODUCER_REG"]
    unfolding handle_by_type by (simp add: broker_register_def init_var_def del: sep_by.simps)
qed

lemma w_step2: "broker_handle_message w_qsort (client_text (RegConsumer [CHR ''c''] 9704)) 5 w_bk1 = Inr w_bk2"
proof -
  have "register_client [CHR ''c''] 9704 CONSUMER 5 w_bk1 = Inr w_bk2"
    unfolding register_client_def
    by (simp add: Let_def broker_init_def consumer_at_def put_bk_consumer_def aget_def aset_def
        in_bounds_def MAX_CONSUMERS_def memcpy_str_def to_int32_id w_port send_register_ack_def w_ack_fits
        sock_write_def w_bk w_consumer_entry_def w_ack_def del: sep_by.simps)
  then show ?thesis
    using ip_parser_text [OF w_ip(2) w_port(2), of "wire_num CONSUMER_REG"]
    unfolding handle_by_type by (simp add: broker_register_def init_var_def del: sep_by.simps)
qed

lemma w_step3: "broker_handle_message w_qsort (client_text (Availability 0 8 40)) 4 w_bk2 = Inr w_bk3"
proof -
  have "sscanf_ints 4 (client_text (Availability 0 8 40)) = [wire_num PRODUCER_AVAILABILITY, 0, 8, 40]"
    using four_ints [of 0 8 40] by (simp add: w_port del: sep_by.simps list.map)
  then show ?thesis
    by (simp add: handle_by_type broker_availability_def producer_at_def put_bk_producer_def aget_def
        aset_def in_bounds_def MAX_PRODUCERS_def w_bk broker_init_def w_producer_entry_def
        del: client_text.simps)
qed

lemma w_broker_reach: "broker_reachable broker_init" "broker_reachable w_bk1" "broker_reachable w_bk2"
  "broker_reachable w_bk3"
proof -
  have ok: "client_ok (RegProducer [CHR ''p''] 9702) broker_init" "client_ok (RegConsumer [CHR ''c''] 9704) w_bk1"
    "client_ok (Availability 0 8 40) w_bk2"
    by (simp_all add: w_ip w_port broker_init_def w_bk MAX_PRODUCERS_def MAX_CONSUMERS_def)
  show 0: "broker_reachable broker_init" by (rule reach_init) simp
  show 1: "broker_reachable w_bk1"
    by (rule reach_step [OF 0 bk_message [OF w_qsort_permutes ok(1) w_step1]])
  show 2: "broker_reachable w_bk2"
    by (rule reach_step [OF 1 bk_message [OF w_qsort_permutes ok(2) w_step2]])
  show "broker_reachable w_bk3"
    by (rule reach_step [OF 2 bk_message [OF w_qsort_permutes ok(3) w_step3]])
qed

lemma w_candidates: "w_qsort broker_comparator (candidates w_bk3) = [w_producer_entry 40 8]"
proof -
  have "[0 ..< MAX_PRODUCERS] = 0 # [1 ..< MAX_PRODUCERS]"
    by (simp add: MAX_PRODUCERS_def upt_conv_Cons)
  moreover have "filter (\<lambda>p. bp_available_slabs p \<noteq> 0) (map (bk_producers w_bk3) [1 ..< MAX_PRODUCERS]) = []"
    by (auto simp: filter_empty_conv w_bk broker_init_def)
  ultimately have "candidates w_bk3 = [w_producer_entry 40 8]"
    by (simp add: candidates_def w_bk w_producer_entry_def)
  then show ?thesis by (simp add: w_qsort_def)
qed

section \<open>Witnesses\<close>


theorem placement_exact_witness:
  "\<exists>s'. find_placement w_qsort 0 3 1 w_bk3 = Inr s' \<and>
     bp_available_slabs (bk_producers s' 0) = 5"
  using placement_exact [OF w_broker_reach(4) w_qsort_permutes _ _ w_candidates, of 0 3 1]
  by (simp add: w_bk w_port w_producer_entry_def)

theorem placement_overcommit_witness:
  "\<exists>s' n rest. find_placement w_qsort 0 20 1 w_bk3 = Inr s' \<and>
     bk_out s' = bk_out w_bk3 @ grant_writes w_consumer_entry (w_producer_entry 40 8, n) @ rest \<and> n = 13"
proof -
  have "client_ok (SpotRequest 0 20 1) w_bk3" "2 * bp_available_slabs (w_producer_entry 40 8) \<le> 20"
    by (simp_all add: w_bk w_port w_producer_entry_def)
  from placement_overcommit [OF w_broker_reach(4) w_qsort_permutes this(1) w_candidates this(2)]
  show ?thesis by (auto simp: w_bk w_producer_entry_def)
qed

theorem producer_registration_witness:
  "\<exists>p1 m s'. hp_handle_message [] [] (print_int (wire_num CONNECTION_ACK)) (hp_init 0) = Inr p1 \<and>
    hp_out p1 = hp_out (hp_init 0) @ [m] \<and>
    broker_receive w_qsort 4 (replicate 4096 (CHR ''x'')) [payload_bytes [] m] broker_init = Inr s' \<and>
    c_str (bp_ip (bk_producers s' 0)) = Inr ''192.168.122.141''"
proof -
  have "bk_producer_id broker_init < int MAX_PRODUCERS" "ip_text (hp_ip (hp_init 0))" "is_int32 (hp_port (hp_init 0))"
    "300 \<le> length (replicate 4096 (CHR ''x''))" "100 \<le> length (replicate 4096 (CHR ''x''))"
    "bk_producer_id broker_init = 0" "hp_ip (hp_init 0) = ''192.168.122.141''"
    by (simp_all add: broker_init_def MAX_PRODUCERS_def hp_init_def ip_text_def field_def is_int32_def)
  with producer_registration [OF w_broker_reach(1) this(1-5), of "[]" "[]" w_qsort 4 "[]" "[]"]
  show ?thesis by (metis nat_0)
qed


theorem third_assignment_overrun_witness:
  "isl (rbind (hp_handle_message [] [] (assignment_text SPOT_ASSIGNMENT_PRODUCER [CHR ''c''] 9704 3 0) (hp_init 0)) (\<lambda>p1.
    rbind (hp_handle_message [] [] (assignment_text SPOT_ASSIGNMENT_PRODUCER [CHR ''c''] 9704 3 0) p1)
      (hp_handle_message [] [] (assignment_text SPOT_ASSIGNMENT_PRODUCER [CHR ''c''] 9704 3 0))))"
  by (rule third_assignment_overrun) (simp_all add: w_ip hp_init_def)

theorem consumer_assignment_fails_witness:
  "isl (hc_handle_message (replicate 1024 (CHR 0x00)) (replicate 200 (CHR 0x00))
     (assignment_text SPOT_ASSIGNMENT_CONSUMER [CHR ''p''] 9702 3 0) hc_init)"
  by (rule consumer_assignment_fails [OF w_ip(1)])

definition w_lending :: harvest_producer where
  "w_lending = (hp_init 0)\<lparr>hp_harvested_memory := 2 ^ 27\<rparr>"


theorem tswap_memory_reported_witness:
  "get_tswap_memory_size (Some (tswap_stat_show (ts_stat w_stored))) = Inr (4096 * ts_pages w_stored)"
  by (rule tswap_memory_reported [OF w_reach(2)])

theorem total_memory_read_witness:
  "get_total_memory_size (Some (concat (map mem_line
     [(''MemFree:'', '' '', 7, '' '', ''kB''), (''MemTotal:'', '' '', 16, '' '', ''kB'')]))) = Inr (16 * 2 ^ 10)"
proof -
  let ?ls = "[(''MemFree:'', '' '', 7, '' '', ''kB''), (''MemTotal:'', '' '', 16, '' '', ''kB'')]"
  have "\<forall>l \<in> set ?ls. mem_line_ok l" by (simp add: mem_line_ok_def word_text_def spaces_def is_space_def)
  from total_memory_read [OF this, of "''MemTotal:''" "'' ''" 16 "'' ''" "''kB''"]
  show ?thesis by (simp add: unit_shift_def)
qed

theorem estimate_error_witness:
  "2 ^ 21 * \<bar>5 * hp_est_available_memory (snd (update_est_available_memory 1000 w_lending)) - 1000\<bar>
     \<le> 1000 + 5 * 2 ^ 21"
  using estimate_error [of 1000 w_lending] by (cases "update_est_available_memory 1000 w_lending")
    (simp add: w_lending_def hp_init_def hp_default_def)

end
