(* ===== verification/Daemon.thy ===== *)
theory Daemon
  imports C_Float C_Strings
begin

text \<open>
  The memory server of the remote memory framework (\<^verbatim>\<open>framework/infiniswap_daemon/rdma-common.c\<close>,
  \<^verbatim>\<open>rdma-common.h\<close>, \<^verbatim>\<open>infiniswap-daemon.c\<close>): it lends chunks of one gigabyte to clients over RDMA and
  takes them back when free memory runs short. A call of the RDMA library succeeds or fails as
  a parameter says; a call that fails ends the process. \<open>reg\<close> gives the address and the key
  that the registration of the memory of a chunk returns. A pointer to a connection is a
  number, and the connections that are alive are the ones in the heap.
\<close>

section \<open>Byte order\<close>

unbundle bit_operations_syntax

definition bswap32 :: "32 word \<Rightarrow> 32 word" where
  "bswap32 w = push_bit 24 (w AND 0xFF) OR push_bit 8 (w AND 0xFF00) OR
     drop_bit 8 (w AND 0xFF0000) OR drop_bit 24 (w AND 0xFF000000)"

text \<open>On a machine with the low byte first, \<^verbatim>\<open>htonl\<close> and \<^verbatim>\<open>ntohl\<close> exchange the bytes.\<close>

definition htonll :: "64 word \<Rightarrow> 64 word" where
  "htonll v = push_bit 32 (ucast (bswap32 (ucast (v AND 0xFFFFFFFF)))) OR
     ucast (bswap32 (ucast (drop_bit 32 v)))"

definition ntohll :: "64 word \<Rightarrow> 64 word" where
  "ntohll x = push_bit 32 (ucast (bswap32 (ucast (drop_bit 32 (push_bit 32 x))))) OR
     ucast (bswap32 (ucast (drop_bit 32 x)))"

section \<open>State\<close>

definition MAX_CLIENT :: nat where "MAX_CLIENT = 32"
definition MAX_FREE_MEM_GB :: nat where "MAX_FREE_MEM_GB = 32"
definition MAX_MR_SIZE_GB :: nat where "MAX_MR_SIZE_GB = 32"
definition EXTRA_CHUNK_NUM :: int where "EXTRA_CHUNK_NUM = 2"
definition ONE_MB :: int where "ONE_MB = 1048576"
definition FREE_MEM_EVICT_THRESHOLD :: int where "FREE_MEM_EVICT_THRESHOLD = 10"
definition FREE_MEM_EXPAND_THRESHOLD :: int where "FREE_MEM_EXPAND_THRESHOLD = 20"
definition MEM_EVICT_HIT_THRESHOLD :: int where "MEM_EVICT_HIT_THRESHOLD = 1"
definition MEM_EXPAND_HIT_THRESHOLD :: int where "MEM_EXPAND_HIT_THRESHOLD = 20"

datatype daemon_msg_type =
    DONE | INFO | INFO_SINGLE | FREE_SIZE | EVICT | ACTIVITY | STOP | BIND | BIND_SINGLE | QUERY
  | OTHER_MSG

record daemon_msg =
  dm_buf :: "64 word arr"
  dm_rkey :: "32 word arr"
  dm_size_gb :: int
  dm_type :: daemon_msg_type

datatype server_state = S_WAIT | S_BIND | S_DONE
datatype cq_qp_state = CQ_QP_IDLE | CQ_QP_BUSY | CQ_QP_DOWN
datatype conn_state = CONN_IDLE | CONN_CONNECTED | CONN_MAPPED | CONN_FAILED

text \<open>The index of a connection is not initialised when the session is full.\<close>

record daemon_conn =
  dc_conn_index :: "int option"
  dc_sess_chunk_map :: "int arr"
  dc_mapped_chunk_size :: int
  dc_evict_sem :: nat
  dc_stop_sem :: nat
  dc_connected :: bool
  dc_recv_msg :: daemon_msg
  dc_send_msg :: daemon_msg
  dc_cq_qp_state :: cq_qp_state
  dc_server_state :: server_state
  dc_posted :: nat
  dc_sent :: "daemon_msg list"

text \<open>\<open>ds_region\<close> tells whether the region of a chunk is allocated, \<open>ds_mr\<close> whether it is registered.\<close>

record session =
  ds_heap :: "nat \<rightharpoonup> daemon_conn"
  ds_next :: nat
  ds_conns :: "nat option arr"
  ds_conns_state :: "conn_state arr"
  ds_conn_num :: int
  ds_region :: "bool arr"
  ds_mr :: "bool arr"
  ds_size_gb :: int
  ds_mapped_size :: int
  ds_conn_map :: "int arr"
  ds_malloc_map :: "bool arr"
  ds_conn_chunk_map :: "int arr"
  ds_running :: bool

definition conn_at :: "session \<Rightarrow> nat \<Rightarrow> daemon_conn res" where
  "conn_at s c = (case ds_heap s c of None \<Rightarrow> Inl UseAfterFree | Some k \<Rightarrow> Inr k)"

definition put_dconn :: "nat \<Rightarrow> daemon_conn \<Rightarrow> session \<Rightarrow> session" where
  "put_dconn c k s = s\<lparr>ds_heap := (ds_heap s)(c \<mapsto> k)\<rparr>"

definition upd_conn :: "nat \<Rightarrow> (daemon_conn \<Rightarrow> daemon_conn) \<Rightarrow> session \<Rightarrow> session res" where
  "upd_conn c f s = rbind (conn_at s c) (\<lambda>k. Inr (put_dconn c (f k) s))"

text \<open>The pointer \<^verbatim>\<open>session.conns[i]\<close>, dereferenced.\<close>

definition slot_conn :: "session \<Rightarrow> int \<Rightarrow> nat res" where
  "slot_conn s i = rbind (aget MAX_CLIENT (ds_conns s) i) (\<lambda>p.
     case p of None \<Rightarrow> Inl NullDeref | Some c \<Rightarrow> Inr c)"

section \<open>Free memory\<close>

text \<open>\<^verbatim>\<open>fgets\<close> reads at most \<open>n - 1\<close> characters, up to and including the end of the line.\<close>

definition fgets :: "nat \<Rightarrow> string \<Rightarrow> string \<times> string" where
  "fgets n s =
     (let line = takeWhile (\<lambda>c. c \<noteq> CHR 0x0A) s;
          k = (if length line < length s then length line + 1 else length line) in
      (take (min k (n - 1)) s, drop (min k (n - 1)) s))"

text \<open>The number in a line of the file, which fits a \<^verbatim>\<open>long\<close>.\<close>

definition digits_value :: "string \<Rightarrow> int" where
  "digits_value s =
     fold (\<lambda>c r. case digit_val c of None \<Rightarrow> r | Some d \<Rightarrow> r * 10 + int d) s 0"

definition daemon_free_mem :: "string option \<Rightarrow> int res" where
  "daemon_free_mem meminfo =
     (case meminfo of
        None \<Rightarrow> Inl NullDeref
      | Some inp \<Rightarrow> Inr (digits_value (fst (fgets 60 (snd (fgets 60 inp))))))"

section \<open>Sending and receiving\<close>

definition daemon_post_receives :: "nat \<Rightarrow> session \<Rightarrow> session res" where
  "daemon_post_receives c s = upd_conn c (\<lambda>k. k\<lparr>dc_posted := dc_posted k + 1\<rparr>) s"

definition daemon_send_message :: "nat \<Rightarrow> session \<Rightarrow> session res" where
  "daemon_send_message c s =
     rbind (conn_at s c) (\<lambda>k.
       if \<not> dc_connected k then Inl Diverges
       else Inr (put_dconn c (k\<lparr>dc_sent := dc_sent k @ [dc_send_msg k]\<rparr>) s))"

definition daemon_send_free_mem_size :: "nat \<Rightarrow> session \<Rightarrow> session res" where
  "daemon_send_free_mem_size c s =
     rbind (upd_conn c (\<lambda>k. k\<lparr>dc_send_msg := (dc_send_msg k)\<lparr>dm_type := FREE_SIZE,
              dm_size_gb := ds_size_gb s - ds_mapped_size s\<rparr>\<rparr>) s)
       (daemon_send_message c)"

definition clear_rkeys :: "nat \<Rightarrow> daemon_msg \<Rightarrow> daemon_msg" where
  "clear_rkeys n m = m\<lparr>dm_rkey := (\<lambda>i. if i < n then 0 else dm_rkey m i)\<rparr>"

text \<open>
  The loop of \<^verbatim>\<open>send_mr\<close> over the chunks \<open>is\<close>, with \<open>j\<close> chunks found: a chunk that is allocated
  and not mapped is mapped to the connection, registered, and its address and key are
  entered in the message. The loop ends when \<open>j\<close> is the size. \<^verbatim>\<open>send_single_mr\<close> ends it at the
  first such chunk.
\<close>

fun map_chunks ::
  "(nat \<Rightarrow> (64 word \<times> 32 word) option) \<Rightarrow> nat \<Rightarrow> int \<Rightarrow> nat list \<Rightarrow> int \<Rightarrow> session \<Rightarrow> session res" where
  "map_chunks reg c sz [] j s = Inr s"
| "map_chunks reg c sz (i # is) j s =
     (if ds_malloc_map s i \<and> ds_conn_map s i = -1 then
        rbind (conn_at s c) (\<lambda>k.
        rbind (init_var (dc_conn_index k)) (\<lambda>index.
          case reg i of
            None \<Rightarrow> Inl Die
          | Some (a, key) \<Rightarrow>
              (let m = dc_send_msg k;
                   k' = k\<lparr>dc_sess_chunk_map := (dc_sess_chunk_map k)(i := int i),
                     dc_send_msg := m\<lparr>dm_buf := (dm_buf m)(i := htonll a),
                                      dm_rkey := (dm_rkey m)(i := bswap32 key)\<rparr>\<rparr>;
                   s' = (put_dconn c k' s)\<lparr>ds_conn_map := (ds_conn_map s)(i := index),
                          ds_mr := (ds_mr s)(i := True)\<rparr>
               in if j + 1 = sz then Inr s' else map_chunks reg c sz is (j + 1) s')))
      else map_chunks reg c sz is j s)"

definition send_mr :: "(nat \<Rightarrow> (64 word \<times> 32 word) option) \<Rightarrow> nat \<Rightarrow> int \<Rightarrow> session \<Rightarrow> session res" where
  "send_mr reg c sz s =
     rbind (upd_conn c (\<lambda>k. k\<lparr>dc_send_msg := clear_rkeys MAX_FREE_MEM_GB ((dc_send_msg k)\<lparr>dm_size_gb := sz\<rparr>)\<rparr>) s) (\<lambda>s1.
     rbind (map_chunks reg c sz [0 ..< MAX_FREE_MEM_GB] 0 s1) (\<lambda>s2.
     rbind (upd_conn c (\<lambda>k. k\<lparr>dc_mapped_chunk_size := dc_mapped_chunk_size k + sz,
              dc_send_msg := (dc_send_msg k)\<lparr>dm_type := INFO\<rparr>\<rparr>)
              (s2\<lparr>ds_mapped_size := ds_mapped_size s2 + sz\<rparr>))
       (daemon_send_message c)))"

definition send_single_mr :: "(nat \<Rightarrow> (64 word \<times> 32 word) option) \<Rightarrow> nat \<Rightarrow> int \<Rightarrow> session \<Rightarrow> session res" where
  "send_single_mr reg c client_chunk_index s =
     rbind (upd_conn c (\<lambda>k. k\<lparr>dc_send_msg :=
              clear_rkeys MAX_FREE_MEM_GB ((dc_send_msg k)\<lparr>dm_size_gb := client_chunk_index\<rparr>)\<rparr>) s) (\<lambda>s1.
     rbind (map_chunks reg c 1 [0 ..< MAX_FREE_MEM_GB] 0 s1) (\<lambda>s2.
     rbind (upd_conn c (\<lambda>k. k\<lparr>dc_mapped_chunk_size := dc_mapped_chunk_size k + 1,
              dc_send_msg := (dc_send_msg k)\<lparr>dm_type := INFO_SINGLE\<rparr>\<rparr>)
              (s2\<lparr>ds_mapped_size := ds_mapped_size s2 + 1\<rparr>))
       (daemon_send_message c)))"

definition send_evict :: "nat \<Rightarrow> int \<Rightarrow> session \<Rightarrow> session res" where
  "send_evict c n s =
     rbind (upd_conn c (\<lambda>k. k\<lparr>dc_send_msg := clear_rkeys MAX_MR_SIZE_GB
              ((dc_send_msg k)\<lparr>dm_type := EVICT, dm_size_gb := n\<rparr>)\<rparr>) s)
       (daemon_send_message c)"

definition send_terminate :: "nat \<Rightarrow> session \<Rightarrow> session res" where
  "send_terminate c s =
     rbind (upd_conn c (\<lambda>k. k\<lparr>dc_send_msg := (dc_send_msg k)\<lparr>dm_type := DONE\<rparr>\<rparr>) s) (daemon_send_message c)"

text \<open>
  A chunk that the client has stopped to use. The index of the chunk is read from the map of
  the connection; an index that is not one of a chunk is used as it is.
\<close>

definition stop_chunk :: "nat \<Rightarrow> nat \<Rightarrow> session \<Rightarrow> session res" where
  "stop_chunk c i s =
     rbind (conn_at s c) (\<lambda>k.
       if dm_rkey (dc_recv_msg k) i = 0 then Inr s
       else
         (let index = dc_sess_chunk_map k i in
          if \<not> in_bounds MAX_FREE_MEM_GB index then Inl OutOfBounds
          else if \<not> ds_mr s (nat index) \<or> \<not> ds_region s (nat index) then Inl UseAfterFree
          else Inr ((put_dconn c (k\<lparr>dc_sess_chunk_map := (dc_sess_chunk_map k)(i := -1)\<rparr>) s)
                 \<lparr>ds_mr := (ds_mr s)(nat index := False), ds_region := (ds_region s)(nat index := False),
                  ds_conn_map := (ds_conn_map s)(nat index := -1),
                  ds_malloc_map := (ds_malloc_map s)(nat index := False),
                  ds_conn_chunk_map := (ds_conn_chunk_map s)(nat index := -1)\<rparr>)))"

definition set_conns_state :: "nat \<Rightarrow> conn_state \<Rightarrow> session \<Rightarrow> session res" where
  "set_conns_state c st s =
     rbind (conn_at s c) (\<lambda>k. rbind (init_var (dc_conn_index k)) (\<lambda>index.
     rbind (aset MAX_CLIENT (ds_conns_state s) index st) (\<lambda>a. Inr (s\<lparr>ds_conns_state := a\<rparr>))))"

definition recv_done :: "nat \<Rightarrow> session \<Rightarrow> session res" where
  "recv_done c s =
     rbind (conn_at s c) (\<lambda>k0.
       let evict_g = dm_size_gb (dc_recv_msg k0) in
       rbind (rfold (stop_chunk c) [0 ..< MAX_MR_SIZE_GB] s) (\<lambda>s1.
       rbind (upd_conn c (\<lambda>k. k\<lparr>dc_mapped_chunk_size := dc_mapped_chunk_size k - evict_g,
                dc_stop_sem := dc_stop_sem k + 1\<rparr>)
                (s1\<lparr>ds_size_gb := ds_size_gb s1 - evict_g, ds_mapped_size := ds_mapped_size s1 - evict_g\<rparr>)) (\<lambda>s2.
       rbind (conn_at s2 c) (\<lambda>k.
       rbind (if dc_mapped_chunk_size k = 0 then set_conns_state c CONN_CONNECTED s2 else Inr s2)
         (daemon_post_receives c)))))"

section \<open>Completions\<close>

definition set_cq_qp_state :: "nat \<Rightarrow> cq_qp_state \<Rightarrow> session \<Rightarrow> session res" where
  "set_cq_qp_state c st s = upd_conn c (\<lambda>k. k\<lparr>dc_cq_qp_state := st\<rparr>) s"

definition daemon_on_completion ::
  "(nat \<Rightarrow> (64 word \<times> 32 word) option) \<Rightarrow> bool \<Rightarrow> bool \<Rightarrow> nat \<Rightarrow> session \<Rightarrow> session res" where
  "daemon_on_completion reg ok recv c s =
     (if \<not> ok then Inl Die
      else if recv then
        rbind (conn_at s c) (\<lambda>k.
          case dm_type (dc_recv_msg k) of
            QUERY \<Rightarrow>
              rbind (set_cq_qp_state c CQ_QP_BUSY s) (\<lambda>s1.
              rbind (daemon_send_free_mem_size c s1) (daemon_post_receives c))
          | BIND \<Rightarrow>
              rbind (set_cq_qp_state c CQ_QP_BUSY s) (\<lambda>s1.
              rbind (upd_conn c (\<lambda>k. k\<lparr>dc_server_state := S_BIND\<rparr>) s1) (\<lambda>s2.
              rbind (send_mr reg c (dm_size_gb (dc_recv_msg k)) s2) (\<lambda>s3.
              rbind (set_conns_state c CONN_MAPPED s3) (daemon_post_receives c))))
          | BIND_SINGLE \<Rightarrow>
              rbind (set_cq_qp_state c CQ_QP_BUSY s) (\<lambda>s1.
              rbind (upd_conn c (\<lambda>k. k\<lparr>dc_server_state := S_BIND\<rparr>) s1) (\<lambda>s2.
              rbind (send_single_mr reg c (dm_size_gb (dc_recv_msg k)) s2) (\<lambda>s3.
              rbind (set_conns_state c CONN_MAPPED s3) (daemon_post_receives c))))
          | ACTIVITY \<Rightarrow> upd_conn c (\<lambda>k. k\<lparr>dc_evict_sem := dc_evict_sem k + 1\<rparr>) s
          | DONE \<Rightarrow> rbind (set_cq_qp_state c CQ_QP_BUSY s) (recv_done c)
          | _ \<Rightarrow> Inl Die)
      else set_cq_qp_state c CQ_QP_IDLE s)"

section \<open>Connections\<close>

definition new_dconn :: "daemon_msg \<Rightarrow> int option \<Rightarrow> daemon_conn" where
  "new_dconn garbage index =
     \<lparr>dc_conn_index = index, dc_sess_chunk_map = (\<lambda>_. -1), dc_mapped_chunk_size = 0,
      dc_evict_sem = 0, dc_stop_sem = 0, dc_connected = False, dc_recv_msg = garbage,
      dc_send_msg = garbage, dc_cq_qp_state = CQ_QP_BUSY, dc_server_state = S_WAIT, dc_posted = 0,
      dc_sent = []\<rparr>"

definition daemon_build_connection :: "bool \<Rightarrow> daemon_msg \<Rightarrow> session \<Rightarrow> (nat \<times> session) res" where
  "daemon_build_connection rdma_ok garbage s =
     (if \<not> rdma_ok then Inl Die
      else
        (let c = ds_next s; free = find (\<lambda>i. ds_conns_state s i = CONN_IDLE) [0 ..< MAX_CLIENT];
             s1 = s\<lparr>ds_next := c + 1, ds_conn_num := ds_conn_num s + 1,
               ds_heap := (ds_heap s)(c \<mapsto> new_dconn garbage (map_option int free))\<rparr>;
             s2 = (case free of
                     None \<Rightarrow> s1
                   | Some i \<Rightarrow> s1\<lparr>ds_conns := (ds_conns s)(i := Some c),
                       ds_conns_state := (ds_conns_state s)(i := CONN_CONNECTED)\<rparr>)
         in rbind (daemon_post_receives c s2) (\<lambda>s3. Inr (c, s3))))"

definition unmap_chunk :: "daemon_conn \<Rightarrow> nat \<Rightarrow> session \<Rightarrow> session res" where
  "unmap_chunk k i s =
     (let index = dc_sess_chunk_map k i in
      if index = -1 then Inr s
      else rbind (aset MAX_FREE_MEM_GB (ds_conn_map s) index (-1)) (\<lambda>a.
           rbind (aset MAX_FREE_MEM_GB (ds_conn_chunk_map s) index (-1)) (\<lambda>b.
             Inr (s\<lparr>ds_conn_map := a, ds_conn_chunk_map := b\<rparr>))))"

definition daemon_destroy_connection :: "nat \<Rightarrow> session \<Rightarrow> session res" where
  "daemon_destroy_connection c s =
     rbind (conn_at s c) (\<lambda>k.
     rbind (if dc_mapped_chunk_size k > 0 then
              rbind (rfold (unmap_chunk k) [0 ..< MAX_MR_SIZE_GB] s) (\<lambda>s1.
                Inr (s1\<lparr>ds_mapped_size := ds_mapped_size s1 - dc_mapped_chunk_size k\<rparr>))
            else Inr s) (\<lambda>s1.
     rbind (init_var (dc_conn_index k)) (\<lambda>index.
     rbind (aset MAX_CLIENT (ds_conns s1) index None) (\<lambda>cs.
     rbind (aset MAX_CLIENT (ds_conns_state s1) index CONN_IDLE) (\<lambda>sts.
       Inr (s1\<lparr>ds_conns := cs, ds_conns_state := sts, ds_conn_num := ds_conn_num s1 - 1,
         ds_running := (ds_running s1 \<and> ds_conn_num s1 - 1 \<noteq> 0),
         ds_heap := (ds_heap s1)(c := None)\<rparr>))))))"

definition on_connect :: "nat \<Rightarrow> session \<Rightarrow> session res" where
  "on_connect c s = upd_conn c (\<lambda>k. k\<lparr>dc_connected := True\<rparr>) s"

datatype daemon_event =
    CONNECT_REQUEST | ESTABLISHED nat | DISCONNECTED nat | UNKNOWN_EVENT

definition on_event :: "bool \<Rightarrow> daemon_msg \<Rightarrow> daemon_event \<Rightarrow> session \<Rightarrow> session res" where
  "on_event rdma_ok garbage ev s =
     (case ev of
        CONNECT_REQUEST \<Rightarrow> rbind (daemon_build_connection rdma_ok garbage s) (\<lambda>(c, s1). Inr s1)
      | ESTABLISHED c \<Rightarrow> rbind (on_connect c s) (daemon_send_free_mem_size c)
      | DISCONNECTED c \<Rightarrow> daemon_destroy_connection c s
      | UNKNOWN_EVENT \<Rightarrow> Inl Die)"

section \<open>Start\<close>

text \<open>The chunks to allocate, from the free memory in gigabytes.\<close>

definition initial_size :: "int \<Rightarrow> int" where
  "initial_size free_mem_g =
     (let n = (if free_mem_g > FREE_MEM_EXPAND_THRESHOLD
               then free_mem_g - (FREE_MEM_EVICT_THRESHOLD + FREE_MEM_EXPAND_THRESHOLD) div 2
               else if free_mem_g > FREE_MEM_EVICT_THRESHOLD then free_mem_g - FREE_MEM_EVICT_THRESHOLD
               else 0)
      in if n > int MAX_FREE_MEM_GB then int MAX_FREE_MEM_GB else n)"

text \<open>\<^verbatim>\<open>(int)(get_free_mem() / ONE_MB)\<close>; the number that is read is not negative.\<close>

definition free_gb :: "string option \<Rightarrow> int res" where
  "free_gb meminfo = rbind (daemon_free_mem meminfo) (\<lambda>n. Inr (to_int32 (n div ONE_MB)))"

definition rdma_session_init :: "string option \<Rightarrow> session res" where
  "rdma_session_init meminfo =
     rbind (free_gb meminfo) (\<lambda>g.
       let n = initial_size g in
       Inr \<lparr>ds_heap = Map.empty, ds_next = 0, ds_conns = (\<lambda>_. None), ds_conns_state = (\<lambda>_. CONN_IDLE),
         ds_conn_num = 0, ds_region = (\<lambda>i. int i < n), ds_mr = (\<lambda>_. False), ds_size_gb = n,
         ds_mapped_size = 0, ds_conn_map = (\<lambda>_. -1), ds_malloc_map = (\<lambda>i. int i < n),
         ds_conn_chunk_map = (\<lambda>_. -1), ds_running = True\<rparr>)"

end
