(* ===== verification/Daemon_Evict.thy ===== *)
theory Daemon_Evict
  imports Daemon
begin

text \<open>
  Eviction and expansion (\<^verbatim>\<open>evict_mem\<close>, \<^verbatim>\<open>send_stop\<close> and \<^verbatim>\<open>free_mem\<close> of \<^verbatim>\<open>rdma-common.c\<close>). The thread that
  evicts waits on semaphores for the answers of the clients, which another thread receives:
  \<open>act i\<close> is the message with the activity of its chunks that the client of slot \<open>i\<close> answers to
  an eviction, \<open>dn i\<close> the one it answers when it has stopped. \<open>rnd\<close> is the sequence of random
  numbers.
\<close>

section \<open>Chunks that are not mapped\<close>

fun free_unmapped :: "int \<Rightarrow> nat list \<Rightarrow> int \<Rightarrow> session \<Rightarrow> (bool \<times> int \<times> session) res" where
  "free_unmapped evict_g [] freed_g s = Inr (False, freed_g, s)"
| "free_unmapped evict_g (i # is) freed_g s =
     (if ds_malloc_map s i \<and> ds_conn_map s i = -1 then
        (if \<not> ds_region s i then Inl UseAfterFree
         else
           (let s' = s\<lparr>ds_region := (ds_region s)(i := False), ds_malloc_map := (ds_malloc_map s)(i := False)\<rparr>
            in if freed_g + 1 = evict_g
               then Inr (True, freed_g + 1, s'\<lparr>ds_size_gb := ds_size_gb s - evict_g\<rparr>)
               else free_unmapped evict_g is (freed_g + 1) s'))
      else free_unmapped evict_g is freed_g s)"

section \<open>Choosing the clients\<close>

text \<open>
  The search for a chunk that is mapped and not yet selected goes round the array: after 32
  steps it is back where it started.
\<close>

fun pick_chunk :: "nat \<Rightarrow> nat \<Rightarrow> int arr \<Rightarrow> nat res" where
  "pick_chunk 0 r sel = Inl Diverges"
| "pick_chunk (Suc n) r sel =
     (if sel r \<noteq> 0 then pick_chunk n ((r + 1) mod MAX_FREE_MEM_GB) sel else Inr r)"

definition select_chunk :: "(nat \<Rightarrow> nat) \<Rightarrow> session \<Rightarrow> nat \<Rightarrow> int arr \<times> int arr \<Rightarrow> (int arr \<times> int arr) res" where
  "select_chunk rnd s j st =
     (let (sel, send_list) = st in
      rbind (pick_chunk MAX_FREE_MEM_GB (rnd j mod MAX_FREE_MEM_GB) sel) (\<lambda>r.
      rbind (aset MAX_CLIENT send_list (ds_conn_map s r) 1) (\<lambda>send_list'.
        Inr (sel(r := 1), send_list'))))"

definition mapped_clients :: "session \<Rightarrow> nat \<Rightarrow> int arr \<Rightarrow> int arr res" where
  "mapped_clients s i send_list =
     (if ds_conns_state s i = CONN_MAPPED
      then rbind (slot_conn s (int i)) (\<lambda>c. rbind (conn_at s c) (\<lambda>_. Inr (send_list(i := 1))))
      else Inr send_list)"

definition choose_clients :: "(nat \<Rightarrow> nat) \<Rightarrow> int \<Rightarrow> session \<Rightarrow> (int \<times> int arr) res" where
  "choose_clients rnd evict_g s =
     (if ds_mapped_size s < evict_g + EXTRA_CHUNK_NUM then
        rbind (rfold (mapped_clients s) [0 ..< MAX_CLIENT] (\<lambda>_. -1)) (\<lambda>send_list.
          Inr (if ds_mapped_size s < evict_g then ds_mapped_size s else evict_g, send_list))
      else
        rbind (rfold (select_chunk rnd s) [0 ..< nat (evict_g + EXTRA_CHUNK_NUM)]
                 ((\<lambda>i. if ds_conn_map s i = -1 then -1 else 0), (\<lambda>_. -1))) (\<lambda>(sel, send_list).
          Inr (evict_g, send_list)))"

section \<open>Activities\<close>

type_synonym chunk_activity = "64 word \<times> nat"

definition total_selected :: "session \<Rightarrow> int arr \<Rightarrow> nat \<Rightarrow> int \<Rightarrow> int res" where
  "total_selected s send_list i k =
     (if send_list i = 1
      then rbind (slot_conn s (int i)) (\<lambda>c. rbind (conn_at s c) (\<lambda>x. Inr (k + dc_mapped_chunk_size x)))
      else Inr k)"

definition evict_client :: "int arr \<Rightarrow> int \<Rightarrow> nat \<Rightarrow> session \<Rightarrow> session res" where
  "evict_client send_list j i s =
     (if send_list i = 1 then rbind (slot_conn s (int i)) (\<lambda>c. send_evict c j s) else Inr s)"

definition activities :: "daemon_msg \<Rightarrow> chunk_activity list" where
  "activities m = [(ntohll (dm_buf m i), i). i \<leftarrow> [0 ..< MAX_MR_SIZE_GB], dm_buf m i \<noteq> 0]"

text \<open>The answer of a client; \<open>k\<close> is the number of elements that \<^verbatim>\<open>evict_list\<close> was allocated with.\<close>

definition collect ::
  "(nat \<Rightarrow> daemon_msg) \<Rightarrow> int arr \<Rightarrow> int \<Rightarrow> nat \<Rightarrow> chunk_activity list \<times> session \<Rightarrow>
   (chunk_activity list \<times> session) res" where
  "collect act send_list k i st =
     (let (xs, s) = st in
      if send_list i = 1 then
        rbind (slot_conn s (int i)) (\<lambda>c.
        rbind (upd_conn c (\<lambda>x. x\<lparr>dc_recv_msg := act i,
                 dc_send_msg := clear_rkeys MAX_MR_SIZE_GB ((dc_send_msg x)\<lparr>dm_size_gb := 0\<rparr>)\<rparr>) s) (\<lambda>s1.
        rbind (if int (length (xs @ activities (act i))) \<le> k then Inr (xs @ activities (act i))
               else Inl OutOfBounds) (\<lambda>xs'.
        rbind (daemon_post_receives c s1) (\<lambda>s2. Inr (xs', s2)))))
      else Inr (xs, s))"

section \<open>The least active chunks\<close>

text \<open>
  An exchange of elements \<open>n\<close> and \<open>m\<close> of the list when they are in the wrong order, and the
  inner loop of the sort.
\<close>

definition exchange :: "nat \<Rightarrow> nat \<Rightarrow> chunk_activity list \<Rightarrow> chunk_activity list" where
  "exchange n m xs = (if fst (xs ! n) > fst (xs ! m) then xs[n := xs ! m, m := xs ! n] else xs)"

definition select_min :: "nat \<Rightarrow> chunk_activity list \<Rightarrow> chunk_activity list" where
  "select_min n xs = fold (exchange n) [n + 1 ..< length xs] xs"

text \<open>The list has been filled up to its length \<open>k\<close>, and element \<open>n\<close> is inside it.\<close>

definition evict_chunk ::
  "int \<Rightarrow> nat \<Rightarrow> chunk_activity list \<times> int arr \<times> int option \<times> session \<Rightarrow>
   (chunk_activity list \<times> int arr \<times> int option \<times> session) res" where
  "evict_chunk k n st =
     (let (xs, send_list, lasti, s) = st in
      if int (length xs) < k then Inl Uninit
      else if length xs \<le> n then Inl OutOfBounds
      else
        (let xs' = select_min n xs; chunk = snd (xs' ! n) in
         rbind (aget MAX_FREE_MEM_GB (ds_conn_map s) (int chunk)) (\<lambda>index.
         rbind (aget MAX_CLIENT send_list index) (\<lambda>sl.
         rbind (slot_conn s index) (\<lambda>c.
         rbind (upd_conn c (\<lambda>x. x\<lparr>dc_send_msg := (dc_send_msg x)
                  \<lparr>dm_rkey := (dm_rkey (dc_send_msg x))(chunk := 1),
                   dm_size_gb := dm_size_gb (dc_send_msg x) + 1\<rparr>\<rparr>) s) (\<lambda>s1.
           Inr (xs', if sl = 1 then send_list(nat index := 2) else send_list, Some index, s1)))))))"

section \<open>Stopping\<close>

text \<open>\<^verbatim>\<open>send_stop\<close> waits until the answer of the client has been handled, unless \<open>n\<close> is 0.\<close>

definition send_stop :: "daemon_msg \<Rightarrow> nat \<Rightarrow> int \<Rightarrow> session \<Rightarrow> session res" where
  "send_stop answer c n s =
     rbind (upd_conn c (\<lambda>x. x\<lparr>dc_send_msg := (dc_send_msg x)\<lparr>dm_type := STOP, dm_size_gb := n\<rparr>\<rparr>) s) (\<lambda>s1.
     rbind (daemon_send_message c s1) (\<lambda>s2.
       if n = 0 then Inr s2
       else
         rbind (upd_conn c (\<lambda>x. x\<lparr>dc_recv_msg := answer\<rparr>) s2) (\<lambda>s3.
         rbind (set_cq_qp_state c CQ_QP_BUSY s3) (\<lambda>s4.
         rbind (recv_done c s4)
           (upd_conn c (\<lambda>x. x\<lparr>dc_stop_sem := dc_stop_sem x - 1\<rparr>))))))"

text \<open>
  The size that is sent to every client that has to stop is the one in the message of the
  last connection that a chunk was chosen for.
\<close>

definition stop_client ::
  "(nat \<Rightarrow> daemon_msg) \<Rightarrow> int arr \<Rightarrow> int option \<Rightarrow> nat \<Rightarrow> session \<Rightarrow> session res" where
  "stop_client dn send_list lasti i s =
     (if send_list i = 2 then
        rbind (slot_conn s (int i)) (\<lambda>c.
        rbind (init_var lasti) (\<lambda>index.
        rbind (slot_conn s index) (\<lambda>d.
        rbind (conn_at s d) (\<lambda>x.
          send_stop (dn i) c (dm_size_gb (dc_send_msg x)) s))))
      else if send_list i = 1 then rbind (slot_conn s (int i)) (\<lambda>c. send_stop (dn i) c 0 s)
      else Inr s)"

definition evict_mapped ::
  "(nat \<Rightarrow> nat) \<Rightarrow> (nat \<Rightarrow> daemon_msg) \<Rightarrow> (nat \<Rightarrow> daemon_msg) \<Rightarrow> int \<Rightarrow> session \<Rightarrow> session res" where
  "evict_mapped rnd act dn evict_g s =
     rbind (choose_clients rnd evict_g s) (\<lambda>(j, send_list).
     rbind (rfold (total_selected s send_list) [0 ..< MAX_CLIENT] 0) (\<lambda>k.
     rbind (rfold (evict_client send_list j) [0 ..< MAX_CLIENT] s) (\<lambda>s1.
     rbind (rfold (collect act send_list k) [0 ..< MAX_CLIENT] ([], s1)) (\<lambda>(xs, s2).
     rbind (rfold (evict_chunk k) [0 ..< nat j] (xs, send_list, None, s2)) (\<lambda>(xs', send_list', lasti, s3).
       rfold (stop_client dn send_list' lasti) [0 ..< MAX_CLIENT] s3)))))"

definition evict_mem ::
  "(nat \<Rightarrow> nat) \<Rightarrow> (nat \<Rightarrow> daemon_msg) \<Rightarrow> (nat \<Rightarrow> daemon_msg) \<Rightarrow> int \<Rightarrow> session \<Rightarrow> session res" where
  "evict_mem rnd act dn stop_g s =
     rbind (free_unmapped stop_g [0 ..< MAX_FREE_MEM_GB] 0 s) (\<lambda>(finished, freed_g, s1).
       if finished then Inr s1
       else evict_mapped rnd act dn (stop_g - freed_g)
              (s1\<lparr>ds_size_gb := ds_size_gb s1 - freed_g\<rparr>))"

section \<open>The thread that watches the free memory\<close>

fun alloc_chunks :: "int \<Rightarrow> nat list \<Rightarrow> int \<Rightarrow> session \<Rightarrow> session" where
  "alloc_chunks expand_size_g [] j s = s"
| "alloc_chunks expand_size_g (i # is) j s =
     (if \<not> ds_malloc_map s i then
        (let s' = s\<lparr>ds_region := (ds_region s)(i := True), ds_malloc_map := (ds_malloc_map s)(i := True)\<rparr>
         in if j + 1 = expand_size_g then s' else alloc_chunks expand_size_g is (j + 1) s')
      else alloc_chunks expand_size_g is j s)"

text \<open>The constant 0.7 as a \<^verbatim>\<open>double\<close>, and the weight of the last value as a \<^verbatim>\<open>float\<close>.\<close>

definition CURR_FREE_MEM_WEIGHT :: c_float where
  "CURR_FREE_MEM_WEIGHT = (6305039478318694, - 53)"

definition last_free_mem_weight :: c_float where
  "last_free_mem_weight =
     (let d = db_add (1, 0) (fl_neg CURR_FREE_MEM_WEIGHT) in fl_round (fst d) (snd d))"

definition filtered_free_mem :: "int \<Rightarrow> int \<Rightarrow> int" where
  "filtered_free_mem free_mem_g last_free_mem_g =
     fl_to_int (db_add (db_mul CURR_FREE_MEM_WEIGHT (free_mem_g, 0))
       (fl_mul (fl_of_int last_free_mem_g) last_free_mem_weight))"

record free_mem_vars =
  fm_last_free_mem_g :: int
  fm_evict_hit_count :: int
  fm_expand_hit_count :: int

text \<open>One round of the loop of \<^verbatim>\<open>free_mem\<close>.\<close>

definition free_mem_evict ::
  "(nat \<Rightarrow> nat) \<Rightarrow> (nat \<Rightarrow> daemon_msg) \<Rightarrow> (nat \<Rightarrow> daemon_msg) \<Rightarrow> free_mem_vars \<Rightarrow> session \<Rightarrow>
   (free_mem_vars \<times> session) res" where
  "free_mem_evict rnd act dn v s =
     (let n = FREE_MEM_EVICT_THRESHOLD - fm_last_free_mem_g v;
          stop_size_g = (if ds_size_gb s < n then ds_size_gb s else n);
          v' = v\<lparr>fm_evict_hit_count := 0, fm_last_free_mem_g := fm_last_free_mem_g v + stop_size_g\<rparr>
      in rbind (if stop_size_g > 0 then evict_mem rnd act dn stop_size_g s else Inr s) (\<lambda>s1. Inr (v', s1)))"

definition free_mem_expand :: "free_mem_vars \<Rightarrow> session \<Rightarrow> free_mem_vars \<times> session" where
  "free_mem_expand v s =
     (let n = fm_last_free_mem_g v - FREE_MEM_EXPAND_THRESHOLD;
          expand_size_g = (if n + ds_size_gb s > int MAX_FREE_MEM_GB
                           then int MAX_FREE_MEM_GB - ds_size_gb s else n);
          s1 = alloc_chunks expand_size_g [0 ..< MAX_FREE_MEM_GB] 0 s
      in (v\<lparr>fm_expand_hit_count := 0, fm_last_free_mem_g := fm_last_free_mem_g v - expand_size_g\<rparr>,
          s1\<lparr>ds_size_gb := ds_size_gb s1 + expand_size_g\<rparr>))"

definition free_mem_round ::
  "(nat \<Rightarrow> nat) \<Rightarrow> (nat \<Rightarrow> daemon_msg) \<Rightarrow> (nat \<Rightarrow> daemon_msg) \<Rightarrow> string option \<Rightarrow> free_mem_vars \<Rightarrow>
   session \<Rightarrow> (free_mem_vars \<times> session) res" where
  "free_mem_round rnd act dn meminfo v s =
     rbind (free_gb meminfo) (\<lambda>g.
       let f = filtered_free_mem g (fm_last_free_mem_g v); v1 = v\<lparr>fm_last_free_mem_g := f\<rparr> in
       if f < FREE_MEM_EVICT_THRESHOLD then
         (let v2 = v1\<lparr>fm_evict_hit_count := fm_evict_hit_count v + 1, fm_expand_hit_count := 0\<rparr> in
          if fm_evict_hit_count v2 \<ge> MEM_EVICT_HIT_THRESHOLD then free_mem_evict rnd act dn v2 s
          else Inr (v2, s))
       else if f > FREE_MEM_EXPAND_THRESHOLD then
         (let v2 = v1\<lparr>fm_expand_hit_count := fm_expand_hit_count v + 1, fm_evict_hit_count := 0\<rparr> in
          if fm_expand_hit_count v2 \<ge> MEM_EXPAND_HIT_THRESHOLD then Inr (free_mem_expand v2 s)
          else Inr (v2, s))
       else Inr (v1, s))"

end
