(* ===== verification/Daemon_Inv.thy ===== *)
theory Daemon_Inv
  imports Daemon_Evict
begin

text \<open>
  The invariant of the memory server: the chunks, the connections that use them and the
  sizes that the server reports agree. Each operation keeps it for clients that keep the
  protocol.
\<close>

section \<open>Invariant\<close>

definition inv_chunks :: "session \<Rightarrow> bool" where
  "inv_chunks s \<longleftrightarrow> (\<forall>i. (ds_malloc_map s i \<longleftrightarrow> ds_region s i) \<and> (ds_malloc_map s i \<longrightarrow> i < MAX_FREE_MEM_GB) \<and>
     (ds_conn_map s i \<noteq> -1 \<longrightarrow> ds_malloc_map s i \<and> ds_mr s i \<and>
        (\<exists>c k. ds_heap s c = Some k \<and> dc_conn_index k = Some (ds_conn_map s i))))"

definition conn_inv :: "session \<Rightarrow> nat \<Rightarrow> daemon_conn \<Rightarrow> nat \<Rightarrow> bool" where
  "conn_inv s c k x \<longleftrightarrow> x < MAX_CLIENT \<and> dc_conn_index k = Some (int x) \<and> ds_conns s x = Some c \<and>
     dc_mapped_chunk_size k = int (card {i. ds_conn_map s i = int x}) \<and>
     dc_sess_chunk_map k = (\<lambda>i. if ds_conn_map s i = int x then int i else -1)"

definition inv_dconns :: "session \<Rightarrow> bool" where
  "inv_dconns s \<longleftrightarrow> (\<forall>c k. ds_heap s c = Some k \<longrightarrow> c < ds_next s \<and> (\<exists>x. conn_inv s c k x))"

definition inv_slots :: "session \<Rightarrow> bool" where
  "inv_slots s \<longleftrightarrow> (\<forall>x. (ds_conns s x = None \<longleftrightarrow> ds_conns_state s x = CONN_IDLE) \<and>
     (\<forall>c. ds_conns s x = Some c \<longrightarrow> x < MAX_CLIENT \<and>
        (\<exists>k. ds_heap s c = Some k \<and> dc_conn_index k = Some (int x))))"

definition inv_sizes :: "session \<Rightarrow> bool" where
  "inv_sizes s \<longleftrightarrow> ds_size_gb s = int (card {i. ds_malloc_map s i}) \<and>
     ds_mapped_size s = int (card {i. ds_conn_map s i \<noteq> -1}) \<and>
     ds_conn_num s = int (card {x. ds_conns s x \<noteq> None})"

definition daemon_inv :: "session \<Rightarrow> bool" where
  "daemon_inv s \<longleftrightarrow> inv_chunks s \<and> inv_dconns s \<and> inv_slots s \<and> inv_sizes s"

lemmas daemon_inv_defs = daemon_inv_def inv_chunks_def inv_dconns_def inv_slots_def inv_sizes_def

lemma daemon_invI: "inv_chunks s \<Longrightarrow> inv_dconns s \<Longrightarrow> inv_slots s \<Longrightarrow> inv_sizes s \<Longrightarrow> daemon_inv s"
  by (simp add: daemon_inv_def)

lemma dinv_conn:
  assumes "daemon_inv s" "ds_heap s c = Some k"
  obtains x where "conn_inv s c k x"
  using assms unfolding daemon_inv_def inv_dconns_def by blast

lemma finite_malloc: "inv_chunks s \<Longrightarrow> finite {i. ds_malloc_map s i}"
  by (rule finite_subset [of _ "{..< MAX_FREE_MEM_GB}"]) (auto simp: inv_chunks_def)

lemma finite_mapped: "inv_chunks s \<Longrightarrow> finite {i. ds_conn_map s i \<noteq> -1}"
  by (rule finite_subset [OF _ finite_malloc]) (auto simp: inv_chunks_def)

lemma finite_owned: "inv_chunks s \<Longrightarrow> finite {i. ds_conn_map s i = int x}"
  by (rule finite_subset [OF _ finite_mapped]) auto

lemma finite_slots: "inv_slots s \<Longrightarrow> finite {x. ds_conns s x \<noteq> None}"
  by (rule finite_subset [of _ "{..< MAX_CLIENT}"]) (auto simp: inv_slots_def)

text \<open>Two connections never have the same index.\<close>

lemma conn_index_unique:
  assumes inv: "daemon_inv s" and c: "ds_heap s c = Some k" and d: "ds_heap s d = Some k'"
    and eq: "dc_conn_index k = dc_conn_index k'"
  shows "c = d"
proof -
  obtain x where "conn_inv s c k x" using inv c by (rule dinv_conn)
  moreover obtain y where "conn_inv s d k' y" using inv d by (rule dinv_conn)
  ultimately show ?thesis using eq by (simp add: conn_inv_def)
qed

section \<open>Updates of a connection that leave its chunks alone\<close>

definition same_chunks :: "daemon_conn \<Rightarrow> daemon_conn \<Rightarrow> bool" where
  "same_chunks k k' \<longleftrightarrow> dc_conn_index k' = dc_conn_index k \<and>
     dc_sess_chunk_map k' = dc_sess_chunk_map k \<and> dc_mapped_chunk_size k' = dc_mapped_chunk_size k"

lemma put_dconn_sel [simp]:
  "ds_heap (put_dconn c k s) = (ds_heap s)(c \<mapsto> k)" "ds_next (put_dconn c k s) = ds_next s"
  "ds_conns (put_dconn c k s) = ds_conns s" "ds_conns_state (put_dconn c k s) = ds_conns_state s"
  "ds_conn_num (put_dconn c k s) = ds_conn_num s" "ds_region (put_dconn c k s) = ds_region s"
  "ds_mr (put_dconn c k s) = ds_mr s" "ds_size_gb (put_dconn c k s) = ds_size_gb s"
  "ds_mapped_size (put_dconn c k s) = ds_mapped_size s" "ds_conn_map (put_dconn c k s) = ds_conn_map s"
  "ds_malloc_map (put_dconn c k s) = ds_malloc_map s"
  "ds_conn_chunk_map (put_dconn c k s) = ds_conn_chunk_map s" "ds_running (put_dconn c k s) = ds_running s"
  by (simp_all add: put_dconn_def)

lemma if_fun_upd: "(\<lambda>j. if j = i then g j else f j) = f(i := g i)"
  by auto

lemma conn_inv_put [simp]: "conn_inv (put_dconn c k' s) d m x = conn_inv s d m x"
  by (simp add: conn_inv_def put_dconn_def)

lemma conn_inv_same: "same_chunks k k' \<Longrightarrow> conn_inv s c k' x = conn_inv s c k x"
  by (simp add: conn_inv_def same_chunks_def)

lemma put_dconn_inv:
  assumes inv: "daemon_inv s" and k: "ds_heap s c = Some k" "same_chunks k k'"
  shows "daemon_inv (put_dconn c k' s)"
proof (rule daemon_invI)
  have i: "inv_chunks s" "inv_dconns s" "inv_slots s" "inv_sizes s" using inv by (simp_all add: daemon_inv_def)
  have heap: "\<exists>e. ds_heap (put_dconn c k' s) d = Some e \<and> dc_conn_index e = dc_conn_index m"
    if "ds_heap s d = Some m" for d m
    using that k by (auto simp: put_dconn_def same_chunks_def)
  show "inv_chunks (put_dconn c k' s)"
    unfolding inv_chunks_def
  proof (intro allI conjI impI)
    fix j assume "ds_conn_map (put_dconn c k' s) j \<noteq> -1"
    with i(1) obtain d m where "ds_heap s d = Some m" "dc_conn_index m = Some (ds_conn_map s j)"
      unfolding inv_chunks_def put_dconn_def by auto
    moreover have "ds_conn_map (put_dconn c k' s) = ds_conn_map s" by (simp add: put_dconn_def)
    ultimately show "\<exists>d m. ds_heap (put_dconn c k' s) d = Some m \<and>
        dc_conn_index m = Some (ds_conn_map (put_dconn c k' s) j)"
      using heap by metis
  qed (use i(1) in \<open>auto simp: inv_chunks_def put_dconn_def\<close>)
  show "inv_dconns (put_dconn c k' s)"
    unfolding inv_dconns_def
  proof (intro allI impI)
    fix d m assume d: "ds_heap (put_dconn c k' s) d = Some m"
    show "d < ds_next (put_dconn c k' s) \<and> (\<exists>x. conn_inv (put_dconn c k' s) d m x)"
    proof (cases "d = c")
      case True
      with d have "m = k'" by (simp add: put_dconn_def)
      with i(2) k True conn_inv_same [OF k(2)] show ?thesis by (auto simp: inv_dconns_def)
    next
      case False
      with d have "ds_heap s d = Some m" by (simp add: put_dconn_def)
      with i(2) show ?thesis by (auto simp: inv_dconns_def)
    qed
  qed
  show "inv_slots (put_dconn c k' s)"
    using i(3) k unfolding inv_slots_def by (fastforce simp: same_chunks_def)
  show "inv_sizes (put_dconn c k' s)" using i(4) by (simp add: inv_sizes_def put_dconn_def)
qed

lemma put_put [simp]: "put_dconn c k' (put_dconn c k s) = put_dconn c k' s"
  by (simp add: put_dconn_def)

lemma conn_at_Some: "ds_heap s c = Some k \<Longrightarrow> conn_at s c = Inr k"
  by (simp add: conn_at_def)

section \<open>Mapping chunks\<close>

definition free_chunk :: "session \<Rightarrow> nat \<Rightarrow> bool" where
  "free_chunk s i \<longleftrightarrow> ds_malloc_map s i \<and> ds_conn_map s i = -1"

definition map_conn :: "(nat \<Rightarrow> (64 word \<times> 32 word) option) \<Rightarrow> nat list \<Rightarrow> daemon_conn \<Rightarrow> daemon_conn" where
  "map_conn reg chs k =
     (let m = dc_send_msg k in
      k\<lparr>dc_sess_chunk_map := (\<lambda>i. if i \<in> set chs then int i else dc_sess_chunk_map k i),
        dc_send_msg := m\<lparr>dm_buf := (\<lambda>i. if i \<in> set chs then htonll (fst (the (reg i))) else dm_buf m i),
          dm_rkey := (\<lambda>i. if i \<in> set chs then bswap32 (snd (the (reg i))) else dm_rkey m i)\<rparr>\<rparr>)"

definition map_to ::
  "(nat \<Rightarrow> (64 word \<times> 32 word) option) \<Rightarrow> nat \<Rightarrow> daemon_conn \<Rightarrow> int \<Rightarrow> nat list \<Rightarrow> session \<Rightarrow> session" where
  "map_to reg c k x chs s = (put_dconn c (map_conn reg chs k) s)
     \<lparr>ds_conn_map := (\<lambda>i. if i \<in> set chs then x else ds_conn_map s i),
      ds_mr := (\<lambda>i. if i \<in> set chs then True else ds_mr s i)\<rparr>"

lemma map_conn_Nil [simp]: "map_conn reg [] k = k"
  by (simp add: map_conn_def)

lemma map_to_Nil: "ds_heap s c = Some k \<Longrightarrow> map_to reg c k x [] s = s"
  by (simp add: map_to_def put_dconn_def fun_upd_idem)

lemma map_to_Cons:
  "map_to reg c (map_conn reg [i] k) x chs (map_to reg c k x [i] s) = map_to reg c k x (i # chs) s"
  by (simp add: map_to_def map_conn_def put_dconn_def fun_eq_iff Let_def)

lemma map_chunks_result:
  assumes "ds_heap s c = Some k" "dc_conn_index k = Some x" "x \<noteq> -1" "\<forall>i. reg i \<noteq> None" "distinct is" "j < sz"
  shows "map_chunks reg c sz is j s =
    Inr (map_to reg c k x (take (nat (sz - j)) (filter (free_chunk s) is)) s)"
  using assms
proof (induction "is" arbitrary: s k j)
  case Nil
  then show ?case by (simp add: map_to_Nil)
next
  case (Cons i "is")
  show ?case
  proof (cases "free_chunk s i")
    case True
    obtain a key where reg: "reg i = Some (a, key)" using Cons.prems(4) by (metis not_None_eq surj_pair)
    let ?s = "map_to reg c k x [i] s" and ?k = "map_conn reg [i] k"
    have s': "(put_dconn c (k\<lparr>dc_sess_chunk_map := (dc_sess_chunk_map k)(i := int i),
          dc_send_msg := (dc_send_msg k)\<lparr>dm_buf := (dm_buf (dc_send_msg k))(i := htonll a),
            dm_rkey := (dm_rkey (dc_send_msg k))(i := bswap32 key)\<rparr>\<rparr>) s)
        \<lparr>ds_conn_map := (ds_conn_map s)(i := x), ds_mr := (ds_mr s)(i := True)\<rparr> = ?s"
      by (simp add: map_to_def map_conn_def reg Let_def if_fun_upd)
    have n: "nat (sz - j) = Suc (nat (sz - (j + 1)))" using Cons.prems(6) by simp
    have step: "map_chunks reg c sz (i # is) j s = (if j + 1 = sz then Inr ?s else map_chunks reg c sz is (j + 1) ?s)"
      using True Cons.prems(1,2) by (simp add: free_chunk_def conn_at_Some reg Let_def s')
    show ?thesis
    proof (cases "j + 1 = sz")
      case True
      with step n \<open>free_chunk s i\<close> show ?thesis by simp
    next
      case False
      have "filter (free_chunk ?s) is = filter (free_chunk s) is"
        using Cons.prems(5) by (intro filter_cong) (auto simp: free_chunk_def map_to_def put_dconn_def)
      moreover have "map_chunks reg c sz is (j + 1) ?s =
          Inr (map_to reg c ?k x (take (nat (sz - (j + 1))) (filter (free_chunk ?s) is)) ?s)"
        by (rule Cons.IH) (use Cons.prems False in \<open>auto simp: map_to_def map_conn_def Let_def\<close>)
      ultimately show ?thesis using step False n True by (simp add: map_to_Cons)
    qed
  next
    case False
    then have "map_chunks reg c sz (i # is) j s = map_chunks reg c sz is j s" by (auto simp: free_chunk_def)
    with Cons.IH [OF Cons.prems(1-4) _ Cons.prems(6)] Cons.prems(5) False show ?thesis by simp
  qed
qed

section \<open>Binding keeps the invariant\<close>

lemma free_not_owned: "free_chunk s i \<Longrightarrow> ds_conn_map s i \<noteq> int x"
  by (simp add: free_chunk_def)

lemma inv_slots_same:
  assumes "inv_slots s" "ds_conns s' = ds_conns s" "\<And>y. ds_conns_state s' y = CONN_IDLE \<longleftrightarrow> ds_conns_state s y = CONN_IDLE"
    and heap: "\<And>d m. ds_heap s d = Some m \<Longrightarrow> \<exists>m'. ds_heap s' d = Some m' \<and> dc_conn_index m' = dc_conn_index m"
  shows "inv_slots s'"
  unfolding inv_slots_def
proof (intro allI conjI impI)
  fix y d assume d: "ds_conns s' y = Some d"
  with assms(1,2) show "y < MAX_CLIENT" by (simp add: inv_slots_def)
  from d assms(1,2) obtain m where "ds_heap s d = Some m" "dc_conn_index m = Some (int y)"
    unfolding inv_slots_def by auto
  with heap show "\<exists>k. ds_heap s' d = Some k \<and> dc_conn_index k = Some (int y)" by metis
qed (use assms(1-3) in \<open>simp add: inv_slots_def\<close>)

lemma slot_not_idle: "inv_slots s \<Longrightarrow> ds_conns s x = Some c \<Longrightarrow> ds_conns_state s x \<noteq> CONN_IDLE"
  unfolding inv_slots_def by (metis option.distinct(1))

lemma inv_chunks_owner:
  assumes "inv_chunks s" "ds_conn_map s j \<noteq> -1"
    and heap: "\<And>d m. ds_heap s d = Some m \<Longrightarrow> \<exists>m'. ds_heap s' d = Some m' \<and> dc_conn_index m' = dc_conn_index m"
  shows "\<exists>d m. ds_heap s' d = Some m \<and> dc_conn_index m = Some (ds_conn_map s j)"
proof -
  from assms(1,2) obtain d m where "ds_heap s d = Some m" "dc_conn_index m = Some (ds_conn_map s j)"
    unfolding inv_chunks_def by auto
  with heap show ?thesis by metis
qed

lemma bound_inv:
  assumes inv: "daemon_inv s" and k: "ds_heap s c = Some k" "conn_inv s c k x"
    and chs: "distinct chs" "\<forall>i \<in> set chs. free_chunk s i"
    and k': "dc_conn_index k' = dc_conn_index k"
      "dc_sess_chunk_map k' = (\<lambda>i. if i \<in> set chs then int i else dc_sess_chunk_map k i)"
      "dc_mapped_chunk_size k' = dc_mapped_chunk_size k + int (length chs)"
    and s': "ds_heap s' = (ds_heap s)(c \<mapsto> k')" "ds_next s' = ds_next s" "ds_conns s' = ds_conns s"
      "ds_conns_state s' = (ds_conns_state s)(x := CONN_MAPPED)" "ds_conn_num s' = ds_conn_num s"
      "ds_region s' = ds_region s" "ds_mr s' = (\<lambda>i. if i \<in> set chs then True else ds_mr s i)"
      "ds_size_gb s' = ds_size_gb s" "ds_mapped_size s' = ds_mapped_size s + int (length chs)"
      "ds_conn_map s' = (\<lambda>i. if i \<in> set chs then int x else ds_conn_map s i)"
      "ds_malloc_map s' = ds_malloc_map s"
  shows "daemon_inv s'"
proof (rule daemon_invI)
  have i: "inv_chunks s" "inv_dconns s" "inv_slots s" "inv_sizes s" using inv by (simp_all add: daemon_inv_def)
  have fr: "ds_malloc_map s j" "ds_conn_map s j = -1" if "j \<in> set chs" for j
    using chs(2) that by (auto simp: free_chunk_def)
  have card: "card (A \<union> set chs) = card A + length chs" if "finite A" "A \<inter> set chs = {}" for A
    using that chs(1) by (simp add: card_Un_disjoint distinct_card)
  have "{j. ds_conn_map s' j = int x} = {j. ds_conn_map s j = int x} \<union> set chs"
    by (auto simp: s')
  then have cx: "card {j. ds_conn_map s' j = int x} = card {j. ds_conn_map s j = int x} + length chs"
    using card [OF finite_owned [OF i(1), of x]] fr(2) by fastforce
  have cy: "{j. ds_conn_map s' j = int y} = {j. ds_conn_map s j = int y}" if "y \<noteq> x" for y
    using that fr(2) by (auto simp: s')
  have "{j. ds_conn_map s' j \<noteq> -1} = {j. ds_conn_map s j \<noteq> -1} \<union> set chs" by (auto simp: s')
  then have cm: "card {j. ds_conn_map s' j \<noteq> -1} = card {j. ds_conn_map s j \<noteq> -1} + length chs"
    using card [OF finite_mapped [OF i(1)]] fr(2) by auto
  have x: "dc_conn_index k = Some (int x)" "x < MAX_CLIENT" "ds_conns s x = Some c"
    using k(2) by (simp_all add: conn_inv_def)
  have heap: "\<exists>m'. ds_heap s' d = Some m' \<and> dc_conn_index m' = dc_conn_index m" if "ds_heap s d = Some m" for d m
    using that k(1) k'(1) by (auto simp: s'(1))
  show "inv_chunks s'"
    unfolding inv_chunks_def
  proof (intro allI conjI impI)
    fix j assume j: "ds_conn_map s' j \<noteq> -1"
    show "\<exists>d m. ds_heap s' d = Some m \<and> dc_conn_index m = Some (ds_conn_map s' j)"
    proof (cases "j \<in> set chs")
      case True
      with x(1) k'(1) show ?thesis by (auto simp: s')
    next
      case False
      with j inv_chunks_owner [OF i(1) _ heap, of j] show ?thesis by (simp add: s'(10))
    qed
  qed (use i(1) fr in \<open>auto simp: inv_chunks_def s' split: if_splits\<close>)
  show "inv_dconns s'"
    unfolding inv_dconns_def
  proof (intro allI impI)
    fix d m assume d: "ds_heap s' d = Some m"
    show "d < ds_next s' \<and> (\<exists>y. conn_inv s' d m y)"
    proof (cases "d = c")
      case True
      with d have m: "m = k'" by (simp add: s')
      have "conn_inv s' c k' x"
        using k(2) k' cx by (auto simp: conn_inv_def s' fun_eq_iff)
      with True m i(2) k(1) show ?thesis by (auto simp: inv_dconns_def s')
    next
      case False
      with d have m: "ds_heap s d = Some m" by (simp add: s')
      with inv obtain y where y: "conn_inv s d m y" by (rule dinv_conn)
      with False x(3) have "y \<noteq> x" by (auto simp: conn_inv_def)
      with y cy [OF this] fr(2) have "conn_inv s' d m y"
        by (auto simp: conn_inv_def s' fun_eq_iff)
      with m i(2) show ?thesis by (auto simp: inv_dconns_def s')
    qed
  qed
  show "inv_slots s'"
    by (rule inv_slots_same [OF i(3) s'(3) _ heap])
      (use i(3) x(3) in \<open>auto simp: s'(4) slot_not_idle\<close>)
  show "inv_sizes s'" using i(4) cm by (simp add: inv_sizes_def s')
qed

section \<open>Releasing chunks\<close>

lemma released_inv:
  assumes inv: "daemon_inv s" and k: "ds_heap s c = Some k" "conn_inv s c k x"
    and R: "\<forall>i \<in> R. ds_conn_map s i = int x"
    and k': "dc_conn_index k' = dc_conn_index k"
      "dc_sess_chunk_map k' = (\<lambda>i. if i \<in> R then -1 else dc_sess_chunk_map k i)"
      "dc_mapped_chunk_size k' = dc_mapped_chunk_size k - int (card R)"
    and s': "ds_heap s' = (ds_heap s)(c \<mapsto> k')" "ds_next s' = ds_next s" "ds_conns s' = ds_conns s"
      "\<And>y. ds_conns_state s' y = CONN_IDLE \<longleftrightarrow> ds_conns_state s y = CONN_IDLE" "ds_conn_num s' = ds_conn_num s"
      "ds_region s' = (\<lambda>i. if i \<in> R then False else ds_region s i)"
      "ds_mr s' = (\<lambda>i. if i \<in> R then False else ds_mr s i)"
      "ds_size_gb s' = ds_size_gb s - int (card R)" "ds_mapped_size s' = ds_mapped_size s - int (card R)"
      "ds_conn_map s' = (\<lambda>i. if i \<in> R then -1 else ds_conn_map s i)"
      "ds_malloc_map s' = (\<lambda>i. if i \<in> R then False else ds_malloc_map s i)"
  shows "daemon_inv s'"
proof (rule daemon_invI)
  have i: "inv_chunks s" "inv_dconns s" "inv_slots s" "inv_sizes s" using inv by (simp_all add: daemon_inv_def)
  have Rm: "ds_conn_map s j \<noteq> -1" "ds_malloc_map s j" if "j \<in> R" for j
  proof -
    show "ds_conn_map s j \<noteq> -1" using R that by simp
    with i(1) show "ds_malloc_map s j" unfolding inv_chunks_def by blast
  qed
  have finR: "finite R" using Rm(2) by (intro finite_subset [OF _ finite_malloc [OF i(1)]]) auto
  have card: "int (card {j. P j \<and> j \<notin> R}) = int (card {j. P j}) - int (card R)"
    if "finite {j. P j}" "\<forall>j \<in> R. P j" for P
  proof -
    have "{j. P j \<and> j \<notin> R} = {j. P j} - R" by auto
    moreover have "R \<subseteq> {j. P j}" using that(2) by auto
    ultimately show ?thesis using that(1) finR by (simp add: card_Diff_subset card_mono of_nat_diff)
  qed
  have x: "dc_conn_index k = Some (int x)" "x < MAX_CLIENT" "ds_conns s x = Some c"
    using k(2) by (simp_all add: conn_inv_def)
  have "{j. ds_conn_map s' j = int x} = {j. ds_conn_map s j = int x \<and> j \<notin> R}" by (auto simp: s'(10))
  then have cx: "int (card {j. ds_conn_map s' j = int x}) = int (card {j. ds_conn_map s j = int x}) - int (card R)"
    using card [OF finite_owned [OF i(1), of x]] R by simp
  have cy: "{j. ds_conn_map s' j = int y} = {j. ds_conn_map s j = int y}" if "y \<noteq> x" for y
    using that R by (auto simp: s'(10))
  have "{j. ds_conn_map s' j \<noteq> -1} = {j. ds_conn_map s j \<noteq> -1 \<and> j \<notin> R}" by (auto simp: s'(10))
  then have cm: "int (card {j. ds_conn_map s' j \<noteq> -1}) = int (card {j. ds_conn_map s j \<noteq> -1}) - int (card R)"
    using card [OF finite_mapped [OF i(1)]] Rm(1) by simp
  have "{j. ds_malloc_map s' j} = {j. ds_malloc_map s j \<and> j \<notin> R}" by (auto simp: s'(11))
  then have ca: "int (card {j. ds_malloc_map s' j}) = int (card {j. ds_malloc_map s j}) - int (card R)"
    using card [OF finite_malloc [OF i(1)]] Rm(2) by simp
  have heap: "\<exists>m'. ds_heap s' d = Some m' \<and> dc_conn_index m' = dc_conn_index m" if "ds_heap s d = Some m" for d m
    using that k(1) k'(1) by (auto simp: s'(1))
  show "inv_chunks s'"
    unfolding inv_chunks_def
  proof (intro allI conjI impI)
    fix j assume j: "ds_conn_map s' j \<noteq> -1"
    then have "j \<notin> R" by (auto simp: s'(10))
    with j inv_chunks_owner [OF i(1) _ heap, of j]
    show "\<exists>d m. ds_heap s' d = Some m \<and> dc_conn_index m = Some (ds_conn_map s' j)" by (simp add: s'(10))
  qed (use i(1) in \<open>auto simp: inv_chunks_def s'(6,7,10,11) split: if_splits\<close>)
  show "inv_dconns s'"
    unfolding inv_dconns_def
  proof (intro allI impI)
    fix d m assume d: "ds_heap s' d = Some m"
    show "d < ds_next s' \<and> (\<exists>y. conn_inv s' d m y)"
    proof (cases "d = c")
      case True
      with d have m: "m = k'" by (simp add: s'(1))
      have "conn_inv s' c k' x"
        using k(2) k' cx by (auto simp: conn_inv_def s'(3,10) fun_eq_iff)
      with True m i(2) k(1) show ?thesis by (auto simp: inv_dconns_def s'(2))
    next
      case False
      with d have m: "ds_heap s d = Some m" by (simp add: s'(1))
      with inv obtain y where y: "conn_inv s d m y" by (rule dinv_conn)
      with False x(3) have "y \<noteq> x" by (auto simp: conn_inv_def)
      with y cy [OF this] R have "conn_inv s' d m y"
        by (auto simp: conn_inv_def s'(3,10) fun_eq_iff)
      with m i(2) show ?thesis by (auto simp: inv_dconns_def s'(2))
    qed
  qed
  show "inv_slots s'" by (rule inv_slots_same [OF i(3) s'(3,4) heap])
  show "inv_sizes s'" using i(4) cm ca by (simp add: inv_sizes_def s'(3,5,8,9))
qed

end
