(* ===== verification/Daemon_Steps.thy ===== *)
theory Daemon_Steps
  imports Daemon_Inv
begin

text \<open>
  The operations of the memory server as steps: each keeps the invariant when the client
  keeps the protocol.
\<close>

section \<open>Messages\<close>

lemma upd_conn_Some: "ds_heap s c = Some k \<Longrightarrow> upd_conn c f s = Inr (put_dconn c (f k) s)"
  by (simp add: upd_conn_def conn_at_Some)

lemmas daemon_ops = upd_conn_Some conn_at_Some daemon_send_message_def daemon_post_receives_def
  set_cq_qp_state_def daemon_send_free_mem_size_def

lemma query_inv:
  assumes "daemon_inv s" "ds_heap s c = Some k" "dc_connected k" "dm_type (dc_recv_msg k) = QUERY"
  shows "\<exists>k'. daemon_on_completion reg True True c s = Inr (put_dconn c k' s) \<and>
    daemon_inv (put_dconn c k' s) \<and> dc_connected k' \<and>
    dc_sent k' = dc_sent k @ [(dc_send_msg k)\<lparr>dm_type := FREE_SIZE, dm_size_gb := ds_size_gb s - ds_mapped_size s\<rparr>]"
proof -
  let ?m = "(dc_send_msg k)\<lparr>dm_type := FREE_SIZE, dm_size_gb := ds_size_gb s - ds_mapped_size s\<rparr>"
  let ?k = "k\<lparr>dc_cq_qp_state := CQ_QP_BUSY, dc_send_msg := ?m, dc_sent := dc_sent k @ [?m],
      dc_posted := dc_posted k + 1\<rparr>"
  have "daemon_on_completion reg True True c s = Inr (put_dconn c ?k s)"
    using assms by (simp add: daemon_on_completion_def daemon_ops)
  moreover have "daemon_inv (put_dconn c ?k s)"
    by (rule put_dconn_inv [OF assms(1,2)]) (simp add: same_chunks_def)
  ultimately show ?thesis using assms(3) by (intro exI [of _ ?k]) simp
qed

definition chunks_for :: "int \<Rightarrow> session \<Rightarrow> nat list" where
  "chunks_for n s = take (nat n) (filter (free_chunk s) [0 ..< MAX_FREE_MEM_GB])"

lemma chunks_for_free:
  "distinct (chunks_for n s)" "\<forall>i \<in> set (chunks_for n s). free_chunk s i"
  by (auto simp: chunks_for_def dest: in_set_takeD)

lemma free_count:
  assumes "inv_chunks s" "inv_sizes s"
  shows "int (length (filter (free_chunk s) [0 ..< MAX_FREE_MEM_GB])) = ds_size_gb s - ds_mapped_size s"
proof -
  have "length (filter (free_chunk s) [0 ..< MAX_FREE_MEM_GB]) = card {i. free_chunk s i}"
  proof -
    have "set (filter (free_chunk s) [0 ..< MAX_FREE_MEM_GB]) = {i. free_chunk s i}"
      using assms(1) by (auto simp: inv_chunks_def free_chunk_def)
    moreover have "distinct (filter (free_chunk s) [0 ..< MAX_FREE_MEM_GB])" by simp
    ultimately show ?thesis by (metis distinct_card)
  qed
  moreover have "{i. free_chunk s i} = {i. ds_malloc_map s i} - {i. ds_conn_map s i \<noteq> -1}"
    by (auto simp: free_chunk_def)
  moreover have "{i. ds_conn_map s i \<noteq> -1} \<subseteq> {i. ds_malloc_map s i}"
    using assms(1) unfolding inv_chunks_def by blast
  ultimately show ?thesis
    using assms(2) finite_malloc [OF assms(1)] finite_mapped [OF assms(1)]
    by (simp add: inv_sizes_def card_Diff_subset card_mono of_nat_diff)
qed

lemma chunks_for_length:
  "daemon_inv s \<Longrightarrow> 0 \<le> n \<Longrightarrow> int (length (chunks_for n s)) = min n (ds_size_gb s - ds_mapped_size s)"
  using free_count [of s] by (simp add: daemon_inv_def chunks_for_def)

text \<open>
  The message with the chunks that were mapped: address and key for each of them, and a zero
  key for every other chunk.
\<close>

definition info_msg ::
  "(nat \<Rightarrow> (64 word \<times> 32 word) option) \<Rightarrow> nat list \<Rightarrow> daemon_msg_type \<Rightarrow> int \<Rightarrow> daemon_msg \<Rightarrow> daemon_msg" where
  "info_msg reg chs t n m =
     m\<lparr>dm_buf := (\<lambda>i. if i \<in> set chs then htonll (fst (the (reg i))) else dm_buf m i),
       dm_rkey := (\<lambda>i. if i \<in> set chs then bswap32 (snd (the (reg i)))
         else if i < MAX_FREE_MEM_GB then 0 else dm_rkey m i),
       dm_size_gb := n, dm_type := t\<rparr>"

text \<open>
  \<^verbatim>\<open>send_mr\<close> and \<^verbatim>\<open>send_single_mr\<close> differ in the type and the size of the message, and in the number
  of chunks.
\<close>

definition reply_info ::
  "(nat \<Rightarrow> (64 word \<times> 32 word) option) \<Rightarrow> nat \<Rightarrow> daemon_msg_type \<Rightarrow> int \<Rightarrow> int \<Rightarrow> session \<Rightarrow> session res" where
  "reply_info reg c t n sz s =
     rbind (upd_conn c (\<lambda>k. k\<lparr>dc_send_msg := clear_rkeys MAX_FREE_MEM_GB ((dc_send_msg k)\<lparr>dm_size_gb := n\<rparr>)\<rparr>) s) (\<lambda>s1.
     rbind (map_chunks reg c sz [0 ..< MAX_FREE_MEM_GB] 0 s1) (\<lambda>s2.
     rbind (upd_conn c (\<lambda>k. k\<lparr>dc_mapped_chunk_size := dc_mapped_chunk_size k + sz,
              dc_send_msg := (dc_send_msg k)\<lparr>dm_type := t\<rparr>\<rparr>)
              (s2\<lparr>ds_mapped_size := ds_mapped_size s2 + sz\<rparr>))
       (daemon_send_message c)))"

lemma send_mr_reply: "send_mr reg c n s = reply_info reg c INFO n n s"
  by (simp add: send_mr_def reply_info_def)

lemma send_single_mr_reply: "send_single_mr reg c n s = reply_info reg c INFO_SINGLE n 1 s"
  by (simp add: send_single_mr_def reply_info_def)

lemma map_chunks_first:
  assumes "ds_heap s c = Some k" "dc_conn_index k = Some (int x)" "\<forall>i. reg i \<noteq> None" "0 < n"
  shows "map_chunks reg c n [0 ..< MAX_FREE_MEM_GB] 0 s = Inr (map_to reg c k (int x) (chunks_for n s) s)"
  using map_chunks_result [OF assms(1,2) _ assms(3), of "[0 ..< MAX_FREE_MEM_GB]" 0 n] assms(4)
  by (simp add: chunks_for_def)

lemma chunks_for_put [simp]: "chunks_for n (put_dconn c k s) = chunks_for n s"
  by (simp add: chunks_for_def free_chunk_def [abs_def])

definition info_conn ::
  "(nat \<Rightarrow> (64 word \<times> 32 word) option) \<Rightarrow> nat list \<Rightarrow> daemon_msg_type \<Rightarrow> int \<Rightarrow> int \<Rightarrow> daemon_conn \<Rightarrow> daemon_conn" where
  "info_conn reg chs t n sz k =
     (let m = info_msg reg chs t n (dc_send_msg k) in
      k\<lparr>dc_sess_chunk_map := (\<lambda>i. if i \<in> set chs then int i else dc_sess_chunk_map k i),
        dc_mapped_chunk_size := dc_mapped_chunk_size k + sz, dc_send_msg := m,
        dc_sent := dc_sent k @ [m]\<rparr>)"

definition info_session ::
  "nat \<Rightarrow> daemon_conn \<Rightarrow> nat \<Rightarrow> nat list \<Rightarrow> int \<Rightarrow> session \<Rightarrow> session" where
  "info_session c k' x chs sz s =
     (put_dconn c k' s)\<lparr>ds_mr := (\<lambda>i. if i \<in> set chs then True else ds_mr s i),
      ds_mapped_size := ds_mapped_size s + sz,
      ds_conn_map := (\<lambda>i. if i \<in> set chs then int x else ds_conn_map s i)\<rparr>"

lemma reply_info_result:
  assumes k: "ds_heap s c = Some k" "dc_conn_index k = Some (int x)" "dc_connected k"
    and reg: "\<forall>i. reg i \<noteq> None" and sz: "0 < sz"
  shows "reply_info reg c t n sz s =
    Inr (info_session c (info_conn reg (chunks_for sz s) t n sz k) x (chunks_for sz s) sz s)"
proof -
  define k1 where "k1 = k\<lparr>dc_send_msg := clear_rkeys MAX_FREE_MEM_GB ((dc_send_msg k)\<lparr>dm_size_gb := n\<rparr>)\<rparr>"
  define s1 where "s1 = put_dconn c k1 s"
  define s2 where "s2 = map_to reg c k1 (int x) (chunks_for sz s) s1"
  have 1: "upd_conn c (\<lambda>k. k\<lparr>dc_send_msg := clear_rkeys MAX_FREE_MEM_GB ((dc_send_msg k)\<lparr>dm_size_gb := n\<rparr>)\<rparr>) s = Inr s1"
    by (simp add: upd_conn_Some k(1) k1_def s1_def)
  have 2: "map_chunks reg c sz [0 ..< MAX_FREE_MEM_GB] 0 s1 = Inr s2"
    using map_chunks_first [of s1 c k1 x reg sz] k(2) reg sz by (simp add: s1_def s2_def k1_def)
  have 3: "ds_heap s2 c = Some (map_conn reg (chunks_for sz s) k1)" by (simp add: s2_def map_to_def)
  have 4: "dc_connected (map_conn reg chs k1)" for chs by (simp add: map_conn_def k1_def k(3) Let_def)
  define k2 where "k2 = (map_conn reg (chunks_for sz s) k1)\<lparr>dc_mapped_chunk_size := dc_mapped_chunk_size k + sz,
    dc_send_msg := (dc_send_msg (map_conn reg (chunks_for sz s) k1))\<lparr>dm_type := t\<rparr>\<rparr>"
  have msg: "dc_send_msg k2 = info_msg reg (chunks_for sz s) t n (dc_send_msg k)"
    by (rule daemon_msg.equality) (simp_all add: k2_def map_conn_def k1_def clear_rkeys_def info_msg_def Let_def cong: if_cong)
  have kk: "k2\<lparr>dc_sent := dc_sent k @ [dc_send_msg k2]\<rparr> = info_conn reg (chunks_for sz s) t n sz k"
    by (rule daemon_conn.equality, simp_all add: info_conn_def Let_def msg)
      (simp_all add: k2_def map_conn_def k1_def Let_def cong: if_cong)
  have "reply_info reg c t n sz s =
      Inr (put_dconn c (info_conn reg (chunks_for sz s) t n sz k) (s2\<lparr>ds_mapped_size := ds_mapped_size s2 + sz\<rparr>))"
    unfolding reply_info_def 1 rbind_simps 2 kk [symmetric]
    using 3 4 by (simp add: daemon_ops k2_def map_conn_def k1_def Let_def)
  also have "put_dconn c (info_conn reg (chunks_for sz s) t n sz k) (s2\<lparr>ds_mapped_size := ds_mapped_size s2 + sz\<rparr>) =
      info_session c (info_conn reg (chunks_for sz s) t n sz k) x (chunks_for sz s) sz s"
    by (rule session.equality) (simp_all add: s2_def s1_def map_to_def info_session_def cong: if_cong)
  finally show ?thesis .
qed

text \<open>What a request for memory leaves: the connection, and the session.\<close>

definition bound_conn ::
  "(nat \<Rightarrow> (64 word \<times> 32 word) option) \<Rightarrow> nat list \<Rightarrow> daemon_msg_type \<Rightarrow> int \<Rightarrow> int \<Rightarrow> daemon_conn \<Rightarrow> daemon_conn" where
  "bound_conn reg chs t n sz k =
     (info_conn reg chs t n sz (k\<lparr>dc_cq_qp_state := CQ_QP_BUSY, dc_server_state := S_BIND\<rparr>))
       \<lparr>dc_posted := dc_posted k + 1\<rparr>"

definition bound_session :: "nat \<Rightarrow> daemon_conn \<Rightarrow> nat \<Rightarrow> nat list \<Rightarrow> int \<Rightarrow> session \<Rightarrow> session" where
  "bound_session c k' x chs sz s =
     (info_session c k' x chs sz s)\<lparr>ds_conns_state := (ds_conns_state s)(x := CONN_MAPPED)\<rparr>"

lemma bound_tail:
  assumes k: "ds_heap s c = Some k" "conn_inv s c k x" "dc_connected k" and reg: "\<forall>i. reg i \<noteq> None" and sz: "0 < sz"
  shows "rbind (set_cq_qp_state c CQ_QP_BUSY s) (\<lambda>s1.
     rbind (upd_conn c (\<lambda>k. k\<lparr>dc_server_state := S_BIND\<rparr>) s1) (\<lambda>s2.
     rbind (reply_info reg c t n sz s2) (\<lambda>s3.
     rbind (set_conns_state c CONN_MAPPED s3) (daemon_post_receives c)))) =
     Inr (bound_session c (bound_conn reg (chunks_for sz s) t n sz k) x (chunks_for sz s) sz s)"
proof -
  let ?k = "k\<lparr>dc_cq_qp_state := CQ_QP_BUSY, dc_server_state := S_BIND\<rparr>"
  let ?k' = "info_conn reg (chunks_for sz s) t n sz ?k"
  have x: "dc_conn_index k = Some (int x)" "x < MAX_CLIENT" using k(2) by (simp_all add: conn_inv_def)
  have r: "reply_info reg c t n sz (put_dconn c ?k s) = Inr (info_session c ?k' x (chunks_for sz s) sz (put_dconn c ?k s))"
    using reply_info_result [of "put_dconn c ?k s" c ?k x reg sz t n] x k(3) reg sz by simp
  have h: "ds_heap (info_session c ?k' x chs sz s') c = Some ?k'" for chs s' by (simp add: info_session_def)
  have i: "dc_conn_index ?k' = Some (int x)" by (simp add: info_conn_def Let_def x(1))
  have p: "dc_posted ?k' = dc_posted k" by (simp add: info_conn_def Let_def)
  show ?thesis
    using k(1) x(2)
    by (simp add: daemon_ops r h i p set_conns_state_def aset_def)
      (rule session.equality, simp_all add: bound_session_def bound_conn_def info_session_def cong: if_cong)
qed

lemma bind_equation:
  assumes k: "ds_heap s c = Some k" "conn_inv s c k x" "dc_connected k" and reg: "\<forall>i. reg i \<noteq> None"
    and m: "dm_type (dc_recv_msg k) = BIND" "0 < dm_size_gb (dc_recv_msg k)"
  defines "n \<equiv> dm_size_gb (dc_recv_msg k)"
  shows "daemon_on_completion reg True True c s =
    Inr (bound_session c (bound_conn reg (chunks_for n s) INFO n n k) x (chunks_for n s) n s)"
  using bound_tail [OF k reg, of n INFO n] k(1) m
  by (simp add: daemon_on_completion_def send_mr_reply conn_at_Some n_def)

lemma bind_single_equation:
  assumes k: "ds_heap s c = Some k" "conn_inv s c k x" "dc_connected k" and reg: "\<forall>i. reg i \<noteq> None"
    and m: "dm_type (dc_recv_msg k) = BIND_SINGLE"
  shows "daemon_on_completion reg True True c s =
    Inr (bound_session c (bound_conn reg (chunks_for 1 s) INFO_SINGLE (dm_size_gb (dc_recv_msg k)) 1 k) x (chunks_for 1 s) 1 s)"
  using bound_tail [OF k reg, of 1 INFO_SINGLE "dm_size_gb (dc_recv_msg k)"] k(1) m
  by (simp add: daemon_on_completion_def send_single_mr_reply conn_at_Some)

lemma bound_session_inv:
  assumes inv: "daemon_inv s" and k: "ds_heap s c = Some k" "conn_inv s c k x"
    and sz: "0 < sz" "sz \<le> ds_size_gb s - ds_mapped_size s"
  shows "daemon_inv (bound_session c (bound_conn reg (chunks_for sz s) t n sz k) x (chunks_for sz s) sz s)"
proof -
  have "int (length (chunks_for sz s)) = sz" using chunks_for_length [OF inv, of sz] sz by simp
  then show ?thesis
    by (intro bound_inv [OF inv k chunks_for_free, of _ sz])
      (simp_all add: bound_session_def info_session_def bound_conn_def info_conn_def Let_def cong: if_cong)
qed

section \<open>Chunks that a client gives back\<close>

definition stopped_conn :: "nat set \<Rightarrow> daemon_conn \<Rightarrow> daemon_conn" where
  "stopped_conn R k = k\<lparr>dc_sess_chunk_map := (\<lambda>i. if i \<in> R then -1 else dc_sess_chunk_map k i)\<rparr>"

definition stopped_session :: "nat \<Rightarrow> daemon_conn \<Rightarrow> nat set \<Rightarrow> session \<Rightarrow> session" where
  "stopped_session c k R s =
     (put_dconn c (stopped_conn R k) s)
       \<lparr>ds_region := (\<lambda>i. if i \<in> R then False else ds_region s i),
        ds_mr := (\<lambda>i. if i \<in> R then False else ds_mr s i),
        ds_conn_map := (\<lambda>i. if i \<in> R then -1 else ds_conn_map s i),
        ds_malloc_map := (\<lambda>i. if i \<in> R then False else ds_malloc_map s i),
        ds_conn_chunk_map := (\<lambda>i. if i \<in> R then -1 else ds_conn_chunk_map s i)\<rparr>"

lemma stopped_conn_empty [simp]: "stopped_conn {} k = k"
  by (simp add: stopped_conn_def)

lemma stopped_session_empty: "ds_heap s c = Some k \<Longrightarrow> stopped_session c k {} s = s"
  by (simp add: stopped_session_def put_dconn_def fun_upd_idem)

lemma stopped_session_insert:
  "stopped_session c (stopped_conn {i} k) R (stopped_session c k {i} s) = stopped_session c k (insert i R) s"
  by (rule session.equality) (auto simp: stopped_session_def stopped_conn_def fun_eq_iff)

lemma stop_chunk_result:
  assumes "ds_heap s c = Some k" "dm_rkey (dc_recv_msg k) i \<noteq> 0" "dc_sess_chunk_map k i = int i"
    "i < MAX_FREE_MEM_GB" "ds_mr s i" "ds_region s i"
  shows "stop_chunk c i s = Inr (stopped_session c k {i} s)"
  using assms
  by (simp add: stop_chunk_def conn_at_Some in_bounds_def Let_def)
    (rule session.equality, auto simp: stopped_session_def stopped_conn_def fun_eq_iff fun_upd_def)

lemma stop_fold:
  assumes "ds_heap s c = Some k" "distinct is"
    "\<forall>i \<in> set is. dm_rkey (dc_recv_msg k) i \<noteq> 0 \<longrightarrow>
       dc_sess_chunk_map k i = int i \<and> i < MAX_FREE_MEM_GB \<and> ds_mr s i \<and> ds_region s i"
  shows "rfold (stop_chunk c) is s =
    Inr (stopped_session c k {i \<in> set is. dm_rkey (dc_recv_msg k) i \<noteq> 0} s)"
  using assms
proof (induction "is" arbitrary: s k)
  case Nil
  then show ?case by (simp add: stopped_session_empty)
next
  case (Cons i "is")
  show ?case
  proof (cases "dm_rkey (dc_recv_msg k) i = 0")
    case True
    moreover have "{j \<in> set (i # is). dm_rkey (dc_recv_msg k) j \<noteq> 0} = {j \<in> set is. dm_rkey (dc_recv_msg k) j \<noteq> 0}"
      using True by auto
    moreover have "stop_chunk c i s = Inr s" using True Cons.prems(1) by (simp add: stop_chunk_def conn_at_Some)
    ultimately show ?thesis using Cons.IH [of s k] Cons.prems by simp
  next
    case False
    let ?s = "stopped_session c k {i} s" and ?k = "stopped_conn {i} k"
    have step: "stop_chunk c i s = Inr ?s" by (rule stop_chunk_result) (use Cons.prems False in auto)
    have m: "dc_recv_msg ?k = dc_recv_msg k" by (simp add: stopped_conn_def)
    have "rfold (stop_chunk c) is ?s =
        Inr (stopped_session c ?k {j \<in> set is. dm_rkey (dc_recv_msg ?k) j \<noteq> 0} ?s)"
    proof (rule Cons.IH)
      show "ds_heap ?s c = Some ?k" by (simp add: stopped_session_def)
      show "distinct is" using Cons.prems(2) by simp
      have "i \<notin> set is" using Cons.prems(2) by simp
      then show "\<forall>j \<in> set is. dm_rkey (dc_recv_msg ?k) j \<noteq> 0 \<longrightarrow>
          dc_sess_chunk_map ?k j = int j \<and> j < MAX_FREE_MEM_GB \<and> ds_mr ?s j \<and> ds_region ?s j"
        using Cons.prems(3) by (auto simp: stopped_session_def stopped_conn_def)
    qed
    moreover have "{j \<in> set (i # is). dm_rkey (dc_recv_msg k) j \<noteq> 0} =
        insert i {j \<in> set is. dm_rkey (dc_recv_msg k) j \<noteq> 0}" using False by auto
    ultimately show ?thesis by (simp add: step m stopped_session_insert)
  qed
qed

text \<open>
  A client gives back chunks that it uses, and says how many.
\<close>

definition given_back :: "daemon_msg \<Rightarrow> nat set" where
  "given_back m = {i \<in> {0 ..< MAX_MR_SIZE_GB}. dm_rkey m i \<noteq> 0}"

definition done_message :: "session \<Rightarrow> nat \<Rightarrow> daemon_msg \<Rightarrow> bool" where
  "done_message s x m \<longleftrightarrow> (\<forall>i \<in> given_back m. ds_conn_map s i = int x) \<and> dm_size_gb m = int (card (given_back m))"

lemma stopped_session_sel [simp]:
  "ds_size_gb (stopped_session c k R s) = ds_size_gb s"
  "ds_mapped_size (stopped_session c k R s) = ds_mapped_size s"
  "ds_heap (stopped_session c k R s) = (ds_heap s)(c \<mapsto> stopped_conn R k)"
  by (simp_all add: stopped_session_def)

definition released_conn :: "nat set \<Rightarrow> daemon_conn \<Rightarrow> daemon_conn" where
  "released_conn R k =
     (stopped_conn R k)\<lparr>dc_mapped_chunk_size := dc_mapped_chunk_size k - int (card R), dc_stop_sem := dc_stop_sem k + 1\<rparr>"

definition released_session :: "nat \<Rightarrow> daemon_conn \<Rightarrow> nat \<Rightarrow> nat set \<Rightarrow> session \<Rightarrow> session" where
  "released_session c k x R s =
     put_dconn c ((released_conn R k)\<lparr>dc_posted := dc_posted k + 1\<rparr>)
       ((stopped_session c k R s)\<lparr>ds_size_gb := ds_size_gb s - int (card R),
          ds_mapped_size := ds_mapped_size s - int (card R),
          ds_conns_state := (if dc_mapped_chunk_size k = int (card R) then (ds_conns_state s)(x := CONN_CONNECTED)
            else ds_conns_state s)\<rparr>)"

lemma done_tail:
  assumes "ds_heap t c = Some k" "dc_conn_index k = Some (int x)" "x < MAX_CLIENT"
  shows "rbind (conn_at t c) (\<lambda>k.
      rbind (if dc_mapped_chunk_size k = 0 then set_conns_state c CONN_CONNECTED t else Inr t)
        (daemon_post_receives c)) =
    Inr (put_dconn c (k\<lparr>dc_posted := dc_posted k + 1\<rparr>) (t\<lparr>ds_conns_state :=
      (if dc_mapped_chunk_size k = 0 then (ds_conns_state t)(x := CONN_CONNECTED) else ds_conns_state t)\<rparr>))"
  using assms by (simp add: daemon_ops set_conns_state_def aset_def)

lemma owned_chunk:
  assumes "inv_chunks s" "ds_conn_map s j = int x"
  shows "j < MAX_FREE_MEM_GB \<and> ds_malloc_map s j \<and> ds_mr s j \<and> ds_region s j"
proof -
  have "ds_conn_map s j \<noteq> -1" using assms(2) by simp
  with assms(1) show ?thesis unfolding inv_chunks_def by blast
qed

lemma recv_done_equation:
  assumes inv: "inv_chunks s" and k: "ds_heap s c = Some k" "conn_inv s c k x"
    and m: "done_message s x (dc_recv_msg k)"
  shows "recv_done c s = Inr (released_session c k x (given_back (dc_recv_msg k)) s)"
proof -
  define R where "R = given_back (dc_recv_msg k)"
  have x: "x < MAX_CLIENT" "dc_conn_index k = Some (int x)"
    "dc_sess_chunk_map k = (\<lambda>i. if ds_conn_map s i = int x then int i else -1)"
    using k(2) by (simp_all add: conn_inv_def)
  have R: "\<forall>j \<in> R. ds_conn_map s j = int x" "dm_size_gb (dc_recv_msg k) = int (card R)"
    using m by (simp_all add: done_message_def R_def)
  have set: "{j \<in> set [0 ..< MAX_MR_SIZE_GB]. dm_rkey (dc_recv_msg k) j \<noteq> 0} = R"
    by (simp add: R_def given_back_def)
  have fold: "rfold (stop_chunk c) [0 ..< MAX_MR_SIZE_GB] s = Inr (stopped_session c k R s)"
    unfolding set [symmetric]
    by (rule stop_fold [OF k(1)]) (use R(1) owned_chunk [OF inv] x(3) in \<open>auto simp: R_def given_back_def\<close>)
  define t where "t = put_dconn c (released_conn R k)
    ((stopped_session c k R s)\<lparr>ds_size_gb := ds_size_gb s - int (card R), ds_mapped_size := ds_mapped_size s - int (card R)\<rparr>)"
  have u: "upd_conn c (\<lambda>k. k\<lparr>dc_mapped_chunk_size := dc_mapped_chunk_size k - int (card R), dc_stop_sem := dc_stop_sem k + 1\<rparr>)
      ((stopped_session c k R s)\<lparr>ds_size_gb := ds_size_gb (stopped_session c k R s) - int (card R),
        ds_mapped_size := ds_mapped_size (stopped_session c k R s) - int (card R)\<rparr>) = Inr t"
    by (simp add: upd_conn_Some [of _ _ "stopped_conn R k"] t_def released_conn_def) (simp add: stopped_conn_def)
  have t: "ds_heap t c = Some (released_conn R k)" "dc_conn_index (released_conn R k) = Some (int x)"
    by (simp_all add: t_def released_conn_def stopped_conn_def x(2))
  show ?thesis
    unfolding recv_done_def conn_at_Some [OF k(1)] rbind_simps Let_def fold R(2) u done_tail [OF t x(1)] R_def [symmetric] released_session_def
    by (rule arg_cong [of _ _ Inr], rule session.equality)
      (simp_all add: t_def released_conn_def stopped_conn_def stopped_session_def)
qed

lemma recv_done_inv:
  assumes inv: "daemon_inv s" and k: "ds_heap s c = Some k" "conn_inv s c k x"
    and m: "done_message s x (dc_recv_msg k)"
  shows "daemon_inv (released_session c k x (given_back (dc_recv_msg k)) s)"
proof -
  let ?R = "given_back (dc_recv_msg k)"
  have "inv_slots s" "ds_conns s x = Some c" using inv k(2) by (simp_all add: daemon_inv_def conn_inv_def)
  then have idle: "ds_conns_state s x \<noteq> CONN_IDLE" by (rule slot_not_idle)
  show ?thesis
    by (rule released_inv [OF inv k, of ?R "(released_conn ?R k)\<lparr>dc_posted := dc_posted k + 1\<rparr>"])
      (use m idle in \<open>auto simp: released_session_def released_conn_def stopped_session_def stopped_conn_def
         done_message_def\<close>)
qed

end
