(* ===== verification/Daemon_Conns.thy ===== *)
theory Daemon_Conns
  imports Daemon_Steps
begin

text \<open>
  Connections that come and go, and the chunks that the server allocates and frees on its
  own: each keeps the invariant of the memory server.
\<close>

section \<open>A connection is accepted\<close>

lemma find_idle:
  "find (\<lambda>i. ds_conns_state s i = CONN_IDLE) [0 ..< MAX_CLIENT] = Some x \<Longrightarrow>
   x < MAX_CLIENT \<and> ds_conns_state s x = CONN_IDLE"
  by (auto simp: find_Some_iff)

lemma slot_not_owner:
  assumes "daemon_inv s" "ds_conns s x = None"
  shows "ds_conn_map s j \<noteq> int x"
proof
  assume eq: "ds_conn_map s j = int x"
  have "\<exists>c k. ds_heap s c = Some k \<and> dc_conn_index k = Some (ds_conn_map s j)"
    using assms(1) eq unfolding daemon_inv_def by (intro inv_chunks_owner) auto
  with assms(1) eq obtain c k y where "conn_inv s c k y" "dc_conn_index k = Some (int x)"
    by (metis dinv_conn)
  with assms(2) show False by (simp add: conn_inv_def)
qed

definition accepted_session :: "daemon_msg \<Rightarrow> nat \<Rightarrow> session \<Rightarrow> session" where
  "accepted_session garbage x s =
     s\<lparr>ds_heap := (ds_heap s)(ds_next s \<mapsto> (new_dconn garbage (Some (int x)))\<lparr>dc_posted := 1\<rparr>),
       ds_next := ds_next s + 1, ds_conns := (ds_conns s)(x := Some (ds_next s)),
       ds_conns_state := (ds_conns_state s)(x := CONN_CONNECTED), ds_conn_num := ds_conn_num s + 1\<rparr>"

lemma connect_equation:
  assumes "find (\<lambda>i. ds_conns_state s i = CONN_IDLE) [0 ..< MAX_CLIENT] = Some x"
  shows "daemon_build_connection True garbage s = Inr (ds_next s, accepted_session garbage x s)"
  using assms
  by (simp add: daemon_build_connection_def daemon_ops Let_def put_dconn_def)
    (rule session.equality, simp_all add: accepted_session_def new_dconn_def)

lemma accept_inv:
  assumes inv: "daemon_inv s" and x: "x < MAX_CLIENT" "ds_conns_state s x = CONN_IDLE"
  shows "daemon_inv (accepted_session garbage x s)"
proof (rule daemon_invI)
  have i: "inv_chunks s" "inv_dconns s" "inv_slots s" "inv_sizes s" using inv by (simp_all add: daemon_inv_def)
  have free: "ds_conns s x = None" using i(3) x(2) by (simp add: inv_slots_def)
  have new: "ds_heap s (ds_next s) = None"
    using i(2) unfolding inv_dconns_def by (metis less_irrefl not_None_eq)
  let ?s = "accepted_session garbage x s"
  have heap: "\<exists>m'. ds_heap ?s d = Some m' \<and> dc_conn_index m' = dc_conn_index m" if "ds_heap s d = Some m" for d m
    using that new by (auto simp: accepted_session_def)
  have cm: "ds_conn_map ?s = ds_conn_map s" by (simp add: accepted_session_def)
  show "inv_chunks ?s"
    unfolding inv_chunks_def cm
  proof (intro allI conjI impI)
    fix j assume "ds_conn_map s j \<noteq> -1"
    then show "\<exists>d m. ds_heap ?s d = Some m \<and> dc_conn_index m = Some (ds_conn_map s j)"
      by (rule inv_chunks_owner [OF i(1) _ heap])
  qed (use i(1) in \<open>auto simp: inv_chunks_def accepted_session_def\<close>)
  show "inv_dconns ?s"
    unfolding inv_dconns_def
  proof (intro allI impI)
    fix d m assume d: "ds_heap ?s d = Some m"
    show "d < ds_next ?s \<and> (\<exists>y. conn_inv ?s d m y)"
    proof (cases "d = ds_next s")
      case True
      with d x(1) slot_not_owner [OF inv free] have "conn_inv ?s d m x"
        by (auto simp: conn_inv_def accepted_session_def new_dconn_def)
      with True show ?thesis by (auto simp: accepted_session_def)
    next
      case False
      with d have m: "ds_heap s d = Some m" by (simp add: accepted_session_def)
      with inv obtain y where y: "conn_inv s d m y" by (rule dinv_conn)
      with free have "y \<noteq> x" by (auto simp: conn_inv_def)
      with y have "conn_inv ?s d m y" by (simp add: conn_inv_def accepted_session_def)
      moreover have "d < ds_next s" using m i(2) by (auto simp: inv_dconns_def)
      ultimately show ?thesis by (auto simp: accepted_session_def)
    qed
  qed
  show "inv_slots ?s"
    unfolding inv_slots_def
  proof (intro allI conjI impI)
    fix y d assume d: "ds_conns ?s y = Some d"
    then show "y < MAX_CLIENT" using i(3) x(1) by (auto simp: inv_slots_def accepted_session_def split: if_splits)
    show "\<exists>k. ds_heap ?s d = Some k \<and> dc_conn_index k = Some (int y)"
    proof (cases "y = x")
      case True
      with d show ?thesis by (simp add: accepted_session_def new_dconn_def)
    next
      case False
      with d i(3) obtain m where "ds_heap s d = Some m" "dc_conn_index m = Some (int y)"
        unfolding inv_slots_def by (auto simp: accepted_session_def)
      with heap show ?thesis by metis
    qed
  qed (use i(3) in \<open>auto simp: inv_slots_def accepted_session_def\<close>)
  have "{y. ds_conns ?s y \<noteq> None} = insert x {y. ds_conns s y \<noteq> None}"
    by (auto simp: accepted_session_def)
  then show "inv_sizes ?s"
    using i(4) free finite_slots [OF i(3)] by (simp add: inv_sizes_def) (simp add: accepted_session_def)
qed

section \<open>A connection ends\<close>

lemma unmap_fold:
  assumes "distinct is" "\<forall>i \<in> set is. i < MAX_FREE_MEM_GB \<and> (dc_sess_chunk_map k i = -1 \<or> dc_sess_chunk_map k i = int i)"
  shows "rfold (unmap_chunk k) is s =
    Inr (s\<lparr>ds_conn_map := (\<lambda>i. if i \<in> set is \<and> dc_sess_chunk_map k i \<noteq> -1 then -1 else ds_conn_map s i),
      ds_conn_chunk_map := (\<lambda>i. if i \<in> set is \<and> dc_sess_chunk_map k i \<noteq> -1 then -1 else ds_conn_chunk_map s i)\<rparr>)"
  using assms
proof (induction "is" arbitrary: s)
  case (Cons i "is")
  show ?case
  proof (cases "dc_sess_chunk_map k i = -1")
    case True
    with Cons.IH [of s] Cons.prems show ?thesis
      by (simp add: unmap_chunk_def) (rule session.equality, auto simp: fun_eq_iff)
  next
    case False
    with Cons.prems have c: "dc_sess_chunk_map k i = int i" "i < MAX_FREE_MEM_GB" by auto
    let ?s = "s\<lparr>ds_conn_map := (ds_conn_map s)(i := -1), ds_conn_chunk_map := (ds_conn_chunk_map s)(i := -1)\<rparr>"
    have "unmap_chunk k i s = Inr ?s" using c by (simp add: unmap_chunk_def aset_def Let_def)
    moreover have "rfold (unmap_chunk k) is ?s =
        Inr (?s\<lparr>ds_conn_map := (\<lambda>i. if i \<in> set is \<and> dc_sess_chunk_map k i \<noteq> -1 then -1 else ds_conn_map ?s i),
          ds_conn_chunk_map := (\<lambda>i. if i \<in> set is \<and> dc_sess_chunk_map k i \<noteq> -1 then -1 else ds_conn_chunk_map ?s i)\<rparr>)"
      by (rule Cons.IH) (use Cons.prems in auto)
    ultimately show ?thesis
      using c by (simp del: fun_upd_apply) (rule session.equality, auto simp: fun_eq_iff)
  qed
qed simp

definition gone_session :: "nat \<Rightarrow> nat \<Rightarrow> session \<Rightarrow> session" where
  "gone_session c x s =
     s\<lparr>ds_heap := (ds_heap s)(c := None), ds_conns := (ds_conns s)(x := None),
       ds_conns_state := (ds_conns_state s)(x := CONN_IDLE), ds_conn_num := ds_conn_num s - 1,
       ds_mapped_size := ds_mapped_size s - int (card {i. ds_conn_map s i = int x}),
       ds_conn_map := (\<lambda>i. if ds_conn_map s i = int x then -1 else ds_conn_map s i),
       ds_conn_chunk_map := (\<lambda>i. if ds_conn_map s i = int x then -1 else ds_conn_chunk_map s i),
       ds_running := ds_running s \<and> ds_conn_num s \<noteq> 1\<rparr>"

lemma disconnect_equation:
  assumes inv: "inv_chunks s" and k: "ds_heap s c = Some k" "conn_inv s c k x"
  shows "daemon_destroy_connection c s = Inr (gone_session c x s)"
proof -
  have x: "x < MAX_CLIENT" "dc_conn_index k = Some (int x)"
    "dc_mapped_chunk_size k = int (card {i. ds_conn_map s i = int x})"
    "dc_sess_chunk_map k = (\<lambda>i. if ds_conn_map s i = int x then int i else -1)"
    using k(2) by (simp_all add: conn_inv_def)
  have bound: "i < 32" if "ds_conn_map s i = int x" for i
    using owned_chunk [OF inv that] by (simp add: MAX_FREE_MEM_GB_def)
  let ?u = "\<lambda>t. t\<lparr>ds_conn_map := (\<lambda>i. if ds_conn_map s i = int x then -1 else ds_conn_map s i),
       ds_conn_chunk_map := (\<lambda>i. if ds_conn_map s i = int x then -1 else ds_conn_chunk_map s i)\<rparr>"
  have fold: "rfold (unmap_chunk k) [0 ..< MAX_MR_SIZE_GB] s = Inr (?u s)"
    using unmap_fold [of "[0 ..< MAX_MR_SIZE_GB]" k s] bound
    by (simp add: MAX_MR_SIZE_GB_def MAX_FREE_MEM_GB_def x(4) if_distrib cong: if_cong)
      (rule session.equality, auto simp: fun_eq_iff)
  have "(if dc_mapped_chunk_size k > 0 then
           rbind (rfold (unmap_chunk k) [0 ..< MAX_MR_SIZE_GB] s) (\<lambda>s1.
             Inr (s1\<lparr>ds_mapped_size := ds_mapped_size s1 - dc_mapped_chunk_size k\<rparr>))
         else Inr s) = Inr ((?u s)\<lparr>ds_mapped_size := ds_mapped_size s - dc_mapped_chunk_size k\<rparr>)"
  proof (cases "dc_mapped_chunk_size k > 0")
    case False
    with x(3) finite_owned [OF inv, of x] have "\<forall>i. ds_conn_map s i \<noteq> int x" by (auto simp: card_gt_0_iff)
    with False x(3) show ?thesis by simp
  qed (simp add: fold)
  note unmap = this
  show ?thesis
    unfolding daemon_destroy_connection_def conn_at_Some [OF k(1)] rbind_simps unmap
    using x(1,2) by (simp add: aset_def)
      (rule session.equality, simp_all add: gone_session_def x(3))
qed

lemma gone_inv:
  assumes inv: "daemon_inv s" and k: "ds_heap s c = Some k" "conn_inv s c k x"
  shows "daemon_inv (gone_session c x s)"
proof (rule daemon_invI)
  have i: "inv_chunks s" "inv_dconns s" "inv_slots s" "inv_sizes s" using inv by (simp_all add: daemon_inv_def)
  have x: "x < MAX_CLIENT" "dc_conn_index k = Some (int x)" "ds_conns s x = Some c"
    using k(2) by (simp_all add: conn_inv_def)
  let ?s = "gone_session c x s"
  have heap: "ds_heap ?s d = Some m" if "ds_heap s d = Some m" "dc_conn_index m \<noteq> Some (int x)" for d m
    using that k(1) x(2) by (auto simp: gone_session_def)
  show "inv_chunks ?s"
    unfolding inv_chunks_def
  proof (intro allI conjI impI)
    fix j assume j: "ds_conn_map ?s j \<noteq> -1"
    then have o: "ds_conn_map s j \<noteq> -1" "ds_conn_map s j \<noteq> int x" "ds_conn_map ?s j = ds_conn_map s j"
      by (auto simp: gone_session_def split: if_splits)
    with i(1) obtain d m where "ds_heap s d = Some m" "dc_conn_index m = Some (ds_conn_map s j)"
      unfolding inv_chunks_def by blast
    with heap [of d m] o show "\<exists>d m. ds_heap ?s d = Some m \<and> dc_conn_index m = Some (ds_conn_map ?s j)" by auto
  qed (use i(1) in \<open>auto simp: inv_chunks_def gone_session_def split: if_splits\<close>)
  show "inv_dconns ?s"
    unfolding inv_dconns_def
  proof (intro allI impI)
    fix d m assume "ds_heap ?s d = Some m"
    then have m: "ds_heap s d = Some m" "d \<noteq> c" by (auto simp: gone_session_def split: if_splits)
    with inv obtain y where y: "conn_inv s d m y" using dinv_conn by blast
    with m(2) x(3) have "y \<noteq> x" by (auto simp: conn_inv_def)
    moreover from this have "{j. ds_conn_map ?s j = int y} = {j. ds_conn_map s j = int y}"
      by (auto simp: gone_session_def)
    moreover have "\<And>j. ds_conn_map ?s j = int y \<longleftrightarrow> ds_conn_map s j = int y"
      using calculation(2) by blast
    ultimately have "conn_inv ?s d m y" using y by (simp add: conn_inv_def) (simp add: gone_session_def)
    with m i(2) show "d < ds_next ?s \<and> (\<exists>y. conn_inv ?s d m y)"
      by (auto simp: inv_dconns_def gone_session_def)
  qed
  show "inv_slots ?s"
    unfolding inv_slots_def
  proof (intro allI conjI impI)
    fix y d assume d: "ds_conns ?s y = Some d"
    then have y: "y \<noteq> x" "ds_conns s y = Some d" by (auto simp: gone_session_def split: if_splits)
    with i(3) show "y < MAX_CLIENT" by (simp add: inv_slots_def)
    from y i(3) obtain m where "ds_heap s d = Some m" "dc_conn_index m = Some (int y)"
      unfolding inv_slots_def by blast
    with heap [of d m] y(1) show "\<exists>k. ds_heap ?s d = Some k \<and> dc_conn_index k = Some (int y)" by auto
  qed (use i(3) in \<open>auto simp: inv_slots_def gone_session_def\<close>)
  have "{y. ds_conns ?s y \<noteq> None} = {y. ds_conns s y \<noteq> None} - {x}" by (auto simp: gone_session_def)
  then have cn: "int (card {y. ds_conns ?s y \<noteq> None}) = int (card {y. ds_conns s y \<noteq> None}) - 1"
    using x(3) finite_slots [OF i(3)] by (subst (2) card.remove [of _ x]) auto
  have "{j. ds_conn_map ?s j \<noteq> -1} = {j. ds_conn_map s j \<noteq> -1} - {j. ds_conn_map s j = int x}"
    by (auto simp: gone_session_def)
  moreover have "{j. ds_conn_map s j = int x} \<subseteq> {j. ds_conn_map s j \<noteq> -1}" by auto
  ultimately have "int (card {j. ds_conn_map ?s j \<noteq> -1}) =
      int (card {j. ds_conn_map s j \<noteq> -1}) - int (card {j. ds_conn_map s j = int x})"
    using finite_owned [OF i(1), of x] finite_mapped [OF i(1)] by (simp add: card_Diff_subset card_mono of_nat_diff)
  then show "inv_sizes ?s" using i(4) cn by (simp add: inv_sizes_def) (simp add: gone_session_def)
qed

end
