(* ===== verification/Daemon_Memory.thy ===== *)
theory Daemon_Memory
  imports Daemon_Conns
begin

text \<open>
  The thread that watches the free memory: it frees chunks that no client uses, or allocates
  new ones, and the size that the server reports follows.
\<close>

definition resized :: "nat list \<Rightarrow> bool \<Rightarrow> session \<Rightarrow> session" where
  "resized chs v s =
     s\<lparr>ds_region := (\<lambda>i. if i \<in> set chs then v else ds_region s i),
       ds_malloc_map := (\<lambda>i. if i \<in> set chs then v else ds_malloc_map s i)\<rparr>"

lemma resized_Nil [simp]: "resized [] v s = s"
  by (simp add: resized_def)

lemma resized_Cons: "resized chs v (resized [i] v s) = resized (i # chs) v s"
  by (simp add: resized_def fun_eq_iff)

lemma resized_single:
  "s\<lparr>ds_region := (ds_region s)(i := v), ds_malloc_map := (ds_malloc_map s)(i := v)\<rparr> = resized [i] v s"
  by (simp add: resized_def fun_upd_def)

lemma resized_sel [simp]:
  "ds_size_gb (resized chs v s) = ds_size_gb s" "ds_conn_map (resized chs v s) = ds_conn_map s"
  "ds_mapped_size (resized chs v s) = ds_mapped_size s"
  by (simp_all add: resized_def)

lemma alloc_chunks_result:
  assumes "distinct is" "j < e"
  shows "alloc_chunks e is j s = resized (take (nat (e - j)) (filter (\<lambda>i. \<not> ds_malloc_map s i) is)) True s"
  using assms
proof (induction "is" arbitrary: j s)
  case (Cons i "is")
  show ?case
  proof (cases "ds_malloc_map s i")
    case False
    have n: "nat (e - j) = Suc (nat (e - (j + 1)))" using Cons.prems(2) by simp
    have step: "alloc_chunks e (i # is) j s =
        (if j + 1 = e then resized [i] True s else alloc_chunks e is (j + 1) (resized [i] True s))"
      using False by (simp add: resized_single Let_def)
    have "filter (\<lambda>i'. \<not> ds_malloc_map (resized [i] True s) i') is = filter (\<lambda>i. \<not> ds_malloc_map s i) is"
      using Cons.prems(1) by (intro filter_cong) (auto simp: resized_def)
    with Cons.IH [of "j + 1" "resized [i] True s"] Cons.prems False step n show ?thesis
      by (cases "j + 1 = e") (simp_all add: resized_Cons)
  qed (use Cons in simp)
qed simp

lemma free_unmapped_result:
  assumes "distinct is" "j < e" "\<forall>i. free_chunk s i \<longrightarrow> ds_region s i"
  defines "chs \<equiv> take (nat (e - j)) (filter (free_chunk s) is)"
  shows "free_unmapped e is j s =
    Inr (if j + int (length chs) = e then (True, e, (resized chs False s)\<lparr>ds_size_gb := ds_size_gb s - e\<rparr>)
         else (False, j + int (length chs), resized chs False s))"
  unfolding chs_def using assms(1-3)
proof (induction "is" arbitrary: j s)
  case (Cons i "is")
  show ?case
  proof (cases "free_chunk s i")
    case True
    have n: "nat (e - j) = Suc (nat (e - (j + 1)))" using Cons.prems(2) by simp
    let ?s = "resized [i] False s"
    have "ds_region s i" using True Cons.prems(3) by blast
    then have step: "free_unmapped e (i # is) j s =
        (if j + 1 = e then Inr (True, j + 1, ?s\<lparr>ds_size_gb := ds_size_gb s - e\<rparr>) else free_unmapped e is (j + 1) ?s)"
      using True by (simp add: free_chunk_def resized_single Let_def)
    have "filter (free_chunk ?s) is = filter (free_chunk s) is"
      using Cons.prems(1) by (intro filter_cong) (auto simp: resized_def free_chunk_def)
    moreover have "\<forall>i'. free_chunk ?s i' \<longrightarrow> ds_region ?s i'"
      using Cons.prems(3) by (auto simp: free_chunk_def resized_def)
    ultimately show ?thesis
      using Cons.IH [of "j + 1" ?s] Cons.prems True step n
      by (cases "j + 1 = e") (simp_all add: resized_Cons algebra_simps)
  next
    case False
    then have "free_unmapped e (i # is) j s = free_unmapped e is j s" by (auto simp: free_chunk_def)
    with Cons False show ?thesis by simp
  qed
qed simp

lemma resized_inv:
  assumes inv: "daemon_inv s" and s': "s' = (resized chs v s)\<lparr>ds_size_gb := n\<rparr>"
    and chs: "\<forall>i \<in> set chs. i < MAX_FREE_MEM_GB \<and> ds_conn_map s i = -1"
    and n: "n = int (card {i. ds_malloc_map s' i})"
  shows "daemon_inv s'"
proof (rule daemon_invI)
  have i: "inv_chunks s" "inv_dconns s" "inv_slots s" "inv_sizes s" using inv by (simp_all add: daemon_inv_def)
  have same: "ds_heap s' = ds_heap s" "ds_conn_map s' = ds_conn_map s" "ds_conns s' = ds_conns s"
    "ds_conns_state s' = ds_conns_state s" "ds_next s' = ds_next s" "ds_mr s' = ds_mr s"
    "ds_mapped_size s' = ds_mapped_size s" "ds_conn_num s' = ds_conn_num s" "ds_size_gb s' = n"
    by (simp_all add: s' resized_def)
  have maps: "ds_malloc_map s' j = (if j \<in> set chs then v else ds_malloc_map s j)"
    "ds_region s' j = (if j \<in> set chs then v else ds_region s j)" for j
    by (simp_all add: s' resized_def)
  show "inv_chunks s'"
    using i(1) chs unfolding inv_chunks_def same maps by auto
  show "inv_dconns s'" using i(2) unfolding inv_dconns_def conn_inv_def same .
  show "inv_slots s'" using i(3) unfolding inv_slots_def same .
  show "inv_sizes s'" using i(4) n unfolding inv_sizes_def same by simp
qed

lemma unallocated_count:
  assumes "daemon_inv s"
  shows "int (length (filter (\<lambda>i. \<not> ds_malloc_map s i) [0 ..< MAX_FREE_MEM_GB])) = int MAX_FREE_MEM_GB - ds_size_gb s"
proof -
  let ?u = "filter (\<lambda>i. \<not> ds_malloc_map s i) [0 ..< MAX_FREE_MEM_GB]"
  have i: "inv_chunks s" "inv_sizes s" using assms by (simp_all add: daemon_inv_def)
  have sub: "{i. ds_malloc_map s i} \<subseteq> {..< MAX_FREE_MEM_GB}" using i(1) by (auto simp: inv_chunks_def)
  have "length ?u = card (set ?u)" by (rule distinct_card [symmetric]) simp
  also have "set ?u = {..< MAX_FREE_MEM_GB} - {i. ds_malloc_map s i}" by auto
  also have "int (card \<dots>) = int MAX_FREE_MEM_GB - ds_size_gb s"
    using card_mono [OF _ sub] i(2) card_Diff_subset [OF finite_malloc [OF i(1)] sub]
    by (simp add: inv_sizes_def of_nat_diff)
  finally show ?thesis .
qed

lemma alloc_chunks_full: "\<forall>i \<in> set is. ds_malloc_map s i \<Longrightarrow> alloc_chunks e is j s = s"
  by (induction "is") simp_all

lemma alloc_chunks_inv:
  assumes inv: "daemon_inv s" and e: "0 \<le> e" "e \<le> int MAX_FREE_MEM_GB - ds_size_gb s"
  defines "s1 \<equiv> alloc_chunks e [0 ..< MAX_FREE_MEM_GB] 0 s"
  shows "daemon_inv (s1\<lparr>ds_size_gb := ds_size_gb s1 + e\<rparr>) \<or> e = 0 \<and> ds_size_gb s < int MAX_FREE_MEM_GB"
proof (cases "e = 0")
  case True
  show ?thesis
  proof (cases "ds_size_gb s < int MAX_FREE_MEM_GB")
    case False
    with unallocated_count [OF inv] have "length (filter (\<lambda>i. \<not> ds_malloc_map s i) [0 ..< MAX_FREE_MEM_GB]) = 0"
      by linarith
    then have "s1 = s" unfolding s1_def by (intro alloc_chunks_full) (simp add: filter_empty_conv)
    with inv True show ?thesis by simp
  qed (use True in simp)
next
  case False
  let ?chs = "take (nat e) (filter (\<lambda>i. \<not> ds_malloc_map s i) [0 ..< MAX_FREE_MEM_GB])"
  have s1: "s1 = resized ?chs True s"
    using alloc_chunks_result [of "[0 ..< MAX_FREE_MEM_GB]" 0 e s] False e(1) by (simp add: s1_def)
  have len: "int (length ?chs) = e" using unallocated_count [OF inv] e by simp
  have in_chs: "i < MAX_FREE_MEM_GB \<and> \<not> ds_malloc_map s i" if "i \<in> set ?chs" for i
    using that by (auto dest: in_set_takeD)
  have i: "inv_chunks s" "inv_sizes s" using inv by (simp_all add: daemon_inv_def)
  let ?s' = "(resized ?chs True s)\<lparr>ds_size_gb := ds_size_gb s + e\<rparr>"
  have "{j. ds_malloc_map ?s' j} = {j. ds_malloc_map s j} \<union> set ?chs" by (auto simp: resized_def)
  moreover have "card ({j. ds_malloc_map s j} \<union> set ?chs) = card {j. ds_malloc_map s j} + card (set ?chs)"
    by (rule card_Un_disjoint [OF finite_malloc [OF i(1)] finite_set]) (use in_chs in blast)
  moreover have "card (set ?chs) = length ?chs" by (rule distinct_card) simp
  ultimately have "ds_size_gb s + e = int (card {j. ds_malloc_map ?s' j})" using i(2) len by (simp add: inv_sizes_def)
  moreover have "\<forall>i \<in> set ?chs. i < MAX_FREE_MEM_GB \<and> ds_conn_map s i = -1"
  proof
    fix j assume "j \<in> set ?chs"
    then have "j < MAX_FREE_MEM_GB \<and> \<not> ds_malloc_map s j" by (rule in_chs)
    with i(1) show "j < MAX_FREE_MEM_GB \<and> ds_conn_map s j = -1" unfolding inv_chunks_def by blast
  qed
  ultimately have "daemon_inv ?s'" by (intro resized_inv [OF inv refl])
  with s1 show ?thesis by simp
qed

lemma expand_inv:
  assumes inv: "daemon_inv s" and v: "FREE_MEM_EXPAND_THRESHOLD < fm_last_free_mem_g v"
  shows "daemon_inv (snd (free_mem_expand v s))"
proof -
  have i: "inv_chunks s" "inv_sizes s" using inv by (simp_all add: daemon_inv_def)
  define n where "n = fm_last_free_mem_g v - FREE_MEM_EXPAND_THRESHOLD"
  define e where "e = (if n + ds_size_gb s > int MAX_FREE_MEM_GB then int MAX_FREE_MEM_GB - ds_size_gb s else n)"
  have "ds_size_gb s \<le> int MAX_FREE_MEM_GB" using unallocated_count [OF inv] by linarith
  moreover have "0 < n" using v by (simp add: n_def)
  ultimately have "0 \<le> e" "e \<le> int MAX_FREE_MEM_GB - ds_size_gb s" "\<not> (e = 0 \<and> ds_size_gb s < int MAX_FREE_MEM_GB)"
    by (auto simp: e_def)
  with alloc_chunks_inv [OF inv, of e] show ?thesis
    unfolding free_mem_expand_def Let_def n_def [symmetric] e_def [symmetric] by simp
qed

lemma evict_unmapped_equation:
  assumes inv: "daemon_inv s" and n: "0 < n" "n \<le> ds_size_gb s - ds_mapped_size s"
  shows "evict_mem rnd act dn n s = Inr ((resized (chunks_for n s) False s)\<lparr>ds_size_gb := ds_size_gb s - n\<rparr>)"
proof -
  have "inv_chunks s" using inv by (simp add: daemon_inv_def)
  then have r: "\<forall>i. free_chunk s i \<longrightarrow> ds_region s i" by (auto simp: inv_chunks_def free_chunk_def)
  have "int (length (chunks_for n s)) = n" using chunks_for_length [OF inv, of n] n by simp
  with free_unmapped_result [OF _ n(1) r, of "[0 ..< MAX_FREE_MEM_GB]"] show ?thesis
    by (simp add: evict_mem_def chunks_for_def)
qed

lemma evict_unmapped_inv:
  assumes inv: "daemon_inv s" and n: "0 < n" "n \<le> ds_size_gb s - ds_mapped_size s"
  shows "daemon_inv ((resized (chunks_for n s) False s)\<lparr>ds_size_gb := ds_size_gb s - n\<rparr>)"
proof (rule resized_inv [OF inv refl])
  let ?chs = "chunks_for n s" and ?s' = "(resized (chunks_for n s) False s)\<lparr>ds_size_gb := ds_size_gb s - n\<rparr>"
  have i: "inv_chunks s" "inv_sizes s" using inv by (simp_all add: daemon_inv_def)
  have len: "int (length ?chs) = n" using chunks_for_length [OF inv, of n] n by simp
  have fr: "ds_malloc_map s j" "ds_conn_map s j = -1" if "j \<in> set ?chs" for j
    using chunks_for_free(2) [of n s] that by (auto simp: free_chunk_def)
  show "\<forall>i \<in> set ?chs. i < MAX_FREE_MEM_GB \<and> ds_conn_map s i = -1"
    using fr i(1) by (auto simp: inv_chunks_def)
  have "{j. ds_malloc_map ?s' j} = {j. ds_malloc_map s j} - set ?chs" by (auto simp: resized_def)
  moreover have "card (set ?chs) = length ?chs" by (rule distinct_card [OF chunks_for_free(1)])
  moreover have "set ?chs \<subseteq> {j. ds_malloc_map s j}" using fr by auto
  ultimately show "ds_size_gb s - n = int (card {j. ds_malloc_map ?s' j})"
    using i(2) len card_mono [OF finite_malloc [OF i(1)], of "set ?chs"]
    by (simp add: inv_sizes_def card_Diff_subset of_nat_diff)
qed

text \<open>
  One round of the thread, when the chunks that no client uses are enough to make up for the
  memory that is short.
\<close>

definition spare_enough :: "int \<Rightarrow> free_mem_vars \<Rightarrow> session \<Rightarrow> bool" where
  "spare_enough g v s \<longleftrightarrow>
     min (ds_size_gb s) (FREE_MEM_EVICT_THRESHOLD - filtered_free_mem g (fm_last_free_mem_g v))
       \<le> ds_size_gb s - ds_mapped_size s"

lemma free_mem_evict_inv:
  assumes inv: "daemon_inv s"
    and enough: "min (ds_size_gb s) (FREE_MEM_EVICT_THRESHOLD - fm_last_free_mem_g v) \<le> ds_size_gb s - ds_mapped_size s"
  shows "\<exists>v' s'. free_mem_evict rnd act dn v s = Inr (v', s') \<and> daemon_inv s'"
proof -
  define n where "n = (if ds_size_gb s < FREE_MEM_EVICT_THRESHOLD - fm_last_free_mem_g v then ds_size_gb s
    else FREE_MEM_EVICT_THRESHOLD - fm_last_free_mem_g v)"
  have n: "n \<le> ds_size_gb s - ds_mapped_size s" using enough by (auto simp: n_def min_def split: if_splits)
  show ?thesis
  proof (cases "n > 0")
    case True
    then show ?thesis
      using evict_unmapped_equation [OF inv True n] evict_unmapped_inv [OF inv True n]
      by (auto simp: free_mem_evict_def n_def Let_def)
  next
    case False
    then show ?thesis using inv by (auto simp: free_mem_evict_def n_def Let_def)
  qed
qed

lemma free_mem_round_inv:
  assumes inv: "daemon_inv s" and g: "free_gb meminfo = Inr g" and enough: "spare_enough g v s"
  shows "\<exists>v' s'. free_mem_round rnd act dn meminfo v s = Inr (v', s') \<and> daemon_inv s'"
proof -
  let ?f = "filtered_free_mem g (fm_last_free_mem_g v)"
  consider (short) "?f < FREE_MEM_EVICT_THRESHOLD" | (much) "?f > FREE_MEM_EXPAND_THRESHOLD"
    | (between) "\<not> ?f < FREE_MEM_EVICT_THRESHOLD" "\<not> ?f > FREE_MEM_EXPAND_THRESHOLD" by linarith
  then show ?thesis
  proof cases
    case short
    have "\<exists>v' s'. free_mem_evict rnd act dn w s = Inr (v', s') \<and> daemon_inv s'"
      if "fm_last_free_mem_g w = ?f" for w
      by (rule free_mem_evict_inv [OF inv]) (use enough that in \<open>simp add: spare_enough_def\<close>)
    with short inv g show ?thesis by (auto simp: free_mem_round_def Let_def)
  next
    case much
    then have "\<not> ?f < FREE_MEM_EVICT_THRESHOLD"
      by (simp add: FREE_MEM_EVICT_THRESHOLD_def FREE_MEM_EXPAND_THRESHOLD_def)
    moreover have "\<exists>v' s'. free_mem_expand w s = (v', s') \<and> daemon_inv s'" if "fm_last_free_mem_g w = ?f" for w
      using expand_inv [OF inv, of w] much that by (cases "free_mem_expand w s") simp
    ultimately show ?thesis using much inv g by (auto simp: free_mem_round_def Let_def)
  next
    case between
    with inv g show ?thesis by (simp add: free_mem_round_def Let_def)
  qed
qed

end
