(* ===== verification/Daemon_Sort.thy ===== *)
theory Daemon_Sort
  imports Daemon_Inv "HOL-Library.Multiset"
begin

text \<open>
  The chunks that are evicted: the loop of \<^verbatim>\<open>evict_mem\<close> that brings the least active chunks to the
  front of the list is a selection sort that stops after \<open>j\<close> elements.
\<close>

lemma exchange_props:
  assumes "n < length xs" "m < length xs"
  shows "mset (exchange n m xs) = mset xs" "length (exchange n m xs) = length xs"
  using assms by (simp_all add: exchange_def mset_swap)

lemma exchange_min:
  assumes "n < length xs" "m < length xs" "n < m"
  shows "fst (exchange n m xs ! n) = min (fst (xs ! n)) (fst (xs ! m))"
    "i < length xs \<Longrightarrow> i \<noteq> n \<Longrightarrow> i \<noteq> m \<Longrightarrow> exchange n m xs ! i = xs ! i"
    "fst (exchange n m xs ! m) = max (fst (xs ! n)) (fst (xs ! m))"
    "take n (exchange n m xs) = take n xs"
  using assms by (auto simp: exchange_def min_def max_def)

lemma select_min_upto:
  assumes "n < length xs" "n < m" "m \<le> length xs"
  defines "ys \<equiv> fold (exchange n) [n + 1 ..< m] xs"
  shows "mset ys = mset xs \<and> length ys = length xs \<and> take n ys = take n xs \<and>
    (\<forall>i. n \<le> i \<and> i < m \<longrightarrow> fst (ys ! n) \<le> fst (ys ! i))"
  using assms(2,3) unfolding ys_def
proof (induction m rule: nat_less_induct)
  case (1 m)
  show ?case
  proof (cases "m = n + 1")
    case True
    then show ?thesis by (auto simp: le_less_Suc_eq)
  next
    case False
    then obtain p where p: "m = Suc p" "n < p" using 1 by (metis Suc_eq_plus1 Suc_lessE not_less_eq linorder_neqE_nat)
    let ?zs = "fold (exchange n) [n + 1 ..< p] xs"
    have step: "fold (exchange n) [n + 1 ..< m] xs = exchange n p ?zs" using p by simp
    have IH: "mset ?zs = mset xs" "length ?zs = length xs" "take n ?zs = take n xs"
      "\<forall>i. n \<le> i \<and> i < p \<longrightarrow> fst (?zs ! n) \<le> fst (?zs ! i)"
      using 1 p by simp_all
    have b: "n < length ?zs" "p < length ?zs" using IH(2) assms(1) 1 p by simp_all
    note ex = exchange_min [OF b p(2)]
    have "fst (exchange n p ?zs ! n) \<le> fst (exchange n p ?zs ! i)" if le: "n \<le> i" "i < m" for i
    proof -
      consider "i = n" | "i = p" | "i \<noteq> n" "i \<noteq> p" "i < p" using le p(1) by linarith
      then show ?thesis
      proof cases
        case 2
        then show ?thesis unfolding ex(1) 2 ex(3) by (metis max.coboundedI1 min.cobounded1)
      next
        case 3
        with IH(4) le ex(1,2) b show ?thesis by (simp add: min.coboundedI1)
      qed simp
    qed
    then show ?thesis unfolding step using IH(1-3) exchange_props [OF b] ex(4) by simp
  qed
qed

lemma select_min_props:
  assumes "n < length xs"
  shows "mset (select_min n xs) = mset xs" "length (select_min n xs) = length xs"
    "take n (select_min n xs) = take n xs"
    "n \<le> i \<Longrightarrow> i < length xs \<Longrightarrow> fst (select_min n xs ! n) \<le> fst (select_min n xs ! i)"
  using select_min_upto [OF assms assms] by (simp_all add: select_min_def)

lemma select_min_drop:
  assumes "n < length xs"
  shows "mset (drop n (select_min n xs)) = mset (drop n xs)"
proof -
  let ?ys = "select_min n xs"
  have "mset (take n ?ys) + mset (drop n ?ys) = mset (take n xs) + mset (drop n xs)"
    using select_min_props(1) [OF assms] by (simp flip: mset_append)
  then show ?thesis by (simp add: select_min_props(3) [OF assms])
qed

text \<open>After \<open>j\<close> rounds the first \<open>j\<close> elements are sorted, and none of the others is less than them.\<close>

definition front_sorted :: "nat \<Rightarrow> chunk_activity list \<Rightarrow> bool" where
  "front_sorted j ys \<longleftrightarrow> sorted (map fst (take j ys)) \<and>
     (\<forall>x \<in> set (take j ys). \<forall>y \<in> set (drop j ys). fst x \<le> fst y)"

lemma front_sorted_step:
  assumes j: "j < length ys" and fs: "front_sorted j ys"
  shows "front_sorted (Suc j) (select_min j ys)"
proof -
  let ?zs = "select_min j ys"
  have len: "j < length ?zs" using select_min_props(2) [OF j] j by simp
  have t: "take (Suc j) ?zs = take j ys @ [?zs ! j]"
    using take_Suc_conv_app_nth [OF len] select_min_props(3) [OF j] by simp
  have sub: "set (drop (Suc j) ?zs) \<subseteq> set (drop j ?zs)" by (rule set_drop_subset_set_drop) simp
  have d: "set (drop j ?zs) = set (drop j ys)" using select_min_drop [OF j] by (rule mset_eq_setD)
  have mem: "?zs ! j \<in> set (drop j ?zs)" using len by (simp flip: Cons_nth_drop_Suc)
  have least: "fst (?zs ! j) \<le> fst y" if "y \<in> set (drop (Suc j) ?zs)" for y
  proof -
    from that obtain i where "i < length ?zs - Suc j" "y = ?zs ! (Suc j + i)"
      by (auto simp: in_set_conv_nth)
    then show ?thesis using select_min_props(2,4) [OF j] by simp
  qed
  have "\<forall>x \<in> set (take j ys). fst x \<le> fst (?zs ! j)" using fs mem d by (auto simp: front_sorted_def)
  moreover have "\<forall>x \<in> set (take j ys). \<forall>y \<in> set (drop (Suc j) ?zs). fst x \<le> fst y"
    using fs sub d unfolding front_sorted_def by blast
  ultimately show ?thesis using fs least unfolding front_sorted_def t by (simp add: sorted_append)
qed

lemma select_mins:
  assumes "j \<le> length xs"
  defines "ys \<equiv> fold select_min [0 ..< j] xs"
  shows "mset ys = mset xs \<and> length ys = length xs \<and> front_sorted j ys"
  using assms(1) unfolding ys_def
proof (induction j)
  case (Suc j)
  let ?ys = "fold select_min [0 ..< j] xs"
  have "mset ?ys = mset xs" "length ?ys = length xs" "front_sorted j ?ys" using Suc by simp_all
  with Suc.prems select_min_props(1,2) [of j ?ys] front_sorted_step [of j ?ys] show ?case by simp
qed (simp add: front_sorted_def)

lemma front_sorted_take:
  assumes "mset ys = mset xs" "front_sorted j ys"
  shows "map fst (take j ys) = take j (sort (map fst xs))"
proof -
  let ?a = "map fst (take j ys)" and ?b = "sort (map fst (drop j ys))"
  have "mset (?a @ ?b) = mset (map fst xs)"
    unfolding mset_append mset_sort mset_map by (simp flip: image_mset_union mset_append add: assms(1))
  moreover have "sorted (?a @ ?b)" using assms(2) by (auto simp: front_sorted_def sorted_append)
  ultimately have s: "sort (map fst xs) = ?a @ ?b" by (rule properties_for_sort)
  show ?thesis
  proof (cases "j \<le> length ys")
    case True
    then show ?thesis by (simp add: s)
  next
    case False
    then show ?thesis by (simp add: s)
  qed
qed

section \<open>The loop that evicts\<close>

lemma slot_conn_Some: "x < MAX_CLIENT \<Longrightarrow> ds_conns s x = Some c \<Longrightarrow> slot_conn s (int x) = Inr c"
  by (simp add: slot_conn_def aget_def)

lemma chunk_client:
  assumes "daemon_inv s" "ds_conn_map s i \<noteq> -1"
  obtains c k x where "ds_heap s c = Some k" "conn_inv s c k x" "ds_conn_map s i = int x" "i < MAX_FREE_MEM_GB"
proof -
  have ci: "inv_chunks s" using assms(1) by (simp add: daemon_inv_def)
  then obtain c k where k: "ds_heap s c = Some k" "dc_conn_index k = Some (ds_conn_map s i)" "i < MAX_FREE_MEM_GB"
    using assms(2) unfolding inv_chunks_def by blast
  obtain x where "conn_inv s c k x" using assms(1) k(1) by (rule dinv_conn)
  moreover from this k(2) have "ds_conn_map s i = int x" by (simp add: conn_inv_def)
  ultimately show ?thesis using that k(1,3) by blast
qed

lemma evict_chunk_result:
  assumes inv: "daemon_inv s" and chs: "\<forall>a \<in> set xs. ds_conn_map s (snd a) \<noteq> -1" and n: "n < length xs"
    and k: "k = int (length xs)"
  shows "\<exists>sl' i s'. evict_chunk k n (xs, sl, l, s) = Inr (select_min n xs, sl', Some i, s') \<and>
    daemon_inv s' \<and> ds_conn_map s' = ds_conn_map s"
proof -
  let ?ys = "select_min n xs"
  have "?ys ! n \<in> set xs"
    using select_min_props(1,2) [OF n] n by (metis mset_eq_setD nth_mem)
  with chs have "ds_conn_map s (snd (?ys ! n)) \<noteq> -1" by blast
  with inv obtain c d x where c: "ds_heap s c = Some d" "conn_inv s c d x"
    "ds_conn_map s (snd (?ys ! n)) = int x" "snd (?ys ! n) < MAX_FREE_MEM_GB" by (rule chunk_client)
  have x: "x < MAX_CLIENT" "ds_conns s x = Some c" using c(2) by (simp_all add: conn_inv_def)
  let ?d = "d\<lparr>dc_send_msg := (dc_send_msg d)\<lparr>dm_rkey := (dm_rkey (dc_send_msg d))(snd (?ys ! n) := 1),
      dm_size_gb := dm_size_gb (dc_send_msg d) + 1\<rparr>\<rparr>"
  have "daemon_inv (put_dconn c ?d s)" by (rule put_dconn_inv [OF inv c(1)]) (simp add: same_chunks_def)
  then show ?thesis
    using n k c(1,3,4) x slot_conn_Some [OF x]
    by (auto simp: evict_chunk_def Let_def aget_def upd_conn_def conn_at_Some)
qed

lemma evict_chunks_result:
  assumes inv: "daemon_inv s" and chs: "\<forall>a \<in> set xs. ds_conn_map s (snd a) \<noteq> -1" and j: "j \<le> length xs"
    and k: "k = int (length xs)"
  shows "\<exists>sl' l' s'. rfold (evict_chunk k) [0 ..< j] (xs, sl, l, s) = Inr (fold select_min [0 ..< j] xs, sl', l', s') \<and>
    daemon_inv s' \<and> ds_conn_map s' = ds_conn_map s"
  using j
proof (induction j)
  case 0
  then show ?case using inv by simp
next
  case (Suc j)
  let ?ys = "fold select_min [0 ..< j] xs"
  obtain sl' l' s' where IH: "rfold (evict_chunk k) [0 ..< j] (xs, sl, l, s) = Inr (?ys, sl', l', s')"
    "daemon_inv s'" "ds_conn_map s' = ds_conn_map s" using Suc by auto
  have ys: "mset ?ys = mset xs" "length ?ys = length xs" using select_mins [of j xs] Suc.prems by simp_all
  then have "\<forall>a \<in> set ?ys. ds_conn_map s' (snd a) \<noteq> -1" using chs IH(3) by (metis mset_eq_setD)
  with evict_chunk_result [OF IH(2), of ?ys j k sl' l'] ys(2) k Suc.prems IH show ?case
    by (auto simp: rfold_append)
qed

end
