(* ===== verification/Daemon_Props.thy ===== *)
theory Daemon_Props
  imports Daemon_Memory Daemon_Sort
begin

text \<open>
  The properties of the memory server. Its state is the one of the session, together with the
  variables of the thread that watches the free memory.
\<close>

section \<open>Steps\<close>

text \<open>
  A request of the client of slot \<open>x\<close> that keeps the protocol: memory is asked for when as
  much is free, and chunks are given back that the client uses.
\<close>

definition good_request :: "session \<Rightarrow> nat \<Rightarrow> daemon_msg \<Rightarrow> bool" where
  "good_request s x m =
     (case dm_type m of
        QUERY \<Rightarrow> True
      | ACTIVITY \<Rightarrow> True
      | BIND \<Rightarrow> 0 < dm_size_gb m \<and> dm_size_gb m \<le> ds_size_gb s - ds_mapped_size s
      | BIND_SINGLE \<Rightarrow> 0 < ds_size_gb s - ds_mapped_size s
      | DONE \<Rightarrow> done_message s x m
      | _ \<Rightarrow> False)"

text \<open>The message of the client is in the receive buffer of the connection when the completion is polled.\<close>

definition arrived :: "nat \<Rightarrow> daemon_conn \<Rightarrow> daemon_msg \<Rightarrow> session \<Rightarrow> session" where
  "arrived c k m s = put_dconn c (k\<lparr>dc_recv_msg := m\<rparr>) s"

inductive daemon_step :: "free_mem_vars \<times> session \<Rightarrow> free_mem_vars \<times> session \<Rightarrow> bool" where
  connect: "find (\<lambda>i. ds_conns_state s i = CONN_IDLE) [0 ..< MAX_CLIENT] \<noteq> None \<Longrightarrow>
    on_event True garbage CONNECT_REQUEST s = Inr s' \<Longrightarrow> daemon_step (v, s) (v, s')"
| established: "ds_heap s c = Some k \<Longrightarrow> on_event True garbage (ESTABLISHED c) s = Inr s' \<Longrightarrow>
    daemon_step (v, s) (v, s')"
| disconnected: "ds_heap s c = Some k \<Longrightarrow> on_event True garbage (DISCONNECTED c) s = Inr s' \<Longrightarrow>
    daemon_step (v, s) (v, s')"
| sent: "ds_heap s c = Some k \<Longrightarrow> daemon_on_completion reg True False c s = Inr s' \<Longrightarrow>
    daemon_step (v, s) (v, s')"
| received: "ds_heap s c = Some k \<Longrightarrow> dc_connected k \<Longrightarrow> conn_inv s c k x \<Longrightarrow> good_request s x m \<Longrightarrow>
    \<forall>i. reg i \<noteq> None \<Longrightarrow> daemon_on_completion reg True True c (arrived c k m s) = Inr s' \<Longrightarrow>
    daemon_step (v, s) (v, s')"
| memory: "free_gb meminfo = Inr g \<Longrightarrow> spare_enough g v s \<Longrightarrow>
    free_mem_round rnd act dn meminfo v s = Inr (v', s') \<Longrightarrow> daemon_step (v, s) (v', s')"

definition daemon_initial :: "free_mem_vars \<times> session \<Rightarrow> bool" where
  "daemon_initial vs \<longleftrightarrow> (\<exists>meminfo. rdma_session_init meminfo = Inr (snd vs))"

lemma initial_inv:
  assumes "rdma_session_init meminfo = Inr s"
  shows "daemon_inv s"
proof -
  obtain g where s: "s = \<lparr>ds_heap = Map.empty, ds_next = 0, ds_conns = (\<lambda>_. None), ds_conns_state = (\<lambda>_. CONN_IDLE),
         ds_conn_num = 0, ds_region = (\<lambda>i. int i < initial_size g), ds_mr = (\<lambda>_. False), ds_size_gb = initial_size g,
         ds_mapped_size = 0, ds_conn_map = (\<lambda>_. -1), ds_malloc_map = (\<lambda>i. int i < initial_size g),
         ds_conn_chunk_map = (\<lambda>_. -1), ds_running = True\<rparr>"
    using assms by (auto simp: rdma_session_init_def rbind_eq_Inr Let_def)
  have n: "0 \<le> initial_size g" "initial_size g \<le> int MAX_FREE_MEM_GB"
    by (auto simp: initial_size_def Let_def FREE_MEM_EXPAND_THRESHOLD_def FREE_MEM_EVICT_THRESHOLD_def)
  have "{i. int i < initial_size g} = {..< nat (initial_size g)}" by auto
  with n show ?thesis by (auto simp: daemon_inv_defs s)
qed

lemma arrived_inv:
  assumes "daemon_inv s" "ds_heap s c = Some k" "conn_inv s c k x"
  shows "daemon_inv (arrived c k m s)" "ds_heap (arrived c k m s) c = Some (k\<lparr>dc_recv_msg := m\<rparr>)"
    "conn_inv (arrived c k m s) c (k\<lparr>dc_recv_msg := m\<rparr>) x"
  using assms put_dconn_inv [OF assms(1,2), of "k\<lparr>dc_recv_msg := m\<rparr>"] conn_inv_same [of k "k\<lparr>dc_recv_msg := m\<rparr>"]
  by (simp_all add: arrived_def same_chunks_def)

text \<open>Every request that keeps the protocol is served, and the invariant holds afterwards.\<close>

lemma request_served:
  assumes inv: "daemon_inv s" and k: "ds_heap s c = Some k" "dc_connected k" "conn_inv s c k x"
    and m: "good_request s x m" and reg: "\<forall>i. reg i \<noteq> None"
  shows "\<exists>s'. daemon_on_completion reg True True c (arrived c k m s) = Inr s' \<and> daemon_inv s'"
proof -
  let ?s = "arrived c k m s" and ?k = "k\<lparr>dc_recv_msg := m\<rparr>"
  note a = arrived_inv [OF inv k(1,3), of m]
  have con: "dc_connected ?k" using k(2) by simp
  have sz: "ds_size_gb ?s = ds_size_gb s" "ds_mapped_size ?s = ds_mapped_size s" "ds_conn_map ?s = ds_conn_map s"
    by (simp_all add: arrived_def)
  show ?thesis
  proof (cases "dm_type m")
    case QUERY
    then show ?thesis using query_inv [OF a(1,2) con, of reg] by auto
  next
    case BIND
    then have n: "0 < dm_size_gb m" "dm_size_gb m \<le> ds_size_gb ?s - ds_mapped_size ?s"
      using m sz by (simp_all add: good_request_def)
    show ?thesis
      using bind_equation [OF a(2,3) con reg] bound_session_inv [OF a(1-3) n] n BIND by auto
  next
    case BIND_SINGLE
    then have n: "0 < (1::int)" "1 \<le> ds_size_gb ?s - ds_mapped_size ?s"
      using m sz by (simp_all add: good_request_def)
    show ?thesis
      using bind_single_equation [OF a(2,3) con reg] bound_session_inv [OF a(1-3) n] BIND_SINGLE by auto
  next
    case ACTIVITY
    have "daemon_on_completion reg True True c ?s = Inr (put_dconn c (?k\<lparr>dc_evict_sem := dc_evict_sem k + 1\<rparr>) ?s)"
      using ACTIVITY a(2) by (simp add: daemon_on_completion_def daemon_ops)
    moreover have "daemon_inv (put_dconn c (?k\<lparr>dc_evict_sem := dc_evict_sem k + 1\<rparr>) ?s)"
      by (rule put_dconn_inv [OF a(1,2)]) (simp add: same_chunks_def)
    ultimately show ?thesis by blast
  next
    case DONE
    let ?k2 = "?k\<lparr>dc_cq_qp_state := CQ_QP_BUSY\<rparr>" and ?s2 = "put_dconn c (?k\<lparr>dc_cq_qp_state := CQ_QP_BUSY\<rparr>) ?s"
    have inv2: "daemon_inv ?s2" by (rule put_dconn_inv [OF a(1,2)]) (simp add: same_chunks_def)
    have c2: "conn_inv ?s2 c ?k2 x" using a(3) conn_inv_same [of ?k ?k2] by (simp add: same_chunks_def)
    have "done_message ?s2 x (dc_recv_msg ?k2)" using m DONE sz(3) by (simp add: good_request_def done_message_def)
    moreover have "daemon_on_completion reg True True c ?s = recv_done c ?s2"
      using DONE a(2) by (simp add: daemon_on_completion_def daemon_ops)
    moreover have "inv_chunks ?s2" using inv2 by (simp add: daemon_inv_def)
    ultimately show ?thesis
      using recv_done_equation [OF _ _ c2] recv_done_inv [OF inv2 _ c2] by simp
  qed (use m in \<open>simp_all add: good_request_def\<close>)
qed

lemma established_served:
  assumes "daemon_inv s" "ds_heap s c = Some k"
  shows "\<exists>s'. on_event True garbage (ESTABLISHED c) s = Inr s' \<and> daemon_inv s'"
proof -
  let ?m = "(dc_send_msg k)\<lparr>dm_type := FREE_SIZE, dm_size_gb := ds_size_gb s - ds_mapped_size s\<rparr>"
  let ?k = "k\<lparr>dc_connected := True, dc_send_msg := ?m, dc_sent := dc_sent k @ [?m]\<rparr>"
  have "on_event True garbage (ESTABLISHED c) s = Inr (put_dconn c ?k s)"
    using assms(2) by (simp add: on_event_def on_connect_def daemon_ops)
  moreover have "daemon_inv (put_dconn c ?k s)"
    by (rule put_dconn_inv [OF assms]) (simp add: same_chunks_def)
  ultimately show ?thesis by blast
qed

lemma connect_served:
  assumes "daemon_inv s" "find (\<lambda>i. ds_conns_state s i = CONN_IDLE) [0 ..< MAX_CLIENT] = Some x"
  shows "\<exists>s'. on_event True garbage CONNECT_REQUEST s = Inr s' \<and> daemon_inv s'"
  using accept_inv [OF assms(1), of x garbage] find_idle [OF assms(2)]
  by (simp add: on_event_def connect_equation [OF assms(2)])

lemma disconnect_served:
  assumes "daemon_inv s" "ds_heap s c = Some k"
  shows "\<exists>s'. on_event True garbage (DISCONNECTED c) s = Inr s' \<and> daemon_inv s'"
proof -
  obtain x where x: "conn_inv s c k x" using assms by (rule dinv_conn)
  have "inv_chunks s" using assms(1) by (simp add: daemon_inv_def)
  with disconnect_equation [OF _ assms(2) x] gone_inv [OF assms x] show ?thesis by (simp add: on_event_def)
qed

lemma sent_served:
  assumes "daemon_inv s" "ds_heap s c = Some k"
  shows "\<exists>s'. daemon_on_completion reg True False c s = Inr s' \<and> daemon_inv s'"
  using put_dconn_inv [OF assms, of "k\<lparr>dc_cq_qp_state := CQ_QP_IDLE\<rparr>"] assms(2)
  by (simp add: daemon_on_completion_def daemon_ops same_chunks_def)

lemmas daemon_served = connect_served established_served disconnect_served sent_served request_served free_mem_round_inv

lemma step_inv: "daemon_step p q \<Longrightarrow> daemon_inv (snd p) \<Longrightarrow> daemon_inv (snd q)"
proof (induction rule: daemon_step.induct)
  case (connect s garbage s' v)
  then show ?case using connect_served [of s _ garbage] by auto
next
  case (established s c k garbage s' v)
  then show ?case using established_served [of s c k garbage] by auto
next
  case (disconnected s c k garbage s' v)
  then show ?case using disconnect_served [of s c k garbage] by auto
next
  case (sent s c k reg s' v)
  then show ?case using sent_served [of s c k reg] by auto
next
  case (received s c k x m reg s' v)
  then show ?case using request_served [of s c k x m reg] by auto
next
  case (memory meminfo g v s rnd act dn v' s')
  then show ?case using free_mem_round_inv [of s meminfo g v rnd act dn] by auto
qed

interpretation dmn: kept_invariant daemon_initial daemon_step "\<lambda>vs. daemon_inv (snd vs)"
  by unfold_locales (auto simp: daemon_initial_def intro: initial_inv step_inv)

lemma reach_daemon_inv: "reach daemon_initial daemon_step (v, s) \<Longrightarrow> daemon_inv s"
  using dmn.reach_inv by fastforce

lemma reach_conn:
  assumes "reach daemon_initial daemon_step (v, s)" "ds_heap s c = Some k"
  obtains x where "conn_inv s c k x"
  using reach_daemon_inv [OF assms(1)] assms(2) by (rule dinv_conn)

section \<open>Accounting\<close>


text \<open>
  C12. In every reachable state, a request of a connected client that keeps the protocol is
  served: the handler ends without an error, and the server is again in a reachable state.
\<close>

theorem requests_served:
  assumes "reach daemon_initial daemon_step (v, s)" "ds_heap s c = Some k" "dc_connected k"
    "dc_conn_index k = Some (int x)" "good_request s x m" "\<forall>i. reg i \<noteq> None"
  shows "\<exists>s'. daemon_on_completion reg True True c (arrived c k m s) = Inr s' \<and>
    reach daemon_initial daemon_step (v, s')"
proof -
  obtain y where "conn_inv s c k y" using assms(1,2) by (rule reach_conn)
  moreover from this assms(4) have "y = x" by (simp add: conn_inv_def)
  ultimately have x: "conn_inv s c k x" by simp
  with request_served [OF reach_daemon_inv [OF assms(1)] assms(2,3) _ assms(5,6)] obtain s' where
    s': "daemon_on_completion reg True True c (arrived c k m s) = Inr s'" by blast
  have "daemon_step (v, s) (v, s')" using received [OF assms(2,3) x assms(5,6) s'] .
  with assms(1) s' show ?thesis by (auto intro: reach_step)
qed

section \<open>Requests for memory\<close>

text \<open>A request for memory, from a reachable state.\<close>

definition bind_state :: "(nat \<Rightarrow> (64 word \<times> 32 word) option) \<Rightarrow> nat \<Rightarrow> daemon_conn \<Rightarrow> nat \<Rightarrow> daemon_msg \<Rightarrow> session \<Rightarrow> session" where
  "bind_state reg c k x m s =
     (let n = dm_size_gb m; chs = chunks_for n s in
      bound_session c (bound_conn reg chs INFO n n (k\<lparr>dc_recv_msg := m\<rparr>)) x chs n (arrived c k m s))"

lemma bind_reached:
  assumes "reach daemon_initial daemon_step (v, s)" "ds_heap s c = Some k" "dc_connected k"
    "dc_conn_index k = Some (int x)" "\<forall>i. reg i \<noteq> None" "dm_type m = BIND" "0 < dm_size_gb m"
  shows "daemon_on_completion reg True True c (arrived c k m s) = Inr (bind_state reg c k x m s)"
proof -
  obtain y where "conn_inv s c k y" using assms(1,2) by (rule reach_conn)
  moreover from this assms(4) have "y = x" by (simp add: conn_inv_def)
  ultimately have x: "conn_inv s c k x" by simp
  note a = arrived_inv [OF reach_daemon_inv [OF assms(1)] assms(2) x, of m]
  show ?thesis
    using bind_equation [OF a(2,3) _ assms(5)] assms(3,6,7) by (simp add: bind_state_def Let_def) (simp add: arrived_def)
qed

lemma bind_state_sel:
  defines "chs m s \<equiv> chunks_for (dm_size_gb m) s"
  shows "ds_conn_map (bind_state reg c k x m s) = (\<lambda>i. if i \<in> set (chs m s) then int x else ds_conn_map s i)"
    "ds_mapped_size (bind_state reg c k x m s) = ds_mapped_size s + dm_size_gb m"
    "ds_size_gb (bind_state reg c k x m s) = ds_size_gb s"
    "ds_heap (bind_state reg c k x m s) c =
       Some (bound_conn reg (chs m s) INFO (dm_size_gb m) (dm_size_gb m) (k\<lparr>dc_recv_msg := m\<rparr>))"
  by (simp_all add: chs_def bind_state_def bound_session_def info_session_def arrived_def Let_def cong: if_cong)

lemma bound_conn_msg:
  "dc_send_msg (bound_conn reg chs t n sz k) = info_msg reg chs t n (dc_send_msg k)"
  "dc_sent (bound_conn reg chs t n sz k) = dc_sent k @ [info_msg reg chs t n (dc_send_msg k)]"
  by (simp_all add: bound_conn_def info_conn_def Let_def)

text \<open>
  C25. A request for \<open>n\<close> chunks, when \<open>n\<close> are free, maps exactly \<open>n\<close> chunks that were free to the
  client and no other, and sends a message that has the address and the key of each of them,
  in network byte order, and the key 0 for every other chunk.
\<close>

theorem bind_result:
  assumes "reach daemon_initial daemon_step (v, s)" "ds_heap s c = Some k" "dc_connected k"
    "dc_conn_index k = Some (int x)" "\<forall>i. reg i \<noteq> None" "dm_type m = BIND" "n = dm_size_gb m"
    "0 < n" "n \<le> ds_size_gb s - ds_mapped_size s"
  shows "\<exists>s' k' chs. daemon_on_completion reg True True c (arrived c k m s) = Inr s' \<and>
    int (card chs) = n \<and> (\<forall>i \<in> chs. ds_malloc_map s i \<and> ds_conn_map s i = -1) \<and>
    ds_conn_map s' = (\<lambda>i. if i \<in> chs then int x else ds_conn_map s i) \<and>
    ds_mapped_size s' = ds_mapped_size s + n \<and>
    ds_heap s' c = Some k' \<and> dc_sent k' = dc_sent k @ [dc_send_msg k'] \<and>
    dm_type (dc_send_msg k') = INFO \<and> dm_size_gb (dc_send_msg k') = n \<and>
    (\<forall>i < MAX_FREE_MEM_GB.
       if i \<in> chs then dm_buf (dc_send_msg k') i = htonll (fst (the (reg i))) \<and>
         dm_rkey (dc_send_msg k') i = bswap32 (snd (the (reg i)))
       else dm_rkey (dc_send_msg k') i = 0)"
proof -
  let ?chs = "chunks_for n s" and ?s' = "bind_state reg c k x m s"
  have "int (length ?chs) = n"
    using chunks_for_length [OF reach_daemon_inv [OF assms(1)], of n] assms(8,9) by simp
  then have card: "int (card (set ?chs)) = n" using distinct_card [OF chunks_for_free(1)] by metis
  have free: "\<forall>i \<in> set ?chs. ds_malloc_map s i \<and> ds_conn_map s i = -1"
    using chunks_for_free(2) [of n s] by (simp add: free_chunk_def)
  have eq: "daemon_on_completion reg True True c (arrived c k m s) = Inr ?s'"
    using bind_reached [OF assms(1-6)] assms(7,8) by simp
  show ?thesis
    by (rule exI [of _ ?s'], rule exI [of _ "bound_conn reg ?chs INFO n n (k\<lparr>dc_recv_msg := m\<rparr>)"],
        rule exI [of _ "set ?chs"])
      (use eq card free in \<open>simp add: bind_state_sel bound_conn_msg info_msg_def assms(7) [symmetric]\<close>)
qed

text \<open>
  The server does not check that it has the memory that a client asks for: a request for
  more chunks than are free maps all of them, the mapped size grows by what was asked for and
  exceeds the number of chunks in use (short of an overflow of its \<^verbatim>\<open>int\<close>), the message names a size that it has not the chunks
  for, and the free size that the server would report next is negative.
\<close>

theorem bind_overcommits:
  assumes "reach daemon_initial daemon_step (v, s)" "ds_heap s c = Some k" "dc_connected k"
    "dc_conn_index k = Some (int x)" "\<forall>i. reg i \<noteq> None" "dm_type m = BIND" "n = dm_size_gb m"
    "0 < n" "ds_size_gb s - ds_mapped_size s < n" "ds_mapped_size s + n < 2 ^ 31"
  shows "\<exists>s' k'. daemon_on_completion reg True True c (arrived c k m s) = Inr s' \<and>
    {i. ds_conn_map s' i \<noteq> -1} = {i. ds_malloc_map s i} \<and>
    int (card {i. ds_conn_map s' i \<noteq> -1}) < ds_mapped_size s' \<and>
    ds_size_gb s' - ds_mapped_size s' < 0 \<and>
    ds_heap s' c = Some k' \<and> dm_size_gb (dc_send_msg k') = n \<and>
    int (card {i. ds_conn_map s i = -1 \<and> ds_conn_map s' i \<noteq> -1}) < n"
proof -
  have inv: "daemon_inv s" using assms(1) by (rule reach_daemon_inv)
  then have i: "inv_chunks s" "inv_sizes s" by (simp_all add: daemon_inv_def)
  let ?chs = "chunks_for n s" and ?s' = "bind_state reg c k x m s"
  note sel = bind_state_sel [of reg c k x m s, folded assms(7)]
  have eq: "daemon_on_completion reg True True c (arrived c k m s) = Inr ?s'"
    using bind_reached [OF assms(1-6)] assms(7,8) by simp
  have len: "int (length ?chs) = ds_size_gb s - ds_mapped_size s"
    using chunks_for_length [OF inv, of n] assms(8,9) by simp
  have "?chs = filter (free_chunk s) [0 ..< MAX_FREE_MEM_GB]"
    using free_count [OF i] assms(9) by (simp add: chunks_for_def)
  then have set: "set ?chs = {i. ds_malloc_map s i \<and> ds_conn_map s i = -1}"
    using i(1) by (auto simp: free_chunk_def inv_chunks_def)
  have all: "{i. ds_conn_map ?s' i \<noteq> -1} = {i. ds_malloc_map s i}"
    unfolding sel(1) set using i(1) unfolding inv_chunks_def by auto
  have "{i. ds_conn_map s i = -1 \<and> ds_conn_map ?s' i \<noteq> -1} = set ?chs" unfolding sel(1) by (auto simp: set)
  moreover have "card (set ?chs) = length ?chs" by (rule distinct_card [OF chunks_for_free(1)])
  ultimately have "int (card {i. ds_conn_map s i = -1 \<and> ds_conn_map ?s' i \<noteq> -1}) < n" using len assms(9) by simp
  moreover have "int (card {i. ds_malloc_map s i}) = ds_size_gb s" using i(2) by (simp add: inv_sizes_def)
  moreover have "dm_size_gb (dc_send_msg (bound_conn reg ?chs INFO n n (k\<lparr>dc_recv_msg := m\<rparr>))) = n"
    by (simp add: bound_conn_msg info_msg_def)
  ultimately show ?thesis using eq all sel(2-4) assms(9) by auto
qed

section \<open>Eviction\<close>


section \<open>Byte order\<close>

lemma mask_words:
  "(0xFF :: 32 word) = mask 8" "(0xFF00 :: 32 word) = push_bit 8 (mask 8)"
  "(0xFF0000 :: 32 word) = push_bit 16 (mask 8)" "(0xFF000000 :: 32 word) = push_bit 24 (mask 8)"
  by (simp_all add: mask_eq_exp_minus_1 push_bit_eq_mult)

lemma byte_cases:
  fixes n :: nat
  obtains "n < 8" | k where "n = 8 + k" "k < 8" | k where "n = 16 + k" "k < 8" | k where "n = 24 + k" "k < 8"
    | k where "n = 32 + k"
proof -
  consider "n < 8" | "8 \<le> n" "n < 16" | "16 \<le> n" "n < 24" | "24 \<le> n" "n < 32" | "32 \<le> n" by linarith
  then show ?thesis
  proof cases
    case 2
    then show ?thesis using that(2) [of "n - 8"] by simp
  next
    case 3
    then show ?thesis using that(3) [of "n - 16"] by simp
  next
    case 4
    then show ?thesis using that(4) [of "n - 24"] by simp
  next
    case 5
    then show ?thesis using that(5) [of "n - 32"] by simp
  qed (rule that(1))
qed

lemma bit_bswap32:
  "bit (bswap32 w) n \<longleftrightarrow>
     (n < 8 \<and> bit w (n + 24)) \<or> (8 \<le> n \<and> n < 16 \<and> bit w (n + 8)) \<or>
     (16 \<le> n \<and> n < 24 \<and> bit w (n - 8)) \<or> (24 \<le> n \<and> n < 32 \<and> bit w (n - 24))"
  unfolding bswap32_def mask_words
  by (cases n rule: byte_cases) (simp_all add: bit_simps add.commute)

lemma bswap32_bswap32: "bswap32 (bswap32 w) = w"
proof (rule bit_word_eqI)
  fix n assume "n < LENGTH(32)"
  then have n: "n < 32" by simp
  show "bit (bswap32 (bswap32 w)) n \<longleftrightarrow> bit w n"
    using n by (cases n rule: byte_cases) (simp_all add: bit_bswap32 add.commute)
qed

text \<open>\<^verbatim>\<open>ntohll\<close> of \<^verbatim>\<open>htonll\<close> gives the number back: an address or an activity survives the transfer.\<close>

theorem ntohll_htonll: "ntohll (htonll v) = v"
proof -
  have low: "(ucast (drop_bit 32 (push_bit 32 (htonll v))) :: 32 word) = bswap32 (ucast (drop_bit 32 v))"
    by (rule bit_word_eqI) (auto simp: htonll_def bit_simps)
  have "\<not> bit (bswap32 w) (32 + n)" for w n by (simp add: bit_bswap32)
  then have high: "(ucast (drop_bit 32 (htonll v)) :: 32 word) = bswap32 (ucast (v AND 0xFFFFFFFF))"
    by (intro bit_word_eqI) (simp add: htonll_def bit_simps add.commute)
  have mask: "(0xFFFFFFFF :: 64 word) = mask 32" by (simp add: mask_eq_exp_minus_1)
  show ?thesis
    unfolding ntohll_def low high bswap32_bswap32 mask
    by (rule bit_word_eqI) (auto simp: bit_simps)
qed

end
