(* ===== verification/Daemon_Witness.thy ===== *)
theory Daemon_Witness
  imports Daemon_Props
begin

text \<open>
  The properties of the memory server at a concrete run: the server starts with two chunks, a
  client connects, and asks for memory.
\<close>

definition ex_meminfo :: string where
  "ex_meminfo = ''MemTotal: 16777216 kB'' @ [CHR 0x0A] @ ''MemFree: 12582912 kB'' @ [CHR 0x0A]"

definition ex_msg :: "daemon_msg_type \<Rightarrow> int \<Rightarrow> daemon_msg" where
  "ex_msg t n = \<lparr>dm_buf = (\<lambda>_. 0), dm_rkey = (\<lambda>_. 0), dm_size_gb = n, dm_type = t\<rparr>"

definition ex_start :: session where
  "ex_start = \<lparr>ds_heap = Map.empty, ds_next = 0, ds_conns = (\<lambda>_. None), ds_conns_state = (\<lambda>_. CONN_IDLE),
         ds_conn_num = 0, ds_region = (\<lambda>i. int i < 2), ds_mr = (\<lambda>_. False), ds_size_gb = 2,
         ds_mapped_size = 0, ds_conn_map = (\<lambda>_. -1), ds_malloc_map = (\<lambda>i. int i < 2),
         ds_conn_chunk_map = (\<lambda>_. -1), ds_running = True\<rparr>"

definition ex_vars :: free_mem_vars where
  "ex_vars = \<lparr>fm_last_free_mem_g = 12, fm_evict_hit_count = 0, fm_expand_hit_count = 0\<rparr>"

definition ex_conn :: daemon_conn where
  "ex_conn = (new_dconn (ex_msg OTHER_MSG 0) (Some (int 0)))
     \<lparr>dc_posted := 1, dc_connected := True, dc_send_msg := ex_msg FREE_SIZE 2, dc_sent := [ex_msg FREE_SIZE 2]\<rparr>"

definition ex_session :: session where
  "ex_session = put_dconn 0 ex_conn (accepted_session (ex_msg OTHER_MSG 0) 0 ex_start)"

definition ex_reg :: "nat \<Rightarrow> (64 word \<times> 32 word) option" where
  "ex_reg i = Some (0x1000, 7)"

lemma ex_free_gb: "free_gb (Some ex_meminfo) = Inr 12"
  by code_simp

lemma ex_start_init: "rdma_session_init (Some ex_meminfo) = Inr ex_start"
  by (simp add: rdma_session_init_def ex_free_gb ex_start_def initial_size_def Let_def
      FREE_MEM_EXPAND_THRESHOLD_def FREE_MEM_EVICT_THRESHOLD_def MAX_FREE_MEM_GB_def)

lemma ex_idle: "find (\<lambda>i. ds_conns_state ex_start i = CONN_IDLE) [0 ..< MAX_CLIENT] = Some 0"
  by (simp add: ex_start_def MAX_CLIENT_def upt_conv_Cons)

lemma ex_established:
  "on_event True (ex_msg OTHER_MSG 0) (ESTABLISHED 0) (accepted_session (ex_msg OTHER_MSG 0) 0 ex_start) = Inr ex_session"
  by (simp add: on_event_def on_connect_def daemon_ops accepted_session_def ex_start_def ex_session_def ex_conn_def
      new_dconn_def ex_msg_def put_dconn_def)

lemma ex_reach: "reach daemon_initial daemon_step (ex_vars, ex_session)"
proof -
  have "daemon_initial (ex_vars, ex_start)" using ex_start_init by (auto simp: daemon_initial_def)
  then have "reach daemon_initial daemon_step (ex_vars, ex_start)" by (rule reach_init)
  moreover have "daemon_step (ex_vars, ex_start) (ex_vars, accepted_session (ex_msg OTHER_MSG 0) 0 ex_start)"
    by (rule connect [where garbage = "ex_msg OTHER_MSG 0"])
      (simp_all add: ex_idle on_event_def connect_equation [OF ex_idle])
  moreover have "daemon_step (ex_vars, accepted_session (ex_msg OTHER_MSG 0) 0 ex_start) (ex_vars, ex_session)"
    by (rule established [OF _ ex_established]) (simp add: accepted_session_def ex_start_def)
  ultimately show ?thesis by (blast intro: reach_step)
qed

lemma ex_session_sel:
  "ds_heap ex_session 0 = Some ex_conn" "dc_connected ex_conn" "dc_conn_index ex_conn = Some (int 0)"
  "ds_size_gb ex_session = 2" "ds_mapped_size ex_session = 0" "ds_conn_map ex_session = (\<lambda>_. -1)"
  "ds_malloc_map ex_session = (\<lambda>i. int i < 2)" "ds_conns ex_session = [0 \<mapsto> 0]"
  by (simp_all add: ex_session_def ex_conn_def new_dconn_def accepted_session_def ex_start_def)

lemma ex_reg_some: "\<forall>i. ex_reg i \<noteq> None"
  by (simp add: ex_reg_def)


theorem requests_served_witness:
  "\<exists>s'. daemon_on_completion ex_reg True True 0 (arrived 0 ex_conn (ex_msg BIND_SINGLE 5) ex_session) = Inr s' \<and>
     reach daemon_initial daemon_step (ex_vars, s')"
  by (rule requests_served [OF ex_reach ex_session_sel(1-3) _ ex_reg_some])
    (simp add: good_request_def ex_msg_def ex_session_sel)

theorem bind_result_witness:
  "\<exists>s' k' chs. daemon_on_completion ex_reg True True 0 (arrived 0 ex_conn (ex_msg BIND 2) ex_session) = Inr s' \<and>
    int (card chs) = 2 \<and> ds_conn_map s' = (\<lambda>i. if i \<in> chs then 0 else -1) \<and> ds_mapped_size s' = 2 \<and>
    ds_heap s' 0 = Some k' \<and> dm_type (dc_send_msg k') = INFO \<and> dm_size_gb (dc_send_msg k') = 2"
  using bind_result [OF ex_reach ex_session_sel(1-3) ex_reg_some, of "ex_msg BIND 2" 2]
  by (auto simp: ex_msg_def ex_session_sel cong: if_cong)

theorem bind_overcommits_witness:
  "\<exists>s'. daemon_on_completion ex_reg True True 0 (arrived 0 ex_conn (ex_msg BIND 5) ex_session) = Inr s' \<and>
    int (card {i. ds_conn_map s' i \<noteq> -1}) < ds_mapped_size s' \<and> ds_size_gb s' - ds_mapped_size s' < 0"
  using bind_overcommits [OF ex_reach ex_session_sel(1-3) ex_reg_some, of "ex_msg BIND 5" 5]
  by (auto simp: ex_msg_def ex_session_sel)







end
