(* ===== verification/Rack_Producer.thy ===== *)
theory Rack_Producer
  imports Coordinator
begin

text \<open>
  The producer of the rack, \<^verbatim>\<open>framework/infiniswap_daemon/producer.c\<close>: it exports memory, registers
  it with the coordinator, and keeps a list of the clients that are connected to it. The
  connections and messages are those of \<^verbatim>\<open>rcommon.h\<close>. \<open>mmap\<close> gives the address of the memory of
  a size that the kernel maps, \<open>reg\<close> the key that the registration of the memory returns, and
  \<open>rdma_ok\<close> tells whether the other calls of the RDMA library succeed.
\<close>

section \<open>State\<close>

definition COORDINATOR_IP :: string where "COORDINATOR_IP = ''192.168.0.1''"
definition COORDINATOR_PORT :: int where "COORDINATOR_PORT = 9400"
definition RDMA_PRODUCER_IP :: string where "RDMA_PRODUCER_IP = ''192.168.0.2''"
definition RDMA_PRODUCER_PORT :: int where "RDMA_PRODUCER_PORT = 9402"
definition RDMA_PRODUCER_NSLABS :: int where "RDMA_PRODUCER_NSLABS = 524288"

record client_info_t =
  cl_lstptr :: "nat option"

text \<open>
  \<open>rp_region\<close> is the size that the memory was registered with; \<open>rp_coord\<close> is the connection that
  the context of \<^verbatim>\<open>_coord.rid\<close> points to; \<open>rp_ctx\<close> tells whether \<^verbatim>\<open>s_ctx\<close> has been allocated.
\<close>

record rack_producer =
  rp_nodes :: nodes
  rp_clients :: "nat \<rightharpoonup> client_info_t"
  rp_conns :: "nat \<rightharpoonup> connection"
  rp_next :: nat
  rp_head :: nat
  rp_tail :: nat
  rp_coord_ip :: string
  rp_coord_port :: int
  rp_ip :: string
  rp_port :: int
  rp_cluster_size :: "64 word"
  rp_peer_ip :: string
  rp_peer_port :: int
  rp_base_addr :: "64 word"
  rp_rdma_key :: "64 word"
  rp_region :: "64 word"
  rp_ctx :: bool
  rp_coord :: "nat option"

definition rp_alloc :: "rack_producer \<Rightarrow> nat \<times> rack_producer" where
  "rp_alloc s = (rp_next s, s\<lparr>rp_next := rp_next s + 1\<rparr>)"

definition rp_put_conn :: "nat \<Rightarrow> connection \<Rightarrow> rack_producer \<Rightarrow> rack_producer" where
  "rp_put_conn c k s = s\<lparr>rp_conns := (rp_conns s)(c \<mapsto> k)\<rparr>"

section \<open>The list of clients\<close>

definition clilst_init :: "rack_producer \<Rightarrow> rack_producer" where
  "clilst_init s =
     (let (h, s1) = rp_alloc s; (t, s2) = rp_alloc s1 in
      s2\<lparr>rp_head := h, rp_tail := t, rp_nodes := dl_init h t (rp_nodes s2)\<rparr>)"

definition clilst_add :: "nat \<Rightarrow> rack_producer \<Rightarrow> rack_producer res" where
  "clilst_add cl s =
     (let (nd, s1) = rp_alloc s in
      rbind (heap_at (rp_clients s1) cl) (\<lambda>x.
      rbind (dl_add (rp_head s1) nd cl (rp_nodes s1)) (\<lambda>h.
        Inr (s1\<lparr>rp_clients := (rp_clients s1)(cl \<mapsto> x\<lparr>cl_lstptr := Some nd\<rparr>), rp_nodes := h\<rparr>))))"

text \<open>A null pointer fails the first assertion.\<close>

definition clilst_remove :: "nat option \<Rightarrow> rack_producer \<Rightarrow> rack_producer res" where
  "clilst_remove cli s =
     (case cli of
        None \<Rightarrow> Inl AssertFail
      | Some cl \<Rightarrow>
          rbind (heap_at (rp_clients s) cl) (\<lambda>x.
            if cl_lstptr x = Some (rp_head s) \<or> cl_lstptr x = Some (rp_tail s) then Inl AssertFail
            else
              rbind (ptr (cl_lstptr x)) (\<lambda>nd.
              rbind (node_at (rp_nodes s) nd) (\<lambda>n.
              rbind (dl_remove (rp_head s) (rp_tail s) nd (rp_nodes s)) (\<lambda>h.
              rbind (ptr (dn_item n)) (\<lambda>q.
              rbind (heap_at (rp_clients s) q) (\<lambda>_.
                Inr (s\<lparr>rp_nodes := h, rp_clients := (rp_clients s)(q := None)\<rparr>))))))))"

fun clilst_destroy_loop :: "nat \<Rightarrow> nat option \<Rightarrow> rack_producer \<Rightarrow> rack_producer res" where
  "clilst_destroy_loop 0 cur s = Inl Diverges"
| "clilst_destroy_loop (Suc n) cur s =
     (if cur = Some (rp_tail s) then Inr s
      else rbind (ptr cur) (\<lambda>nd. rbind (node_at (rp_nodes s) nd) (\<lambda>x.
           rbind (clilst_remove (dn_item x) s) (clilst_destroy_loop n (dn_next x)))))"

text \<open>The list has at most as many nodes as addresses have been given out.\<close>

definition clilst_destroy :: "rack_producer \<Rightarrow> rack_producer res" where
  "clilst_destroy s =
     rbind (node_at (rp_nodes s) (rp_head s)) (\<lambda>hd.
     rbind (clilst_destroy_loop (rp_next s + 1) (dn_next hd) s) (\<lambda>s1.
       Inr (s1\<lparr>rp_nodes := (rp_nodes s1)(rp_head s1 := None, rp_tail s1 := None)\<rparr>)))"

section \<open>Exported memory\<close>

definition producer_export_memory ::
  "(64 word \<Rightarrow> 64 word option) \<Rightarrow> (64 word \<Rightarrow> 64 word \<Rightarrow> 32 word option) \<Rightarrow> 64 word \<Rightarrow> 64 word \<Rightarrow>
   rack_producer \<Rightarrow> rack_producer res" where
  "producer_export_memory mmap reg num_clusters cluster_size s =
     (let n = cluster_size * num_clusters in
      case mmap n of
        None \<Rightarrow> Inl AssertFail
      | Some p \<Rightarrow>
          (case reg p n of
             None \<Rightarrow> Inl AssertFail
           | Some key \<Rightarrow> Inr (s\<lparr>rp_base_addr := p, rp_rdma_key := ucast key, rp_region := n\<rparr>)))"

section \<open>The connection to the coordinator\<close>

definition rp_post_receives :: "nat \<Rightarrow> rack_producer \<Rightarrow> rack_producer res" where
  "rp_post_receives c s = rbind (heap_at (rp_conns s) c) (\<lambda>k.
     if cn_qp_ok k then Inr (rp_put_conn c (k\<lparr>cn_posted := cn_posted k + 1\<rparr>) s) else Inl AssertFail)"

definition rp_send_message :: "nat \<Rightarrow> rack_producer \<Rightarrow> rack_producer res" where
  "rp_send_message c s = rbind (heap_at (rp_conns s) c) (\<lambda>k.
     if \<not> cn_connected k then Inl Diverges
     else if cn_qp_ok k then Inr (rp_put_conn c (k\<lparr>cn_sent := cn_sent k @ [cn_send_msg k]\<rparr>) s)
     else Inl AssertFail)"

definition send_msg_producer_add :: "nat \<Rightarrow> rack_producer \<Rightarrow> rack_producer res" where
  "send_msg_producer_add c s = rbind (heap_at (rp_conns s) c) (\<lambda>k.
     rbind (copy_str 200 (rp_ip s)) (\<lambda>ip.
       rp_send_message c (rp_put_conn c (k\<lparr>cn_send_msg := (cn_send_msg k)
         \<lparr>msg_type := MSG_PRODUCER_ADD, msg_ip := ip, msg_port := rp_port s,
          msg_nslabs := to_int32 (uint (rp_cluster_size s)), msg_addr := rp_base_addr s,
          msg_rdmakey := ucast (rp_rdma_key s)\<rparr>\<rparr>) s)))"

definition send_msg_producer_rem :: "nat \<Rightarrow> rack_producer \<Rightarrow> rack_producer res" where
  "send_msg_producer_rem c s = rbind (heap_at (rp_conns s) c) (\<lambda>k.
     rbind (copy_str 200 (rp_ip s)) (\<lambda>ip.
       rp_send_message c (rp_put_conn c (k\<lparr>cn_send_msg := (cn_send_msg k)
         \<lparr>msg_type := MSG_PRODUCER_REM, msg_ip := ip\<rparr>\<rparr>) s)))"

datatype wc_opcode = IBV_WC_SEND | IBV_WC_RDMA_READ | IBV_WC_RDMA_WRITE | IBV_WC_RECV

definition on_completion_client ::
  "bool \<Rightarrow> wc_opcode \<Rightarrow> wc_opcode \<Rightarrow> msg_type \<Rightarrow> nat \<Rightarrow> rack_producer \<Rightarrow> rack_producer res" where
  "on_completion_client ok wc_op opcode mt c s =
     (if \<not> ok then Inl AssertFail
      else rbind (heap_at (rp_conns s) c) (\<lambda>k.
        if wc_op = IBV_WC_RECV then
          (if opcode \<noteq> IBV_WC_RECV \<or> msg_type (cn_recv_msg k) \<noteq> mt then Inl AssertFail
           else case msg_type (cn_recv_msg k) of MSG_DONE \<Rightarrow> Inr s | _ \<Rightarrow> Inl AssertFail)
        else if opcode = IBV_WC_SEND then
          (if msg_type (cn_send_msg k) = mt then Inr s else Inl AssertFail)
        else if opcode = IBV_WC_RDMA_READ \<or> opcode = IBV_WC_RDMA_WRITE then Inr s
        else Inl AssertFail))"

text \<open>\<^verbatim>\<open>build_context_client\<close> allocates the context unless there is one.\<close>

definition build_context_client :: "rack_producer \<Rightarrow> rack_producer" where
  "build_context_client s = s\<lparr>rp_ctx := True\<rparr>"

definition rp_new_conn :: "message \<Rightarrow> nat option \<Rightarrow> connection" where
  "rp_new_conn garbage peer =
     \<lparr>cn_peer = peer, cn_connected = False, cn_qp_ok = True, cn_recv_msg = garbage,
      cn_send_msg = garbage, cn_posted = 0, cn_sent = []\<rparr>"

definition build_connection_client :: "bool \<Rightarrow> message \<Rightarrow> rack_producer \<Rightarrow> rack_producer res" where
  "build_connection_client rdma_ok garbage s =
     (let (c, s1) = rp_alloc (build_context_client s) in
      if \<not> rdma_ok then Inl AssertFail
      else rp_post_receives c ((rp_put_conn c (rp_new_conn garbage None) s1)\<lparr>rp_coord := Some c\<rparr>))"

definition on_addr_resolved :: "bool \<Rightarrow> message \<Rightarrow> rack_producer \<Rightarrow> (int \<times> rack_producer) res" where
  "on_addr_resolved rdma_ok garbage s =
     rbind (build_connection_client rdma_ok garbage s) (\<lambda>s1. Inr (0, s1))"

definition on_route_resolved :: "bool \<Rightarrow> rack_producer \<Rightarrow> (int \<times> rack_producer) res" where
  "on_route_resolved rdma_ok s = (if rdma_ok then Inr (0, s) else Inl AssertFail)"

definition on_connection_client :: "rack_producer \<Rightarrow> (int \<times> rack_producer) res" where
  "on_connection_client s =
     rbind (ptr (rp_coord s)) (\<lambda>c.
     rbind (heap_at (rp_conns s) c) (\<lambda>k.
     rbind (send_msg_producer_add c (rp_put_conn c (k\<lparr>cn_connected := True\<rparr>) s)) (\<lambda>s1. Inr (1, s1))))"

definition rp_destroy_connection :: "nat \<Rightarrow> rack_producer \<Rightarrow> rack_producer res" where
  "rp_destroy_connection c s = rbind (heap_at (rp_conns s) c) (\<lambda>_.
     Inr (s\<lparr>rp_conns := (rp_conns s)(c := None)\<rparr>))"

definition on_disconnect_client :: "rack_producer \<Rightarrow> (int \<times> rack_producer) res" where
  "on_disconnect_client s =
     rbind (ptr (rp_coord s)) (\<lambda>c. rbind (rp_destroy_connection c s) (\<lambda>s1. Inr (1, s1)))"

datatype client_event = ADDR_RESOLVED | ROUTE_RESOLVED | CLIENT_ESTABLISHED | CLIENT_DISCONNECTED | CLIENT_OTHER

definition rp_on_event :: "bool \<Rightarrow> message \<Rightarrow> client_event \<Rightarrow> rack_producer \<Rightarrow> (int \<times> rack_producer) res" where
  "rp_on_event rdma_ok garbage ev s =
     (case ev of
        ADDR_RESOLVED \<Rightarrow> on_addr_resolved rdma_ok garbage s
      | ROUTE_RESOLVED \<Rightarrow> on_route_resolved rdma_ok s
      | CLIENT_ESTABLISHED \<Rightarrow> on_connection_client s
      | CLIENT_DISCONNECTED \<Rightarrow> on_disconnect_client s
      | CLIENT_OTHER \<Rightarrow> Inl AssertFail)"

text \<open>The events that the channel of the coordinator delivers, until one ends the loop.\<close>

fun coordinator_connect :: "bool \<Rightarrow> message \<Rightarrow> client_event list \<Rightarrow> rack_producer \<Rightarrow> rack_producer res" where
  "coordinator_connect rdma_ok garbage [] s = Inr s"
| "coordinator_connect rdma_ok garbage (ev # evs) s =
     rbind (rp_on_event rdma_ok garbage ev s) (\<lambda>(r, s1).
       if r \<noteq> 0 then Inr s1 else coordinator_connect rdma_ok garbage evs s1)"

definition connect2coordinator ::
  "bool \<Rightarrow> message \<Rightarrow> client_event list \<Rightarrow> string \<Rightarrow> int \<Rightarrow> rack_producer \<Rightarrow> rack_producer res" where
  "connect2coordinator rdma_ok garbage evs coord_ip coord_port s =
     rbind (copy_str 200 coord_ip) (\<lambda>ip.
       if \<not> rdma_ok then Inl AssertFail
       else coordinator_connect rdma_ok garbage evs (s\<lparr>rp_peer_ip := ip, rp_peer_port := coord_port\<rparr>))"

section \<open>Start and end\<close>

definition producer_create ::
  "(64 word \<Rightarrow> 64 word option) \<Rightarrow> (64 word \<Rightarrow> 64 word \<Rightarrow> 32 word option) \<Rightarrow> bool \<Rightarrow> message \<Rightarrow>
   client_event list \<Rightarrow> rack_producer \<Rightarrow> rack_producer res" where
  "producer_create mmap reg rdma_ok garbage evs s =
     (let s1 = clilst_init (s\<lparr>rp_base_addr := 0, rp_rdma_key := 0\<rparr>) in
      if \<not> rdma_ok then Inl AssertFail
      else
        rbind (producer_export_memory mmap reg (rp_cluster_size s1) (word_of_int RDMA_PRODUCER_SLAB_SIZE)
                 (s1\<lparr>rp_ctx := True\<rparr>)) (\<lambda>s2.
          connect2coordinator rdma_ok garbage evs (rp_coord_ip s2) (rp_coord_port s2) s2))"

definition producer_destroy :: "rack_producer \<Rightarrow> rack_producer res" where
  "producer_destroy s = clilst_destroy s"

section \<open>Clients\<close>

definition rp_on_completion :: "bool \<Rightarrow> bool \<Rightarrow> nat \<Rightarrow> rack_producer \<Rightarrow> rack_producer res" where
  "rp_on_completion ok recv c s =
     (if \<not> ok then Inr s
      else rbind (heap_at (rp_conns s) c) (\<lambda>k.
        if recv then (case msg_type (cn_recv_msg k) of MSG_DONE \<Rightarrow> Inr s | _ \<Rightarrow> Inl AssertFail)
        else Inr s))"

definition rp_build_connection :: "bool \<Rightarrow> message \<Rightarrow> rack_producer \<Rightarrow> (nat \<times> rack_producer) res" where
  "rp_build_connection rdma_ok garbage s =
     (if \<not> rp_ctx s then Inl NullDeref
      else if \<not> rdma_ok then Inl AssertFail
      else
        (let (c, s1) = rp_alloc s; (cl, s2) = rp_alloc s1 in
         rbind (clilst_add cl (s2\<lparr>rp_clients := (rp_clients s2)(cl \<mapsto> \<lparr>cl_lstptr = None\<rparr>)\<rparr>)) (\<lambda>s3.
         rbind (rp_post_receives c (rp_put_conn c (rp_new_conn garbage (Some cl)) s3)) (\<lambda>s4. Inr (c, s4)))))"

definition rp_on_connect_request :: "bool \<Rightarrow> message \<Rightarrow> rack_producer \<Rightarrow> (nat \<times> rack_producer) res" where
  "rp_on_connect_request rdma_ok garbage s = rp_build_connection rdma_ok garbage s"

definition rp_on_connection :: "nat \<Rightarrow> rack_producer \<Rightarrow> rack_producer res" where
  "rp_on_connection c s = rbind (heap_at (rp_conns s) c) (\<lambda>k.
     Inr (rp_put_conn c (k\<lparr>cn_connected := True\<rparr>) s))"

definition rp_on_disconnect :: "nat \<Rightarrow> rack_producer \<Rightarrow> rack_producer res" where
  "rp_on_disconnect c s = rbind (heap_at (rp_conns s) c) (\<lambda>k.
     rbind (clilst_remove (cn_peer k) (rp_put_conn c (k\<lparr>cn_connected := False\<rparr>) s))
       (rp_destroy_connection c))"

definition rp_process_event :: "bool \<Rightarrow> message \<Rightarrow> cm_event \<Rightarrow> rack_producer \<Rightarrow> rack_producer res" where
  "rp_process_event rdma_ok garbage ev s =
     (case ev of
        RDMA_CM_EVENT_CONNECT_REQUEST \<Rightarrow>
          rbind (rp_on_connect_request rdma_ok garbage s) (\<lambda>(c, s1). Inr s1)
      | RDMA_CM_EVENT_ESTABLISHED c \<Rightarrow> rp_on_connection c s
      | RDMA_CM_EVENT_DISCONNECTED c \<Rightarrow> rp_on_disconnect c s
      | RDMA_CM_EVENT_OTHER \<Rightarrow> Inl Bug)"

text \<open>\<open>cevs\<close> are the events of the coordinator, \<open>evs\<close> those of the clients until the producer is aborted.\<close>

definition producer_run ::
  "(64 word \<Rightarrow> 64 word option) \<Rightarrow> (64 word \<Rightarrow> 64 word \<Rightarrow> 32 word option) \<Rightarrow> bool \<Rightarrow> message \<Rightarrow>
   client_event list \<Rightarrow> cm_event list \<Rightarrow> rack_producer \<Rightarrow> rack_producer res" where
  "producer_run mmap reg rdma_ok garbage cevs evs s =
     rbind (producer_create mmap reg rdma_ok garbage cevs s) (\<lambda>s1.
     rbind (rfold (rp_process_event rdma_ok garbage) evs s1) (\<lambda>s2.
     rbind (ptr (rp_coord s2)) (\<lambda>c.
     rbind (send_msg_producer_rem c s2) producer_destroy)))"

text \<open>
  The options that \<^verbatim>\<open>getopt\<close> returns for \<^verbatim>\<open>"hs:p:c:r:n:"\<close>: \<^verbatim>\<open>-s\<close> has no case, and the case of \<^verbatim>\<open>-i\<close> is
  never reached. The result is \<open>None\<close> when the program ends.
\<close>

definition rp_option :: "char \<times> string \<Rightarrow> rack_producer \<Rightarrow> rack_producer option res" where
  "rp_option opt s =
     (let (o', arg) = opt in
      if o' = CHR ''h'' then Inr None
      else if o' = CHR ''i'' then rbind (copy_str 200 arg) (\<lambda>a. Inr (Some (s\<lparr>rp_ip := a\<rparr>)))
      else if o' = CHR ''p'' then Inr (Some (s\<lparr>rp_port := atoi arg\<rparr>))
      else if o' = CHR ''c'' then rbind (copy_str 200 arg) (\<lambda>a. Inr (Some (s\<lparr>rp_coord_ip := a\<rparr>)))
      else if o' = CHR ''r'' then Inr (Some (s\<lparr>rp_coord_port := atoi arg\<rparr>))
      else if o' = CHR ''n'' then Inr (Some (s\<lparr>rp_cluster_size := word_of_int (atoi arg)\<rparr>))
      else Inr (Some s))"

definition rp_defaults :: rack_producer where
  "rp_defaults =
     \<lparr>rp_nodes = Map.empty, rp_clients = Map.empty, rp_conns = Map.empty, rp_next = 0, rp_head = 0,
      rp_tail = 0, rp_coord_ip = COORDINATOR_IP, rp_coord_port = COORDINATOR_PORT,
      rp_ip = RDMA_PRODUCER_IP, rp_port = RDMA_PRODUCER_PORT,
      rp_cluster_size = word_of_int RDMA_PRODUCER_NSLABS, rp_peer_ip = [], rp_peer_port = 0,
      rp_base_addr = 0, rp_rdma_key = 0, rp_region = 0, rp_ctx = False, rp_coord = None\<rparr>"

end
