(* ===== verification/Rack_Producer_Inv.thy ===== *)
theory Rack_Producer_Inv
  imports Rack_Producer Coordinator_Props
begin

text \<open>
  The invariant of the rack producer: its list has one client for each connection of a client.
\<close>

section \<open>Start\<close>

definition rp_started :: "string \<Rightarrow> int \<Rightarrow> string \<Rightarrow> int \<Rightarrow> 64 word \<Rightarrow> rack_producer" where
  "rp_started ip port cip cport n =
     rp_defaults\<lparr>rp_coord_ip := cip, rp_coord_port := cport, rp_ip := ip, rp_port := port, rp_cluster_size := n\<rparr>"

text \<open>The message with which the producer registers.\<close>

definition registration :: "message \<Rightarrow> string \<Rightarrow> int \<Rightarrow> 64 word \<Rightarrow> 64 word \<Rightarrow> 32 word \<Rightarrow> message" where
  "registration garbage ip port n base key =
     garbage\<lparr>msg_type := MSG_PRODUCER_ADD, msg_ip := ip, msg_port := port,
       msg_nslabs := to_int32 (uint n), msg_addr := base, msg_rdmakey := key\<rparr>"

definition rp_coord_conn :: "message \<Rightarrow> message \<Rightarrow> connection" where
  "rp_coord_conn garbage m =
     \<lparr>cn_peer = None, cn_connected = True, cn_qp_ok = True, cn_recv_msg = garbage, cn_send_msg = m,
      cn_posted = 1, cn_sent = [m]\<rparr>"

definition rp_created ::
  "message \<Rightarrow> string \<Rightarrow> int \<Rightarrow> string \<Rightarrow> int \<Rightarrow> 64 word \<Rightarrow> 64 word \<Rightarrow> 32 word \<Rightarrow> rack_producer" where
  "rp_created garbage ip port cip cport n base key =
     (rp_started ip port cip cport n)\<lparr>rp_nodes := dl_init 0 1 Map.empty,
       rp_conns := [2 \<mapsto> rp_coord_conn garbage (registration garbage ip port n base key)],
       rp_next := 3, rp_head := 0, rp_tail := 1, rp_peer_ip := cip, rp_peer_port := cport,
       rp_base_addr := base, rp_rdma_key := ucast key, rp_region := 131072 * n, rp_ctx := True,
       rp_coord := Some 2\<rparr>"

abbreviation connect_events :: "client_event list" where
  "connect_events \<equiv> [ADDR_RESOLVED, ROUTE_RESOLVED, CLIENT_ESTABLISHED]"

lemma ucast_key: "ucast (ucast (key :: 32 word) :: 64 word) = key"
  by (rule bit_word_eqI) (simp add: bit_simps)

lemma create_equation:
  assumes "mmap (131072 * n) = Some base" "reg base (131072 * n) = Some key"
    "length ip < 200" "length cip < 200"
  shows "producer_create mmap reg True garbage connect_events (rp_started ip port cip cport n) =
    Inr (rp_created garbage ip port cip cport n base key)"
  using assms
  by (simp add: producer_create_def rp_started_def rp_defaults_def clilst_init_def rp_alloc_def
      producer_export_memory_def connect2coordinator_def RDMA_PRODUCER_SLAB_SIZE_def copy_str_def
      rp_on_event_def on_addr_resolved_def on_route_resolved_def on_connection_client_def
      build_connection_client_def build_context_client_def rp_post_receives_def rp_put_conn_def
      rp_new_conn_def heap_at_def ptr_def send_msg_producer_add_def rp_send_message_def
      rp_created_def registration_def rp_coord_conn_def ucast_key numeral_2_eq_2 numeral_3_eq_3)

lemma create_result:
  assumes "producer_create mmap reg True garbage connect_events (rp_started ip port cip cport n) = Inr s"
  shows "\<exists>base key. s = rp_created garbage ip port cip cport n base key"
proof -
  let ?s1 = "clilst_init ((rp_started ip port cip cport n)\<lparr>rp_base_addr := 0, rp_rdma_key := 0\<rparr>)"
  have n: "rp_cluster_size ?s1 = n" "rp_ip ?s1 = ip" "rp_coord_ip ?s1 = cip"
    by (simp_all add: clilst_init_def rp_alloc_def rp_started_def)
  from assms obtain base key where b: "mmap (131072 * n) = Some base" "reg base (131072 * n) = Some key"
    by (auto simp: producer_create_def producer_export_memory_def n RDMA_PRODUCER_SLAB_SIZE_def rbind_eq_Inr Let_def
        split: option.splits)
  have "length cip < 200"
    using assms b by (auto simp: producer_create_def producer_export_memory_def n RDMA_PRODUCER_SLAB_SIZE_def
        connect2coordinator_def copy_str_def rbind_eq_Inr Let_def split: if_splits)
  moreover have "length ip < 200"
  proof (rule ccontr)
    assume "\<not> length ip < 200"
    with assms b \<open>length cip < 200\<close> show False
      by (simp add: producer_create_def rp_started_def rp_defaults_def clilst_init_def rp_alloc_def
          producer_export_memory_def connect2coordinator_def RDMA_PRODUCER_SLAB_SIZE_def copy_str_def
          rp_on_event_def on_addr_resolved_def on_route_resolved_def on_connection_client_def
          build_connection_client_def build_context_client_def rp_post_receives_def rp_put_conn_def
          rp_new_conn_def heap_at_def ptr_def send_msg_producer_add_def)
  qed
  ultimately show ?thesis using assms create_equation [where mmap = mmap and reg = reg, OF b] by auto
qed

section \<open>Invariant\<close>

definition rp_list_inv :: "rack_producer \<Rightarrow> (nat \<times> nat) list \<Rightarrow> bool" where
  "rp_list_inv s xs \<longleftrightarrow> dl_repr (rp_nodes s) (rp_head s) (rp_tail s) xs \<and>
     dom (rp_nodes s) = {rp_head s, rp_tail s} \<union> fst ` set xs \<and> distinct (map snd xs) \<and>
     (\<forall>nd cl. (nd, cl) \<in> set xs \<longrightarrow> rp_clients s cl = Some \<lparr>cl_lstptr = Some nd\<rparr>) \<and>
     dom (rp_clients s) = snd ` set xs \<and> length xs \<le> rp_next s \<and>
     (\<forall>a \<in> dom (rp_nodes s) \<union> dom (rp_clients s) \<union> dom (rp_conns s). a < rp_next s)"

text \<open>Maps in which no two keys have the same value.\<close>

definition minj :: "('a \<rightharpoonup> 'b) \<Rightarrow> bool" where
  "minj m \<longleftrightarrow> (\<forall>c d x. m c = Some x \<longrightarrow> m d = Some x \<longrightarrow> c = d)"

lemma minj_upd: "minj m \<Longrightarrow> x \<notin> ran m \<Longrightarrow> minj (m(c \<mapsto> x))"
  unfolding minj_def ran_def by auto

lemma minj_del: "minj m \<Longrightarrow> minj (m(c := None))"
  unfolding minj_def by auto

lemma minj_ran_del: "minj m \<Longrightarrow> m c = Some x \<Longrightarrow> ran (m(c := None)) = ran m - {x}"
  unfolding minj_def ran_def by auto (metis option.inject)

definition peer_map :: "rack_producer \<Rightarrow> nat \<rightharpoonup> nat" where
  "peer_map s c = Option.bind (rp_conns s c) cn_peer"

definition rp_conns_inv :: "rack_producer \<Rightarrow> bool" where
  "rp_conns_inv s \<longleftrightarrow> rp_ctx s \<and> (\<forall>c k. rp_conns s c = Some k \<longrightarrow> cn_qp_ok k) \<and>
     ran (peer_map s) = dom (rp_clients s) \<and> minj (peer_map s)"

definition rp_inv :: "rack_producer \<Rightarrow> bool" where
  "rp_inv s \<longleftrightarrow> (\<exists>xs. rp_list_inv s xs) \<and> rp_conns_inv s"

lemma created_inv: "rp_inv (rp_created garbage ip port cip cport n base key)"
proof -
  let ?s = "rp_created garbage ip port cip cport n base key"
  have f: "rp_nodes ?s = dl_init 0 1 Map.empty" "rp_clients ?s = Map.empty" "rp_head ?s = 0" "rp_tail ?s = 1"
    "rp_conns ?s = [2 \<mapsto> rp_coord_conn garbage (registration garbage ip port n base key)]" "rp_next ?s = 3" "rp_ctx ?s"
    by (simp_all add: rp_created_def rp_started_def rp_defaults_def)
  have "rp_list_inv ?s []"
    using dl_init_repr [of 0 1 Map.empty] by (auto simp: rp_list_inv_def f dl_init_def)
  moreover have "rp_conns_inv ?s"
    by (auto simp: rp_conns_inv_def peer_map_def f rp_coord_conn_def ran_def dom_def minj_def split: if_splits)
  ultimately show ?thesis by (auto simp: rp_inv_def)
qed

text \<open>A change of a connection that leaves its client.\<close>

lemma rp_put_conn_inv:
  assumes inv: "rp_inv s" and k: "rp_conns s c = Some k" "cn_peer k' = cn_peer k" "cn_qp_ok k'"
  shows "rp_inv (rp_put_conn c k' s)"
proof -
  have "rp_list_inv (rp_put_conn c k' s) xs" if "rp_list_inv s xs" for xs
    using that k(1) by (auto simp: rp_list_inv_def rp_put_conn_def)
  moreover have "peer_map (rp_put_conn c k' s) = peer_map s"
    using k(1,2) by (auto simp: peer_map_def rp_put_conn_def fun_eq_iff)
  then have "rp_conns_inv (rp_put_conn c k' s)"
    using inv k by (auto simp: rp_inv_def rp_conns_inv_def) (auto simp: rp_put_conn_def split: if_splits)
  ultimately show ?thesis using inv by (auto simp: rp_inv_def)
qed

section \<open>A client connects\<close>

lemma rp_connect_inv:
  assumes inv: "rp_inv s"
  shows "\<exists>s'. rp_process_event True garbage RDMA_CM_EVENT_CONNECT_REQUEST s = Inr s' \<and> rp_inv s'"
proof -
  from inv obtain xs where l: "rp_list_inv s xs" and ci: "rp_conns_inv s" by (auto simp: rp_inv_def)
  let ?c = "rp_next s" and ?cl = "rp_next s + 1" and ?nd = "rp_next s + 2"
  have d: "dl_repr (rp_nodes s) (rp_head s) (rp_tail s) xs"
    "dom (rp_nodes s) = {rp_head s, rp_tail s} \<union> fst ` set xs" "distinct (map snd xs)"
    "dom (rp_clients s) = snd ` set xs" "length xs \<le> rp_next s"
    "\<And>nd cl. (nd, cl) \<in> set xs \<Longrightarrow> rp_clients s cl = Some \<lparr>cl_lstptr = Some nd\<rparr>"
    "\<And>a. a \<in> dom (rp_nodes s) \<union> dom (rp_clients s) \<union> dom (rp_conns s) \<Longrightarrow> a < rp_next s"
    using l unfolding rp_list_inv_def by blast+
  have fresh: "rp_nodes s ?nd = None" "rp_clients s ?cl = None" "rp_conns s ?c = None"
    using d(7) [of ?nd] d(7) [of ?cl] d(7) [of ?c] by (meson UnCI domIff not_add_less1 less_irrefl)+
  from dl_add_repr [OF d(1) fresh(1), of ?cl] obtain h where
    h: "dl_add (rp_head s) ?nd ?cl (rp_nodes s) = Inr h" "dl_repr h (rp_head s) (rp_tail s) ((?nd, ?cl) # xs)"
    "\<forall>a. a \<notin> set (?nd # rp_head s # rp_tail s # map fst xs) \<longrightarrow> h a = rp_nodes s a" by blast
  let ?k = "(rp_new_conn garbage (Some ?cl))\<lparr>cn_posted := 1\<rparr>"
  let ?s = "s\<lparr>rp_nodes := h, rp_clients := (rp_clients s)(?cl \<mapsto> \<lparr>cl_lstptr = Some ?nd\<rparr>),
      rp_conns := (rp_conns s)(?c \<mapsto> ?k), rp_next := rp_next s + 3\<rparr>"
  have "rp_process_event True garbage RDMA_CM_EVENT_CONNECT_REQUEST s = Inr ?s"
    using h(1) ci
    by (simp add: rp_process_event_def rp_on_connect_request_def rp_build_connection_def rp_alloc_def clilst_add_def
        heap_at_def rp_post_receives_def rp_put_conn_def rp_new_conn_def rp_conns_inv_def Let_def
        numeral_2_eq_2 numeral_3_eq_3)
  moreover have domh: "dom h = {rp_head s, rp_tail s} \<union> fst ` set ((?nd, ?cl) # xs)"
  proof
    show "{rp_head s, rp_tail s} \<union> fst ` set ((?nd, ?cl) # xs) \<subseteq> dom h"
      using dl_repr_live [OF h(2)] by (auto simp: domIff)
    show "dom h \<subseteq> {rp_head s, rp_tail s} \<union> fst ` set ((?nd, ?cl) # xs)"
    proof
      fix a assume "a \<in> dom h"
      then show "a \<in> {rp_head s, rp_tail s} \<union> fst ` set ((?nd, ?cl) # xs)"
        using h(3) d(2) by (cases "a \<in> set (?nd # rp_head s # rp_tail s # map fst xs)") (auto simp: domIff)
    qed
  qed
  have bound: "\<forall>a \<in> dom h \<union> dom (rp_clients ?s) \<union> dom (rp_conns ?s). a < rp_next ?s"
  proof
    fix a assume "a \<in> dom h \<union> dom (rp_clients ?s) \<union> dom (rp_conns ?s)"
    then have "a \<in> dom (rp_nodes s) \<union> dom (rp_clients s) \<union> dom (rp_conns s) \<or> a = ?nd \<or> a = ?cl \<or> a = ?c"
      using domh d(2) by auto
    then have "a < rp_next s \<or> a = ?nd \<or> a = ?cl \<or> a = ?c" using d(7) by blast
    then show "a < rp_next ?s" by auto
  qed
  have "?cl \<notin> set (map snd xs)" using fresh(2) d(4) by (auto simp: domIff)
  then have "rp_list_inv ?s ((?nd, ?cl) # xs)"
    using h(2) domh d(3-6) bound unfolding rp_list_inv_def by auto
  moreover have pm: "peer_map ?s = (peer_map s)(?c \<mapsto> ?cl)" "peer_map s ?c = None"
    using fresh(3) by (auto simp: peer_map_def rp_new_conn_def fun_eq_iff)
  have "?cl \<notin> ran (peer_map s)" using ci fresh(2) by (simp add: rp_conns_inv_def domIff)
  then have "minj (peer_map ?s)" "ran (peer_map ?s) = insert ?cl (ran (peer_map s))"
    unfolding pm(1) using ci pm(2) by (simp_all add: rp_conns_inv_def minj_upd)
  then have "rp_conns_inv ?s" using ci by (auto simp: rp_conns_inv_def rp_new_conn_def)
  ultimately show ?thesis by (auto simp: rp_inv_def)
qed

section \<open>A client leaves\<close>

lemma filter_split:
  assumes "distinct (map fst xs)" "(nd, cl) \<in> set xs"
  obtains ys zs where "xs = ys @ (nd, cl) # zs" "filter (\<lambda>a. fst a \<noteq> nd) xs = ys @ zs"
proof -
  from assms(2) obtain ys zs where xs: "xs = ys @ (nd, cl) # zs" by (meson split_list)
  with assms(1) have "nd \<notin> set (map fst ys)" "nd \<notin> set (map fst zs)" by auto
  then have "filter (\<lambda>a. fst a \<noteq> nd) ys = ys" "filter (\<lambda>a. fst a \<noteq> nd) zs = zs" by (auto intro!: filter_True)
  with xs that show ?thesis by simp
qed

lemma rp_list_inv_conns:
  assumes "rp_list_inv s xs" "dom C \<subseteq> dom (rp_conns s)"
  shows "rp_list_inv (s\<lparr>rp_conns := C\<rparr>) xs"
  using assms unfolding rp_list_inv_def by (simp add: subset_iff) blast

text \<open>Removing a client from the list, whatever connections there are.\<close>

lemma clilst_remove_result:
  assumes l: "rp_list_inv s xs" and cl: "(nd, cl) \<in> set xs"
  shows "\<exists>h. clilst_remove (Some cl) s = Inr (s\<lparr>rp_nodes := h, rp_clients := (rp_clients s)(cl := None)\<rparr>) \<and>
    rp_list_inv (s\<lparr>rp_nodes := h, rp_clients := (rp_clients s)(cl := None)\<rparr>) (filter (\<lambda>a. fst a \<noteq> nd) xs)"
proof -
  have d: "dl_repr (rp_nodes s) (rp_head s) (rp_tail s) xs"
    "dom (rp_nodes s) = {rp_head s, rp_tail s} \<union> fst ` set xs" "distinct (map snd xs)"
    "dom (rp_clients s) = snd ` set xs" "length xs \<le> rp_next s"
    "\<And>nd cl. (nd, cl) \<in> set xs \<Longrightarrow> rp_clients s cl = Some \<lparr>cl_lstptr = Some nd\<rparr>"
    "\<And>a. a \<in> dom (rp_nodes s) \<union> dom (rp_clients s) \<union> dom (rp_conns s) \<Longrightarrow> a < rp_next s"
    using l unfolding rp_list_inv_def by blast+
  have dist: "distinct (rp_head s # rp_tail s # map fst xs)" using d(1) by (simp add: dl_repr_def)
  then obtain ys zs where xs: "xs = ys @ (nd, cl) # zs" and f: "filter (\<lambda>a. fst a \<noteq> nd) xs = ys @ zs"
    using filter_split [OF _ cl] by auto
  from d(1) xs obtain p0 where "dl_seg (rp_nodes s) (rp_head s) p0 (ys @ (nd, cl) # zs) (rp_tail s)"
    by (auto simp: dl_repr_def)
  from dl_seg_split [OF this] obtain n where n: "rp_nodes s nd = Some n" "dn_item n = Some cl" by auto
  from dl_remove_repr [of "rp_nodes s" "rp_head s" "rp_tail s" ys nd cl zs] d(1) xs obtain h where
    h: "dl_remove (rp_head s) (rp_tail s) nd (rp_nodes s) = Inr h" "dl_repr h (rp_head s) (rp_tail s) (ys @ zs)"
    "h nd = None" "\<forall>a. a \<notin> set (rp_head s # rp_tail s # map fst xs) \<longrightarrow> h a = rp_nodes s a" by auto
  have ne: "nd \<noteq> rp_head s" "nd \<noteq> rp_tail s" using dist cl by force+
  let ?s = "s\<lparr>rp_nodes := h, rp_clients := (rp_clients s)(cl := None)\<rparr>"
  have "clilst_remove (Some cl) s = Inr ?s"
    using d(6) [OF cl] n h(1) ne by (simp add: clilst_remove_def heap_at_def ptr_def node_at_def)
  moreover have domh: "dom h = {rp_head s, rp_tail s} \<union> fst ` set (ys @ zs)"
  proof
    show "{rp_head s, rp_tail s} \<union> fst ` set (ys @ zs) \<subseteq> dom h"
      using dl_repr_live [OF h(2)] by (auto simp: domIff)
    show "dom h \<subseteq> {rp_head s, rp_tail s} \<union> fst ` set (ys @ zs)"
    proof
      fix a assume a: "a \<in> dom h"
      then have "a \<noteq> nd" using h(3) by auto
      with a show "a \<in> {rp_head s, rp_tail s} \<union> fst ` set (ys @ zs)"
        using h(4) d(2) xs by (cases "a \<in> set (rp_head s # rp_tail s # map fst xs)") (auto simp: domIff)
    qed
  qed
  have "cl \<notin> set (map snd (ys @ zs))" "distinct (map snd (ys @ zs))" using d(3) xs by auto
  moreover have "dom ((rp_clients s)(cl := None)) = snd ` set (ys @ zs)"
    using d(4) xs calculation(2) by auto
  moreover have "\<forall>a \<in> dom h \<union> dom ((rp_clients s)(cl := None)) \<union> dom (rp_conns s). a < rp_next s"
  proof
    fix a assume "a \<in> dom h \<union> dom ((rp_clients s)(cl := None)) \<union> dom (rp_conns s)"
    then have "a \<in> dom (rp_nodes s) \<union> dom (rp_clients s) \<union> dom (rp_conns s)" using domh d(2) xs by auto
    then show "a < rp_next s" by (rule d(7))
  qed
  moreover have "rp_clients s b = Some \<lparr>cl_lstptr = Some a\<rparr> \<and> b \<noteq> cl" if "(a, b) \<in> set (ys @ zs)" for a b
  proof -
    have "(a, b) \<in> set xs" using that xs by auto
    moreover have "b \<in> set (map snd (ys @ zs))" using that by force
    ultimately show ?thesis using d(6) \<open>cl \<notin> set (map snd (ys @ zs))\<close> by metis
  qed
  ultimately have "rp_list_inv ?s (ys @ zs)" using h(2) d(5) xs domh unfolding rp_list_inv_def by simp
  with \<open>clilst_remove (Some cl) s = Inr ?s\<close> f show ?thesis by metis
qed

lemma rp_disconnect_inv:
  assumes inv: "rp_inv s" and k: "rp_conns s c = Some k" "cn_peer k = Some cl"
  shows "\<exists>s'. rp_process_event True garbage (RDMA_CM_EVENT_DISCONNECTED c) s = Inr s' \<and> rp_inv s'"
proof -
  let ?s1 = "rp_put_conn c (k\<lparr>cn_connected := False\<rparr>) s"
  have inv1: "rp_inv ?s1" by (rule rp_put_conn_inv [OF inv k(1)]) (use inv k in \<open>auto simp: rp_inv_def rp_conns_inv_def\<close>)
  then obtain xs where l: "rp_list_inv ?s1 xs" and ci: "rp_conns_inv ?s1" by (auto simp: rp_inv_def)
  have pm: "peer_map ?s1 c = Some cl" using k by (simp add: peer_map_def rp_put_conn_def)
  then have "cl \<in> dom (rp_clients ?s1)" using ci by (auto simp: rp_conns_inv_def intro: ranI)
  then have "cl \<in> snd ` set xs" using l unfolding rp_list_inv_def by blast
  then obtain nd where cl: "(nd, cl) \<in> set xs" by force
  from clilst_remove_result [OF l cl] obtain h where
    h: "clilst_remove (Some cl) ?s1 = Inr (?s1\<lparr>rp_nodes := h, rp_clients := (rp_clients ?s1)(cl := None)\<rparr>)"
    "rp_list_inv (?s1\<lparr>rp_nodes := h, rp_clients := (rp_clients ?s1)(cl := None)\<rparr>) (filter (\<lambda>a. fst a \<noteq> nd) xs)" by blast
  let ?s = "?s1\<lparr>rp_nodes := h, rp_clients := (rp_clients ?s1)(cl := None), rp_conns := (rp_conns ?s1)(c := None)\<rparr>"
  have "rp_process_event True garbage (RDMA_CM_EVENT_DISCONNECTED c) s = Inr ?s"
    using k h(1) by (simp add: rp_process_event_def rp_on_disconnect_def heap_at_def rp_destroy_connection_def)
      (simp add: rp_put_conn_def)
  moreover have "rp_list_inv ?s (filter (\<lambda>a. fst a \<noteq> nd) xs)" using rp_list_inv_conns [OF h(2), of "(rp_conns ?s1)(c := None)"] by simp
  moreover have pm': "peer_map ?s = (peer_map ?s1)(c := None)" by (auto simp: peer_map_def fun_eq_iff)
  have "minj (peer_map ?s)" "ran (peer_map ?s) = ran (peer_map ?s1) - {cl}"
    unfolding pm' using ci pm by (simp_all add: rp_conns_inv_def minj_del minj_ran_del)
  then have "rp_conns_inv ?s" using ci by (auto simp: rp_conns_inv_def split: if_splits)
  ultimately show ?thesis by (auto simp: rp_inv_def)
qed

section \<open>The end of the producer\<close>

lemma clients_destroyed:
  assumes "rp_list_inv s xs" "length xs < n" "cur = Some (case xs of [] \<Rightarrow> rp_tail s | (nd, cl) # _ \<Rightarrow> nd)"
  shows "\<exists>h. clilst_destroy_loop n cur s = Inr (s\<lparr>rp_nodes := h, rp_clients := Map.empty\<rparr>) \<and>
    rp_list_inv (s\<lparr>rp_nodes := h, rp_clients := Map.empty\<rparr>) []"
  using assms
proof (induction xs arbitrary: s n cur)
  case Nil
  then obtain m where "n = Suc m" by (cases n) auto
  moreover have "rp_clients s = Map.empty" using Nil.prems(1) by (simp add: rp_list_inv_def)
  then have "s\<lparr>rp_nodes := rp_nodes s, rp_clients := Map.empty\<rparr> = s" by simp
  ultimately show ?case using Nil by (intro exI [of _ "rp_nodes s"]) simp
next
  case (Cons b xs)
  obtain nd cl where b: "b = (nd, cl)" by force
  obtain m where m: "n = Suc m" using Cons.prems(2) by (cases n) auto
  have repr: "dl_repr (rp_nodes s) (rp_head s) (rp_tail s) ((nd, cl) # xs)"
    using Cons.prems(1) b by (simp add: rp_list_inv_def)
  then have "filter (\<lambda>a. fst a \<noteq> nd) (b # xs) = xs" using b by (auto simp: dl_repr_def intro!: filter_True)
  with clilst_remove_result [OF Cons.prems(1), of nd cl] b obtain h where
    h: "clilst_remove (Some cl) s = Inr (s\<lparr>rp_nodes := h, rp_clients := (rp_clients s)(cl := None)\<rparr>)"
    "rp_list_inv (s\<lparr>rp_nodes := h, rp_clients := (rp_clients s)(cl := None)\<rparr>) xs" by auto
  from dl_repr_next_of_first [OF repr] obtain z where
    z: "rp_nodes s nd = Some z" "dn_item z = Some cl"
      "dn_next z = Some (case xs of [] \<Rightarrow> rp_tail s | (nd', x') # zs \<Rightarrow> nd')" by blast
  have "cur = Some nd" "nd \<noteq> rp_tail s" using Cons.prems(3) b repr by (auto simp: dl_repr_def)
  then have "clilst_destroy_loop n cur s =
      clilst_destroy_loop m (dn_next z) (s\<lparr>rp_nodes := h, rp_clients := (rp_clients s)(cl := None)\<rparr>)"
    using m z h(1) by (simp add: ptr_def node_at_def)
  moreover have "\<exists>h'. clilst_destroy_loop m (dn_next z) (s\<lparr>rp_nodes := h, rp_clients := (rp_clients s)(cl := None)\<rparr>) =
      Inr (s\<lparr>rp_nodes := h', rp_clients := Map.empty\<rparr>) \<and> rp_list_inv (s\<lparr>rp_nodes := h', rp_clients := Map.empty\<rparr>) []"
    using Cons.IH [OF h(2), of m "dn_next z"] Cons.prems(2) m z(3) by (auto split: list.splits)
  ultimately show ?case by simp
qed

lemma producer_destroyed:
  assumes "rp_inv s"
  shows "producer_destroy s = Inr (s\<lparr>rp_nodes := Map.empty, rp_clients := Map.empty\<rparr>)"
proof -
  from assms obtain xs where l: "rp_list_inv s xs" by (auto simp: rp_inv_def)
  then have "dl_repr (rp_nodes s) (rp_head s) (rp_tail s) xs" "length xs < rp_next s + 1"
    by (simp_all add: rp_list_inv_def)
  moreover from dl_repr_next [OF this(1)] obtain hd where
    hd: "rp_nodes s (rp_head s) = Some hd" "dn_next hd = Some (case xs of [] \<Rightarrow> rp_tail s | (nd, x) # ys \<Rightarrow> nd)" by blast
  ultimately obtain h where
    h: "clilst_destroy_loop (rp_next s + 1) (dn_next hd) s = Inr (s\<lparr>rp_nodes := h, rp_clients := Map.empty\<rparr>)"
    "rp_list_inv (s\<lparr>rp_nodes := h, rp_clients := Map.empty\<rparr>) []"
    using clients_destroyed [OF l] by blast
  then have "h(rp_head s := None, rp_tail s := None) = Map.empty"
    by (auto simp: rp_list_inv_def fun_eq_iff domIff)
  then show ?thesis using h(1) hd(1) by (simp add: producer_destroy_def clilst_destroy_def node_at_def)
qed

section \<open>Steps\<close>

text \<open>
  Events of the clients, and completions; what the producer receives is what the coordinator
  answers.
\<close>

inductive rp_step :: "rack_producer \<Rightarrow> rack_producer \<Rightarrow> bool" where
  rp_connect: "rp_process_event True garbage RDMA_CM_EVENT_CONNECT_REQUEST s = Inr s' \<Longrightarrow> rp_step s s'"
| rp_established: "rp_conns s c = Some k \<Longrightarrow>
    rp_process_event True garbage (RDMA_CM_EVENT_ESTABLISHED c) s = Inr s' \<Longrightarrow> rp_step s s'"
| rp_disconnect: "rp_conns s c = Some k \<Longrightarrow> cn_peer k \<noteq> None \<Longrightarrow>
    rp_process_event True garbage (RDMA_CM_EVENT_DISCONNECTED c) s = Inr s' \<Longrightarrow> rp_step s s'"
| rp_arrive: "rp_conns s c = Some k \<Longrightarrow> rp_step s (rp_put_conn c (k\<lparr>cn_recv_msg := m\<rparr>) s)"
| rp_complete: "rp_on_completion ok recv c s = Inr s' \<Longrightarrow> rp_step s s'"

definition rp_initial :: "rack_producer \<Rightarrow> bool" where
  "rp_initial s \<longleftrightarrow> (\<exists>mmap reg garbage ip port cip cport n.
     producer_create mmap reg True garbage connect_events (rp_started ip port cip cport n) = Inr s)"

lemma rp_established_inv:
  assumes "rp_inv s" "rp_conns s c = Some k"
  shows "\<exists>s'. rp_process_event True garbage (RDMA_CM_EVENT_ESTABLISHED c) s = Inr s' \<and> rp_inv s'"
proof -
  have "cn_qp_ok k" using assms by (auto simp: rp_inv_def rp_conns_inv_def)
  with rp_put_conn_inv [OF assms, of "k\<lparr>cn_connected := True\<rparr>"] assms(2) show ?thesis
    by (simp add: rp_process_event_def rp_on_connection_def heap_at_def)
qed

lemma rp_step_inv: "rp_step s s' \<Longrightarrow> rp_inv s \<Longrightarrow> rp_inv s'"
proof (induction rule: rp_step.induct)
  case (rp_connect garbage s s')
  then show ?case using rp_connect_inv [of s garbage] by auto
next
  case (rp_established s c k garbage s')
  then show ?case using rp_established_inv [of s c k garbage] by auto
next
  case (rp_disconnect s c k garbage s')
  then show ?case using rp_disconnect_inv [of s c k _ garbage] by auto
next
  case (rp_arrive s c k m)
  then have "cn_qp_ok k" by (auto simp: rp_inv_def rp_conns_inv_def)
  with rp_arrive show ?case by (intro rp_put_conn_inv) simp_all
next
  case (rp_complete ok recv c s s')
  then have "s' = s" by (auto simp: rp_on_completion_def rbind_eq_Inr split: if_splits msg_type.splits)
  with rp_complete show ?case by simp
qed

interpretation rpr: kept_invariant rp_initial rp_step rp_inv
  by unfold_locales (auto simp: rp_initial_def dest!: create_result intro: created_inv rp_step_inv)

end
