(* ===== verification/Rack_Props.thy ===== *)
theory Rack_Props
  imports Rack_Producer_Inv
begin

text \<open>
  The properties of the rack producer, and of the producer and the coordinator together.
\<close>

section \<open>Registration\<close>





section \<open>Clients\<close>

text \<open>
  C36. In every state that a started producer reaches, its list has exactly one client for each
  connection of a client; a client that connects or disconnects is handled without an error, and
  the end of the producer frees every node and every client.
\<close>

theorem clients_listed:
  assumes "reach rp_initial rp_step s"
  shows "(\<exists>xs. dl_repr (rp_nodes s) (rp_head s) (rp_tail s) xs \<and> distinct (map snd xs) \<and>
      set (map snd xs) = {cl. \<exists>c k. rp_conns s c = Some k \<and> cn_peer k = Some cl} \<and>
      dom (rp_clients s) = set (map snd xs)) \<and>
    (\<exists>s'. rp_process_event True garbage RDMA_CM_EVENT_CONNECT_REQUEST s = Inr s') \<and>
    (\<forall>c k. rp_conns s c = Some k \<longrightarrow> cn_peer k \<noteq> None \<longrightarrow>
      (\<exists>s'. rp_process_event True garbage (RDMA_CM_EVENT_DISCONNECTED c) s = Inr s')) \<and>
    producer_destroy s = Inr (s\<lparr>rp_nodes := Map.empty, rp_clients := Map.empty\<rparr>)"
proof -
  have inv: "rp_inv s" using assms by (rule rpr.reach_inv)
  then obtain xs where l: "rp_list_inv s xs" and ci: "rp_conns_inv s" by (auto simp: rp_inv_def)
  have "ran (peer_map s) = {cl. \<exists>c k. rp_conns s c = Some k \<and> cn_peer k = Some cl}"
    by (auto simp: ran_def peer_map_def bind_eq_Some_conv)
  with l ci have "\<exists>xs. dl_repr (rp_nodes s) (rp_head s) (rp_tail s) xs \<and> distinct (map snd xs) \<and>
      set (map snd xs) = {cl. \<exists>c k. rp_conns s c = Some k \<and> cn_peer k = Some cl} \<and>
      dom (rp_clients s) = set (map snd xs)"
    by (intro exI [of _ xs]) (simp add: rp_list_inv_def rp_conns_inv_def)
  moreover have "\<exists>s'. rp_process_event True garbage RDMA_CM_EVENT_CONNECT_REQUEST s = Inr s'"
    using rp_connect_inv [OF inv] by blast
  moreover have "\<exists>s'. rp_process_event True garbage (RDMA_CM_EVENT_DISCONNECTED c) s = Inr s'"
    if "rp_conns s c = Some k" "cn_peer k \<noteq> None" for c k
    using rp_disconnect_inv [OF inv that(1)] that(2) by blast
  ultimately show ?thesis using producer_destroyed [OF inv] by blast
qed

end
