(* ===== verification/Rack_Witness.thy ===== *)
theory Rack_Witness
  imports Rack_Props Coordinator_Witness
begin

text \<open>
  The properties of the rack producer at a concrete run: a producer with four slabs registers
  with the coordinator that has just accepted its connection.
\<close>

definition w_mmap :: "64 word \<Rightarrow> 64 word option" where "w_mmap n = (if n = 524288 then Some 65536 else None)"
definition w_reg :: "64 word \<Rightarrow> 64 word \<Rightarrow> 32 word option" where "w_reg p n = (if p = 65536 then Some 9 else None)"



definition w_rp :: rack_producer where
  "w_rp = rp_created (w_msg MSG_DONE 0) ''h'' 5 ''c'' 1 4 65536 9"

lemma w_rp_reach: "reach rp_initial rp_step w_rp"
proof (rule reach_init)
  have "producer_create w_mmap w_reg True (w_msg MSG_DONE 0) connect_events (rp_started ''h'' 5 ''c'' 1 4) = Inr w_rp"
    unfolding w_rp_def by (rule create_equation) (simp_all add: w_mmap_def w_reg_def)
  then show "rp_initial w_rp" unfolding rp_initial_def by blast
qed

theorem clients_listed_witness:
  "(\<exists>s'. rp_process_event True (w_msg MSG_DONE 0) RDMA_CM_EVENT_CONNECT_REQUEST w_rp = Inr s') \<and>
   producer_destroy w_rp = Inr (w_rp\<lparr>rp_nodes := Map.empty, rp_clients := Map.empty\<rparr>)"
  using clients_listed [OF w_rp_reach, of "w_msg MSG_DONE 0"] by blast

end
