(* ===== verification/Block_Bitmap.thy ===== *)
theory Block_Bitmap
  imports Slab_Bitmap Daemon
begin

text \<open>
  The bitmap that the block device keeps for every chunk it has mapped (\<^verbatim>\<open>IS_bitmap_set\<close>,
  \<^verbatim>\<open>IS_bitmap_clear\<close>, \<^verbatim>\<open>IS_bitmap_test\<close>, \<^verbatim>\<open>IS_bitmap_group_set\<close>, \<^verbatim>\<open>IS_bitmap_group_clear\<close>,
  \<^verbatim>\<open>IS_bitmap_init\<close> of \<^verbatim>\<open>framework/infiniswap_bd/is_mq.c\<close> and \<^verbatim>\<open>bitmap_value\<close> of \<^verbatim>\<open>is_main.c\<close>):
  one bit for every page of the gigabyte, set when the page was written to the memory server.
  The bits are the \<^const>\<open>bm_bit\<close> of the slab bitmap, and an access outside the array is an error.
\<close>

unbundle bit_operations_syntax

section \<open>Definitions\<close>

definition BITMAP_INT_SIZE :: nat where "BITMAP_INT_SIZE = 8192"
definition IS_PAGE_SIZE :: nat where "IS_PAGE_SIZE = 4096"
definition ONE_GB :: nat where "ONE_GB = 1073741824"

definition IS_bitmap_set :: "int \<Rightarrow> bitmap \<Rightarrow> bitmap res" where
  "IS_bitmap_set i bm = rbind (bitmap_word bm i) (\<lambda>w.
     Inr (bm[nat (word_index i) := w OR push_bit (bit_index i) 1]))"

definition IS_bitmap_clear :: "int \<Rightarrow> bitmap \<Rightarrow> bitmap res" where
  "IS_bitmap_clear i bm = rbind (bitmap_word bm i) (\<lambda>w.
     Inr (bm[nat (word_index i) := w AND NOT (push_bit (bit_index i) 1)]))"

definition IS_bitmap_test :: "bitmap \<Rightarrow> int \<Rightarrow> bool res" where
  "IS_bitmap_test bm i = rbind (bitmap_word bm i) (\<lambda>w.
     Inr (w AND push_bit (bit_index i) 1 \<noteq> 0))"

text \<open>The number of a page, and a number of pages: a division of \<^verbatim>\<open>unsigned long\<close>, converted to \<^verbatim>\<open>int\<close>.\<close>

definition page_number :: "64 word \<Rightarrow> int" where
  "page_number offset = to_int32 (uint (offset div 4096))"

definition group_pages :: "64 word \<Rightarrow> 64 word \<Rightarrow> int list" where
  "group_pages offset len = map (\<lambda>i. page_number offset + int i) [0 ..< nat (page_number len)]"

definition IS_bitmap_group_set :: "64 word \<Rightarrow> 64 word \<Rightarrow> bitmap \<Rightarrow> bitmap res" where
  "IS_bitmap_group_set offset len bm = rfold IS_bitmap_set (group_pages offset len) bm"

definition IS_bitmap_group_clear :: "64 word \<Rightarrow> 64 word \<Rightarrow> bitmap \<Rightarrow> bitmap res" where
  "IS_bitmap_group_clear offset len bm = rfold IS_bitmap_clear (group_pages offset len) bm"

text \<open>\<^verbatim>\<open>memset\<close> of \<^verbatim>\<open>ONE_GB/(4096*8)\<close> bytes, which are \<^const>\<open>BITMAP_INT_SIZE\<close> words.\<close>

definition IS_bitmap_init :: "bitmap \<Rightarrow> bitmap res" where
  "IS_bitmap_init bm =
     (if length bm < BITMAP_INT_SIZE then Inl OutOfBounds
      else Inr (replicate BITMAP_INT_SIZE 0 @ drop BITMAP_INT_SIZE bm))"

text \<open>Every thirty-second word is looked at.\<close>

definition bitmap_value :: "bitmap \<Rightarrow> 32 word res" where
  "bitmap_value bm =
     rfold (\<lambda>k val. if k * 32 < length bm then Inr (if bm ! (k * 32) \<noteq> 0 then val + 1 else val)
                    else Inl OutOfBounds)
       [0 ..< BITMAP_INT_SIZE div 32] 1"

section \<open>Single bits\<close>

lemma IS_bitmap_set_slab: "IS_bitmap_set i bm = set_bit_c bm i"
  by (simp add: IS_bitmap_set_def set_bit_c_def)

lemma IS_bitmap_test_bm:
  "IS_bitmap_test bm i = (if bm_ok bm i then Inr (bm_bit bm i) else Inl OutOfBounds)"
  using get_bit_c_bm [of bm i] by (simp add: IS_bitmap_test_def get_bit_c_def)

lemma IS_bitmap_clear_bm:
  assumes "bm_ok bm i"
  obtains bm' where "IS_bitmap_clear i bm = Inr bm'" "length bm' = length bm"
    "\<And>c. bm_ok bm c \<Longrightarrow> bm_bit bm' c \<longleftrightarrow> c \<noteq> i \<and> bm_bit bm c"
proof -
  let ?w = "bm ! nat (i div 32) AND NOT (push_bit (nat (i mod 32)) 1)"
  have "IS_bitmap_clear i bm = Inr (bm[nat (i div 32) := ?w])"
    using assms by (simp add: IS_bitmap_clear_def bitmap_word_def bm_ok_in_bounds word_index_div bit_index_mod)
  moreover have "bm_bit (bm[nat (i div 32) := ?w]) c \<longleftrightarrow> c \<noteq> i \<and> bm_bit bm c" if c: "bm_ok bm c" for c
  proof -
    have "nat (c mod 32) = nat (i mod 32) \<and> i div 32 = c div 32 \<longleftrightarrow> c = i"
      by (auto simp: nat_eq_iff) (metis div_mult_mod_eq)
    moreover have "nat (i mod 32) < 32" "nat (c mod 32) < 32" by (simp_all add: nat_less_iff)
    ultimately show ?thesis
      using bm_bit_upd [OF assms c, of ?w]
      by (auto simp: bit_and_iff bit_not_iff bit_push1 bm_bit_def)
  qed
  ultimately show ?thesis using that by simp
qed

text \<open>What an operation on one bit promises: it makes the bit \<open>v\<close> and keeps every other bit.\<close>

locale bit_writer =
  fixes wr :: "int \<Rightarrow> bitmap \<Rightarrow> bitmap res" and v :: bool
  assumes writes: "bm_ok bm i \<Longrightarrow>
    \<exists>bm'. wr i bm = Inr bm' \<and> length bm' = length bm \<and>
      (\<forall>c. bm_ok bm c \<longrightarrow> (bm_bit bm' c \<longleftrightarrow> (if c = i then v else bm_bit bm c)))"
    and outside: "\<not> bm_ok bm i \<Longrightarrow> wr i bm = Inl OutOfBounds"
begin

lemma writes_all:
  "\<forall>i \<in> set is. bm_ok bm i \<Longrightarrow>
    \<exists>bm'. rfold wr is bm = Inr bm' \<and> length bm' = length bm \<and>
      (\<forall>c. bm_ok bm c \<longrightarrow> (bm_bit bm' c \<longleftrightarrow> (if c \<in> set is then v else bm_bit bm c)))"
proof (induction "is" arbitrary: bm)
  case (Cons i "is")
  obtain bm1 where 1: "wr i bm = Inr bm1" "length bm1 = length bm"
    "\<And>c. bm_ok bm c \<Longrightarrow> bm_bit bm1 c \<longleftrightarrow> (if c = i then v else bm_bit bm c)"
    using Cons.prems writes by (metis list.set_intros(1))
  have ok: "bm_ok bm1 c \<longleftrightarrow> bm_ok bm c" for c using 1(2) by (simp add: bm_ok_def)
  obtain bm2 where "rfold wr is bm1 = Inr bm2" "length bm2 = length bm1"
    "\<And>c. bm_ok bm1 c \<Longrightarrow> bm_bit bm2 c \<longleftrightarrow> (if c \<in> set is then v else bm_bit bm1 c)"
    using Cons.IH [of bm1] Cons.prems ok by auto
  with 1 ok show ?case by auto
qed simp

lemma writes_outside:
  "\<exists>i \<in> set is. \<not> bm_ok bm i \<Longrightarrow> rfold wr is bm = Inl OutOfBounds"
proof (induction "is" arbitrary: bm)
  case (Cons i "is")
  show ?case
  proof (cases "bm_ok bm i")
    case True
    obtain bm1 where 1: "wr i bm = Inr bm1" "length bm1 = length bm" using writes [OF True] by blast
    then have "\<exists>i \<in> set is. \<not> bm_ok bm1 i" using Cons.prems True by (auto simp: bm_ok_def)
    with Cons.IH 1 show ?thesis by simp
  qed (simp add: outside)
qed simp

end

interpretation bit_set: bit_writer IS_bitmap_set True
proof
  show "\<exists>bm'. IS_bitmap_set i bm = Inr bm' \<and> length bm' = length bm \<and>
      (\<forall>c. bm_ok bm c \<longrightarrow> (bm_bit bm' c \<longleftrightarrow> (if c = i then True else bm_bit bm c)))" if ok: "bm_ok bm i" for bm i
  proof -
    obtain bm' where "set_bit_c bm i = Inr bm'" "length bm' = length bm"
      "\<And>c. bm_ok bm c \<Longrightarrow> bm_bit bm' c \<longleftrightarrow> c = i \<or> bm_bit bm c"
      using set_bit_c_bm [OF ok] by metis
    then show ?thesis by (auto simp: IS_bitmap_set_slab)
  qed
  show "IS_bitmap_set i bm = Inl OutOfBounds" if "\<not> bm_ok bm i" for bm i
    using that by (simp add: IS_bitmap_set_def bitmap_word_def word_index_div bm_ok_in_bounds)
qed

interpretation bit_clear: bit_writer IS_bitmap_clear False
proof
  show "\<exists>bm'. IS_bitmap_clear i bm = Inr bm' \<and> length bm' = length bm \<and>
      (\<forall>c. bm_ok bm c \<longrightarrow> (bm_bit bm' c \<longleftrightarrow> (if c = i then False else bm_bit bm c)))" if ok: "bm_ok bm i" for bm i
  proof -
    obtain bm' where "IS_bitmap_clear i bm = Inr bm'" "length bm' = length bm"
      "\<And>c. bm_ok bm c \<Longrightarrow> bm_bit bm' c \<longleftrightarrow> c \<noteq> i \<and> bm_bit bm c"
      using IS_bitmap_clear_bm [OF ok] by metis
    then show ?thesis by auto
  qed
  show "IS_bitmap_clear i bm = Inl OutOfBounds" if "\<not> bm_ok bm i" for bm i
    using that by (simp add: IS_bitmap_clear_def bitmap_word_def word_index_div bm_ok_in_bounds)
qed

section \<open>Groups of pages\<close>

lemma page_number_val:
  assumes "unat w < 2 ^ 43"
  shows "page_number w = int (unat w div 4096)"
proof -
  have "uint (w div 4096) = int (unat w div 4096)"
    by (simp add: uint_div zdiv_int)
  moreover have "is_int32 (int (unat w div 4096))"
    using assms by (simp add: is_int32_def less_mult_imp_div_less del: of_nat_div)
  ultimately show ?thesis by (simp add: page_number_def to_int32_id)
qed

lemma group_pages_set:
  assumes "unat offset < 2 ^ 43" "unat len < 2 ^ 43"
  shows "set (group_pages offset len) =
    {int (unat offset div 4096) ..< int (unat offset div 4096 + unat len div 4096)}"
proof -
  have "(\<lambda>i. a + int i) ` {0 ..< n} = {a ..< a + int n}" for a n
  proof (intro set_eqI iffI)
    fix x assume "x \<in> {a ..< a + int n}"
    then have "x = a + int (nat (x - a))" "nat (x - a) < n" by auto
    then show "x \<in> (\<lambda>i. a + int i) ` {0 ..< n}" by (metis atLeastLessThan_iff image_eqI zero_le)
  qed auto
  then show ?thesis
    by (simp add: group_pages_def page_number_val [OF assms(1)] page_number_val [OF assms(2)] del: of_nat_div)
qed

text \<open>The pages of a chunk from \<open>offset\<close> on, \<open>len\<close> bytes, are pages of the gigabyte.\<close>

definition in_chunk :: "64 word \<Rightarrow> 64 word \<Rightarrow> bool" where
  "in_chunk offset len \<longleftrightarrow> unat offset + unat len \<le> ONE_GB"

definition in_pages :: "64 word \<Rightarrow> 64 word \<Rightarrow> nat \<Rightarrow> bool" where
  "in_pages offset len p \<longleftrightarrow> unat offset div 4096 \<le> p \<and> p < unat offset div 4096 + unat len div 4096"

lemma in_pages_bound:
  assumes "in_chunk offset len" "in_pages offset len p"
  shows "p < 2 ^ 18"
proof -
  have "unat offset div 4096 + unat len div 4096 \<le> (unat offset + unat len) div 4096"
    by (simp add: less_eq_div_iff_mult_less_eq add_mult_distrib add_mono)
  also have "\<dots> \<le> 2 ^ 18" using assms(1) div_le_mono [of _ ONE_GB 4096] by (simp add: in_chunk_def ONE_GB_def)
  finally show ?thesis using assms(2) by (simp add: in_pages_def)
qed

lemma group_pages_chunk:
  assumes "in_chunk offset len"
  shows "set (group_pages offset len) = int ` {p. in_pages offset len p}"
proof -
  have "unat offset < 2 ^ 43" "unat len < 2 ^ 43" using assms by (simp_all add: in_chunk_def ONE_GB_def)
  then have "set (group_pages offset len) =
      {int (unat offset div 4096) ..< int (unat offset div 4096 + unat len div 4096)}"
    by (rule group_pages_set)
  also have "\<dots> = int ` {unat offset div 4096 ..< unat offset div 4096 + unat len div 4096}"
    by (simp only: image_int_atLeastLessThan)
  also have "{unat offset div 4096 ..< unat offset div 4096 + unat len div 4096} = {p. in_pages offset len p}"
    by (auto simp: in_pages_def)
  finally show ?thesis .
qed

definition full_bitmap :: "bitmap \<Rightarrow> bool" where
  "full_bitmap bm \<longleftrightarrow> length bm = BITMAP_INT_SIZE"

lemma full_bitmap_ok: "full_bitmap bm \<Longrightarrow> bm_ok bm (int p) \<longleftrightarrow> p < 2 ^ 18"
  by (simp add: full_bitmap_def bm_ok_def BITMAP_INT_SIZE_def)

lemma group_write:
  assumes "bit_writer wr v" "full_bitmap bm" "in_chunk offset len"
  shows "\<exists>bm'. rfold wr (group_pages offset len) bm = Inr bm' \<and> full_bitmap bm' \<and>
    (\<forall>p < 2 ^ 18. bm_bit bm' (int p) \<longleftrightarrow> (if in_pages offset len p then v else bm_bit bm (int p)))"
proof -
  have "\<forall>i \<in> set (group_pages offset len). bm_ok bm i"
    using full_bitmap_ok [OF assms(2)] in_pages_bound [OF assms(3)] by (auto simp: group_pages_chunk [OF assms(3)])
  from bit_writer.writes_all [OF assms(1) this] obtain bm' where
    "rfold wr (group_pages offset len) bm = Inr bm'" "length bm' = length bm"
    "\<forall>c. bm_ok bm c \<longrightarrow> (bm_bit bm' c \<longleftrightarrow> (if c \<in> set (group_pages offset len) then v else bm_bit bm c))"
    by blast
  moreover have "int p \<in> set (group_pages offset len) \<longleftrightarrow> in_pages offset len p" for p
    by (auto simp: group_pages_chunk [OF assms(3)])
  ultimately show ?thesis
    using full_bitmap_ok [OF assms(2)] assms(2) by (auto simp: full_bitmap_def)
qed

lemma group_set_bits:
  assumes "full_bitmap bm" "in_chunk offset len"
  obtains bm' where "IS_bitmap_group_set offset len bm = Inr bm'" "full_bitmap bm'"
    "\<And>p. p < 2 ^ 18 \<Longrightarrow> bm_bit bm' (int p) \<longleftrightarrow> in_pages offset len p \<or> bm_bit bm (int p)"
  using group_write [OF bit_set.bit_writer_axioms assms] by (auto simp: IS_bitmap_group_set_def)

lemma group_clear_bits:
  assumes "full_bitmap bm" "in_chunk offset len"
  obtains bm' where "IS_bitmap_group_clear offset len bm = Inr bm'" "full_bitmap bm'"
    "\<And>p. p < 2 ^ 18 \<Longrightarrow> bm_bit bm' (int p) \<longleftrightarrow> \<not> in_pages offset len p \<and> bm_bit bm (int p)"
  using group_write [OF bit_clear.bit_writer_axioms assms] by (auto simp: IS_bitmap_group_clear_def)

lemma zero_bitmap_bit:
  assumes "p < 2 ^ 18"
  shows "\<not> bm_bit (replicate BITMAP_INT_SIZE 0) (int p)"
proof -
  have "nat (int p div 32) < BITMAP_INT_SIZE"
    using assms by (simp add: BITMAP_INT_SIZE_def nat_div_distrib less_mult_imp_div_less)
  then show ?thesis by (simp add: bm_bit_def)
qed

lemma IS_bitmap_init_full:
  "full_bitmap bm \<Longrightarrow> IS_bitmap_init bm = Inr (replicate BITMAP_INT_SIZE 0)"
  by (simp add: full_bitmap_def IS_bitmap_init_def)

lemma full_zero: "full_bitmap (replicate BITMAP_INT_SIZE 0)"
  by (simp add: full_bitmap_def)

end
