(* ===== verification/Block_State.thy ===== *)
theory Block_State
  imports Block_Bitmap
begin

text \<open>
  The state of the block device (\<^verbatim>\<open>framework/infiniswap_bd/infiniswap.h\<close>): the control block of a
  memory server with the chunks mapped there, the contexts of RDMA transfers in their pools,
  the session, and the backup disk behind \<^verbatim>\<open>stackbd\<close>. The message of the protocol is the
  \<^typ>\<open>daemon_msg\<close> of the memory server.
\<close>

section \<open>Enumerations\<close>

datatype test_state =
    IDLE | CONNECT_REQUEST | ADDR_RESOLVED | ROUTE_RESOLVED | CONNECTED | FREE_MEM_RECV
  | AFTER_FREE_MEM | RDMA_BUF_ADV | WAIT_OPS | RECV_STOP | RECV_EVICT | RDMA_WRITE_RUNNING
  | RDMA_READ_RUNNING | SEND_DONE | RDMA_DONE | RDMA_READ_ADV | RDMA_WRITE_ADV
  | CM_DISCONNECT | ERROR

fun test_state_num :: "test_state \<Rightarrow> nat" where
  "test_state_num IDLE = 1"
| "test_state_num CONNECT_REQUEST = 2"
| "test_state_num ADDR_RESOLVED = 3"
| "test_state_num ROUTE_RESOLVED = 4"
| "test_state_num CONNECTED = 5"
| "test_state_num FREE_MEM_RECV = 6"
| "test_state_num AFTER_FREE_MEM = 7"
| "test_state_num RDMA_BUF_ADV = 8"
| "test_state_num WAIT_OPS = 9"
| "test_state_num RECV_STOP = 10"
| "test_state_num RECV_EVICT = 11"
| "test_state_num RDMA_WRITE_RUNNING = 12"
| "test_state_num RDMA_READ_RUNNING = 13"
| "test_state_num SEND_DONE = 14"
| "test_state_num RDMA_DONE = 15"
| "test_state_num RDMA_READ_ADV = 16"
| "test_state_num RDMA_WRITE_ADV = 17"
| "test_state_num CM_DISCONNECT = 18"
| "test_state_num ERROR = 19"

lemma test_state_num_inj: "test_state_num a = test_state_num b \<Longrightarrow> a = b"
  by (cases a; cases b; simp)

text \<open>The code compares states by their numbers.\<close>

instantiation test_state :: linorder
begin

definition less_eq_test_state :: "test_state \<Rightarrow> test_state \<Rightarrow> bool" where
  "less_eq_test_state a b \<longleftrightarrow> test_state_num a \<le> test_state_num b"

definition less_test_state :: "test_state \<Rightarrow> test_state \<Rightarrow> bool" where
  "less_test_state a b \<longleftrightarrow> test_state_num a < test_state_num b"

instance
  by standard (auto simp: less_eq_test_state_def less_test_state_def dest: test_state_num_inj)

end

datatype cb_state = CB_IDLE | CB_CONNECTED | CB_MAPPED | CB_EVICTING | CB_FAIL

fun cb_state_num :: "cb_state \<Rightarrow> nat" where
  "cb_state_num CB_IDLE = 0"
| "cb_state_num CB_CONNECTED = 1"
| "cb_state_num CB_MAPPED = 2"
| "cb_state_num CB_EVICTING = 3"
| "cb_state_num CB_FAIL = 4"

lemma cb_state_num_inj: "cb_state_num a = cb_state_num b \<Longrightarrow> a = b"
  by (cases a; cases b; simp)

instantiation cb_state :: linorder
begin

definition less_eq_cb_state :: "cb_state \<Rightarrow> cb_state \<Rightarrow> bool" where
  "less_eq_cb_state a b \<longleftrightarrow> cb_state_num a \<le> cb_state_num b"

definition less_cb_state :: "cb_state \<Rightarrow> cb_state \<Rightarrow> bool" where
  "less_cb_state a b \<longleftrightarrow> cb_state_num a < cb_state_num b"

instance
  by standard (auto simp: less_eq_cb_state_def less_cb_state_def dest: cb_state_num_inj)

end

datatype chunk_list_state = C_IDLE | C_READY | C_EVICT | C_STOP
datatype IS_dev_state = DEVICE_INITIALIZING | DEVICE_OPENNING | DEVICE_RUNNING | DEVICE_OFFLINE
datatype ctx_flight = CTX_IDLE | CTX_R_IN_FLIGHT | CTX_W_IN_FLIGHT

section \<open>Constants\<close>

definition STACKBD_SIZE_G :: nat where "STACKBD_SIZE_G = 12"
definition IS_QUEUE_DEPTH :: nat where "IS_QUEUE_DEPTH = 256"
definition QUEUE_NUM_MASK :: "64 word" where "QUEUE_NUM_MASK = 0x1f"
definition IS_SECT_SHIFT :: nat where "IS_SECT_SHIFT = 9"
definition ONE_GB_SHIFT :: nat where "ONE_GB_SHIFT = 30"
definition ONE_GB_MASK :: "64 word" where "ONE_GB_MASK = 0x3fffffff"

section \<open>Requests\<close>

text \<open>
  A page is its bytes. The first page of a bio is at \<^verbatim>\<open>bio_data\<close>, and \<open>rq_buffer\<close> is that address
  for the first bio of the request, from which the queue of the transfer is chosen.
\<close>

type_synonym page = "8 word list"

record bio =
  bi_sector :: "64 word"
  bi_phys_segments :: nat
  bi_pages :: "page list"

record request =
  rq_id :: nat
  rq_write :: bool
  rq_pos :: "64 word"
  rq_bytes :: "64 word"
  rq_bios :: "bio list"
  rq_nr_phys_segments :: nat
  rq_buffer :: "64 word"

section \<open>Memory servers\<close>

text \<open>A chunk has no bitmap before it is mapped for the first time.\<close>

record remote_chunk_g =
  rc_rkey :: "32 word"
  rc_addr :: "64 word"
  rc_bitmap :: "bitmap option"

record kernel_cb =
  k_state :: test_state
  k_recv_buf :: daemon_msg
  k_send_buf :: daemon_msg
  k_sent :: "daemon_msg list"
  k_posted :: nat
  k_chunk_list :: "remote_chunk_g arr"
  k_remote_mapped :: "bool arr"
  k_chunk_size_g :: int
  k_target_size_g :: int
  k_shrink_size_g :: int
  k_chunk_map :: "int arr"
  k_evict_chunk_map :: "char arr"
  k_c_state :: chunk_list_state

section \<open>Contexts of transfers\<close>

text \<open>
  A context is the \<open>j\<close>-th of the pool of connection \<open>n\<close> for server \<open>c\<close>. A pointer to a chunk
  is the server and the index of the chunk in its list.
\<close>

type_synonym ctx_id = "nat \<times> nat \<times> nat"

record rdma_ctx =
  cx_in_flight :: ctx_flight
  cx_req :: "request option"
  cx_chunk_index :: int
  cx_cb :: "nat option"
  cx_offset :: "64 word"
  cx_len :: "64 word"
  cx_chunk_ptr :: "(nat \<times> nat) option"

record ctx_pool =
  cp_ctx :: "rdma_ctx arr"
  cp_list :: "nat arr"
  cp_tail :: int

text \<open>A work request that was posted: an RDMA read or write of a context's buffer.\<close>

record work_request =
  wr_ctx :: ctx_id
  wr_write :: bool
  wr_rkey :: "32 word"
  wr_addr :: "64 word"
  wr_len :: "64 word"

section \<open>The backup disk\<close>

text \<open>
  A bio for the backup disk: its pages are the ones of a request, or the buffer of a context.
  When it is done, nothing happens (\<^verbatim>\<open>bio_clone\<close> does not copy \<^verbatim>\<open>bi_end_io\<close>), the request ends
  (\<^verbatim>\<open>IS_stackbd_end_io\<close>, \<^verbatim>\<open>IS_stackbd_end_io2\<close>), or the context is returned
  (\<^verbatim>\<open>IS_stackbd_end_io3\<close>).
\<close>

datatype bio_src = Pages "page list" | CtxBuf ctx_id
datatype bio_end = EndNone | EndReq nat | EndCtx ctx_id

record sbio =
  sb_write :: bool
  sb_sector :: "64 word"
  sb_pages :: nat
  sb_src :: bio_src
  sb_end :: bio_end

section \<open>The session\<close>

text \<open>
  \<open>b_sgl\<close> is \<^verbatim>\<open>MAX_SGL_LEN\<close>, which the version of the kernel decides, and \<open>b_queues\<close> is
  \<^verbatim>\<open>submit_queues\<close>. A pool that was not set up, or was freed, is \<open>None\<close>. \<open>b_bufs\<close> is the memory of
  the buffers of the contexts, \<open>b_wrs\<close> the work requests in flight on each server's queue pair,
  \<open>b_raw_bios\<close> the bios handed to the raw device, \<open>b_ended\<close> the requests ended and their errors,
  \<open>b_rbuf\<close> the first page of the buffer of a request, \<open>b_preempt\<close> the number of \<^verbatim>\<open>get_cpu\<close> calls
  without a \<^verbatim>\<open>put_cpu\<close>.
\<close>

record bdev =
  b_sgl :: nat
  b_queues :: nat
  b_cb_num :: nat
  b_cb_list :: "kernel_cb arr"
  b_cb_state_list :: "cb_state arr"
  b_mapped_cb_num :: int
  b_cb_index_map :: "int arr"
  b_chunk_map_cb_chunk :: "int arr"
  b_unmapped_chunk_list :: "int arr"
  b_free_chunk_index :: int
  b_rdma_on :: bool
  b_trigger_enable :: bool
  b_write_ops :: "64 word arr"
  b_read_ops :: "64 word arr"
  b_last_ops :: "64 word arr"
  b_pools :: "nat \<Rightarrow> nat \<Rightarrow> ctx_pool option"
  b_bufs :: "ctx_id \<Rightarrow> page arr"
  b_wrs :: "nat \<Rightarrow> work_request list"
  b_bdev_raw :: bool
  b_is_active :: bool
  b_bio_list :: "sbio list"
  b_raw_bios :: "sbio list"
  b_ended :: "(nat \<times> int) list"
  b_rbuf :: "nat \<Rightarrow> page"
  b_preempt :: int

text \<open>Updates of one server, one chunk and one context.\<close>

definition upd_cb :: "nat \<Rightarrow> (kernel_cb \<Rightarrow> kernel_cb) \<Rightarrow> bdev \<Rightarrow> bdev" where
  "upd_cb c f s = s\<lparr>b_cb_list := (b_cb_list s)(c := f (b_cb_list s c))\<rparr>"

definition chunk_at :: "bdev \<Rightarrow> nat \<Rightarrow> nat \<Rightarrow> remote_chunk_g" where
  "chunk_at s c i = k_chunk_list (b_cb_list s c) i"

definition put_bitmap :: "nat \<Rightarrow> nat \<Rightarrow> bitmap \<Rightarrow> bdev \<Rightarrow> bdev" where
  "put_bitmap c i bm s = upd_cb c (\<lambda>k. k\<lparr>k_chunk_list :=
     (k_chunk_list k)(i := (k_chunk_list k i)\<lparr>rc_bitmap := Some bm\<rparr>)\<rparr>) s"

definition bitmap_at :: "bdev \<Rightarrow> nat \<Rightarrow> nat \<Rightarrow> bitmap res" where
  "bitmap_at s c i = (case rc_bitmap (chunk_at s c i) of None \<Rightarrow> Inl NullDeref | Some bm \<Rightarrow> Inr bm)"

text \<open>An operation on the bitmap of a chunk.\<close>

definition on_bitmap :: "nat \<Rightarrow> nat \<Rightarrow> (bitmap \<Rightarrow> bitmap res) \<Rightarrow> bdev \<Rightarrow> bdev res" where
  "on_bitmap c i f s = rbind (bitmap_at s c i) (\<lambda>bm. rbind (f bm) (\<lambda>bm'. Inr (put_bitmap c i bm' s)))"

definition ctx_at :: "bdev \<Rightarrow> ctx_id \<Rightarrow> rdma_ctx res" where
  "ctx_at s x = (case x of (n, c, j) \<Rightarrow>
     (case b_pools s n c of None \<Rightarrow> Inl UseAfterFree | Some p \<Rightarrow> Inr (cp_ctx p j)))"

definition put_pool :: "nat \<Rightarrow> nat \<Rightarrow> ctx_pool \<Rightarrow> bdev \<Rightarrow> bdev" where
  "put_pool n c p s = s\<lparr>b_pools := (b_pools s)(n := (b_pools s n)(c := Some p))\<rparr>"

definition upd_ctx :: "ctx_id \<Rightarrow> (rdma_ctx \<Rightarrow> rdma_ctx) \<Rightarrow> bdev \<Rightarrow> bdev res" where
  "upd_ctx x f s = (case x of (n, c, j) \<Rightarrow>
     (case b_pools s n c of None \<Rightarrow> Inl UseAfterFree
      | Some p \<Rightarrow> Inr (put_pool n c (p\<lparr>cp_ctx := (cp_ctx p)(j := f (cp_ctx p j))\<rparr>) s)))"

definition blk_mq_end_request :: "nat \<Rightarrow> int \<Rightarrow> bdev \<Rightarrow> bdev" where
  "blk_mq_end_request r err s = s\<lparr>b_ended := b_ended s @ [(r, err)]\<rparr>"

end
