(* ===== verification/Block_Io.thy ===== *)
theory Block_Io
  imports Block_State
begin

text \<open>
  The requests of the block device (\<^verbatim>\<open>framework/infiniswap_bd/is_mq.c\<close> and the transfers of
  \<^verbatim>\<open>is_main.c\<close>): the pools of contexts, the backup disk, RDMA reads and writes and their
  completions, and \<^verbatim>\<open>IS_request\<close>, which decides where a request goes. The result of
  \<^verbatim>\<open>ib_post_send\<close> is a parameter (\<open>post\<close>, zero when the request was posted).
\<close>

unbundle bit_operations_syntax

section \<open>Pools of contexts\<close>

definition IS_get_ctx :: "nat \<Rightarrow> nat \<Rightarrow> bdev \<Rightarrow> (nat option \<times> bdev) res" where
  "IS_get_ctx n c s =
     (case b_pools s n c of
        None \<Rightarrow> Inl NullDeref
      | Some p \<Rightarrow>
          if cp_tail p = -1 then Inr (None, s)
          else rbind (aget IS_QUEUE_DEPTH (cp_list p) (cp_tail p)) (\<lambda>j.
            Inr (Some j, put_pool n c (p\<lparr>cp_tail := cp_tail p - 1\<rparr>) s)))"

text \<open>The context is entered before the bound is looked at, and the look only prints.\<close>

definition IS_insert_ctx :: "ctx_id \<Rightarrow> bdev \<Rightarrow> bdev res" where
  "IS_insert_ctx x s = (case x of (n, c, j) \<Rightarrow>
     (case b_pools s n c of
        None \<Rightarrow> Inl UseAfterFree
      | Some p \<Rightarrow>
          rbind (aset IS_QUEUE_DEPTH (cp_list p) (cp_tail p + 1) j) (\<lambda>l.
            Inr (put_pool n c (p\<lparr>cp_list := l, cp_tail := cp_tail p + 1\<rparr>) s))))"

text \<open>
  The loop that looks for a context, one connection after the other. When every pool was
  found empty once it sleeps until another thread returns a context, which is \<open>Diverges\<close> here.
\<close>

fun find_ctx :: "nat \<Rightarrow> nat \<Rightarrow> nat \<Rightarrow> bdev \<Rightarrow> (ctx_id \<times> bdev) res" where
  "find_ctx 0 n c s = Inl Diverges"
| "find_ctx (Suc k) n c s = rbind (IS_get_ctx n c s) (\<lambda>(r, s').
     case r of Some j \<Rightarrow> Inr ((n, c, j), s') | None \<Rightarrow> find_ctx k ((n + 1) mod b_queues s') c s')"

definition request_ctx :: "request \<Rightarrow> nat \<Rightarrow> bdev \<Rightarrow> (ctx_id \<times> bdev) res" where
  "request_ctx req c s =
     (let conn_id = unat (rq_buffer req AND QUEUE_NUM_MASK) in
      if conn_id < b_queues s then find_ctx (b_queues s) conn_id c s else Inl OutOfBounds)"

section \<open>The backup disk\<close>

definition bio_clone :: "bool \<Rightarrow> bio \<Rightarrow> sbio" where
  "bio_clone w b = \<lparr>sb_write = w, sb_sector = bi_sector b, sb_pages = length (bi_pages b),
     sb_src = Pages (bi_pages b), sb_end = EndNone\<rparr>"

text \<open>\<^verbatim>\<open>bio_endio\<close> with the end functions \<^verbatim>\<open>IS_stackbd_end_io\<close>, \<^verbatim>\<open>IS_stackbd_end_io2\<close> and \<^verbatim>\<open>IS_stackbd_end_io3\<close>.\<close>

definition IS_stackbd_end_io :: "sbio \<Rightarrow> int \<Rightarrow> bdev \<Rightarrow> bdev res" where
  "IS_stackbd_end_io b err s =
     (case sb_end b of
        EndNone \<Rightarrow> Inr s
      | EndReq r \<Rightarrow> Inr (blk_mq_end_request r err s)
      | EndCtx x \<Rightarrow> IS_insert_ctx x s)"

definition stackbd_ready :: "bdev \<Rightarrow> bool" where
  "stackbd_ready s \<longleftrightarrow> b_bdev_raw s \<and> b_is_active s"

definition add_bios :: "sbio list \<Rightarrow> bdev \<Rightarrow> bdev" where
  "add_bios bs s = s\<lparr>b_bio_list := b_bio_list s @ bs\<rparr>"

text \<open>
  The clones of the first \<open>n\<close> bios of a request, and the bios that are left. The loop counts
  segments and follows \<^verbatim>\<open>bi_next\<close>.
\<close>

fun clone_bios :: "bool \<Rightarrow> nat \<Rightarrow> bio list \<Rightarrow> (sbio list \<times> bio list) res" where
  "clone_bios w 0 bs = Inr ([], bs)"
| "clone_bios w (Suc n) [] = Inl NullDeref"
| "clone_bios w (Suc n) (b # bs) = rbind (clone_bios w n bs) (\<lambda>(cs, r). Inr (bio_clone w b # cs, r))"

text \<open>
  When the disk is not ready the request is aborted with \<^verbatim>\<open>bio_io_error(bio)\<close>, and \<^verbatim>\<open>bio\<close> is
  still null there. \<^verbatim>\<open>stackbd_make_request4\<close> differs in what its end function prints.
\<close>

definition stackbd_make_request2 :: "request \<Rightarrow> bdev \<Rightarrow> bdev res" where
  "stackbd_make_request2 req s =
     (if \<not> stackbd_ready s then Inl NullDeref
      else rbind (clone_bios (rq_write req) (rq_nr_phys_segments req - 1) (rq_bios req)) (\<lambda>(cs, r).
        case r of
          [] \<Rightarrow> Inl NullDeref
        | b # _ \<Rightarrow> Inr (add_bios (cs @ [(bio_clone (rq_write req) b)\<lparr>sb_end := EndReq (rq_id req)\<rparr>]) s)))"

definition stackbd_make_request4 :: "request \<Rightarrow> bdev \<Rightarrow> bdev res" where
  "stackbd_make_request4 req s = stackbd_make_request2 req s"

definition stackbd_make_request3 :: "request \<Rightarrow> bdev \<Rightarrow> bdev res" where
  "stackbd_make_request3 req s =
     (if \<not> stackbd_ready s then Inl NullDeref
      else rbind (clone_bios (rq_write req) (rq_nr_phys_segments req) (rq_bios req)) (\<lambda>(cs, _).
        Inr (add_bios cs s)))"

text \<open>\<^verbatim>\<open>bio_io_error\<close> on a clone whose end function is not set yet does nothing.\<close>

definition stackbd_make_request5 :: "ctx_id \<Rightarrow> sbio \<Rightarrow> bdev \<Rightarrow> bdev res" where
  "stackbd_make_request5 x b s =
     (if \<not> stackbd_ready s then IS_stackbd_end_io b (-5) s
      else Inr (add_bios [b\<lparr>sb_end := EndCtx x\<rparr>] s))"

text \<open>A bio for the device \<^verbatim>\<open>stackbd0\<close> itself, with the end function of its owner.\<close>

definition stackbd_make_request :: "sbio \<Rightarrow> bdev \<Rightarrow> bdev res" where
  "stackbd_make_request b s =
     (if \<not> stackbd_ready s then IS_stackbd_end_io b (-5) s else Inr (add_bios [b] s))"

definition stackbd_io_fn :: "sbio \<Rightarrow> bdev \<Rightarrow> bdev" where
  "stackbd_io_fn b s = s\<lparr>b_raw_bios := b_raw_bios s @ [b]\<rparr>"

text \<open>One round of \<^verbatim>\<open>stackbd_threadfn\<close>.\<close>

definition stackbd_threadfn :: "bdev \<Rightarrow> bdev" where
  "stackbd_threadfn s =
     (case b_bio_list s of
        [] \<Rightarrow> s
      | b # bs \<Rightarrow> stackbd_io_fn b (s\<lparr>b_bio_list := bs\<rparr>))"

definition IS_mq_request_stackbd :: "request \<Rightarrow> bdev \<Rightarrow> bdev res" where
  "IS_mq_request_stackbd req s = stackbd_make_request2 req s"

definition IS_mq_request_stackbd2 :: "request \<Rightarrow> bdev \<Rightarrow> bdev res" where
  "IS_mq_request_stackbd2 req s = stackbd_make_request4 req s"

section \<open>Transfers\<close>

definition IS_rdma_read ::
  "int \<Rightarrow> nat \<Rightarrow> nat \<Rightarrow> 64 word \<Rightarrow> 64 word \<Rightarrow> request \<Rightarrow> bdev \<Rightarrow> (int \<times> bdev) res" where
  "IS_rdma_read post c i offset len req s =
     rbind (request_ctx req c s) (\<lambda>(x, s1).
     rbind (upd_ctx x (\<lambda>k. k\<lparr>cx_req := Some req, cx_chunk_index := int i,
              cx_in_flight := CTX_R_IN_FLIGHT\<rparr>) s1) (\<lambda>s2.
       if \<not> b_rdma_on s2 then
         rbind (upd_ctx x (\<lambda>k. k\<lparr>cx_in_flight := CTX_IDLE\<rparr>) s2) (\<lambda>s3.
         rbind (IS_insert_ctx x s3) (\<lambda>s4.
         rbind (IS_mq_request_stackbd2 req s4) (\<lambda>s5. Inr (0, s5))))
       else if post \<noteq> 0 then Inr (post, s2)
       else Inr (0, s2\<lparr>b_wrs := (b_wrs s2)(c := b_wrs s2 c @
              [\<lparr>wr_ctx = x, wr_write = False, wr_rkey = rc_rkey (chunk_at s2 c i),
                wr_addr = rc_addr (chunk_at s2 c i) + offset, wr_len = len\<rparr>])\<rparr>)))"

definition stackbd_bio_generate :: "ctx_id \<Rightarrow> request \<Rightarrow> bdev \<Rightarrow> bdev res" where
  "stackbd_bio_generate x req s =
     (case rq_bios req of
        [] \<Rightarrow> Inl NullDeref
      | b # _ \<Rightarrow> stackbd_make_request5 x ((bio_clone (rq_write req) b)\<lparr>
          sb_pages := rq_nr_phys_segments req, sb_src := CtxBuf x\<rparr>) s)"

fun mem_gather :: "nat \<Rightarrow> nat \<Rightarrow> bio list \<Rightarrow> nat \<Rightarrow> page arr \<Rightarrow> page arr res" where
  "mem_gather sgl nr_seg [] i buf = (if i < nr_seg then Inl NullDeref else Inr buf)"
| "mem_gather sgl nr_seg (b # bs) i buf =
     (if i < nr_seg then
        (let j = bi_phys_segments b in
         if length (bi_pages b) < j \<or> sgl < i + j then Inl OutOfBounds
         else mem_gather sgl nr_seg bs (i + j)
                (\<lambda>k. if i \<le> k \<and> k < i + j then bi_pages b ! (k - i) else buf k))
      else Inr buf)"

definition IS_rdma_write ::
  "int \<Rightarrow> nat \<Rightarrow> nat \<Rightarrow> 64 word \<Rightarrow> 64 word \<Rightarrow> request \<Rightarrow> bdev \<Rightarrow> (int \<times> bdev) res" where
  "IS_rdma_write post c i offset len req s =
     rbind (request_ctx req c s) (\<lambda>(x, s1).
     rbind (upd_ctx x (\<lambda>k. k\<lparr>cx_req := Some req, cx_cb := Some c, cx_offset := offset, cx_len := len,
              cx_chunk_ptr := Some (c, i), cx_chunk_index := int i,
              cx_in_flight := CTX_W_IN_FLIGHT\<rparr>) s1) (\<lambda>s2.
       if \<not> b_rdma_on s2 then
         rbind (upd_ctx x (\<lambda>k. k\<lparr>cx_in_flight := CTX_IDLE\<rparr>) s2) (\<lambda>s3.
         rbind (IS_insert_ctx x s3) (\<lambda>s4.
         rbind (IS_mq_request_stackbd2 req s4) (\<lambda>s5. Inr (0, s5))))
       else
         rbind (mem_gather (b_sgl s2) (rq_nr_phys_segments req) (rq_bios req) 0 (b_bufs s2 x)) (\<lambda>buf.
         rbind (stackbd_bio_generate x req (s2\<lparr>b_bufs := (b_bufs s2)(x := buf)\<rparr>)) (\<lambda>s3.
           if post \<noteq> 0 then Inr (post, s3)
           else Inr (0, s3\<lparr>b_wrs := (b_wrs s3)(c := b_wrs s3 c @
                  [\<lparr>wr_ctx = x, wr_write = True, wr_rkey = rc_rkey (chunk_at s3 c i),
                    wr_addr = rc_addr (chunk_at s3 c i) + offset, wr_len = len\<rparr>])\<rparr>)))))"

text \<open>On an error \<^verbatim>\<open>put_cpu\<close> is not called.\<close>

definition IS_transfer_chunk ::
  "int \<Rightarrow> nat \<Rightarrow> nat \<Rightarrow> 64 word \<Rightarrow> 64 word \<Rightarrow> bool \<Rightarrow> request \<Rightarrow> bdev \<Rightarrow> (int \<times> bdev) res" where
  "IS_transfer_chunk post c i offset len write req s =
     (let s0 = s\<lparr>b_preempt := b_preempt s + 1\<rparr> in
      rbind (if write then IS_rdma_write post c i offset len req s0
             else IS_rdma_read post c i offset len req s0) (\<lambda>(retval, s1).
        if retval \<noteq> 0 then Inr (retval, s1)
        else Inr (0, s1\<lparr>b_preempt := b_preempt s1 - 1\<rparr>)))"

section \<open>Requests\<close>

definition rq_start :: "request \<Rightarrow> 64 word" where
  "rq_start req = push_bit IS_SECT_SHIFT (rq_pos req)"

definition gb_index :: "64 word \<Rightarrow> int" where
  "gb_index a = to_int32 (uint (drop_bit ONE_GB_SHIFT a))"

definition end_index :: "request \<Rightarrow> int" where
  "end_index req = gb_index (rq_start req + rq_bytes req - word_of_nat IS_PAGE_SIZE)"

text \<open>Counting the request in the operations of its chunk.\<close>

definition count_op :: "request \<Rightarrow> bdev \<Rightarrow> bdev res" where
  "count_op req s =
     (let g = gb_index (rq_start req) in
      if rq_write req then
        rbind (aget STACKBD_SIZE_G (b_write_ops s) g) (\<lambda>v.
        rbind (aset STACKBD_SIZE_G (b_write_ops s) g (v + 1)) (\<lambda>a. Inr (s\<lparr>b_write_ops := a\<rparr>)))
      else
        rbind (aget STACKBD_SIZE_G (b_read_ops s) g) (\<lambda>v.
        rbind (aset STACKBD_SIZE_G (b_read_ops s) g (v + 1)) (\<lambda>a. Inr (s\<lparr>b_read_ops := a\<rparr>))))"

text \<open>The server and the chunk where chunk \<open>g\<close> of the device is mapped, when both maps have it.\<close>

definition find_chunk :: "bdev \<Rightarrow> int \<Rightarrow> (nat \<times> nat) option res" where
  "find_chunk s g =
     rbind (aget STACKBD_SIZE_G (b_cb_index_map s) g) (\<lambda>c.
       if c = -1 then Inr None
       else if \<not> in_bounds (b_cb_num s) c then Inl OutOfBounds
       else rbind (aget STACKBD_SIZE_G (b_chunk_map_cb_chunk s) g) (\<lambda>i.
         if i = -1 then Inr None
         else if \<not> in_bounds MAX_MR_SIZE_GB i then Inl OutOfBounds
         else Inr (Some (nat c, nat i))))"

text \<open>
  The branch of a request over two chunks: a write clears the bits of its pages in each
  chunk that is mapped. This branch does not look for \<open>-1\<close> in the second map.
\<close>

definition clear_part :: "bool \<Rightarrow> int \<Rightarrow> 64 word \<Rightarrow> 64 word \<Rightarrow> bdev \<Rightarrow> bdev res" where
  "clear_part write g offset len s =
     rbind (aget STACKBD_SIZE_G (b_cb_index_map s) g) (\<lambda>c.
       if c = -1 then Inr s
       else if \<not> in_bounds (b_cb_num s) c then Inl OutOfBounds
       else rbind (aget STACKBD_SIZE_G (b_chunk_map_cb_chunk s) g) (\<lambda>i.
         if \<not> in_bounds MAX_MR_SIZE_GB i then Inl OutOfBounds
         else if write then on_bitmap (nat c) (nat i) (IS_bitmap_group_clear offset len) s
         else Inr s))"

definition IS_request :: "int \<Rightarrow> request \<Rightarrow> bdev \<Rightarrow> (int \<times> bdev) res" where
  "IS_request post req s =
     (let g = gb_index (rq_start req);
          chunk_offset = rq_start req AND ONE_GB_MASK;
          len = rq_bytes req;
          to_disk = (\<lambda>s. rbind (IS_mq_request_stackbd req s) (\<lambda>s'. Inr (0, s'))) in
      rbind (count_op req s) (\<lambda>s1.
        if g = end_index req then
          rbind (find_chunk s1 g) (\<lambda>r.
            case r of
              None \<Rightarrow> to_disk s1
            | Some (c, i) \<Rightarrow>
                if rq_write req then
                  (if b_rdma_on s1 then IS_transfer_chunk post c i chunk_offset len True req s1
                   else to_disk s1)
                else if b_rdma_on s1 then
                  rbind (bitmap_at s1 c i) (\<lambda>bm.
                  rbind (IS_bitmap_test bm (page_number chunk_offset)) (\<lambda>b.
                    if b then IS_transfer_chunk post c i chunk_offset len False req s1
                    else to_disk s1))
                else to_disk s1)
        else
          rbind (aget STACKBD_SIZE_G (b_cb_index_map s1) (end_index req)) (\<lambda>_.
          rbind (clear_part (rq_write req) g chunk_offset (word_of_nat ONE_GB - chunk_offset) s1) (\<lambda>s2.
          rbind (clear_part (rq_write req) (end_index req) 0 (chunk_offset + len - word_of_nat ONE_GB) s2)
            to_disk))))"

text \<open>\<open>True\<close> is \<^verbatim>\<open>BLK_MQ_RQ_QUEUE_OK\<close>.\<close>

definition IS_queue_rq :: "int \<Rightarrow> request \<Rightarrow> bdev \<Rightarrow> (bool \<times> bdev) res" where
  "IS_queue_rq post req s = rbind (IS_request post req s) (\<lambda>(err, s'). Inr (err = 0, s'))"

section \<open>Completions\<close>

definition client_read_done :: "ctx_id \<Rightarrow> bdev \<Rightarrow> bdev res" where
  "client_read_done x s =
     rbind (ctx_at s x) (\<lambda>k.
     rbind (upd_ctx x (\<lambda>k. k\<lparr>cx_in_flight := CTX_IDLE, cx_chunk_index := -1, cx_req := None\<rparr>) s) (\<lambda>s1.
       case cx_req k of
         None \<Rightarrow> Inl NullDeref
       | Some req \<Rightarrow>
           rbind (IS_insert_ctx x (s1\<lparr>b_rbuf := (b_rbuf s1)(rq_id req := b_bufs s1 x 0)\<rparr>)) (\<lambda>s2.
             Inr (blk_mq_end_request (rq_id req) 0 s2))))"

definition client_write_done :: "ctx_id \<Rightarrow> bdev \<Rightarrow> bdev res" where
  "client_write_done x s =
     rbind (ctx_at s x) (\<lambda>k.
       case cx_chunk_ptr k of
         None \<Rightarrow> Inr s
       | Some (c, i) \<Rightarrow>
           rbind (upd_ctx x (\<lambda>k. k\<lparr>cx_in_flight := CTX_IDLE\<rparr>) s) (\<lambda>s1.
           rbind (on_bitmap c i (IS_bitmap_group_set (cx_offset k) (cx_len k)) s1) (\<lambda>s2.
           rbind (upd_ctx x (\<lambda>k. k\<lparr>cx_chunk_index := -1, cx_chunk_ptr := None\<rparr>) s2) (\<lambda>s3.
             case cx_req k of
               None \<Rightarrow> Inr s3
             | Some req \<Rightarrow>
                 rbind (upd_ctx x (\<lambda>k. k\<lparr>cx_req := None\<rparr>) s3) (\<lambda>s4.
                   Inr (blk_mq_end_request (rq_id req) 0 s4))))))"

section \<open>The state of the device\<close>

definition IS_set_device_state :: "IS_dev_state \<Rightarrow> IS_dev_state \<Rightarrow> int \<times> IS_dev_state" where
  "IS_set_device_state cur st =
     (case st of
        DEVICE_OPENNING \<Rightarrow>
          if cur = DEVICE_OFFLINE \<or> cur = DEVICE_RUNNING then (-22, cur) else (0, st)
      | DEVICE_RUNNING \<Rightarrow> (0, st)
      | DEVICE_OFFLINE \<Rightarrow> (0, st)
      | _ \<Rightarrow> (-22, cur))"

definition IS_device_state_str :: "IS_dev_state \<Rightarrow> string" where
  "IS_device_state_str st =
     (case st of
        DEVICE_INITIALIZING \<Rightarrow> ''Initial state''
      | DEVICE_OPENNING \<Rightarrow> ''openning''
      | DEVICE_RUNNING \<Rightarrow> ''running''
      | DEVICE_OFFLINE \<Rightarrow> ''offline'')"

end
