(* ===== verification/Block_Chunks.thy ===== *)
theory Block_Chunks
  imports Block_Io
begin

text \<open>
  The chunks of the block device (\<^verbatim>\<open>framework/infiniswap_bd/is_main.c\<close>, \<^verbatim>\<open>is_mq.c\<close>): the messages of
  the memory servers and the maps they fill in, eviction, the loss of a server, and the
  mapping of a chunk. A handler that waits for a message or for the transfers in flight is
  divided where it waits: \<^verbatim>\<open>evict_handler\<close> into \<open>evict_activity\<close>, \<open>evict_mark\<close>, \<open>evict_clean\<close>,
  \<open>release_chunk\<close> and \<open>evict_end\<close>, \<^verbatim>\<open>IS_disconnect_handler\<close> into \<open>disconnect_begin\<close> and
  \<open>disconnect_finish\<close>, \<^verbatim>\<open>IS_single_chunk_map\<close> into \<open>map_query\<close>, \<open>map_bind\<close> and \<open>map_end\<close>.
\<close>

section \<open>Messages to a server\<close>

definition post_msg :: "int \<Rightarrow> nat \<Rightarrow> (daemon_msg \<Rightarrow> daemon_msg) \<Rightarrow> bdev \<Rightarrow> int \<times> bdev" where
  "post_msg post c f s =
     (post, upd_cb c (\<lambda>k. k\<lparr>k_send_buf := f (k_send_buf k),
        k_sent := (if post = 0 then k_sent k @ [f (k_send_buf k)] else k_sent k)\<rparr>) s)"

definition IS_send_query :: "int \<Rightarrow> nat \<Rightarrow> bdev \<Rightarrow> int \<times> bdev" where
  "IS_send_query post c s = post_msg post c (\<lambda>m. m\<lparr>dm_type := QUERY\<rparr>) s"

definition IS_send_bind_single :: "int \<Rightarrow> nat \<Rightarrow> int \<Rightarrow> bdev \<Rightarrow> int \<times> bdev" where
  "IS_send_bind_single post c select_chunk s =
     post_msg post c (\<lambda>m. m\<lparr>dm_type := BIND_SINGLE, dm_size_gb := select_chunk\<rparr>) s"

definition IS_send_done :: "int \<Rightarrow> nat \<Rightarrow> int \<Rightarrow> bdev \<Rightarrow> int \<times> bdev" where
  "IS_send_done post c num s = post_msg post c (\<lambda>m. m\<lparr>dm_type := DONE, dm_size_gb := num\<rparr>) s"

text \<open>The operations of every chunk that is mapped, plus one. The macro \<^verbatim>\<open>htonll\<close> is \<^verbatim>\<open>ntohll\<close>.\<close>

definition activity_bufs :: "nat \<Rightarrow> bdev \<Rightarrow> (nat \<Rightarrow> 64 word) res" where
  "activity_bufs c s =
     rfold (\<lambda>i b.
        let g = k_chunk_map (b_cb_list s c) i in
        if g \<noteq> -1 then rbind (aget STACKBD_SIZE_G (b_last_ops s) g) (\<lambda>v. Inr (b(i := ntohll (v + 1))))
        else Inr (b(i := 0)))
       [0 ..< MAX_MR_SIZE_GB] (dm_buf (k_send_buf (b_cb_list s c)))"

definition IS_send_activity :: "int \<Rightarrow> nat \<Rightarrow> bdev \<Rightarrow> (int \<times> bdev) res" where
  "IS_send_activity post c s =
     rbind (activity_bufs c s) (\<lambda>b. Inr (post_msg post c (\<lambda>m. m\<lparr>dm_type := ACTIVITY, dm_buf := b\<rparr>) s))"

section \<open>Messages from a server\<close>

definition zero_bitmap :: bitmap where
  "zero_bitmap = replicate BITMAP_INT_SIZE 0"

definition init_chunk :: "nat \<Rightarrow> nat \<Rightarrow> bdev \<Rightarrow> bdev" where
  "init_chunk c i s = upd_cb c (\<lambda>k. k\<lparr>k_chunk_list := (k_chunk_list k)(i :=
     \<lparr>rc_rkey = bswap32 (dm_rkey (k_recv_buf k) i), rc_addr = ntohll (dm_buf (k_recv_buf k) i),
      rc_bitmap = Some zero_bitmap\<rparr>)\<rparr>) s"

text \<open>Chunk \<open>i\<close> of server \<open>c\<close> becomes the memory of chunk \<open>g\<close> of the device.\<close>

definition link_chunk :: "nat \<Rightarrow> nat \<Rightarrow> int \<Rightarrow> bdev \<Rightarrow> bdev res" where
  "link_chunk c i g s =
     rbind (aset STACKBD_SIZE_G (b_chunk_map_cb_chunk s) g (int i)) (\<lambda>m.
     rbind (aset STACKBD_SIZE_G (b_cb_index_map s) g (int c)) (\<lambda>x.
       Inr ((upd_cb c (\<lambda>k. k\<lparr>k_chunk_map := (k_chunk_map k)(i := g),
              k_remote_mapped := (k_remote_mapped k)(i := True)\<rparr>) s)
            \<lparr>b_free_chunk_index := b_free_chunk_index s - 1, b_chunk_map_cb_chunk := m,
             b_cb_index_map := x\<rparr>)))"

definition given_chunks :: "daemon_msg \<Rightarrow> nat list" where
  "given_chunks m = filter (\<lambda>i. dm_rkey m i \<noteq> 0) [0 ..< MAX_MR_SIZE_GB]"

text \<open>The loop ends at the first chunk.\<close>

definition IS_single_chunk_init :: "nat \<Rightarrow> bdev \<Rightarrow> bdev res" where
  "IS_single_chunk_init c s =
     (case given_chunks (k_recv_buf (b_cb_list s c)) of
        [] \<Rightarrow> Inr s
      | i # _ \<Rightarrow>
          rbind (link_chunk c i (dm_size_gb (k_recv_buf (b_cb_list s c))) (init_chunk c i s)) (\<lambda>s1.
            Inr (upd_cb c (\<lambda>k. k\<lparr>k_chunk_size_g := k_chunk_size_g k + 1, k_c_state := C_READY\<rparr>) s1)))"

definition IS_chunk_list_init :: "nat \<Rightarrow> bdev \<Rightarrow> bdev res" where
  "IS_chunk_list_init c s =
     rbind (rfold (\<lambda>i s.
        rbind (aget STACKBD_SIZE_G (b_unmapped_chunk_list s) (b_free_chunk_index s)) (\<lambda>g.
          link_chunk c i g (init_chunk c i s)))
       (given_chunks (k_recv_buf (b_cb_list s c))) s) (\<lambda>s1.
     Inr (upd_cb c (\<lambda>k. k\<lparr>k_chunk_size_g := k_chunk_size_g k + dm_size_gb (k_recv_buf k),
        k_c_state := C_READY\<rparr>) s1))"

definition client_recv_evict :: "kernel_cb \<Rightarrow> kernel_cb" where
  "client_recv_evict k =
     (if dm_size_gb (k_recv_buf k) = 0 then k
      else k\<lparr>k_shrink_size_g := dm_size_gb (k_recv_buf k), k_c_state := C_EVICT\<rparr>)"

definition client_recv_stop :: "kernel_cb \<Rightarrow> kernel_cb" where
  "client_recv_stop k =
     (let k1 = k\<lparr>k_shrink_size_g := dm_size_gb (k_recv_buf k), k_c_state := C_STOP\<rparr> in
      if dm_size_gb (k_recv_buf k) = 0 then k1
      else k1\<lparr>k_evict_chunk_map := (\<lambda>i.
        if i < MAX_MR_SIZE_GB then (if dm_rkey (k_recv_buf k) i \<noteq> 0 then CHR ''s'' else CHR ''a'')
        else k_evict_chunk_map k i)\<rparr>)"

definition set_cb_state :: "nat \<Rightarrow> cb_state \<Rightarrow> bdev \<Rightarrow> bdev" where
  "set_cb_state c st s = s\<lparr>b_cb_state_list := (b_cb_state_list s)(c := st)\<rparr>"

definition set_k_state :: "nat \<Rightarrow> test_state \<Rightarrow> bdev \<Rightarrow> bdev" where
  "set_k_state c st s = upd_cb c (\<lambda>k. k\<lparr>k_state := st\<rparr>) s"

text \<open>\<open>len_ok\<close> tells whether the message has the size of \<^verbatim>\<open>struct IS_rdma_info\<close>.\<close>

definition client_recv :: "bool \<Rightarrow> nat \<Rightarrow> bdev \<Rightarrow> (int \<times> bdev) res" where
  "client_recv len_ok c s =
     (let k = b_cb_list s c in
      if \<not> len_ok then Inr (-1, s)
      else if k_state k < CONNECTED then Inr (-1, s)
      else (case dm_type (k_recv_buf k) of
          FREE_SIZE \<Rightarrow> Inr (0, set_k_state c FREE_MEM_RECV
            (upd_cb c (\<lambda>k. k\<lparr>k_target_size_g := dm_size_gb (k_recv_buf k)\<rparr>) s))
        | INFO \<Rightarrow> rbind (IS_chunk_list_init c (set_k_state c WAIT_OPS (set_cb_state c CB_MAPPED s)))
            (\<lambda>s'. Inr (0, s'))
        | INFO_SINGLE \<Rightarrow> rbind (IS_single_chunk_init c (set_k_state c WAIT_OPS (set_cb_state c CB_MAPPED s)))
            (\<lambda>s'. Inr (0, s'))
        | EVICT \<Rightarrow> Inr (0, upd_cb c client_recv_evict (set_k_state c RECV_EVICT s))
        | STOP \<Rightarrow> Inr (0, upd_cb c client_recv_stop (set_k_state c RECV_STOP s))
        | _ \<Rightarrow> Inr (-1, s)))"

section \<open>Completions\<close>

text \<open>
  A completion of the queue of a server. For a message: whether its length is right, the message
  that is in the receive buffer, and the result of \<^verbatim>\<open>ib_post_recv\<close> afterwards.
\<close>

datatype wc_status = WC_SUCCESS | WC_FLUSH_ERR | WC_FAILED

datatype wc_op =
    WC_RECV bool daemon_msg int | WC_SEND | WC_RDMA_READ ctx_id | WC_RDMA_WRITE ctx_id | WC_OTHER

text \<open>One completion: \<open>False\<close> when the loop is left through \<^verbatim>\<open>error\<close>.\<close>

definition handle_wc :: "nat \<Rightarrow> wc_op \<Rightarrow> bdev \<Rightarrow> (bool \<times> bdev) res" where
  "handle_wc c op s =
     (case op of
        WC_RECV len_ok m post \<Rightarrow>
          rbind (client_recv len_ok c (upd_cb c (\<lambda>k. k\<lparr>k_recv_buf := m\<rparr>) s)) (\<lambda>(ret, s1).
            if ret \<noteq> 0 then Inr (False, s1)
            else if post \<noteq> 0 then Inr (False, s1)
            else Inr (True, upd_cb c (\<lambda>k. k\<lparr>k_posted := k_posted k + 1\<rparr>) s1))
      | WC_SEND \<Rightarrow> Inr (True, s)
      | WC_RDMA_READ x \<Rightarrow> rbind (client_read_done x s) (\<lambda>s1. Inr (True, s1))
      | WC_RDMA_WRITE x \<Rightarrow> rbind (client_write_done x s) (\<lambda>s1. Inr (True, s1))
      | WC_OTHER \<Rightarrow> Inr (False, s))"

text \<open>\<open>ret\<close> is the result of the last \<^verbatim>\<open>ib_poll_cq\<close>, which is not one.\<close>

fun poll_loop :: "nat \<Rightarrow> (wc_status \<times> wc_op) list \<Rightarrow> int \<Rightarrow> bdev \<Rightarrow> bdev res" where
  "poll_loop c [] ret s = Inr (if ret \<noteq> 0 then set_k_state c ERROR s else s)"
| "poll_loop c ((st, op) # wcs) ret s =
     (case st of
        WC_FLUSH_ERR \<Rightarrow> poll_loop c wcs ret s
      | WC_FAILED \<Rightarrow> Inr (set_k_state c ERROR s)
      | WC_SUCCESS \<Rightarrow> rbind (handle_wc c op s) (\<lambda>(ok, s1).
          if ok then poll_loop c wcs ret s1 else Inr (set_k_state c ERROR s1)))"

definition rdma_cq_event_handler :: "nat \<Rightarrow> (wc_status \<times> wc_op) list \<Rightarrow> int \<Rightarrow> bdev \<Rightarrow> bdev res" where
  "rdma_cq_event_handler c wcs ret s =
     (if k_state (b_cb_list s c) = ERROR then Inr s else poll_loop c wcs ret s)"

section \<open>Contexts in flight\<close>

definition pool_ctxs :: "bdev \<Rightarrow> (nat \<times> nat) list" where
  "pool_ctxs s = List.product [0 ..< b_queues s] [0 ..< IS_QUEUE_DEPTH]"

text \<open>Whether a context in flight is on a chunk that is being taken away.\<close>

fun flight_scan :: "nat \<Rightarrow> (nat \<times> nat) list \<Rightarrow> bdev \<Rightarrow> bool res" where
  "flight_scan c [] s = Inr False"
| "flight_scan c ((n, j) # xs) s =
     (case b_pools s n c of
        None \<Rightarrow> Inl NullDeref
      | Some p \<Rightarrow>
          if cx_in_flight (cp_ctx p j) = CTX_IDLE then flight_scan c xs s
          else rbind (aget MAX_MR_SIZE_GB (k_chunk_map (b_cb_list s c)) (cx_chunk_index (cp_ctx p j))) (\<lambda>g.
            if g = -1 then Inr True else flight_scan c xs s))"

text \<open>The loop of \<^verbatim>\<open>IS_chunk_wait_in_flight_requests\<close> sleeps as long as there is one.\<close>

definition IS_chunk_wait_in_flight_requests :: "nat \<Rightarrow> bdev \<Rightarrow> bdev res" where
  "IS_chunk_wait_in_flight_requests c s =
     rbind (flight_scan c (pool_ctxs s) s) (\<lambda>b. if b then Inl Diverges else Inr s)"

section \<open>Eviction\<close>

definition evict_activity :: "int \<Rightarrow> nat \<Rightarrow> bdev \<Rightarrow> bdev res" where
  "evict_activity post c s = rbind (IS_send_activity post c s) (\<lambda>(_, s'). Inr s')"

definition clear_send_rkeys :: "nat \<Rightarrow> bdev \<Rightarrow> bdev" where
  "clear_send_rkeys c s = upd_cb c (\<lambda>k. k\<lparr>k_send_buf := clear_rkeys MAX_MR_SIZE_GB (k_send_buf k)\<rparr>) s"

text \<open>One chunk of the loop that takes the chunks of the device off the map.\<close>

definition evict_unmap :: "nat \<Rightarrow> nat \<Rightarrow> bool arr \<times> bdev \<Rightarrow> (bool arr \<times> bdev) res" where
  "evict_unmap c i es =
     (case es of (ev, s) \<Rightarrow>
       let k = b_cb_list s c; g = k_chunk_map k i in
       if k_evict_chunk_map k i = CHR ''s'' then
         rbind (aset STACKBD_SIZE_G (b_cb_index_map s) g (-1)) (\<lambda>m.
         rbind (aset STACKBD_SIZE_G ev g True) (\<lambda>ev'.
           Inr (ev', (upd_cb c (\<lambda>k. k\<lparr>k_chunk_map := (k_chunk_map k)(i := -1),
                        k_send_buf := (k_send_buf k)\<lparr>dm_rkey := (dm_rkey (k_send_buf k))(i := 1)\<rparr>\<rparr>) s)
                     \<lparr>b_cb_index_map := m\<rparr>)))
       else Inr (ev, upd_cb c (\<lambda>k. k\<lparr>k_send_buf := (k_send_buf k)\<lparr>dm_rkey :=
                       (dm_rkey (k_send_buf k))(i := 0)\<rparr>\<rparr>) s))"

text \<open>After STOP: nothing to evict, or the chunks of the device that lose their memory.\<close>

definition evict_mark :: "nat \<Rightarrow> bdev \<Rightarrow> ((bool arr \<times> int) option \<times> bdev) res" where
  "evict_mark c s =
     (if k_shrink_size_g (b_cb_list s c) = 0 then
        Inr (None, upd_cb c (\<lambda>k. k\<lparr>k_c_state := C_READY\<rparr>) s)
      else
        rbind (rfold (evict_unmap c) [0 ..< MAX_MR_SIZE_GB]
           (\<lambda>_. False, (clear_send_rkeys c s)\<lparr>b_trigger_enable := False\<rparr>)) (\<lambda>(ev, s').
          Inr (Some (ev, k_shrink_size_g (b_cb_list s c)), s')))"

definition evict_reset :: "nat \<Rightarrow> nat \<Rightarrow> bdev \<Rightarrow> bdev res" where
  "evict_reset c i s =
     (if k_evict_chunk_map (b_cb_list s c) i = CHR ''s'' then
        rbind (on_bitmap c i IS_bitmap_init s) (\<lambda>s'.
          Inr (upd_cb c (\<lambda>k. k\<lparr>k_remote_mapped := (k_remote_mapped k)(i := False)\<rparr>) s'))
      else Inr s)"

text \<open>
  \<open>size_g\<close> is the number of chunks that was read after STOP. The number of mapped servers is
  decreased by it, and the message DONE carries it with the chunks that were marked.
\<close>

definition evict_clean :: "int \<Rightarrow> nat \<Rightarrow> int \<Rightarrow> bdev \<Rightarrow> bdev res" where
  "evict_clean post c size_g s =
     rbind (IS_chunk_wait_in_flight_requests c s) (\<lambda>s1.
     rbind (rfold (evict_reset c) [0 ..< MAX_MR_SIZE_GB] s1) (\<lambda>s2.
       let s3 = upd_cb c (\<lambda>k. k\<lparr>k_chunk_size_g := k_chunk_size_g k - size_g, k_shrink_size_g := 0\<rparr>)
                  (s2\<lparr>b_mapped_cb_num := b_mapped_cb_num s2 - size_g\<rparr>);
           s4 = snd (IS_send_done post c size_g s3) in
       Inr (set_cb_state c CB_EVICTING (upd_cb c (\<lambda>k. k\<lparr>k_c_state := C_READY\<rparr>) s4))))"

text \<open>Chunk \<open>g\<close> of the device is free again.\<close>

definition release_chunk :: "int \<Rightarrow> bdev \<Rightarrow> bdev res" where
  "release_chunk g s =
     rbind (aset STACKBD_SIZE_G (b_chunk_map_cb_chunk s) g (-1)) (\<lambda>m.
     rbind (aset STACKBD_SIZE_G (b_unmapped_chunk_list s) (b_free_chunk_index s + 1) g) (\<lambda>u.
       Inr (s\<lparr>b_chunk_map_cb_chunk := m, b_free_chunk_index := b_free_chunk_index s + 1,
              b_unmapped_chunk_list := u\<rparr>)))"

definition evict_end :: "nat \<Rightarrow> bdev \<Rightarrow> bdev" where
  "evict_end c s = (set_cb_state c CB_MAPPED s)\<lparr>b_trigger_enable := True\<rparr>"

section \<open>Loss of a server\<close>

definition disconnect_unmap :: "nat \<Rightarrow> nat \<Rightarrow> bool arr \<times> bdev \<Rightarrow> (bool arr \<times> bdev) res" where
  "disconnect_unmap c i es =
     (case es of (ev, s) \<Rightarrow>
       let g = k_chunk_map (b_cb_list s c) i in
       if g \<noteq> -1 then
         rbind (aset STACKBD_SIZE_G ev g True) (\<lambda>ev'.
         rbind (on_bitmap c i IS_bitmap_init s) (\<lambda>s1.
         rbind (aset STACKBD_SIZE_G (b_cb_index_map s1) g (-1)) (\<lambda>m.
           Inr (ev', (upd_cb c (\<lambda>k. k\<lparr>k_remote_mapped := (k_remote_mapped k)(i := False)\<rparr>) s1)
                     \<lparr>b_cb_index_map := m\<rparr>))))
       else Inr (ev, s))"

text \<open>\<open>None\<close> when the server had no chunk mapped: then the handler returns.\<close>

definition disconnect_begin :: "nat \<Rightarrow> bdev \<Rightarrow> (bool arr option \<times> bdev) res" where
  "disconnect_begin c s =
     (if b_cb_state_list s c = CB_CONNECTED then Inr (None, set_cb_state c CB_FAIL s)
      else
        rbind (rfold (disconnect_unmap c) [0 ..< MAX_MR_SIZE_GB]
           (\<lambda>_. False, (set_cb_state c CB_FAIL s)\<lparr>b_trigger_enable := False, b_rdma_on := False\<rparr>)) (\<lambda>(ev, s').
          Inr (Some ev, upd_cb c (\<lambda>k. k\<lparr>k_chunk_size_g := 0\<rparr>) s')))"

text \<open>A context in flight: a read goes to the disk, a write ends, its copy for the disk is on its way.\<close>

definition disconnect_ctx :: "nat \<Rightarrow> nat \<times> nat \<Rightarrow> bdev \<Rightarrow> bdev res" where
  "disconnect_ctx c nj s =
     (case nj of (n, j) \<Rightarrow>
      let x = (n, c, j) in
      case b_pools s n c of
        None \<Rightarrow> Inl NullDeref
      | Some p \<Rightarrow>
         (case cx_in_flight (cp_ctx p j) of
            CTX_R_IN_FLIGHT \<Rightarrow>
              rbind (upd_ctx x (\<lambda>k. k\<lparr>cx_in_flight := CTX_IDLE\<rparr>) s) (\<lambda>s1.
                case cx_req (cp_ctx p j) of
                  None \<Rightarrow> Inl NullDeref
                | Some req \<Rightarrow> rbind (IS_mq_request_stackbd2 req s1) (IS_insert_ctx x))
          | CTX_W_IN_FLIGHT \<Rightarrow>
              rbind (upd_ctx x (\<lambda>k. k\<lparr>cx_in_flight := CTX_IDLE\<rparr>) s) (\<lambda>s1.
                case cx_req (cp_ctx p j) of
                  None \<Rightarrow> Inr s1
                | Some req \<Rightarrow> Inr (blk_mq_end_request (rq_id req) 0 s1))
          | CTX_IDLE \<Rightarrow> Inr s))"

definition disconnect_release :: "nat \<Rightarrow> nat \<Rightarrow> bdev \<Rightarrow> bdev res" where
  "disconnect_release c i s =
     (let g = k_chunk_map (b_cb_list s c) i in
      if g \<noteq> -1 then
        rbind (release_chunk g s) (\<lambda>s1.
          Inr (upd_cb c (\<lambda>k. k\<lparr>k_chunk_map := (k_chunk_map k)(i := -1)\<rparr>) s1))
      else Inr s)"

definition free_pools :: "nat \<Rightarrow> bdev \<Rightarrow> bdev" where
  "free_pools c s = s\<lparr>b_pools := (\<lambda>n. if n < b_queues s then (b_pools s n)(c := None) else b_pools s n)\<rparr>"

definition disconnect_finish :: "nat \<Rightarrow> bdev \<Rightarrow> bdev res" where
  "disconnect_finish c s =
     rbind (rfold (disconnect_ctx c) (pool_ctxs s) s) (\<lambda>s1.
     rbind (rfold (disconnect_release c) [0 ..< MAX_MR_SIZE_GB] s1) (\<lambda>s2.
       Inr ((free_pools c s2)\<lparr>b_rdma_on := True\<rparr>)))"

section \<open>Mapping a chunk\<close>

text \<open>
  The server that is asked, for the random number \<open>r\<close>. \<^verbatim>\<open>SERVER_SELECT_NUM\<close> is one: with at most
  one server left that one is taken, otherwise the first that is not evicting or failed from
  \<open>r\<close> on, round the list.
\<close>

definition select_server :: "nat \<Rightarrow> bdev \<Rightarrow> nat option" where
  "select_server r s =
     (let up = (\<lambda>i. b_cb_state_list s i < CB_EVICTING);
          avail_cb = length (filter up [0 ..< b_cb_num s]) in
      if avail_cb \<le> 1 then find up [0 ..< b_cb_num s]
      else find up (map (\<lambda>d. (r + d) mod b_cb_num s) [0 ..< b_cb_num s]))"

definition empty_msg :: daemon_msg where
  "empty_msg = \<lparr>dm_buf = (\<lambda>_. 0), dm_rkey = (\<lambda>_. 0), dm_size_gb = 0, dm_type = OTHER_MSG\<rparr>"

definition kernel_cb_init :: "nat \<Rightarrow> bdev \<Rightarrow> bdev" where
  "kernel_cb_init c s = upd_cb c (\<lambda>k. k\<lparr>k_state := IDLE, k_chunk_size_g := 0,
     k_chunk_list := (\<lambda>_. \<lparr>rc_rkey = 0, rc_addr = 0, rc_bitmap = None\<rparr>),
     k_remote_mapped := (\<lambda>_. False), k_chunk_map := (\<lambda>_. -1),
     k_evict_chunk_map := (\<lambda>_. CHR 0x00), k_c_state := C_IDLE\<rparr>) s"

text \<open>
  The first part: a server that is connected is asked for its free memory; to one that is idle
  the connection is made, and it sends its free memory unasked. The outcome of the connection is not
  looked at.
\<close>

definition map_query :: "int \<Rightarrow> nat \<Rightarrow> bdev \<Rightarrow> bdev" where
  "map_query post c s =
     (if CB_IDLE < b_cb_state_list s c then snd (IS_send_query post c s)
      else kernel_cb_init c s)"

definition zero_page :: page where
  "zero_page = replicate 4096 0"

definition idle_ctx :: rdma_ctx where
  "idle_ctx = \<lparr>cx_in_flight = CTX_IDLE, cx_req = None, cx_chunk_index = -1, cx_cb = None,
     cx_offset = 0, cx_len = 0, cx_chunk_ptr = None\<rparr>"

definition new_pool :: ctx_pool where
  "new_pool = \<lparr>cp_ctx = (\<lambda>_. idle_ctx), cp_list = (\<lambda>j. j), cp_tail = int IS_QUEUE_DEPTH - 1\<rparr>"

definition IS_ctx_init :: "nat \<Rightarrow> nat \<Rightarrow> bdev \<Rightarrow> bdev" where
  "IS_ctx_init c n s = (put_pool n c new_pool s)\<lparr>b_bufs := (\<lambda>x. case x of (n', c', j) \<Rightarrow>
     if n' = n \<and> c' = c then (\<lambda>_. zero_page) else b_bufs s x)\<rparr>"

definition IS_ctx_dma_setup :: "nat \<Rightarrow> bdev \<Rightarrow> bdev" where
  "IS_ctx_dma_setup c s = fold (IS_ctx_init c) [0 ..< b_queues s] s"

text \<open>
  The second part, when the free memory of the server is known: without any the mapping is
  given up. \<open>idle\<close> tells whether the server was idle in the first part. A server that had no chunk
  yet gets its contexts.
\<close>

definition map_bind :: "int \<Rightarrow> bool \<Rightarrow> nat \<Rightarrow> int \<Rightarrow> bdev \<Rightarrow> bool \<times> bdev" where
  "map_bind post idle c need_chunk s =
     (let s1 = set_k_state c AFTER_FREE_MEM s;
          s2 = (if idle then set_cb_state c CB_CONNECTED s1 else s1) in
      if k_target_size_g (b_cb_list s c) = 0 then (False, s2)
      else
        let s3 = (if b_cb_state_list s2 c = CB_CONNECTED
                  then IS_ctx_dma_setup c (s2\<lparr>b_mapped_cb_num := b_mapped_cb_num s2 + 1\<rparr>) else s2) in
        (True, snd (IS_send_bind_single post c need_chunk s3)))"

definition map_end :: "bdev \<Rightarrow> bdev" where
  "map_end s = s\<lparr>b_rdma_on := True\<rparr>"

text \<open>
  The whole of \<^verbatim>\<open>IS_single_chunk_map\<close> for a server that answers: \<open>m1\<close> is the message with the
  free memory and \<open>m2\<close> the one with the chunk, both handled as they are received; \<open>conn\<close> is the effect
  of the connection on the state of the server. A server that does not answer is waited for.
\<close>

definition recv_msg :: "nat \<Rightarrow> daemon_msg \<Rightarrow> bdev \<Rightarrow> bdev res" where
  "recv_msg c m s = rbind (client_recv True c (upd_cb c (\<lambda>k. k\<lparr>k_recv_buf := m\<rparr>) s)) (\<lambda>(_, s'). Inr s')"

definition await :: "nat \<Rightarrow> test_state \<Rightarrow> bdev \<Rightarrow> bdev res" where
  "await c st s = (if k_state (b_cb_list s c) = st then Inr s else Inl Diverges)"

definition IS_single_chunk_map ::
  "nat \<Rightarrow> (nat \<Rightarrow> bdev \<Rightarrow> bdev) \<Rightarrow> daemon_msg \<Rightarrow> daemon_msg \<Rightarrow> nat \<Rightarrow> bdev \<Rightarrow> (int \<times> bdev) res" where
  "IS_single_chunk_map r conn m1 m2 g s =
     (case select_server r s of
        None \<Rightarrow> Inr (-1, s)
      | Some c \<Rightarrow>
          (let idle = (b_cb_state_list s c = CB_IDLE); s1 = map_query 0 c s in
           rbind (recv_msg c m1 (if idle then conn c s1 else s1)) (\<lambda>s2.
           rbind (await c FREE_MEM_RECV s2) (\<lambda>s3.
             case map_bind 0 idle c (int g) s3 of
               (False, s4) \<Rightarrow> Inr (-1, s4)
             | (True, s4) \<Rightarrow>
                 rbind (recv_msg c m2 s4) (\<lambda>s5.
                 rbind (await c WAIT_OPS s5) (\<lambda>s6. Inr (int g, map_end s6)))))))"

section \<open>The trigger\<close>

definition RDMA_W_WEIGHT :: "64 word" where "RDMA_W_WEIGHT = 50"
definition RDMA_CUR_WEIGHT :: "64 word" where "RDMA_CUR_WEIGHT = 80"
definition RDMA_TRIGGER_THRESHOLD :: "64 word" where "RDMA_TRIGGER_THRESHOLD = 0"

definition filtered_ops :: "64 word \<Rightarrow> 64 word \<Rightarrow> 64 word \<Rightarrow> 64 word" where
  "filtered_ops w r lst =
     RDMA_CUR_WEIGHT * (RDMA_W_WEIGHT * w + (100 - RDMA_W_WEIGHT) * r) + (100 - RDMA_CUR_WEIGHT) * lst"

text \<open>The pass of \<^verbatim>\<open>rdma_trigger\<close> for chunk \<open>i\<close>: whether the chunk is to be mapped.\<close>

definition rdma_trigger :: "nat \<Rightarrow> bdev \<Rightarrow> bool \<times> bdev" where
  "rdma_trigger i s =
     (let f = filtered_ops (b_write_ops s i) (b_read_ops s i) (b_last_ops s i);
          s' = s\<lparr>b_write_ops := (b_write_ops s)(i := 0), b_read_ops := (b_read_ops s)(i := 0),
                 b_last_ops := (b_last_ops s)(i := f)\<rparr> in
      (RDMA_TRIGGER_THRESHOLD < f \<and> b_trigger_enable s' \<and> b_cb_index_map s' i = -1, s'))"

end
