(* ===== verification/Block_Requests.thy ===== *)
theory Block_Requests
  imports Block_Chunks
begin

text \<open>
  The requests of the swap system: aligned to pages, every bio with one page, reads of one
  page. What \<^verbatim>\<open>IS_request\<close> computes for them, and what it does with them.
\<close>

unbundle bit_operations_syntax

section \<open>Pages of a request\<close>

definition rq_page :: "request \<Rightarrow> nat" where
  "rq_page req = unat (rq_pos req) div 8"

definition rq_npages :: "request \<Rightarrow> nat" where
  "rq_npages req = unat (rq_bytes req) div 4096"

definition rq_data :: "request \<Rightarrow> nat \<Rightarrow> page" where
  "rq_data req k = hd (bi_pages (rq_bios req ! k))"

definition rq_pages :: "request \<Rightarrow> nat set" where
  "rq_pages req = {rq_page req ..< rq_page req + rq_npages req}"

text \<open>The content of page \<open>p\<close> of the device in a write.\<close>

definition rq_content :: "request \<Rightarrow> nat \<Rightarrow> page" where
  "rq_content req p = rq_data req (p - rq_page req)"

definition good_bio :: "request \<Rightarrow> nat \<Rightarrow> bool" where
  "good_bio req k \<longleftrightarrow> rq_bios req ! k = \<lparr>bi_sector = rq_pos req + 8 * word_of_nat k,
     bi_phys_segments = 1, bi_pages = [rq_data req k]\<rparr>"

definition page_request :: "bdev \<Rightarrow> request \<Rightarrow> bool" where
  "page_request s req \<longleftrightarrow>
     unat (rq_pos req) = 8 * rq_page req \<and> unat (rq_bytes req) = 4096 * rq_npages req \<and>
     0 < rq_npages req \<and> rq_npages req \<le> b_sgl s \<and> rq_npages req \<le> 32 \<and>
     rq_page req + rq_npages req \<le> STACKBD_SIZE_G * 2 ^ 18 \<and>
     length (rq_bios req) = rq_npages req \<and> rq_nr_phys_segments req = rq_npages req \<and>
     (\<forall>k < rq_npages req. good_bio req k) \<and>
     (\<not> rq_write req \<longrightarrow> rq_npages req = 1) \<and>
     unat (rq_buffer req AND QUEUE_NUM_MASK) < b_queues s"

lemma page_requestD:
  assumes "page_request s req"
  shows "unat (rq_pos req) = 8 * rq_page req" "unat (rq_bytes req) = 4096 * rq_npages req"
    "0 < rq_npages req" "rq_npages req \<le> b_sgl s" "rq_npages req \<le> 32"
    "rq_page req + rq_npages req \<le> 12 * 2 ^ 18"
    "length (rq_bios req) = rq_npages req" "rq_nr_phys_segments req = rq_npages req"
    "\<And>k. k < rq_npages req \<Longrightarrow> good_bio req k" "\<not> rq_write req \<Longrightarrow> rq_npages req = 1"
    "unat (rq_buffer req AND QUEUE_NUM_MASK) < b_queues s"
  using assms by (simp_all add: page_request_def STACKBD_SIZE_G_def)

section \<open>Addresses\<close>

lemma start_val:
  assumes "page_request s req"
  shows "unat (rq_start req) = 4096 * rq_page req"
proof -
  have "unat (rq_pos req) * 512 < 2 ^ 64"
    using page_requestD(1,6) [OF assms] by simp
  then show ?thesis
    using page_requestD(1) [OF assms]
    by (simp add: rq_start_def IS_SECT_SHIFT_def push_bit_eq_mult unat_word_ariths)
qed

lemma gb_index_val:
  assumes "unat a < 2 ^ 60"
  shows "gb_index a = int (unat a div 2 ^ 30)"
proof -
  have "uint (drop_bit 30 a) = int (unat a div 2 ^ 30)"
    by (simp add: drop_bit_eq_div uint_div zdiv_int)
  moreover have "is_int32 (int (unat a div 2 ^ 30))"
    using assms by (simp add: is_int32_def less_mult_imp_div_less del: of_nat_div)
  ultimately show ?thesis by (simp add: gb_index_def ONE_GB_SHIFT_def to_int32_id)
qed

definition rq_chunk :: "request \<Rightarrow> nat" where
  "rq_chunk req = rq_page req div 2 ^ 18"

definition rq_last_chunk :: "request \<Rightarrow> nat" where
  "rq_last_chunk req = (rq_page req + rq_npages req - 1) div 2 ^ 18"

lemma gb_index_start:
  assumes "page_request s req"
  shows "gb_index (rq_start req) = int (rq_chunk req)"
proof -
  have "unat (rq_start req) < 2 ^ 60" using start_val [OF assms] page_requestD(6) [OF assms] by simp
  then show ?thesis using start_val [OF assms] by (simp add: gb_index_val rq_chunk_def)
qed

lemma end_val:
  assumes "page_request s req"
  shows "unat (rq_start req + rq_bytes req - word_of_nat IS_PAGE_SIZE) = 4096 * (rq_page req + rq_npages req - 1)"
proof -
  note g = page_requestD [OF assms]
  have "unat (rq_start req + rq_bytes req) = 4096 * (rq_page req + rq_npages req)"
    using start_val [OF assms] g(2,6) by (simp add: unat_word_ariths)
  then show ?thesis
    using g(3) by (simp add: IS_PAGE_SIZE_def unat_sub word_le_nat_alt)
qed

lemma gb_index_end:
  assumes "page_request s req"
  shows "end_index req = int (rq_last_chunk req)"
proof -
  have "unat (rq_start req + rq_bytes req - word_of_nat IS_PAGE_SIZE) < 2 ^ 60"
    using end_val [OF assms] page_requestD(6) [OF assms] by simp
  then show ?thesis
    using end_val [OF assms] by (simp add: end_index_def gb_index_val rq_last_chunk_def)
qed

lemma chunk_bounds:
  assumes "page_request s req"
  shows "rq_chunk req < 12" "rq_last_chunk req < 12"
  using page_requestD(3,6) [OF assms]
  by (simp_all add: rq_chunk_def rq_last_chunk_def less_mult_imp_div_less)

lemma chunk_offset_val:
  assumes "page_request s req"
  shows "unat (rq_start req AND ONE_GB_MASK) = 4096 * (rq_page req mod 2 ^ 18)"
proof -
  have "rq_start req AND ONE_GB_MASK = take_bit 30 (rq_start req)"
    by (simp add: ONE_GB_MASK_def take_bit_eq_mask mask_numeral)
  then have "unat (rq_start req AND ONE_GB_MASK) = (4096 * rq_page req) mod 2 ^ 30"
    using start_val [OF assms] by (simp add: take_bit_eq_mod unat_mod)
  also have "\<dots> = 4096 * (rq_page req mod 2 ^ 18)"
    using mult_mod_right [of 4096 "rq_page req" "2 ^ 18"] by simp
  finally show ?thesis .
qed

lemma in_chunk_request:
  assumes "page_request s req" "rq_chunk req = rq_last_chunk req"
  shows "in_chunk (rq_start req AND ONE_GB_MASK) (rq_bytes req)"
    "in_pages (rq_start req AND ONE_GB_MASK) (rq_bytes req) q \<longleftrightarrow>
      q < 2 ^ 18 \<and> rq_chunk req * 2 ^ 18 + q \<in> rq_pages req"
proof -
  note g = page_requestD [OF assms(1)]
  let ?p = "rq_page req" and ?n = "rq_npages req"
  have "(?p + ?n - 1) div 2 ^ 18 = ?p div 2 ^ 18"
    using assms(2) by (simp add: rq_chunk_def rq_last_chunk_def)
  then have "(?p + ?n - 1) - (?p div 2 ^ 18) * 2 ^ 18 < 2 ^ 18"
    by (metis minus_div_mult_eq_mod mod_less_divisor zero_less_numeral zero_less_power)
  then have e: "?p mod 2 ^ 18 + ?n \<le> 2 ^ 18"
    using g(3) minus_div_mult_eq_mod [of ?p "2 ^ 18"] div_times_less_eq_dividend [of ?p "2 ^ 18"]
    by linarith
  then show "in_chunk (rq_start req AND ONE_GB_MASK) (rq_bytes req)"
    using g(2) chunk_offset_val [OF assms(1)] by (simp add: in_chunk_def ONE_GB_def)
  have d: "?p = rq_chunk req * 2 ^ 18 + ?p mod 2 ^ 18"
    unfolding rq_chunk_def by (rule div_mult_mod_eq [symmetric])
  show "in_pages (rq_start req AND ONE_GB_MASK) (rq_bytes req) q \<longleftrightarrow>
      q < 2 ^ 18 \<and> rq_chunk req * 2 ^ 18 + q \<in> rq_pages req"
    using e d g(2) chunk_offset_val [OF assms(1)] by (auto simp: in_pages_def rq_pages_def)
qed

section \<open>Bios of a request\<close>

lemma clone_bios_take:
  "n \<le> length bs \<Longrightarrow> clone_bios w n bs = Inr (map (bio_clone w) (take n bs), drop n bs)"
  by (induction w n bs rule: clone_bios.induct) simp_all

definition disk_bios :: "request \<Rightarrow> sbio list" where
  "disk_bios req = map (bio_clone (rq_write req)) (butlast (rq_bios req)) @
     [(bio_clone (rq_write req) (last (rq_bios req)))\<lparr>sb_end := EndReq (rq_id req)\<rparr>]"

lemma make_request2_good:
  assumes "page_request s0 req" "stackbd_ready s"
  shows "stackbd_make_request2 req s = Inr (add_bios (disk_bios req) s)"
proof -
  note g = page_requestD [OF assms(1)]
  have "take (rq_npages req - 1) (rq_bios req) = butlast (rq_bios req)"
    using g(7) by (simp add: butlast_conv_take)
  moreover have "drop (rq_npages req - 1) (rq_bios req) = [last (rq_bios req)]"
    using g(3,7) append_butlast_last_id [of "rq_bios req"]
    by (metis append_eq_conv_conj g(7) length_butlast list.size(3) nat_less_le)
  ultimately show ?thesis
    using assms(2) g(3,7,8) by (simp add: stackbd_make_request2_def clone_bios_take disk_bios_def)
qed

lemma make_request2_ready:
  "stackbd_make_request2 req s = Inr s' \<Longrightarrow> stackbd_ready s"
  by (auto simp: stackbd_make_request2_def split: if_splits)

lemma mem_gather_good:
  assumes "\<forall>k < length bs. bi_phys_segments (bs ! k) = 1 \<and> length (bi_pages (bs ! k)) = 1"
    "i + length bs = nr" "nr \<le> sgl"
  shows "mem_gather sgl nr bs i buf =
    Inr (\<lambda>k. if i \<le> k \<and> k < nr then hd (bi_pages (bs ! (k - i))) else buf k)"
  using assms
proof (induction bs arbitrary: i buf)
  case (Cons b bs)
  have 1: "bi_phys_segments b = 1" "length (bi_pages b) = 1" using Cons.prems(1) by force+
  have "\<forall>k < length bs. bi_phys_segments (bs ! k) = 1 \<and> length (bi_pages (bs ! k)) = 1"
    using Cons.prems(1) by force
  from Cons.IH [OF this, of "i + 1"] Cons.prems(2,3) have
    "mem_gather sgl nr bs (i + 1) f = Inr (\<lambda>k. if i + 1 \<le> k \<and> k < nr then hd (bi_pages (bs ! (k - (i + 1)))) else f k)" for f
    by simp
  moreover have "bi_pages b ! 0 = hd (bi_pages b)" using 1(2) by (cases "bi_pages b") simp_all
  ultimately show ?case
    using 1 Cons.prems(2,3) by (auto simp: fun_eq_iff nth_Cons' le_less_Suc_eq not_less_eq_eq)
qed (auto simp: fun_eq_iff)

definition gathered :: "request \<Rightarrow> page arr \<Rightarrow> page arr" where
  "gathered req buf = (\<lambda>k. if k < rq_npages req then rq_data req k else buf k)"

lemma mem_gather_request:
  assumes "page_request s req"
  shows "mem_gather (b_sgl s) (rq_nr_phys_segments req) (rq_bios req) 0 buf = Inr (gathered req buf)"
proof -
  note g = page_requestD [OF assms]
  have "\<forall>k < length (rq_bios req). bi_phys_segments (rq_bios req ! k) = 1 \<and> length (bi_pages (rq_bios req ! k)) = 1"
    using g(7,9) by (simp add: good_bio_def)
  from mem_gather_good [OF this, of 0 "rq_npages req" "b_sgl s" buf] g(4,7,8) show ?thesis
    by (simp add: gathered_def rq_data_def cong: if_cong)
qed

section \<open>Contexts\<close>

text \<open>The context that is taken: the top of a pool of the server.\<close>

definition takes_ctx :: "bdev \<Rightarrow> nat \<Rightarrow> ctx_id \<Rightarrow> bdev \<Rightarrow> bool" where
  "takes_ctx s c x s1 \<longleftrightarrow> (\<exists>n p. n < b_queues s \<and> b_pools s n c = Some p \<and>
     in_bounds IS_QUEUE_DEPTH (cp_tail p) \<and> x = (n, c, cp_list p (nat (cp_tail p))) \<and>
     s1 = put_pool n c (p\<lparr>cp_tail := cp_tail p - 1\<rparr>) s)"

lemma IS_get_ctx_Some:
  "IS_get_ctx n c s = Inr (Some j, s1) \<Longrightarrow> n < b_queues s \<Longrightarrow> takes_ctx s c (n, c, j) s1"
  by (auto simp: IS_get_ctx_def takes_ctx_def aget_Inr rbind_eq_Inr split: option.splits if_splits)

lemma IS_get_ctx_None: "IS_get_ctx n c s = Inr (None, s1) \<Longrightarrow> s1 = s"
  by (auto simp: IS_get_ctx_def rbind_eq_Inr split: option.splits if_splits)

lemma find_ctx_takes:
  "find_ctx k n c s = Inr (x, s1) \<Longrightarrow> n < b_queues s \<Longrightarrow> takes_ctx s c x s1"
proof (induction k arbitrary: n)
  case (Suc k)
  then obtain r s' where r: "IS_get_ctx n c s = Inr (r, s')"
    "(case r of Some j \<Rightarrow> Inr ((n, c, j), s') | None \<Rightarrow> find_ctx k ((n + 1) mod b_queues s') c s') = Inr (x, s1)"
    by (auto simp: rbind_eq_Inr)
  show ?case
  proof (cases r)
    case None
    then show ?thesis using r Suc.IH [of "(n + 1) mod b_queues s"] IS_get_ctx_None [of n c s s'] Suc.prems(2) by simp
  next
    case (Some j)
    then show ?thesis using r IS_get_ctx_Some [of n c s j s'] Suc.prems(2) by simp
  qed
qed simp

lemma request_ctx_takes: "request_ctx req c s = Inr (x, s1) \<Longrightarrow> takes_ctx s c x s1"
  by (auto simp: request_ctx_def Let_def split: if_splits intro: find_ctx_takes)

end
