(* ===== verification/Block_Pools.thy ===== *)
theory Block_Pools
  imports Block_Requests
begin

text \<open>
  The pools of contexts seen from outside: the context behind an identifier and the free
  contexts of a pool, as a stack. Every operation on a pool is described by its effect on these
  two, and the proofs about the device use nothing else.
\<close>

section \<open>The view of the pools\<close>

definition ctx_of :: "bdev \<Rightarrow> ctx_id \<Rightarrow> rdma_ctx option" where
  "ctx_of s x = (case x of (n, c, j) \<Rightarrow> map_option (\<lambda>p. cp_ctx p j) (b_pools s n c))"

definition frees :: "bdev \<Rightarrow> nat \<Rightarrow> nat \<Rightarrow> nat list" where
  "frees s n c = (case b_pools s n c of None \<Rightarrow> [] | Some p \<Rightarrow> map (cp_list p) [0 ..< nat (cp_tail p + 1)])"

definition is_free :: "bdev \<Rightarrow> ctx_id \<Rightarrow> bool" where
  "is_free s x = (case x of (n, c, j) \<Rightarrow> j \<in> set (frees s n c))"

definition pools_ok :: "bdev \<Rightarrow> bool" where
  "pools_ok s \<longleftrightarrow> (\<forall>n c. pred_option (\<lambda>p. -1 \<le> cp_tail p) (b_pools s n c))"

lemma ctx_at_of: "ctx_at s x = Inr k \<longleftrightarrow> ctx_of s x = Some k"
  by (auto simp: ctx_at_def ctx_of_def split: prod.splits option.splits)

section \<open>Operations\<close>

definition mod_ctx :: "ctx_id \<Rightarrow> (rdma_ctx \<Rightarrow> rdma_ctx) \<Rightarrow> bdev \<Rightarrow> bdev" where
  "mod_ctx x f s = s\<lparr>b_pools := (case x of (n, c, j) \<Rightarrow> (b_pools s)(n := (b_pools s n)(c :=
     map_option (\<lambda>p. p\<lparr>cp_ctx := (cp_ctx p)(j := f (cp_ctx p j))\<rparr>) (b_pools s n c))))\<rparr>"

lemma upd_ctx_mod: "upd_ctx x f s = Inr s' \<longleftrightarrow> ctx_of s x \<noteq> None \<and> s' = mod_ctx x f s"
  by (cases x) (auto simp: upd_ctx_def ctx_of_def mod_ctx_def put_pool_def split: option.splits)

lemma mod_ctx_of [simp]: "ctx_of (mod_ctx x f s) y = (if y = x then map_option f (ctx_of s x) else ctx_of s y)"
  by (cases x; cases y) (auto simp: ctx_of_def mod_ctx_def option.map_comp o_def map_option_case
      split: option.splits)

lemma mod_ctx_frees [simp]: "frees (mod_ctx x f s) n c = frees s n c"
  by (cases x) (auto simp: frees_def mod_ctx_def split: option.splits)

lemma mod_ctx_free [simp]: "is_free (mod_ctx x f s) y = is_free s y"
  by (simp add: is_free_def)

lemma mod_ctx_ok [simp]: "pools_ok (mod_ctx x f s) = pools_ok s"
proof -
  obtain n c j where x: "x = (n, c, j)" by (metis prod_cases3)
  have "pred_option (\<lambda>p. -1 \<le> cp_tail p) (b_pools (mod_ctx x f s) n' c') =
      pred_option (\<lambda>p. -1 \<le> cp_tail p) (b_pools s n' c')" for n' c'
    by (simp add: mod_ctx_def x option.pred_map o_def)
  then show ?thesis by (simp add: pools_ok_def)
qed

lemma takes_ctx_view:
  assumes "takes_ctx s c x s1" "pools_ok s"
  obtains n j where "x = (n, c, j)" "n < b_queues s" "frees s n c = frees s1 n c @ [j]"
    "\<And>n' c'. (n', c') \<noteq> (n, c) \<Longrightarrow> frees s1 n' c' = frees s n' c'"
    "\<And>y. ctx_of s1 y = ctx_of s y" "ctx_of s x \<noteq> None" "pools_ok s1" "s1 = s\<lparr>b_pools := b_pools s1\<rparr>"
proof -
  obtain n p where p: "n < b_queues s" "b_pools s n c = Some p" "in_bounds IS_QUEUE_DEPTH (cp_tail p)"
    "x = (n, c, cp_list p (nat (cp_tail p)))" "s1 = put_pool n c (p\<lparr>cp_tail := cp_tail p - 1\<rparr>) s"
    using assms(1) by (auto simp: takes_ctx_def)
  have n: "nat (cp_tail p + 1) = Suc (nat (cp_tail p))" "nat (cp_tail p) < Suc (nat (cp_tail p))"
    using p(3) by (simp_all add: in_bounds_def nat_add_distrib)
  show thesis
  proof (rule that [of n "cp_list p (nat (cp_tail p))"])
    show "frees s n c = frees s1 n c @ [cp_list p (nat (cp_tail p))]"
      using p(2) n by (simp add: frees_def p(5) put_pool_def)
    show "pools_ok s1" using assms(2) p(3) by (simp add: pools_ok_def p(5) put_pool_def in_bounds_def)
  qed (use p in \<open>auto simp: frees_def ctx_of_def put_pool_def split: prod.splits\<close>)
qed

lemma IS_insert_ctx_view:
  assumes "IS_insert_ctx (n, c, j) s = Inr s1" "pools_ok s"
  shows "frees s1 n c = frees s n c @ [j]"
    "\<And>n' c'. (n', c') \<noteq> (n, c) \<Longrightarrow> frees s1 n' c' = frees s n' c'"
    "\<And>y. ctx_of s1 y = ctx_of s y" "pools_ok s1" "s1 = s\<lparr>b_pools := b_pools s1\<rparr>"
proof -
  obtain p where p: "b_pools s n c = Some p" "in_bounds IS_QUEUE_DEPTH (cp_tail p + 1)"
    "s1 = put_pool n c (p\<lparr>cp_list := (cp_list p)(nat (cp_tail p + 1) := j), cp_tail := cp_tail p + 1\<rparr>) s"
    using assms(1) by (auto simp: IS_insert_ctx_def aset_Inr rbind_eq_Inr split: option.splits)
  have n: "nat (cp_tail p + 2) = Suc (nat (cp_tail p + 1))" using p(2) by (simp add: in_bounds_def nat_eq_iff)
  then show "frees s1 n c = frees s n c @ [j]"
    using p(1) by (simp add: frees_def p(3) put_pool_def add.assoc)
  show "pools_ok s1" using assms(2) p(2) by (simp add: pools_ok_def p(3) put_pool_def in_bounds_def)
  show "s1 = s\<lparr>b_pools := b_pools s1\<rparr>" by (simp add: p(3) put_pool_def)
  show "frees s1 n' c' = frees s n' c'" if "(n', c') \<noteq> (n, c)" for n' c'
    using that by (auto simp: frees_def p(3) put_pool_def)
  show "ctx_of s1 y = ctx_of s y" for y
    using p(1) by (cases y) (simp add: ctx_of_def p(3) put_pool_def)
qed

end
