(* ===== verification/Block_Outcomes.thy ===== *)
theory Block_Outcomes
  imports Block_Pools
begin

text \<open>
  What \<^verbatim>\<open>IS_request\<close> does with a request of the swap system when the disk is ready and work
  requests can be posted: it goes to the disk, or over two chunks, or to a memory server.
\<close>

unbundle bit_operations_syntax

section \<open>Where the request goes\<close>

definition counted :: "request \<Rightarrow> bdev \<Rightarrow> bdev" where
  "counted req s =
     (if rq_write req then s\<lparr>b_write_ops := (b_write_ops s)(rq_chunk req := b_write_ops s (rq_chunk req) + 1)\<rparr>
      else s\<lparr>b_read_ops := (b_read_ops s)(rq_chunk req := b_read_ops s (rq_chunk req) + 1)\<rparr>)"

lemma count_op_good: "page_request s req \<Longrightarrow> count_op req s = Inr (counted req s)"
  using chunk_bounds [of s req]
  by (simp add: count_op_def gb_index_start aget_def aset_def counted_def STACKBD_SIZE_G_def)

definition mapped_at :: "bdev \<Rightarrow> nat \<Rightarrow> nat \<Rightarrow> nat \<Rightarrow> bool" where
  "mapped_at s g c i \<longleftrightarrow> g < STACKBD_SIZE_G \<and> b_cb_index_map s g = int c \<and> c < b_cb_num s \<and>
     b_chunk_map_cb_chunk s g = int i \<and> i < MAX_MR_SIZE_GB"

lemma find_chunk_Some: "find_chunk s (int g) = Inr (Some (c, i)) \<Longrightarrow> mapped_at s g c i"
  by (auto simp: find_chunk_def rbind_eq_Inr aget_Inr mapped_at_def in_bounds_def split: if_splits)

lemma find_chunk_None: "find_chunk s (int g) = Inr None \<Longrightarrow> \<not> mapped_at s g c i"
  by (auto simp: find_chunk_def rbind_eq_Inr aget_Inr mapped_at_def in_bounds_def split: if_splits)

lemma find_chunk_mapped: "mapped_at s g c i \<Longrightarrow> find_chunk s (int g) = Inr (Some (c, i))"
  by (simp add: find_chunk_def mapped_at_def aget_def)

definition write_ctx :: "nat \<Rightarrow> nat \<Rightarrow> request \<Rightarrow> rdma_ctx \<Rightarrow> rdma_ctx" where
  "write_ctx c i req k = k\<lparr>cx_req := Some req, cx_cb := Some c, cx_offset := rq_start req AND ONE_GB_MASK,
     cx_len := rq_bytes req, cx_chunk_ptr := Some (c, i), cx_chunk_index := int i,
     cx_in_flight := CTX_W_IN_FLIGHT\<rparr>"

definition read_ctx :: "nat \<Rightarrow> request \<Rightarrow> rdma_ctx \<Rightarrow> rdma_ctx" where
  "read_ctx i req k = k\<lparr>cx_req := Some req, cx_chunk_index := int i, cx_in_flight := CTX_R_IN_FLIGHT\<rparr>"

definition write_bio :: "ctx_id \<Rightarrow> request \<Rightarrow> sbio" where
  "write_bio x req = (bio_clone (rq_write req) (hd (rq_bios req)))\<lparr>sb_pages := rq_npages req,
     sb_src := CtxBuf x, sb_end := EndCtx x\<rparr>"

definition request_wr :: "bool \<Rightarrow> ctx_id \<Rightarrow> nat \<Rightarrow> nat \<Rightarrow> request \<Rightarrow> bdev \<Rightarrow> work_request" where
  "request_wr w x c i req s = \<lparr>wr_ctx = x, wr_write = w, wr_rkey = rc_rkey (chunk_at s c i),
     wr_addr = rc_addr (chunk_at s c i) + (rq_start req AND ONE_GB_MASK), wr_len = rq_bytes req\<rparr>"

text \<open>The device after a transfer was posted with context \<open>x\<close>, which was taken from \<open>s\<close> to \<open>s1\<close>.\<close>

definition write_posted :: "ctx_id \<Rightarrow> nat \<Rightarrow> nat \<Rightarrow> request \<Rightarrow> bdev \<Rightarrow> bdev" where
  "write_posted x c i req s1 = (mod_ctx x (write_ctx c i req) s1)\<lparr>
     b_bufs := (b_bufs s1)(x := gathered req (b_bufs s1 x)),
     b_bio_list := b_bio_list s1 @ [write_bio x req],
     b_wrs := (b_wrs s1)(c := b_wrs s1 c @ [request_wr True x c i req s1])\<rparr>"

definition read_posted :: "ctx_id \<Rightarrow> nat \<Rightarrow> nat \<Rightarrow> request \<Rightarrow> bdev \<Rightarrow> bdev" where
  "read_posted x c i req s1 = (mod_ctx x (read_ctx i req) s1)\<lparr>
     b_wrs := (b_wrs s1)(c := b_wrs s1 c @ [request_wr False x c i req s1])\<rparr>"

lemma mod_ctx_simps [simp]:
  "b_rdma_on (mod_ctx x f s) = b_rdma_on s" "b_sgl (mod_ctx x f s) = b_sgl s"
  "b_bufs (mod_ctx x f s) = b_bufs s" "b_wrs (mod_ctx x f s) = b_wrs s"
  "b_cb_list (mod_ctx x f s) = b_cb_list s" "b_bio_list (mod_ctx x f s) = b_bio_list s"
  "b_raw_bios (mod_ctx x f s) = b_raw_bios s" "b_preempt (mod_ctx x f s) = b_preempt s"
  "b_cb_index_map (mod_ctx x f s) = b_cb_index_map s" "b_cb_num (mod_ctx x f s) = b_cb_num s"
  "b_chunk_map_cb_chunk (mod_ctx x f s) = b_chunk_map_cb_chunk s"
  "b_cb_state_list (mod_ctx x f s) = b_cb_state_list s" "b_queues (mod_ctx x f s) = b_queues s"
  "b_bdev_raw (mod_ctx x f s) = b_bdev_raw s" "b_is_active (mod_ctx x f s) = b_is_active s"
  "b_ended (mod_ctx x f s) = b_ended s" "b_rbuf (mod_ctx x f s) = b_rbuf s"
  "b_free_chunk_index (mod_ctx x f s) = b_free_chunk_index s"
  "b_unmapped_chunk_list (mod_ctx x f s) = b_unmapped_chunk_list s"
  "chunk_at (mod_ctx x f s) c i = chunk_at s c i"
  by (simp_all add: mod_ctx_def chunk_at_def)

lemma takes_ctx_simps:
  assumes "takes_ctx s c x s1"
  shows "b_rdma_on s1 = b_rdma_on s" "b_sgl s1 = b_sgl s" "b_bdev_raw s1 = b_bdev_raw s"
    "b_is_active s1 = b_is_active s" "ctx_of s1 x \<noteq> None"
  using assms by (auto simp: takes_ctx_def put_pool_def ctx_of_def)

lemma IS_rdma_write_eq:
  assumes x: "request_ctx req c s = Inr (x, s1)" and "page_request s req" "b_rdma_on s" "stackbd_ready s"
  shows "IS_rdma_write 0 c i (rq_start req AND ONE_GB_MASK) (rq_bytes req) req s = Inr (0, write_posted x c i req s1)"
proof -
  note t = request_ctx_takes [OF x] and g = page_requestD [OF assms(2)]
  note u = takes_ctx_simps [OF t]
  let ?s2 = "mod_ctx x (write_ctx c i req) s1"
  have 2: "upd_ctx x (\<lambda>k. k\<lparr>cx_req := Some req, cx_cb := Some c, cx_offset := rq_start req AND ONE_GB_MASK,
      cx_len := rq_bytes req, cx_chunk_ptr := Some (c, i), cx_chunk_index := int i,
      cx_in_flight := CTX_W_IN_FLIGHT\<rparr>) s1 = Inr ?s2"
    using u(5) by (simp add: upd_ctx_mod write_ctx_def [abs_def])
  have 3: "mem_gather (b_sgl ?s2) (rq_nr_phys_segments req) (rq_bios req) 0 (b_bufs ?s2 x) =
      Inr (gathered req (b_bufs s1 x))"
    using mem_gather_request [OF assms(2)] u(2) by simp
  obtain b bs where b: "rq_bios req = b # bs" using g(3,7) by (cases "rq_bios req") auto
  show ?thesis
    using assms(3,4) b g(8) u(1-4)
    unfolding IS_rdma_write_def x rbind_simps prod.case 2 3
    by (simp add: stackbd_bio_generate_def stackbd_make_request5_def stackbd_ready_def add_bios_def
        write_posted_def write_bio_def request_wr_def chunk_at_def)
qed

lemma IS_rdma_write_posted:
  assumes "IS_rdma_write 0 c i (rq_start req AND ONE_GB_MASK) (rq_bytes req) req s = Inr (r, s')"
    and "page_request s req" "b_rdma_on s" "stackbd_ready s"
  shows "r = 0 \<and> (\<exists>x s1. takes_ctx s c x s1 \<and> s' = write_posted x c i req s1)"
proof -
  obtain x s1 where x: "request_ctx req c s = Inr (x, s1)"
    using assms(1) by (auto simp: IS_rdma_write_def rbind_eq_Inr)
  with assms(1) IS_rdma_write_eq [OF x assms(2-4)] request_ctx_takes [OF x] show ?thesis
    by (metis Pair_inject sum.inject(2))
qed

lemma IS_rdma_read_eq:
  assumes x: "request_ctx req c s = Inr (x, s1)" and "b_rdma_on s"
  shows "IS_rdma_read 0 c i (rq_start req AND ONE_GB_MASK) (rq_bytes req) req s = Inr (0, read_posted x c i req s1)"
proof -
  note u = takes_ctx_simps [OF request_ctx_takes [OF x]]
  have 2: "upd_ctx x (\<lambda>k. k\<lparr>cx_req := Some req, cx_chunk_index := int i, cx_in_flight := CTX_R_IN_FLIGHT\<rparr>) s1 =
      Inr (mod_ctx x (read_ctx i req) s1)"
    using u(5) by (simp add: upd_ctx_mod read_ctx_def [abs_def])
  show ?thesis
    using assms(2) u(1) unfolding IS_rdma_read_def x rbind_simps prod.case 2
    by (simp add: read_posted_def request_wr_def chunk_at_def)
qed

lemma IS_rdma_read_posted:
  assumes "IS_rdma_read 0 c i (rq_start req AND ONE_GB_MASK) (rq_bytes req) req s = Inr (r, s')"
    and "b_rdma_on s"
  shows "r = 0 \<and> (\<exists>x s1. takes_ctx s c x s1 \<and> s' = read_posted x c i req s1)"
proof -
  obtain x s1 where x: "request_ctx req c s = Inr (x, s1)"
    using assms(1) by (auto simp: IS_rdma_read_def rbind_eq_Inr)
  with assms(1) IS_rdma_read_eq [OF x assms(2)] request_ctx_takes [OF x] show ?thesis
    by (metis Pair_inject sum.inject(2))
qed

section \<open>The request\<close>

text \<open>
  The four outcomes. A write that goes to the disk alone has no chunk on a server, or RDMA is off.
\<close>

definition disk_outcome :: "request \<Rightarrow> bdev \<Rightarrow> bdev \<Rightarrow> bool" where
  "disk_outcome req s s' \<longleftrightarrow> rq_chunk req = rq_last_chunk req \<and>
     (rq_write req \<longrightarrow> b_rdma_on s \<longrightarrow> (\<forall>c i. \<not> mapped_at s (rq_chunk req) c i)) \<and>
     s' = add_bios (disk_bios req) (counted req s)"

definition split_outcome :: "request \<Rightarrow> bdev \<Rightarrow> bdev \<Rightarrow> bool" where
  "split_outcome req s s' \<longleftrightarrow> rq_chunk req \<noteq> rq_last_chunk req \<and> (\<exists>s1 s2.
     clear_part (rq_write req) (int (rq_chunk req)) (rq_start req AND ONE_GB_MASK)
       (word_of_nat ONE_GB - (rq_start req AND ONE_GB_MASK)) (counted req s) = Inr s1 \<and>
     clear_part (rq_write req) (int (rq_last_chunk req)) 0
       ((rq_start req AND ONE_GB_MASK) + rq_bytes req - word_of_nat ONE_GB) s1 = Inr s2 \<and>
     s' = add_bios (disk_bios req) s2)"

definition write_outcome :: "request \<Rightarrow> bdev \<Rightarrow> bdev \<Rightarrow> bool" where
  "write_outcome req s s' \<longleftrightarrow> rq_chunk req = rq_last_chunk req \<and> rq_write req \<and> b_rdma_on s \<and>
     (\<exists>c i x s1. mapped_at s (rq_chunk req) c i \<and> takes_ctx (counted req s) c x s1 \<and>
       s' = write_posted x c i req s1)"

definition read_outcome :: "request \<Rightarrow> bdev \<Rightarrow> bdev \<Rightarrow> bool" where
  "read_outcome req s s' \<longleftrightarrow> rq_chunk req = rq_last_chunk req \<and> \<not> rq_write req \<and> b_rdma_on s \<and>
     (\<exists>c i x s1 bm. mapped_at s (rq_chunk req) c i \<and> rc_bitmap (chunk_at s c i) = Some bm \<and>
       bm_bit bm (int (rq_page req mod 2 ^ 18)) \<and> takes_ctx (counted req s) c x s1 \<and>
       s' = read_posted x c i req s1)"

lemma counted_simps [simp]:
  "b_rdma_on (counted req s) = b_rdma_on s" "b_sgl (counted req s) = b_sgl s"
  "b_bufs (counted req s) = b_bufs s" "b_wrs (counted req s) = b_wrs s"
  "b_cb_list (counted req s) = b_cb_list s" "b_bio_list (counted req s) = b_bio_list s"
  "b_raw_bios (counted req s) = b_raw_bios s" "b_preempt (counted req s) = b_preempt s"
  "b_cb_index_map (counted req s) = b_cb_index_map s" "b_cb_num (counted req s) = b_cb_num s"
  "b_chunk_map_cb_chunk (counted req s) = b_chunk_map_cb_chunk s" "b_pools (counted req s) = b_pools s"
  "b_cb_state_list (counted req s) = b_cb_state_list s" "b_queues (counted req s) = b_queues s"
  "b_bdev_raw (counted req s) = b_bdev_raw s" "b_is_active (counted req s) = b_is_active s"
  "b_ended (counted req s) = b_ended s" "b_rbuf (counted req s) = b_rbuf s"
  "b_free_chunk_index (counted req s) = b_free_chunk_index s"
  "b_unmapped_chunk_list (counted req s) = b_unmapped_chunk_list s"
  by (simp_all add: counted_def)

lemma counted_mapped [simp]: "mapped_at (counted req s) = mapped_at s"
  by (simp add: mapped_at_def fun_eq_iff)

lemma counted_good [simp]: "page_request (counted req s) r = page_request s r"
  by (simp add: page_request_def)

lemma takes_ctx_preempt:
  assumes "takes_ctx (s\<lparr>b_preempt := v\<rparr>) c x s1"
  obtains s2 where "takes_ctx s c x s2" "s1 = s2\<lparr>b_preempt := v\<rparr>" "b_preempt s2 = b_preempt s"
proof -
  obtain n p where p: "n < b_queues s" "b_pools s n c = Some p" "in_bounds IS_QUEUE_DEPTH (cp_tail p)"
    "x = (n, c, cp_list p (nat (cp_tail p)))"
    "s1 = put_pool n c (p\<lparr>cp_tail := cp_tail p - 1\<rparr>) (s\<lparr>b_preempt := v\<rparr>)"
    using assms by (auto simp: takes_ctx_def)
  let ?s2 = "put_pool n c (p\<lparr>cp_tail := cp_tail p - 1\<rparr>) s"
  have "takes_ctx s c x ?s2" unfolding takes_ctx_def using p by blast
  moreover have "s1 = ?s2\<lparr>b_preempt := v\<rparr>" "b_preempt ?s2 = b_preempt s"
    by (simp_all add: p(5) put_pool_def)
  ultimately show thesis using that by blast
qed

lemma posted_preempt:
  assumes "b_preempt s2 = v"
  shows "(write_posted x c i req (s2\<lparr>b_preempt := u\<rparr>))\<lparr>b_preempt := v\<rparr> = write_posted x c i req s2"
    "(read_posted x c i req (s2\<lparr>b_preempt := u\<rparr>))\<lparr>b_preempt := v\<rparr> = read_posted x c i req s2"
    "b_preempt (write_posted x c i req (s2\<lparr>b_preempt := u\<rparr>)) = u"
    "b_preempt (read_posted x c i req (s2\<lparr>b_preempt := u\<rparr>)) = u"
  using assms
  by (cases s2; simp add: write_posted_def read_posted_def mod_ctx_def request_wr_def chunk_at_def)+

lemma IS_transfer_write:
  assumes "IS_transfer_chunk 0 c i (rq_start req AND ONE_GB_MASK) (rq_bytes req) True req s = Inr (e, s')"
    and "page_request s req" "b_rdma_on s" "stackbd_ready s"
  shows "e = 0 \<and> (\<exists>x s1. takes_ctx s c x s1 \<and> s' = write_posted x c i req s1)"
proof -
  let ?s0 = "s\<lparr>b_preempt := b_preempt s + 1\<rparr>"
  obtain r t where t: "IS_rdma_write 0 c i (rq_start req AND ONE_GB_MASK) (rq_bytes req) req ?s0 = Inr (r, t)"
    "(if r \<noteq> 0 then Inr (r, t) else Inr (0, t\<lparr>b_preempt := b_preempt t - 1\<rparr>)) = (Inr (e, s') :: (int \<times> bdev) res)"
    using assms(1) by (auto simp: IS_transfer_chunk_def Let_def rbind_eq_Inr)
  have "page_request ?s0 req" "b_rdma_on ?s0" "stackbd_ready ?s0"
    using assms(2-4) by (simp_all add: page_request_def stackbd_ready_def)
  from IS_rdma_write_posted [OF t(1) this] obtain x s1 where
    r: "r = 0" "takes_ctx ?s0 c x s1" "t = write_posted x c i req s1" by metis
  obtain s2 where s2: "takes_ctx s c x s2" "s1 = s2\<lparr>b_preempt := b_preempt s + 1\<rparr>" "b_preempt s2 = b_preempt s"
    by (rule takes_ctx_preempt [OF r(2)])
  have "s' = write_posted x c i req s2"
    using t(2) r(1,3) s2(2) posted_preempt [OF s2(3), of x c i req "b_preempt s + 1"] by simp
  with t(2) r(1) s2(1) show ?thesis by (auto simp del: split_paired_Ex)
qed

lemma IS_transfer_read:
  assumes "IS_transfer_chunk 0 c i (rq_start req AND ONE_GB_MASK) (rq_bytes req) False req s = Inr (e, s')"
    and "b_rdma_on s"
  shows "e = 0 \<and> (\<exists>x s1. takes_ctx s c x s1 \<and> s' = read_posted x c i req s1)"
proof -
  let ?s0 = "s\<lparr>b_preempt := b_preempt s + 1\<rparr>"
  obtain r t where t: "IS_rdma_read 0 c i (rq_start req AND ONE_GB_MASK) (rq_bytes req) req ?s0 = Inr (r, t)"
    "(if r \<noteq> 0 then Inr (r, t) else Inr (0, t\<lparr>b_preempt := b_preempt t - 1\<rparr>)) = (Inr (e, s') :: (int \<times> bdev) res)"
    using assms(1) by (auto simp: IS_transfer_chunk_def Let_def rbind_eq_Inr)
  have "b_rdma_on ?s0" using assms(2) by simp
  from IS_rdma_read_posted [OF t(1) this] obtain x s1 where
    r: "r = 0" "takes_ctx ?s0 c x s1" "t = read_posted x c i req s1" by metis
  obtain s2 where s2: "takes_ctx s c x s2" "s1 = s2\<lparr>b_preempt := b_preempt s + 1\<rparr>" "b_preempt s2 = b_preempt s"
    by (rule takes_ctx_preempt [OF r(2)])
  have "s' = read_posted x c i req s2"
    using t(2) r(1,3) s2(2) posted_preempt [OF s2(3), of x c i req "b_preempt s + 1"] by simp
  with t(2) r(1) s2(1) show ?thesis by (auto simp del: split_paired_Ex)
qed

theorem IS_request_outcome:
  assumes "IS_request 0 req s = Inr (e, s')" "page_request s req" "stackbd_ready s"
  shows "e = 0 \<and> (disk_outcome req s s' \<or> split_outcome req s s' \<or> write_outcome req s s' \<or> read_outcome req s s')"
proof -
  let ?s1 = "counted req s" and ?o = "rq_start req AND ONE_GB_MASK"
  have ready: "stackbd_ready ?s1" and good: "page_request ?s1 req"
    using assms(2,3) by (simp_all add: stackbd_ready_def)
  have disk: "IS_mq_request_stackbd req t = Inr (add_bios (disk_bios req) t)" if "stackbd_ready t" for t
    using make_request2_good [OF assms(2) that] by (simp add: IS_mq_request_stackbd_def)
  note req = assms(1) [unfolded IS_request_def Let_def count_op_good [OF assms(2)] rbind_simps
      gb_index_start [OF assms(2)] gb_index_end [OF assms(2)]]
  show ?thesis
  proof (cases "rq_chunk req = rq_last_chunk req")
    case True
    then obtain r where r: "find_chunk ?s1 (int (rq_chunk req)) = Inr r" using req by (auto simp: rbind_eq_Inr)
    show ?thesis
    proof (cases r)
      case None
      then show ?thesis
        using True req r find_chunk_None [of ?s1 "rq_chunk req"] disk [OF ready] by (auto simp: disk_outcome_def)
    next
      case (Some ci)
      obtain c i where ci: "r = Some (c, i)" using Some by (cases ci) simp
      have m: "mapped_at s (rq_chunk req) c i" using find_chunk_Some r ci by fastforce
      show ?thesis
      proof (cases "b_rdma_on s")
        case False
        then show ?thesis using True req r ci disk [OF ready] by (auto simp: disk_outcome_def split: if_splits)
      next
        case on: True
        show ?thesis
        proof (cases "rq_write req")
          case w: True
          then have "IS_transfer_chunk 0 c i ?o (rq_bytes req) True req ?s1 = Inr (e, s')"
            using True req r ci on by simp
          from IS_transfer_write [OF this good _ ready] on w m True show ?thesis
            by (auto simp: write_outcome_def simp del: split_paired_Ex)
        next
          case w: False
          then obtain bm b where bm: "rc_bitmap (chunk_at s c i) = Some bm"
            "IS_bitmap_test bm (page_number ?o) = Inr b"
            "(if b then IS_transfer_chunk 0 c i ?o (rq_bytes req) False req ?s1
              else rbind (IS_mq_request_stackbd req ?s1) (\<lambda>s'. Inr (0, s'))) = Inr (e, s')"
            using True req r ci on
            by (auto simp: rbind_eq_Inr bitmap_at_def chunk_at_def split: option.splits)
          have pn: "page_number ?o = int (rq_page req mod 2 ^ 18)"
          proof -
            have "unat ?o < 2 ^ 43" using chunk_offset_val [OF assms(2)] by simp
            from page_number_val [OF this] show ?thesis using chunk_offset_val [OF assms(2)] by simp
          qed
          show ?thesis
          proof (cases b)
            case b: True
            have "bm_bit bm (int (rq_page req mod 2 ^ 18))"
              using bm(2) b by (simp add: pn IS_bitmap_test_bm split: if_splits)
            moreover have "e = 0 \<and> (\<exists>x s1. takes_ctx ?s1 c x s1 \<and> s' = read_posted x c i req s1)"
              using IS_transfer_read [of c i req ?s1 e s'] bm(3) b on by simp
            ultimately show ?thesis
              using on w m True bm(1) unfolding read_outcome_def by blast
          next
            case False
            then show ?thesis using True bm(3) disk [OF ready] w by (auto simp: disk_outcome_def)
          qed
        qed
      qed
    qed
  next
    case False
    then obtain s1 s2 where
      "clear_part (rq_write req) (int (rq_chunk req)) ?o (word_of_nat ONE_GB - ?o) ?s1 = Inr s1"
      "clear_part (rq_write req) (int (rq_last_chunk req)) 0 (?o + rq_bytes req - word_of_nat ONE_GB) s1 = Inr s2"
      "rbind (IS_mq_request_stackbd req s2) (\<lambda>s'. Inr (0, s')) = Inr (e, s')"
      using req by (auto simp: rbind_eq_Inr)
    moreover from this(3) have "s' = add_bios (disk_bios req) s2 \<and> e = 0"
      using make_request2_ready [of req s2] disk [of s2] by (auto simp: rbind_eq_Inr IS_mq_request_stackbd_def)
    ultimately show ?thesis using False unfolding split_outcome_def by blast
  qed
qed

end
