(* ===== verification/Block_System.thy ===== *)
theory Block_System
  imports Block_Outcomes
begin

text \<open>
  The block device with its environment, as a step relation with events: the block layer submits
  requests, the raw disk and the queue pairs complete what they were given, the servers send
  messages and are lost, and the threads of the driver take their steps. Against it stands
  the specification: a store of pages, where a write takes effect when it ends and a
  read delivers what the store has.

  What the steps assume of the environment:
  \<^item> the raw disk completes bios in the order it got them, and a queue pair its work requests;
  \<^item> a request of the block layer does not touch a page of a request that has not ended;
  \<^item> a server gives a chunk that it does not lend to this client already, for a chunk of the
    device that has no memory, with a key that differs from the keys of its other chunks, and
    it sends STOP only when no eviction is under way; a server that is idle has none under way;
  \<^item> after a connection is lost its work requests are flushed, and it is not lost in
    the middle of an eviction.

  Two conditions are not of the environment's making, and the driver does not see to them: while
  RDMA is off no page is written that a server has a copy of (\<open>calm\<close>), and the disk
  does not finish the copy of a write before the RDMA write is done (\<open>bio_in_time\<close>).
\<close>

section \<open>Specification\<close>

datatype blk_event = Submitted request | Ended "nat list" | Delivered nat page | Internal

record page_store =
  v_store :: "nat \<Rightarrow> page"
  v_pend :: "nat \<rightharpoonup> request"

definition drop_pend :: "nat list \<Rightarrow> (nat \<rightharpoonup> request) \<Rightarrow> (nat \<rightharpoonup> request)" where
  "drop_pend rs m = (\<lambda>r. if r \<in> set rs then None else m r)"

text \<open>The content that the writes in \<open>rs\<close> leave at page \<open>p\<close>.\<close>

fun written :: "nat list \<Rightarrow> (nat \<rightharpoonup> request) \<Rightarrow> (nat \<Rightarrow> page) \<Rightarrow> nat \<Rightarrow> page" where
  "written [] m st p = st p"
| "written (r # rs) m st p =
     (case m r of
        None \<Rightarrow> written rs m st p
      | Some req \<Rightarrow> if p \<in> rq_pages req then rq_content req p else written rs m st p)"

fun store_next :: "blk_event \<Rightarrow> page_store \<Rightarrow> page_store" where
  "store_next (Submitted req) v = v\<lparr>v_pend := (v_pend v)(rq_id req \<mapsto> req)\<rparr>"
| "store_next (Ended rs) v = v\<lparr>v_store := written rs (v_pend v) (v_store v), v_pend := drop_pend rs (v_pend v)\<rparr>"
| "store_next (Delivered r d) v = v\<lparr>v_pend := drop_pend [r] (v_pend v)\<rparr>"
| "store_next Internal v = v"

fun store_ok :: "blk_event \<Rightarrow> page_store \<Rightarrow> bool" where
  "store_ok (Submitted req) v \<longleftrightarrow> v_pend v (rq_id req) = None"
| "store_ok (Ended rs) v \<longleftrightarrow> (\<forall>r \<in> set rs. \<exists>req. v_pend v r = Some req \<and> rq_write req)"
| "store_ok (Delivered r d) v \<longleftrightarrow>
     (\<exists>req. v_pend v r = Some req \<and> \<not> rq_write req \<and> d = v_store v (rq_page req))"
| "store_ok Internal v \<longleftrightarrow> True"

section \<open>The system\<close>

text \<open>Where the eviction thread of a server is: the chunks of the device it still has to release.\<close>

datatype evict_stage = EvIdle | EvMarked "bool arr" int | EvCleaned "bool arr"

record bsys =
  y_dev :: bdev
  y_disk :: "nat \<Rightarrow> page"
  y_rmem :: "nat \<Rightarrow> 32 word \<Rightarrow> 64 word \<Rightarrow> page"
  y_pend :: "nat \<rightharpoonup> request"
  y_evict :: "nat \<Rightarrow> evict_stage"
  y_lost :: "nat \<Rightarrow> bool"

definition bio_page :: "sbio \<Rightarrow> nat" where
  "bio_page b = unat (sb_sector b) div 8"

definition bio_hits :: "sbio \<Rightarrow> nat \<Rightarrow> bool" where
  "bio_hits b p \<longleftrightarrow> sb_write b \<and> bio_page b \<le> p \<and> p < bio_page b + sb_pages b"

definition bio_data :: "(ctx_id \<Rightarrow> page arr) \<Rightarrow> sbio \<Rightarrow> nat \<Rightarrow> page" where
  "bio_data bufs b p =
     (case sb_src b of Pages ps \<Rightarrow> ps ! (p - bio_page b) | CtxBuf x \<Rightarrow> bufs x (p - bio_page b))"

definition apply_bio :: "(ctx_id \<Rightarrow> page arr) \<Rightarrow> sbio \<Rightarrow> (nat \<Rightarrow> page) \<Rightarrow> nat \<Rightarrow> page" where
  "apply_bio bufs b disk = (\<lambda>p. if bio_hits b p then bio_data bufs b p else disk p)"

text \<open>The memory of a server: an RDMA write stores whole pages from the address on.\<close>

definition rmem_put ::
  "nat \<Rightarrow> work_request \<Rightarrow> page arr \<Rightarrow> (nat \<Rightarrow> 32 word \<Rightarrow> 64 word \<Rightarrow> page) \<Rightarrow> nat \<Rightarrow> 32 word \<Rightarrow> 64 word \<Rightarrow> page" where
  "rmem_put c w buf m = (\<lambda>c' key a.
     let k = unat (a - wr_addr w) div 4096 in
     if c' = c \<and> key = wr_rkey w \<and> a = wr_addr w + 4096 * word_of_nat k \<and> 4096 * k < unat (wr_len w)
     then buf k else m c' key a)"

definition rmem_get ::
  "nat \<Rightarrow> work_request \<Rightarrow> (nat \<Rightarrow> 32 word \<Rightarrow> 64 word \<Rightarrow> page) \<Rightarrow> page arr \<Rightarrow> page arr" where
  "rmem_get c w m buf = (\<lambda>k. if 4096 * k < unat (wr_len w)
     then m c (wr_rkey w) (wr_addr w + 4096 * word_of_nat k) else buf k)"

definition remote_bit :: "bdev \<Rightarrow> nat \<Rightarrow> bool" where
  "remote_bit s p \<longleftrightarrow> (\<exists>c i bm. mapped_at s (p div 2 ^ 18) c i \<and>
     rc_bitmap (chunk_at s c i) = Some bm \<and> bm_bit bm (int (p mod 2 ^ 18)))"

definition calm :: "request \<Rightarrow> bdev \<Rightarrow> bool" where
  "calm req s \<longleftrightarrow> (rq_write req \<longrightarrow> b_rdma_on s \<or> (\<forall>p \<in> rq_pages req. \<not> remote_bit s p))"

definition bio_in_time :: "sbio \<Rightarrow> bdev \<Rightarrow> bool" where
  "bio_in_time b s \<longleftrightarrow> (\<forall>x. sb_end b = EndCtx x \<longrightarrow>
     pred_option (\<lambda>k. cx_in_flight k = CTX_IDLE) (ctx_of s x))"

definition exclusive :: "request \<Rightarrow> (nat \<rightharpoonup> request) \<Rightarrow> bool" where
  "exclusive req m \<longleftrightarrow> m (rq_id req) = None \<and>
     (\<forall>r q. m r = Some q \<longrightarrow> rq_pages req \<inter> rq_pages q = {})"

abbreviation cmap :: "bdev \<Rightarrow> nat \<Rightarrow> nat \<Rightarrow> int" where
  "cmap s c i \<equiv> k_chunk_map (b_cb_list s c) i"

abbreviation rmap :: "bdev \<Rightarrow> nat \<Rightarrow> nat \<Rightarrow> bool" where
  "rmap s c i \<equiv> k_remote_mapped (b_cb_list s c) i"

abbreviation emap :: "bdev \<Rightarrow> nat \<Rightarrow> nat \<Rightarrow> char" where
  "emap s c i \<equiv> k_evict_chunk_map (b_cb_list s c) i"

definition fresh_chunk :: "bdev \<Rightarrow> nat \<Rightarrow> daemon_msg \<Rightarrow> bool" where
  "fresh_chunk s c m \<longleftrightarrow>
     (case given_chunks m of
        [] \<Rightarrow> True
      | i # _ \<Rightarrow> \<not> rmap s c i \<and> cmap s c i = -1 \<and>
          (\<forall>i' < MAX_MR_SIZE_GB. rmap s c i' \<longrightarrow> rc_rkey (chunk_at s c i') \<noteq> bswap32 (dm_rkey m i)) \<and>
          (\<exists>g < STACKBD_SIZE_G. dm_size_gb m = int g \<and> b_cb_index_map s g = -1 \<and>
             b_chunk_map_cb_chunk s g = -1))"

definition good_msg :: "bsys \<Rightarrow> nat \<Rightarrow> daemon_msg \<Rightarrow> bool" where
  "good_msg y c m \<longleftrightarrow> dm_type m \<noteq> INFO \<and>
     (dm_type m = INFO_SINGLE \<longrightarrow> b_cb_state_list (y_dev y) c \<noteq> CB_FAIL \<and> fresh_chunk (y_dev y) c m) \<and>
     (dm_type m = STOP \<longrightarrow> y_evict y c = EvIdle)"

text \<open>The write requests in flight on the contexts of server \<open>c\<close>.\<close>

definition flight_writes :: "nat \<Rightarrow> bdev \<Rightarrow> nat list" where
  "flight_writes c s = concat (map (\<lambda>(n, j). case ctx_of s (n, c, j) of None \<Rightarrow> []
     | Some k \<Rightarrow> (case cx_req k of None \<Rightarrow> []
        | Some req \<Rightarrow> if cx_in_flight k = CTX_W_IN_FLIGHT then [rq_id req] else [])) (pool_ctxs s))"

definition ended_by :: "sbio \<Rightarrow> nat list" where
  "ended_by b = (case sb_end b of EndReq r \<Rightarrow> [r] | _ \<Rightarrow> [])"

inductive bstep :: "bsys \<Rightarrow> blk_event \<Rightarrow> bsys \<Rightarrow> bool" where
  st_submit:
    "page_request (y_dev y) req \<Longrightarrow> exclusive req (y_pend y) \<Longrightarrow> calm req (y_dev y) \<Longrightarrow>
     stackbd_ready (y_dev y) \<Longrightarrow> IS_queue_rq 0 req (y_dev y) = Inr (ok, s') \<Longrightarrow>
     bstep y (Submitted req) (y\<lparr>y_dev := s', y_pend := (y_pend y)(rq_id req \<mapsto> req)\<rparr>)"
| st_thread:
    "bstep y Internal (y\<lparr>y_dev := stackbd_threadfn (y_dev y)\<rparr>)"
| st_disk_write:
    "b_raw_bios (y_dev y) = b # bs \<Longrightarrow> sb_write b \<Longrightarrow> bio_in_time b (y_dev y) \<Longrightarrow>
     IS_stackbd_end_io b 0 ((y_dev y)\<lparr>b_raw_bios := bs\<rparr>) = Inr s' \<Longrightarrow>
     bstep y (Ended (ended_by b)) (y\<lparr>y_dev := s', y_disk := apply_bio (b_bufs (y_dev y)) b (y_disk y),
       y_pend := drop_pend (ended_by b) (y_pend y)\<rparr>)"
| st_disk_read:
    "b_raw_bios (y_dev y) = b # bs \<Longrightarrow> \<not> sb_write b \<Longrightarrow> sb_end b = EndReq r \<Longrightarrow>
     IS_stackbd_end_io b 0 ((y_dev y)\<lparr>b_raw_bios := bs\<rparr>) = Inr s' \<Longrightarrow>
     bstep y (Delivered r (y_disk y (bio_page b))) (y\<lparr>y_dev := s', y_pend := drop_pend [r] (y_pend y)\<rparr>)"
| st_rdma_write:
    "c < b_cb_num (y_dev y) \<Longrightarrow> b_wrs (y_dev y) c = w # ws \<Longrightarrow> wr_write w \<Longrightarrow> b_cb_state_list (y_dev y) c \<noteq> CB_FAIL \<Longrightarrow>
     ctx_of (y_dev y) (wr_ctx w) = Some k \<Longrightarrow> cx_req k = Some req \<Longrightarrow>
     rdma_cq_event_handler c [(WC_SUCCESS, WC_RDMA_WRITE (wr_ctx w))] 0
       ((y_dev y)\<lparr>b_wrs := (b_wrs (y_dev y))(c := ws)\<rparr>) = Inr s' \<Longrightarrow>
     k_state (b_cb_list (y_dev y) c) \<noteq> ERROR \<Longrightarrow>
     bstep y (Ended [rq_id req]) (y\<lparr>y_dev := s',
       y_rmem := rmem_put c w (b_bufs (y_dev y) (wr_ctx w)) (y_rmem y),
       y_pend := drop_pend [rq_id req] (y_pend y)\<rparr>)"
| st_rdma_read:
    "c < b_cb_num (y_dev y) \<Longrightarrow> b_wrs (y_dev y) c = w # ws \<Longrightarrow> \<not> wr_write w \<Longrightarrow> b_cb_state_list (y_dev y) c \<noteq> CB_FAIL \<Longrightarrow>
     ctx_of (y_dev y) (wr_ctx w) = Some k \<Longrightarrow> cx_req k = Some req \<Longrightarrow>
     rdma_cq_event_handler c [(WC_SUCCESS, WC_RDMA_READ (wr_ctx w))] 0
       ((y_dev y)\<lparr>b_wrs := (b_wrs (y_dev y))(c := ws), b_bufs := (b_bufs (y_dev y))(wr_ctx w :=
          rmem_get c w (y_rmem y) (b_bufs (y_dev y) (wr_ctx w)))\<rparr>) = Inr s' \<Longrightarrow>
     k_state (b_cb_list (y_dev y) c) \<noteq> ERROR \<Longrightarrow>
     bstep y (Delivered (rq_id req) (b_rbuf s' (rq_id req)))
       (y\<lparr>y_dev := s', y_pend := drop_pend [rq_id req] (y_pend y)\<rparr>)"
| st_flush:
    "b_wrs (y_dev y) c = w # ws \<Longrightarrow> b_cb_state_list (y_dev y) c = CB_FAIL \<Longrightarrow>
     rdma_cq_event_handler c [(WC_FLUSH_ERR, op)] 0
       ((y_dev y)\<lparr>b_wrs := (b_wrs (y_dev y))(c := ws)\<rparr>) = Inr s' \<Longrightarrow>
     bstep y Internal (y\<lparr>y_dev := s'\<rparr>)"
| st_recv:
    "c < b_cb_num (y_dev y) \<Longrightarrow> good_msg y c m \<Longrightarrow>
     rdma_cq_event_handler c [(WC_SUCCESS, WC_RECV len_ok m post)] 0 (y_dev y) = Inr s' \<Longrightarrow>
     bstep y Internal (y\<lparr>y_dev := s'\<rparr>)"
| st_cm:
    "bstep y Internal (y\<lparr>y_dev := set_k_state c st (y_dev y)\<rparr>)"
| st_evict_activity:
    "k_c_state (b_cb_list (y_dev y) c) = C_EVICT \<Longrightarrow> evict_activity post c (y_dev y) = Inr s' \<Longrightarrow>
     bstep y Internal (y\<lparr>y_dev := s'\<rparr>)"
| st_evict_none:
    "k_c_state (b_cb_list (y_dev y) c) = C_STOP \<Longrightarrow> evict_mark c (y_dev y) = Inr (None, s') \<Longrightarrow>
     bstep y Internal (y\<lparr>y_dev := s'\<rparr>)"
| st_evict_mark:
    "c < b_cb_num (y_dev y) \<Longrightarrow> k_c_state (b_cb_list (y_dev y) c) = C_STOP \<Longrightarrow> y_evict y c = EvIdle \<Longrightarrow>
     b_cb_state_list (y_dev y) c \<noteq> CB_FAIL \<Longrightarrow> evict_mark c (y_dev y) = Inr (Some (ev, n), s') \<Longrightarrow>
     bstep y Internal (y\<lparr>y_dev := s', y_evict := (y_evict y)(c := EvMarked ev n)\<rparr>)"
| st_evict_clean:
    "y_evict y c = EvMarked ev n \<Longrightarrow> evict_clean post c n (y_dev y) = Inr s' \<Longrightarrow>
     bstep y Internal (y\<lparr>y_dev := s', y_evict := (y_evict y)(c := EvCleaned ev)\<rparr>)"
| st_evict_release:
    "y_evict y c = EvCleaned ev \<Longrightarrow> ev g \<Longrightarrow> release_chunk (int g) (y_dev y) = Inr s' \<Longrightarrow>
     bstep y Internal (y\<lparr>y_dev := s', y_evict := (y_evict y)(c := EvCleaned (ev(g := False)))\<rparr>)"
| st_evict_end:
    "y_evict y c = EvCleaned ev \<Longrightarrow> \<forall>g. \<not> ev g \<Longrightarrow>
     bstep y Internal (y\<lparr>y_dev := evict_end c (y_dev y), y_evict := (y_evict y)(c := EvIdle)\<rparr>)"
| st_lost:
    "c < b_cb_num (y_dev y) \<Longrightarrow> y_evict y c = EvIdle \<Longrightarrow>
     b_cb_state_list (y_dev y) c = CB_CONNECTED \<or> b_cb_state_list (y_dev y) c = CB_MAPPED \<Longrightarrow>
     disconnect_begin c (y_dev y) = Inr (r, s') \<Longrightarrow>
     bstep y Internal (y\<lparr>y_dev := s', y_lost := (y_lost y)(c := (r \<noteq> None))\<rparr>)"
| st_lost_finish:
    "y_lost y c \<Longrightarrow> disconnect_finish c (y_dev y) = Inr s' \<Longrightarrow> stackbd_ready (y_dev y) \<Longrightarrow>
     bstep y (Ended (flight_writes c (y_dev y))) (y\<lparr>y_dev := s',
       y_pend := drop_pend (flight_writes c (y_dev y)) (y_pend y), y_lost := (y_lost y)(c := False)\<rparr>)"
| st_map_query:
    "c < b_cb_num (y_dev y) \<Longrightarrow> b_cb_state_list (y_dev y) c < CB_EVICTING \<Longrightarrow>
     (b_cb_state_list (y_dev y) c = CB_IDLE \<longrightarrow> y_evict y c = EvIdle) \<Longrightarrow>
     bstep y Internal (y\<lparr>y_dev := map_query post c (y_dev y)\<rparr>)"
| st_map_bind:
    "c < b_cb_num (y_dev y) \<Longrightarrow> k_state (b_cb_list (y_dev y) c) = FREE_MEM_RECV \<Longrightarrow>
     idle \<longleftrightarrow> b_cb_state_list (y_dev y) c = CB_IDLE \<Longrightarrow>
     bstep y Internal (y\<lparr>y_dev := snd (map_bind post idle c need (y_dev y))\<rparr>)"
| st_map_end:
    "bstep y Internal (y\<lparr>y_dev := map_end (y_dev y)\<rparr>)"
| st_trigger:
    "bstep y Internal (y\<lparr>y_dev := snd (rdma_trigger i (y_dev y))\<rparr>)"

text \<open>The start: no chunk is mapped, nothing is under way, and RDMA is off.\<close>

definition session_start :: "bdev \<Rightarrow> bool" where
  "session_start s \<longleftrightarrow> stackbd_ready s \<and> \<not> b_rdma_on s \<and>
     (\<forall>g < STACKBD_SIZE_G. b_cb_index_map s g = -1 \<and> b_chunk_map_cb_chunk s g = -1) \<and>
     b_free_chunk_index s = int STACKBD_SIZE_G - 1 \<and>
     (\<forall>c. b_cb_state_list s c = CB_IDLE) \<and> (\<forall>c i. cmap s c i = -1 \<and> \<not> rmap s c i) \<and>
     (\<forall>n c. b_pools s n c = None) \<and> (\<forall>c. b_wrs s c = []) \<and> b_bio_list s = [] \<and> b_raw_bios s = []"

definition system_start :: "page_store \<Rightarrow> bsys \<Rightarrow> bool" where
  "system_start v y \<longleftrightarrow> session_start (y_dev y) \<and> y_pend y = Map.empty \<and>
     (\<forall>c. y_evict y c = EvIdle \<and> \<not> y_lost y c) \<and> v_pend v = Map.empty \<and> v_store v = y_disk y"

end
