(* ===== verification/Block_Inv.thy ===== *)
theory Block_Inv
  imports Block_System
begin

text \<open>
  The invariant of the block device and its environment, in parts: the maps of chunks, the
  contexts, the queue of the disk, the transfers in flight and the data.
\<close>

section \<open>The maps\<close>

definition failed :: "bdev \<Rightarrow> nat \<Rightarrow> bool" where
  "failed s c \<longleftrightarrow> b_cb_state_list s c = CB_FAIL"

definition unused :: "bdev \<Rightarrow> nat \<Rightarrow> bool" where
  "unused s c \<longleftrightarrow> b_cb_state_list s c = CB_IDLE \<or> b_cb_state_list s c = CB_CONNECTED"

definition is_server :: "bdev \<Rightarrow> nat \<Rightarrow> nat \<Rightarrow> bool" where
  "is_server s c i \<longleftrightarrow> c < b_cb_num s \<and> i < MAX_MR_SIZE_GB"

text \<open>A chunk of the device that is routed to a server is in the map of that server.\<close>

definition map_routed :: "bdev \<Rightarrow> bool" where
  "map_routed s \<longleftrightarrow> (\<forall>g < STACKBD_SIZE_G. b_cb_index_map s g \<noteq> -1 \<longrightarrow>
     (\<exists>c i. mapped_at s g c i \<and> cmap s c i = int g))"

text \<open>A chunk in the map of a server is routed there, unless the server is lost.\<close>

definition owned_at :: "bdev \<Rightarrow> nat \<Rightarrow> nat \<Rightarrow> nat \<Rightarrow> bool" where
  "owned_at s c i g \<longleftrightarrow> g < STACKBD_SIZE_G \<and> cmap s c i = int g \<and> b_chunk_map_cb_chunk s g = int i \<and>
     b_cb_index_map s g = (if failed s c then -1 else int c) \<and> (failed s c \<or> rmap s c i)"

definition map_owned :: "bdev \<Rightarrow> bool" where
  "map_owned s \<longleftrightarrow> (\<forall>c i. is_server s c i \<longrightarrow> cmap s c i \<noteq> -1 \<longrightarrow> (\<exists>g. owned_at s c i g))"

definition map_bitmaps :: "bdev \<Rightarrow> bool" where
  "map_bitmaps s \<longleftrightarrow> (\<forall>c i. is_server s c i \<longrightarrow> rmap s c i \<longrightarrow>
     (\<exists>bm. rc_bitmap (chunk_at s c i) = Some bm \<and> full_bitmap bm))"

definition map_unused :: "bdev \<Rightarrow> bool" where
  "map_unused s \<longleftrightarrow> (\<forall>c i. is_server s c i \<longrightarrow> unused s c \<longrightarrow> cmap s c i = -1 \<and> \<not> rmap s c i)"

definition map_unique :: "bdev \<Rightarrow> bool" where
  "map_unique s \<longleftrightarrow> (\<forall>c i c' i'. is_server s c i \<longrightarrow> is_server s c' i' \<longrightarrow> cmap s c i = cmap s c' i' \<longrightarrow>
     cmap s c i \<noteq> -1 \<longrightarrow> c = c' \<and> i = i')"

definition map_keys :: "bdev \<Rightarrow> bool" where
  "map_keys s \<longleftrightarrow> (\<forall>c i i'. is_server s c i \<longrightarrow> is_server s c i' \<longrightarrow> rmap s c i \<longrightarrow> rmap s c i' \<longrightarrow>
     rc_rkey (chunk_at s c i) = rc_rkey (chunk_at s c i') \<longrightarrow> i = i')"

definition map_free :: "bdev \<Rightarrow> bool" where
  "map_free s \<longleftrightarrow> b_free_chunk_index s =
     int STACKBD_SIZE_G - 1 - int (card {g. g < STACKBD_SIZE_G \<and> b_chunk_map_cb_chunk s g \<noteq> -1})"

definition map_inv :: "bdev \<Rightarrow> bool" where
  "map_inv s \<longleftrightarrow> map_routed s \<and> map_owned s \<and> map_bitmaps s \<and> map_unused s \<and> map_unique s \<and>
     map_keys s \<and> map_free s"

lemmas map_inv_defs = map_inv_def map_routed_def map_owned_def owned_at_def map_bitmaps_def map_unused_def
  map_unique_def map_keys_def map_free_def

lemma map_ownedE:
  assumes "map_owned s" "is_server s c i" "cmap s c i \<noteq> -1"
  obtains g where "owned_at s c i g"
  using assms unfolding map_owned_def by blast

section \<open>Eviction\<close>

fun stage_chunks :: "evict_stage \<Rightarrow> nat \<Rightarrow> bool" where
  "stage_chunks EvIdle g = False"
| "stage_chunks (EvMarked ev n) g = ev g"
| "stage_chunks (EvCleaned ev) g = ev g"

fun is_marked :: "evict_stage \<Rightarrow> bool" where
  "is_marked (EvMarked ev n) = True"
| "is_marked _ = False"

definition evicting :: "bsys \<Rightarrow> nat \<Rightarrow> nat \<Rightarrow> bool" where
  "evicting y c i \<longleftrightarrow> is_marked (y_evict y c) \<and> emap (y_dev y) c i = CHR ''s''"

definition evict_inv :: "bsys \<Rightarrow> bool" where
  "evict_inv y \<longleftrightarrow> (let s = y_dev y in
     (\<forall>c. y_evict y c \<noteq> EvIdle \<longrightarrow> c < b_cb_num s \<and> \<not> failed s c) \<and>
     (\<forall>c. y_lost y c \<longrightarrow> c < b_cb_num s \<and> failed s c) \<and>
     (\<forall>c i. is_server s c i \<longrightarrow> evicting y c i \<longrightarrow> cmap s c i = -1 \<and> rmap s c i) \<and>
     (\<forall>c g. stage_chunks (y_evict y c) g \<longrightarrow> g < STACKBD_SIZE_G \<and> b_cb_index_map s g = -1 \<and>
        b_chunk_map_cb_chunk s g \<noteq> -1 \<and> (\<forall>c' i'. is_server s c' i' \<longrightarrow> cmap s c' i' \<noteq> int g)) \<and>
     (\<forall>c c' g. stage_chunks (y_evict y c) g \<longrightarrow> stage_chunks (y_evict y c') g \<longrightarrow> c = c'))"

section \<open>Contexts and the queue of the disk\<close>

definition queue :: "bdev \<Rightarrow> sbio list" where
  "queue s = b_raw_bios s @ b_bio_list s"

fun end_ctx :: "bio_end \<Rightarrow> ctx_id list" where
  "end_ctx (EndCtx x) = [x]"
| "end_ctx _ = []"

fun end_req :: "bio_end \<Rightarrow> nat list" where
  "end_req (EndReq r) = [r]"
| "end_req _ = []"

definition queue_ctxs :: "sbio list \<Rightarrow> ctx_id list" where
  "queue_ctxs q = concat (map (\<lambda>b. end_ctx (sb_end b)) q)"

definition queue_reqs :: "sbio list \<Rightarrow> nat list" where
  "queue_reqs q = concat (map (\<lambda>b. end_req (sb_end b)) q)"

definition in_flight :: "bdev \<Rightarrow> ctx_id \<Rightarrow> rdma_ctx \<Rightarrow> bool" where
  "in_flight s x k \<longleftrightarrow> ctx_of s x = Some k \<and> cx_in_flight k \<noteq> CTX_IDLE"

definition ctx_inv :: "bdev \<Rightarrow> bool" where
  "ctx_inv s \<longleftrightarrow> pools_ok s \<and> (\<forall>n c. distinct (frees s n c)) \<and>
     (\<forall>n c j. j \<in> set (frees s n c) \<longrightarrow> j < IS_QUEUE_DEPTH \<and> (\<forall>k. \<not> in_flight s (n, c, j) k) \<and>
        (n, c, j) \<notin> set (queue_ctxs (queue s))) \<and>
     distinct (queue_ctxs (queue s)) \<and>
     (\<forall>n c j. (n, c, j) \<in> set (queue_ctxs (queue s)) \<longrightarrow> j < IS_QUEUE_DEPTH \<and> c < b_cb_num s \<and> \<not> unused s c) \<and>
     (\<forall>x k. x \<in> set (queue_ctxs (queue s)) \<longrightarrow> ctx_of s x = Some k \<longrightarrow> cx_in_flight k \<noteq> CTX_R_IN_FLIGHT)"

text \<open>A bio of the disk queue: its buffer is the context that it returns, and a read ends a pending request.\<close>

definition bio_ok :: "(nat \<rightharpoonup> request) \<Rightarrow> sbio \<Rightarrow> bool" where
  "bio_ok m b \<longleftrightarrow> (\<forall>x. sb_src b = CtxBuf x \<longrightarrow> sb_end b = EndCtx x) \<and>
     (\<forall>x. sb_end b = EndCtx x \<longrightarrow> sb_write b) \<and>
     (\<forall>r. sb_end b = EndReq r \<longrightarrow> (\<exists>req. m r = Some req \<and> rq_write req = sb_write b)) \<and>
     (\<not> sb_write b \<longrightarrow> (\<exists>r req. sb_end b = EndReq r \<and> m r = Some req \<and> bio_page b = rq_page req))"

text \<open>No write behind a read in the queue touches the page that is read.\<close>

fun reads_ordered :: "sbio list \<Rightarrow> bool" where
  "reads_ordered [] = True"
| "reads_ordered (b # q) \<longleftrightarrow> (\<not> sb_write b \<longrightarrow> (\<forall>b' \<in> set q. \<not> bio_hits b' (bio_page b))) \<and> reads_ordered q"

definition queue_inv :: "bsys \<Rightarrow> bool" where
  "queue_inv y \<longleftrightarrow> (let q = queue (y_dev y) in
     (\<forall>b \<in> set q. bio_ok (y_pend y) b) \<and> reads_ordered q \<and> distinct (queue_reqs q))"

section \<open>Requests and transfers in flight\<close>

definition pend_inv :: "bsys \<Rightarrow> bool" where
  "pend_inv y \<longleftrightarrow> (\<forall>r req. y_pend y r = Some req \<longrightarrow> rq_id req = r \<and> page_request (y_dev y) req) \<and>
     (\<forall>r r' q q'. y_pend y r = Some q \<longrightarrow> y_pend y r' = Some q' \<longrightarrow> r \<noteq> r' \<longrightarrow> rq_pages q \<inter> rq_pages q' = {})"

text \<open>The chunk of a transfer: mapped, or about to be evicted.\<close>

definition chunk_here :: "bsys \<Rightarrow> nat \<Rightarrow> nat \<Rightarrow> nat \<Rightarrow> bool" where
  "chunk_here y c i g \<longleftrightarrow>
     (if failed (y_dev y) c then cmap (y_dev y) c i = int g
      else rmap (y_dev y) c i \<and> (cmap (y_dev y) c i = int g \<or> evicting y c i \<and> stage_chunks (y_evict y c) g))"

definition flight_ok :: "bsys \<Rightarrow> ctx_id \<Rightarrow> rdma_ctx \<Rightarrow> bool" where
  "flight_ok y x k \<longleftrightarrow> (case x of (n, c, j) \<Rightarrow>
     n < b_queues (y_dev y) \<and> c < b_cb_num (y_dev y) \<and> j < IS_QUEUE_DEPTH \<and>
     (\<exists>r i. cx_req k = Some r \<and> y_pend y (rq_id r) = Some r \<and>
        rq_id r \<notin> set (queue_reqs (queue (y_dev y))) \<and>
        rq_write r = (cx_in_flight k = CTX_W_IN_FLIGHT) \<and> rq_chunk r = rq_last_chunk r \<and>
        cx_chunk_index k = int i \<and> i < MAX_MR_SIZE_GB \<and> chunk_here y c i (rq_chunk r) \<and>
        (rq_write r \<longrightarrow> cx_chunk_ptr k = Some (c, i) \<and>
           cx_offset k = and (rq_start r) ONE_GB_MASK \<and> cx_len k = rq_bytes r \<and>
           (\<forall>m < rq_npages r. b_bufs (y_dev y) x m = rq_data r m))))"

text \<open>Two transfers are of different requests; on one chunk of a server they are in one chunk of the device.\<close>

definition compatible :: "ctx_id \<Rightarrow> rdma_ctx \<Rightarrow> ctx_id \<Rightarrow> rdma_ctx \<Rightarrow> bool" where
  "compatible x k x' k' \<longleftrightarrow> (\<forall>r r'. cx_req k = Some r \<longrightarrow> cx_req k' = Some r' \<longrightarrow>
     (rq_id r = rq_id r' \<longrightarrow> x = x') \<and>
     (fst (snd x) = fst (snd x') \<longrightarrow> cx_chunk_index k = cx_chunk_index k' \<longrightarrow> rq_chunk r = rq_chunk r'))"

definition flight_inv :: "bsys \<Rightarrow> bool" where
  "flight_inv y \<longleftrightarrow> (\<forall>x k. in_flight (y_dev y) x k \<longrightarrow> flight_ok y x k) \<and>
     (\<forall>x k x' k'. in_flight (y_dev y) x k \<longrightarrow> in_flight (y_dev y) x' k' \<longrightarrow> compatible x k x' k')"

text \<open>A work request belongs to a context in flight, and a read fetches what the store has.\<close>

definition wr_ok :: "page_store \<Rightarrow> bsys \<Rightarrow> nat \<Rightarrow> work_request \<Rightarrow> bool" where
  "wr_ok v y c w \<longleftrightarrow> (\<exists>n j k r i. wr_ctx w = (n, c, j) \<and> ctx_of (y_dev y) (n, c, j) = Some k \<and>
     cx_in_flight k = (if wr_write w then CTX_W_IN_FLIGHT else CTX_R_IN_FLIGHT) \<and>
     cx_req k = Some r \<and> cx_chunk_index k = int i \<and>
     w = request_wr (wr_write w) (n, c, j) c i r (y_dev y) \<and>
     (\<not> wr_write w \<longrightarrow> y_rmem y c (wr_rkey w) (wr_addr w) = v_store v (rq_page r)))"

definition wrs_inv :: "page_store \<Rightarrow> bsys \<Rightarrow> bool" where
  "wrs_inv v y \<longleftrightarrow> (\<forall>c < b_cb_num (y_dev y). \<not> failed (y_dev y) c \<longrightarrow>
     distinct (map wr_ctx (b_wrs (y_dev y) c)) \<and> (\<forall>w \<in> set (b_wrs (y_dev y) c). wr_ok v y c w))"

section \<open>Data\<close>

definition flushed :: "bsys \<Rightarrow> nat \<Rightarrow> page" where
  "flushed y = fold (apply_bio (b_bufs (y_dev y))) (queue (y_dev y)) (y_disk y)"

definition pend_writes :: "(nat \<rightharpoonup> request) \<Rightarrow> nat \<Rightarrow> request \<Rightarrow> bool" where
  "pend_writes m p req \<longleftrightarrow> (\<exists>r. m r = Some req) \<and> rq_write req \<and> p \<in> rq_pages req"

definition disk_inv :: "page_store \<Rightarrow> bsys \<Rightarrow> bool" where
  "disk_inv v y \<longleftrightarrow> (\<forall>p. (\<forall>req. pend_writes (y_pend y) p req \<longrightarrow> flushed y p = rq_content req p) \<and>
     ((\<forall>req. \<not> pend_writes (y_pend y) p req) \<longrightarrow> flushed y p = v_store v p))"

definition chunk_addr :: "bdev \<Rightarrow> nat \<Rightarrow> nat \<Rightarrow> nat \<Rightarrow> 64 word" where
  "chunk_addr s c i q = rc_addr (chunk_at s c i) + 4096 * word_of_nat q"

definition remote_inv :: "page_store \<Rightarrow> bsys \<Rightarrow> bool" where
  "remote_inv v y \<longleftrightarrow> (\<forall>p c i bm. (\<forall>req. \<not> pend_writes (y_pend y) p req) \<longrightarrow>
     mapped_at (y_dev y) (p div 2 ^ 18) c i \<longrightarrow> rc_bitmap (chunk_at (y_dev y) c i) = Some bm \<longrightarrow>
     bm_bit bm (int (p mod 2 ^ 18)) \<longrightarrow>
     y_rmem y c (rc_rkey (chunk_at (y_dev y) c i)) (chunk_addr (y_dev y) c i (p mod 2 ^ 18)) = v_store v p)"

text \<open>A write that went to the disk alone has no stale copy on a server.\<close>

definition diskonly_inv :: "bsys \<Rightarrow> bool" where
  "diskonly_inv y \<longleftrightarrow> (\<forall>r req p. r \<in> set (queue_reqs (queue (y_dev y))) \<longrightarrow> y_pend y r = Some req \<longrightarrow>
     rq_write req \<longrightarrow> p \<in> rq_pages req \<longrightarrow> \<not> remote_bit (y_dev y) p)"

text \<open>The relation between the specification and the system.\<close>

definition bsim :: "page_store \<Rightarrow> bsys \<Rightarrow> bool" where
  "bsim v y \<longleftrightarrow> v_pend v = y_pend y \<and> map_inv (y_dev y) \<and> evict_inv y \<and> ctx_inv (y_dev y) \<and>
     queue_inv y \<and> pend_inv y \<and> flight_inv y \<and> wrs_inv v y \<and> disk_inv v y \<and> remote_inv v y \<and>
     diskonly_inv y"

lemma bsimD:
  assumes "bsim v y"
  shows "v_pend v = y_pend y" "map_inv (y_dev y)" "evict_inv y" "ctx_inv (y_dev y)" "queue_inv y" "pend_inv y"
    "flight_inv y" "wrs_inv v y" "disk_inv v y" "remote_inv v y" "diskonly_inv y"
  using assms by (simp_all add: bsim_def)

lemma bsimI:
  "v_pend v = y_pend y \<Longrightarrow> map_inv (y_dev y) \<Longrightarrow> evict_inv y \<Longrightarrow> ctx_inv (y_dev y) \<Longrightarrow> queue_inv y \<Longrightarrow>
   pend_inv y \<Longrightarrow> flight_inv y \<Longrightarrow> wrs_inv v y \<Longrightarrow> disk_inv v y \<Longrightarrow> remote_inv v y \<Longrightarrow> diskonly_inv y \<Longrightarrow>
   bsim v y"
  by (simp add: bsim_def)

lemma flight_invD:
  "flight_inv y \<Longrightarrow> in_flight (y_dev y) x k \<Longrightarrow> flight_ok y x k"
  unfolding flight_inv_def by blast

lemma flight_inv_compat:
  "flight_inv y \<Longrightarrow> in_flight (y_dev y) x k \<Longrightarrow> in_flight (y_dev y) x' k' \<Longrightarrow> compatible x k x' k'"
  unfolding flight_inv_def by blast

lemma pend_invD:
  assumes "pend_inv y" "y_pend y r = Some req"
  shows "rq_id req = r" "page_request (y_dev y) req"
  using assms by (auto simp: pend_inv_def)

lemma pend_inv_disjoint:
  "pend_inv y \<Longrightarrow> y_pend y r = Some q \<Longrightarrow> y_pend y r' = Some q' \<Longrightarrow> r \<noteq> r' \<Longrightarrow>
   rq_pages q \<inter> rq_pages q' = {}"
  unfolding pend_inv_def by blast

end
