(* ===== verification/Block_Frame.thy ===== *)
theory Block_Frame
  imports Block_Inv
begin

text \<open>
  Steps that the invariant does not see: the state of a server, the messages, the counters
  and the switches may change.
\<close>

section \<open>The part of the device that the invariant looks at\<close>

definition same_core :: "bdev \<Rightarrow> bdev \<Rightarrow> bool" where
  "same_core s s' \<longleftrightarrow>
     b_sgl s' = b_sgl s \<and> b_queues s' = b_queues s \<and> b_cb_num s' = b_cb_num s \<and>
     b_cb_state_list s' = b_cb_state_list s \<and> b_cb_index_map s' = b_cb_index_map s \<and>
     b_chunk_map_cb_chunk s' = b_chunk_map_cb_chunk s \<and> b_free_chunk_index s' = b_free_chunk_index s \<and>
     b_pools s' = b_pools s \<and> b_bufs s' = b_bufs s \<and> b_wrs s' = b_wrs s \<and>
     queue s' = queue s \<and>
     (\<forall>c. k_chunk_list (b_cb_list s' c) = k_chunk_list (b_cb_list s c) \<and>
        k_chunk_map (b_cb_list s' c) = k_chunk_map (b_cb_list s c) \<and>
        k_remote_mapped (b_cb_list s' c) = k_remote_mapped (b_cb_list s c) \<and>
        k_evict_chunk_map (b_cb_list s' c) = k_evict_chunk_map (b_cb_list s c))"

lemma same_core_refl [simp]: "same_core s s"
  by (simp add: same_core_def)

lemma same_core_trans: "same_core s s' \<Longrightarrow> same_core s' s'' \<Longrightarrow> same_core s s''"
  by (simp add: same_core_def)

lemma core_view:
  assumes "same_core s s'"
  shows "ctx_of s' = ctx_of s" "frees s' = frees s" "chunk_at s' = chunk_at s" "mapped_at s' = mapped_at s"
    "is_server s' = is_server s" "failed s' = failed s" "unused s' = unused s" "queue s' = queue s"
    "in_flight s' = in_flight s" "page_request s' = page_request s" "remote_bit s' = remote_bit s"
    "chunk_addr s' = chunk_addr s" "request_wr w x c i r s' = request_wr w x c i r s" "pools_ok s' = pools_ok s"
    "map_inv s' = map_inv s" "ctx_inv s' = ctx_inv s"
proof -
  have 1: "ctx_of s' = ctx_of s" "frees s' = frees s" "chunk_at s' = chunk_at s" "mapped_at s' = mapped_at s"
    "is_server s' = is_server s" "failed s' = failed s" "unused s' = unused s" "queue s' = queue s"
    "page_request s' = page_request s" "pools_ok s' = pools_ok s"
    using assms by (auto simp: fun_eq_iff ctx_of_def frees_def chunk_at_def mapped_at_def is_server_def
        failed_def unused_def queue_def page_request_def pools_ok_def same_core_def)
  then show "ctx_of s' = ctx_of s" "frees s' = frees s" "chunk_at s' = chunk_at s" "mapped_at s' = mapped_at s"
    "is_server s' = is_server s" "failed s' = failed s" "unused s' = unused s" "queue s' = queue s"
    "page_request s' = page_request s" "pools_ok s' = pools_ok s" by simp_all
  from 1 show 2: "in_flight s' = in_flight s" "remote_bit s' = remote_bit s" "chunk_addr s' = chunk_addr s"
    "request_wr w x c i r s' = request_wr w x c i r s"
    by (auto simp: fun_eq_iff in_flight_def remote_bit_def chunk_addr_def request_wr_def)
  from assms 1 show "map_inv s' = map_inv s" by (simp add: map_inv_defs same_core_def)
  from assms 1 2 show "ctx_inv s' = ctx_inv s" by (simp add: ctx_inv_def same_core_def)
qed

lemma bsim_core:
  assumes "bsim v y" "same_core (y_dev y) s'"
  shows "bsim v (y\<lparr>y_dev := s'\<rparr>)"
proof -
  let ?y = "y\<lparr>y_dev := s'\<rparr>"
  note c = core_view [OF assms(2)] and d = assms(2) [unfolded same_core_def]
  have ev: "evicting ?y = evicting y" using d by (simp add: evicting_def fun_eq_iff)
  have h: "chunk_here ?y = chunk_here y" using c d ev by (simp add: chunk_here_def fun_eq_iff)
  have f: "flight_ok ?y = flight_ok y" using c d h by (simp add: flight_ok_def fun_eq_iff)
  have w: "wr_ok v ?y = wr_ok v y" using c by (simp add: wr_ok_def fun_eq_iff)
  have fl: "flushed ?y = flushed y" using c d by (simp add: flushed_def)
  have "evict_inv ?y" using assms(1) c d ev by (simp add: bsim_def evict_inv_def Let_def)
  moreover have "queue_inv ?y" "pend_inv ?y" "flight_inv ?y" "wrs_inv v ?y" "disk_inv v ?y" "remote_inv v ?y"
    "diskonly_inv ?y"
    using assms(1) c d f w fl
    by (simp_all add: bsim_def queue_inv_def pend_inv_def flight_inv_def wrs_inv_def disk_inv_def
        remote_inv_def diskonly_inv_def)
  ultimately show ?thesis using assms(1) c by (simp add: bsim_def)
qed

lemma bsim_core_sys:
  assumes "bsim v y" "same_core (y_dev y) (y_dev y')"
    and "y_disk y' = y_disk y" "y_rmem y' = y_rmem y" "y_pend y' = y_pend y" "y_evict y' = y_evict y" "y_lost y' = y_lost y"
  shows "bsim v y'"
proof -
  have "y' = y\<lparr>y_dev := y_dev y'\<rparr>" by (rule bsys.equality) (simp_all add: assms)
  with bsim_core [OF assms(1,2)] show ?thesis by metis
qed

section \<open>Operations that keep it\<close>

lemma stackbd_threadfn_core: "same_core s (stackbd_threadfn s)"
  by (simp add: stackbd_threadfn_def stackbd_io_fn_def same_core_def queue_def split: list.splits)

lemma upd_cb_core:
  assumes "\<And>k. k_chunk_list (f k) = k_chunk_list k \<and> k_chunk_map (f k) = k_chunk_map k \<and>
    k_remote_mapped (f k) = k_remote_mapped k \<and> k_evict_chunk_map (f k) = k_evict_chunk_map k"
  shows "same_core s (upd_cb c f s)"
  using assms by (simp add: same_core_def upd_cb_def queue_def)

lemma set_k_state_core: "same_core s (set_k_state c st s)"
  by (simp add: set_k_state_def upd_cb_core)

lemma post_msg_core: "same_core s (snd (post_msg post c f s))"
  by (simp add: post_msg_def upd_cb_core)

lemma evict_activity_core: "evict_activity post c s = Inr s' \<Longrightarrow> same_core s s'"
  by (auto simp: evict_activity_def IS_send_activity_def rbind_eq_Inr post_msg_def intro: upd_cb_core)

lemma evict_none_core: "evict_mark c s = Inr (None, s') \<Longrightarrow> same_core s s'"
  by (auto simp: evict_mark_def rbind_eq_Inr intro: upd_cb_core split: if_splits)

lemma map_end_core: "same_core s (map_end s)"
  by (simp add: map_end_def same_core_def queue_def)

lemma rdma_trigger_core: "same_core s (snd (rdma_trigger i s))"
  by (simp add: rdma_trigger_def Let_def same_core_def queue_def)

lemma map_query_core: "b_cb_state_list s c \<noteq> CB_IDLE \<Longrightarrow> same_core s (map_query post c s)"
  by (cases "b_cb_state_list s c")
    (simp_all add: map_query_def less_cb_state_def IS_send_query_def post_msg_core)

lemma client_recv_core:
  assumes "client_recv len_ok c s = Inr (r, s')"
    "dm_type (k_recv_buf (b_cb_list s c)) \<notin> {INFO, INFO_SINGLE, STOP}"
  shows "same_core s s'"
proof -
  have 1: "same_core s (upd_cb c client_recv_evict (set_k_state c RECV_EVICT s))"
    by (rule same_core_trans [OF set_k_state_core upd_cb_core]) (simp add: client_recv_evict_def)
  have 2: "same_core s (set_k_state c FREE_MEM_RECV (upd_cb c (\<lambda>k. k\<lparr>k_target_size_g := dm_size_gb (k_recv_buf k)\<rparr>) s))"
    by (rule same_core_trans [OF upd_cb_core set_k_state_core]) simp
  show ?thesis
    using assms 1 2 by (auto simp: client_recv_def Let_def split: if_splits daemon_msg_type.splits)
qed

section \<open>Steps on the maps\<close>

definition same_io :: "bdev \<Rightarrow> bdev \<Rightarrow> bool" where
  "same_io s s' \<longleftrightarrow> b_sgl s' = b_sgl s \<and> b_queues s' = b_queues s \<and> b_cb_num s' = b_cb_num s \<and>
     b_pools s' = b_pools s \<and> b_bufs s' = b_bufs s \<and> b_wrs s' = b_wrs s \<and> queue s' = queue s"

lemma io_view:
  assumes "same_io s s'"
  shows "ctx_of s' = ctx_of s" "frees s' = frees s" "is_server s' = is_server s" "queue s' = queue s"
    "in_flight s' = in_flight s" "page_request s' = page_request s" "pools_ok s' = pools_ok s"
    "b_wrs s' = b_wrs s" "b_bufs s' = b_bufs s" "b_cb_num s' = b_cb_num s" "b_queues s' = b_queues s"
  using assms by (auto simp: fun_eq_iff same_io_def ctx_of_def frees_def is_server_def in_flight_def
      page_request_def pools_ok_def)

text \<open>
  A step that only changes maps and bitmaps keeps the relation, if it keeps the invariant of the maps, no server
  becomes unused or recovers, the chunks of transfers stay, and bits are only taken away.
\<close>

lemma bsim_maps:
  assumes sim: "bsim v y"
    and y': "y_disk y' = y_disk y" "y_rmem y' = y_rmem y" "y_pend y' = y_pend y"
    and io: "same_io (y_dev y) (y_dev y')"
    and inv: "map_inv (y_dev y')" "evict_inv y'"
    and unused: "\<And>c. c < b_cb_num (y_dev y) \<Longrightarrow> unused (y_dev y') c \<Longrightarrow> unused (y_dev y) c"
    and here: "\<And>n c j k i g. in_flight (y_dev y) (n, c, j) k \<Longrightarrow> cx_chunk_index k = int i \<Longrightarrow>
      is_server (y_dev y) c i \<Longrightarrow> n < b_queues (y_dev y) \<Longrightarrow> j < IS_QUEUE_DEPTH \<Longrightarrow>
      chunk_here y c i g \<Longrightarrow> chunk_here y' c i g"
    and failed: "\<And>c. failed (y_dev y) c \<Longrightarrow> failed (y_dev y') c"
    and keys: "\<And>c i. is_server (y_dev y) c i \<Longrightarrow> rmap (y_dev y) c i \<Longrightarrow> \<not> failed (y_dev y) c \<Longrightarrow>
      rc_rkey (chunk_at (y_dev y') c i) = rc_rkey (chunk_at (y_dev y) c i) \<and>
      rc_addr (chunk_at (y_dev y') c i) = rc_addr (chunk_at (y_dev y) c i)"
    and bits: "\<And>g c i bm q. mapped_at (y_dev y') g c i \<Longrightarrow> rc_bitmap (chunk_at (y_dev y') c i) = Some bm \<Longrightarrow>
      q < 2 ^ 18 \<Longrightarrow> bm_bit bm (int q) \<Longrightarrow> mapped_at (y_dev y) g c i \<and>
      (\<exists>bm0. rc_bitmap (chunk_at (y_dev y) c i) = Some bm0 \<and> bm_bit bm0 (int q)) \<and>
      rc_rkey (chunk_at (y_dev y') c i) = rc_rkey (chunk_at (y_dev y) c i) \<and>
      rc_addr (chunk_at (y_dev y') c i) = rc_addr (chunk_at (y_dev y) c i)"
  shows "bsim v y'"
proof -
  note i = io_view [OF io] and s = sim [unfolded bsim_def]
  have rb: "remote_bit (y_dev y) p" if "remote_bit (y_dev y') p" for p
    using that bits [of "p div 2 ^ 18" _ _ _ "p mod 2 ^ 18"] unfolding remote_bit_def
    by (metis mod_less_divisor zero_less_numeral zero_less_power)
  have fl: "flushed y' = flushed y" using i y' by (simp add: flushed_def)
  have ok: "flight_ok y' x k" if x: "in_flight (y_dev y) x k" for x k
  proof -
    obtain n c j where xx: "x = (n, c, j)" by (metis prod_cases3)
    have f: "flight_ok y x k" using flight_invD [OF bsimD(7) [OF sim] x] .
    have "chunk_here y c i' g \<longrightarrow> chunk_here y' c i' g" if "cx_chunk_index k = int i'" "i' < MAX_MR_SIZE_GB" for i' g
      using here [of n c j k i' g] x xx f that by (auto simp: flight_ok_def is_server_def)
    with f xx i y' show ?thesis by (simp add: flight_ok_def) blast
  qed
  have wr: "wr_ok v y' c w" if w: "wr_ok v y c w" "c < b_cb_num (y_dev y)" "\<not> failed (y_dev y') c" for c w
  proof -
    obtain n j k r i' where k: "wr_ctx w = (n, c, j)" "ctx_of (y_dev y) (n, c, j) = Some k"
      "cx_in_flight k = (if wr_write w then CTX_W_IN_FLIGHT else CTX_R_IN_FLIGHT)" "cx_req k = Some r"
      "cx_chunk_index k = int i'" "w = request_wr (wr_write w) (n, c, j) c i' r (y_dev y)"
      "\<not> wr_write w \<longrightarrow> y_rmem y c (wr_rkey w) (wr_addr w) = v_store v (rq_page r)"
      using w(1) unfolding wr_ok_def by blast
    have "in_flight (y_dev y) (n, c, j) k" using k(2,3) by (simp add: in_flight_def)
    then have "flight_ok y (n, c, j) k" by (rule flight_invD [OF bsimD(7) [OF sim]])
    moreover have nf: "\<not> failed (y_dev y) c" using failed w(3) by blast
    ultimately have "is_server (y_dev y) c i'" "rmap (y_dev y) c i'"
      using k(5) by (auto simp: flight_ok_def chunk_here_def is_server_def)
    with keys [of c i'] nf have "request_wr b x c i' r (y_dev y') = request_wr b x c i' r (y_dev y)" for b x
      by (auto simp: request_wr_def)
    with k i y' show ?thesis unfolding wr_ok_def by metis
  qed
  have "ctx_inv (y_dev y')"
    using s i unused by (simp add: ctx_inv_def) blast
  moreover have "queue_inv y'" "pend_inv y'" "disk_inv v y'"
    using s i y' fl by (simp_all add: queue_inv_def pend_inv_def disk_inv_def)
  moreover have "flight_inv y'"
    using bsimD(7) [OF sim] ok unfolding flight_inv_def i by blast
  moreover have "wrs_inv v y'" using s i wr failed by (simp add: wrs_inv_def) blast
  moreover have "diskonly_inv y'" using s i y' rb unfolding diskonly_inv_def by metis
  moreover have "remote_inv v y'"
    unfolding remote_inv_def
  proof (intro allI impI)
    fix p c i' bm
    assume a: "\<forall>req. \<not> pend_writes (y_pend y') p req" "mapped_at (y_dev y') (p div 2 ^ 18) c i'"
      "rc_bitmap (chunk_at (y_dev y') c i') = Some bm" "bm_bit bm (int (p mod 2 ^ 18))"
    from bits [OF a(2,3) _ a(4)] obtain bm0 where b: "mapped_at (y_dev y) (p div 2 ^ 18) c i'"
      "rc_bitmap (chunk_at (y_dev y) c i') = Some bm0" "bm_bit bm0 (int (p mod 2 ^ 18))"
      "rc_rkey (chunk_at (y_dev y') c i') = rc_rkey (chunk_at (y_dev y) c i')"
      "rc_addr (chunk_at (y_dev y') c i') = rc_addr (chunk_at (y_dev y) c i')" by auto
    have "remote_inv v y" using s by simp
    with a(1) b(1-3) have
      "y_rmem y c (rc_rkey (chunk_at (y_dev y) c i')) (chunk_addr (y_dev y) c i' (p mod 2 ^ 18)) = v_store v p"
      unfolding remote_inv_def y'(3) by blast
    with b(4,5) y' show "y_rmem y' c (rc_rkey (chunk_at (y_dev y') c i')) (chunk_addr (y_dev y') c i' (p mod 2 ^ 18)) = v_store v p"
      by (simp add: chunk_addr_def)
  qed
  ultimately show ?thesis using s inv y' by (simp add: bsim_def)
qed

end
