(* ===== verification/Block_Map_Steps.thy ===== *)
theory Block_Map_Steps
  imports Block_Frame
begin

text \<open>Steps that change the maps: a chunk is given, taken away, released, and a server is lost.\<close>

lemma cb_simps [simp]:
  "b_cb_list (upd_cb c f s) c' = (if c' = c then f (b_cb_list s c) else b_cb_list s c')"
  "b_sgl (upd_cb c f s) = b_sgl s" "b_queues (upd_cb c f s) = b_queues s" "b_cb_num (upd_cb c f s) = b_cb_num s"
  "b_cb_state_list (upd_cb c f s) = b_cb_state_list s" "b_cb_index_map (upd_cb c f s) = b_cb_index_map s"
  "b_chunk_map_cb_chunk (upd_cb c f s) = b_chunk_map_cb_chunk s" "b_pools (upd_cb c f s) = b_pools s"
  "b_free_chunk_index (upd_cb c f s) = b_free_chunk_index s" "b_bufs (upd_cb c f s) = b_bufs s"
  "b_unmapped_chunk_list (upd_cb c f s) = b_unmapped_chunk_list s"
  "b_wrs (upd_cb c f s) = b_wrs s" "b_bio_list (upd_cb c f s) = b_bio_list s"
  "b_raw_bios (upd_cb c f s) = b_raw_bios s" "queue (upd_cb c f s) = queue s"
  "b_rdma_on (upd_cb c f s) = b_rdma_on s" "b_trigger_enable (upd_cb c f s) = b_trigger_enable s"
  "is_server (upd_cb c f s) = is_server s" "failed (upd_cb c f s) = failed s" "unused (upd_cb c f s) = unused s"
  "mapped_at (upd_cb c f s) = mapped_at s"
  by (simp_all add: upd_cb_def queue_def is_server_def failed_def unused_def mapped_at_def fun_eq_iff)

lemma chunk_at_upd_cb [simp]:
  "chunk_at (upd_cb c f s) c' i = (if c' = c then k_chunk_list (f (b_cb_list s c)) i else chunk_at s c' i)"
  by (simp add: chunk_at_def)

lemma set_cb_state_simps [simp]:
  "b_cb_list (set_cb_state c st s) = b_cb_list s" "b_sgl (set_cb_state c st s) = b_sgl s"
  "b_queues (set_cb_state c st s) = b_queues s" "b_cb_num (set_cb_state c st s) = b_cb_num s"
  "b_cb_state_list (set_cb_state c st s) = (b_cb_state_list s)(c := st)"
  "b_cb_index_map (set_cb_state c st s) = b_cb_index_map s" "b_pools (set_cb_state c st s) = b_pools s"
  "b_chunk_map_cb_chunk (set_cb_state c st s) = b_chunk_map_cb_chunk s"
  "b_free_chunk_index (set_cb_state c st s) = b_free_chunk_index s" "b_bufs (set_cb_state c st s) = b_bufs s"
  "b_wrs (set_cb_state c st s) = b_wrs s" "queue (set_cb_state c st s) = queue s"
  "is_server (set_cb_state c st s) = is_server s" "mapped_at (set_cb_state c st s) = mapped_at s"
  "chunk_at (set_cb_state c st s) = chunk_at s"
  "failed (set_cb_state c st s) c' = (if c' = c then st = CB_FAIL else failed s c')"
  "unused (set_cb_state c st s) c' = (if c' = c then st = CB_IDLE \<or> st = CB_CONNECTED else unused s c')"
  by (simp_all add: set_cb_state_def queue_def is_server_def failed_def unused_def mapped_at_def chunk_at_def
      fun_eq_iff)

section \<open>The state of a server\<close>

text \<open>A server that is not lost may become mapped or evicting.\<close>

lemma set_cb_state_map_inv:
  assumes "map_inv s" "\<not> failed s c" "st = CB_MAPPED \<or> st = CB_EVICTING"
  shows "map_inv (set_cb_state c st s)"
proof -
  have f: "failed (set_cb_state c st s) = failed s" using assms(2,3) by (auto simp: fun_eq_iff)
  have "map_unused (set_cb_state c st s)"
    using assms(1,3) unfolding map_inv_def map_unused_def by auto
  with assms(1) show ?thesis
    unfolding map_inv_def map_routed_def map_owned_def owned_at_def map_bitmaps_def map_unique_def map_keys_def
      map_free_def f
    by simp
qed

lemma bsim_set_cb_state:
  assumes "bsim v y" "\<not> failed (y_dev y) c" "st = CB_MAPPED \<or> st = CB_EVICTING"
  shows "bsim v (y\<lparr>y_dev := set_cb_state c st (y_dev y)\<rparr>)"
proof (rule bsim_maps [OF assms(1)])
  show "same_io (y_dev y) (y_dev (y\<lparr>y_dev := set_cb_state c st (y_dev y)\<rparr>))" by (simp add: same_io_def)
  show "map_inv (y_dev (y\<lparr>y_dev := set_cb_state c st (y_dev y)\<rparr>))"
    using set_cb_state_map_inv [OF bsimD(2) [OF assms(1)] assms(2,3)] by simp
  show "evict_inv (y\<lparr>y_dev := set_cb_state c st (y_dev y)\<rparr>)"
  proof -
    have "evicting (y\<lparr>y_dev := set_cb_state c st (y_dev y)\<rparr>) = evicting y"
      by (simp add: evicting_def fun_eq_iff)
    with bsimD(3) [OF assms(1)] assms(2,3) show ?thesis by (auto simp: evict_inv_def Let_def)
  qed
qed (use assms(2,3) in \<open>auto simp: chunk_here_def evicting_def split: if_splits\<close>)

section \<open>A chunk is given\<close>

text \<open>The device after chunk \<open>i\<close> of server \<open>c\<close> was linked to chunk \<open>g\<close> of the device.\<close>

definition linked :: "nat \<Rightarrow> nat \<Rightarrow> nat \<Rightarrow> remote_chunk_g \<Rightarrow> bdev \<Rightarrow> bdev" where
  "linked c i g ch s = (upd_cb c (\<lambda>k. k\<lparr>k_chunk_list := (k_chunk_list k)(i := ch),
     k_chunk_map := (k_chunk_map k)(i := int g), k_remote_mapped := (k_remote_mapped k)(i := True)\<rparr>) s)
     \<lparr>b_free_chunk_index := b_free_chunk_index s - 1,
      b_chunk_map_cb_chunk := (b_chunk_map_cb_chunk s)(g := int i),
      b_cb_index_map := (b_cb_index_map s)(g := int c)\<rparr>"

lemma linked_simps [simp]:
  "b_sgl (linked c i g ch s) = b_sgl s" "b_queues (linked c i g ch s) = b_queues s"
  "b_cb_num (linked c i g ch s) = b_cb_num s" "b_cb_state_list (linked c i g ch s) = b_cb_state_list s"
  "b_cb_index_map (linked c i g ch s) = (b_cb_index_map s)(g := int c)"
  "b_chunk_map_cb_chunk (linked c i g ch s) = (b_chunk_map_cb_chunk s)(g := int i)"
  "b_free_chunk_index (linked c i g ch s) = b_free_chunk_index s - 1"
  "b_pools (linked c i g ch s) = b_pools s" "b_bufs (linked c i g ch s) = b_bufs s"
  "b_wrs (linked c i g ch s) = b_wrs s" "queue (linked c i g ch s) = queue s"
  "is_server (linked c i g ch s) = is_server s" "failed (linked c i g ch s) = failed s"
  "unused (linked c i g ch s) = unused s"
  "cmap (linked c i g ch s) c' i' = (if c' = c \<and> i' = i then int g else cmap s c' i')"
  "rmap (linked c i g ch s) c' i' = (if c' = c \<and> i' = i then True else rmap s c' i')"
  "emap (linked c i g ch s) c' i' = emap s c' i'"
  "chunk_at (linked c i g ch s) c' i' = (if c' = c \<and> i' = i then ch else chunk_at s c' i')"
  by (auto simp: linked_def queue_def is_server_def failed_def unused_def chunk_at_def fun_eq_iff)

lemma mapped_linked:
  "is_server s c i \<Longrightarrow> g < STACKBD_SIZE_G \<Longrightarrow>
   mapped_at (linked c i g ch s) g' c' i' \<longleftrightarrow> (if g' = g then c' = c \<and> i' = i else mapped_at s g' c' i')"
  by (auto simp: mapped_at_def is_server_def)

lemma card_linked:
  assumes "g < (n :: nat)" "m g = (-1 :: int)"
  shows "card {h. h < n \<and> (m(g := int i)) h \<noteq> -1} = card {h. h < n \<and> m h \<noteq> -1} + 1"
proof -
  have "{h. h < n \<and> (m(g := int i)) h \<noteq> -1} = insert g {h. h < n \<and> m h \<noteq> -1}" using assms by auto
  moreover have "g \<notin> {h. h < n \<and> m h \<noteq> -1}" using assms by simp
  ultimately show ?thesis by simp
qed

lemma card_released:
  assumes "g < (n :: nat)" "m g \<noteq> (-1 :: int)"
  shows "int (card {h. h < n \<and> (m(g := -1)) h \<noteq> -1}) = int (card {h. h < n \<and> m h \<noteq> -1}) - 1"
proof -
  have "{h. h < n \<and> m h \<noteq> -1} = insert g {h. h < n \<and> (m(g := -1)) h \<noteq> -1}" using assms by auto
  moreover have "g \<notin> {h. h < n \<and> (m(g := -1)) h \<noteq> -1}" by simp
  ultimately show ?thesis by simp
qed

lemma cmap_not_free:
  assumes "map_inv s" "is_server s c i" "b_chunk_map_cb_chunk s g = -1"
  shows "cmap s c i \<noteq> int g"
proof
  assume g: "cmap s c i = int g"
  then obtain h where "owned_at s c i h"
    using map_ownedE [OF _ assms(2)] assms(1) by (fastforce simp: map_inv_def)
  with g assms(3) show False by (simp add: owned_at_def)
qed

lemma linked_map_inv:
  assumes inv: "map_inv s" and c: "is_server s c i" "\<not> failed s c" "\<not> unused s c"
    and i: "\<not> rmap s c i" "cmap s c i = -1"
    and g: "g < STACKBD_SIZE_G" "b_cb_index_map s g = -1" "b_chunk_map_cb_chunk s g = -1"
    and ch: "rc_bitmap ch = Some zero_bitmap"
      "\<forall>i' < MAX_MR_SIZE_GB. rmap s c i' \<longrightarrow> rc_rkey (chunk_at s c i') \<noteq> rc_rkey ch"
  shows "map_inv (linked c i g ch s)"
proof -
  have ng: "cmap s c' i' \<noteq> int g" if "is_server s c' i'" for c' i'
    using cmap_not_free [OF inv that g(3)] .
  have "map_routed (linked c i g ch s)"
    using inv c(1) g unfolding map_inv_def map_routed_def mapped_linked [OF c(1) g(1)]
    by (auto simp: mapped_at_def is_server_def) (metis i(2) of_nat_0_le_iff not_le zero_less_one neg_less_0_iff_less)
  moreover have "map_owned (linked c i g ch s)"
    unfolding map_owned_def
  proof (intro allI impI)
    fix c' i' assume a: "is_server (linked c i g ch s) c' i'" "cmap (linked c i g ch s) c' i' \<noteq> -1"
    show "\<exists>g'. owned_at (linked c i g ch s) c' i' g'"
    proof (cases "c' = c \<and> i' = i")
      case True
      then show ?thesis using c(2) g(1) by (intro exI [of _ g]) (simp add: owned_at_def)
    next
      case False
      then obtain h where h: "owned_at s c' i' h"
        using a inv by (auto simp: map_inv_def split: if_splits elim: map_ownedE)
      then have "h \<noteq> g" using ng [of c' i'] a(1) by (auto simp: owned_at_def)
      with h False show ?thesis by (intro exI [of _ h]) (auto simp: owned_at_def)
    qed
  qed
  moreover have "map_bitmaps (linked c i g ch s)"
    using inv ch(1) full_zero unfolding map_inv_def map_bitmaps_def by (auto simp: zero_bitmap_def)
  moreover have "map_unused (linked c i g ch s)"
    using inv c(3) unfolding map_inv_def map_unused_def by auto
  moreover have "map_unique (linked c i g ch s)"
    using inv ng ng [THEN not_sym] unfolding map_inv_def map_unique_def
    by (simp split: if_splits)
  moreover have "map_keys (linked c i g ch s)"
    using inv ch(2) unfolding map_inv_def map_keys_def by (auto simp: is_server_def split: if_splits)
  moreover have "map_free (linked c i g ch s)"
    using inv card_linked [OF g(1), of "b_chunk_map_cb_chunk s" i] g(3) unfolding map_inv_def map_free_def by simp
  ultimately show ?thesis by (simp add: map_inv_def)
qed

lemma bsim_linked:
  assumes sim: "bsim v y" and c: "is_server (y_dev y) c i" "\<not> failed (y_dev y) c" "\<not> unused (y_dev y) c"
    and i: "\<not> rmap (y_dev y) c i" "cmap (y_dev y) c i = -1"
    and g: "g < STACKBD_SIZE_G" "b_cb_index_map (y_dev y) g = -1" "b_chunk_map_cb_chunk (y_dev y) g = -1"
    and ch: "rc_bitmap ch = Some zero_bitmap"
      "\<forall>i' < MAX_MR_SIZE_GB. rmap (y_dev y) c i' \<longrightarrow> rc_rkey (chunk_at (y_dev y) c i') \<noteq> rc_rkey ch"
  shows "bsim v (y\<lparr>y_dev := linked c i g ch (y_dev y)\<rparr>)"
proof (rule bsim_maps [OF sim])
  let ?y = "y\<lparr>y_dev := linked c i g ch (y_dev y)\<rparr>"
  have e: "evicting ?y = evicting y" by (simp add: evicting_def fun_eq_iff)
  have ne: "\<not> evicting y c i"
    using bsimD(3) [OF sim] c(1) i(1) unfolding evict_inv_def Let_def by blast
  show "same_io (y_dev y) (y_dev ?y)" by (simp add: same_io_def)
  show "map_inv (y_dev ?y)" using linked_map_inv [OF bsimD(2) [OF sim] c i g ch] by simp
  show "evict_inv ?y"
    unfolding evict_inv_def Let_def e
  proof (intro conjI allI impI)
    fix c' g' assume st: "stage_chunks (y_evict ?y c') g'"
    then have s: "g' < STACKBD_SIZE_G" "b_cb_index_map (y_dev y) g' = -1" "b_chunk_map_cb_chunk (y_dev y) g' \<noteq> -1"
      "\<And>c'' i'. is_server (y_dev y) c'' i' \<Longrightarrow> cmap (y_dev y) c'' i' \<noteq> int g'"
      using bsimD(3) [OF sim] by (auto simp: evict_inv_def Let_def)
    then have n: "g' \<noteq> g" using g(3) by auto
    then show "b_cb_index_map (y_dev ?y) g' = -1" "b_chunk_map_cb_chunk (y_dev ?y) g' \<noteq> -1" "g' < STACKBD_SIZE_G"
      using s by simp_all
    show "cmap (y_dev ?y) c'' i' \<noteq> int g'" if "is_server (y_dev ?y) c'' i'" for c'' i'
      using s(4) [of c'' i'] that n by simp
  qed (use bsimD(3) [OF sim] ne in \<open>auto simp: evict_inv_def Let_def split: if_splits\<close>)
  show "chunk_here ?y c' i' h" if "chunk_here y c' i' h" for c' i' h
    using that i c(2) ne e by (auto simp: chunk_here_def split: if_splits)
  show "mapped_at (y_dev y) g' c' i' \<and>
      (\<exists>bm0. rc_bitmap (chunk_at (y_dev y) c' i') = Some bm0 \<and> bm_bit bm0 (int q)) \<and>
      rc_rkey (chunk_at (y_dev ?y) c' i') = rc_rkey (chunk_at (y_dev y) c' i') \<and>
      rc_addr (chunk_at (y_dev ?y) c' i') = rc_addr (chunk_at (y_dev y) c' i')"
    if m: "mapped_at (y_dev ?y) g' c' i'" "rc_bitmap (chunk_at (y_dev ?y) c' i') = Some bm" "q < 2 ^ 18"
      "bm_bit bm (int q)" for g' c' i' bm q
  proof -
    have "\<not> (c' = c \<and> i' = i)" using m(2,3,4) ch(1) zero_bitmap_bit [of q] by (auto simp: zero_bitmap_def)
    then show ?thesis using m mapped_linked [OF c(1) g(1), of ch g' c' i'] by (auto split: if_splits)
  qed
qed (use i in auto)

lemma single_chunk_init_linked:
  assumes "IS_single_chunk_init c s = Inr s'" "given_chunks (k_recv_buf (b_cb_list s c)) = i # r"
    and "dm_size_gb (k_recv_buf (b_cb_list s c)) = int g"
  shows "same_core (linked c i g \<lparr>rc_rkey = bswap32 (dm_rkey (k_recv_buf (b_cb_list s c)) i),
     rc_addr = ntohll (dm_buf (k_recv_buf (b_cb_list s c)) i), rc_bitmap = Some zero_bitmap\<rparr> s) s'"
  using assms
  by (auto simp: IS_single_chunk_init_def link_chunk_def init_chunk_def rbind_eq_Inr aset_Inr same_core_def linked_def
      queue_def)

lemma given_chunks_server: "given_chunks m = i # r \<Longrightarrow> i < MAX_MR_SIZE_GB"
  by (metis (no_types, lifting) atLeastLessThan_iff filter_is_subset given_chunks_def list.set_intros(1)
      set_upt subsetD)

section \<open>Messages\<close>

lemma bsim_stop:
  assumes "bsim v y" "y_evict y c = EvIdle" "y_dev y = s"
  shows "bsim v (y\<lparr>y_dev := upd_cb c client_recv_stop s\<rparr>)"
proof (rule bsim_maps [OF assms(1)])
  let ?y = "y\<lparr>y_dev := upd_cb c client_recv_stop s\<rparr>"
  have k: "k_chunk_list (client_recv_stop k) = k_chunk_list k" "k_chunk_map (client_recv_stop k) = k_chunk_map k"
    "k_remote_mapped (client_recv_stop k) = k_remote_mapped k" for k
    by (simp_all add: client_recv_stop_def Let_def)
  have e: "evicting ?y = evicting y"
    using assms(2) by (auto simp: evicting_def fun_eq_iff assms(3))
  have m: "chunk_at (upd_cb c client_recv_stop s) = chunk_at s" by (simp add: fun_eq_iff chunk_at_def k)
  have f: "k_chunk_map (b_cb_list (upd_cb c client_recv_stop s) c') = k_chunk_map (b_cb_list s c')"
    "k_remote_mapped (b_cb_list (upd_cb c client_recv_stop s) c') = k_remote_mapped (b_cb_list s c')" for c'
    by (simp_all add: k)
  show "same_io (y_dev y) (y_dev ?y)" by (simp add: same_io_def assms(3))
  show "map_inv (y_dev ?y)"
    using bsimD(2) [OF assms(1)] by (simp add: map_inv_defs assms(3) m f del: cb_simps(1) chunk_at_upd_cb)
  show "evict_inv ?y"
    using bsimD(3) [OF assms(1)] by (simp add: evict_inv_def Let_def e assms(3) f del: cb_simps(1))
  show "chunk_here ?y c' i h" if "chunk_here y c' i h" for c' i h
    using that by (simp add: chunk_here_def e assms(3) f del: cb_simps(1) split: if_splits)
qed (auto simp: assms(3) chunk_at_def client_recv_stop_def Let_def split: if_splits)

lemma bsim_recv:
  assumes sim: "bsim v y" and c: "c < b_cb_num (y_dev y)" and m: "good_msg y c m"
    and recv: "client_recv len_ok c (upd_cb c (\<lambda>k. k\<lparr>k_recv_buf := m\<rparr>) (y_dev y)) = Inr (r, s')"
  shows "bsim v (y\<lparr>y_dev := s'\<rparr>)"
proof -
  let ?s = "upd_cb c (\<lambda>k. k\<lparr>k_recv_buf := m\<rparr>) (y_dev y)"
  have sim1: "bsim v (y\<lparr>y_dev := ?s\<rparr>)" by (rule bsim_core [OF sim upd_cb_core]) simp
  show ?thesis
  proof (cases "dm_type m \<in> {INFO, INFO_SINGLE, STOP}")
    case False
    then have "same_core ?s s'" using client_recv_core [OF recv] by simp
    from bsim_core [OF sim1, simplified, OF this] show ?thesis by simp
  next
    case True
    show ?thesis
    proof (cases "\<not> len_ok \<or> k_state (b_cb_list (y_dev y) c) < CONNECTED")
      case t: True
      then have "s' = ?s" using recv by (auto simp: client_recv_def Let_def split: if_splits)
      with sim1 show ?thesis by simp
    next
      case f: False
      show ?thesis
      proof (cases "dm_type m = STOP")
        case True
        then have s': "s' = upd_cb c client_recv_stop (set_k_state c RECV_STOP ?s)"
          using recv f by (simp add: client_recv_def Let_def)
        have "bsim v (y\<lparr>y_dev := set_k_state c RECV_STOP ?s\<rparr>)"
          using bsim_core [OF sim1, simplified, OF set_k_state_core] by simp
        from bsim_stop [OF this, of c] m True s' show ?thesis by (simp add: good_msg_def)
      next
        case n: False
        then have I: "dm_type m = INFO_SINGLE" using True m by (auto simp: good_msg_def)
        let ?t = "set_k_state c WAIT_OPS (set_cb_state c CB_MAPPED ?s)"
        have nf: "\<not> failed (y_dev y) c" using m I by (simp add: good_msg_def failed_def)
        have "bsim v (y\<lparr>y_dev := set_cb_state c CB_MAPPED ?s\<rparr>)"
          using bsim_set_cb_state [OF sim1, of c CB_MAPPED] nf by simp
        then have simt: "bsim v (y\<lparr>y_dev := ?t\<rparr>)"
          using bsim_core [of v "y\<lparr>y_dev := set_cb_state c CB_MAPPED ?s\<rparr>", simplified, OF _ set_k_state_core] by simp
        have init: "IS_single_chunk_init c ?t = Inr s'"
          using recv f I by (auto simp: client_recv_def Let_def rbind_eq_Inr)
        have k: "k_recv_buf (b_cb_list ?t c) = m" by (simp add: set_k_state_def)
        have fr: "fresh_chunk (y_dev y) c m" using m I by (simp add: good_msg_def)
        show ?thesis
        proof (cases "given_chunks m")
          case Nil
          then have "s' = ?t" using init k by (simp add: IS_single_chunk_init_def)
          with simt show ?thesis by simp
        next
          case (Cons i rest)
          then obtain g where g: "g < STACKBD_SIZE_G" "dm_size_gb m = int g" "b_cb_index_map (y_dev y) g = -1"
            "b_chunk_map_cb_chunk (y_dev y) g = -1" and
            i: "\<not> rmap (y_dev y) c i" "cmap (y_dev y) c i = -1"
              "\<forall>i' < MAX_MR_SIZE_GB. rmap (y_dev y) c i' \<longrightarrow> rc_rkey (chunk_at (y_dev y) c i') \<noteq> bswap32 (dm_rkey m i)"
            using fr by (auto simp: fresh_chunk_def)
          let ?ch = "\<lparr>rc_rkey = bswap32 (dm_rkey m i), rc_addr = ntohll (dm_buf m i), rc_bitmap = Some zero_bitmap\<rparr>"
          have "bsim v (y\<lparr>y_dev := linked c i g ?ch ?t\<rparr>)"
            using bsim_linked [OF simt, of c i g ?ch] given_chunks_server [OF Cons] c g i
            by (simp add: set_k_state_def is_server_def chunk_at_def)
          moreover have "same_core (linked c i g ?ch ?t) s'"
            using single_chunk_init_linked [OF init] k Cons g(2) by simp
          ultimately show ?thesis using bsim_core [of v "y\<lparr>y_dev := linked c i g ?ch ?t\<rparr>" s'] by simp
        qed
      qed
    qed
  qed
qed

end
