(* ===== verification/Block_Evict.thy ===== *)
theory Block_Evict
  imports Block_Map_Steps
begin

text \<open>
  Eviction and the loss of a server. The loops over the chunks of a server have closed forms: the
  chunks in a set are taken off the route, forgotten by their server, or wiped.
\<close>

section \<open>Closed forms\<close>

definition unrouted :: "nat \<Rightarrow> nat set \<Rightarrow> bdev \<Rightarrow> bdev" where
  "unrouted c S s = s\<lparr>b_cb_index_map := (\<lambda>g. if \<exists>i \<in> S. cmap s c i = int g then -1 else b_cb_index_map s g)\<rparr>"

definition forgot :: "nat \<Rightarrow> nat set \<Rightarrow> bdev \<Rightarrow> bdev" where
  "forgot c S s = upd_cb c (\<lambda>k. k\<lparr>k_chunk_map := (\<lambda>i. if i \<in> S then -1 else k_chunk_map k i)\<rparr>) s"

definition wiped :: "nat \<Rightarrow> nat set \<Rightarrow> bdev \<Rightarrow> bdev" where
  "wiped c S s = upd_cb c (\<lambda>k. k\<lparr>
     k_chunk_list := (\<lambda>i. if i \<in> S then (k_chunk_list k i)\<lparr>rc_bitmap := Some zero_bitmap\<rparr> else k_chunk_list k i),
     k_remote_mapped := (\<lambda>i. i \<notin> S \<and> k_remote_mapped k i)\<rparr>) s"

lemma unrouted_simps [simp]:
  "b_cb_list (unrouted c S s) = b_cb_list s" "b_sgl (unrouted c S s) = b_sgl s"
  "b_queues (unrouted c S s) = b_queues s" "b_cb_num (unrouted c S s) = b_cb_num s"
  "b_cb_state_list (unrouted c S s) = b_cb_state_list s" "b_pools (unrouted c S s) = b_pools s"
  "b_chunk_map_cb_chunk (unrouted c S s) = b_chunk_map_cb_chunk s" "b_wrs (unrouted c S s) = b_wrs s"
  "b_free_chunk_index (unrouted c S s) = b_free_chunk_index s" "b_bufs (unrouted c S s) = b_bufs s"
  "queue (unrouted c S s) = queue s" "is_server (unrouted c S s) = is_server s"
  "failed (unrouted c S s) = failed s" "unused (unrouted c S s) = unused s" "chunk_at (unrouted c S s) = chunk_at s"
  "b_cb_index_map (unrouted c S s) g = (if \<exists>i \<in> S. cmap s c i = int g then -1 else b_cb_index_map s g)"
  by (simp_all add: unrouted_def queue_def is_server_def failed_def unused_def chunk_at_def fun_eq_iff)

lemma forgot_simps [simp]:
  "cmap (forgot c S s) c' i = (if c' = c \<and> i \<in> S then -1 else cmap s c' i)"
  "rmap (forgot c S s) c' i = rmap s c' i" "emap (forgot c S s) c' i = emap s c' i"
  "b_sgl (forgot c S s) = b_sgl s" "b_queues (forgot c S s) = b_queues s" "b_cb_num (forgot c S s) = b_cb_num s"
  "b_cb_state_list (forgot c S s) = b_cb_state_list s" "b_pools (forgot c S s) = b_pools s"
  "b_chunk_map_cb_chunk (forgot c S s) = b_chunk_map_cb_chunk s" "b_wrs (forgot c S s) = b_wrs s"
  "b_free_chunk_index (forgot c S s) = b_free_chunk_index s" "b_bufs (forgot c S s) = b_bufs s"
  "queue (forgot c S s) = queue s" "is_server (forgot c S s) = is_server s"
  "failed (forgot c S s) = failed s" "unused (forgot c S s) = unused s"
  "mapped_at (forgot c S s) = mapped_at s" "b_cb_index_map (forgot c S s) = b_cb_index_map s"
  by (simp_all add: forgot_def)

lemma chunk_at_forgot [simp]: "chunk_at (forgot c S s) = chunk_at s"
  by (simp add: forgot_def fun_eq_iff chunk_at_def)

lemma wiped_simps [simp]:
  "cmap (wiped c S s) c' i = cmap s c' i" "emap (wiped c S s) c' i = emap s c' i"
  "rmap (wiped c S s) c' i \<longleftrightarrow> \<not> (c' = c \<and> i \<in> S) \<and> rmap s c' i"
  "b_sgl (wiped c S s) = b_sgl s" "b_queues (wiped c S s) = b_queues s" "b_cb_num (wiped c S s) = b_cb_num s"
  "b_cb_state_list (wiped c S s) = b_cb_state_list s" "b_pools (wiped c S s) = b_pools s"
  "b_chunk_map_cb_chunk (wiped c S s) = b_chunk_map_cb_chunk s" "b_wrs (wiped c S s) = b_wrs s"
  "b_free_chunk_index (wiped c S s) = b_free_chunk_index s" "b_bufs (wiped c S s) = b_bufs s"
  "queue (wiped c S s) = queue s" "is_server (wiped c S s) = is_server s"
  "failed (wiped c S s) = failed s" "unused (wiped c S s) = unused s"
  "mapped_at (wiped c S s) = mapped_at s" "b_cb_index_map (wiped c S s) = b_cb_index_map s"
  "chunk_at (wiped c S s) c' i = (if c' = c \<and> i \<in> S then (chunk_at s c i)\<lparr>rc_bitmap := Some zero_bitmap\<rparr> else chunk_at s c' i)"
  by (simp_all add: wiped_def) (simp add: chunk_at_def)

lemma mapped_unrouted:
  "mapped_at (unrouted c S s) g c' i' \<longleftrightarrow> mapped_at s g c' i' \<and> \<not> (\<exists>i \<in> S. cmap s c i = int g)"
  by (auto simp: mapped_at_def)

lemma upd_cb_upd_cb: "upd_cb c f (upd_cb c g s) = upd_cb c (\<lambda>k. f (g k)) s"
  by (simp add: upd_cb_def)

lemma upd_cb_cong: "f (b_cb_list s c) = g (b_cb_list s c) \<Longrightarrow> upd_cb c f s = upd_cb c g s"
  by (simp add: upd_cb_def)

lemma upd_cb_id: "f (b_cb_list s c) = b_cb_list s c \<Longrightarrow> upd_cb c f s = s"
  by (simp add: upd_cb_def)

lemma wiped_wiped: "wiped c S (wiped c T s) = wiped c (S \<union> T) s"
  unfolding wiped_def upd_cb_upd_cb
  by (rule upd_cb_cong, rule kernel_cb.equality) (auto simp: fun_eq_iff)

lemma wiped_empty: "wiped c {} s = s"
  unfolding wiped_def by (rule upd_cb_id) simp

section \<open>The loops\<close>

definition off_chunks :: "nat \<Rightarrow> nat set \<Rightarrow> bdev \<Rightarrow> nat \<Rightarrow> bool" where
  "off_chunks c S s g \<longleftrightarrow> (\<exists>i \<in> S. cmap s c i = int g)"

lemma same_core_unrouted_forgot:
  assumes "same_core s t"
  shows "same_core (forgot c S (unrouted c S s)) (forgot c S (unrouted c S t))"
  using assms by (simp add: same_core_def forgot_def fun_eq_iff unrouted_def upd_cb_def queue_def)

lemma evict_unmap_loop:
  assumes "rfold (evict_unmap c) xs (ev, s) = Inr (ev', s')" "distinct xs"
  defines "S \<equiv> {i \<in> set xs. emap s c i = CHR ''s''}"
  shows "ev' = (\<lambda>g. ev g \<or> off_chunks c S s g) \<and>
    (\<forall>i \<in> S. \<exists>g < STACKBD_SIZE_G. cmap s c i = int g) \<and>
    same_core (forgot c S (unrouted c S s)) s'"
  using assms(1,2) unfolding S_def
proof (induction xs arbitrary: ev s)
  case Nil
  then show ?case by (simp add: off_chunks_def same_core_def forgot_def unrouted_def upd_cb_def queue_def)
next
  case (Cons i xs)
  obtain ev1 s1 where 1: "evict_unmap c i (ev, s) = Inr (ev1, s1)" "rfold (evict_unmap c) xs (ev1, s1) = Inr (ev', s')"
    using Cons.prems(1) by (auto simp: rbind_eq_Inr)
  let ?S = "{j \<in> set xs. emap s c j = CHR ''s''}"
  show ?case
  proof (cases "emap s c i = CHR ''s''")
    case False
    then have core: "ev1 = ev" "same_core s s1"
      using 1(1) by (auto simp: evict_unmap_def Let_def intro: upd_cb_core)
    then have "emap s1 c j = emap s c j" "cmap s1 c j = cmap s c j" for j by (simp_all add: same_core_def)
    with Cons.IH [OF 1(2)] Cons.prems(2) core have r:
      "ev' = (\<lambda>g. ev g \<or> off_chunks c ?S s g)" "\<forall>i \<in> ?S. \<exists>g < STACKBD_SIZE_G. cmap s c i = int g"
      "same_core (forgot c ?S (unrouted c ?S s1)) s'" by (simp_all add: off_chunks_def)
    have S: "{j \<in> set (i # xs). emap s c j = CHR ''s''} = ?S" using False by auto
    from same_core_trans [OF same_core_unrouted_forgot [OF core(2)] r(3)] r(1,2) show ?thesis
      unfolding S by simp
  next
    case True
    then obtain g where g: "cmap s c i = int g" "g < STACKBD_SIZE_G" "ev1 = ev(g := True)" and
      s1: "s1 = (upd_cb c (\<lambda>k. k\<lparr>k_chunk_map := (k_chunk_map k)(i := -1),
            k_send_buf := (k_send_buf k)\<lparr>dm_rkey := (dm_rkey (k_send_buf k))(i := 1)\<rparr>\<rparr>) s)
            \<lparr>b_cb_index_map := (b_cb_index_map s)(g := -1)\<rparr>"
      using 1(1) by (auto simp: evict_unmap_def Let_def rbind_eq_Inr aset_Inr in_bounds_def)
        (metis int_nat_eq nat_less_iff)
    have f: "emap s1 c j = emap s c j" "cmap s1 c j = (if j = i then -1 else cmap s c j)" for j
      by (simp_all add: s1)
    have ni: "i \<notin> ?S" using Cons.prems(2) by simp
    have fS: "cmap s1 c j = cmap s c j" if "j \<in> ?S" for j using that ni f(2) [of j] by metis
    have o: "off_chunks c ?S s1 = off_chunks c ?S s" using fS by (auto simp: off_chunks_def fun_eq_iff)
    from Cons.IH [OF 1(2)] Cons.prems(2) f o have
      IH: "ev' = (\<lambda>h. ev1 h \<or> off_chunks c ?S s h)" "\<forall>j \<in> ?S. \<exists>g < STACKBD_SIZE_G. cmap s1 c j = int g"
      "same_core (forgot c ?S (unrouted c ?S s1)) s'" by simp_all
    have S: "{j \<in> set (i # xs). emap s c j = CHR ''s''} = insert i ?S" using True by auto
    have "same_core (forgot c (insert i ?S) (unrouted c (insert i ?S) s)) (forgot c ?S (unrouted c ?S s1))"
      using f ni g(1) by (auto simp: same_core_def forgot_def unrouted_def upd_cb_def queue_def s1 fun_eq_iff)
    from same_core_trans [OF this IH(3)] show ?thesis
      unfolding S using IH(1,2) g fS by (auto simp: off_chunks_def fun_eq_iff)
  qed
qed

section \<open>Marking\<close>

lemma map_uniqueD:
  "map_inv s \<Longrightarrow> is_server s c i \<Longrightarrow> is_server s c' i' \<Longrightarrow> cmap s c i = int g \<Longrightarrow> cmap s c' i' = int g \<Longrightarrow>
   c = c' \<and> i = i'"
  unfolding map_inv_def map_unique_def by (metis int_eq_iff neg_0_le_iff_le not_one_le_zero)

lemma marked_map_inv:
  assumes inv: "map_inv s" and c: "c < b_cb_num s" "\<not> failed s c"
    and S: "S \<subseteq> {i. i < MAX_MR_SIZE_GB}" "\<forall>i \<in> S. \<exists>g < STACKBD_SIZE_G. cmap s c i = int g"
  shows "map_inv (forgot c S (unrouted c S s))"
proof -
  let ?s = "forgot c S (unrouted c S s)"
  have srv: "is_server s c i" if "i \<in> S" for i using that S(1) c(1) by (auto simp: is_server_def)
  have "map_routed ?s"
    unfolding map_routed_def
  proof (intro allI impI)
    fix g assume g: "g < STACKBD_SIZE_G" "b_cb_index_map ?s g \<noteq> -1"
    then obtain c' i' where m: "mapped_at s g c' i'" "cmap s c' i' = int g" "\<not> (\<exists>i \<in> S. cmap s c i = int g)"
      using inv by (auto simp: map_inv_def map_routed_def split: if_splits)
    then have "\<not> (c' = c \<and> i' \<in> S)" by auto
    with m show "\<exists>c i. mapped_at ?s g c i \<and> cmap ?s c i = int g"
      by (intro exI [of _ c'] exI [of _ i']) (auto simp: mapped_unrouted)
  qed
  moreover have "map_owned ?s"
    unfolding map_owned_def
  proof (intro allI impI)
    fix c' i' assume a: "is_server ?s c' i'" "cmap ?s c' i' \<noteq> -1"
    then have n: "\<not> (c' = c \<and> i' \<in> S)" "cmap s c' i' \<noteq> -1" by (auto split: if_splits)
    obtain g where g: "owned_at s c' i' g" using map_ownedE [OF _ _ n(2)] a(1) inv by (auto simp: map_inv_def)
    have "\<not> (\<exists>i \<in> S. cmap s c i = int g)"
      using n(1) g map_uniqueD [OF inv srv] a(1) by (fastforce simp: owned_at_def)
    with g n show "\<exists>g. owned_at ?s c' i' g"
      by (intro exI [of _ g]) (auto simp: owned_at_def split: if_splits)
  qed
  moreover have "map_unique ?s"
    using inv unfolding map_inv_def map_unique_def by (auto split: if_splits)
  ultimately show ?thesis
    using inv by (auto simp: map_inv_def map_bitmaps_def map_unused_def map_keys_def map_free_def split: if_splits)
qed

lemma bsim_marked:
  assumes sim: "bsim v y" and c: "c < b_cb_num (y_dev y)" "\<not> failed (y_dev y) c" "y_evict y c = EvIdle"
    and S: "S = {i \<in> {0 ..< MAX_MR_SIZE_GB}. emap (y_dev y) c i = CHR ''s''}"
      "\<forall>i \<in> S. \<exists>g < STACKBD_SIZE_G. cmap (y_dev y) c i = int g"
  shows "bsim v (y\<lparr>y_dev := forgot c S (unrouted c S (y_dev y)),
    y_evict := (y_evict y)(c := EvMarked (off_chunks c S (y_dev y)) n)\<rparr>)"
proof (rule bsim_maps [OF sim])
  let ?s = "y_dev y"
  let ?y = "y\<lparr>y_dev := forgot c S (unrouted c S ?s), y_evict := (y_evict y)(c := EvMarked (off_chunks c S ?s) n)\<rparr>"
  note inv = bsimD(2) [OF sim] and ev = bsimD(3) [OF sim, unfolded evict_inv_def Let_def]
  have Sb: "S \<subseteq> {i. i < MAX_MR_SIZE_GB}" using S(1) by auto
  have srv: "is_server ?s c i" if "i \<in> S" for i using that S(1) c(1) by (auto simp: is_server_def)
  have own: "\<exists>g. owned_at ?s c i g \<and> rmap ?s c i" if i: "i \<in> S" for i
  proof -
    have "cmap ?s c i \<noteq> -1" using i S(2) by force
    then obtain g where "owned_at ?s c i g"
      using map_ownedE [OF _ srv [OF i]] inv by (auto simp: map_inv_def)
    then show ?thesis using c(2) by (auto simp: owned_at_def)
  qed
  have e: "evicting ?y c' i \<longleftrightarrow> (if c' = c then emap ?s c i = CHR ''s'' else evicting y c' i)" for c' i
    by (simp add: evicting_def)
  show "same_io (y_dev y) (y_dev ?y)" by (simp add: same_io_def)
  show "map_inv (y_dev ?y)" using marked_map_inv [OF inv c(1,2) Sb S(2)] by simp
  show "evict_inv ?y"
    unfolding evict_inv_def Let_def
  proof (intro conjI allI impI)
    fix c' i assume a: "is_server (y_dev ?y) c' i" "evicting ?y c' i"
    then have "c' = c \<Longrightarrow> i \<in> S" using e [of c' i] S(1) by (simp add: is_server_def)
    with a e [of c' i] ev own show "cmap (y_dev ?y) c' i = -1" "rmap (y_dev ?y) c' i"
      by (cases "c' = c"; auto)+
  next
    fix c' g assume st: "stage_chunks (y_evict ?y c') g"
    have "g < STACKBD_SIZE_G \<and> b_cb_index_map (y_dev ?y) g = -1 \<and> b_chunk_map_cb_chunk ?s g \<noteq> -1 \<and>
        (\<forall>c'' i'. is_server ?s c'' i' \<longrightarrow> cmap (y_dev ?y) c'' i' \<noteq> int g)"
    proof (cases "c' = c")
      case True
      with st obtain i where i: "i \<in> S" "cmap ?s c i = int g" by (auto simp: off_chunks_def)
      then obtain h where "owned_at ?s c i h" using own by blast
      with i have o: "owned_at ?s c i g" by (simp add: owned_at_def)
      have "cmap (y_dev ?y) c'' i' \<noteq> int g" if "is_server ?s c'' i'" for c'' i'
        using map_uniqueD [OF inv srv [OF i(1)] that i(2)] i(1) by auto
      moreover have "b_cb_index_map (y_dev ?y) g = -1" using i by auto
      ultimately show ?thesis using o by (auto simp: owned_at_def)
    next
      case False
      with st ev show ?thesis by auto
    qed
    then show "g < STACKBD_SIZE_G" "b_cb_index_map (y_dev ?y) g = -1" "b_chunk_map_cb_chunk (y_dev ?y) g \<noteq> -1"
      "\<And>c'' i'. is_server (y_dev ?y) c'' i' \<Longrightarrow> cmap (y_dev ?y) c'' i' \<noteq> int g" by simp_all
  next
    fix c1 c2 g assume st: "stage_chunks (y_evict ?y c1) g" "stage_chunks (y_evict ?y c2) g"
    have "\<not> stage_chunks (y_evict y c') g" if "off_chunks c S ?s g" for c'
      using that ev srv by (auto simp: off_chunks_def)
    then show "c1 = c2" using st ev by (auto split: if_splits)
  qed (use ev c in \<open>auto split: if_splits\<close>)
  show "chunk_here ?y c' i g" if "is_server ?s c' i" "chunk_here y c' i g" for c' i g
  proof (cases "c' = c")
    case True
    have "\<not> evicting y c i" using c(3) by (simp add: evicting_def)
    moreover have "off_chunks c S ?s g" if "i \<in> S" "cmap ?s c i = int g" using that by (auto simp: off_chunks_def)
    ultimately show ?thesis using that True c(2) e [of c i] S(1) by (auto simp: chunk_here_def is_server_def)
  next
    case False
    with that e [of c' i] show ?thesis by (auto simp: chunk_here_def split: if_splits)
  qed
qed (auto simp: mapped_unrouted)

lemma bsim_evict_mark:
  assumes sim: "bsim v y" and c: "c < b_cb_num (y_dev y)" "\<not> failed (y_dev y) c" "y_evict y c = EvIdle"
    and m: "evict_mark c (y_dev y) = Inr (Some (ev, n), s')"
  shows "bsim v (y\<lparr>y_dev := s', y_evict := (y_evict y)(c := EvMarked ev n)\<rparr>)"
proof -
  let ?s0 = "(clear_send_rkeys c (y_dev y))\<lparr>b_trigger_enable := False\<rparr>"
  have core: "same_core (y_dev y) ?s0"
    by (simp add: clear_send_rkeys_def upd_cb_def same_core_def queue_def)
  have sim0: "bsim v (y\<lparr>y_dev := ?s0\<rparr>)" by (rule bsim_core [OF sim core])
  have loop: "rfold (evict_unmap c) [0 ..< MAX_MR_SIZE_GB] (\<lambda>_. False, ?s0) = Inr (ev, s')"
    using m by (auto simp: evict_mark_def rbind_eq_Inr split: if_splits)
  let ?S = "{i \<in> {0 ..< MAX_MR_SIZE_GB}. emap ?s0 c i = CHR ''s''}"
  from evict_unmap_loop [OF loop] have l: "ev = off_chunks c ?S ?s0"
    "\<forall>i \<in> ?S. \<exists>g < STACKBD_SIZE_G. cmap ?s0 c i = int g" "same_core (forgot c ?S (unrouted c ?S ?s0)) s'"
    by (simp_all add: fun_eq_iff)
  have "bsim v (y\<lparr>y_dev := forgot c ?S (unrouted c ?S ?s0),
      y_evict := (y_evict y)(c := EvMarked (off_chunks c ?S ?s0) n)\<rparr>)"
    using bsim_marked [OF sim0, of c ?S n] c l(2) core_view [OF core] core by (simp add: same_core_def)
  then show ?thesis by (rule bsim_core_sys) (use l(1,3) in simp_all)
qed

section \<open>Cleaning\<close>

lemma flight_scan_clear:
  "flight_scan c xs s = Inr False \<Longrightarrow> (n, j) \<in> set xs \<Longrightarrow> in_flight s (n, c, j) k \<Longrightarrow>
   cx_chunk_index k = int i \<Longrightarrow> cmap s c i \<noteq> -1"
  by (induction c xs s rule: flight_scan.induct)
    (auto simp: rbind_eq_Inr aget_Inr in_flight_def ctx_of_def split: option.splits if_splits)

lemma pool_ctxs_in: "n < b_queues s \<Longrightarrow> j < IS_QUEUE_DEPTH \<Longrightarrow> (n, j) \<in> set (pool_ctxs s)"
  by (simp add: pool_ctxs_def)

lemma on_bitmap_init:
  "rc_bitmap (chunk_at s c i) = Some bm \<Longrightarrow> full_bitmap bm \<Longrightarrow>
   on_bitmap c i IS_bitmap_init s = Inr (put_bitmap c i zero_bitmap s)"
  by (simp add: on_bitmap_def bitmap_at_def IS_bitmap_init_full zero_bitmap_def)

lemma put_bitmap_wiped:
  "upd_cb c (\<lambda>k. k\<lparr>k_remote_mapped := (k_remote_mapped k)(i := False)\<rparr>) (put_bitmap c i zero_bitmap s) = wiped c {i} s"
  unfolding put_bitmap_def wiped_def upd_cb_upd_cb
  by (rule upd_cb_cong, rule kernel_cb.equality) (auto simp: fun_eq_iff)

lemma set_cb_core: "same_core s t \<Longrightarrow> same_core (set_cb_state c st s) (set_cb_state c st t)"
  by (simp add: same_core_def)

lemma same_core_wiped:
  assumes "same_core s t"
  shows "same_core (wiped c S s) (wiped c S t)"
  using assms by (simp add: same_core_def wiped_def upd_cb_def queue_def fun_eq_iff)

lemma evict_reset_loop:
  assumes "rfold (evict_reset c) xs s = Inr s'" "distinct xs"
    "\<forall>i \<in> set xs. emap s c i = CHR ''s'' \<longrightarrow> (\<exists>bm. rc_bitmap (chunk_at s c i) = Some bm \<and> full_bitmap bm)"
  shows "s' = wiped c {i \<in> set xs. emap s c i = CHR ''s''} s"
  using assms
proof (induction xs arbitrary: s)
  case Nil
  then show ?case by (simp add: wiped_empty)
next
  case (Cons i xs)
  obtain s1 where 1: "evict_reset c i s = Inr s1" "rfold (evict_reset c) xs s1 = Inr s'"
    using Cons.prems(1) by (auto simp: rbind_eq_Inr)
  show ?case
  proof (cases "emap s c i = CHR ''s''")
    case False
    then have "s1 = s" using 1(1) by (simp add: evict_reset_def)
    moreover have "{j \<in> set (i # xs). emap s c j = CHR ''s''} = {j \<in> set xs. emap s c j = CHR ''s''}"
      using False by auto
    ultimately show ?thesis using Cons.IH [OF 1(2)] Cons.prems(2,3) by simp
  next
    case True
    let ?S = "{j \<in> set xs. emap s c j = CHR ''s''}"
    obtain bm where "rc_bitmap (chunk_at s c i) = Some bm" "full_bitmap bm" using True Cons.prems(3) by auto
    then have "s1 = upd_cb c (\<lambda>k. k\<lparr>k_remote_mapped := (k_remote_mapped k)(i := False)\<rparr>) (put_bitmap c i zero_bitmap s)"
      using 1(1) True by (simp add: evict_reset_def on_bitmap_init)
    then have s1: "s1 = wiped c {i} s" by (simp add: put_bitmap_wiped)
    have "s' = wiped c {j \<in> set xs. emap s1 c j = CHR ''s''} s1"
      using Cons.IH [OF 1(2)] Cons.prems(2,3) by (auto simp: s1)
    also have "\<dots> = wiped c (insert i ?S) s" by (simp add: s1 wiped_wiped)
    also have "insert i ?S = {j \<in> set (i # xs). emap s c j = CHR ''s''}" using True by auto
    finally show ?thesis .
  qed
qed

lemma wiped_map_inv:
  assumes "map_inv s" "\<forall>i \<in> S. cmap s c i = -1"
  shows "map_inv (wiped c S s)"
proof -
  have "map_owned (wiped c S s)"
    unfolding map_owned_def
  proof (intro allI impI)
    fix c' i' assume a: "is_server (wiped c S s) c' i'" "cmap (wiped c S s) c' i' \<noteq> -1"
    then obtain g where "owned_at s c' i' g" using assms(1) by (auto simp: map_inv_def elim: map_ownedE)
    with a(2) assms(2) show "\<exists>g. owned_at (wiped c S s) c' i' g" by (auto simp: owned_at_def)
  qed
  with assms(1) show ?thesis
    unfolding map_inv_def map_routed_def map_bitmaps_def map_unused_def map_unique_def map_keys_def map_free_def
    by auto
qed

lemma bsim_cleaned:
  assumes sim: "bsim v y" and st: "y_evict y c = EvMarked ev n"
    and scan: "flight_scan c (pool_ctxs (y_dev y)) (y_dev y) = Inr False"
    and S: "S = {i \<in> {0 ..< MAX_MR_SIZE_GB}. emap (y_dev y) c i = CHR ''s''}"
  shows "bsim v (y\<lparr>y_dev := wiped c S (y_dev y), y_evict := (y_evict y)(c := EvCleaned ev)\<rparr>)"
proof (rule bsim_maps [OF sim])
  let ?s = "y_dev y"
  let ?y = "y\<lparr>y_dev := wiped c S ?s, y_evict := (y_evict y)(c := EvCleaned ev)\<rparr>"
  note evi = bsimD(3) [OF sim, unfolded evict_inv_def Let_def]
  have c: "c < b_cb_num ?s" "\<not> failed ?s c" using evi st by (metis evict_stage.distinct(1))+
  have off: "\<forall>i \<in> S. cmap ?s c i = -1"
    using evi st c(1) S by (auto simp: evicting_def is_server_def)
  have e: "evicting ?y c' i \<longleftrightarrow> c' \<noteq> c \<and> evicting y c' i" for c' i by (simp add: evicting_def)
  have sc: "stage_chunks (y_evict ?y c') = stage_chunks (y_evict y c')" for c' by (simp add: st fun_eq_iff)
  show "same_io ?s (y_dev ?y)" by (simp add: same_io_def)
  show "map_inv (y_dev ?y)" using wiped_map_inv [OF bsimD(2) [OF sim] off] by simp
  show "evict_inv ?y"
    unfolding evict_inv_def Let_def sc e using evi c by (auto split: if_splits)
  show "chunk_here ?y c' i g" if f: "in_flight ?s (n', c', j) k" "cx_chunk_index k = int i" "is_server ?s c' i"
    "n' < b_queues ?s" "j < IS_QUEUE_DEPTH" "chunk_here y c' i g" for n' c' j k i g
  proof (cases "c' = c")
    case True
    have "cmap ?s c i \<noteq> -1"
      using flight_scan_clear [OF scan pool_ctxs_in [OF f(4,5)] _ f(2)] f(1) True by simp
    moreover from this have "\<not> evicting y c i" using evi f(3) True by blast
    ultimately show ?thesis using f(6) True c(2) off by (auto simp: chunk_here_def)
  next
    case False
    with f(6) e show ?thesis by (auto simp: chunk_here_def split: if_splits)
  qed
  show "mapped_at ?s g c' i \<and> (\<exists>bm0. rc_bitmap (chunk_at ?s c' i) = Some bm0 \<and> bm_bit bm0 (int q)) \<and>
      rc_rkey (chunk_at (y_dev ?y) c' i) = rc_rkey (chunk_at ?s c' i) \<and>
      rc_addr (chunk_at (y_dev ?y) c' i) = rc_addr (chunk_at ?s c' i)"
    if "mapped_at (y_dev ?y) g c' i" "rc_bitmap (chunk_at (y_dev ?y) c' i) = Some bm" "q < 2 ^ 18"
      "bm_bit bm (int q)" for g c' i bm q
    using that zero_bitmap_bit [of q] by (auto simp: zero_bitmap_def split: if_splits)
qed auto

lemma bsim_evict_clean:
  assumes sim: "bsim v y" and st: "y_evict y c = EvMarked ev n" and cl: "evict_clean post c n (y_dev y) = Inr s'"
  shows "bsim v (y\<lparr>y_dev := s', y_evict := (y_evict y)(c := EvCleaned ev)\<rparr>)"
proof -
  let ?s = "y_dev y" and ?S = "{i \<in> {0 ..< MAX_MR_SIZE_GB}. emap (y_dev y) c i = CHR ''s''}"
  let ?y = "y\<lparr>y_dev := wiped c ?S ?s, y_evict := (y_evict y)(c := EvCleaned ev)\<rparr>"
  note evi = bsimD(3) [OF sim, unfolded evict_inv_def Let_def]
  have c: "c < b_cb_num ?s" "\<not> failed ?s c" using evi st by (metis evict_stage.distinct(1))+
  obtain s2 where s2: "flight_scan c (pool_ctxs ?s) ?s = Inr False"
    "rfold (evict_reset c) [0 ..< MAX_MR_SIZE_GB] ?s = Inr s2"
    "s' = set_cb_state c CB_EVICTING (upd_cb c (\<lambda>k. k\<lparr>k_c_state := C_READY\<rparr>) (snd (IS_send_done post c n
       (upd_cb c (\<lambda>k. k\<lparr>k_chunk_size_g := k_chunk_size_g k - n, k_shrink_size_g := 0\<rparr>)
         (s2\<lparr>b_mapped_cb_num := b_mapped_cb_num s2 - n\<rparr>)))))"
    using cl by (auto simp: evict_clean_def IS_chunk_wait_in_flight_requests_def rbind_eq_Inr Let_def split: if_splits)
  have "\<forall>i \<in> ?S. \<exists>bm. rc_bitmap (chunk_at ?s c i) = Some bm \<and> full_bitmap bm"
    using bsimD(2) [OF sim] evi st c(1) by (auto simp: map_inv_def map_bitmaps_def evicting_def is_server_def)
  then have "s2 = wiped c ?S ?s" using evict_reset_loop [OF s2(2)] by simp
  then have "same_core (wiped c ?S ?s) (s2\<lparr>b_mapped_cb_num := b_mapped_cb_num s2 - n\<rparr>)"
    by (simp add: same_core_def queue_def)
  moreover have "same_core t (upd_cb c (\<lambda>k. k\<lparr>k_c_state := C_READY\<rparr>) (snd (IS_send_done post c n
      (upd_cb c (\<lambda>k. k\<lparr>k_chunk_size_g := k_chunk_size_g k - n, k_shrink_size_g := 0\<rparr>) t))))" for t
    unfolding IS_send_done_def
    by (rule same_core_trans [OF same_core_trans [OF upd_cb_core post_msg_core] upd_cb_core]) simp_all
  ultimately have core: "same_core (set_cb_state c CB_EVICTING (wiped c ?S ?s)) s'"
    unfolding s2(3) by (intro set_cb_core) (rule same_core_trans)
  have "bsim v (?y\<lparr>y_dev := set_cb_state c CB_EVICTING (y_dev ?y)\<rparr>)"
    by (rule bsim_set_cb_state [OF bsim_cleaned [OF sim st s2(1) refl]]) (simp_all add: c(2))
  then show ?thesis by (rule bsim_core_sys) (use core in simp_all)
qed

section \<open>Releasing\<close>

lemma release_map_inv:
  assumes inv: "map_inv s" and r: "release_chunk (int g) s = Inr s'"
    and g: "b_cb_index_map s g = -1" "b_chunk_map_cb_chunk s g \<noteq> -1" "\<forall>c i. is_server s c i \<longrightarrow> cmap s c i \<noteq> int g"
  shows "map_inv s'" "same_io s s'" "b_cb_list s' = b_cb_list s" "b_cb_state_list s' = b_cb_state_list s"
    "b_cb_index_map s' = b_cb_index_map s" "b_chunk_map_cb_chunk s' = (b_chunk_map_cb_chunk s)(g := -1)"
    "g < STACKBD_SIZE_G"
proof -
  obtain u where s': "g < STACKBD_SIZE_G" "s' = s\<lparr>b_chunk_map_cb_chunk := (b_chunk_map_cb_chunk s)(g := -1),
      b_free_chunk_index := b_free_chunk_index s + 1, b_unmapped_chunk_list := u\<rparr>"
    using r by (auto simp: release_chunk_def rbind_eq_Inr aset_Inr)
  then show "same_io s s'" "b_cb_list s' = b_cb_list s" "b_cb_state_list s' = b_cb_state_list s"
    "b_cb_index_map s' = b_cb_index_map s" "b_chunk_map_cb_chunk s' = (b_chunk_map_cb_chunk s)(g := -1)"
    "g < STACKBD_SIZE_G"
    by (simp_all add: same_io_def queue_def)
  have f: "is_server s' = is_server s" "failed s' = failed s" "unused s' = unused s" "chunk_at s' = chunk_at s"
    "b_cb_list s' = b_cb_list s" "b_cb_index_map s' = b_cb_index_map s"
    "b_chunk_map_cb_chunk s' = (b_chunk_map_cb_chunk s)(g := -1)"
    by (simp_all add: s'(2) is_server_def failed_def unused_def chunk_at_def fun_eq_iff)
  have m: "mapped_at s' h c i = mapped_at s h c i" for h c i
    using g(1) by (auto simp: mapped_at_def s'(2))
  have "map_owned s'"
    unfolding map_owned_def f
  proof (intro allI impI)
    fix c i assume a: "is_server s c i" "cmap s c i \<noteq> -1"
    then obtain h where h: "owned_at s c i h" using inv by (auto simp: map_inv_def elim: map_ownedE)
    then have "h \<noteq> g" using g(3) a(1) by (auto simp: owned_at_def)
    with h show "\<exists>g. owned_at s' c i g" by (intro exI [of _ h]) (simp add: owned_at_def f)
  qed
  moreover have "map_free s'"
    using inv card_released [OF s'(1), of "b_chunk_map_cb_chunk s"] g(2)
    by (simp add: map_inv_def map_free_def s'(2))
  moreover have "map_routed s'" "map_bitmaps s'" "map_unused s'" "map_unique s'" "map_keys s'"
    using inv unfolding map_inv_def map_routed_def map_bitmaps_def map_unused_def map_unique_def map_keys_def f m
    by blast+
  ultimately show "map_inv s'" by (simp add: map_inv_def)
qed

lemma bsim_release:
  assumes sim: "bsim v y" and st: "y_evict y c = EvCleaned ev" "ev g" and r: "release_chunk (int g) (y_dev y) = Inr s'"
  shows "bsim v (y\<lparr>y_dev := s', y_evict := (y_evict y)(c := EvCleaned (ev(g := False)))\<rparr>)"
proof (rule bsim_maps [OF sim])
  let ?s = "y_dev y"
  let ?y = "y\<lparr>y_dev := s', y_evict := (y_evict y)(c := EvCleaned (ev(g := False)))\<rparr>"
  note evi = bsimD(3) [OF sim, unfolded evict_inv_def Let_def]
  have sc: "stage_chunks (y_evict y c) g" using st by simp
  then have g: "b_cb_index_map ?s g = -1" "b_chunk_map_cb_chunk ?s g \<noteq> -1" "\<forall>c i. is_server ?s c i \<longrightarrow> cmap ?s c i \<noteq> int g"
    using evi by blast+
  note f = release_map_inv [OF bsimD(2) [OF sim] r g]
  note i = io_view [OF f(2)]
  have fl: "failed s' = failed ?s" "unused s' = unused ?s" "chunk_at s' = chunk_at ?s"
    by (simp_all add: f failed_def unused_def chunk_at_def fun_eq_iff)
  have m: "mapped_at s' h c i = mapped_at ?s h c i" for h c i
    using g(1) f(5,6) i(10) by (auto simp: mapped_at_def)
  have e: "evicting ?y = evicting y" using st by (auto simp: evicting_def f fun_eq_iff)
  show "same_io ?s (y_dev ?y)" using f(2) by simp
  show "map_inv (y_dev ?y)" using f(1) by simp
  show "evict_inv ?y"
    unfolding evict_inv_def Let_def e
  proof (intro conjI allI impI)
    fix c' h assume a: "stage_chunks (y_evict ?y c') h"
    then have h: "stage_chunks (y_evict y c') h" using st by (auto split: if_splits)
    have "h \<noteq> g"
    proof
      assume "h = g"
      then have "c' = c" using h sc evi by blast
      with a \<open>h = g\<close> show False by simp
    qed
    with h evi f i show "h < STACKBD_SIZE_G" "b_cb_index_map (y_dev ?y) h = -1" "b_chunk_map_cb_chunk (y_dev ?y) h \<noteq> -1"
      "\<And>c'' i'. is_server (y_dev ?y) c'' i' \<Longrightarrow> cmap (y_dev ?y) c'' i' \<noteq> int h" by auto
  next
    fix c1 c2 h assume "stage_chunks (y_evict ?y c1) h" "stage_chunks (y_evict ?y c2) h"
    then have "stage_chunks (y_evict y c1) h" "stage_chunks (y_evict y c2) h" using st by (auto split: if_splits)
    then show "c1 = c2" using evi by blast
  next
    fix c' assume "y_evict ?y c' \<noteq> EvIdle"
    then have "y_evict y c' \<noteq> EvIdle" using st by (auto split: if_splits)
    then show "c' < b_cb_num (y_dev ?y)" "\<not> failed (y_dev ?y) c'" using evi fl i by auto
  qed (use evi fl f i in auto)
  show "chunk_here ?y c' i' h" if "chunk_here y c' i' h" for c' i' h
  proof -
    have "\<not> evicting y c i'" using st by (simp add: evicting_def)
    then show ?thesis using that by (auto simp: chunk_here_def e fl f split: if_splits)
  qed
  show "mapped_at ?s h c' i' \<and> (\<exists>bm0. rc_bitmap (chunk_at ?s c' i') = Some bm0 \<and> bm_bit bm0 (int q)) \<and>
      rc_rkey (chunk_at (y_dev ?y) c' i') = rc_rkey (chunk_at ?s c' i') \<and>
      rc_addr (chunk_at (y_dev ?y) c' i') = rc_addr (chunk_at ?s c' i')"
    if "mapped_at (y_dev ?y) h c' i'" "rc_bitmap (chunk_at (y_dev ?y) c' i') = Some bm" "bm_bit bm (int q)" for h c' i' bm q
    using that fl m by auto
  show "unused (y_dev ?y) c' \<Longrightarrow> unused ?s c'" "failed ?s c' \<Longrightarrow> failed (y_dev ?y) c'"
    "rc_rkey (chunk_at (y_dev ?y) c' i') = rc_rkey (chunk_at ?s c' i') \<and>
     rc_addr (chunk_at (y_dev ?y) c' i') = rc_addr (chunk_at ?s c' i')" for c' i'
    using fl by simp_all
qed simp_all

lemma bsim_evict_end:
  assumes sim: "bsim v y" and st: "y_evict y c = EvCleaned ev"
  shows "bsim v (y\<lparr>y_dev := evict_end c (y_dev y), y_evict := (y_evict y)(c := EvIdle)\<rparr>)"
proof -
  note evi = bsimD(3) [OF sim, unfolded evict_inv_def Let_def]
  let ?y = "y\<lparr>y_evict := (y_evict y)(c := EvIdle)\<rparr>"
  have nf: "\<not> failed (y_dev y) c" using evi st by (metis evict_stage.distinct(3))
  have e: "evicting ?y = evicting y" using st by (auto simp: evicting_def fun_eq_iff)
  have "bsim v ?y"
  proof (rule bsim_maps [OF sim])
    show "same_io (y_dev y) (y_dev ?y)" by (simp add: same_io_def)
    show "map_inv (y_dev ?y)" using bsimD(2) [OF sim] by simp
    have sc: "stage_chunks (y_evict y c') g" if "stage_chunks (y_evict ?y c') g" for c' g
      using that by (auto split: if_splits)
    have si: "y_evict y c' \<noteq> EvIdle" if "y_evict ?y c' \<noteq> EvIdle" for c' using that by (auto split: if_splits)
    have d: "y_dev ?y = y_dev y" "y_lost ?y = y_lost y" by simp_all
    show "evict_inv ?y" unfolding evict_inv_def Let_def e d
      by (intro conjI allI impI; (drule si)?; (drule sc)?; (drule sc)?; use evi in blast)
    have nc: "\<not> evicting y c i" for i using st by (simp add: evicting_def)
    show "chunk_here ?y c' i g" if "chunk_here y c' i g" for c' i g
      using that nc by (auto simp: chunk_here_def e split: if_splits)
  qed auto
  then have "bsim v (?y\<lparr>y_dev := set_cb_state c CB_MAPPED (y_dev ?y)\<rparr>)"
    by (rule bsim_set_cb_state) (simp_all add: nf)
  then show ?thesis
    by (rule bsim_core_sys) (simp_all add: evict_end_def same_core_def queue_def failed_def)
qed

end
