(* ===== verification/Block_Servers.thy ===== *)
theory Block_Servers
  imports Block_Evict
begin

text \<open>Steps on the servers: one is lost, one is initialised, one gets its contexts.\<close>

section \<open>Loss of a server\<close>

lemma unrouted_wiped: "unrouted c S (wiped c T s) = wiped c T (unrouted c S s)"
  by (simp add: unrouted_def wiped_def upd_cb_def fun_eq_iff cong: if_cong)

lemma unrouted_unrouted: "unrouted c S (unrouted c T s) = unrouted c (S \<union> T) s"
proof -
  have "(\<lambda>g. if \<exists>i \<in> S. cmap s c i = int g then -1 else if \<exists>i \<in> T. cmap s c i = int g then -1 else b_cb_index_map s g) =
    (\<lambda>g. if \<exists>i \<in> S \<union> T. cmap s c i = int g then -1 else b_cb_index_map s g)"
    by (auto simp: fun_eq_iff)
  then show ?thesis by (simp add: unrouted_def cong: if_cong)
qed

lemma same_core_unrouted:
  assumes "same_core s t"
  shows "same_core (unrouted c S s) (unrouted c S t)"
  using assms by (simp add: same_core_def unrouted_def queue_def cong: if_cong)

lemma disconnect_unmap_one:
  assumes "disconnect_unmap c i (ev, s) = Inr (ev1, s1)" "cmap s c i \<noteq> -1"
    and "rc_bitmap (chunk_at s c i) = Some bm" "full_bitmap bm"
  shows "s1 = wiped c {i} (unrouted c {i} s)"
proof -
  let ?t = "put_bitmap c i zero_bitmap s"
  obtain m where m: "in_bounds STACKBD_SIZE_G (cmap s c i)"
    "s1 = (upd_cb c (\<lambda>k. k\<lparr>k_remote_mapped := (k_remote_mapped k)(i := False)\<rparr>) ?t)
      \<lparr>b_cb_index_map := (b_cb_index_map s)(nat (cmap s c i) := -1)\<rparr>"
    using assms by (auto simp: disconnect_unmap_def Let_def rbind_eq_Inr aset_Inr on_bitmap_init put_bitmap_def)
  have "(b_cb_index_map s)(nat (cmap s c i) := -1) = (\<lambda>g. if cmap s c i = int g then -1 else b_cb_index_map s g)"
    using m(1) by (auto simp: in_bounds_def fun_eq_iff)
  then show ?thesis
    unfolding m(2) put_bitmap_wiped by (simp add: unrouted_def wiped_def upd_cb_def cong: if_cong)
qed

lemma disconnect_unmap_loop:
  assumes "rfold (disconnect_unmap c) xs (ev, s) = Inr (ev', s')" "distinct xs"
    "\<forall>i \<in> set xs. cmap s c i \<noteq> -1 \<longrightarrow> (\<exists>bm. rc_bitmap (chunk_at s c i) = Some bm \<and> full_bitmap bm)"
  shows "s' = wiped c {i \<in> set xs. cmap s c i \<noteq> -1} (unrouted c {i \<in> set xs. cmap s c i \<noteq> -1} s)"
  using assms
proof (induction xs arbitrary: ev s)
  case Nil
  then show ?case by (simp add: wiped_empty unrouted_def)
next
  case (Cons i xs)
  obtain ev1 s1 where 1: "disconnect_unmap c i (ev, s) = Inr (ev1, s1)" "rfold (disconnect_unmap c) xs (ev1, s1) = Inr (ev', s')"
    using Cons.prems(1) by (auto simp: rbind_eq_Inr)
  show ?case
  proof (cases "cmap s c i = -1")
    case True
    then have "s1 = s" using 1(1) by (simp add: disconnect_unmap_def)
    moreover have "{j \<in> set (i # xs). cmap s c j \<noteq> -1} = {j \<in> set xs. cmap s c j \<noteq> -1}" using True by auto
    ultimately show ?thesis using Cons.IH [OF 1(2)] Cons.prems(2,3) by simp
  next
    case False
    let ?S = "{j \<in> set xs. cmap s c j \<noteq> -1}"
    have s1: "s1 = wiped c {i} (unrouted c {i} s)"
      using disconnect_unmap_one [OF 1(1) False] Cons.prems(3) False by auto
    have "s' = wiped c ?S (unrouted c ?S s1)"
      using Cons.IH [OF 1(2)] Cons.prems(2,3) by (auto simp: s1)
    also have "\<dots> = wiped c (insert i ?S) (unrouted c (insert i ?S) s)"
      by (simp add: s1 unrouted_wiped unrouted_unrouted wiped_wiped)
    also have "insert i ?S = {j \<in> set (i # xs). cmap s c j \<noteq> -1}" using False by auto
    finally show ?thesis .
  qed
qed

lemma lost_map_inv:
  assumes inv: "map_inv s" and c: "c < b_cb_num s" "\<not> failed s c"
    and S: "S = {i \<in> {0 ..< MAX_MR_SIZE_GB}. cmap s c i \<noteq> -1}"
  shows "map_inv (wiped c S (unrouted c S (set_cb_state c CB_FAIL s)))"
proof -
  let ?s = "wiped c S (unrouted c S (set_cb_state c CB_FAIL s))"
  have srv: "is_server s c i" if "i \<in> S" for i using that S c(1) by (auto simp: is_server_def)
  have "map_routed ?s"
    unfolding map_routed_def
  proof (intro allI impI)
    fix g assume g: "g < STACKBD_SIZE_G" "b_cb_index_map ?s g \<noteq> -1"
    then obtain c' i' where m: "mapped_at s g c' i'" "cmap s c' i' = int g" "\<not> (\<exists>i \<in> S. cmap s c i = int g)"
      using inv by (auto simp: map_inv_def map_routed_def split: if_splits)
    then show "\<exists>c i. mapped_at ?s g c i \<and> cmap ?s c i = int g"
      by (intro exI [of _ c'] exI [of _ i']) (auto simp: mapped_unrouted)
  qed
  moreover have "map_owned ?s"
    unfolding map_owned_def
  proof (intro allI impI)
    fix c' i' assume a: "is_server ?s c' i'" "cmap ?s c' i' \<noteq> -1"
    then obtain g where g: "owned_at s c' i' g" using inv by (auto simp: map_inv_def elim: map_ownedE)
    show "\<exists>g. owned_at ?s c' i' g"
    proof (cases "c' = c")
      case True
      then have "i' \<in> S" using a by (simp add: S is_server_def)
      with g True show ?thesis by (intro exI [of _ g]) (auto simp: owned_at_def)
    next
      case False
      have "\<not> (\<exists>i \<in> S. cmap s c i = int g)"
        using False g map_uniqueD [OF inv srv] a(1) by (fastforce simp: owned_at_def)
      with g False show ?thesis by (intro exI [of _ g]) (auto simp: owned_at_def split: if_splits)
    qed
  qed
  moreover have "map_unused ?s"
    using inv unfolding map_inv_def map_unused_def by (auto split: if_splits)
  ultimately show ?thesis
    using inv unfolding map_inv_def map_bitmaps_def map_unique_def map_keys_def map_free_def by auto
qed

lemma bsim_lost:
  assumes sim: "bsim v y" and c: "c < b_cb_num (y_dev y)" "\<not> failed (y_dev y) c" "y_evict y c = EvIdle"
    and S: "S = {i \<in> {0 ..< MAX_MR_SIZE_GB}. cmap (y_dev y) c i \<noteq> -1}"
  shows "bsim v (y\<lparr>y_dev := wiped c S (unrouted c S (set_cb_state c CB_FAIL (y_dev y))), y_lost := (y_lost y)(c := b)\<rparr>)"
proof (rule bsim_maps [OF sim])
  let ?s = "y_dev y"
  let ?y = "y\<lparr>y_dev := wiped c S (unrouted c S (set_cb_state c CB_FAIL ?s)), y_lost := (y_lost y)(c := b)\<rparr>"
  note evi = bsimD(3) [OF sim, unfolded evict_inv_def Let_def]
  have e: "evicting ?y = evicting y" by (simp add: evicting_def fun_eq_iff)
  have ne: "\<not> evicting y c i" for i using c(3) by (simp add: evicting_def)
  show "same_io ?s (y_dev ?y)" by (simp add: same_io_def)
  show "map_inv (y_dev ?y)" using lost_map_inv [OF bsimD(2) [OF sim] c(1,2) S] by simp
  show "evict_inv ?y"
    unfolding evict_inv_def Let_def e
  proof (intro conjI allI impI)
    fix c' i assume a: "is_server (y_dev ?y) c' i" "evicting y c' i"
    then have "c' \<noteq> c" using ne by metis
    then show "cmap (y_dev ?y) c' i = -1" "rmap (y_dev ?y) c' i" using a evi by auto
  next
    fix c' assume a: "y_evict ?y c' \<noteq> EvIdle"
    then have "c' \<noteq> c" using c(3) by auto
    then show "c' < b_cb_num (y_dev ?y)" "\<not> failed (y_dev ?y) c'" using a evi by auto
  next
    fix c' g assume "stage_chunks (y_evict ?y c') g"
    then have "stage_chunks (y_evict y c') g" by simp
    then show "g < STACKBD_SIZE_G" "b_cb_index_map (y_dev ?y) g = -1" "b_chunk_map_cb_chunk (y_dev ?y) g \<noteq> -1"
      "\<And>c'' i'. is_server (y_dev ?y) c'' i' \<Longrightarrow> cmap (y_dev ?y) c'' i' \<noteq> int g"
      using evi by auto
  qed (use evi c in \<open>auto split: if_splits\<close>)
  show "chunk_here ?y c' i g" if "chunk_here y c' i g" for c' i g
    using that c(2) ne e by (cases "c' = c") (auto simp: chunk_here_def split: if_splits)
  show "mapped_at ?s g c' i \<and> (\<exists>bm0. rc_bitmap (chunk_at ?s c' i) = Some bm0 \<and> bm_bit bm0 (int q)) \<and>
      rc_rkey (chunk_at (y_dev ?y) c' i) = rc_rkey (chunk_at ?s c' i) \<and>
      rc_addr (chunk_at (y_dev ?y) c' i) = rc_addr (chunk_at ?s c' i)"
    if "mapped_at (y_dev ?y) g c' i" "rc_bitmap (chunk_at (y_dev ?y) c' i) = Some bm" "q < 2 ^ 18"
      "bm_bit bm (int q)" for g c' i bm q
    using that zero_bitmap_bit [of q] by (auto simp: zero_bitmap_def mapped_unrouted split: if_splits)
qed (auto split: if_splits)

lemma unrouted_empty: "unrouted c {} s = s"
  by (simp add: unrouted_def)

lemma bsim_disconnect_begin:
  assumes sim: "bsim v y" and c: "c < b_cb_num (y_dev y)" "y_evict y c = EvIdle"
    and st: "b_cb_state_list (y_dev y) c = CB_CONNECTED \<or> b_cb_state_list (y_dev y) c = CB_MAPPED"
    and d: "disconnect_begin c (y_dev y) = Inr (r, s')"
  shows "bsim v (y\<lparr>y_dev := s', y_lost := (y_lost y)(c := (r \<noteq> None))\<rparr>)"
proof -
  let ?s = "y_dev y" and ?S = "{i \<in> {0 ..< MAX_MR_SIZE_GB}. cmap (y_dev y) c i \<noteq> -1}"
  let ?t = "wiped c ?S (unrouted c ?S (set_cb_state c CB_FAIL ?s))"
  have nf: "\<not> failed ?s c" using st by (auto simp: failed_def)
  have core: "same_core ?t s'"
  proof (cases "b_cb_state_list ?s c = CB_CONNECTED")
    case True
    then have "?S = {}" using bsimD(2) [OF sim] c(1) by (auto simp: map_inv_def map_unused_def unused_def is_server_def)
    then have "?t = set_cb_state c CB_FAIL ?s" by (simp only: wiped_empty unrouted_empty)
    moreover have "s' = set_cb_state c CB_FAIL ?s" using d True by (simp add: disconnect_begin_def)
    ultimately show ?thesis by simp
  next
    case False
    let ?off = "(set_cb_state c CB_FAIL ?s)\<lparr>b_trigger_enable := False, b_rdma_on := False\<rparr>"
    obtain ev s1 where 1: "rfold (disconnect_unmap c) [0 ..< MAX_MR_SIZE_GB] (\<lambda>_. False, ?off) = Inr (ev, s1)"
      "s' = upd_cb c (\<lambda>k. k\<lparr>k_chunk_size_g := 0\<rparr>) s1"
      using d False by (auto simp: disconnect_begin_def rbind_eq_Inr)
    have bm: "\<exists>bm. rc_bitmap (chunk_at ?s c i) = Some bm \<and> full_bitmap bm" if i: "i \<in> ?S" for i
    proof -
      have "is_server ?s c i" using i c(1) by (simp add: is_server_def)
      moreover from this i obtain g where "owned_at ?s c i g"
        using map_ownedE [of ?s c i] bsimD(2) [OF sim] by (auto simp: map_inv_def)
      then have "rmap ?s c i" using nf by (simp add: owned_at_def)
      ultimately show ?thesis using bsimD(2) [OF sim] by (auto simp: map_inv_def map_bitmaps_def)
    qed
    have ch: "chunk_at ?off = chunk_at ?s" by (simp add: chunk_at_def fun_eq_iff)
    have "s1 = wiped c {i \<in> set [0 ..< MAX_MR_SIZE_GB]. cmap ?off c i \<noteq> -1}
        (unrouted c {i \<in> set [0 ..< MAX_MR_SIZE_GB]. cmap ?off c i \<noteq> -1} ?off)"
      by (rule disconnect_unmap_loop [OF 1(1)]) (use bm ch in auto)
    moreover have "same_core (set_cb_state c CB_FAIL ?s) ?off" by (simp add: same_core_def set_cb_state_def queue_def)
    then have "same_core ?t (wiped c ?S (unrouted c ?S ?off))" by (intro same_core_wiped same_core_unrouted)
    ultimately have "same_core ?t s1" by simp
    then show ?thesis unfolding 1(2) by (rule same_core_trans) (rule upd_cb_core, simp)
  qed
  from bsim_lost [OF sim c(1) nf c(2) refl, of "r \<noteq> None"] show ?thesis
    by (rule bsim_core_sys) (use core in simp_all)
qed

section \<open>A server that is not used yet\<close>

lemma mapped_not_unused:
  assumes "map_inv s" "mapped_at s g c i"
  shows "cmap s c i = int g" "is_server s c i" "\<not> unused s c" "\<not> failed s c"
proof -
  have m: "g < STACKBD_SIZE_G" "b_cb_index_map s g = int c" "is_server s c i"
    using assms(2) by (auto simp: mapped_at_def is_server_def)
  then obtain c' i' where "mapped_at s g c' i'" "cmap s c' i' = int g"
    using assms(1) unfolding map_inv_def map_routed_def by (metis int_ops(1) neg_equal_0_iff_equal not_one_le_zero of_nat_0_le_iff zero_le_imp_eq_int neg_0_le_iff_le)
  then have "c' = c" "i' = i" using assms(2) by (auto simp: mapped_at_def)
  with \<open>cmap s c' i' = int g\<close> show 1: "cmap s c i = int g" by simp
  show "is_server s c i" using m by simp
  show "\<not> unused s c" using 1 m(3) assms(1) by (force simp: map_inv_def map_unused_def)
  have "cmap s c i \<noteq> -1" using 1 by simp
  then obtain h where "owned_at s c i h" using m(3) assms(1) by (auto simp: map_inv_def elim: map_ownedE)
  with 1 m(2) show "\<not> failed s c" by (auto simp: owned_at_def)
qed

lemma bsim_kernel_cb_init:
  assumes sim: "bsim v y" and c: "unused (y_dev y) c" "c < b_cb_num (y_dev y)" "y_evict y c = EvIdle"
  shows "bsim v (y\<lparr>y_dev := kernel_cb_init c (y_dev y)\<rparr>)"
proof (rule bsim_maps [OF sim])
  let ?s = "y_dev y" and ?y = "y\<lparr>y_dev := kernel_cb_init c (y_dev y)\<rparr>"
  note inv = bsimD(2) [OF sim] and evi = bsimD(3) [OF sim, unfolded evict_inv_def Let_def]
  have off: "cmap ?s c i = -1" "\<not> rmap ?s c i" if "i < MAX_MR_SIZE_GB" for i
    using inv c that by (auto simp: map_inv_def map_unused_def is_server_def)
  have f: "b_cb_index_map (y_dev ?y) = b_cb_index_map ?s" "b_chunk_map_cb_chunk (y_dev ?y) = b_chunk_map_cb_chunk ?s"
    "b_free_chunk_index (y_dev ?y) = b_free_chunk_index ?s" "is_server (y_dev ?y) = is_server ?s"
    "failed (y_dev ?y) = failed ?s" "unused (y_dev ?y) = unused ?s" "mapped_at (y_dev ?y) = mapped_at ?s"
    "b_cb_num (y_dev ?y) = b_cb_num ?s"
    by (simp_all add: kernel_cb_init_def)
  have m: "cmap (y_dev ?y) c' i = cmap ?s c' i" "rmap (y_dev ?y) c' i = rmap ?s c' i" if "is_server ?s c' i" for c' i
    using that off by (auto simp: kernel_cb_init_def is_server_def)
  have ch: "chunk_at (y_dev ?y) c' i = chunk_at ?s c' i" if "c' \<noteq> c" for c' i
    using that by (simp add: kernel_cb_init_def)
  have e: "evicting ?y = evicting y" using c(3) by (auto simp: evicting_def fun_eq_iff kernel_cb_init_def)
  show "same_io ?s (y_dev ?y)" by (simp add: same_io_def kernel_cb_init_def)
  show "map_inv (y_dev ?y)"
  proof -
    have "map_routed (y_dev ?y)"
      using inv m mapped_not_unused(2) [OF inv] unfolding map_inv_def map_routed_def f by metis
    moreover have "map_owned (y_dev ?y)"
      using inv m unfolding map_inv_def map_owned_def owned_at_def f by metis
    moreover have "map_bitmaps (y_dev ?y)" "map_keys (y_dev ?y)"
      using inv m ch off unfolding map_inv_def map_bitmaps_def map_keys_def f by (metis is_server_def)+
    moreover have "map_unused (y_dev ?y)" "map_unique (y_dev ?y)"
      using inv m unfolding map_inv_def map_unused_def map_unique_def f by metis+
    moreover have "map_free (y_dev ?y)" using inv unfolding map_inv_def map_free_def f by simp
    ultimately show ?thesis by (simp add: map_inv_def)
  qed
  show "evict_inv ?y"
    using evi m unfolding evict_inv_def Let_def e f by simp
  show "chunk_here ?y c' i g" if "is_server ?s c' i" "chunk_here y c' i g" for c' i g
    using that m [OF that(1)] unfolding chunk_here_def e f by simp
  show "rc_rkey (chunk_at (y_dev ?y) c' i) = rc_rkey (chunk_at ?s c' i) \<and>
      rc_addr (chunk_at (y_dev ?y) c' i) = rc_addr (chunk_at ?s c' i)"
    if "is_server ?s c' i" "rmap ?s c' i" for c' i
    using that off ch [of c' i] by (cases "c' = c") (auto simp: is_server_def)
  show "mapped_at ?s g c' i \<and> (\<exists>bm0. rc_bitmap (chunk_at ?s c' i) = Some bm0 \<and> bm_bit bm0 (int q)) \<and>
      rc_rkey (chunk_at (y_dev ?y) c' i) = rc_rkey (chunk_at ?s c' i) \<and>
      rc_addr (chunk_at (y_dev ?y) c' i) = rc_addr (chunk_at ?s c' i)"
    if a: "mapped_at (y_dev ?y) g c' i" "rc_bitmap (chunk_at (y_dev ?y) c' i) = Some bm" "bm_bit bm (int q)" for g c' i bm q
  proof -
    have mp: "mapped_at ?s g c' i" using a(1) f by simp
    then have "c' \<noteq> c" using mapped_not_unused(3) [OF inv] c(1) by blast
    with mp a ch show ?thesis by auto
  qed
  show "unused (y_dev ?y) c' \<Longrightarrow> unused ?s c'" "failed ?s c' \<Longrightarrow> failed (y_dev ?y) c'" for c' using f by simp_all
qed simp_all

lemma bsim_connected:
  assumes sim: "bsim v y" and c: "b_cb_state_list (y_dev y) c = CB_IDLE"
  shows "bsim v (y\<lparr>y_dev := set_cb_state c CB_CONNECTED (y_dev y)\<rparr>)"
proof (rule bsim_maps [OF sim])
  let ?s = "y_dev y" and ?y = "y\<lparr>y_dev := set_cb_state c CB_CONNECTED (y_dev y)\<rparr>"
  have f: "failed (y_dev ?y) = failed ?s" "unused (y_dev ?y) = unused ?s"
    using c by (auto simp: fun_eq_iff failed_def unused_def set_cb_state_def)
  have e: "evicting ?y = evicting y" by (simp add: evicting_def fun_eq_iff)
  show "same_io ?s (y_dev ?y)" by (simp add: same_io_def)
  show "map_inv (y_dev ?y)" using bsimD(2) [OF sim] f by (simp add: map_inv_defs)
  show "evict_inv ?y" using bsimD(3) [OF sim] f by (simp add: evict_inv_def Let_def e)
  show "chunk_here ?y c' i g" if "chunk_here y c' i g" for c' i g using that f by (simp add: chunk_here_def e)
  show "unused (y_dev ?y) c' \<Longrightarrow> unused ?s c'" "failed ?s c' \<Longrightarrow> failed (y_dev ?y) c'" for c'
    by (metis f(2), metis f(1))
qed auto

end
