(* ===== verification/Block_Moves.thy ===== *)
theory Block_Moves
  imports Block_Servers
begin

text \<open>
  The moves of which the steps of a transfer are made, each of which keeps the relation: contexts
  and work requests come and go, a request is submitted, a bio is done, a request ends.
\<close>

section \<open>Contexts and work requests\<close>

text \<open>The part of the device that a change of contexts and work requests leaves alone.\<close>

definition same_maps :: "bdev \<Rightarrow> bdev \<Rightarrow> bool" where
  "same_maps s s' \<longleftrightarrow> same_core s (s'\<lparr>b_pools := b_pools s, b_bufs := b_bufs s, b_wrs := b_wrs s\<rparr>)"

lemma same_maps_iff:
  "same_maps s s' \<longleftrightarrow>
     b_sgl s' = b_sgl s \<and> b_queues s' = b_queues s \<and> b_cb_num s' = b_cb_num s \<and>
     b_cb_state_list s' = b_cb_state_list s \<and> b_cb_index_map s' = b_cb_index_map s \<and>
     b_chunk_map_cb_chunk s' = b_chunk_map_cb_chunk s \<and> b_free_chunk_index s' = b_free_chunk_index s \<and>
     queue s' = queue s \<and>
     (\<forall>c. k_chunk_list (b_cb_list s' c) = k_chunk_list (b_cb_list s c) \<and>
        k_chunk_map (b_cb_list s' c) = k_chunk_map (b_cb_list s c) \<and>
        k_remote_mapped (b_cb_list s' c) = k_remote_mapped (b_cb_list s c) \<and>
        k_evict_chunk_map (b_cb_list s' c) = k_evict_chunk_map (b_cb_list s c))"
  by (simp add: same_maps_def same_core_def queue_def)

lemma maps_view:
  assumes "same_maps s s'"
  shows "chunk_at s' = chunk_at s" "mapped_at s' = mapped_at s" "is_server s' = is_server s"
    "failed s' = failed s" "unused s' = unused s" "queue s' = queue s" "page_request s' = page_request s"
    "remote_bit s' = remote_bit s" "chunk_addr s' = chunk_addr s" "b_cb_num s' = b_cb_num s"
    "request_wr w x c i r s' = request_wr w x c i r s" "map_inv s' = map_inv s" "b_queues s' = b_queues s"
proof -
  note c = core_view [OF assms [unfolded same_maps_def]]
  have "queue s' = queue s" "b_cb_num s' = b_cb_num s" "b_queues s' = b_queues s"
    using assms by (simp_all add: same_maps_iff)
  moreover have "chunk_at s' = chunk_at (s'\<lparr>b_pools := p, b_bufs := b, b_wrs := w\<rparr>)"
    "mapped_at s' = mapped_at (s'\<lparr>b_pools := p, b_bufs := b, b_wrs := w\<rparr>)"
    "is_server s' = is_server (s'\<lparr>b_pools := p, b_bufs := b, b_wrs := w\<rparr>)"
    "failed s' = failed (s'\<lparr>b_pools := p, b_bufs := b, b_wrs := w\<rparr>)"
    "unused s' = unused (s'\<lparr>b_pools := p, b_bufs := b, b_wrs := w\<rparr>)"
    "page_request s' = page_request (s'\<lparr>b_pools := p, b_bufs := b, b_wrs := w\<rparr>)" for p b w
    by (simp_all add: fun_eq_iff chunk_at_def mapped_at_def is_server_def failed_def unused_def page_request_def)
  note * = this
  show "queue s' = queue s" "b_cb_num s' = b_cb_num s" "b_queues s' = b_queues s" by fact+
  show 1: "chunk_at s' = chunk_at s" "mapped_at s' = mapped_at s" "is_server s' = is_server s"
    "failed s' = failed s" "unused s' = unused s" "page_request s' = page_request s"
    using c * by metis+
  show "remote_bit s' = remote_bit s" "chunk_addr s' = chunk_addr s"
    "request_wr w x c i r s' = request_wr w x c i r s"
    using 1 by (simp_all add: fun_eq_iff remote_bit_def chunk_addr_def request_wr_def)
  show "map_inv s' = map_inv s" using assms 1 by (simp add: map_inv_defs same_maps_iff)
qed

lemma queue_ctxs_Cons [simp]: "queue_ctxs (b # q) = end_ctx (sb_end b) @ queue_ctxs q"
  and queue_ctxs_Nil [simp]: "queue_ctxs [] = []"
  and queue_ctxs_append [simp]: "queue_ctxs (q @ q') = queue_ctxs q @ queue_ctxs q'"
  by (simp_all add: queue_ctxs_def)

lemma queue_reqs_Cons [simp]: "queue_reqs (b # q) = end_req (sb_end b) @ queue_reqs q"
  and queue_reqs_Nil [simp]: "queue_reqs [] = []"
  and queue_reqs_append [simp]: "queue_reqs (q @ q') = queue_reqs q @ queue_reqs q'"
  by (simp_all add: queue_reqs_def)

lemma end_ctx_queue: "b \<in> set q \<Longrightarrow> sb_end b = EndCtx x \<Longrightarrow> x \<in> set (queue_ctxs q)"
  by (induction q) auto

lemma bio_okD:
  assumes "bio_ok m b"
  shows "sb_src b = CtxBuf x \<Longrightarrow> sb_end b = EndCtx x" "sb_end b = EndCtx x \<Longrightarrow> sb_write b"
    "sb_end b = EndReq r \<Longrightarrow> \<exists>req. m r = Some req \<and> rq_write req = sb_write b"
    "\<not> sb_write b \<Longrightarrow> \<exists>r req. sb_end b = EndReq r \<and> m r = Some req \<and> bio_page b = rq_page req"
  using assms unfolding bio_ok_def by blast+

text \<open>The disk depends only on the buffers of the contexts that its bios return.\<close>

lemma apply_bios_cong:
  assumes "\<forall>b \<in> set q. bio_ok m b" "\<forall>x \<in> set (queue_ctxs q). bufs' x = bufs x"
  shows "fold (apply_bio bufs') q d = fold (apply_bio bufs) q d"
  using assms
proof (induction q arbitrary: d)
  case (Cons b q)
  have "bufs' x = bufs x" if "sb_src b = CtxBuf x" for x
    using Cons.prems bio_okD(1) [of m b x] that by simp
  then have "bio_data bufs' b p = bio_data bufs b p" for p
    by (auto simp: bio_data_def split: bio_src.splits)
  then have "apply_bio bufs' b d = apply_bio bufs b d" by (simp add: apply_bio_def cong: if_cong)
  with Cons show ?case by simp
qed simp

lemma wr_okE:
  assumes "wr_ok v y c w"
  obtains n j k r i where "wr_ctx w = (n, c, j)" "ctx_of (y_dev y) (wr_ctx w) = Some k"
    "cx_in_flight k = (if wr_write w then CTX_W_IN_FLIGHT else CTX_R_IN_FLIGHT)" "cx_req k = Some r"
    "cx_chunk_index k = int i" "w = request_wr (wr_write w) (wr_ctx w) c i r (y_dev y)"
    "\<not> wr_write w \<Longrightarrow> y_rmem y c (wr_rkey w) (wr_addr w) = v_store v (rq_page r)"
  using assms unfolding wr_ok_def by metis

lemma wr_okI:
  assumes "wr_ctx w = (n, c, j)" "ctx_of (y_dev y) (wr_ctx w) = Some k"
    "cx_in_flight k = (if wr_write w then CTX_W_IN_FLIGHT else CTX_R_IN_FLIGHT)" "cx_req k = Some r"
    "cx_chunk_index k = int i" "w = request_wr (wr_write w) (wr_ctx w) c i r (y_dev y)"
    "\<not> wr_write w \<Longrightarrow> y_rmem y c (wr_rkey w) (wr_addr w) = v_store v (rq_page r)"
  shows "wr_ok v y c w"
  unfolding wr_ok_def using assms by metis

lemma wr_ok_transfer:
  assumes ok: "wr_ok v y c w" and ctx: "ctx_of (y_dev y') (wr_ctx w) = ctx_of (y_dev y) (wr_ctx w)"
    and keys: "\<And>k i. ctx_of (y_dev y) (wr_ctx w) = Some k \<Longrightarrow> cx_in_flight k \<noteq> CTX_IDLE \<Longrightarrow>
      cx_chunk_index k = int i \<Longrightarrow> rc_rkey (chunk_at (y_dev y') c i) = rc_rkey (chunk_at (y_dev y) c i) \<and>
      rc_addr (chunk_at (y_dev y') c i) = rc_addr (chunk_at (y_dev y) c i)"
    and mem: "\<And>k r i. \<not> wr_write w \<Longrightarrow> ctx_of (y_dev y) (wr_ctx w) = Some k \<Longrightarrow>
      cx_in_flight k = CTX_R_IN_FLIGHT \<Longrightarrow> cx_req k = Some r \<Longrightarrow> cx_chunk_index k = int i \<Longrightarrow>
      wr_rkey w = rc_rkey (chunk_at (y_dev y) c i) \<Longrightarrow>
      wr_addr w = rc_addr (chunk_at (y_dev y) c i) + and (rq_start r) ONE_GB_MASK \<Longrightarrow>
      y_rmem y c (wr_rkey w) (wr_addr w) = v_store v (rq_page r) \<Longrightarrow>
      y_rmem y' c (wr_rkey w) (wr_addr w) = v_store v' (rq_page r)"
  shows "wr_ok v' y' c w"
proof (rule wr_okE [OF ok])
  fix n j k r i
  assume a: "wr_ctx w = (n, c, j)" "ctx_of (y_dev y) (wr_ctx w) = Some k"
    "cx_in_flight k = (if wr_write w then CTX_W_IN_FLIGHT else CTX_R_IN_FLIGHT)" "cx_req k = Some r"
    "cx_chunk_index k = int i" "w = request_wr (wr_write w) (wr_ctx w) c i r (y_dev y)"
    "\<not> wr_write w \<Longrightarrow> y_rmem y c (wr_rkey w) (wr_addr w) = v_store v (rq_page r)"
  have "cx_in_flight k \<noteq> CTX_IDLE" using a(3) by (simp split: if_splits)
  from keys [OF a(2) this a(5)]
  have "request_wr (wr_write w) (wr_ctx w) c i r (y_dev y') = request_wr (wr_write w) (wr_ctx w) c i r (y_dev y)"
    by (simp add: request_wr_def)
  with a(6) have w: "w = request_wr (wr_write w) (wr_ctx w) c i r (y_dev y')" by metis
  have "wr_rkey w = rc_rkey (chunk_at (y_dev y) c i)"
    "wr_addr w = rc_addr (chunk_at (y_dev y) c i) + and (rq_start r) ONE_GB_MASK"
    by (subst a(6), simp add: request_wr_def)+
  then have m: "y_rmem y' c (wr_rkey w) (wr_addr w) = v_store v' (rq_page r)" if n: "\<not> wr_write w"
    using mem [OF n a(2) _ a(4,5)] a(3) a(7) [OF n] n by simp
  show "wr_ok v' y' c w"
    by (rule wr_okI [OF a(1) _ a(3-5) w m]) (use ctx a(2) in simp_all)
qed

lemma flight_invI:
  assumes "\<And>x k. in_flight (y_dev y) x k \<Longrightarrow> flight_ok y x k"
    and "\<And>x k x' k'. in_flight (y_dev y) x k \<Longrightarrow> in_flight (y_dev y) x' k' \<Longrightarrow> compatible x k x' k'"
  shows "flight_inv y"
  unfolding flight_inv_def using assms by blast

lemma bsim_moves:
  assumes sim: "bsim v y" and maps: "same_maps (y_dev y) s'"
    and ctx: "ctx_inv s'"
    and flight: "\<And>x k. in_flight s' x k \<Longrightarrow> in_flight (y_dev y) x k \<and> b_bufs s' x = b_bufs (y_dev y) x"
    and bufs: "\<And>x. x \<in> set (queue_ctxs (queue (y_dev y))) \<Longrightarrow> b_bufs s' x = b_bufs (y_dev y) x"
    and wrs: "\<And>c. c < b_cb_num (y_dev y) \<Longrightarrow> \<not> failed (y_dev y) c \<Longrightarrow>
      distinct (map wr_ctx (b_wrs s' c)) \<and> (\<forall>w \<in> set (b_wrs s' c). w \<in> set (b_wrs (y_dev y) c) \<and>
        ctx_of s' (wr_ctx w) = ctx_of (y_dev y) (wr_ctx w))"
  shows "bsim v (y\<lparr>y_dev := s'\<rparr>)"
proof -
  let ?y = "y\<lparr>y_dev := s'\<rparr>"
  note m = maps_view [OF maps] and d = maps [unfolded same_maps_iff] and s = sim [unfolded bsim_def]
  have ev: "evicting ?y = evicting y" using d by (simp add: evicting_def fun_eq_iff)
  have h: "chunk_here ?y = chunk_here y" using m d ev by (simp add: chunk_here_def fun_eq_iff)
  have f: "flight_ok ?y x k" if "in_flight s' x k" for x k
  proof -
    have "flight_ok y x k" using flight [OF that] flight_invD [OF bsimD(7) [OF sim]] by blast
    with flight [OF that] m h show ?thesis by (simp add: flight_ok_def split: prod.splits)
  qed
  have fl: "flushed ?y = flushed y"
    using apply_bios_cong [of "queue (y_dev y)" "y_pend y" "b_bufs s'" "b_bufs (y_dev y)"] bufs s m(6)
    by (simp add: flushed_def queue_inv_def Let_def)
  have w: "wr_ok v ?y c w" if "wr_ok v y c w" "ctx_of s' (wr_ctx w) = ctx_of (y_dev y) (wr_ctx w)" for c w
    by (rule wr_ok_transfer [OF that(1)]) (use that(2) m(1) in simp_all)
  have "evict_inv ?y" using s m d ev by (simp add: evict_inv_def Let_def)
  moreover have "flight_inv ?y"
  proof (rule flight_invI)
    show "compatible x k x' k'" if "in_flight (y_dev ?y) x k" "in_flight (y_dev ?y) x' k'" for x k x' k'
      using flight_inv_compat [OF bsimD(7) [OF sim]] flight [of x k] flight [of x' k'] that by simp
  qed (use f in simp)
  moreover have "wrs_inv v ?y"
    using wrs w bsimD(8) [OF sim] m unfolding wrs_inv_def by simp
  moreover have "queue_inv ?y" "pend_inv ?y" "disk_inv v ?y" "remote_inv v ?y" "diskonly_inv ?y"
    using s m fl by (simp_all add: queue_inv_def pend_inv_def disk_inv_def remote_inv_def diskonly_inv_def)
  ultimately show ?thesis using s m ctx by (simp add: bsim_def)
qed

section \<open>A context is returned or taken\<close>

text \<open>A context that is used by nobody and is not in its pool.\<close>

definition loose :: "bdev \<Rightarrow> ctx_id \<Rightarrow> bool" where
  "loose s x \<longleftrightarrow> (\<forall>k. \<not> in_flight s x k) \<and> x \<notin> set (queue_ctxs (queue s)) \<and> \<not> is_free s x \<and>
     snd (snd x) < IS_QUEUE_DEPTH"

lemma ctx_invD:
  assumes "ctx_inv s"
  shows "pools_ok s" "distinct (frees s n c)" "distinct (queue_ctxs (queue s))"
    "is_free s x \<Longrightarrow> snd (snd x) < IS_QUEUE_DEPTH" "is_free s x \<Longrightarrow> \<not> in_flight s x k"
    "is_free s x \<Longrightarrow> x \<notin> set (queue_ctxs (queue s))"
    "x \<in> set (queue_ctxs (queue s)) \<Longrightarrow> snd (snd x) < IS_QUEUE_DEPTH"
    "x \<in> set (queue_ctxs (queue s)) \<Longrightarrow> fst (snd x) < b_cb_num s \<and> \<not> unused s (fst (snd x))"
    "x \<in> set (queue_ctxs (queue s)) \<Longrightarrow> ctx_of s x = Some k \<Longrightarrow> cx_in_flight k \<noteq> CTX_R_IN_FLIGHT"
  using assms by (cases x; simp add: ctx_inv_def is_free_def; blast)+

lemma ctx_invI:
  assumes "pools_ok s" "\<And>n c. distinct (frees s n c)" "distinct (queue_ctxs (queue s))"
    and "\<And>x. is_free s x \<Longrightarrow> snd (snd x) < IS_QUEUE_DEPTH \<and> (\<forall>k. \<not> in_flight s x k) \<and>
      x \<notin> set (queue_ctxs (queue s))"
    and "\<And>x. x \<in> set (queue_ctxs (queue s)) \<Longrightarrow> snd (snd x) < IS_QUEUE_DEPTH \<and> fst (snd x) < b_cb_num s \<and>
      \<not> unused s (fst (snd x))"
    and "\<And>x k. x \<in> set (queue_ctxs (queue s)) \<Longrightarrow> ctx_of s x = Some k \<Longrightarrow> cx_in_flight k \<noteq> CTX_R_IN_FLIGHT"
  shows "ctx_inv s"
  unfolding ctx_inv_def
proof (intro conjI allI impI)
  fix n c j assume j: "j \<in> set (frees s n c)"
  show "j < IS_QUEUE_DEPTH" "(n, c, j) \<notin> set (queue_ctxs (queue s))" "\<not> in_flight s (n, c, j) k" for k
    using assms(4) [of "(n, c, j)"] j by (simp_all add: is_free_def)
next
  fix n c j assume j: "(n, c, j) \<in> set (queue_ctxs (queue s))"
  show "j < IS_QUEUE_DEPTH" "c < b_cb_num s" "\<not> unused s c"
    using assms(5) [OF j] by simp_all
qed (use assms in blast)+

lemma insert_view:
  assumes "IS_insert_ctx x s = Inr s1" "pools_ok s"
  shows "is_free s1 z \<longleftrightarrow> z = x \<or> is_free s z" "ctx_of s1 = ctx_of s" "pools_ok s1" "s1 = s\<lparr>b_pools := b_pools s1\<rparr>"
    "\<not> is_free s x \<Longrightarrow> (\<And>n c. distinct (frees s n c)) \<Longrightarrow> distinct (frees s1 n c)"
proof -
  obtain n' c' j where x: "x = (n', c', j)" by (metis prod_cases3)
  note v = IS_insert_ctx_view [OF assms(1) [unfolded x] assms(2)]
  show "ctx_of s1 = ctx_of s" "pools_ok s1" "s1 = s\<lparr>b_pools := b_pools s1\<rparr>" using v by (simp_all add: fun_eq_iff)
  obtain a b d where z: "z = (a, b, d)" by (metis prod_cases3)
  show "is_free s1 z \<longleftrightarrow> z = x \<or> is_free s z"
    using v(1) v(2) [of a b] by (cases "(a, b) = (n', c')") (auto simp: is_free_def x z)
  show "distinct (frees s1 n c)" if "\<not> is_free s x" "\<And>n c. distinct (frees s n c)"
    using v(1) v(2) [of n c] that by (cases "(n, c) = (n', c')") (auto simp: is_free_def x)
qed

lemma pools_only:
  assumes "s1 = s\<lparr>b_pools := p\<rparr>"
  shows "same_maps s s1" "b_bufs s1 = b_bufs s" "b_wrs s1 = b_wrs s"
  using assms by (simp_all add: same_maps_iff queue_def)

lemma bsim_insert:
  assumes sim: "bsim v y" and x: "IS_insert_ctx x (y_dev y) = Inr s1" "loose (y_dev y) x"
  shows "bsim v (y\<lparr>y_dev := s1\<rparr>)"
proof -
  note c = ctx_invD [OF bsimD(4) [OF sim]]
  note i = insert_view [OF x(1) c(1)]
  note p = pools_only [OF i(4)]
  note m = maps_view [OF p(1)]
  have fl: "in_flight s1 = in_flight (y_dev y)" using i(2) by (simp add: in_flight_def fun_eq_iff)
  have "ctx_inv s1"
    by (rule ctx_invI) (use c i x(2) fl m in \<open>auto simp: loose_def\<close>)
  then show ?thesis
    by (rule bsim_moves [OF sim p(1)]) (use fl p i(2) bsimD(8) [OF sim] in \<open>simp_all add: wrs_inv_def\<close>)
qed

lemma bsim_take:
  assumes sim: "bsim v y" and x: "takes_ctx (y_dev y) c x s1"
  shows "bsim v (y\<lparr>y_dev := s1\<rparr>)" "loose s1 x" "ctx_of s1 = ctx_of (y_dev y)" "ctx_of s1 x \<noteq> None"
    "s1 = (y_dev y)\<lparr>b_pools := b_pools s1\<rparr>" "fst (snd x) = c" "fst x < b_queues (y_dev y)"
proof -
  note c = ctx_invD [OF bsimD(4) [OF sim]]
  obtain n j where t: "x = (n, c, j)" "n < b_queues (y_dev y)" "frees (y_dev y) n c = frees s1 n c @ [j]"
    "\<And>n' c'. (n', c') \<noteq> (n, c) \<Longrightarrow> frees s1 n' c' = frees (y_dev y) n' c'"
    "\<And>z. ctx_of s1 z = ctx_of (y_dev y) z" "ctx_of (y_dev y) x \<noteq> None" "pools_ok s1"
    "s1 = (y_dev y)\<lparr>b_pools := b_pools s1\<rparr>" by (rule takes_ctx_view [OF x c(1)]) metis
  note p = pools_only [OF t(8)]
  note m = maps_view [OF p(1)]
  have co: "ctx_of s1 = ctx_of (y_dev y)" using t(5) by (simp add: fun_eq_iff)
  then have fl: "in_flight s1 = in_flight (y_dev y)" by (simp add: in_flight_def fun_eq_iff)
  have sub: "is_free (y_dev y) z" if "is_free s1 z" for z
    using that t(3) t(4) [of "fst z" "fst (snd z)"] by (cases z) (auto simp: is_free_def, metis UnCI list.set_intros(1) set_append)
  have dis: "distinct (frees s1 n' c')" for n' c'
    using c(2) [of n' c'] t(3) t(4) [of n' c'] by (cases "(n', c') = (n, c)") auto
  have "ctx_inv s1"
    by (rule ctx_invI) (use c sub dis fl m co t(7) in \<open>auto\<close>)
  then show "bsim v (y\<lparr>y_dev := s1\<rparr>)"
    by (rule bsim_moves [OF sim p(1)]) (use fl p co bsimD(8) [OF sim] in \<open>simp_all add: wrs_inv_def\<close>)
  have "is_free (y_dev y) x" "\<not> is_free s1 x" using t(3) c(2) [of n c] by (auto simp: is_free_def t(1))
  then show "loose s1 x" using c(4-6) [of x] fl m by (simp add: loose_def)
  show "ctx_of s1 = ctx_of (y_dev y)" "ctx_of s1 x \<noteq> None" "s1 = (y_dev y)\<lparr>b_pools := b_pools s1\<rparr>"
    "fst (snd x) = c" "fst x < b_queues (y_dev y)"
    using co t by simp_all
qed

section \<open>A transfer is over\<close>

lemma mod_ctx_pools: "mod_ctx x f s = s\<lparr>b_pools := b_pools (mod_ctx x f s)\<rparr>"
  by (simp add: mod_ctx_def)

lemma in_flight_idle:
  assumes "\<And>k. cx_in_flight (f k) = CTX_IDLE"
  shows "in_flight (mod_ctx x f s) z k \<longleftrightarrow> z \<noteq> x \<and> in_flight s z k"
  using assms by (auto simp: in_flight_def)

lemma bsim_idle:
  assumes sim: "bsim v y" and f: "\<And>k. cx_in_flight (f k) = CTX_IDLE"
    and wrs: "\<And>c w. c < b_cb_num (y_dev y) \<Longrightarrow> \<not> failed (y_dev y) c \<Longrightarrow> w \<in> set (b_wrs (y_dev y) c) \<Longrightarrow> wr_ctx w \<noteq> x"
  shows "bsim v (y\<lparr>y_dev := mod_ctx x f (y_dev y)\<rparr>)"
proof -
  note c = ctx_invD [OF bsimD(4) [OF sim]]
  note p = pools_only [OF mod_ctx_pools [of x f "y_dev y"]]
  note m = maps_view [OF p(1)]
  have "ctx_inv (mod_ctx x f (y_dev y))"
    by (rule ctx_invI) (use c f m in \<open>auto simp: in_flight_idle split: if_splits\<close>)
  then show ?thesis
    by (rule bsim_moves [OF sim p(1)])
      (use f p wrs bsimD(8) [OF sim] in \<open>auto simp: in_flight_idle wrs_inv_def\<close>)
qed

lemma bsim_pop_wr:
  assumes sim: "bsim v y" and w: "b_wrs (y_dev y) c = w # ws"
  shows "bsim v (y\<lparr>y_dev := (y_dev y)\<lparr>b_wrs := (b_wrs (y_dev y))(c := ws)\<rparr>\<rparr>)"
proof -
  let ?s = "(y_dev y)\<lparr>b_wrs := (b_wrs (y_dev y))(c := ws)\<rparr>"
  have p: "same_maps (y_dev y) ?s" by (simp add: same_maps_iff queue_def)
  note m = maps_view [OF p]
  have e: "ctx_of ?s = ctx_of (y_dev y)" "frees ?s = frees (y_dev y)" "pools_ok ?s = pools_ok (y_dev y)"
    by (simp_all add: ctx_of_def frees_def pools_ok_def fun_eq_iff)
  then have e': "in_flight ?s = in_flight (y_dev y)" by (simp add: fun_eq_iff in_flight_def)
  have "ctx_inv ?s"
    using bsimD(4) [OF sim] e e' m by (simp add: ctx_inv_def)
  then show ?thesis
    by (rule bsim_moves [OF sim p]) (use e' e w bsimD(8) [OF sim] in \<open>auto simp: wrs_inv_def\<close>)
qed

text \<open>Only the server of a context has a work request for it.\<close>

lemma wr_server:
  assumes "bsim v y" "c < b_cb_num (y_dev y)" "\<not> failed (y_dev y) c" "w \<in> set (b_wrs (y_dev y) c)"
  shows "fst (snd (wr_ctx w)) = c"
proof -
  have "wr_ok v y c w" using bsimD(8) [OF assms(1)] assms(2-4) unfolding wrs_inv_def by blast
  then show ?thesis by (rule wr_okE) simp
qed

lemma popped_wr:
  assumes "bsim v y" "c < b_cb_num (y_dev y)" "\<not> failed (y_dev y) c" "b_wrs (y_dev y) c = w # ws"
    and "c' < b_cb_num (y_dev y)" "\<not> failed (y_dev y) c'" "w' \<in> set (((b_wrs (y_dev y))(c := ws)) c')"
  shows "wr_ctx w' \<noteq> wr_ctx w"
proof (cases "c' = c")
  case True
  have "distinct (map wr_ctx (w # ws))" using bsimD(8) [OF assms(1)] assms(2-4) unfolding wrs_inv_def by metis
  then show ?thesis using assms(7) True by (force simp: image_iff)
next
  case False
  then show ?thesis
    using wr_server [OF assms(1,5,6), of w'] wr_server [OF assms(1-3), of w] assms(4,7) by auto
qed

section \<open>Buffers and pools\<close>

lemma bsim_buffer:
  assumes sim: "bsim v y" and x: "\<And>k. \<not> in_flight (y_dev y) x k" "x \<notin> set (queue_ctxs (queue (y_dev y)))"
  shows "bsim v (y\<lparr>y_dev := (y_dev y)\<lparr>b_bufs := (b_bufs (y_dev y))(x := buf)\<rparr>\<rparr>)"
proof -
  let ?s = "(y_dev y)\<lparr>b_bufs := (b_bufs (y_dev y))(x := buf)\<rparr>"
  have p: "same_maps (y_dev y) ?s" by (simp add: same_maps_iff queue_def)
  note m = maps_view [OF p]
  have e: "ctx_of ?s = ctx_of (y_dev y)" "frees ?s = frees (y_dev y)" "pools_ok ?s = pools_ok (y_dev y)"
    by (simp_all add: ctx_of_def frees_def pools_ok_def fun_eq_iff)
  then have e': "in_flight ?s = in_flight (y_dev y)" by (simp add: fun_eq_iff in_flight_def)
  have "ctx_inv ?s"
    using bsimD(4) [OF sim] e e' m by (simp add: ctx_inv_def)
  then show ?thesis
    by (rule bsim_moves [OF sim p]) (use e' e x bsimD(8) [OF sim] in \<open>auto simp: wrs_inv_def\<close>)
qed

text \<open>The pools of one server are replaced, when it has no transfer.\<close>

lemma bsim_pools:
  assumes sim: "bsim v y" and maps: "same_maps (y_dev y) s'" and wrs: "b_wrs s' = b_wrs (y_dev y)"
    and other: "\<And>n c'. c' \<noteq> c \<Longrightarrow> b_pools s' n c' = b_pools (y_dev y) n c'"
    and new: "pools_ok s'" "\<And>n. distinct (frees s' n c)"
      "\<And>n j. j \<in> set (frees s' n c) \<Longrightarrow> j < IS_QUEUE_DEPTH \<and> (n, c, j) \<notin> set (queue_ctxs (queue (y_dev y)))"
    and idle: "\<And>n j k. \<not> in_flight s' (n, c, j) k"
    and none: "c < b_cb_num (y_dev y) \<Longrightarrow> \<not> failed (y_dev y) c \<Longrightarrow> b_wrs (y_dev y) c = []"
    and bufs: "\<And>x. fst (snd x) \<noteq> c \<or> x \<in> set (queue_ctxs (queue (y_dev y))) \<Longrightarrow> b_bufs s' x = b_bufs (y_dev y) x"
  shows "bsim v (y\<lparr>y_dev := s'\<rparr>)"
proof -
  note i = ctx_invD [OF bsimD(4) [OF sim]] and m = maps_view [OF maps]
  have oth: "ctx_of s' x = ctx_of (y_dev y) x" "is_free s' x = is_free (y_dev y) x"
    "in_flight s' x k = in_flight (y_dev y) x k" if "fst (snd x) \<noteq> c" for x k
    using that other by (auto simp: ctx_of_def is_free_def frees_def in_flight_def split: prod.splits)
  have of: "frees s' n c' = frees (y_dev y) n c'" if "c' \<noteq> c" for n c'
    using that other by (simp add: frees_def)
  have fl: "in_flight (y_dev y) x k \<and> fst (snd x) \<noteq> c" if "in_flight s' x k" for x k
    using that idle [of "fst x" "snd (snd x)" k] oth(3) [of x k] by (cases x) auto
  have "ctx_inv s'"
  proof (rule ctx_invI)
    fix x assume x: "is_free s' x"
    show "snd (snd x) < IS_QUEUE_DEPTH \<and> (\<forall>k. \<not> in_flight s' x k) \<and> x \<notin> set (queue_ctxs (queue s'))"
    proof (cases "fst (snd x) = c")
      case True
      then show ?thesis using x new(3) [of "snd (snd x)" "fst x"] idle m by (cases x) (simp add: is_free_def)
    next
      case False
      then show ?thesis using x oth [OF False] i(4-6) [of x] m by simp
    qed
  next
    fix x k assume x: "x \<in> set (queue_ctxs (queue s'))" "ctx_of s' x = Some k"
    show "cx_in_flight k \<noteq> CTX_R_IN_FLIGHT"
    proof (cases "fst (snd x) = c")
      case True
      then show ?thesis using idle [of "fst x" "snd (snd x)" k] x(2) by (cases x) (auto simp: in_flight_def)
    next
      case False
      then show ?thesis using x oth [OF False] i(9) [of x k] m by simp
    qed
  next
    show "distinct (frees s' n c')" for n c' using new(2) of i(2) by (cases "c' = c") auto
  qed (use new(1) i m in auto)
  then show ?thesis
  proof (rule bsim_moves [OF sim maps])
    show "in_flight (y_dev y) x k \<and> b_bufs s' x = b_bufs (y_dev y) x" if "in_flight s' x k" for x k
      using fl [OF that] bufs by blast
    show "distinct (map wr_ctx (b_wrs s' c')) \<and> (\<forall>w \<in> set (b_wrs s' c'). w \<in> set (b_wrs (y_dev y) c') \<and>
        ctx_of s' (wr_ctx w) = ctx_of (y_dev y) (wr_ctx w))" if c': "c' < b_cb_num (y_dev y)" "\<not> failed (y_dev y) c'" for c'
    proof (cases "c' = c")
      case True
      then show ?thesis using none c' wrs by simp
    next
      case False
      then have "ctx_of s' (wr_ctx w) = ctx_of (y_dev y) (wr_ctx w)" if "w \<in> set (b_wrs (y_dev y) c')" for w
        using wr_server [OF sim c' that] oth(1) by simp
      then show ?thesis using bsimD(8) [OF sim] c' wrs by (simp add: wrs_inv_def)
    qed
  qed (use bufs in simp)
qed

text \<open>The contexts of a server that is set up, and of a server that is given up.\<close>

lemma IS_ctx_dma_setup_eq:
  "IS_ctx_dma_setup c s = s\<lparr>
     b_pools := (\<lambda>n. if n < b_queues s then (b_pools s n)(c := Some new_pool) else b_pools s n),
     b_bufs := (\<lambda>x. if fst x < b_queues s \<and> fst (snd x) = c then (\<lambda>_. zero_page) else b_bufs s x)\<rparr>"
proof -
  have "fold (IS_ctx_init c) [0 ..< m] s = s\<lparr>
     b_pools := (\<lambda>n. if n < m then (b_pools s n)(c := Some new_pool) else b_pools s n),
     b_bufs := (\<lambda>x. if fst x < m \<and> fst (snd x) = c then (\<lambda>_. zero_page) else b_bufs s x)\<rparr>" for m
  proof (induction m)
    case (Suc m)
    then show ?case
      by (auto simp: IS_ctx_init_def put_pool_def fun_eq_iff less_Suc_eq intro!: bdev.equality)
  qed simp
  then show ?thesis by (simp add: IS_ctx_dma_setup_def)
qed

lemma unused_idle:
  assumes sim: "bsim v y" and c: "unused (y_dev y) c"
  shows "\<not> in_flight (y_dev y) (n, c, j) k" "(n, c, j) \<notin> set (queue_ctxs (queue (y_dev y)))"
    "c < b_cb_num (y_dev y) \<Longrightarrow> b_wrs (y_dev y) c = []"
proof -
  have nf: "\<not> failed (y_dev y) c" using c by (auto simp: unused_def failed_def)
  show 1: "\<not> in_flight (y_dev y) (n, c, j) k" for n j k
  proof
    assume "in_flight (y_dev y) (n, c, j) k"
    from flight_invD [OF bsimD(7) [OF sim] this] obtain i where "is_server (y_dev y) c i" "rmap (y_dev y) c i"
      using nf by (auto simp: flight_ok_def chunk_here_def is_server_def)
    with bsimD(2) [OF sim] c show False by (auto simp: map_inv_def map_unused_def)
  qed
  show "(n, c, j) \<notin> set (queue_ctxs (queue (y_dev y)))"
    using ctx_invD(8) [OF bsimD(4) [OF sim], of "(n, c, j)"] c by auto
  show "b_wrs (y_dev y) c = []" if l: "c < b_cb_num (y_dev y)"
  proof (rule ccontr)
    assume "b_wrs (y_dev y) c \<noteq> []"
    then obtain w where "w \<in> set (b_wrs (y_dev y) c)" by (meson list.set_sel(1))
    then have "wr_ok v y c w" using bsimD(8) [OF sim] l nf by (simp add: wrs_inv_def)
    then show False by (rule wr_okE) (use 1 in \<open>auto simp: in_flight_def split: if_splits\<close>)
  qed
qed

lemma bsim_dma_setup:
  assumes sim: "bsim v y" and c: "unused (y_dev y) c"
  shows "bsim v (y\<lparr>y_dev := IS_ctx_dma_setup c (y_dev y)\<rparr>)"
proof (rule bsim_pools [OF sim, of _ c])
  let ?s = "y_dev y" and ?s' = "IS_ctx_dma_setup c (y_dev y)"
  note u = unused_idle [OF sim c] and e = IS_ctx_dma_setup_eq [of c ?s]
  note i = ctx_invD [OF bsimD(4) [OF sim]]
  have np: "frees ?s' n c = (if n < b_queues ?s then [0 ..< IS_QUEUE_DEPTH] else frees ?s n c)" for n
    by (simp add: e frees_def new_pool_def IS_QUEUE_DEPTH_def)
  show "same_maps ?s ?s'" by (simp add: same_maps_iff e queue_def)
  show "b_wrs ?s' = b_wrs ?s" "\<And>n c'. c' \<noteq> c \<Longrightarrow> b_pools ?s' n c' = b_pools ?s n c'" by (simp_all add: e)
  show "pools_ok ?s'" using i(1) by (auto simp: pools_ok_def e new_pool_def IS_QUEUE_DEPTH_def)
  show "distinct (frees ?s' n c)" for n using i(2) by (simp add: np)
  show "j < IS_QUEUE_DEPTH \<and> (n, c, j) \<notin> set (queue_ctxs (queue ?s))" if "j \<in> set (frees ?s' n c)" for n j
    using that u(2) i(4) [of "(n, c, j)"] by (auto simp: np is_free_def split: if_splits)
  show "\<not> in_flight ?s' (n, c, j) k" for n j k
    using u(1) [of n j k] by (auto simp: in_flight_def ctx_of_def e new_pool_def idle_ctx_def split: if_splits)
  show "b_bufs ?s' x = b_bufs ?s x" if "fst (snd x) \<noteq> c \<or> x \<in> set (queue_ctxs (queue ?s))" for x
    using that u(2) [of "fst x" "snd (snd x)"] by (cases x) (auto simp: e)
qed (use unused_idle(3) [OF sim c] in simp)

lemma bsim_free_pools:
  assumes sim: "bsim v y" and c: "failed (y_dev y) c"
    and idle: "\<And>n j k. \<not> in_flight (y_dev y) (n, c, j) k"
  shows "bsim v (y\<lparr>y_dev := free_pools c (y_dev y)\<rparr>)"
proof (rule bsim_pools [OF sim, of _ c])
  let ?s = "y_dev y" and ?s' = "free_pools c (y_dev y)"
  note i = ctx_invD [OF bsimD(4) [OF sim]]
  have np: "frees ?s' n c = (if n < b_queues ?s then [] else frees ?s n c)" for n
    by (simp add: free_pools_def frees_def)
  show "same_maps ?s ?s'" by (simp add: same_maps_iff free_pools_def queue_def)
  show "b_wrs ?s' = b_wrs ?s" "\<And>n c'. c' \<noteq> c \<Longrightarrow> b_pools ?s' n c' = b_pools ?s n c'" "\<And>x. b_bufs ?s' x = b_bufs ?s x"
    by (simp_all add: free_pools_def)
  show "pools_ok ?s'" using i(1) by (auto simp: pools_ok_def free_pools_def)
  show "distinct (frees ?s' n c)" for n using i(2) by (simp add: np)
  show "j < IS_QUEUE_DEPTH \<and> (n, c, j) \<notin> set (queue_ctxs (queue ?s))" if "j \<in> set (frees ?s' n c)" for n j
    using that i(4,6) [of "(n, c, j)"] by (auto simp: np is_free_def split: if_splits)
  show "\<not> in_flight ?s' (n, c, j) k" for n j k
    using idle [of n j k] by (auto simp: in_flight_def ctx_of_def free_pools_def split: if_splits)
qed (use c in simp)

end
