(* ===== verification/Block_Submit.thy ===== *)
theory Block_Submit
  imports Block_Moves
begin

text \<open>A request is submitted, a bio of the disk is done, a request ends.\<close>

section \<open>Submission\<close>

lemma reads_ordered_append:
  "reads_ordered (q @ q') \<longleftrightarrow> reads_ordered q \<and> reads_ordered q' \<and>
     (\<forall>b \<in> set q. \<not> sb_write b \<longrightarrow> (\<forall>b' \<in> set q'. \<not> bio_hits b' (bio_page b)))"
  by (induction q) auto

lemma rq_page_in: "page_request s req \<Longrightarrow> rq_page req \<in> rq_pages req"
  using page_requestD(3) [of s req] by (simp add: rq_pages_def)

text \<open>The device with another queue of the disk.\<close>

definition set_queue :: "sbio list \<Rightarrow> bdev \<Rightarrow> bdev" where
  "set_queue q s = s\<lparr>b_raw_bios := [], b_bio_list := q\<rparr>"

lemma set_queue_view1 [simp]:
  "queue (set_queue q s) = q" "ctx_of (set_queue q s) = ctx_of s" "frees (set_queue q s) = frees s"
  "chunk_at (set_queue q s) = chunk_at s" "mapped_at (set_queue q s) = mapped_at s"
  "is_server (set_queue q s) = is_server s" "failed (set_queue q s) = failed s" "unused (set_queue q s) = unused s"
  "page_request (set_queue q s) = page_request s" "pools_ok (set_queue q s) = pools_ok s"
  "b_cb_num (set_queue q s) = b_cb_num s" "b_queues (set_queue q s) = b_queues s" "b_sgl (set_queue q s) = b_sgl s"
  "b_bufs (set_queue q s) = b_bufs s" "b_wrs (set_queue q s) = b_wrs s" "b_cb_list (set_queue q s) = b_cb_list s"
  "b_cb_index_map (set_queue q s) = b_cb_index_map s" "b_chunk_map_cb_chunk (set_queue q s) = b_chunk_map_cb_chunk s"
  "b_free_chunk_index (set_queue q s) = b_free_chunk_index s" "b_cb_state_list (set_queue q s) = b_cb_state_list s"
  "b_pools (set_queue q s) = b_pools s"
  by (simp_all add: fun_eq_iff set_queue_def queue_def ctx_of_def frees_def chunk_at_def mapped_at_def
      is_server_def failed_def unused_def page_request_def pools_ok_def)

lemma set_queue_view2 [simp]:
  "is_free (set_queue q s) = is_free s" "in_flight (set_queue q s) = in_flight s"
  "remote_bit (set_queue q s) = remote_bit s" "chunk_addr (set_queue q s) = chunk_addr s"
  "request_wr w x c i r (set_queue q s) = request_wr w x c i r s"
  by (simp_all add: fun_eq_iff is_free_def in_flight_def remote_bit_def chunk_addr_def request_wr_def)

lemma set_queue_map_inv [simp]: "map_inv (set_queue q s) = map_inv s"
  by (simp add: map_inv_defs)

lemma bio_okI:
  assumes "\<And>x. sb_src b = CtxBuf x \<Longrightarrow> sb_end b = EndCtx x" "\<And>x. sb_end b = EndCtx x \<Longrightarrow> sb_write b"
    "\<And>r. sb_end b = EndReq r \<Longrightarrow> \<exists>req. m r = Some req \<and> rq_write req = sb_write b"
    "\<not> sb_write b \<Longrightarrow> \<exists>r req. sb_end b = EndReq r \<and> m r = Some req \<and> bio_page b = rq_page req"
  shows "bio_ok m b"
  unfolding bio_ok_def using assms by blast

lemma bio_ok_mono:
  assumes "bio_ok m b" "\<And>r q. m r = Some q \<Longrightarrow> m' r = Some q"
  shows "bio_ok m' b"
proof (rule bio_okI)
  show "\<exists>req. m' r = Some req \<and> rq_write req = sb_write b" if "sb_end b = EndReq r" for r
    using bio_okD(3) [OF assms(1) that] assms(2) by blast
  show "\<exists>r req. sb_end b = EndReq r \<and> m' r = Some req \<and> bio_page b = rq_page req" if "\<not> sb_write b"
    using bio_okD(4) [OF assms(1) that] assms(2) by blast
qed (use bio_okD(1,2) [OF assms(1)] in blast)+

lemma queue_reqs_in: "r \<in> set (queue_reqs q) \<longleftrightarrow> (\<exists>b \<in> set q. sb_end b = EndReq r)"
proof -
  have "r \<in> set (end_req e) \<longleftrightarrow> e = EndReq r" for e by (cases e) auto
  then show ?thesis by (simp add: queue_reqs_def)
qed

text \<open>The requests of the disk queue are pending.\<close>

lemma queued_pending:
  assumes "bsim v y" "r \<in> set (queue_reqs (queue (y_dev y)))"
  shows "y_pend y r \<noteq> None"
proof -
  obtain b where b: "b \<in> set (queue (y_dev y))" "sb_end b = EndReq r" using assms(2) by (auto simp: queue_reqs_in)
  then have "bio_ok (y_pend y) b" using bsimD(5) [OF assms(1)] by (simp add: queue_inv_def Let_def)
  from bio_okD(3) [OF this b(2)] show ?thesis by auto
qed

lemma flight_pending:
  assumes "bsim v y" "in_flight (y_dev y) x k" "cx_req k = Some q"
  shows "y_pend y (rq_id q) = Some q" "rq_id q \<notin> set (queue_reqs (queue (y_dev y)))"
  using flight_invD [OF bsimD(7) [OF assms(1)] assms(2)] assms(3) by (auto simp: flight_ok_def split: prod.splits)

lemma flight_ok_transfer:
  assumes ok: "flight_ok y x k"
    and num: "b_queues (y_dev y') = b_queues (y_dev y)" "b_cb_num (y_dev y') = b_cb_num (y_dev y)"
    and pend: "\<And>r. cx_req k = Some r \<Longrightarrow> y_pend y (rq_id r) = Some r \<Longrightarrow>
      rq_id r \<notin> set (queue_reqs (queue (y_dev y))) \<Longrightarrow>
      y_pend y' (rq_id r) = Some r \<and> rq_id r \<notin> set (queue_reqs (queue (y_dev y')))"
    and here: "\<And>i g. cx_chunk_index k = int i \<Longrightarrow> i < MAX_MR_SIZE_GB \<Longrightarrow> chunk_here y (fst (snd x)) i g \<Longrightarrow>
      chunk_here y' (fst (snd x)) i g"
    and bufs: "b_bufs (y_dev y') x = b_bufs (y_dev y) x"
  shows "flight_ok y' x k"
proof -
  obtain n c j where x: "x = (n, c, j)" by (metis prod_cases3)
  obtain r i where r: "cx_req k = Some r" "y_pend y (rq_id r) = Some r"
    "rq_id r \<notin> set (queue_reqs (queue (y_dev y)))" "rq_write r = (cx_in_flight k = CTX_W_IN_FLIGHT)"
    "rq_chunk r = rq_last_chunk r" "cx_chunk_index k = int i" "i < MAX_MR_SIZE_GB" "chunk_here y c i (rq_chunk r)"
    "rq_write r \<longrightarrow> cx_chunk_ptr k = Some (c, i) \<and> cx_offset k = and (rq_start r) ONE_GB_MASK \<and>
       cx_len k = rq_bytes r \<and> (\<forall>m < rq_npages r. b_bufs (y_dev y) x m = rq_data r m)"
    "n < b_queues (y_dev y)" "c < b_cb_num (y_dev y)" "j < IS_QUEUE_DEPTH"
    using ok unfolding flight_ok_def x prod.case by blast
  have "chunk_here y' c i (rq_chunk r)" using here [OF r(6,7)] r(8) x by simp
  with r pend [OF r(1-3)] bufs num show ?thesis unfolding flight_ok_def x prod.case by metis
qed

lemma bsim_submit:
  assumes sim: "bsim v y" and req: "page_request (y_dev y) req"
    and pend: "y_pend y (rq_id req) = None \<or> y_pend y (rq_id req) = Some req \<and> \<not> rq_write req"
    and excl: "\<And>r q. y_pend y r = Some q \<Longrightarrow> r \<noteq> rq_id req \<Longrightarrow> rq_pages req \<inter> rq_pages q = {}"
    and bios: "\<And>b. b \<in> set bs \<Longrightarrow> bio_ok ((y_pend y)(rq_id req \<mapsto> req)) b"
    and hits: "\<And>b p. b \<in> set bs \<Longrightarrow> bio_hits b p \<Longrightarrow> rq_write req \<and> p \<in> rq_pages req"
    and ord: "reads_ordered bs"
    and data: "\<And>d p. fold (apply_bio (b_bufs (y_dev y))) bs d p =
      (if rq_write req \<and> p \<in> rq_pages req then rq_content req p else d p)"
    and reqs: "distinct (queue_reqs bs)" "\<And>r. r \<in> set (queue_reqs bs) \<Longrightarrow> r = rq_id req \<and> r \<notin> set (queue_reqs (queue (y_dev y)))"
    and flight: "\<And>x k q. in_flight (y_dev y) x k \<Longrightarrow> cx_req k = Some q \<Longrightarrow> rq_id q \<notin> set (queue_reqs bs)"
    and ctxs: "distinct (queue_ctxs bs)" "\<And>x. x \<in> set (queue_ctxs bs) \<Longrightarrow> loose (y_dev y) x \<and>
      fst (snd x) < b_cb_num (y_dev y) \<and> \<not> unused (y_dev y) (fst (snd x))"
    and only: "\<And>p. rq_id req \<in> set (queue_reqs bs) \<Longrightarrow> rq_write req \<Longrightarrow> p \<in> rq_pages req \<Longrightarrow> \<not> remote_bit (y_dev y) p"
  shows "bsim (v\<lparr>v_pend := (v_pend v)(rq_id req \<mapsto> req)\<rparr>)
    (y\<lparr>y_dev := set_queue (queue (y_dev y) @ bs) (y_dev y), y_pend := (y_pend y)(rq_id req \<mapsto> req)\<rparr>)"
proof -
  let ?s = "y_dev y" and ?m = "(y_pend y)(rq_id req \<mapsto> req)"
  let ?v = "v\<lparr>v_pend := (v_pend v)(rq_id req \<mapsto> req)\<rparr>"
  let ?y = "y\<lparr>y_dev := set_queue (queue (y_dev y) @ bs) (y_dev y), y_pend := ?m\<rparr>"
  note s = sim [unfolded bsim_def] and i = ctx_invD [OF bsimD(4) [OF sim]]
  have mono: "?m r = Some q" if "y_pend y r = Some q" for r q using that pend by auto
  have ev: "evicting ?y = evicting y" by (simp add: evicting_def fun_eq_iff)
  have here: "chunk_here ?y = chunk_here y" by (simp add: chunk_here_def ev fun_eq_iff)
  have "evict_inv ?y" using s unfolding evict_inv_def Let_def ev by simp
  moreover have "ctx_inv (y_dev ?y)"
  proof (rule ctx_invI)
    show "distinct (queue_ctxs (queue (y_dev ?y)))" using i(3) ctxs by (auto simp: loose_def)
  qed (use i ctxs in \<open>auto simp: loose_def in_flight_def\<close>)
  moreover have "queue_inv ?y"
  proof -
    have q: "\<forall>b \<in> set (queue ?s). bio_ok (y_pend y) b" "reads_ordered (queue ?s)" "distinct (queue_reqs (queue ?s))"
      using s by (simp_all add: queue_inv_def Let_def)
    have "\<not> bio_hits b' (bio_page b)" if b: "b \<in> set (queue ?s)" "\<not> sb_write b" "b' \<in> set bs" for b b'
    proof
      assume h: "bio_hits b' (bio_page b)"
      obtain r q' where r: "y_pend y r = Some q'" "bio_page b = rq_page q'"
        using bio_okD(4) q(1) b(1,2) by metis
      have w: "rq_write req" "rq_page q' \<in> rq_pages req" using hits [OF b(3) h] r(2) by simp_all
      moreover have "r \<noteq> rq_id req" using r(1) pend w(1) by auto
      moreover have "rq_page q' \<in> rq_pages q'" using pend_invD(2) [OF bsimD(6) [OF sim] r(1)] by (rule rq_page_in)
      ultimately show False using excl [OF r(1)] by blast
    qed
    moreover have "bio_ok ?m b" if "b \<in> set (queue ?s) \<union> set bs" for b
      using that q(1) bios bio_ok_mono [of "y_pend y" b ?m] mono by blast
    ultimately show ?thesis
      using q(2,3) ord reqs by (auto simp: queue_inv_def reads_ordered_append)
  qed
  moreover have "pend_inv ?y"
  proof -
    have "rq_pages req \<inter> rq_pages q = {}" "rq_pages q \<inter> rq_pages req = {}" if "y_pend y r = Some q" "r \<noteq> rq_id req" for r q
      using excl [OF that] by auto
    then show ?thesis using s req by (simp add: pend_inv_def)
  qed
  moreover have "flight_inv ?y"
  proof (rule flight_invI)
    fix x k assume x: "in_flight (y_dev ?y) x k"
    then have "flight_ok y x k" using flight_invD [OF bsimD(7) [OF sim]] by simp
    then show "flight_ok ?y x k"
    proof (rule flight_ok_transfer)
      show "y_pend ?y (rq_id r) = Some r \<and> rq_id r \<notin> set (queue_reqs (queue (y_dev ?y)))"
        if "cx_req k = Some r" "y_pend y (rq_id r) = Some r" "rq_id r \<notin> set (queue_reqs (queue ?s))" for r
        using mono [OF that(2)] that(3) flight [of x k r] that(1) x by simp
    qed (use here in simp_all)
  next
    show "compatible x k x' k'" if "in_flight (y_dev ?y) x k" "in_flight (y_dev ?y) x' k'" for x k x' k'
      using flight_inv_compat [OF bsimD(7) [OF sim]] that by simp
  qed
  moreover have "wrs_inv ?v ?y"
  proof -
    have "wr_ok ?v ?y c w" if "wr_ok v y c w" for c w
      by (rule wr_ok_transfer [OF that]) simp_all
    then show ?thesis using bsimD(8) [OF sim] by (simp add: wrs_inv_def)
  qed
  moreover have pw: "pend_writes ?m p q \<longleftrightarrow> pend_writes (y_pend y) p q \<or> q = req \<and> rq_write req \<and> p \<in> rq_pages req" for p q
  proof -
    have "(\<exists>r. ?m r = Some q) \<longleftrightarrow> (\<exists>r. y_pend y r = Some q) \<or> q = req"
      using pend mono by (metis fun_upd_apply option.inject)
    then show ?thesis by (auto simp: pend_writes_def)
  qed
  moreover have "disk_inv ?v ?y"
  proof -
    have fl: "flushed ?y p = (if rq_write req \<and> p \<in> rq_pages req then rq_content req p else flushed y p)" for p
      by (simp add: flushed_def data)
    have "p \<notin> rq_pages req" if "pend_writes (y_pend y) p q" "rq_write req" for p q
      using that excl pend unfolding pend_writes_def by (metis disjoint_iff option.distinct(1))
    then have "flushed ?y p = rq_content q p" if "pend_writes ?m p q" for p q
      using that bsimD(9) [OF sim] unfolding pw disk_inv_def fl by auto
    moreover have "flushed ?y p = v_store v p" if "\<And>q. \<not> pend_writes ?m p q" for p
      using that bsimD(9) [OF sim] unfolding pw disk_inv_def fl by auto
    ultimately show ?thesis by (simp add: disk_inv_def)
  qed
  moreover have "remote_inv ?v ?y"
    using bsimD(10) [OF sim] unfolding remote_inv_def by (simp add: pw)
  moreover have "diskonly_inv ?y"
    unfolding diskonly_inv_def
  proof (intro allI impI)
    fix r q p
    assume a: "r \<in> set (queue_reqs (queue (y_dev ?y)))" "y_pend ?y r = Some q" "rq_write q" "p \<in> rq_pages q"
    show "\<not> remote_bit (y_dev ?y) p"
    proof (cases "r \<in> set (queue_reqs bs)")
      case True
      then have "q = req" using reqs(2) a(2) by auto
      with True a reqs(2) only show ?thesis by simp
    next
      case False
      then have r: "r \<in> set (queue_reqs (queue ?s))" using a(1) by simp
      have "y_pend y r = Some q" using queued_pending [OF sim r] mono a(2) by fastforce
      with r a(3,4) bsimD(11) [OF sim] show ?thesis by (simp add: diskonly_inv_def)
    qed
  qed
  ultimately show ?thesis using s by (simp add: bsim_def)
qed

section \<open>The end of requests\<close>

lemma drop_pend_Some [simp]: "drop_pend rs m r = Some q \<longleftrightarrow> r \<notin> set rs \<and> m r = Some q"
  by (simp add: drop_pend_def)

text \<open>Requests end: what they wrote is in the store, on the disk and, as far as they have pages there, on a server.\<close>

lemma bsim_drop:
  assumes sim: "bsim v y"
    and queued: "\<And>r. r \<in> set rs \<Longrightarrow> r \<notin> set (queue_reqs (queue (y_dev y)))"
    and flight: "\<And>x k q. in_flight (y_dev y) x k \<Longrightarrow> cx_req k = Some q \<Longrightarrow> rq_id q \<notin> set rs"
    and store: "v_pend v' = drop_pend rs (v_pend v)"
      "\<And>r req p. r \<in> set rs \<Longrightarrow> y_pend y r = Some req \<Longrightarrow> rq_write req \<Longrightarrow> p \<in> rq_pages req \<Longrightarrow>
         v_store v' p = rq_content req p"
      "\<And>p. (\<And>r req. r \<in> set rs \<Longrightarrow> y_pend y r = Some req \<Longrightarrow> rq_write req \<Longrightarrow> p \<notin> rq_pages req) \<Longrightarrow>
         v_store v' p = v_store v p"
    and remote: "\<And>r req p c i bm. r \<in> set rs \<Longrightarrow> y_pend y r = Some req \<Longrightarrow> rq_write req \<Longrightarrow> p \<in> rq_pages req \<Longrightarrow>
      mapped_at (y_dev y) (p div 2 ^ 18) c i \<Longrightarrow> rc_bitmap (chunk_at (y_dev y) c i) = Some bm \<Longrightarrow>
      bm_bit bm (int (p mod 2 ^ 18)) \<Longrightarrow>
      y_rmem y c (rc_rkey (chunk_at (y_dev y) c i)) (chunk_addr (y_dev y) c i (p mod 2 ^ 18)) = rq_content req p"
  shows "bsim v' (y\<lparr>y_pend := drop_pend rs (y_pend y)\<rparr>)"
proof -
  let ?s = "y_dev y" and ?y = "y\<lparr>y_pend := drop_pend rs (y_pend y)\<rparr>"
  note s = sim [unfolded bsim_def]
  have ev: "evicting ?y = evicting y" by (simp add: evicting_def fun_eq_iff)
  have here: "chunk_here ?y = chunk_here y" by (simp add: chunk_here_def ev fun_eq_iff)
  have fl: "flushed ?y = flushed y" by (simp add: flushed_def)
  have out: "pend_writes (drop_pend rs (y_pend y)) p q \<or> (\<exists>r \<in> set rs. y_pend y r = Some q \<and> rq_write q \<and> p \<in> rq_pages q)"
    if "pend_writes (y_pend y) p q" for p q
    using that by (auto simp: pend_writes_def)
  have "evict_inv ?y" using s unfolding evict_inv_def Let_def ev by simp
  moreover have "queue_inv ?y"
  proof -
    have "bio_ok (drop_pend rs (y_pend y)) b" if b: "b \<in> set (queue ?s)" for b
    proof -
      have o: "bio_ok (y_pend y) b" using s b by (simp add: queue_inv_def Let_def)
      have n: "r \<notin> set rs" if "sb_end b = EndReq r" for r using queued b that by (auto simp: queue_reqs_in)
      show ?thesis
        by (rule bio_okI) (use bio_okD [OF o] n in \<open>simp; blast\<close>)+
    qed
    then show ?thesis using s by (simp add: queue_inv_def Let_def)
  qed
  moreover have "pend_inv ?y" using bsimD(6) [OF sim] by (simp add: pend_inv_def) blast
  moreover have "flight_inv ?y"
  proof (rule flight_invI)
    fix x k assume x: "in_flight (y_dev ?y) x k"
    then have "flight_ok y x k" using flight_invD [OF bsimD(7) [OF sim]] by simp
    then show "flight_ok ?y x k"
      by (rule flight_ok_transfer) (use flight [of x k] x here in simp_all)
  next
    show "compatible x k x' k'" if "in_flight (y_dev ?y) x k" "in_flight (y_dev ?y) x' k'" for x k x' k'
      using flight_inv_compat [OF bsimD(7) [OF sim]] that by simp
  qed
  moreover have "wrs_inv v' ?y"
  proof -
    have "wr_ok v' ?y c w" if w: "wr_ok v y c w" for c w
    proof (rule wr_ok_transfer [OF w])
      fix k r i assume k: "ctx_of ?s (wr_ctx w) = Some k" "cx_in_flight k = CTX_R_IN_FLIGHT" "cx_req k = Some r"
        "y_rmem y c (wr_rkey w) (wr_addr w) = v_store v (rq_page r)"
      have x: "in_flight ?s (wr_ctx w) k" using k(1,2) by (simp add: in_flight_def)
      note r = flight_pending(1) [OF sim x k(3)]
      have "rq_page r \<in> rq_pages r" using rq_page_in pend_invD(2) [OF bsimD(6) [OF sim] r] by blast
      then have "rq_page r \<notin> rq_pages q" if "r' \<in> set rs" "y_pend y r' = Some q" for r' q
        using pend_inv_disjoint [OF bsimD(6) [OF sim] r that(2)] flight [OF x k(3)] that(1) by blast
      then have "v_store v' (rq_page r) = v_store v (rq_page r)" using store(3) by blast
      with k(4) show "y_rmem ?y c (wr_rkey w) (wr_addr w) = v_store v' (rq_page r)" by simp
    qed simp_all
    then show ?thesis using bsimD(8) [OF sim] by (simp add: wrs_inv_def)
  qed
  moreover have "disk_inv v' ?y"
  proof -
    have "flushed y p = rq_content q p" if "pend_writes (drop_pend rs (y_pend y)) p q" for p q
      using that bsimD(9) [OF sim] unfolding disk_inv_def pend_writes_def by auto
    moreover have "flushed y p = v_store v' p" if n: "\<And>q. \<not> pend_writes (drop_pend rs (y_pend y)) p q" for p
    proof (cases "\<exists>q. pend_writes (y_pend y) p q")
      case True
      then obtain q where q: "pend_writes (y_pend y) p q" by blast
      with out [OF q] n show ?thesis using store(2) bsimD(9) [OF sim] by (auto simp: disk_inv_def)
    next
      case False
      then have "v_store v' p = v_store v p" by (intro store(3)) (auto simp: pend_writes_def)
      with False show ?thesis using bsimD(9) [OF sim] by (simp add: disk_inv_def)
    qed
    ultimately show ?thesis by (simp add: disk_inv_def fl)
  qed
  moreover have "remote_inv v' ?y"
    unfolding remote_inv_def
  proof (intro allI impI)
    fix p c i bm
    assume a: "\<forall>q. \<not> pend_writes (y_pend ?y) p q" "mapped_at (y_dev ?y) (p div 2 ^ 18) c i"
      "rc_bitmap (chunk_at (y_dev ?y) c i) = Some bm" "bm_bit bm (int (p mod 2 ^ 18))"
    show "y_rmem ?y c (rc_rkey (chunk_at (y_dev ?y) c i)) (chunk_addr (y_dev ?y) c i (p mod 2 ^ 18)) = v_store v' p"
    proof (cases "\<exists>q. pend_writes (y_pend y) p q")
      case True
      then obtain q where q: "pend_writes (y_pend y) p q" by blast
      obtain r where r: "r \<in> set rs" "y_pend y r = Some q" "rq_write q" "p \<in> rq_pages q"
        using out [OF q] a(1) by auto
      show ?thesis using remote [OF r] store(2) [OF r] a by simp
    next
      case False
      then have "v_store v' p = v_store v p" by (intro store(3)) (auto simp: pend_writes_def)
      with False a bsimD(10) [OF sim] show ?thesis by (simp add: remote_inv_def)
    qed
  qed
  moreover have "diskonly_inv ?y"
    using bsimD(11) [OF sim] by (simp add: diskonly_inv_def)
  ultimately show ?thesis using s store(1) by (simp add: bsim_def)
qed

lemma written_out:
  "(\<And>r q. r \<in> set rs \<Longrightarrow> m r = Some q \<Longrightarrow> p \<notin> rq_pages q) \<Longrightarrow> written rs m st p = st p"
  by (induction rs) (auto split: option.splits)

lemma written_in:
  assumes "r \<in> set rs" "m r = Some q" "p \<in> rq_pages q"
    and "\<And>r' q'. m r' = Some q' \<Longrightarrow> r' \<noteq> r \<Longrightarrow> p \<notin> rq_pages q'"
  shows "written rs m st p = rq_content q p"
  using assms(1)
proof (induction rs)
  case (Cons a rs)
  then show ?case using assms(2,3) assms(4) [of a] by (cases "a = r") (auto split: option.splits)
qed simp

lemma bsim_ended:
  assumes sim: "bsim v y"
    and rs: "\<And>r. r \<in> set rs \<Longrightarrow> \<exists>req. y_pend y r = Some req \<and> rq_write req"
    and queued: "\<And>r. r \<in> set rs \<Longrightarrow> r \<notin> set (queue_reqs (queue (y_dev y)))"
    and flight: "\<And>x k q. in_flight (y_dev y) x k \<Longrightarrow> cx_req k = Some q \<Longrightarrow> rq_id q \<notin> set rs"
    and remote: "\<And>r req p c i bm. r \<in> set rs \<Longrightarrow> y_pend y r = Some req \<Longrightarrow> p \<in> rq_pages req \<Longrightarrow>
      mapped_at (y_dev y) (p div 2 ^ 18) c i \<Longrightarrow> rc_bitmap (chunk_at (y_dev y) c i) = Some bm \<Longrightarrow>
      bm_bit bm (int (p mod 2 ^ 18)) \<Longrightarrow>
      y_rmem y c (rc_rkey (chunk_at (y_dev y) c i)) (chunk_addr (y_dev y) c i (p mod 2 ^ 18)) = rq_content req p"
  shows "store_ok (Ended rs) v \<and> bsim (store_next (Ended rs) v) (y\<lparr>y_pend := drop_pend rs (y_pend y)\<rparr>)"
proof
  have p: "v_pend v = y_pend y" using sim by (simp add: bsim_def)
  show "store_ok (Ended rs) v" using rs p by simp
  show "bsim (store_next (Ended rs) v) (y\<lparr>y_pend := drop_pend rs (y_pend y)\<rparr>)"
  proof (rule bsim_drop [OF sim queued flight])
    show "v_store (store_next (Ended rs) v) p = rq_content req p"
      if "r \<in> set rs" "y_pend y r = Some req" "p \<in> rq_pages req" for r req p
    proof -
      have "p \<notin> rq_pages q'" if r': "y_pend y r' = Some q'" "r' \<noteq> r" for r' q'
        using pend_inv_disjoint [OF bsimD(6) [OF sim] \<open>y_pend y r = Some req\<close> r'(1)] r'(2) \<open>p \<in> rq_pages req\<close> by auto
      then show ?thesis using written_in [of r rs "y_pend y" req p "v_store v"] that p by simp
    qed
    show "v_store (store_next (Ended rs) v) p = v_store v p"
      if n: "\<And>r req. r \<in> set rs \<Longrightarrow> y_pend y r = Some req \<Longrightarrow> rq_write req \<Longrightarrow> p \<notin> rq_pages req" for p
    proof -
      have "p \<notin> rq_pages q" if "r \<in> set rs" "y_pend y r = Some q" for r q using rs [OF that(1)] n that by auto
      then show ?thesis using written_out [of rs "y_pend y" p "v_store v"] p by simp
    qed
  qed (use remote p in auto)
qed

lemma bsim_delivered:
  assumes sim: "bsim v y" and r: "y_pend y r = Some req" "\<not> rq_write req" "d = v_store v (rq_page req)"
    and queued: "r \<notin> set (queue_reqs (queue (y_dev y)))"
    and flight: "\<And>x k q. in_flight (y_dev y) x k \<Longrightarrow> cx_req k = Some q \<Longrightarrow> rq_id q \<noteq> r"
  shows "store_ok (Delivered r d) v \<and> bsim (store_next (Delivered r d) v) (y\<lparr>y_pend := drop_pend [r] (y_pend y)\<rparr>)"
proof
  have p: "v_pend v = y_pend y" using sim by (simp add: bsim_def)
  show "store_ok (Delivered r d) v" using r p by simp
  show "bsim (store_next (Delivered r d) v) (y\<lparr>y_pend := drop_pend [r] (y_pend y)\<rparr>)"
    by (rule bsim_drop [OF sim]) (use queued flight r in auto)
qed

section \<open>The disk\<close>

text \<open>The first bio of the queue is done.\<close>

lemma bsim_pop:
  assumes sim: "bsim v y" and q: "queue (y_dev y) = b # q"
  shows "bsim v (y\<lparr>y_dev := set_queue q (y_dev y), y_disk := apply_bio (b_bufs (y_dev y)) b (y_disk y)\<rparr>)"
proof -
  let ?s = "y_dev y" and ?y = "y\<lparr>y_dev := set_queue q (y_dev y), y_disk := apply_bio (b_bufs (y_dev y)) b (y_disk y)\<rparr>"
  note s = sim [unfolded bsim_def] and i = ctx_invD [OF bsimD(4) [OF sim]]
  have ev: "evicting ?y = evicting y" by (simp add: evicting_def fun_eq_iff)
  have here: "chunk_here ?y = chunk_here y" by (simp add: chunk_here_def ev fun_eq_iff)
  have fl: "flushed ?y = flushed y" by (simp add: flushed_def q)
  have "evict_inv ?y" using s unfolding evict_inv_def Let_def ev by simp
  moreover have "ctx_inv (y_dev ?y)"
  proof (rule ctx_invI)
    have sub: "x \<in> set (queue_ctxs (queue ?s))" if "x \<in> set (queue_ctxs (queue (y_dev ?y)))" for x
      using that by (simp add: q)
    show "distinct (queue_ctxs (queue (y_dev ?y)))" using i(3) by (simp add: q)
    show "cx_in_flight k \<noteq> CTX_R_IN_FLIGHT"
      if "x \<in> set (queue_ctxs (queue (y_dev ?y)))" "ctx_of (y_dev ?y) x = Some k" for x k
      using i(9) [OF sub [OF that(1)]] that(2) by simp
    show "snd (snd x) < IS_QUEUE_DEPTH \<and> fst (snd x) < b_cb_num (y_dev ?y) \<and> \<not> unused (y_dev ?y) (fst (snd x))"
      if "x \<in> set (queue_ctxs (queue (y_dev ?y)))" for x
      using i(7,8) [OF sub [OF that]] by simp
    show "snd (snd x) < IS_QUEUE_DEPTH \<and> (\<forall>k. \<not> in_flight (y_dev ?y) x k) \<and>
      x \<notin> set (queue_ctxs (queue (y_dev ?y)))" if "is_free (y_dev ?y) x" for x
      using i(4-6) [of x] that sub [of x] by auto
  qed (use i(1,2) in simp_all)
  moreover have "queue_inv ?y" using bsimD(5) [OF sim] by (simp add: queue_inv_def Let_def q)
  moreover have "pend_inv ?y" using bsimD(6) [OF sim] by (simp add: pend_inv_def)
  moreover have "flight_inv ?y"
  proof (rule flight_invI)
    fix x k assume x: "in_flight (y_dev ?y) x k"
    then have "flight_ok y x k" using flight_invD [OF bsimD(7) [OF sim]] by simp
    then show "flight_ok ?y x k"
      by (rule flight_ok_transfer) (use here in \<open>simp_all add: q\<close>)
  next
    show "compatible x k x' k'" if "in_flight (y_dev ?y) x k" "in_flight (y_dev ?y) x' k'" for x k x' k'
      using flight_inv_compat [OF bsimD(7) [OF sim]] that by simp
  qed
  moreover have "wrs_inv v ?y"
  proof -
    have "wr_ok v ?y c w" if "wr_ok v y c w" for c w by (rule wr_ok_transfer [OF that]) simp_all
    then show ?thesis using bsimD(8) [OF sim] by (simp add: wrs_inv_def)
  qed
  moreover have "disk_inv v ?y" using bsimD(9) [OF sim] by (simp add: disk_inv_def fl)
  moreover have "remote_inv v ?y" using bsimD(10) [OF sim] by (simp add: remote_inv_def)
  moreover have "diskonly_inv ?y" using bsimD(11) [OF sim] by (simp add: diskonly_inv_def q)
  ultimately show ?thesis using s by (simp add: bsim_def)
qed

lemma not_hit_flushed:
  "\<forall>b \<in> set q. \<not> bio_hits b p \<Longrightarrow> fold (apply_bio bufs) q d p = d p"
  by (induction q arbitrary: d) (auto simp: apply_bio_def)

lemma bsim_disk_write:
  assumes sim: "bsim v y" and b: "b_raw_bios (y_dev y) = b # bs" "sb_write b" "bio_in_time b (y_dev y)"
    and e: "IS_stackbd_end_io b 0 ((y_dev y)\<lparr>b_raw_bios := bs\<rparr>) = Inr s'"
  shows "store_ok (Ended (ended_by b)) v \<and> bsim (store_next (Ended (ended_by b)) v)
    (y\<lparr>y_dev := s', y_disk := apply_bio (b_bufs (y_dev y)) b (y_disk y), y_pend := drop_pend (ended_by b) (y_pend y)\<rparr>)"
proof -
  let ?s = "y_dev y" and ?q = "bs @ b_bio_list (y_dev y)" and ?d = "apply_bio (b_bufs (y_dev y)) b (y_disk y)"
  let ?t = "(y_dev y)\<lparr>b_raw_bios := bs\<rparr>"
  have q: "queue ?s = b # ?q" by (simp add: queue_def b(1))
  have sim1: "bsim v (y\<lparr>y_dev := ?t, y_disk := ?d\<rparr>)"
    by (rule bsim_core_sys [OF bsim_pop [OF sim q]]) (simp_all add: same_core_def queue_def set_queue_def)
  have ok: "bio_ok (y_pend y) b" using bsimD(5) [OF sim] q by (simp add: queue_inv_def Let_def)
  have none: ?thesis if n: "ended_by b = []" and s1: "bsim v (y\<lparr>y_dev := s', y_disk := ?d\<rparr>)"
  proof -
    have "drop_pend [] m = m" "written [] m st = st" for m st by (auto simp: drop_pend_def fun_eq_iff)
    then show ?thesis using s1 by (simp add: n)
  qed
  show ?thesis
  proof (cases "sb_end b")
    case EndNone
    then show ?thesis using none sim1 e by (simp add: IS_stackbd_end_io_def ended_by_def)
  next
    case (EndReq r)
    then have s': "s' = blk_mq_end_request r 0 ?t" using e by (simp add: IS_stackbd_end_io_def)
    have sim2: "bsim v (y\<lparr>y_dev := s', y_disk := ?d\<rparr>)"
      by (rule bsim_core_sys [OF sim1]) (simp_all add: s' same_core_def queue_def blk_mq_end_request_def)
    obtain req where req: "y_pend y r = Some req" "rq_write req" using bio_okD(3) [OF ok EndReq] b(2) by auto
    have qr: "r \<notin> set (queue_reqs (queue s'))" "queue s' = ?q"
      using bsimD(5) [OF sim] EndReq by (simp_all add: queue_inv_def Let_def s' queue_def b(1) blk_mq_end_request_def)
    have v: "in_flight s' = in_flight ?s" "mapped_at s' = mapped_at ?s" "chunk_at s' = chunk_at ?s"
      by (simp_all add: s' blk_mq_end_request_def fun_eq_iff in_flight_def ctx_of_def mapped_at_def chunk_at_def)
    have "\<not> remote_bit ?s p" if "p \<in> rq_pages req" for p
      using bsimD(11) [OF sim] req that EndReq q by (simp add: diskonly_inv_def)
    then have nb: False if "p \<in> rq_pages req" "mapped_at ?s (p div 2 ^ 18) c i" "rc_bitmap (chunk_at ?s c i) = Some bm"
      "bm_bit bm (int (p mod 2 ^ 18))" for p c i bm
      using that unfolding remote_bit_def by blast
    have fr: "rq_id qq \<noteq> r" if "in_flight ?s x k" "cx_req k = Some qq" for x k qq
      using flight_pending(2) [OF sim that] q EndReq by auto
    have eb: "ended_by b = [r]" by (simp add: ended_by_def EndReq)
    have "store_ok (Ended [r]) v \<and> bsim (store_next (Ended [r]) v)
        ((y\<lparr>y_dev := s', y_disk := ?d\<rparr>)\<lparr>y_pend := drop_pend [r] (y_pend (y\<lparr>y_dev := s', y_disk := ?d\<rparr>))\<rparr>)"
    proof (rule bsim_ended [OF sim2])
      fix r' req' p c i bm
      assume "r' \<in> set [r]" "y_pend (y\<lparr>y_dev := s', y_disk := ?d\<rparr>) r' = Some req'" "p \<in> rq_pages req'"
        "mapped_at (y_dev (y\<lparr>y_dev := s', y_disk := ?d\<rparr>)) (p div 2 ^ 18) c i"
        "rc_bitmap (chunk_at (y_dev (y\<lparr>y_dev := s', y_disk := ?d\<rparr>)) c i) = Some bm" "bm_bit bm (int (p mod 2 ^ 18))"
      then show "y_rmem (y\<lparr>y_dev := s', y_disk := ?d\<rparr>) c (rc_rkey (chunk_at (y_dev (y\<lparr>y_dev := s', y_disk := ?d\<rparr>)) c i))
          (chunk_addr (y_dev (y\<lparr>y_dev := s', y_disk := ?d\<rparr>)) c i (p mod 2 ^ 18)) = rq_content req' p"
        using nb [of p c i bm] req v by simp
    qed (use qr req fr v in simp_all)
    then show ?thesis unfolding eb by simp
  next
    case (EndCtx x)
    have i: "IS_insert_ctx x ?t = Inr s'" using e EndCtx by (simp add: IS_stackbd_end_io_def)
    note c = ctx_invD [OF bsimD(4) [OF sim]]
    have x: "x \<in> set (queue_ctxs (queue ?s))" "x \<notin> set (queue_ctxs ?q)" using c(3) by (auto simp: q EndCtx)
    have "\<not> in_flight ?s x k" for k using b(3) EndCtx by (auto simp: bio_in_time_def in_flight_def)
    then have l: "loose ?t x"
      using x c(6) [of x] c(7) [OF x(1)] unfolding loose_def by (auto simp: in_flight_def ctx_of_def is_free_def frees_def queue_def)
    have "bsim v (y\<lparr>y_dev := s', y_disk := ?d\<rparr>)"
      by (rule bsim_core_sys [OF bsim_insert [OF sim1, of x s']]) (use i l in simp_all)
    then show ?thesis using none EndCtx by (simp add: ended_by_def)
  qed
qed

lemma bsim_disk_read:
  assumes sim: "bsim v y" and b: "b_raw_bios (y_dev y) = b # bs" "\<not> sb_write b" "sb_end b = EndReq r"
    and e: "IS_stackbd_end_io b 0 ((y_dev y)\<lparr>b_raw_bios := bs\<rparr>) = Inr s'"
  shows "store_ok (Delivered r (y_disk y (bio_page b))) v \<and> bsim (store_next (Delivered r (y_disk y (bio_page b))) v)
    (y\<lparr>y_dev := s', y_pend := drop_pend [r] (y_pend y)\<rparr>)"
proof -
  let ?s = "y_dev y" and ?q = "bs @ b_bio_list (y_dev y)"
  have q: "queue ?s = b # ?q" by (simp add: queue_def b(1))
  have d: "apply_bio (b_bufs ?s) b dd = dd" for dd using b(2) by (simp add: apply_bio_def bio_hits_def)
  have s': "s' = blk_mq_end_request r 0 (?s\<lparr>b_raw_bios := bs\<rparr>)" using e b(3) by (simp add: IS_stackbd_end_io_def)
  have sim1: "bsim v (y\<lparr>y_dev := s'\<rparr>)"
    by (rule bsim_core_sys [OF bsim_pop [OF sim q]]) (simp_all add: s' same_core_def queue_def set_queue_def blk_mq_end_request_def d)
  have ok: "bio_ok (y_pend y) b" using bsimD(5) [OF sim] q by (simp add: queue_inv_def Let_def)
  obtain req where req: "y_pend y r = Some req" "bio_page b = rq_page req" using bio_okD(4) [OF ok b(2)] b(3) by auto
  have nw: "\<not> rq_write req" using bio_okD(3) [OF ok b(3)] req(1) b(2) by auto
  have "\<forall>b' \<in> set ?q. \<not> bio_hits b' (bio_page b)" using bsimD(5) [OF sim] b(2) by (simp add: queue_inv_def Let_def q)
  then have "flushed y (rq_page req) = y_disk y (rq_page req)"
    using not_hit_flushed [of ?q "rq_page req"] req(2) by (simp add: flushed_def q d)
  moreover have "\<not> pend_writes (y_pend y) (rq_page req) q'" for q'
  proof
    assume "pend_writes (y_pend y) (rq_page req) q'"
    then obtain r' where r': "y_pend y r' = Some q'" "rq_write q'" "rq_page req \<in> rq_pages q'"
      by (auto simp: pend_writes_def)
    then have "r' \<noteq> r" using req(1) nw by auto
    then show False
      using pend_inv_disjoint [OF bsimD(6) [OF sim] r'(1) req(1)] r'(3)
        rq_page_in [OF pend_invD(2) [OF bsimD(6) [OF sim] req(1)]] by blast
  qed
  ultimately have dd: "y_disk y (bio_page b) = v_store v (rq_page req)"
    using bsimD(9) [OF sim] req(2) by (auto simp: disk_inv_def)
  have fr: "rq_id qq \<noteq> r" if "in_flight s' x k" "cx_req k = Some qq" for x k qq
  proof -
    have "in_flight ?s x k" using that(1) by (simp add: s' blk_mq_end_request_def in_flight_def ctx_of_def)
    from flight_pending(2) [OF sim this that(2)] show ?thesis using q b(3) by auto
  qed
  have "r \<notin> set (queue_reqs (queue s'))"
    using bsimD(5) [OF sim] b(3) by (simp add: queue_inv_def Let_def s' queue_def b(1) blk_mq_end_request_def)
  with bsim_delivered [OF sim1, of r req, OF _ nw dd] req(1) fr show ?thesis by simp
qed

end
