(* ===== verification/Block_Request_Steps.thy ===== *)
theory Block_Request_Steps
  imports Block_Submit
begin

text \<open>The outcomes of \<^verbatim>\<open>IS_request\<close> keep the relation.\<close>

section \<open>The bios of a request\<close>

definition page_bio :: "request \<Rightarrow> nat \<Rightarrow> bio_end \<Rightarrow> sbio" where
  "page_bio req k e = \<lparr>sb_write = rq_write req, sb_sector = rq_pos req + 8 * word_of_nat k, sb_pages = 1,
     sb_src = Pages [rq_data req k], sb_end = e\<rparr>"

lemma page_bio_page:
  assumes "page_request s req" "k < rq_npages req"
  shows "bio_page (page_bio req k e) = rq_page req + k"
proof -
  note g = page_requestD [OF assms(1)]
  have "unat (rq_pos req + 8 * word_of_nat k) = 8 * (rq_page req + k)"
    using g(1,5,6) assms(2) by (simp add: unat_word_ariths unat_of_nat)
  then show ?thesis by (simp add: bio_page_def page_bio_def)
qed

lemma disk_bios_pages:
  assumes "page_request s req"
  obtains n where "rq_npages req = Suc n"
    "disk_bios req = map (\<lambda>k. page_bio req k EndNone) [0 ..< n] @ [page_bio req n (EndReq (rq_id req))]"
proof -
  note g = page_requestD [OF assms]
  obtain n where n: "rq_npages req = Suc n" using g(3) by (cases "rq_npages req") auto
  have nth: "bio_clone (rq_write req) (rq_bios req ! k) = page_bio req k EndNone" if "k < Suc n" for k
    using g(9) [of k] that n by (simp add: good_bio_def bio_clone_def page_bio_def)
  have "butlast (rq_bios req) = map (\<lambda>k. rq_bios req ! k) [0 ..< n]"
    using g(7) n by (intro nth_equalityI) (simp_all add: nth_butlast)
  moreover have "last (rq_bios req) = rq_bios req ! n" using g(7) n last_conv_nth [of "rq_bios req"] by force
  ultimately have "disk_bios req = map (\<lambda>k. page_bio req k EndNone) [0 ..< n] @ [page_bio req n (EndReq (rq_id req))]"
    using nth by (simp add: disk_bios_def page_bio_def)
  with n show thesis using that by blast
qed

lemma page_bio_hits:
  "page_request s req \<Longrightarrow> k < rq_npages req \<Longrightarrow> bio_hits (page_bio req k e) p \<longleftrightarrow> rq_write req \<and> p = rq_page req + k"
  using page_bio_page [of s req k e] by (auto simp: bio_hits_def) (auto simp: page_bio_def)

lemma page_bio_apply:
  assumes "page_request s req" "k < rq_npages req"
  shows "apply_bio bufs (page_bio req k e) d p = (if rq_write req \<and> p = rq_page req + k then rq_data req k else d p)"
proof -
  have "sb_src (page_bio req k e) = Pages [rq_data req k]" by (simp add: page_bio_def)
  then show ?thesis using page_bio_hits [OF assms] page_bio_page [OF assms] by (simp add: apply_bio_def bio_data_def)
qed

lemma page_bios_apply:
  assumes "page_request s req"
  shows "m \<le> rq_npages req \<Longrightarrow> fold (apply_bio bufs) (map (\<lambda>k. page_bio req k EndNone) [0 ..< m]) d p =
    (if rq_write req \<and> rq_page req \<le> p \<and> p < rq_page req + m then rq_data req (p - rq_page req) else d p)"
proof (induction m)
  case (Suc m)
  have "\<not> (rq_page req \<le> p \<and> p < rq_page req + m)" if "p = rq_page req + m" using that by simp
  with Suc page_bio_apply [OF assms, of m bufs EndNone] show ?case by (auto simp: less_Suc_eq)
qed auto

lemma disk_bios_apply:
  assumes "page_request s req"
  shows "fold (apply_bio bufs) (disk_bios req) d p =
    (if rq_write req \<and> p \<in> rq_pages req then rq_content req p else d p)"
proof -
  obtain n where n: "rq_npages req = Suc n"
    "disk_bios req = map (\<lambda>k. page_bio req k EndNone) [0 ..< n] @ [page_bio req n (EndReq (rq_id req))]"
    by (rule disk_bios_pages [OF assms])
  show ?thesis
    using page_bios_apply [OF assms, of n bufs d p] page_bio_apply [OF assms, of n bufs] n(1)
    by (auto simp: n(2) rq_pages_def rq_content_def)
qed

lemma disk_bios_facts:
  assumes "page_request s req"
  shows "queue_ctxs (disk_bios req) = []" "queue_reqs (disk_bios req) = [rq_id req]" "reads_ordered (disk_bios req)"
    "b \<in> set (disk_bios req) \<Longrightarrow> bio_hits b p \<Longrightarrow> rq_write req \<and> p \<in> rq_pages req"
    "b \<in> set (disk_bios req) \<Longrightarrow> m (rq_id req) = Some req \<Longrightarrow> bio_ok m b"
proof -
  obtain n where n: "rq_npages req = Suc n"
    "disk_bios req = map (\<lambda>k. page_bio req k EndNone) [0 ..< n] @ [page_bio req n (EndReq (rq_id req))]"
    by (rule disk_bios_pages [OF assms])
  have z: "queue_ctxs (map (\<lambda>k. page_bio req k EndNone) xs) = []"
    "queue_reqs (map (\<lambda>k. page_bio req k EndNone) xs) = []" for xs
    by (induction xs) (simp_all add: page_bio_def)
  show "queue_ctxs (disk_bios req) = []" "queue_reqs (disk_bios req) = [rq_id req]"
    by (simp_all add: n(2) z) (simp_all add: page_bio_def)
  have w: "reads_ordered q" if "\<forall>b \<in> set q. sb_write b" for q using that by (induction q) auto
  have one: "n = 0" if "\<not> rq_write req" using page_requestD(10) [OF assms that] n(1) by simp
  show "reads_ordered (disk_bios req)"
  proof (cases "rq_write req")
    case True
    then show ?thesis by (intro w) (auto simp: n(2) page_bio_def)
  next
    case False
    then show ?thesis using one by (simp add: n(2))
  qed
  show "rq_write req \<and> p \<in> rq_pages req" if "b \<in> set (disk_bios req)" "bio_hits b p"
    using that page_bio_hits [OF assms] n(1) by (auto simp: n(2) rq_pages_def)
  show "bio_ok m b" if b: "b \<in> set (disk_bios req)" "m (rq_id req) = Some req"
  proof -
    obtain k where k: "b = page_bio req k (if k = n then EndReq (rq_id req) else EndNone)" "k \<le> n"
    proof (cases "b = page_bio req n (EndReq (rq_id req))")
      case True
      then show ?thesis by (intro that [of n]) simp_all
    next
      case False
      then obtain k where "k < n" "b = page_bio req k EndNone" using b(1) by (auto simp: n(2))
      then show ?thesis by (intro that [of k]) simp_all
    qed
    show ?thesis
    proof (rule bio_okI)
      assume "\<not> sb_write b"
      then have nw: "\<not> rq_write req" using k(1) by (simp add: page_bio_def)
      then have "k = 0" "n = 0" using one k(2) by simp_all
      moreover have "bio_page b = rq_page req"
        using page_bio_page [OF assms, of 0] n(1) k(1) \<open>k = 0\<close> by simp
      ultimately show "\<exists>r q. sb_end b = EndReq r \<and> m r = Some q \<and> bio_page b = rq_page q"
        using b(2) k(1) by (auto simp: page_bio_def)
    qed (use b(2) k(1) in \<open>auto simp: page_bio_def split: if_splits\<close>)
  qed
qed

lemma write_bio_facts:
  assumes "page_request s req" "rq_write req"
  shows "bio_page (write_bio x req) = rq_page req" "sb_write (write_bio x req)"
    "bio_hits (write_bio x req) p \<longleftrightarrow> p \<in> rq_pages req" "bio_ok m (write_bio x req)"
    "(\<And>k. k < rq_npages req \<Longrightarrow> bufs x k = rq_data req k) \<Longrightarrow>
      apply_bio bufs (write_bio x req) d p = (if p \<in> rq_pages req then rq_content req p else d p)"
proof -
  note g = page_requestD [OF assms(1)]
  have "rq_bios req \<noteq> []" using g(3,7) by auto
  then have hd: "bi_sector (hd (rq_bios req)) = rq_pos req"
    using g(9) [of 0] g(3) by (simp add: hd_conv_nth good_bio_def)
  then show p: "bio_page (write_bio x req) = rq_page req"
    by (simp add: bio_page_def write_bio_def bio_clone_def rq_page_def)
  show w: "sb_write (write_bio x req)" by (simp add: write_bio_def bio_clone_def assms(2))
  show h: "bio_hits (write_bio x req) p \<longleftrightarrow> p \<in> rq_pages req"
    unfolding bio_hits_def p using w by (simp add: rq_pages_def) (simp add: write_bio_def)
  show "bio_ok m (write_bio x req)" by (rule bio_okI) (use w in \<open>simp_all add: write_bio_def\<close>)
  show "apply_bio bufs (write_bio x req) d p = (if p \<in> rq_pages req then rq_content req p else d p)"
    if "\<And>k. k < rq_npages req \<Longrightarrow> bufs x k = rq_data req k"
    unfolding apply_bio_def h bio_data_def p
    using that [of "p - rq_page req"] by (auto simp: write_bio_def rq_content_def rq_pages_def)
qed

section \<open>To the disk\<close>

lemma add_bios_core: "same_core (set_queue (queue s @ bs) s) (add_bios bs s)"
proof -
  have "queue (add_bios bs s) = queue s @ bs" by (simp add: queue_def add_bios_def)
  then show ?thesis by (simp add: same_core_def) (simp add: add_bios_def)
qed

lemma bsim_to_disk:
  assumes sim: "bsim v y" and req: "page_request (y_dev y) req"
    and pend: "y_pend y (rq_id req) = None \<or> y_pend y (rq_id req) = Some req \<and> \<not> rq_write req"
    and excl: "\<And>r q. y_pend y r = Some q \<Longrightarrow> r \<noteq> rq_id req \<Longrightarrow> rq_pages req \<inter> rq_pages q = {}"
    and new: "rq_id req \<notin> set (queue_reqs (queue (y_dev y)))"
      "\<And>x k q. in_flight (y_dev y) x k \<Longrightarrow> cx_req k = Some q \<Longrightarrow> rq_id q \<noteq> rq_id req"
    and only: "\<And>p. rq_write req \<Longrightarrow> p \<in> rq_pages req \<Longrightarrow> \<not> remote_bit (y_dev y) p"
  shows "bsim (v\<lparr>v_pend := (v_pend v)(rq_id req \<mapsto> req)\<rparr>)
    (y\<lparr>y_dev := add_bios (disk_bios req) (y_dev y), y_pend := (y_pend y)(rq_id req \<mapsto> req)\<rparr>)"
proof -
  note f = disk_bios_facts [OF req]
  have "bsim (v\<lparr>v_pend := (v_pend v)(rq_id req \<mapsto> req)\<rparr>)
    (y\<lparr>y_dev := set_queue (queue (y_dev y) @ disk_bios req) (y_dev y), y_pend := (y_pend y)(rq_id req \<mapsto> req)\<rparr>)"
    by (rule bsim_submit [OF sim req pend excl])
      (use f(1-4) f(5) [where m = "(y_pend y)(rq_id req \<mapsto> req)"] disk_bios_apply [OF req] new only in auto)
  then show ?thesis
    by (rule bsim_core_sys) (simp_all add: add_bios_core)
qed

section \<open>Bits are cleared\<close>

lemma put_bitmap_simps [simp]:
  "cmap (put_bitmap c i bm s) c' i' = cmap s c' i'" "rmap (put_bitmap c i bm s) c' i' = rmap s c' i'"
  "emap (put_bitmap c i bm s) c' i' = emap s c' i'"
  "chunk_at (put_bitmap c i bm s) c' i' =
     (if c' = c \<and> i' = i then (chunk_at s c i)\<lparr>rc_bitmap := Some bm\<rparr> else chunk_at s c' i')"
  "mapped_at (put_bitmap c i bm s) = mapped_at s" "is_server (put_bitmap c i bm s) = is_server s"
  "failed (put_bitmap c i bm s) = failed s" "unused (put_bitmap c i bm s) = unused s"
  "b_cb_num (put_bitmap c i bm s) = b_cb_num s" "b_queues (put_bitmap c i bm s) = b_queues s"
  "b_sgl (put_bitmap c i bm s) = b_sgl s" "queue (put_bitmap c i bm s) = queue s"
  "b_pools (put_bitmap c i bm s) = b_pools s" "b_bufs (put_bitmap c i bm s) = b_bufs s"
  "b_wrs (put_bitmap c i bm s) = b_wrs s" "b_cb_index_map (put_bitmap c i bm s) = b_cb_index_map s"
  "b_chunk_map_cb_chunk (put_bitmap c i bm s) = b_chunk_map_cb_chunk s"
  "b_free_chunk_index (put_bitmap c i bm s) = b_free_chunk_index s"
  "b_cb_state_list (put_bitmap c i bm s) = b_cb_state_list s"
  by (auto simp: put_bitmap_def chunk_at_def)

lemma put_bitmap_map_inv:
  assumes "map_inv s" "full_bitmap bm"
  shows "map_inv (put_bitmap c i bm s)"
proof -
  have "map_bitmaps (put_bitmap c i bm s)" using assms by (simp add: map_inv_def map_bitmaps_def)
  moreover have "rc_rkey (chunk_at (put_bitmap c i bm s) c' i') = rc_rkey (chunk_at s c' i')" for c' i' by simp
  then have "map_keys (put_bitmap c i bm s)"
    using assms(1) by (simp add: map_inv_def map_keys_def del: put_bitmap_simps(4))
  ultimately show ?thesis
    using assms(1) by (simp add: map_inv_def map_routed_def map_owned_def owned_at_def map_unused_def map_unique_def map_free_def)
qed

lemma put_bitmap_io: "same_io s (put_bitmap c i bm s)"
  by (simp add: same_io_def)

lemma put_bitmap_evict:
  "evicting (y\<lparr>y_dev := put_bitmap c i bm (y_dev y)\<rparr>) = evicting y"
  "evict_inv (y\<lparr>y_dev := put_bitmap c i bm (y_dev y)\<rparr>) = evict_inv y"
  "chunk_here (y\<lparr>y_dev := put_bitmap c i bm (y_dev y)\<rparr>) = chunk_here y"
proof -
  show e: "evicting (y\<lparr>y_dev := put_bitmap c i bm (y_dev y)\<rparr>) = evicting y" by (simp add: evicting_def fun_eq_iff)
  show "evict_inv (y\<lparr>y_dev := put_bitmap c i bm (y_dev y)\<rparr>) = evict_inv y"
    unfolding evict_inv_def Let_def e by simp
  show "chunk_here (y\<lparr>y_dev := put_bitmap c i bm (y_dev y)\<rparr>) = chunk_here y"
    unfolding chunk_here_def e by (simp add: fun_eq_iff)
qed

lemma bsim_fewer_bits:
  assumes sim: "bsim v y" and bm: "rc_bitmap (chunk_at (y_dev y) c i) = Some bm" "full_bitmap bm'"
    "\<And>q. q < 2 ^ 18 \<Longrightarrow> bm_bit bm' (int q) \<Longrightarrow> bm_bit bm (int q)"
  shows "bsim v (y\<lparr>y_dev := put_bitmap c i bm' (y_dev y)\<rparr>)"
proof (rule bsim_maps [OF sim])
  let ?s = "y_dev y" and ?y = "y\<lparr>y_dev := put_bitmap c i bm' (y_dev y)\<rparr>"
  show "same_io ?s (y_dev ?y)" "map_inv (y_dev ?y)" "evict_inv ?y"
    using put_bitmap_io put_bitmap_map_inv [OF bsimD(2) [OF sim] bm(2)] bsimD(3) [OF sim] put_bitmap_evict(2) by simp_all
  show "mapped_at ?s g c' i' \<and> (\<exists>bm0. rc_bitmap (chunk_at ?s c' i') = Some bm0 \<and> bm_bit bm0 (int q)) \<and>
      rc_rkey (chunk_at (y_dev ?y) c' i') = rc_rkey (chunk_at ?s c' i') \<and>
      rc_addr (chunk_at (y_dev ?y) c' i') = rc_addr (chunk_at ?s c' i')"
    if "mapped_at (y_dev ?y) g c' i'" "rc_bitmap (chunk_at (y_dev ?y) c' i') = Some b" "q < 2 ^ 18" "bm_bit b (int q)"
    for g c' i' b q
    using that bm(1) bm(3) [of q] by (auto split: if_splits)
qed (simp_all add: put_bitmap_evict(3))

text \<open>The bitmap of a chunk that is mapped.\<close>

lemma mapped_bitmap:
  assumes "map_inv s" "mapped_at s g c i"
  obtains bm where "rc_bitmap (chunk_at s c i) = Some bm" "full_bitmap bm" "rmap s c i"
proof -
  note m = mapped_not_unused [OF assms]
  obtain h where "owned_at s c i h" using m(1,2) assms(1) by (auto simp: map_inv_def elim: map_ownedE)
  then have "rmap s c i" using m(4) by (simp add: owned_at_def)
  then show thesis using that m(2) assms(1) unfolding map_inv_def map_bitmaps_def by blast
qed

definition cleared :: "nat \<Rightarrow> 64 word \<Rightarrow> 64 word \<Rightarrow> bdev \<Rightarrow> bdev \<Rightarrow> bool" where
  "cleared g off len s s' \<longleftrightarrow> same_io s s' \<and> mapped_at s' = mapped_at s \<and>
     (\<forall>p. remote_bit s' p \<longrightarrow> remote_bit s p \<and> \<not> (p div 2 ^ 18 = g \<and> in_pages off len (p mod 2 ^ 18)))"

lemma bsim_clear_part:
  assumes sim: "bsim v y" and cl: "clear_part True (int g) off len (y_dev y) = Inr s'" and len: "in_chunk off len"
  shows "bsim v (y\<lparr>y_dev := s'\<rparr>)" "cleared g off len (y_dev y) s'"
proof -
  let ?s = "y_dev y"
  have "bsim v (y\<lparr>y_dev := s'\<rparr>) \<and> cleared g off len ?s s'"
  proof (cases "\<exists>c i. mapped_at ?s g c i")
    case False
    have "s' = ?s"
    proof (rule ccontr)
      assume "s' \<noteq> ?s"
      then have "mapped_at ?s g (nat (b_cb_index_map ?s g)) (nat (b_chunk_map_cb_chunk ?s g))"
        using cl by (auto simp: clear_part_def rbind_eq_Inr aget_Inr mapped_at_def in_bounds_def nat_less_iff split: if_splits)
      with False show False by blast
    qed
    then show ?thesis using sim False by (auto simp: cleared_def same_io_def remote_bit_def)
  next
    case True
    then obtain c i where m: "mapped_at ?s g c i" by blast
    obtain bm where bm: "rc_bitmap (chunk_at ?s c i) = Some bm" "full_bitmap bm" "rmap ?s c i"
      by (rule mapped_bitmap [OF bsimD(2) [OF sim] m])
    obtain bm' where bm': "IS_bitmap_group_clear off len bm = Inr bm'" "full_bitmap bm'"
      "\<And>p. p < 2 ^ 18 \<Longrightarrow> bm_bit bm' (int p) \<longleftrightarrow> \<not> in_pages off len p \<and> bm_bit bm (int p)"
      by (rule group_clear_bits [OF bm(2) len]) blast
    have s': "s' = put_bitmap c i bm' ?s"
      using cl m bm(1) bm'(1) by (simp add: clear_part_def aget_def mapped_at_def on_bitmap_def bitmap_at_def)
    have "remote_bit ?s p \<and> \<not> (p div 2 ^ 18 = g \<and> in_pages off len (p mod 2 ^ 18))" if "remote_bit s' p" for p
    proof -
      obtain c' i' b where b: "mapped_at ?s (p div 2 ^ 18) c' i'" "rc_bitmap (chunk_at s' c' i') = Some b"
        "bm_bit b (int (p mod 2 ^ 18))" using \<open>remote_bit s' p\<close> by (auto simp: remote_bit_def s')
      have q: "p mod 2 ^ 18 < (2 ^ 18 :: nat)" by simp
      show ?thesis
      proof (cases "c' = c \<and> i' = i")
        case True
        then have "b = bm'" using b(2) by (simp add: s')
        then have "\<not> in_pages off len (p mod 2 ^ 18)" "bm_bit bm (int (p mod 2 ^ 18))" using b(3) bm'(3) [OF q] by auto
        then show ?thesis using b(1) bm(1) True unfolding remote_bit_def by blast
      next
        case False
        then have "p div 2 ^ 18 \<noteq> g" using b(1) m by (auto simp: mapped_at_def)
        then show ?thesis using b False by (auto simp: remote_bit_def s' split: if_splits)
      qed
    qed
    moreover have "bsim v (y\<lparr>y_dev := s'\<rparr>)"
      unfolding s' by (rule bsim_fewer_bits [OF sim bm(1) bm'(2)]) (use bm'(3) in blast)
    ultimately show ?thesis by (simp add: cleared_def s' put_bitmap_io)
  qed
  then show "bsim v (y\<lparr>y_dev := s'\<rparr>)" "cleared g off len ?s s'" by blast+
qed

end
