(* ===== verification/Block_Posted.thy ===== *)
theory Block_Posted
  imports Block_Request_Steps
begin

text \<open>A request is submitted: to the disk, over two chunks, or to a memory server.\<close>

unbundle bit_operations_syntax

lemma counted_core: "same_core s (counted req s)"
  by (simp add: same_core_def queue_def)

lemma exclusiveD:
  assumes "exclusive req m"
  shows "m (rq_id req) = None" "m r = Some q \<Longrightarrow> rq_pages req \<inter> rq_pages q = {}"
  using assms by (auto simp: exclusive_def)

text \<open>A request that was not pending is neither queued nor in flight.\<close>

lemma new_request:
  assumes "bsim v y" "y_pend y r = None"
  shows "r \<notin> set (queue_reqs (queue (y_dev y)))"
    "in_flight (y_dev y) x k \<Longrightarrow> cx_req k = Some q \<Longrightarrow> rq_id q \<noteq> r"
  using queued_pending [OF assms(1), of r] flight_pending(1) [OF assms(1), of x k q] assms(2) by auto

section \<open>To the disk\<close>

lemma bsim_submit_disk:
  assumes sim: "bsim v y" and req: "page_request (y_dev y) req" "exclusive req (y_pend y)"
    and only: "\<And>p. rq_write req \<Longrightarrow> p \<in> rq_pages req \<Longrightarrow> \<not> remote_bit (y_dev y) p"
  shows "bsim (store_next (Submitted req) v)
    (y\<lparr>y_dev := add_bios (disk_bios req) (y_dev y), y_pend := (y_pend y)(rq_id req \<mapsto> req)\<rparr>)"
proof -
  note n = new_request [OF sim exclusiveD(1) [OF req(2)]]
  have "bsim (v\<lparr>v_pend := (v_pend v)(rq_id req \<mapsto> req)\<rparr>)
      (y\<lparr>y_dev := add_bios (disk_bios req) (y_dev y), y_pend := (y_pend y)(rq_id req \<mapsto> req)\<rparr>)"
    by (rule bsim_to_disk [OF sim req(1)]) (use exclusiveD [OF req(2)] n only in auto)
  then show ?thesis by simp
qed

lemma page_in_chunk:
  assumes "page_request s req" "rq_chunk req = rq_last_chunk req" "p \<in> rq_pages req"
  shows "p div 2 ^ 18 = rq_chunk req"
proof -
  have "rq_page req \<le> p" "p \<le> rq_page req + rq_npages req - 1" using assms(3) by (auto simp: rq_pages_def)
  then have "rq_page req div 2 ^ 18 \<le> p div 2 ^ 18" "p div 2 ^ 18 \<le> (rq_page req + rq_npages req - 1) div 2 ^ 18"
    by (simp_all only: div_le_mono)
  then show ?thesis using assms(2) by (simp add: rq_chunk_def rq_last_chunk_def)
qed

lemma submit_disk:
  assumes sim: "bsim v y" and req: "page_request (y_dev y) req" "exclusive req (y_pend y)" "calm req (y_dev y)"
    and d: "disk_outcome req (y_dev y) s'"
  shows "bsim (store_next (Submitted req) v) (y\<lparr>y_dev := s', y_pend := (y_pend y)(rq_id req \<mapsto> req)\<rparr>)"
proof -
  let ?s = "y_dev y"
  have o: "rq_chunk req = rq_last_chunk req" "rq_write req \<Longrightarrow> b_rdma_on ?s \<Longrightarrow> \<not> mapped_at ?s (rq_chunk req) c i"
    "s' = add_bios (disk_bios req) (counted req ?s)" for c i
    using d by (auto simp: disk_outcome_def)
  have c: "bsim v (y\<lparr>y_dev := counted req ?s\<rparr>)" by (rule bsim_core [OF sim counted_core])
  have "\<not> remote_bit ?s p" if p: "rq_write req" "p \<in> rq_pages req" for p
  proof (cases "b_rdma_on ?s")
    case True
    then show ?thesis using o(2) [OF p(1)] page_in_chunk [OF req(1) o(1) p(2)] by (simp add: remote_bit_def)
  next
    case False
    then show ?thesis using req(3) p by (simp add: calm_def)
  qed
  then have "\<not> remote_bit (counted req ?s) p" if "rq_write req" "p \<in> rq_pages req" for p
    using that core_view(11) [OF counted_core [of ?s req]] by metis
  with bsim_submit_disk [OF c] req(1,2) o(3) show ?thesis by simp
qed

section \<open>Over two chunks\<close>

lemma split_pages:
  assumes g: "page_request s req" and n: "rq_chunk req \<noteq> rq_last_chunk req"
  defines "off \<equiv> rq_start req AND ONE_GB_MASK"
  shows "rq_write req" "in_chunk off (word_of_nat ONE_GB - off)"
    "in_chunk 0 (off + rq_bytes req - word_of_nat ONE_GB)"
    "p \<in> rq_pages req \<Longrightarrow> p div 2 ^ 18 = rq_chunk req \<and> in_pages off (word_of_nat ONE_GB - off) (p mod 2 ^ 18) \<or>
       p div 2 ^ 18 = rq_last_chunk req \<and> in_pages 0 (off + rq_bytes req - word_of_nat ONE_GB) (p mod 2 ^ 18)"
proof -
  note d = page_requestD [OF g]
  let ?a = "rq_page req" and ?n = "rq_npages req" and ?K = "2 ^ 18 :: nat"
  let ?m = "?a mod ?K"
  show "rq_write req" by (rule ccontr) (use d(10) n in \<open>simp add: rq_chunk_def rq_last_chunk_def\<close>)
  have ad: "?a = ?K * (?a div ?K) + ?m" "?m < ?K" by (rule mult_div_mod_eq [symmetric]) simp
  have gt: "?K < ?m + ?n"
  proof (rule ccontr)
    assume "\<not> ?K < ?m + ?n"
    then have "?a + ?n - 1 = ?K * (?a div ?K) + (?m + ?n - 1)" "?m + ?n - 1 < ?K" using ad d(3) by linarith+
    then have "(?a + ?n - 1) div ?K = ?a div ?K" by simp
    then show False using n by (simp add: rq_chunk_def rq_last_chunk_def)
  qed
  have off: "unat off = 4096 * ?m" unfolding off_def by (rule chunk_offset_val [OF g])
  have one: "unat (word_of_nat ONE_GB :: 64 word) = 4096 * ?K" by (simp add: ONE_GB_def)
  have l1: "unat (word_of_nat ONE_GB - off) = 4096 * (?K - ?m)"
    using off one ad(2) by (simp add: unat_sub word_le_nat_alt)
  have "unat (off + rq_bytes req) = 4096 * (?m + ?n)"
    using off d(2,5) ad(2) by (simp add: unat_word_ariths)
  then have l2: "unat (off + rq_bytes req - word_of_nat ONE_GB) = 4096 * (?m + ?n - ?K)"
    using one gt by (simp add: unat_sub word_le_nat_alt)
  show "in_chunk off (word_of_nat ONE_GB - off)" using off l1 ad(2) by (simp add: in_chunk_def ONE_GB_def)
  show "in_chunk 0 (off + rq_bytes req - word_of_nat ONE_GB)"
    using l2 gt d(5) ad(2) by (simp add: in_chunk_def ONE_GB_def)
  have last: "rq_last_chunk req = ?a div ?K + 1"
  proof -
    have "(?K * q + m + n - 1) div ?K = q + 1" if "?K < m + n" "m < ?K" "n \<le> 32" for q m n :: nat
      using that by (intro div_nat_eqI) simp_all
    from this [OF gt ad(2) d(5), of "?a div ?K"] have "(?a + ?n - 1) div ?K = ?a div ?K + 1"
      using ad(1) by (simp only: add.assoc [symmetric])
    then show ?thesis by (simp add: rq_last_chunk_def)
  qed
  assume p: "p \<in> rq_pages req"
  then have pr: "?a \<le> p" "p < ?a + ?n" by (simp_all add: rq_pages_def)
  have pd: "p = ?K * (p div ?K) + p mod ?K" "p mod ?K < ?K" by (rule mult_div_mod_eq [symmetric]) simp
  show "p div 2 ^ 18 = rq_chunk req \<and> in_pages off (word_of_nat ONE_GB - off) (p mod 2 ^ 18) \<or>
      p div 2 ^ 18 = rq_last_chunk req \<and> in_pages 0 (off + rq_bytes req - word_of_nat ONE_GB) (p mod 2 ^ 18)"
  proof (cases "p < ?K * (?a div ?K + 1)")
    case True
    then have "p div ?K = ?a div ?K" using ad pr by (intro div_nat_eqI) (simp_all add: mult.commute)
    moreover from this have "?m \<le> p mod ?K" using pd(1) ad(1) pr(1) by (metis nat_add_left_cancel_le)
    ultimately show ?thesis using pd(2) off l1 by (simp add: rq_chunk_def in_pages_def)
  next
    case False
    then have "p div ?K = ?a div ?K + 1" using ad pr d(5) by (intro div_nat_eqI) (simp_all add: mult.commute)
    moreover from this have "p mod ?K < ?m + ?n - ?K" using pd(1) ad(1) pr(2) by (simp only: distrib_left)
    ultimately show ?thesis using l2 last by (simp add: in_pages_def)
  qed
qed

lemma submit_split:
  assumes sim: "bsim v y" and req: "page_request (y_dev y) req" "exclusive req (y_pend y)"
    and d: "split_outcome req (y_dev y) s'"
  shows "bsim (store_next (Submitted req) v) (y\<lparr>y_dev := s', y_pend := (y_pend y)(rq_id req \<mapsto> req)\<rparr>)"
proof -
  let ?s = "y_dev y" and ?c = "counted req (y_dev y)" and ?o = "rq_start req AND ONE_GB_MASK"
  have ne: "rq_chunk req \<noteq> rq_last_chunk req" using d by (simp add: split_outcome_def)
  note w = split_pages [OF req(1) ne]
  obtain s1 s2 where s: "clear_part True (int (rq_chunk req)) ?o (word_of_nat ONE_GB - ?o) ?c = Inr s1"
    "clear_part True (int (rq_last_chunk req)) 0 (?o + rq_bytes req - word_of_nat ONE_GB) s1 = Inr s2"
    "s' = add_bios (disk_bios req) s2"
    using d w(1) by (auto simp: split_outcome_def)
  have sim0: "bsim v (y\<lparr>y_dev := ?c\<rparr>)" by (rule bsim_core [OF sim counted_core])
  note c1 = bsim_clear_part [OF sim0, simplified, OF s(1) w(2)]
  note c2 = bsim_clear_part [OF c1(1), simplified, OF s(2) w(3)]
  have "\<not> remote_bit s2 p" if "p \<in> rq_pages req" for p
    using w(4) [OF that] c1(2) c2(2) unfolding cleared_def by blast
  moreover have "page_request s2 req"
    using req(1) c1(2) c2(2) by (simp add: cleared_def page_request_def same_io_def)
  ultimately show ?thesis using bsim_submit_disk [OF c2(1), of req] req(2) s(3) by simp
qed

section \<open>To a memory server\<close>

text \<open>A transfer starts: a context that is taken is in flight, and a work request is posted for it.\<close>

definition started :: "ctx_id \<Rightarrow> (rdma_ctx \<Rightarrow> rdma_ctx) \<Rightarrow> work_request \<Rightarrow> bdev \<Rightarrow> bdev" where
  "started x f w s = (mod_ctx x f s)\<lparr>b_wrs := (b_wrs s)(fst (snd x) := b_wrs s (fst (snd x)) @ [w])\<rparr>"

lemma started_simps [simp]:
  "ctx_of (started x f w s) z = (if z = x then map_option f (ctx_of s x) else ctx_of s z)"
  "frees (started x f w s) = frees s" "pools_ok (started x f w s) = pools_ok s" "b_bufs (started x f w s) = b_bufs s"
  "b_wrs (started x f w s) c = (if c = fst (snd x) then b_wrs s c @ [w] else b_wrs s c)"
  "same_maps s (started x f w s)"
proof -
  have e: "started x f w s = (mod_ctx x f s)\<lparr>b_wrs := (b_wrs s)(fst (snd x) := b_wrs s (fst (snd x)) @ [w])\<rparr>"
    by (simp add: started_def)
  show "ctx_of (started x f w s) z = (if z = x then map_option f (ctx_of s x) else ctx_of s z)"
  proof -
    have "ctx_of (started x f w s) z = ctx_of (mod_ctx x f s) z" by (simp add: e ctx_of_def)
    then show ?thesis by simp
  qed
  show "frees (started x f w s) = frees s"
  proof -
    have "frees (started x f w s) = frees (mod_ctx x f s)" by (simp add: e frees_def fun_eq_iff)
    then show ?thesis by (simp add: fun_eq_iff)
  qed
  show "pools_ok (started x f w s) = pools_ok s"
  proof -
    have "pools_ok (started x f w s) = pools_ok (mod_ctx x f s)" by (simp add: e pools_ok_def)
    then show ?thesis by simp
  qed
qed (simp_all add: started_def same_maps_iff queue_def)

lemma bsim_started:
  assumes sim: "bsim v y" and x: "x = (n, c, j)" "c < b_cb_num (y_dev y)" "ctx_of (y_dev y) x = Some k0"
    and free: "\<And>k. \<not> in_flight (y_dev y) x k" "\<not> is_free (y_dev y) x"
    and k: "cx_in_flight (f k0) = (if wr_write w then CTX_W_IN_FLIGHT else CTX_R_IN_FLIGHT)"
      "cx_req (f k0) = Some req" "cx_chunk_index (f k0) = int i" "flight_ok y x (f k0)"
      "\<not> wr_write w \<Longrightarrow> x \<notin> set (queue_ctxs (queue (y_dev y)))"
    and uniq: "\<And>x' k q. in_flight (y_dev y) x' k \<Longrightarrow> cx_req k = Some q \<Longrightarrow> rq_id q \<noteq> rq_id req"
    and same: "\<And>x' k q. in_flight (y_dev y) x' k \<Longrightarrow> cx_req k = Some q \<Longrightarrow> fst (snd x') = c \<Longrightarrow>
      cx_chunk_index k = int i \<Longrightarrow> rq_chunk q = rq_chunk req"
    and w: "w = request_wr (wr_write w) x c i req (y_dev y)"
      "\<not> wr_write w \<Longrightarrow> y_rmem y c (wr_rkey w) (wr_addr w) = v_store v (rq_page req)"
  shows "bsim v (y\<lparr>y_dev := started x f w (y_dev y)\<rparr>)"
proof -
  let ?s = "y_dev y" and ?y = "y\<lparr>y_dev := started x f w (y_dev y)\<rparr>"
  note s = sim [unfolded bsim_def] and i = ctx_invD [OF bsimD(4) [OF sim]]
  note m = maps_view [OF started_simps(6) [of ?s x f w]] and d = started_simps(6) [of ?s x f w, unfolded same_maps_iff]
  have ev: "evicting ?y = evicting y" using d by (simp add: evicting_def fun_eq_iff)
  have here: "chunk_here ?y = chunk_here y" using m d ev by (simp add: chunk_here_def fun_eq_iff)
  have k1: "cx_in_flight (f k0) \<noteq> CTX_IDLE" using k(1) by (simp split: if_splits)
  have fl: "in_flight (y_dev ?y) z kk \<longleftrightarrow> (if z = x then kk = f k0 else in_flight ?s z kk)" for z kk
    using x(3) k1 by (auto simp: in_flight_def)
  have fr: "is_free (y_dev ?y) = is_free ?s" by (simp add: is_free_def fun_eq_iff)
  have fs: "flushed ?y = flushed y" using m by (simp add: flushed_def)
  have "evict_inv ?y" using bsimD(3) [OF sim] m d ev by (simp add: evict_inv_def Let_def)
  moreover have "ctx_inv (y_dev ?y)"
  proof (rule ctx_invI)
    show "cx_in_flight kk \<noteq> CTX_R_IN_FLIGHT" if "z \<in> set (queue_ctxs (queue (y_dev ?y)))" "ctx_of (y_dev ?y) z = Some kk" for z kk
      using that i(9) [of z kk] k(1,5) x(3) m by (auto split: if_splits)
    show "snd (snd z) < IS_QUEUE_DEPTH \<and> (\<forall>k. \<not> in_flight (y_dev ?y) z k) \<and> z \<notin> set (queue_ctxs (queue (y_dev ?y)))"
      if "is_free (y_dev ?y) z" for z
    proof -
      have z: "is_free ?s z" "z \<noteq> x" using that fr free(2) by auto
      then show ?thesis using i(4-6) [OF z(1)] fl [of z] m by simp
    qed
  qed (use i m in simp_all)
  moreover have "queue_inv ?y" "pend_inv ?y" "disk_inv v ?y" "remote_inv v ?y" "diskonly_inv ?y"
    using s m fs by (simp_all add: queue_inv_def pend_inv_def disk_inv_def remote_inv_def diskonly_inv_def)
  moreover have "flight_inv ?y"
  proof (rule flight_invI)
    fix z kk assume z: "in_flight (y_dev ?y) z kk"
    have "flight_ok y z kk" using z fl [of z kk] flight_invD [OF bsimD(7) [OF sim]] k(4) by (simp split: if_splits)
    then show "flight_ok ?y z kk" by (rule flight_ok_transfer) (use m here in simp_all)
  next
    fix z kk z' kk'
    assume a: "in_flight (y_dev ?y) z kk" "in_flight (y_dev ?y) z' kk'"
    have sym: "compatible x (f k0) zz q" "compatible zz q x (f k0)" if "in_flight ?s zz q" for zz q
      using uniq [OF that] same [OF that] k(2,3) x(1) unfolding compatible_def by auto
    show "compatible z kk z' kk'"
    proof (cases "z = x \<or> z' = x")
      case True
      have self: "compatible x (f k0) x (f k0)" by (simp add: compatible_def)
      have "z = x \<Longrightarrow> kk = f k0" "z' = x \<Longrightarrow> kk' = f k0" "z \<noteq> x \<Longrightarrow> in_flight ?s z kk" "z' \<noteq> x \<Longrightarrow> in_flight ?s z' kk'"
        using a fl by simp_all
      then show ?thesis using True sym self by metis
    next
      case False
      then show ?thesis using flight_inv_compat [OF bsimD(7) [OF sim]] a fl by simp
    qed
  qed
  moreover have "wrs_inv v ?y"
  proof -
    have off: "wr_ctx w' \<noteq> x" if "wr_ok v y c' w'" for c' w'
      using that by (rule wr_okE) (use free(1) in \<open>auto simp: in_flight_def split: if_splits\<close>)
    have old: "wr_ok v ?y c' w'" if "wr_ok v y c' w'" for c' w'
      by (rule wr_ok_transfer [OF that]) (use off [OF that] m(1) in simp_all)
    have wc: "wr_ctx w = x" by (subst w(1)) (simp add: request_wr_def)
    have new: "wr_ok v ?y c w"
    proof (rule wr_okI)
      show "w = request_wr (wr_write w) (wr_ctx w) c i req (y_dev ?y)" using w(1) m(11) wc by simp
    qed (use x wc k(1-3) w(2) in simp_all)
    show ?thesis
      unfolding wrs_inv_def
    proof (intro allI impI)
      fix c' assume c': "c' < b_cb_num (y_dev ?y)" "\<not> failed (y_dev ?y) c'"
      have o: "distinct (map wr_ctx (b_wrs ?s c'))" "\<forall>w' \<in> set (b_wrs ?s c'). wr_ok v y c' w'"
        using bsimD(8) [OF sim] c' m by (simp_all add: wrs_inv_def)
      then have "x \<notin> set (map wr_ctx (b_wrs ?s c'))" using off by auto
      then show "distinct (map wr_ctx (b_wrs (y_dev ?y) c')) \<and> (\<forall>w' \<in> set (b_wrs (y_dev ?y) c'). wr_ok v ?y c' w')"
        using o old new wc x(1) by auto
    qed
  qed
  ultimately show ?thesis using s m by (simp add: bsim_def)
qed

lemma chunk_offset_word:
  assumes "page_request s req"
  shows "rq_start req AND ONE_GB_MASK = 4096 * word_of_nat (rq_page req mod 2 ^ 18)"
proof -
  have "unat (4096 * word_of_nat (rq_page req mod 2 ^ 18) :: 64 word) = 4096 * (rq_page req mod 2 ^ 18)"
    by (simp add: unat_word_ariths unat_of_nat)
  then show ?thesis using chunk_offset_val [OF assms] by (metis word_unat_eq_iff)
qed

lemma mapped_here:
  assumes "bsim v y" "mapped_at (y_dev y) g c i"
  shows "chunk_here y c i g"
proof -
  note m = mapped_not_unused [OF bsimD(2) [OF assms(1)] assms(2)]
  obtain bm where "rmap (y_dev y) c i" by (rule mapped_bitmap [OF bsimD(2) [OF assms(1)] assms(2)])
  then show ?thesis using m by (simp add: chunk_here_def)
qed

lemma mapped_flight:
  assumes sim: "bsim v y" and m: "mapped_at (y_dev y) g c i"
    and x: "in_flight (y_dev y) x k" "cx_req k = Some q" "fst (snd x) = c" "cx_chunk_index k = int i"
  shows "rq_chunk q = g"
proof -
  note mm = mapped_not_unused [OF bsimD(2) [OF sim] m]
  have "\<not> evicting y c i" using bsimD(3) [OF sim] mm(1,2) unfolding evict_inv_def Let_def by fastforce
  moreover have "chunk_here y c i (rq_chunk q)"
    using flight_invD [OF bsimD(7) [OF sim] x(1)] x(2-4) by (cases x) (auto simp: flight_ok_def)
  ultimately show ?thesis using mm(1,4) by (simp add: chunk_here_def)
qed

lemma submit_read:
  assumes sim: "bsim v y" and req: "page_request (y_dev y) req" "exclusive req (y_pend y)"
    and d: "read_outcome req (y_dev y) s'"
  shows "bsim (store_next (Submitted req) v) (y\<lparr>y_dev := s', y_pend := (y_pend y)(rq_id req \<mapsto> req)\<rparr>)"
proof -
  let ?s = "y_dev y" and ?v = "v\<lparr>v_pend := (v_pend v)(rq_id req \<mapsto> req)\<rparr>" and ?m = "(y_pend y)(rq_id req \<mapsto> req)"
  let ?cs = "counted req (y_dev y)"
  obtain c i x s1 bm where o: "rq_chunk req = rq_last_chunk req" "\<not> rq_write req" "mapped_at ?s (rq_chunk req) c i"
    "rc_bitmap (chunk_at ?s c i) = Some bm" "bm_bit bm (int (rq_page req mod 2 ^ 18))" "takes_ctx ?cs c x s1"
    "s' = read_posted x c i req s1" using d unfolding read_outcome_def by blast
  note e = exclusiveD [OF req(2)]
  note n = new_request [OF sim e(1)]
  note cv = core_view [OF counted_core [of ?s req]]
  have sim1: "bsim ?v (y\<lparr>y_dev := set_queue (queue ?s @ []) ?s, y_pend := ?m\<rparr>)"
    by (rule bsim_submit [OF sim req(1)]) (use e o(2) in auto)
  have sim2: "bsim ?v (y\<lparr>y_dev := ?cs, y_pend := ?m\<rparr>)"
    by (rule bsim_core_sys [OF sim1]) (simp_all add: same_core_def queue_def set_queue_def)
  let ?y1 = "y\<lparr>y_dev := s1, y_pend := ?m\<rparr>"
  note t = bsim_take [OF sim2, simplified, OF o(6)]
  have sim3: "bsim ?v ?y1" by (rule bsim_core_sys [OF t(1)]) simp_all
  note p = pools_only [OF t(5)]
  note m = maps_view [OF p(1)]
  obtain nn j where x: "x = (nn, c, j)" using t(6) by (cases x) simp
  obtain k0 where k0: "ctx_of s1 x = Some k0" using t(4) by blast
  let ?w = "request_wr False x c i req s1"
  have ww: "\<not> wr_write ?w" by (simp add: request_wr_def)
  have mp: "mapped_at s1 (rq_chunk req) c i" "chunk_at s1 = chunk_at ?s" using o(3) m(1,2) cv(3,4) by simp_all
  have nw: "\<not> pend_writes (y_pend y) (rq_page req) q" for q
    using e(2) rq_page_in [OF req(1)] by (auto simp: pend_writes_def)
  have loose: "loose s1 x" using t(2) .
  have q1: "queue s1 = queue ?s" using m(6) cv(8) by simp
  have fl1: "in_flight s1 = in_flight ?s" using t(3) cv(9) by (simp add: in_flight_def fun_eq_iff ctx_of_def)
  have sim4: "bsim ?v (?y1\<lparr>y_dev := started x (read_ctx i req) ?w (y_dev ?y1)\<rparr>)"
  proof (rule bsim_started [OF sim3 x])
    show "c < b_cb_num (y_dev ?y1)" using o(3) m(10) by (simp add: mapped_at_def)
    show "flight_ok ?y1 x (read_ctx i req k0)"
      using mapped_here [OF sim3, of "rq_chunk req" c i] mp(1) o(1,2) t(7) loose n(1) x m q1
      by (auto simp: flight_ok_def read_ctx_def mapped_at_def loose_def)
    show "y_rmem ?y1 c (wr_rkey ?w) (wr_addr ?w) = v_store ?v (rq_page req)"
      using bsimD(10) [OF sim] nw o(3-5) chunk_offset_word [OF req(1)] mp(2)
      by (simp add: remote_inv_def request_wr_def chunk_addr_def rq_chunk_def)
    show "?w = request_wr (wr_write ?w) x c i req (y_dev ?y1)" by (simp add: request_wr_def)
    show "rq_id q \<noteq> rq_id req" if "in_flight (y_dev ?y1) x' k" "cx_req k = Some q" for x' k q
      using n(2) [of x' k q] that fl1 by simp
    show "rq_chunk q = rq_chunk req" if "in_flight (y_dev ?y1) x' k" "cx_req k = Some q" "fst (snd x') = c"
      "cx_chunk_index k = int i" for x' k q
      using mapped_flight [OF sim o(3), of x' k q] that fl1 by simp
  qed (use loose k0 ww in \<open>simp_all add: read_ctx_def loose_def\<close>)
  have "started x (read_ctx i req) ?w s1 = s'"
    using o(7) x by (simp add: started_def read_posted_def)
  then show ?thesis unfolding store_next.simps by (intro bsim_core_sys [OF sim4]) simp_all
qed

lemma submit_write:
  assumes sim: "bsim v y" and req: "page_request (y_dev y) req" "exclusive req (y_pend y)"
    and d: "write_outcome req (y_dev y) s'"
  shows "bsim (store_next (Submitted req) v) (y\<lparr>y_dev := s', y_pend := (y_pend y)(rq_id req \<mapsto> req)\<rparr>)"
proof -
  let ?s = "y_dev y" and ?v = "v\<lparr>v_pend := (v_pend v)(rq_id req \<mapsto> req)\<rparr>" and ?m = "(y_pend y)(rq_id req \<mapsto> req)"
  let ?cs = "counted req (y_dev y)"
  obtain c i x s1 where o: "rq_chunk req = rq_last_chunk req" "rq_write req" "mapped_at ?s (rq_chunk req) c i"
    "takes_ctx ?cs c x s1" "s' = write_posted x c i req s1" using d unfolding write_outcome_def by blast
  note e = exclusiveD [OF req(2)] and cv = core_view [OF counted_core [of ?s req]]
  note n = new_request [OF sim e(1)]
  note t = bsim_take [OF bsim_core [OF sim counted_core], simplified, OF o(4)]
  note m = maps_view [OF pools_only(1) [OF t(5)]] and p = pools_only [OF t(5)]
  let ?s2 = "s1\<lparr>b_bufs := (b_bufs s1)(x := gathered req (b_bufs s1 x))\<rparr>"
  let ?s3 = "set_queue (queue ?s2 @ [write_bio x req]) ?s2"
  have sim2: "bsim v (y\<lparr>y_dev := ?s2\<rparr>)"
    using bsim_buffer [OF t(1)] t(2) unfolding loose_def by simp
  have v2: "queue ?s2 = queue ?s" "in_flight ?s2 = in_flight ?s" "page_request ?s2 = page_request ?s"
    "is_free ?s2 = is_free s1" "ctx_of ?s2 = ctx_of s1" "b_cb_num ?s2 = b_cb_num ?s" "unused ?s2 = unused ?s"
    "mapped_at ?s2 = mapped_at ?s" "b_queues ?s2 = b_queues ?s"
    using m cv t(3) by (simp_all add: queue_def in_flight_def fun_eq_iff ctx_of_def page_request_def is_free_def frees_def
        unused_def mapped_at_def)
  have l: "loose ?s2 x"
    using t(2) by (simp add: loose_def in_flight_def ctx_of_def queue_def is_free_def frees_def)
  have mp: "c < b_cb_num ?s" "\<not> unused ?s c" "i < MAX_MR_SIZE_GB"
    using o(3) mapped_not_unused(3) [OF bsimD(2) [OF sim] o(3)] by (simp_all add: mapped_at_def)
  note wf = write_bio_facts [OF req(1) o(2)]
  have se: "sb_end (write_bio z req) = EndCtx z" for z by (simp add: write_bio_def)
  have bf: "b_bufs ?s2 x k = rq_data req k" if "k < rq_npages req" for k using that by (simp add: gathered_def)
  have sim3: "bsim ?v (y\<lparr>y_dev := ?s3, y_pend := ?m\<rparr>)"
  proof -
    have "bsim ?v (y\<lparr>y_dev := ?s2\<rparr>\<lparr>y_dev := set_queue (queue (y_dev (y\<lparr>y_dev := ?s2\<rparr>)) @ [write_bio x req]) (y_dev (y\<lparr>y_dev := ?s2\<rparr>)),
        y_pend := (y_pend (y\<lparr>y_dev := ?s2\<rparr>))(rq_id req \<mapsto> req)\<rparr>)"
    proof (rule bsim_submit [OF sim2])
      show "fold (apply_bio (b_bufs (y_dev (y\<lparr>y_dev := ?s2\<rparr>)))) [write_bio x req] dd q =
          (if rq_write req \<and> q \<in> rq_pages req then rq_content req q else dd q)" for dd q
        using wf(5) [of "b_bufs ?s2"] bf o(2) by simp
    qed (use e req(1) v2 wf o(2) se l mp t(6) in auto)
    then show ?thesis by simp
  qed
  obtain nn j where x: "x = (nn, c, j)" using t(6) by (cases x) simp
  obtain k0 where k0: "ctx_of s1 x = Some k0" using t(4) by blast
  let ?y3 = "y\<lparr>y_dev := ?s3, y_pend := ?m\<rparr>" and ?w = "request_wr True x c i req s1"
  have ww: "wr_write ?w" by (simp add: request_wr_def)
  have sim4: "bsim ?v (?y3\<lparr>y_dev := started x (write_ctx c i req) ?w (y_dev ?y3)\<rparr>)"
  proof (rule bsim_started [OF sim3 x])
    have "chunk_here ?y3 c i (rq_chunk req)" using mapped_here [OF sim3, of "rq_chunk req" c i] o(3) v2 by simp
    then show "flight_ok ?y3 x (write_ctx c i req k0)"
      using o(1,2) t(7) l n(1) x v2 bf mp
      by (auto simp: flight_ok_def write_ctx_def loose_def se)
    show "?w = request_wr (wr_write ?w) x c i req (y_dev ?y3)" by (simp add: request_wr_def) (simp add: chunk_at_def)
    show "rq_id q \<noteq> rq_id req" if "in_flight (y_dev ?y3) x' k" "cx_req k = Some q" for x' k q
      using n(2) [of x' k q] that v2 by simp
    show "rq_chunk q = rq_chunk req" if "in_flight (y_dev ?y3) x' k" "cx_req k = Some q" "fst (snd x') = c"
      "cx_chunk_index k = int i" for x' k q
      using mapped_flight [OF sim o(3), of x' k q] that v2 by simp
  qed (use l k0 ww v2 mp in \<open>simp_all add: write_ctx_def loose_def\<close>)
  have "same_core (started x (write_ctx c i req) ?w ?s3) s'"
  proof -
    have "queue s' = queue ?s3" by (simp add: o(5) write_posted_def) (simp add: queue_def)
    moreover have "b_pools (mod_ctx x f ?s3) = b_pools (mod_ctx x f s1)" for f by (simp add: mod_ctx_def)
    ultimately show ?thesis
      using started_simps(6) [of ?s3 x "write_ctx c i req" ?w] x
      by (simp add: same_core_def same_maps_iff) (simp add: o(5) write_posted_def started_def)
  qed
  then show ?thesis unfolding store_next.simps by (intro bsim_core_sys [OF sim4]) simp_all
qed

lemma bsim_request:
  assumes sim: "bsim v y" and req: "page_request (y_dev y) req" "exclusive req (y_pend y)" "calm req (y_dev y)"
    and ready: "stackbd_ready (y_dev y)" and q: "IS_queue_rq 0 req (y_dev y) = Inr (ok, s')"
  shows "store_ok (Submitted req) v \<and>
    bsim (store_next (Submitted req) v) (y\<lparr>y_dev := s', y_pend := (y_pend y)(rq_id req \<mapsto> req)\<rparr>)"
proof -
  obtain e where e: "IS_request 0 req (y_dev y) = Inr (e, s')" using q by (auto simp: IS_queue_rq_def rbind_eq_Inr)
  have "v_pend v = y_pend y" using sim by (simp add: bsim_def)
  then have "store_ok (Submitted req) v" using exclusiveD(1) [OF req(2)] by simp
  moreover have "bsim (store_next (Submitted req) v) (y\<lparr>y_dev := s', y_pend := (y_pend y)(rq_id req \<mapsto> req)\<rparr>)"
    using IS_request_outcome [OF e req(1) ready] submit_disk [OF sim req] submit_split [OF sim req(1,2)]
      submit_write [OF sim req(1,2)] submit_read [OF sim req(1,2)] by blast
  ultimately show ?thesis by blast
qed

end
