(* ===== verification/Block_Completions.thy ===== *)
theory Block_Completions
  imports Block_Posted
begin

text \<open>The completion of a transfer: the page is on the server, or it is delivered.\<close>

unbundle bit_operations_syntax

section \<open>The memory of a server\<close>

lemma rmem_put_other:
  assumes "rmem_put c w buf m c' key a \<noteq> m c' key a"
  obtains k where "c' = c" "key = wr_rkey w" "a = wr_addr w + 4096 * word_of_nat k" "4096 * k < unat (wr_len w)"
  using assms that unfolding rmem_put_def Let_def by (auto split: if_splits)

lemma page_offset_word:
  assumes "a < 2 ^ 18"
  shows "unat (4096 * word_of_nat a :: 64 word) = 4096 * a"
  using assms by (simp add: unat_word_ariths unat_of_nat)

lemma rmem_put_here:
  assumes "k < 2 ^ 18" "4096 * k < unat (wr_len w)"
  shows "rmem_put c w buf m c (wr_rkey w) (wr_addr w + 4096 * word_of_nat k) = buf k"
  using assms page_offset_word [OF assms(1)] by (simp add: rmem_put_def Let_def)

text \<open>The pages of a write, as addresses in its chunk.\<close>

lemma write_addr_hit:
  assumes req: "page_request s req" "rq_chunk req = rq_last_chunk req" and q: "q < 2 ^ 18"
    and a: "chunk_addr s' c i q = wr_addr (request_wr True x c i req s') + 4096 * word_of_nat k" "k < rq_npages req"
  shows "rq_chunk req * 2 ^ 18 + q \<in> rq_pages req" "q = rq_page req mod 2 ^ 18 + k"
proof -
  let ?m = "rq_page req mod 2 ^ 18"
  note d = page_requestD [OF req(1)]
  have e: "(4096 * word_of_nat q :: 64 word) = 4096 * word_of_nat ?m + 4096 * word_of_nat k"
    using a(1) by (simp add: chunk_addr_def request_wr_def chunk_offset_word [OF req(1)])
  have "?m < 2 ^ 18" by simp
  then have "unat (4096 * word_of_nat ?m + 4096 * word_of_nat k :: 64 word) = 4096 * ?m + 4096 * k"
    using page_offset_word [of ?m] page_offset_word [of k] a(2) d(5) by (simp add: unat_word_ariths)
  then show "q = ?m + k" using e page_offset_word [OF q] by simp
  moreover have "rq_page req = rq_chunk req * 2 ^ 18 + ?m" unfolding rq_chunk_def by (rule div_mult_mod_eq [symmetric])
  ultimately show "rq_chunk req * 2 ^ 18 + q \<in> rq_pages req" using a(2) by (simp add: rq_pages_def)
qed

lemma request_wr_simps [simp]:
  "wr_ctx (request_wr w x c i req s) = x" "wr_write (request_wr w x c i req s) = w"
  "wr_rkey (request_wr w x c i req s) = rc_rkey (chunk_at s c i)" "wr_len (request_wr w x c i req s) = rq_bytes req"
  by (simp_all add: request_wr_def)

section \<open>A write arrives\<close>

text \<open>
  The pages of a pending write are stored on the server and their bits are set. Until the request ends, the
  invariant does not look at these pages.
\<close>

lemma mapped_chunk_here:
  assumes sim: "bsim v y" and here: "chunk_here y c i g" "\<not> failed (y_dev y) c" "is_server (y_dev y) c i"
  shows "mapped_at (y_dev y) g' c i \<Longrightarrow> g' = g" "mapped_at (y_dev y) g c' i' \<Longrightarrow> c' = c \<and> i' = i"
proof -
  note inv = bsimD(2) [OF sim] and evi = bsimD(3) [OF sim, unfolded evict_inv_def Let_def]
  have h: "cmap (y_dev y) c i = int g \<or> evicting y c i \<and> stage_chunks (y_evict y c) g"
    using here(1,2) by (simp add: chunk_here_def)
  show "g' = g" if m: "mapped_at (y_dev y) g' c i"
  proof -
    have "cmap (y_dev y) c i = int g'" using mapped_not_unused(1) [OF inv m] .
    moreover from this have "\<not> evicting y c i" using evi here(3) by fastforce
    ultimately show ?thesis using h by simp
  qed
  show "c' = c \<and> i' = i" if m: "mapped_at (y_dev y) g c' i'"
  proof -
    note mm = mapped_not_unused [OF inv m]
    have "b_cb_index_map (y_dev y) g \<noteq> -1" using m by (simp add: mapped_at_def)
    then have "cmap (y_dev y) c i = int g" using h evi by blast
    then show ?thesis using map_uniqueD [OF inv mm(2) here(3) mm(1)] by simp
  qed
qed

lemma bsim_remote_write:
  assumes sim: "bsim v y"
    and req: "y_pend y (rq_id req) = Some req" "rq_write req" "rq_chunk req = rq_last_chunk req"
      "rq_id req \<notin> set (queue_reqs (queue (y_dev y)))"
    and c: "\<not> failed (y_dev y) c" "is_server (y_dev y) c i" "chunk_here y c i (rq_chunk req)"
    and bm: "rc_bitmap (chunk_at (y_dev y) c i) = Some bm" "full_bitmap bm'"
      "\<And>q. q < 2 ^ 18 \<Longrightarrow> bm_bit bm' (int q) \<longleftrightarrow> rq_chunk req * 2 ^ 18 + q \<in> rq_pages req \<or> bm_bit bm (int q)"
    and w: "w = request_wr True x c i req (y_dev y)"
    and other: "\<And>x' k q. in_flight (y_dev y) x' k \<Longrightarrow> cx_req k = Some q \<Longrightarrow> rq_id q \<noteq> rq_id req \<and>
      (fst (snd x') = c \<longrightarrow> cx_chunk_index k = int i \<longrightarrow> rq_chunk q = rq_chunk req)"
  shows "bsim v (y\<lparr>y_dev := put_bitmap c i bm' (y_dev y), y_rmem := rmem_put c w buf (y_rmem y)\<rparr>)"
proof -
  let ?s = "y_dev y" and ?s' = "put_bitmap c i bm' (y_dev y)"
  let ?y = "y\<lparr>y_dev := ?s', y_rmem := rmem_put c w buf (y_rmem y)\<rparr>"
  note s = sim [unfolded bsim_def] and inv = bsimD(2) [OF sim] and io = io_view [OF put_bitmap_io [of ?s c i bm']]
  note good = pend_invD(2) [OF bsimD(6) [OF sim] req(1)]
  note g = page_requestD [OF good]
  have len: "4096 * k < unat (wr_len w) \<longleftrightarrow> k < rq_npages req" for k using g(2) by (simp add: w)
  have rm: "rmap ?s c i" using c(1,3) by (simp add: chunk_here_def)
  have ev: "evicting ?y = evicting y" by (simp add: evicting_def fun_eq_iff)
  have here: "chunk_here ?y = chunk_here y" by (simp add: chunk_here_def ev fun_eq_iff)
  text \<open>Where the memory changes, and where a bit is new.\<close>
  have mem: "c' = c \<and> i' = i \<and> rq_chunk req * 2 ^ 18 + q \<in> rq_pages req"
    if t: "rmem_put c w buf (y_rmem y) c' (rc_rkey (chunk_at ?s c' i')) (chunk_addr ?s c' i' q) \<noteq>
      y_rmem y c' (rc_rkey (chunk_at ?s c' i')) (chunk_addr ?s c' i' q)" "is_server ?s c' i'" "rmap ?s c' i'" "q < 2 ^ 18"
    for c' i' q
  proof -
    obtain k where k: "c' = c" "rc_rkey (chunk_at ?s c' i') = wr_rkey w"
      "chunk_addr ?s c' i' q = wr_addr w + 4096 * word_of_nat k" "4096 * k < unat (wr_len w)"
      by (rule rmem_put_other [OF t(1)])
    then have "i' = i" using inv c(2) rm t(2,3) by (auto simp: w map_inv_def map_keys_def)
    then show ?thesis using write_addr_hit(1) [OF good req(3) t(4), of ?s c i x k] k len w by simp
  qed
  have bit: "\<exists>bm0. rc_bitmap (chunk_at ?s c' i') = Some bm0 \<and>
      (bm_bit bm0 (int (p mod 2 ^ 18)) \<or> p \<in> rq_pages req \<and> c' = c \<and> i' = i)"
    if "mapped_at ?s (p div 2 ^ 18) c' i'" "rc_bitmap (chunk_at ?s' c' i') = Some b" "bm_bit b (int (p mod 2 ^ 18))"
    for c' i' p b
  proof (cases "c' = c \<and> i' = i")
    case True
    then have "p div 2 ^ 18 = rq_chunk req" using mapped_chunk_here(1) [OF sim c(3,1,2)] that(1) by blast
    then have p: "p = rq_chunk req * 2 ^ 18 + p mod 2 ^ 18" using div_mult_mod_eq [of p "2 ^ 18"] by simp
    have "b = bm'" using that(2) True by simp
    then show ?thesis using that(3) bm(1) bm(3) [of "p mod 2 ^ 18"] True p by auto
  qed (use that in auto)
  have nopend: "p \<notin> rq_pages req" if "\<And>q. \<not> pend_writes (y_pend y) p q" for p
    using that [of req] req(1,2) by (auto simp: pend_writes_def)
  have "map_inv ?s'" using put_bitmap_map_inv [OF inv bm(2)] .
  moreover have "evict_inv ?y" using bsimD(3) [OF sim] unfolding evict_inv_def Let_def ev by simp
  moreover have "ctx_inv ?s'" using bsimD(4) [OF sim] io by (simp add: ctx_inv_def)
  moreover have "queue_inv ?y" "pend_inv ?y" "disk_inv v ?y"
    using s io by (simp_all add: queue_inv_def pend_inv_def disk_inv_def flushed_def)
  moreover have "flight_inv ?y"
  proof (rule flight_invI)
    fix z k assume z: "in_flight (y_dev ?y) z k"
    have "flight_ok y z k" using flight_invD [OF bsimD(7) [OF sim]] z io by simp
    then show "flight_ok ?y z k" by (rule flight_ok_transfer) (use io here in simp_all)
  qed (use flight_inv_compat [OF bsimD(7) [OF sim]] io in simp)
  moreover have "wrs_inv v ?y"
  proof -
    have "wr_ok v ?y c' w'" if ok: "wr_ok v y c' w'" "\<not> failed ?s c'" for c' w'
    proof (rule wr_ok_transfer [OF ok(1)])
      fix k r i'
      assume k: "ctx_of ?s (wr_ctx w') = Some k" "cx_in_flight k = CTX_R_IN_FLIGHT" "cx_req k = Some r" "cx_chunk_index k = int i'"
        "wr_rkey w' = rc_rkey (chunk_at ?s c' i')" "wr_addr w' = rc_addr (chunk_at ?s c' i') + (rq_start r AND ONE_GB_MASK)"
        "y_rmem y c' (wr_rkey w') (wr_addr w') = v_store v (rq_page r)"
      let ?q = "rq_page r mod 2 ^ 18"
      have fl: "in_flight ?s (wr_ctx w') k" using k(1,2) by (simp add: in_flight_def)
      note pr = flight_pending(1) [OF sim fl k(3)]
      note gr = pend_invD(2) [OF bsimD(6) [OF sim] pr]
      have wc: "fst (snd (wr_ctx w')) = c'" by (rule wr_okE [OF ok(1)]) simp
      have sv: "is_server ?s c' i'" "rmap ?s c' i'"
        using flight_invD [OF bsimD(7) [OF sim] fl] k(4) ok(2) wc
        by (cases "wr_ctx w'"; auto simp: flight_ok_def is_server_def chunk_here_def)+
      have addr: "wr_addr w' = chunk_addr ?s c' i' ?q"
        using k(6) chunk_offset_word [OF gr] by (simp add: chunk_addr_def)
      have "rmem_put c w buf (y_rmem y) c' (wr_rkey w') (wr_addr w') = y_rmem y c' (wr_rkey w') (wr_addr w')"
      proof (rule ccontr)
        assume "rmem_put c w buf (y_rmem y) c' (wr_rkey w') (wr_addr w') \<noteq> y_rmem y c' (wr_rkey w') (wr_addr w')"
        then have h: "c' = c" "i' = i" "rq_chunk req * 2 ^ 18 + ?q \<in> rq_pages req"
          using mem [of c' i' ?q] sv unfolding k(5) addr by auto
        have "rq_chunk r = rq_chunk req" using other [OF fl k(3)] wc h(1,2) k(4) by simp
        then have "rq_page r \<in> rq_pages req"
          using h(3) div_mult_mod_eq [of "rq_page r" "2 ^ 18"] by (simp add: rq_chunk_def)
        then show False
          using pend_inv_disjoint [OF bsimD(6) [OF sim] pr req(1)] other [OF fl k(3)] rq_page_in [OF gr] by blast
      qed
      with k(7) show "y_rmem ?y c' (wr_rkey w') (wr_addr w') = v_store v (rq_page r)" by simp
    qed (use io in simp_all)
    then show ?thesis using bsimD(8) [OF sim] io unfolding wrs_inv_def by simp
  qed
  moreover have "remote_inv v ?y"
    unfolding remote_inv_def
  proof (intro allI impI)
    fix p c' i' b
    assume a: "\<forall>q. \<not> pend_writes (y_pend ?y) p q" "mapped_at (y_dev ?y) (p div 2 ^ 18) c' i'"
      "rc_bitmap (chunk_at (y_dev ?y) c' i') = Some b" "bm_bit b (int (p mod 2 ^ 18))"
    have np: "p \<notin> rq_pages req" using nopend a(1) by simp
    have m: "mapped_at ?s (p div 2 ^ 18) c' i'" using a(2) by simp
    obtain bm0 where b0: "rc_bitmap (chunk_at ?s c' i') = Some bm0" "bm_bit bm0 (int (p mod 2 ^ 18))"
      using bit [OF m _ a(4)] a(3) np by auto
    have old: "y_rmem y c' (rc_rkey (chunk_at ?s c' i')) (chunk_addr ?s c' i' (p mod 2 ^ 18)) = v_store v p"
      using bsimD(10) [OF sim] a(1) m b0 by (simp add: remote_inv_def)
    have "rmem_put c w buf (y_rmem y) c' (rc_rkey (chunk_at ?s c' i')) (chunk_addr ?s c' i' (p mod 2 ^ 18)) = v_store v p"
    proof (rule ccontr)
      assume ne: "\<not> ?thesis"
      obtain bm1 where "rmap ?s c' i'" by (rule mapped_bitmap [OF inv m])
      then have h: "c' = c" "i' = i" "rq_chunk req * 2 ^ 18 + p mod 2 ^ 18 \<in> rq_pages req"
        using mem [of c' i' "p mod 2 ^ 18"] mapped_not_unused(2) [OF inv m] ne old by auto
      then have "p div 2 ^ 18 = rq_chunk req" using mapped_chunk_here(1) [OF sim c(3,1,2)] m by blast
      then show False using h(3) np div_mult_mod_eq [of p "2 ^ 18"] by metis
    qed
    then show "y_rmem ?y c' (rc_rkey (chunk_at (y_dev ?y) c' i')) (chunk_addr (y_dev ?y) c' i' (p mod 2 ^ 18)) = v_store v p"
      by (auto simp: chunk_addr_def)
  qed
  moreover have "diskonly_inv ?y"
    unfolding diskonly_inv_def
  proof (intro allI impI)
    fix r q p
    assume a: "r \<in> set (queue_reqs (queue (y_dev ?y)))" "y_pend ?y r = Some q" "rq_write q" "p \<in> rq_pages q"
    have nb: "\<not> remote_bit ?s p" using bsimD(11) [OF sim] a by (simp add: diskonly_inv_def)
    have "r \<noteq> rq_id req" using a(1) req(4) by auto
    then have "p \<notin> rq_pages req" using pend_inv_disjoint [OF bsimD(6) [OF sim] _ req(1), of r q] a(2,4) by auto
    then have "\<not> remote_bit ?s' p"
      using nb bit [of p] unfolding remote_bit_def put_bitmap_simps(5) by blast
    then show "\<not> remote_bit (y_dev ?y) p" by simp
  qed
  ultimately show ?thesis using s by (simp add: bsim_def)
qed

section \<open>The handlers\<close>

lemma mod_ctx_twice: "mod_ctx x f (mod_ctx x g s) = mod_ctx x (\<lambda>k. f (g k)) s"
  by (cases x) (simp add: mod_ctx_def option.map_comp o_def fun_upd_idem_iff)

lemma mod_ctx_bitmap: "mod_ctx x f (put_bitmap c i bm s) = put_bitmap c i bm (mod_ctx x f s)"
  by (simp add: mod_ctx_def put_bitmap_def upd_cb_def)

lemma ctx_of_bitmap [simp]: "ctx_of (put_bitmap c i bm s) = ctx_of s"
  by (simp add: ctx_of_def fun_eq_iff)

definition write_end_ctx :: "rdma_ctx \<Rightarrow> rdma_ctx" where
  "write_end_ctx k = k\<lparr>cx_in_flight := CTX_IDLE, cx_chunk_index := -1, cx_chunk_ptr := None, cx_req := None\<rparr>"

lemma client_write_done_eq:
  assumes "ctx_of s x = Some k" "cx_chunk_ptr k = Some (c, i)" "cx_req k = Some req"
    "rc_bitmap (chunk_at s c i) = Some bm" "IS_bitmap_group_set (cx_offset k) (cx_len k) bm = Inr bm'"
  shows "client_write_done x s = Inr (blk_mq_end_request (rq_id req) 0 (put_bitmap c i bm' (mod_ctx x write_end_ctx s)))"
proof -
  have u: "upd_ctx x f t = Inr (mod_ctx x f t)" if "ctx_of t x \<noteq> None" for f t
    using that by (simp add: upd_ctx_mod)
  let ?f1 = "\<lambda>k. k\<lparr>cx_in_flight := CTX_IDLE\<rparr>" and ?f2 = "\<lambda>k. k\<lparr>cx_chunk_index := -1, cx_chunk_ptr := None\<rparr>"
    and ?f3 = "\<lambda>k. k\<lparr>cx_req := None\<rparr>"
  have b: "on_bitmap c i (IS_bitmap_group_set (cx_offset k) (cx_len k)) (mod_ctx x ?f1 s) =
      Inr (put_bitmap c i bm' (mod_ctx x ?f1 s))"
    using assms(4,5) by (simp add: on_bitmap_def bitmap_at_def)
  have c: "write_end_ctx = (\<lambda>k. ?f3 (?f2 (?f1 k)))" by (simp add: write_end_ctx_def fun_eq_iff)
  have "ctx_at s x = Inr k" using assms(1) by (simp add: ctx_at_of)
  then show ?thesis
    using assms(1-3) u b unfolding client_write_done_def c by (simp add: mod_ctx_bitmap mod_ctx_twice)
qed

lemma handler_write:
  assumes "rdma_cq_event_handler c [(WC_SUCCESS, WC_RDMA_WRITE x)] 0 s = Inr s'" "k_state (b_cb_list s c) \<noteq> ERROR"
  shows "client_write_done x s = Inr s'"
  using assms by (auto simp: rdma_cq_event_handler_def handle_wc_def rbind_eq_Inr)

lemma handler_read:
  assumes "rdma_cq_event_handler c [(WC_SUCCESS, WC_RDMA_READ x)] 0 s = Inr s'" "k_state (b_cb_list s c) \<noteq> ERROR"
  shows "client_read_done x s = Inr s'"
  using assms by (auto simp: rdma_cq_event_handler_def handle_wc_def rbind_eq_Inr)

text \<open>A transfer whose work request is first in the queue of its server.\<close>

lemma completed:
  assumes sim: "bsim v y" and c: "c < b_cb_num (y_dev y)" "\<not> failed (y_dev y) c" "b_wrs (y_dev y) c = w # ws"
    and k: "ctx_of (y_dev y) (wr_ctx w) = Some k" "cx_req k = Some req"
  obtains n j i where "wr_ctx w = (n, c, j)" "cx_chunk_index k = int i" "in_flight (y_dev y) (wr_ctx w) k"
    "cx_in_flight k = (if wr_write w then CTX_W_IN_FLIGHT else CTX_R_IN_FLIGHT)"
    "w = request_wr (wr_write w) (wr_ctx w) c i req (y_dev y)"
    "\<not> wr_write w \<Longrightarrow> y_rmem y c (wr_rkey w) (wr_addr w) = v_store v (rq_page req)" "flight_ok y (wr_ctx w) k"
proof -
  have "wr_ok v y c w" using bsimD(8) [OF sim] c by (simp add: wrs_inv_def)
  then show thesis
  proof (rule wr_okE)
    fix n j k' r i
    assume a: "wr_ctx w = (n, c, j)" "ctx_of (y_dev y) (wr_ctx w) = Some k'"
      "cx_in_flight k' = (if wr_write w then CTX_W_IN_FLIGHT else CTX_R_IN_FLIGHT)" "cx_req k' = Some r"
      "cx_chunk_index k' = int i" "w = request_wr (wr_write w) (wr_ctx w) c i r (y_dev y)"
      "\<not> wr_write w \<Longrightarrow> y_rmem y c (wr_rkey w) (wr_addr w) = v_store v (rq_page r)"
    have e: "k' = k" "r = req" using a(2,4) k by auto
    have fl: "in_flight (y_dev y) (wr_ctx w) k" using a(2,3) e by (simp add: in_flight_def split: if_splits)
    show thesis
      using that [OF a(1)] a(3,5-7) fl flight_invD [OF bsimD(7) [OF sim] fl] unfolding e by blast
  qed
qed

text \<open>The pages that a write stored.\<close>

lemma stored_page:
  assumes req: "page_request s req" "rq_chunk req = rq_last_chunk req" "p \<in> rq_pages req"
    and buf: "\<And>k. k < rq_npages req \<Longrightarrow> buf k = rq_data req k"
  shows "rmem_put c (request_wr True x c i req s') buf m c (rc_rkey (chunk_at s' c i)) (chunk_addr s' c i (p mod 2 ^ 18)) =
    rq_content req p"
proof -
  note g = page_requestD [OF req(1)]
  let ?k = "p - rq_page req" and ?K = "2 ^ 18 :: nat"
  have k: "?k < rq_npages req" "p = rq_page req + ?k" using req(3) by (auto simp: rq_pages_def)
  have "p div ?K = rq_page req div ?K" using page_in_chunk [OF req] by (simp add: rq_chunk_def)
  moreover have "pm = rm + d" if "a * q + pm = t" "a * q' + rm = r" "q = q'" "t = r + d" for a q q' pm rm t r d :: nat
    using that by simp
  ultimately have "p mod ?K = rq_page req mod ?K + ?k" using k(2) by (metis mult_div_mod_eq)
  then have "chunk_addr s' c i (p mod ?K) = wr_addr (request_wr True x c i req s') + 4096 * word_of_nat ?k"
    by (simp add: chunk_addr_def request_wr_def chunk_offset_word [OF req(1)] distrib_left)
  moreover have "?k < 2 ^ 18" "4096 * ?k < unat (rq_bytes req)" using k(1) g(2,5) by simp_all
  ultimately show ?thesis
    using rmem_put_here [of ?k "request_wr True x c i req s'" c buf m] buf [OF k(1)] by (simp add: rq_content_def)
qed

lemma bsim_rdma_write:
  assumes sim: "bsim v y" and c: "c < b_cb_num (y_dev y)" "\<not> failed (y_dev y) c"
    and w: "b_wrs (y_dev y) c = w # ws" "wr_write w"
    and k: "ctx_of (y_dev y) (wr_ctx w) = Some k" "cx_req k = Some req"
    and h: "rdma_cq_event_handler c [(WC_SUCCESS, WC_RDMA_WRITE (wr_ctx w))] 0
      ((y_dev y)\<lparr>b_wrs := (b_wrs (y_dev y))(c := ws)\<rparr>) = Inr s'" "k_state (b_cb_list (y_dev y) c) \<noteq> ERROR"
  shows "store_ok (Ended [rq_id req]) v \<and> bsim (store_next (Ended [rq_id req]) v) (y\<lparr>y_dev := s',
    y_rmem := rmem_put c w (b_bufs (y_dev y) (wr_ctx w)) (y_rmem y), y_pend := drop_pend [rq_id req] (y_pend y)\<rparr>)"
proof -
  let ?s = "y_dev y" and ?x = "wr_ctx w" and ?m = "rmem_put c w (b_bufs (y_dev y) (wr_ctx w)) (y_rmem y)"
  let ?o = "rq_start req AND ONE_GB_MASK"
  obtain n j i where o: "?x = (n, c, j)" "cx_chunk_index k = int i" "in_flight ?s ?x k"
    "w = request_wr (wr_write w) ?x c i req ?s" "flight_ok y ?x k"
    by (rule completed [OF sim c w(1) k]) blast
  have f: "y_pend y (rq_id req) = Some req" "rq_id req \<notin> set (queue_reqs (queue ?s))" "rq_write req"
    "rq_chunk req = rq_last_chunk req" "i < MAX_MR_SIZE_GB" "chunk_here y c i (rq_chunk req)"
    "cx_chunk_ptr k = Some (c, i)" "cx_offset k = ?o" "cx_len k = rq_bytes req"
    "\<And>q. q < rq_npages req \<Longrightarrow> b_bufs ?s ?x q = rq_data req q"
    using o(5) completed [OF sim c w(1) k] o(2) k(2) w(2) unfolding o(1)
    by (auto simp: flight_ok_def)
  note good = pend_invD(2) [OF bsimD(6) [OF sim] f(1)]
  have sv: "is_server ?s c i" "rmap ?s c i" using f(5,6) c by (simp_all add: is_server_def chunk_here_def)
  obtain bm where bm: "rc_bitmap (chunk_at ?s c i) = Some bm" "full_bitmap bm"
    using bsimD(2) [OF sim] sv by (auto simp: map_inv_def map_bitmaps_def)
  note ic = in_chunk_request [OF good f(4)]
  obtain bm' where bm': "IS_bitmap_group_set ?o (rq_bytes req) bm = Inr bm'" "full_bitmap bm'"
    "\<And>p. p < 2 ^ 18 \<Longrightarrow> bm_bit bm' (int p) \<longleftrightarrow> in_pages ?o (rq_bytes req) p \<or> bm_bit bm (int p)"
    by (rule group_set_bits [OF bm(2) ic(1)]) blast
  let ?pop = "?s\<lparr>b_wrs := (b_wrs ?s)(c := ws)\<rparr>"
  let ?t = "mod_ctx ?x write_end_ctx ?pop"
  have s': "s' = blk_mq_end_request (rq_id req) 0 (put_bitmap c i bm' ?t)"
  proof -
    have "client_write_done ?x ?pop = Inr s'" using handler_write [OF h(1)] h(2) by simp
    moreover have "client_write_done ?x ?pop = Inr (blk_mq_end_request (rq_id req) 0 (put_bitmap c i bm' ?t))"
      by (rule client_write_done_eq [where k = k and bm = bm]) (use k f(7-9) bm(1) bm'(1) in \<open>simp_all add: ctx_of_def chunk_at_def\<close>)
    ultimately show ?thesis by simp
  qed
  have sim1: "bsim v (y\<lparr>y_dev := ?t\<rparr>)"
    using bsim_idle [OF bsim_pop_wr [OF sim w(1)], of write_end_ctx ?x] popped_wr [OF sim c w(1)]
    by (simp add: write_end_ctx_def failed_def)
  have vt: "chunk_at ?t = chunk_at ?s" "queue ?t = queue ?s" "failed ?t = failed ?s" "is_server ?t = is_server ?s"
    "mapped_at ?t = mapped_at ?s"
    by (simp_all add: fun_eq_iff queue_def failed_def is_server_def mapped_at_def) (simp add: chunk_at_def)
  have ft: "in_flight ?t z kk \<longleftrightarrow> z \<noteq> ?x \<and> in_flight ?s z kk" for z kk
    using in_flight_idle [of write_end_ctx ?x ?pop z kk] by (simp add: write_end_ctx_def in_flight_def ctx_of_def)
  have ht: "chunk_here (y\<lparr>y_dev := ?t\<rparr>) = chunk_here y" by (simp add: chunk_here_def evicting_def failed_def fun_eq_iff)
  have other: "rq_id q \<noteq> rq_id req \<and> (fst (snd z) = c \<longrightarrow> cx_chunk_index kk = int i \<longrightarrow> rq_chunk q = rq_chunk req)"
    if "in_flight ?t z kk" "cx_req kk = Some q" for z kk q
    using flight_inv_compat [OF bsimD(7) [OF sim] _ o(3), of z kk] that k(2) o(1,2) ft by (auto simp: compatible_def)
  have sim2: "bsim v (y\<lparr>y_dev := ?t\<rparr>\<lparr>y_dev := put_bitmap c i bm' (y_dev (y\<lparr>y_dev := ?t\<rparr>)),
      y_rmem := rmem_put c w (b_bufs ?s ?x) (y_rmem (y\<lparr>y_dev := ?t\<rparr>))\<rparr>)"
  proof (rule bsim_remote_write [OF sim1])
    show "bm_bit bm' (int q) \<longleftrightarrow> rq_chunk req * 2 ^ 18 + q \<in> rq_pages req \<or> bm_bit bm (int q)" if "q < 2 ^ 18" for q
      using bm'(3) [OF that] ic(2) [of q] that by simp
    show "w = request_wr True ?x c i req (y_dev (y\<lparr>y_dev := ?t\<rparr>))"
      using o(4) w(2) vt(1) by (simp add: request_wr_def)
  qed (use f sv c bm(1) bm'(2) vt ht other in simp_all)
  let ?y = "y\<lparr>y_dev := s', y_rmem := ?m\<rparr>"
  have sim3: "bsim v ?y"
    by (rule bsim_core_sys [OF sim2]) (simp_all add: s' same_core_def blk_mq_end_request_def queue_def)
  have vs: "queue s' = queue ?s" "in_flight s' = in_flight ?t" "mapped_at s' = mapped_at ?s"
    "rc_rkey (chunk_at s' c i) = rc_rkey (chunk_at ?s c i)" "chunk_addr s' c i q = chunk_addr ?s c i q" for q
    using vt by (simp_all add: s' blk_mq_end_request_def put_bitmap_def upd_cb_def queue_def in_flight_def ctx_of_def
        fun_eq_iff mapped_at_def chunk_addr_def chunk_at_def)
  have "store_ok (Ended [rq_id req]) v \<and>
      bsim (store_next (Ended [rq_id req]) v) (?y\<lparr>y_pend := drop_pend [rq_id req] (y_pend ?y)\<rparr>)"
  proof (rule bsim_ended [OF sim3])
    fix r q p c' i' b
    assume a: "r \<in> set [rq_id req]" "y_pend ?y r = Some q" "p \<in> rq_pages q" "mapped_at (y_dev ?y) (p div 2 ^ 18) c' i'"
    then have q: "q = req" using f(1) by simp
    then have "mapped_at ?s (rq_chunk req) c' i'" using a(3,4) page_in_chunk [OF good f(4)] vs(3) by simp
    then have "c' = c" "i' = i" using mapped_chunk_here(2) [OF sim f(6) c(2) sv(1)] by blast+
    moreover have "?m c (rc_rkey (chunk_at ?s c i)) (chunk_addr ?s c i (p mod 2 ^ 18)) = rq_content req p"
      using stored_page [OF good f(4), of p "b_bufs ?s ?x" c ?x i ?s "y_rmem y"] a(3) q f(10) o(4) w(2) by metis
    ultimately show "y_rmem ?y c' (rc_rkey (chunk_at (y_dev ?y) c' i')) (chunk_addr (y_dev ?y) c' i' (p mod 2 ^ 18)) =
        rq_content q p"
      using vs(4,5) q by simp
  qed (use f vs other in auto)
  then show ?thesis by simp
qed

definition read_end_ctx :: "rdma_ctx \<Rightarrow> rdma_ctx" where
  "read_end_ctx k = k\<lparr>cx_in_flight := CTX_IDLE, cx_chunk_index := -1, cx_req := None\<rparr>"

lemma client_read_done_eq:
  assumes "ctx_of s x = Some k" "cx_req k = Some req" "client_read_done x s = Inr s'"
  obtains s1 where "IS_insert_ctx x ((mod_ctx x read_end_ctx s)\<lparr>b_rbuf := (b_rbuf s)(rq_id req := b_bufs s x 0)\<rparr>) = Inr s1"
    "s' = blk_mq_end_request (rq_id req) 0 s1"
proof -
  have "ctx_at s x = Inr k" using assms(1) by (simp add: ctx_at_of)
  moreover have "upd_ctx x (\<lambda>k. k\<lparr>cx_in_flight := CTX_IDLE, cx_chunk_index := -1, cx_req := None\<rparr>) s =
      Inr (mod_ctx x read_end_ctx s)"
    using assms(1) by (simp add: upd_ctx_mod read_end_ctx_def [abs_def])
  ultimately show thesis
    using assms(2,3) that by (auto simp: client_read_done_def rbind_eq_Inr)
qed

lemma bsim_rdma_read:
  assumes sim: "bsim v y" and c: "c < b_cb_num (y_dev y)" "\<not> failed (y_dev y) c"
    and w: "b_wrs (y_dev y) c = w # ws" "\<not> wr_write w"
    and k: "ctx_of (y_dev y) (wr_ctx w) = Some k" "cx_req k = Some req"
    and h: "rdma_cq_event_handler c [(WC_SUCCESS, WC_RDMA_READ (wr_ctx w))] 0
      ((y_dev y)\<lparr>b_wrs := (b_wrs (y_dev y))(c := ws), b_bufs := (b_bufs (y_dev y))(wr_ctx w :=
         rmem_get c w (y_rmem y) (b_bufs (y_dev y) (wr_ctx w)))\<rparr>) = Inr s'"
      "k_state (b_cb_list (y_dev y) c) \<noteq> ERROR"
  shows "store_ok (Delivered (rq_id req) (b_rbuf s' (rq_id req))) v \<and>
    bsim (store_next (Delivered (rq_id req) (b_rbuf s' (rq_id req))) v)
      (y\<lparr>y_dev := s', y_pend := drop_pend [rq_id req] (y_pend y)\<rparr>)"
proof -
  let ?s = "y_dev y" and ?x = "wr_ctx w" and ?buf = "rmem_get c w (y_rmem y) (b_bufs (y_dev y) (wr_ctx w))"
  let ?pop = "?s\<lparr>b_wrs := (b_wrs ?s)(c := ws)\<rparr>" and ?get = "?s\<lparr>b_wrs := (b_wrs ?s)(c := ws), b_bufs := (b_bufs ?s)(?x := ?buf)\<rparr>"
  obtain n j i where o: "?x = (n, c, j)" "in_flight ?s ?x k" "cx_in_flight k = CTX_R_IN_FLIGHT"
    "w = request_wr (wr_write w) ?x c i req ?s" "y_rmem y c (wr_rkey w) (wr_addr w) = v_store v (rq_page req)" "flight_ok y ?x k"
    by (rule completed [OF sim c w(1) k]) (use w(2) in auto)
  have f: "y_pend y (rq_id req) = Some req" "rq_id req \<notin> set (queue_reqs (queue ?s))" "\<not> rq_write req" "j < IS_QUEUE_DEPTH"
    using o(3,6) k(2) unfolding o(1) by (auto simp: flight_ok_def)
  note good = pend_invD(2) [OF bsimD(6) [OF sim] f(1)] and ci = ctx_invD [OF bsimD(4) [OF sim]]
  have "client_read_done ?x ?get = Inr s'" using handler_read [OF h(1)] h(2) by simp
  moreover have "ctx_of ?get ?x = Some k" using k(1) by (simp add: ctx_of_def)
  ultimately obtain s1 where s1: "IS_insert_ctx ?x ((mod_ctx ?x read_end_ctx ?get)\<lparr>b_rbuf := (b_rbuf ?get)(rq_id req := b_bufs ?get ?x 0)\<rparr>) = Inr s1"
    "s' = blk_mq_end_request (rq_id req) 0 s1"
    by (metis client_read_done_eq k(2))
  let ?t = "(mod_ctx ?x read_end_ctx ?get)\<lparr>b_rbuf := (b_rbuf ?get)(rq_id req := b_bufs ?get ?x 0)\<rparr>"
  let ?u = "mod_ctx ?x read_end_ctx ?pop"
  have sim1: "bsim v (y\<lparr>y_dev := ?u\<rparr>)"
    using bsim_idle [OF bsim_pop_wr [OF sim w(1)], of read_end_ctx ?x] popped_wr [OF sim c w(1)]
    by (simp add: read_end_ctx_def failed_def)
  have fu: "in_flight ?u z kk \<longleftrightarrow> z \<noteq> ?x \<and> in_flight ?s z kk" for z kk
    using in_flight_idle [of read_end_ctx ?x ?pop z kk] by (simp add: read_end_ctx_def in_flight_def ctx_of_def)
  have qx: "?x \<notin> set (queue_ctxs (queue ?s))" using ci(9) [of ?x k] k(1) o(3) by blast
  have qu: "queue ?u = queue ?s" by (simp add: queue_def)
  have "bsim v (y\<lparr>y_dev := ?u\<rparr>\<lparr>y_dev := (y_dev (y\<lparr>y_dev := ?u\<rparr>))\<lparr>b_bufs := (b_bufs (y_dev (y\<lparr>y_dev := ?u\<rparr>)))(?x := ?buf)\<rparr>\<rparr>)"
    by (rule bsim_buffer [OF sim1]) (use fu [of ?x] qx qu in simp_all)
  then have sim2: "bsim v (y\<lparr>y_dev := ?t\<rparr>)"
    by (rule bsim_core_sys) (simp_all add: same_core_def queue_def mod_ctx_def)
  have ft: "in_flight ?t z kk \<longleftrightarrow> z \<noteq> ?x \<and> in_flight ?s z kk" for z kk
  proof -
    have "ctx_of ?t z = ctx_of ?u z" by (simp add: ctx_of_def mod_ctx_def)
    then show ?thesis using fu by (simp add: in_flight_def)
  qed
  have qt: "queue ?t = queue ?s" by (simp add: queue_def)
  have fr: "\<not> is_free ?t ?x"
  proof -
    have "is_free ?t ?x = is_free (mod_ctx ?x read_end_ctx ?get) ?x" by (simp add: is_free_def frees_def)
    also have "\<dots> = is_free ?get ?x" by (rule mod_ctx_free)
    also have "\<dots> = is_free ?s ?x" by (simp add: is_free_def frees_def)
    finally show ?thesis using ci(5) [of ?x k] o(2) by blast
  qed
  have "loose ?t ?x" using ft [of ?x] qt qx fr f(4) o(1) by (simp add: loose_def)
  then have sim3: "bsim v (y\<lparr>y_dev := s1\<rparr>)" using bsim_insert [OF sim2, of ?x s1] s1(1) by simp
  have sim4: "bsim v (y\<lparr>y_dev := s'\<rparr>)"
    by (rule bsim_core_sys [OF sim3]) (simp_all add: s1(2) same_core_def blk_mq_end_request_def queue_def)
  have "pools_ok ?t" using ctx_invD(1) [OF bsimD(4) [OF sim2]] by simp
  note iv = insert_view [OF s1(1) this]
  have e: "queue s1 = queue ?s" "in_flight s1 = in_flight ?t" "b_rbuf s1 = b_rbuf ?t"
    using iv(2) qt by (subst iv(4), simp add: queue_def, simp add: in_flight_def fun_eq_iff, subst iv(4), simp)
  have d: "b_rbuf s' (rq_id req) = v_store v (rq_page req)"
  proof -
    have "0 < unat (wr_len w)" using o(4) page_requestD(2,3) [OF good] by (metis mult_pos_pos request_wr_simps(4) zero_less_numeral)
    then show ?thesis using e(3) o(5) by (simp add: s1(2) blk_mq_end_request_def rmem_get_def)
  qed
  have "store_ok (Delivered (rq_id req) (b_rbuf s' (rq_id req))) v \<and>
      bsim (store_next (Delivered (rq_id req) (b_rbuf s' (rq_id req))) v)
        (y\<lparr>y_dev := s'\<rparr>\<lparr>y_pend := drop_pend [rq_id req] (y_pend (y\<lparr>y_dev := s'\<rparr>))\<rparr>)"
  proof (rule bsim_delivered [OF sim4 _ f(3) d])
    show "rq_id q \<noteq> rq_id req" if "in_flight (y_dev (y\<lparr>y_dev := s'\<rparr>)) z kk" "cx_req kk = Some q" for z kk q
    proof -
      have "in_flight s' z kk = in_flight s1 z kk" by (simp add: s1(2) blk_mq_end_request_def in_flight_def ctx_of_def)
      then have "in_flight ?t z kk" using that(1) e(2) by simp
      then have "z \<noteq> ?x" "in_flight ?s z kk" using ft by simp_all
      then show ?thesis
        using flight_inv_compat [OF bsimD(7) [OF sim] _ o(2), of z kk] that(2) k(2) by (auto simp: compatible_def)
    qed
  qed (use f e in \<open>simp_all add: s1(2) blk_mq_end_request_def queue_def\<close>)
  then show ?thesis by simp
qed

end
