(* ===== verification/Block_Loss.thy ===== *)
theory Block_Loss
  imports Block_Completions
begin

text \<open>The end of \<^verbatim>\<open>IS_disconnect_handler\<close>: the transfers of a server that is lost end, and its chunks are released.\<close>

section \<open>The chunks are released\<close>

lemma bsim_release_free:
  assumes sim: "bsim v y" and r: "release_chunk (int g) (y_dev y) = Inr s'"
    and g: "b_cb_index_map (y_dev y) g = -1" "b_chunk_map_cb_chunk (y_dev y) g \<noteq> -1"
      "\<forall>c i. is_server (y_dev y) c i \<longrightarrow> cmap (y_dev y) c i \<noteq> int g" "\<And>c. \<not> stage_chunks (y_evict y c) g"
  shows "bsim v (y\<lparr>y_dev := s'\<rparr>)"
proof (rule bsim_maps [OF sim])
  let ?s = "y_dev y" and ?y = "y\<lparr>y_dev := s'\<rparr>"
  note f = release_map_inv [OF bsimD(2) [OF sim] r g(1-3)]
  note i = io_view [OF f(2)] and evi = bsimD(3) [OF sim, unfolded evict_inv_def Let_def]
  have fl: "failed s' = failed ?s" "unused s' = unused ?s" "chunk_at s' = chunk_at ?s"
    by (simp_all add: f failed_def unused_def chunk_at_def fun_eq_iff)
  have m: "mapped_at s' h c i = mapped_at ?s h c i" for h c i
    using g(1) f(5,6) i(10) by (auto simp: mapped_at_def)
  have e: "evicting ?y = evicting y" by (auto simp: evicting_def f fun_eq_iff)
  show "same_io ?s (y_dev ?y)" "map_inv (y_dev ?y)" using f(1,2) by simp_all
  have "h \<noteq> g" if "stage_chunks (y_evict y c) h" for h c using that g(4) by auto
  then show "evict_inv ?y" using evi unfolding evict_inv_def Let_def e by (simp add: f(3,5,6) fl i)
  show "chunk_here ?y c' i' h" if "chunk_here y c' i' h" for c' i' h
    using that unfolding chunk_here_def e by (simp add: fl f(3))
qed (use release_map_inv [OF bsimD(2) [OF sim] r g(1-3)] in
    \<open>auto simp: failed_def unused_def chunk_at_def mapped_at_def g(1) same_io_def split: if_splits\<close>)

lemma bsim_forgot:
  assumes sim: "bsim v y" and c: "is_server (y_dev y) c i" "failed (y_dev y) c"
    and idle: "\<And>n j k. \<not> in_flight (y_dev y) (n, c, j) k"
  shows "bsim v (y\<lparr>y_dev := forgot c {i} (y_dev y)\<rparr>)"
proof (rule bsim_maps [OF sim])
  let ?s = "y_dev y" and ?y = "y\<lparr>y_dev := forgot c {i} (y_dev y)\<rparr>"
  note inv = bsimD(2) [OF sim] and evi = bsimD(3) [OF sim, unfolded evict_inv_def Let_def]
  have e: "evicting ?y = evicting y" by (simp add: evicting_def fun_eq_iff)
  show "same_io ?s (y_dev ?y)" by (simp add: same_io_def)
  show "map_inv (y_dev ?y)"
  proof -
    have "map_routed (y_dev ?y)"
      unfolding map_routed_def
    proof (intro allI impI)
      fix g assume "g < STACKBD_SIZE_G" "b_cb_index_map (y_dev ?y) g \<noteq> -1"
      then obtain c' i' where m: "mapped_at ?s g c' i'" "cmap ?s c' i' = int g"
        using inv by (auto simp: map_inv_def map_routed_def)
      moreover have "c' \<noteq> c" using mapped_not_unused(4) [OF inv m(1)] c(2) by blast
      ultimately show "\<exists>c i. mapped_at (y_dev ?y) g c i \<and> cmap (y_dev ?y) c i = int g"
        by (intro exI [of _ c'] exI [of _ i']) simp
    qed
    moreover have "map_owned (y_dev ?y)"
      unfolding map_owned_def
    proof (intro allI impI)
      fix c' i' assume a: "is_server (y_dev ?y) c' i'" "cmap (y_dev ?y) c' i' \<noteq> -1"
      then have n: "\<not> (c' = c \<and> i' = i)" by auto
      then obtain g where "owned_at ?s c' i' g" using a inv by (auto simp: map_inv_def elim: map_ownedE)
      then show "\<exists>g. owned_at (y_dev ?y) c' i' g" using n by (intro exI [of _ g]) (simp add: owned_at_def)
    qed
    moreover have "map_unique (y_dev ?y)" using inv by (simp add: map_inv_def map_unique_def)
    ultimately show ?thesis using inv by (simp add: map_inv_def map_bitmaps_def map_unused_def map_keys_def map_free_def)
  qed
  show "evict_inv ?y" using evi unfolding evict_inv_def Let_def e by simp
  show "chunk_here ?y c' i' g" if "in_flight ?s (n, c', j) k" "chunk_here y c' i' g" for n c' j k i' g
    using that idle [of n j k] by (cases "c' = c") (auto simp: chunk_here_def e split: if_splits)
qed auto

lemma release_forgot:
  "release_chunk g s = Inr s1 \<Longrightarrow> release_chunk g (forgot c S s) = Inr (forgot c S s1)"
  by (auto simp: release_chunk_def rbind_eq_Inr forgot_def upd_cb_def intro!: bdev.equality cong: if_cong)

lemma bsim_disconnect_release:
  assumes sim: "bsim v y" and c: "is_server (y_dev y) c i" "failed (y_dev y) c"
    and idle: "\<And>n j k. \<not> in_flight (y_dev y) (n, c, j) k"
    and d: "disconnect_release c i (y_dev y) = Inr s'"
  shows "bsim v (y\<lparr>y_dev := s'\<rparr>)" "same_io (y_dev y) s'" "failed s' = failed (y_dev y)"
    "mapped_at s' h c' i' \<Longrightarrow> mapped_at (y_dev y) h c' i'"
proof -
  let ?s = "y_dev y"
  have "bsim v (y\<lparr>y_dev := s'\<rparr>) \<and> same_io ?s s' \<and> failed s' = failed ?s \<and>
      (\<forall>h c' i'. mapped_at s' h c' i' \<longrightarrow> mapped_at ?s h c' i')"
  proof (cases "cmap ?s c i = -1")
    case True
    then show ?thesis
      using d bsim_core [OF sim same_core_refl] by (simp add: disconnect_release_def same_io_def)
  next
    case False
    then obtain g where g: "owned_at ?s c i g" using bsimD(2) [OF sim] c(1) by (auto simp: map_inv_def elim: map_ownedE)
    have gg: "cmap ?s c i = int g" "b_cb_index_map ?s g = -1" "b_chunk_map_cb_chunk ?s g = int i"
      using g c(2) by (simp_all add: owned_at_def)
    obtain s1 where s1: "release_chunk (int g) ?s = Inr s1" "s' = forgot c {i} s1"
    proof -
      obtain s1 where 1: "release_chunk (int g) ?s = Inr s1"
        "s' = upd_cb c (\<lambda>k. k\<lparr>k_chunk_map := (k_chunk_map k)(i := -1)\<rparr>) s1"
        using d False gg(1) by (auto simp: disconnect_release_def Let_def rbind_eq_Inr)
      have "upd_cb c (\<lambda>k. k\<lparr>k_chunk_map := (k_chunk_map k)(i := -1)\<rparr>) s1 = forgot c {i} s1"
        unfolding forgot_def by (rule upd_cb_cong) (simp add: fun_upd_def)
      with 1 show thesis using that by simp
    qed
    note sim1 = bsim_forgot [OF sim c idle]
    have r: "release_chunk (int g) (y_dev (y\<lparr>y_dev := forgot c {i} ?s\<rparr>)) = Inr s'"
      using release_forgot [OF s1(1)] s1(2) by simp
    have free: "\<forall>c' i'. is_server ?s c' i' \<longrightarrow> cmap (forgot c {i} ?s) c' i' \<noteq> int g"
      using map_uniqueD [OF bsimD(2) [OF sim] _ c(1) _ gg(1)] by auto
    have st: "\<not> stage_chunks (y_evict y c') g" for c'
      using bsimD(3) [OF sim] c(1) gg(1) by (auto simp: evict_inv_def Let_def)
    have "bsim v (y\<lparr>y_dev := forgot c {i} ?s\<rparr>\<lparr>y_dev := s'\<rparr>)"
      by (rule bsim_release_free [OF sim1 r]) (use gg free st in simp_all)
    moreover have "same_io ?s s'" "failed s' = failed ?s" "\<And>h c' i'. mapped_at s' h c' i' \<Longrightarrow> mapped_at ?s h c' i'"
    proof -
      obtain u where u: "s1 = ?s\<lparr>b_chunk_map_cb_chunk := (b_chunk_map_cb_chunk ?s)(g := -1),
          b_free_chunk_index := b_free_chunk_index ?s + 1, b_unmapped_chunk_list := u\<rparr>"
        using s1(1) by (auto simp: release_chunk_def rbind_eq_Inr aset_Inr)
      show "same_io ?s s'" "failed s' = failed ?s" "\<And>h c' i'. mapped_at s' h c' i' \<Longrightarrow> mapped_at ?s h c' i'"
        unfolding s1(2) u by (auto simp: same_io_def queue_def failed_def fun_eq_iff mapped_at_def forgot_def upd_cb_def split: if_splits)
    qed
    ultimately show ?thesis by simp
  qed
  then show "bsim v (y\<lparr>y_dev := s'\<rparr>)" "same_io ?s s'" "failed s' = failed ?s"
    "mapped_at s' h c' i' \<Longrightarrow> mapped_at ?s h c' i'" by blast+
qed

lemma bsim_release_loop:
  assumes "rfold (disconnect_release c) xs (y_dev y) = Inr s'" "bsim v y" "\<forall>i \<in> set xs. is_server (y_dev y) c i"
    "failed (y_dev y) c" "\<And>n j k. \<not> in_flight (y_dev y) (n, c, j) k"
  shows "bsim v (y\<lparr>y_dev := s'\<rparr>) \<and> same_io (y_dev y) s' \<and> failed s' = failed (y_dev y) \<and>
    (\<forall>h c' i'. mapped_at s' h c' i' \<longrightarrow> mapped_at (y_dev y) h c' i')"
  using assms
proof (induction xs arbitrary: y)
  case Nil
  then show ?case using bsim_core [OF Nil.prems(2) same_core_refl] by (simp add: same_io_def)
next
  case (Cons i xs)
  obtain s1 where s1: "disconnect_release c i (y_dev y) = Inr s1" "rfold (disconnect_release c) xs s1 = Inr s'"
    using Cons.prems(1) by (auto simp: rbind_eq_Inr)
  have i: "is_server (y_dev y) c i" using Cons.prems(3) by simp
  note d = bsim_disconnect_release [OF Cons.prems(2) i Cons.prems(4,5) s1(1)]
  note io = io_view [OF d(2)]
  have "bsim v (y\<lparr>y_dev := s1\<rparr>\<lparr>y_dev := s'\<rparr>) \<and> same_io s1 s' \<and> failed s' = failed s1 \<and>
      (\<forall>h c' i'. mapped_at s' h c' i' \<longrightarrow> mapped_at s1 h c' i')"
    using Cons.IH [of "y\<lparr>y_dev := s1\<rparr>"] s1(2) d(1,3) Cons.prems(3-5) io by simp
  then show ?case using d(2-4) by (auto simp: same_io_def)
qed

section \<open>The transfers end\<close>

text \<open>What the loop over the contexts leaves alone.\<close>

definition same_route :: "bdev \<Rightarrow> bdev \<Rightarrow> bool" where
  "same_route s s' \<longleftrightarrow> b_cb_list s' = b_cb_list s \<and> b_cb_index_map s' = b_cb_index_map s \<and>
     b_chunk_map_cb_chunk s' = b_chunk_map_cb_chunk s \<and> b_cb_state_list s' = b_cb_state_list s \<and>
     b_cb_num s' = b_cb_num s \<and> b_queues s' = b_queues s \<and> stackbd_ready s' = stackbd_ready s"

lemma same_route_view:
  "same_route s s' \<Longrightarrow> failed s' = failed s \<and> mapped_at s' = mapped_at s \<and> is_server s' = is_server s"
  by (simp add: same_route_def failed_def mapped_at_def is_server_def fun_eq_iff)

text \<open>One context: what is in flight afterwards, and which requests are new in the queue of the disk.\<close>

definition stopped :: "bsys \<Rightarrow> (ctx_id \<Rightarrow> bool) \<Rightarrow> bdev \<Rightarrow> bdev \<Rightarrow> bool" where
  "stopped y X s s' \<longleftrightarrow> same_route s s' \<and>
     (\<forall>z k. in_flight s' z k \<longleftrightarrow> \<not> X z \<and> in_flight s z k) \<and>
     (\<forall>r \<in> set (queue_reqs (queue s')). r \<in> set (queue_reqs (queue s)) \<or> (\<exists>q. y_pend y r = Some q \<and> \<not> rq_write q))"

lemma stopped_trans:
  assumes "stopped y X s s1" "stopped y Z s1 s2"
  shows "stopped y (\<lambda>z. X z \<or> Z z) s s2"
  using assms unfolding stopped_def same_route_def by auto

lemma failed_idle:
  assumes sim: "bsim v y" and c: "failed (y_dev y) c" and f: "\<And>k. cx_in_flight (f k) = CTX_IDLE"
  shows "bsim v (y\<lparr>y_dev := mod_ctx (n, c, j) f (y_dev y)\<rparr>)"
proof (rule bsim_idle [OF sim f])
  show "wr_ctx w \<noteq> (n, c, j)" if "c' < b_cb_num (y_dev y)" "\<not> failed (y_dev y) c'" "w \<in> set (b_wrs (y_dev y) c')" for c' w
    using wr_server [OF sim that] c that(2) by auto
qed

lemma stop_write:
  assumes sim: "bsim v y" and c: "failed (y_dev y) c"
  shows "bsim v (y\<lparr>y_dev := blk_mq_end_request r e (mod_ctx (n, c, j) (\<lambda>k. k\<lparr>cx_in_flight := CTX_IDLE\<rparr>) (y_dev y))\<rparr>)"
    "stopped y (\<lambda>z. z = (n, c, j)) (y_dev y)
       (blk_mq_end_request r e (mod_ctx (n, c, j) (\<lambda>k. k\<lparr>cx_in_flight := CTX_IDLE\<rparr>) (y_dev y)))"
proof -
  let ?f = "\<lambda>k :: rdma_ctx. k\<lparr>cx_in_flight := CTX_IDLE\<rparr>"
  let ?t = "mod_ctx (n, c, j) ?f (y_dev y)"
  have sim1: "bsim v (y\<lparr>y_dev := ?t\<rparr>)" by (rule failed_idle [OF sim c]) simp
  then show "bsim v (y\<lparr>y_dev := blk_mq_end_request r e ?t\<rparr>)"
    by (rule bsim_core_sys) (simp_all add: same_core_def blk_mq_end_request_def queue_def)
  have "in_flight (blk_mq_end_request r e ?t) z k = in_flight ?t z k" for z k
    by (simp add: in_flight_def ctx_of_def blk_mq_end_request_def)
  then show "stopped y (\<lambda>z. z = (n, c, j)) (y_dev y) (blk_mq_end_request r e ?t)"
    by (simp add: stopped_def in_flight_idle same_route_def blk_mq_end_request_def queue_def stackbd_ready_def)
qed

lemma stop_read:
  assumes sim: "bsim v y" and c: "failed (y_dev y) c" and ready: "stackbd_ready (y_dev y)"
    and k: "ctx_of (y_dev y) (n, c, j) = Some k" "cx_in_flight k = CTX_R_IN_FLIGHT" "cx_req k = Some req"
    and d: "rbind (IS_mq_request_stackbd2 req (mod_ctx (n, c, j) (\<lambda>k. k\<lparr>cx_in_flight := CTX_IDLE\<rparr>) (y_dev y)))
      (IS_insert_ctx (n, c, j)) = Inr s'"
  shows "bsim v (y\<lparr>y_dev := s'\<rparr>)" "stopped y (\<lambda>z. z = (n, c, j)) (y_dev y) s'"
proof -
  let ?s = "y_dev y" and ?x = "(n, c, j)" and ?f = "\<lambda>k :: rdma_ctx. k\<lparr>cx_in_flight := CTX_IDLE\<rparr>"
  let ?t = "mod_ctx ?x ?f ?s"
  let ?u = "add_bios (disk_bios req) ?t"
  have fl: "in_flight ?s ?x k" using k by (simp add: in_flight_def)
  note ok = flight_invD [OF bsimD(7) [OF sim] fl] and p = flight_pending [OF sim fl k(3)]
  have nw: "\<not> rq_write req" "j < IS_QUEUE_DEPTH" using ok k by (auto simp: flight_ok_def)
  note good = pend_invD(2) [OF bsimD(6) [OF sim] p(1)] and ci = ctx_invD [OF bsimD(4) [OF sim]]
  have sim1: "bsim v (y\<lparr>y_dev := ?t\<rparr>)" by (rule failed_idle [OF sim c]) simp
  have ft: "in_flight ?t z q \<longleftrightarrow> z \<noteq> ?x \<and> in_flight ?s z q" for z q by (simp add: in_flight_idle)
  have qt: "queue ?t = queue ?s" "page_request ?t = page_request ?s"
    by (simp_all add: queue_def page_request_def fun_eq_iff)
  have m: "(y_pend y)(rq_id req \<mapsto> req) = y_pend y" "(v_pend v)(rq_id req \<mapsto> req) = v_pend v"
    using p(1) sim by (simp_all add: fun_upd_idem bsim_def)
  have sim3: "bsim (v\<lparr>v_pend := (v_pend v)(rq_id req \<mapsto> req)\<rparr>) (y\<lparr>y_dev := ?t\<rparr>\<lparr>y_dev := add_bios (disk_bios req) (y_dev (y\<lparr>y_dev := ?t\<rparr>)),
      y_pend := (y_pend (y\<lparr>y_dev := ?t\<rparr>))(rq_id req \<mapsto> req)\<rparr>)"
  proof (rule bsim_to_disk [OF sim1])
    show "rq_pages req \<inter> rq_pages q = {}" if "y_pend (y\<lparr>y_dev := ?t\<rparr>) r = Some q" "r \<noteq> rq_id req" for r q
      using pend_inv_disjoint [OF bsimD(6) [OF sim] p(1), of r q] that by simp
    show "rq_id q \<noteq> rq_id req" if "in_flight (y_dev (y\<lparr>y_dev := ?t\<rparr>)) z kk" "cx_req kk = Some q" for z kk q
      using flight_inv_compat [OF bsimD(7) [OF sim] _ fl, of z kk] that k(3) ft by (auto simp: compatible_def)
  qed (use good p nw qt in simp_all)
  have "v\<lparr>v_pend := (v_pend v)(rq_id req \<mapsto> req)\<rparr> = v" unfolding m by simp
  with sim3 have "bsim v (y\<lparr>y_dev := ?t\<rparr>\<lparr>y_dev := add_bios (disk_bios req) (y_dev (y\<lparr>y_dev := ?t\<rparr>)),
      y_pend := (y_pend (y\<lparr>y_dev := ?t\<rparr>))(rq_id req \<mapsto> req)\<rparr>)" by (simp only:)
  then have sim2: "bsim v (y\<lparr>y_dev := ?u\<rparr>)" by (rule bsim_core_sys) (simp_all add: m)
  have "stackbd_ready ?t" using ready by (simp add: stackbd_ready_def)
  then have ins: "IS_insert_ctx ?x ?u = Inr s'"
    using d make_request2_good [OF good] by (simp add: IS_mq_request_stackbd2_def stackbd_make_request4_def)
  have uv: "queue ?u = queue ?s @ disk_bios req" "in_flight ?u = in_flight ?t" "is_free ?u = is_free ?s"
  proof -
    show "queue ?u = queue ?s @ disk_bios req" by (simp add: add_bios_def queue_def)
    show "in_flight ?u = in_flight ?t" by (simp add: add_bios_def in_flight_def ctx_of_def fun_eq_iff)
    have "is_free ?u = is_free ?t" by (simp add: add_bios_def is_free_def frees_def fun_eq_iff)
    then show "is_free ?u = is_free ?s" by (simp add: fun_eq_iff)
  qed
  have "loose ?u ?x"
    using ft [of ?x] uv ci(9) [of ?x k] ci(5) [of ?x k] fl k(1,2) nw(2) disk_bios_facts(1) [OF good]
    by (auto simp: loose_def)
  then show "bsim v (y\<lparr>y_dev := s'\<rparr>)" using bsim_insert [OF sim2, of ?x s'] ins by simp
  have "pools_ok ?u" using ctx_invD(1) [OF bsimD(4) [OF sim2]] by simp
  note iv = insert_view [OF ins this]
  have e: "queue s' = queue ?u" "in_flight s' = in_flight ?u" "same_route ?s s'"
  proof -
    show "queue s' = queue ?u" by (subst iv(4)) (simp add: queue_def)
    show "in_flight s' = in_flight ?u" using iv(2) by (simp add: in_flight_def fun_eq_iff)
    show "same_route ?s s'" by (subst iv(4)) (simp add: same_route_def add_bios_def stackbd_ready_def)
  qed
  show "stopped y (\<lambda>z. z = ?x) ?s s'"
    using e uv ft p(1) nw(1) disk_bios_facts(2) [OF good] by (auto simp: stopped_def)
qed

lemma bsim_disconnect_ctx:
  assumes sim: "bsim v y" and c: "failed (y_dev y) c" and ready: "stackbd_ready (y_dev y)"
    and d: "disconnect_ctx c (n, j) (y_dev y) = Inr s'"
  shows "bsim v (y\<lparr>y_dev := s'\<rparr>) \<and> stopped y (\<lambda>z. z = (n, c, j)) (y_dev y) s'"
proof -
  let ?s = "y_dev y" and ?f = "\<lambda>k :: rdma_ctx. k\<lparr>cx_in_flight := CTX_IDLE\<rparr>"
  obtain p where p: "b_pools ?s n c = Some p" using d by (auto simp: disconnect_ctx_def Let_def split: option.splits)
  let ?k = "cp_ctx p j"
  have k: "ctx_of ?s (n, c, j) = Some ?k" using p by (simp add: ctx_of_def)
  have u: "upd_ctx (n, c, j) ?f ?s = Inr (mod_ctx (n, c, j) ?f ?s)" using k by (simp add: upd_ctx_mod)
  show ?thesis
  proof (cases "cx_in_flight ?k")
    case CTX_IDLE
    then have "s' = ?s" using d p by (simp add: disconnect_ctx_def Let_def)
    moreover have "\<not> in_flight ?s (n, c, j) kk" for kk using k CTX_IDLE by (auto simp: in_flight_def)
    ultimately show ?thesis
      using bsim_core [OF sim same_core_refl] by (auto simp: stopped_def same_route_def)
  next
    case CTX_R_IN_FLIGHT
    then obtain req where req: "cx_req ?k = Some req"
      using flight_invD [OF bsimD(7) [OF sim], of "(n, c, j)" ?k] k by (auto simp: in_flight_def flight_ok_def)
    then have "rbind (IS_mq_request_stackbd2 req (mod_ctx (n, c, j) ?f ?s)) (IS_insert_ctx (n, c, j)) = Inr s'"
      using d p CTX_R_IN_FLIGHT u by (simp add: disconnect_ctx_def Let_def)
    from stop_read [OF sim c ready k CTX_R_IN_FLIGHT req this] show ?thesis by blast
  next
    case CTX_W_IN_FLIGHT
    then obtain req where req: "cx_req ?k = Some req"
      using flight_invD [OF bsimD(7) [OF sim], of "(n, c, j)" ?k] k by (auto simp: in_flight_def flight_ok_def)
    then have "s' = blk_mq_end_request (rq_id req) 0 (mod_ctx (n, c, j) ?f ?s)"
      using d p CTX_W_IN_FLIGHT u by (simp add: disconnect_ctx_def Let_def)
    with stop_write [OF sim c] show ?thesis by blast
  qed
qed

lemma bsim_ctx_loop:
  assumes "rfold (disconnect_ctx c) xs (y_dev y) = Inr s'" "bsim v y" "failed (y_dev y) c" "stackbd_ready (y_dev y)"
  shows "bsim v (y\<lparr>y_dev := s'\<rparr>) \<and> stopped y (\<lambda>z. \<exists>(n, j) \<in> set xs. z = (n, c, j)) (y_dev y) s'"
  using assms
proof (induction xs arbitrary: y)
  case Nil
  then show ?case using bsim_core [OF Nil.prems(2) same_core_refl] by (simp add: stopped_def same_route_def)
next
  case (Cons nj xs)
  obtain n j where nj: "nj = (n, j)" by (cases nj)
  obtain s1 where s1: "disconnect_ctx c (n, j) (y_dev y) = Inr s1" "rfold (disconnect_ctx c) xs s1 = Inr s'"
    using Cons.prems(1) nj by (auto simp: rbind_eq_Inr)
  note d = bsim_disconnect_ctx [OF Cons.prems(2-4) s1(1)]
  have r: "failed s1 c" "stackbd_ready s1"
    using d same_route_view [of "y_dev y" s1] Cons.prems(3,4) by (auto simp: stopped_def same_route_def)
  have "bsim v (y\<lparr>y_dev := s1\<rparr>\<lparr>y_dev := s'\<rparr>) \<and>
      stopped (y\<lparr>y_dev := s1\<rparr>) (\<lambda>z. \<exists>(n, j) \<in> set xs. z = (n, c, j)) s1 s'"
    using Cons.IH [of "y\<lparr>y_dev := s1\<rparr>"] s1(2) d r by simp
  moreover have "stopped (y\<lparr>y_dev := s1\<rparr>) X = stopped y X" for X by (simp add: stopped_def fun_eq_iff)
  ultimately show ?case
    using stopped_trans [of y "\<lambda>z. z = (n, c, j)" "y_dev y" s1 "\<lambda>z. \<exists>(n, j) \<in> set xs. z = (n, c, j)" s'] d nj by simp
qed

lemma flight_writes_in:
  assumes "r \<in> set (flight_writes c s)"
  obtains n j k req where "in_flight s (n, c, j) k" "cx_in_flight k = CTX_W_IN_FLIGHT" "cx_req k = Some req" "r = rq_id req"
proof -
  obtain n j where nj: "r \<in> set (case ctx_of s (n, c, j) of None \<Rightarrow> []
      | Some k \<Rightarrow> (case cx_req k of None \<Rightarrow> []
         | Some req \<Rightarrow> if cx_in_flight k = CTX_W_IN_FLIGHT then [rq_id req] else []))"
    using assms by (auto simp: flight_writes_def)
  then obtain k req where "ctx_of s (n, c, j) = Some k" "cx_in_flight k = CTX_W_IN_FLIGHT" "cx_req k = Some req" "r = rq_id req"
  proof (cases "ctx_of s (n, c, j)")
    case (Some k)
    with that nj show ?thesis by (cases "cx_req k") (auto split: if_splits)
  qed (use nj in simp)
  then show thesis by (intro that [of n j k req]) (simp_all add: in_flight_def)
qed

lemma bsim_not_lost:
  assumes "bsim v y"
  shows "bsim v (y\<lparr>y_lost := (y_lost y)(c := False)\<rparr>)"
proof (rule bsim_maps [OF assms])
  let ?y = "y\<lparr>y_lost := (y_lost y)(c := False)\<rparr>"
  have e: "evicting ?y = evicting y" by (simp add: evicting_def fun_eq_iff)
  show "evict_inv ?y" using bsimD(3) [OF assms] unfolding evict_inv_def Let_def e by simp
  show "chunk_here ?y c i g" if "chunk_here y c i g" for c i g using that by (simp add: chunk_here_def e)
qed (use bsimD(2) [OF assms] in \<open>simp_all add: same_io_def\<close>)

lemma bsim_lost_finish:
  assumes sim: "bsim v y" and lost: "y_lost y c" and d: "disconnect_finish c (y_dev y) = Inr s'"
    and ready: "stackbd_ready (y_dev y)"
  shows "store_ok (Ended (flight_writes c (y_dev y))) v \<and> bsim (store_next (Ended (flight_writes c (y_dev y))) v)
    (y\<lparr>y_dev := s', y_pend := drop_pend (flight_writes c (y_dev y)) (y_pend y), y_lost := (y_lost y)(c := False)\<rparr>)"
proof -
  let ?s = "y_dev y" and ?rs = "flight_writes c (y_dev y)"
  obtain s1 s2 where s: "rfold (disconnect_ctx c) (pool_ctxs ?s) ?s = Inr s1"
    "rfold (disconnect_release c) [0 ..< MAX_MR_SIZE_GB] s1 = Inr s2" "s' = (free_pools c s2)\<lparr>b_rdma_on := True\<rparr>"
    using d by (auto simp: disconnect_finish_def rbind_eq_Inr)
  have c: "failed ?s c" "c < b_cb_num ?s" using bsimD(3) [OF sim] lost by (auto simp: evict_inv_def Let_def)
  have l: "bsim v (y\<lparr>y_dev := s1\<rparr>)" "stopped y (\<lambda>z. \<exists>(n, j) \<in> set (pool_ctxs ?s). z = (n, c, j)) ?s s1"
    using bsim_ctx_loop [OF s(1) sim c(1) ready] by blast+
  have sr: "same_route ?s s1" using l(2) by (simp add: stopped_def)
  note v1 = same_route_view [OF sr]
  have f0: "in_flight s1 z k \<longleftrightarrow> \<not> (\<exists>(n, j) \<in> set (pool_ctxs ?s). z = (n, c, j)) \<and> in_flight ?s z k" for z k
    using l(2) unfolding stopped_def by blast
  have f1: "in_flight ?s z k" "fst (snd z) \<noteq> c" if "in_flight s1 z k" for z k
  proof -
    show fl: "in_flight ?s z k" using that f0 by blast
    show "fst (snd z) \<noteq> c"
    proof
      assume "fst (snd z) = c"
      then obtain n j where z: "z = (n, c, j)" by (cases z) auto
      have "(n, j) \<in> set (pool_ctxs ?s)"
        using flight_invD [OF bsimD(7) [OF sim] fl] pool_ctxs_in [of n ?s j] by (simp add: z flight_ok_def)
      then show False using that f0 z by blast
    qed
  qed
  then have idle: "\<not> in_flight s1 (n, c, j) k" for n j k by force
  have "bsim v (y\<lparr>y_dev := s1\<rparr>\<lparr>y_dev := s2\<rparr>) \<and> same_io s1 s2 \<and> failed s2 = failed s1 \<and>
      (\<forall>h c' i'. mapped_at s2 h c' i' \<longrightarrow> mapped_at s1 h c' i')"
    using bsim_release_loop [of c "[0 ..< MAX_MR_SIZE_GB]" "y\<lparr>y_dev := s1\<rparr>" s2 v] s(2) l(1) idle v1 c
    by (simp add: is_server_def)
  then have r: "bsim v (y\<lparr>y_dev := s2\<rparr>)" "same_io s1 s2" "failed s2 c" "\<And>h c' i'. mapped_at s2 h c' i' \<Longrightarrow> mapped_at ?s h c' i'"
    using v1 c by simp_all
  have idle2: "\<not> in_flight s2 (n, c, j) k" for n j k using idle io_view(5) [OF r(2)] by simp
  have sim3: "bsim v (y\<lparr>y_dev := s2\<rparr>\<lparr>y_dev := free_pools c (y_dev (y\<lparr>y_dev := s2\<rparr>))\<rparr>)"
    by (rule bsim_free_pools [OF r(1)]) (use r(3) idle2 in simp_all)
  have sim4: "bsim v (y\<lparr>y_dev := s'\<rparr>)"
    by (rule bsim_core_sys [OF sim3]) (simp_all add: s(3) same_core_def queue_def)
  have e: "queue s' = queue s1" "mapped_at s' = mapped_at s2"
    "in_flight s' z k \<Longrightarrow> in_flight s1 z k" for z k
  proof -
    show "queue s' = queue s1" using io_view(4) [OF r(2)] by (simp add: s(3) free_pools_def queue_def)
    show "mapped_at s' = mapped_at s2" by (simp add: s(3) free_pools_def mapped_at_def fun_eq_iff)
    assume "in_flight s' z k"
    then have "in_flight s2 z k"
      by (auto simp: s(3) free_pools_def in_flight_def ctx_of_def split: prod.splits if_splits)
    then show "in_flight s1 z k" using io_view(5) [OF r(2)] by simp
  qed
  let ?y = "y\<lparr>y_dev := s'\<rparr>"
  have "store_ok (Ended ?rs) v \<and> bsim (store_next (Ended ?rs) v) (?y\<lparr>y_pend := drop_pend ?rs (y_pend ?y)\<rparr>)"
  proof (rule bsim_ended [OF sim4])
    fix r assume "r \<in> set ?rs"
    then obtain n j k req where k: "in_flight ?s (n, c, j) k" "cx_in_flight k = CTX_W_IN_FLIGHT" "cx_req k = Some req"
      "r = rq_id req" by (rule flight_writes_in)
    note p = flight_pending [OF sim k(1,3)]
    have w: "rq_write req" using flight_invD [OF bsimD(7) [OF sim] k(1)] k(2,3) by (simp add: flight_ok_def)
    show "\<exists>req. y_pend ?y r = Some req \<and> rq_write req" using p(1) w k(4) by auto
    show "r \<notin> set (queue_reqs (queue (y_dev ?y)))"
    proof
      assume "r \<in> set (queue_reqs (queue (y_dev ?y)))"
      then have "r \<in> set (queue_reqs (queue s1))" using e(1) by simp
      then show False using l(2) p w k(4) by (fastforce simp: stopped_def)
    qed
  next
    fix z kk q assume z: "in_flight (y_dev ?y) z kk" "cx_req kk = Some q"
    then have zz: "in_flight ?s z kk" "fst (snd z) \<noteq> c" using e(3) f1 [of z kk] by simp_all
    show "rq_id q \<notin> set ?rs"
    proof
      assume "rq_id q \<in> set ?rs"
      then obtain n j k req where k: "in_flight ?s (n, c, j) k" "cx_req k = Some req" "rq_id q = rq_id req"
        by (rule flight_writes_in)
      then have "z = (n, c, j)"
        using flight_inv_compat [OF bsimD(7) [OF sim] zz(1) k(1)] z(2) by (simp add: compatible_def)
      with zz(2) show False by simp
    qed
  next
    fix r q p c' i' bm
    assume a: "r \<in> set ?rs" "y_pend ?y r = Some q" "p \<in> rq_pages q" "mapped_at (y_dev ?y) (p div 2 ^ 18) c' i'"
    obtain n j k req where k: "in_flight ?s (n, c, j) k" "cx_req k = Some req" "r = rq_id req"
      by (rule flight_writes_in [OF a(1)])
    have q: "q = req" using flight_pending(1) [OF sim k(1,2)] k(3) a(2) by simp
    obtain i where i: "is_server ?s c i" "cmap ?s c i = int (rq_chunk req)" "rq_chunk req = rq_last_chunk req"
      using flight_invD [OF bsimD(7) [OF sim] k(1)] k(2) c by (auto simp: flight_ok_def chunk_here_def is_server_def)
    have "page_request ?s req" using pend_invD(2) [OF bsimD(6) [OF sim]] a(2) q by simp
    then have "p div 2 ^ 18 = rq_chunk req" using page_in_chunk i(3) a(3) q by blast
    then have "mapped_at ?s (rq_chunk req) c' i'" using a(4) e(2) r(4) by simp
    note m = mapped_not_unused [OF bsimD(2) [OF sim] this]
    have "c' = c" using map_uniqueD [OF bsimD(2) [OF sim] m(2) i(1) m(1) i(2)] by simp
    with m(4) c(1) show "y_rmem ?y c' (rc_rkey (chunk_at (y_dev ?y) c' i')) (chunk_addr (y_dev ?y) c' i' (p mod 2 ^ 18)) =
        rq_content q p" by simp
  qed
  then have ok: "store_ok (Ended ?rs) v" and b: "bsim (store_next (Ended ?rs) v) (y\<lparr>y_dev := s', y_pend := drop_pend ?rs (y_pend y)\<rparr>)"
    by simp_all
  show ?thesis using ok bsim_not_lost [OF b, of c] by simp
qed

end
