(* ===== verification/Block_Refine.thy ===== *)
theory Block_Refine
  imports Block_Loss
begin

text \<open>
  The block device implements the page store: every step of the device and its environment is
  one of the store, from the start of a session on.
\<close>

section \<open>The remaining steps\<close>

lemma bsim_handler_recv:
  assumes sim: "bsim v y" and c: "c < b_cb_num (y_dev y)" "good_msg y c m"
    and h: "rdma_cq_event_handler c [(WC_SUCCESS, WC_RECV len_ok m post)] 0 (y_dev y) = Inr s'"
  shows "bsim v (y\<lparr>y_dev := s'\<rparr>)"
proof (cases "k_state (b_cb_list (y_dev y) c) = ERROR")
  case True
  then show ?thesis
    using h bsim_core [OF sim same_core_refl] by (simp add: rdma_cq_event_handler_def)
next
  case False
  then obtain r s1 where 1: "client_recv len_ok c (upd_cb c (\<lambda>k. k\<lparr>k_recv_buf := m\<rparr>) (y_dev y)) = Inr (r, s1)"
    "s' = set_k_state c ERROR s1 \<or> s' = upd_cb c (\<lambda>k. k\<lparr>k_posted := k_posted k + 1\<rparr>) s1"
    using h by (auto simp: rdma_cq_event_handler_def handle_wc_def rbind_eq_Inr split: if_splits)
  have "same_core s1 s'" using 1(2) set_k_state_core by (auto intro: upd_cb_core)
  moreover have "bsim v (y\<lparr>y_dev := s1\<rparr>)" by (rule bsim_recv [OF sim c 1(1)])
  ultimately show ?thesis using bsim_core [of v "y\<lparr>y_dev := s1\<rparr>" s'] by simp
qed

lemma bsim_flush:
  assumes sim: "bsim v y" and w: "b_wrs (y_dev y) c = w # ws"
    and h: "rdma_cq_event_handler c [(WC_FLUSH_ERR, op)] 0 ((y_dev y)\<lparr>b_wrs := (b_wrs (y_dev y))(c := ws)\<rparr>) = Inr s'"
  shows "bsim v (y\<lparr>y_dev := s'\<rparr>)"
proof -
  have "s' = (y_dev y)\<lparr>b_wrs := (b_wrs (y_dev y))(c := ws)\<rparr>"
    using h by (auto simp: rdma_cq_event_handler_def split: if_splits)
  with bsim_pop_wr [OF sim w] show ?thesis by simp
qed

lemma bsim_map_query:
  assumes sim: "bsim v y" and c: "c < b_cb_num (y_dev y)" "b_cb_state_list (y_dev y) c = CB_IDLE \<longrightarrow> y_evict y c = EvIdle"
  shows "bsim v (y\<lparr>y_dev := map_query post c (y_dev y)\<rparr>)"
proof (cases "b_cb_state_list (y_dev y) c = CB_IDLE")
  case True
  then have "map_query post c (y_dev y) = kernel_cb_init c (y_dev y)" by (simp add: map_query_def)
  with True bsim_kernel_cb_init [OF sim] c show ?thesis by (simp add: unused_def)
next
  case False
  then show ?thesis by (intro bsim_core [OF sim] map_query_core)
qed

lemma bsim_map_bind:
  assumes sim: "bsim v y" and idle: "idle \<longleftrightarrow> b_cb_state_list (y_dev y) c = CB_IDLE"
  shows "bsim v (y\<lparr>y_dev := snd (map_bind post idle c need (y_dev y))\<rparr>)"
proof -
  let ?s = "y_dev y"
  let ?t = "set_k_state c AFTER_FREE_MEM ?s"
  let ?u = "if idle then set_cb_state c CB_CONNECTED ?t else ?t"
  have sim1: "bsim v (y\<lparr>y_dev := ?t\<rparr>)" by (rule bsim_core [OF sim set_k_state_core])
  have sim2: "bsim v (y\<lparr>y_dev := ?u\<rparr>)"
    using bsim_connected [OF sim1, of c] sim1 idle by (simp add: set_k_state_def)
  show ?thesis
  proof (cases "k_target_size_g (b_cb_list ?s c) = 0")
    case True
    then show ?thesis using sim2 by (simp add: map_bind_def Let_def)
  next
    case False
    let ?m = "?u\<lparr>b_mapped_cb_num := b_mapped_cb_num ?u + 1\<rparr>"
    let ?w = "if b_cb_state_list ?u c = CB_CONNECTED then IS_ctx_dma_setup c ?m else ?u"
    have sim3: "bsim v (y\<lparr>y_dev := ?m\<rparr>)"
      by (rule bsim_core_sys [OF sim2]) (simp_all add: same_core_def queue_def)
    have "bsim v (y\<lparr>y_dev := ?w\<rparr>)"
    proof (cases "b_cb_state_list ?u c = CB_CONNECTED")
      case True
      then have "unused ?m c" by (simp add: unused_def)
      with bsim_dma_setup [OF sim3, of c] True show ?thesis by simp
    qed (use sim2 in simp)
    then have "bsim v (y\<lparr>y_dev := snd (IS_send_bind_single post c need ?w)\<rparr>)"
      using bsim_core [of v "y\<lparr>y_dev := ?w\<rparr>"] post_msg_core unfolding IS_send_bind_single_def by simp
    moreover have "snd (map_bind post idle c need ?s) = snd (IS_send_bind_single post c need ?w)"
      using False by (simp add: map_bind_def Let_def)
    ultimately show ?thesis by simp
  qed
qed

section \<open>The refinement\<close>

interpretation store: simulation bstep store_ok store_next bsim
proof
  fix v y ev y' assume sim: "bsim v y" and step: "bstep y ev y'"
  have internal: "store_ok Internal v \<and> bsim (store_next Internal v) z" if "bsim v z" for z using that by simp
  note core = bsim_core [OF sim]
  from step show "store_ok ev v \<and> bsim (store_next ev v) y'"
  proof cases
    case (st_submit req ok s')
    with bsim_request [OF sim] show ?thesis by simp
  next
    case st_thread
    then show ?thesis using internal core stackbd_threadfn_core by simp
  next
    case (st_disk_write b bs s')
    with bsim_disk_write [OF sim] show ?thesis by simp
  next
    case (st_disk_read b bs r s')
    with bsim_disk_read [OF sim] show ?thesis by simp
  next
    case (st_rdma_write c w ws k req s')
    with bsim_rdma_write [OF sim] show ?thesis by (simp add: failed_def)
  next
    case (st_rdma_read c w ws k req s')
    with bsim_rdma_read [OF sim] show ?thesis by (simp add: failed_def)
  next
    case (st_flush c w ws op s')
    with bsim_flush [OF sim] internal show ?thesis by simp
  next
    case (st_recv c m len_ok post s')
    with bsim_handler_recv [OF sim] internal show ?thesis by simp
  next
    case (st_cm c st)
    then show ?thesis using internal core set_k_state_core by simp
  next
    case (st_evict_activity c post s')
    then show ?thesis using internal core evict_activity_core by simp
  next
    case (st_evict_none c s')
    then show ?thesis using internal core evict_none_core by simp
  next
    case (st_evict_mark c ev n s')
    with bsim_evict_mark [OF sim] internal show ?thesis by (simp add: failed_def)
  next
    case (st_evict_clean c ev n post s')
    with bsim_evict_clean [OF sim] internal show ?thesis by simp
  next
    case (st_evict_release c ev g s')
    with bsim_release [OF sim] internal show ?thesis by simp
  next
    case (st_evict_end c ev)
    with bsim_evict_end [OF sim] internal show ?thesis by simp
  next
    case (st_lost c r s')
    with bsim_disconnect_begin [OF sim] internal show ?thesis by simp
  next
    case (st_lost_finish c s')
    with bsim_lost_finish [OF sim] show ?thesis by simp
  next
    case (st_map_query c post)
    with bsim_map_query [OF sim] internal show ?thesis by simp
  next
    case (st_map_bind c idle post need)
    with bsim_map_bind [OF sim] internal show ?thesis by simp
  next
    case st_map_end
    then show ?thesis using internal core map_end_core by simp
  next
    case (st_trigger i)
    then show ?thesis using internal core rdma_trigger_core by simp
  qed
qed

lemma bsim_start:
  assumes "system_start v y"
  shows "bsim v y"
proof -
  let ?s = "y_dev y"
  have st: "session_start ?s" "y_pend y = Map.empty" "\<And>c. y_evict y c = EvIdle" "\<And>c. \<not> y_lost y c"
    "v_pend v = Map.empty" "v_store v = y_disk y" using assms by (simp_all add: system_start_def)
  note s = st(1) [unfolded session_start_def]
  have c: "ctx_of ?s x = None" "frees ?s n c = []" "\<not> in_flight ?s x k" "queue ?s = []" "\<not> failed ?s c"
    "\<not> mapped_at ?s g c i" "\<not> remote_bit ?s p" for x n c k g i p
    using s by (auto simp: ctx_of_def frees_def in_flight_def queue_def failed_def mapped_at_def remote_bit_def split: prod.splits)
  show ?thesis
  proof (rule bsimI)
    show "map_inv ?s"
      using s c by (auto simp: map_inv_def map_routed_def map_owned_def map_bitmaps_def map_unused_def map_unique_def
          map_keys_def map_free_def)
    show "evict_inv y" using st by (simp add: evict_inv_def Let_def evicting_def)
    show "ctx_inv ?s" using s c by (simp add: ctx_inv_def pools_ok_def)
    show "flight_inv y" using c by (simp add: flight_inv_def)
    show "wrs_inv v y" using s by (simp add: wrs_inv_def)
    show "disk_inv v y" using st c by (simp add: disk_inv_def flushed_def pend_writes_def)
    show "remote_inv v y" using c by (simp add: remote_inv_def)
  qed (use st c in \<open>simp_all add: queue_inv_def pend_inv_def diskonly_inv_def\<close>)
qed

lemma device_simulates:
  assumes "system_start v y" "exec bstep y evs y'"
  shows "all_ok store_ok store_next evs v \<and> bsim (fold store_next evs v) y'"
  using store.exec_simulates [OF assms(2) bsim_start [OF assms(1)]] .

end
