(* ===== verification/Block_Props.thy ===== *)
theory Block_Props
  imports Block_Refine Daemon_Props
begin

text \<open>The properties of the block device.\<close>

unbundle bit_operations_syntax

section \<open>The device as a whole\<close>




section \<open>Requests\<close>

definition own_queue :: "request \<Rightarrow> nat" where
  "own_queue req = unat (rq_buffer req AND QUEUE_NUM_MASK)"

lemma request_ctx_free:
  assumes "page_request s req" "b_pools s (own_queue req) c = Some p" "in_bounds IS_QUEUE_DEPTH (cp_tail p)"
  obtains x s1 where "request_ctx req c s = Inr (x, s1)"
proof -
  have q: "own_queue req < b_queues s" using page_requestD(11) [OF assms(1)] by (simp add: own_queue_def)
  then obtain k where "b_queues s = Suc k" by (cases "b_queues s") auto
  then show thesis
    using that assms(2,3) q
    by (auto simp: request_ctx_def own_queue_def Let_def IS_get_ctx_def aget_def in_bounds_def)
qed

lemma transfer_returns:
  assumes "page_request s req" "b_pools s (own_queue req) c = Some p" "in_bounds IS_QUEUE_DEPTH (cp_tail p)"
    and "b_rdma_on s" "stackbd_ready s"
  shows "\<exists>s'. IS_transfer_chunk 0 c i (rq_start req AND ONE_GB_MASK) (rq_bytes req) w req s = Inr (0, s')"
proof -
  let ?s = "s\<lparr>b_preempt := b_preempt s + 1\<rparr>"
  have g: "page_request ?s req" "b_rdma_on ?s" "stackbd_ready ?s" "b_pools ?s (own_queue req) c = Some p"
    using assms by (simp_all add: page_request_def stackbd_ready_def)
  obtain x s1 where x: "request_ctx req c ?s = Inr (x, s1)" by (rule request_ctx_free [OF g(1,4) assms(3)])
  show ?thesis
    using IS_rdma_write_eq [OF x g(1-3)] IS_rdma_read_eq [OF x g(2)]
    by (cases w) (simp_all add: IS_transfer_chunk_def Let_def)
qed

lemma clear_part_returns:
  assumes "map_inv s" "g < STACKBD_SIZE_G" "in_chunk off len"
  shows "\<exists>s'. clear_part w (int g) off len s = Inr s' \<and> map_inv s' \<and> stackbd_ready s' = stackbd_ready s"
proof (cases "b_cb_index_map s g = -1")
  case True
  then show ?thesis using assms by (simp add: clear_part_def aget_def)
next
  case False
  then obtain c i where m: "mapped_at s g c i" using assms unfolding map_inv_def map_routed_def by blast
  obtain bm where bm: "rc_bitmap (chunk_at s c i) = Some bm" "full_bitmap bm" by (rule mapped_bitmap [OF assms(1) m])
  obtain bm' where "IS_bitmap_group_clear off len bm = Inr bm'" "full_bitmap bm'"
    by (rule group_clear_bits [OF bm(2) assms(3)])
  then show ?thesis
    using m bm(1) assms(1) put_bitmap_map_inv [OF assms(1), of bm' c i]
    by (simp add: clear_part_def aget_def mapped_at_def on_bitmap_def bitmap_at_def stackbd_ready_def put_bitmap_def upd_cb_def)
qed

lemma to_disk_returns:
  "page_request s0 req \<Longrightarrow> stackbd_ready s \<Longrightarrow> \<exists>s'. IS_mq_request_stackbd req s = Inr s'"
  using make_request2_good by (auto simp: IS_mq_request_stackbd_def)

lemma request_returns:
  assumes "map_inv s" "page_request s req" "stackbd_ready s"
    and "\<And>c i. mapped_at s (rq_chunk req) c i \<Longrightarrow> b_rdma_on s \<Longrightarrow>
      \<exists>p. b_pools s (own_queue req) c = Some p \<and> in_bounds IS_QUEUE_DEPTH (cp_tail p)"
  shows "\<exists>s'. IS_request 0 req s = Inr (0, s') \<and>
    (disk_outcome req s s' \<or> split_outcome req s s' \<or> write_outcome req s s' \<or> read_outcome req s s')"
proof -
  let ?s = "counted req s" and ?o = "rq_start req AND ONE_GB_MASK"
  have inv: "map_inv ?s" using core_view(15) [OF counted_core [of s req]] assms(1) by simp
  have ready: "stackbd_ready ?s" and good: "page_request ?s req" using assms(2,3) by (simp_all add: stackbd_ready_def)
  note b = chunk_bounds [OF assms(2)]
  have disk: "\<exists>s'. IS_mq_request_stackbd req t = Inr s'" if "stackbd_ready t" for t by (rule to_disk_returns [OF assms(2) that])
  have "\<exists>e s'. IS_request 0 req s = Inr (e, s')"
  proof (cases "rq_chunk req = rq_last_chunk req")
    case True
    note eq = IS_request_def [of 0 req s] gb_index_start [OF assms(2)] gb_index_end [OF assms(2)] count_op_good [OF assms(2)]
      True [symmetric] Let_def
    show ?thesis
    proof (cases "b_cb_index_map ?s (rq_chunk req) = -1")
      case unmapped: True
      then have "find_chunk ?s (int (rq_chunk req)) = Inr None"
        using b(1) by (simp add: find_chunk_def aget_def STACKBD_SIZE_G_def)
      then show ?thesis using disk [OF ready] by (auto simp: eq)
    next
      case False
      then obtain c i where m: "mapped_at ?s (rq_chunk req) c i"
        using inv b(1) unfolding map_inv_def map_routed_def STACKBD_SIZE_G_def by blast
      obtain bm where bm: "rc_bitmap (chunk_at ?s c i) = Some bm" "full_bitmap bm" by (rule mapped_bitmap [OF inv m])
      have pn: "page_number ?o = int (rq_page req mod 2 ^ 18)"
      proof -
        have "unat ?o < 2 ^ 43" using chunk_offset_val [OF assms(2)] by simp
        from page_number_val [OF this] show ?thesis using chunk_offset_val [OF assms(2)] by simp
      qed
      have ok: "bm_ok bm (int (rq_page req mod 2 ^ 18))" using full_bitmap_ok [OF bm(2)] by simp
      show ?thesis
      proof (cases "b_rdma_on s")
        case on: True
        obtain p where p: "b_pools ?s (own_queue req) c = Some p" "in_bounds IS_QUEUE_DEPTH (cp_tail p)"
          using assms(4) [of c i] m on by auto
        have t: "\<exists>s'. IS_transfer_chunk 0 c i ?o (rq_bytes req) w req ?s = Inr (0, s')" for w
          using transfer_returns [OF good p _ ready] on by simp
        show ?thesis
          using on disk [OF ready] t [of True] t [of False] bm(1) ok pn
          by (auto simp: eq find_chunk_mapped [OF m] bitmap_at_def IS_bitmap_test_bm)
      next
        case off: False
        then show ?thesis using disk [OF ready] by (auto simp: eq find_chunk_mapped [OF m])
      qed
    qed
  next
    case False
    note w = split_pages [OF assms(2) False]
    obtain s1 where s1: "clear_part (rq_write req) (int (rq_chunk req)) ?o (word_of_nat ONE_GB - ?o) ?s = Inr s1"
      "map_inv s1" "stackbd_ready s1 = stackbd_ready ?s"
      using clear_part_returns [OF inv _ w(2)] b(1) by (auto simp: STACKBD_SIZE_G_def)
    obtain s2 where s2: "clear_part (rq_write req) (int (rq_last_chunk req)) 0 (?o + rq_bytes req - word_of_nat ONE_GB) s1 = Inr s2"
      "stackbd_ready s2"
      using clear_part_returns [OF s1(2) _ w(3)] b(2) s1(3) ready by (auto simp: STACKBD_SIZE_G_def)
    obtain s3 where "IS_mq_request_stackbd req s2 = Inr s3" using disk [OF s2(2)] by blast
    then show ?thesis
      using False s1(1) s2(1) b(2) unfolding IS_request_def gb_index_start [OF assms(2)] gb_index_end [OF assms(2)] count_op_good [OF assms(2)]
      by (simp add: aget_def STACKBD_SIZE_G_def Let_def)
  qed
  then obtain e s' where e: "IS_request 0 req s = Inr (e, s')" by blast
  with IS_request_outcome [OF e assms(2,3)] show ?thesis by auto
qed

text \<open>
  C7. A request of the swap system is served without an error, in a state with well formed maps, when the disk is
  ready, the work request can be posted and there is a context left for the queue of the request. It has one
  of four outcomes: it goes to the disk; it spans two chunks and goes to the disk after the bits of its pages were
  cleared; it is a write to a mapped chunk and goes to the memory of its server and to the disk; it is a read of a page that
  has its bit set and is fetched from the server.
\<close>

theorem requests_routed:
  assumes "map_inv s" "page_request s req" "stackbd_ready s"
    and "\<And>c i. mapped_at s (rq_chunk req) c i \<Longrightarrow> b_rdma_on s \<Longrightarrow>
      \<exists>p. b_pools s (own_queue req) c = Some p \<and> in_bounds IS_QUEUE_DEPTH (cp_tail p)"
  shows "\<exists>s'. IS_request 0 req s = Inr (0, s') \<and>
    (disk_outcome req s s' \<or> split_outcome req s s' \<or> write_outcome req s s' \<or> read_outcome req s s')"
  using request_returns [OF assms(1-3)] assms(4) by blast

section \<open>Bitmaps\<close>

text \<open>
  The bits of a group of pages. After \<^verbatim>\<open>IS_bitmap_group_set\<close> of the pages of a range in the chunk exactly these
  bits are set besides the ones that were set; \<^verbatim>\<open>IS_bitmap_group_clear\<close> of the same range leaves exactly the old bits outside
  the range. A page outside the chunk is out of the bounds of the bitmap.
\<close>

theorem bitmap_groups:
  assumes "full_bitmap bm" "in_chunk offset len"
  shows "\<exists>bm1 bm2. IS_bitmap_group_set offset len bm = Inr bm1 \<and> IS_bitmap_group_clear offset len bm1 = Inr bm2 \<and>
    (\<forall>p < 2 ^ 18. IS_bitmap_test bm1 (int p) = Inr (in_pages offset len p \<or> bm_bit bm (int p)) \<and>
       IS_bitmap_test bm2 (int p) = Inr (\<not> in_pages offset len p \<and> bm_bit bm (int p))) \<and>
    (\<forall>p \<ge> 2 ^ 18. IS_bitmap_test bm1 (int p) = Inl OutOfBounds)"
proof -
  obtain bm1 where 1: "IS_bitmap_group_set offset len bm = Inr bm1" "full_bitmap bm1"
    "\<And>p. p < 2 ^ 18 \<Longrightarrow> bm_bit bm1 (int p) \<longleftrightarrow> in_pages offset len p \<or> bm_bit bm (int p)"
    using group_set_bits [OF assms] by metis
  obtain bm2 where 2: "IS_bitmap_group_clear offset len bm1 = Inr bm2" "full_bitmap bm2"
    "\<And>p. p < 2 ^ 18 \<Longrightarrow> bm_bit bm2 (int p) \<longleftrightarrow> \<not> in_pages offset len p \<and> bm_bit bm1 (int p)"
    using group_clear_bits [OF 1(2) assms(2)] by metis
  have "IS_bitmap_test b (int p) = (if p < 2 ^ 18 then Inr (bm_bit b (int p)) else Inl OutOfBounds)" if "full_bitmap b" for b p
    using full_bitmap_ok [OF that] by (simp add: IS_bitmap_test_bm)
  with 1 2 show ?thesis by auto
qed

lemma request_reads_remote:
  assumes "full_bitmap bm" "page_request s rd" "\<not> rq_write rd" "stackbd_ready s" "b_rdma_on s" "mapped_at s (rq_chunk rd) c i"
    and "rc_bitmap (chunk_at s c i) = Some bm" "bm_bit bm (int (rq_page rd mod 2 ^ 18))"
    and "b_pools s (own_queue rd) c = Some p" "in_bounds IS_QUEUE_DEPTH (cp_tail p)"
  obtains x z where "IS_request 0 rd s = Inr (0, read_posted x c i rd z)" "takes_ctx (counted rd s) c x z"
proof -
  let ?t = "counted rd s" and ?o = "rq_start rd AND ONE_GB_MASK"
  have good: "page_request ?t rd" "stackbd_ready ?t" "b_rdma_on ?t" "b_pools ?t (own_queue rd) c = Some p"
    using assms(2,4,5,9) by (simp_all add: page_request_def stackbd_ready_def)
  have same: "rq_last_chunk rd = rq_chunk rd"
    using page_requestD(10) [OF assms(2,3)] by (simp add: rq_chunk_def rq_last_chunk_def)
  have "mapped_at ?t (rq_chunk rd) c i" using assms(6) by simp
  note find = find_chunk_mapped [OF this]
  have "unat ?o < 2 ^ 43" using chunk_offset_val [OF assms(2)] by simp
  from page_number_val [OF this] have pn: "page_number ?o = int (rq_page rd mod 2 ^ 18)"
    using chunk_offset_val [OF assms(2)] by simp
  obtain u where u: "IS_transfer_chunk 0 c i ?o (rq_bytes rd) False rd ?t = Inr (0, u)"
    using transfer_returns [OF good(1,4) assms(10) good(3,2)] by blast
  have "IS_request 0 rd s = IS_transfer_chunk 0 c i ?o (rq_bytes rd) False rd ?t"
    using assms(3,5,7,8) find full_bitmap_ok [OF assms(1)]
    by (simp add: IS_request_def Let_def gb_index_start [OF assms(2)] gb_index_end [OF assms(2)] count_op_good [OF assms(2)]
        same bitmap_at_def IS_bitmap_test_bm pn) (simp add: chunk_at_def)
  with u IS_transfer_read [OF u good(3)] that show thesis by metis
qed

section \<open>Where a page is lost\<close>

text \<open>
  C37. A write while RDMA is off leaves the copy of the page at the server as it is. Such a write to a
  page with its bit set goes to the disk alone and keeps the bit; as soon as RDMA is on again, a read of the page is fetched
  from the server, which has the old content.
\<close>

theorem write_off_then_stale_read:
  assumes "map_inv s" "stackbd_ready s" "\<not> b_rdma_on s" "mapped_at s (rq_chunk req) c i"
    "rc_bitmap (chunk_at s c i) = Some bm" "bm_bit bm (int (rq_page req mod 2 ^ 18))"
    and w: "page_request s req" "rq_write req" "rq_chunk req = rq_last_chunk req"
    and r: "page_request s rd" "\<not> rq_write rd" "rq_page rd = rq_page req"
    and p: "b_pools s (own_queue rd) c = Some p" "in_bounds IS_QUEUE_DEPTH (cp_tail p)"
  shows "\<exists>s1 s2 x. IS_request 0 req s = Inr (0, s1) \<and> b_wrs s1 = b_wrs s \<and> b_bio_list s1 = b_bio_list s @ disk_bios req \<and>
    IS_request 0 rd (map_end s1) = Inr (0, s2) \<and> b_bio_list s2 = b_bio_list s1 \<and>
    b_wrs s2 c = b_wrs s c @ [request_wr False x c i rd s]"
proof -
  let ?s1 = "add_bios (disk_bios req) (counted req s)"
  let ?t = "map_end ?s1"
  have on: "b_rdma_on ?t" by (simp add: map_end_def)
  obtain t where "IS_request 0 req s = Inr (0, t)"
    "disk_outcome req s t \<or> split_outcome req s t \<or> write_outcome req s t \<or> read_outcome req s t"
    using request_returns [OF assms(1) w(1) assms(2)] assms(3) by blast
  then have first: "IS_request 0 req s = Inr (0, ?s1)"
    using w(2,3) assms(3) by (auto simp: disk_outcome_def split_outcome_def write_outcome_def read_outcome_def)
  have good: "page_request ?t rd" "stackbd_ready ?t" "b_pools ?t (own_queue rd) c = Some p"
    using r(1) assms(2) p(1) by (simp_all add: map_end_def add_bios_def page_request_def stackbd_ready_def)
  have full: "full_bitmap bm" using mapped_bitmap [OF assms(1,4)] assms(5) by auto
  have "mapped_at ?t (rq_chunk rd) c i" "rc_bitmap (chunk_at ?t c i) = Some bm" "bm_bit bm (int (rq_page rd mod 2 ^ 18))"
    using assms(4-6) r(3) by (simp_all add: map_end_def add_bios_def mapped_at_def chunk_at_def rq_chunk_def)
  then obtain x z where x: "IS_request 0 rd ?t = Inr (0, read_posted x c i rd z)" "takes_ctx (counted rd ?t) c x z"
    by (rule request_reads_remote [OF full good(1) r(2) good(2) on _ _ _ good(3) p(2)])
  then have "b_wrs (read_posted x c i rd z) c = b_wrs s c @ [request_wr False x c i rd s]"
    "b_bio_list (read_posted x c i rd z) = b_bio_list ?s1"
    by (auto simp: takes_ctx_def read_posted_def put_pool_def request_wr_def chunk_at_def map_end_def add_bios_def)
  with first x(1) show ?thesis by (auto simp: add_bios_def simp del: split_paired_Ex)
qed

text \<open>
  C38. The disk may return the context of a write that is still in flight. When the copy for the disk is done before the
  RDMA write, the context goes back to its pool, and the next write of the queue gets the same buffer: the
  work request that was posted for the first one is still to be done, and it will send the pages of the second.
\<close>

theorem context_reused_in_flight:
  assumes "b_pools s n c = Some p" "-1 \<le> cp_tail p" "cp_tail p < int IS_QUEUE_DEPTH - 1"
    and "cx_in_flight (cp_ctx p j) = CTX_W_IN_FLIGHT" "w \<in> set (b_wrs s c)" "wr_ctx w = (n, c, j)" "wr_write w"
    and "sb_end b = EndCtx (n, c, j)"
    and "page_request s req" "own_queue req = n" "b_rdma_on s" "stackbd_ready s"
  shows "\<exists>s1 s2. IS_stackbd_end_io b 0 s = Inr s1 \<and>
    IS_rdma_write 0 c i (rq_start req AND ONE_GB_MASK) (rq_bytes req) req s1 = Inr (0, s2) \<and>
    w \<in> set (b_wrs s2 c) \<and> (\<forall>k < rq_npages req. b_bufs s2 (wr_ctx w) k = rq_data req k)"
proof -
  let ?p = "p\<lparr>cp_list := (cp_list p)(nat (cp_tail p + 1) := j), cp_tail := cp_tail p + 1\<rparr>"
  let ?t = "put_pool n c ?p s"
  have b: "in_bounds IS_QUEUE_DEPTH (cp_tail p + 1)" using assms(2,3) by (simp add: in_bounds_def)
  have 1: "IS_stackbd_end_io b 0 s = Inr ?t"
    using assms(1,8) b by (simp add: IS_stackbd_end_io_def IS_insert_ctx_def aset_def)
  have good: "page_request ?t req" "b_rdma_on ?t" "stackbd_ready ?t" "b_pools ?t (own_queue req) c = Some ?p"
    using assms(9-12) by (simp_all add: put_pool_def page_request_def stackbd_ready_def)
  have "IS_get_ctx n c ?t = Inr (Some j, put_pool n c (?p\<lparr>cp_tail := cp_tail ?p - 1\<rparr>) ?t)"
    using good(4) b assms(2,10) by (simp add: IS_get_ctx_def aget_def in_bounds_def)
  moreover have "n < b_queues ?t" using page_requestD(11) [OF good(1)] assms(10) by (simp add: own_queue_def)
  ultimately have x: "request_ctx req c ?t = Inr ((n, c, j), put_pool n c (?p\<lparr>cp_tail := cp_tail ?p - 1\<rparr>) ?t)"
    using assms(10) by (cases "b_queues ?t") (simp_all add: request_ctx_def Let_def own_queue_def)
  show ?thesis
    using 1 IS_rdma_write_eq [OF x good(1-3)] assms(5,6)
    by (simp add: write_posted_def put_pool_def gathered_def)
qed

section \<open>The device and a memory server\<close>

lemma filter_single: "filter (\<lambda>j. j = i) [0 ..< n] = (if i < n then [i] else [])"
  by (induction n) auto

lemma given_single:
  assumes "i < MAX_MR_SIZE_GB" "reg i = Some (a, key)" "key \<noteq> 0"
  shows "given_chunks (info_msg reg [i] t n m) = [i]"
proof -
  have "bswap32 0 = 0" by (simp add: bswap32_def)
  then have "bswap32 key \<noteq> 0" using assms(3) bswap32_bswap32 [of key] by metis
  then have "dm_rkey (info_msg reg [i] t n m) j \<noteq> 0 \<longleftrightarrow> j = i" if "j < MAX_MR_SIZE_GB" for j
    using that assms(2) by (simp add: info_msg_def MAX_FREE_MEM_GB_def MAX_MR_SIZE_GB_def)
  then have "given_chunks (info_msg reg [i] t n m) = filter (\<lambda>j. j = i) [0 ..< MAX_MR_SIZE_GB]"
    unfolding given_chunks_def by (intro filter_cong) simp_all
  with assms(1) show ?thesis by (simp add: filter_single)
qed

lemma single_free_chunk:
  assumes "daemon_inv s" "0 < ds_size_gb s - ds_mapped_size s"
  obtains i where "chunks_for 1 s = [i]" "i < MAX_FREE_MEM_GB" "ds_malloc_map s i" "ds_conn_map s i = -1"
proof -
  have "int (length (chunks_for 1 s)) = 1" using chunks_for_length [OF assms(1), of 1] assms(2) by simp
  then obtain i where i: "chunks_for 1 s = [i]" by (cases "chunks_for 1 s") auto
  then have "i \<in> set (filter (free_chunk s) [0 ..< MAX_FREE_MEM_GB])"
    unfolding chunks_for_def by (metis in_set_takeD list.set_intros(1))
  with i that show thesis by (simp add: free_chunk_def)
qed

lemma recv_single:
  assumes "g < STACKBD_SIZE_G" "b < b_cb_num d" "CONNECTED \<le> k_state (b_cb_list d b)"
    "i < MAX_MR_SIZE_GB" "reg i = Some (a, key)" "key \<noteq> 0"
  obtains d' where "recv_msg b (info_msg reg [i] INFO_SINGLE (int g) m) d = Inr d'"
    "find_chunk d' (int g) = Inr (Some (b, i))"
    "chunk_at d' b i = \<lparr>rc_rkey = key, rc_addr = a, rc_bitmap = Some zero_bitmap\<rparr>"
proof -
  let ?m = "info_msg reg [i] INFO_SINGLE (int g) m"
  have m: "given_chunks ?m = [i]" "dm_type ?m = INFO_SINGLE" "dm_size_gb ?m = int g"
    "bswap32 (dm_rkey ?m i) = key" "ntohll (dm_buf ?m i) = a"
    using given_single [where reg = reg, OF assms(4-6)] assms(5)
    by (simp_all add: info_msg_def bswap32_bswap32 ntohll_htonll)
  have "\<not> k_state (b_cb_list d b) < CONNECTED" using assms(3) by simp
  then have "\<exists>d'. recv_msg b ?m d = Inr d' \<and> find_chunk d' (int g) = Inr (Some (b, i)) \<and>
      chunk_at d' b i = \<lparr>rc_rkey = key, rc_addr = a, rc_bitmap = Some zero_bitmap\<rparr>"
    using assms(1,2,4) m
    by (simp add: recv_msg_def client_recv_def IS_single_chunk_init_def link_chunk_def init_chunk_def Let_def
        set_k_state_def set_cb_state_def upd_cb_def aset_def aget_def find_chunk_def chunk_at_def)
  then show thesis using that by blast
qed

text \<open>
  C13. The device and a memory server agree on a chunk. The message that \<^verbatim>\<open>IS_send_bind_single\<close> sends for chunk \<open>g\<close> of the
  device makes a server with free memory lend a chunk that was free, and the device, when it receives the answer of the
  server, maps chunk \<open>g\<close> to it, with the address and the key that the memory was registered with, and no page of it marked.
\<close>

theorem bind_end_to_end:
  assumes server: "reach daemon_initial daemon_step (v, s)" "ds_heap s c = Some k" "dc_connected k"
      "dc_conn_index k = Some (int x)" "0 < ds_size_gb s - ds_mapped_size s"
    and reg: "\<forall>i. \<exists>a key. reg i = Some (a, key) \<and> key \<noteq> 0"
    and device: "g < STACKBD_SIZE_G" "b < b_cb_num d" "CONNECTED \<le> k_state (b_cb_list d b)"
  shows "\<exists>d1 m s' k' i d2. IS_send_bind_single 0 b (int g) d = (0, d1) \<and>
    k_sent (b_cb_list d1 b) = k_sent (b_cb_list d b) @ [m] \<and>
    daemon_on_completion reg True True c (arrived c k m s) = Inr s' \<and> ds_heap s' c = Some k' \<and>
    ds_malloc_map s i \<and> ds_conn_map s i = -1 \<and> ds_conn_map s' i = int x \<and>
    dc_sent k' = dc_sent k @ [dc_send_msg k'] \<and>
    recv_msg b (dc_send_msg k') d1 = Inr d2 \<and> find_chunk d2 (int g) = Inr (Some (b, i)) \<and>
    chunk_at d2 b i = \<lparr>rc_rkey = snd (the (reg i)), rc_addr = fst (the (reg i)), rc_bitmap = Some zero_bitmap\<rparr>"
proof -
  let ?m = "(k_send_buf (b_cb_list d b))\<lparr>dm_type := BIND_SINGLE, dm_size_gb := int g\<rparr>"
  let ?d1 = "upd_cb b (\<lambda>k. k\<lparr>k_send_buf := ?m, k_sent := k_sent k @ [?m]\<rparr>) d"
  let ?k = "k\<lparr>dc_recv_msg := ?m\<rparr>"
  have d1: "IS_send_bind_single 0 b (int g) d = (0, ?d1)" by (simp add: IS_send_bind_single_def post_msg_def upd_cb_def)
  note inv = reach_daemon_inv [OF server(1)]
  have regs: "\<forall>i. reg i \<noteq> None" using reg by (metis option.distinct(1))
  obtain y where "conn_inv s c k y" using server(1,2) by (rule reach_conn)
  moreover from this server(4) have "y = x" by (simp add: conn_inv_def)
  ultimately have cx: "conn_inv s c k x" by simp
  note a = arrived_inv [OF inv server(2) cx, of ?m]
  obtain i where i: "chunks_for 1 s = [i]" "i < MAX_FREE_MEM_GB" "ds_malloc_map s i" "ds_conn_map s i = -1"
    by (rule single_free_chunk [OF inv server(5)])
  obtain ad key where key: "reg i = Some (ad, key)" "key \<noteq> 0" using reg by blast
  let ?k' = "bound_conn reg [i] INFO_SINGLE (int g) 1 ?k"
  let ?s' = "bound_session c ?k' x [i] 1 (arrived c k ?m s)"
  have srv: "daemon_on_completion reg True True c (arrived c k ?m s) = Inr ?s'"
    using bind_single_equation [OF a(2,3) _ regs] server(3) i(1) by (simp add: arrived_def)
  have msg: "dc_send_msg ?k' = info_msg reg [i] INFO_SINGLE (int g) (dc_send_msg k)" by (simp add: bound_conn_msg)
  have lt: "i < MAX_MR_SIZE_GB" using i(2) by (simp add: MAX_FREE_MEM_GB_def MAX_MR_SIZE_GB_def)
  obtain d2 where d2: "recv_msg b (info_msg reg [i] INFO_SINGLE (int g) (dc_send_msg k)) ?d1 = Inr d2"
    "find_chunk d2 (int g) = Inr (Some (b, i))"
    "chunk_at d2 b i = \<lparr>rc_rkey = key, rc_addr = ad, rc_bitmap = Some zero_bitmap\<rparr>"
    by (rule recv_single [of g b ?d1 i reg ad key "dc_send_msg k"]) (use device lt key in \<open>simp_all add: upd_cb_def\<close>)
  show ?thesis
  proof (intro exI conjI)
    show "recv_msg b (dc_send_msg ?k') ?d1 = Inr d2" using d2(1) msg by simp
    show "dc_sent ?k' = dc_sent k @ [dc_send_msg ?k']" by (simp add: bound_conn_msg)
    show "ds_heap ?s' c = Some ?k'" "ds_conn_map ?s' i = int x" by (simp_all add: bound_session_def info_session_def)
    show "k_sent (b_cb_list ?d1 b) = k_sent (b_cb_list d b) @ [?m]" by (simp add: upd_cb_def)
    show "chunk_at d2 b i = \<lparr>rc_rkey = snd (the (reg i)), rc_addr = fst (the (reg i)), rc_bitmap = Some zero_bitmap\<rparr>"
      using d2(3) key(1) by simp
  qed (use d1 srv d2(2) i(3,4) in simp_all)
qed

section \<open>The trigger\<close>

text \<open>
  The activity of a chunk that is not used does not decay. A pass of \<^verbatim>\<open>rdma_trigger\<close> without any operation multiplies the
  filtered activity by twenty, modulo \<open>2 ^ 64\<close>: after \<open>n\<close> such passes it is \<open>20 ^ n\<close> times the old value. A chunk with one
  write is above the threshold for thirty passes more, until the number has become zero by overflow.
\<close>

theorem activity_does_not_decay:
  assumes "b_write_ops s g = 0" "b_read_ops s g = 0"
  defines "idle n \<equiv> ((\<lambda>s. snd (rdma_trigger g s)) ^^ n) s"
  shows "b_last_ops (idle n) g = 20 ^ n * b_last_ops s g \<and>
    (b_last_ops s g = filtered_ops 1 0 0 \<longrightarrow> (RDMA_TRIGGER_THRESHOLD < b_last_ops (idle n) g \<longleftrightarrow> n < 30))"
proof -
  have step: "b_write_ops (idle n) g = 0 \<and> b_read_ops (idle n) g = 0 \<and> b_last_ops (idle n) g = 20 ^ n * b_last_ops s g"
    for n
    by (induction n)
      (use assms(1,2) in \<open>simp_all add: idle_def rdma_trigger_def Let_def filtered_ops_def RDMA_CUR_WEIGHT_def mult.assoc\<close>)
  have zero: "20 ^ n * (4000 :: 64 word) = 0 \<longleftrightarrow> 30 \<le> n" for n
  proof
    assume "30 \<le> n"
    then have "(20 :: 64 word) ^ n * 4000 = 20 ^ (n - 30) * (20 ^ 30 * 4000)"
      by (simp only: mult.assoc [symmetric] power_add [symmetric]) simp
    also have "(20 :: 64 word) ^ 30 * 4000 = 0" by simp
    finally show "20 ^ n * (4000 :: 64 word) = 0" by simp
  next
    assume z: "20 ^ n * (4000 :: 64 word) = 0"
    show "30 \<le> n"
    proof (rule ccontr)
      assume "\<not> 30 \<le> n"
      then have "(20 :: 64 word) ^ 29 * 4000 = 20 ^ (29 - n) * (20 ^ n * 4000)"
        by (simp only: mult.assoc [symmetric] power_add [symmetric]) simp
      with z show False by simp
    qed
  qed
  have "filtered_ops 1 0 0 = 4000" by (simp add: filtered_ops_def RDMA_CUR_WEIGHT_def RDMA_W_WEIGHT_def)
  with step [of n] zero [of n] show ?thesis by (auto simp: RDMA_TRIGGER_THRESHOLD_def word_neq_0_conv [symmetric])
qed

end
