(* ===== verification/Block_Witness.thy ===== *)
theory Block_Witness
  imports Block_Props Daemon_Witness
begin

text \<open>
  The properties of the block device at a concrete run: a device with one server, which lends it
  a chunk; a page is written there and read again.
\<close>

unbundle bit_operations_syntax

section \<open>A device with one server\<close>

definition bx_cb :: kernel_cb where
  "bx_cb = \<lparr>k_state = IDLE, k_recv_buf = empty_msg, k_send_buf = empty_msg, k_sent = [], k_posted = 0,
     k_chunk_list = (\<lambda>_. \<lparr>rc_rkey = 0, rc_addr = 0, rc_bitmap = None\<rparr>), k_remote_mapped = (\<lambda>_. False),
     k_chunk_size_g = 0, k_target_size_g = 0, k_shrink_size_g = 0, k_chunk_map = (\<lambda>_. -1),
     k_evict_chunk_map = (\<lambda>_. CHR 0x00), k_c_state = C_IDLE\<rparr>"

definition bx_dev :: bdev where
  "bx_dev = \<lparr>b_sgl = 32, b_queues = 1, b_cb_num = 1, b_cb_list = (\<lambda>_. bx_cb), b_cb_state_list = (\<lambda>_. CB_IDLE),
     b_mapped_cb_num = 0, b_cb_index_map = (\<lambda>_. -1), b_chunk_map_cb_chunk = (\<lambda>_. -1),
     b_unmapped_chunk_list = (\<lambda>i. int i), b_free_chunk_index = 11, b_rdma_on = False, b_trigger_enable = True,
     b_write_ops = (\<lambda>_. 0), b_read_ops = (\<lambda>_. 0), b_last_ops = (\<lambda>_. 0), b_pools = (\<lambda>_ _. None),
     b_bufs = (\<lambda>_ _. []), b_wrs = (\<lambda>_. []), b_bdev_raw = True, b_is_active = True, b_bio_list = [],
     b_raw_bios = [], b_ended = [], b_rbuf = (\<lambda>_. []), b_preempt = 0\<rparr>"

definition bx_sys :: "bdev \<Rightarrow> bsys" where
  "bx_sys s = \<lparr>y_dev = s, y_disk = (\<lambda>_. zero_page), y_rmem = (\<lambda>_ _ _. zero_page), y_pend = Map.empty,
     y_evict = (\<lambda>_. EvIdle), y_lost = (\<lambda>_. False)\<rparr>"

definition bx_store :: page_store where
  "bx_store = \<lparr>v_store = (\<lambda>_. zero_page), v_pend = Map.empty\<rparr>"

lemma bx_start: "system_start bx_store (bx_sys bx_dev)"
  by (simp add: system_start_def bx_sys_def bx_store_def session_start_def bx_dev_def bx_cb_def stackbd_ready_def
      STACKBD_SIZE_G_def)

section \<open>A chunk is mapped\<close>

definition bx_free_msg :: daemon_msg where
  "bx_free_msg = empty_msg\<lparr>dm_type := FREE_SIZE, dm_size_gb := 2\<rparr>"

definition bx_info_msg :: daemon_msg where
  "bx_info_msg = empty_msg\<lparr>dm_type := INFO_SINGLE, dm_size_gb := 0, dm_buf := (\<lambda>_. 0)(0 := htonll 0x10000),
     dm_rkey := (\<lambda>_. 0)(0 := bswap32 7)\<rparr>"

definition bx_connected :: bdev where
  "bx_connected = set_k_state 0 CONNECTED (map_query 0 0 bx_dev)"

definition bx_free :: bdev where
  "bx_free = upd_cb 0 (\<lambda>k. k\<lparr>k_state := FREE_MEM_RECV, k_recv_buf := bx_free_msg, k_target_size_g := 2,
     k_posted := 1\<rparr>) bx_connected"

definition bx_bound :: bdev where
  "bx_bound = snd (map_bind 0 True 0 0 bx_free)"

definition bx_mapped :: bdev where
  "bx_mapped = upd_cb 0 (\<lambda>k. k\<lparr>k_recv_buf := bx_info_msg, k_state := WAIT_OPS,
     k_chunk_list := (k_chunk_list k)(0 := \<lparr>rc_rkey = 7, rc_addr = 0x10000, rc_bitmap = Some zero_bitmap\<rparr>),
     k_chunk_map := (k_chunk_map k)(0 := 0), k_remote_mapped := (k_remote_mapped k)(0 := True), k_chunk_size_g := 1,
     k_c_state := C_READY, k_posted := Suc (Suc 0)\<rparr>) (bx_bound
     \<lparr>b_cb_state_list := (b_cb_state_list bx_bound)(0 := CB_MAPPED), b_free_chunk_index := 10,
      b_chunk_map_cb_chunk := (b_chunk_map_cb_chunk bx_bound)(0 := 0), b_cb_index_map := (b_cb_index_map bx_bound)(0 := 0)\<rparr>)"

definition bx_on :: bdev where
  "bx_on = map_end bx_mapped"

lemmas bx_dev_simps = bx_dev_def bx_cb_def map_query_def kernel_cb_init_def set_k_state_def upd_cb_def set_cb_state_def

lemma bx_recv_free:
  "rdma_cq_event_handler 0 [(WC_SUCCESS, WC_RECV True bx_free_msg 0)] 0 bx_connected = Inr bx_free"
  by (simp add: rdma_cq_event_handler_def handle_wc_def client_recv_def bx_free_def bx_connected_def bx_dev_simps
      bx_free_msg_def less_test_state_def Let_def)

lemma bx_bound_dev:
  "bx_bound = upd_cb 0 (\<lambda>k. k\<lparr>k_state := AFTER_FREE_MEM,
      k_send_buf := empty_msg\<lparr>dm_type := BIND_SINGLE, dm_size_gb := 0\<rparr>,
      k_sent := [empty_msg\<lparr>dm_type := BIND_SINGLE, dm_size_gb := 0\<rparr>]\<rparr>)
     (IS_ctx_init 0 0 (bx_free\<lparr>b_cb_state_list := (\<lambda>_. CB_IDLE)(0 := CB_CONNECTED), b_mapped_cb_num := 1\<rparr>))"
  by (simp add: bx_bound_def map_bind_def bx_free_def bx_connected_def bx_dev_simps IS_ctx_dma_setup_def
      IS_send_bind_single_def post_msg_def Let_def IS_ctx_init_def put_pool_def cong: prod.case_cong if_cong)

lemma bx_bound_sel:
  "k_state (b_cb_list bx_bound 0) = AFTER_FREE_MEM" "k_posted (b_cb_list bx_bound 0) = 1"
  "k_chunk_size_g (b_cb_list bx_bound 0) = 0" "b_free_chunk_index bx_bound = 11"
  "k_chunk_map (b_cb_list bx_bound 0) = (\<lambda>_. -1)" "k_remote_mapped (b_cb_list bx_bound 0) = (\<lambda>_. False)"
  "b_cb_index_map bx_bound = (\<lambda>_. -1)" "b_chunk_map_cb_chunk bx_bound = (\<lambda>_. -1)" "b_cb_num bx_bound = 1"
  "b_cb_state_list bx_bound 0 = CB_CONNECTED" "b_pools bx_bound = (\<lambda>_ _. None)(0 := [0 \<mapsto> new_pool])"
  "b_queues bx_bound = 1" "b_sgl bx_bound = 32" "b_bdev_raw bx_bound" "b_is_active bx_bound"
  "b_wrs bx_bound = (\<lambda>_. [])" "b_bio_list bx_bound = []" "b_raw_bios bx_bound = []"
  by (simp_all add: bx_bound_dev bx_free_def bx_connected_def bx_dev_simps IS_ctx_init_def put_pool_def)

lemma bswap32_zero: "bswap32 0 = 0" "bswap32 7 \<noteq> 0"
  by (simp_all add: bswap32_def)

lemma bx_given: "given_chunks bx_info_msg = [0]"
  by (simp add: given_chunks_def bx_info_msg_def empty_msg_def MAX_MR_SIZE_GB_def bswap32_zero upt_conv_Cons)

lemma bx_info_sel:
  "dm_type bx_info_msg = INFO_SINGLE" "dm_size_gb bx_info_msg = 0"
  "bswap32 (dm_rkey bx_info_msg 0) = 7" "ntohll (dm_buf bx_info_msg 0) = 0x10000"
  by (simp_all add: bx_info_msg_def bswap32_bswap32 ntohll_htonll)

lemma bx_recv_info:
  "rdma_cq_event_handler 0 [(WC_SUCCESS, WC_RECV True bx_info_msg 0)] 0 bx_bound = Inr bx_mapped"
  by (simp add: rdma_cq_event_handler_def handle_wc_def client_recv_def bx_mapped_def bx_bound_sel bx_info_sel upd_cb_def
      set_k_state_def set_cb_state_def IS_single_chunk_init_def bx_given link_chunk_def init_chunk_def less_test_state_def
      Let_def aset_def in_bounds_def STACKBD_SIZE_G_def)

lemma bx_on_sel:
  "mapped_at bx_on 0 0 0" "b_pools bx_on = (\<lambda>_ _. None)(0 := [0 \<mapsto> new_pool])" "b_queues bx_on = 1" "b_sgl bx_on = 32"
  "stackbd_ready bx_on" "b_rdma_on bx_on" "b_wrs bx_on = (\<lambda>_. [])" "b_bio_list bx_on = []" "b_raw_bios bx_on = []"
  "b_cb_num bx_on = 1" "b_cb_state_list bx_on 0 = CB_MAPPED" "k_state (b_cb_list bx_on 0) = WAIT_OPS"
  "chunk_at bx_on 0 0 = \<lparr>rc_rkey = 7, rc_addr = 0x10000, rc_bitmap = Some zero_bitmap\<rparr>"
  by (simp_all add: bx_on_def bx_mapped_def map_end_def upd_cb_def mapped_at_def bx_bound_sel stackbd_ready_def chunk_at_def
      STACKBD_SIZE_G_def MAX_MR_SIZE_GB_def)

lemma bx_exec_on: "exec bstep (bx_sys bx_dev) (replicate 6 Internal) (bx_sys bx_on)"
proof -
  have 1: "bstep (bx_sys bx_dev) Internal (bx_sys (map_query 0 0 bx_dev))"
    using st_map_query [of 0 "bx_sys bx_dev" 0] by (simp add: bx_sys_def bx_dev_def less_cb_state_def)
  have 2: "bstep (bx_sys (map_query 0 0 bx_dev)) Internal (bx_sys bx_connected)"
    using st_cm [of "bx_sys (map_query 0 0 bx_dev)" 0 CONNECTED] by (simp add: bx_sys_def bx_connected_def)
  have 3: "bstep (bx_sys bx_connected) Internal (bx_sys bx_free)"
    using st_recv [of 0 "bx_sys bx_connected" bx_free_msg True 0 bx_free] bx_recv_free
    by (simp add: bx_sys_def good_msg_def bx_free_msg_def) (simp add: bx_connected_def bx_dev_simps)
  have 4: "bstep (bx_sys bx_free) Internal (bx_sys bx_bound)"
    using st_map_bind [of 0 "bx_sys bx_free" True 0 0]
    by (simp add: bx_sys_def bx_bound_def) (simp add: bx_free_def bx_connected_def bx_dev_simps)
  have 5: "bstep (bx_sys bx_bound) Internal (bx_sys bx_mapped)"
    using st_recv [of 0 "bx_sys bx_bound" bx_info_msg True 0 bx_mapped] bx_recv_info
    by (simp add: bx_sys_def good_msg_def bx_info_sel bx_bound_sel fresh_chunk_def bx_given STACKBD_SIZE_G_def)
  have 6: "bstep (bx_sys bx_mapped) Internal (bx_sys bx_on)"
    using st_map_end [of "bx_sys bx_mapped"] by (simp add: bx_sys_def bx_on_def)
  note c = exec_cons [where R = bstep]
  from c [OF 1 c [OF 2 c [OF 3 c [OF 4 c [OF 5 c [OF 6 exec_nil [where R = bstep]]]]]]]
  show ?thesis by (simp add: numeral_eq_Suc)
qed



section \<open>A page is written and read\<close>

definition bx_page :: page where
  "bx_page = replicate 4096 1"

definition bx_req :: "nat \<Rightarrow> bool \<Rightarrow> page \<Rightarrow> request" where
  "bx_req r w pg = \<lparr>rq_id = r, rq_write = w, rq_pos = 0, rq_bytes = 4096,
     rq_bios = [\<lparr>bi_sector = 0, bi_phys_segments = 1, bi_pages = [pg]\<rparr>], rq_nr_phys_segments = 1, rq_buffer = 0\<rparr>"

lemma bx_req_pages:
  "rq_page (bx_req r w pg) = 0" "rq_npages (bx_req r w pg) = 1" "rq_chunk (bx_req r w pg) = 0"
  "rq_last_chunk (bx_req r w pg) = 0" "own_queue (bx_req r w pg) = 0" "rq_id (bx_req r w pg) = r"
  "rq_write (bx_req r w pg) = w" "rq_start (bx_req r w pg) = 0" "rq_bytes (bx_req r w pg) = 4096"
  "rq_pages (bx_req r w pg) = {0}"
  by (simp_all add: bx_req_def rq_page_def rq_npages_def rq_chunk_def rq_last_chunk_def own_queue_def rq_start_def rq_pages_def)

lemma bx_req_good: "b_sgl s = 32 \<Longrightarrow> b_queues s = 1 \<Longrightarrow> page_request s (bx_req r w pg)"
  unfolding page_request_def good_bio_def bx_req_pages
  by (simp add: bx_req_def rq_data_def STACKBD_SIZE_G_def)


definition bx_w :: request where "bx_w = bx_req 1 True bx_page"
definition bx_r :: request where "bx_r = bx_req 2 False zero_page"

definition bx_taken :: bdev where
  "bx_taken = put_pool 0 0 (new_pool\<lparr>cp_tail := 254\<rparr>) (counted bx_w bx_on)"

definition bx_posted :: bdev where
  "bx_posted = write_posted (0, 0, 255) 0 0 bx_w bx_taken"

lemma bx_on_inv: "map_inv bx_on"
  using device_simulates [OF bx_start bx_exec_on] by (simp add: bsim_def bx_sys_def)

lemma bx_pool: "in_bounds IS_QUEUE_DEPTH (cp_tail new_pool)"
  by (simp add: new_pool_def IS_QUEUE_DEPTH_def in_bounds_def)

lemma bx_submit: "IS_request 0 bx_w bx_on = Inr (0, bx_posted)"
proof -
  have good: "page_request bx_on bx_w" unfolding bx_w_def by (rule bx_req_good) (simp_all add: bx_on_sel)
  have "\<exists>p. b_pools bx_on (own_queue bx_w) c = Some p \<and> in_bounds IS_QUEUE_DEPTH (cp_tail p)" if "mapped_at bx_on (rq_chunk bx_w) c i" for c i
    using that bx_on_sel(1) bx_pool by (auto simp: bx_w_def bx_req_pages mapped_at_def bx_on_sel)
  with request_returns [OF bx_on_inv good bx_on_sel(5)] obtain s' where
    s': "IS_request 0 bx_w bx_on = Inr (0, s')" "disk_outcome bx_w bx_on s' \<or> split_outcome bx_w bx_on s' \<or>
      write_outcome bx_w bx_on s' \<or> read_outcome bx_w bx_on s'" by metis
  then have "write_outcome bx_w bx_on s'"
    using bx_on_sel(1,6) by (auto simp: disk_outcome_def split_outcome_def read_outcome_def bx_w_def bx_req_pages)
  then obtain c i x z where o: "mapped_at bx_on 0 c i" "takes_ctx (counted bx_w bx_on) c x z" "s' = write_posted x c i bx_w z"
    by (auto simp: write_outcome_def bx_w_def bx_req_pages)
  then have "c = 0" "i = 0" using bx_on_sel(1) by (simp_all add: mapped_at_def)
  moreover have "x = (0, 0, 255) \<and> z = bx_taken"
    using o(2) \<open>c = 0\<close> by (auto simp: takes_ctx_def bx_on_sel bx_taken_def new_pool_def IS_QUEUE_DEPTH_def)
  ultimately show ?thesis using s'(1) o(3) by (simp add: bx_posted_def)
qed


text \<open>The write is done: the page is at the server and its bit is set.\<close>

definition bx_bm :: bitmap where
  "bx_bm = zero_bitmap[0 := 1]"

definition bx_popped :: bdev where
  "bx_popped = bx_posted\<lparr>b_wrs := (b_wrs bx_posted)(0 := [])\<rparr>"

definition bx_written :: bdev where
  "bx_written = blk_mq_end_request 1 0 (put_bitmap 0 0 bx_bm (mod_ctx (0, 0, 255) write_end_ctx bx_popped))"

lemma bx_group_set: "IS_bitmap_group_set 0 4096 zero_bitmap = Inr bx_bm"
  by (simp add: IS_bitmap_group_set_def group_pages_def page_number_def to_int32_id is_int32_def IS_bitmap_set_def
      bitmap_word_def word_index_div bit_index_mod in_bounds_def zero_bitmap_def BITMAP_INT_SIZE_def bx_bm_def)

lemma bx_bm_ok: "full_bitmap bx_bm" "bm_bit bx_bm 0"
  by (simp_all add: full_bitmap_def bx_bm_def bm_bit_def zero_bitmap_def BITMAP_INT_SIZE_def)

lemma bx_posted_sel:
  "ctx_of bx_posted (0, 0, 255) = Some (write_ctx 0 0 bx_w idle_ctx)"
  "b_wrs bx_posted 0 = [request_wr True (0, 0, 255) 0 0 bx_w bx_taken]"
  "k_state (b_cb_list bx_posted 0) = WAIT_OPS" "b_cb_state_list bx_posted 0 = CB_MAPPED" "b_cb_num bx_posted = 1"
  "chunk_at bx_posted 0 0 = \<lparr>rc_rkey = 7, rc_addr = 0x10000, rc_bitmap = Some zero_bitmap\<rparr>"
  using bx_on_sel(13)
  by (simp_all add: bx_posted_def write_posted_def bx_taken_def put_pool_def mod_ctx_def ctx_of_def new_pool_def
      bx_on_sel chunk_at_def)

lemma bx_write_done:
  "rdma_cq_event_handler 0 [(WC_SUCCESS, WC_RDMA_WRITE (0, 0, 255))] 0 bx_popped = Inr bx_written"
proof -
  have "client_write_done (0, 0, 255) bx_popped = Inr bx_written"
    unfolding bx_written_def
    by (subst client_write_done_eq [where k = "write_ctx 0 0 bx_w idle_ctx" and req = bx_w and bm = zero_bitmap and
          bm' = bx_bm and c = 0 and i = 0])
      (use bx_posted_sel(1,6) bx_group_set in \<open>simp_all add: bx_popped_def ctx_of_def chunk_at_def write_ctx_def bx_w_def bx_req_pages\<close>)
  then show ?thesis
    using bx_posted_sel(3) by (simp add: rdma_cq_event_handler_def handle_wc_def bx_popped_def)
qed

definition bx_sys_w :: bsys where
  "bx_sys_w = (bx_sys bx_posted)\<lparr>y_pend := [1 \<mapsto> bx_w]\<rparr>"

definition bx_sys_d :: bsys where
  "bx_sys_d = (bx_sys bx_written)\<lparr>y_rmem := rmem_put 0 (request_wr True (0, 0, 255) 0 0 bx_w bx_taken)
     (b_bufs bx_posted (0, 0, 255)) (\<lambda>_ _ _. zero_page)\<rparr>"

lemma bx_exec_write: "exec bstep (bx_sys bx_on) [Submitted bx_w, Ended [1]] bx_sys_d"
proof -
  have "page_request bx_on bx_w" unfolding bx_w_def by (rule bx_req_good) (simp_all add: bx_on_sel)
  then have 1: "bstep (bx_sys bx_on) (Submitted bx_w) bx_sys_w"
    using st_submit [of "bx_sys bx_on" bx_w True bx_posted] bx_submit bx_on_sel(5,6)
    by (simp add: bx_sys_def bx_sys_w_def exclusive_def calm_def IS_queue_rq_def) (simp add: bx_w_def bx_req_pages)
  have id: "rq_id bx_w = 1" "cx_req (write_ctx 0 0 bx_w idle_ctx) = Some bx_w" by (simp_all add: bx_w_def bx_req_pages write_ctx_def)
  have "drop_pend [1] [1 \<mapsto> bx_w] = Map.empty" by (simp add: drop_pend_def fun_eq_iff)
  then have 2: "bstep bx_sys_w (Ended [1]) bx_sys_d"
    using st_rdma_write [of 0 bx_sys_w "request_wr True (0, 0, 255) 0 0 bx_w bx_taken" "[]" "write_ctx 0 0 bx_w idle_ctx" bx_w
        bx_written] bx_write_done bx_posted_sel
    by (simp add: bx_sys_w_def bx_sys_def bx_sys_d_def bx_popped_def id)
  show ?thesis by (rule exec_cons [where R = bstep, OF 1 exec_cons [where R = bstep, OF 2 exec_nil]])
qed


text \<open>The page is read again.\<close>

lemma bx_written_sel:
  "mapped_at bx_written 0 0 0" "stackbd_ready bx_written" "b_rdma_on bx_written" "b_sgl bx_written = 32" "b_queues bx_written = 1"
  "rc_bitmap (chunk_at bx_written 0 0) = Some bx_bm" "b_wrs bx_written 0 = []" "b_cb_num bx_written = 1"
  "k_state (b_cb_list bx_written 0) = WAIT_OPS" "b_cb_state_list bx_written 0 = CB_MAPPED"
  "\<exists>ks. b_pools bx_written 0 0 = Some (new_pool\<lparr>cp_tail := 254, cp_ctx := ks\<rparr>)"
  using bx_on_sel(1,5,13)
  by (simp_all add: bx_written_def blk_mq_end_request_def put_bitmap_def upd_cb_def mod_ctx_def bx_popped_def bx_posted_def
      write_posted_def bx_taken_def put_pool_def bx_on_sel mapped_at_def stackbd_ready_def chunk_at_def)
    (rule exI [where x = "\<lambda>j. if j = 255 then write_end_ctx (write_ctx 0 0 bx_w idle_ctx) else idle_ctx"],
      simp add: new_pool_def fun_eq_iff)





section \<open>The other properties\<close>

theorem requests_routed_witness:
  "\<exists>s'. IS_request 0 bx_w bx_on = Inr (0, s') \<and> (disk_outcome bx_w bx_on s' \<or> split_outcome bx_w bx_on s' \<or>
     write_outcome bx_w bx_on s' \<or> read_outcome bx_w bx_on s')"
proof (rule requests_routed [OF bx_on_inv _ bx_on_sel(5)])
  show "page_request bx_on bx_w" unfolding bx_w_def by (rule bx_req_good) (simp_all add: bx_on_sel)
  show "\<exists>p. b_pools bx_on (own_queue bx_w) c = Some p \<and> in_bounds IS_QUEUE_DEPTH (cp_tail p)"
    if "mapped_at bx_on (rq_chunk bx_w) c i" for c i
    using that bx_on_sel(1) bx_pool by (auto simp: bx_w_def bx_req_pages mapped_at_def bx_on_sel)
qed

theorem bitmap_groups_witness:
  "\<exists>bm1 bm2. IS_bitmap_group_set 0 8192 zero_bitmap = Inr bm1 \<and> IS_bitmap_group_clear 0 8192 bm1 = Inr bm2 \<and>
     IS_bitmap_test bm1 1 = Inr True \<and> IS_bitmap_test bm1 2 = Inr False \<and> IS_bitmap_test bm2 1 = Inr False"
proof -
  have zero: "full_bitmap zero_bitmap" "\<not> bm_bit zero_bitmap 2"
    using zero_bitmap_bit [of 2] full_zero by (simp_all add: zero_bitmap_def)
  have "in_chunk 0 8192" by (simp add: in_chunk_def ONE_GB_def)
  from bitmap_groups [OF zero(1) this] obtain bm1 bm2 where
    g: "IS_bitmap_group_set 0 8192 zero_bitmap = Inr bm1" "IS_bitmap_group_clear 0 8192 bm1 = Inr bm2"
    and t: "\<And>p. p < 2 ^ 18 \<Longrightarrow> IS_bitmap_test bm1 (int p) = Inr (in_pages 0 8192 p \<or> bm_bit zero_bitmap (int p)) \<and>
       IS_bitmap_test bm2 (int p) = Inr (\<not> in_pages 0 8192 p \<and> bm_bit zero_bitmap (int p))" by auto
  show ?thesis using g t [of 1] t [of 2] zero(2) by (auto simp: in_pages_def)
qed

definition bx_off :: bdev where
  "bx_off = bx_written\<lparr>b_rdma_on := False\<rparr>"

lemma bx_off_inv: "map_inv bx_off"
proof -
  have "exec bstep (bx_sys bx_dev) (replicate 6 Internal @ [Submitted bx_w, Ended [1]]) bx_sys_d"
    by (rule exec_append [OF bx_exec_on bx_exec_write])
  from device_simulates [OF bx_start this] have "map_inv bx_written" by (simp add: bsim_def bx_sys_d_def bx_sys_def)
  moreover have "same_core bx_written bx_off" by (simp add: same_core_def bx_off_def queue_def)
  ultimately show ?thesis using core_view(15) by blast
qed

theorem write_off_then_stale_read_witness:
  "\<exists>s1 s2 x. IS_request 0 (bx_req 3 True zero_page) bx_off = Inr (0, s1) \<and> b_wrs s1 = b_wrs bx_off \<and>
    IS_request 0 bx_r (map_end s1) = Inr (0, s2) \<and> b_wrs s2 0 = [request_wr False x 0 0 bx_r bx_off]"
proof -
  obtain ks where "b_pools bx_written 0 0 = Some (new_pool\<lparr>cp_tail := 254, cp_ctx := ks\<rparr>)" using bx_written_sel(11) by blast
  then have p: "b_pools bx_off (own_queue bx_r) 0 = Some (new_pool\<lparr>cp_tail := 254, cp_ctx := ks\<rparr>)"
    by (simp add: bx_off_def bx_r_def bx_req_pages)
  have o: "stackbd_ready bx_off" "\<not> b_rdma_on bx_off" "mapped_at bx_off (rq_chunk (bx_req 3 True zero_page)) 0 0"
    "rc_bitmap (chunk_at bx_off 0 0) = Some bx_bm" "bm_bit bx_bm (int (rq_page (bx_req 3 True zero_page) mod 2 ^ 18))"
    "b_wrs bx_off 0 = []"
    using bx_written_sel bx_bm_ok(2) by (simp_all add: bx_off_def stackbd_ready_def mapped_at_def chunk_at_def bx_req_pages)
  have g: "page_request bx_off (bx_req r w pg)" for r w pg by (rule bx_req_good) (simp_all add: bx_off_def bx_written_sel)
  from write_off_then_stale_read [OF bx_off_inv o(1-5) g _ _ g [of 2 False zero_page, folded bx_r_def] _ _ p] show ?thesis
    using o(6) by (simp add: bx_req_pages bx_r_def IS_QUEUE_DEPTH_def in_bounds_def) metis
qed

theorem context_reused_in_flight_witness:
  "\<exists>s1 s2. IS_stackbd_end_io (write_bio (0, 0, 255) bx_w) 0 bx_posted = Inr s1 \<and>
    IS_rdma_write 0 0 0 0 4096 (bx_req 3 True zero_page) s1 = Inr (0, s2) \<and>
    request_wr True (0, 0, 255) 0 0 bx_w bx_taken \<in> set (b_wrs s2 0) \<and> b_bufs s2 (0, 0, 255) 0 = zero_page"
proof -
  let ?r = "bx_req 3 True zero_page"
  obtain p where p: "b_pools bx_posted 0 0 = Some p" "cp_tail p = 254" "cp_ctx p 255 = write_ctx 0 0 bx_w idle_ctx"
    by (simp add: bx_posted_def write_posted_def bx_taken_def put_pool_def mod_ctx_def bx_on_sel new_pool_def)
  have "page_request bx_posted ?r" "b_rdma_on bx_posted" "stackbd_ready bx_posted"
    using bx_on_sel(5)
    by (auto intro!: bx_req_good simp: bx_posted_def write_posted_def bx_taken_def put_pool_def bx_on_sel stackbd_ready_def)
  then show ?thesis
    using context_reused_in_flight [OF p(1), of 255 "request_wr True (0, 0, 255) 0 0 bx_w bx_taken" "write_bio (0, 0, 255) bx_w" ?r 0]
      p bx_posted_sel(2)
    by (simp add: IS_QUEUE_DEPTH_def write_ctx_def write_bio_def request_wr_def bx_req_pages rq_data_def) (auto simp: bx_req_def)
qed

theorem bind_end_to_end_witness:
  "\<exists>d1 m s' k' d2 i. IS_send_bind_single 0 0 3 bx_connected = (0, d1) \<and>
    daemon_on_completion ex_reg True True 0 (arrived 0 ex_conn m ex_session) = Inr s' \<and> ds_heap s' 0 = Some k' \<and>
    recv_msg 0 (dc_send_msg k') d1 = Inr d2 \<and> find_chunk d2 3 = Inr (Some (0, i)) \<and>
    rc_rkey (chunk_at d2 0 i) = 7 \<and> rc_addr (chunk_at d2 0 i) = 0x1000"
proof -
  have "\<forall>i. \<exists>a key. ex_reg i = Some (a, key) \<and> key \<noteq> 0" by (simp add: ex_reg_def)
  from bind_end_to_end [OF ex_reach ex_session_sel(1-3) _ this, of 3 0 bx_connected] obtain d1 m s' k' i d2 where
    "IS_send_bind_single 0 0 (int 3) bx_connected = (0, d1)"
    "daemon_on_completion ex_reg True True 0 (arrived 0 ex_conn m ex_session) = Inr s'" "ds_heap s' 0 = Some k'"
    "recv_msg 0 (dc_send_msg k') d1 = Inr d2" "find_chunk d2 (int 3) = Inr (Some (0, i))"
    "chunk_at d2 0 i = \<lparr>rc_rkey = snd (the (ex_reg i)), rc_addr = fst (the (ex_reg i)), rc_bitmap = Some zero_bitmap\<rparr>"
    by (auto simp: ex_session_sel STACKBD_SIZE_G_def bx_connected_def bx_dev_simps)
  then show ?thesis
    by (intro exI [of _ d1] exI [of _ m] exI [of _ s'] exI [of _ k'] exI [of _ d2] exI [of _ i]) (simp add: ex_reg_def)
qed

definition bx_active :: bdev where
  "bx_active = bx_dev\<lparr>b_last_ops := (\<lambda>_. 4000)\<rparr>"

theorem activity_does_not_decay_witness:
  "RDMA_TRIGGER_THRESHOLD < b_last_ops (((\<lambda>s. snd (rdma_trigger 0 s)) ^^ 29) bx_active) 0 \<and>
   b_last_ops (((\<lambda>s. snd (rdma_trigger 0 s)) ^^ 2) bx_active) 0 = 1600000"
proof -
  have "b_write_ops bx_active 0 = 0" "b_read_ops bx_active 0 = 0" "b_last_ops bx_active 0 = filtered_ops 1 0 0"
    "b_last_ops bx_active 0 = 4000"
    by (simp_all add: bx_active_def bx_dev_def filtered_ops_def RDMA_CUR_WEIGHT_def RDMA_W_WEIGHT_def)
  then show ?thesis
    using conjunct2 [OF activity_does_not_decay [of bx_active 0 29]] conjunct1 [OF activity_does_not_decay [of bx_active 0 2]] by simp
qed

end
