(* ===== verification/Block_Portal.thy ===== *)
theory Block_Portal
  imports Block_Chunks Wire
begin

text \<open>
  The start of a session of the block device (\<^verbatim>\<open>portal_parser\<close>, \<^verbatim>\<open>IS_create_conn\<close> and
  \<^verbatim>\<open>IS_session_create\<close> of \<^verbatim>\<open>framework/infiniswap_bd/is_main.c\<close>): the list of the memory servers is
  read from the text of the portal, and the maps of the session are set up.
\<close>

section \<open>The text of the portal\<close>

definition MAX_PORTAL_NAME :: nat where "MAX_PORTAL_NAME = 1024"

record IS_portal =
  po_port :: "16 word"
  po_addr :: string

text \<open>
  \<^verbatim>\<open>strsep\<close> with one delimiter, at position \<open>p\<close> of a buffer: the delimiter is overwritten with a
  zero, and the position behind it is what is left; without a delimiter nothing is left.
\<close>

definition strsep_at :: "char \<Rightarrow> char list \<Rightarrow> nat \<Rightarrow> char list \<times> nat option" where
  "strsep_at d buf p =
     (let e = p + length (takeWhile (\<lambda>c. c \<noteq> d \<and> c \<noteq> CHR 0x00) (drop p buf)) in
      if e < length buf \<and> buf ! e = d then (buf[e := CHR 0x00], Some (e + 1)) else (buf, None))"

text \<open>\<^verbatim>\<open>sscanf\<close> of one \<^verbatim>\<open>%d\<close> into a variable that is zero before.\<close>

definition scan_num :: "string \<Rightarrow> int" where
  "scan_num t = (case scan_int t of None \<Rightarrow> 0 | Some (n, _) \<Rightarrow> to_int32 n)"

text \<open>
  The loop over the servers. The search for the colon does not stop at the end of the
  string, and the address goes into an array of sixteen bytes together with a zero. The result is
  the list of the servers and the buffer, in which the commas are overwritten.
\<close>

fun portal_entries :: "nat \<Rightarrow> char list \<Rightarrow> nat option \<Rightarrow> (IS_portal list \<times> char list) res" where
  "portal_entries 0 buf ptr = Inr ([], buf)"
| "portal_entries (Suc n) buf None = Inl NullDeref"
| "portal_entries (Suc n) buf (Some p) =
     (let (buf1, ptr) = strsep_at (CHR '','') buf p;
          j = length (takeWhile (\<lambda>c. c \<noteq> CHR '':'') (drop p buf1)) in
      if length buf1 \<le> p + j then Inl OutOfBounds
      else if 16 \<le> j then Inl OutOfBounds
      else rbind (c_str (drop (p + j + 1) buf1)) (\<lambda>t.
           rbind (portal_entries n buf1 ptr) (\<lambda>(ps, buf2).
             Inr (\<lparr>po_port = word_of_int (scan_num t), po_addr = take j (drop p buf1)\<rparr> # ps, buf2))))"

text \<open>The number of servers comes first, behind \<^verbatim>\<open>rdma://\<close>; with a number below one there is no server.\<close>

definition portal_parser :: "char list \<Rightarrow> (IS_portal list \<times> char list) res" where
  "portal_parser buf =
     (let (buf1, ptr) = strsep_at (CHR '','') buf 7 in
      rbind (c_str (drop 7 buf1)) (\<lambda>t. portal_entries (nat (scan_num t)) buf1 ptr))"

section \<open>The session\<close>

text \<open>
  A control block of zeros. Its arrays are not there before \<^verbatim>\<open>kernel_cb_init\<close>, and the state is
  not looked at; here they are the ones that \<^verbatim>\<open>kernel_cb_init\<close> makes.
\<close>

definition zero_cb :: kernel_cb where
  "zero_cb = \<lparr>k_state = IDLE, k_recv_buf = empty_msg, k_send_buf = empty_msg, k_sent = [], k_posted = 0,
     k_chunk_list = (\<lambda>_. \<lparr>rc_rkey = 0, rc_addr = 0, rc_bitmap = None\<rparr>), k_remote_mapped = (\<lambda>_. False),
     k_chunk_size_g = 0, k_target_size_g = 0, k_shrink_size_g = 0, k_chunk_map = (\<lambda>_. -1),
     k_evict_chunk_map = (\<lambda>_. CHR 0x00), k_c_state = C_IDLE\<rparr>"

definition init_maps :: "nat \<Rightarrow> bdev \<Rightarrow> bdev" where
  "init_maps n s = s\<lparr>b_cb_num := n, b_mapped_cb_num := 0, b_cb_list := (\<lambda>_. zero_cb), b_cb_state_list := (\<lambda>_. CB_IDLE),
     b_cb_index_map := (\<lambda>_. -1), b_unmapped_chunk_list := (\<lambda>i. int STACKBD_SIZE_G - 1 - int i),
     b_chunk_map_cb_chunk := (\<lambda>_. -1), b_free_chunk_index := int STACKBD_SIZE_G - 1,
     b_write_ops := (\<lambda>_. 0), b_read_ops := (\<lambda>_. 0), b_last_ops := (\<lambda>_. 0), b_trigger_enable := True\<rparr>"

text \<open>A connection has a pool for each server, which is empty at first.\<close>

definition IS_create_conn :: "bool \<Rightarrow> nat \<Rightarrow> bdev \<Rightarrow> int \<times> bdev" where
  "IS_create_conn ok i s =
     (if \<not> ok then (-12, s) else (0, s\<lparr>b_pools := (b_pools s)(i := (\<lambda>_. None))\<rparr>))"

fun create_conns :: "(nat \<Rightarrow> bool) \<Rightarrow> nat list \<Rightarrow> bdev \<Rightarrow> int \<times> bdev" where
  "create_conns ok [] s = (0, s)"
| "create_conns ok (i # is) s =
     (case IS_create_conn (ok i) i s of (ret, s') \<Rightarrow>
        if ret \<noteq> 0 then (ret, s') else create_conns ok is s')"

text \<open>
  \<open>arr\<close> tells whether the array of connections could be allocated, and \<open>conn\<close> which connections.
  The buffer of the portal holds \<open>buf\<close> before; the second result is what it holds afterwards.
\<close>

definition IS_session_create ::
  "bool \<Rightarrow> (nat \<Rightarrow> bool) \<Rightarrow> string \<Rightarrow> char list \<Rightarrow> bdev \<Rightarrow> (int \<times> IS_portal list \<times> char list \<times> bdev) res" where
  "IS_session_create arr conn txt buf s =
     (if length buf < length txt then Inl OutOfBounds
      else rbind (portal_parser (txt @ drop (length txt) buf)) (\<lambda>(ps, buf').
        let s1 = init_maps (length ps) s in
        if \<not> arr then Inr (-12, ps, buf', s1)
        else (case create_conns conn [0 ..< b_queues s1] s1 of (ret, s2) \<Rightarrow>
          if ret \<noteq> 0 then Inr (ret, ps, buf', s2)
          else Inr (0, ps, buf', s2\<lparr>b_rdma_on := False\<rparr>))))"

section \<open>Reading back a portal\<close>

definition portal_entry :: "IS_portal \<Rightarrow> string" where
  "portal_entry p = po_addr p @ CHR '':'' # print_nat (unat (po_port p))"

definition portal_text :: "IS_portal list \<Rightarrow> string" where
  "portal_text ps = ''rdma://'' @ sep_by (CHR '','') (print_nat (length ps) # map portal_entry ps)"

text \<open>The text that the parser leaves: a zero where a comma was.\<close>

definition portal_left :: "IS_portal list \<Rightarrow> string" where
  "portal_left ps = ''rdma://'' @ sep_by (CHR 0x00) (print_nat (length ps) # map portal_entry ps)"

definition good_portal :: "IS_portal \<Rightarrow> bool" where
  "good_portal p \<longleftrightarrow> length (po_addr p) < 16 \<and>
     CHR '':'' \<notin> set (po_addr p) \<and> CHR '','' \<notin> set (po_addr p) \<and> CHR 0x00 \<notin> set (po_addr p)"


lemma print_nat_char: "c \<in> set (print_nat n) \<Longrightarrow> c \<noteq> CHR '','' \<and> c \<noteq> CHR '':'' \<and> c \<noteq> CHR 0x00"
  using print_nat_digits [of c n] of_char_digit by fastforce

lemma scan_num_print: "n < 2 ^ 31 \<Longrightarrow> scan_num (print_nat n) = int n"
proof -
  assume "n < 2 ^ 31"
  then have "to_int32 (int n) = int n" by (intro to_int32_id) (simp add: is_int32_def)
  moreover have "scan_int (print_nat n) = Some (int n, [])" using scan_print_int [of "[]" "int n"] by (simp add: print_int_def)
  ultimately show ?thesis by (simp add: scan_num_def)
qed

lemma takeWhile_stop: "(\<And>c. c \<in> set xs \<Longrightarrow> P c) \<Longrightarrow> \<not> P d \<Longrightarrow> takeWhile P (xs @ d # ys) = xs"
  by (induction xs) auto

lemma entry_chars: "good_portal p \<Longrightarrow> c \<in> set (portal_entry p) \<Longrightarrow> c \<noteq> CHR '','' \<and> c \<noteq> CHR 0x00"
  using print_nat_char [of c "unat (po_port p)"] by (auto simp: good_portal_def portal_entry_def)

text \<open>One field of the buffer, which a zero or a comma follows.\<close>

lemma strsep_field:
  assumes "\<And>c. c \<in> set xs \<Longrightarrow> c \<noteq> d \<and> c \<noteq> CHR 0x00" "d \<noteq> CHR 0x00"
  shows "strsep_at d (pre @ xs @ d # rest) (length pre) = (pre @ xs @ CHR 0x00 # rest, Some (length (pre @ xs @ [d])))"
    "strsep_at d (pre @ xs @ CHR 0x00 # rest) (length pre) = (pre @ xs @ CHR 0x00 # rest, None)"
proof -
  have "takeWhile (\<lambda>c. c \<noteq> d \<and> c \<noteq> CHR 0x00) (xs @ e # rest) = xs" if "e = d \<or> e = CHR 0x00" for e
    by (rule takeWhile_stop) (use assms(1) that in auto)
  then have t: "takeWhile (\<lambda>c. c \<noteq> d \<and> c \<noteq> CHR 0x00) (drop (length pre) (pre @ xs @ e # rest)) = xs" if "e = d \<or> e = CHR 0x00" for e
    using that by simp
  have u: "(pre @ xs @ e # rest) ! (length pre + length xs) = e" "(pre @ xs @ d # rest)[length pre + length xs := CHR 0x00] = pre @ xs @ CHR 0x00 # rest"
    for e by (simp_all add: nth_append list_update_append)
  show "strsep_at d (pre @ xs @ d # rest) (length pre) = (pre @ xs @ CHR 0x00 # rest, Some (length (pre @ xs @ [d])))"
    by (simp add: strsep_at_def t [of d] u del: drop_append)
  show "strsep_at d (pre @ xs @ CHR 0x00 # rest) (length pre) = (pre @ xs @ CHR 0x00 # rest, None)"
    using assms(2) by (simp add: strsep_at_def t [of "CHR 0x00"] u del: drop_append)
qed

lemma portal_entry_read:
  fixes pre rest :: "char list"
  assumes "good_portal p"
  defines "buf \<equiv> pre @ portal_entry p @ CHR 0x00 # rest"
  defines "j \<equiv> length (takeWhile (\<lambda>c. c \<noteq> CHR '':'') (drop (length pre) buf))"
  shows "length pre + j < length buf" "j < 16" "take j (drop (length pre) buf) = po_addr p"
    "c_str (drop (length pre + j + 1) buf) = Inr (print_nat (unat (po_port p)))"
proof -
  have "takeWhile (\<lambda>c. c \<noteq> CHR '':'') (po_addr p @ CHR '':'' # print_nat (unat (po_port p)) @ CHR 0x00 # rest) = po_addr p"
    by (rule takeWhile_stop) (use assms(1) in \<open>auto simp: good_portal_def\<close>)
  then have j: "j = length (po_addr p)" by (simp add: j_def buf_def portal_entry_def)
  show "j < 16" using assms(1) j by (simp add: good_portal_def)
  show "length pre + j < length buf" "take j (drop (length pre) buf) = po_addr p" by (simp_all add: j buf_def portal_entry_def)
  have "takeWhile (\<lambda>c. c \<noteq> CHR 0x00) (print_nat n @ CHR 0x00 # rest) = print_nat n" for n
    by (rule takeWhile_stop) (use print_nat_char in auto)
  then show "c_str (drop (length pre + j + 1) buf) = Inr (print_nat (unat (po_port p)))"
    by (simp add: j buf_def portal_entry_def c_str_def)
qed

lemma port_read: "word_of_int (scan_num (print_nat (unat (po_port p)))) = po_port p"
proof -
  have "unat (po_port p) < 2 ^ 16" using unsigned_less [of "po_port p"] by simp
  then show ?thesis by (simp add: scan_num_print)
qed

lemma portal_entries_step:
  assumes "good_portal p" "strsep_at (CHR '','') buf (length pre) = (pre @ portal_entry p @ CHR 0x00 # rest, ptr)"
  shows "portal_entries (Suc n) buf (Some (length pre)) =
    rbind (portal_entries n (pre @ portal_entry p @ CHR 0x00 # rest) ptr) (\<lambda>(ps, buf'). Inr (p # ps, buf'))"
  using portal_entry_read [OF assms(1), of pre rest] port_read [of p]
  unfolding portal_entries.simps assms(2) Let_def prod.case by (simp del: drop_append) (cases p, simp)

lemma portal_entries_print:
  assumes "ps \<noteq> []" "\<forall>p \<in> set ps. good_portal p"
  shows "portal_entries (length ps) (pre @ sep_by (CHR '','') (map portal_entry ps) @ CHR 0x00 # zs) (Some (length pre)) =
    Inr (ps, pre @ sep_by (CHR 0x00) (map portal_entry ps) @ CHR 0x00 # zs)"
  using assms
proof (induction ps arbitrary: pre rule: induct_list012)
  case (2 p)
  then have g: "good_portal p" by simp
  show ?case
    using strsep_field(2) [of "portal_entry p" "CHR '',''" pre zs] entry_chars [OF g]
    by (simp add: portal_entries_step [OF g] del: portal_entries.simps(3))
next
  case (3 p q ps)
  then have g: "good_portal p" by simp
  let ?rest = "sep_by (CHR '','') (map portal_entry (q # ps)) @ CHR 0x00 # zs" and ?e = "portal_entry p"
  let ?zrest = "sep_by (CHR 0x00) (map portal_entry (q # ps)) @ CHR 0x00 # zs"
  have sep: "strsep_at (CHR '','') (pre @ ?e @ CHR '','' # ?rest) (length pre) =
      (pre @ ?e @ CHR 0x00 # ?rest, Some (length (pre @ ?e @ [CHR 0x00])))"
    using strsep_field(1) [of ?e "CHR '',''" pre ?rest] entry_chars [OF g] by simp
  have "portal_entries (length (q # ps)) ((pre @ ?e @ [CHR 0x00]) @ ?rest) (Some (length (pre @ ?e @ [CHR 0x00]))) =
      Inr (q # ps, (pre @ ?e @ [CHR 0x00]) @ ?zrest)"
    by (rule 3(2)) (use 3(4) in simp_all)
  then have ih: "portal_entries (length (q # ps)) (pre @ ?e @ CHR 0x00 # ?rest) (Some (length (pre @ ?e @ [CHR 0x00]))) =
      Inr (q # ps, pre @ ?e @ CHR 0x00 # ?zrest)"
    by (simp only: append_assoc append_Cons append_Nil)
  have "portal_entries (Suc (length (q # ps))) (pre @ ?e @ CHR '','' # ?rest) (Some (length pre)) =
      Inr (p # q # ps, pre @ ?e @ CHR 0x00 # ?zrest)"
    by (simp only: portal_entries_step [OF g sep] ih rbind_simps prod.case)
  then show ?case by simp
qed simp

lemma portal_parser_print:
  assumes "\<forall>p \<in> set ps. good_portal p" "length ps < 2 ^ 31"
  shows "portal_parser (portal_text ps @ CHR 0x00 # zs) = Inr (ps, portal_left ps @ CHR 0x00 # zs)"
proof -
  let ?n = "print_nat (length ps)"
  define pre where "pre = ''rdma://''"
  have pre: "length pre = 7" by (simp add: pre_def)
  have n: "c \<noteq> CHR '','' \<and> c \<noteq> CHR 0x00" if "c \<in> set ?n" for c using print_nat_char [OF that] by simp
  have "takeWhile (\<lambda>c. c \<noteq> CHR 0x00) (?n @ CHR 0x00 # r) = ?n" for r by (rule takeWhile_stop) (use n in auto)
  then have c: "c_str (drop 7 (pre @ ?n @ CHR 0x00 # r)) = Inr ?n" for r using pre by (simp add: c_str_def)
  show ?thesis
  proof (cases ps)
    case Nil
    then have "portal_text ps @ CHR 0x00 # zs = pre @ ?n @ CHR 0x00 # zs" by (simp add: portal_text_def pre_def)
    moreover have "strsep_at (CHR '','') (pre @ ?n @ CHR 0x00 # zs) 7 = (pre @ ?n @ CHR 0x00 # zs, None)"
      using strsep_field(2) [of ?n "CHR '',''" pre zs] n pre by simp
    ultimately show ?thesis
      unfolding portal_parser_def using c [of zs] scan_num_print [OF assms(2)] Nil by (simp add: portal_left_def pre_def)
  next
    case (Cons p qs)
    let ?rest = "sep_by (CHR '','') (map portal_entry ps) @ CHR 0x00 # zs"
    have "portal_text ps @ CHR 0x00 # zs = pre @ ?n @ CHR '','' # ?rest" using Cons by (simp add: portal_text_def pre_def)
    moreover have "strsep_at (CHR '','') (pre @ ?n @ CHR '','' # ?rest) 7 = (pre @ ?n @ CHR 0x00 # ?rest, Some (length (pre @ ?n @ [CHR 0x00])))"
      using strsep_field(1) [of ?n "CHR '',''" pre ?rest] n pre by simp
    moreover have "portal_entries (length ps) (pre @ ?n @ CHR 0x00 # ?rest) (Some (length (pre @ ?n @ [CHR 0x00]))) =
        Inr (ps, portal_left ps @ CHR 0x00 # zs)"
      using portal_entries_print [of ps "pre @ ?n @ [CHR 0x00]" zs] assms(1) Cons by (simp add: portal_left_def pre_def)
    ultimately show ?thesis
      unfolding portal_parser_def using c [of ?rest] scan_num_print [OF assms(2)] by (simp only: Let_def prod.case rbind_simps nat_int)
  qed
qed

end
