(* ===== verification/Block_Connect.thy ===== *)
theory Block_Connect
  imports Block_Chunks
begin

text \<open>
  The connection of the block device to a memory server (\<^verbatim>\<open>framework/infiniswap_bd/is_main.c\<close>): the
  events of the connection manager, the set up of the queue pair and of the buffers, and the
  handlers that were divided where they wait, as a whole. \<open>mp\<close> stands for a call of
  \<^verbatim>\<open>IS_single_chunk_map\<close> for a chunk, with the answers of the server it chooses.
\<close>

section \<open>Whole handlers\<close>

definition remap_chunk :: "(nat \<Rightarrow> bdev \<Rightarrow> (int \<times> bdev) res) \<Rightarrow> bool arr \<Rightarrow> nat \<Rightarrow> bdev \<Rightarrow> bdev res" where
  "remap_chunk mp ev g s = (if ev g then rbind (mp g s) (\<lambda>(_, s'). Inr s') else Inr s)"

definition IS_disconnect_handler :: "(nat \<Rightarrow> bdev \<Rightarrow> (int \<times> bdev) res) \<Rightarrow> nat \<Rightarrow> bdev \<Rightarrow> (int \<times> bdev) res" where
  "IS_disconnect_handler mp c s =
     rbind (disconnect_begin c s) (\<lambda>(r, s1).
       case r of
         None \<Rightarrow> Inr (int c, s1)
       | Some ev \<Rightarrow>
           rbind (disconnect_finish c s1) (\<lambda>s2.
           rbind (rfold (remap_chunk mp ev) [0 ..< STACKBD_SIZE_G] s2) (\<lambda>s3.
             Inr (0, s3\<lparr>b_trigger_enable := True\<rparr>))))"

definition evict_release ::
  "(nat \<Rightarrow> bdev \<Rightarrow> (int \<times> bdev) res) \<Rightarrow> bool arr \<Rightarrow> nat \<Rightarrow> bdev \<Rightarrow> bdev res" where
  "evict_release mp ev g s =
     (if ev g then rbind (release_chunk (int g) s) (remap_chunk mp ev g) else Inr s)"

text \<open>One round of the eviction thread: \<open>stop\<close> is what happens until STOP has arrived.\<close>

definition evict_handler ::
  "(nat \<Rightarrow> bdev \<Rightarrow> (int \<times> bdev) res) \<Rightarrow> (bdev \<Rightarrow> bdev) \<Rightarrow> int \<Rightarrow> nat \<Rightarrow> bdev \<Rightarrow> bdev res" where
  "evict_handler mp stop post c s =
     (if k_c_state (b_cb_list s c) \<noteq> C_EVICT then Inl Diverges
      else rbind (evict_activity post c s) (\<lambda>s1.
        let s2 = stop s1 in
        if k_c_state (b_cb_list s2 c) \<noteq> C_STOP then Inl Diverges
        else rbind (evict_mark c s2) (\<lambda>(r, s3).
          case r of
            None \<Rightarrow> Inr s3
          | Some (ev, size_g) \<Rightarrow>
              rbind (evict_clean post c size_g s3) (\<lambda>s4.
              rbind (rfold (evict_release mp ev) [0 ..< STACKBD_SIZE_G] s4) (\<lambda>s5.
                Inr (evict_end c s5))))))"

text \<open>One round of the thread \<^verbatim>\<open>rdma_trigger\<close> over the chunks of the device.\<close>

definition trigger_chunk :: "(nat \<Rightarrow> bdev \<Rightarrow> (int \<times> bdev) res) \<Rightarrow> nat \<Rightarrow> bdev \<Rightarrow> bdev res" where
  "trigger_chunk mp i s =
     (case rdma_trigger i s of (go, s1) \<Rightarrow> if go then rbind (mp i s1) (\<lambda>(_, s2). Inr s2) else Inr s1)"

definition rdma_trigger_round :: "(nat \<Rightarrow> bdev \<Rightarrow> (int \<times> bdev) res) \<Rightarrow> bdev \<Rightarrow> bdev res" where
  "rdma_trigger_round mp s = rfold (trigger_chunk mp) [0 ..< STACKBD_SIZE_G] s"

definition rdma_trigger_start :: "bdev \<Rightarrow> bdev" where
  "rdma_trigger_start s = s\<lparr>b_write_ops := (\<lambda>_. 0), b_read_ops := (\<lambda>_. 0)\<rparr>"

section \<open>Events of the connection manager\<close>

datatype cma_event =
    CM_ADDR_RESOLVED int | CM_ROUTE_RESOLVED | CM_CONNECT_REQUEST | CM_ESTABLISHED
  | CM_ADDR_ERROR | CM_ROUTE_ERROR | CM_CONNECT_ERROR | CM_UNREACHABLE | CM_REJECTED
  | CM_DISCONNECTED | CM_DEVICE_REMOVAL | CM_OTHER

text \<open>
  The argument of the first is the result of \<^verbatim>\<open>rdma_resolve_route\<close>. The count of the
  connections that are still to be made is not looked at anywhere.
\<close>

definition IS_cma_event_handler ::
  "(nat \<Rightarrow> bdev \<Rightarrow> (int \<times> bdev) res) \<Rightarrow> nat \<Rightarrow> cma_event \<Rightarrow> bdev \<Rightarrow> (int \<times> bdev) res" where
  "IS_cma_event_handler mp c e s =
     (case e of
        CM_ADDR_RESOLVED ret \<Rightarrow> Inr (0, set_k_state c ADDR_RESOLVED s)
      | CM_ROUTE_RESOLVED \<Rightarrow> Inr (0, set_k_state c ROUTE_RESOLVED s)
      | CM_CONNECT_REQUEST \<Rightarrow> Inr (0, set_k_state c CONNECT_REQUEST s)
      | CM_ESTABLISHED \<Rightarrow> Inr (0, set_k_state c CONNECTED s)
      | CM_DISCONNECTED \<Rightarrow>
          rbind (IS_disconnect_handler mp c (set_k_state c CM_DISCONNECT s)) (\<lambda>(_, s'). Inr (0, s'))
      | CM_DEVICE_REMOVAL \<Rightarrow> Inr (-1, s)
      | CM_OTHER \<Rightarrow> Inr (0, s)
      | _ \<Rightarrow> Inr (0, set_k_state c ERROR s))"

text \<open>Whether the event wakes the thread that waits for the connection.\<close>

definition wakes :: "cma_event \<Rightarrow> bool" where
  "wakes e =
     (case e of CM_ADDR_RESOLVED ret \<Rightarrow> ret \<noteq> 0 | CM_DISCONNECTED \<Rightarrow> False | CM_DEVICE_REMOVAL \<Rightarrow> False | _ \<Rightarrow> True)"

text \<open>
  \<^verbatim>\<open>wait_event_interruptible\<close>, with the events that come while the thread waits: the condition is
  looked at before it sleeps and whenever it is woken up.
\<close>

fun wait_loop ::
  "(nat \<Rightarrow> bdev \<Rightarrow> (int \<times> bdev) res) \<Rightarrow> (test_state \<Rightarrow> bool) \<Rightarrow> nat \<Rightarrow> cma_event list \<Rightarrow> bdev \<Rightarrow>
    (cma_event list \<times> bdev) res" where
  "wait_loop mp P c [] s = Inl Diverges"
| "wait_loop mp P c (e # es) s =
     rbind (IS_cma_event_handler mp c e s) (\<lambda>(_, s').
       if wakes e \<and> P (k_state (b_cb_list s' c)) then Inr (es, s') else wait_loop mp P c es s')"

definition wait_state ::
  "(nat \<Rightarrow> bdev \<Rightarrow> (int \<times> bdev) res) \<Rightarrow> (test_state \<Rightarrow> bool) \<Rightarrow> nat \<Rightarrow> cma_event list \<Rightarrow> bdev \<Rightarrow>
    (cma_event list \<times> bdev) res" where
  "wait_state mp P c es s = (if P (k_state (b_cb_list s c)) then Inr (es, s) else wait_loop mp P c es s)"

section \<open>Freeing memory\<close>

definition kfree :: "rsrc \<Rightarrow> rsrc res" where
  "kfree r = (case r of NoRes \<Rightarrow> Inr NoRes | Live \<Rightarrow> Inr Freed | Freed \<Rightarrow> Inl UseAfterFree)"

section \<open>Resources of a connection\<close>

record conn_res =
  cr_pd :: rsrc
  cr_cq :: rsrc
  cr_qp :: rsrc
  cr_mr :: rsrc
  cr_dma :: bool

definition no_res :: conn_res where
  "no_res = \<lparr>cr_pd = NoRes, cr_cq = NoRes, cr_qp = NoRes, cr_mr = NoRes, cr_dma = False\<rparr>"

text \<open>What the calls of the RDMA library return, zero for success.\<close>

record verbs =
  vb_resolve_addr :: int
  vb_alloc_pd :: int
  vb_create_cq :: int
  vb_notify_cq :: int
  vb_create_qp :: int
  vb_dma_mr :: int
  vb_post_recv :: int
  vb_connect :: int

definition IS_create_qp :: "verbs \<Rightarrow> conn_res \<Rightarrow> int \<times> conn_res" where
  "IS_create_qp v r = (vb_create_qp v, if vb_create_qp v = 0 then r\<lparr>cr_qp := Live\<rparr> else r)"

definition IS_setup_qp :: "verbs \<Rightarrow> conn_res \<Rightarrow> int \<times> conn_res" where
  "IS_setup_qp v r =
     (if vb_alloc_pd v \<noteq> 0 then (vb_alloc_pd v, r\<lparr>cr_pd := NoRes\<rparr>)
      else
        let r1 = r\<lparr>cr_pd := Live\<rparr> in
        if vb_create_cq v \<noteq> 0 then (vb_create_cq v, r1\<lparr>cr_cq := NoRes, cr_pd := Freed\<rparr>)
        else
          let r2 = r1\<lparr>cr_cq := Live\<rparr> in
          if vb_notify_cq v \<noteq> 0 then (vb_notify_cq v, r2\<lparr>cr_cq := Freed, cr_pd := Freed\<rparr>)
          else (case IS_create_qp v r2 of (ret, r3) \<Rightarrow>
            if ret \<noteq> 0 then (ret, r3\<lparr>cr_cq := Freed, cr_pd := Freed\<rparr>) else (0, r3)))"

definition IS_free_qp :: "conn_res \<Rightarrow> conn_res res" where
  "IS_free_qp r =
     rbind (put_res (cr_qp r)) (\<lambda>q. rbind (put_res (cr_cq r)) (\<lambda>c. rbind (put_res (cr_pd r)) (\<lambda>p.
       Inr (r\<lparr>cr_qp := q, cr_cq := c, cr_pd := p\<rparr>))))"

text \<open>
  The buffers of the messages are mapped first; when the registration of the memory fails they are not
  unmapped. The other memory regions of the control block are never registered.
\<close>

definition IS_setup_buffers :: "verbs \<Rightarrow> conn_res \<Rightarrow> (int \<times> conn_res) res" where
  "IS_setup_buffers v r =
     rbind (use_res (cr_pd r)) (\<lambda>_.
       let r1 = r\<lparr>cr_dma := True\<rparr> in
       Inr (if vb_dma_mr v \<noteq> 0 then (vb_dma_mr v, r1\<lparr>cr_mr := NoRes\<rparr>) else (0, r1\<lparr>cr_mr := Live\<rparr>)))"

definition IS_free_buffers :: "conn_res \<Rightarrow> conn_res res" where
  "IS_free_buffers r =
     rbind (if cr_mr r = NoRes then Inr NoRes else put_res (cr_mr r)) (\<lambda>mr.
     rbind (use_res (cr_pd r)) (\<lambda>_. Inr (r\<lparr>cr_mr := mr, cr_dma := False\<rparr>)))"

section \<open>Making a connection\<close>

definition IS_bind_client ::
  "(nat \<Rightarrow> bdev \<Rightarrow> (int \<times> bdev) res) \<Rightarrow> verbs \<Rightarrow> nat \<Rightarrow> cma_event list \<Rightarrow> bdev \<Rightarrow> (int \<times> cma_event list \<times> bdev) res" where
  "IS_bind_client mp v c es s =
     (if vb_resolve_addr v \<noteq> 0 then Inr (vb_resolve_addr v, es, s)
      else rbind (wait_state mp (\<lambda>st. ROUTE_RESOLVED \<le> st) c es s) (\<lambda>(es', s').
        Inr (if k_state (b_cb_list s' c) \<noteq> ROUTE_RESOLVED then -4 else 0, es', s')))"

definition IS_connect_client ::
  "(nat \<Rightarrow> bdev \<Rightarrow> (int \<times> bdev) res) \<Rightarrow> verbs \<Rightarrow> nat \<Rightarrow> cma_event list \<Rightarrow> bdev \<Rightarrow> (int \<times> cma_event list \<times> bdev) res" where
  "IS_connect_client mp v c es s =
     (if vb_connect v \<noteq> 0 then Inr (vb_connect v, es, s)
      else rbind (wait_state mp (\<lambda>st. CONNECTED \<le> st) c es s) (\<lambda>(es', s').
        Inr (if k_state (b_cb_list s' c) = ERROR then -1 else 0, es', s')))"

definition rdma_connect_upper ::
  "(nat \<Rightarrow> bdev \<Rightarrow> (int \<times> bdev) res) \<Rightarrow> verbs \<Rightarrow> nat \<Rightarrow> cma_event list \<Rightarrow> conn_res \<Rightarrow> bdev \<Rightarrow>
    (int \<times> cma_event list \<times> conn_res \<times> bdev) res" where
  "rdma_connect_upper mp v c es r s =
     rbind (IS_bind_client mp v c es s) (\<lambda>(ret, es', s').
       if ret \<noteq> 0 then Inr (ret, es', r, s')
       else (case IS_setup_qp v r of (ret1, r1) \<Rightarrow>
         if ret1 \<noteq> 0 then Inr (ret1, es', r1, s')
         else rbind (IS_setup_buffers v r1) (\<lambda>(ret2, r2).
           if ret2 \<noteq> 0 then rbind (IS_free_qp r2) (\<lambda>r3. Inr (ret2, es', r3, s')) else Inr (0, es', r2, s'))))"

text \<open>\<^verbatim>\<open>ib_post_recv\<close> dereferences the pointer to the queue pair.\<close>

definition rdma_connect_down ::
  "(nat \<Rightarrow> bdev \<Rightarrow> (int \<times> bdev) res) \<Rightarrow> verbs \<Rightarrow> nat \<Rightarrow> cma_event list \<Rightarrow> conn_res \<Rightarrow> bdev \<Rightarrow>
    (int \<times> cma_event list \<times> conn_res \<times> bdev) res" where
  "rdma_connect_down mp v c es r s =
     rbind (use_res (cr_qp r)) (\<lambda>_.
       if vb_post_recv v \<noteq> 0 then rbind (IS_free_buffers r) (\<lambda>r'. Inr (vb_post_recv v, es, r', s))
       else rbind (IS_connect_client mp v c es (upd_cb c (\<lambda>k. k\<lparr>k_posted := k_posted k + 1\<rparr>) s)) (\<lambda>(ret, es', s').
         if ret \<noteq> 0 then rbind (IS_free_buffers r) (\<lambda>r'. Inr (ret, es', r', s')) else Inr (0, es', r, s')))"

text \<open>
  The connection as \<^verbatim>\<open>IS_single_chunk_map\<close> makes it, which looks at neither result.
\<close>

definition rdma_connect ::
  "(nat \<Rightarrow> bdev \<Rightarrow> (int \<times> bdev) res) \<Rightarrow> verbs \<Rightarrow> nat \<Rightarrow> cma_event list \<Rightarrow> bdev \<Rightarrow> (cma_event list \<times> conn_res \<times> bdev) res" where
  "rdma_connect mp v c es s =
     rbind (rdma_connect_upper mp v c es no_res s) (\<lambda>(_, es1, r1, s1).
     rbind (rdma_connect_down mp v c es1 r1 s1) (\<lambda>(_, es2, r2, s2). Inr (es2, r2, s2)))"

end
