(* ===== verification/Block_Device.thy ===== *)
theory Block_Device
  imports Block_Portal Block_Connect
begin

text \<open>
  The life of the block device: the queues and disks it registers with the kernel
  (\<^verbatim>\<open>framework/infiniswap_bd/is_mq.c\<close>), its creation and destruction (\<^verbatim>\<open>is_main.c\<close>), and the operations of
  its configuration directory (\<^verbatim>\<open>is_configfs.c\<close>). What the calls of the kernel return is an argument. The kernel is one with multiqueue tag sets (3.16 or later), except for
  \<^verbatim>\<open>IS_alloc_hctx\<close>, which only earlier ones call.
\<close>

section \<open>Calls of the kernel\<close>

text \<open>
  The results of the calls, in the order the code makes them. \<open>kc_register\<close> is \<^verbatim>\<open>register_blkdev\<close>, which
  gets the number that is asked for.
\<close>

record kcalls =
  kc_queues :: bool
  kc_tag_set :: int
  kc_init_queue :: int
  kc_disk_node :: bool
  kc_alloc_queue :: bool
  kc_register :: "int \<Rightarrow> int"
  kc_alloc_disk :: bool
  kc_lookup :: bool
  kc_bdget :: bool
  kc_blkdev_get :: int
  kc_capacity :: "64 word"
  kc_thread :: bool

section \<open>The backup disk\<close>

record stackbd =
  sk_capacity :: "64 word"
  sk_max_sectors :: nat
  sk_gd :: rsrc
  sk_gd_added :: bool
  sk_thread :: rsrc
  sk_is_active :: bool
  sk_bdev_raw :: rsrc
  sk_queue :: rsrc
  sk_major_num :: int
  sk_registered :: bool

definition KERNEL_SECTOR_SIZE :: nat where "KERNEL_SECTOR_SIZE = 512"

definition stackbd_bdev_open :: "kcalls \<Rightarrow> rsrc" where
  "stackbd_bdev_open k =
     (if \<not> kc_lookup k then NoRes
      else if \<not> kc_bdget k then NoRes
      else if kc_blkdev_get k \<noteq> 0 then NoRes
      else Live)"

text \<open>Without a thread the raw disk is put back, and the pointer to it stays.\<close>

definition stackbd_start :: "kcalls \<Rightarrow> nat \<Rightarrow> stackbd \<Rightarrow> int \<times> stackbd" where
  "stackbd_start k sgl sk =
     (let sk1 = sk\<lparr>sk_bdev_raw := stackbd_bdev_open k\<rparr> in
      if sk_bdev_raw sk1 = NoRes then (-14, sk1)
      else
        let sk2 = sk1\<lparr>sk_capacity := kc_capacity k,
              sk_max_sectors := IS_PAGE_SIZE div KERNEL_SECTOR_SIZE * sgl\<rparr> in
        if \<not> kc_thread k then (-14, sk2\<lparr>sk_thread := NoRes, sk_bdev_raw := Freed\<rparr>)
        else (0, sk2\<lparr>sk_thread := Live, sk_is_active := True\<rparr>))"

record hd_geometry =
  geo_heads :: "8 word"
  geo_sectors :: "8 word"
  geo_cylinders :: "16 word"
  geo_start :: "64 word"

definition stackbd_getgeo :: "nat \<Rightarrow> stackbd \<Rightarrow> hd_geometry" where
  "stackbd_getgeo lbs sk =
     (let size = sk_capacity sk * word_of_nat (lbs div KERNEL_SECTOR_SIZE) in
      \<lparr>geo_heads = 4, geo_sectors = 16, geo_cylinders = ucast (drop_bit 6 (and size (not 0x3f))), geo_start = 0\<rparr>)"

section \<open>Queues\<close>

text \<open>
  The loop of \<^verbatim>\<open>IS_alloc_hctx\<close> with \<open>k\<close> rounds left: \<open>n\<close> queues are on the node so far. A division
  by zero is an error.
\<close>

fun hctx_loop :: "nat \<Rightarrow> nat \<Rightarrow> nat \<Rightarrow> nat \<Rightarrow> nat \<Rightarrow> int \<Rightarrow> nat \<Rightarrow> nat res" where
  "hctx_loop hw nodes 0 n node tip b_size = Inr node"
| "hctx_loop hw nodes (Suc k) n node tip b_size =
     (if b_size = 0 then Inl Bug
      else if n mod b_size = 0 then
        (let tip' = tip - 1 in
         hctx_loop hw nodes k 1 (node + 1) tip' (if tip' = 0 then hw div nodes else b_size))
      else hctx_loop hw nodes k (n + 1) node tip b_size)"

text \<open>
  \<open>online\<close> lists the nodes that are online; the walk over them ends at the number of the node, or
  behind the last one with \<open>max_nodes\<close>.
\<close>

definition IS_alloc_hctx :: "nat list \<Rightarrow> nat \<Rightarrow> nat \<Rightarrow> nat \<Rightarrow> nat res" where
  "IS_alloc_hctx online max_nodes hw hctx_index =
     (let nodes = length online in
      rbind (hctx_loop hw nodes hctx_index 1 0 (int (hw mod nodes)) ((hw + nodes - 1) div nodes)) (\<lambda>node.
        Inr (if node < nodes then online ! node else max_nodes)))"

record IS_queue =
  xq_queue_depth :: nat
  xq_conn :: nat

section \<open>Devices\<close>

definition MAX_IS_DEV_NAME :: nat where "MAX_IS_DEV_NAME = 256"

record IS_file =
  f_st_size :: "64 word"
  f_file_name :: string
  f_disk :: rsrc
  f_disk_added :: bool
  f_disk_capacity :: "64 word"
  f_max_sectors :: nat
  f_queue :: rsrc
  f_tag_set :: rsrc
  f_queues :: rsrc
  f_xqs :: "IS_queue arr"
  f_queue_depth :: nat
  f_nr_queues :: nat
  f_index :: int
  f_dev_name :: string
  f_IS_conns :: rsrc
  f_state :: IS_dev_state

definition IS_init_hctx :: "nat \<Rightarrow> IS_file \<Rightarrow> IS_file res" where
  "IS_init_hctx index f =
     rbind (use_res (f_queues f)) (\<lambda>_. rbind (use_res (f_IS_conns f)) (\<lambda>_.
       Inr (f\<lparr>f_xqs := (f_xqs f)(index := \<lparr>xq_queue_depth = f_queue_depth f, xq_conn = index\<rparr>)\<rparr>)))"

definition IS_setup_queues :: "kcalls \<Rightarrow> IS_file \<Rightarrow> int \<times> IS_file" where
  "IS_setup_queues k f =
     (if kc_queues k then (0, f\<lparr>f_queues := Live\<rparr>) else (-12, f\<lparr>f_queues := NoRes\<rparr>))"

definition IS_destroy_queues :: "IS_file \<Rightarrow> IS_file res" where
  "IS_destroy_queues f = rbind (kfree (f_queues f)) (\<lambda>q. Inr (f\<lparr>f_queues := q\<rparr>))"

text \<open>
  The second half of \<^verbatim>\<open>IS_register_block_device\<close>, on the backup disk. When there is no \<^verbatim>\<open>gendisk\<close> for
  it, the jump to the clean up comes before the error is set, and when it cannot be
  started, both disks are added all the same.
\<close>

definition register_stackbd :: "kcalls \<Rightarrow> nat \<Rightarrow> IS_file \<Rightarrow> stackbd \<Rightarrow> int \<times> IS_file \<times> stackbd" where
  "register_stackbd k sgl f sk =
     (if \<not> kc_alloc_queue k then (-14, f, sk\<lparr>sk_queue := NoRes\<rparr>)
      else
        let sk1 = sk\<lparr>sk_queue := Live, sk_major_num := kc_register k (sk_major_num sk)\<rparr> in
        if sk_major_num sk1 < 0 then (-14, f, sk1\<lparr>sk_queue := Freed\<rparr>)
        else if \<not> kc_alloc_disk k then (0, f, sk1\<lparr>sk_gd := NoRes, sk_queue := Freed, sk_registered := False\<rparr>)
        else
          let sk2 = sk1\<lparr>sk_registered := True, sk_gd := Live, sk_gd_added := True\<rparr> in
          (case stackbd_start k sgl sk2 of (ret, sk3) \<Rightarrow>
             (if ret < 0 then -1 else 0, f\<lparr>f_disk_added := True\<rparr>, sk3)))"

definition IS_register_block_device ::
  "kcalls \<Rightarrow> nat \<Rightarrow> nat \<Rightarrow> IS_file \<Rightarrow> stackbd \<Rightarrow> (int \<times> IS_file \<times> stackbd) res" where
  "IS_register_block_device k queues sgl f sk =
     (if kc_tag_set k \<noteq> 0 then Inr (kc_tag_set k, f, sk)
      else if kc_init_queue k \<noteq> 0 then Inr (kc_init_queue k, f\<lparr>f_tag_set := Freed\<rparr>, sk)
      else rbind (rfold IS_init_hctx [0 ..< queues] (f\<lparr>f_tag_set := Live\<rparr>)) (\<lambda>f1.
        if \<not> kc_disk_node k then Inr (-12, f1\<lparr>f_disk := NoRes, f_queue := Freed, f_tag_set := Freed\<rparr>, sk)
        else Inr (register_stackbd k sgl (f1\<lparr>f_queue := Live, f_disk := Live,
               f_max_sectors := 4096 div 2 ^ IS_SECT_SHIFT * sgl,
               f_disk_capacity := drop_bit IS_SECT_SHIFT (f_st_size f1)\<rparr>) sk)))"

definition IS_unregister_block_device :: "IS_file \<Rightarrow> stackbd \<Rightarrow> (IS_file \<times> stackbd) res" where
  "IS_unregister_block_device f sk =
     rbind (use_res (f_disk f)) (\<lambda>_.
     rbind (put_res (f_queue f)) (\<lambda>q.
     rbind (put_res (f_tag_set f)) (\<lambda>t.
     rbind (put_res (f_disk f)) (\<lambda>d.
       let f' = f\<lparr>f_disk_added := False, f_queue := q, f_tag_set := t, f_disk := d\<rparr> in
       rbind (if sk_is_active sk
              then rbind (put_res (sk_thread sk)) (\<lambda>th. rbind (put_res (sk_bdev_raw sk)) (\<lambda>b.
                     Inr (sk\<lparr>sk_thread := th, sk_bdev_raw := b\<rparr>)))
              else Inr sk) (\<lambda>sk1.
       rbind (put_res (sk_gd sk1)) (\<lambda>g.
       rbind (put_res (sk_queue sk1)) (\<lambda>q.
         Inr (f', sk1\<lparr>sk_gd := g, sk_gd_added := False, sk_registered := False, sk_queue := q\<rparr>))))))))"

section \<open>Sessions and the module\<close>

text \<open>\<open>se_portal\<close> is the buffer of the portal, \<open>se_dev\<close> the maps and transfers of the session.\<close>

record IS_session =
  se_portal :: "char list"
  se_portal_list :: "IS_portal list"
  se_IS_conns :: rsrc
  se_devs_list :: "IS_file list"
  se_capacity :: "64 word"
  se_rdma_trigger_thread :: rsrc
  se_triggered :: bool
  se_dev :: bdev

record IS_module =
  m_submit_queues :: nat
  m_sgl :: nat
  m_created_portals :: int
  m_IS_major :: int
  m_IS_indexes :: int
  m_sessions :: "IS_session list"
  m_stackbd :: stackbd
  m_subsys :: bool

definition upd_session :: "nat \<Rightarrow> (IS_session \<Rightarrow> IS_session) \<Rightarrow> IS_module \<Rightarrow> IS_module" where
  "upd_session i g m = m\<lparr>m_sessions := (m_sessions m)[i := g (m_sessions m ! i)]\<rparr>"

definition upd_file :: "nat \<Rightarrow> IS_file \<Rightarrow> IS_session \<Rightarrow> IS_session" where
  "upd_file j f se = se\<lparr>se_devs_list := (se_devs_list se)[j := f]\<rparr>"

definition remove_nth :: "nat \<Rightarrow> 'a list \<Rightarrow> 'a list" where
  "remove_nth j xs = take j xs @ drop (Suc j) xs"

definition IS_file_find :: "IS_session \<Rightarrow> string \<Rightarrow> bool" where
  "IS_file_find se name \<longleftrightarrow> list_ex (\<lambda>f. f_file_name f = name) (se_devs_list se)"

definition IS_session_find_by_portal :: "IS_module \<Rightarrow> string \<Rightarrow> bool res" where
  "IS_session_find_by_portal m rdma =
     rfold (\<lambda>se found. if found then Inr True else rbind (c_str (se_portal se)) (\<lambda>t. Inr (t = rdma)))
       (m_sessions m) False"

definition IS_create_device ::
  "kcalls \<Rightarrow> nat \<Rightarrow> nat \<Rightarrow> string \<Rightarrow> IS_module \<Rightarrow> (int \<times> IS_module) res" where
  "IS_create_device k i j name m =
     (let se = m_sessions m ! i;
          f = (se_devs_list se ! j)\<lparr>f_file_name := name, f_index := m_IS_indexes m, f_nr_queues := m_submit_queues m,
                f_queue_depth := IS_QUEUE_DEPTH, f_IS_conns := se_IS_conns se\<rparr>;
          m1 = m\<lparr>m_IS_indexes := m_IS_indexes m + 1\<rparr> in
      case IS_setup_queues k f of (ret, f1) \<Rightarrow>
        if ret \<noteq> 0 then Inr (ret, upd_session i (upd_file j f1) m1)
        else rbind (IS_register_block_device k (m_submit_queues m) (m_sgl m) (f1\<lparr>f_st_size := se_capacity se\<rparr>) (m_stackbd m))
          (\<lambda>(ret, f2, sk).
             let m2 = m1\<lparr>m_stackbd := sk\<rparr> in
             if ret \<noteq> 0 then rbind (IS_destroy_queues f2) (\<lambda>f3. Inr (ret, upd_session i (upd_file j f3) m2))
             else rbind (use_res (se_rdma_trigger_thread se)) (\<lambda>_.
               Inr (0, upd_session i (\<lambda>se. (upd_file j (f2\<lparr>f_state := snd (IS_set_device_state (f_state f2) DEVICE_RUNNING)\<rparr>) se)
                          \<lparr>se_triggered := True\<rparr>) m2))))"

text \<open>The device is taken off its list at the end, here by the callers.\<close>

definition IS_destroy_device :: "IS_file \<Rightarrow> stackbd \<Rightarrow> (IS_file \<times> stackbd) res" where
  "IS_destroy_device f sk =
     (let f1 = f\<lparr>f_state := snd (IS_set_device_state (f_state f) DEVICE_OFFLINE)\<rparr> in
      if f_disk f1 \<noteq> NoRes
      then rbind (IS_unregister_block_device f1 sk) (\<lambda>(f2, sk'). rbind (IS_destroy_queues f2) (\<lambda>f3. Inr (f3, sk')))
      else Inr (f1, sk))"

definition IS_destroy_session_devices :: "IS_session \<Rightarrow> stackbd \<Rightarrow> stackbd res" where
  "IS_destroy_session_devices se sk =
     rfold (\<lambda>f sk. rbind (IS_destroy_device f sk) (\<lambda>(_, sk'). Inr sk')) (se_devs_list se) sk"

definition IS_session_destroy :: "nat \<Rightarrow> IS_module \<Rightarrow> IS_module res" where
  "IS_session_destroy i m =
     rbind (IS_destroy_session_devices (m_sessions m ! i) (m_stackbd m)) (\<lambda>sk.
       Inr (m\<lparr>m_sessions := remove_nth i (m_sessions m), m_stackbd := sk\<rparr>))"

section \<open>The configuration directory\<close>

text \<open>\<^verbatim>\<open>sscanf\<close> of one \<^verbatim>\<open>%s\<close>: the first word, if there is one.\<close>

definition first_word :: "string \<Rightarrow> string option" where
  "first_word t =
     (let w = takeWhile (\<lambda>c. \<not> is_space c) (dropWhile is_space t) in if w = [] then None else Some w)"

definition device_attr_store ::
  "kcalls \<Rightarrow> nat \<Rightarrow> nat \<Rightarrow> string \<Rightarrow> IS_module \<Rightarrow> (int \<times> IS_module) res" where
  "device_attr_store k i j page m =
     rbind (init_var (first_word page)) (\<lambda>w.
     rbind (copy_str MAX_IS_DEV_NAME w) (\<lambda>name.
       if IS_file_find (m_sessions m ! i) name then Inr (-17, m)
       else rbind (IS_create_device k i j name m) (\<lambda>(ret, m').
         Inr (if ret \<noteq> 0 then ret else int (length page), m'))))"

definition state_attr_show :: "IS_file \<Rightarrow> int \<times> string" where
  "state_attr_show f = (let t = IS_device_state_str (f_state f) @ [CHR 0x0A] in (int (length t), t))"

definition zero_file :: IS_file where
  "zero_file = \<lparr>f_st_size = 0, f_file_name = '''', f_disk = NoRes, f_disk_added = False, f_disk_capacity = 0,
     f_max_sectors = 0, f_queue = NoRes, f_tag_set = NoRes, f_queues = NoRes,
     f_xqs = (\<lambda>_. \<lparr>xq_queue_depth = 0, xq_conn = 0\<rparr>), f_queue_depth = 0, f_nr_queues = 0, f_index = 0, f_dev_name = '''',
     f_IS_conns = NoRes, f_state = DEVICE_INITIALIZING\<rparr>"

text \<open>\<open>ok\<close> tells whether there is memory for the device; the result whether there is a group.\<close>

definition IS_device_make_group :: "bool \<Rightarrow> nat \<Rightarrow> string \<Rightarrow> IS_module \<Rightarrow> (bool \<times> IS_module) res" where
  "IS_device_make_group ok i name m =
     (if \<not> ok then Inr (False, m)
      else (case IS_set_device_state (f_state zero_file) DEVICE_OPENNING of (ret, st) \<Rightarrow>
        if ret \<noteq> 0 then Inr (False, m)
        else rbind (copy_str MAX_IS_DEV_NAME (case first_word name of None \<Rightarrow> '''' | Some w \<Rightarrow> w)) (\<lambda>w.
          Inr (True, upd_session i (\<lambda>se. se\<lparr>se_devs_list := zero_file\<lparr>f_state := st, f_dev_name := w\<rparr> # se_devs_list se\<rparr>) m))))"

definition IS_device_drop :: "nat \<Rightarrow> nat \<Rightarrow> IS_module \<Rightarrow> IS_module res" where
  "IS_device_drop i j m =
     rbind (IS_destroy_device (se_devs_list (m_sessions m ! i) ! j) (m_stackbd m)) (\<lambda>(_, sk).
       Inr (upd_session i (\<lambda>se. se\<lparr>se_devs_list := remove_nth j (se_devs_list se)\<rparr>) (m\<lparr>m_stackbd := sk\<rparr>)))"

text \<open>
  \<open>arr\<close> and \<open>conn\<close> say which allocations of \<^verbatim>\<open>IS_session_create\<close> succeed. The number of servers is
  kept in a variable of the module, which is the one of this session here.
\<close>

definition portal_attr_store ::
  "bool \<Rightarrow> (nat \<Rightarrow> bool) \<Rightarrow> nat \<Rightarrow> string \<Rightarrow> IS_module \<Rightarrow> (int \<times> IS_module) res" where
  "portal_attr_store arr conn i buf m =
     rbind (copy_str MAX_PORTAL_NAME (''rdma://'' @ buf)) (\<lambda>t.
       let rdma = takeWhile (\<lambda>c. \<not> is_space c) t in
       rbind (IS_session_find_by_portal m rdma) (\<lambda>found.
         if found then Inr (-17, m)
         else rbind (IS_session_create arr conn rdma (se_portal (m_sessions m ! i)) (se_dev (m_sessions m ! i)))
           (\<lambda>(ret, ps, buf', d).
             let m' = upd_session i (\<lambda>se. se\<lparr>se_portal := buf', se_portal_list := ps, se_dev := d,
                        se_capacity := word_of_nat STACKBD_SIZE_G * 2 ^ ONE_GB_SHIFT,
                        se_IS_conns := (if \<not> arr then NoRes else if ret \<noteq> 0 then Freed else Live),
                        se_rdma_trigger_thread := (if ret \<noteq> 0 then se_rdma_trigger_thread se else Live)\<rparr>) m in
             Inr (if ret \<noteq> 0 then -22 else int (length buf), m'))))"

definition zero_bdev :: "nat \<Rightarrow> nat \<Rightarrow> bdev" where
  "zero_bdev queues sgl = \<lparr>b_sgl = sgl, b_queues = queues, b_cb_num = 0, b_cb_list = (\<lambda>_. zero_cb),
     b_cb_state_list = (\<lambda>_. CB_IDLE), b_mapped_cb_num = 0, b_cb_index_map = (\<lambda>_. 0), b_chunk_map_cb_chunk = (\<lambda>_. 0),
     b_unmapped_chunk_list = (\<lambda>_. 0), b_free_chunk_index = 0, b_rdma_on = False, b_trigger_enable = False,
     b_write_ops = (\<lambda>_. 0), b_read_ops = (\<lambda>_. 0), b_last_ops = (\<lambda>_. 0), b_pools = (\<lambda>_ _. None),
     b_bufs = (\<lambda>_ _. zero_page), b_wrs = (\<lambda>_. []), b_bdev_raw = False, b_is_active = False, b_bio_list = [],
     b_raw_bios = [], b_ended = [], b_rbuf = (\<lambda>_. zero_page), b_preempt = 0\<rparr>"

definition zero_session :: "nat \<Rightarrow> nat \<Rightarrow> IS_session" where
  "zero_session queues sgl = \<lparr>se_portal = replicate MAX_PORTAL_NAME (CHR 0x00), se_portal_list = [], se_IS_conns = NoRes,
     se_devs_list = [], se_capacity = 0, se_rdma_trigger_thread = NoRes, se_triggered = False,
     se_dev = zero_bdev queues sgl\<rparr>"

definition IS_session_make_group :: "bool \<Rightarrow> IS_module \<Rightarrow> bool \<times> IS_module" where
  "IS_session_make_group ok m =
     (if \<not> ok then (False, m)
      else (True, m\<lparr>m_sessions := zero_session (m_submit_queues m) (m_sgl m) # m_sessions m,
                    m_created_portals := m_created_portals m + 1\<rparr>))"

definition IS_session_drop :: "nat \<Rightarrow> IS_module \<Rightarrow> IS_module res" where
  "IS_session_drop i m = IS_session_destroy i m"

section \<open>Loading and unloading\<close>

definition IS_create_configfs_files :: "int \<Rightarrow> IS_module \<Rightarrow> int \<times> IS_module" where
  "IS_create_configfs_files err m = (err, if err = 0 then m\<lparr>m_subsys := True\<rparr> else m)"

definition IS_init_module :: "int \<Rightarrow> nat \<Rightarrow> int \<Rightarrow> IS_module \<Rightarrow> int \<times> IS_module" where
  "IS_init_module err cpus major m =
     (case IS_create_configfs_files err m of (ret, m1) \<Rightarrow>
        if ret \<noteq> 0 then (1, m1)
        else
          let m2 = m1\<lparr>m_submit_queues := cpus, m_IS_major := major\<rparr> in
          if major < 0 then (major, m2) else (0, m2\<lparr>m_sessions := []\<rparr>))"

definition IS_cleanup_module :: "IS_module \<Rightarrow> IS_module res" where
  "IS_cleanup_module m =
     rbind (rfold (\<lambda>_ m. IS_session_destroy 0 m) (m_sessions m) m) (\<lambda>m'. Inr (m'\<lparr>m_subsys := False\<rparr>))"

text \<open>The session as the driver works with it: whether the backup disk is ready is in \<^verbatim>\<open>stackbd\<close>.\<close>

definition session_view :: "nat \<Rightarrow> IS_module \<Rightarrow> bdev" where
  "session_view i m = (se_dev (m_sessions m ! i))\<lparr>b_bdev_raw := sk_bdev_raw (m_stackbd m) \<noteq> NoRes,
     b_is_active := sk_is_active (m_stackbd m)\<rparr>"

end
