(* ===== verification/Block_Setup_Props.thy ===== *)
theory Block_Setup_Props
  imports Block_Device Block_System
begin

text \<open>
  Properties of the set up of the block device: the text of the portal is read back, a session
  with its device starts in the state from which the driver runs, devices are removed without a
  trace when they were made completely, and only then, queues are spread evenly over
  the nodes, and what a connection that fails leaves behind.
\<close>

section \<open>Notions of the statements\<close>

text \<open>The line that is written into the attribute of the portal, without the prefix.\<close>

definition portal_line :: "IS_portal list \<Rightarrow> string" where
  "portal_line ps = sep_by (CHR '','') (print_nat (length ps) # map portal_entry ps)"

definition writable_portals :: "IS_portal list \<Rightarrow> bool" where
  "writable_portals ps \<longleftrightarrow> (\<forall>p \<in> set ps. good_portal p \<and> (\<forall>c \<in> set (po_addr p). \<not> is_space c)) \<and>
     length (portal_text ps) + 1 < MAX_PORTAL_NAME"

definition disk_allocated :: "kcalls \<Rightarrow> bool" where
  "disk_allocated k \<longleftrightarrow> kc_queues k \<and> kc_tag_set k = 0 \<and> kc_init_queue k = 0 \<and> kc_disk_node k"

definition backup_started :: "kcalls \<Rightarrow> stackbd \<Rightarrow> bool" where
  "backup_started k sk \<longleftrightarrow> kc_alloc_queue k \<and> 0 \<le> kc_register k (sk_major_num sk) \<and> kc_alloc_disk k \<and>
     kc_lookup k \<and> kc_bdget k \<and> kc_blkdev_get k = 0 \<and> kc_thread k"

text \<open>The session has its portal, the device was not created yet.\<close>

definition creatable :: "nat \<Rightarrow> nat \<Rightarrow> IS_module \<Rightarrow> bool" where
  "creatable i j m \<longleftrightarrow> i < length (m_sessions m) \<and> j < length (se_devs_list (m_sessions m ! i)) \<and>
     se_IS_conns (m_sessions m ! i) = Live \<and> se_rdma_trigger_thread (m_sessions m ! i) = Live \<and>
     f_disk (se_devs_list (m_sessions m ! i) ! j) = NoRes"

text \<open>A session is made, its portal is written, a device is made, and its name is written.\<close>

definition set_up ::
  "(nat \<Rightarrow> bool) \<Rightarrow> kcalls \<Rightarrow> string \<Rightarrow> string \<Rightarrow> string \<Rightarrow> IS_module \<Rightarrow> (int \<times> int \<times> IS_module) res" where
  "set_up conn k line dname page m =
     rbind (portal_attr_store True conn 0 line (snd (IS_session_make_group True m))) (\<lambda>(r1, m1).
     rbind (IS_device_make_group True 0 dname m1) (\<lambda>(_, m2).
     rbind (device_attr_store k 0 0 page m2) (\<lambda>(r2, m3). Inr (r1, r2, m3))))"

section \<open>Spreading the queues\<close>

lemma hctx_loop_node:
  assumes "0 < N" and q: "q = hw div N" and r: "r = hw mod N"
    and "1 \<le> n" "n \<le> q + (if x < r then 1 else 0)"
    and "b = q + (if x < r then 1 else 0)" "x * q + min x r + (n - 1) + k < hw"
  shows "\<exists>y. hctx_loop hw N k n x (int r - int x) b = Inr y \<and>
    y * q + min y r \<le> x * q + min x r + (n - 1) + k \<and> x * q + min x r + (n - 1) + k < (y + 1) * q + min (y + 1) r"
  using assms(4-)
proof (induction k arbitrary: n x b)
  case 0
  then show ?case by (auto simp: algebra_simps min_def split: if_splits)
next
  case (Suc k)
  have hw: "hw = N * q + r" using q r by simp
  show ?case
  proof (cases "n = b")
    case True
    let ?b = "q + (if x + 1 < r then 1 else 0)"
    have q1: "x * q + min x r + n = (x + 1) * q + min (x + 1) r" using True Suc.prems(3) by (auto simp: algebra_simps)
    have pos: "1 \<le> ?b"
    proof (rule ccontr)
      assume "\<not> 1 \<le> ?b"
      then have "q = 0" "r \<le> x + 1" by (auto split: if_splits)
      then show False using Suc.prems q1 hw by simp
    qed
    have tip: "(if int r - int x - 1 = 0 then hw div N else b) = ?b" using Suc.prems(3) q by auto
    have "\<exists>y. hctx_loop hw N k 1 (x + 1) (int r - int (x + 1)) ?b = Inr y \<and>
      y * q + min y r \<le> (x + 1) * q + min (x + 1) r + (1 - 1) + k \<and> (x + 1) * q + min (x + 1) r + (1 - 1) + k < (y + 1) * q + min (y + 1) r"
      by (rule Suc.IH) (use pos Suc.prems q1 in auto)
    moreover have "(x + 1) * q + min (x + 1) r + (1 - 1) + k = x * q + min x r + (n - 1) + Suc k"
      using q1 Suc.prems(1) by simp
    moreover have "hctx_loop hw N (Suc k) n x (int r - int x) b = hctx_loop hw N k 1 (x + 1) (int r - int (x + 1)) ?b"
      using True tip Suc.prems(1) by (simp add: Let_def algebra_simps)
    ultimately show ?thesis by (simp only:)
  next
    case False
    then have "n < b" using Suc.prems by simp
    then have "hctx_loop hw N (Suc k) n x (int r - int x) b = hctx_loop hw N k (n + 1) x (int r - int x) b" "b \<noteq> 0"
      using Suc.prems(1) by auto
    moreover have "\<exists>y. hctx_loop hw N k (n + 1) x (int r - int x) b = Inr y \<and>
      y * q + min y r \<le> x * q + min x r + (n + 1 - 1) + k \<and> x * q + min x r + (n + 1 - 1) + k < (y + 1) * q + min (y + 1) r"
      by (rule Suc.IH) (use \<open>n < b\<close> Suc.prems in auto)
    ultimately show ?thesis using Suc.prems(1) by simp
  qed
qed

lemma ceil_div: "0 < (N :: nat) \<Longrightarrow> (hw + N - 1) div N = hw div N + (if 0 < hw mod N then 1 else 0)"
proof -
  assume N: "0 < N"
  let ?q = "hw div N" and ?r = "hw mod N"
  have e: "hw + N - 1 = N * ?q + (?r + (N - 1))" using N mult_div_mod_eq [of N hw] by simp
  have "(r + (N - 1)) div N = (if 0 < r then 1 else 0)" if "r < N" for r
    using that N div_nat_eqI [of N 1 "r + (N - 1)"] by auto
  moreover have "(hw + N - 1) div N = ?q + (?r + (N - 1)) div N" by (subst e, rule div_mult_self4) (use N in simp)
  ultimately show ?thesis using N by simp
qed

text \<open>
  C35. The hardware queues are spread over the nodes that are online in blocks of consecutive
  queues, where the first nodes have one queue more when the number does not divide evenly.
\<close>

theorem queues_spread_evenly:
  assumes "online \<noteq> []" "i < hw"
  defines "q \<equiv> hw div length online" and "r \<equiv> hw mod length online"
  shows "\<exists>x < length online. IS_alloc_hctx online mx hw i = Inr (online ! x) \<and>
    x * q + min x r \<le> i \<and> i < (x + 1) * q + min (x + 1) r"
proof -
  let ?N = "length online"
  have N: "0 < ?N" using assms(1) by simp
  have hw: "hw = ?N * q + r" "r < ?N" using N by (simp_all add: q_def r_def)
  have pos: "1 \<le> q + (if 0 < r then 1 else 0)" using assms(2) hw(1) by (cases q) auto
  have "\<exists>y. hctx_loop hw ?N i 1 0 (int r - int 0) (q + (if 0 < r then 1 else 0)) = Inr y \<and>
      y * q + min y r \<le> 0 * q + min 0 r + (1 - 1) + i \<and> 0 * q + min 0 r + (1 - 1) + i < (y + 1) * q + min (y + 1) r"
    by (rule hctx_loop_node [OF N]) (use pos assms(2) in \<open>auto simp: q_def r_def\<close>)
  then obtain y where y: "hctx_loop hw ?N i 1 0 (int r) (q + (if 0 < r then 1 else 0)) = Inr y"
      "y * q + min y r \<le> i" "i < (y + 1) * q + min (y + 1) r" by auto
  have "y < ?N"
  proof (rule ccontr)
    assume "\<not> y < ?N"
    then have "?N * q \<le> y * q" "min y r = r" using hw(2) by auto
    then show False using y(2) assms(2) hw(1) by linarith
  qed
  moreover have "IS_alloc_hctx online mx hw i = Inr (online ! y)"
    using y(1) ceil_div [OF N, of hw] \<open>y < ?N\<close> by (simp add: IS_alloc_hctx_def Let_def flip: q_def r_def)
  ultimately show ?thesis using y by blast
qed

section \<open>Portals\<close>

lemma portal_text_line: "portal_text ps = ''rdma://'' @ portal_line ps"
  by (simp add: portal_text_def portal_line_def)

lemma length_sep_by: "length xs \<le> Suc (length (sep_by c xs))"
  by (induction c xs rule: sep_by.induct) simp_all

lemma sep_by_chars: "d \<in> set (sep_by c xs) \<Longrightarrow> d = c \<or> (\<exists>x \<in> set xs. d \<in> set x)"
  by (induction c xs rule: sep_by.induct) auto

lemma portals_few: "length ps \<le> length (portal_text ps)"
  using length_sep_by [of "print_nat (length ps) # map portal_entry ps" "CHR '',''"] by (simp add: portal_text_def)

lemma print_nat_no_space: "c \<in> set (print_nat n) \<Longrightarrow> \<not> is_space c"
  using print_nat_digits [of c n] digit_not_space by auto

lemma portal_no_space:
  assumes "writable_portals ps" "c \<in> set (portal_text ps)"
  shows "\<not> is_space c"
proof -
  have "\<not> is_space d" if "d \<in> set (portal_entry p)" "p \<in> set ps" for d p
    using that assms(1) print_nat_no_space by (auto simp: portal_entry_def writable_portals_def is_space_def)
  then have "\<not> is_space d" if "d \<in> set (portal_line ps)" for d
    using sep_by_chars [OF that [unfolded portal_line_def]] print_nat_no_space by (auto simp: is_space_def)
  then show ?thesis using assms(2) by (auto simp: portal_text_line is_space_def)
qed

lemma create_conns_ok:
  "(\<And>q. conn q) \<Longrightarrow> create_conns conn is s = (0, s\<lparr>b_pools := (\<lambda>n. if n \<in> set is then (\<lambda>_. None) else b_pools s n)\<rparr>)"
  by (induction "is" arbitrary: s) (auto simp: IS_create_conn_def fun_eq_iff intro!: bdev.fold_congs)

text \<open>The maps of a session after a successful start.\<close>

definition new_maps :: "nat \<Rightarrow> bdev \<Rightarrow> bdev" where
  "new_maps n s = (init_maps n s)\<lparr>b_pools := (\<lambda>q. if q < b_queues s then (\<lambda>_. None) else b_pools s q), b_rdma_on := False\<rparr>"

lemma session_create_ok:
  assumes "writable_portals ps" "\<And>q. conn q"
  shows "IS_session_create True conn (portal_text ps) (replicate MAX_PORTAL_NAME (CHR 0x00)) s =
    Inr (0, ps, portal_left ps @ replicate (MAX_PORTAL_NAME - length (portal_text ps)) (CHR 0x00), new_maps (length ps) s)"
proof -
  let ?t = "portal_text ps" and ?z = "CHR 0x00"
  have len: "length ?t < MAX_PORTAL_NAME" "\<forall>p \<in> set ps. good_portal p"
    using assms(1) by (simp_all add: writable_portals_def)
  then obtain n where n: "MAX_PORTAL_NAME - length ?t = Suc n" by (cases "MAX_PORTAL_NAME - length ?t") auto
  have "length ps < 2 ^ 31" using portals_few [of ps] len(1) by (simp add: MAX_PORTAL_NAME_def)
  then have "portal_parser (?t @ ?z # replicate n ?z) = Inr (ps, portal_left ps @ ?z # replicate n ?z)"
    by (rule portal_parser_print [OF len(2)])
  then show ?thesis
    using len(1) n by (simp add: IS_session_create_def create_conns_ok [OF assms(2)] new_maps_def init_maps_def Let_def cong: if_cong)
qed

lemma find_found: "rfold (\<lambda>se found. if found then Inr True else rbind (c_str (se_portal se)) (\<lambda>u. Inr (u = t))) ses True = Inr True"
  by (induction ses) simp_all

lemma find_none:
  "rfold (\<lambda>se found. if found then Inr True else rbind (c_str (se_portal se)) (\<lambda>u. Inr (u = t))) ses False = Inr False \<longleftrightarrow>
    (\<forall>se \<in> set ses. \<exists>u. c_str (se_portal se) = Inr u \<and> u \<noteq> t)"
proof (induction ses)
  case (Cons se ses)
  show ?case
  proof (cases "c_str (se_portal se)")
    case (Inr u)
    then show ?thesis using Cons.IH by (cases "u = t") (simp_all add: find_found)
  qed simp
qed simp

lemma no_such_portal:
  "IS_session_find_by_portal m t = Inr False \<longleftrightarrow> (\<forall>se \<in> set (m_sessions m). \<exists>u. c_str (se_portal se) = Inr u \<and> u \<noteq> t)"
  by (simp add: IS_session_find_by_portal_def find_none)

definition with_portal :: "nat \<Rightarrow> IS_portal list \<Rightarrow> IS_module \<Rightarrow> IS_module" where
  "with_portal i ps m = upd_session i (\<lambda>se. se\<lparr>se_portal := portal_left ps @ replicate (MAX_PORTAL_NAME - length (portal_text ps)) (CHR 0x00),
     se_portal_list := ps, se_dev := new_maps (length ps) (se_dev se), se_capacity := 12 * 2 ^ 30, se_IS_conns := Live,
     se_rdma_trigger_thread := Live\<rparr>) m"

lemma portal_store_ok:
  assumes "writable_portals ps" "\<And>q. conn q" "IS_session_find_by_portal m (portal_text ps) = Inr False"
    and "se_portal (m_sessions m ! i) = replicate MAX_PORTAL_NAME (CHR 0x00)"
  shows "portal_attr_store True conn i (portal_line ps @ [CHR 0x0A]) m =
    Inr (int (length (portal_line ps)) + 1, with_portal i ps m)"
proof -
  have "takeWhile (\<lambda>c. \<not> is_space c) (portal_text ps @ CHR 0x0A # []) = portal_text ps"
    by (rule takeWhile_stop) (use portal_no_space [OF assms(1)] in \<open>auto simp: is_space_def\<close>)
  then have t: "takeWhile (\<lambda>c. \<not> is_space c) (''rdma://'' @ portal_line ps @ [CHR 0x0A]) = portal_text ps"
    by (simp only: portal_text_line append_assoc)
  have c: "copy_str MAX_PORTAL_NAME (''rdma://'' @ portal_line ps @ [CHR 0x0A]) = Inr (''rdma://'' @ portal_line ps @ [CHR 0x0A])"
    using assms(1) by (simp add: copy_str_def writable_portals_def portal_text_line)
  show ?thesis
    unfolding portal_attr_store_def c rbind_simps Let_def t assms(3,4) session_create_ok [OF assms(1,2)]
    by (simp add: with_portal_def upd_session_def STACKBD_SIZE_G_def ONE_GB_SHIFT_def)
qed

text \<open>
  C28. What is written into the attribute of the portal is read back: the session has the servers of the
  line, and an entry without address for each of them.
\<close>

theorem portals_parsed:
  assumes "i < length (m_sessions m)" "se_portal (m_sessions m ! i) = replicate MAX_PORTAL_NAME (CHR 0x00)"
    and "IS_session_find_by_portal m (portal_text ps) = Inr False" "writable_portals ps" "\<And>q. conn q"
  shows "\<exists>m'. portal_attr_store True conn i (portal_line ps @ [CHR 0x0A]) m = Inr (int (length (portal_line ps)) + 1, m') \<and>
    se_portal_list (m_sessions m' ! i) = ps \<and> b_cb_num (session_view i m') = length ps"
  using portal_store_ok [OF assms(4,5,3,2)] assms(1)
  by (simp add: with_portal_def upd_session_def session_view_def new_maps_def init_maps_def)

text \<open>
  The parser overwrites the commas of the portal that is kept for the comparison, so a
  portal that names a server is not found when it is written again.
\<close>

theorem portal_written_twice:
  assumes "i < length (m_sessions m)" "se_portal (m_sessions m ! i) = replicate MAX_PORTAL_NAME (CHR 0x00)"
    and "IS_session_find_by_portal m (portal_text ps) = Inr False" "writable_portals ps" "\<And>q. conn q" "ps \<noteq> []"
  shows "\<exists>m'. portal_attr_store True conn i (portal_line ps @ [CHR 0x0A]) m = Inr (int (length (portal_line ps)) + 1, m') \<and>
    IS_session_find_by_portal m' (portal_text ps) = Inr False"
proof -
  let ?n = "print_nat (length ps)" and ?z = "CHR 0x00"
  obtain rest where left: "portal_left ps = (''rdma://'' @ ?n) @ ?z # rest" "portal_text ps \<noteq> ''rdma://'' @ ?n"
    using assms(6) by (cases ps) (auto simp: portal_left_def portal_text_def)
  have "c \<noteq> ?z" if "c \<in> set (''rdma://'' @ ?n)" for c using that print_nat_char [of c "length ps"] by auto
  then have "takeWhile (\<lambda>c. c \<noteq> ?z) ((''rdma://'' @ ?n) @ ?z # rest @ zs) = ''rdma://'' @ ?n" for zs
    by (rule takeWhile_stop) (simp_all only: simp_thms)
  then have "c_str (portal_left ps @ zs) = Inr (''rdma://'' @ ?n)" for zs by (simp add: c_str_def left(1))
  then have "\<forall>se \<in> set (m_sessions (with_portal i ps m)). \<exists>u. c_str (se_portal se) = Inr u \<and> u \<noteq> portal_text ps"
    using assms(3) left(2) set_update_subset_insert [of "m_sessions m" i]
    by (fastforce simp: no_such_portal with_portal_def upd_session_def)
  then show ?thesis using portal_store_ok [OF assms(4,5,3,2)] by (simp add: no_such_portal)
qed

section \<open>Devices\<close>

lemmas res_defs = use_res_def put_res_def kfree_def

lemma init_hctx_all:
  assumes "f_queues f = Live" "f_IS_conns f = Live"
  shows "rfold IS_init_hctx [0 ..< n] f = Inr (f\<lparr>f_xqs := (\<lambda>q. if q < n then \<lparr>xq_queue_depth = f_queue_depth f, xq_conn = q\<rparr> else f_xqs f q)\<rparr>)"
  using assms
proof (induction n)
  case (Suc n)
  then show ?case by (simp add: rfold_append IS_init_hctx_def res_defs fun_eq_iff)
qed simp

lemma register_ok:
  assumes "disk_allocated k" "f_queues f = Live" "f_IS_conns f = Live"
  shows "IS_register_block_device k n sgl f sk = Inr (register_stackbd k sgl
    (f\<lparr>f_tag_set := Live, f_xqs := (\<lambda>q. if q < n then \<lparr>xq_queue_depth = f_queue_depth f, xq_conn = q\<rparr> else f_xqs f q),
       f_queue := Live, f_disk := Live, f_max_sectors := 8 * sgl,
       f_disk_capacity := drop_bit 9 (f_st_size f)\<rparr>) sk)"
  using assms by (simp add: IS_register_block_device_def disk_allocated_def init_hctx_all IS_SECT_SHIFT_def cong: if_cong)

text \<open>The device that \<^verbatim>\<open>IS_create_device\<close> registers when its queues could be allocated.\<close>

definition new_file :: "nat \<Rightarrow> nat \<Rightarrow> string \<Rightarrow> IS_module \<Rightarrow> IS_file" where
  "new_file i j name m = (se_devs_list (m_sessions m ! i) ! j)\<lparr>f_file_name := name, f_index := m_IS_indexes m,
     f_nr_queues := m_submit_queues m, f_queue_depth := IS_QUEUE_DEPTH, f_IS_conns := Live, f_queues := Live,
     f_st_size := se_capacity (m_sessions m ! i), f_tag_set := Live,
     f_xqs := (\<lambda>q. if q < m_submit_queues m then \<lparr>xq_queue_depth = IS_QUEUE_DEPTH, xq_conn = q\<rparr>
        else f_xqs (se_devs_list (m_sessions m ! i) ! j) q),
     f_queue := Live, f_disk := Live, f_max_sectors := 8 * m_sgl m,
     f_disk_capacity := drop_bit 9 (se_capacity (m_sessions m ! i))\<rparr>"

definition started_stackbd :: "kcalls \<Rightarrow> nat \<Rightarrow> stackbd \<Rightarrow> stackbd" where
  "started_stackbd k sgl sk = sk\<lparr>sk_queue := Live, sk_major_num := kc_register k (sk_major_num sk), sk_registered := True,
     sk_gd := Live, sk_gd_added := True, sk_bdev_raw := Live, sk_capacity := kc_capacity k, sk_max_sectors := 8 * sgl,
     sk_thread := Live, sk_is_active := True\<rparr>"

lemma register_stackbd_ok:
  "backup_started k sk \<Longrightarrow> register_stackbd k sgl f sk = (0, f\<lparr>f_disk_added := True\<rparr>, started_stackbd k sgl sk)"
  by (simp add: register_stackbd_def backup_started_def stackbd_start_def stackbd_bdev_open_def Let_def
      started_stackbd_def IS_PAGE_SIZE_def KERNEL_SECTOR_SIZE_def)

lemma create_device_ok:
  assumes "creatable i j m" "disk_allocated k" "backup_started k (m_stackbd m)"
  shows "IS_create_device k i j name m =
    Inr (0, upd_session i (\<lambda>se. (upd_file j ((new_file i j name m)\<lparr>f_disk_added := True, f_state := DEVICE_RUNNING\<rparr>) se)\<lparr>se_triggered := True\<rparr>)
      (m\<lparr>m_IS_indexes := m_IS_indexes m + 1, m_stackbd := started_stackbd k (m_sgl m) (m_stackbd m)\<rparr>))"
proof -
  have "kc_queues k" using assms(2) by (simp add: disk_allocated_def)
  then show ?thesis
    using assms(1) by (simp add: IS_create_device_def creatable_def IS_setup_queues_def Let_def register_ok [OF assms(2)]
        register_stackbd_ok [OF assms(3)] res_defs new_file_def IS_set_device_state_def cong: if_cong)
qed

lemma register_stackbd_fail:
  "\<not> backup_started k sk \<Longrightarrow> register_stackbd k sgl f sk = (ret, f', sk') \<Longrightarrow>
    f_disk f' = f_disk f \<and> f_queues f' = f_queues f \<and> (ret \<noteq> 0 \<or> sk_gd sk' = NoRes)"
  by (auto simp: register_stackbd_def backup_started_def stackbd_start_def stackbd_bdev_open_def Let_def split: if_splits)

lemma unregister_no_gd: "sk_gd sk = NoRes \<Longrightarrow> \<exists>e. IS_unregister_block_device f sk = Inl e"
  by (cases "f_disk f"; cases "f_queue f"; cases "f_tag_set f"; cases "sk_thread sk"; cases "sk_bdev_raw sk")
    (simp_all add: IS_unregister_block_device_def res_defs Let_def)

lemma unregister_queues: "IS_unregister_block_device f sk = Inr (f', sk') \<Longrightarrow> f_queues f' = f_queues f"
  by (auto simp: IS_unregister_block_device_def rbind_eq_Inr Let_def)

lemma destroy_device_fails:
  assumes "f_disk f \<noteq> NoRes" "f_queues f = Freed \<or> sk_gd sk = NoRes"
  shows "\<exists>e. IS_destroy_device f sk = Inl e"
proof -
  let ?f = "f\<lparr>f_state := snd (IS_set_device_state (f_state f) DEVICE_OFFLINE)\<rparr>"
  show ?thesis
  proof (cases "IS_unregister_block_device ?f sk")
    case (Inr x)
    then obtain f' sk' where u: "IS_unregister_block_device ?f sk = Inr (f', sk')" by (cases x) auto
    then have "f_queues f' = Freed" using assms(2) unregister_no_gd [of sk ?f] unregister_queues [OF u] by auto
    then show ?thesis using assms(1) u by (simp add: IS_destroy_device_def Let_def IS_destroy_queues_def res_defs)
  qed (use assms(1) in \<open>simp add: IS_destroy_device_def Let_def\<close>)
qed

lemma drop_device_fails:
  assumes "i < length (m_sessions m)" "j < length (se_devs_list (m_sessions m ! i))"
    and "f_disk f \<noteq> NoRes" "f_queues f = Freed \<or> sk_gd (m_stackbd m) = NoRes"
    and "\<And>se. se_devs_list (g se) = se_devs_list (upd_file j f se)"
  shows "\<exists>e. IS_device_drop i j (upd_session i g m) = Inl e"
  using destroy_device_fails [OF assms(3,4)] assms(1,2,5) by (auto simp: IS_device_drop_def upd_session_def upd_file_def)

lemma create_device_halfway:
  assumes "creatable i j m" "disk_allocated k" "\<not> backup_started k (m_stackbd m)"
  shows "\<exists>ret m'. IS_create_device k i j name m = Inr (ret, m') \<and> (\<exists>e. IS_device_drop i j m' = Inl e)"
proof -
  let ?m = "m\<lparr>m_IS_indexes := m_IS_indexes m + 1\<rparr>"
  obtain ret f sk where reg: "register_stackbd k (m_sgl m) (new_file i j name m) (m_stackbd m) = (ret, f, sk)"
    by (metis prod_cases3)
  note fail = register_stackbd_fail [OF assms(3) reg]
  have "kc_queues k" using assms(2) by (simp add: disk_allocated_def)
  then have c: "IS_create_device k i j name m =
     (if ret \<noteq> 0 then rbind (IS_destroy_queues f) (\<lambda>f3. Inr (ret, upd_session i (upd_file j f3) (?m\<lparr>m_stackbd := sk\<rparr>)))
      else Inr (0, upd_session i (\<lambda>se. (upd_file j (f\<lparr>f_state := DEVICE_RUNNING\<rparr>) se)\<lparr>se_triggered := True\<rparr>) (?m\<lparr>m_stackbd := sk\<rparr>)))"
    using assms(1) reg [unfolded new_file_def] by (simp add: IS_create_device_def creatable_def IS_setup_queues_def Let_def
        register_ok [OF assms(2)] res_defs IS_set_device_state_def cong: if_cong)
  have f: "f_disk f = Live" "f_queues f = Live" using fail by (simp_all add: new_file_def)
  have i: "i < length (m_sessions m)" "j < length (se_devs_list (m_sessions m ! i))" using assms(1) by (simp_all add: creatable_def)
  show ?thesis
  proof (cases "ret = 0")
    case True
    then have "\<exists>e. IS_device_drop i j (upd_session i (\<lambda>se. (upd_file j (f\<lparr>f_state := DEVICE_RUNNING\<rparr>) se)\<lparr>se_triggered := True\<rparr>) (?m\<lparr>m_stackbd := sk\<rparr>)) = Inl e"
      by (intro drop_device_fails [where f = "f\<lparr>f_state := DEVICE_RUNNING\<rparr>"]) (use f fail i in \<open>auto simp: upd_file_def\<close>)
    then show ?thesis using c True by simp
  next
    case False
    have "\<exists>e. IS_device_drop i j (upd_session i (upd_file j (f\<lparr>f_queues := Freed\<rparr>)) (?m\<lparr>m_stackbd := sk\<rparr>)) = Inl e"
      by (rule drop_device_fails [where f = "f\<lparr>f_queues := Freed\<rparr>"]) (use f i in auto)
    then show ?thesis using c False f by (simp add: IS_destroy_queues_def res_defs)
  qed
qed

lemma register_early:
  assumes "\<not> disk_allocated k" "kc_queues k" "f_queues f = Live" "f_IS_conns f = Live" "f_disk f = NoRes"
  shows "\<exists>ret f'. IS_register_block_device k n sgl f sk = Inr (ret, f', sk) \<and> ret \<noteq> 0 \<and> f_queues f' = Live \<and> f_disk f' = NoRes"
  using assms by (auto simp: IS_register_block_device_def disk_allocated_def init_hctx_all)

lemma create_device_early:
  assumes "creatable i j m" "\<not> disk_allocated k"
  shows "\<exists>ret m' m''. IS_create_device k i j name m = Inr (ret, m') \<and> ret \<noteq> 0 \<and> IS_device_drop i j m' = Inr m'' \<and> m_stackbd m'' = m_stackbd m"
proof -
  have drop: "\<exists>m''. IS_device_drop i j (upd_session i (upd_file j f) m') = Inr m'' \<and> m_stackbd m'' = m_stackbd m'"
    if "f_disk f = NoRes" "m_sessions m' = m_sessions m" for f m'
    using that assms(1) by (simp add: IS_device_drop_def upd_session_def upd_file_def IS_destroy_device_def creatable_def)
  let ?se = "m_sessions m ! i"
  let ?f = "(se_devs_list ?se ! j)\<lparr>f_file_name := name, f_index := m_IS_indexes m, f_nr_queues := m_submit_queues m,
                f_queue_depth := IS_QUEUE_DEPTH, f_IS_conns := Live\<rparr>"
  have c: "se_IS_conns ?se = Live" "f_disk ?f = NoRes" using assms(1) by (simp_all add: creatable_def)
  show ?thesis
  proof (cases "kc_queues k")
    case True
    then obtain ret f where f: "IS_register_block_device k (m_submit_queues m) (m_sgl m) (?f\<lparr>f_queues := Live, f_st_size := se_capacity ?se\<rparr>) (m_stackbd m) =
        Inr (ret, f, m_stackbd m)" "ret \<noteq> 0" "f_queues f = Live" "f_disk f = NoRes"
      using register_early [OF assms(2), of "?f\<lparr>f_queues := Live, f_st_size := se_capacity ?se\<rparr>"] c by fastforce
    then have "IS_create_device k i j name m = Inr (ret, upd_session i (upd_file j (f\<lparr>f_queues := Freed\<rparr>)) (m\<lparr>m_IS_indexes := m_IS_indexes m + 1, m_stackbd := m_stackbd m\<rparr>))"
      using True c by (simp add: IS_create_device_def Let_def IS_setup_queues_def IS_destroy_queues_def res_defs)
    then show ?thesis using f(2,4) drop [of "f\<lparr>f_queues := Freed\<rparr>" "m\<lparr>m_IS_indexes := m_IS_indexes m + 1, m_stackbd := m_stackbd m\<rparr>"] by auto
  next
    case False
    then have "IS_create_device k i j name m = Inr (-12, upd_session i (upd_file j (?f\<lparr>f_queues := NoRes\<rparr>)) (m\<lparr>m_IS_indexes := m_IS_indexes m + 1\<rparr>))"
      using c by (simp add: IS_create_device_def Let_def IS_setup_queues_def)
    then show ?thesis using c(2) drop [of "?f\<lparr>f_queues := NoRes\<rparr>" "m\<lparr>m_IS_indexes := m_IS_indexes m + 1\<rparr>"] by auto
  qed
qed

lemma drop_created:
  assumes "creatable i j m" "disk_allocated k" "backup_started k (m_stackbd m)" "IS_create_device k i j name m = Inr (ret, m')"
  shows "\<exists>m''. IS_device_drop i j m' = Inr m'' \<and> m_stackbd m'' = (started_stackbd k (m_sgl m) (m_stackbd m))
      \<lparr>sk_thread := Freed, sk_bdev_raw := Freed, sk_gd := Freed, sk_gd_added := False, sk_registered := False, sk_queue := Freed\<rparr> \<and>
    se_devs_list (m_sessions m'' ! i) = remove_nth j (se_devs_list (m_sessions m ! i))"
  using assms(1,4) create_device_ok [OF assms(1-3), of name]
  by (auto simp: IS_device_drop_def IS_destroy_device_def IS_unregister_block_device_def IS_destroy_queues_def res_defs
      upd_session_def upd_file_def creatable_def new_file_def started_stackbd_def Let_def remove_nth_def)

text \<open>
  C34. A device can be removed without a memory error exactly if its creation succeeded
  completely, or failed before the disk of the device was allocated.
\<close>

theorem device_drop_safe:
  assumes "creatable i j m"
  shows "\<exists>ret m'. IS_create_device k i j name m = Inr (ret, m') \<and>
    ((\<exists>m''. IS_device_drop i j m' = Inr m'') \<longleftrightarrow> disk_allocated k \<longrightarrow> backup_started k (m_stackbd m))"
proof (cases "disk_allocated k")
  case True
  show ?thesis
  proof (cases "backup_started k (m_stackbd m)")
    case b: True
    then show ?thesis using create_device_ok [OF assms True b, of name] drop_created [OF assms True b] by blast
  next
    case b: False
    then show ?thesis using create_device_halfway [OF assms True b, of name] True by force
  qed
next
  case False
  then show ?thesis using create_device_early [OF assms False, of name] by blast
qed

text \<open>
  The removal of a device that was created completely releases every object of the kernel that the
  creation made.
\<close>

theorem device_removed:
  assumes "creatable i j m" "disk_allocated k" "backup_started k (m_stackbd m)"
  shows "\<exists>m' m''. IS_create_device k i j name m = Inr (0, m') \<and> IS_device_drop i j m' = Inr m'' \<and>
    Live \<notin> {sk_gd (m_stackbd m''), sk_queue (m_stackbd m''), sk_thread (m_stackbd m''), sk_bdev_raw (m_stackbd m'')} \<and>
    \<not> sk_registered (m_stackbd m'') \<and> \<not> sk_gd_added (m_stackbd m'') \<and>
    se_devs_list (m_sessions m'' ! i) = remove_nth j (se_devs_list (m_sessions m ! i))"
  using create_device_ok [OF assms, of name] drop_created [OF assms, of name] by fastforce

lemma init_hctx_name: "rfold IS_init_hctx qs f = Inr f' \<Longrightarrow> f_file_name f' = f_file_name f"
  by (induction qs arbitrary: f) (fastforce simp: IS_init_hctx_def rbind_eq_Inr)+

lemma register_stackbd_name: "register_stackbd k sgl f sk = (ret, f', sk') \<Longrightarrow> f_file_name f' = f_file_name f"
  by (auto simp: register_stackbd_def Let_def split: if_splits prod.splits)

lemma register_name: "IS_register_block_device k n sgl f sk = Inr (ret, f', sk') \<Longrightarrow> f_file_name f' = f_file_name f"
  unfolding IS_register_block_device_def rbind_eq_Inr
  by (auto simp: rbind_eq_Inr split: if_splits dest!: init_hctx_name register_stackbd_name)

lemma create_device_name:
  assumes "i < length (m_sessions m)" "j < length (se_devs_list (m_sessions m ! i))"
    and "IS_create_device k i j name m = Inr (ret, m')"
  shows "IS_file_find (m_sessions m' ! i) name"
proof -
  have find: "IS_file_find (m_sessions (upd_session i g m1) ! i) name"
    if "m_sessions m1 = m_sessions m" "\<And>se. se_devs_list (g se) = (se_devs_list se)[j := f]" "f_file_name f = name" for f g m1
    using that assms(1,2) by (auto simp: IS_file_find_def upd_session_def list_ex_iff set_update_memI intro!: bexI [of _ f])
  show ?thesis
    using assms(3) register_name
    by (fastforce simp: IS_create_device_def Let_def IS_setup_queues_def IS_destroy_queues_def rbind_eq_Inr upd_file_def
        split: if_splits prod.splits intro!: find)
qed

text \<open>
  The name of a device is taken as soon as its creation was tried, also when it failed: after any
  outcome the name is refused for every device of the session.
\<close>

theorem device_name_taken:
  assumes "i < length (m_sessions m)" "j < length (se_devs_list (m_sessions m ! i))"
    and "device_attr_store k i j page m = Inr (ret, m')"
  shows "device_attr_store k' i j' page m' = Inr (-17, m')"
proof -
  obtain w where w: "first_word page = Some w" "copy_str MAX_IS_DEV_NAME w = Inr w"
    using assms(3) by (cases "first_word page") (auto simp: device_attr_store_def rbind_eq_Inr copy_str_def split: if_splits)
  then have "IS_file_find (m_sessions m' ! i) w"
    using assms create_device_name by (auto simp: device_attr_store_def rbind_eq_Inr split: if_splits)
  then show ?thesis using w by (simp add: device_attr_store_def)
qed

section \<open>From the module to the driver\<close>

lemma set_up_portal:
  assumes "writable_portals ps" "\<And>q. conn q" "IS_session_find_by_portal m (portal_text ps) = Inr False"
  shows "portal_attr_store True conn 0 (portal_line ps @ [CHR 0x0A]) (snd (IS_session_make_group True m)) =
    Inr (int (length (portal_line ps)) + 1, with_portal 0 ps (snd (IS_session_make_group True m)))"
proof (rule portal_store_ok [OF assms(1,2)])
  have "c_str (replicate MAX_PORTAL_NAME (CHR 0x00)) = Inr []"
    by (auto simp: c_str_def MAX_PORTAL_NAME_def takeWhile_eq_Nil_iff)
  then show "IS_session_find_by_portal (snd (IS_session_make_group True m)) (portal_text ps) = Inr False"
    using assms(3) by (simp add: no_such_portal IS_session_make_group_def zero_session_def portal_text_line)
qed (simp add: IS_session_make_group_def zero_session_def)

lemma first_word_name: "w \<noteq> [] \<Longrightarrow> \<forall>c \<in> set w. \<not> is_space c \<Longrightarrow> first_word w = Some w"
  by (cases w) (simp_all add: first_word_def takeWhile_eq_all_conv Let_def)

text \<open>
  C17. A session that is made, with a portal and a device whose parts can all be allocated, is
  the start of an execution of the driver: no chunk is mapped, nothing is under way, the backup
  disk is ready. The device runs with twelve gigabytes, and each of its queues has its connection.
\<close>

theorem session_set_up:
  assumes "writable_portals ps" "\<And>q. conn q" "IS_session_find_by_portal m (portal_text ps) = Inr False"
    and "length dname < MAX_IS_DEV_NAME" "\<forall>c \<in> set dname. \<not> is_space c" "dname \<noteq> []"
    and "disk_allocated k" "backup_started k (m_stackbd m)"
  shows "\<exists>m'. set_up conn k (portal_line ps @ [CHR 0x0A]) dname dname m =
      Inr (int (length (portal_line ps)) + 1, int (length dname), m') \<and>
    session_start (session_view 0 m') \<and> b_cb_num (session_view 0 m') = length ps \<and> se_portal_list (m_sessions m' ! 0) = ps \<and>
    (\<exists>f. se_devs_list (m_sessions m' ! 0) = [f] \<and> f_state f = DEVICE_RUNNING \<and> f_disk_added f \<and>
       f_disk_capacity f = 12 * 2 ^ 21 \<and> (\<forall>q < m_submit_queues m. xq_conn (f_xqs f q) = q))"
proof -
  let ?m = "with_portal 0 ps (snd (IS_session_make_group True m))"
  define m2 where "m2 = upd_session 0 (\<lambda>se. se\<lparr>se_devs_list := zero_file\<lparr>f_state := DEVICE_OPENNING, f_dev_name := dname\<rparr> # se_devs_list se\<rparr>) ?m"
  have dev: "IS_device_make_group True 0 dname ?m = Inr (True, m2)"
    using assms(4) first_word_name [OF assms(6,5)]
    by (simp add: IS_device_make_group_def zero_file_def IS_set_device_state_def copy_str_def m2_def)
  note defs = m2_def upd_session_def with_portal_def IS_session_make_group_def zero_session_def
  have c: "creatable 0 0 m2" "m_stackbd m2 = m_stackbd m" by (simp_all add: creatable_def defs zero_file_def)
  define m3 where "m3 = upd_session 0 (\<lambda>se. (upd_file 0 ((new_file 0 0 dname m2)\<lparr>f_disk_added := True, f_state := DEVICE_RUNNING\<rparr>) se)\<lparr>se_triggered := True\<rparr>)
      (m2\<lparr>m_IS_indexes := m_IS_indexes m2 + 1, m_stackbd := started_stackbd k (m_sgl m2) (m_stackbd m2)\<rparr>)"
  note ok = create_device_ok [OF c(1) assms(7) assms(8) [folded c(2)], of dname, folded m3_def]
  have "\<not> IS_file_find (m_sessions m2 ! 0) dname" using assms(6) by (simp add: IS_file_find_def defs zero_file_def)
  then have store: "device_attr_store k 0 0 dname m2 = Inr (int (length dname), m3)"
    using assms(4) first_word_name [OF assms(6,5)] ok by (simp add: device_attr_store_def copy_str_def)
  have up: "set_up conn k (portal_line ps @ [CHR 0x0A]) dname dname m =
      Inr (int (length (portal_line ps)) + 1, int (length dname), m3)"
    unfolding set_up_def set_up_portal [OF assms(1-3)] by (simp add: dev store)
  have d: "se_dev (m_sessions m3 ! 0) = new_maps (length ps) (zero_bdev (m_submit_queues m) (m_sgl m))"
    "sk_bdev_raw (m_stackbd m3) = Live" "sk_is_active (m_stackbd m3)"
    by (simp_all add: m3_def defs started_stackbd_def upd_file_def)
  have v: "session_start (session_view 0 m3)" "b_cb_num (session_view 0 m3) = length ps"
    by (simp_all add: session_view_def d new_maps_def init_maps_def zero_bdev_def zero_cb_def session_start_def stackbd_ready_def)
  have "se_portal_list (m_sessions m3 ! 0) = ps"
    "se_devs_list (m_sessions m3 ! 0) = [(new_file 0 0 dname m2)\<lparr>f_disk_added := True, f_state := DEVICE_RUNNING\<rparr>]"
    by (simp_all add: m3_def defs upd_file_def)
  moreover have "f_disk_capacity (new_file 0 0 dname m2) = 12 * 2 ^ 21" "m_submit_queues m2 = m_submit_queues m"
    by (simp_all add: new_file_def defs drop_bit_eq_div)
  ultimately show ?thesis using up v by (auto simp: new_file_def)
qed

section \<open>Connections\<close>

definition verbs_ok :: "verbs \<Rightarrow> bool" where
  "verbs_ok v \<longleftrightarrow> vb_resolve_addr v = 0 \<and> vb_alloc_pd v = 0 \<and> vb_create_cq v = 0 \<and> vb_notify_cq v = 0 \<and>
     vb_create_qp v = 0 \<and> vb_dma_mr v = 0 \<and> vb_post_recv v = 0 \<and> vb_connect v = 0"

lemmas connect_defs = rdma_connect_def rdma_connect_upper_def rdma_connect_down_def IS_bind_client_def IS_connect_client_def
  wait_state_def IS_cma_event_handler_def wakes_def IS_setup_qp_def IS_create_qp_def IS_setup_buffers_def
  IS_free_buffers_def IS_free_qp_def res_defs no_res_def set_k_state_def upd_cb_def less_eq_test_state_def

text \<open>
  A server that accepts the connection ends with all resources of the connection in place and one receive
  posted. When it refuses, the queue pair stays and the driver waits forever for the first
  message: the state of the control block is the error.
\<close>

theorem connection_outcomes:
  assumes "k_state (b_cb_list s c) = IDLE" "verbs_ok v"
  shows "(\<exists>s'. rdma_connect mp v c (CM_ADDR_RESOLVED 0 # CM_ROUTE_RESOLVED # CM_ESTABLISHED # es) s =
      Inr (es, \<lparr>cr_pd = Live, cr_cq = Live, cr_qp = Live, cr_mr = Live, cr_dma = True\<rparr>, s') \<and>
      k_state (b_cb_list s' c) = CONNECTED \<and> k_posted (b_cb_list s' c) = k_posted (b_cb_list s c) + 1) \<and>
    (\<exists>s'. rdma_connect mp v c (CM_ADDR_RESOLVED 0 # CM_ROUTE_RESOLVED # CM_REJECTED # es) s =
      Inr (es, \<lparr>cr_pd = Live, cr_cq = Live, cr_qp = Live, cr_mr = Freed, cr_dma = False\<rparr>, s') \<and>
      await c FREE_MEM_RECV s' = Inl Diverges)"
  using assms by (simp add: connect_defs verbs_ok_def await_def)

text \<open>
  C39. When the first half of the connection fails, everything but the mapping of the buffers is released,
  and the mapping stays exactly if the registration of the memory was what failed. As its result is
  not looked at, the second half then posts a receive on a queue pair that does not exist.
\<close>

theorem failed_connection:
  assumes "rdma_connect_upper mp v c es no_res s = Inr (ret, es', r, s')" "ret \<noteq> 0"
  shows "Live \<notin> {cr_pd r, cr_cq r, cr_qp r, cr_mr r} \<and> (cr_dma r \<longleftrightarrow> cr_qp r = Freed) \<and>
    rdma_connect mp v c es s = Inl (if cr_qp r = Freed then UseAfterFree else NullDeref)"
proof -
  obtain ret0 where b: "IS_bind_client mp v c es s = Inr (ret0, es', s')"
    using assms(1) by (auto simp: rdma_connect_upper_def rbind_eq_Inr split: if_splits prod.splits)
  have r: "Live \<notin> {cr_pd r, cr_cq r, cr_qp r, cr_mr r} \<and> (cr_dma r \<longleftrightarrow> cr_qp r = Freed)"
    using assms b by (auto simp: rdma_connect_upper_def IS_setup_qp_def IS_create_qp_def IS_setup_buffers_def IS_free_qp_def
        res_defs no_res_def Let_def split: if_splits)
  then have "rdma_connect_down mp v c es' r s' = Inl (if cr_qp r = Freed then UseAfterFree else NullDeref)"
    by (cases "cr_qp r") (auto simp: rdma_connect_down_def res_defs)
  then show ?thesis using assms(1) r by (simp add: rdma_connect_def)
qed

section \<open>Geometry\<close>

text \<open>The cylinders are counted in sixteen bits: those of a backup disk of twelve gigabytes, 393216, are lost.\<close>

lemma no_cylinders: "sk_capacity sk = 25165824 \<Longrightarrow> geo_cylinders (stackbd_getgeo 512 sk) = 0"
  by (simp add: stackbd_getgeo_def KERNEL_SECTOR_SIZE_def Let_def)

end
