(* ===== verification/Block_Setup_Witness.thy ===== *)
theory Block_Setup_Witness
  imports Block_Setup_Props
begin

text \<open>The properties of the set up of the block device at concrete inputs.\<close>

definition wx_calls :: kcalls where
  "wx_calls = \<lparr>kc_queues = True, kc_tag_set = 0, kc_init_queue = 0, kc_disk_node = True, kc_alloc_queue = True,
     kc_register = (\<lambda>_. 250), kc_alloc_disk = True, kc_lookup = True, kc_bdget = True, kc_blkdev_get = 0,
     kc_capacity = 25165824, kc_thread = True\<rparr>"

definition wx_stackbd :: stackbd where
  "wx_stackbd = \<lparr>sk_capacity = 0, sk_max_sectors = 0, sk_gd = NoRes, sk_gd_added = False, sk_thread = NoRes,
     sk_is_active = False, sk_bdev_raw = NoRes, sk_queue = NoRes, sk_major_num = 0, sk_registered = False\<rparr>"

definition wx_module :: "IS_session list \<Rightarrow> IS_module" where
  "wx_module ses = \<lparr>m_submit_queues = 4, m_sgl = 1, m_created_portals = 0, m_IS_major = 249, m_IS_indexes = 0,
     m_sessions = ses, m_stackbd = wx_stackbd, m_subsys = True\<rparr>"

definition wx_portals :: "IS_portal list" where
  "wx_portals = [\<lparr>po_port = 8000, po_addr = ''192.168.0.12''\<rparr>, \<lparr>po_port = 9400, po_addr = ''192.168.0.11''\<rparr>]"

definition wx_session :: IS_session where
  "wx_session = (zero_session 4 1)\<lparr>se_IS_conns := Live, se_rdma_trigger_thread := Live, se_devs_list := [zero_file]\<rparr>"

lemma wx_portals_ok: "writable_portals wx_portals"
  by (simp add: writable_portals_def wx_portals_def good_portal_def is_space_def portal_text_def portal_entry_def
      MAX_PORTAL_NAME_def print_nat.simps digit_def)

lemma wx_calls_ok: "disk_allocated wx_calls" "backup_started wx_calls wx_stackbd"
  by (simp_all add: disk_allocated_def backup_started_def wx_calls_def)

lemma wx_creatable: "creatable 0 0 (wx_module [wx_session])"
  by (simp add: creatable_def wx_module_def wx_session_def zero_file_def)

text \<open>Witness for the text of the portal.\<close>

theorem portals_parsed_witness:
  "\<exists>m'. portal_attr_store True (\<lambda>_. True) 0 (portal_line wx_portals @ [CHR 0x0A]) (wx_module [zero_session 4 1]) =
      Inr (int (length (portal_line wx_portals)) + 1, m') \<and>
    se_portal_list (m_sessions m' ! 0) = wx_portals \<and> b_cb_num (session_view 0 m') = length wx_portals"
proof (rule portals_parsed)
  have "c_str (replicate MAX_PORTAL_NAME (CHR 0x00)) = Inr []"
    by (auto simp: c_str_def MAX_PORTAL_NAME_def takeWhile_eq_Nil_iff)
  then show "IS_session_find_by_portal (wx_module [zero_session 4 1]) (portal_text wx_portals) = Inr False"
    by (simp add: no_such_portal wx_module_def zero_session_def portal_text_line)
qed (simp_all add: wx_portals_ok wx_module_def zero_session_def)

text \<open>Witness for the start of a session.\<close>

theorem session_set_up_witness:
  "\<exists>m'. set_up (\<lambda>_. True) wx_calls (portal_line wx_portals @ [CHR 0x0A]) ''infiniswap0'' ''infiniswap0'' (wx_module []) =
      Inr (int (length (portal_line wx_portals)) + 1, 11, m') \<and> session_start (session_view 0 m') \<and> b_cb_num (session_view 0 m') = 2"
  using session_set_up [OF wx_portals_ok, of "\<lambda>_. True" "wx_module []" "''infiniswap0''" wx_calls] wx_calls_ok
  by (fastforce simp: no_such_portal wx_module_def is_space_def MAX_IS_DEV_NAME_def wx_portals_def)

text \<open>Witness for the removal of a device, whose backup disk could not be opened.\<close>

theorem device_drop_safe_witness:
  "\<exists>ret m'. IS_create_device (wx_calls\<lparr>kc_lookup := False\<rparr>) 0 0 ''infiniswap0'' (wx_module [wx_session]) = Inr (ret, m') \<and>
    \<not> (\<exists>m''. IS_device_drop 0 0 m' = Inr m'')"
  using device_drop_safe [OF wx_creatable, of "wx_calls\<lparr>kc_lookup := False\<rparr>" "''infiniswap0''"]
  by (simp add: disk_allocated_def backup_started_def wx_calls_def)

text \<open>Witness for the complete removal of a device.\<close>

theorem device_removed_witness:
  "\<exists>m' m''. IS_create_device wx_calls 0 0 ''infiniswap0'' (wx_module [wx_session]) = Inr (0, m') \<and>
    IS_device_drop 0 0 m' = Inr m'' \<and> sk_gd (m_stackbd m'') \<noteq> Live \<and> se_devs_list (m_sessions m'' ! 0) = []"
  using device_removed [OF wx_creatable wx_calls_ok(1), of "''infiniswap0''"] wx_calls_ok(2)
  by (fastforce simp: wx_module_def wx_session_def remove_nth_def)

text \<open>Witness for the nodes: eight queues on three nodes, the second of which has the queues 3, 4 and 5.\<close>

theorem queues_spread_evenly_witness:
  "\<exists>x < 3. IS_alloc_hctx [0, 2, 3] 64 8 5 = Inr ([0, 2, 3] ! x) \<and> x * 2 + min x 2 \<le> 5 \<and> 5 < (x + 1) * 2 + min (x + 1) 2"
proof -
  have l: "length [0, 2, 3 :: nat] = 3" by simp
  have n: "8 div 3 = (2 :: nat)" "8 mod 3 = (2 :: nat)" by simp_all
  note q = queues_spread_evenly [of "[0, 2, 3]" 5 8 64, unfolded l n]
  show ?thesis by (rule q) simp_all
qed

text \<open>Witness for a connection that fails, where the memory cannot be registered.\<close>

definition wx_verbs :: verbs where
  "wx_verbs = \<lparr>vb_resolve_addr = 0, vb_alloc_pd = 0, vb_create_cq = 0, vb_notify_cq = 0, vb_create_qp = 0,
     vb_dma_mr = 0, vb_post_recv = 0, vb_connect = 0\<rparr>"

definition wx_mp :: "nat \<Rightarrow> bdev \<Rightarrow> (int \<times> bdev) res" where
  "wx_mp g s = Inr (-1, s)"

lemma wx_upper_fails:
  "\<exists>es r s'. rdma_connect_upper wx_mp (wx_verbs\<lparr>vb_dma_mr := -12\<rparr>) 0 [CM_ADDR_RESOLVED 0, CM_ROUTE_RESOLVED] no_res (zero_bdev 4 1) =
    Inr (-12, es, r, s') \<and> cr_qp r = Freed"
  by (simp add: connect_defs wx_verbs_def zero_bdev_def zero_cb_def)

theorem failed_connection_witness:
  "rdma_connect wx_mp (wx_verbs\<lparr>vb_dma_mr := -12\<rparr>) 0 [CM_ADDR_RESOLVED 0, CM_ROUTE_RESOLVED] (zero_bdev 4 1) = Inl UseAfterFree"
  using wx_upper_fails failed_connection by fastforce

end
