(* ===== verification/Aes.thy ===== *)
theory Aes
  imports Prelude
begin

text \<open>
  The block cipher of the command line client (\<^verbatim>\<open>harvester/producer-cli/aes.c\<close>, \<^verbatim>\<open>aes.h\<close>): AES with keys
  of 128 bits, and its modes ECB, CBC and CTR. The state of a block, an array of four columns of four
  bytes, is a list of sixteen bytes: \<^verbatim>\<open>(*state)[i][j]\<close> is element \<open>4 * i + j\<close>, as the cast of the
  buffer has it.
\<close>

unbundle bit_operations_syntax

section \<open>Tables\<close>

type_synonym byte = "8 word"

definition sbox :: "byte list" where
  "sbox = [0x63, 0x7c, 0x77, 0x7b, 0xf2, 0x6b, 0x6f, 0xc5, 0x30, 0x01, 0x67, 0x2b, 0xfe, 0xd7, 0xab, 0x76,
     0xca, 0x82, 0xc9, 0x7d, 0xfa, 0x59, 0x47, 0xf0, 0xad, 0xd4, 0xa2, 0xaf, 0x9c, 0xa4, 0x72, 0xc0,
     0xb7, 0xfd, 0x93, 0x26, 0x36, 0x3f, 0xf7, 0xcc, 0x34, 0xa5, 0xe5, 0xf1, 0x71, 0xd8, 0x31, 0x15,
     0x04, 0xc7, 0x23, 0xc3, 0x18, 0x96, 0x05, 0x9a, 0x07, 0x12, 0x80, 0xe2, 0xeb, 0x27, 0xb2, 0x75,
     0x09, 0x83, 0x2c, 0x1a, 0x1b, 0x6e, 0x5a, 0xa0, 0x52, 0x3b, 0xd6, 0xb3, 0x29, 0xe3, 0x2f, 0x84,
     0x53, 0xd1, 0x00, 0xed, 0x20, 0xfc, 0xb1, 0x5b, 0x6a, 0xcb, 0xbe, 0x39, 0x4a, 0x4c, 0x58, 0xcf,
     0xd0, 0xef, 0xaa, 0xfb, 0x43, 0x4d, 0x33, 0x85, 0x45, 0xf9, 0x02, 0x7f, 0x50, 0x3c, 0x9f, 0xa8,
     0x51, 0xa3, 0x40, 0x8f, 0x92, 0x9d, 0x38, 0xf5, 0xbc, 0xb6, 0xda, 0x21, 0x10, 0xff, 0xf3, 0xd2,
     0xcd, 0x0c, 0x13, 0xec, 0x5f, 0x97, 0x44, 0x17, 0xc4, 0xa7, 0x7e, 0x3d, 0x64, 0x5d, 0x19, 0x73,
     0x60, 0x81, 0x4f, 0xdc, 0x22, 0x2a, 0x90, 0x88, 0x46, 0xee, 0xb8, 0x14, 0xde, 0x5e, 0x0b, 0xdb,
     0xe0, 0x32, 0x3a, 0x0a, 0x49, 0x06, 0x24, 0x5c, 0xc2, 0xd3, 0xac, 0x62, 0x91, 0x95, 0xe4, 0x79,
     0xe7, 0xc8, 0x37, 0x6d, 0x8d, 0xd5, 0x4e, 0xa9, 0x6c, 0x56, 0xf4, 0xea, 0x65, 0x7a, 0xae, 0x08,
     0xba, 0x78, 0x25, 0x2e, 0x1c, 0xa6, 0xb4, 0xc6, 0xe8, 0xdd, 0x74, 0x1f, 0x4b, 0xbd, 0x8b, 0x8a,
     0x70, 0x3e, 0xb5, 0x66, 0x48, 0x03, 0xf6, 0x0e, 0x61, 0x35, 0x57, 0xb9, 0x86, 0xc1, 0x1d, 0x9e,
     0xe1, 0xf8, 0x98, 0x11, 0x69, 0xd9, 0x8e, 0x94, 0x9b, 0x1e, 0x87, 0xe9, 0xce, 0x55, 0x28, 0xdf,
     0x8c, 0xa1, 0x89, 0x0d, 0xbf, 0xe6, 0x42, 0x68, 0x41, 0x99, 0x2d, 0x0f, 0xb0, 0x54, 0xbb, 0x16]"

definition rsbox :: "byte list" where
  "rsbox = [0x52, 0x09, 0x6a, 0xd5, 0x30, 0x36, 0xa5, 0x38, 0xbf, 0x40, 0xa3, 0x9e, 0x81, 0xf3, 0xd7, 0xfb,
     0x7c, 0xe3, 0x39, 0x82, 0x9b, 0x2f, 0xff, 0x87, 0x34, 0x8e, 0x43, 0x44, 0xc4, 0xde, 0xe9, 0xcb,
     0x54, 0x7b, 0x94, 0x32, 0xa6, 0xc2, 0x23, 0x3d, 0xee, 0x4c, 0x95, 0x0b, 0x42, 0xfa, 0xc3, 0x4e,
     0x08, 0x2e, 0xa1, 0x66, 0x28, 0xd9, 0x24, 0xb2, 0x76, 0x5b, 0xa2, 0x49, 0x6d, 0x8b, 0xd1, 0x25,
     0x72, 0xf8, 0xf6, 0x64, 0x86, 0x68, 0x98, 0x16, 0xd4, 0xa4, 0x5c, 0xcc, 0x5d, 0x65, 0xb6, 0x92,
     0x6c, 0x70, 0x48, 0x50, 0xfd, 0xed, 0xb9, 0xda, 0x5e, 0x15, 0x46, 0x57, 0xa7, 0x8d, 0x9d, 0x84,
     0x90, 0xd8, 0xab, 0x00, 0x8c, 0xbc, 0xd3, 0x0a, 0xf7, 0xe4, 0x58, 0x05, 0xb8, 0xb3, 0x45, 0x06,
     0xd0, 0x2c, 0x1e, 0x8f, 0xca, 0x3f, 0x0f, 0x02, 0xc1, 0xaf, 0xbd, 0x03, 0x01, 0x13, 0x8a, 0x6b,
     0x3a, 0x91, 0x11, 0x41, 0x4f, 0x67, 0xdc, 0xea, 0x97, 0xf2, 0xcf, 0xce, 0xf0, 0xb4, 0xe6, 0x73,
     0x96, 0xac, 0x74, 0x22, 0xe7, 0xad, 0x35, 0x85, 0xe2, 0xf9, 0x37, 0xe8, 0x1c, 0x75, 0xdf, 0x6e,
     0x47, 0xf1, 0x1a, 0x71, 0x1d, 0x29, 0xc5, 0x89, 0x6f, 0xb7, 0x62, 0x0e, 0xaa, 0x18, 0xbe, 0x1b,
     0xfc, 0x56, 0x3e, 0x4b, 0xc6, 0xd2, 0x79, 0x20, 0x9a, 0xdb, 0xc0, 0xfe, 0x78, 0xcd, 0x5a, 0xf4,
     0x1f, 0xdd, 0xa8, 0x33, 0x88, 0x07, 0xc7, 0x31, 0xb1, 0x12, 0x10, 0x59, 0x27, 0x80, 0xec, 0x5f,
     0x60, 0x51, 0x7f, 0xa9, 0x19, 0xb5, 0x4a, 0x0d, 0x2d, 0xe5, 0x7a, 0x9f, 0x93, 0xc9, 0x9c, 0xef,
     0xa0, 0xe0, 0x3b, 0x4d, 0xae, 0x2a, 0xf5, 0xb0, 0xc8, 0xeb, 0xbb, 0x3c, 0x83, 0x53, 0x99, 0x61,
     0x17, 0x2b, 0x04, 0x7e, 0xba, 0x77, 0xd6, 0x26, 0xe1, 0x69, 0x14, 0x63, 0x55, 0x21, 0x0c, 0x7d]"

definition Rcon :: "byte list" where
  "Rcon = [0x8d, 0x01, 0x02, 0x04, 0x08, 0x10, 0x20, 0x40, 0x80, 0x1b, 0x36]"

definition Nb :: nat where "Nb = 4"
definition Nk :: nat where "Nk = 4"
definition Nr :: nat where "Nr = 10"
definition AES_BLOCKLEN :: nat where "AES_BLOCKLEN = 16"

definition getSBoxValue :: "byte \<Rightarrow> byte" where
  "getSBoxValue num = sbox ! unat num"

definition getSBoxInvert :: "byte \<Rightarrow> byte" where
  "getSBoxInvert num = rsbox ! unat num"

section \<open>Round keys\<close>

definition RotWord :: "byte list \<Rightarrow> byte list" where
  "RotWord t = [t ! 1, t ! 2, t ! 3, t ! 0]"

definition SubWord :: "byte list \<Rightarrow> byte list" where
  "SubWord t = map getSBoxValue t"

text \<open>One round of the loop of \<^verbatim>\<open>KeyExpansion\<close>: the words of the round keys are written in order.\<close>

definition expand_word :: "nat \<Rightarrow> byte list \<Rightarrow> byte list" where
  "expand_word i RoundKey =
     (let k = (i - 1) * 4;
          tempa = [RoundKey ! k, RoundKey ! (k + 1), RoundKey ! (k + 2), RoundKey ! (k + 3)];
          tempa' = (if i mod Nk = 0
                    then (let t = SubWord (RotWord tempa) in t[0 := t ! 0 XOR Rcon ! (i div Nk)])
                    else tempa);
          k' = (i - Nk) * 4 in
      RoundKey @ map (\<lambda>b. RoundKey ! (k' + b) XOR tempa' ! b) [0 ..< 4])"

definition KeyExpansion :: "byte list \<Rightarrow> byte list" where
  "KeyExpansion Key = fold expand_word [Nk ..< Nb * (Nr + 1)] (map (\<lambda>i. Key ! i) [0 ..< Nk * 4])"

record AES_ctx =
  RoundKey :: "byte list"
  Iv :: "byte list"

definition AES_init_ctx :: "AES_ctx \<Rightarrow> byte list \<Rightarrow> AES_ctx" where
  "AES_init_ctx ctx key = ctx\<lparr>RoundKey := KeyExpansion key\<rparr>"

definition AES_init_ctx_iv :: "AES_ctx \<Rightarrow> byte list \<Rightarrow> byte list \<Rightarrow> AES_ctx" where
  "AES_init_ctx_iv ctx key iv = ctx\<lparr>RoundKey := KeyExpansion key, Iv := take AES_BLOCKLEN iv\<rparr>"

definition AES_ctx_set_iv :: "AES_ctx \<Rightarrow> byte list \<Rightarrow> AES_ctx" where
  "AES_ctx_set_iv ctx iv = ctx\<lparr>Iv := take AES_BLOCKLEN iv\<rparr>"

section \<open>Steps of the cipher\<close>

definition AddRoundKey :: "nat \<Rightarrow> byte list \<Rightarrow> byte list \<Rightarrow> byte list" where
  "AddRoundKey round state rk = map (\<lambda>p. state ! p XOR rk ! (round * Nb * 4 + p)) [0 ..< 16]"

definition SubBytes :: "byte list \<Rightarrow> byte list" where
  "SubBytes state = map getSBoxValue state"

definition InvSubBytes :: "byte list \<Rightarrow> byte list" where
  "InvSubBytes state = map getSBoxInvert state"

text \<open>The assignments of the source, in its order.\<close>

definition ShiftRows :: "byte list \<Rightarrow> byte list" where
  "ShiftRows s0 =
     (let temp = s0 ! 1; s1 = s0[1 := s0 ! 5]; s2 = s1[5 := s1 ! 9]; s3 = s2[9 := s2 ! 13]; s4 = s3[13 := temp];
          temp = s4 ! 2; s5 = s4[2 := s4 ! 10]; s6 = s5[10 := temp];
          temp = s6 ! 6; s7 = s6[6 := s6 ! 14]; s8 = s7[14 := temp];
          temp = s8 ! 3; s9 = s8[3 := s8 ! 15]; s10 = s9[15 := s9 ! 11]; s11 = s10[11 := s10 ! 7] in
      s11[7 := temp])"

definition InvShiftRows :: "byte list \<Rightarrow> byte list" where
  "InvShiftRows s0 =
     (let temp = s0 ! 13; s1 = s0[13 := s0 ! 9]; s2 = s1[9 := s1 ! 5]; s3 = s2[5 := s2 ! 1]; s4 = s3[1 := temp];
          temp = s4 ! 2; s5 = s4[2 := s4 ! 10]; s6 = s5[10 := temp];
          temp = s6 ! 6; s7 = s6[6 := s6 ! 14]; s8 = s7[14 := temp];
          temp = s8 ! 3; s9 = s8[3 := s8 ! 7]; s10 = s9[7 := s9 ! 11]; s11 = s10[11 := s10 ! 15] in
      s11[15 := temp])"

definition xtime :: "byte \<Rightarrow> byte" where
  "xtime x = push_bit 1 x XOR ((drop_bit 7 x AND 1) * 0x1b)"

definition Multiply :: "byte \<Rightarrow> byte \<Rightarrow> byte" where
  "Multiply x y =
     ((y AND 1) * x) XOR
     ((drop_bit 1 y AND 1) * xtime x) XOR
     ((drop_bit 2 y AND 1) * xtime (xtime x)) XOR
     ((drop_bit 3 y AND 1) * xtime (xtime (xtime x))) XOR
     ((drop_bit 4 y AND 1) * xtime (xtime (xtime (xtime x))))"

text \<open>The bodies of the loops over the columns.\<close>

definition mix_column :: "byte list \<Rightarrow> byte list" where
  "mix_column c =
     (let t = c ! 0; Tmp = c ! 0 XOR c ! 1 XOR c ! 2 XOR c ! 3;
          Tm = xtime (c ! 0 XOR c ! 1); c1 = c[0 := c ! 0 XOR (Tm XOR Tmp)];
          Tm = xtime (c1 ! 1 XOR c1 ! 2); c2 = c1[1 := c1 ! 1 XOR (Tm XOR Tmp)];
          Tm = xtime (c2 ! 2 XOR c2 ! 3); c3 = c2[2 := c2 ! 2 XOR (Tm XOR Tmp)];
          Tm = xtime (c3 ! 3 XOR t) in
      c3[3 := c3 ! 3 XOR (Tm XOR Tmp)])"

definition inv_mix_column :: "byte list \<Rightarrow> byte list" where
  "inv_mix_column col =
     (let a = col ! 0; b = col ! 1; c = col ! 2; d = col ! 3 in
      [Multiply a 0x0e XOR Multiply b 0x0b XOR Multiply c 0x0d XOR Multiply d 0x09,
       Multiply a 0x09 XOR Multiply b 0x0e XOR Multiply c 0x0b XOR Multiply d 0x0d,
       Multiply a 0x0d XOR Multiply b 0x09 XOR Multiply c 0x0e XOR Multiply d 0x0b,
       Multiply a 0x0b XOR Multiply b 0x0d XOR Multiply c 0x09 XOR Multiply d 0x0e])"

definition column :: "nat \<Rightarrow> byte list \<Rightarrow> byte list" where
  "column i state = take 4 (drop (4 * i) state)"

definition MixColumns :: "byte list \<Rightarrow> byte list" where
  "MixColumns state = concat (map (\<lambda>i. mix_column (column i state)) [0 ..< 4])"

definition InvMixColumns :: "byte list \<Rightarrow> byte list" where
  "InvMixColumns state = concat (map (\<lambda>i. inv_mix_column (column i state)) [0 ..< 4])"

section \<open>The cipher\<close>

definition cipher_round :: "byte list \<Rightarrow> nat \<Rightarrow> byte list \<Rightarrow> byte list" where
  "cipher_round rk round state = AddRoundKey round (MixColumns (ShiftRows (SubBytes state))) rk"

definition Cipher :: "byte list \<Rightarrow> byte list \<Rightarrow> byte list" where
  "Cipher state rk =
     AddRoundKey Nr (ShiftRows (SubBytes (fold (cipher_round rk) [1 ..< Nr] (AddRoundKey 0 state rk)))) rk"

definition inv_round :: "byte list \<Rightarrow> nat \<Rightarrow> byte list \<Rightarrow> byte list" where
  "inv_round rk round state = InvMixColumns (AddRoundKey round (InvSubBytes (InvShiftRows state)) rk)"

definition InvCipher :: "byte list \<Rightarrow> byte list \<Rightarrow> byte list" where
  "InvCipher state rk =
     AddRoundKey 0 (InvSubBytes (InvShiftRows (fold (inv_round rk) (rev [1 ..< Nr]) (AddRoundKey Nr state rk)))) rk"

section \<open>Modes\<close>

text \<open>A buffer that is shorter than the blocks that are accessed is an error.\<close>

definition AES_ECB_encrypt :: "AES_ctx \<Rightarrow> byte list \<Rightarrow> byte list res" where
  "AES_ECB_encrypt ctx buf =
     (if length buf < AES_BLOCKLEN then Inl OutOfBounds
      else Inr (Cipher (take AES_BLOCKLEN buf) (RoundKey ctx) @ drop AES_BLOCKLEN buf))"

definition AES_ECB_decrypt :: "AES_ctx \<Rightarrow> byte list \<Rightarrow> byte list res" where
  "AES_ECB_decrypt ctx buf =
     (if length buf < AES_BLOCKLEN then Inl OutOfBounds
      else Inr (InvCipher (take AES_BLOCKLEN buf) (RoundKey ctx) @ drop AES_BLOCKLEN buf))"

definition XorWithIv :: "byte list \<Rightarrow> byte list \<Rightarrow> byte list" where
  "XorWithIv buf iv = map (\<lambda>i. buf ! i XOR iv ! i) [0 ..< AES_BLOCKLEN]"

text \<open>
  The loops of CBC, with \<open>n\<close> bytes of the length left. The last block is accessed as a whole also when
  the length ends within it.
\<close>

function cbc_encrypt :: "byte list \<Rightarrow> byte list \<Rightarrow> nat \<Rightarrow> byte list \<Rightarrow> (byte list \<times> byte list) res" where
  "cbc_encrypt rk iv n buf =
     (if n = 0 then Inr (iv, buf)
      else if length buf < AES_BLOCKLEN then Inl OutOfBounds
      else
        let c = Cipher (XorWithIv (take AES_BLOCKLEN buf) iv) rk in
        rbind (cbc_encrypt rk c (n - AES_BLOCKLEN) (drop AES_BLOCKLEN buf)) (\<lambda>(iv', rest). Inr (iv', c @ rest)))"
  by pat_completeness auto

termination cbc_encrypt
  by (relation "measure (\<lambda>(rk, iv, n, buf). n)") (auto simp: AES_BLOCKLEN_def)

function cbc_decrypt :: "byte list \<Rightarrow> byte list \<Rightarrow> nat \<Rightarrow> byte list \<Rightarrow> (byte list \<times> byte list) res" where
  "cbc_decrypt rk iv n buf =
     (if n = 0 then Inr (iv, buf)
      else if length buf < AES_BLOCKLEN then Inl OutOfBounds
      else
        let storeNextIv = take AES_BLOCKLEN buf; p = XorWithIv (InvCipher (take AES_BLOCKLEN buf) rk) iv in
        rbind (cbc_decrypt rk storeNextIv (n - AES_BLOCKLEN) (drop AES_BLOCKLEN buf)) (\<lambda>(iv', rest). Inr (iv', p @ rest)))"
  by pat_completeness auto

termination cbc_decrypt
  by (relation "measure (\<lambda>(rk, iv, n, buf). n)") (auto simp: AES_BLOCKLEN_def)

definition AES_CBC_encrypt_buffer :: "AES_ctx \<Rightarrow> byte list \<Rightarrow> 32 word \<Rightarrow> (AES_ctx \<times> byte list) res" where
  "AES_CBC_encrypt_buffer ctx buf len =
     rbind (cbc_encrypt (RoundKey ctx) (Iv ctx) (unat len) buf) (\<lambda>(iv, buf'). Inr (ctx\<lparr>Iv := iv\<rparr>, buf'))"

definition AES_CBC_decrypt_buffer :: "AES_ctx \<Rightarrow> byte list \<Rightarrow> 32 word \<Rightarrow> (AES_ctx \<times> byte list) res" where
  "AES_CBC_decrypt_buffer ctx buf len =
     rbind (cbc_decrypt (RoundKey ctx) (Iv ctx) (unat len) buf) (\<lambda>(iv, buf'). Inr (ctx\<lparr>Iv := iv\<rparr>, buf'))"

text \<open>The increment of the counter, from the last byte on.\<close>

fun inc_bytes :: "byte list \<Rightarrow> byte list" where
  "inc_bytes [] = []"
| "inc_bytes (b # bs) = (if b = 255 then 0 # inc_bytes bs else (b + 1) # bs)"

definition inc_Iv :: "byte list \<Rightarrow> byte list" where
  "inc_Iv iv = rev (inc_bytes (rev iv))"

text \<open>The loop of CTR over the bytes that are left: \<open>buffer\<close> and \<open>bi\<close> are its variables.\<close>

fun ctr_loop :: "byte list \<Rightarrow> byte list \<Rightarrow> byte list \<Rightarrow> nat \<Rightarrow> nat \<Rightarrow> byte list \<Rightarrow> (byte list \<times> byte list) res" where
  "ctr_loop rk iv buffer bi 0 buf = Inr (iv, buf)"
| "ctr_loop rk iv buffer bi (Suc n) [] = Inl OutOfBounds"
| "ctr_loop rk iv buffer bi (Suc n) (b # buf) =
     (if bi = AES_BLOCKLEN
      then let buffer' = Cipher iv rk in
        rbind (ctr_loop rk (inc_Iv iv) buffer' 1 n buf) (\<lambda>(iv', rest). Inr (iv', (b XOR buffer' ! 0) # rest))
      else rbind (ctr_loop rk iv buffer (bi + 1) n buf) (\<lambda>(iv', rest). Inr (iv', (b XOR buffer ! bi) # rest)))"

definition AES_CTR_xcrypt_buffer :: "AES_ctx \<Rightarrow> byte list \<Rightarrow> 32 word \<Rightarrow> (AES_ctx \<times> byte list) res" where
  "AES_CTR_xcrypt_buffer ctx buf len =
     rbind (ctr_loop (RoundKey ctx) (Iv ctx) [] AES_BLOCKLEN (unat len) buf) (\<lambda>(iv, buf'). Inr (ctx\<lparr>Iv := iv\<rparr>, buf'))"

end
