(* ===== verification/Aes_Props.thy ===== *)
theory Aes_Props
  imports Aes
begin

text \<open>
  Properties of the cipher of the command line client: each step of the decryption undoes the step of
  the encryption, so that a buffer is what it was after both, and the counter mode adds a key stream that
  depends on the key, the counter and the position only.
\<close>

section \<open>Steps\<close>

lemma length_steps [simp]:
  "length (AddRoundKey r s rk) = 16" "length (SubBytes s) = length s" "length (InvSubBytes s) = length s"
  "length (ShiftRows s) = length s" "length (InvShiftRows s) = length s" "length (XorWithIv s iv) = 16"
  by (simp_all add: AddRoundKey_def SubBytes_def InvSubBytes_def ShiftRows_def InvShiftRows_def XorWithIv_def
      AES_BLOCKLEN_def Let_def)

lemma list16:
  assumes "length s = 16"
  shows "s = [s ! 0, s ! 1, s ! 2, s ! 3, s ! 4, s ! 5, s ! 6, s ! 7, s ! 8, s ! 9, s ! 10, s ! 11, s ! 12, s ! 13, s ! 14, s ! 15]"
proof -
  have "s = map ((!) s) [0 ..< 16]" using assms by (metis map_nth)
  also have "[0 ..< 16] = [0, 1, 2, 3, 4, 5, 6, 7, 8, 9, 10, 11, 12, 13, 14, 15 :: nat]" by (simp add: upt_rec)
  finally show ?thesis by simp
qed

lemma block_cases:
  assumes "length (s :: byte list) = 16"
  obtains a0 a1 a2 a3 a4 a5 a6 a7 a8 a9 a10 a11 a12 a13 a14 a15 where
    "s = [a0, a1, a2, a3, a4, a5, a6, a7, a8, a9, a10, a11, a12, a13, a14, a15]"
  using list16 [OF assms] by blast

lemma shift_rows_inv:
  assumes "length s = 16"
  shows "InvShiftRows (ShiftRows s) = s"
  using assms by (rule block_cases) (simp add: ShiftRows_def InvShiftRows_def Let_def)

lemma add_round_key_inv:
  assumes "length s = 16"
  shows "AddRoundKey r (AddRoundKey r s rk) rk = s"
  using assms by (auto simp: AddRoundKey_def xor.assoc intro!: nth_equalityI)

lemma xor_iv_inv:
  assumes "length s = 16"
  shows "XorWithIv (XorWithIv s iv) iv = s"
  using assms by (auto simp: XorWithIv_def AES_BLOCKLEN_def xor.assoc intro!: nth_equalityI)

subsection \<open>Substitution\<close>

lemma sbox_table: "map (\<lambda>b. rsbox ! unat b) sbox = map word_of_nat [0 ..< 256]"
  by code_simp

lemma sbox_inv [simp]: "getSBoxInvert (getSBoxValue b) = b"
proof -
  have b: "unat b < 256" using unsigned_less [of b] by simp
  then have "map (\<lambda>b. rsbox ! unat b) sbox ! unat b = map word_of_nat [0 ..< 256] ! unat b" by (simp only: sbox_table)
  moreover have "length sbox = 256" by (simp add: sbox_def)
  ultimately show ?thesis using b by (simp add: getSBoxInvert_def getSBoxValue_def)
qed

lemma sub_bytes_inv: "InvSubBytes (SubBytes s) = s"
  by (simp add: InvSubBytes_def SubBytes_def comp_def)

subsection \<open>Mixing\<close>

lemma xtime_alt: "xtime x = push_bit 1 x XOR (if bit x 7 then 0x1b else 0)"
proof -
  have "drop_bit 7 x AND 1 = of_bool (bit x 7)" by (simp add: bit_iff_odd_drop_bit and_one_eq mod_2_eq_odd)
  then show ?thesis by (simp add: xtime_def)
qed

lemma xtime_xor: "xtime (a XOR b) = xtime a XOR xtime b"
  by (simp add: xtime_alt push_bit_xor bit_xor_iff ac_simps)

lemma multiply_consts:
  "Multiply x 0x0e = xtime x XOR xtime (xtime x) XOR xtime (xtime (xtime x))"
  "Multiply x 0x0b = x XOR xtime x XOR xtime (xtime (xtime x))"
  "Multiply x 0x0d = x XOR xtime (xtime x) XOR xtime (xtime (xtime x))"
  "Multiply x 0x09 = x XOR xtime (xtime (xtime x))"
  by (simp_all add: Multiply_def)

lemma mix_column_inv: "inv_mix_column (mix_column [a, b, c, d]) = [a, b, c, d]"
  by (simp add: inv_mix_column_def mix_column_def Let_def multiply_consts xtime_xor ac_simps)

lemma mix_columns_inv:
  assumes "length s = 16"
  shows "InvMixColumns (MixColumns s) = s"
proof -
  have len: "length (mix_column [a, b, c, d]) = 4" for a b c d by (simp add: mix_column_def Let_def)
  have four: "[0 ..< 4] = [0, 1, 2, 3 :: nat]" by (simp add: upt_rec)
  show ?thesis
    using assms
  proof (rule block_cases)
    fix a0 a1 a2 a3 a4 a5 a6 a7 a8 a9 a10 a11 a12 a13 a14 a15
    let ?c = "\<lambda>a b c d. mix_column [a, b, c, d]"
    assume s: "s = [a0, a1, a2, a3, a4, a5, a6, a7, a8, a9, a10, a11, a12, a13, a14, a15]"
    have "MixColumns s = ?c a0 a1 a2 a3 @ ?c a4 a5 a6 a7 @ ?c a8 a9 a10 a11 @ ?c a12 a13 a14 a15"
      by (simp add: MixColumns_def column_def s four)
    then show ?thesis by (simp add: InvMixColumns_def column_def four len mix_column_inv s)
  qed
qed

lemma length_mix [simp]: "length s = 16 \<Longrightarrow> length (MixColumns s) = 16"
proof -
  assume "length s = 16"
  then have "length (mix_column (column i s)) = 4" if "i < 4" for i
    using that by (simp add: mix_column_def column_def Let_def)
  then have "map (\<lambda>i. length (mix_column (column i s))) [0 ..< 4] = map (\<lambda>_. 4) [0 ..< 4]" by simp
  then show ?thesis by (simp only: MixColumns_def length_concat map_map comp_def) (simp add: sum_list_triv)
qed

section \<open>The cipher\<close>

lemma length_cipher_round [simp]: "length (cipher_round rk r s) = 16"
  by (simp add: cipher_round_def)

lemma length_rounds: "length s = 16 \<Longrightarrow> length (fold (cipher_round rk) rs s) = 16"
  by (induction rs arbitrary: s) simp_all

lemma length_Cipher [simp]: "length (Cipher s rk) = 16"
  by (simp add: Cipher_def)

lemma inv_round_cipher_round:
  assumes "length s = 16"
  shows "inv_round rk r (ShiftRows (SubBytes (cipher_round rk r s))) = ShiftRows (SubBytes s)"
  using assms by (simp add: inv_round_def shift_rows_inv sub_bytes_inv cipher_round_def add_round_key_inv mix_columns_inv)

lemma rounds_inv:
  assumes "length s = 16"
  shows "fold (inv_round rk) (rev [1 ..< Suc n]) (ShiftRows (SubBytes (fold (cipher_round rk) [1 ..< Suc n] s))) = ShiftRows (SubBytes s)"
  by (induction n) (simp_all add: inv_round_cipher_round length_rounds assms)

lemma inv_cipher:
  assumes "length s = 16"
  shows "InvCipher (Cipher s rk) rk = s"
proof -
  have n: "[1 ..< Nr] = [1 ..< Suc 9]" by (simp add: Nr_def)
  show ?thesis
    using assms by (simp only: InvCipher_def Cipher_def n add_round_key_inv length_steps length_rounds rounds_inv
        shift_rows_inv sub_bytes_inv)
qed

text \<open>What the modes rely on: a map of blocks and the map that undoes it.\<close>

locale block_cipher =
  fixes enc dec :: "byte list \<Rightarrow> byte list"
  assumes enc_length: "length (enc s) = 16"
    and dec_enc: "length s = 16 \<Longrightarrow> dec (enc s) = s"
begin

lemma enc_inj: "length s = 16 \<Longrightarrow> length t = 16 \<Longrightarrow> enc s = enc t \<longleftrightarrow> s = t"
  by (metis dec_enc)

text \<open>A block of CBC: the vector is added before the cipher, and again after it is undone.\<close>

lemma chained: "length s = 16 \<Longrightarrow> XorWithIv (dec (enc (XorWithIv s iv))) iv = s"
  by (simp add: dec_enc xor_iv_inv)

lemma chained_inj:
  "length s = 16 \<Longrightarrow> length t = 16 \<Longrightarrow> enc (XorWithIv s iv) = enc (XorWithIv t iv) \<longleftrightarrow> s = t"
  by (metis chained)

end

interpretation aes: block_cipher "\<lambda>s. Cipher s rk" "\<lambda>s. InvCipher s rk" for rk
  by unfold_locales (simp_all add: inv_cipher)

section \<open>Block chaining\<close>

declare cbc_encrypt.simps [simp del] cbc_decrypt.simps [simp del]

lemma cbc_inv:
  "length iv = 16 \<Longrightarrow> cbc_encrypt rk iv n buf = Inr (iv', c) \<Longrightarrow> cbc_decrypt rk iv n c = Inr (iv', buf)"
proof (induction rk iv n buf arbitrary: iv' c rule: cbc_encrypt.induct)
  case (1 rk iv n buf)
  show ?case
  proof (cases "n = 0")
    case True
    then show ?thesis using 1(3) by (simp add: cbc_encrypt.simps cbc_decrypt.simps)
  next
    case False
    let ?c = "Cipher (XorWithIv (take 16 buf) iv) rk"
    obtain rest where r: "cbc_encrypt rk ?c (n - 16) (drop 16 buf) = Inr (iv', rest)" "c = ?c @ rest" "16 \<le> length buf"
      using 1(3) False unfolding cbc_encrypt.simps [of rk iv n buf]
      by (auto simp: rbind_eq_Inr AES_BLOCKLEN_def Let_def split: if_splits)
    have "cbc_decrypt rk ?c (n - 16) rest = Inr (iv', drop 16 buf)"
      using 1(1) [OF False, of ?c iv' rest] r by (simp add: AES_BLOCKLEN_def)
    then show ?thesis
      using False r(2,3) by (subst cbc_decrypt.simps) (simp add: AES_BLOCKLEN_def aes.chained)
  qed
qed

lemma cbc_total: "n \<le> 16 * k \<Longrightarrow> 16 * k \<le> length buf \<Longrightarrow> \<exists>iv' c. cbc_encrypt rk iv n buf = Inr (iv', c) \<and> length c = length buf"
proof (induction k arbitrary: iv n buf)
  case 0
  then show ?case by (simp add: cbc_encrypt.simps)
next
  case (Suc k)
  let ?c = "Cipher (XorWithIv (take 16 buf) iv) rk"
  have n: "n - 16 \<le> 16 * k" "16 * k \<le> length (drop 16 buf)" using Suc.prems by auto
  obtain iv' c where "cbc_encrypt rk ?c (n - 16) (drop 16 buf) = Inr (iv', c)" "length c = length (drop 16 buf)"
    using Suc.IH [OF n] by blast
  then show ?case using Suc.prems unfolding cbc_encrypt.simps [of rk iv n buf] by (auto simp: AES_BLOCKLEN_def Let_def)
qed

text \<open>Blocks are encrypted to the same block only if they are the same.\<close>

theorem ecb_roundtrip:
  assumes "16 \<le> length buf"
  shows "\<exists>cipher. AES_ECB_encrypt ctx buf = Inr cipher \<and> AES_ECB_decrypt ctx cipher = Inr buf \<and>
    (\<forall>buf'. length buf' = length buf \<and> AES_ECB_encrypt ctx buf' = Inr cipher \<longrightarrow> buf' = buf)"
proof -
  let ?c = "Cipher (take 16 buf) (RoundKey ctx) @ drop 16 buf"
  have "AES_ECB_encrypt ctx buf = Inr ?c" "AES_ECB_decrypt ctx ?c = Inr buf"
    using assms by (simp_all add: AES_ECB_encrypt_def AES_ECB_decrypt_def AES_BLOCKLEN_def aes.dec_enc)
  moreover have "buf' = buf" if b: "length buf' = length buf" "AES_ECB_encrypt ctx buf' = Inr ?c" for buf'
  proof -
    have "Cipher (take 16 buf') (RoundKey ctx) @ drop 16 buf' = ?c"
      using b assms by (simp add: AES_ECB_encrypt_def AES_BLOCKLEN_def)
    then have "Cipher (take 16 buf') (RoundKey ctx) = Cipher (take 16 buf) (RoundKey ctx)" "drop 16 buf' = drop 16 buf"
      using append_eq_append_conv [of "Cipher (take 16 buf') (RoundKey ctx)" "Cipher (take 16 buf) (RoundKey ctx)"] by simp_all
    then have "take 16 buf' = take 16 buf" using aes.enc_inj [of "take 16 buf'" "take 16 buf" "RoundKey ctx"] assms b(1) by simp
    then show ?thesis using \<open>drop 16 buf' = drop 16 buf\<close> by (metis append_take_drop_id)
  qed
  ultimately show ?thesis by blast
qed

text \<open>
  C18. What was encrypted in CBC mode is what decryption with the same key and initialisation vector gives,
  for buffers of any length that is padded to whole blocks.
\<close>

theorem cbc_roundtrip:
  fixes ctx0 :: AES_ctx and key :: "byte list"
  assumes "length iv = 16" "16 * ((unat len + 15) div 16) \<le> length buf"
  defines "ctx \<equiv> AES_init_ctx_iv ctx0 key iv"
  shows "\<exists>ctx' cipher. AES_CBC_encrypt_buffer ctx buf len = Inr (ctx', cipher) \<and> length cipher = length buf \<and>
    AES_CBC_decrypt_buffer ctx cipher len = Inr (ctx', buf)"
proof -
  have "unat len \<le> 16 * ((unat len + 15) div 16)" by simp
  then obtain iv' c where e: "cbc_encrypt (RoundKey ctx) (Iv ctx) (unat len) buf = Inr (iv', c)" "length c = length buf"
    using cbc_total assms(2) by blast
  have "length (Iv ctx) = 16" using assms(1) by (simp add: ctx_def AES_init_ctx_iv_def AES_BLOCKLEN_def)
  then show ?thesis using e cbc_inv by (simp add: AES_CBC_encrypt_buffer_def AES_CBC_decrypt_buffer_def)
qed

section \<open>Counter mode\<close>

text \<open>Byte \<open>i\<close> of the key stream: the encrypted counter, which is incremented for every block.\<close>

definition keystream :: "byte list \<Rightarrow> byte list \<Rightarrow> nat \<Rightarrow> byte" where
  "keystream rk iv i = Cipher ((inc_Iv ^^ (i div 16)) iv) rk ! (i mod 16)"

text \<open>The number that a counter stands for, its first byte being the most significant one.\<close>

fun num_of_bytes :: "byte list \<Rightarrow> nat" where
  "num_of_bytes [] = 0"
| "num_of_bytes (b # bs) = unat b + 256 * num_of_bytes bs"

definition counter :: "byte list \<Rightarrow> nat" where
  "counter iv = num_of_bytes (rev iv)"

lemma num_of_bytes_less: "num_of_bytes bs < 256 ^ length bs"
proof (induction bs)
  case (Cons b bs)
  have "unat b < 256" using unsigned_less [of b] by simp
  then show ?case using Cons by simp
qed simp

lemma unat_255: "unat b = 255 \<longleftrightarrow> b = (255 :: byte)"
proof
  assume "unat b = 255"
  then have "word_of_nat (unat b) = (word_of_nat 255 :: byte)" by (simp only:)
  then show "b = 255" by simp
qed simp

lemma inc_bytes_num: "num_of_bytes (inc_bytes bs) = (num_of_bytes bs + 1) mod 256 ^ length bs"
proof (induction bs)
  case (Cons b bs)
  have b: "unat b < 256" using unsigned_less [of b] by simp
  show ?case
  proof (cases "b = 255")
    case True
    have "(256 * num_of_bytes bs + 256) mod (256 * 256 ^ length bs) = 256 * ((num_of_bytes bs + 1) mod 256 ^ length bs)"
      using mult_mod_right [of 256 "num_of_bytes bs + 1" "256 ^ length bs"] by (simp add: algebra_simps)
    moreover have "inc_bytes (b # bs) = 0 # inc_bytes bs" "unat b = 255" using True by (simp_all add: unat_255)
    ultimately show ?thesis unfolding num_of_bytes.simps by (simp only: Cons num_of_bytes.simps) (simp add: algebra_simps)
  next
    case False
    then have "unat b \<noteq> 255" by (simp add: unat_255)
    then have "unat (b + 1) = unat b + 1" using b by (simp add: unat_word_ariths)
    then show ?thesis using False b num_of_bytes_less [of bs] \<open>unat b \<noteq> 255\<close> by simp
  qed
qed simp

lemma length_inc_bytes [simp]: "length (inc_bytes bs) = length bs"
  by (induction bs) simp_all

lemma length_inc_Iv [simp]: "length ((inc_Iv ^^ k) iv) = length iv"
  by (induction k) (simp_all add: inc_Iv_def)

lemma counter_inc: "counter ((inc_Iv ^^ k) iv) = (counter iv + k) mod 256 ^ length iv"
proof (induction k)
  case 0
  show ?case using num_of_bytes_less [of "rev iv"] by (simp add: counter_def)
next
  case (Suc k)
  have "counter (inc_Iv x) = (counter x + 1) mod 256 ^ length x" for x
    using inc_bytes_num [of "rev x"] by (simp add: counter_def inc_Iv_def)
  then show ?case using Suc by (simp add: mod_Suc_eq)
qed

lemma keystream_next: "keystream rk iv (16 + i) = keystream rk (inc_Iv iv) i"
proof -
  have "(16 + i) div 16 = Suc (i div 16)" "(16 + i) mod 16 = i mod 16" by simp_all
  then show ?thesis by (simp add: keystream_def funpow_swap1)
qed

lemma keystream_first: "i < 16 \<Longrightarrow> keystream rk iv i = Cipher iv rk ! i"
  by (simp add: keystream_def)

text \<open>The bytes that are still to come, with \<open>bi\<close> bytes of the buffer used.\<close>

definition to_come :: "byte list \<Rightarrow> byte list \<Rightarrow> byte list \<Rightarrow> nat \<Rightarrow> nat \<Rightarrow> byte" where
  "to_come rk iv buffer bi j = (if bi + j < 16 then buffer ! (bi + j) else keystream rk iv (bi + j - 16))"

lemma ctr_loop_result:
  "1 \<le> bi \<Longrightarrow> bi \<le> 16 \<Longrightarrow> n \<le> length buf \<Longrightarrow> ctr_loop rk iv buffer bi n buf =
    Inr ((inc_Iv ^^ ((n + bi - 1) div 16)) iv, map (\<lambda>j. buf ! j XOR to_come rk iv buffer bi j) [0 ..< n] @ drop n buf)"
proof (induction rk iv buffer bi n buf rule: ctr_loop.induct)
  case (3 rk iv buffer bi n b buf)
  have split: "map f [0 ..< Suc n] = f 0 # map (\<lambda>j. f (Suc j)) [0 ..< n]" for f :: "nat \<Rightarrow> byte"
    by (simp add: upt_conv_Cons map_Suc_upt [symmetric] comp_def del: upt_Suc map_Suc_upt)
  show ?case
  proof (cases "bi = 16")
    case True
    have k: "(Suc n + bi - 1) div 16 = Suc ((n + 1 - 1) div 16)" using True by simp
    have j: "to_come rk (inc_Iv iv) (Cipher iv rk) 1 j = to_come rk iv buffer bi (Suc j)" for j
    proof (cases "j < 15")
      case False
      then obtain i where "j = 15 + i" using le_Suc_ex not_less by blast
      then show ?thesis using True keystream_next [of rk iv i] by (simp add: to_come_def)
    qed (simp add: to_come_def True keystream_first)
    have z: "to_come rk iv buffer bi 0 = Cipher iv rk ! 0" using True by (simp add: to_come_def keystream_first)
    have "ctr_loop rk (inc_Iv iv) (Cipher iv rk) 1 n buf =
        Inr ((inc_Iv ^^ ((n + 1 - 1) div 16)) (inc_Iv iv), map (\<lambda>j. buf ! j XOR to_come rk (inc_Iv iv) (Cipher iv rk) 1 j) [0 ..< n] @ drop n buf)"
      using 3(1) [of "Cipher iv rk"] 3(5) True by (simp add: AES_BLOCKLEN_def)
    then show ?thesis
      unfolding split k using True z by (simp add: AES_BLOCKLEN_def Let_def j funpow_swap1 del: One_nat_def)
  next
    case False
    then have "ctr_loop rk iv buffer (bi + 1) n buf =
        Inr ((inc_Iv ^^ ((n + (bi + 1) - 1) div 16)) iv, map (\<lambda>j. buf ! j XOR to_come rk iv buffer (bi + 1) j) [0 ..< n] @ drop n buf)"
      using 3(2-5) by (simp add: AES_BLOCKLEN_def)
    moreover have "to_come rk iv buffer (bi + 1) j = to_come rk iv buffer bi (Suc j)" for j by (simp add: to_come_def)
    ultimately show ?thesis
      unfolding split using False 3(3,4) by (simp add: AES_BLOCKLEN_def to_come_def)
  qed
qed simp_all

text \<open>
  C29. Counter mode adds the key stream to the buffer, and leaves the counter, a number of 128 bits, advanced by
  the blocks that were begun. Applied with the same counter again, it gives back the buffer.
\<close>

theorem ctr_keystream:
  assumes "length iv = 16" "unat len \<le> length buf" "Iv ctx = iv" "RoundKey ctx = rk"
  shows "\<exists>ctx' out. AES_CTR_xcrypt_buffer ctx buf len = Inr (ctx', out) \<and>
    out = map (\<lambda>i. buf ! i XOR keystream rk iv i) [0 ..< unat len] @ drop (unat len) buf \<and>
    counter (Iv ctx') = (counter iv + (unat len + 15) div 16) mod 2 ^ 128 \<and>
    AES_CTR_xcrypt_buffer ctx out len = Inr (ctx', buf)"
proof -
  let ?n = "unat len" and ?iv = "(inc_Iv ^^ ((unat len + 15) div 16)) iv"
  let ?out = "\<lambda>b. map (\<lambda>i. b ! i XOR keystream rk iv i) [0 ..< ?n] @ drop ?n b"
  have x: "AES_CTR_xcrypt_buffer ctx b len = Inr (ctx\<lparr>Iv := ?iv\<rparr>, ?out b)" if "?n \<le> length b" for b
    using ctr_loop_result [of 16 ?n b rk iv "[]"] that assms(3,4)
    by (simp add: AES_CTR_xcrypt_buffer_def AES_BLOCKLEN_def to_come_def add.commute)
  have "?out (?out buf) = buf"
    using assms(2) by (auto simp: nth_append xor.assoc intro!: nth_equalityI)
  moreover have "counter ?iv = (counter iv + (?n + 15) div 16) mod 2 ^ 128"
    using counter_inc [of _ iv] assms(1) by simp
  moreover have "?n \<le> length (?out buf)" by simp
  ultimately show ?thesis using x [OF assms(2)] x [of "?out buf"] by simp
qed

section \<open>Witnesses\<close>

definition wx_ctx :: AES_ctx where
  "wx_ctx = \<lparr>RoundKey = replicate 176 0, Iv = replicate 16 0\<rparr>"

text \<open>Witness for CBC: three blocks, of which the length ends in the third.\<close>

theorem cbc_roundtrip_witness:
  "\<exists>ctx' cipher. AES_CBC_encrypt_buffer (AES_init_ctx_iv wx_ctx (replicate 16 1) (replicate 16 2)) (replicate 48 7) 37 = Inr (ctx', cipher) \<and>
    AES_CBC_decrypt_buffer (AES_init_ctx_iv wx_ctx (replicate 16 1) (replicate 16 2)) cipher 37 = Inr (ctx', replicate 48 7)"
  using cbc_roundtrip [of "replicate 16 2" 37 "replicate 48 7" wx_ctx "replicate 16 1"] by auto

text \<open>Witness for CTR: the counter overflows from its greatest number.\<close>

theorem ctr_keystream_witness:
  "\<exists>ctx' out. AES_CTR_xcrypt_buffer (wx_ctx\<lparr>Iv := [255, 255, 255, 255, 255, 255, 255, 255, 255, 255, 255, 255, 255, 255, 255, 255]\<rparr>)
      (replicate 20 7) 20 = Inr (ctx', out) \<and> counter (Iv ctx') = 1"
proof -
  let ?iv = "[255, 255, 255, 255, 255, 255, 255, 255, 255, 255, 255, 255, 255, 255, 255, 255]"
  have "counter ?iv = 2 ^ 128 - 1" by (simp add: counter_def)
  then show ?thesis using ctr_keystream [of ?iv 20 "replicate 20 7" "wx_ctx\<lparr>Iv := ?iv\<rparr>" "RoundKey wx_ctx"] by auto
qed

end
