(* ===== verification/Working_Set.thy ===== *)
theory Working_Set
  imports Wire
begin

text \<open>
  The tools of \<^verbatim>\<open>working_set\<close>: \<^verbatim>\<open>mem_harvest.c\<close> and \<^verbatim>\<open>eatup.c\<close> lock memory in nodes and release it, the
  first also by the throughput of a benchmark whose output it reads; \<^verbatim>\<open>wss.c\<close> estimates the
  working set of a process from the idle bits of its pages. What the programs read, the results of \<^verbatim>\<open>malloc\<close>
  and the clock are arguments; printing, pipes and sleeping are left out.
\<close>

unbundle bit_operations_syntax

section \<open>Nodes of memory\<close>

text \<open>The constants that differ between the two programs.\<close>

record harvest_cfg =
  hc_grab_size :: int
  hc_max_grab :: int
  hc_max_node :: nat

definition mem_harvest_cfg :: harvest_cfg where
  "mem_harvest_cfg = \<lparr>hc_grab_size = 256 * 1024 * 1024, hc_max_grab = 2000 * 1024 * 1024, hc_max_node = 100\<rparr>"

definition eatup_cfg :: harvest_cfg where
  "eatup_cfg = \<lparr>hc_grab_size = 1024 * 1024 * 1024, hc_max_grab = 180 * 1024 * 1024 * 1024, hc_max_node = 200\<rparr>"

record mem_zone =
  mem_node :: "rsrc arr"
  position :: int
  ts1 :: "64 word"
  ts2 :: "64 word"

definition init_mem_zone :: "64 word \<Rightarrow> mem_zone" where
  "init_mem_zone now = \<lparr>mem_node = (\<lambda>_. NoRes), position = -1, ts1 = now, ts2 = 0\<rparr>"

text \<open>\<open>ok\<close> tells whether \<^verbatim>\<open>malloc\<close> succeeds; its result is not looked at.\<close>

definition grab_memory :: "harvest_cfg \<Rightarrow> bool \<Rightarrow> 64 word \<Rightarrow> mem_zone \<Rightarrow> mem_zone res" where
  "grab_memory cfg ok now z =
     (if int (hc_max_node cfg) \<le> position z \<or> hc_max_grab cfg \<le> (position z + 1) * hc_grab_size cfg then Inr z
      else
        let p = position z + 1 in
        rbind (aset (hc_max_node cfg) (mem_node z) p (if ok then Live else NoRes)) (\<lambda>m.
          Inr (z\<lparr>position := p, mem_node := m, ts1 := now\<rparr>)))"

definition release_memory :: "harvest_cfg \<Rightarrow> 64 word \<Rightarrow> mem_zone \<Rightarrow> mem_zone res" where
  "release_memory cfg now z =
     (if position z < 0 then Inr z
      else rbind (aget (hc_max_node cfg) (mem_node z) (position z)) (\<lambda>r.
        if r = NoRes then Inr z
        else rbind (put_res r) (\<lambda>r'.
          Inr (z\<lparr>mem_node := (mem_node z)(nat (position z) := r'), ts2 := now, position := position z - 1\<rparr>))))"

definition release_node :: "nat \<Rightarrow> mem_zone \<Rightarrow> mem_zone res" where
  "release_node i z =
     (if mem_node z i \<noteq> NoRes
      then rbind (put_res (mem_node z i)) (\<lambda>r. Inr (z\<lparr>mem_node := (mem_node z)(i := r)\<rparr>))
      else Inr z)"

definition release_all :: "harvest_cfg \<Rightarrow> mem_zone \<Rightarrow> mem_zone res" where
  "release_all cfg z = rfold release_node [0 ..< hc_max_node cfg] z"

section \<open>The output of the benchmark\<close>

definition delims :: "char list" where
  "delims = ''#()[]:, '' @ [CHR 0x09]"

definition ltrim :: "string \<Rightarrow> string" where
  "ltrim t = dropWhile is_space t"

definition rtrim :: "string \<Rightarrow> string" where
  "rtrim t = (if t = [] then t else rev (dropWhile is_space (rev t)))"

definition trim :: "string \<Rightarrow> string" where
  "trim t = rtrim (ltrim t)"

definition atol :: "string \<Rightarrow> int" where
  "atol t = (case scan_int t of None \<Rightarrow> 0 | Some (n, _) \<Rightarrow> n)"

text \<open>The number in front of the word \<open>key\<close>; the first token is compared with itself in front.\<close>

fun get_val_loop :: "string \<Rightarrow> string \<Rightarrow> string list \<Rightarrow> int" where
  "get_val_loop key prev [] = -1"
| "get_val_loop key prev (t # ts) =
     (if trim t = key then atol prev else get_val_loop key (trim t) ts)"

definition get_val :: "string \<Rightarrow> string \<Rightarrow> int" where
  "get_val buffer key =
     (case tokens delims buffer of [] \<Rightarrow> -1 | t # ts \<Rightarrow> get_val_loop key t (t # ts))"

definition MAX_OPS :: int where "MAX_OPS = 615202"
definition MAX_WAIT :: "64 word" where "MAX_WAIT = 5"

text \<open>
  One text of the pipe, read at second \<open>now\<close>. The thresholds \<^verbatim>\<open>MAX_OPS * SOFT\<close> and \<^verbatim>\<open>MAX_OPS * HARD\<close> are
  0.9 and 0.75 of the number of operations, which lie between integers.
\<close>

definition exec_step :: "harvest_cfg \<Rightarrow> string \<times> 64 word \<times> bool \<Rightarrow> mem_zone \<Rightarrow> mem_zone res" where
  "exec_step cfg inp z =
     (case inp of (buffer, now, ok) \<Rightarrow>
        let ops = get_val buffer ''avg'' in
        if ops \<noteq> -1 then
          (if 9 * MAX_OPS \<le> 10 * ops then (if now - ts1 z > MAX_WAIT then grab_memory cfg ok now z else Inr z)
           else if 4 * ops \<le> 3 * MAX_OPS then (if now - ts2 z > MAX_WAIT then release_memory cfg now z else Inr z)
           else Inr z)
        else Inr z)"

definition exec_cmd :: "harvest_cfg \<Rightarrow> (string \<times> 64 word \<times> bool) list \<Rightarrow> mem_zone \<Rightarrow> mem_zone res" where
  "exec_cmd cfg reads z = rfold (exec_step cfg) reads z"

datatype harvest_command =
    Grab bool "64 word" | Release "64 word" | Exec "(string \<times> 64 word \<times> bool) list" | OtherCmd

fun harvest_command_step :: "harvest_cfg \<Rightarrow> harvest_command \<Rightarrow> mem_zone \<Rightarrow> mem_zone res" where
  "harvest_command_step cfg (Grab ok now) z = grab_memory cfg ok now z"
| "harvest_command_step cfg (Release now) z = release_memory cfg now z"
| "harvest_command_step cfg (Exec reads) z = exec_cmd cfg reads z"
| "harvest_command_step cfg OtherCmd z = Inr z"

definition harvest_main :: "harvest_cfg \<Rightarrow> 64 word \<Rightarrow> harvest_command list \<Rightarrow> mem_zone res" where
  "harvest_main cfg now cmds =
     rbind (rfold (harvest_command_step cfg) cmds (init_mem_zone now)) (release_all cfg)"

text \<open>The commands of \<^verbatim>\<open>eatup.c\<close> carry a number of nodes.\<close>

definition eatup_command :: "int \<Rightarrow> int \<Rightarrow> harvest_command list" where
  "eatup_command cmd n =
     (if cmd = 1 then replicate (nat n) (Grab True 0)
      else if cmd = 2 then replicate (nat n) (Release 0) else [])"

definition eatup_main :: "(int \<times> int) list \<Rightarrow> mem_zone res" where
  "eatup_main inp = harvest_main eatup_cfg 0 (concat (map (\<lambda>(cmd, n). eatup_command cmd n) inp))"

section \<open>The idle bits\<close>

definition PFN_MASK :: "64 word" where "PFN_MASK = NOT (push_bit 55 0x1ff)"
definition PAGE_OFFSET :: "64 word" where "PAGE_OFFSET = 0xffff880000000000"
definition MAX_IDLEMAP_SIZE :: nat where "MAX_IDLEMAP_SIZE = 20 * 1024 * 1024"
definition IDLEMAP_CHUNK_SIZE :: nat where "IDLEMAP_CHUNK_SIZE = 8"

text \<open>\<open>None\<close> is a word of the buffer that was not written.\<close>

record wss =
  g_activepages :: int
  g_walkedpages :: int
  g_idlebuf :: "64 word option arr"
  g_idlebufsize :: "64 word"
  histogram :: "int arr"
  max_histogram_idx :: int

text \<open>
  The loop over the words of the bitmap, eight bytes at a time. The pointer is one to words, so that it
  advances by eight words for each of them. The size is added up, also over several calls.
\<close>

fun load_words :: "nat \<Rightarrow> 64 word list \<Rightarrow> wss \<Rightarrow> wss res" where
  "load_words p [] w = Inr w"
| "load_words p (v # vs) w =
     (if MAX_IDLEMAP_SIZE \<le> 8 * p then Inl OutOfBounds
      else load_words (p + IDLEMAP_CHUNK_SIZE) vs
        (w\<lparr>g_idlebuf := (g_idlebuf w)(p := Some v), g_idlebufsize := g_idlebufsize w + 8\<rparr>))"

definition loadidlemap :: "64 word list \<Rightarrow> wss \<Rightarrow> wss res" where
  "loadidlemap vs w = load_words 0 vs (w\<lparr>g_idlebuf := (\<lambda>_. None)\<rparr>)"

text \<open>One entry of the page map; the first result is whether the loop goes on.\<close>

definition map_entry :: "64 word \<Rightarrow> wss \<Rightarrow> (bool \<times> wss) res" where
  "map_entry e w =
     (let pfn = e AND PFN_MASK in
      if pfn = 0 then Inr (True, w)
      else
        let idlemapp = pfn div 64 * 8 in
        if idlemapp > g_idlebufsize w then Inr (False, w)
        else rbind (if MAX_IDLEMAP_SIZE \<le> 8 * unat idlemapp then Inl OutOfBounds else init_var (g_idlebuf w (unat idlemapp)))
          (\<lambda>idlebits.
             Inr (True, w\<lparr>g_activepages := (if idlebits AND push_bit (unat (pfn mod 64)) 1 = 0 then g_activepages w + 1 else g_activepages w),
                          g_walkedpages := g_walkedpages w + 1\<rparr>)))"

fun mapidle :: "64 word list \<Rightarrow> wss \<Rightarrow> (int \<times> wss) res" where
  "mapidle [] w = Inr (0, w)"
| "mapidle (e # es) w = rbind (map_entry e w) (\<lambda>(go, w'). if go then mapidle es w' else Inr (1, w'))"

text \<open>
  The mappings of the process, each with the entries of the page map for it. An error in one of them is
  reported, and the loop goes on.
\<close>

definition walkmaps :: "(64 word \<times> 64 word list) list \<Rightarrow> wss \<Rightarrow> wss res" where
  "walkmaps maps w =
     rfold (\<lambda>(mapstart, es) w. if mapstart > PAGE_OFFSET then Inr w else rbind (mapidle es w) (\<lambda>(_, w'). Inr w')) maps w"

section \<open>The histogram\<close>

definition calculate_histogram :: "wss \<Rightarrow> wss" where
  "calculate_histogram w = w\<lparr>histogram :=
     fold (\<lambda>idx h. h(idx := h idx + h (idx - 1))) [1 ..< nat (max_histogram_idx w) + 1] (histogram w)\<rparr>"

datatype app_state = WAITING | STARTED | ENDED

definition APPLICATION_ACTIVE_THRESHOLD :: int where "APPLICATION_ACTIVE_THRESHOLD = 10"

text \<open>
  The end of an epoch. The megabytes are the active pages times 4096, divided by the square of 1024; the
  division by a power of two is exact, and that of the megabytes by 100 is rounded far finer than
  its distance from the next integer, so that both casts are divisions of integers.
\<close>

definition epoch_state :: "int \<Rightarrow> app_state \<Rightarrow> app_state" where
  "epoch_state active st =
     (let mb = active div 256;
          st1 = (if st = STARTED \<and> mb < APPLICATION_ACTIVE_THRESHOLD then ENDED else st) in
      if st1 = WAITING \<and> mb > APPLICATION_ACTIVE_THRESHOLD then STARTED else st1)"

definition epoch_end :: "app_state \<times> wss \<Rightarrow> (app_state \<times> wss) res" where
  "epoch_end s =
     (case s of (st, w) \<Rightarrow>
        let st' = epoch_state (g_activepages w) st in
        if st' = STARTED then
          (let idx = g_activepages w div 25600 in
           rbind (aget 1024 (histogram w) idx) (\<lambda>n.
             Inr (st', w\<lparr>histogram := (histogram w)(nat idx := n + 1), max_histogram_idx := max (max_histogram_idx w) idx\<rparr>)))
        else Inr (st', w))"

text \<open>
  The loop of \<^verbatim>\<open>main\<close>; each epoch has the idle bits and the mappings that are read in it. Where the epochs
  end, the program is still measuring.
\<close>

fun wss_loop :: "(64 word list \<times> (64 word \<times> 64 word list) list) list \<Rightarrow> app_state \<times> wss \<Rightarrow> (app_state \<times> wss) res" where
  "wss_loop [] (st, w) = Inr (st, if st = ENDED then calculate_histogram w else w)"
| "wss_loop ((bits, maps) # es) (st, w) =
     (if st = ENDED then Inr (st, calculate_histogram w)
      else rbind (loadidlemap bits (w\<lparr>g_activepages := 0, g_walkedpages := 0\<rparr>)) (\<lambda>w1.
           rbind (walkmaps maps w1) (\<lambda>w2. rbind (epoch_end (st, w2)) (wss_loop es))))"

end
