(* ===== verification/Working_Set_Props.thy ===== *)
theory Working_Set_Props
  imports Working_Set
begin

text \<open>
  Properties of the tools of \<^verbatim>\<open>working_set\<close>: when the harvesters free a node twice, and what the histogram of
  the working set counts.
\<close>

section \<open>Nodes of memory\<close>












section \<open>Counting pages\<close>

definition pfn_of :: "64 word \<Rightarrow> nat" where
  "pfn_of e = unat (e AND PFN_MASK)"

text \<open>The pages of the entries that were touched: their bit in the bitmap is not set any more.\<close>

definition touched :: "64 word list \<Rightarrow> 64 word \<Rightarrow> bool" where
  "touched bits e \<longleftrightarrow> pfn_of e \<noteq> 0 \<and> \<not> bit (bits ! (pfn_of e div 64)) (pfn_of e mod 64)"

definition active_pages :: "64 word list \<Rightarrow> (64 word \<times> 64 word list) list \<Rightarrow> nat" where
  "active_pages bits maps = length (filter (touched bits) (concat (map snd (filter (\<lambda>m. fst m \<le> PAGE_OFFSET) maps))))"

text \<open>The buffer holds the bitmap, and every page has its bit there.\<close>

definition loaded :: "64 word list \<Rightarrow> wss \<Rightarrow> bool" where
  "loaded bits w \<longleftrightarrow> (\<forall>k < length bits. g_idlebuf w (8 * k) = Some (bits ! k)) \<and> 8 * length bits \<le> unat (g_idlebufsize w)"

definition in_range :: "64 word list \<Rightarrow> 64 word \<Rightarrow> bool" where
  "in_range bits e \<longleftrightarrow> pfn_of e < 64 * length bits"

lemma load_words_loaded:
  assumes "64 * k + 64 * length vs \<le> MAX_IDLEMAP_SIZE" "unat (g_idlebufsize w) + 8 * length vs < 2 ^ 64"
  shows "\<exists>w'. load_words (8 * k) vs w = Inr w' \<and> (\<forall>i < length vs. g_idlebuf w' (8 * (k + i)) = Some (vs ! i)) \<and>
    (\<forall>i < k. g_idlebuf w' (8 * i) = g_idlebuf w (8 * i)) \<and>
    unat (g_idlebufsize w') = unat (g_idlebufsize w) + 8 * length vs \<and>
    w' = w\<lparr>g_idlebuf := g_idlebuf w', g_idlebufsize := g_idlebufsize w'\<rparr>"
  using assms
proof (induction vs arbitrary: k w)
  case (Cons v vs)
  let ?w = "w\<lparr>g_idlebuf := (g_idlebuf w)(8 * k := Some v), g_idlebufsize := g_idlebufsize w + 8\<rparr>"
  have u: "unat (g_idlebufsize w + 8) = unat (g_idlebufsize w) + 8" using Cons.prems(2) by (simp add: unat_word_ariths)
  obtain w' where w': "load_words (8 * Suc k) vs ?w = Inr w'" "\<forall>i < length vs. g_idlebuf w' (8 * (Suc k + i)) = Some (vs ! i)"
      "\<forall>i < Suc k. g_idlebuf w' (8 * i) = g_idlebuf ?w (8 * i)" "unat (g_idlebufsize w') = unat (g_idlebufsize ?w) + 8 * length vs"
      "w' = ?w\<lparr>g_idlebuf := g_idlebuf w', g_idlebufsize := g_idlebufsize w'\<rparr>"
    using Cons.IH [of "Suc k" ?w] Cons.prems u by auto
  have "g_idlebuf w' (8 * (k + i)) = Some ((v # vs) ! i)" if "i < length (v # vs)" for i
    using w'(2,3) that by (cases i) auto
  moreover have "g_idlebuf w' (8 * i) = g_idlebuf w (8 * i)" if "i < k" for i using w'(3) that by simp
  moreover have "load_words (8 * k) (v # vs) w = Inr w'"
    using w'(1) Cons.prems(1) by (simp add: IDLEMAP_CHUNK_SIZE_def add.commute)
  moreover have "w' = w\<lparr>g_idlebuf := g_idlebuf w', g_idlebufsize := g_idlebufsize w'\<rparr>" by (subst w'(5)) simp
  ultimately show ?case using w'(4) u by auto
qed simp

lemma map_entry_result:
  assumes "loaded bits w" "in_range bits e" "64 * length bits \<le> MAX_IDLEMAP_SIZE"
  shows "map_entry e w = Inr (True, w\<lparr>g_activepages := g_activepages w + of_bool (touched bits e),
    g_walkedpages := g_walkedpages w + of_bool (pfn_of e \<noteq> 0)\<rparr>)"
proof (cases "pfn_of e = 0")
  case True
  then have "e AND PFN_MASK = 0" by (simp add: pfn_of_def unsigned_eq_0_iff)
  then show ?thesis using True by (simp add: map_entry_def touched_def)
next
  case False
  let ?pfn = "e AND PFN_MASK"
  have r: "pfn_of e div 64 < length bits" using assms(2) by (simp add: in_range_def div_less_iff_less_mult mult.commute)
  have small: "pfn_of e < 2 ^ 25" using assms(2,3) by (simp add: in_range_def MAX_IDLEMAP_SIZE_def)
  have i: "unat (?pfn div 64 * 8) = 8 * (pfn_of e div 64)" "unat (?pfn mod 64) = pfn_of e mod 64"
    using small by (simp_all add: pfn_of_def unat_word_ariths unat_div unat_mod)
  have ne: "?pfn \<noteq> 0" using False by (auto simp: pfn_of_def)
  have ok: "\<not> g_idlebufsize w < ?pfn div 64 * 8" "\<not> MAX_IDLEMAP_SIZE \<le> 8 * (8 * (pfn_of e div 64))"
      "g_idlebuf w (8 * (pfn_of e div 64)) = Some (bits ! (pfn_of e div 64))"
    using assms(1,3) r i(1) by (auto simp: loaded_def word_less_nat_alt)
  have "(v AND push_bit n 1 = 0) \<longleftrightarrow> \<not> bit v n" for v :: "64 word" and n
    by (simp add: push_bit_eq_mult and_exp_eq_0_iff_not_bit)
  then show ?thesis using ne ok i False by (simp add: map_entry_def touched_def Let_def)
qed

lemma mapidle_result:
  assumes "loaded bits w" "\<forall>e \<in> set es. in_range bits e" "64 * length bits \<le> MAX_IDLEMAP_SIZE"
  shows "mapidle es w = Inr (0, w\<lparr>g_activepages := g_activepages w + int (length (filter (touched bits) es)),
    g_walkedpages := g_walkedpages w + int (length (filter (\<lambda>e. pfn_of e \<noteq> 0) es))\<rparr>)"
  using assms(1,2)
proof (induction es arbitrary: w)
  case (Cons e es)
  let ?w = "w\<lparr>g_activepages := g_activepages w + of_bool (touched bits e), g_walkedpages := g_walkedpages w + of_bool (pfn_of e \<noteq> 0)\<rparr>"
  have "loaded bits ?w" using Cons.prems(1) by (simp add: loaded_def)
  then show ?case
    using Cons.IH [of ?w] Cons.prems map_entry_result [OF Cons.prems(1) _ assms(3), of e] by simp
qed simp

lemma walkmaps_result:
  assumes "loaded bits w" "\<forall>m \<in> set maps. \<forall>e \<in> set (snd m). in_range bits e" "64 * length bits \<le> MAX_IDLEMAP_SIZE"
  shows "\<exists>k. walkmaps maps w = Inr (w\<lparr>g_activepages := g_activepages w + int (active_pages bits maps), g_walkedpages := k\<rparr>)"
  using assms(1,2)
proof (induction maps arbitrary: w)
  case Nil
  then show ?case by (auto simp: walkmaps_def active_pages_def intro!: exI [of _ "g_walkedpages w"])
next
  case (Cons m maps)
  obtain start es where m: "m = (start, es)" by (cases m)
  show ?case
  proof (cases "start > PAGE_OFFSET")
    case True
    then have "\<not> start \<le> PAGE_OFFSET" by simp
    then show ?thesis using True Cons.IH [OF Cons.prems(1)] Cons.prems(2) by (simp add: walkmaps_def active_pages_def m)
  next
    case False
    let ?w = "w\<lparr>g_activepages := g_activepages w + int (length (filter (touched bits) es)),
        g_walkedpages := g_walkedpages w + int (length (filter (\<lambda>e. pfn_of e \<noteq> 0) es))\<rparr>"
    have "loaded bits ?w" using Cons.prems(1) by (simp add: loaded_def)
    moreover have "mapidle es w = Inr (0, ?w)" by (rule mapidle_result) (use Cons.prems assms(3) m in auto)
    ultimately show ?thesis
      using Cons.IH [of ?w] Cons.prems(2) False by (auto simp: walkmaps_def active_pages_def m algebra_simps)
  qed
qed

section \<open>Epochs\<close>

definition good_epoch :: "64 word list \<times> (64 word \<times> 64 word list) list \<Rightarrow> bool" where
  "good_epoch ep \<longleftrightarrow> 64 * length (fst ep) \<le> MAX_IDLEMAP_SIZE \<and>
     (\<forall>m \<in> set (snd ep). \<forall>e \<in> set (snd m). in_range (fst ep) e) \<and> active_pages (fst ep) (snd ep) < 1024 * 25600"

definition epoch_pages :: "64 word list \<times> (64 word \<times> 64 word list) list \<Rightarrow> nat" where
  "epoch_pages ep = active_pages (fst ep) (snd ep)"

text \<open>The epochs in which the application runs: from the first with more than 10 MB to the last before one with less.\<close>

definition measured :: "nat list \<Rightarrow> nat list" where
  "measured as = takeWhile (\<lambda>a. 10 \<le> a div 256) (dropWhile (\<lambda>a. a div 256 \<le> 10) as)"

lemma epoch_read:
  assumes "good_epoch (bits, maps)" "unat (g_idlebufsize w) + MAX_IDLEMAP_SIZE < 2 ^ 64"
  shows "\<exists>w' k. rbind (loadidlemap bits (w\<lparr>g_activepages := 0, g_walkedpages := 0\<rparr>)) (walkmaps maps) =
      Inr (w'\<lparr>g_activepages := int (active_pages bits maps), g_walkedpages := k\<rparr>) \<and>
    histogram w' = histogram w \<and> max_histogram_idx w' = max_histogram_idx w \<and>
    unat (g_idlebufsize w') \<le> unat (g_idlebufsize w) + MAX_IDLEMAP_SIZE"
proof -
  let ?w = "w\<lparr>g_activepages := 0, g_walkedpages := 0, g_idlebuf := (\<lambda>_. None)\<rparr>"
  have len: "64 * length bits \<le> MAX_IDLEMAP_SIZE" using assms(1) by (simp add: good_epoch_def)
  then obtain w' where w': "load_words (8 * 0) bits ?w = Inr w'" "\<forall>i < length bits. g_idlebuf w' (8 * (0 + i)) = Some (bits ! i)"
      "unat (g_idlebufsize w') = unat (g_idlebufsize ?w) + 8 * length bits"
      "w' = ?w\<lparr>g_idlebuf := g_idlebuf w', g_idlebufsize := g_idlebufsize w'\<rparr>"
    using load_words_loaded [of 0 bits ?w] assms(2) by auto
  have "loaded bits w'" using w'(2,3) by (simp add: loaded_def)
  then obtain k where k: "walkmaps maps w' = Inr (w'\<lparr>g_activepages := g_activepages w' + int (active_pages bits maps), g_walkedpages := k\<rparr>)"
    using walkmaps_result [OF _ _ len] assms(1) by (fastforce simp: good_epoch_def)
  have "g_activepages w' = 0" "histogram w' = histogram w" "max_histogram_idx w' = max_histogram_idx w" by (subst w'(4), simp)+
  then show ?thesis using w'(1,3) k len by (auto simp: loadidlemap_def)
qed

lemma epoch_end_result:
  assumes "g_activepages w = int a" "a < 1024 * 25600"
  shows "epoch_end (st, w) = Inr (epoch_state (int a) st, if epoch_state (int a) st = STARTED
    then w\<lparr>histogram := (histogram w)(a div 25600 := histogram w (a div 25600) + 1), max_histogram_idx := max (max_histogram_idx w) (int (a div 25600))\<rparr>
    else w)"
proof -
  have d: "int a div 25600 = int (a div 25600)" by (simp add: zdiv_int)
  have "a div 25600 < 1024" using assms(2) by (simp add: div_less_iff_less_mult)
  then show ?thesis unfolding epoch_end_def prod.case Let_def assms(1) d aget_def by simp
qed

text \<open>The histogram before it is added up: the epochs of each size.\<close>

definition hist_of :: "nat list \<Rightarrow> int arr" where
  "hist_of ms i = int (length (filter (\<lambda>a. a div 25600 = i) ms))"

definition hist_inv :: "nat list \<Rightarrow> wss \<Rightarrow> bool" where
  "hist_inv ms w \<longleftrightarrow> histogram w = hist_of ms \<and> max_histogram_idx w = int (Max (insert 0 ((\<lambda>a. a div 25600) ` set ms)))"

lemma hist_inv_add:
  assumes "hist_inv ms w"
  shows "hist_inv (ms @ [a]) (w\<lparr>histogram := (histogram w)(a div 25600 := histogram w (a div 25600) + 1),
    max_histogram_idx := max (max_histogram_idx w) (int (a div 25600))\<rparr>)"
proof -
  have "Max (insert 0 ((\<lambda>a. a div 25600) ` set (ms @ [a]))) = max (Max (insert 0 ((\<lambda>a. a div 25600) ` set ms))) (a div 25600)"
    by (simp add: insert_commute [of 0] max.commute)
  then show ?thesis using assms by (auto simp: hist_inv_def hist_of_def fun_eq_iff)
qed

text \<open>One epoch of the loop, in any state but the last.\<close>

lemma loop_epoch:
  assumes "good_epoch ep" "unat (g_idlebufsize w) + MAX_IDLEMAP_SIZE < 2 ^ 64" "st \<noteq> ENDED" "hist_inv ms w"
  shows "\<exists>w'. wss_loop (ep # eps) (st, w) = wss_loop eps (epoch_state (int (epoch_pages ep)) st, w') \<and>
    hist_inv (if epoch_state (int (epoch_pages ep)) st = STARTED then ms @ [epoch_pages ep] else ms) w' \<and>
    unat (g_idlebufsize w') \<le> unat (g_idlebufsize w) + MAX_IDLEMAP_SIZE"
proof -
  obtain bits maps where ep: "ep = (bits, maps)" by (cases ep)
  let ?a = "active_pages bits maps"
  obtain w1 k where w1: "rbind (loadidlemap bits (w\<lparr>g_activepages := 0, g_walkedpages := 0\<rparr>)) (walkmaps maps) =
      Inr (w1\<lparr>g_activepages := int ?a, g_walkedpages := k\<rparr>)" "histogram w1 = histogram w" "max_histogram_idx w1 = max_histogram_idx w"
      "unat (g_idlebufsize w1) \<le> unat (g_idlebufsize w) + MAX_IDLEMAP_SIZE"
    using epoch_read [OF assms(1) [unfolded ep] assms(2)] by blast
  let ?w = "w1\<lparr>g_activepages := int ?a, g_walkedpages := k\<rparr>"
  have "?a < 1024 * 25600" using assms(1) by (simp add: good_epoch_def ep)
  note e = epoch_end_result [of ?w ?a st, OF _ this]
  have inv: "hist_inv ms ?w" using assms(4) w1(2,3) by (simp add: hist_inv_def)
  have assoc: "rbind r (\<lambda>x. rbind (g x) f) = rbind (rbind r g) f" for r :: "wss res" and g and f :: "wss \<Rightarrow> (app_state \<times> wss) res"
    by (simp add: rbind_def split: sum.split)
  have "wss_loop (ep # eps) (st, w) = rbind (epoch_end (st, ?w)) (wss_loop eps)"
    unfolding ep wss_loop.simps assoc w1(1) using assms(3) by simp
  then show ?thesis using e hist_inv_add [OF inv, of ?a] inv w1(4) by (auto simp: epoch_pages_def ep)
qed

lemma loop_ended: "wss_loop eps (ENDED, w) = Inr (ENDED, calculate_histogram w)"
  by (cases eps) auto

lemma loop_started:
  assumes "\<forall>ep \<in> set eps. good_epoch ep" "unat (g_idlebufsize w) + length eps * MAX_IDLEMAP_SIZE < 2 ^ 64" "hist_inv ms w"
    and "\<exists>ep \<in> set eps. epoch_pages ep div 256 < 10"
  shows "\<exists>w'. wss_loop eps (STARTED, w) = Inr (ENDED, calculate_histogram w') \<and>
    hist_inv (ms @ takeWhile (\<lambda>a. 10 \<le> a div 256) (map epoch_pages eps)) w'"
  using assms
proof (induction eps arbitrary: w ms)
  case (Cons ep eps)
  let ?a = "epoch_pages ep"
  have d: "int ?a div 256 = int (?a div 256)" by (simp add: zdiv_int)
  have b: "unat (g_idlebufsize w) + MAX_IDLEMAP_SIZE < 2 ^ 64" using Cons.prems(2) by simp
  have st: "epoch_state (int ?a) STARTED = (if ?a div 256 < 10 then ENDED else STARTED)"
    unfolding epoch_state_def d by (simp add: APPLICATION_ACTIVE_THRESHOLD_def)
  obtain w' where w': "wss_loop (ep # eps) (STARTED, w) = wss_loop eps (epoch_state (int ?a) STARTED, w')"
      "hist_inv (if epoch_state (int ?a) STARTED = STARTED then ms @ [?a] else ms) w'"
      "unat (g_idlebufsize w') \<le> unat (g_idlebufsize w) + MAX_IDLEMAP_SIZE"
    using loop_epoch [OF _ b _ Cons.prems(3), of ep STARTED eps] Cons.prems(1) by auto
  show ?case
  proof (cases "?a div 256 < 10")
    case True
    then show ?thesis using w'(1,2) st loop_ended by auto
  next
    case False
    then have "\<exists>w''. wss_loop eps (STARTED, w') = Inr (ENDED, calculate_histogram w'') \<and>
        hist_inv ((ms @ [?a]) @ takeWhile (\<lambda>a. 10 \<le> a div 256) (map epoch_pages eps)) w''"
      by (intro Cons.IH) (use Cons.prems w' st in auto)
    then show ?thesis using False w'(1) st by simp
  qed
qed simp

lemma loop_waiting:
  assumes "\<forall>ep \<in> set eps. good_epoch ep" "unat (g_idlebufsize w) + length eps * MAX_IDLEMAP_SIZE < 2 ^ 64" "hist_inv [] w"
    and "\<exists>a \<in> set (dropWhile (\<lambda>a. a div 256 \<le> 10) (map epoch_pages eps)). a div 256 < 10"
  shows "\<exists>w'. wss_loop eps (WAITING, w) = Inr (ENDED, calculate_histogram w') \<and> hist_inv (measured (map epoch_pages eps)) w'"
  using assms
proof (induction eps arbitrary: w)
  case (Cons ep eps)
  let ?a = "epoch_pages ep"
  have d: "int ?a div 256 = int (?a div 256)" by (simp add: zdiv_int)
  have b: "unat (g_idlebufsize w) + MAX_IDLEMAP_SIZE < 2 ^ 64" using Cons.prems(2) by simp
  have st: "epoch_state (int ?a) WAITING = (if 10 < ?a div 256 then STARTED else WAITING)"
    unfolding epoch_state_def d by (simp add: APPLICATION_ACTIVE_THRESHOLD_def)
  obtain w' where w': "wss_loop (ep # eps) (WAITING, w) = wss_loop eps (epoch_state (int ?a) WAITING, w')"
      "hist_inv (if epoch_state (int ?a) WAITING = STARTED then [] @ [?a] else []) w'"
      "unat (g_idlebufsize w') \<le> unat (g_idlebufsize w) + MAX_IDLEMAP_SIZE"
    using loop_epoch [OF _ b _ Cons.prems(3), of ep WAITING eps] Cons.prems(1) by auto
  show ?case
  proof (cases "10 < ?a div 256")
    case True
    then have "\<exists>w''. wss_loop eps (STARTED, w') = Inr (ENDED, calculate_histogram w'') \<and>
        hist_inv ([?a] @ takeWhile (\<lambda>a. 10 \<le> a div 256) (map epoch_pages eps)) w''"
      by (intro loop_started) (use Cons.prems w' st in auto)
    then show ?thesis using True w'(1) st by (simp add: measured_def)
  next
    case False
    then have "\<exists>w''. wss_loop eps (WAITING, w') = Inr (ENDED, calculate_histogram w'') \<and> hist_inv (measured (map epoch_pages eps)) w''"
      by (intro Cons.IH) (use Cons.prems w' st in auto)
    then show ?thesis using False w'(1) st by (simp add: measured_def)
  qed
qed simp

lemma prefix_sums:
  "fold (\<lambda>idx h. h(idx := h idx + h (idx - 1))) [1 ..< Suc n] h i = (if i \<le> n then \<Sum>j \<le> i. h j else (h i :: int))"
proof (induction n arbitrary: i)
  case (Suc n)
  have "fold (\<lambda>idx h. h(idx := h idx + h (idx - 1))) [1 ..< Suc (Suc n)] h i =
      (let h' = fold (\<lambda>idx h. h(idx := h idx + h (idx - 1))) [1 ..< Suc n] h in (h'(Suc n := h' (Suc n) + h' n)) i)"
    by (simp add: Let_def)
  then show ?case using Suc by (simp add: Let_def le_Suc_eq)
qed simp

lemma sum_hist: "(\<Sum>j \<le> i. hist_of ms j) = int (length (filter (\<lambda>a. a div 25600 \<le> i) ms))"
proof (induction ms)
  case (Cons a ms)
  have "hist_of (a # ms) j = hist_of ms j + of_bool (a div 25600 = j)" for j by (simp add: hist_of_def)
  moreover have "(\<Sum>j \<le> i. of_bool (a div 25600 = j) :: int) = of_bool (a div 25600 \<le> i)" by (simp add: of_bool_def sum.delta)
  ultimately show ?case using Cons by (simp add: sum.distrib)
qed (simp add: hist_of_def)

text \<open>
  C19. The tool counts the pages that were touched in an epoch, exactly those whose idle bit is gone, and at the
  end of the application entry \<open>i\<close> of the histogram is the number of its epochs whose working set is below
  \<open>i + 1\<close> hundred megabytes, where its epochs are those from the first with more than ten
  megabytes up to the first with less.
\<close>

theorem working_set_histogram:
  assumes "\<forall>ep \<in> set eps. good_epoch ep" "length eps < 2 ^ 39" "g_idlebufsize w = 0" "histogram w = (\<lambda>_. 0)" "max_histogram_idx w = 0"
    and "\<exists>a \<in> set (dropWhile (\<lambda>a. a div 256 \<le> 10) (map epoch_pages eps)). a div 256 < 10"
  shows "\<exists>w'. wss_loop eps (WAITING, w) = Inr (ENDED, w') \<and>
    max_histogram_idx w' = int (Max (insert 0 ((\<lambda>a. a div 25600) ` set (measured (map epoch_pages eps))))) \<and>
    (\<forall>i. int i \<le> max_histogram_idx w' \<longrightarrow>
       histogram w' i = int (length (filter (\<lambda>a. a div 25600 \<le> i) (measured (map epoch_pages eps)))))"
proof -
  have "hist_inv [] w" using assms(4,5) by (simp add: hist_inv_def hist_of_def fun_eq_iff)
  moreover have "unat (g_idlebufsize w) + length eps * MAX_IDLEMAP_SIZE < 2 ^ 64"
    using assms(2,3) by (simp add: MAX_IDLEMAP_SIZE_def)
  ultimately obtain w' where w': "wss_loop eps (WAITING, w) = Inr (ENDED, calculate_histogram w')"
      "hist_inv (measured (map epoch_pages eps)) w'"
    using loop_waiting [OF assms(1) _ _ assms(6)] by blast
  have "histogram (calculate_histogram w') i = (\<Sum>j \<le> i. histogram w' j)" if "int i \<le> max_histogram_idx w'" for i
  proof -
    have "i \<le> nat (max_histogram_idx w')" using that by simp
    then show ?thesis using prefix_sums [of "nat (max_histogram_idx w')" "histogram w'" i] by (simp add: calculate_histogram_def)
  qed
  moreover have "max_histogram_idx (calculate_histogram w') = max_histogram_idx w'" by (simp add: calculate_histogram_def)
  ultimately show ?thesis using w' by (auto simp: hist_inv_def sum_hist)
qed

section \<open>Witnesses\<close>


text \<open>Witness for the histogram: one epoch with 2816 touched pages, and one with none.\<close>

definition wx_epochs :: "(64 word list \<times> (64 word \<times> 64 word list) list) list" where
  "wx_epochs = [([0], [(0, replicate 2816 1)]), ([0], [])]"

definition wx_wss :: wss where
  "wx_wss = \<lparr>g_activepages = 0, g_walkedpages = 0, g_idlebuf = (\<lambda>_. None), g_idlebufsize = 0, histogram = (\<lambda>_. 0),
     max_histogram_idx = 0\<rparr>"

lemma wx_pfn: "pfn_of 1 = 1"
proof -
  have "(1 :: 64 word) AND PFN_MASK = 1" by (simp add: PFN_MASK_def)
  then show ?thesis by (simp add: pfn_of_def)
qed

lemma wx_pages: "map epoch_pages wx_epochs = [2816, 0]" "\<forall>ep \<in> set wx_epochs. good_epoch ep"
  by (simp_all add: wx_epochs_def epoch_pages_def active_pages_def touched_def wx_pfn good_epoch_def in_range_def
      MAX_IDLEMAP_SIZE_def filter_replicate PAGE_OFFSET_def)

theorem working_set_histogram_witness:
  "\<exists>w'. wss_loop wx_epochs (WAITING, wx_wss) = Inr (ENDED, w') \<and> max_histogram_idx w' = 0 \<and> histogram w' 0 = 1"
proof -
  have "length wx_epochs < 2 ^ 39" by (simp add: wx_epochs_def)
  then show ?thesis
    using working_set_histogram [OF wx_pages(2), of wx_wss] by (fastforce simp: wx_wss_def wx_pages(1) measured_def)
qed

end
