(* ===== verification/Spot_Cli.thy ===== *)
theory Spot_Cli
  imports Proc_Files Harvest_Producer
begin

text \<open>
  The producer that is run from the command line (\<^verbatim>\<open>harvester/producer-cli/producer-cli.c\<close>, \<^verbatim>\<open>producer-cli.h\<close>): it
  follows the available memory like the producer of \<open>Harvest_Producer\<close>, with nodes of another size and a
  band between the thresholds, and sets the size of a Redis server. The replies of the server
  are arguments, \<open>None\<close> where there is none.
\<close>

section \<open>The client\<close>

definition cli_alloc_threshold :: int where "cli_alloc_threshold = 8 * 2 ^ 30"
definition cli_evict_threshold :: int where "cli_evict_threshold = 2 ^ 30"
definition cli_node_size :: int where "cli_node_size = 512 * 2 ^ 20"

record spot_cli =
  sc_total_memory :: int
  sc_est_available_memory :: int
  sc_harvested_memory :: int
  sc_sent :: "string list"

definition set_spot_size :: "string option \<Rightarrow> int \<Rightarrow> spot_cli \<Rightarrow> spot_cli res" where
  "set_spot_size reply n s =
     (case reply of
        None \<Rightarrow> Inl NullDeref
      | Some _ \<Rightarrow> Inr (s\<lparr>sc_sent := sc_sent s @ [''CONFIG SET maxmemory '' @ print_int n]\<rparr>))"

text \<open>The reply is freed before the size is read from it.\<close>

definition get_spot_size :: "string list option \<Rightarrow> int res" where
  "get_spot_size reply =
     (case reply of
        None \<Rightarrow> Inl NullDeref
      | Some els \<Rightarrow> if length els < 2 then Inl OutOfBounds else Inl UseAfterFree)"

definition cli_update_est :: "int \<Rightarrow> spot_cli \<Rightarrow> int \<times> spot_cli" where
  "cli_update_est available s =
     (let est = fl_to_int (fl_add (fl_mul g_ewma_beta (fl_of_int available))
                  (fl_mul (fl_add (fl_of_int 1) (fl_neg g_ewma_beta))
                     (fl_of_int (sc_est_available_memory s))))
      in (min est available, s\<lparr>sc_est_available_memory := est\<rparr>))"

function cli_evict_loop :: "int \<Rightarrow> int \<Rightarrow> int" where
  "cli_evict_loop est harvested =
     (if cli_evict_threshold - (est - harvested) > 0 \<and> harvested > MIN_SPOT_SIZE
      then cli_evict_loop est (harvested - cli_node_size)
      else harvested)"
  by pat_completeness auto
termination
  by (relation "measure (\<lambda>(est, harvested). nat harvested)") (auto simp: cli_node_size_def MIN_SPOT_SIZE_def)

declare cli_evict_loop.simps [simp del]

text \<open>One round of the loop of \<^verbatim>\<open>main\<close>.\<close>

definition cli_round :: "string option \<Rightarrow> int \<Rightarrow> spot_cli \<Rightarrow> spot_cli res" where
  "cli_round reply available s =
     (let (est, s1) = cli_update_est available s; h = sc_harvested_memory s1 in
      if est - h < cli_evict_threshold then
        (let h' = max (cli_evict_loop est h) MIN_SPOT_SIZE in
         set_spot_size reply h' (s1\<lparr>sc_harvested_memory := h'\<rparr>))
      else if est - h > cli_alloc_threshold then
        set_spot_size reply (h + cli_node_size) (s1\<lparr>sc_harvested_memory := h + cli_node_size\<rparr>)
      else Inr s1)"

definition cli_start :: "int \<Rightarrow> spot_cli" where
  "cli_start n = \<lparr>sc_total_memory = n, sc_est_available_memory = 0, sc_harvested_memory = 0, sc_sent = []\<rparr>"

section \<open>What a round does\<close>

lemma cli_evict_result:
  "cli_evict_loop est h \<le> h \<and> (cli_evict_loop est h \<le> MIN_SPOT_SIZE \<or> cli_evict_threshold \<le> est - cli_evict_loop est h) \<and>
    (cli_evict_loop est h < h \<longrightarrow> MIN_SPOT_SIZE < cli_evict_loop est h + cli_node_size \<and>
       est - (cli_evict_loop est h + cli_node_size) < cli_evict_threshold)"
proof (induction est h rule: cli_evict_loop.induct)
  case (1 est h)
  show ?case
  proof (cases "cli_evict_threshold - (est - h) > 0 \<and> h > MIN_SPOT_SIZE")
    case True
    then have e: "cli_evict_loop est h = cli_evict_loop est (h - cli_node_size)" by (subst cli_evict_loop.simps) simp
    have "0 < cli_node_size" by (simp add: cli_node_size_def)
    then show ?thesis
      using True 1 [OF True] unfolding e
      by (cases "cli_evict_loop est (h - cli_node_size) = h - cli_node_size") (auto simp: algebra_simps)
  next
    case False
    then have "cli_evict_loop est h = h" by (subst cli_evict_loop.simps) (simp only: if_False)
    then show ?thesis using False by auto
  qed
qed

text \<open>
  A round with a server that answers shrinks the harvested memory just below the
  threshold, adds one node, or leaves it, and tells the server the new size. The band between the
  thresholds is wide enough that a node that was added is not evicted while the estimate stays.
\<close>

theorem spot_size_followed:
  assumes "cli_update_est available s = (est, s1)" "MIN_SPOT_SIZE \<le> sc_harvested_memory s" "reply \<noteq> None"
  shows "\<exists>s'. cli_round reply available s = Inr s' \<and> MIN_SPOT_SIZE \<le> sc_harvested_memory s' \<and>
    (sc_harvested_memory s' = sc_harvested_memory s \<or> sc_sent s' = sc_sent s @ [''CONFIG SET maxmemory '' @ print_int (sc_harvested_memory s')]) \<and>
    (sc_harvested_memory s' < sc_harvested_memory s \<longrightarrow> est - sc_harvested_memory s < cli_evict_threshold) \<and>
    (sc_harvested_memory s < sc_harvested_memory s' \<longrightarrow>
       sc_harvested_memory s' = sc_harvested_memory s + cli_node_size \<and> cli_evict_threshold \<le> est - sc_harvested_memory s') \<and>
    (cli_evict_threshold \<le> est - sc_harvested_memory s' \<or> sc_harvested_memory s' = MIN_SPOT_SIZE)"
proof -
  obtain r where r: "reply = Some r" using assms(3) by auto
  have s1: "sc_harvested_memory s1 = sc_harvested_memory s" "sc_sent s1 = sc_sent s"
    using assms(1) by (auto simp: cli_update_est_def Let_def)
  note e = cli_evict_result [of est "sc_harvested_memory s"]
  have sizes: "0 < cli_node_size" "cli_evict_threshold \<le> cli_alloc_threshold - cli_node_size"
    by (simp_all add: cli_node_size_def cli_evict_threshold_def cli_alloc_threshold_def)
  show ?thesis
    using e assms(1,2) s1 sizes r by (auto simp: cli_round_def set_spot_size_def Let_def max_def)
qed

text \<open>Witness: four gigabytes of estimated memory with three and a half harvested; the round evicts.\<close>

theorem spot_size_followed_witness:
  "\<exists>s'. cli_round (Some ''OK'') 0 ((cli_start 0)\<lparr>sc_harvested_memory := 7 * 512 * 2 ^ 20\<rparr>) = Inr s' \<and> MIN_SPOT_SIZE \<le> sc_harvested_memory s'"
proof -
  let ?s = "(cli_start 0)\<lparr>sc_harvested_memory := 7 * 512 * 2 ^ 20\<rparr>"
  obtain est s1 where "cli_update_est 0 ?s = (est, s1)" by fastforce
  then show ?thesis using spot_size_followed [of 0 ?s est s1 "Some ''OK''"] by (fastforce simp: MIN_SPOT_SIZE_def)
qed

end
